(* ===== verification/Go_Prelude.thy ===== *)
theory Go_Prelude
  imports Main "HOL-Library.Word" "HOL-Library.Sublist"
begin

text \<open>
  Shared vocabulary of the development: the parts of the Go language and of its standard
  library that the modelled packages use, and the generic lemmas their proofs share.

  Go strings are byte strings, modelled as \<^typ>\<open>string\<close> (a list of 8-bit characters).  A
  \<open>time.Time\<close> is the number of nanoseconds since Go's zero time (so the zero value is 0) and
  a \<open>time.Duration\<close> a number of nanoseconds, both as \<^typ>\<open>int\<close>; a \<open>uint64\<close> counter is a
  \<^typ>\<open>64 word\<close>.

  \<open>strings.ToUpper\<close> and \<open>strings.ToLower\<close> have an ASCII path, modelled byte by byte, and a
  Unicode path that consults the tables of package \<open>unicode\<close>; the latter is an argument
  of the model (the \<open>uni\<close> argument below), so every theorem holds whatever those tables say.
\<close>

named_theorems go_defs \<open>unfolding rules for the definitions of the component under proof\<close>

type_synonym gotime = int
type_synonym duration = int

text \<open>
  The parts of the standard library that consult the Unicode tables: the non-ASCII paths of
  \<open>strings.ToUpper\<close>, \<open>strings.ToLower\<close> and \<open>strings.EqualFold\<close>, and \<open>strconv.Quote\<close> on strings
  that need an escape.
\<close>

record unicode_map =
  uni_upper :: "string \<Rightarrow> string"
  uni_lower :: "string \<Rightarrow> string"
  uni_fold :: "string \<Rightarrow> string \<Rightarrow> bool"
  uni_quote :: "string \<Rightarrow> string"

definition plain_map :: unicode_map where
  "plain_map = \<lparr>uni_upper = (\<lambda>s. s), uni_lower = (\<lambda>s. s), uni_fold = (=), uni_quote = (\<lambda>s. s)\<rparr>"

abbreviation (input) zero_time :: gotime where
  "zero_time \<equiv> 0"

abbreviation Millisecond :: duration where
  "Millisecond \<equiv> 1000000"

abbreviation Second :: duration where
  "Second \<equiv> 1000000000"

abbreviation Minute :: duration where
  "Minute \<equiv> 60000000000"

abbreviation Hour :: duration where
  "Hour \<equiv> 3600000000000"

text \<open>The largest value of a 64-bit Go \<open>int\<close> (and of a \<open>time.Duration\<close>).\<close>

definition intMax :: int where
  "intMax = 9223372036854775807"

text \<open>\<open>Time.Sub\<close> saturates at the largest and the smallest duration.\<close>

definition time_sub :: "gotime \<Rightarrow> gotime \<Rightarrow> duration" where
  "time_sub t u = max (- intMax - 1) (min intMax (t - u))"

lemma time_sub_le_iff: "0 \<le> w \<Longrightarrow> w < intMax \<Longrightarrow> time_sub t u \<le> w \<longleftrightarrow> t - u \<le> w"
  by (auto simp: time_sub_def intMax_def)

subsection \<open>Strings\<close>

definition byte_val :: "char \<Rightarrow> nat" where
  "byte_val c = of_char c"

definition is_ascii :: "string \<Rightarrow> bool" where
  "is_ascii s = list_all (\<lambda>c. byte_val c < 128) s"

definition byte_upper :: "char \<Rightarrow> char" where
  "byte_upper c = (if 97 \<le> byte_val c \<and> byte_val c \<le> 122 then char_of (byte_val c - 32) else c)"

definition byte_lower :: "char \<Rightarrow> char" where
  "byte_lower c = (if 65 \<le> byte_val c \<and> byte_val c \<le> 90 then char_of (byte_val c + 32) else c)"

text \<open>\<open>strings.ToUpper\<close> and \<open>strings.ToLower\<close>; \<open>uni\<close> is the Unicode path.\<close>

definition ToUpper :: "unicode_map \<Rightarrow> string \<Rightarrow> string" where
  "ToUpper uni s = (if is_ascii s then map byte_upper s else uni_upper uni s)"

definition ToLower :: "unicode_map \<Rightarrow> string \<Rightarrow> string" where
  "ToLower uni s = (if is_ascii s then map byte_lower s else uni_lower uni s)"

text \<open>\<open>strings.EqualFold\<close>, and the \<open>%q\<close> verb of \<open>fmt\<close>.\<close>

definition EqualFold :: "unicode_map \<Rightarrow> string \<Rightarrow> string \<Rightarrow> bool" where
  "EqualFold uni s t =
     (if is_ascii s \<and> is_ascii t then map byte_lower s = map byte_lower t else uni_fold uni s t)"

definition plain_byte :: "char \<Rightarrow> bool" where
  "plain_byte c \<longleftrightarrow> 32 \<le> byte_val c \<and> byte_val c < 127 \<and> c \<noteq> CHR 0x22 \<and> c \<noteq> CHR 0x5C"

definition Quote :: "unicode_map \<Rightarrow> string \<Rightarrow> string" where
  "Quote uni s = (if list_all plain_byte s then [CHR 0x22] @ s @ [CHR 0x22] else uni_quote uni s)"

definition HasPrefix :: "string \<Rightarrow> string \<Rightarrow> bool" where
  "HasPrefix s p = prefix p s"

definition HasSuffix :: "string \<Rightarrow> string \<Rightarrow> bool" where
  "HasSuffix s p = suffix p s"

text \<open>\<open>strings.Contains\<close>: the substring starts at some position of the string.\<close>

fun Contains :: "string \<Rightarrow> string \<Rightarrow> bool" where
  "Contains [] sub = (sub = [])"
| "Contains (c # s) sub = (prefix sub (c # s) \<or> Contains s sub)"

lemma Contains_iff_sublist: "Contains s sub \<longleftrightarrow> sublist sub s"
  by (induction s) (auto simp: sublist_Cons_right)

text \<open>\<open>strings.ReplaceAll\<close> where both arguments are one byte.\<close>

definition replace_byte :: "char \<Rightarrow> char \<Rightarrow> string \<Rightarrow> string" where
  "replace_byte old new s = map (\<lambda>c. if c = old then new else c) s"

text \<open>
  \<open>strings.TrimSpace\<close> removes the code points \<open>unicode.IsSpace\<close> accepts from both ends.  In a
  byte string a code point at an end is recognised by its UTF-8 encoding.
\<close>

definition space_encodings :: "string list" where
  "space_encodings =
     [[CHR 0x20], [CHR 0x09], [CHR 0x0A], [CHR 0x0B], [CHR 0x0C], [CHR 0x0D],
      [CHR 0xC2, CHR 0x85], [CHR 0xC2, CHR 0xA0], [CHR 0xE1, CHR 0x9A, CHR 0x80],
      [CHR 0xE2, CHR 0x80, CHR 0x80], [CHR 0xE2, CHR 0x80, CHR 0x81], [CHR 0xE2, CHR 0x80, CHR 0x82],
      [CHR 0xE2, CHR 0x80, CHR 0x83], [CHR 0xE2, CHR 0x80, CHR 0x84], [CHR 0xE2, CHR 0x80, CHR 0x85],
      [CHR 0xE2, CHR 0x80, CHR 0x86], [CHR 0xE2, CHR 0x80, CHR 0x87], [CHR 0xE2, CHR 0x80, CHR 0x88],
      [CHR 0xE2, CHR 0x80, CHR 0x89], [CHR 0xE2, CHR 0x80, CHR 0x8A], [CHR 0xE2, CHR 0x80, CHR 0xA8],
      [CHR 0xE2, CHR 0x80, CHR 0xA9], [CHR 0xE2, CHR 0x80, CHR 0xAF], [CHR 0xE2, CHR 0x81, CHR 0x9F],
      [CHR 0xE3, CHR 0x80, CHR 0x80]]"

function trim_prefixes :: "string list \<Rightarrow> string \<Rightarrow> string" where
  "trim_prefixes es s =
     (case find (\<lambda>e. e \<noteq> [] \<and> prefix e s) es of
        None \<Rightarrow> s
      | Some e \<Rightarrow> trim_prefixes es (drop (length e) s))"
  by pat_completeness auto
termination
proof (relation "measure (\<lambda>(es, s). length s)")
  fix es s e
  assume "find (\<lambda>e. e \<noteq> [] \<and> prefix e s) es = Some e"
  then have "e \<noteq> []" and "prefix e s"
    by (auto simp: find_Some_iff)
  then have "0 < length e" and "length e \<le> length s"
    by (simp_all add: prefix_length_le)
  then have "length (drop (length e) s) < length s"
    by (simp only: length_drop)
  then show "((es, drop (length e) s), (es, s)) \<in> measure (\<lambda>(es, s). length s)"
    by simp
qed auto

declare trim_prefixes.simps [simp del]

definition TrimSpace :: "string \<Rightarrow> string" where
  "TrimSpace s =
     rev (trim_prefixes (map rev space_encodings) (rev (trim_prefixes space_encodings s)))"

lemma suffix_trim_prefixes: "suffix (trim_prefixes es s) s"
proof (induction es s rule: trim_prefixes.induct)
  case (1 es s)
  show ?case
  proof (cases "find (\<lambda>e. e \<noteq> [] \<and> prefix e s) es")
    case None
    then show ?thesis by (subst trim_prefixes.simps) simp
  next
    case (Some e)
    with "1.IH" have "suffix (trim_prefixes es (drop (length e) s)) (drop (length e) s)"
      by blast
    moreover have "suffix (drop (length e) s) s" by (rule suffix_drop)
    ultimately show ?thesis
      using Some by (subst trim_prefixes.simps) (simp add: suffix_order.order_trans)
  qed
qed

lemma trim_prefixes_fixed:
  "e \<in> set es \<Longrightarrow> e \<noteq> [] \<Longrightarrow> \<not> prefix e (trim_prefixes es s)"
proof (induction es s rule: trim_prefixes.induct)
  case (1 es s)
  show ?case
  proof (cases "find (\<lambda>e. e \<noteq> [] \<and> prefix e s) es")
    case None
    then have "trim_prefixes es s = s" by (subst trim_prefixes.simps) simp
    with None "1.prems" show ?thesis by (auto simp: find_None_iff)
  next
    case (Some e')
    with "1.IH" "1.prems" have "\<not> prefix e (trim_prefixes es (drop (length e') s))"
      by blast
    with Some show ?thesis by (subst trim_prefixes.simps) simp
  qed
qed

lemma trim_prefixes_id:
  assumes "\<And>e. e \<in> set es \<Longrightarrow> e \<noteq> [] \<Longrightarrow> \<not> prefix e s"
  shows "trim_prefixes es s = s"
proof -
  have "find (\<lambda>e. e \<noteq> [] \<and> prefix e s) es = None"
    using assms by (auto simp: find_None_iff)
  then show ?thesis by (subst trim_prefixes.simps) simp
qed

lemma prefix_rev_suffix: "suffix xs ys \<Longrightarrow> prefix (rev xs) (rev ys)"
  by (simp add: suffix_to_prefix)

lemma TrimSpace_idem [simp]: "TrimSpace (TrimSpace s) = TrimSpace s"
proof -
  let ?l = "trim_prefixes space_encodings s"
  let ?r = "trim_prefixes (map rev space_encodings) (rev ?l)"
  have "suffix ?r (rev ?l)" by (rule suffix_trim_prefixes)
  then have pre: "prefix (rev ?r) ?l" using prefix_rev_suffix by fastforce
  have "trim_prefixes space_encodings (rev ?r) = rev ?r"
  proof (rule trim_prefixes_id)
    fix e
    assume e: "e \<in> set space_encodings" "e \<noteq> []"
    then have "\<not> prefix e ?l" by (rule trim_prefixes_fixed)
    then show "\<not> prefix e (rev ?r)" using pre by (meson prefix_order.order_trans)
  qed
  moreover have "trim_prefixes (map rev space_encodings) ?r = ?r"
    by (rule trim_prefixes_id) (use trim_prefixes_fixed in blast)
  ultimately show ?thesis by (simp add: TrimSpace_def)
qed

lemma TrimSpace_Nil [simp]: "TrimSpace [] = []"
proof -
  have "suffix (trim_prefixes es []) []" for es by (rule suffix_trim_prefixes)
  then show ?thesis by (simp add: TrimSpace_def)
qed

subsection \<open>Case folding, splitting and trimming by bytes\<close>

text \<open>
  \<open>strings.EqualFold\<close> against an ASCII constant without the letters k and s.  Those two are the
  only ASCII letters that another code point (U+212A, U+017F) folds to, so for such a constant
  folding is ASCII case folding.
\<close>

definition EqualFold_ascii :: "string \<Rightarrow> string \<Rightarrow> bool" where
  "EqualFold_ascii s t = (map byte_lower s = map byte_lower t)"

text \<open>\<open>strings.Split\<close> by a one-byte separator, \<open>strings.Trim\<close> by a set of ASCII bytes, \<open>strings.Join\<close>.\<close>

fun split_on :: "char \<Rightarrow> string \<Rightarrow> string list" where
  "split_on sep [] = [[]]"
| "split_on sep (c # s) =
     (if c = sep then [] # split_on sep s
      else case split_on sep s of [] \<Rightarrow> [[c]] | x # xs \<Rightarrow> (c # x) # xs)"

definition trim_bytes :: "string \<Rightarrow> string \<Rightarrow> string" where
  "trim_bytes cutset s =
     (let drop_cut = dropWhile (\<lambda>c. List.member cutset c) in rev (drop_cut (rev (drop_cut s))))"

fun join :: "string \<Rightarrow> string list \<Rightarrow> string" where
  "join sep [] = []"
| "join sep [s] = s"
| "join sep (s # t # ss) = s @ sep @ join sep (t # ss)"

lemma join_split_on: "join [sep] (split_on sep s) = s"
proof (induction sep s rule: split_on.induct)
  case (2 sep c s)
  have ne: "split_on sep s \<noteq> []" by (cases s) (auto split: list.splits)
  then obtain x xs where x: "split_on sep s = x # xs" by (cases "split_on sep s") auto
  then show ?case using 2 by (cases xs) auto
qed simp

subsection \<open>Numerals and hexadecimal text\<close>

definition digit :: "nat \<Rightarrow> char" where
  "digit n = (if n < 10 then char_of (48 + n) else char_of (87 + n))"

fun decimal :: "nat \<Rightarrow> string" where
  "decimal n = (if n < 10 then [digit n] else decimal (n div 10) @ [digit (n mod 10)])"

declare decimal.simps [simp del]

text \<open>\<open>hex.EncodeToString\<close>: two lower-case digits per byte.\<close>

definition hex_byte :: "char \<Rightarrow> string" where
  "hex_byte c = [digit (byte_val c div 16), digit (byte_val c mod 16)]"

definition hex_encode :: "string \<Rightarrow> string" where
  "hex_encode s = concat (map hex_byte s)"

lemma byte_val_less: "byte_val c < 256"
  by (simp add: byte_val_def)

lemma digit_inj: "m < 16 \<Longrightarrow> n < 16 \<Longrightarrow> digit m = digit n \<Longrightarrow> m = n"
proof -
  assume m: "m < 16" "n < 16" and d: "digit m = digit n"
  have v: "k < 16 \<Longrightarrow> of_char (digit k) = (if k < 10 then 48 + k else 87 + k)" for k :: nat
    by (simp add: digit_def)
  have "(of_char (digit m) :: nat) = of_char (digit n)" by (simp only: d)
  then show "m = n" using v m by (simp split: if_splits)
qed

lemma hex_byte_inj: "hex_byte c = hex_byte d \<Longrightarrow> c = d"
proof -
  assume "hex_byte c = hex_byte d"
  then have "byte_val c div 16 = byte_val d div 16" and "byte_val c mod 16 = byte_val d mod 16"
    using byte_val_less [of c] byte_val_less [of d] by (auto simp: hex_byte_def intro!: digit_inj)
  then have "byte_val c = byte_val d" by (metis div_mult_mod_eq)
  then show "c = d" by (simp add: byte_val_def)
qed

lemma hex_encode_inj: "hex_encode s = hex_encode t \<Longrightarrow> s = t"
proof (induction s arbitrary: t)
  case Nil
  then show ?case by (cases t) (auto simp: hex_encode_def hex_byte_def)
next
  case (Cons c s)
  then obtain d t' where t: "t = d # t'" by (cases t) (auto simp: hex_encode_def hex_byte_def)
  have "hex_byte c @ hex_encode s = hex_byte d @ hex_encode t'"
    using Cons.prems by (simp add: t hex_encode_def)
  moreover have "length (hex_byte c) = length (hex_byte d)" by (simp add: hex_byte_def)
  ultimately show ?case using Cons.IH hex_byte_inj t by auto
qed

end
