(* ===== verification/Delivery_Circuit.thy ===== *)
theory Delivery_Circuit
  imports Go_Prelude
begin

text \<open>
  The generation-owned delivery circuit breaker of \<^verbatim>\<open>internal/observability/delivery/circuit.go\<close>,
  with the closed vocabularies of \<^verbatim>\<open>types.go\<close> it uses.

  A nil \<open>*Circuit\<close> is \<^const>\<open>None\<close>.  Each method holds the circuit's mutex for its whole body, so
  one call is one step.  The locale \<open>breaker\<close> states the contract the stand-alone circuit shares
  with the breaker embedded in the dispatcher; it is interpreted here on the former and in
  theory \<open>Delivery_Dispatcher\<close> on the latter.
\<close>

subsection \<open>Vocabulary (types.go)\<close>

datatype ErrorCode =
    ErrorInvalidConfig | ErrorInvalidContext | ErrorInvalidPayload | ErrorInvalidIdentity

text \<open>The string types keep a constructor for the values outside their named constants.\<close>

datatype FailureClass =
    FailureClassTransient
  | FailureClassAuthentication
  | FailureClassPermanentPayload
  | FailureClassUnsafeEndpoint
  | FailureClassOther string

datatype CircuitState =
    CircuitClosed | CircuitOpen | CircuitHalfOpen | CircuitStateOther string

datatype CircuitAdmission =
    CircuitAdmissionNormal | CircuitAdmissionBlocked | CircuitAdmissionProbe

record CircuitPolicy =
  TransientFailureThreshold :: int
  OpenDuration :: duration

subsection \<open>Constants\<close>

definition maxCircuitFailureThreshold :: int where
  "maxCircuitFailureThreshold = 32"

definition maxCircuitOpenDuration :: duration where
  "maxCircuitOpenDuration = 24 * Hour"

definition defaultCircuitFailureThreshold :: int where
  "defaultCircuitFailureThreshold = 3"

definition defaultCircuitOpenDuration :: duration where
  "defaultCircuitOpenDuration = 30 * Second"

definition immediateCircuitOpenDuration :: duration where
  "immediateCircuitOpenDuration = maxCircuitOpenDuration"

definition authenticationCircuitOpenDuration :: duration where
  "authenticationCircuitOpenDuration = 5 * Minute"

definition halfOpenProbeDeadline :: duration where
  "halfOpenProbeDeadline = 10 * Minute"

lemmas circuit_constants =
  maxCircuitFailureThreshold_def maxCircuitOpenDuration_def defaultCircuitFailureThreshold_def
  defaultCircuitOpenDuration_def immediateCircuitOpenDuration_def
  authenticationCircuitOpenDuration_def halfOpenProbeDeadline_def

subsection \<open>The circuit and its operations\<close>

record Circuit =
  c_policy :: CircuitPolicy
  c_state :: CircuitState
  c_consecutiveFailures :: "64 word"
  c_openUntil :: gotime
  c_halfOpenUntil :: gotime
  c_lastFailureClass :: FailureClass

definition normalizedCircuitPolicy :: "CircuitPolicy \<Rightarrow> CircuitPolicy option" where
  "normalizedCircuitPolicy policy =
     (if TransientFailureThreshold policy = 0 \<and> OpenDuration policy = 0
      then Some \<lparr>TransientFailureThreshold = defaultCircuitFailureThreshold,
                 OpenDuration = defaultCircuitOpenDuration\<rparr>
      else if TransientFailureThreshold policy \<le> 0
           \<or> TransientFailureThreshold policy > maxCircuitFailureThreshold
           \<or> OpenDuration policy \<le> 0 \<or> OpenDuration policy > maxCircuitOpenDuration
      then None
      else Some policy)"

definition NewCircuit :: "CircuitPolicy \<Rightarrow> ErrorCode + Circuit" where
  "NewCircuit policy =
     (case normalizedCircuitPolicy policy of
        None \<Rightarrow> Inl ErrorInvalidConfig
      | Some normalized \<Rightarrow>
          Inr \<lparr>c_policy = normalized, c_state = CircuitClosed, c_consecutiveFailures = 0,
               c_openUntil = zero_time, c_halfOpenUntil = zero_time,
               c_lastFailureClass = FailureClassOther ''''\<rparr>)"

definition grantProbeLocked :: "Circuit \<Rightarrow> gotime \<Rightarrow> Circuit" where
  "grantProbeLocked circuit now =
     circuit\<lparr>c_state := CircuitHalfOpen, c_halfOpenUntil := now + halfOpenProbeDeadline\<rparr>"

fun Admit :: "Circuit option \<Rightarrow> gotime \<Rightarrow> Circuit option \<times> CircuitAdmission" where
  "Admit None now = (None, CircuitAdmissionBlocked)"
| "Admit (Some circuit) now =
     (case c_state circuit of
        CircuitClosed \<Rightarrow> (Some circuit, CircuitAdmissionNormal)
      | CircuitOpen \<Rightarrow>
          if now < c_openUntil circuit then (Some circuit, CircuitAdmissionBlocked)
          else (Some (grantProbeLocked circuit now), CircuitAdmissionProbe)
      | CircuitHalfOpen \<Rightarrow>
          if now < c_halfOpenUntil circuit then (Some circuit, CircuitAdmissionBlocked)
          else (Some (grantProbeLocked circuit now), CircuitAdmissionProbe)
      | CircuitStateOther _ \<Rightarrow> (Some circuit, CircuitAdmissionBlocked))"

fun RecordSuccess :: "Circuit option \<Rightarrow> Circuit option" where
  "RecordSuccess None = None"
| "RecordSuccess (Some circuit) =
     Some (circuit\<lparr>c_state := CircuitClosed, c_consecutiveFailures := 0,
                   c_openUntil := zero_time, c_halfOpenUntil := zero_time\<rparr>)"

fun AbortProbe :: "Circuit option \<Rightarrow> Circuit option \<times> bool" where
  "AbortProbe None = (None, False)"
| "AbortProbe (Some circuit) =
     (if c_state circuit \<noteq> CircuitHalfOpen then (Some circuit, False)
      else (Some (circuit\<lparr>c_state := CircuitOpen, c_halfOpenUntil := zero_time\<rparr>), True))"

definition immediateCircuitOpenDurationFor :: "FailureClass \<Rightarrow> duration" where
  "immediateCircuitOpenDurationFor class =
     (if class = FailureClassAuthentication then authenticationCircuitOpenDuration
      else immediateCircuitOpenDuration)"

text \<open>The increment of a \<open>uint64\<close> counter guarded by \<open>c < ^uint64(0)\<close>.\<close>

definition saturating_inc :: "64 word \<Rightarrow> 64 word" where
  "saturating_inc n = (if n < - 1 then n + 1 else n)"

definition boundedFailureClass :: "FailureClass \<Rightarrow> FailureClass" where
  "boundedFailureClass class =
     (case class of FailureClassOther _ \<Rightarrow> FailureClassPermanentPayload | _ \<Rightarrow> class)"

definition immediateFailure :: "FailureClass \<Rightarrow> bool" where
  "immediateFailure class \<longleftrightarrow>
     class = FailureClassAuthentication \<or> class = FailureClassUnsafeEndpoint"

fun RecordFailure :: "Circuit option \<Rightarrow> FailureClass \<Rightarrow> gotime \<Rightarrow> Circuit option \<times> bool" where
  "RecordFailure None class0 at = (None, True)"
| "RecordFailure (Some circuit0) class0 at =
     (let class = boundedFailureClass class0;
          circuit = circuit0\<lparr>c_consecutiveFailures := saturating_inc (c_consecutiveFailures circuit0),
                             c_lastFailureClass := class\<rparr>;
          shouldOpen = (c_state circuit = CircuitHalfOpen \<or> immediateFailure class \<or>
             c_consecutiveFailures circuit
               \<ge> word_of_int (TransientFailureThreshold (c_policy circuit)));
          openDuration = (if immediateFailure class then immediateCircuitOpenDurationFor class
             else OpenDuration (c_policy circuit))
      in if \<not> shouldOpen then (Some circuit, False)
         else (Some (circuit\<lparr>c_state := CircuitOpen, c_halfOpenUntil := zero_time,
                             c_openUntil := at + openDuration\<rparr>), True))"

record CircuitSnapshot =
  s_State :: CircuitState
  s_ConsecutiveFailures :: "64 word"
  s_OpenUntil :: gotime
  s_LastFailureClass :: FailureClass

fun Snapshot :: "Circuit option \<Rightarrow> CircuitSnapshot" where
  "Snapshot None = \<lparr>s_State = CircuitStateOther '''', s_ConsecutiveFailures = 0,
     s_OpenUntil = zero_time, s_LastFailureClass = FailureClassOther ''''\<rparr>"
| "Snapshot (Some circuit) = \<lparr>s_State = c_state circuit,
     s_ConsecutiveFailures = c_consecutiveFailures circuit,
     s_OpenUntil = c_openUntil circuit, s_LastFailureClass = c_lastFailureClass circuit\<rparr>"

subsection \<open>Reachable circuits\<close>

text \<open>
  A circuit is used by any number of callers; each call is one step.  The relation has one rule
  per method that writes the circuit.
\<close>

inductive circuit_reachable :: "CircuitPolicy \<Rightarrow> Circuit \<Rightarrow> bool" for p where
  new: "NewCircuit p = Inr c \<Longrightarrow> circuit_reachable p c"
| admit: "circuit_reachable p c \<Longrightarrow> Admit (Some c) now = (Some c', a) \<Longrightarrow> circuit_reachable p c'"
| success: "circuit_reachable p c \<Longrightarrow> RecordSuccess (Some c) = Some c' \<Longrightarrow> circuit_reachable p c'"
| failure: "circuit_reachable p c \<Longrightarrow> RecordFailure (Some c) k at = (Some c', opened) \<Longrightarrow>
    circuit_reachable p c'"
| abort: "circuit_reachable p c \<Longrightarrow> AbortProbe (Some c) = (Some c', r) \<Longrightarrow> circuit_reachable p c'"

definition circuit_inv :: "CircuitPolicy \<Rightarrow> Circuit \<Rightarrow> bool" where
  "circuit_inv p c \<longleftrightarrow>
     normalizedCircuitPolicy p = Some (c_policy c) \<and>
     (case c_state c of
        CircuitClosed \<Rightarrow>
          int (unat (c_consecutiveFailures c)) < TransientFailureThreshold (c_policy c) \<and>
          c_openUntil c = zero_time \<and> c_halfOpenUntil c = zero_time
      | CircuitOpen \<Rightarrow> c_halfOpenUntil c = zero_time \<and> c_consecutiveFailures c \<noteq> 0
      | CircuitHalfOpen \<Rightarrow>
          c_openUntil c + halfOpenProbeDeadline \<le> c_halfOpenUntil c \<and> c_consecutiveFailures c \<noteq> 0
      | CircuitStateOther _ \<Rightarrow> False)"

text \<open>A run of calls to \<open>Admit\<close> at the given times, with the admissions it returned.\<close>

fun admit_all :: "Circuit option \<Rightarrow> gotime list \<Rightarrow> Circuit option \<times> CircuitAdmission list" where
  "admit_all c [] = (c, [])"
| "admit_all c (t # ts) =
     (let (c1, a) = Admit c t; (c2, as) = admit_all c1 ts in (c2, a # as))"

text \<open>A run of calls to \<open>RecordFailure\<close>.\<close>

fun record_failures :: "Circuit option \<Rightarrow> (FailureClass \<times> gotime) list \<Rightarrow> Circuit option" where
  "record_failures c [] = c"
| "record_failures c ((k, t) # xs) = record_failures (fst (RecordFailure c k t)) xs"

subsection \<open>Facts about the policy and the failure counter\<close>

lemma normalized_range:
  assumes "normalizedCircuitPolicy p = Some q"
  shows "1 \<le> TransientFailureThreshold q" "TransientFailureThreshold q \<le> 32"
    "0 < OpenDuration q" "OpenDuration q \<le> maxCircuitOpenDuration"
  using assms by (auto simp: normalizedCircuitPolicy_def circuit_constants split: if_splits)

lemma unat_saturating_inc:
  "unat (saturating_inc n) = min (Suc (unat n)) (2 ^ 64 - 1)"
proof (cases "n = - 1")
  case True
  then show ?thesis by (simp add: saturating_inc_def unsigned_minus_1_eq_mask mask_eq_exp_minus_1)
next
  case False
  then have lt: "n < - 1" using word_order.not_eq_extremum by blast
  then have "unat n < unat (- 1 :: 64 word)" by (simp only: word_less_nat_alt)
  then have b: "Suc (unat n) \<le> 2 ^ 64 - 1" by (simp add: unsigned_minus_1_eq_mask mask_eq_exp_minus_1)
  have "n + 1 \<noteq> 0" using False by (metis add_eq_0_iff2)
  then have "unat (n + 1) = Suc (unat n)" using unatSuc [of n] by (simp add: add.commute)
  then show ?thesis using lt b by (simp add: saturating_inc_def)
qed

lemma saturating_inc_nonzero: "saturating_inc n \<noteq> 0"
proof
  assume "saturating_inc n = 0"
  then have "unat (saturating_inc n) = 0" by simp
  then show False by (simp add: unat_saturating_inc)
qed

lemma threshold_word_le:
  assumes "1 \<le> t" "t \<le> 32"
  shows "word_of_int t \<le> (n :: 64 word) \<longleftrightarrow> t \<le> int (unat n)"
  using assms by (simp add: word_le_def uint_word_of_int_eq take_bit_int_eq_self)

lemma bounded_immediate [simp]:
  "immediateFailure (boundedFailureClass k) = immediateFailure k"
  "immediateFailure k \<Longrightarrow>
     immediateCircuitOpenDurationFor (boundedFailureClass k) = immediateCircuitOpenDurationFor k"
  by (auto simp: boundedFailureClass_def immediateFailure_def split: FailureClass.splits)

subsection \<open>The contract of a breaker\<close>

locale breaker =
  fixes state_of :: "'s \<Rightarrow> CircuitState"
    and failures_of :: "'s \<Rightarrow> 64 word"
    and until_of :: "'s \<Rightarrow> gotime"
    and policy_of :: "'s \<Rightarrow> CircuitPolicy"
    and fail :: "'s \<Rightarrow> FailureClass \<Rightarrow> gotime \<Rightarrow> 's \<times> bool"
    and succeed :: "'s \<Rightarrow> 's"
  assumes fail_policy: "policy_of (fst (fail s k t)) = policy_of s"
    and fail_failures: "failures_of (fst (fail s k t)) = saturating_inc (failures_of s)"
    and fail_opens: "snd (fail s k t) \<longleftrightarrow> state_of s = CircuitHalfOpen \<or> immediateFailure k \<or>
      word_of_int (TransientFailureThreshold (policy_of s)) \<le> saturating_inc (failures_of s)"
    and fail_state: "state_of (fst (fail s k t)) =
      (if snd (fail s k t) then CircuitOpen else state_of s)"
    and fail_until: "until_of (fst (fail s k t)) =
      (if snd (fail s k t)
       then t + (if immediateFailure k then immediateCircuitOpenDurationFor k
                 else OpenDuration (policy_of s))
       else until_of s)"
    and succeed_policy: "policy_of (succeed s) = policy_of s"
    and succeed_state: "state_of (succeed s) = CircuitClosed"
    and succeed_failures: "failures_of (succeed s) = 0"
begin

lemma run_policy: "policy_of (foldl (\<lambda>s (k, t). fst (fail s k t)) s xs) = policy_of s"
  by (induction xs arbitrary: s) (auto simp: fail_policy)

lemma run_failures:
  "failures_of s = 0 \<Longrightarrow>
   unat (failures_of (foldl (\<lambda>s (k, t). fst (fail s k t)) s xs)) = min (length xs) (2 ^ 64 - 1)"
proof (induction xs rule: rev_induct)
  case (snoc x xs)
  then show ?case by (cases x) (simp add: fail_failures unat_saturating_inc)
qed simp

text \<open>
  From a fresh or just recovered breaker, failures of the threshold classes open it exactly
  when their number reaches the threshold, and it stays open under further failures.
\<close>

lemma trips_at_threshold:
  assumes thr: "1 \<le> TransientFailureThreshold (policy_of s)"
      "TransientFailureThreshold (policy_of s) \<le> 32"
    and start: "state_of s = CircuitClosed" "failures_of s = 0"
    and classes: "list_all (\<lambda>(k, t). \<not> immediateFailure k) xs"
  shows "state_of (foldl (\<lambda>s (k, t). fst (fail s k t)) s xs) =
    (if int (length xs) < TransientFailureThreshold (policy_of s) then CircuitClosed else CircuitOpen)"
  using classes
proof (induction xs rule: rev_induct)
  case Nil
  then show ?case using start thr by simp
next
  case (snoc x xs)
  obtain k t where x: "x = (k, t)" by (cases x)
  let ?s = "foldl (\<lambda>s (k, t). fst (fail s k t)) s xs"
  let ?thr = "TransientFailureThreshold (policy_of s)"
  have nk: "\<not> immediateFailure k" and xs: "list_all (\<lambda>(k, t). \<not> immediateFailure k) xs"
    using snoc.prems x by auto
  have st: "state_of ?s = (if int (length xs) < ?thr then CircuitClosed else CircuitOpen)"
    using snoc.IH xs by simp
  have "snd (fail ?s k t) \<longleftrightarrow> ?thr \<le> int (unat (saturating_inc (failures_of ?s)))"
    using st nk thr by (auto simp: fail_opens run_policy threshold_word_le split: if_splits)
  also have "\<dots> \<longleftrightarrow> ?thr \<le> int (Suc (length xs))"
    using run_failures [OF start(2), of xs] thr by (auto simp: unat_saturating_inc)
  finally have opens: "snd (fail ?s k t) \<longleftrightarrow> ?thr \<le> int (length (xs @ [x]))" by simp
  show ?case using opens st by (auto simp: x fail_state)
qed

lemma immediate_opens:
  "immediateFailure k \<Longrightarrow> state_of (fst (fail s k t)) = CircuitOpen \<and>
     until_of (fst (fail s k t)) = t + immediateCircuitOpenDurationFor k"
  by (simp add: fail_state fail_until fail_opens)

lemma recovery_resets:
  assumes "1 \<le> TransientFailureThreshold (policy_of s)"
    "TransientFailureThreshold (policy_of s) \<le> 32"
    and "list_all (\<lambda>(k, t). \<not> immediateFailure k) xs"
    and "int (length xs) < TransientFailureThreshold (policy_of s)"
  shows "state_of (foldl (\<lambda>s (k, t). fst (fail s k t)) (succeed s) xs) = CircuitClosed"
  using trips_at_threshold [of "succeed s" xs] assms
  by (simp add: succeed_policy succeed_state succeed_failures)

end

definition circuit_fail :: "Circuit \<Rightarrow> FailureClass \<Rightarrow> gotime \<Rightarrow> Circuit \<times> bool" where
  "circuit_fail c k t = (the (fst (RecordFailure (Some c) k t)), snd (RecordFailure (Some c) k t))"

definition circuit_succeed :: "Circuit \<Rightarrow> Circuit" where
  "circuit_succeed c = the (RecordSuccess (Some c))"

interpretation circuit: breaker c_state c_consecutiveFailures c_openUntil c_policy circuit_fail
  circuit_succeed
  by unfold_locales (auto simp: circuit_fail_def circuit_succeed_def Let_def)

subsection \<open>The invariant and what it gives\<close>

lemma circuit_inv_new: "NewCircuit p = Inr c \<Longrightarrow> circuit_inv p c"
  using normalized_range [of p]
  by (auto simp: NewCircuit_def circuit_inv_def split: option.splits)

lemma circuit_inv_admit:
  "circuit_inv p c \<Longrightarrow> Admit (Some c) now = (Some c', a) \<Longrightarrow> circuit_inv p c'"
  by (cases "c_state c")
     (auto simp: circuit_inv_def grantProbeLocked_def circuit_constants split: if_splits)

lemma circuit_inv_success:
  "circuit_inv p c \<Longrightarrow> RecordSuccess (Some c) = Some c' \<Longrightarrow> circuit_inv p c'"
  using normalized_range [of p "c_policy c"] by (auto simp: circuit_inv_def)

lemma circuit_inv_abort:
  "circuit_inv p c \<Longrightarrow> AbortProbe (Some c) = (Some c', r) \<Longrightarrow> circuit_inv p c'"
  by (auto simp: circuit_inv_def split: if_splits)

lemma circuit_inv_failure:
  assumes inv: "circuit_inv p c" and rec: "RecordFailure (Some c) k at = (Some c', opened)"
  shows "circuit_inv p c'"
proof -
  let ?n = "saturating_inc (c_consecutiveFailures c)"
  have pol: "normalizedCircuitPolicy p = Some (c_policy c)"
    using inv by (simp add: circuit_inv_def)
  note range = normalized_range [OF pol]
  show ?thesis
  proof (cases opened)
    case True
    then show ?thesis
      using rec pol by (auto simp: circuit_inv_def Let_def saturating_inc_nonzero split: if_splits)
  next
    case False
    then have st: "c_state c' = c_state c" "c_state c \<noteq> CircuitHalfOpen"
      and n: "c_consecutiveFailures c' = ?n"
        "\<not> word_of_int (TransientFailureThreshold (c_policy c)) \<le> ?n"
      and same: "c_policy c' = c_policy c" "c_openUntil c' = c_openUntil c"
        "c_halfOpenUntil c' = c_halfOpenUntil c"
      using rec by (auto simp: Let_def split: if_splits)
    have "int (unat ?n) < TransientFailureThreshold (c_policy c)"
      using n(2) by (simp add: threshold_word_le [OF range(1,2)])
    then show ?thesis
      using inv st n same
      by (auto simp: circuit_inv_def saturating_inc_nonzero split: CircuitState.splits)
  qed
qed

lemma circuit_reachable_inv: "circuit_reachable p c \<Longrightarrow> circuit_inv p c"
  by (induction rule: circuit_reachable.induct)
     (blast intro: circuit_inv_new circuit_inv_admit circuit_inv_success circuit_inv_failure
        circuit_inv_abort)+

lemma admit_probe_state:
  assumes "Admit (Some c) now = (Some c', CircuitAdmissionProbe)"
  shows "c_state c' = CircuitHalfOpen" "c_halfOpenUntil c' = now + halfOpenProbeDeadline"
    "c_openUntil c' = c_openUntil c"
  using assms by (auto simp: grantProbeLocked_def split: CircuitState.splits if_splits)

lemma admit_all_blocked:
  assumes "c_state c = CircuitHalfOpen" and "list_all (\<lambda>t. t < c_halfOpenUntil c) ts"
  shows "admit_all (Some c) ts = (Some c, replicate (length ts) CircuitAdmissionBlocked)"
  using assms(2) by (induction ts) (use assms(1) in auto)

lemma failure_open_window:
  assumes pol: "normalizedCircuitPolicy p = Some (c_policy c)"
    and rec: "RecordFailure (Some c) k at = (Some c', True)"
  shows "c_state c' = CircuitOpen" "at < c_openUntil c'" "c_openUntil c' \<le> at + 24 * Hour"
  using rec normalized_range [OF pol]
  by (auto simp: Let_def circuit_constants immediateCircuitOpenDurationFor_def split: if_splits)

lemma record_failures_eq:
  "record_failures (Some c) xs = Some (foldl (\<lambda>c (k, t). fst (circuit_fail c k t)) c xs)"
proof (induction xs arbitrary: c)
  case (Cons x xs)
  obtain k t where x: "x = (k, t)" by (cases x)
  have "fst (RecordFailure (Some c) k t) = Some (fst (circuit_fail c k t))"
    by (simp add: circuit_fail_def Let_def)
  then show ?case by (simp only: x record_failures.simps Cons.IH foldl_Cons prod.case)
qed simp

lemma saturating_inc_small: "saturating_inc 0 = 1" "saturating_inc 1 = 2"
  by code_simp+

lemma threshold_word_small: "\<not> (2 :: 64 word) \<le> 1"
  by code_simp

definition example_policy :: CircuitPolicy where
  "example_policy = \<lparr>TransientFailureThreshold = 2, OpenDuration = 10 * Second\<rparr>"

definition example_circuit :: "CircuitState \<Rightarrow> 64 word \<Rightarrow> gotime \<Rightarrow> gotime \<Rightarrow> Circuit" where
  "example_circuit st n u h = \<lparr>c_policy = example_policy, c_state = st, c_consecutiveFailures = n,
     c_openUntil = u, c_halfOpenUntil = h, c_lastFailureClass = FailureClassTransient\<rparr>"

lemma example_policy_normal: "normalizedCircuitPolicy example_policy = Some example_policy"
  by (simp add: normalizedCircuitPolicy_def example_policy_def circuit_constants)

text \<open>The run of a breaker with threshold 2: two failures, and a probe after the cool-down.\<close>

lemma example_open_reachable:
  "circuit_reachable example_policy (example_circuit CircuitOpen 2 (10 * Second + 5) 0)"
proof -
  let ?c0 = "(example_circuit CircuitClosed 0 0 0)\<lparr>c_lastFailureClass := FailureClassOther ''''\<rparr>"
  let ?c1 = "example_circuit CircuitClosed 1 0 0"
  have "circuit_reachable example_policy ?c0"
    by (rule circuit_reachable.new)
       (simp add: NewCircuit_def example_policy_normal example_circuit_def)
  then have "circuit_reachable example_policy ?c1"
    by (rule circuit_reachable.failure [where k = FailureClassTransient and at = 4 and opened = False])
       (simp add: example_circuit_def example_policy_def Let_def saturating_inc_small threshold_word_small
          boundedFailureClass_def immediateFailure_def)
  then show ?thesis
    by (rule circuit_reachable.failure [where k = FailureClassTransient and at = 5 and opened = True])
       (simp add: example_circuit_def example_policy_def Let_def saturating_inc_small threshold_word_small
          boundedFailureClass_def immediateFailure_def)
qed

subsection \<open>Properties\<close>

text \<open>
  In every state a circuit can reach, whatever the order of calls, its policy is the
  normalised one; a closed circuit has fewer failures than the threshold and no deadlines; an
  open or half-open one has recorded a failure; and a half-open probe's deadline lies at least
  ten minutes after the end of the cool-down that preceded it.
\<close>

theorem circuit_reachable_invariant: "circuit_reachable p c \<Longrightarrow> circuit_inv p c"
  by (rule circuit_reachable_inv)

theorem circuit_reachable_invariant_witness:
  "circuit_inv example_policy (example_circuit CircuitOpen 2 (10 * Second + 5) 0)"
  by (rule circuit_reachable_invariant [OF example_open_reachable])

text \<open>
  Exactly one probe: once \<open>Admit\<close> has granted a probe, every further \<open>Admit\<close> within the
  ten-minute probe deadline is blocked and leaves the circuit as it is, however many there are.
\<close>

theorem circuit_single_probe:
  assumes "Admit (Some c) now = (Some c', CircuitAdmissionProbe)"
    and "list_all (\<lambda>t. t < now + 10 * Minute) ts"
  shows "admit_all (Some c') ts = (Some c', replicate (length ts) CircuitAdmissionBlocked)"
  using admit_all_blocked [of c' ts] admit_probe_state [OF assms(1)] assms(2)
  by (simp add: halfOpenProbeDeadline_def)

theorem circuit_single_probe_witness:
  "admit_all (Some (example_circuit CircuitHalfOpen 2 10 (20 + 10 * Minute))) [21, 30, 600] =
     (Some (example_circuit CircuitHalfOpen 2 10 (20 + 10 * Minute)),
      [CircuitAdmissionBlocked, CircuitAdmissionBlocked, CircuitAdmissionBlocked])"
proof -
  have "Admit (Some (example_circuit CircuitOpen 2 10 0)) 20 =
      (Some (example_circuit CircuitHalfOpen 2 10 (20 + 10 * Minute)), CircuitAdmissionProbe)"
    by (simp add: example_circuit_def grantProbeLocked_def halfOpenProbeDeadline_def)
  from circuit_single_probe [OF this, of "[21, 30, 600]"] show ?thesis
    by (simp add: numeral_eq_Suc)
qed

text \<open>
  C38.  No destination is suppressed for ever: in every reachable state, a call to \<open>Admit\<close> after
  the cool-down and after the deadline of a lost probe is admitted, normally or as the probe.
\<close>

theorem circuit_never_stuck:
  assumes "circuit_reachable p c" and "c_openUntil c \<le> now" and "c_halfOpenUntil c \<le> now"
  shows "snd (Admit (Some c) now) \<noteq> CircuitAdmissionBlocked"
  using circuit_reachable_inv [OF assms(1)] assms(2,3)
  by (auto simp: circuit_inv_def split: CircuitState.splits)

theorem circuit_never_stuck_witness:
  "snd (Admit (Some (example_circuit CircuitOpen 2 (10 * Second + 5) 0)) (11 * Second))
     \<noteq> CircuitAdmissionBlocked"
  by (rule circuit_never_stuck [OF example_open_reachable]) (simp_all add: example_circuit_def)

text \<open>
  The breaker trips exactly at its threshold: a new circuit that records failures of the
  threshold classes only is closed while there are fewer of them than the normalised threshold
  and open from then on, for any number of failures (the counter saturates).
\<close>

theorem circuit_trips_at_threshold:
  assumes new: "NewCircuit p = Inr c"
    and classes: "list_all (\<lambda>(k, t). \<not> immediateFailure k) xs"
  shows "map_option c_state (record_failures (Some c) xs) =
    Some (if int (length xs) < TransientFailureThreshold (c_policy c)
          then CircuitClosed else CircuitOpen)"
proof -
  have pol: "normalizedCircuitPolicy p = Some (c_policy c)"
    and start: "c_state c = CircuitClosed" "c_consecutiveFailures c = 0"
    using new by (auto simp: NewCircuit_def split: option.splits)
  show ?thesis
    using circuit.trips_at_threshold [OF normalized_range(1,2) [OF pol] start classes]
    by (simp add: record_failures_eq)
qed

theorem circuit_trips_at_threshold_witness:
  "map_option c_state (record_failures
     (Some ((example_circuit CircuitClosed 0 0 0)\<lparr>c_lastFailureClass := FailureClassOther ''''\<rparr>))
     [(FailureClassTransient, 4), (FailureClassPermanentPayload, 5)]) = Some CircuitOpen"
proof -
  have "NewCircuit example_policy =
      Inr ((example_circuit CircuitClosed 0 0 0)\<lparr>c_lastFailureClass := FailureClassOther ''''\<rparr>)"
    by (simp add: NewCircuit_def example_policy_normal example_circuit_def)
  from circuit_trips_at_threshold [OF this,
      of "[(FailureClassTransient, 4), (FailureClassPermanentPayload, 5)]"]
  show ?thesis
    by (simp add: immediateFailure_def example_circuit_def example_policy_def)
qed


text \<open>
  A late abort is not a no-op.  After a lost probe has been reclaimed, an \<open>AbortProbe\<close> from the
  lost one finds the state it expects: it aborts the new probe, and the next \<open>Admit\<close> grants a
  second one while the first is still running.
\<close>

theorem reclaimed_probe_late_abort:
  assumes "circuit_reachable p c" and "c_state c = CircuitHalfOpen"
    and "Admit (Some c) now = (Some c1, CircuitAdmissionProbe)"
  shows "snd (AbortProbe (Some c1)) \<and>
    snd (Admit (fst (AbortProbe (Some c1))) now) = CircuitAdmissionProbe"
proof -
  have "c_openUntil c \<le> c_halfOpenUntil c"
    using circuit_reachable_inv [OF assms(1)] assms(2) by (simp add: circuit_inv_def circuit_constants)
  then show ?thesis
    using assms(2,3) by (auto simp: grantProbeLocked_def split: if_splits)
qed

theorem reclaimed_probe_late_abort_witness:
  "let c = example_circuit CircuitHalfOpen 2 (10 * Second + 5) (20 * Second + 10 * Minute);
       c1 = fst (Admit (Some c) Hour)
   in snd (Admit (Some c) Hour) = CircuitAdmissionProbe \<and> snd (AbortProbe c1) \<and>
      snd (Admit (fst (AbortProbe c1)) Hour) = CircuitAdmissionProbe"
proof -
  let ?c = "example_circuit CircuitHalfOpen 2 (10 * Second + 5) (20 * Second + 10 * Minute)"
  have r: "circuit_reachable example_policy ?c"
    by (rule circuit_reachable.admit [OF example_open_reachable, where now = "20 * Second" and a = CircuitAdmissionProbe])
       (simp add: example_circuit_def grantProbeLocked_def circuit_constants)
  have a: "Admit (Some ?c) Hour = (Some (?c\<lparr>c_halfOpenUntil := Hour + 10 * Minute\<rparr>), CircuitAdmissionProbe)"
    by (simp add: example_circuit_def grantProbeLocked_def circuit_constants)
  show ?thesis
    using reclaimed_probe_late_abort [OF r _ a] a by (simp add: example_circuit_def Let_def)
qed

end
