(* ===== verification/Delivery_Types.thy ===== *)
theory Delivery_Types
  imports Delivery_Circuit
begin

text \<open>
  The data of the delivery layer: payloads (\<^verbatim>\<open>payload.go\<close>), the closed vocabularies and the
  encoded-size estimator of \<^verbatim>\<open>types.go\<close>, and the pure helpers of \<^verbatim>\<open>dispatcher.go\<close>
  (configuration limits, outcome classification, bounded backoff).  Payload bytes are a
  \<^typ>\<open>string\<close>.  The registry of event identities is generated code, so the predicate
  \<open>IsRegisteredEventIdentity\<close> is an argument of \<open>NewPayload\<close>.
\<close>

subsection \<open>Payloads (payload.go, taxonomy.go)\<close>

definition MaxPayloadBytes :: int where
  "MaxPayloadBytes = 4 * 1024 * 1024 + 4 * 1024"

definition MaxRecordIDBytes :: int where
  "MaxRecordIDBytes = 512"

definition MaxStableTokenBytes :: int where
  "MaxStableTokenBytes = 128"

record RoutingIdentity =
  i_RecordID :: string
  i_Bucket :: string
  i_Signal :: string
  i_EventName :: string
  i_OriginDestination :: string

record Payload =
  p_encoded :: string
  p_identity :: RoutingIdentity

definition token_start :: "char \<Rightarrow> bool" where
  "token_start c = (let n = byte_val c in (97 \<le> n \<and> n \<le> 122) \<or> (48 \<le> n \<and> n \<le> 57))"

definition token_rest :: "char \<Rightarrow> bool" where
  "token_rest c = (token_start c \<or> c = CHR ''_'' \<or> c = CHR ''.'' \<or> c = CHR ''-'')"

text \<open>\<open>IsStableToken\<close>: the pattern \<open>^[a-z0-9][a-z0-9_.-]*$\<close>, at most 128 bytes.\<close>

fun IsStableToken :: "string \<Rightarrow> bool" where
  "IsStableToken [] = False"
| "IsStableToken (c # cs) =
     (int (length (c # cs)) \<le> MaxStableTokenBytes \<and> token_start c \<and> list_all token_rest cs)"

definition IsSignal :: "string \<Rightarrow> bool" where
  "IsSignal signal = (signal \<in> set [''logs'', ''traces'', ''metrics''])"

text \<open>\<open>utf8.ValidString\<close> of the standard library, byte by byte.\<close>

definition cont_byte :: "nat \<Rightarrow> bool" where
  "cont_byte n = (128 \<le> n \<and> n \<le> 191)"

fun utf8_valid :: "nat list \<Rightarrow> bool" where
  "utf8_valid [] = True"
| "utf8_valid (a # bs) =
     (if a < 128 then utf8_valid bs
      else case bs of
        [] \<Rightarrow> False
      | b # cs \<Rightarrow>
        if 194 \<le> a \<and> a \<le> 223 then cont_byte b \<and> utf8_valid cs
        else case cs of
          [] \<Rightarrow> False
        | c # ds \<Rightarrow>
          if 224 \<le> a \<and> a \<le> 239 then
            (if a = 224 then 160 \<le> b else 128 \<le> b) \<and> (if a = 237 then b \<le> 159 else b \<le> 191)
            \<and> cont_byte c \<and> utf8_valid ds
          else case ds of
            [] \<Rightarrow> False
          | d # es \<Rightarrow>
            240 \<le> a \<and> a \<le> 244
            \<and> (if a = 240 then 144 \<le> b else 128 \<le> b) \<and> (if a = 244 then b \<le> 143 else b \<le> 191)
            \<and> cont_byte c \<and> cont_byte d \<and> utf8_valid es)"

definition validRecordID :: "string \<Rightarrow> bool" where
  "validRecordID value =
     (value \<noteq> [] \<and> int (length value) \<le> MaxRecordIDBytes \<and> utf8_valid (map byte_val value)
      \<and> list_all (\<lambda>c. \<not> (byte_val c < 32 \<or> byte_val c = 127)) value)"

definition NewPayload ::
  "(string \<Rightarrow> string \<Rightarrow> string \<Rightarrow> bool) \<Rightarrow> string \<Rightarrow> RoutingIdentity \<Rightarrow> ErrorCode + Payload" where
  "NewPayload registered encoded identity =
     (if encoded = [] \<or> int (length encoded) > MaxPayloadBytes then Inl ErrorInvalidPayload
      else if \<not> validRecordID (i_RecordID identity)
           \<or> \<not> registered (i_Bucket identity) (i_Signal identity) (i_EventName identity)
           \<or> (i_OriginDestination identity \<noteq> [] \<and> \<not> IsStableToken (i_OriginDestination identity))
      then Inl ErrorInvalidIdentity
      else Inr \<lparr>p_encoded = encoded, p_identity = identity\<rparr>)"

definition Size :: "Payload \<Rightarrow> int" where
  "Size payload = int (length (p_encoded payload))"

definition payload_valid :: "Payload \<Rightarrow> bool" where
  "payload_valid payload =
     (p_encoded payload \<noteq> [] \<and> int (length (p_encoded payload)) \<le> MaxPayloadBytes
      \<and> validRecordID (i_RecordID (p_identity payload)))"

definition Sizes :: "Payload list \<Rightarrow> int" where
  "Sizes ps = sum_list (map Size ps)"

subsection \<open>Vocabularies (types.go)\<close>

datatype DeliveryOutcome =
    OutcomeDelivered | OutcomePartial | OutcomeTransient | OutcomeAuthentication
  | OutcomePermanentPayload | OutcomeUnsafeEndpoint | OutcomeAmbiguous | OutcomeOther string

record DeliveryResult =
  r_Outcome :: DeliveryOutcome
  r_DeliveredItems :: int
  r_RejectedItems :: int

datatype EnqueueDisposition = EnqueueAccepted | EnqueueDropped | EnqueueRejected

datatype EnqueueReason =
    ReasonNone | ReasonCountLimit | ReasonByteLimit | ReasonCountAndByteLimit | ReasonInactive
  | ReasonIntakeStopped | ReasonOriginLoop | ReasonInvalidPayload | ReasonCircuitOpen

record EnqueueResult =
  q_Disposition :: EnqueueDisposition
  q_Reason :: EnqueueReason

definition Accepted :: "EnqueueResult \<Rightarrow> bool" where
  "Accepted result = (q_Disposition result = EnqueueAccepted)"

datatype HealthState =
    HealthDisabled | HealthInitializing | HealthHealthy | HealthDegraded | HealthFailing
  | HealthDraining | HealthStopped

datatype HealthReason =
    HealthReasonNone | HealthReasonActivated | HealthReasonQueueFull | HealthReasonRetryable
  | HealthReasonPartial | HealthReasonDeliveryFailed | HealthReasonRecovered
  | HealthReasonIntakeStopped | HealthReasonClosed | HealthReasonOriginLoop
  | HealthReasonCircuitOpen | HealthReasonCircuitHalfOpen

record Counters =
  n_Accepted :: "64 word"
  n_Delivered :: "64 word"
  n_Retried :: "64 word"
  n_Dropped :: "64 word"
  n_Rejected :: "64 word"
  n_Failed :: "64 word"

record HealthTransition =
  t_Destination :: string
  t_Generation :: "64 word"
  t_Previous :: HealthState
  t_Current :: HealthState
  t_Reason :: HealthReason
  t_Counters :: Counters
  t_OccurredAt :: gotime
  t_sequence :: "64 word"

text \<open>A jitter function that panics returns \<^const>\<open>None\<close>; no jitter function is an outer \<^const>\<open>None\<close>.\<close>

record RetryPolicy =
  MaxAttempts :: int
  InitialBackoff :: duration
  MaxBackoff :: duration
  Jitter :: "(duration \<Rightarrow> int \<Rightarrow> duration option) option"

record Config =
  f_Destination :: string
  f_Generation :: "64 word"
  f_Signal :: string
  f_Enabled :: bool
  f_MaxQueueItems :: int
  f_MaxQueueBytes :: int
  f_MaxBatchItems :: int
  f_MaxBatchBytes :: int
  f_ScheduledDelay :: duration
  f_AttemptTimeout :: duration
  f_Retry :: RetryPolicy
  f_Circuit :: CircuitPolicy
  f_ObserverInterval :: duration

subsection \<open>Estimator and limits\<close>

fun delimited_loop :: "int \<Rightarrow> int \<Rightarrow> bool \<Rightarrow> int list \<Rightarrow> int option" where
  "delimited_loop separator tot first [] = Some tot"
| "delimited_loop separator tot first (sz # sizes) =
     (if sz < 0 \<or> tot > intMax - sz then None
      else let tot = tot + sz
           in if first then delimited_loop separator tot False sizes
              else if tot > intMax - separator then None
              else delimited_loop separator (tot + separator) False sizes)"

definition DelimitedEncodedSize :: "int list \<Rightarrow> int \<Rightarrow> int \<Rightarrow> int \<Rightarrow> int option" where
  "DelimitedEncodedSize projectedSizes pref separator suff =
     (if pref < 0 \<or> separator < 0 \<or> suff < 0 then None
      else if pref > intMax - suff then None
      else delimited_loop separator (pref + suff) True projectedSizes)"

definition maxQueueItems :: int where "maxQueueItems = 65536"
definition maxQueueBytes :: int where "maxQueueBytes = 256 * 1024 * 1024"
definition maxBatchItems :: int where "maxBatchItems = 8192"
definition maxBatchBytes :: int where "maxBatchBytes = 64 * 1024 * 1024"
definition maxAttempts :: int where "maxAttempts = 32"

lemmas dispatcher_limits =
  maxQueueItems_def maxQueueBytes_def maxBatchItems_def maxBatchBytes_def maxAttempts_def

definition validEnabledConfig :: "Config \<Rightarrow> bool \<Rightarrow> bool" where
  "validEnabledConfig config hasAdapter \<longleftrightarrow>
     hasAdapter \<and>
     f_MaxQueueItems config > 0 \<and> f_MaxQueueItems config \<le> maxQueueItems \<and>
     f_MaxQueueBytes config > 0 \<and> f_MaxQueueBytes config \<le> maxQueueBytes \<and>
     f_MaxBatchItems config > 0 \<and> f_MaxBatchItems config \<le> maxBatchItems \<and>
     f_MaxBatchItems config \<le> f_MaxQueueItems config \<and>
     f_MaxBatchBytes config > 0 \<and> f_MaxBatchBytes config \<le> maxBatchBytes \<and>
     f_ScheduledDelay config \<ge> 0 \<and> f_AttemptTimeout config > 0 \<and>
     MaxAttempts (f_Retry config) > 0 \<and> MaxAttempts (f_Retry config) \<le> maxAttempts \<and>
     InitialBackoff (f_Retry config) \<ge> 0 \<and> MaxBackoff (f_Retry config) \<ge> 0 \<and>
     InitialBackoff (f_Retry config) \<le> MaxBackoff (f_Retry config)"

definition failureClassForOutcome :: "DeliveryOutcome \<Rightarrow> FailureClass" where
  "failureClassForOutcome outcome =
     (case outcome of
        OutcomeTransient \<Rightarrow> FailureClassTransient
      | OutcomeAmbiguous \<Rightarrow> FailureClassTransient
      | OutcomeAuthentication \<Rightarrow> FailureClassAuthentication
      | OutcomeUnsafeEndpoint \<Rightarrow> FailureClassUnsafeEndpoint
      | _ \<Rightarrow> FailureClassPermanentPayload)"

definition validPartialResult :: "DeliveryResult \<Rightarrow> int \<Rightarrow> bool" where
  "validPartialResult result batchItems \<longleftrightarrow>
     batchItems > 1 \<and> r_DeliveredItems result > 0 \<and> r_RejectedItems result > 0 \<and>
     r_DeliveredItems result \<le> batchItems \<and>
     r_RejectedItems result \<le> batchItems - r_DeliveredItems result \<and>
     r_DeliveredItems result + r_RejectedItems result = batchItems"

subsection \<open>Backoff\<close>

text \<open>Go's integer division by two truncates towards zero.\<close>

definition half :: "int \<Rightarrow> int" where
  "half x = (if x < 0 then - ((- x) div 2) else x div 2)"

fun backoff_loop :: "nat \<Rightarrow> duration \<Rightarrow> duration \<Rightarrow> duration" where
  "backoff_loop 0 limit delay = delay"
| "backoff_loop (Suc n) limit delay =
     (if delay > half limit then limit else backoff_loop n limit (delay * 2))"

definition safeJitter :: "(duration \<Rightarrow> int \<Rightarrow> duration option) \<Rightarrow> duration \<Rightarrow> int \<Rightarrow> duration" where
  "safeJitter function delay attempt =
     (case function delay attempt of None \<Rightarrow> delay | Some result \<Rightarrow> result)"

text \<open>\<open>full\<close> is the product \<open>rand.Float64() * float64(delay)\<close> drawn when there is no jitter function.\<close>

definition boundedBackoff :: "RetryPolicy \<Rightarrow> int \<Rightarrow> (duration \<Rightarrow> duration) \<Rightarrow> duration" where
  "boundedBackoff policy attempt full =
     (let delay = backoff_loop (nat (attempt - 1)) (MaxBackoff policy) (InitialBackoff policy);
          delay = (if delay > MaxBackoff policy then MaxBackoff policy else delay);
          delay = (case Jitter policy of
                     Some function \<Rightarrow> safeJitter function delay attempt
                   | None \<Rightarrow> if delay > 0 then full delay else delay)
      in if delay < 0 then 0
         else if delay > MaxBackoff policy then MaxBackoff policy
         else delay)"

subsection \<open>Facts\<close>

lemma Size_nonneg [simp]: "0 \<le> Size p"
  by (simp add: Size_def)

lemma Sizes_simps [simp]:
  "Sizes [] = 0" "Sizes (p # ps) = Size p + Sizes ps" "Sizes (ps @ qs) = Sizes ps + Sizes qs"
  by (simp_all add: Sizes_def)

lemma Sizes_nonneg [simp]: "0 \<le> Sizes ps"
  by (induction ps) auto

lemma Sizes_take_drop: "Sizes (take n ps) + Sizes (drop n ps) = Sizes ps"
  by (metis Sizes_simps(3) append_take_drop_id)

lemma validPartialResult_sum:
  "validPartialResult r n \<Longrightarrow> r_DeliveredItems r + r_RejectedItems r = n"
  by (simp add: validPartialResult_def)

text \<open>The encoded size is the exact sum of its parts, and fails exactly on overflow.\<close>

definition delimited_total :: "int list \<Rightarrow> int \<Rightarrow> int \<Rightarrow> int \<Rightarrow> int" where
  "delimited_total sizes pref sep suff = pref + suff + sum_list sizes + sep * int (length sizes - 1)"

lemma sum_list_nonneg_int: "list_all (\<lambda>s. 0 \<le> s) xs \<Longrightarrow> 0 \<le> sum_list (xs :: int list)"
  by (induction xs) auto

lemma delimited_loop_later:
  assumes "0 \<le> sep" "tot \<le> intMax"
  shows "delimited_loop sep tot False sizes =
    (if list_all (\<lambda>s. 0 \<le> s) sizes \<and> tot + sum_list sizes + sep * int (length sizes) \<le> intMax
     then Some (tot + sum_list sizes + sep * int (length sizes)) else None)"
  using assms(2)
proof (induction sizes arbitrary: tot)
  case (Cons x xs)
  have nn: "0 \<le> sum_list xs + sep * int (length xs)" if "list_all (\<lambda>s. 0 \<le> s) xs"
    using sum_list_nonneg_int [OF that] assms(1) by simp
  show ?case
  proof (cases "x < 0 \<or> tot > intMax - x \<or> tot + x > intMax - sep")
    case True
    with nn assms(1) show ?thesis
      by (auto simp: Let_def algebra_simps)
  next
    case False
    then have "tot + x + sep \<le> intMax" by simp
    from Cons.IH [OF this] False show ?thesis
      by (simp add: Let_def algebra_simps)
  qed
qed simp

lemma delimited_loop_first:
  assumes "0 \<le> sep" "tot \<le> intMax"
  shows "delimited_loop sep tot True sizes =
    (if list_all (\<lambda>s. 0 \<le> s) sizes \<and> tot + sum_list sizes + sep * int (length sizes - 1) \<le> intMax
     then Some (tot + sum_list sizes + sep * int (length sizes - 1)) else None)"
proof (cases sizes)
  case Nil
  then show ?thesis using assms by simp
next
  case (Cons x xs)
  have nn: "0 \<le> sum_list xs + sep * int (length xs)" if "list_all (\<lambda>s. 0 \<le> s) xs"
    using sum_list_nonneg_int [OF that] assms(1) by simp
  show ?thesis
  proof (cases "x < 0 \<or> tot > intMax - x")
    case True
    with nn show ?thesis by (auto simp: Cons algebra_simps)
  next
    case False
    then have "tot + x \<le> intMax" by simp
    from delimited_loop_later [OF assms(1) this, of xs] False show ?thesis
      by (simp add: Cons Let_def algebra_simps)
  qed
qed

lemma backoff_loop_bounds:
  assumes "0 \<le> d" "d \<le> m"
  shows "0 \<le> backoff_loop n m d \<and> backoff_loop n m d \<le> m"
  using assms
proof (induction n m d rule: backoff_loop.induct)
  case (2 n m d)
  show ?case
  proof (cases "d > half m")
    case True
    then show ?thesis using 2 by simp
  next
    case False
    then have "d * 2 \<le> m" using 2 by (auto simp: half_def split: if_splits)
    then show ?thesis using 2 False by auto
  qed
qed simp

lemma backoff_loop_exponential:
  assumes "0 \<le> d" "d \<le> m"
  shows "backoff_loop n m d = (if d * 2 ^ n \<le> m then d * 2 ^ n else m)"
  using assms
proof (induction n m d rule: backoff_loop.induct)
  case (2 n m d)
  show ?case
  proof (cases "d > half m")
    case True
    then have "m < d * 2" using 2 by (auto simp: half_def split: if_splits)
    moreover have "d * 2 \<le> d * 2 ^ Suc n"
      using 2(2) by (intro mult_left_mono) auto
    ultimately show ?thesis using True by auto
  next
    case False
    then have "d * 2 \<le> m" using 2 by (auto simp: half_def split: if_splits)
    then show ?thesis using 2 False by (auto simp: algebra_simps)
  qed
qed simp

end
