(* ===== verification/Delivery_Dispatcher.thy ===== *)
theory Delivery_Dispatcher
  imports Delivery_Types
begin

text \<open>
  One destination's queue and worker: \<^verbatim>\<open>internal/observability/delivery/dispatcher.go\<close> and
  \<^verbatim>\<open>health.go\<close>.  The record \<open>Dispatcher\<close> has the source's fields; channels of capacity one
  (\<open>wake\<close>, \<open>flushNotify\<close>, \<open>healthNotify\<close>) are the Boolean "a token is in the channel", a closed
  channel or a cancelled context is a Boolean that is never reset, and the adapter, the clock and
  the scheduler are arguments.  Where an operation reads the clock twice it takes two times.

  The definitions are the critical sections of the source, one per method; theory
  \<open>Delivery_Worker\<close> interleaves them.
\<close>

record Dispatcher =
  d_config :: Config
  d_rootCancelled :: bool
  d_activated :: bool
  d_accepting :: bool
  d_intakeStopped :: bool
  d_closeStarted :: bool
  d_workerStarted :: bool
  d_observerStarted :: bool
  d_pending :: "Payload list"
  d_chargedItems :: int
  d_chargedBytes :: int
  d_inFlightItems :: int
  d_inFlightBytes :: int
  d_wake :: bool
  d_flushNotify :: bool
  d_workerDone :: bool
  d_health :: HealthState
  d_healthReason :: HealthReason
  d_circuitState :: CircuitState
  d_consecutiveFailures :: "64 word"
  d_circuitOpenUntil :: gotime
  d_lastFailureClass :: FailureClass
  d_lastSuccess :: gotime
  d_lastFailure :: gotime
  d_healthSequence :: "64 word"
  d_pendingTransition :: "HealthTransition option"
  d_healthNotify :: bool
  d_observerStop :: bool
  d_observerDone :: bool
  d_counters :: Counters
  d_completed :: "64 word"

definition NewDispatcher :: "Config \<Rightarrow> bool \<Rightarrow> ErrorCode + Dispatcher" where
  "NewDispatcher config hasAdapter =
     (if \<not> IsStableToken (f_Destination config) \<or> f_ObserverInterval config < 0
         \<or> (f_Signal config \<noteq> [] \<and> \<not> IsSignal (f_Signal config))
      then Inl ErrorInvalidConfig
      else case normalizedCircuitPolicy (f_Circuit config) of
        None \<Rightarrow> Inl ErrorInvalidConfig
      | Some circuit \<Rightarrow>
          let config = config\<lparr>f_Circuit := circuit\<rparr>
          in if f_Enabled config \<and> \<not> validEnabledConfig config hasAdapter
             then Inl ErrorInvalidConfig
             else Inr \<lparr>d_config = config, d_rootCancelled = False,
               d_activated = False, d_accepting = False, d_intakeStopped = False,
               d_closeStarted = False, d_workerStarted = False, d_observerStarted = False,
               d_pending = [], d_chargedItems = 0, d_chargedBytes = 0,
               d_inFlightItems = 0, d_inFlightBytes = 0,
               d_wake = False, d_flushNotify = False, d_workerDone = False,
               d_health = (if f_Enabled config then HealthInitializing else HealthDisabled),
               d_healthReason = HealthReasonNone, d_circuitState = CircuitClosed,
               d_consecutiveFailures = 0, d_circuitOpenUntil = zero_time,
               d_lastFailureClass = FailureClassOther '''', d_lastSuccess = zero_time,
               d_lastFailure = zero_time, d_healthSequence = 0, d_pendingTransition = None,
               d_healthNotify = False, d_observerStop = False, d_observerDone = False,
               d_counters = \<lparr>n_Accepted = 0, n_Delivered = 0, n_Retried = 0, n_Dropped = 0,
                 n_Rejected = 0, n_Failed = 0\<rparr>,
               d_completed = 0\<rparr>)"

subsection \<open>Health transitions (health.go)\<close>

definition transitionHealth ::
  "Dispatcher \<Rightarrow> HealthState \<Rightarrow> HealthReason \<Rightarrow> bool \<Rightarrow> gotime \<Rightarrow> Dispatcher" where
  "transitionHealth d state reason operational now =
     (let previous = d_health d; previousReason = d_healthReason d
      in if operational \<and> previous \<in> {HealthDraining, HealthStopped, HealthDisabled} then d
         else if previous = state \<and> previousReason = reason then d
         else let sequence = d_healthSequence d + 1
              in d\<lparr>d_health := state, d_healthReason := reason,
                   d_lastFailure := (if state \<in> {HealthDegraded, HealthFailing} then now
                                     else d_lastFailure d),
                   d_healthSequence := sequence,
                   d_pendingTransition := Some \<lparr>t_Destination = f_Destination (d_config d),
                     t_Generation = f_Generation (d_config d), t_Previous = previous,
                     t_Current = state, t_Reason = reason, t_Counters = d_counters d,
                     t_OccurredAt = now, t_sequence = sequence\<rparr>,
                   d_healthNotify := True\<rparr>)"

definition setOperationalHealth ::
  "Dispatcher \<Rightarrow> HealthState \<Rightarrow> HealthReason \<Rightarrow> gotime \<Rightarrow> Dispatcher" where
  "setOperationalHealth d state reason now = transitionHealth d state reason True now"

definition setHealth ::
  "Dispatcher \<Rightarrow> HealthState \<Rightarrow> HealthReason \<Rightarrow> gotime \<Rightarrow> Dispatcher" where
  "setHealth d state reason now = transitionHealth d state reason False now"

definition peekTransition :: "Dispatcher \<Rightarrow> HealthTransition option" where
  "peekTransition d = d_pendingTransition d"

definition consumeTransition :: "Dispatcher \<Rightarrow> HealthTransition \<Rightarrow> Dispatcher \<times> bool" where
  "consumeTransition d expected =
     (case d_pendingTransition d of
        None \<Rightarrow> (d, False)
      | Some transition \<Rightarrow>
          if t_sequence transition \<noteq> t_sequence expected then (d, False)
          else (d\<lparr>d_pendingTransition := None\<rparr>, True))"

text \<open>The transition handed to the observer, if any, is the second result.\<close>

definition emitPendingTransition :: "Dispatcher \<Rightarrow> Dispatcher \<times> HealthTransition option" where
  "emitPendingTransition d =
     (case peekTransition d of
        None \<Rightarrow> (d, None)
      | Some transition \<Rightarrow>
          (case consumeTransition d transition of
             (d', consumed) \<Rightarrow> (d', if consumed then Some transition else None)))"

subsection \<open>Counters, clocks and signals\<close>

definition add_delivered :: "Dispatcher \<Rightarrow> 64 word \<Rightarrow> Dispatcher" where
  "add_delivered d n = d\<lparr>d_counters := (d_counters d)\<lparr>n_Delivered := n_Delivered (d_counters d) + n\<rparr>\<rparr>"

definition add_retried :: "Dispatcher \<Rightarrow> 64 word \<Rightarrow> Dispatcher" where
  "add_retried d n = d\<lparr>d_counters := (d_counters d)\<lparr>n_Retried := n_Retried (d_counters d) + n\<rparr>\<rparr>"

definition add_dropped :: "Dispatcher \<Rightarrow> 64 word \<Rightarrow> Dispatcher" where
  "add_dropped d n = d\<lparr>d_counters := (d_counters d)\<lparr>n_Dropped := n_Dropped (d_counters d) + n\<rparr>\<rparr>"

definition add_rejected :: "Dispatcher \<Rightarrow> 64 word \<Rightarrow> Dispatcher" where
  "add_rejected d n = d\<lparr>d_counters := (d_counters d)\<lparr>n_Rejected := n_Rejected (d_counters d) + n\<rparr>\<rparr>"

definition add_failed :: "Dispatcher \<Rightarrow> 64 word \<Rightarrow> Dispatcher" where
  "add_failed d n = d\<lparr>d_counters := (d_counters d)\<lparr>n_Failed := n_Failed (d_counters d) + n\<rparr>\<rparr>"

definition recordSuccess :: "Dispatcher \<Rightarrow> gotime \<Rightarrow> Dispatcher" where
  "recordSuccess d at = (if at = zero_time then d else d\<lparr>d_lastSuccess := at\<rparr>)"

definition recordFailure :: "Dispatcher \<Rightarrow> gotime \<Rightarrow> Dispatcher" where
  "recordFailure d at = (if at = zero_time then d else d\<lparr>d_lastFailure := at\<rparr>)"

definition signalWorker :: "Dispatcher \<Rightarrow> Dispatcher" where
  "signalWorker d = d\<lparr>d_wake := True\<rparr>"

definition signalFlush :: "Dispatcher \<Rightarrow> Dispatcher" where
  "signalFlush d = d\<lparr>d_flushNotify := True\<rparr>"

definition intakeIsStopped :: "Dispatcher \<Rightarrow> bool" where
  "intakeIsStopped d = (d_intakeStopped d \<or> d_closeStarted d)"

definition finishWorker :: "Dispatcher \<Rightarrow> Dispatcher" where
  "finishWorker d = d\<lparr>d_workerDone := True\<rparr>"

definition finishObserver :: "Dispatcher \<Rightarrow> Dispatcher" where
  "finishObserver d = d\<lparr>d_observerDone := True\<rparr>"

subsection \<open>The embedded breaker\<close>

datatype circuitDeliveryMode =
  circuitDeliveryNormal | circuitDeliveryBlocked | circuitDeliveryProbe

definition admitCircuit :: "Dispatcher \<Rightarrow> gotime \<Rightarrow> Dispatcher \<times> bool \<times> bool" where
  "admitCircuit d now =
     (case d_circuitState d of
        CircuitClosed \<Rightarrow> (d, True, False)
      | CircuitOpen \<Rightarrow>
          if now < d_circuitOpenUntil d then (d, False, False)
          else (d\<lparr>d_circuitState := CircuitHalfOpen\<rparr>, True, True)
      | CircuitHalfOpen \<Rightarrow> (d, False, False)
      | CircuitStateOther _ \<Rightarrow> (d, False, False))"

definition circuitMode :: "Dispatcher \<Rightarrow> gotime \<Rightarrow> Dispatcher \<times> circuitDeliveryMode \<times> bool" where
  "circuitMode d now =
     (case d_circuitState d of
        CircuitClosed \<Rightarrow> (d, circuitDeliveryNormal, False)
      | CircuitOpen \<Rightarrow>
          if now < d_circuitOpenUntil d then (d, circuitDeliveryBlocked, False)
          else (d\<lparr>d_circuitState := CircuitHalfOpen\<rparr>, circuitDeliveryProbe, True)
      | CircuitHalfOpen \<Rightarrow> (d, circuitDeliveryProbe, False)
      | CircuitStateOther _ \<Rightarrow> (d, circuitDeliveryBlocked, False))"

definition recordCircuitSuccess :: "Dispatcher \<Rightarrow> Dispatcher" where
  "recordCircuitSuccess d =
     d\<lparr>d_circuitState := CircuitClosed, d_consecutiveFailures := 0, d_circuitOpenUntil := zero_time\<rparr>"

definition abortCircuitProbe :: "Dispatcher \<Rightarrow> Dispatcher \<times> bool" where
  "abortCircuitProbe d =
     (if d_circuitState d \<noteq> CircuitHalfOpen then (d, False)
      else (d\<lparr>d_circuitState := CircuitOpen\<rparr>, True))"

definition recordCircuitFailure ::
  "Dispatcher \<Rightarrow> FailureClass \<Rightarrow> gotime \<Rightarrow> Dispatcher \<times> bool" where
  "recordCircuitFailure d0 class at =
     (let d = d0\<lparr>d_consecutiveFailures := saturating_inc (d_consecutiveFailures d0),
                 d_lastFailureClass := class\<rparr>;
          policy = f_Circuit (d_config d);
          shouldOpen = (d_circuitState d = CircuitHalfOpen \<or> immediateFailure class \<or>
            d_consecutiveFailures d \<ge> word_of_int (TransientFailureThreshold policy));
          openDuration = (if immediateFailure class then immediateCircuitOpenDurationFor class
            else OpenDuration policy)
      in if \<not> shouldOpen then (d, False)
         else (d\<lparr>d_circuitState := CircuitOpen, d_circuitOpenUntil := at + openDuration\<rparr>, True))"

interpretation dispatcher: breaker d_circuitState d_consecutiveFailures d_circuitOpenUntil
  "\<lambda>d. f_Circuit (d_config d)" recordCircuitFailure recordCircuitSuccess
  by unfold_locales (auto simp: recordCircuitFailure_def recordCircuitSuccess_def Let_def)

subsection \<open>Producer operations\<close>

definition eresult :: "EnqueueDisposition \<Rightarrow> EnqueueReason \<Rightarrow> EnqueueResult" where
  "eresult disposition reason = \<lparr>q_Disposition = disposition, q_Reason = reason\<rparr>"

fun Activate :: "Dispatcher option \<Rightarrow> gotime \<Rightarrow> Dispatcher option" where
  "Activate None now = None"
| "Activate (Some d) now =
     (if d_activated d \<or> d_closeStarted d then Some d
      else let d1 = d\<lparr>d_activated := True\<rparr>
           in if \<not> f_Enabled (d_config d1) then Some d1
              else let d2 = d1\<lparr>d_accepting := \<not> d_intakeStopped d1, d_workerStarted := True,
                               d_observerStarted := True\<rparr>
                   in Some (if intakeIsStopped d2
                            then setHealth d2 HealthDraining HealthReasonIntakeStopped now
                            else setOperationalHealth d2 HealthHealthy HealthReasonActivated now))"

fun Enqueue ::
  "Dispatcher option \<Rightarrow> Payload \<Rightarrow> gotime \<Rightarrow> gotime \<Rightarrow> Dispatcher option \<times> EnqueueResult" where
  "Enqueue None payload now now' = (None, eresult EnqueueRejected ReasonInvalidPayload)"
| "Enqueue (Some d) payload now now' =
     (if \<not> payload_valid payload then
        (Some (recordFailure (add_rejected d 1) now), eresult EnqueueRejected ReasonInvalidPayload)
      else if i_OriginDestination (p_identity payload) \<noteq> []
           \<and> i_OriginDestination (p_identity payload) = f_Destination (d_config d) then
        (Some (setOperationalHealth (recordFailure (add_rejected d 1) now)
                 HealthDegraded HealthReasonOriginLoop now'),
         eresult EnqueueRejected ReasonOriginLoop)
      else let active = d_activated d \<and> f_Enabled (d_config d) \<and> \<not> d_closeStarted d;
               accepting = d_accepting d
        in if \<not> active \<or> \<not> accepting then
             (Some (add_rejected d 1),
              eresult EnqueueRejected
                (if active \<or> intakeIsStopped d then ReasonIntakeStopped else ReasonInactive))
           else let countFull = d_chargedItems d \<ge> f_MaxQueueItems (d_config d);
                    byteFull = Size payload > f_MaxQueueBytes (d_config d) - d_chargedBytes d
             in if countFull \<or> byteFull then
                  (Some (setOperationalHealth (recordFailure (add_dropped d 1) now)
                           HealthDegraded HealthReasonQueueFull now'),
                   eresult EnqueueDropped
                     (if countFull \<and> byteFull then ReasonCountAndByteLimit
                      else if byteFull then ReasonByteLimit else ReasonCountLimit))
                else (case admitCircuit d now of (d1, admitted, halfOpen) \<Rightarrow>
                  if \<not> admitted then
                    (Some (add_rejected d1 1), eresult EnqueueRejected ReasonCircuitOpen)
                  else let d2 = d1\<lparr>d_pending := d_pending d1 @ [payload],
                             d_chargedItems := d_chargedItems d1 + 1,
                             d_chargedBytes := d_chargedBytes d1 + Size payload,
                             d_counters := (d_counters d1)\<lparr>n_Accepted := n_Accepted (d_counters d1) + 1\<rparr>\<rparr>;
                           d3 = (if halfOpen
                                 then setOperationalHealth d2 HealthDegraded HealthReasonCircuitHalfOpen now'
                                 else d2)
                    in (Some (signalWorker d3), eresult EnqueueAccepted ReasonNone)))"

fun StopIntake :: "Dispatcher option \<Rightarrow> gotime \<Rightarrow> Dispatcher option" where
  "StopIntake None now = None"
| "StopIntake (Some d) now =
     (let d1 = d\<lparr>d_intakeStopped := True, d_accepting := False\<rparr>;
          d2 = (if d_activated d1 \<and> f_Enabled (d_config d1) \<and> \<not> d_closeStarted d1
                then setHealth d1 HealthDraining HealthReasonIntakeStopped now else d1)
      in Some (signalWorker d2))"

text \<open>
  \<open>Flush\<close> reads the accepted counter once and returns when \<open>completed\<close> has reached it; each wait
  takes the token of \<open>flushNotify\<close>.  \<open>Drain\<close> stops intake and returns when the worker is done (at
  once when none was started).
\<close>

definition Flush_target :: "Dispatcher \<Rightarrow> 64 word" where
  "Flush_target d = n_Accepted (d_counters d)"

definition Flush_returns :: "Dispatcher \<Rightarrow> 64 word \<Rightarrow> bool" where
  "Flush_returns d target = (\<not> d_completed d < target)"

definition Flush_wait :: "Dispatcher \<Rightarrow> Dispatcher" where
  "Flush_wait d = d\<lparr>d_flushNotify := False\<rparr>"

definition Drain_returns :: "Dispatcher \<Rightarrow> bool" where
  "Drain_returns d = (\<not> d_workerStarted d \<or> d_workerDone d)"

text \<open>\<open>Close\<close> up to the wait for the worker, and from there to the wait for the observer.\<close>

definition Close_begin :: "Dispatcher \<Rightarrow> gotime \<Rightarrow> Dispatcher" where
  "Close_begin d now =
     (let d1 = the (StopIntake (Some d) now);
          first = (\<not> d_closeStarted d1);
          d2 = d1\<lparr>d_closeStarted := True, d_accepting := False\<rparr>;
          d3 = (if first then signalWorker (d2\<lparr>d_rootCancelled := True\<rparr>) else d2)
      in if \<not> d_workerStarted d2 then finishWorker d3 else d3)"

definition Close_finish :: "Dispatcher \<Rightarrow> gotime \<Rightarrow> Dispatcher" where
  "Close_finish d now =
     (let d1 = setHealth d HealthStopped HealthReasonClosed now
      in if d_observerStarted d then d1\<lparr>d_observerStop := True\<rparr> else finishObserver d1)"

subsection \<open>Snapshots\<close>

fun Health :: "Dispatcher option \<Rightarrow> HealthState" where
  "Health None = HealthStopped"
| "Health (Some d) = d_health d"

definition QueueUsage :: "Dispatcher \<Rightarrow> int \<times> int \<times> int \<times> int" where
  "QueueUsage d = (d_chargedItems d, d_chargedBytes d, d_inFlightItems d, d_inFlightBytes d)"

record QueueSnapshot =
  qs_Items :: int
  qs_Bytes :: int
  qs_InFlightItems :: int
  qs_InFlightBytes :: int
  qs_MaxItems :: int
  qs_MaxBytes :: int

record HealthSnapshot =
  hs_Destination :: string
  hs_Generation :: "64 word"
  hs_Signal :: string
  hs_State :: HealthState
  hs_Reason :: HealthReason
  hs_CircuitState :: CircuitState
  hs_ConsecutiveFailures :: "64 word"
  hs_CircuitOpenUntil :: gotime
  hs_LastFailureClass :: FailureClass
  hs_Queue :: QueueSnapshot
  hs_Counters :: Counters
  hs_LastSuccess :: gotime
  hs_LastFailure :: gotime

definition DeliveryHealthSnapshot :: "Dispatcher \<Rightarrow> HealthSnapshot" where
  "DeliveryHealthSnapshot d =
     (case QueueUsage d of (items, bytes, inFlightItems, inFlightBytes) \<Rightarrow>
        \<lparr>hs_Destination = f_Destination (d_config d), hs_Generation = f_Generation (d_config d),
         hs_Signal = f_Signal (d_config d), hs_State = d_health d, hs_Reason = d_healthReason d,
         hs_CircuitState = d_circuitState d, hs_ConsecutiveFailures = d_consecutiveFailures d,
         hs_CircuitOpenUntil = d_circuitOpenUntil d, hs_LastFailureClass = d_lastFailureClass d,
         hs_Queue = \<lparr>qs_Items = items, qs_Bytes = bytes, qs_InFlightItems = inFlightItems,
           qs_InFlightBytes = inFlightBytes, qs_MaxItems = f_MaxQueueItems (d_config d),
           qs_MaxBytes = f_MaxQueueBytes (d_config d)\<rparr>,
         hs_Counters = d_counters d, hs_LastSuccess = d_lastSuccess d,
         hs_LastFailure = d_lastFailure d\<rparr>)"

subsection \<open>Worker operations\<close>

definition batch_limit :: "Dispatcher \<Rightarrow> nat" where
  "batch_limit d = min (length (d_pending d)) (nat (f_MaxBatchItems (d_config d)))"

definition takeCircuitRejectedBatch :: "Dispatcher \<Rightarrow> Dispatcher \<times> Payload list" where
  "takeCircuitRejectedBatch d =
     (let limit = batch_limit d
      in if limit = 0 then (d, [])
         else let payloads = take limit (d_pending d)
              in (d\<lparr>d_pending := drop limit (d_pending d), d_inFlightItems := int (length payloads),
                    d_inFlightBytes := Sizes payloads\<rparr>, payloads))"

text \<open>
  The loop of \<open>takeBatch\<close> over the candidates: \<open>enc\<close> is the adapter's estimator (\<^const>\<open>None\<close> for
  a refusal or a recovered panic).  The result is the number of selected candidates, the encoded
  size of the batch and whether the first candidate alone is too large.
\<close>

fun select_loop ::
  "(int list \<Rightarrow> int option) \<Rightarrow> int \<Rightarrow> Payload list \<Rightarrow> nat \<Rightarrow> int \<Rightarrow> int list \<Rightarrow> int
     \<Rightarrow> nat \<times> int \<times> bool" where
  "select_loop enc maxBytes [] selected projectedSize sizes encodedSize =
     (selected, encodedSize, False)"
| "select_loop enc maxBytes (candidate # rest) selected projectedSize sizes encodedSize =
     (let nextSize = Size candidate;
          stop = (if selected = 0 then (1, encodedSize, True) else (selected, encodedSize, False))
      in if projectedSize > intMax - nextSize then stop
         else let projectedSize = projectedSize + nextSize; sizes = sizes @ [nextSize]
              in case enc sizes of
                   None \<Rightarrow> stop
                 | Some estimate \<Rightarrow>
                     if estimate < projectedSize \<or> estimate > maxBytes then stop
                     else select_loop enc maxBytes rest (selected + 1) projectedSize sizes estimate)"

definition takeBatch_select ::
  "(int list \<Rightarrow> int option) \<Rightarrow> Dispatcher \<Rightarrow> Payload list \<times> nat \<times> int \<times> bool" where
  "takeBatch_select enc d =
     (let candidates = take (batch_limit d) (d_pending d)
      in (candidates, select_loop enc (f_MaxBatchBytes (d_config d)) candidates 0 0 [] 0))"

definition takeBatch_commit :: "Dispatcher \<Rightarrow> Payload list \<Rightarrow> nat \<Rightarrow> Dispatcher \<times> Payload list" where
  "takeBatch_commit d candidates selected =
     (let payloads = take selected candidates
      in (d\<lparr>d_pending := drop selected (d_pending d), d_inFlightItems := int selected,
            d_inFlightBytes := Sizes payloads\<rparr>, payloads))"

definition release :: "Dispatcher \<Rightarrow> Payload list \<Rightarrow> Dispatcher" where
  "release d payloads =
     signalFlush (d\<lparr>d_chargedItems := d_chargedItems d - int (length payloads),
       d_chargedBytes := d_chargedBytes d - Sizes payloads,
       d_inFlightItems := 0, d_inFlightBytes := 0,
       d_completed := d_completed d + of_nat (length payloads)\<rparr>)"

definition abandonPending :: "Dispatcher \<Rightarrow> Dispatcher" where
  "abandonPending d =
     (let dropped = length (d_pending d);
          d1 = d\<lparr>d_chargedItems := d_chargedItems d - int dropped,
                 d_chargedBytes := d_chargedBytes d - Sizes (d_pending d), d_pending := []\<rparr>
      in if dropped > 0
         then signalFlush ((add_dropped d1 (of_nat dropped))
                \<lparr>d_completed := d_completed d1 + of_nat dropped\<rparr>)
         else d1)"

text \<open>
  The failure path the outcomes share: the breaker records the failure and the health becomes
  failing, with the reason of an opened circuit if it opened.
\<close>

definition fail_health :: "Dispatcher \<Rightarrow> FailureClass \<Rightarrow> gotime \<Rightarrow> gotime \<Rightarrow> Dispatcher" where
  "fail_health d class now now' =
     (case recordCircuitFailure d class now of (d1, opened) \<Rightarrow>
        setOperationalHealth d1 HealthFailing
          (if opened then HealthReasonCircuitOpen else HealthReasonDeliveryFailed) now')"

definition rejectMalformedResult ::
  "Dispatcher \<Rightarrow> Payload list \<Rightarrow> gotime \<Rightarrow> gotime \<Rightarrow> Dispatcher" where
  "rejectMalformedResult d payloads now now' =
     release (fail_health (recordFailure
       (add_rejected (add_failed d 1) (of_nat (length payloads))) now)
       FailureClassPermanentPayload now now') payloads"

text \<open>The oversized branch of the worker loop.\<close>

definition rejectOversized ::
  "Dispatcher \<Rightarrow> Payload list \<Rightarrow> gotime \<Rightarrow> gotime \<Rightarrow> Dispatcher" where
  "rejectOversized d payloads now now' =
     release (fail_health (recordFailure
       (add_rejected (add_failed d 1) (of_nat (length payloads))) now)
       FailureClassPermanentPayload now now') payloads"

text \<open>An adapter that panics leaves the result \<open>OutcomePermanentPayload\<close>.\<close>

definition callAdapter :: "DeliveryResult option \<Rightarrow> DeliveryResult" where
  "callAdapter answer =
     (case answer of
        None \<Rightarrow> \<lparr>r_Outcome = OutcomePermanentPayload, r_DeliveredItems = 0, r_RejectedItems = 0\<rparr>
      | Some result \<Rightarrow> result)"

datatype attempt_end = AttemptDone bool | AttemptRetry

definition item_counts_set :: "DeliveryResult \<Rightarrow> bool" where
  "item_counts_set result = (r_DeliveredItems result \<noteq> 0 \<or> r_RejectedItems result \<noteq> 0)"

text \<open>The branch of the authentication, permanent-payload and unsafe-endpoint outcomes.\<close>

definition deliver_terminal ::
  "Dispatcher \<Rightarrow> Payload list \<Rightarrow> DeliveryResult \<Rightarrow> gotime \<Rightarrow> gotime \<Rightarrow> Dispatcher \<times> attempt_end" where
  "deliver_terminal d payloads result now now' =
     (if item_counts_set result
      then (rejectMalformedResult d payloads now now', AttemptDone True)
      else (release (fail_health
              (recordFailure (add_failed (add_rejected d (of_nat (length payloads))) 1) now)
              (failureClassForOutcome (r_Outcome result)) now now') payloads, AttemptDone True))"

text \<open>
  One iteration of the loop of \<open>deliver\<close>: \<open>cancelled\<close> is the state of the root context after the
  adapter call.  \<open>AttemptRetry\<close> goes on to the backoff wait.
\<close>

definition deliver_attempt ::
  "Dispatcher \<Rightarrow> Payload list \<Rightarrow> int \<Rightarrow> int \<Rightarrow> DeliveryResult option \<Rightarrow> bool \<Rightarrow> gotime \<Rightarrow> gotime
     \<Rightarrow> Dispatcher \<times> attempt_end" where
  "deliver_attempt d payloads attempt limit answer cancelled now now' =
     (let result = callAdapter answer; n = (of_nat (length payloads) :: 64 word)
      in if cancelled then (release (add_dropped d n) payloads, AttemptDone False)
         else case r_Outcome result of
           OutcomeDelivered \<Rightarrow>
             if item_counts_set result
             then (rejectMalformedResult d payloads now now', AttemptDone True)
             else (setOperationalHealth
                     (release (recordCircuitSuccess (recordSuccess (add_delivered d n) now)) payloads)
                     HealthHealthy HealthReasonRecovered now', AttemptDone True)
         | OutcomePartial \<Rightarrow>
             if \<not> validPartialResult result (int (length payloads))
             then (rejectMalformedResult d payloads now now', AttemptDone True)
             else (release (setOperationalHealth (recordCircuitSuccess (recordFailure (recordSuccess
                     (add_failed (add_rejected (add_delivered d
                        (word_of_int (r_DeliveredItems result)))
                        (word_of_int (r_RejectedItems result))) 1) now) now))
                     HealthDegraded HealthReasonPartial now') payloads, AttemptDone True)
         | OutcomeAuthentication \<Rightarrow> deliver_terminal d payloads result now now'
         | OutcomePermanentPayload \<Rightarrow> deliver_terminal d payloads result now now'
         | OutcomeUnsafeEndpoint \<Rightarrow> deliver_terminal d payloads result now now'
         | OutcomeOther _ \<Rightarrow>
             (release (fail_health (recordFailure (add_failed (add_rejected d n) 1) now)
                FailureClassPermanentPayload now now') payloads, AttemptDone True)
         | _ \<Rightarrow> \<comment> \<open>transient or ambiguous\<close>
             if item_counts_set result
             then (rejectMalformedResult d payloads now now', AttemptDone True)
             else if attempt = limit
             then (release (fail_health (add_rejected (recordFailure (add_failed d 1) now) n)
                      FailureClassTransient now now') payloads, AttemptDone True)
             else (setOperationalHealth (add_retried (add_failed d 1) n)
                     HealthDegraded HealthReasonRetryable now', AttemptRetry))"

definition attempt_limit :: "Dispatcher \<Rightarrow> bool \<Rightarrow> int" where
  "attempt_limit d halfOpen = (if halfOpen then 1 else MaxAttempts (f_Retry (d_config d)))"

text \<open>What the outside world does during one attempt of a delivery that runs undisturbed.\<close>

record attempt_env =
  a_answer :: "DeliveryResult option"
  a_cancelled :: bool
  a_backoffCancelled :: bool
  a_now :: gotime
  a_now' :: gotime

function deliver_loop ::
  "Dispatcher \<Rightarrow> Payload list \<Rightarrow> int \<Rightarrow> int \<Rightarrow> (int \<Rightarrow> attempt_env) \<Rightarrow> Dispatcher \<times> bool" where
  "deliver_loop d payloads attempt limit env =
     (if attempt > limit then (d, True)
      else let e = env attempt
           in case deliver_attempt d payloads attempt limit (a_answer e) (a_cancelled e) (a_now e) (a_now' e) of
                (d', AttemptDone b) \<Rightarrow> (d', b)
              | (d', AttemptRetry) \<Rightarrow>
                  if a_backoffCancelled e
                  then (release (add_dropped d' (of_nat (length payloads))) payloads, False)
                  else deliver_loop d' payloads (attempt + 1) limit env)"
  by pat_completeness auto
termination
  by (relation "measure (\<lambda>(d, payloads, attempt, limit, env). nat (limit + 1 - attempt))") auto

declare deliver_loop.simps [simp del]

definition deliver ::
  "Dispatcher \<Rightarrow> Payload list \<Rightarrow> bool \<Rightarrow> (int \<Rightarrow> attempt_env) \<Rightarrow> Dispatcher \<times> bool" where
  "deliver d payloads halfOpen env = deliver_loop d payloads 1 (attempt_limit d halfOpen) env"

definition takeBatch ::
  "(int list \<Rightarrow> int option) \<Rightarrow> Dispatcher \<Rightarrow> Dispatcher \<times> Payload list \<times> int \<times> bool" where
  "takeBatch enc d =
     (case takeBatch_select enc d of (candidates, selected, encodedSize, oversized) \<Rightarrow>
        if selected = 0 then (d, [], 0, False)
        else case takeBatch_commit d candidates selected of (d', payloads) \<Rightarrow>
               (d', payloads, encodedSize, oversized))"

end
