(* ===== verification/Delivery_Ledger.thy ===== *)
theory Delivery_Ledger
  imports Delivery_Dispatcher
begin

text \<open>
  The abstract contract of the delivery queue.  A ledger keeps only what the queue accounts for:
  the pending payloads, the items and bytes charged and in flight, and the records accepted,
  settled (delivered, rejected or dropped, whichever) and completed.  It has one operation per
  kind of step: accept a record, refuse one, take a batch, settle a batch, abandon what is
  pending.  \<open>ledger_of\<close> abstracts a dispatcher to its ledger, and the refinement lemmas say that
  every critical section of the dispatcher is one of these operations or leaves the ledger alone.
\<close>

record Ledger =
  g_pending :: "Payload list"
  g_items :: int
  g_bytes :: int
  g_inItems :: int
  g_inBytes :: int
  g_accepted :: "64 word"
  g_settled :: "64 word"
  g_completed :: "64 word"

definition settled :: "Counters \<Rightarrow> 64 word" where
  "settled n = n_Delivered n + n_Rejected n + n_Dropped n"

definition ledger_of :: "Dispatcher \<Rightarrow> Ledger" where
  "ledger_of d = \<lparr>g_pending = d_pending d, g_items = d_chargedItems d, g_bytes = d_chargedBytes d,
     g_inItems = d_inFlightItems d, g_inBytes = d_inFlightBytes d,
     g_accepted = n_Accepted (d_counters d), g_settled = settled (d_counters d),
     g_completed = d_completed d\<rparr>"

definition lifecycle_of ::
  "Dispatcher \<Rightarrow> Config \<times> bool \<times> bool \<times> bool \<times> bool \<times> bool \<times> bool \<times> bool" where
  "lifecycle_of d = (d_config d, d_rootCancelled d, d_activated d, d_accepting d,
     d_intakeStopped d, d_closeStarted d, d_workerStarted d, d_workerDone d)"

definition circuit_of :: "Dispatcher \<Rightarrow> CircuitState \<times> 64 word \<times> gotime \<times> FailureClass" where
  "circuit_of d =
     (d_circuitState d, d_consecutiveFailures d, d_circuitOpenUntil d, d_lastFailureClass d)"

subsection \<open>Ledger operations\<close>

definition ledger_accept :: "Payload \<Rightarrow> Ledger \<Rightarrow> Ledger" where
  "ledger_accept p g = g\<lparr>g_pending := g_pending g @ [p], g_items := g_items g + 1,
     g_bytes := g_bytes g + Size p, g_accepted := g_accepted g + 1\<rparr>"

definition ledger_refuse :: "Ledger \<Rightarrow> Ledger" where
  "ledger_refuse g = g\<lparr>g_settled := g_settled g + 1\<rparr>"

definition ledger_take :: "nat \<Rightarrow> Ledger \<Rightarrow> Ledger" where
  "ledger_take n g = g\<lparr>g_pending := drop n (g_pending g),
     g_inItems := int (length (take n (g_pending g))), g_inBytes := Sizes (take n (g_pending g))\<rparr>"

definition ledger_settle :: "Payload list \<Rightarrow> Ledger \<Rightarrow> Ledger" where
  "ledger_settle ps g = g\<lparr>g_items := g_items g - int (length ps), g_bytes := g_bytes g - Sizes ps,
     g_inItems := 0, g_inBytes := 0, g_settled := g_settled g + of_nat (length ps),
     g_completed := g_completed g + of_nat (length ps)\<rparr>"

definition ledger_abandon :: "Ledger \<Rightarrow> Ledger" where
  "ledger_abandon g = g\<lparr>g_items := g_items g - int (length (g_pending g)),
     g_bytes := g_bytes g - Sizes (g_pending g), g_pending := [],
     g_settled := g_settled g + of_nat (length (g_pending g)),
     g_completed := g_completed g + of_nat (length (g_pending g))\<rparr>"

text \<open>
  A ledger in balance while the worker holds the batch \<open>held\<close>: the charges are exactly the
  pending and the held payloads, every accepted record is completed or still charged, and
  every one of the \<open>calls\<close> calls to \<open>Enqueue\<close> is settled or still charged.
\<close>

definition balanced :: "Payload list \<Rightarrow> 64 word \<Rightarrow> Ledger \<Rightarrow> bool" where
  "balanced held calls g \<longleftrightarrow>
     g_items g = int (length (g_pending g)) + int (length held) \<and>
     g_bytes g = Sizes (g_pending g) + Sizes held \<and>
     g_inItems g = int (length held) \<and> g_inBytes g = Sizes held \<and>
     g_accepted g = g_completed g + word_of_int (g_items g) \<and>
     calls = g_settled g + word_of_int (g_items g)"

lemma balanced_accept: "balanced held calls g \<Longrightarrow> balanced held (calls + 1) (ledger_accept p g)"
  by (cases g) (simp add: balanced_def ledger_accept_def)

lemma balanced_refuse: "balanced held calls g \<Longrightarrow> balanced held (calls + 1) (ledger_refuse g)"
  by (cases g) (simp add: balanced_def ledger_refuse_def)

lemma balanced_take:
  assumes "balanced [] calls g"
  shows "balanced (take n (g_pending g)) calls (ledger_take n g)"
proof -
  obtain xs ys where "take n (g_pending g) = xs" and "drop n (g_pending g) = ys" by blast
  moreover from this have "g_pending g = xs @ ys" by (metis append_take_drop_id)
  ultimately show ?thesis using assms by (simp add: balanced_def ledger_take_def)
qed

lemma balanced_settle: "balanced held calls g \<Longrightarrow> balanced [] calls (ledger_settle held g)"
  by (cases g) (simp add: balanced_def ledger_settle_def)

lemma balanced_abandon:
  assumes "balanced [] calls g"
  shows "balanced [] calls (ledger_abandon g)"
proof -
  have "g_items g = int (length (g_pending g))" and "g_bytes g = Sizes (g_pending g)"
    and "g_inItems g = 0" and "g_inBytes g = 0"
    and "g_accepted g = g_completed g + of_nat (length (g_pending g))"
    and "calls = g_settled g + of_nat (length (g_pending g))"
    using assms by (simp_all add: balanced_def)
  then show ?thesis unfolding balanced_def ledger_abandon_def by (cases g) simp
qed

lemmas balanced_intros =
  balanced_accept balanced_refuse balanced_take balanced_settle balanced_abandon

subsection \<open>Refinement: the dispatcher implements the ledger\<close>

named_theorems frame \<open>sections that leave the ledger, the lifecycle or the breaker alone\<close>

lemma lifecycle_eqD:
  "lifecycle_of d = lifecycle_of d' \<Longrightarrow>
     d_config d = d_config d' \<and> d_rootCancelled d = d_rootCancelled d' \<and>
     d_activated d = d_activated d' \<and> d_accepting d = d_accepting d' \<and>
     d_intakeStopped d = d_intakeStopped d' \<and> d_closeStarted d = d_closeStarted d' \<and>
     d_workerStarted d = d_workerStarted d' \<and> d_workerDone d = d_workerDone d'"
  by (simp add: lifecycle_of_def)

lemma transitionHealth_frame [frame, simp]:
  "ledger_of (transitionHealth d st r op now) = ledger_of d"
  "lifecycle_of (transitionHealth d st r op now) = lifecycle_of d"
  "circuit_of (transitionHealth d st r op now) = circuit_of d"
  by (simp_all add: transitionHealth_def Let_def ledger_of_def lifecycle_of_def circuit_of_def)

lemma setters_frame [frame, simp]:
  "ledger_of (setOperationalHealth d st r now) = ledger_of d"
  "lifecycle_of (setOperationalHealth d st r now) = lifecycle_of d"
  "circuit_of (setOperationalHealth d st r now) = circuit_of d"
  "ledger_of (setHealth d st r now) = ledger_of d"
  "lifecycle_of (setHealth d st r now) = lifecycle_of d"
  "circuit_of (setHealth d st r now) = circuit_of d"
  by (simp_all add: setOperationalHealth_def setHealth_def)

lemma records_frame [frame, simp]:
  "ledger_of (recordFailure d t) = ledger_of d" "ledger_of (recordSuccess d t) = ledger_of d"
  "lifecycle_of (recordFailure d t) = lifecycle_of d"
  "lifecycle_of (recordSuccess d t) = lifecycle_of d"
  "circuit_of (recordFailure d t) = circuit_of d" "circuit_of (recordSuccess d t) = circuit_of d"
  by (simp_all add: recordFailure_def recordSuccess_def ledger_of_def lifecycle_of_def circuit_of_def)

lemma circuit_ops_frame [frame, simp]:
  "ledger_of (recordCircuitSuccess d) = ledger_of d"
  "lifecycle_of (recordCircuitSuccess d) = lifecycle_of d"
  "ledger_of (fst (recordCircuitFailure d k t)) = ledger_of d"
  "lifecycle_of (fst (recordCircuitFailure d k t)) = lifecycle_of d"
  "ledger_of (fst (abortCircuitProbe d)) = ledger_of d"
  "lifecycle_of (fst (abortCircuitProbe d)) = lifecycle_of d"
  "ledger_of (fst (admitCircuit d t)) = ledger_of d"
  "lifecycle_of (fst (admitCircuit d t)) = lifecycle_of d"
  "ledger_of (fst (circuitMode d t)) = ledger_of d"
  "lifecycle_of (fst (circuitMode d t)) = lifecycle_of d"
  by (auto simp: recordCircuitSuccess_def recordCircuitFailure_def abortCircuitProbe_def
      admitCircuit_def circuitMode_def Let_def ledger_of_def lifecycle_of_def
      split: CircuitState.split)

lemma signals_frame [frame, simp]:
  "ledger_of (signalWorker d) = ledger_of d" "lifecycle_of (signalWorker d) = lifecycle_of d"
  "circuit_of (signalWorker d) = circuit_of d"
  "ledger_of (signalFlush d) = ledger_of d" "lifecycle_of (signalFlush d) = lifecycle_of d"
  "circuit_of (signalFlush d) = circuit_of d"
  "ledger_of (finishWorker d) = ledger_of d"
  by (simp_all add: signalWorker_def signalFlush_def finishWorker_def ledger_of_def
      lifecycle_of_def circuit_of_def)

lemma adds_frame [frame, simp]:
  "ledger_of (add_failed d n) = ledger_of d"
  "ledger_of (add_retried d n) = ledger_of d"
  "ledger_of (add_delivered d n) = (ledger_of d)\<lparr>g_settled := g_settled (ledger_of d) + n\<rparr>"
  "ledger_of (add_rejected d n) = (ledger_of d)\<lparr>g_settled := g_settled (ledger_of d) + n\<rparr>"
  "ledger_of (add_dropped d n) = (ledger_of d)\<lparr>g_settled := g_settled (ledger_of d) + n\<rparr>"
  "lifecycle_of (add_failed d n) = lifecycle_of d" "lifecycle_of (add_retried d n) = lifecycle_of d"
  "lifecycle_of (add_delivered d n) = lifecycle_of d"
  "lifecycle_of (add_rejected d n) = lifecycle_of d"
  "lifecycle_of (add_dropped d n) = lifecycle_of d"
  by (simp_all add: add_failed_def add_retried_def add_delivered_def add_rejected_def
      add_dropped_def ledger_of_def settled_def lifecycle_of_def)

lemma release_frame [frame, simp]:
  "ledger_of (release d ps) = (ledger_of d)\<lparr>g_items := g_items (ledger_of d) - int (length ps),
     g_bytes := g_bytes (ledger_of d) - Sizes ps, g_inItems := 0, g_inBytes := 0,
     g_completed := g_completed (ledger_of d) + of_nat (length ps)\<rparr>"
  "lifecycle_of (release d ps) = lifecycle_of d"
  "circuit_of (release d ps) = circuit_of d"
  by (simp_all add: release_def signalFlush_def ledger_of_def lifecycle_of_def circuit_of_def)

lemma fail_health_frame [frame, simp]:
  "ledger_of (fail_health d k now now') = ledger_of d"
  "lifecycle_of (fail_health d k now now') = lifecycle_of d"
  using circuit_ops_frame(3,4) [of d k now]
  by (cases "recordCircuitFailure d k now", simp add: fail_health_def)+

lemma Enqueue_total: "\<exists>d'. Enqueue (Some d) p now now' = (Some d', snd (Enqueue (Some d) p now now'))"
  by (simp add: Let_def split: prod.split)

lemma Enqueue_refines:
  assumes "Enqueue (Some d) p now now' = (Some d', r)"
  shows "ledger_of d' = (if Accepted r then ledger_accept p (ledger_of d) else ledger_refuse (ledger_of d))"
    and "lifecycle_of d' = lifecycle_of d"
proof -
  obtain d1 admitted halfOpen where adm: "admitCircuit d now = (d1, admitted, halfOpen)"
    by (cases "admitCircuit d now")
  have d1: "ledger_of d1 = ledger_of d" "lifecycle_of d1 = lifecycle_of d"
    using circuit_ops_frame(7,8) [of d now] adm by simp_all
  have acc: "ledger_of (d1\<lparr>d_pending := d_pending d1 @ [p], d_chargedItems := d_chargedItems d1 + 1,
        d_chargedBytes := d_chargedBytes d1 + Size p,
        d_counters := (d_counters d1)\<lparr>n_Accepted := n_Accepted (d_counters d1) + 1\<rparr>\<rparr>)
      = ledger_accept p (ledger_of d)"
    unfolding d1(1) [symmetric] by (simp add: ledger_of_def ledger_accept_def settled_def)
  have lif: "lifecycle_of (d1\<lparr>d_pending := xs, d_chargedItems := i, d_chargedBytes := j,
        d_counters := n\<rparr>) = lifecycle_of d" for xs i j n
    using d1(2) by (simp add: lifecycle_of_def)
  show "ledger_of d' = (if Accepted r then ledger_accept p (ledger_of d) else ledger_refuse (ledger_of d))"
    using assms adm d1 acc
    by (auto simp: Let_def eresult_def Accepted_def ledger_refuse_def split: if_splits)
  show "lifecycle_of d' = lifecycle_of d"
    using assms adm d1 lif by (auto simp: Let_def split: if_splits)
qed

lemma Enqueue_accepted:
  assumes "Enqueue (Some d) p now now' = (Some d', r)" and "Accepted r"
  shows "d_chargedItems d < f_MaxQueueItems (d_config d)"
    "d_chargedBytes d + Size p \<le> f_MaxQueueBytes (d_config d)"
    "d_activated d" "d_accepting d" "\<not> d_closeStarted d" "payload_valid p"
  using assms
  by (auto simp: Let_def eresult_def Accepted_def split: if_splits prod.splits)

lemma takeCircuitRejectedBatch_refines:
  assumes "takeCircuitRejectedBatch d = (d', ps)" and "ps \<noteq> []"
  shows "ledger_of d' = ledger_take (batch_limit d) (ledger_of d)"
    "ps = take (batch_limit d) (g_pending (ledger_of d))" "lifecycle_of d' = lifecycle_of d"
    "circuit_of d' = circuit_of d"
  using assms
  by (auto simp: takeCircuitRejectedBatch_def Let_def ledger_of_def ledger_take_def
      lifecycle_of_def circuit_of_def split: if_splits)

lemma takeBatch_commit_refines:
  assumes "takeBatch_commit d candidates n = (d', ps)"
    and "take n (d_pending d) = take n candidates" and "n \<le> length (d_pending d)"
  shows "ledger_of d' = ledger_take n (ledger_of d)" "ps = take n (g_pending (ledger_of d))"
    "lifecycle_of d' = lifecycle_of d" "circuit_of d' = circuit_of d"
  using assms
  by (auto simp: takeBatch_commit_def Let_def ledger_of_def ledger_take_def lifecycle_of_def
      circuit_of_def min_def)

lemma abandonPending_refines [simp]:
  "ledger_of (abandonPending d) = ledger_abandon (ledger_of d)"
  "lifecycle_of (abandonPending d) = lifecycle_of d"
  "circuit_of (abandonPending d) = circuit_of d"
  by (simp_all add: abandonPending_def Let_def add_dropped_def signalFlush_def ledger_of_def
      ledger_abandon_def settled_def lifecycle_of_def circuit_of_def)

lemma rejectMalformedResult_refines [simp]:
  "ledger_of (rejectMalformedResult d ps now now') = ledger_settle ps (ledger_of d)"
  "lifecycle_of (rejectMalformedResult d ps now now') = lifecycle_of d"
  by (simp_all add: rejectMalformedResult_def ledger_settle_def)

lemma rejectOversized_refines [simp]:
  "ledger_of (rejectOversized d ps now now') = ledger_settle ps (ledger_of d)"
  "lifecycle_of (rejectOversized d ps now now') = lifecycle_of d"
  by (simp_all add: rejectOversized_def ledger_settle_def)

lemma drop_release_refines [simp]:
  "ledger_of (release (add_dropped d (of_nat (length ps))) ps) = ledger_settle ps (ledger_of d)"
  "ledger_of (release (add_rejected d (of_nat (length ps))) ps) = ledger_settle ps (ledger_of d)"
  by (simp_all add: ledger_settle_def)

lemma deliver_terminal_refines:
  assumes "deliver_terminal d ps result now now' = (d', e)"
  shows "ledger_of d' = ledger_settle ps (ledger_of d)" "lifecycle_of d' = lifecycle_of d"
    "e = AttemptDone True"
  using assms by (auto simp: deliver_terminal_def ledger_settle_def split: if_splits)

text \<open>An attempt settles the whole batch or, when it is to be retried, nothing.\<close>

lemma deliver_attempt_refines:
  assumes "deliver_attempt d ps attempt limit answer cancelled now now' = (d', e)"
  shows "ledger_of d' = (if e = AttemptRetry then ledger_of d else ledger_settle ps (ledger_of d))"
    and "lifecycle_of d' = lifecycle_of d"
    and "e = AttemptRetry \<Longrightarrow> attempt \<noteq> limit"
    and "e = AttemptDone False \<Longrightarrow> cancelled"
proof -
  have part: "word_of_int (r_DeliveredItems r) + word_of_int (r_RejectedItems r)
      = (of_nat (length ps) :: 64 word)" if "validPartialResult r (int (length ps))" for r
    using validPartialResult_sum [OF that] by (metis of_int_of_nat_eq wi_hom_add)
  show "ledger_of d' = (if e = AttemptRetry then ledger_of d else ledger_settle ps (ledger_of d))"
    using assms part [of "callAdapter answer"]
    by (auto simp: deliver_attempt_def Let_def ledger_settle_def add.assoc
        dest: deliver_terminal_refines split: if_splits DeliveryOutcome.splits)
  show "lifecycle_of d' = lifecycle_of d"
    using assms
    by (auto simp: deliver_attempt_def Let_def dest: deliver_terminal_refines
        split: if_splits DeliveryOutcome.splits)
  show "e = AttemptRetry \<Longrightarrow> attempt \<noteq> limit"
    using assms
    by (auto simp: deliver_attempt_def Let_def dest: deliver_terminal_refines
        split: if_splits DeliveryOutcome.splits)
  show "e = AttemptDone False \<Longrightarrow> cancelled"
    using assms
    by (auto simp: deliver_attempt_def Let_def dest: deliver_terminal_refines
        split: if_splits DeliveryOutcome.splits)
qed

lemma deliver_loop_refines:
  assumes "attempt \<le> limit"
  shows "ledger_of (fst (deliver_loop d ps attempt limit env)) = ledger_settle ps (ledger_of d)"
  using assms
proof (induction d ps attempt limit env rule: deliver_loop.induct)
  case (1 d ps attempt limit env)
  let ?e = "env attempt"
  obtain d' r where att: "deliver_attempt d ps attempt limit (a_answer ?e) (a_cancelled ?e) (a_now ?e)
      (a_now' ?e) = (d', r)" by fastforce
  note ref = deliver_attempt_refines [OF att]
  show ?case
  proof (cases r)
    case (AttemptDone b)
    then show ?thesis using 1(2) att ref(1) by (subst deliver_loop.simps) (simp add: Let_def)
  next
    case AttemptRetry
    then have d': "ledger_of d' = ledger_of d" using ref(1) by simp
    show ?thesis
    proof (cases "a_backoffCancelled ?e")
      case True
      then show ?thesis
        using 1(2) att AttemptRetry d'
        by (subst deliver_loop.simps) (simp add: Let_def drop_release_refines del: adds_frame release_frame)
    next
      case False
      have "attempt + 1 \<le> limit" using ref(3) [OF AttemptRetry] 1(2) by simp
      then have "ledger_of (fst (deliver_loop d' ps (attempt + 1) limit env)) = ledger_settle ps (ledger_of d')"
        using 1(1) [OF _ refl att [symmetric] AttemptRetry False] 1(2) by simp
      then show ?thesis
        using 1(2) att AttemptRetry False d' by (subst deliver_loop.simps) (simp add: Let_def)
    qed
  qed
qed

subsection \<open>The batch the worker selects\<close>

lemma select_loop_result:
  assumes "select_loop enc limit cs selected projected sizes encoded = (n, e, oversized)"
  shows "if oversized then selected = 0 \<and> n = 1 \<and> cs \<noteq> []
    else \<exists>k \<le> length cs. n = selected + k \<and>
      (if k = 0 then e = encoded
       else enc (sizes @ map Size (take k cs)) = Some e \<and> e \<le> limit \<and> projected + Sizes (take k cs) \<le> e)"
  using assms
proof (induction cs arbitrary: selected projected sizes encoded)
  case Nil
  then show ?case by auto
next
  case (Cons c cs)
  let ?p = "projected + Size c" and ?s = "sizes @ [Size c]"
  show ?case
  proof (cases "\<exists>est. projected \<le> intMax - Size c \<and> enc ?s = Some est \<and> ?p \<le> est \<and> est \<le> limit")
    case True
    then obtain est where est: "projected \<le> intMax - Size c" "enc ?s = Some est" "?p \<le> est" "est \<le> limit"
      by blast
    then have rec: "select_loop enc limit cs (selected + 1) ?p ?s est = (n, e, oversized)"
      using Cons.prems by (simp add: Let_def)
    note IH = Cons.IH [OF rec]
    then have no: "\<not> oversized" by auto
    with IH obtain k where k: "k \<le> length cs" "n = selected + 1 + k"
      "if k = 0 then e = est
       else enc (?s @ map Size (take k cs)) = Some e \<and> e \<le> limit \<and> ?p + Sizes (take k cs) \<le> e"
      by auto
    then have "Suc k \<le> length (c # cs) \<and> n = selected + Suc k \<and>
        enc (sizes @ map Size (take (Suc k) (c # cs))) = Some e \<and> e \<le> limit \<and>
        projected + Sizes (take (Suc k) (c # cs)) \<le> e"
      using est by (auto split: if_splits)
    with no show ?thesis by auto
  next
    case False
    then have "select_loop enc limit (c # cs) selected projected sizes encoded =
        (if selected = 0 then (1, encoded, True) else (selected, encoded, False))"
      by (auto simp: Let_def not_less split: option.split)
    with Cons.prems show ?thesis by (auto split: if_splits)
  qed
qed

lemma select_loop_progress:
  assumes "select_loop enc limit cs 0 projected sizes encoded = (n, e, oversized)" and "cs \<noteq> []"
  shows "0 < n"
proof -
  obtain c cs' where cs: "cs = c # cs'" using assms(2) by (cases cs) auto
  have later: "select_loop enc limit xs (Suc m) p s x = (n, e, oversized) \<Longrightarrow> Suc m \<le> n" for xs m p s x
    using select_loop_result [of enc limit xs "Suc m" p s x n e oversized] by (auto split: if_splits)
  show ?thesis
    using assms(1) later [of cs' 0]
    by (fastforce simp: cs Let_def split: if_splits option.splits)
qed

end
