(* ===== verification/Delivery_Batch.thy ===== *)
theory Delivery_Batch
  imports Delivery_Ledger
begin

text \<open>
  Functional correctness of the operations a producer and the worker call on the dispatcher:
  admission by \<open>Enqueue\<close>, batch selection by \<open>takeBatch\<close>, delivery of a batch, the backoff between
  attempts and the default size estimator.
\<close>

subsection \<open>Admission\<close>

text \<open>When the breaker lets a record in: closed, or open and past its cooldown.\<close>

definition breaker_admits :: "Dispatcher \<Rightarrow> gotime \<Rightarrow> bool" where
  "breaker_admits d now \<longleftrightarrow> d_circuitState d = CircuitClosed \<or>
     d_circuitState d = CircuitOpen \<and> d_circuitOpenUntil d \<le> now"

definition loops_back :: "Dispatcher \<Rightarrow> Payload \<Rightarrow> bool" where
  "loops_back d p \<longleftrightarrow> i_OriginDestination (p_identity p) \<noteq> [] \<and>
     i_OriginDestination (p_identity p) = f_Destination (d_config d)"

lemma admitCircuit_admits: "fst (snd (admitCircuit d now)) = breaker_admits d now"
  by (auto simp: admitCircuit_def breaker_admits_def split: CircuitState.splits)

lemma Enqueue_some: "\<exists>d' r. Enqueue (Some d) p now now' = (Some d', r)"
  by (cases "admitCircuit d now") (auto simp: Let_def)

text \<open>
  Admission.  \<open>Enqueue\<close> accepts a record exactly when the payload is valid and did not
  originate at this destination, the dispatcher is active and accepting, an item slot is free and
  the record's bytes fit, and the breaker is closed or its cooldown is over; accepting on a
  cooled-down breaker makes it half-open, so that the next record is refused until the probe is
  resolved.  An accepted record is the new last element of the queue.
\<close>

theorem enqueue_admission:
  assumes "Enqueue (Some d) p now now' = (Some d', r)"
  shows "(Accepted r \<longleftrightarrow> payload_valid p \<and> \<not> loops_back d p \<and>
      d_activated d \<and> f_Enabled (d_config d) \<and> \<not> d_closeStarted d \<and> d_accepting d \<and>
      d_chargedItems d < f_MaxQueueItems (d_config d) \<and>
      d_chargedBytes d + Size p \<le> f_MaxQueueBytes (d_config d) \<and> breaker_admits d now) \<and>
    d_pending d' = (if Accepted r then d_pending d @ [p] else d_pending d) \<and>
    d_circuitState d' =
      (if Accepted r \<and> d_circuitState d = CircuitOpen then CircuitHalfOpen else d_circuitState d)"
  (is "?A \<and> ?B \<and> ?C")
proof (intro conjI)
  obtain d1 adm half where a: "admitCircuit d now = (d1, adm, half)" by (metis prod_cases3)
  have adm: "adm = breaker_admits d now" using admitCircuit_admits [of d now] a by simp
  show ?A
    using assms a adm
    by (auto simp: Let_def eresult_def Accepted_def loops_back_def split: if_splits)
  show ?B
    using arg_cong [OF Enqueue_refines(1) [OF assms], of g_pending]
    by (auto simp: ledger_accept_def ledger_refuse_def ledger_of_def split: if_splits)
  have s1: "d_circuitState d1 = (if adm \<and> d_circuitState d = CircuitOpen then CircuitHalfOpen else d_circuitState d)"
    using a by (auto simp: admitCircuit_def split: CircuitState.splits if_splits)
  have h: "d_circuitState (setOperationalHealth x st rs t) = d_circuitState x" for x st rs t
    by (simp add: setOperationalHealth_def transitionHealth_def Let_def)
  show ?C
    using assms a s1
    by (auto simp: Let_def eresult_def Accepted_def h recordFailure_def add_rejected_def add_dropped_def
        signalWorker_def split: if_splits)
qed

definition sample_dispatcher :: "CircuitState \<Rightarrow> string list \<Rightarrow> Dispatcher" where
  "sample_dispatcher st bodies =
     (let c = \<lparr>f_Destination = ''otlp'', f_Generation = 1, f_Signal = ''logs'', f_Enabled = True,
           f_MaxQueueItems = 8, f_MaxQueueBytes = 100, f_MaxBatchItems = 3, f_MaxBatchBytes = 5,
           f_ScheduledDelay = 0, f_AttemptTimeout = Second,
           f_Retry = \<lparr>MaxAttempts = 2, InitialBackoff = 0, MaxBackoff = 0, Jitter = None\<rparr>,
           f_Circuit = \<lparr>TransientFailureThreshold = 1, OpenDuration = 10 * Second\<rparr>,
           f_ObserverInterval = 0\<rparr>;
          ps = map (\<lambda>b. \<lparr>p_encoded = b, p_identity = \<lparr>i_RecordID = ''r'', i_Bucket = ''audit'',
            i_Signal = ''logs'', i_EventName = ''event'', i_OriginDestination = ''''\<rparr>\<rparr>) bodies
      in (projr (NewDispatcher c True))\<lparr>d_pending := ps, d_circuitState := st, d_circuitOpenUntil := 50,
           d_activated := True, d_accepting := True, d_workerStarted := True,
           d_chargedItems := int (length ps), d_chargedBytes := Sizes ps\<rparr>)"

definition sample_payload :: Payload where
  "sample_payload = \<lparr>p_encoded = ''xyz'', p_identity = \<lparr>i_RecordID = ''r'', i_Bucket = ''audit'',
     i_Signal = ''logs'', i_EventName = ''event'', i_OriginDestination = ''''\<rparr>\<rparr>"

theorem enqueue_admission_witness:
  "let d = sample_dispatcher CircuitOpen []; (d1, r1) = Enqueue (Some d) sample_payload 50 50;
       (d2, r2) = Enqueue d1 sample_payload 51 51
   in Accepted r1 \<and> \<not> Accepted r2 \<and> map_option d_pending d2 = Some [sample_payload] \<and>
      map_option d_circuitState d2 = Some CircuitHalfOpen"
proof -
  let ?d = "sample_dispatcher CircuitOpen []"
  obtain d1 r1 where e1: "Enqueue (Some ?d) sample_payload 50 50 = (Some d1, r1)"
    by (metis Enqueue_some)
  obtain d2 r2 where e2: "Enqueue (Some d1) sample_payload 51 51 = (Some d2, r2)"
    by (metis Enqueue_some)
  have "payload_valid sample_payload" "\<not> loops_back ?d sample_payload" "d_activated ?d"
    "f_Enabled (d_config ?d)" "\<not> d_closeStarted ?d" "d_accepting ?d"
    "d_chargedItems ?d < f_MaxQueueItems (d_config ?d)"
    "d_chargedBytes ?d + Size sample_payload \<le> f_MaxQueueBytes (d_config ?d)" "breaker_admits ?d 50"
    "d_circuitState ?d = CircuitOpen" "d_pending ?d = []"
    by code_simp+
  then have "Accepted r1" "d_pending d1 = [sample_payload]" "d_circuitState d1 = CircuitHalfOpen"
    using enqueue_admission [OF e1] by auto
  then show ?thesis
    using enqueue_admission [OF e2] e1 e2 by (auto simp: Let_def breaker_admits_def simp del: Enqueue.simps)
qed

subsection \<open>Batch selection\<close>

text \<open>
  The first \<open>k\<close> candidates make a batch: their raw sizes do not overflow, the estimator accepts
  them and its estimate lies between the raw size and the byte limit.
\<close>

definition batch_fits :: "(int list \<Rightarrow> int option) \<Rightarrow> int \<Rightarrow> Payload list \<Rightarrow> nat \<Rightarrow> bool" where
  "batch_fits enc maxBytes cs k \<longleftrightarrow> Sizes (take k cs) \<le> intMax \<and>
     (case enc (map Size (take k cs)) of None \<Rightarrow> False
      | Some estimate \<Rightarrow> Sizes (take k cs) \<le> estimate \<and> estimate \<le> maxBytes)"

lemma select_loop_maximal:
  assumes "select_loop enc maxBytes (drop m cs) m (Sizes (take m cs)) (map Size (take m cs)) e0 = (n, e, oversized)"
    and "0 < m" and "m \<le> length cs"
  shows "\<not> oversized \<and> m \<le> n \<and> n \<le> length cs \<and> (\<forall>k \<in> {m<..n}. batch_fits enc maxBytes cs k) \<and>
    (n < length cs \<longrightarrow> \<not> batch_fits enc maxBytes cs (Suc n))"
  using assms
proof (induction "length cs - m" arbitrary: m e0)
  case 0
  then show ?case by simp
next
  case (Suc j)
  then have m: "m < length cs" by simp
  have cs: "drop m cs = cs ! m # drop (Suc m) cs" "take (Suc m) cs = take m cs @ [cs ! m]"
    using m by (simp_all add: Cons_nth_drop_Suc take_Suc_conv_app_nth)
  show ?case
  proof (cases "batch_fits enc maxBytes cs (Suc m)")
    case True
    then obtain x where x: "enc (map Size (take (Suc m) cs)) = Some x"
      "Sizes (take (Suc m) cs) \<le> x" "x \<le> maxBytes" "Sizes (take (Suc m) cs) \<le> intMax"
      by (auto simp: batch_fits_def split: option.splits)
    then have "select_loop enc maxBytes (drop (Suc m) cs) (Suc m) (Sizes (take (Suc m) cs))
        (map Size (take (Suc m) cs)) x = (n, e, oversized)"
      using Suc.prems cs by (simp add: Let_def)
    moreover have "j = length cs - Suc m" using Suc.hyps(2) by simp
    ultimately have "\<not> oversized \<and> Suc m \<le> n \<and> n \<le> length cs \<and>
        (\<forall>k \<in> {Suc m<..n}. batch_fits enc maxBytes cs k) \<and>
        (n < length cs \<longrightarrow> \<not> batch_fits enc maxBytes cs (Suc n))"
      using Suc.hyps(1) [of "Suc m" x] m by simp
    moreover have "batch_fits enc maxBytes cs k" if "m < k" "k \<le> n"
        "\<forall>k \<in> {Suc m<..n}. batch_fits enc maxBytes cs k" for k
      using True that by (cases "k = Suc m") auto
    ultimately show ?thesis by auto
  next
    case False
    then have "(n, e, oversized) = (m, e0, False)"
      using Suc.prems cs by (auto simp: batch_fits_def Let_def split: option.splits if_splits)
    then show ?thesis using False m by simp
  qed
qed

lemma select_loop_start:
  assumes sel: "select_loop enc l cs 0 0 [] 0 = (n, e, ov)" and ne: "cs \<noteq> []"
  shows "(ov \<longleftrightarrow> \<not> batch_fits enc l cs 1) \<and> (ov \<longrightarrow> n = 1) \<and> n \<le> length cs \<and>
    (\<not> ov \<longrightarrow> (\<forall>k \<in> {1..n}. batch_fits enc l cs k) \<and>
      (n = length cs \<or> \<not> batch_fits enc l cs (Suc n)))"
proof -
  obtain c rest where cs: "cs = c # rest" using ne by (cases cs) auto
  show ?thesis
  proof (cases "batch_fits enc l cs 1")
    case True
    then obtain x where x: "enc [Size c] = Some x" "Size c \<le> x" "x \<le> l" "Size c \<le> intMax"
      using cs by (auto simp: batch_fits_def split: option.splits)
    have "select_loop enc l (drop 1 cs) 1 (Sizes (take 1 cs)) (map Size (take 1 cs)) x = (n, e, ov)"
      using sel x by (simp add: cs Let_def)
    from select_loop_maximal [OF this] have "\<not> ov \<and> 1 \<le> n \<and> n \<le> length cs \<and>
        (\<forall>k \<in> {1<..n}. batch_fits enc l cs k) \<and>
        (n < length cs \<longrightarrow> \<not> batch_fits enc l cs (Suc n))"
      using ne by (simp add: Suc_le_eq)
    then show ?thesis using True by (auto simp: le_eq_less_or_eq)
  next
    case False
    then have "n = 1 \<and> ov"
      using sel by (auto simp: cs batch_fits_def Let_def split: option.splits if_splits)
    then show ?thesis using False ne by (simp add: Suc_le_eq)
  qed
qed

text \<open>
  Batch selection.  From a non-empty queue \<open>takeBatch\<close> takes a non-empty prefix.  Unless the
  first record alone does not fit, in which case that record is handed back as oversized, every
  non-empty prefix of the batch fits the byte limit under the adapter's own estimate, and the batch
  cannot be extended: it ends at the item limit, at the end of the queue, or before the first
  prefix that does not fit.
\<close>

theorem takeBatch_greedy:
  assumes "takeBatch enc d = (d', ps, encodedSize, oversized)"
    and "d_pending d \<noteq> []" and "0 < f_MaxBatchItems (d_config d)"
  shows "let cs = take (nat (f_MaxBatchItems (d_config d))) (d_pending d);
             limit = f_MaxBatchBytes (d_config d); n = length ps
    in d_pending d = ps @ d_pending d' \<and> ps = take n cs \<and> 0 < n \<and>
       d_inFlightItems d' = int n \<and> d_inFlightBytes d' = Sizes ps \<and>
       (oversized \<longleftrightarrow> \<not> batch_fits enc limit cs 1) \<and> (oversized \<longrightarrow> n = 1) \<and>
       (\<not> oversized \<longrightarrow> (\<forall>k \<in> {1..n}. batch_fits enc limit cs k) \<and>
         (n = length cs \<or> \<not> batch_fits enc limit cs (Suc n)))"
proof -
  let ?l = "f_MaxBatchBytes (d_config d)"
  let ?cs = "take (nat (f_MaxBatchItems (d_config d))) (d_pending d)"
  have lim: "take (batch_limit d) (d_pending d) = ?cs"
    by (simp add: batch_limit_def min_def)
  have ne: "?cs \<noteq> []" using assms(2,3) by simp
  obtain n e ov where sel: "select_loop enc ?l ?cs 0 0 [] 0 = (n, e, ov)" by (metis prod_cases3)
  have n0: "0 < n" using select_loop_progress [OF sel ne] .
  have take: "ps = take n ?cs" "oversized = ov" "d_pending d' = drop n (d_pending d)"
    "d_inFlightItems d' = int n" "d_inFlightBytes d' = Sizes ps"
    using assms(1) sel n0 lim
    by (auto simp: takeBatch_def takeBatch_select_def takeBatch_commit_def Let_def)
  note res = select_loop_start [OF sel ne]
  then have n: "length ps = n" using take(1) by simp
  have "n \<le> length ?cs" using res by blast
  then have "take n ?cs = take n (d_pending d)" by simp
  then have "d_pending d = ps @ d_pending d'" using take by simp
  then show ?thesis using res n take n0 by (simp add: Let_def)
qed

theorem takeBatch_greedy_witness:
  "let d = sample_dispatcher CircuitClosed [''ab'', ''cd'', ''ef'', ''gh''];
       enc = (\<lambda>sizes. Some (sum_list sizes)); (d', ps, sz, oversized) = takeBatch enc d
   in 0 < length ps \<and> map p_encoded ps = [''ab'', ''cd''] \<and> \<not> oversized \<and> sz = 4"
proof -
  let ?d = "sample_dispatcher CircuitClosed [''ab'', ''cd'', ''ef'', ''gh'']"
  let ?enc = "\<lambda>sizes :: int list. Some (sum_list sizes)"
  obtain d' ps sz oversized where t: "takeBatch ?enc ?d = (d', ps, sz, oversized)" by (metis prod_cases4)
  have "d_pending ?d \<noteq> []" "0 < f_MaxBatchItems (d_config ?d)" by code_simp+
  from takeBatch_greedy [OF t this] have "0 < length ps" unfolding Let_def by blast
  moreover have "(case takeBatch ?enc ?d of (d', ps, sz, oversized) \<Rightarrow>
      map p_encoded ps = [''ab'', ''cd''] \<and> \<not> oversized \<and> sz = 4)" by code_simp
  ultimately show ?thesis using t by simp
qed

subsection \<open>Delivery of a batch\<close>

text \<open>
  C39.  A batch is settled exactly once.  Whatever the adapter answers at each attempt, and whenever
  the root context is cancelled, \<open>deliver\<close> returns after at most the attempt limit, and its effect
  on the accounts is that of settling the batch once: the charge is released, the in-flight window
  closed, and delivered, rejected and dropped together grow by the batch, as does completed.
\<close>

theorem deliver_settles_once:
  assumes "0 < MaxAttempts (f_Retry (d_config d))"
  shows "ledger_of (fst (deliver d ps halfOpen env)) = ledger_settle ps (ledger_of d)"
  using assms by (auto simp: deliver_def attempt_limit_def intro: deliver_loop_refines)

theorem deliver_settles_once_witness:
  "let d = sample_dispatcher CircuitClosed []
   in 0 < MaxAttempts (f_Retry (d_config d)) \<and>
      ledger_of (fst (deliver d [sample_payload] False (\<lambda>n. \<lparr>a_answer = None, a_cancelled = False,
        a_backoffCancelled = False, a_now = n, a_now' = n\<rparr>))) = ledger_settle [sample_payload] (ledger_of d)"
proof -
  have a: "0 < MaxAttempts (f_Retry (d_config (sample_dispatcher CircuitClosed [])))" by code_simp
  show ?thesis unfolding Let_def using a deliver_settles_once [OF a] by simp
qed

subsection \<open>Backoff and size estimate\<close>

text \<open>
  Backoff.  Without a jitter function the delay after attempt \<open>n\<close> is drawn below the initial
  backoff doubled \<open>n - 1\<close> times and capped; whatever a jitter function returns, and even if it
  panics, the delay lies between 0 and the maximum.
\<close>

theorem boundedBackoff_capped_exponential:
  assumes "0 \<le> InitialBackoff policy" and "InitialBackoff policy \<le> MaxBackoff policy"
    and "1 \<le> attempt" and "\<forall>x. 0 < x \<longrightarrow> 0 \<le> full x \<and> full x \<le> x"
  shows "0 \<le> boundedBackoff policy attempt full \<and> boundedBackoff policy attempt full \<le> MaxBackoff policy \<and>
    (Jitter policy = None \<longrightarrow>
      (let delay = min (InitialBackoff policy * 2 ^ nat (attempt - 1)) (MaxBackoff policy)
       in boundedBackoff policy attempt full = (if 0 < delay then full delay else 0)))"
proof -
  have e: "backoff_loop (nat (attempt - 1)) (MaxBackoff policy) (InitialBackoff policy) =
      min (InitialBackoff policy * 2 ^ nat (attempt - 1)) (MaxBackoff policy)"
    using backoff_loop_exponential [OF assms(1,2)] by (simp add: min_def)
  let ?d = "min (InitialBackoff policy * 2 ^ nat (attempt - 1)) (MaxBackoff policy)"
  have d: "0 \<le> ?d" "?d \<le> MaxBackoff policy" using assms(1,2) by auto
  have m: "0 \<le> MaxBackoff policy" using assms(1,2) by simp
  moreover have "0 < ?d \<Longrightarrow> 0 \<le> full ?d \<and> full ?d \<le> ?d" using assms(4) by blast
  ultimately show ?thesis
    using d unfolding boundedBackoff_def e by (auto simp: Let_def split: option.splits simp del: min_less_iff_conj min_less_iff_disj)
qed

theorem boundedBackoff_capped_exponential_witness:
  "boundedBackoff \<lparr>MaxAttempts = 8, InitialBackoff = 100, MaxBackoff = 1000, Jitter = None\<rparr> 3 (\<lambda>x. x) = 400"
  using boundedBackoff_capped_exponential
    [of "\<lparr>MaxAttempts = 8, InitialBackoff = 100, MaxBackoff = 1000, Jitter = None\<rparr>" 3 "\<lambda>x. x"]
  by simp

text \<open>
  Size estimate.  \<open>DelimitedEncodedSize\<close> returns the exact encoded size (prefix, suffix, the
  records and a separator between neighbours) exactly when no part is negative and the total
  fits an \<open>int\<close>; otherwise it reports failure and never a wrapped value.
\<close>

theorem DelimitedEncodedSize_exact:
  "DelimitedEncodedSize sizes pref sep suff =
    (let total_size = pref + suff + sum_list sizes + sep * int (length sizes - 1)
     in if 0 \<le> pref \<and> 0 \<le> sep \<and> 0 \<le> suff \<and> list_all (\<lambda>s. 0 \<le> s) sizes \<and> total_size \<le> intMax
        then Some total_size else None)"
proof (cases "0 \<le> pref \<and> 0 \<le> sep \<and> 0 \<le> suff")
  case True
  show ?thesis
  proof (cases "pref + suff \<le> intMax")
    case True
    with \<open>0 \<le> pref \<and> 0 \<le> sep \<and> 0 \<le> suff\<close> show ?thesis
      by (auto simp: DelimitedEncodedSize_def Let_def delimited_loop_first)
  next
    case False
    have "0 \<le> sum_list sizes" if "list_all (\<lambda>s. 0 \<le> s) sizes" using sum_list_nonneg_int [OF that] .
    moreover have "0 \<le> sep * int (length sizes - 1)" using True by simp
    ultimately have "\<not> (list_all (\<lambda>s. 0 \<le> s) sizes \<and>
        pref + suff + sum_list sizes + sep * int (length sizes - 1) \<le> intMax)"
      using False by linarith
    then show ?thesis using True False by (simp add: DelimitedEncodedSize_def Let_def)
  qed
qed (auto simp: DelimitedEncodedSize_def Let_def)

end
