(* ===== verification/Delivery_Worker.thy ===== *)
theory Delivery_Worker
  imports Delivery_Ledger
begin

text \<open>
  The dispatcher under concurrency: producers, \<open>StopIntake\<close>, \<open>Close\<close> and the worker goroutine
  \<open>run\<close> of \<^verbatim>\<open>dispatcher.go\<close> as an interleaving of their critical sections.  The worker is a
  program counter that stands between two sections; payloads it has taken off the queue are part
  of the program counter.  Three ghost components record the history: how often \<open>Enqueue\<close> was
  called, which payloads were accepted, and which have reached a terminal disposition, in order.

  The estimator of the adapter is the parameter \<open>enc\<close>; the answers of the adapter, the clock and
  the choice of the next step are unconstrained.
\<close>

datatype worker_pc =
    W_NotStarted
  | W_Top
  | W_Wait
  | W_Select
  | W_Mode
  | W_Blocked
  | W_Reject "Payload list"
  | W_Delay
  | W_Take bool
  | W_Commit bool "Payload list" nat int bool
  | W_Oversized "Payload list"
  | W_Deliver "Payload list" bool int
  | W_Backoff "Payload list" bool int
  | W_Abandon
  | W_Done

record Sys =
  s_d :: Dispatcher
  s_pc :: worker_pc
  s_calls :: "64 word"
  s_accepted :: "Payload list"
  s_settled :: "Payload list"

fun held :: "worker_pc \<Rightarrow> Payload list" where
  "held (W_Reject ps) = ps"
| "held (W_Oversized ps) = ps"
| "held (W_Deliver ps probe attempt) = ps"
| "held (W_Backoff ps probe attempt) = ps"
| "held pc = []"

definition init_sys :: "Dispatcher \<Rightarrow> Sys" where
  "init_sys d = \<lparr>s_d = d, s_pc = W_NotStarted, s_calls = 0, s_accepted = [], s_settled = []\<rparr>"

definition mode_pc :: "circuitDeliveryMode \<Rightarrow> worker_pc" where
  "mode_pc mode = (case mode of
     circuitDeliveryBlocked \<Rightarrow> W_Blocked
   | circuitDeliveryNormal \<Rightarrow> W_Delay
   | circuitDeliveryProbe \<Rightarrow> W_Take True)"

definition attempt_pc :: "attempt_end \<Rightarrow> Payload list \<Rightarrow> bool \<Rightarrow> int \<Rightarrow> worker_pc" where
  "attempt_pc e ps probe attempt = (case e of
     AttemptDone ok \<Rightarrow> if ok then W_Top else W_Abandon
   | AttemptRetry \<Rightarrow> W_Backoff ps probe attempt)"

inductive dstep :: "(int list \<Rightarrow> int option) \<Rightarrow> Sys \<Rightarrow> Sys \<Rightarrow> bool" for enc where
  enqueue: "Enqueue (Some (s_d s)) p now now' = (Some d', r) \<Longrightarrow>
    dstep enc s (s\<lparr>s_d := d', s_calls := s_calls s + 1,
      s_accepted := (if Accepted r then s_accepted s @ [p] else s_accepted s)\<rparr>)"
| activate: "Activate (Some (s_d s)) now = Some d' \<Longrightarrow>
    dstep enc s (s\<lparr>s_d := d',
      s_pc := (if d_workerStarted d' \<and> s_pc s = W_NotStarted then W_Top else s_pc s)\<rparr>)"
| stop_intake: "StopIntake (Some (s_d s)) now = Some d' \<Longrightarrow> dstep enc s (s\<lparr>s_d := d'\<rparr>)"
| close_begin: "dstep enc s (s\<lparr>s_d := Close_begin (s_d s) now\<rparr>)"
| close_finish: "d_workerDone (s_d s) \<Longrightarrow> dstep enc s (s\<lparr>s_d := Close_finish (s_d s) now\<rparr>)"
| flush_wait: "d_flushNotify (s_d s) \<Longrightarrow> dstep enc s (s\<lparr>s_d := Flush_wait (s_d s)\<rparr>)"
| top_cancelled: "s_pc s = W_Top \<Longrightarrow> d_rootCancelled (s_d s) \<Longrightarrow>
    dstep enc s (s\<lparr>s_d := finishWorker (abandonPending (fst (abortCircuitProbe (s_d s)))),
      s_pc := W_Done, s_settled := s_settled s @ d_pending (s_d s)\<rparr>)"
| top_go: "s_pc s = W_Top \<Longrightarrow> \<not> d_rootCancelled (s_d s) \<Longrightarrow> dstep enc s (s\<lparr>s_pc := W_Wait\<rparr>)"
| wait_pending: "s_pc s = W_Wait \<Longrightarrow> d_pending (s_d s) \<noteq> [] \<Longrightarrow> dstep enc s (s\<lparr>s_pc := W_Mode\<rparr>)"
| wait_stopped: "s_pc s = W_Wait \<Longrightarrow> d_pending (s_d s) = [] \<Longrightarrow> intakeIsStopped (s_d s) \<Longrightarrow>
    dstep enc s (s\<lparr>s_d := finishWorker (s_d s), s_pc := W_Done\<rparr>)"
| wait_block: "s_pc s = W_Wait \<Longrightarrow> d_pending (s_d s) = [] \<Longrightarrow> \<not> intakeIsStopped (s_d s) \<Longrightarrow>
    dstep enc s (s\<lparr>s_pc := W_Select\<rparr>)"
| select_done: "s_pc s = W_Select \<Longrightarrow> d_rootCancelled (s_d s) \<Longrightarrow>
    dstep enc s (s\<lparr>s_d := finishWorker (s_d s), s_pc := W_Done\<rparr>)"
| select_wake: "s_pc s = W_Select \<Longrightarrow> d_wake (s_d s) \<Longrightarrow>
    dstep enc s (s\<lparr>s_d := (s_d s)\<lparr>d_wake := False\<rparr>, s_pc := W_Wait\<rparr>)"
| mode: "s_pc s = W_Mode \<Longrightarrow> circuitMode (s_d s) now = (d1, m, entered) \<Longrightarrow>
    dstep enc s (s\<lparr>s_d := (if entered
        then setOperationalHealth d1 HealthDegraded HealthReasonCircuitHalfOpen now' else d1),
      s_pc := mode_pc m\<rparr>)"
| blocked: "s_pc s = W_Blocked \<Longrightarrow> takeCircuitRejectedBatch (s_d s) = (d', ps) \<Longrightarrow>
    dstep enc s (s\<lparr>s_d := d', s_pc := (if ps = [] then W_Top else W_Reject ps)\<rparr>)"
| reject: "s_pc s = W_Reject ps \<Longrightarrow>
    dstep enc s (s\<lparr>s_d := release (add_rejected (s_d s) (of_nat (length ps))) ps,
      s_pc := W_Top, s_settled := s_settled s @ ps\<rparr>)"
| delay_over: "s_pc s = W_Delay \<Longrightarrow>
    0 < f_ScheduledDelay (d_config (s_d s)) \<or> \<not> d_rootCancelled (s_d s) \<Longrightarrow>
    dstep enc s (s\<lparr>s_pc := W_Take False\<rparr>)"
| delay_wake: "s_pc s = W_Delay \<Longrightarrow> 0 < f_ScheduledDelay (d_config (s_d s)) \<Longrightarrow> d_wake (s_d s) \<Longrightarrow>
    dstep enc s (s\<lparr>s_d := (s_d s)\<lparr>d_wake := False\<rparr>\<rparr>)"
| delay_cancelled: "s_pc s = W_Delay \<Longrightarrow> d_rootCancelled (s_d s) \<Longrightarrow>
    dstep enc s (s\<lparr>s_d := finishWorker (abandonPending (s_d s)), s_pc := W_Done,
      s_settled := s_settled s @ d_pending (s_d s)\<rparr>)"
| take: "s_pc s = W_Take probe \<Longrightarrow> takeBatch_select enc (s_d s) = (candidates, n, sz, oversized) \<Longrightarrow>
    dstep enc s (if n = 0
      then s\<lparr>s_d := (if probe then fst (abortCircuitProbe (s_d s)) else s_d s), s_pc := W_Top\<rparr>
      else s\<lparr>s_pc := W_Commit probe candidates n sz oversized\<rparr>)"
| commit: "s_pc s = W_Commit probe candidates n sz oversized \<Longrightarrow>
    takeBatch_commit (s_d s) candidates n = (d', ps) \<Longrightarrow>
    dstep enc s (s\<lparr>s_d := d', s_pc := (if oversized then W_Oversized ps else W_Deliver ps probe 1)\<rparr>)"
| oversized: "s_pc s = W_Oversized ps \<Longrightarrow>
    dstep enc s (s\<lparr>s_d := rejectOversized (s_d s) ps now now', s_pc := W_Top,
      s_settled := s_settled s @ ps\<rparr>)"
| attempt: "s_pc s = W_Deliver ps probe n \<Longrightarrow>
    deliver_attempt (s_d s) ps n (attempt_limit (s_d s) probe) answer (d_rootCancelled (s_d s)) now now'
      = (d', e) \<Longrightarrow>
    dstep enc s (s\<lparr>s_d := d', s_pc := attempt_pc e ps probe n,
      s_settled := (if e = AttemptRetry then s_settled s else s_settled s @ ps)\<rparr>)"
| backoff_over: "s_pc s = W_Backoff ps probe n \<Longrightarrow>
    0 < boundedBackoff (f_Retry (d_config (s_d s))) n full \<or> \<not> d_rootCancelled (s_d s) \<Longrightarrow>
    dstep enc s (s\<lparr>s_pc := W_Deliver ps probe (n + 1)\<rparr>)"
| backoff_cancelled: "s_pc s = W_Backoff ps probe n \<Longrightarrow> d_rootCancelled (s_d s) \<Longrightarrow>
    dstep enc s (s\<lparr>s_d := release (add_dropped (s_d s) (of_nat (length ps))) ps, s_pc := W_Abandon,
      s_settled := s_settled s @ ps\<rparr>)"
| abandon: "s_pc s = W_Abandon \<Longrightarrow>
    dstep enc s (s\<lparr>s_d := finishWorker (abandonPending (fst (abortCircuitProbe (s_d s)))),
      s_pc := W_Done, s_settled := s_settled s @ d_pending (s_d s)\<rparr>)"

inductive reachable :: "(int list \<Rightarrow> int option) \<Rightarrow> Config \<Rightarrow> Sys \<Rightarrow> bool" for enc config where
  start: "NewDispatcher config True = Inr d \<Longrightarrow> reachable enc config (init_sys d)"
| step: "reachable enc config s \<Longrightarrow> dstep enc s s' \<Longrightarrow> reachable enc config s'"

subsection \<open>Effects of the steps on the ledger and the lifecycle\<close>

lemma ledger_sel [simp]:
  "g_pending (ledger_of d) = d_pending d" "g_items (ledger_of d) = d_chargedItems d"
  "g_bytes (ledger_of d) = d_chargedBytes d"
  by (simp_all add: ledger_of_def)

lemma ledger_eq_pending: "ledger_of d' = ledger_of d \<Longrightarrow>
   d_pending d' = d_pending d \<and> d_chargedItems d' = d_chargedItems d \<and> d_chargedBytes d' = d_chargedBytes d"
  by (metis ledger_sel)

lemma wake_frame [frame, simp]:
  "ledger_of (d\<lparr>d_wake := b\<rparr>) = ledger_of d" "lifecycle_of (d\<lparr>d_wake := b\<rparr>) = lifecycle_of d"
  "circuit_of (d\<lparr>d_wake := b\<rparr>) = circuit_of d"
  "ledger_of (Flush_wait d) = ledger_of d" "lifecycle_of (Flush_wait d) = lifecycle_of d"
  "circuit_of (Flush_wait d) = circuit_of d"
  by (simp_all add: ledger_of_def lifecycle_of_def circuit_of_def Flush_wait_def)

lemma finishWorker_lifecycle:
  "lifecycle_of (finishWorker d) = (d_config d, d_rootCancelled d, d_activated d, d_accepting d,
     d_intakeStopped d, d_closeStarted d, d_workerStarted d, True)"
  by (simp add: finishWorker_def lifecycle_of_def)

lemma lifecycle_set:
  "ledger_of (d\<lparr>d_rootCancelled := b\<rparr>) = ledger_of d"
  "ledger_of (d\<lparr>d_activated := b\<rparr>) = ledger_of d"
  "ledger_of (d\<lparr>d_accepting := b\<rparr>) = ledger_of d"
  "ledger_of (d\<lparr>d_intakeStopped := b\<rparr>) = ledger_of d"
  "ledger_of (d\<lparr>d_closeStarted := b\<rparr>) = ledger_of d"
  "ledger_of (d\<lparr>d_workerStarted := b\<rparr>) = ledger_of d"
  "ledger_of (d\<lparr>d_observerStarted := b\<rparr>) = ledger_of d"
  "ledger_of (d\<lparr>d_observerStop := b\<rparr>) = ledger_of d"
  "ledger_of (d\<lparr>d_observerDone := b\<rparr>) = ledger_of d"
  "lifecycle_of (d\<lparr>d_observerStop := b\<rparr>) = lifecycle_of d"
  "lifecycle_of (d\<lparr>d_observerDone := b\<rparr>) = lifecycle_of d"
  by (simp_all add: ledger_of_def lifecycle_of_def)

lemma health_lifecycle:
  "lifecycle_of (setHealth d st r now) = lifecycle_of d"
  "lifecycle_of (setOperationalHealth d st r now) = lifecycle_of d"
  by simp_all

lemma Activate_effect:
  assumes "Activate (Some d) now = Some d'"
  shows "ledger_of d' = ledger_of d"
    and "lifecycle_of d' =
      (if d_activated d \<or> d_closeStarted d then lifecycle_of d
       else (d_config d, d_rootCancelled d, True,
             if f_Enabled (d_config d) then \<not> d_intakeStopped d else d_accepting d,
             d_intakeStopped d, d_closeStarted d,
             if f_Enabled (d_config d) then True else d_workerStarted d, d_workerDone d))"
  using assms
  by (auto simp: Let_def lifecycle_set split: if_splits) (auto simp: lifecycle_of_def)

lemma StopIntake_effect:
  assumes "StopIntake (Some d) now = Some d'"
  shows "ledger_of d' = ledger_of d"
    and "lifecycle_of d' = (d_config d, d_rootCancelled d, d_activated d, False, True,
      d_closeStarted d, d_workerStarted d, d_workerDone d)"
  using assms
  by (auto simp: Let_def lifecycle_set split: if_splits) (auto simp: lifecycle_of_def)

lemma Close_begin_effect:
  "ledger_of (Close_begin d now) = ledger_of d"
  "lifecycle_of (Close_begin d now) = (d_config d, d_rootCancelled d \<or> \<not> d_closeStarted d, d_activated d,
     False, True, True, d_workerStarted d, d_workerDone d \<or> \<not> d_workerStarted d)"
proof -
  obtain d1 where d1: "StopIntake (Some d) now = Some d1" by (simp add: Let_def)
  note e = StopIntake_effect [OF d1]
  show "ledger_of (Close_begin d now) = ledger_of d"
    using d1 e(1) by (auto simp: Close_begin_def Let_def lifecycle_set simp del: StopIntake.simps)
  show "lifecycle_of (Close_begin d now) = (d_config d, d_rootCancelled d \<or> \<not> d_closeStarted d,
     d_activated d, False, True, True, d_workerStarted d, d_workerDone d \<or> \<not> d_workerStarted d)"
    using d1 e(2)
    by (auto simp: Close_begin_def Let_def lifecycle_of_def signalWorker_def finishWorker_def
        simp del: StopIntake.simps)
qed

lemma Close_finish_effect:
  "ledger_of (Close_finish d now) = ledger_of d"
  "lifecycle_of (Close_finish d now) = lifecycle_of d"
  by (simp_all add: Close_finish_def Let_def lifecycle_set finishObserver_def)

declare Enqueue.simps [simp del] Activate.simps [simp del] StopIntake.simps [simp del]

subsection \<open>Invariants\<close>

definition flags_inv :: "Config \<Rightarrow> Sys \<Rightarrow> bool" where
  "flags_inv config s \<longleftrightarrow> (let d = s_d s in
     normalizedCircuitPolicy (f_Circuit config) = Some (f_Circuit (d_config d)) \<and>
     d_config d = config\<lparr>f_Circuit := f_Circuit (d_config d)\<rparr> \<and>
     (f_Enabled (d_config d) \<longrightarrow> validEnabledConfig (d_config d) True) \<and>
     (d_accepting d \<longrightarrow> d_activated d \<and> d_workerStarted d \<and> \<not> d_intakeStopped d \<and> \<not> d_closeStarted d) \<and>
     (d_rootCancelled d \<longleftrightarrow> d_closeStarted d) \<and>
     (d_closeStarted d \<longrightarrow> d_intakeStopped d) \<and>
     (d_workerStarted d \<longrightarrow> d_activated d \<and> f_Enabled (d_config d)) \<and>
     (s_pc s = W_NotStarted \<longleftrightarrow> \<not> d_workerStarted d) \<and>
     (s_pc s \<in> {W_Done, W_Abandon} \<longrightarrow> d_intakeStopped d))"

definition ledger_inv :: "Sys \<Rightarrow> bool" where
  "ledger_inv s \<longleftrightarrow>
     balanced (held (s_pc s)) (s_calls s) (ledger_of (s_d s)) \<and>
     s_accepted s = s_settled s @ held (s_pc s) @ d_pending (s_d s) \<and>
     (if f_Enabled (d_config (s_d s))
      then d_chargedItems (s_d s) \<le> f_MaxQueueItems (d_config (s_d s)) \<and>
           d_chargedBytes (s_d s) \<le> f_MaxQueueBytes (d_config (s_d s))
      else d_chargedItems (s_d s) = 0)"

fun pc_inv :: "Dispatcher \<Rightarrow> worker_pc \<Rightarrow> bool" where
  "pc_inv d W_Mode = (d_pending d \<noteq> [])"
| "pc_inv d W_Blocked = (d_pending d \<noteq> [])"
| "pc_inv d W_Delay = (d_pending d \<noteq> [])"
| "pc_inv d (W_Take probe) = (d_pending d \<noteq> [])"
| "pc_inv d (W_Commit probe cs n sz oversized) =
     (prefix cs (d_pending d) \<and> 0 < n \<and> n \<le> length cs \<and> int (length cs) \<le> f_MaxBatchItems (d_config d))"
| "pc_inv d (W_Reject ps) = (ps \<noteq> [] \<and> int (length ps) \<le> f_MaxBatchItems (d_config d))"
| "pc_inv d (W_Oversized ps) = (ps \<noteq> [] \<and> int (length ps) \<le> f_MaxBatchItems (d_config d))"
| "pc_inv d (W_Deliver ps probe n) =
     (ps \<noteq> [] \<and> int (length ps) \<le> f_MaxBatchItems (d_config d) \<and> 1 \<le> n \<and> n \<le> attempt_limit d probe)"
| "pc_inv d (W_Backoff ps probe n) =
     (ps \<noteq> [] \<and> int (length ps) \<le> f_MaxBatchItems (d_config d) \<and> 1 \<le> n \<and> n < attempt_limit d probe)"
| "pc_inv d W_Done = (d_workerDone d \<and> (d_rootCancelled d \<or> d_pending d = []))"
| "pc_inv d pc = True"

definition sys_inv :: "Config \<Rightarrow> Sys \<Rightarrow> bool" where
  "sys_inv config s \<longleftrightarrow> flags_inv config s \<and> ledger_inv s \<and> pc_inv (s_d s) (s_pc s)"

lemma flags_inv_same:
  assumes "flags_inv config s" and "lifecycle_of (s_d s') = lifecycle_of (s_d s)"
    and "s_pc s' = W_NotStarted \<longleftrightarrow> s_pc s = W_NotStarted"
    and "s_pc s' \<in> {W_Done, W_Abandon} \<Longrightarrow> d_intakeStopped (s_d s)"
  shows "flags_inv config s'"
  using assms lifecycle_eqD [OF assms(2)] unfolding flags_inv_def Let_def by presburger

lemma flags_inv_done:
  assumes "flags_inv config s"
    and "lifecycle_of (s_d s') = (d_config (s_d s), d_rootCancelled (s_d s), d_activated (s_d s),
      d_accepting (s_d s), d_intakeStopped (s_d s), d_closeStarted (s_d s), d_workerStarted (s_d s), True)"
    and "s_pc s' = W_Done" and "s_pc s \<noteq> W_NotStarted" and "d_intakeStopped (s_d s)"
  shows "flags_inv config s'"
  using assms by (auto simp: flags_inv_def Let_def lifecycle_of_def)

lemma mode_pc_simps [simp]:
  "mode_pc m \<noteq> W_NotStarted" "mode_pc m \<noteq> W_Done" "mode_pc m \<noteq> W_Abandon" "held (mode_pc m) = []"
  by (cases m; simp add: mode_pc_def)+

lemma attempt_pc_simps [simp]:
  "attempt_pc e ps probe n \<noteq> W_NotStarted" "attempt_pc e ps probe n \<noteq> W_Done"
  "attempt_pc e ps probe n = W_Abandon \<longleftrightarrow> e = AttemptDone False"
  "held (attempt_pc e ps probe n) = (if e = AttemptRetry then ps else [])"
  by (cases e; simp add: attempt_pc_def)+

lemma circuitMode_frame:
  "circuitMode d now = (d1, m, entered) \<Longrightarrow> ledger_of d1 = ledger_of d \<and> lifecycle_of d1 = lifecycle_of d"
  using circuit_ops_frame(9,10) [of d now] by simp

lemma abandon_lifecycle:
  "lifecycle_of (finishWorker (abandonPending d)) = (d_config d, d_rootCancelled d, d_activated d,
     d_accepting d, d_intakeStopped d, d_closeStarted d, d_workerStarted d, True)"
  "lifecycle_of (finishWorker (abandonPending (fst (abortCircuitProbe d)))) =
     (d_config d, d_rootCancelled d, d_activated d, d_accepting d, d_intakeStopped d, d_closeStarted d,
      d_workerStarted d, True)"
  using lifecycle_eqD [OF abandonPending_refines(2) [of d]]
    lifecycle_eqD [OF trans [OF abandonPending_refines(2) circuit_ops_frame(6), of d]]
  by (simp_all add: finishWorker_lifecycle)

lemma takeCircuitRejectedBatch_lifecycle:
  "takeCircuitRejectedBatch d = (d', ps) \<Longrightarrow> lifecycle_of d' = lifecycle_of d"
  by (auto simp: takeCircuitRejectedBatch_def Let_def lifecycle_of_def split: if_splits)

lemma takeBatch_commit_lifecycle:
  "takeBatch_commit d cs n = (d', ps) \<Longrightarrow> lifecycle_of d' = lifecycle_of d"
  by (auto simp: takeBatch_commit_def Let_def lifecycle_of_def)

lemma flags_inv_step: "dstep enc s s' \<Longrightarrow> flags_inv config s \<Longrightarrow> flags_inv config s'"
proof (induction rule: dstep.induct)
  case (enqueue s p now now' d' r)
  then show ?case
    by (intro flags_inv_same [OF enqueue(2)]) (auto simp: Enqueue_refines(2) flags_inv_def Let_def)
next
  case (activate s now d')
  from activate(2) show ?case
    using Activate_effect(2) [OF activate(1)]
    by (auto simp: flags_inv_def Let_def lifecycle_of_def split: if_splits)
next
  case (stop_intake s now d')
  from stop_intake(2) show ?case
    using StopIntake_effect(2) [OF stop_intake(1)] by (auto simp: flags_inv_def Let_def lifecycle_of_def)
next
  case (close_begin s now)
  then show ?case
    using Close_begin_effect(2) [of "s_d s" now] by (auto simp: flags_inv_def Let_def lifecycle_of_def)
next
  case (close_finish s now)
  then show ?case
    by (intro flags_inv_same [OF close_finish(2)]) (auto simp: Close_finish_effect flags_inv_def Let_def)
next
  case (flush_wait s)
  then show ?case by (intro flags_inv_same [OF flush_wait(2)]) (auto simp: flags_inv_def Let_def)
next
  case (top_cancelled s)
  then show ?case
    by (intro flags_inv_done [OF top_cancelled(3)]) (auto simp: abandon_lifecycle(2) flags_inv_def Let_def)
next
  case (top_go s)
  then show ?case by (intro flags_inv_same [OF top_go(3)]) auto
next
  case (wait_pending s)
  then show ?case by (intro flags_inv_same [OF wait_pending(3)]) auto
next
  case (wait_stopped s)
  then show ?case
    by (intro flags_inv_done [OF wait_stopped(4)]) (auto simp: finishWorker_lifecycle intakeIsStopped_def flags_inv_def Let_def)
next
  case (wait_block s)
  then show ?case by (intro flags_inv_same [OF wait_block(4)]) auto
next
  case (select_done s)
  then show ?case by (intro flags_inv_done [OF select_done(3)]) (auto simp: finishWorker_lifecycle flags_inv_def Let_def)
next
  case (select_wake s)
  then show ?case by (intro flags_inv_same [OF select_wake(3)]) auto
next
  case (mode s now d1 m entered now')
  then show ?case
    using circuitMode_frame [OF mode(2)] by (intro flags_inv_same [OF mode(3)]) auto
next
  case (blocked s d' ps)
  then show ?case
    using takeCircuitRejectedBatch_lifecycle [OF blocked(2)]
    by (intro flags_inv_same [OF blocked(3)]) (auto split: if_splits)
next
  case (reject s ps)
  then show ?case by (intro flags_inv_same [OF reject(2)]) auto
next
  case (delay_over s)
  then show ?case by (intro flags_inv_same [OF delay_over(3)]) auto
next
  case (delay_wake s)
  then show ?case by (intro flags_inv_same [OF delay_wake(4)]) auto
next
  case (delay_cancelled s)
  then show ?case
    by (intro flags_inv_done [OF delay_cancelled(3)]) (auto simp: abandon_lifecycle(1) flags_inv_def Let_def)
next
  case (take s probe candidates n sz oversized)
  then show ?case by (intro flags_inv_same [OF take(3)]) (auto split: if_splits)
next
  case (commit s probe candidates n sz oversized d' ps)
  then show ?case
    using takeBatch_commit_lifecycle [OF commit(2)]
    by (intro flags_inv_same [OF commit(3)]) (auto split: if_splits)
next
  case (oversized s ps now now')
  then show ?case by (intro flags_inv_same [OF oversized(2)]) auto
next
  case (attempt s ps probe n answer now now' d' e)
  then show ?case
    using deliver_attempt_refines(2,4) [OF attempt(2)]
    by (intro flags_inv_same [OF attempt(3)]) (auto simp: flags_inv_def Let_def)
next
  case (backoff_over s ps probe n full)
  then show ?case by (intro flags_inv_same [OF backoff_over(3)]) auto
next
  case (backoff_cancelled s ps probe n)
  then show ?case
    by (intro flags_inv_same [OF backoff_cancelled(3)]) (auto simp: flags_inv_def Let_def)
next
  case (abandon s)
  then show ?case
    by (intro flags_inv_done [OF abandon(2)]) (auto simp: abandon_lifecycle(2) flags_inv_def Let_def)
qed

lemma balanced_pending_le:
  "balanced h n (ledger_of d) \<Longrightarrow> int (length (d_pending d)) \<le> d_chargedItems d"
  by (simp add: balanced_def)

lemma ledger_inv_same:
  assumes "sys_inv config s" and "ledger_of (s_d s') = ledger_of (s_d s)"
    and "d_config (s_d s') = d_config (s_d s)" and "held (s_pc s') = held (s_pc s)"
    and "s_calls s' = s_calls s" and "s_accepted s' = s_accepted s" and "s_settled s' = s_settled s"
  shows "ledger_inv s'"
  using assms ledger_eq_pending [OF assms(2)] by (simp add: sys_inv_def ledger_inv_def)

lemma ledger_inv_settle:
  assumes sys: "sys_inv config s" and upd: "ledger_of (s_d s') = ledger_settle (held (s_pc s)) (ledger_of (s_d s))"
    and same: "d_config (s_d s') = d_config (s_d s)" "s_calls s' = s_calls s" "s_accepted s' = s_accepted s"
    and h: "held (s_pc s') = []" and out: "s_settled s' = s_settled s @ held (s_pc s)"
  shows "ledger_inv s'"
proof -
  have inv: "ledger_inv s" using sys by (simp add: sys_inv_def)
  have bal: "balanced [] (s_calls s') (ledger_of (s_d s'))"
    using inv upd same balanced_settle by (simp add: ledger_inv_def)
  have p: "d_pending (s_d s') = d_pending (s_d s)"
    and c: "d_chargedItems (s_d s') = d_chargedItems (s_d s) - int (length (held (s_pc s)))"
      "d_chargedBytes (s_d s') = d_chargedBytes (s_d s) - Sizes (held (s_pc s))"
    using arg_cong [OF upd, of g_pending] arg_cong [OF upd, of g_items] arg_cong [OF upd, of g_bytes]
    by (simp_all add: ledger_settle_def)
  have items: "d_chargedItems (s_d s) = int (length (d_pending (s_d s))) + int (length (held (s_pc s)))"
    using inv by (simp add: ledger_inv_def balanced_def)
  have "d_chargedItems (s_d s') \<le> d_chargedItems (s_d s)" "d_chargedBytes (s_d s') \<le> d_chargedBytes (s_d s)"
    "d_chargedItems (s_d s) = 0 \<longrightarrow> d_chargedItems (s_d s') = 0"
    using c items Sizes_nonneg [of "held (s_pc s)"] by linarith+
  then show ?thesis
    using inv bal p same h out unfolding ledger_inv_def by (auto simp del: ledger_sel)
qed

lemma ledger_inv_abandon:
  assumes sys: "sys_inv config s" and upd: "ledger_of (s_d s') = ledger_abandon (ledger_of (s_d s))"
    and same: "d_config (s_d s') = d_config (s_d s)" "s_calls s' = s_calls s" "s_accepted s' = s_accepted s"
    and h: "held (s_pc s) = []" "held (s_pc s') = []"
    and out: "s_settled s' = s_settled s @ d_pending (s_d s)"
  shows "ledger_inv s'"
proof -
  have inv: "ledger_inv s" using sys by (simp add: sys_inv_def)
  have bal: "balanced [] (s_calls s') (ledger_of (s_d s'))"
    using inv upd same h balanced_abandon by (simp add: ledger_inv_def)
  have p: "d_pending (s_d s') = []"
    using arg_cong [OF upd, of g_pending] by (simp add: ledger_abandon_def)
  then have "d_chargedItems (s_d s') = 0" and "d_chargedBytes (s_d s') = 0"
    using bal by (simp_all add: balanced_def)
  moreover have "0 \<le> d_chargedItems (s_d s)" and "0 \<le> d_chargedBytes (s_d s)"
    using inv by (simp_all add: ledger_inv_def balanced_def)
  ultimately show ?thesis
    using inv bal p same h out by (auto simp: ledger_inv_def)
qed

lemma ledger_inv_take:
  assumes sys: "sys_inv config s" and upd: "ledger_of (s_d s') = ledger_take n (ledger_of (s_d s))"
    and same: "d_config (s_d s') = d_config (s_d s)" "s_calls s' = s_calls s" "s_accepted s' = s_accepted s"
      "s_settled s' = s_settled s"
    and h: "held (s_pc s) = []" "held (s_pc s') = take n (d_pending (s_d s))"
  shows "ledger_inv s'"
proof -
  have inv: "ledger_inv s" using sys by (simp add: sys_inv_def)
  have "balanced (take n (g_pending (ledger_of (s_d s)))) (s_calls s) (ledger_of (s_d s'))"
    using balanced_take [of "s_calls s" "ledger_of (s_d s)" n] inv upd h
    by (simp add: ledger_inv_def del: ledger_sel)
  moreover have "d_pending (s_d s') = drop n (d_pending (s_d s))"
    "d_chargedItems (s_d s') = d_chargedItems (s_d s)" "d_chargedBytes (s_d s') = d_chargedBytes (s_d s)"
    using arg_cong [OF upd, of g_pending] arg_cong [OF upd, of g_items] arg_cong [OF upd, of g_bytes]
    by (simp_all add: ledger_take_def)
  ultimately show ?thesis
    using inv same h by (simp add: ledger_inv_def)
qed

lemma ledger_inv_enqueue:
  assumes inv: "ledger_inv s" and flags: "flags_inv config s"
    and enq: "Enqueue (Some (s_d s)) p now now' = (Some d', r)"
  shows "ledger_inv (s\<lparr>s_d := d', s_calls := s_calls s + 1,
      s_accepted := (if Accepted r then s_accepted s @ [p] else s_accepted s)\<rparr>)"
proof (cases "Accepted r")
  case True
  have upd: "ledger_of d' = ledger_accept p (ledger_of (s_d s))"
    using Enqueue_refines(1) [OF enq] True by simp
  have bal: "balanced (held (s_pc s)) (s_calls s + 1) (ledger_of d')"
    using inv upd balanced_accept by (simp add: ledger_inv_def)
  have cfg: "d_config d' = d_config (s_d s)"
    using lifecycle_eqD [OF Enqueue_refines(2) [OF enq]] by simp
  have "d_pending d' = d_pending (s_d s) @ [p]" "d_chargedItems d' = d_chargedItems (s_d s) + 1"
    "d_chargedBytes d' = d_chargedBytes (s_d s) + Size p"
    using arg_cong [OF upd, of g_pending] arg_cong [OF upd, of g_items] arg_cong [OF upd, of g_bytes]
    by (simp_all add: ledger_accept_def)
  moreover have "f_Enabled (d_config (s_d s))"
    using Enqueue_accepted(4) [OF enq True] flags by (auto simp: flags_inv_def Let_def)
  ultimately show ?thesis
    using inv bal cfg True Enqueue_accepted(1,2) [OF enq True] by (simp add: ledger_inv_def)
next
  case False
  have upd: "ledger_of d' = ledger_refuse (ledger_of (s_d s))"
    using Enqueue_refines(1) [OF enq] False by simp
  have bal: "balanced (held (s_pc s)) (s_calls s + 1) (ledger_of d')"
    using inv upd balanced_refuse by (simp add: ledger_inv_def)
  have cfg: "d_config d' = d_config (s_d s)"
    using lifecycle_eqD [OF Enqueue_refines(2) [OF enq]] by simp
  have "d_pending d' = d_pending (s_d s)" "d_chargedItems d' = d_chargedItems (s_d s)"
    "d_chargedBytes d' = d_chargedBytes (s_d s)"
    using arg_cong [OF upd, of g_pending] arg_cong [OF upd, of g_items] arg_cong [OF upd, of g_bytes]
    by (simp_all add: ledger_refuse_def)
  then show ?thesis using inv bal cfg False by (simp add: ledger_inv_def)
qed

lemma config_of_lifecycle: "lifecycle_of d' = lifecycle_of d \<Longrightarrow> d_config d' = d_config d"
  by (simp add: lifecycle_of_def)

lemma finishWorker_config: "d_config (finishWorker d) = d_config d"
  by (simp add: finishWorker_def)

lemmas abort_config = config_of_lifecycle [OF circuit_ops_frame(6)]

lemma abandon_effects [simp]:
  "ledger_of (finishWorker (abandonPending d)) = ledger_abandon (ledger_of d)"
  "d_config (finishWorker (abandonPending d)) = d_config d"
  "d_pending (finishWorker (abandonPending d)) = []"
  using config_of_lifecycle [OF abandonPending_refines(2) [of d]]
  by (simp_all add: abandonPending_refines(1)) (simp_all add: finishWorker_def abandonPending_def
      Let_def add_dropped_def signalFlush_def)

lemma abort_pending [simp]: "d_pending (fst (abortCircuitProbe d)) = d_pending d"
  by (simp add: abortCircuitProbe_def)

lemma ledger_inv_step:
  assumes "dstep enc s s'" and "sys_inv config s"
  shows "ledger_inv s'"
  using assms
proof (induction rule: dstep.induct)
  case (enqueue s p now now' d' r)
  then show ?case using ledger_inv_enqueue [OF _ _ enqueue(1)] unfolding sys_inv_def by blast
next
  case (activate s now d')
  have "d_config d' = d_config (s_d s)"
    using Activate_effect(2) [OF activate(1)] by (auto simp: lifecycle_of_def split: if_splits)
  then show ?case
    using activate(2) Activate_effect(1) [OF activate(1)]
    by (intro ledger_inv_same [of config s]) (auto simp: sys_inv_def)
next
  case (stop_intake s now d')
  have "d_config d' = d_config (s_d s)"
    using StopIntake_effect(2) [OF stop_intake(1)] by (simp add: lifecycle_of_def)
  then show ?case
    using stop_intake(2) StopIntake_effect(1) [OF stop_intake(1)]
    by (intro ledger_inv_same [of config s]) (auto simp: sys_inv_def)
next
  case (close_begin s now)
  have "d_config (Close_begin (s_d s) now) = d_config (s_d s)"
    using Close_begin_effect(2) [of "s_d s" now] by (simp add: lifecycle_of_def)
  then show ?case
    using close_begin by (intro ledger_inv_same [of config s]) (auto simp: sys_inv_def Close_begin_effect)
next
  case (close_finish s now)
  then show ?case
    by (intro ledger_inv_same [of config s])
       (auto simp: sys_inv_def Close_finish_effect config_of_lifecycle [OF Close_finish_effect(2)])
next
  case (flush_wait s)
  then show ?case by (intro ledger_inv_same [of config s]) (auto simp: config_of_lifecycle [OF wake_frame(5)])
next
  case (top_cancelled s)
  then show ?case
    by (intro ledger_inv_abandon [of config s]) (auto simp: sys_inv_def abort_config)
next
  case (mode s now d1 m entered now')
  have f: "ledger_of d1 = ledger_of (s_d s)" "lifecycle_of d1 = lifecycle_of (s_d s)"
    using circuitMode_frame [OF mode(2)] by simp_all
  have "d_config (setOperationalHealth d1 HealthDegraded HealthReasonCircuitHalfOpen now') = d_config d1"
    by (rule config_of_lifecycle) simp
  then show ?case
    using mode f config_of_lifecycle [OF f(2)] by (intro ledger_inv_same [of config s]) auto
next
  case (blocked s d' ps)
  note inv = \<open>sys_inv config s\<close>
  show ?case
  proof (cases "ps = []")
    case True
    with blocked have "d' = s_d s"
      by (auto simp: sys_inv_def takeCircuitRejectedBatch_def Let_def split: if_splits)
    with True blocked inv show ?thesis by (intro ledger_inv_same [of config s]) auto
  next
    case False
    note r = takeCircuitRejectedBatch_refines [OF blocked(2) False]
    show ?thesis
      using False r blocked(1) inv config_of_lifecycle [OF takeCircuitRejectedBatch_lifecycle [OF blocked(2)]]
      by (intro ledger_inv_take [of config s _ "batch_limit (s_d s)"]) auto
  qed
next
  case (reject s ps)
  then show ?case
    using drop_release_refines(2) [of "s_d s" ps]
    by (intro ledger_inv_settle [of config s])
       (auto simp: sys_inv_def release_def signalFlush_def add_rejected_def)
next
  case (delay_cancelled s)
  then show ?case by (intro ledger_inv_abandon [of config s]) (auto simp: sys_inv_def)
next
  case (take s probe candidates n sz oversized)
  then show ?case
    by (intro ledger_inv_same [of config s]) (auto simp: sys_inv_def abort_config)
next
  case (commit s probe candidates n sz oversized d' ps)
  then have pre: "prefix candidates (d_pending (s_d s))" "n \<le> length candidates"
    by (auto simp: sys_inv_def)
  note inv = \<open>sys_inv config s\<close>
  have "take n (d_pending (s_d s)) = take n candidates" "n \<le> length (d_pending (s_d s))"
    using pre prefix_length_le [OF pre(1)] by (auto simp: prefix_def)
  note r = takeBatch_commit_refines [OF commit(2) this]
  show ?case
    using r commit(1) inv config_of_lifecycle [OF takeBatch_commit_lifecycle [OF commit(2)]]
    by (intro ledger_inv_take [of config s _ n]) auto
next
  case (oversized s ps now now')
  then show ?case
    by (intro ledger_inv_settle [of config s])
       (auto simp: sys_inv_def config_of_lifecycle [OF rejectOversized_refines(2)])
next
  case (attempt s ps probe n answer now now' d' e)
  note inv = \<open>sys_inv config s\<close>
  note r = deliver_attempt_refines(1) [OF attempt(2)]
    config_of_lifecycle [OF deliver_attempt_refines(2) [OF attempt(2)]]
  show ?case
  proof (cases "e = AttemptRetry")
    case True
    with r attempt(1) inv show ?thesis
      by (intro ledger_inv_same [of config s]) auto
  next
    case False
    with r attempt(1) inv show ?thesis
      by (intro ledger_inv_settle [of config s]) auto
  qed
next
  case (backoff_cancelled s ps probe n)
  then show ?case
    using drop_release_refines(1) [of "s_d s" ps]
    by (intro ledger_inv_settle [of config s])
       (auto simp: sys_inv_def release_def signalFlush_def add_dropped_def)
next
  case (abandon s)
  then show ?case
    by (intro ledger_inv_abandon [of config s]) (auto simp: sys_inv_def abort_config)
next
  case (top_go s)
  then show ?case by (intro ledger_inv_same [of config s]) auto
next
  case (wait_pending s)
  then show ?case by (intro ledger_inv_same [of config s]) auto
next
  case (wait_stopped s)
  then show ?case by (intro ledger_inv_same [of config s]) (auto simp: finishWorker_config)
next
  case (wait_block s)
  then show ?case by (intro ledger_inv_same [of config s]) auto
next
  case (select_done s)
  then show ?case by (intro ledger_inv_same [of config s]) (auto simp: finishWorker_config)
next
  case (select_wake s)
  then show ?case by (intro ledger_inv_same [of config s]) auto
next
  case (delay_over s)
  then show ?case by (intro ledger_inv_same [of config s]) auto
next
  case (delay_wake s)
  then show ?case by (intro ledger_inv_same [of config s]) auto
next
  case (backoff_over s ps probe n full)
  then show ?case by (intro ledger_inv_same [of config s]) auto
qed

subsection \<open>The program counter\<close>

lemma attempt_limit_cong: "d_config d' = d_config d \<Longrightarrow> attempt_limit d' probe = attempt_limit d probe"
  by (simp add: attempt_limit_def)

lemma pc_inv_mono:
  assumes "pc_inv d pc" and "prefix (d_pending d) (d_pending d')" and "d_config d' = d_config d"
    and "d_workerDone d \<longrightarrow> d_workerDone d'" and "d_rootCancelled d \<longrightarrow> d_rootCancelled d'"
    and "pc = W_Done \<longrightarrow> d_pending d' = d_pending d"
  shows "pc_inv d' pc"
  using assms prefix_order.order_trans [OF _ assms(2)]
  by (cases pc) (auto simp: attempt_limit_cong [OF assms(3)])

lemma pc_inv_same:
  assumes "pc_inv d pc" and "lifecycle_of d' = lifecycle_of d" and "d_pending d' = d_pending d"
  shows "pc_inv d' pc"
  using assms lifecycle_eqD [OF assms(2)] by (intro pc_inv_mono [OF assms(1)]) auto

lemma takeBatch_select_bounds:
  assumes "takeBatch_select enc d = (cs, n, sz, oversized)"
  shows "prefix cs (d_pending d)" "n \<le> length cs"
    "0 \<le> f_MaxBatchItems (d_config d) \<Longrightarrow> int (length cs) \<le> f_MaxBatchItems (d_config d)"
proof -
  have cs: "cs = take (batch_limit d) (d_pending d)"
    and l: "select_loop enc (f_MaxBatchBytes (d_config d)) cs 0 0 [] 0 = (n, sz, oversized)"
    using assms by (auto simp: takeBatch_select_def Let_def)
  show "prefix cs (d_pending d)" by (simp add: cs take_is_prefix)
  show "n \<le> length cs"
    using select_loop_result [OF l] by (cases cs) (auto split: if_splits)
  show "0 \<le> f_MaxBatchItems (d_config d) \<Longrightarrow> int (length cs) \<le> f_MaxBatchItems (d_config d)"
    by (simp add: cs batch_limit_def)
qed

lemma flags_batch_nonneg:
  assumes "flags_inv config s" and "s_pc s \<noteq> W_NotStarted"
  shows "0 < f_MaxBatchItems (d_config (s_d s))" "1 \<le> attempt_limit (s_d s) probe"
    "attempt_limit (s_d s) probe \<le> 32" "0 < f_MaxBatchBytes (d_config (s_d s))"
proof -
  have "validEnabledConfig (d_config (s_d s)) True"
    using assms by (auto simp: flags_inv_def Let_def)
  then show "0 < f_MaxBatchItems (d_config (s_d s))" "1 \<le> attempt_limit (s_d s) probe"
    "attempt_limit (s_d s) probe \<le> 32" "0 < f_MaxBatchBytes (d_config (s_d s))"
    by (auto simp: validEnabledConfig_def attempt_limit_def maxAttempts_def)
qed

lemma pc_inv_step:
  assumes "dstep enc s s'" and "sys_inv config s"
  shows "pc_inv (s_d s') (s_pc s')"
  using assms
proof (induction rule: dstep.induct)
  case (enqueue s p now now' d' r)
  have "s_pc s = W_Done \<longrightarrow> \<not> Accepted r"
    using Enqueue_accepted(4) [OF enqueue(1)] enqueue(2) by (auto simp: sys_inv_def flags_inv_def Let_def)
  moreover have "d_pending d' = (if Accepted r then d_pending (s_d s) @ [p] else d_pending (s_d s))"
    using arg_cong [OF Enqueue_refines(1) [OF enqueue(1)], of g_pending]
    by (auto simp: ledger_accept_def ledger_refuse_def split: if_splits)
  ultimately show ?case
    using enqueue lifecycle_eqD [OF Enqueue_refines(2) [OF enqueue(1)]]
    by (auto simp: sys_inv_def intro!: pc_inv_mono [of "s_d s"])
next
  case (activate s now d')
  then show ?case
    using Activate_effect(2) [OF activate(1)] ledger_eq_pending [OF Activate_effect(1) [OF activate(1)]]
    by (auto simp: sys_inv_def lifecycle_of_def split: if_splits intro!: pc_inv_mono [of "s_d s"])
next
  case (stop_intake s now d')
  then show ?case
    using StopIntake_effect(2) [OF stop_intake(1)] ledger_eq_pending [OF StopIntake_effect(1) [OF stop_intake(1)]]
    by (auto simp: sys_inv_def lifecycle_of_def intro!: pc_inv_mono [of "s_d s"])
next
  case (close_begin s now)
  then show ?case
    using Close_begin_effect(2) [of "s_d s" now] ledger_eq_pending [OF Close_begin_effect(1) [of "s_d s" now]]
    by (auto simp: sys_inv_def lifecycle_of_def intro!: pc_inv_mono [of "s_d s"])
next
  case (close_finish s now)
  then show ?case
    using ledger_eq_pending [OF Close_finish_effect(1) [of "s_d s" now]] Close_finish_effect(2)
    by (auto simp: sys_inv_def intro!: pc_inv_same [of "s_d s"])
next
  case (flush_wait s)
  then show ?case
    using ledger_eq_pending [OF wake_frame(4) [of "s_d s"]]
    by (auto simp: sys_inv_def intro!: pc_inv_same [of "s_d s"])
next
  case (top_cancelled s)
  then show ?case
    using abandon_lifecycle(2) [of "s_d s"] by (auto simp: lifecycle_of_def)
next
  case (wait_stopped s)
  then show ?case by (auto simp: finishWorker_def)
next
  case (select_done s)
  then show ?case by (auto simp: finishWorker_def)
next
  case (mode s now d1 m entered now')
  then have "d_pending d1 = d_pending (s_d s)" "d_pending (s_d s) \<noteq> []"
    using circuitMode_frame [OF mode(2)] ledger_eq_pending [of d1 "s_d s"] by (auto simp: sys_inv_def)
  moreover have "d_pending (setOperationalHealth d1 HealthDegraded HealthReasonCircuitHalfOpen now')
      = d_pending d1"
    using ledger_eq_pending [of "setOperationalHealth d1 HealthDegraded HealthReasonCircuitHalfOpen now'" d1]
    by simp
  ultimately show ?case by (cases m) (auto simp: mode_pc_def)
next
  case (blocked s d' ps)
  have c: "d_config d' = d_config (s_d s)"
    using config_of_lifecycle [OF takeCircuitRejectedBatch_lifecycle [OF blocked(2)]] .
  have "0 < f_MaxBatchItems (d_config (s_d s))"
    using flags_batch_nonneg blocked by (auto simp: sys_inv_def)
  then show ?case
    using takeCircuitRejectedBatch_refines(2) [OF blocked(2)] c by (auto simp: batch_limit_def)
next
  case (delay_cancelled s)
  then show ?case
    using abandon_lifecycle(1) [of "s_d s"] by (auto simp: lifecycle_of_def)
next
  case (take s probe candidates n sz oversized)
  have "0 < f_MaxBatchItems (d_config (s_d s))"
    using flags_batch_nonneg take by (auto simp: sys_inv_def)
  then show ?case using takeBatch_select_bounds [OF take(2)] take by auto
next
  case (commit s probe candidates n sz oversized d' ps)
  have c: "d_config d' = d_config (s_d s)"
    using config_of_lifecycle [OF takeBatch_commit_lifecycle [OF commit(2)]] .
  have "1 \<le> attempt_limit (s_d s) probe"
    using flags_batch_nonneg commit by (auto simp: sys_inv_def)
  moreover have "ps = take n candidates"
    using commit(2) by (simp add: takeBatch_commit_def Let_def)
  moreover have "0 < n" "n \<le> length candidates" "int (length candidates) \<le> f_MaxBatchItems (d_config (s_d s))"
    using commit by (auto simp: sys_inv_def)
  ultimately show ?case by (auto simp: c attempt_limit_cong [OF c])
next
  case (attempt s ps probe n answer now now' d' e)
  have c: "d_config d' = d_config (s_d s)"
    using config_of_lifecycle [OF deliver_attempt_refines(2) [OF attempt(2)]] .
  show ?case
    using attempt deliver_attempt_refines(3) [OF attempt(2)]
    by (cases e) (auto simp: attempt_pc_def c attempt_limit_cong [OF c] sys_inv_def)
next
  case (backoff_over s ps probe n full)
  then show ?case by (auto simp: sys_inv_def)
next
  case (abandon s)
  then show ?case
    using abandon_lifecycle(2) [of "s_d s"] by (auto simp: lifecycle_of_def sys_inv_def flags_inv_def Let_def)
qed (auto simp: sys_inv_def)

end
