(* ===== verification/Delivery_Safety.thy ===== *)
theory Delivery_Safety
  imports Delivery_Worker
begin

text \<open>
  What the interleaving of \<^verbatim>\<open>Delivery_Worker\<close> guarantees in every reachable state: accounting,
  first-in-first-out disposition, queue and retry bounds, lossless draining.  The step relation
  is given an executable labelled form, \<open>perform\<close>, which the concrete schedules of this theory are
  evaluated with.  Two schedules at the end show behaviour the code does not intend: a half-open
  breaker that nobody can close, and an accepted record that is never accounted.
\<close>

subsection \<open>The invariant of reachable states\<close>

lemma NewDispatcher_inv:
  assumes "NewDispatcher config True = Inr d"
  shows "sys_inv config (init_sys d)"
  using assms
  by (auto simp: NewDispatcher_def Let_def sys_inv_def flags_inv_def ledger_inv_def init_sys_def
      balanced_def ledger_of_def Sizes_def validEnabledConfig_def settled_def split: if_splits option.splits)

lemma reachable_inv: "reachable enc config s \<Longrightarrow> sys_inv config s"
proof (induction rule: reachable.induct)
  case (start d)
  then show ?case by (rule NewDispatcher_inv)
next
  case (step s s')
  then have "flags_inv config s'" by (auto simp: sys_inv_def intro: flags_inv_step)
  then show ?case
    using step ledger_inv_step pc_inv_step unfolding sys_inv_def by blast
qed

lemmas reachable_invs = reachable_inv [unfolded sys_inv_def]

subsection \<open>Labelled steps\<close>

text \<open>
  The choices that the environment and the scheduler make: \<open>A_Work\<close> is the worker's next section
  when no select picks the cancellation branch, \<open>A_Cancel\<close> the cancellation branch.
\<close>

datatype action =
    A_Enqueue Payload gotime gotime
  | A_Activate gotime
  | A_StopIntake gotime
  | A_CloseBegin gotime
  | A_CloseFinish gotime
  | A_Work gotime gotime
  | A_Answer "DeliveryResult option" gotime gotime
  | A_Cancel

definition work :: "(int list \<Rightarrow> int option) \<Rightarrow> Sys \<Rightarrow> gotime \<Rightarrow> gotime \<Rightarrow> Sys option" where
  "work enc s now now' = (let d = s_d s in case s_pc s of
     W_Top \<Rightarrow> if d_rootCancelled d then None else Some (s\<lparr>s_pc := W_Wait\<rparr>)
   | W_Wait \<Rightarrow> if d_pending d \<noteq> [] then Some (s\<lparr>s_pc := W_Mode\<rparr>)
       else if intakeIsStopped d then Some (s\<lparr>s_d := finishWorker d, s_pc := W_Done\<rparr>)
       else Some (s\<lparr>s_pc := W_Select\<rparr>)
   | W_Select \<Rightarrow> if d_wake d then Some (s\<lparr>s_d := d\<lparr>d_wake := False\<rparr>, s_pc := W_Wait\<rparr>) else None
   | W_Mode \<Rightarrow> (case circuitMode d now of (d1, m, entered) \<Rightarrow>
       Some (s\<lparr>s_d := (if entered
           then setOperationalHealth d1 HealthDegraded HealthReasonCircuitHalfOpen now' else d1),
         s_pc := mode_pc m\<rparr>))
   | W_Blocked \<Rightarrow> (case takeCircuitRejectedBatch d of (d', ps) \<Rightarrow>
       Some (s\<lparr>s_d := d', s_pc := (if ps = [] then W_Top else W_Reject ps)\<rparr>))
   | W_Reject ps \<Rightarrow> Some (s\<lparr>s_d := release (add_rejected d (of_nat (length ps))) ps, s_pc := W_Top,
       s_settled := s_settled s @ ps\<rparr>)
   | W_Delay \<Rightarrow> if 0 < f_ScheduledDelay (d_config d) \<or> \<not> d_rootCancelled d
       then Some (s\<lparr>s_pc := W_Take False\<rparr>) else None
   | W_Take probe \<Rightarrow> (case takeBatch_select enc d of (candidates, n, sz, oversized) \<Rightarrow>
       Some (if n = 0
         then s\<lparr>s_d := (if probe then fst (abortCircuitProbe d) else d), s_pc := W_Top\<rparr>
         else s\<lparr>s_pc := W_Commit probe candidates n sz oversized\<rparr>))
   | W_Commit probe candidates n sz oversized \<Rightarrow> (case takeBatch_commit d candidates n of (d', ps) \<Rightarrow>
       Some (s\<lparr>s_d := d', s_pc := (if oversized then W_Oversized ps else W_Deliver ps probe 1)\<rparr>))
   | W_Oversized ps \<Rightarrow> Some (s\<lparr>s_d := rejectOversized d ps now now', s_pc := W_Top,
       s_settled := s_settled s @ ps\<rparr>)
   | W_Backoff ps probe n \<Rightarrow> if \<not> d_rootCancelled d
       then Some (s\<lparr>s_pc := W_Deliver ps probe (n + 1)\<rparr>) else None
   | W_Abandon \<Rightarrow> Some (s\<lparr>s_d := finishWorker (abandonPending (fst (abortCircuitProbe d))),
       s_pc := W_Done, s_settled := s_settled s @ d_pending d\<rparr>)
   | _ \<Rightarrow> None)"

definition cancel :: "Sys \<Rightarrow> Sys option" where
  "cancel s = (let d = s_d s in if \<not> d_rootCancelled d then None else case s_pc s of
     W_Top \<Rightarrow> Some (s\<lparr>s_d := finishWorker (abandonPending (fst (abortCircuitProbe d))),
       s_pc := W_Done, s_settled := s_settled s @ d_pending d\<rparr>)
   | W_Select \<Rightarrow> Some (s\<lparr>s_d := finishWorker d, s_pc := W_Done\<rparr>)
   | W_Delay \<Rightarrow> Some (s\<lparr>s_d := finishWorker (abandonPending d), s_pc := W_Done,
       s_settled := s_settled s @ d_pending d\<rparr>)
   | W_Backoff ps probe n \<Rightarrow> Some (s\<lparr>s_d := release (add_dropped d (of_nat (length ps))) ps,
       s_pc := W_Abandon, s_settled := s_settled s @ ps\<rparr>)
   | _ \<Rightarrow> None)"

fun perform :: "(int list \<Rightarrow> int option) \<Rightarrow> action \<Rightarrow> Sys \<Rightarrow> Sys option" where
  "perform enc (A_Enqueue p now now') s =
     (case Enqueue (Some (s_d s)) p now now' of
        (None, r) \<Rightarrow> None
      | (Some d', r) \<Rightarrow> Some (s\<lparr>s_d := d', s_calls := s_calls s + 1,
          s_accepted := (if Accepted r then s_accepted s @ [p] else s_accepted s)\<rparr>))"
| "perform enc (A_Activate now) s = map_option (\<lambda>d'. s\<lparr>s_d := d',
     s_pc := (if d_workerStarted d' \<and> s_pc s = W_NotStarted then W_Top else s_pc s)\<rparr>)
     (Activate (Some (s_d s)) now)"
| "perform enc (A_StopIntake now) s = map_option (\<lambda>d'. s\<lparr>s_d := d'\<rparr>) (StopIntake (Some (s_d s)) now)"
| "perform enc (A_CloseBegin now) s = Some (s\<lparr>s_d := Close_begin (s_d s) now\<rparr>)"
| "perform enc (A_CloseFinish now) s =
     (if d_workerDone (s_d s) then Some (s\<lparr>s_d := Close_finish (s_d s) now\<rparr>) else None)"
| "perform enc (A_Work now now') s = work enc s now now'"
| "perform enc (A_Answer answer now now') s =
     (case s_pc s of
        W_Deliver ps probe n \<Rightarrow>
          (case deliver_attempt (s_d s) ps n (attempt_limit (s_d s) probe) answer
                  (d_rootCancelled (s_d s)) now now' of (d', e) \<Rightarrow>
             Some (s\<lparr>s_d := d', s_pc := attempt_pc e ps probe n,
               s_settled := (if e = AttemptRetry then s_settled s else s_settled s @ ps)\<rparr>))
      | _ \<Rightarrow> None)"
| "perform enc A_Cancel s = cancel s"

fun schedule :: "(int list \<Rightarrow> int option) \<Rightarrow> action list \<Rightarrow> Sys \<Rightarrow> Sys option" where
  "schedule enc [] s = Some s"
| "schedule enc (a # as) s = (case perform enc a s of None \<Rightarrow> None | Some s' \<Rightarrow> schedule enc as s')"

lemma work_dstep:
  assumes w: "work enc s now now' = Some s'"
  shows "dstep enc s s'"
proof (cases "s_pc s")
  case W_Blocked
  obtain d' ps where "takeCircuitRejectedBatch (s_d s) = (d', ps)" by fastforce
  then show ?thesis
    using dstep.blocked [OF W_Blocked, of d' ps enc] w W_Blocked by (simp add: work_def Let_def)
next
  case W_Mode
  obtain d1 m entered where "circuitMode (s_d s) now = (d1, m, entered)" by (metis prod_cases3)
  then show ?thesis
    using dstep.mode [OF W_Mode, of now d1 m entered enc now'] w W_Mode by (simp add: work_def Let_def)
next
  case (W_Take probe)
  obtain cs n sz oversized where "takeBatch_select enc (s_d s) = (cs, n, sz, oversized)"
    by (metis prod_cases4)
  then show ?thesis
    using dstep.take [OF W_Take, of enc cs n sz oversized] w W_Take by (simp add: work_def Let_def)
next
  case (W_Commit probe cs n sz oversized)
  obtain d' ps where "takeBatch_commit (s_d s) cs n = (d', ps)" by fastforce
  then show ?thesis
    using dstep.commit [OF W_Commit, of d' ps enc] w W_Commit by (simp add: work_def Let_def)
qed (use w in \<open>auto simp: work_def Let_def split: if_splits intro: dstep.intros\<close>)

lemma cancel_dstep: "cancel s = Some s' \<Longrightarrow> dstep enc s s'"
  by (cases "s_pc s") (auto simp: cancel_def Let_def split: if_splits intro: dstep.intros)

lemma answer_dstep:
  assumes p: "perform enc (A_Answer answer now now') s = Some s'"
  shows "dstep enc s s'"
proof -
  obtain ps probe n where pc: "s_pc s = W_Deliver ps probe n"
    using p by (cases "s_pc s") auto
  obtain d' e where "deliver_attempt (s_d s) ps n (attempt_limit (s_d s) probe) answer
      (d_rootCancelled (s_d s)) now now' = (d', e)" by fastforce
  then show ?thesis using dstep.attempt [OF pc, of answer now now' d' e enc] p pc by simp
qed

lemma enqueue_dstep:
  assumes p: "perform enc (A_Enqueue p now now') s = Some s'"
  shows "dstep enc s s'"
proof -
  obtain d' r where "Enqueue (Some (s_d s)) p now now' = (Some d', r)"
    using p by (auto split: prod.splits option.splits)
  then show ?thesis using dstep.enqueue [of s p now now' d' r enc] p by simp
qed

lemma perform_dstep: "perform enc a s = Some s' \<Longrightarrow> dstep enc s s'"
proof (cases a)
  case (A_Activate now)
  moreover assume "perform enc a s = Some s'"
  ultimately obtain d' where "Activate (Some (s_d s)) now = Some d'"
    "s' = s\<lparr>s_d := d', s_pc := (if d_workerStarted d' \<and> s_pc s = W_NotStarted then W_Top else s_pc s)\<rparr>"
    by auto
  then show ?thesis using dstep.activate by blast
qed (auto simp del: perform.simps(1,7) split: if_splits
    intro: dstep.intros work_dstep cancel_dstep answer_dstep enqueue_dstep)

lemma schedule_reachable:
  "schedule enc as s = Some s' \<Longrightarrow> reachable enc config s \<Longrightarrow> reachable enc config s'"
proof (induction as arbitrary: s)
  case (Cons a as)
  then obtain s1 where "perform enc a s = Some s1" "schedule enc as s1 = Some s'"
    by (auto split: option.splits)
  then show ?case using Cons reachable.step perform_dstep by blast
qed simp

definition run_schedule :: "(int list \<Rightarrow> int option) \<Rightarrow> Config \<Rightarrow> action list \<Rightarrow> Sys option" where
  "run_schedule enc config as =
     (case NewDispatcher config True of Inl e \<Rightarrow> None | Inr d \<Rightarrow> schedule enc as (init_sys d))"

lemma run_schedule_reachable:
  "run_schedule enc config as = Some s \<Longrightarrow> reachable enc config s"
  by (auto simp: run_schedule_def split: sum.splits intro: schedule_reachable reachable.start)

subsection \<open>A small configuration and its schedules\<close>

definition example_config :: Config where
  "example_config = \<lparr>f_Destination = ''otlp'', f_Generation = 1, f_Signal = ''logs'', f_Enabled = True,
     f_MaxQueueItems = 3, f_MaxQueueBytes = 100, f_MaxBatchItems = 2, f_MaxBatchBytes = 50,
     f_ScheduledDelay = 0, f_AttemptTimeout = Second,
     f_Retry = \<lparr>MaxAttempts = 2, InitialBackoff = 0, MaxBackoff = 0, Jitter = None\<rparr>,
     f_Circuit = \<lparr>TransientFailureThreshold = 1, OpenDuration = 10 * Second\<rparr>,
     f_ObserverInterval = 0\<rparr>"

definition example_enc :: "int list \<Rightarrow> int option" where
  "example_enc sizes = Some (sum_list sizes)"

definition example_payload :: "char \<Rightarrow> Payload" where
  "example_payload c = \<lparr>p_encoded = [c], p_identity = \<lparr>i_RecordID = [c], i_Bucket = ''audit'',
     i_Signal = ''logs'', i_EventName = ''event'', i_OriginDestination = ''''\<rparr>\<rparr>"

definition example_answer :: "DeliveryOutcome \<Rightarrow> DeliveryResult option" where
  "example_answer outcome = Some \<lparr>r_Outcome = outcome, r_DeliveredItems = 0, r_RejectedItems = 0\<rparr>"

text \<open>The worker takes the first record and stands before its first delivery attempt.\<close>

definition schedule_first :: "action list" where
  "schedule_first = [A_Activate 1, A_Enqueue (example_payload (CHR ''a'')) 2 2, A_Work 3 3, A_Work 3 3,
     A_Work 3 3, A_Work 3 3, A_Work 3 3, A_Work 3 3]"

text \<open>The first record is delivered, intake stops and the worker runs out.\<close>

definition schedule_drain :: "action list" where
  "schedule_drain = schedule_first @ [A_StopIntake 4, A_Answer (example_answer OutcomeDelivered) 5 5,
     A_Work 6 6, A_Work 6 6]"

text \<open>
  Both attempts fail and the breaker opens; the worker decides to reject what is pending, but before
  it takes the queue a producer is admitted as the half-open probe.
\<close>

definition schedule_suppressed :: "action list" where
  "schedule_suppressed = schedule_first @ [A_Enqueue (example_payload (CHR ''b'')) 4 4,
     A_Answer (example_answer OutcomeTransient) 5 5, A_Work 6 6,
     A_Answer (example_answer OutcomeTransient) 7 7, A_Work 8 8, A_Work 8 8, A_Work 8 8,
     A_Enqueue (example_payload (CHR ''c'')) (20 * Second) (20 * Second), A_Work 8 8, A_Work 8 8]"

text \<open>A record is accepted and the dispatcher closed while the worker waits in its select.\<close>

definition schedule_select :: "action list" where
  "schedule_select = [A_Activate 1, A_Work 2 2, A_Work 2 2,
     A_Enqueue (example_payload (CHR ''a'')) 3 3, A_CloseBegin 4, A_Cancel, A_CloseFinish 5]"

definition example_state :: "action list \<Rightarrow> Sys" where
  "example_state as = the (run_schedule example_enc example_config as)"

lemma example_reachable:
  "run_schedule example_enc example_config as \<noteq> None \<Longrightarrow>
   reachable example_enc example_config (example_state as)"
  using run_schedule_reachable by (auto simp: example_state_def split: option.splits)

lemma schedule_append:
  "schedule enc (as @ bs) s = (case schedule enc as s of None \<Rightarrow> None | Some s' \<Rightarrow> schedule enc bs s')"
  by (induction as arbitrary: s) (auto split: option.splits)

lemma schedule_steps: "schedule enc as s = Some s' \<Longrightarrow> (dstep enc)\<^sup>*\<^sup>* s s'"
proof (induction as arbitrary: s)
  case (Cons a as)
  then obtain s1 where "perform enc a s = Some s1" "schedule enc as s1 = Some s'"
    by (auto split: option.splits)
  then show ?case using Cons perform_dstep by (meson converse_rtranclp_into_rtranclp)
qed simp

lemma example_steps:
  assumes "run_schedule example_enc example_config (as @ bs) \<noteq> None"
  shows "(dstep example_enc)\<^sup>*\<^sup>* (example_state as) (example_state (as @ bs))"
  using assms schedule_steps
  by (auto simp: example_state_def run_schedule_def schedule_append split: option.splits sum.splits)

lemma example_runs:
  "run_schedule example_enc example_config schedule_first \<noteq> None"
  "run_schedule example_enc example_config schedule_drain \<noteq> None"
  "run_schedule example_enc example_config schedule_suppressed \<noteq> None"
  "run_schedule example_enc example_config schedule_select \<noteq> None"
  by code_simp+

lemmas example_reached = example_runs [THEN example_reachable]

subsection \<open>Properties\<close>

lemma config_fields:
  assumes "flags_inv config s"
  shows "f_Enabled (d_config (s_d s)) = f_Enabled config"
    "f_MaxQueueItems (d_config (s_d s)) = f_MaxQueueItems config"
    "f_MaxQueueBytes (d_config (s_d s)) = f_MaxQueueBytes config"
    "f_MaxBatchItems (d_config (s_d s)) = f_MaxBatchItems config"
    "f_MaxBatchBytes (d_config (s_d s)) = f_MaxBatchBytes config"
    "f_Retry (d_config (s_d s)) = f_Retry config"
proof -
  have "d_config (s_d s) = config\<lparr>f_Circuit := f_Circuit (d_config (s_d s))\<rparr>"
    using assms by (simp add: flags_inv_def Let_def)
  then obtain c where "d_config (s_d s) = config\<lparr>f_Circuit := c\<rparr>" by blast
  then show "f_Enabled (d_config (s_d s)) = f_Enabled config"
    "f_MaxQueueItems (d_config (s_d s)) = f_MaxQueueItems config"
    "f_MaxQueueBytes (d_config (s_d s)) = f_MaxQueueBytes config"
    "f_MaxBatchItems (d_config (s_d s)) = f_MaxBatchItems config"
    "f_MaxBatchBytes (d_config (s_d s)) = f_MaxBatchBytes config"
    "f_Retry (d_config (s_d s)) = f_Retry config"
    by simp_all
qed

text \<open>
  C1.  Accounting and order.  In every reachable interleaving the records that \<open>Enqueue\<close> accepted
  are, in order, those that reached a terminal disposition, those the worker holds and those
  pending; queue usage is exactly the held and the pending records; \<open>accepted\<close> exceeds
  \<open>completed\<close> by their number, and every call to \<open>Enqueue\<close> is either counted once as delivered,
  rejected or dropped, or is still held or pending (counters modulo 2^64).
\<close>

theorem dispatcher_accounting:
  assumes "reachable enc config s"
  shows "let d = s_d s; h = held (s_pc s); open_items = of_nat (length (h @ d_pending d))
    in s_accepted s = s_settled s @ h @ d_pending d \<and>
       QueueUsage d = (int (length (h @ d_pending d)), Sizes (h @ d_pending d), int (length h), Sizes h) \<and>
       n_Accepted (d_counters d) = d_completed d + open_items \<and>
       s_calls s = n_Delivered (d_counters d) + n_Rejected (d_counters d) + n_Dropped (d_counters d)
         + open_items"
proof -
  have bal: "balanced (held (s_pc s)) (s_calls s) (ledger_of (s_d s))"
    and order: "s_accepted s = s_settled s @ held (s_pc s) @ d_pending (s_d s)"
    using reachable_invs [OF assms] by (simp_all add: ledger_inv_def)
  have items: "d_chargedItems (s_d s) = int (length (held (s_pc s) @ d_pending (s_d s)))"
    using bal by (simp add: balanced_def)
  show ?thesis
    using bal order unfolding balanced_def Let_def
    by (simp add: items QueueUsage_def ledger_of_def settled_def Sizes_def)
qed

theorem dispatcher_accounting_witness:
  "s_accepted (example_state schedule_first) =
     s_settled (example_state schedule_first) @ [example_payload (CHR ''a'')]"
  using dispatcher_accounting [OF example_reached(1)]
  by (simp add: Let_def)
    (code_simp)

text \<open>
  C40.  Bounded memory.  An enabled dispatcher never charges more items or bytes than its limits,
  and the batch in flight never exceeds the batch limit; a disabled one holds nothing.
\<close>

theorem dispatcher_queue_bounded:
  assumes "reachable enc config s"
  shows "if f_Enabled config
    then d_chargedItems (s_d s) \<le> f_MaxQueueItems config \<and> d_chargedBytes (s_d s) \<le> f_MaxQueueBytes config \<and>
         d_inFlightItems (s_d s) \<le> f_MaxBatchItems config
    else d_chargedItems (s_d s) = 0"
proof -
  have inv: "flags_inv config s" "ledger_inv s" "pc_inv (s_d s) (s_pc s)"
    using reachable_invs [OF assms] by simp_all
  note cfg = config_fields [OF inv(1)]
  have "f_Enabled config \<Longrightarrow> 0 < f_MaxBatchItems config"
    using inv(1) cfg by (auto simp: flags_inv_def Let_def validEnabledConfig_def)
  then have "f_Enabled config \<Longrightarrow> int (length (held (s_pc s))) \<le> f_MaxBatchItems config"
    using inv(3) cfg by (cases "s_pc s") auto
  moreover have "d_inFlightItems (s_d s) = int (length (held (s_pc s)))"
    using inv(2) by (simp add: ledger_inv_def balanced_def ledger_of_def)
  ultimately show ?thesis
    using inv(2) cfg by (auto simp: ledger_inv_def split: if_splits)
qed

theorem dispatcher_queue_bounded_witness:
  "d_chargedItems (s_d (example_state schedule_first)) \<le> 3 \<and> d_inFlightItems (s_d (example_state schedule_first)) \<le> 2"
  using dispatcher_queue_bounded [OF example_reached(1)] by (simp add: example_config_def)

text \<open>
  Bounded retries.  A batch on its way to the adapter is not empty and fits the batch limit;
  its attempt number is at least 1 and at most \<open>MaxAttempts\<close>, hence at most 32, and a half-open
  probe is attempted once.
\<close>

theorem dispatcher_attempts_bounded:
  assumes "reachable enc config s" and "s_pc s = W_Deliver ps probe n"
  shows "ps \<noteq> [] \<and> int (length ps) \<le> f_MaxBatchItems config \<and> 1 \<le> n \<and> n \<le> 32 \<and>
    n \<le> (if probe then 1 else MaxAttempts (f_Retry config))"
proof -
  have inv: "flags_inv config s" "pc_inv (s_d s) (s_pc s)"
    using reachable_invs [OF assms(1)] by simp_all
  note lim = flags_batch_nonneg(2,3) [OF inv(1), of probe]
  show ?thesis
    using inv(2) lim assms(2) config_fields [OF inv(1)] by (auto simp: attempt_limit_def split: if_splits)
qed

theorem dispatcher_attempts_bounded_witness:
  "s_pc (example_state schedule_first) = W_Deliver [example_payload (CHR ''a'')] False 1 \<and> (1::int) \<le> 32"
proof -
  have pc: "s_pc (example_state schedule_first) = W_Deliver [example_payload (CHR ''a'')] False 1"
    by code_simp
  show ?thesis using dispatcher_attempts_bounded [OF example_reached(1) pc] pc by simp
qed

lemma worker_done_step:
  assumes "dstep enc s s'" and "flags_inv config s"
    and "d_workerDone (s_d s) \<longrightarrow> s_pc s = W_Done \<or> s_pc s = W_NotStarted \<and> d_closeStarted (s_d s)"
  shows "d_workerDone (s_d s') \<longrightarrow> s_pc s' = W_Done \<or> s_pc s' = W_NotStarted \<and> d_closeStarted (s_d s')"
  using assms
proof (induction rule: dstep.induct)
  case (enqueue s p now now' d' r)
  then show ?case using lifecycle_eqD [OF Enqueue_refines(2) [OF enqueue(1)]] by auto
next
  case (activate s now d')
  then show ?case
    using Activate_effect(2) [OF activate(1)]
    by (auto simp: lifecycle_of_def flags_inv_def Let_def split: if_splits)
next
  case (stop_intake s now d')
  then show ?case using StopIntake_effect(2) [OF stop_intake(1)] by (auto simp: lifecycle_of_def)
next
  case (close_begin s now)
  then show ?case
    using Close_begin_effect(2) [of "s_d s" now] by (auto simp: lifecycle_of_def flags_inv_def Let_def)
next
  case (close_finish s now)
  then show ?case using lifecycle_eqD [OF Close_finish_effect(2) [of "s_d s" now]] by auto
next
  case (flush_wait s)
  then show ?case using lifecycle_eqD [OF wake_frame(5) [of "s_d s"]] by auto
next
  case (mode s now d1 m entered now')
  then have l: "lifecycle_of d1 = lifecycle_of (s_d s)" using circuitMode_frame by blast
  have "d_workerDone (if entered
      then setOperationalHealth d1 HealthDegraded HealthReasonCircuitHalfOpen now' else d1) = d_workerDone (s_d s)"
    using lifecycle_eqD [OF health_lifecycle(2) [of d1 HealthDegraded HealthReasonCircuitHalfOpen now']]
      lifecycle_eqD [OF l] by auto
  then show ?case using mode by auto
next
  case (blocked s d' ps)
  then show ?case using lifecycle_eqD [OF takeCircuitRejectedBatch_lifecycle [OF blocked(2)]] by auto
next
  case (reject s ps)
  then show ?case using lifecycle_eqD [of "release (add_rejected (s_d s) (of_nat (length ps))) ps" "s_d s"] by auto
next
  case (take s probe candidates n sz oversized)
  then show ?case using lifecycle_eqD [OF circuit_ops_frame(6) [of "s_d s"]] by auto
next
  case (commit s probe candidates n sz oversized d' ps)
  then show ?case using lifecycle_eqD [OF takeBatch_commit_lifecycle [OF commit(2)]] by auto
next
  case (oversized s ps now now')
  then show ?case using lifecycle_eqD [OF rejectOversized_refines(2) [of "s_d s" ps now now']] by auto
next
  case (attempt s ps probe n answer now now' d' e)
  then show ?case using lifecycle_eqD [OF deliver_attempt_refines(2) [OF attempt(2)]] by auto
next
  case (backoff_cancelled s ps probe n)
  then show ?case using lifecycle_eqD [of "release (add_dropped (s_d s) (of_nat (length ps))) ps" "s_d s"] by auto
qed auto

lemma worker_done:
  assumes "reachable enc config s" and "d_workerDone (s_d s)" and "d_workerStarted (s_d s)"
  shows "s_pc s = W_Done"
proof -
  have "d_workerDone (s_d s) \<longrightarrow> s_pc s = W_Done \<or> s_pc s = W_NotStarted \<and> d_closeStarted (s_d s)"
    using assms(1)
  proof (induction rule: reachable.induct)
    case (start d)
    then show ?case by (auto simp: NewDispatcher_def Let_def init_sys_def split: if_splits option.splits)
  next
    case (step s s')
    then show ?case using worker_done_step reachable_invs by blast
  qed
  then show ?thesis using assms reachable_invs [OF assms(1)] by (auto simp: flags_inv_def Let_def)
qed

text \<open>
  C17.  Draining loses nothing.  When \<open>Drain\<close> returns on a started dispatcher that has not been
  closed, every record that was ever accepted has reached a terminal disposition, the queue is
  empty and uncharged, and \<open>Flush\<close> returns for every target it can have read.
\<close>

theorem drain_loses_nothing:
  assumes "reachable enc config s" and "d_workerStarted (s_d s)" and "Drain_returns (s_d s)"
    and "\<not> d_closeStarted (s_d s)"
  shows "s_settled s = s_accepted s \<and> d_pending (s_d s) = [] \<and> QueueUsage (s_d s) = (0, 0, 0, 0) \<and>
    Flush_returns (s_d s) (Flush_target (s_d s))"
proof -
  have pc: "s_pc s = W_Done"
    using assms worker_done by (auto simp: Drain_returns_def)
  have inv: "flags_inv config s" "ledger_inv s" "pc_inv (s_d s) (s_pc s)"
    using reachable_invs [OF assms(1)] by simp_all
  then have p: "d_pending (s_d s) = []"
    using pc assms(4) by (simp add: flags_inv_def Let_def)
  show ?thesis
    using inv(2) p pc
    by (auto simp: ledger_inv_def balanced_def ledger_of_def QueueUsage_def Flush_returns_def Flush_target_def)
qed

theorem drain_loses_nothing_witness:
  "s_settled (example_state schedule_drain) = [example_payload (CHR ''a'')]"
proof -
  have "d_workerStarted (s_d (example_state schedule_drain))"
    "Drain_returns (s_d (example_state schedule_drain))"
    "\<not> d_closeStarted (s_d (example_state schedule_drain))"
    "s_accepted (example_state schedule_drain) = [example_payload (CHR ''a'')]"
    by code_simp+
  then show ?thesis using drain_loses_nothing [OF example_reached(2)] by simp
qed


text \<open>
  Closing while the worker sleeps can leak a record.  The select of \<open>waitForPending\<close> may choose
  the cancelled root context although a record was accepted before \<open>Close\<close>; the worker then exits
  without \<open>abandonPending\<close>.  In the reachable state the dispatcher is closed and its worker done, yet
  the accepted record is still pending and charged, is counted neither as delivered nor as rejected
  nor as dropped, and \<open>Flush\<close> never returns.
\<close>

theorem close_leaks_accepted_record:
  "let s = example_state schedule_select; d = s_d s
   in reachable example_enc example_config s \<and> d_workerDone d \<and> Health (Some d) = HealthStopped \<and>
      s_accepted s = [example_payload (CHR ''a'')] \<and> s_settled s = [] \<and>
      d_pending d = [example_payload (CHR ''a'')] \<and> d_chargedItems d = 1 \<and>
      n_Delivered (d_counters d) + n_Rejected (d_counters d) + n_Dropped (d_counters d) = 0 \<and>
      \<not> Flush_returns d (Flush_target d)"
proof -
  have "let s = example_state schedule_select; d = s_d s
    in d_workerDone d \<and> Health (Some d) = HealthStopped \<and>
      s_accepted s = [example_payload (CHR ''a'')] \<and> s_settled s = [] \<and>
      d_pending d = [example_payload (CHR ''a'')] \<and> d_chargedItems d = 1 \<and>
      n_Delivered (d_counters d) + n_Rejected (d_counters d) + n_Dropped (d_counters d) = 0 \<and>
      \<not> Flush_returns d (Flush_target d)"
    by code_simp
  then show ?thesis using example_reached(4) by (simp add: Let_def)
qed

subsection \<open>A half-open breaker without a probe\<close>

definition suppressed :: "Sys \<Rightarrow> bool" where
  "suppressed s \<longleftrightarrow> d_circuitState (s_d s) = CircuitHalfOpen \<and> d_pending (s_d s) = [] \<and>
     s_pc s \<in> {W_Top, W_Wait, W_Select}"

lemma Enqueue_half_open:
  assumes "Enqueue (Some d) p now now' = (Some d', r)" and "d_circuitState d = CircuitHalfOpen"
  shows "\<not> Accepted r" "d_circuitState d' = CircuitHalfOpen" "d_pending d' = d_pending d"
  using assms
  by (auto simp: Enqueue.simps admitCircuit_def Let_def eresult_def Accepted_def recordFailure_def
      add_rejected_def add_dropped_def setOperationalHealth_def transitionHealth_def
      split: if_splits prod.splits)

lemma circuit_state_of: "circuit_of d' = circuit_of d \<Longrightarrow> d_circuitState d' = d_circuitState d"
  by (simp add: circuit_of_def)

lemma Activate_circuit: "Activate (Some d) now = Some d' \<Longrightarrow> d_circuitState d' = d_circuitState d"
  by (auto simp: Activate.simps Let_def setHealth_def setOperationalHealth_def transitionHealth_def
      split: if_splits)

lemma Close_finish_circuit: "d_circuitState (Close_finish d now) = d_circuitState d"
  by (simp add: Close_finish_def Let_def finishObserver_def setHealth_def transitionHealth_def)

lemma intake_stays_stopped:
  assumes "dstep enc s s'" and "d_intakeStopped (s_d s)"
  shows "d_intakeStopped (s_d s')"
  using assms
proof (induction rule: dstep.induct)
  case (activate s now d')
  then show ?case using Activate_effect(2) [OF activate(1)] by (auto simp: lifecycle_of_def split: if_splits)
next
  case (mode s now d1 m entered now')
  then show ?case
    using circuitMode_frame [OF mode(2)] lifecycle_eqD [of d1 "s_d s"]
      lifecycle_eqD [OF health_lifecycle(2) [of d1 HealthDegraded HealthReasonCircuitHalfOpen now']] by auto
next
  case (top_cancelled s)
  then show ?case using abandon_lifecycle(2) [of "s_d s"] by (auto simp: lifecycle_of_def)
next
  case (delay_cancelled s)
  then show ?case using abandon_lifecycle(1) [of "s_d s"] by (auto simp: lifecycle_of_def)
next
  case (abandon s)
  then show ?case using abandon_lifecycle(2) [of "s_d s"] by (auto simp: lifecycle_of_def)
qed (use lifecycle_eqD [OF Enqueue_refines(2)] lifecycle_eqD [OF Close_finish_effect(2)]
     StopIntake_effect(2) Close_begin_effect(2) lifecycle_eqD [OF wake_frame(5)]
     lifecycle_eqD [OF takeCircuitRejectedBatch_lifecycle] lifecycle_eqD [OF takeBatch_commit_lifecycle]
     lifecycle_eqD [OF rejectOversized_refines(2)] lifecycle_eqD [OF deliver_attempt_refines(2)]
   in \<open>auto simp: lifecycle_of_def finishWorker_def release_def signalFlush_def
       add_rejected_def add_dropped_def abortCircuitProbe_def\<close>)

lemma suppressed_step:
  assumes "dstep enc s s'" and "suppressed s" and "\<not> d_intakeStopped (s_d s')"
    and "flags_inv config s"
  shows "suppressed s' \<and> s_accepted s' = s_accepted s"
  using assms(1)
proof (cases rule: dstep.cases)
  case (enqueue p now now' d' r)
  then show ?thesis using Enqueue_half_open [OF enqueue(2)] assms(2) by (auto simp: suppressed_def)
next
  case (activate now d')
  then show ?thesis
    using Activate_circuit [OF activate(2)] ledger_eq_pending [OF Activate_effect(1) [OF activate(2)]] assms(2)
    by (auto simp: suppressed_def)
next
  case (stop_intake now d')
  then show ?thesis using StopIntake_effect(2) [OF stop_intake(2)] assms(3) by (auto simp: lifecycle_of_def)
next
  case (close_begin now)
  then show ?thesis using Close_begin_effect(2) [of "s_d s" now] assms(3) by (auto simp: lifecycle_of_def)
next
  case (close_finish now)
  then show ?thesis
    using Close_finish_circuit ledger_eq_pending [OF Close_finish_effect(1) [of "s_d s" now]] assms(2)
    by (auto simp: suppressed_def)
next
  case flush_wait
  then show ?thesis using assms(2) by (auto simp: suppressed_def Flush_wait_def)
next
  case top_cancelled
  then show ?thesis
    using assms(3,4) intake_stays_stopped [OF assms(1)] by (auto simp: flags_inv_def Let_def)
next
  case wait_stopped
  then show ?thesis
    using assms(3,4) intake_stays_stopped [OF assms(1)] by (auto simp: flags_inv_def Let_def intakeIsStopped_def)
next
  case select_done
  then show ?thesis
    using assms(3,4) intake_stays_stopped [OF assms(1)] by (auto simp: flags_inv_def Let_def)
qed (use assms(2) in \<open>auto simp: suppressed_def\<close>)

text \<open>
  A lost probe suppresses the destination for good.  Once the breaker is half-open with an
  empty queue and an idle worker, no schedule closes or reopens it and no producer is ever
  accepted again, whatever the clock says, until intake is stopped: \<open>Enqueue\<close> refuses because the
  breaker is half-open, and the worker consults the breaker only when something is pending.  The
  witness reaches such a state: a producer is admitted as the probe between the worker's decision to
  reject the open-circuit backlog and its taking of the queue.
\<close>

theorem half_open_suppressed_forever:
  assumes "reachable enc config s" and "suppressed s" and "(dstep enc)\<^sup>*\<^sup>* s s'"
    and "\<not> d_intakeStopped (s_d s')"
  shows "suppressed s' \<and> s_accepted s' = s_accepted s"
proof -
  have "reachable enc config s' \<and> (\<not> d_intakeStopped (s_d s') \<longrightarrow> suppressed s' \<and> s_accepted s' = s_accepted s)"
    using assms(3)
  proof (induction rule: rtranclp_induct)
    case base
    then show ?case using assms(1,2) by simp
  next
    case (step t u)
    then have "reachable enc config u" using reachable.step by blast
    moreover have "suppressed u \<and> s_accepted u = s_accepted s" if "\<not> d_intakeStopped (s_d u)"
    proof -
      have t: "\<not> d_intakeStopped (s_d t)" using intake_stays_stopped step(2) that by blast
      moreover have "flags_inv config t" using step reachable_invs by blast
      ultimately show ?thesis using suppressed_step [OF step(2)] step(3) that by auto
    qed
    ultimately show ?case by blast
  qed
  then show ?thesis using assms(4) by blast
qed

theorem half_open_suppressed_forever_witness:
  "let later = [A_Enqueue (example_payload (CHR ''d'')) (10 ^ 9 * Hour) (10 ^ 9 * Hour), A_Work 9 9];
       s = example_state schedule_suppressed; s' = example_state (schedule_suppressed @ later)
   in suppressed s \<and> suppressed s' \<and> s_accepted s' = s_accepted s"
proof -
  let ?later = "[A_Enqueue (example_payload (CHR ''d'')) (10 ^ 9 * Hour) (10 ^ 9 * Hour), A_Work 9 9]"
  have sup: "suppressed (example_state schedule_suppressed)"
    and stop: "\<not> d_intakeStopped (s_d (example_state (schedule_suppressed @ ?later)))"
    and run: "run_schedule example_enc example_config (schedule_suppressed @ ?later) \<noteq> None"
    by code_simp+
  from half_open_suppressed_forever [OF example_reached(3) sup example_steps [OF run] stop] sup
  show ?thesis by (simp add: Let_def)
qed

end
