(* ===== verification/Guardrail_ToolChain.thy ===== *)
theory Guardrail_ToolChain
  imports Go_Prelude "HOL-Library.Char_ord" "HOL-Library.List_Lexorder" "HOL-Library.Product_Lexorder"
    "HOL-Library.Multiset"
begin

text \<open>
  The fixed two-step tool-call chains, \<^verbatim>\<open>internal/guardrail/tool_chain.go\<close>: the catalogue, the
  projection masks (16- and 8-bit words), the matcher and the fingerprints.  \<open>sort.Slice\<close> is a
  stable sort by the comparison key, which decides the result (events that agree on the key have the
  same identity).  The hash \<open>sha256\<close> is an argument of the fingerprints.
\<close>

unbundle bit_operations_syntax

datatype ParseStatus =
    StatusNotApplicable | StatusComplete | StatusPartial | StatusUnsupported | StatusInvalid
  | StatusLimitExceeded | StatusAmbiguous | StatusOther string

definition ParseStatus_text :: "ParseStatus \<Rightarrow> string" where
  "ParseStatus_text s = (case s of
     StatusNotApplicable \<Rightarrow> ''not_applicable'' | StatusComplete \<Rightarrow> ''complete'' | StatusPartial \<Rightarrow> ''partial''
   | StatusUnsupported \<Rightarrow> ''unsupported'' | StatusInvalid \<Rightarrow> ''invalid''
   | StatusLimitExceeded \<Rightarrow> ''limit_exceeded'' | StatusAmbiguous \<Rightarrow> ''ambiguous'' | StatusOther t \<Rightarrow> t)"

definition ToolChainCount :: nat where "ToolChainCount = 6"
definition ToolChainKnownStepMask :: "16 word" where "ToolChainKnownStepMask = 4095"
definition ToolChainKnownResultMask :: "8 word" where "ToolChainKnownResultMask = 63"

record ToolChainDefinition =
  td_ID :: string
  td_Version :: string
  td_Title :: string
  td_Severity :: string
  td_EventWindow :: "64 word"
  td_TimeWindow :: duration
  td_Step1Bit :: "16 word"
  td_Step2Bit :: "16 word"
  td_ResultBit :: "8 word"
  td_Revision :: string

definition catalog_entry ::
  "string \<Rightarrow> string \<Rightarrow> string \<Rightarrow> 64 word \<Rightarrow> duration \<Rightarrow> string \<Rightarrow> ToolChainDefinition" where
  "catalog_entry i version title events window revision =
     \<lparr>td_ID = i, td_Version = version, td_Title = title, td_Severity = [], td_EventWindow = events,
      td_TimeWindow = window, td_Step1Bit = 0, td_Step2Bit = 0, td_ResultBit = 0, td_Revision = revision\<rparr>"

text \<open>The literal of the catalogue, and what \<open>init\<close> makes of it.\<close>

definition catalog :: "ToolChainDefinition list" where
  "catalog =
    [catalog_entry ''chain.guardrails_off_then_egress'' ''1.4''
       ''Guardrails disabled before external egress'' 64 (30 * Minute) ''n20-to-data-external-egress-v1'',
     catalog_entry ''chain.permission_denied_then_runtime_bypass'' ''1.3''
       ''Permission denial followed by runtime bypass'' 16 (5 * Minute) ''permission-denial-to-n08-v1'',
     catalog_entry ''chain.privilege_discovery_then_elevation'' ''1.3''
       ''Privilege discovery followed by elevation'' 32 (15 * Minute) ''h18-system-root-to-h21-n12-n11-v1'',
     catalog_entry ''chain.secret_manager_read_then_egress'' ''1.5''
       ''Secret-manager read followed by external egress'' 64 (30 * Minute) ''n03-to-data-external-egress-v1'',
     catalog_entry ''chain.secret_read_then_egress'' ''1.6''
       ''Secret read followed by external egress'' 64 (30 * Minute)
       ''h01-h07-n01-n02-n04-to-data-external-egress-v1'',
     catalog_entry ''chain.workload_identity_then_lateral_execution'' ''1.6''
       ''Workload identity access followed by lateral execution'' 32 (15 * Minute) ''n04-to-n13-v1'']"

definition init_entry :: "nat \<Rightarrow> ToolChainDefinition \<Rightarrow> ToolChainDefinition" where
  "init_entry i d = d\<lparr>td_Severity := ''HIGH'', td_Step1Bit := push_bit (2 * i) 1,
     td_Step2Bit := push_bit (2 * i + 1) 1, td_ResultBit := push_bit i 1\<rparr>"

definition toolChainDefinitions :: "ToolChainDefinition list" where
  "toolChainDefinitions = map (\<lambda>(i, d). init_entry i d) (enumerate 0 catalog)"

record ToolChainProjection =
  tp_ParseStatus :: ParseStatus
  tp_DetectionStepMask :: "16 word"
  tp_EnforcementStepMask :: "16 word"

record ToolChainWindowEvent =
  te_SemanticEventID :: string
  te_Sequence :: "64 word"
  te_ReceivedAt :: gotime
  te_Projection :: ToolChainProjection

record ToolChainMatches =
  tm_DetectedMask :: "8 word"
  tm_EnforcementSafeMask :: "8 word"
  tm_DetectionPredecessors :: "string list"
  tm_EnforcementPredecessors :: "string list"

datatype chain_error =
    ErrIncompleteFinal | ErrIncompletePrior | ErrParseStatus | ErrDetectionBits | ErrEnforcementBits
  | ErrEnforcementSubset | ErrResultBits | ErrUnknownChain | ErrDigest

subsection \<open>Catalogue lookups\<close>

definition ToolChainDefinitionByID :: "string \<Rightarrow> ToolChainDefinition option" where
  "ToolChainDefinitionByID i = find (\<lambda>d. td_ID d = i) toolChainDefinitions"

definition ToolChainStepMask :: "string \<Rightarrow> int \<Rightarrow> (16 word) option" where
  "ToolChainStepMask i step =
     (case ToolChainDefinitionByID i of
        None \<Rightarrow> None
      | Some d \<Rightarrow> if step = 1 then Some (td_Step1Bit d) else if step = 2 then Some (td_Step2Bit d) else None)"

definition ToolChainResultMask :: "string \<Rightarrow> (8 word) option" where
  "ToolChainResultMask i = map_option td_ResultBit (ToolChainDefinitionByID i)"

definition ToolChainIDs :: "8 word \<Rightarrow> chain_error + string list" where
  "ToolChainIDs m =
     (if m AND NOT ToolChainKnownResultMask \<noteq> 0 then Inl ErrResultBits
      else Inr (map td_ID (filter (\<lambda>d. m AND td_ResultBit d \<noteq> 0) toolChainDefinitions)))"

definition ValidateToolChainProjection :: "ToolChainProjection \<Rightarrow> chain_error option" where
  "ValidateToolChainProjection p =
     (if (case tp_ParseStatus p of StatusOther _ \<Rightarrow> True | _ \<Rightarrow> False) then Some ErrParseStatus
      else if tp_DetectionStepMask p AND NOT ToolChainKnownStepMask \<noteq> 0 then Some ErrDetectionBits
      else if tp_EnforcementStepMask p AND NOT ToolChainKnownStepMask \<noteq> 0 then Some ErrEnforcementBits
      else if tp_EnforcementStepMask p AND NOT (tp_DetectionStepMask p) \<noteq> 0 then Some ErrEnforcementSubset
      else None)"

subsection \<open>The matcher\<close>

definition incomplete_event :: "ToolChainWindowEvent \<Rightarrow> bool" where
  "incomplete_event e \<longleftrightarrow> te_SemanticEventID e = [] \<or> te_Sequence e = 0 \<or> te_ReceivedAt e = zero_time"

definition event_key :: "ToolChainWindowEvent \<Rightarrow> 64 word \<times> gotime \<times> string" where
  "event_key e = (te_Sequence e, te_ReceivedAt e, te_SemanticEventID e)"

definition outside_window ::
  "ToolChainWindowEvent \<Rightarrow> ToolChainWindowEvent \<Rightarrow> ToolChainDefinition \<Rightarrow> bool" where
  "outside_window final event d \<longleftrightarrow> te_Sequence final - te_Sequence event \<ge> td_EventWindow d \<or>
     time_sub (te_ReceivedAt final) (te_ReceivedAt event) > td_TimeWindow d"

definition pair_matches ::
  "(ToolChainProjection \<Rightarrow> 16 word) \<Rightarrow> ToolChainWindowEvent \<Rightarrow> ToolChainWindowEvent \<Rightarrow> ToolChainDefinition \<Rightarrow> bool" where
  "pair_matches steps final event d \<longleftrightarrow> steps (te_Projection final) AND td_Step2Bit d \<noteq> 0 \<and>
     steps (te_Projection event) AND td_Step1Bit d \<noteq> 0"

text \<open>The body of the inner loop, for the definition with index \<open>i\<close>.\<close>

definition match_definition ::
  "ToolChainWindowEvent \<Rightarrow> ToolChainWindowEvent \<Rightarrow> ToolChainMatches \<Rightarrow> nat \<times> ToolChainDefinition \<Rightarrow> ToolChainMatches" where
  "match_definition final event m = (\<lambda>(i, d).
     if outside_window final event d then m
     else let m1 = (if pair_matches tp_DetectionStepMask final event d \<and> tm_DetectionPredecessors m ! i = []
                    then m\<lparr>tm_DetectedMask := tm_DetectedMask m OR td_ResultBit d,
                           tm_DetectionPredecessors := (tm_DetectionPredecessors m)[i := te_SemanticEventID event]\<rparr>
                    else m)
          in if pair_matches tp_EnforcementStepMask final event d \<and> tm_EnforcementPredecessors m1 ! i = []
             then m1\<lparr>tm_EnforcementSafeMask := tm_EnforcementSafeMask m1 OR td_ResultBit d,
                     tm_EnforcementPredecessors := (tm_EnforcementPredecessors m1)[i := te_SemanticEventID event]\<rparr>
             else m1)"

fun match_window ::
  "ToolChainWindowEvent \<Rightarrow> ToolChainWindowEvent list \<Rightarrow> ToolChainMatches \<Rightarrow> chain_error + ToolChainMatches" where
  "match_window final [] m = Inr m"
| "match_window final (event # window) m =
     (if incomplete_event event then Inl ErrIncompletePrior
      else case ValidateToolChainProjection (te_Projection event) of
             Some err \<Rightarrow> Inl err
           | None \<Rightarrow>
               if te_Sequence event \<ge> te_Sequence final \<or> te_ReceivedAt event > te_ReceivedAt final
               then match_window final window m
               else match_window final window
                      (foldl (match_definition final event) m (enumerate 0 toolChainDefinitions)))"

definition no_matches :: ToolChainMatches where
  "no_matches = \<lparr>tm_DetectedMask = 0, tm_EnforcementSafeMask = 0,
     tm_DetectionPredecessors = replicate ToolChainCount [],
     tm_EnforcementPredecessors = replicate ToolChainCount []\<rparr>"

definition MatchToolChains ::
  "ToolChainWindowEvent list \<Rightarrow> ToolChainWindowEvent \<Rightarrow> chain_error + ToolChainMatches" where
  "MatchToolChains prior final =
     (if incomplete_event final then Inl ErrIncompleteFinal
      else case ValidateToolChainProjection (te_Projection final) of
             Some err \<Rightarrow> Inl err
           | None \<Rightarrow> match_window final (sort_key event_key prior) no_matches)"

subsection \<open>Fingerprints\<close>

text \<open>Each part is preceded by its length as a big-endian 32-bit number.\<close>

definition be32 :: "nat \<Rightarrow> string" where
  "be32 n = [char_of (n div 16777216 mod 256), char_of (n div 65536 mod 256), char_of (n div 256 mod 256),
     char_of (n mod 256)]"

definition digest_input :: "string list \<Rightarrow> string" where
  "digest_input parts = concat (map (\<lambda>p. be32 (length p) @ p) parts)"

definition toolChainDigest :: "(string \<Rightarrow> string) \<Rightarrow> string list \<Rightarrow> string" where
  "toolChainDigest sha256 parts = hex_encode (sha256 (digest_input parts))"

text \<open>\<open>%04x\<close> of a 16-bit mask; \<open>Duration.String\<close> of a whole number of minutes below an hour.\<close>

definition hex4 :: "16 word \<Rightarrow> string" where
  "hex4 w = (let n = unat w in [digit (n div 4096), digit (n div 256 mod 16), digit (n div 16 mod 16), digit (n mod 16)])"

definition minutes_text :: "duration \<Rightarrow> string" where
  "minutes_text d = decimal (nat (d div Minute)) @ ''m0s''"

definition toolChainBaseFingerprint ::
  "(string \<Rightarrow> string) \<Rightarrow> ToolChainDefinition \<Rightarrow> string \<Rightarrow> string" where
  "toolChainBaseFingerprint sha256 d relevantOwnerDigest = toolChainDigest sha256
     [''defenseclaw.tool-chain.catalog.v1'', ''actionfacts-v1'', ''enforcement-proof-v1'',
      ''owner-local-fallback-v1'', ''external-egress-v1'', ''n13-lateral-exec-proof-v1'',
      ''h18-system-root-proof-v1'', td_ID d, td_Version d, td_Revision d, td_Severity d,
      decimal (unat (td_Step1Bit d)), decimal (unat (td_Step2Bit d)), decimal (unat (td_ResultBit d)),
      decimal (unat (td_EventWindow d)), minutes_text (td_TimeWindow d), relevantOwnerDigest]"

definition ToolChainProjectionFingerprint ::
  "(string \<Rightarrow> string) \<Rightarrow> ToolChainProjection \<Rightarrow> chain_error + string" where
  "ToolChainProjectionFingerprint sha256 p =
     (case ValidateToolChainProjection p of
        Some err \<Rightarrow> Inl err
      | None \<Rightarrow> Inr (toolChainDigest sha256 [''defenseclaw.tool-chain.projection.v1'',
          ParseStatus_text (tp_ParseStatus p), hex4 (tp_DetectionStepMask p), hex4 (tp_EnforcementStepMask p)]))"

definition hex_char :: "char \<Rightarrow> bool" where
  "hex_char c \<longleftrightarrow> (let n = byte_val c in 48 \<le> n \<and> n \<le> 57 \<or> 97 \<le> n \<and> n \<le> 102 \<or> 65 \<le> n \<and> n \<le> 70)"

definition valid_digest :: "unicode_map \<Rightarrow> string \<Rightarrow> bool" where
  "valid_digest uni d \<longleftrightarrow> \<not> (length d \<noteq> 64 \<or> d \<noteq> ToLower uni d) \<and> list_all hex_char d"

definition ToolChainRulesetFingerprint ::
  "unicode_map \<Rightarrow> (string \<Rightarrow> string) \<Rightarrow> string \<Rightarrow> chain_error + string" where
  "ToolChainRulesetFingerprint uni sha256 relevantOwnerDigest =
     (if \<not> valid_digest uni relevantOwnerDigest then Inl ErrDigest
      else Inr (toolChainDigest sha256 (''defenseclaw.tool-chain.ruleset.v1'' #
        map (\<lambda>d. toolChainBaseFingerprint sha256 d relevantOwnerDigest) toolChainDefinitions)))"

definition ToolChainFingerprint ::
  "unicode_map \<Rightarrow> (string \<Rightarrow> string) \<Rightarrow> string \<Rightarrow> string \<Rightarrow> chain_error + string" where
  "ToolChainFingerprint uni sha256 chainID rulesetFingerprint =
     (case ToolChainDefinitionByID chainID of
        None \<Rightarrow> Inl ErrUnknownChain
      | Some d \<Rightarrow>
          if \<not> valid_digest uni rulesetFingerprint then Inl ErrDigest
          else Inr (toolChainDigest sha256 [''defenseclaw.tool-chain.definition.v1'',
                 toolChainBaseFingerprint sha256 d [], rulesetFingerprint]))"

subsection \<open>One track: a result mask with its predecessors\<close>

text \<open>
  Detection and enforcement are two runs of the same search over the window, each on its own mask
  and predecessor array.
\<close>

definition qualifies ::
  "(ToolChainProjection \<Rightarrow> 16 word) \<Rightarrow> ToolChainWindowEvent \<Rightarrow> ToolChainWindowEvent \<Rightarrow> ToolChainDefinition \<Rightarrow> bool" where
  "qualifies steps final event d \<longleftrightarrow>
     te_Sequence final - te_Sequence event < td_EventWindow d \<and>
     time_sub (te_ReceivedAt final) (te_ReceivedAt event) \<le> td_TimeWindow d \<and>
     steps (te_Projection final) AND td_Step2Bit d \<noteq> 0 \<and> steps (te_Projection event) AND td_Step1Bit d \<noteq> 0"

lemma qualifies_code: "qualifies steps final event d \<longleftrightarrow> \<not> outside_window final event d \<and> pair_matches steps final event d"
  by (auto simp: qualifies_def outside_window_def pair_matches_def not_le not_less)

definition track ::
  "(ToolChainProjection \<Rightarrow> 16 word) \<Rightarrow> ToolChainWindowEvent \<Rightarrow> ToolChainWindowEvent
     \<Rightarrow> 8 word \<times> string list \<Rightarrow> nat \<times> ToolChainDefinition \<Rightarrow> 8 word \<times> string list" where
  "track steps final event s x =
     (if qualifies steps final event (snd x) \<and> snd s ! fst x = []
      then (fst s OR td_ResultBit (snd x), (snd s)[fst x := te_SemanticEventID event]) else s)"

lemma track_fold:
  assumes "\<And>i. i < length ds \<Longrightarrow> td_ResultBit (ds ! i) = push_bit (k + i) 1" and "k + length ds \<le> length (snd s)"
  shows "length (snd (foldl (track steps final event) s (enumerate k ds))) = length (snd s) \<and>
    (\<forall>j < length (snd s). snd (foldl (track steps final event) s (enumerate k ds)) ! j =
      (if k \<le> j \<and> j < k + length ds \<and> qualifies steps final event (ds ! (j - k)) \<and> snd s ! j = []
       then te_SemanticEventID event else snd s ! j)) \<and>
    (\<forall>j < 8. bit (fst (foldl (track steps final event) s (enumerate k ds))) j \<longleftrightarrow> bit (fst s) j \<or>
      (k \<le> j \<and> j < k + length ds \<and> qualifies steps final event (ds ! (j - k)) \<and> snd s ! j = []))"
  using assms
proof (induction ds arbitrary: k s)
  case (Cons d ds)
  let ?s = "track steps final event s (k, d)"
  have r: "td_ResultBit d = push_bit k 1" using Cons.prems(1) [of 0] by simp
  have bits: "i < length ds \<Longrightarrow> td_ResultBit (ds ! i) = push_bit (Suc k + i) 1" for i
    using Cons.prems(1) [of "Suc i"] by simp
  have len: "length (snd ?s) = length (snd s)" by (simp add: track_def)
  have k: "k < length (snd s)" using Cons.prems(2) by simp
  have s: "snd ?s ! j = (if j = k \<and> qualifies steps final event d \<and> snd s ! j = []
      then te_SemanticEventID event else snd s ! j)" if "j < length (snd s)" for j
    using that k by (auto simp: track_def)
  have m: "bit (fst ?s) j \<longleftrightarrow> bit (fst s) j \<or> (j = k \<and> qualifies steps final event d \<and> snd s ! j = [])"
    if "j < 8" for j
    using that by (auto simp: track_def r bit_or_iff bit_exp_iff)
  have ih: "Suc k + length ds \<le> length (snd ?s)" using Cons.prems(2) len by simp
  note IH = Cons.IH [OF bits ih]
  have idx: "k \<le> j \<and> j < k + length (d # ds) \<and> Q ((d # ds) ! (j - k)) \<longleftrightarrow>
      (j = k \<and> Q d) \<or> (Suc k \<le> j \<and> j < Suc k + length ds \<and> Q (ds ! (j - Suc k)))" for j Q
    by (cases "j = k") (auto simp: nth_Cons')
  have P: "snd (foldl (track steps final event) s (enumerate k (d # ds))) ! j =
      (if k \<le> j \<and> j < k + length (d # ds) \<and> qualifies steps final event ((d # ds) ! (j - k)) \<and> snd s ! j = []
       then te_SemanticEventID event else snd s ! j)" if "j < length (snd s)" for j
    using IH len s [OF that] that idx [of j "qualifies steps final event"] by (cases "j = k") auto
  have M: "bit (fst (foldl (track steps final event) s (enumerate k (d # ds)))) j \<longleftrightarrow> bit (fst s) j \<or>
      (k \<le> j \<and> j < k + length (d # ds) \<and> qualifies steps final event ((d # ds) ! (j - k)) \<and> snd s ! j = [])"
    if "j < 8" for j
  proof (cases "j < length (snd s)")
    case True
    then show ?thesis
      using IH m [OF that] s [OF True] that idx [of j "qualifies steps final event"] by (cases "j = k") auto
  next
    case False
    then have "\<not> j < k + length (d # ds)" "\<not> j < Suc k + length ds" "j \<noteq> k" using Cons.prems(2) by auto
    then show ?thesis using IH m [OF that] that by auto
  qed
  show ?case using P M IH len by simp
qed auto

lemma definitions_length: "length toolChainDefinitions = 6"
  by (simp add: toolChainDefinitions_def catalog_def)

lemma catalog_length: "length catalog = 6"
  by (simp add: catalog_def)

lemma definitions_nth: "i < 6 \<Longrightarrow> toolChainDefinitions ! i = init_entry i (catalog ! i)"
  by (simp add: toolChainDefinitions_def nth_enumerate_eq catalog_length)

lemma definitions_result_bit: "i < 6 \<Longrightarrow> td_ResultBit (toolChainDefinitions ! i) = push_bit i 1"
  by (simp add: definitions_nth init_entry_def)

definition eligible ::
  "(ToolChainProjection \<Rightarrow> 16 word) \<Rightarrow> ToolChainWindowEvent \<Rightarrow> nat \<Rightarrow> ToolChainWindowEvent \<Rightarrow> bool" where
  "eligible steps final j event \<longleftrightarrow> te_Sequence event < te_Sequence final \<and>
     te_ReceivedAt event \<le> te_ReceivedAt final \<and> qualifies steps final event (toolChainDefinitions ! j)"

lemma match_window_Cons:
  assumes "match_window final (e # es) m = Inr m'"
  shows "te_SemanticEventID e \<noteq> []" and "ValidateToolChainProjection (te_Projection e) = None"
    and "match_window final es
      (if te_Sequence e \<ge> te_Sequence final \<or> te_ReceivedAt e > te_ReceivedAt final then m
       else foldl (match_definition final e) m (enumerate 0 toolChainDefinitions)) = Inr m'"
  using assms
  by (simp_all add: incomplete_event_def split: if_splits option.splits) blast+

text \<open>A view of the matches that the inner loop treats as one track.\<close>

locale chain_track =
  fixes view :: "ToolChainMatches \<Rightarrow> 8 word \<times> string list"
    and steps :: "ToolChainProjection \<Rightarrow> 16 word"
  assumes view_step: "view (match_definition final event m x) = track steps final event (view m) x"
    and view_start: "view no_matches = (0, replicate 6 [])"
begin

lemma view_foldl: "view (foldl (match_definition final event) m xs) = foldl (track steps final event) (view m) xs"
  by (induction xs arbitrary: m) (simp_all add: view_step)

lemma view_event:
  assumes "length (snd (view m)) = 6"
    and m': "m' = foldl (match_definition final event) m (enumerate 0 toolChainDefinitions)"
  shows "length (snd (view m')) = 6"
    and "j < 6 \<Longrightarrow> snd (view m') ! j =
      (if qualifies steps final event (toolChainDefinitions ! j) \<and> snd (view m) ! j = []
       then te_SemanticEventID event else snd (view m) ! j)"
    and "j < 8 \<Longrightarrow> bit (fst (view m')) j \<longleftrightarrow> bit (fst (view m)) j \<or>
      (j < 6 \<and> qualifies steps final event (toolChainDefinitions ! j) \<and> snd (view m) ! j = [])"
proof -
  have "0 + length toolChainDefinitions \<le> length (snd (view m))"
    using assms(1) by (simp add: definitions_length)
  note f = track_fold [OF _ this, of steps final event]
  show "length (snd (view m')) = 6"
    and "j < 6 \<Longrightarrow> snd (view m') ! j =
      (if qualifies steps final event (toolChainDefinitions ! j) \<and> snd (view m) ! j = []
       then te_SemanticEventID event else snd (view m) ! j)"
    and "j < 8 \<Longrightarrow> bit (fst (view m')) j \<longleftrightarrow> bit (fst (view m)) j \<or>
      (j < 6 \<and> qualifies steps final event (toolChainDefinitions ! j) \<and> snd (view m) ! j = [])"
    using f assms(1) by (simp_all add: m' view_foldl definitions_length definitions_result_bit)
qed

lemma view_window:
  assumes "match_window final es m = Inr m'" and "length (snd (view m)) = 6"
  shows "length (snd (view m')) = 6"
    and "j < 6 \<Longrightarrow> snd (view m') ! j =
      (if snd (view m) ! j \<noteq> [] then snd (view m) ! j
       else case find (eligible steps final j) es of None \<Rightarrow> [] | Some e \<Rightarrow> te_SemanticEventID e)"
    and "j < 8 \<Longrightarrow> bit (fst (view m')) j \<longleftrightarrow> bit (fst (view m)) j \<or>
      (j < 6 \<and> snd (view m) ! j = [] \<and> (\<exists>e \<in> set es. eligible steps final j e))"
  using assms
proof (induction es arbitrary: m)
  case (Cons e es)
  let ?m = "foldl (match_definition final e) m (enumerate 0 toolChainDefinitions)"
  let ?skip = "te_Sequence e \<ge> te_Sequence final \<or> te_ReceivedAt e > te_ReceivedAt final"
  have el: "eligible steps final j e \<longleftrightarrow> \<not> ?skip \<and> qualifies steps final e (toolChainDefinitions ! j)" for j
    by (auto simp: eligible_def)
  {
    case 1
    then show ?case
      using Cons.IH(1) view_event(1) [of m, OF _ refl] by (auto split: if_splits option.splits)
  next
    case 2
    note step = match_window_Cons [OF 2(2)]
    show ?case
      using Cons.IH(2) [OF 2(1) step(3)] 2(1,3) step(1) el [of j]
        view_event(1) [OF 2(3) refl, where final = final and event = e]
        view_event(2) [OF 2(3) refl 2(1), where final = final and event = e]
      by (cases ?skip) auto
  next
    case 3
    note step = match_window_Cons [OF 3(2)]
    show ?case
      using Cons.IH(3) [OF 3(1) step(3)] 3(1,3) step(1) el [of j]
        view_event(1) [OF 3(3) refl, where final = final and event = e]
        view_event(2) [OF 3(3) refl, where final = final and event = e and j = j]
        view_event(3) [OF 3(3) refl 3(1), where final = final and event = e]
      by (cases ?skip; cases "j < 6") (auto split: if_splits)
  }
qed simp_all

end

interpretation detection: chain_track
  "\<lambda>m. (tm_DetectedMask m, tm_DetectionPredecessors m)" tp_DetectionStepMask
  by unfold_locales
     (auto simp: match_definition_def track_def qualifies_code no_matches_def ToolChainCount_def Let_def)

interpretation enforcement: chain_track
  "\<lambda>m. (tm_EnforcementSafeMask m, tm_EnforcementPredecessors m)" tp_EnforcementStepMask
  by unfold_locales
     (auto simp: match_definition_def track_def qualifies_code no_matches_def ToolChainCount_def Let_def)

subsection \<open>What a match means\<close>

text \<open>
  A track reports chain \<open>j\<close> exactly when some prior event is eligible as its first step: earlier in
  sequence and not later in time than the final event, fewer than \<open>EventWindow\<close> calls and at most
  \<open>TimeWindow\<close> ago, carrying the step-1 bit while the final event carries the step-2 bit.  The
  predecessor it names is the least such event in the order of the window.
\<close>

definition track_exact ::
  "(ToolChainProjection \<Rightarrow> 16 word) \<Rightarrow> 8 word \<Rightarrow> string list \<Rightarrow> ToolChainWindowEvent list
     \<Rightarrow> ToolChainWindowEvent \<Rightarrow> nat \<Rightarrow> bool" where
  "track_exact steps m preds prior final j \<longleftrightarrow>
     (let hits = {e \<in> set prior. eligible steps final j e}
      in (bit m j \<longleftrightarrow> hits \<noteq> {}) \<and>
         (if hits = {} then preds ! j = []
          else \<exists>e \<in> hits. preds ! j = te_SemanticEventID e \<and> (\<forall>e' \<in> hits. event_key e \<le> event_key e')))"

lemma find_sort_key:
  assumes "find P (sort_key k xs) = Some e"
  shows "e \<in> set xs \<and> P e \<and> (\<forall>e' \<in> set xs. P e' \<longrightarrow> k e \<le> k e')"
proof -
  obtain i where i: "i < length (sort_key k xs)" "P (sort_key k xs ! i)" "e = sort_key k xs ! i"
    "\<forall>j < i. \<not> P (sort_key k xs ! j)"
    using assms by (auto simp: find_Some_iff)
  have "k e \<le> k e'" if e': "e' \<in> set xs" "P e'" for e'
  proof -
    obtain j where j: "j < length (sort_key k xs)" "e' = sort_key k xs ! j"
      using e'(1) by (metis in_set_conv_nth set_sort)
    then have "i \<le> j" using i(4) e'(2) by (meson not_le)
    then show ?thesis
      using sorted_nth_mono [OF sorted_sort_key, of i j k xs] i(1,3) j by simp
  qed
  then show ?thesis using i by (metis nth_mem set_sort)
qed

lemma match_start:
  "MatchToolChains prior final = Inr m \<Longrightarrow>
   match_window final (sort_key event_key prior) no_matches = Inr m \<and> \<not> incomplete_event final \<and>
   ValidateToolChainProjection (te_Projection final) = None"
  by (auto simp: MatchToolChains_def split: if_splits option.splits)

lemma match_prior_valid:
  "match_window final es m = Inr m' \<Longrightarrow> e \<in> set es \<Longrightarrow>
   te_SemanticEventID e \<noteq> [] \<and> ValidateToolChainProjection (te_Projection e) = None"
proof (induction es arbitrary: m)
  case (Cons x es)
  then show ?case using match_window_Cons [OF Cons.prems(1)] by auto
qed simp

context chain_track
begin

lemma view_exact:
  assumes "MatchToolChains prior final = Inr m" and "j < 6"
  shows "track_exact steps (fst (view m)) (snd (view m)) prior final j"
proof -
  have w: "match_window final (sort_key event_key prior) no_matches = Inr m"
    using match_start [OF assms(1)] by simp
  have l: "length (snd (view no_matches)) = 6" by (simp add: view_start)
  have p: "snd (view m) ! j =
      (case find (eligible steps final j) (sort_key event_key prior) of None \<Rightarrow> [] | Some e \<Rightarrow> te_SemanticEventID e)"
    using view_window(2) [OF w l assms(2)] assms(2) by (simp add: view_start)
  have b: "bit (fst (view m)) j \<longleftrightarrow> (\<exists>e \<in> set prior. eligible steps final j e)"
    using view_window(3) [OF w l, of j] assms(2) by (simp add: view_start)
  show ?thesis
  proof (cases "find (eligible steps final j) (sort_key event_key prior)")
    case None
    then have "{e \<in> set prior. eligible steps final j e} = {}" by (auto simp: find_None_iff)
    then show ?thesis using p b None by (auto simp: track_exact_def Let_def)
  next
    case (Some e)
    note f = find_sort_key [OF Some]
    then have "{e \<in> set prior. eligible steps final j e} \<noteq> {}" by auto
    then show ?thesis using p b Some f by (auto simp: track_exact_def Let_def)
  qed
qed

lemma view_high_bits:
  assumes "MatchToolChains prior final = Inr m"
  shows "length (snd (view m)) = 6" and "bit (fst (view m)) j \<Longrightarrow> j < 6"
proof -
  have w: "match_window final (sort_key event_key prior) no_matches = Inr m"
    using match_start [OF assms(1)] by simp
  have l: "length (snd (view no_matches)) = 6" by (simp add: view_start)
  show "length (snd (view m)) = 6" using view_window(1) [OF w l] .
  show "j < 6" if "bit (fst (view m)) j"
  proof -
    have "j < 8" using that bit_imp_le_length by fastforce
    then show ?thesis using view_window(3) [OF w l, of j] that by (simp add: view_start)
  qed
qed

end

lemma track_exact_unique:
  assumes t: "track_exact steps m preds prior final j" and t': "track_exact steps m' preds' prior' final j"
    and same: "set prior = set prior'"
  shows "bit m j = bit m' j" and "preds ! j = preds' ! j"
proof -
  let ?h = "{e \<in> set prior. eligible steps final j e}"
  show "bit m j = bit m' j" using assms by (simp add: track_exact_def Let_def)
  show "preds ! j = preds' ! j"
  proof (cases "?h = {}")
    case True
    then show ?thesis using assms by (simp add: track_exact_def Let_def)
  next
    case False
    obtain e where e: "e \<in> ?h" "preds ! j = te_SemanticEventID e" "\<forall>x \<in> ?h. event_key e \<le> event_key x"
      using t False unfolding track_exact_def Let_def by (simp only: if_False) blast
    obtain e' where e': "e' \<in> ?h" "preds' ! j = te_SemanticEventID e'" "\<forall>x \<in> ?h. event_key e' \<le> event_key x"
      using t' False unfolding track_exact_def Let_def same [symmetric] by (simp only: if_False) blast
    have "event_key e \<le> event_key e'" "event_key e' \<le> event_key e" using e(1,3) e'(1,3) by blast+
    then have "event_key e = event_key e'" by (rule order.antisym)
    then show ?thesis using e(2) e'(2) by (simp add: event_key_def)
  qed
qed

lemma enforcement_step_subset:
  assumes "ValidateToolChainProjection p = None" and "tp_EnforcementStepMask p AND b \<noteq> 0"
  shows "tp_DetectionStepMask p AND b \<noteq> 0"
proof -
  have "tp_EnforcementStepMask p AND NOT (tp_DetectionStepMask p) = 0"
    using assms(1) by (auto simp: ValidateToolChainProjection_def split: if_splits)
  then have "\<not> bit (tp_EnforcementStepMask p AND NOT (tp_DetectionStepMask p)) n" for n by simp
  then have sub: "bit (tp_DetectionStepMask p) n" if "bit (tp_EnforcementStepMask p) n" for n
    using that bit_imp_le_length [OF that] by (auto simp: bit_and_iff bit_not_iff)
  obtain n where "bit (tp_EnforcementStepMask p AND b) n"
    using assms(2) bit_eqI [of "tp_EnforcementStepMask p AND b" 0] by auto
  then have "bit (tp_DetectionStepMask p AND b) n" using sub by (simp add: bit_and_iff)
  then show ?thesis by auto
qed

subsection \<open>Properties\<close>

definition sample_event :: "string \<Rightarrow> 64 word \<Rightarrow> 16 word \<Rightarrow> 16 word \<Rightarrow> ToolChainWindowEvent" where
  "sample_event i n detect enforce = \<lparr>te_SemanticEventID = i, te_Sequence = n,
     te_ReceivedAt = 1000 * Hour + uint n * Second,
     te_Projection = \<lparr>tp_ParseStatus = StatusComplete, tp_DetectionStepMask = detect, tp_EnforcementStepMask = enforce\<rparr>\<rparr>"

definition sample_prior :: "ToolChainWindowEvent list" where
  "sample_prior = [sample_event ''e3'' 3 1 1, sample_event ''e2'' 2 257 1]"

definition sample_final :: ToolChainWindowEvent where
  "sample_final = sample_event ''e9'' 9 514 514"

text \<open>
  C20.  The matcher is exact.  For each of the six chains, the detection and the enforcement result
  are set exactly when an eligible first step is in the window, and the reported predecessor is the
  earliest one.
\<close>

theorem tool_chains_exact:
  assumes "MatchToolChains prior final = Inr m" and "j < ToolChainCount"
  shows "track_exact tp_DetectionStepMask (tm_DetectedMask m) (tm_DetectionPredecessors m) prior final j \<and>
    track_exact tp_EnforcementStepMask (tm_EnforcementSafeMask m) (tm_EnforcementPredecessors m) prior final j"
  using detection.view_exact [OF assms(1)] enforcement.view_exact [OF assms(1)] assms(2)
  by (simp add: ToolChainCount_def)

theorem tool_chains_exact_witness:
  "track_exact tp_EnforcementStepMask 1 [''e2'', [], [], [], [], []] sample_prior sample_final 4"
proof -
  obtain m where m: "MatchToolChains sample_prior sample_final = Inr m"
    and v: "tm_EnforcementSafeMask m = 1" "tm_EnforcementPredecessors m = [''e2'', [], [], [], [], []]"
  proof -
    have "case MatchToolChains sample_prior sample_final of Inl e \<Rightarrow> False
      | Inr m \<Rightarrow> tm_EnforcementSafeMask m = 1 \<and> tm_EnforcementPredecessors m = [''e2'', [], [], [], [], []]"
      by code_simp
    then show thesis using that by (auto split: sum.splits)
  qed
  show ?thesis using tool_chains_exact [OF m, of 4] v by (simp add: ToolChainCount_def)
qed

text \<open>
  No enforcement without detection.  Every chain that is safe to enforce was also detected,
  and no bit outside the six known chains is ever set.
\<close>

theorem enforcement_is_detected:
  assumes "MatchToolChains prior final = Inr m" and "bit (tm_EnforcementSafeMask m) j"
  shows "bit (tm_DetectedMask m) j \<and> j < ToolChainCount"
proof -
  have j: "j < 6" using enforcement.view_high_bits(2) [OF assms(1), of j] assms(2) by simp
  obtain e where e: "e \<in> set prior" "eligible tp_EnforcementStepMask final j e"
    using enforcement.view_exact [OF assms(1) j] assms(2) by (auto simp: track_exact_def Let_def)
  note v = match_start [OF assms(1)]
  have "e \<in> set (sort_key event_key prior)" using e(1) by simp
  then have ve: "ValidateToolChainProjection (te_Projection e) = None"
    using match_prior_valid v by blast
  have "eligible tp_DetectionStepMask final j e"
    using e(2) enforcement_step_subset [OF ve] enforcement_step_subset [of "te_Projection final"] v
    by (auto simp: eligible_def qualifies_code pair_matches_def)
  then have "bit (tm_DetectedMask m) j"
    using detection.view_exact [OF assms(1) j] e(1) by (auto simp: track_exact_def Let_def)
  then show ?thesis using j by (simp add: ToolChainCount_def)
qed

theorem enforcement_is_detected_witness:
  "case MatchToolChains sample_prior sample_final of Inl e \<Rightarrow> False
   | Inr m \<Rightarrow> bit (tm_EnforcementSafeMask m) 0 \<and> bit (tm_DetectedMask m) 0"
proof -
  have w: "case MatchToolChains sample_prior sample_final of Inl e \<Rightarrow> False
      | Inr m \<Rightarrow> bit (tm_EnforcementSafeMask m) 0" by code_simp
  then obtain m where m: "MatchToolChains sample_prior sample_final = Inr m" "bit (tm_EnforcementSafeMask m) 0"
    by (auto split: sum.splits)
  show ?thesis using enforcement_is_detected [OF m] m by simp
qed

text \<open>
  Arrival order does not matter.  The result depends only on which events are in the window,
  not on the order or multiplicity in which the caller lists them.
\<close>

theorem match_order_irrelevant:
  assumes "MatchToolChains prior final = Inr m" and "MatchToolChains prior' final = Inr m'"
    and "set prior = set prior'"
  shows "m = m'"
proof -
  note d = detection.view_high_bits [OF assms(1), simplified] detection.view_high_bits [OF assms(2), simplified]
    and e = enforcement.view_high_bits [OF assms(1), simplified] enforcement.view_high_bits [OF assms(2), simplified]
  have du: "bit (tm_DetectedMask m) j = bit (tm_DetectedMask m') j"
    "tm_DetectionPredecessors m ! j = tm_DetectionPredecessors m' ! j" if "j < 6" for j
    using track_exact_unique [OF detection.view_exact [OF assms(1) that] detection.view_exact [OF assms(2) that] assms(3)]
    by simp_all
  have eu: "bit (tm_EnforcementSafeMask m) j = bit (tm_EnforcementSafeMask m') j"
    "tm_EnforcementPredecessors m ! j = tm_EnforcementPredecessors m' ! j" if "j < 6" for j
    using track_exact_unique [OF enforcement.view_exact [OF assms(1) that] enforcement.view_exact [OF assms(2) that] assms(3)]
    by simp_all
  have "tm_DetectedMask m = tm_DetectedMask m'" by (rule bit_eqI) (metis du(1) d(2,4))
  moreover have "tm_EnforcementSafeMask m = tm_EnforcementSafeMask m'" by (rule bit_eqI) (metis eu(1) e(2,4))
  moreover have "tm_DetectionPredecessors m = tm_DetectionPredecessors m'"
    by (rule nth_equalityI) (simp_all add: d(1,3) du(2))
  moreover have "tm_EnforcementPredecessors m = tm_EnforcementPredecessors m'"
    by (rule nth_equalityI) (simp_all add: e(1,3) eu(2))
  ultimately show ?thesis by simp
qed

theorem match_order_irrelevant_witness:
  "MatchToolChains (rev sample_prior) sample_final = MatchToolChains sample_prior sample_final \<and>
   projr (MatchToolChains sample_prior sample_final) = projr (MatchToolChains (rev sample_prior) sample_final)"
proof -
  have w: "case MatchToolChains sample_prior sample_final of Inl e \<Rightarrow> False | Inr m \<Rightarrow> True"
    "case MatchToolChains (rev sample_prior) sample_final of Inl e \<Rightarrow> False | Inr m \<Rightarrow> True"
    by code_simp+
  then obtain m m' where m: "MatchToolChains sample_prior sample_final = Inr m"
    "MatchToolChains (rev sample_prior) sample_final = Inr m'" by (auto split: sum.splits)
  have "set sample_prior = set (rev sample_prior)" by simp
  from match_order_irrelevant [OF m this] m show ?thesis by simp
qed

lemma be32_value:
  fixes n :: nat
  assumes "n < 4294967296"
  shows "n = ((n div 16777216 mod 256 * 256 + n div 65536 mod 256) * 256 + n div 256 mod 256) * 256 + n mod 256"
proof -
  have "n div 16777216 < 256" using assms by (simp add: div_less_iff_less_mult)
  moreover have "n div 65536 = n div 256 div 256" "n div 16777216 = n div 65536 div 256"
    by (simp_all add: div_mult2_eq [symmetric])
  ultimately show ?thesis by (metis div_mult_mod_eq mod_less)
qed

lemma be32_inj:
  assumes "m < 4294967296" and "n < 4294967296" and "be32 m = be32 n"
  shows "m = n"
proof -
  have "m div 16777216 mod 256 = n div 16777216 mod 256" "m div 65536 mod 256 = n div 65536 mod 256"
    "m div 256 mod 256 = n div 256 mod 256" "m mod 256 = n mod 256"
    using assms(3) by (auto simp: be32_def dest!: arg_cong [where f = "of_char :: char \<Rightarrow> nat"])
  then show ?thesis using be32_value [OF assms(1)] be32_value [OF assms(2)] by (simp only:)
qed

lemma digest_input_inj:
  assumes "digest_input xs = digest_input ys"
    and "list_all (\<lambda>p. length p < 4294967296) xs" and "list_all (\<lambda>p. length p < 4294967296) ys"
  shows "xs = ys"
  using assms
proof (induction xs arbitrary: ys)
  case Nil
  then show ?case by (cases ys) (auto simp: digest_input_def be32_def)
next
  case (Cons x xs)
  then obtain y ys' where ys: "ys = y # ys'" by (cases ys) (auto simp: digest_input_def be32_def)
  have eq: "be32 (length x) @ x @ digest_input xs = be32 (length y) @ y @ digest_input ys'"
    using Cons.prems(1) by (simp add: ys digest_input_def)
  have "length (be32 (length x)) = length (be32 (length y))" by (simp add: be32_def)
  with eq have b: "be32 (length x) = be32 (length y)" and r: "x @ digest_input xs = y @ digest_input ys'" by auto
  have "length x = length y" using be32_inj [OF _ _ b] Cons.prems ys by simp
  with r have "x = y" "digest_input xs = digest_input ys'" by auto
  then show ?case using Cons ys by simp
qed

text \<open>
  Fingerprints are unambiguous.  If two different lists of parts (each below 4 GiB) have the
  same fingerprint, then SHA-256 itself collides: the length-prefixed encoding never lets two
  different projections, catalogue entries or rulesets feed the same bytes to the hash.
\<close>

theorem toolChainDigest_collision:
  assumes "toolChainDigest sha256 xs = toolChainDigest sha256 ys" and "xs \<noteq> ys"
    and "list_all (\<lambda>p. length p < 4294967296) xs" and "list_all (\<lambda>p. length p < 4294967296) ys"
  shows "digest_input xs \<noteq> digest_input ys \<and> sha256 (digest_input xs) = sha256 (digest_input ys)"
  using assms digest_input_inj hex_encode_inj unfolding toolChainDigest_def by blast

theorem toolChainDigest_collision_witness:
  "toolChainDigest (\<lambda>s. []) [''ab'', ''c''] = toolChainDigest (\<lambda>s. []) [''a'', ''bc''] \<and>
   digest_input [''ab'', ''c''] \<noteq> digest_input [''a'', ''bc'']"
  using toolChainDigest_collision [of "\<lambda>s. []" "[''ab'', ''c'']" "[''a'', ''bc'']"]
  by (simp add: toolChainDigest_def)

end
