(* ===== verification/Guardrail_VerdictCache.thy ===== *)
theory Guardrail_VerdictCache
  imports Go_Prelude
begin

text \<open>
  The judge verdict cache, \<^verbatim>\<open>internal/guardrail/verdict_cache.go\<close>.  The Go map is a list of
  key/entry pairs with distinct keys, in the order a range statement would visit them; which entry
  a full cache drops is the argument \<open>pick\<close>.  Each \<open>time.Now()\<close> is an argument.  The metric callbacks
  have no influence on the cache and are left out.  A history of operations is executed by
  \<open>run_ops\<close>, and \<open>last_put\<close> reads off the history what a lookup may return.
\<close>

record VerdictSnapshot =
  vs_Action :: string
  vs_Severity :: string
  vs_Reason :: string
  vs_Findings :: "string list"
  vs_EntityCount :: int
  vs_Scanner :: string
  vs_ScannerSources :: "string list"
  vs_JudgeFailed :: bool

record cacheEntry =
  ce_until :: gotime
  ce_generation :: "64 word"
  ce_verdict :: VerdictSnapshot

record VerdictCache =
  vc_ttl :: duration
  vc_maxEntries :: int
  vc_generation :: "64 word"
  vc_byKey :: "(string \<times> cacheEntry) list"

definition defaultVerdictCacheMaxEntries :: int where
  "defaultVerdictCacheMaxEntries = 4096"

definition NewVerdictCache :: "duration \<Rightarrow> VerdictCache" where
  "NewVerdictCache ttl = \<lparr>vc_ttl = (if ttl \<le> 0 then 30 * Second else ttl),
     vc_maxEntries = defaultVerdictCacheMaxEntries, vc_generation = 0, vc_byKey = []\<rparr>"

definition SetMaxEntries :: "VerdictCache \<Rightarrow> int \<Rightarrow> VerdictCache" where
  "SetMaxEntries c n = c\<lparr>vc_maxEntries := (if n \<le> 0 then defaultVerdictCacheMaxEntries else n)\<rparr>"

definition Invalidate :: "VerdictCache \<Rightarrow> VerdictCache" where
  "Invalidate c = c\<lparr>vc_generation := vc_generation c + 1\<rparr>"

definition cacheKey :: "(string \<Rightarrow> string) \<Rightarrow> string \<Rightarrow> string \<Rightarrow> string \<Rightarrow> string \<Rightarrow> string" where
  "cacheKey sha256 kind model direction content =
     kind @ '':'' @ hex_encode (sha256 (kind @ [CHR 0x00] @ model @ [CHR 0x00] @ direction @ [CHR 0x00] @ content))"

text \<open>A Go \<open>delete\<close>, and an assignment to a key.\<close>

definition map_delete :: "string \<Rightarrow> (string \<times> cacheEntry) list \<Rightarrow> (string \<times> cacheEntry) list" where
  "map_delete k m = filter (\<lambda>(k', e). k' \<noteq> k) m"

definition map_assign ::
  "string \<Rightarrow> cacheEntry \<Rightarrow> (string \<times> cacheEntry) list \<Rightarrow> (string \<times> cacheEntry) list" where
  "map_assign k e m = map_delete k m @ [(k, e)]"

definition live :: "VerdictCache \<Rightarrow> gotime \<Rightarrow> cacheEntry \<Rightarrow> bool" where
  "live c now e \<longleftrightarrow> ce_generation e = vc_generation c \<and> now < ce_until e"

definition cache_get :: "VerdictCache \<Rightarrow> string \<Rightarrow> gotime \<Rightarrow> VerdictCache \<times> VerdictSnapshot option" where
  "cache_get c key now =
     (case map_of (vc_byKey c) key of
        Some ent \<Rightarrow> if live c now ent then (c, Some (ce_verdict ent))
                    else (c\<lparr>vc_byKey := map_delete key (vc_byKey c)\<rparr>, None)
      | None \<Rightarrow> (c, None))"

definition Get ::
  "(string \<Rightarrow> string) \<Rightarrow> VerdictCache \<Rightarrow> string \<Rightarrow> string \<Rightarrow> string \<Rightarrow> string \<Rightarrow> gotime
     \<Rightarrow> VerdictCache \<times> VerdictSnapshot option" where
  "Get sha256 c kind model direction content now =
     cache_get c (cacheKey sha256 kind model direction content) now"

definition evictIfFullLocked :: "VerdictCache \<Rightarrow> string \<Rightarrow> gotime \<Rightarrow> nat \<Rightarrow> VerdictCache" where
  "evictIfFullLocked c newKey now pick =
     (if vc_maxEntries c \<le> 0 \<or> int (length (vc_byKey c)) < vc_maxEntries c then c
      else if map_of (vc_byKey c) newKey \<noteq> None then c
      else let swept = filter (\<lambda>(k, e). live c now e) (vc_byKey c)
           in if int (length swept) < vc_maxEntries c then c\<lparr>vc_byKey := swept\<rparr>
              else if swept = [] then c\<lparr>vc_byKey := []\<rparr>
              else c\<lparr>vc_byKey := map_delete (fst (swept ! (pick mod length swept))) swept\<rparr>)"

definition cache_put ::
  "VerdictCache \<Rightarrow> string \<Rightarrow> VerdictSnapshot \<Rightarrow> gotime \<Rightarrow> gotime \<Rightarrow> nat \<Rightarrow> VerdictCache" where
  "cache_put c key v now now' pick =
     (let c1 = evictIfFullLocked c key now pick
      in c1\<lparr>vc_byKey := map_assign key \<lparr>ce_until = now' + vc_ttl c1, ce_generation = vc_generation c1,
           ce_verdict = v\<rparr> (vc_byKey c1)\<rparr>)"

definition Put ::
  "(string \<Rightarrow> string) \<Rightarrow> VerdictCache \<Rightarrow> string \<Rightarrow> string \<Rightarrow> string \<Rightarrow> string \<Rightarrow> VerdictSnapshot option
     \<Rightarrow> gotime \<Rightarrow> gotime \<Rightarrow> nat \<Rightarrow> VerdictCache" where
  "Put sha256 c kind model direction content v now now' pick =
     (case v of None \<Rightarrow> c
      | Some v \<Rightarrow> cache_put c (cacheKey sha256 kind model direction content) v now now' pick)"

definition verdictAction :: "VerdictSnapshot option \<Rightarrow> string" where
  "verdictAction v = (case v of None \<Rightarrow> ''none''
     | Some v \<Rightarrow> if vs_JudgeFailed v then ''error'' else vs_Action v)"

subsection \<open>Histories\<close>

datatype cache_op =
    OpPut string VerdictSnapshot gotime gotime nat
  | OpGet string gotime
  | OpInvalidate
  | OpSetMax int

fun run_op :: "VerdictCache \<Rightarrow> cache_op \<Rightarrow> VerdictCache" where
  "run_op c (OpPut k v now now' pick) = cache_put c k v now now' pick"
| "run_op c (OpGet k now) = fst (cache_get c k now)"
| "run_op c OpInvalidate = Invalidate c"
| "run_op c (OpSetMax n) = SetMaxEntries c n"

definition run_ops :: "duration \<Rightarrow> cache_op list \<Rightarrow> VerdictCache" where
  "run_ops ttl ops = foldl run_op (NewVerdictCache ttl) ops"

text \<open>The last verdict stored for a key, when, and how many invalidations followed.\<close>

fun note_op :: "string \<Rightarrow> (VerdictSnapshot \<times> gotime \<times> nat) option \<Rightarrow> cache_op
    \<Rightarrow> (VerdictSnapshot \<times> gotime \<times> nat) option" where
  "note_op k acc (OpPut k' v now now' pick) = (if k' = k then Some (v, now', 0) else acc)"
| "note_op k acc OpInvalidate = map_option (\<lambda>(v, t, n). (v, t, Suc n)) acc"
| "note_op k acc (OpGet k' now) = acc"
| "note_op k acc (OpSetMax n) = acc"

definition last_put :: "string \<Rightarrow> cache_op list \<Rightarrow> (VerdictSnapshot \<times> gotime \<times> nat) option" where
  "last_put k ops = foldl (note_op k) None ops"

definition cache_ok :: "duration \<Rightarrow> cache_op list \<Rightarrow> VerdictCache \<Rightarrow> bool" where
  "cache_ok ttl ops c \<longleftrightarrow> distinct (map fst (vc_byKey c)) \<and> vc_ttl c = ttl \<and> 0 < vc_maxEntries c \<and>
     (\<forall>k e. (k, e) \<in> set (vc_byKey c) \<longrightarrow> (\<exists>v t n. last_put k ops = Some (v, t, n) \<and> ce_verdict e = v \<and>
        ce_until e = t + ttl \<and> vc_generation c = ce_generation e + of_nat n))"

lemma last_put_snoc [simp]: "last_put k (ops @ [op]) = note_op k (last_put k ops) op"
  by (simp add: last_put_def)

lemma run_ops_snoc [simp]: "run_ops ttl (ops @ [op]) = run_op (run_ops ttl ops) op"
  by (simp add: run_ops_def)

lemma map_delete_set: "(k', e) \<in> set (map_delete k m) \<longleftrightarrow> (k', e) \<in> set m \<and> k' \<noteq> k"
  by (auto simp: map_delete_def)

lemma map_of_assign: "map_of (map_assign k e m) k = Some e"
proof -
  have "map_of (map_delete k m) k = None" by (auto simp: map_of_eq_None_iff map_delete_def)
  then show ?thesis by (simp add: map_assign_def map_add_def)
qed

lemma map_delete_distinct: "distinct (map fst m) \<Longrightarrow> distinct (map fst (map_delete k m))"
  by (simp add: map_delete_def distinct_map_filter)

lemma evict_effect:
  "set (vc_byKey (evictIfFullLocked c k now pick)) \<subseteq> set (vc_byKey c)"
  "distinct (map fst (vc_byKey c)) \<Longrightarrow> distinct (map fst (vc_byKey (evictIfFullLocked c k now pick)))"
  "vc_ttl (evictIfFullLocked c k now pick) = vc_ttl c"
  "vc_maxEntries (evictIfFullLocked c k now pick) = vc_maxEntries c"
  "vc_generation (evictIfFullLocked c k now pick) = vc_generation c"
  by (auto simp: evictIfFullLocked_def Let_def map_delete_set distinct_map_filter map_delete_distinct)

lemma cache_ok_step:
  assumes "cache_ok ttl ops c"
  shows "cache_ok ttl (ops @ [op]) (run_op c op)"
proof (cases op)
  case (OpPut k v now now' pick)
  let ?c = "evictIfFullLocked c k now pick"
  have "distinct (map fst (map_assign k e (vc_byKey ?c)))" for e
    using assms evict_effect(2) [of c k now pick] map_delete_distinct
    by (auto simp: cache_ok_def map_assign_def map_delete_set)
  then show ?thesis
    using assms evict_effect(1) [of c k now pick] evict_effect(3-5) [of c k now pick] OpPut
    by (fastforce simp: cache_ok_def cache_put_def Let_def map_assign_def map_delete_set)
next
  case (OpGet k now)
  then show ?thesis
    using assms
    by (auto simp: cache_ok_def cache_get_def map_delete_set map_delete_distinct split: option.splits)
next
  case OpInvalidate
  then show ?thesis
    using assms by (fastforce simp: cache_ok_def Invalidate_def)
next
  case (OpSetMax n)
  then show ?thesis
    using assms by (auto simp: cache_ok_def SetMaxEntries_def defaultVerdictCacheMaxEntries_def)
qed

lemma cache_ok_run: "cache_ok (vc_ttl (NewVerdictCache ttl)) ops (run_ops ttl ops)"
proof (induction ops rule: rev_induct)
  case Nil
  then show ?case
    by (simp add: run_ops_def cache_ok_def NewVerdictCache_def defaultVerdictCacheMaxEntries_def)
next
  case (snoc op ops)
  then show ?case using cache_ok_step by simp
qed

lemma filter_key_length: "k \<in> fst ` set m \<Longrightarrow> length (map_delete k m) < length m"
proof -
  assume "k \<in> fst ` set m"
  then obtain e where "(k, e) \<in> set m" by auto
  then show ?thesis unfolding map_delete_def by (rule length_filter_less) simp
qed

lemma cache_put_length:
  assumes "0 < vc_maxEntries c" and "int (length (vc_byKey c)) \<le> vc_maxEntries c"
  shows "int (length (vc_byKey (cache_put c k v now now' pick))) \<le> vc_maxEntries c"
proof -
  let ?c = "evictIfFullLocked c k now pick"
  have "int (length (vc_byKey ?c)) < vc_maxEntries c \<or>
      k \<in> fst ` set (vc_byKey ?c) \<and> int (length (vc_byKey ?c)) \<le> vc_maxEntries c"
  proof -
    define s where "s = filter (\<lambda>(k, e). live c now e) (vc_byKey c)"
    have len: "length s \<le> length (vc_byKey c)" by (simp add: s_def)
    have del: "length (map_delete (fst (s ! (pick mod length s))) s) < length s" if "s \<noteq> []"
      by (intro filter_key_length imageI nth_mem mod_less_divisor) (use that in simp)
    show ?thesis
      using assms(1,2) len del
      by (auto simp: evictIfFullLocked_def Let_def map_of_eq_None_iff s_def [symmetric])
  qed
  moreover have "length (map_delete k (vc_byKey ?c)) \<le> length (vc_byKey ?c)" by (simp add: map_delete_def)
  moreover have "k \<in> fst ` set (vc_byKey ?c) \<Longrightarrow> length (map_delete k (vc_byKey ?c)) < length (vc_byKey ?c)"
    by (rule filter_key_length)
  ultimately have "int (length (map_delete k (vc_byKey ?c))) + 1 \<le> vc_maxEntries c" by linarith
  then show ?thesis by (simp add: cache_put_def Let_def map_assign_def)
qed

lemma zero_split: "c \<notin> set a \<Longrightarrow> c \<notin> set b \<Longrightarrow> a @ c # x = b @ c # y \<Longrightarrow> a = b \<and> x = y"
proof (induction a arbitrary: b)
  case Nil
  then show ?case by (cases b) auto
next
  case (Cons h a)
  then show ?case by (cases b) auto
qed

subsection \<open>Properties\<close>

definition sample_verdict :: "string \<Rightarrow> VerdictSnapshot" where
  "sample_verdict action = \<lparr>vs_Action = action, vs_Severity = ''NONE'', vs_Reason = [], vs_Findings = [],
     vs_EntityCount = 0, vs_Scanner = ''llm-judge'', vs_ScannerSources = [], vs_JudgeFailed = False\<rparr>"

text \<open>
  C27.  A hit is never stale.  Whatever the history of stores, lookups, invalidations and capacity
  changes (fewer than 2^64 of them), a lookup that hits returns the verdict most recently stored
  under that key, no invalidation has happened since, and its time to live has not elapsed.
\<close>

theorem verdict_hit_is_fresh:
  assumes "snd (cache_get (run_ops ttl ops) k now) = Some v" and "length ops < 2 ^ 64"
  shows "\<exists>t. last_put k ops = Some (v, t, 0) \<and> now < t + (if ttl \<le> 0 then 30 * Second else ttl)"
proof -
  let ?c = "run_ops ttl ops"
  obtain e where e: "map_of (vc_byKey ?c) k = Some e" "live ?c now e" "v = ce_verdict e"
    using assms(1) by (auto simp: cache_get_def split: option.splits if_splits)
  obtain t n where h: "last_put k ops = Some (v, t, n)" "ce_until e = t + vc_ttl (NewVerdictCache ttl)"
    "vc_generation ?c = ce_generation e + of_nat n"
    using cache_ok_run [of ttl ops] map_of_SomeD [OF e(1)] e(3) by (fastforce simp: cache_ok_def)
  have bound: "last_put k ops = Some (v', t', n') \<Longrightarrow> n' \<le> length ops" for v' t' n'
  proof (induction ops arbitrary: v' t' n' rule: rev_induct)
    case (snoc op ops)
    then show ?case by (cases op) (fastforce split: if_splits)+
  qed (simp add: last_put_def)
  have "(of_nat n :: 64 word) = 0" using h(3) e(2) by (simp add: live_def)
  then have "2 ^ 64 dvd n" by (simp add: word_of_nat_eq_0_iff)
  then have "n = 0" using bound [OF h(1)] assms(2) by (auto dest!: dvd_imp_le)
  then show ?thesis using h(1,2) e(2) by (auto simp: live_def NewVerdictCache_def)
qed

theorem verdict_hit_is_fresh_witness:
  "let ops = [OpPut ''k'' (sample_verdict ''allow'') 1 1 0, OpInvalidate, OpPut ''k'' (sample_verdict ''block'') 2 2 0]
   in last_put ''k'' ops = Some (sample_verdict ''block'', 2, 0)"
proof -
  let ?ops = "[OpPut ''k'' (sample_verdict ''allow'') 1 1 0, OpInvalidate, OpPut ''k'' (sample_verdict ''block'') 2 2 0]"
  have "snd (cache_get (run_ops Second ?ops) ''k'' 3) = Some (sample_verdict ''block'')" by code_simp
  from verdict_hit_is_fresh [OF this] show ?thesis by (auto simp: Let_def last_put_def)
qed

text \<open>
  Bounded memory.  With the default capacity the cache never holds more than 4096 entries,
  whatever is stored in it and whichever entries it drops.
\<close>

theorem verdict_cache_bounded:
  assumes "list_all (\<lambda>op. case op of OpSetMax n \<Rightarrow> False | _ \<Rightarrow> True) ops"
  shows "length (vc_byKey (run_ops ttl ops)) \<le> 4096"
proof -
  have "vc_maxEntries (run_ops ttl ops) = 4096 \<and> int (length (vc_byKey (run_ops ttl ops))) \<le> 4096"
    using assms
  proof (induction ops rule: rev_induct)
    case Nil
    then show ?case by (simp add: run_ops_def NewVerdictCache_def defaultVerdictCacheMaxEntries_def)
  next
    case (snoc op ops)
    then have ih: "vc_maxEntries (run_ops ttl ops) = 4096" "int (length (vc_byKey (run_ops ttl ops))) \<le> 4096"
      by simp_all
    show ?case
    proof (cases op)
      case (OpPut k v now now' pick)
      then show ?thesis
        using cache_put_length [of "run_ops ttl ops"] ih
        by (simp add: cache_put_def Let_def evict_effect)
    next
      case (OpGet k now)
      have "length (map_delete k (vc_byKey (run_ops ttl ops))) \<le> length (vc_byKey (run_ops ttl ops))"
        by (simp add: map_delete_def)
      then show ?thesis using ih OpGet by (auto simp: cache_get_def split: option.splits)
    next
      case OpInvalidate
      then show ?thesis using ih by (simp add: Invalidate_def)
    next
      case (OpSetMax n)
      then show ?thesis using snoc.prems by simp
    qed
  qed
  then show ?thesis by simp
qed

theorem verdict_cache_bounded_witness:
  "length (vc_byKey (run_ops Second [OpPut ''k'' (sample_verdict ''allow'') 1 1 0, OpInvalidate])) \<le> 4096"
  by (rule verdict_cache_bounded) simp

text \<open>
  No cross-talk.  If two different requests get the same cache key, SHA-256 collides on two
  different inputs (kind, model and direction carry no NUL byte, and a digest has 32 bytes): one
  request is never answered with the verdict of another.
\<close>

theorem cacheKey_collision:
  assumes "cacheKey sha256 kind model direction content = cacheKey sha256 kind' model' direction' content'"
    and "(kind, model, direction, content) \<noteq> (kind', model', direction', content')"
    and "\<forall>x. length (sha256 x) = 32"
    and "CHR 0x00 \<notin> set kind" "CHR 0x00 \<notin> set model" "CHR 0x00 \<notin> set direction"
    and "CHR 0x00 \<notin> set kind'" "CHR 0x00 \<notin> set model'" "CHR 0x00 \<notin> set direction'"
  shows "\<exists>x y. x \<noteq> y \<and> sha256 x = sha256 y"
proof -
  let ?x = "kind @ [CHR 0x00] @ model @ [CHR 0x00] @ direction @ [CHR 0x00] @ content"
  let ?y = "kind' @ [CHR 0x00] @ model' @ [CHR 0x00] @ direction' @ [CHR 0x00] @ content'"
  have "length (hex_encode s) = 2 * length s" for s
    by (induction s) (auto simp: hex_encode_def hex_byte_def)
  then have "length (hex_encode (sha256 ?x)) = length (hex_encode (sha256 ?y))" using assms(3) by metis
  moreover have "b = d" if "length b = length d" "a @ b = c @ d" for a b c d :: string using that by simp
  ultimately have "hex_encode (sha256 ?x) = hex_encode (sha256 ?y)"
    using assms(1) unfolding cacheKey_def by (metis append_assoc)
  then have "sha256 ?x = sha256 ?y" by (rule hex_encode_inj)
  moreover have "?x \<noteq> ?y"
  proof
    assume "?x = ?y"
    then have "kind = kind'" "model @ CHR 0x00 # direction @ CHR 0x00 # content = model' @ CHR 0x00 # direction' @ CHR 0x00 # content'"
      using zero_split [OF assms(4,7)] by simp_all
    then show False
      using zero_split [OF assms(5,8)] zero_split [OF assms(6,9)] assms(2) by blast
  qed
  ultimately show ?thesis by blast
qed

theorem cacheKey_collision_witness:
  "cacheKey (\<lambda>x. replicate 32 CHR ''h'') ''pii'' ''m'' ''in'' ''a'' = cacheKey (\<lambda>x. replicate 32 CHR ''h'') ''pii'' ''m'' ''in'' ''b'' \<and>
   (\<exists>x y. x \<noteq> y \<and> (\<lambda>x :: string. replicate 32 CHR ''h'') x = (\<lambda>x :: string. replicate 32 CHR ''h'') y)"
  using cacheKey_collision [of "\<lambda>x. replicate 32 CHR ''h''" "''pii''" "''m''" "''in''" "''a''" "''pii''" "''m''" "''in''" "''b''"]
  by (simp add: cacheKey_def)

text \<open>
  A late store defeats the invalidation.  \<open>Put\<close> stamps the generation of the moment of storing:
  whatever the cache holds, a verdict \<open>v\<close> that was computed after a missing lookup and before
  \<open>Invalidate\<close>, and is stored after it, is served as a hit to every lookup within its time to live.
\<close>

theorem late_put_survives_invalidation:
  assumes "Get sha256 c kind model direction content t0 = (c1, None)"
    and "c2 = Put sha256 (Invalidate c1) kind model direction content (Some v) t1 t1 pick"
    and "t < t1 + vc_ttl c1"
  shows "snd (Get sha256 c2 kind model direction content t) = Some v"
  using assms(2,3)
  by (simp add: Get_def Put_def cache_get_def cache_put_def Let_def map_of_assign live_def evict_effect Invalidate_def)

theorem late_put_survives_invalidation_witness:
  "let h = (\<lambda>x. replicate 32 CHR ''h''); c = NewVerdictCache Second;
       c1 = fst (Get h c ''pii'' ''m'' ''prompt'' ''a'' 1);
       c2 = Put h (Invalidate c1) ''pii'' ''m'' ''prompt'' ''a'' (Some (sample_verdict ''allow'')) 2 2 0
   in snd (Get h c2 ''pii'' ''m'' ''prompt'' ''a'' 3) = Some (sample_verdict ''allow'')"
proof -
  let ?h = "\<lambda>x. replicate 32 CHR ''h''"
  have c1: "Get ?h (NewVerdictCache Second) ''pii'' ''m'' ''prompt'' ''a'' 1 = (NewVerdictCache Second, None)"
    by (simp add: Get_def cache_get_def NewVerdictCache_def)
  have ttl: "(3 :: gotime) < 2 + vc_ttl (NewVerdictCache Second)" by (simp add: NewVerdictCache_def)
  show ?thesis
    using late_put_survives_invalidation [OF c1 refl ttl, of "sample_verdict ''allow''" 0]
    by (simp only: Let_def c1 fst_conv)
qed

end
