(* ===== verification/Guardrail_Correlator.thy ===== *)
theory Guardrail_Correlator
  imports Go_Prelude
begin

text \<open>
  The multi-step attack correlator, \<^verbatim>\<open>internal/guardrail/correlator.go\<close>: clause matching and
  the four ways a pattern matches a newest-first window of findings.  A nil slice of findings is
  the empty list; no matcher returns a non-nil empty slice.  The YAML decoder is outside the
  model, so \<open>LoadCorrelationPatterns\<close> takes the decoded patterns.
\<close>

type_synonym DataAxis = string
type_synonym ToolCapabilityClass = string

record CorrelationFinding =
  cf_ID :: string
  cf_RuleID :: string
  cf_Category :: string
  cf_Severity :: string
  cf_DataAxis :: "DataAxis list"
  cf_ToolCapabilityClass :: ToolCapabilityClass
  cf_ContentFingerprint :: string
  cf_ExternalEndpoint :: string
  cf_TurnID :: int

record PatternClause =
  pc_Axis :: DataAxis
  pc_ToolCapabilityClass :: ToolCapabilityClass
  pc_WithRuleMatch :: "string list"
  pc_MinSeverity :: string

record CorrelationPattern =
  cp_ID :: string
  cp_Description :: string
  cp_WindowEvents :: int
  cp_SeverityOnMatch :: string
  cp_AllOf :: "PatternClause list"
  cp_Sequence :: "string list"
  cp_FingerprintLink :: "PatternClause list"
  cp_Ordered :: bool

definition normalize_pattern :: "CorrelationPattern \<Rightarrow> CorrelationPattern" where
  "normalize_pattern p =
     (let p = (if cp_WindowEvents p \<le> 0 then p\<lparr>cp_WindowEvents := 20\<rparr> else p)
      in if cp_SeverityOnMatch p = [] then p\<lparr>cp_SeverityOnMatch := ''CRITICAL''\<rparr> else p)"

definition LoadCorrelationPatterns ::
  "(string \<Rightarrow> CorrelationPattern list option) \<Rightarrow> string \<Rightarrow> CorrelationPattern list option" where
  "LoadCorrelationPatterns unmarshal data = map_option (map normalize_pattern) (unmarshal data)"

text \<open>A Go map read: an absent key gives 0.\<close>

definition severityRankCorrelator :: "string \<Rightarrow> int" where
  "severityRankCorrelator s =
     (if s = ''LOW'' then 1 else if s = ''MEDIUM'' then 2 else if s = ''HIGH'' then 3
      else if s = ''CRITICAL'' then 4 else 0)"

definition clauseMatches :: "unicode_map \<Rightarrow> PatternClause \<Rightarrow> CorrelationFinding \<Rightarrow> bool" where
  "clauseMatches uni c f =
     (if pc_Axis c \<noteq> [] \<and> \<not> List.member (cf_DataAxis f) (pc_Axis c) then False
      else if pc_ToolCapabilityClass c \<noteq> [] \<and> cf_ToolCapabilityClass f \<noteq> pc_ToolCapabilityClass c then False
      else if pc_WithRuleMatch c \<noteq> [] \<and> \<not> List.member (pc_WithRuleMatch c) (cf_RuleID f) then False
      else if pc_MinSeverity c \<noteq> [] \<and>
        severityRankCorrelator (ToUpper uni (cf_Severity f))
          < severityRankCorrelator (ToUpper uni (pc_MinSeverity c)) then False
      else True)"

subsection \<open>The matchers\<close>

text \<open>The loop of \<open>matchAllOf\<close>: each clause takes the newest finding that satisfies it.\<close>

fun all_of_loop ::
  "unicode_map \<Rightarrow> CorrelationFinding list \<Rightarrow> PatternClause list \<Rightarrow> string list
     \<Rightarrow> CorrelationFinding list \<Rightarrow> CorrelationFinding list" where
  "all_of_loop uni window [] seen contributing = contributing"
| "all_of_loop uni window (clause # clauses) seen contributing =
     (case find (clauseMatches uni clause) window of
        None \<Rightarrow> []
      | Some f \<Rightarrow>
          if List.member seen (cf_ID f) then all_of_loop uni window clauses seen contributing
          else all_of_loop uni window clauses (cf_ID f # seen) (contributing @ [f]))"

definition matchAllOf ::
  "unicode_map \<Rightarrow> CorrelationPattern \<Rightarrow> CorrelationFinding list \<Rightarrow> CorrelationFinding list" where
  "matchAllOf uni p window = all_of_loop uni window (cp_AllOf p) [] []"

text \<open>
  The walk \<open>matchOrderedAllOf\<close> and \<open>matchSequence\<close> share: the clauses from \<open>step\<close> on are matched
  against the findings in arrival order.
\<close>

fun ordered_walk ::
  "('c \<Rightarrow> 'f \<Rightarrow> bool) \<Rightarrow> 'c list \<Rightarrow> 'f list \<Rightarrow> 'f list \<Rightarrow> 'c list \<times> 'f list" where
  "ordered_walk ok [] contributing ordered = ([], contributing)"
| "ordered_walk ok (c # cs) contributing [] = (c # cs, contributing)"
| "ordered_walk ok (c # cs) contributing (f # ordered) =
     (if ok c f then ordered_walk ok cs (contributing @ [f]) ordered
      else ordered_walk ok (c # cs) contributing ordered)"

definition walk_result :: "'c list \<times> 'f list \<Rightarrow> 'f list" where
  "walk_result r = (if fst r \<noteq> [] then [] else snd r)"

definition matchOrderedAllOf ::
  "unicode_map \<Rightarrow> CorrelationPattern \<Rightarrow> CorrelationFinding list \<Rightarrow> CorrelationFinding list" where
  "matchOrderedAllOf uni p window =
     walk_result (ordered_walk (clauseMatches uni) (cp_AllOf p) [] (rev window))"

definition severity_step :: "unicode_map \<Rightarrow> string \<Rightarrow> CorrelationFinding \<Rightarrow> bool" where
  "severity_step uni want f = (ToUpper uni (cf_Severity f) = ToUpper uni (TrimSpace want))"

definition matchSequence ::
  "unicode_map \<Rightarrow> CorrelationPattern \<Rightarrow> CorrelationFinding list \<Rightarrow> CorrelationFinding list" where
  "matchSequence uni p window =
     walk_result (ordered_walk (severity_step uni) (cp_Sequence p) [] (rev window))"

text \<open>The two inner loops of \<open>matchFingerprintLink\<close> and its search over the first finding.\<close>

definition link_candidate ::
  "unicode_map \<Rightarrow> string \<Rightarrow> PatternClause \<Rightarrow> CorrelationFinding \<Rightarrow> bool" where
  "link_candidate uni fp clause f =
     (\<not> (cf_ID f = [] \<or> cf_ContentFingerprint f \<noteq> fp \<or> \<not> clauseMatches uni clause f))"

fun link_next ::
  "unicode_map \<Rightarrow> string \<Rightarrow> string list \<Rightarrow> PatternClause \<Rightarrow> CorrelationFinding list
     \<Rightarrow> (CorrelationFinding \<times> CorrelationFinding list) option" where
  "link_next uni fp seen clause [] = None"
| "link_next uni fp seen clause (f # ordered) =
     (if \<not> link_candidate uni fp clause f then link_next uni fp seen clause ordered
      else if List.member seen (cf_ID f) then link_next uni fp seen clause ordered
      else Some (f, ordered))"

fun link_rest ::
  "unicode_map \<Rightarrow> string \<Rightarrow> string list \<Rightarrow> PatternClause list \<Rightarrow> CorrelationFinding list
     \<Rightarrow> CorrelationFinding list \<Rightarrow> CorrelationFinding list option" where
  "link_rest uni fp seen [] matched ordered = Some matched"
| "link_rest uni fp seen (clause # clauses) matched ordered =
     (case link_next uni fp seen clause ordered of
        None \<Rightarrow> None
      | Some (f, later) \<Rightarrow> link_rest uni fp (cf_ID f # seen) clauses (matched @ [f]) later)"

fun link_start ::
  "unicode_map \<Rightarrow> PatternClause \<Rightarrow> PatternClause list \<Rightarrow> CorrelationFinding list
     \<Rightarrow> CorrelationFinding list" where
  "link_start uni clause clauses [] = []"
| "link_start uni clause clauses (first # ordered) =
     (if cf_ID first = [] \<or> cf_ContentFingerprint first = [] \<or> \<not> clauseMatches uni clause first
      then link_start uni clause clauses ordered
      else case link_rest uni (cf_ContentFingerprint first) [cf_ID first] clauses [first] ordered of
             Some matched \<Rightarrow> matched
           | None \<Rightarrow> link_start uni clause clauses ordered)"

definition matchFingerprintLink ::
  "unicode_map \<Rightarrow> CorrelationPattern \<Rightarrow> CorrelationFinding list \<Rightarrow> CorrelationFinding list" where
  "matchFingerprintLink uni p window =
     (case cp_FingerprintLink p of
        [] \<Rightarrow> []
      | clause # clauses \<Rightarrow> link_start uni clause clauses (rev window))"

definition clip_window :: "CorrelationPattern \<Rightarrow> 'f list \<Rightarrow> 'f list" where
  "clip_window p window =
     (if cp_WindowEvents p > 0 \<and> int (length window) > cp_WindowEvents p
      then take (nat (cp_WindowEvents p)) window else window)"

definition Match ::
  "unicode_map \<Rightarrow> CorrelationPattern \<Rightarrow> CorrelationFinding list \<Rightarrow> CorrelationFinding list" where
  "Match uni p window =
     (if window = [] then []
      else let window = clip_window p window
           in if cp_FingerprintLink p \<noteq> [] then matchFingerprintLink uni p window
              else if cp_AllOf p \<noteq> [] then
                if cp_Ordered p then matchOrderedAllOf uni p window else matchAllOf uni p window
              else if cp_Sequence p \<noteq> [] then matchSequence uni p window
              else [])"

record CorrelationMatch =
  cm_Pattern :: CorrelationPattern
  cm_Contributing :: "CorrelationFinding list"

definition Evaluate ::
  "unicode_map \<Rightarrow> CorrelationPattern list \<Rightarrow> CorrelationFinding list \<Rightarrow> CorrelationMatch list" where
  "Evaluate uni patterns window =
     concat (map (\<lambda>p. let contributing = Match uni p window
       in if contributing \<noteq> [] then [\<lparr>cm_Pattern = p, cm_Contributing = contributing\<rparr>] else []) patterns)"

definition SyntheticFindingRuleID :: "unicode_map \<Rightarrow> CorrelationMatch \<Rightarrow> string" where
  "SyntheticFindingRuleID uni m =
     ''CORR-'' @ ToUpper uni (replace_byte CHR ''_'' CHR ''-'' (cp_ID (cm_Pattern m)))"

subsection \<open>The walk finds a subsequence exactly when there is one\<close>

lemma ordered_walk_sound:
  "ordered_walk ok cs acc xs = ([], r) \<Longrightarrow> \<exists>ys. r = acc @ ys \<and> subseq ys xs \<and> list_all2 ok cs ys"
proof (induction ok cs acc xs arbitrary: r rule: ordered_walk.induct)
  case (3 ok c cs acc f xs)
  show ?case
  proof (cases "ok c f")
    case True
    then obtain ys where "r = acc @ f # ys" "subseq ys xs" "list_all2 ok cs ys"
      using 3 by fastforce
    then show ?thesis using True by (intro exI [of _ "f # ys"]) simp
  next
    case False
    then show ?thesis using 3 by (auto intro: list_emb_Cons)
  qed
qed auto

lemma ordered_walk_complete:
  "subseq ys xs \<Longrightarrow> list_all2 ok cs ys \<Longrightarrow> fst (ordered_walk ok cs acc xs) = []"
proof (induction ok cs acc xs arbitrary: ys rule: ordered_walk.induct)
  case (3 ok c cs acc f xs)
  from 3(4) obtain y ys' where ys: "ys = y # ys'" "ok c y" "list_all2 ok cs ys'"
    by (auto simp: list_all2_Cons1)
  show ?case
  proof (cases "ok c f")
    case True
    have "subseq ys' xs"
      using 3(3) ys(1) by (cases "f = y") (auto intro: subseq_Cons')
    then show ?thesis using 3(1) [OF True] ys(3) True by simp
  next
    case False
    then have "subseq ys xs" using 3(3) ys by (auto split: if_splits)
    then show ?thesis using 3(2) [OF False] 3(4) False by simp
  qed
qed (auto simp: list_all2_Cons1)

lemma walk_result_iff:
  assumes "cs \<noteq> []"
  shows "walk_result (ordered_walk ok cs [] xs) \<noteq> [] \<longleftrightarrow> (\<exists>ys. subseq ys xs \<and> list_all2 ok cs ys)"
    and "walk_result (ordered_walk ok cs [] xs) \<noteq> [] \<Longrightarrow>
      subseq (walk_result (ordered_walk ok cs [] xs)) xs \<and>
      list_all2 ok cs (walk_result (ordered_walk ok cs [] xs))"
proof -
  obtain rest r where w: "ordered_walk ok cs [] xs = (rest, r)" by fastforce
  have snd: "subseq r xs \<and> list_all2 ok cs r" if "rest = []"
    using ordered_walk_sound [of ok cs "[]" xs r] w that by auto
  then have ne: "rest = [] \<Longrightarrow> r \<noteq> []" using assms by auto
  show "walk_result (ordered_walk ok cs [] xs) \<noteq> [] \<longleftrightarrow> (\<exists>ys. subseq ys xs \<and> list_all2 ok cs ys)"
    using w snd ne ordered_walk_complete [of _ xs ok cs "[]"] by (auto simp: walk_result_def)
  show "walk_result (ordered_walk ok cs [] xs) \<noteq> [] \<Longrightarrow>
      subseq (walk_result (ordered_walk ok cs [] xs)) xs \<and>
      list_all2 ok cs (walk_result (ordered_walk ok cs [] xs))"
    using w snd by (auto simp: walk_result_def split: if_splits)
qed

subsection \<open>What a pattern means\<close>

text \<open>
  The specification of a match on a newest-first window.  A chain is a selection of findings in
  arrival order, one per clause; the findings of a fingerprint chain also carry distinct
  non-empty identities and one common non-empty fingerprint.
\<close>

definition chain_in :: "('c \<Rightarrow> CorrelationFinding \<Rightarrow> bool) \<Rightarrow> 'c list \<Rightarrow> CorrelationFinding list \<Rightarrow>
    CorrelationFinding list \<Rightarrow> bool" where
  "chain_in ok cs window ys \<longleftrightarrow> subseq ys (rev window) \<and> list_all2 ok cs ys"

definition linked :: "CorrelationFinding list \<Rightarrow> bool" where
  "linked ys \<longleftrightarrow> distinct (map cf_ID ys) \<and> (\<forall>f \<in> set ys. cf_ID f \<noteq> []) \<and>
     (\<exists>fp. fp \<noteq> [] \<and> (\<forall>f \<in> set ys. cf_ContentFingerprint f = fp))"

definition pattern_holds :: "unicode_map \<Rightarrow> CorrelationPattern \<Rightarrow> CorrelationFinding list \<Rightarrow> bool" where
  "pattern_holds uni p window \<longleftrightarrow>
     (if cp_FingerprintLink p \<noteq> []
      then \<exists>ys. chain_in (clauseMatches uni) (cp_FingerprintLink p) window ys \<and> linked ys
      else if cp_AllOf p \<noteq> [] then
        if cp_Ordered p then \<exists>ys. chain_in (clauseMatches uni) (cp_AllOf p) window ys
        else \<forall>c \<in> set (cp_AllOf p). \<exists>f \<in> set window. clauseMatches uni c f
      else cp_Sequence p \<noteq> [] \<and> (\<exists>ys. chain_in (severity_step uni) (cp_Sequence p) window ys))"

lemma all_of_loop_props:
  assumes "all_of_loop uni window cs seen acc = r" and "cs \<noteq> [] \<or> acc \<noteq> []" and "seen = [] \<longleftrightarrow> acc = []"
  shows "(r \<noteq> [] \<longleftrightarrow> (\<forall>c \<in> set cs. \<exists>f \<in> set window. clauseMatches uni c f)) \<and>
    (set acc \<subseteq> set window \<longrightarrow> set r \<subseteq> set window)"
  using assms
proof (induction uni window cs seen acc rule: all_of_loop.induct)
  case (2 uni window c cs seen acc)
  show ?case
  proof (cases "find (clauseMatches uni c) window")
    case None
    then have "r = []" and "\<forall>f \<in> set window. \<not> clauseMatches uni c f"
      using 2(3) by (simp, auto simp: find_None_iff)
    then show ?thesis by auto
  next
    case (Some f)
    then have f: "f \<in> set window" "clauseMatches uni c f"
      by (auto simp: find_Some_iff)
    show ?thesis
    proof (cases "List.member seen (cf_ID f)")
      case True
      then have "seen \<noteq> []" by auto
      then show ?thesis using 2(1) [OF Some True] 2(3-5) Some True f by auto
    next
      case False
      then show ?thesis using 2(2) [OF Some False] 2(3-5) Some f by auto
    qed
  qed
qed auto

lemma link_next_some:
  "link_next uni fp seen c xs = Some (f, later) \<Longrightarrow>
   \<exists>pre. xs = pre @ f # later \<and> link_candidate uni fp c f \<and> cf_ID f \<notin> set seen"
proof (induction xs)
  case (Cons x xs)
  show ?case
  proof (cases "link_candidate uni fp c x \<and> \<not> List.member seen (cf_ID x)")
    case True
    then show ?thesis using Cons.prems by auto
  next
    case False
    then obtain pre where "xs = pre @ f # later" "link_candidate uni fp c f" "cf_ID f \<notin> set seen"
      using Cons by (auto split: if_splits)
    then show ?thesis by (intro exI [of _ "x # pre"]) simp
  qed
qed simp

lemma link_rest_sound:
  assumes "link_rest uni fp seen cs acc xs = Some r"
  shows "\<exists>ys. r = acc @ ys \<and> subseq ys xs \<and> list_all2 (link_candidate uni fp) cs ys \<and>
    distinct (map cf_ID ys) \<and> set (map cf_ID ys) \<inter> set seen = {}"
  using assms
proof (induction cs arbitrary: seen acc xs)
  case (Cons c cs)
  obtain f later where n: "link_next uni fp seen c xs = Some (f, later)"
    and r: "link_rest uni fp (cf_ID f # seen) cs (acc @ [f]) later = Some r"
    using Cons.prems by (auto split: option.splits)
  obtain pre where xs: "xs = pre @ f # later" "link_candidate uni fp c f" "cf_ID f \<notin> set seen"
    using link_next_some [OF n] by blast
  from Cons.IH [OF r] obtain ys where ys: "r = (acc @ [f]) @ ys" "subseq ys later"
    "list_all2 (link_candidate uni fp) cs ys" "distinct (map cf_ID ys)"
    "set (map cf_ID ys) \<inter> set (cf_ID f # seen) = {}" by blast
  then have "subseq (f # ys) xs" using xs(1) by (simp add: list_emb_append2)
  then show ?case using ys xs by (intro exI [of _ "f # ys"]) auto
qed auto

text \<open>When no identity repeats, the search for the next link is the plain walk.\<close>

lemma link_next_none:
  assumes "link_next uni fp seen c xs = None" and "distinct (map cf_ID xs)"
    and "set seen \<inter> set (map cf_ID xs) = {}"
  shows "\<forall>f \<in> set xs. \<not> link_candidate uni fp c f"
  using assms by (induction xs) (auto split: if_splits)

lemma link_next_first:
  assumes "link_next uni fp seen c xs = Some (f, later)" and "set seen \<inter> set (map cf_ID xs) = {}"
  shows "ordered_walk (link_candidate uni fp) (c # cs) acc xs = ordered_walk (link_candidate uni fp) cs (acc @ [f]) later"
  using assms by (induction xs) (auto split: if_splits)

lemma link_rest_complete:
  assumes "distinct (map cf_ID xs)" and "set seen \<inter> set (map cf_ID xs) = {}"
    and "fst (ordered_walk (link_candidate uni fp) cs acc xs) = []"
  shows "link_rest uni fp seen cs acc xs \<noteq> None"
  using assms
proof (induction cs arbitrary: seen acc xs)
  case (Cons c cs)
  show ?case
  proof (cases "link_next uni fp seen c xs")
    case None
    then have "\<forall>f \<in> set xs. \<not> link_candidate uni fp c f" using link_next_none Cons.prems by blast
    then have "fst (ordered_walk (link_candidate uni fp) (c # cs) acc xs) = c # cs"
      by (induction xs) auto
    then show ?thesis using Cons.prems by simp
  next
    case (Some y)
    obtain f later where y: "y = (f, later)" by fastforce
    obtain pre where xs: "xs = pre @ f # later" using link_next_some Some y by blast
    have "fst (ordered_walk (link_candidate uni fp) cs (acc @ [f]) later) = []"
      using link_next_first [OF _ Cons.prems(2)] Some y Cons.prems(3) by metis
    moreover have "distinct (map cf_ID later)" "set (cf_ID f # seen) \<inter> set (map cf_ID later) = {}"
      using Cons.prems(1,2) xs by auto
    ultimately show ?thesis using Cons.IH Some y by auto
  qed
qed simp

lemma link_start_sound:
  assumes "link_start uni c cs xs \<noteq> []"
  shows "subseq (link_start uni c cs xs) xs \<and> list_all2 (clauseMatches uni) (c # cs) (link_start uni c cs xs) \<and>
    linked (link_start uni c cs xs)"
  using assms
proof (induction xs)
  case (Cons x xs)
  show ?case
  proof (cases "cf_ID x = [] \<or> cf_ContentFingerprint x = [] \<or> \<not> clauseMatches uni c x")
    case True
    then show ?thesis using Cons by (auto intro: list_emb_Cons)
  next
    case False
    show ?thesis
    proof (cases "link_rest uni (cf_ContentFingerprint x) [cf_ID x] cs [x] xs")
      case None
      then show ?thesis using Cons False by (auto intro: list_emb_Cons)
    next
      case (Some r)
      from link_rest_sound [OF this] obtain ys where ys: "r = x # ys" "subseq ys xs"
        "list_all2 (link_candidate uni (cf_ContentFingerprint x)) cs ys" "distinct (map cf_ID ys)"
        "cf_ID x \<notin> set (map cf_ID ys)" by auto
      have "list_all2 (clauseMatches uni) cs ys"
        using ys(3) by (rule list_all2_mono) (simp add: link_candidate_def)
      moreover have "\<forall>f \<in> set ys. cf_ID f \<noteq> [] \<and> cf_ContentFingerprint f = cf_ContentFingerprint x"
        using ys(3) by (auto simp: list_all2_conv_all_nth in_set_conv_nth link_candidate_def)
      ultimately show ?thesis using Some False ys by (auto simp: linked_def)
    qed
  qed
qed simp

lemma link_start_complete:
  assumes "distinct (map cf_ID xs)" and "subseq ys xs" and "list_all2 (clauseMatches uni) (c # cs) ys"
    and "linked ys"
  shows "link_start uni c cs xs \<noteq> []"
  using assms
proof (induction xs)
  case (Cons x xs)
  obtain y ys' where y: "ys = y # ys'" "clauseMatches uni c y" "list_all2 (clauseMatches uni) cs ys'"
    using Cons.prems(3) by (auto simp: list_all2_Cons1)
  show ?case
  proof (cases "x = y")
    case True
    have fp: "cf_ID y \<noteq> []" "cf_ContentFingerprint y \<noteq> []"
      "\<forall>f \<in> set ys'. cf_ID f \<noteq> [] \<and> cf_ContentFingerprint f = cf_ContentFingerprint y"
      using Cons.prems(4) y(1) by (auto simp: linked_def)
    have "list_all2 (link_candidate uni (cf_ContentFingerprint y)) cs ys'"
      using y(3) fp(3) by (auto simp: list_all2_conv_all_nth link_candidate_def)
    moreover have "subseq ys' xs" using Cons.prems(2) y(1) True by simp
    ultimately have "fst (ordered_walk (link_candidate uni (cf_ContentFingerprint y)) cs [y] xs) = []"
      by (intro ordered_walk_complete)
    then have "link_rest uni (cf_ContentFingerprint y) [cf_ID y] cs [y] xs \<noteq> None"
      using Cons.prems(1) True by (intro link_rest_complete) auto
    then obtain r where r: "link_rest uni (cf_ContentFingerprint y) [cf_ID y] cs [y] xs = Some r" by auto
    moreover have "r \<noteq> []" using link_rest_sound [OF r] by auto
    ultimately show ?thesis using True fp y by simp
  next
    case False
    then have "subseq ys xs" using Cons.prems(2) y(1) by simp
    then have ih: "link_start uni c cs xs \<noteq> []" using Cons by simp
    show ?thesis
      using ih link_rest_sound [of uni "cf_ContentFingerprint x" "[cf_ID x]" cs "[x]" xs]
      by (auto split: option.splits)
  qed
qed (auto simp: list_all2_Cons1)

lemma clip_window_subset: "set (clip_window p window) \<subseteq> set window"
  by (auto simp: clip_window_def dest: in_set_takeD)

lemma clip_window_distinct: "distinct (map f window) \<Longrightarrow> distinct (map f (clip_window p window))"
  by (simp add: clip_window_def take_map [symmetric])

lemma clip_window_nonempty: "window \<noteq> [] \<Longrightarrow> clip_window p window \<noteq> []"
  by (simp add: clip_window_def)

lemma matchAllOf_iff:
  "cp_AllOf p \<noteq> [] \<Longrightarrow>
   (matchAllOf uni p window \<noteq> [] \<longleftrightarrow> (\<forall>c \<in> set (cp_AllOf p). \<exists>f \<in> set window. clauseMatches uni c f)) \<and>
   set (matchAllOf uni p window) \<subseteq> set window"
  using all_of_loop_props [of uni window "cp_AllOf p" "[]" "[]"] by (auto simp: matchAllOf_def)

lemma matchOrderedAllOf_iff:
  "cp_AllOf p \<noteq> [] \<Longrightarrow>
   matchOrderedAllOf uni p window \<noteq> [] \<longleftrightarrow> (\<exists>ys. chain_in (clauseMatches uni) (cp_AllOf p) window ys)"
  by (simp add: matchOrderedAllOf_def chain_in_def walk_result_iff(1))

lemma matchSequence_iff:
  "cp_Sequence p \<noteq> [] \<Longrightarrow>
   matchSequence uni p window \<noteq> [] \<longleftrightarrow> (\<exists>ys. chain_in (severity_step uni) (cp_Sequence p) window ys)"
  by (simp add: matchSequence_def chain_in_def walk_result_iff(1))

lemma matchFingerprintLink_iff:
  assumes "distinct (map cf_ID window)" and "cp_FingerprintLink p \<noteq> []"
  shows "matchFingerprintLink uni p window \<noteq> [] \<longleftrightarrow>
    (\<exists>ys. chain_in (clauseMatches uni) (cp_FingerprintLink p) window ys \<and> linked ys)"
proof -
  obtain c cs where c: "cp_FingerprintLink p = c # cs" using assms(2) by (cases "cp_FingerprintLink p") auto
  have "distinct (map cf_ID (rev window))" using assms(1) by (simp add: rev_map [symmetric])
  then show ?thesis
    using link_start_sound [of uni c cs "rev window"] link_start_complete [of "rev window" _ uni c cs] c
    unfolding matchFingerprintLink_def chain_in_def by (auto simp del: list_all2_Cons1)
qed

lemma subseq_set: "subseq xs ys \<Longrightarrow> set xs \<subseteq> set ys"
  by (induction rule: list_emb.induct) auto

lemma subseq_rev: "subseq xs ys \<Longrightarrow> subseq (rev xs) (rev ys)"
proof (induction rule: list_emb.induct)
  case (list_emb_Cons xs ys y)
  then show ?case by (simp add: subseq_rev_drop_many)
next
  case (list_emb_Cons2 x y xs ys)
  then show ?case by (simp add: list_emb_append_mono)
qed simp

lemma subseq_distinct_map: "subseq xs ys \<Longrightarrow> distinct (map f ys) \<Longrightarrow> distinct (map f xs)"
proof (induction rule: list_emb.induct)
  case (list_emb_Cons2 x y xs ys)
  then show ?case using subseq_set [of xs ys] by auto
qed auto

lemma Match_iff:
  assumes "distinct (map cf_ID window)"
  shows "Match uni p window \<noteq> [] \<longleftrightarrow> window \<noteq> [] \<and> pattern_holds uni p (clip_window p window)"
  using matchFingerprintLink_iff [OF clip_window_distinct [OF assms]]
  by (auto simp: Match_def pattern_holds_def Let_def matchAllOf_iff matchOrderedAllOf_iff matchSequence_iff)

lemma ordered_evidence:
  "cp_AllOf p \<noteq> [] \<Longrightarrow> matchOrderedAllOf uni p window \<noteq> [] \<Longrightarrow>
   chain_in (clauseMatches uni) (cp_AllOf p) window (matchOrderedAllOf uni p window)"
  "cp_Sequence p \<noteq> [] \<Longrightarrow> matchSequence uni p window \<noteq> [] \<Longrightarrow>
   chain_in (severity_step uni) (cp_Sequence p) window (matchSequence uni p window)"
  "matchFingerprintLink uni p window \<noteq> [] \<Longrightarrow>
   chain_in (clauseMatches uni) (cp_FingerprintLink p) window (matchFingerprintLink uni p window) \<and>
   linked (matchFingerprintLink uni p window)"
  using walk_result_iff(2) link_start_sound
  by (auto simp: matchOrderedAllOf_def matchSequence_def matchFingerprintLink_def chain_in_def
      split: list.splits)

lemma chain_in_subset: "chain_in ok cs window ys \<Longrightarrow> set ys \<subseteq> set window"
  using subseq_set by (fastforce simp: chain_in_def)

lemma chain_in_mono:
  assumes "chain_in ok cs window ys" and "subseq window window'"
  shows "chain_in ok cs window' ys"
proof -
  have "subseq (rev window) (rev window')" using assms(2) by (rule subseq_rev)
  then show ?thesis using assms(1) by (auto simp: chain_in_def intro: subseq_order.order_trans)
qed

lemma pattern_holds_mono:
  assumes "pattern_holds uni p window" and "subseq window window'"
  shows "pattern_holds uni p window'"
proof -
  have "set window \<subseteq> set window'" using assms(2) by (rule subseq_set)
  then show ?thesis
    using assms(1) unfolding pattern_holds_def
    by (simp split: if_splits; blast intro: chain_in_mono [OF _ assms(2)])
qed

subsection \<open>Properties\<close>

definition sample_finding :: "string \<Rightarrow> string \<Rightarrow> string \<Rightarrow> CorrelationFinding" where
  "sample_finding i axis fp = \<lparr>cf_ID = i, cf_RuleID = ''R-'' @ i, cf_Category = ''leak'', cf_Severity = ''high'',
     cf_DataAxis = [axis], cf_ToolCapabilityClass = '''', cf_ContentFingerprint = fp,
     cf_ExternalEndpoint = '''', cf_TurnID = 0\<rparr>"

definition sample_clause :: "string \<Rightarrow> PatternClause" where
  "sample_clause axis = \<lparr>pc_Axis = axis, pc_ToolCapabilityClass = '''', pc_WithRuleMatch = [],
     pc_MinSeverity = ''MEDIUM''\<rparr>"

definition sample_pattern :: CorrelationPattern where
  "sample_pattern = \<lparr>cp_ID = ''leak_chain'', cp_Description = '''', cp_WindowEvents = 4,
     cp_SeverityOnMatch = ''CRITICAL'', cp_AllOf = [], cp_Sequence = [],
     cp_FingerprintLink = [sample_clause ''sensitive_access'', sample_clause ''egress_external''],
     cp_Ordered = False\<rparr>"

definition sample_window :: "CorrelationFinding list" where
  "sample_window = [sample_finding ''3'' ''egress_external'' ''f1'',
     sample_finding ''2'' ''sensitive_access'' ''f2'', sample_finding ''1'' ''sensitive_access'' ''f1'']"

text \<open>
  C15.  A pattern fires exactly when its meaning holds.  On every window of findings with distinct
  identities, \<open>Match\<close> reports a match if and only if, within the newest \<open>WindowEvents\<close> findings,
  the declared attack shape exists: every clause satisfied (\<open>all_of\<close>), a chain of findings in
  arrival order (\<open>ordered\<close> and \<open>sequence\<close>), or such a chain of distinct findings with one common
  fingerprint (\<open>fingerprint_chain\<close>).  The greedy searches never miss a chain.
\<close>

theorem Match_iff_pattern_holds:
  assumes "distinct (map cf_ID window)"
  shows "Match uni p window \<noteq> [] \<longleftrightarrow> window \<noteq> [] \<and> pattern_holds uni p (clip_window p window)"
  using assms by (rule Match_iff)

theorem Match_iff_pattern_holds_witness:
  "distinct (map cf_ID sample_window) \<and> pattern_holds plain_map sample_pattern (clip_window sample_pattern sample_window)"
proof -
  have d: "distinct (map cf_ID sample_window)" and m: "Match plain_map sample_pattern sample_window \<noteq> []"
    by code_simp+
  show ?thesis using Match_iff_pattern_holds [OF d, of plain_map sample_pattern] d m by simp
qed

text \<open>
  A match is backed by evidence.  Every contributing finding is one of the newest
  \<open>WindowEvents\<close> findings of the window; those of an ordered, sequence or fingerprint match are, one
  per clause and in arrival order, findings that satisfy the clauses.
\<close>

theorem Match_evidence:
  assumes "Match uni p window \<noteq> []"
  shows "set (Match uni p window) \<subseteq> set (clip_window p window) \<and>
    (if cp_FingerprintLink p \<noteq> []
     then chain_in (clauseMatches uni) (cp_FingerprintLink p) (clip_window p window) (Match uni p window) \<and>
          linked (Match uni p window)
     else if cp_AllOf p \<noteq> []
     then cp_Ordered p \<longrightarrow>
          chain_in (clauseMatches uni) (cp_AllOf p) (clip_window p window) (Match uni p window)
     else chain_in (severity_step uni) (cp_Sequence p) (clip_window p window) (Match uni p window))"
proof -
  let ?w = "clip_window p window"
  have "set (Match uni p window) \<subseteq> set ?w"
    using assms matchAllOf_iff [of p uni ?w] chain_in_subset [OF ordered_evidence(1) [of p uni ?w]]
      chain_in_subset [OF ordered_evidence(2) [of p uni ?w]]
      chain_in_subset [OF conjunct1 [OF ordered_evidence(3) [of uni p ?w]]]
    by (simp add: Match_def Let_def split: if_splits)
  then show ?thesis
    using assms ordered_evidence(1,2) [of p uni ?w] ordered_evidence(3) [of uni p ?w]
    by (simp add: Match_def Let_def split: if_splits)
qed

theorem Match_evidence_witness:
  "map cf_ID (Match plain_map sample_pattern sample_window) = [''1'', ''3''] \<and>
   linked (Match plain_map sample_pattern sample_window)"
proof -
  have m: "Match plain_map sample_pattern sample_window \<noteq> []"
    and i: "map cf_ID (Match plain_map sample_pattern sample_window) = [''1'', ''3'']"
    by code_simp+
  show ?thesis using Match_evidence [OF m] i by (simp add: sample_pattern_def)
qed

text \<open>
  Noise does not hide an attack.  As long as the window does not overflow \<open>WindowEvents\<close>,
  interleaving further findings before, between or after those of a match never makes it disappear.
\<close>

theorem Match_noise_robust:
  assumes "Match uni p window \<noteq> []" and "subseq window window'" and "distinct (map cf_ID window')"
    and "int (length window') \<le> cp_WindowEvents p"
  shows "Match uni p window' \<noteq> []"
proof -
  have len: "length window \<le> length window'" using assms(2) by (rule list_emb_length)
  have "distinct (map cf_ID window)"
    using assms(2,3) by (rule subseq_distinct_map)
  then have "window \<noteq> []" "pattern_holds uni p (clip_window p window)"
    using Match_iff assms(1) by blast+
  moreover have "clip_window p window = window" "clip_window p window' = window'"
    using assms(4) len by (simp_all add: clip_window_def)
  ultimately show ?thesis
    using pattern_holds_mono [OF _ assms(2)] Match_iff [OF assms(3)] assms(2) by auto
qed

theorem Match_noise_robust_witness:
  "Match plain_map sample_pattern (sample_finding ''4'' ''ingress_untrusted'' ''f3'' # sample_window) \<noteq> []"
proof (rule Match_noise_robust)
  show "Match plain_map sample_pattern sample_window \<noteq> []"
    and "distinct (map cf_ID (sample_finding ''4'' ''ingress_untrusted'' ''f3'' # sample_window))"
    and "int (length (sample_finding ''4'' ''ingress_untrusted'' ''f3'' # sample_window))
      \<le> cp_WindowEvents sample_pattern"
    by code_simp+
  show "subseq sample_window (sample_finding ''4'' ''ingress_untrusted'' ''f3'' # sample_window)"
    by (rule list_emb_Cons) simp
qed

end
