(* ===== verification/Audit_ScanPersist.thy ===== *)
theory Audit_ScanPersist
  imports Go_Prelude "HOL-Library.Char_ord" "HOL-Library.List_Lexorder" "HOL-Library.Product_Lexorder"
begin

text \<open>
  The finding store behind the correlator, \<^verbatim>\<open>internal/audit/scan_persist.go\<close>: the tables
  \<open>scan_results\<close> and \<open>scan_findings\<close> as lists of rows, and the statements of \<open>Store\<close> on them.  A
  nullable column is an \<open>option\<close>; the column \<open>tags\<close> holds the list itself rather than its JSON text.
  SQLite's \<open>LOWER\<close> folds ASCII letters only and its \<open>TRIM\<close> removes blanks (0x20) only.

  A row carries the columns the correlator's queries read; the remaining columns of the two tables
  (title, location, line number, hashes, versions, the evidence summary and the like) are copied
  through by the inserts and selected by no query modelled here, so they are left out, together
  with the fields of \<open>Finding\<close>, \<open>ScanFindingMeta\<close> and \<open>ScanSummaryParams\<close> that feed them.
  \<open>sm_Timestamp\<close> is the RFC 3339 text the insert stores: that of the metadata's time, or of the
  current time when the former is zero.

  A database call can fail: \<open>fault\<close> says that a query or the summary insert fails, and the insert
  of findings fails at the row with index \<open>fail_at\<close>, after the earlier rows were written.
\<close>

record ScanRow =
  sr_ID :: string
  sr_ScanID :: string
  sr_Scanner :: string
  sr_RuleID :: "string option"
  sr_Category :: "string option"
  sr_Severity :: string
  sr_Tags :: "string list"
  sr_Timestamp :: string
  sr_SessionID :: "string option"
  sr_AgentID :: "string option"
  sr_AgentInstanceID :: "string option"
  sr_DataAxis :: "string option"
  sr_ToolCapabilityClass :: "string option"
  sr_ContentFingerprint :: "string option"
  sr_ExternalEndpoint :: "string option"
  sr_TurnID :: "int option"

record ScanSummaryParams =
  sp_ScanID :: string
  sp_Scanner :: string
  sp_Target :: string
  sp_FindingCount :: int
  sp_MaxSeverity :: string
  sp_Verdict :: string
  sp_SessionID :: string
  sp_AgentInstanceID :: string
  sp_AgentID :: string
  sp_RunID :: string
  sp_RequestID :: string
  sp_TraceID :: string

record ScanDB =
  scan_results :: "ScanSummaryParams list"
  scan_findings :: "ScanRow list"

record Finding =
  fi_ID :: string
  fi_FindingOccurrenceID :: string
  fi_Severity :: string
  fi_Title :: string
  fi_Description :: string
  fi_Scanner :: string
  fi_Tags :: "string list"
  fi_RuleID :: string
  fi_Category :: string
  fi_DataAxis :: "string list"
  fi_ToolCapabilityClass :: string
  fi_ContentFingerprint :: string
  fi_ExternalEndpoint :: string
  fi_TurnID :: "int option"

record ScanFindingMeta =
  sm_Timestamp :: string
  sm_RunID :: string
  sm_RequestID :: string
  sm_SessionID :: string
  sm_TraceID :: string
  sm_AgentID :: string
  sm_AgentInstanceID :: string

definition nullStr :: "string \<Rightarrow> string option" where
  "nullStr s = (if s = [] then None else Some s)"

definition coalesce :: "string option \<Rightarrow> string" where
  "coalesce c = (case c of None \<Rightarrow> [] | Some s \<Rightarrow> s)"

definition sql_lower :: "string \<Rightarrow> string" where
  "sql_lower s = map byte_lower s"

definition sql_trim :: "string \<Rightarrow> string" where
  "sql_trim s = trim_bytes '' '' s"

subsection \<open>Writing\<close>

definition InsertScanSummary :: "bool \<Rightarrow> ScanDB \<Rightarrow> ScanSummaryParams \<Rightarrow> ScanDB \<times> bool" where
  "InsertScanSummary fault db p =
     (if fault then (db, False) else (db\<lparr>scan_results := scan_results db @ [p]\<rparr>, True))"

text \<open>\<open>json\<close> is the JSON text of a list of strings; \<open>fresh\<close> a new UUID for the row with that index.\<close>

definition finding_row ::
  "(string list \<Rightarrow> string) \<Rightarrow> (nat \<Rightarrow> string) \<Rightarrow> string \<Rightarrow> ScanFindingMeta \<Rightarrow> nat \<Rightarrow> Finding \<Rightarrow> ScanRow" where
  "finding_row json fresh scanID meta i f =
     \<lparr>sr_ID = (if fi_FindingOccurrenceID f = [] then fresh i else fi_FindingOccurrenceID f),
      sr_ScanID = scanID, sr_Scanner = fi_Scanner f, sr_RuleID = nullStr (fi_RuleID f),
      sr_Category = nullStr (fi_Category f), sr_Severity = fi_Severity f, sr_Tags = fi_Tags f,
      sr_Timestamp = sm_Timestamp meta, sr_SessionID = nullStr (sm_SessionID meta),
      sr_AgentID = nullStr (sm_AgentID meta), sr_AgentInstanceID = nullStr (sm_AgentInstanceID meta),
      sr_DataAxis = (if fi_DataAxis f = [] then None else Some (json (fi_DataAxis f))),
      sr_ToolCapabilityClass = nullStr (fi_ToolCapabilityClass f),
      sr_ContentFingerprint = nullStr (fi_ContentFingerprint f),
      sr_ExternalEndpoint = nullStr (fi_ExternalEndpoint f), sr_TurnID = fi_TurnID f\<rparr>"

fun insert_rows ::
  "(string list \<Rightarrow> string) \<Rightarrow> (nat \<Rightarrow> string) \<Rightarrow> string \<Rightarrow> ScanFindingMeta \<Rightarrow> nat option \<Rightarrow> nat
     \<Rightarrow> Finding list \<Rightarrow> ScanDB \<Rightarrow> ScanDB \<times> bool" where
  "insert_rows json fresh scanID meta fail_at i [] db = (db, True)"
| "insert_rows json fresh scanID meta fail_at i (f # fs) db =
     (if fail_at = Some i then (db, False)
      else insert_rows json fresh scanID meta fail_at (Suc i) fs
             (db\<lparr>scan_findings := scan_findings db @ [finding_row json fresh scanID meta i f]\<rparr>))"

definition InsertScanFindings ::
  "(string list \<Rightarrow> string) \<Rightarrow> (nat \<Rightarrow> string) \<Rightarrow> nat option \<Rightarrow> ScanDB \<Rightarrow> string \<Rightarrow> Finding list
     \<Rightarrow> ScanFindingMeta \<Rightarrow> ScanDB \<times> bool" where
  "InsertScanFindings json fresh fail_at db scanID findings meta =
     (if findings = [] then (db, True) else insert_rows json fresh scanID meta fail_at 0 findings db)"

subsection \<open>Reading\<close>

definition correlationCandidateMultiplier :: int where
  "correlationCandidateMultiplier = 8"

text \<open>The identity predicate of both queries; \<^const>\<open>None\<close> when the partition is not identified.\<close>

definition correlationAgentPartitionSQL ::
  "string \<Rightarrow> string \<Rightarrow> string \<Rightarrow> (ScanRow \<Rightarrow> bool) option" where
  "correlationAgentPartitionSQL sessionID agentInstanceID agentID =
     (let sessionID = TrimSpace sessionID; agentInstanceID = TrimSpace agentInstanceID;
          agentID = TrimSpace agentID
      in if sessionID = [] \<or> (agentInstanceID = [] \<and> agentID = []) then None
         else if agentInstanceID \<noteq> [] \<and> agentID \<noteq> [] then
           Some (\<lambda>r. sr_SessionID r = Some sessionID \<and> sr_AgentInstanceID r = Some agentInstanceID \<and>
             sr_AgentID r = Some agentID)
         else if agentInstanceID \<noteq> [] then
           Some (\<lambda>r. sr_SessionID r = Some sessionID \<and> sr_AgentInstanceID r = Some agentInstanceID \<and>
             sql_trim (coalesce (sr_AgentID r)) = [])
         else
           Some (\<lambda>r. sr_SessionID r = Some sessionID \<and> sql_trim (coalesce (sr_AgentInstanceID r)) = [] \<and>
             sr_AgentID r = Some agentID))"

definition row_eligible :: "ScanRow \<Rightarrow> bool" where
  "row_eligible r \<longleftrightarrow> sql_lower (sr_Scanner r) \<noteq> ''correlator'' \<and>
     list_all (\<lambda>tag. sql_lower (sql_trim tag) \<noteq> ''detection-only'') (sr_Tags r)"

definition primitive_partition :: "ScanRow \<Rightarrow> string \<times> string \<times> string \<times> string" where
  "primitive_partition r =
     (let fp = sql_trim (coalesce (sr_ContentFingerprint r))
      in if fp = [] then (sr_ID r, [], [], [])
         else ([], sql_lower (sql_trim (coalesce (sr_RuleID r))),
               sql_lower (sql_trim (coalesce (sr_Category r))), sql_lower fp))"

text \<open>The rows of rank 1: in a newest-first list, those with no older row of the same partition.\<close>

fun keep_oldest :: "('r \<Rightarrow> 'k) \<Rightarrow> 'r list \<Rightarrow> 'r list" where
  "keep_oldest key [] = []"
| "keep_oldest key (r # rs) =
     (if list_ex (\<lambda>r'. key r' = key r) rs then keep_oldest key rs else r # keep_oldest key rs)"

definition newest_first :: "ScanRow list \<Rightarrow> ScanRow list" where
  "newest_first rows = rev (sort_key (\<lambda>r. (sr_Timestamp r, sr_ID r)) rows)"

definition ListRecentFindingsInSession ::
  "bool \<Rightarrow> ScanDB \<Rightarrow> string \<Rightarrow> string \<Rightarrow> string \<Rightarrow> int \<Rightarrow> ScanRow list option" where
  "ListRecentFindingsInSession fault db sessionID agentInstanceID agentID limit0 =
     (let limit = (if limit0 \<le> 0 then 20 else limit0)
      in case correlationAgentPartitionSQL sessionID agentInstanceID agentID of
           None \<Rightarrow> Some []
         | Some identityWhere \<Rightarrow>
             let candidateLimit = (if limit \<le> intMax div correlationCandidateMultiplier
                   then limit * correlationCandidateMultiplier else limit);
                 eligible = take (nat candidateLimit)
                   (newest_first (filter (\<lambda>r. identityWhere r \<and> row_eligible r) (scan_findings db)))
             in if fault then None
                else Some (take (nat limit) (keep_oldest primitive_partition eligible)))"

definition correlationLedgerBatchSize :: nat where
  "correlationLedgerBatchSize = 100"

text \<open>The normalised candidates in order, each with the trimmed text it stands for.\<close>

fun wanted_rules :: "unicode_map \<Rightarrow> (string \<times> string) list \<Rightarrow> string list \<Rightarrow> (string \<times> string) list" where
  "wanted_rules uni wanted [] = wanted"
| "wanted_rules uni wanted (ruleID # ids) =
     (let trimmed = TrimSpace ruleID; key = ToLower uni trimmed
      in if trimmed = [] then wanted_rules uni wanted ids
         else if map_of wanted key \<noteq> None then wanted_rules uni wanted ids
         else wanted_rules uni (wanted @ [(key, trimmed)]) ids)"

text \<open>One batch of the ledger query: the distinct matching rule identities in order.\<close>

definition fired_batch :: "(ScanRow \<Rightarrow> bool) \<Rightarrow> ScanRow list \<Rightarrow> string list \<Rightarrow> string list" where
  "fired_batch identityWhere rows batch =
     sort (remdups (map (\<lambda>r. sql_lower (sql_trim (coalesce (sr_RuleID r))))
       (filter (\<lambda>r. identityWhere r \<and> sql_lower (sql_trim (sr_Scanner r)) = ''correlator'' \<and>
          List.member batch (sql_lower (sql_trim (coalesce (sr_RuleID r))))) rows)))"

fun fired_loop ::
  "(ScanRow \<Rightarrow> bool) \<Rightarrow> ScanRow list \<Rightarrow> (string \<times> string) list \<Rightarrow> nat \<Rightarrow> string list \<Rightarrow> string list" where
  "fired_loop identityWhere rows wanted 0 keys = []"
| "fired_loop identityWhere rows wanted (Suc fuel) keys =
     (if keys = [] then []
      else List.map_filter (map_of wanted)
             (fired_batch identityWhere rows (take correlationLedgerBatchSize keys))
           @ fired_loop identityWhere rows wanted fuel (drop correlationLedgerBatchSize keys))"

definition ListFiredCorrelationRuleIDsInSession ::
  "unicode_map \<Rightarrow> bool \<Rightarrow> ScanDB \<Rightarrow> string \<Rightarrow> string \<Rightarrow> string \<Rightarrow> string list \<Rightarrow> string list option" where
  "ListFiredCorrelationRuleIDsInSession uni fault db sessionID agentInstanceID agentID candidates =
     (if candidates = [] then Some []
      else case correlationAgentPartitionSQL sessionID agentInstanceID agentID of
             None \<Rightarrow> Some []
           | Some identityWhere \<Rightarrow>
               let wanted = wanted_rules uni [] candidates; keys = map fst wanted
               in if keys \<noteq> [] \<and> fault then None
                  else Some (fired_loop identityWhere (scan_findings db) wanted (length keys) keys))"

end
