(* ===== verification/Guardrail_Session.thy ===== *)
theory Guardrail_Session
  imports Guardrail_Correlator Audit_ScanPersist
begin

text \<open>
  The session correlator, \<^verbatim>\<open>internal/guardrail/session_correlator.go\<close>: it reads the recent
  findings of one agent partition, evaluates the patterns and writes one synthetic finding per
  pattern, at most once per session.  The correlator reaches the store through the interface
  \<open>SessionFindingReader\<close> and \<open>ScanPersistence\<close>; here the operations of that interface are function
  arguments of \<open>RunForSession\<close>, collected in the locale \<open>finding_store\<close> with the laws the correlator
  relies on and interpreted on the audit store of \<^verbatim>\<open>Audit_ScanPersist\<close>.  The rows of the interface
  (\<open>SessionFindingRow\<close>) are those of the store, which \<^verbatim>\<open>internal/cli/correlator_wire.go\<close> copies
  field by field.
\<close>

record SessionCorrelator =
  sc_patterns :: "CorrelationPattern list"
  sc_windowLimit :: int

definition NewSessionCorrelator :: "CorrelationPattern list \<Rightarrow> SessionCorrelator" where
  "NewSessionCorrelator patterns =
     (let limit = foldl (\<lambda>limit p. if cp_WindowEvents p > limit then cp_WindowEvents p else limit) 0 patterns
      in \<lparr>sc_patterns = patterns, sc_windowLimit = (if limit \<le> 0 then 50 else limit)\<rparr>)"

record correlationAgentPartition =
  ap_sessionID :: string
  ap_agentInstanceID :: string
  ap_agentID :: string

definition newCorrelationAgentPartition ::
  "string \<Rightarrow> string \<Rightarrow> string \<Rightarrow> correlationAgentPartition \<times> bool" where
  "newCorrelationAgentPartition sessionID agentInstanceID agentID =
     (let p = \<lparr>ap_sessionID = TrimSpace sessionID, ap_agentInstanceID = TrimSpace agentInstanceID,
               ap_agentID = TrimSpace agentID\<rparr>
      in (p, ap_sessionID p \<noteq> [] \<and> (ap_agentInstanceID p \<noteq> [] \<or> ap_agentID p \<noteq> [])))"

definition partition_key :: "correlationAgentPartition \<Rightarrow> string" where
  "partition_key p = ap_sessionID p @ [CHR 0x00] @ ap_agentInstanceID p @ [CHR 0x00] @ ap_agentID p"

definition sessionCorrelatorPartitionLockStripes :: "32 word" where
  "sessionCorrelatorPartitionLockStripes = 64"

definition fnv_step :: "32 word \<Rightarrow> char \<Rightarrow> 32 word" where
  "fnv_step hash c = (Bit_Operations.xor hash (of_nat (byte_val c))) * 16777619"

definition correlationPartitionLockIndex :: "string \<Rightarrow> int" where
  "correlationPartitionLockIndex key =
     uint (foldl fnv_step 2166136261 key mod sessionCorrelatorPartitionLockStripes)"

definition partition_includes :: "correlationAgentPartition \<Rightarrow> ScanRow \<Rightarrow> bool" where
  "partition_includes p row =
     (let rowInstanceID = TrimSpace (coalesce (sr_AgentInstanceID row));
          rowAgentID = TrimSpace (coalesce (sr_AgentID row))
      in if ap_agentInstanceID p \<noteq> [] then
           if rowInstanceID \<noteq> ap_agentInstanceID p then False
           else if ap_agentID p \<noteq> [] then rowAgentID = ap_agentID p
           else rowAgentID = []
         else rowInstanceID = [] \<and> ap_agentID p \<noteq> [] \<and> rowAgentID = ap_agentID p)"

definition correlationInputEligible :: "ScanRow \<Rightarrow> bool" where
  "correlationInputEligible row =
     (if EqualFold_ascii (TrimSpace (sr_Scanner row)) ''correlator'' then False
      else if list_ex (\<lambda>tag. EqualFold_ascii (TrimSpace tag) ''detection-only'') (sr_Tags row) then False
      else True)"

definition correlationPrimitiveKey :: "unicode_map \<Rightarrow> ScanRow \<Rightarrow> string option" where
  "correlationPrimitiveKey uni row =
     (case sr_ContentFingerprint row of
        None \<Rightarrow> None
      | Some fp \<Rightarrow>
          let fingerprint = ToLower uni (TrimSpace fp)
          in if fingerprint = [] then None
             else let norm = (\<lambda>c. case c of None \<Rightarrow> [] | Some s \<Rightarrow> ToLower uni (TrimSpace s))
                  in Some (norm (sr_RuleID row) @ [CHR 0x00] @ norm (sr_Category row) @ [CHR 0x00] @ fingerprint))"

text \<open>The labels of a stored \<open>data_axis\<close> column.\<close>

definition parse_axes :: "string \<Rightarrow> string list" where
  "parse_axes s = filter (\<lambda>a. a \<noteq> [])
     (map (\<lambda>a. TrimSpace (trim_bytes [CHR 0x22] a)) (split_on CHR '','' (trim_bytes ([CHR ''['', CHR '']'', CHR 0x22]) s)))"

definition rowToCorrelationFinding :: "ScanRow \<Rightarrow> CorrelationFinding" where
  "rowToCorrelationFinding r =
     \<lparr>cf_ID = sr_ID r, cf_RuleID = coalesce (sr_RuleID r), cf_Category = coalesce (sr_Category r),
      cf_Severity = sr_Severity r,
      cf_DataAxis = (case sr_DataAxis r of
        None \<Rightarrow> [] | Some s \<Rightarrow> if s \<noteq> [] then parse_axes s else []),
      cf_ToolCapabilityClass = coalesce (sr_ToolCapabilityClass r),
      cf_ContentFingerprint = coalesce (sr_ContentFingerprint r),
      cf_ExternalEndpoint = coalesce (sr_ExternalEndpoint r),
      cf_TurnID = (case sr_TurnID r of None \<Rightarrow> 0 | Some i \<Rightarrow> i)\<rparr>"

text \<open>The deduplicating loop of \<open>RunForSession\<close> over the rows, oldest first.\<close>

fun window_loop ::
  "unicode_map \<Rightarrow> correlationAgentPartition \<Rightarrow> string list \<Rightarrow> ScanRow list \<Rightarrow> CorrelationFinding list" where
  "window_loop uni p seen [] = []"
| "window_loop uni p seen (r # rows) =
     (if \<not> partition_includes p r \<or> \<not> correlationInputEligible r then window_loop uni p seen rows
      else case correlationPrimitiveKey uni r of
             None \<Rightarrow> rowToCorrelationFinding r # window_loop uni p seen rows
           | Some key \<Rightarrow>
               if List.member seen key then window_loop uni p seen rows
               else rowToCorrelationFinding r # window_loop uni p (key # seen) rows)"

definition session_window ::
  "unicode_map \<Rightarrow> correlationAgentPartition \<Rightarrow> ScanRow list \<Rightarrow> CorrelationFinding list" where
  "session_window uni p rows = rev (window_loop uni p [] (rev rows))"

definition rule_key :: "unicode_map \<Rightarrow> string \<Rightarrow> string" where
  "rule_key uni ruleID = ToLower uni (TrimSpace ruleID)"

text \<open>The distinct candidate identities of the matches, and the matches left to schedule.\<close>

fun candidate_rules :: "unicode_map \<Rightarrow> string list \<Rightarrow> CorrelationMatch list \<Rightarrow> string list" where
  "candidate_rules uni seen [] = []"
| "candidate_rules uni seen (m # ms) =
     (let key = rule_key uni (SyntheticFindingRuleID uni m)
      in if List.member seen key then candidate_rules uni seen ms
         else SyntheticFindingRuleID uni m # candidate_rules uni (key # seen) ms)"

fun schedule_matches ::
  "unicode_map \<Rightarrow> string list \<Rightarrow> string list \<Rightarrow> CorrelationMatch list \<Rightarrow> CorrelationMatch list" where
  "schedule_matches uni persisted scheduled [] = []"
| "schedule_matches uni persisted scheduled (m # ms) =
     (let key = rule_key uni (SyntheticFindingRuleID uni m)
      in if List.member persisted key then schedule_matches uni persisted scheduled ms
         else if List.member scheduled key then schedule_matches uni persisted scheduled ms
         else m # schedule_matches uni persisted (key # scheduled) ms)"

text \<open>\<open>uuid8\<close> is the first eight characters of a new UUID.\<close>

definition syntheticFindingFromMatch ::
  "unicode_map \<Rightarrow> string \<Rightarrow> CorrelationMatch \<Rightarrow> Finding" where
  "syntheticFindingFromMatch uni uuid8 m =
     (let p = cm_Pattern m;
          desc = ''Correlation pattern '' @ cp_ID p @ '' matched on '' @ decimal (length (cm_Contributing m)) @
            '' contributing findings: '' @ join '', '' (map cf_ID (cm_Contributing m))
      in \<lparr>fi_ID = ''corr-'' @ cp_ID p @ ''-'' @ uuid8, fi_FindingOccurrenceID = [],
          fi_Severity = cp_SeverityOnMatch p, fi_Title = ''Correlation: '' @ cp_ID p,
          fi_Description = (if cp_Description p \<noteq> []
            then cp_Description p @ [CHR 0x0A, CHR 0x0A] @ desc else desc),
          fi_Scanner = ''correlator'', fi_Tags = [''correlation'', cp_ID p],
          fi_RuleID = SyntheticFindingRuleID uni m, fi_Category = ''correlation'', fi_DataAxis = [],
          fi_ToolCapabilityClass = [], fi_ContentFingerprint = [], fi_ExternalEndpoint = [],
          fi_TurnID = None\<rparr>)"

datatype corr_error =
  CorrReadWindow | CorrReadLedger | CorrInsertSummary | CorrInsertFindings

text \<open>
  \<open>RunForSession\<close> on a correlator that is not nil.  \<open>recent\<close>, \<open>fired\<close>, \<open>summary\<close> and \<open>persist\<close> are the
  operations of the store the caller passes; \<open>uuid8\<close> gives a new identity per finding and \<open>now\<close> is
  the time of the synthetic rows.  \<open>correlate\<close> is the method up to the synthetic findings, with no
  finding for each early return.
\<close>

definition correlate ::
  "unicode_map \<Rightarrow> (nat \<Rightarrow> string)
   \<Rightarrow> ('db \<Rightarrow> string \<Rightarrow> string \<Rightarrow> string \<Rightarrow> int \<Rightarrow> ScanRow list option)
   \<Rightarrow> ('db \<Rightarrow> string \<Rightarrow> string \<Rightarrow> string \<Rightarrow> string list \<Rightarrow> string list option)
   \<Rightarrow> SessionCorrelator \<Rightarrow> 'db \<Rightarrow> correlationAgentPartition \<Rightarrow> corr_error + Finding list" where
  "correlate uni uuid8 recent fired c db p =
     (case recent db (ap_sessionID p) (ap_agentInstanceID p) (ap_agentID p) (sc_windowLimit c) of
        None \<Rightarrow> Inl CorrReadWindow
      | Some rows \<Rightarrow>
          let window = session_window uni p rows; matches = Evaluate uni (sc_patterns c) window
          in if rows = [] \<or> window = [] \<or> matches = [] then Inr []
             else case fired db (ap_sessionID p) (ap_agentInstanceID p) (ap_agentID p)
                         (candidate_rules uni [] matches) of
               None \<Rightarrow> Inl CorrReadLedger
             | Some persistedIDs \<Rightarrow>
                 let todo = schedule_matches uni (map (rule_key uni) persistedIDs) [] matches
                 in Inr (map (\<lambda>(i, m). syntheticFindingFromMatch uni (uuid8 i) m) (enumerate 0 todo)))"

definition RunForSession ::
  "unicode_map \<Rightarrow> (nat \<Rightarrow> string) \<Rightarrow> string \<Rightarrow> string
   \<Rightarrow> ('db \<Rightarrow> string \<Rightarrow> string \<Rightarrow> string \<Rightarrow> int \<Rightarrow> ScanRow list option)
   \<Rightarrow> ('db \<Rightarrow> string \<Rightarrow> string \<Rightarrow> string \<Rightarrow> string list \<Rightarrow> string list option)
   \<Rightarrow> ('db \<Rightarrow> ScanSummaryParams \<Rightarrow> 'db \<times> bool)
   \<Rightarrow> ('db \<Rightarrow> string \<Rightarrow> Finding list \<Rightarrow> ScanFindingMeta \<Rightarrow> 'db \<times> bool)
   \<Rightarrow> SessionCorrelator \<Rightarrow> 'db \<Rightarrow> string \<Rightarrow> string \<Rightarrow> string \<Rightarrow> ScanFindingMeta
   \<Rightarrow> 'db \<times> corr_error option" where
  "RunForSession uni uuid8 scanID now recent fired summary persist c db sessionID agentInstanceID target meta =
     (if sc_patterns c = [] then (db, None)
      else case newCorrelationAgentPartition sessionID agentInstanceID (sm_AgentID meta) of (p, ok) \<Rightarrow>
        if \<not> ok then (db, None)
        else case correlate uni uuid8 recent fired c db p of
          Inl e \<Rightarrow> (db, Some e)
        | Inr synthetic \<Rightarrow>
            if synthetic = [] then (db, None)
            else case summary db \<lparr>sp_ScanID = scanID, sp_Scanner = ''correlator'', sp_Target = target,
                   sp_FindingCount = int (length synthetic), sp_MaxSeverity = ''CRITICAL'',
                   sp_Verdict = ''block'', sp_SessionID = ap_sessionID p,
                   sp_AgentInstanceID = ap_agentInstanceID p, sp_AgentID = ap_agentID p,
                   sp_RunID = sm_RunID meta, sp_RequestID = sm_RequestID meta,
                   sp_TraceID = sm_TraceID meta\<rparr> of
              (db1, False) \<Rightarrow> (db1, Some CorrInsertSummary)
            | (db1, True) \<Rightarrow>
                (case persist db1 scanID synthetic (meta\<lparr>sm_Timestamp := now\<rparr>) of
                   (db2, False) \<Rightarrow> (db2, Some CorrInsertFindings)
                 | (db2, True) \<Rightarrow> (db2, None)))"

subsection \<open>The window\<close>

definition row_keys :: "unicode_map \<Rightarrow> correlationAgentPartition \<Rightarrow> ScanRow list \<Rightarrow> string set" where
  "row_keys uni p rows = {k. \<exists>r \<in> set rows. partition_includes p r \<and> correlationInputEligible r \<and>
     correlationPrimitiveKey uni r = Some k}"

lemma window_loop_snoc:
  "window_loop uni p seen (rows @ [r]) = window_loop uni p seen rows @
     (if \<not> partition_includes p r \<or> \<not> correlationInputEligible r then []
      else case correlationPrimitiveKey uni r of
             None \<Rightarrow> [rowToCorrelationFinding r]
           | Some key \<Rightarrow> if key \<in> set seen \<or> key \<in> row_keys uni p rows then [] else [rowToCorrelationFinding r])"
proof (induction rows arbitrary: seen)
  case Nil
  then show ?case by (auto simp: row_keys_def split: option.splits)
next
  case (Cons x rows)
  show ?case
    by (auto simp: Cons.IH row_keys_def split: option.splits)
qed

text \<open>
  Replays do not disturb the window.  When a newer row repeats a primitive that the partition
  already holds (same rule, category and fingerprint up to case and surrounding blanks), or is not
  eligible at all, or belongs to another agent, the window the patterns see is exactly the window
  without it: a replay can neither duplicate nor reorder the steps of a chain.
\<close>

theorem replay_keeps_window:
  assumes "(\<exists>r \<in> set rows. partition_includes p r \<and> correlationInputEligible r \<and>
      correlationPrimitiveKey uni r = correlationPrimitiveKey uni r0 \<and> correlationPrimitiveKey uni r0 \<noteq> None)
    \<or> \<not> correlationInputEligible r0 \<or> \<not> partition_includes p r0"
  shows "session_window uni p (r0 # rows) = session_window uni p rows"
  using assms by (auto simp: session_window_def window_loop_snoc row_keys_def split: option.splits)

definition sample_row :: "string \<Rightarrow> string \<Rightarrow> ScanRow" where
  "sample_row i rule = \<lparr>sr_ID = i, sr_ScanID = ''scan'', sr_Scanner = ''hook'', sr_RuleID = Some rule,
     sr_Category = None, sr_Severity = ''HIGH'', sr_Tags = [], sr_Timestamp = i, sr_SessionID = Some ''s'',
     sr_AgentID = Some ''a'', sr_AgentInstanceID = Some ''i'', sr_DataAxis = None,
     sr_ToolCapabilityClass = None, sr_ContentFingerprint = Some ''f'', sr_ExternalEndpoint = None, sr_TurnID = None\<rparr>"

theorem replay_keeps_window_witness:
  "let p = \<lparr>ap_sessionID = ''s'', ap_agentInstanceID = ''i'', ap_agentID = ''a''\<rparr>
   in session_window plain_map p [sample_row ''2'' ''RULE'', sample_row ''1'' ''rule''] =
      session_window plain_map p [sample_row ''1'' ''rule'']"
proof -
  let ?p = "\<lparr>ap_sessionID = ''s'', ap_agentInstanceID = ''i'', ap_agentID = ''a''\<rparr>"
  have "partition_includes ?p (sample_row ''1'' ''rule'') \<and> correlationInputEligible (sample_row ''1'' ''rule'') \<and>
    correlationPrimitiveKey plain_map (sample_row ''1'' ''rule'') = correlationPrimitiveKey plain_map (sample_row ''2'' ''RULE'') \<and>
    correlationPrimitiveKey plain_map (sample_row ''2'' ''RULE'') \<noteq> None"
    by code_simp
  then show ?thesis
    using replay_keeps_window [of "[sample_row ''1'' ''rule'']" ?p plain_map "sample_row ''2'' ''RULE''"]
    by (simp add: Let_def)
qed

subsection \<open>What the correlator relies on\<close>

definition written_by :: "ScanFindingMeta \<Rightarrow> Finding \<Rightarrow> ScanRow \<Rightarrow> bool" where
  "written_by meta f r \<longleftrightarrow> sr_RuleID r = nullStr (fi_RuleID f) \<and> sr_Scanner r = fi_Scanner f \<and>
     sr_SessionID r = nullStr (sm_SessionID meta) \<and> sr_AgentID r = nullStr (sm_AgentID meta) \<and>
     sr_AgentInstanceID r = nullStr (sm_AgentInstanceID meta)"

definition firings :: "(ScanRow \<Rightarrow> bool) \<Rightarrow> (string \<Rightarrow> string) \<Rightarrow> ScanRow list \<Rightarrow> string \<Rightarrow> nat" where
  "firings here norm rows k = length (filter (\<lambda>r. here r \<and> sr_Scanner r = ''correlator'' \<and>
     norm (coalesce (sr_RuleID r)) = k) rows)"

definition plain_rule :: "unicode_map \<Rightarrow> (string \<Rightarrow> string) \<Rightarrow> string \<Rightarrow> bool" where
  "plain_rule uni norm x \<longleftrightarrow> TrimSpace x \<noteq> [] \<and> norm x = rule_key uni x"

lemma coalesce_nullStr [simp]: "coalesce (nullStr s) = s"
  by (simp add: coalesce_def nullStr_def)

lemma filter_list_all2:
  assumes "list_all2 R xs ys" and "\<And>x y. R x y \<Longrightarrow> Q y \<Longrightarrow> P x"
  shows "length (filter Q ys) \<le> length (filter P xs)"
  using assms(1) by (induction rule: list_all2_induct) (auto simp: assms(2))

lemma list_all2_pre: "list_all2 R xs ys \<Longrightarrow> y \<in> set ys \<Longrightarrow> \<exists>x \<in> set xs. R x y"
  by (induction rule: list_all2_induct) auto

lemma distinct_map_filter_le: "distinct (map g xs) \<Longrightarrow> length (filter (\<lambda>x. g x = k) xs) \<le> 1"
proof (induction xs)
  case (Cons x xs)
  have "g x = k \<Longrightarrow> filter (\<lambda>x. g x = k) xs = []"
    using Cons.prems by (simp add: filter_empty_conv) (metis image_eqI)
  then show ?case using Cons by auto
qed simp

lemma schedule_matches_props:
  "set (schedule_matches uni persisted scheduled ms) \<subseteq> set ms"
  "m \<in> set (schedule_matches uni persisted scheduled ms) \<Longrightarrow>
     rule_key uni (SyntheticFindingRuleID uni m) \<notin> set persisted \<union> set scheduled"
  "distinct (map (\<lambda>m. rule_key uni (SyntheticFindingRuleID uni m)) (schedule_matches uni persisted scheduled ms))"
proof -
  show keys: "m \<in> set (schedule_matches uni persisted scheduled ms) \<Longrightarrow>
     rule_key uni (SyntheticFindingRuleID uni m) \<notin> set persisted \<union> set scheduled" for m scheduled ms
  proof (induction ms arbitrary: scheduled)
    case (Cons m' ms)
    then show ?case
      using Cons.IH [of scheduled] Cons.IH [of "rule_key uni (SyntheticFindingRuleID uni m') # scheduled"]
      by (auto simp: Let_def split: if_splits)
  qed simp
  show "set (schedule_matches uni persisted scheduled ms) \<subseteq> set ms"
    by (induction ms arbitrary: scheduled) (auto simp: Let_def split: if_splits)
  show "distinct (map (\<lambda>m. rule_key uni (SyntheticFindingRuleID uni m)) (schedule_matches uni persisted scheduled ms))"
  proof (induction ms arbitrary: scheduled)
    case (Cons m ms)
    have "m' \<in> set (schedule_matches uni persisted (rule_key uni (SyntheticFindingRuleID uni m) # scheduled) ms)
        \<Longrightarrow> rule_key uni (SyntheticFindingRuleID uni m') \<noteq> rule_key uni (SyntheticFindingRuleID uni m)" for m'
      using keys by fastforce
    then have "rule_key uni (SyntheticFindingRuleID uni m) \<notin> (\<lambda>m. rule_key uni (SyntheticFindingRuleID uni m)) `
        set (schedule_matches uni persisted (rule_key uni (SyntheticFindingRuleID uni m) # scheduled) ms)"
      by (metis imageE)
    then show ?case using Cons.IH by (simp add: Let_def)
  qed simp
qed

lemma candidate_rules_cover:
  "m \<in> set ms \<Longrightarrow> rule_key uni (SyntheticFindingRuleID uni m) \<in> set seen \<or>
     (\<exists>x \<in> set (candidate_rules uni seen ms). rule_key uni x = rule_key uni (SyntheticFindingRuleID uni m))"
proof (induction ms arbitrary: seen)
  case (Cons m' ms)
  show ?case
  proof (cases "m = m'")
    case True
    then show ?thesis by (simp add: Let_def)
  next
    case False
    then have "m \<in> set ms" using Cons.prems by simp
    from Cons.IH [OF this, of seen] Cons.IH [OF this, of "rule_key uni (SyntheticFindingRuleID uni m') # seen"]
    show ?thesis by (auto simp: Let_def)
  qed
qed simp

lemma candidate_rules_from:
  "x \<in> set (candidate_rules uni seen ms) \<Longrightarrow> \<exists>m \<in> set ms. x = SyntheticFindingRuleID uni m"
  by (induction ms arbitrary: seen) (auto simp: Let_def split: if_splits)

lemma synthetic_rules:
  assumes "f \<in> set (map (\<lambda>(i, m). syntheticFindingFromMatch uni (uuid8 i) m) (enumerate 0 todo))"
  shows "\<exists>m \<in> set todo. fi_RuleID f = SyntheticFindingRuleID uni m"
proof -
  obtain i m where "(i, m) \<in> set (enumerate 0 todo)" "f = syntheticFindingFromMatch uni (uuid8 i) m"
    using assms by auto
  then show ?thesis by (auto simp: in_set_enumerate_eq syntheticFindingFromMatch_def Let_def)
qed

lemma Evaluate_patterns: "m \<in> set (Evaluate uni patterns window) \<Longrightarrow> cm_Pattern m \<in> set patterns"
  by (auto simp: Evaluate_def Let_def split: if_splits)

lemma correlate_InrE:
  assumes "correlate uni uuid8 recent fired c db p = Inr fs"
  shows "fs = [] \<or> (\<exists>matches persisted.
    fired db (ap_sessionID p) (ap_agentInstanceID p) (ap_agentID p) (candidate_rules uni [] matches) = Some persisted \<and>
    (\<forall>m \<in> set matches. cm_Pattern m \<in> set (sc_patterns c)) \<and>
    fs = map (\<lambda>(i, m). syntheticFindingFromMatch uni (uuid8 i) m)
      (enumerate 0 (schedule_matches uni (map (rule_key uni) persisted) [] matches)))"
  using assms Evaluate_patterns unfolding correlate_def Let_def
  by (auto split: option.splits if_splits) blast

text \<open>
  The laws of the finding store.  Both queries look at the rows of their partition only; the ledger
  query finds every correlator row whose normalised rule is a candidate; a summary adds no
  finding; an insert appends rows for a prefix of the findings (all of them if it succeeds); and a
  row belongs to a partition only if the identity it was written under trims to it.
\<close>

locale finding_store =
  fixes uni :: unicode_map
    and rows_of :: "'db \<Rightarrow> ScanRow list"
    and in_partition :: "string \<Rightarrow> string \<Rightarrow> string \<Rightarrow> ScanRow \<Rightarrow> bool"
    and norm :: "string \<Rightarrow> string"
    and recent :: "'db \<Rightarrow> string \<Rightarrow> string \<Rightarrow> string \<Rightarrow> int \<Rightarrow> ScanRow list option"
    and fired :: "'db \<Rightarrow> string \<Rightarrow> string \<Rightarrow> string \<Rightarrow> string list \<Rightarrow> string list option"
    and summary :: "'db \<Rightarrow> ScanSummaryParams \<Rightarrow> 'db \<times> bool"
    and persist :: "'db \<Rightarrow> string \<Rightarrow> Finding list \<Rightarrow> ScanFindingMeta \<Rightarrow> 'db \<times> bool"
  assumes recent_local: "filter (in_partition s i a) (rows_of db) = filter (in_partition s i a) (rows_of db') \<Longrightarrow>
      recent db s i a n = recent db' s i a n"
    and fired_local: "filter (in_partition s i a) (rows_of db) = filter (in_partition s i a) (rows_of db') \<Longrightarrow>
      fired db s i a cs = fired db' s i a cs"
    and fired_complete: "fired db s i a cs = Some ids \<Longrightarrow> x \<in> set cs \<Longrightarrow> TrimSpace x \<noteq> [] \<Longrightarrow>
      r \<in> set (rows_of db) \<Longrightarrow> in_partition s i a r \<Longrightarrow> sr_Scanner r = ''correlator'' \<Longrightarrow>
      norm (coalesce (sr_RuleID r)) = rule_key uni x \<Longrightarrow> rule_key uni x \<in> rule_key uni ` set ids"
    and summary_rows: "rows_of (fst (summary db q)) = rows_of db"
    and persist_rows: "\<exists>rows. rows_of (fst (persist db scan fs meta)) = rows_of db @ rows \<and>
      length rows \<le> length fs \<and> list_all2 (written_by meta) (take (length rows) fs) rows"
    and partition_of_row: "in_partition s i a r \<Longrightarrow> written_by meta f r \<Longrightarrow>
      TrimSpace (sm_SessionID meta) = TrimSpace s \<and> TrimSpace (sm_AgentInstanceID meta) = TrimSpace i \<and>
      TrimSpace (sm_AgentID meta) = TrimSpace a"
begin

lemma correlate_local:
  assumes "filter (in_partition (ap_sessionID p) (ap_agentInstanceID p) (ap_agentID p)) (rows_of db) =
    filter (in_partition (ap_sessionID p) (ap_agentInstanceID p) (ap_agentID p)) (rows_of db')"
  shows "correlate uni uuid8 recent fired c db p = correlate uni uuid8 recent fired c db' p"
  unfolding correlate_def recent_local [OF assms] fired_local [OF assms] by (rule refl)

text \<open>A finding the correlator is about to write has not been written in its partition before.\<close>

lemma correlate_fresh:
  assumes "correlate uni uuid8 recent fired c db p = Inr fs"
    and ids: "\<And>m. cm_Pattern m \<in> set (sc_patterns c) \<Longrightarrow> plain_rule uni norm (SyntheticFindingRuleID uni m)"
    and f: "f \<in> set fs" and r: "r \<in> set (rows_of db)" "in_partition (ap_sessionID p) (ap_agentInstanceID p) (ap_agentID p) r"
      "sr_Scanner r = ''correlator''"
  shows "norm (coalesce (sr_RuleID r)) \<noteq> norm (fi_RuleID f)"
proof
  assume eq: "norm (coalesce (sr_RuleID r)) = norm (fi_RuleID f)"
  obtain matches persisted where fd: "fired db (ap_sessionID p) (ap_agentInstanceID p) (ap_agentID p)
      (candidate_rules uni [] matches) = Some persisted"
    and mt: "\<forall>m \<in> set matches. cm_Pattern m \<in> set (sc_patterns c)"
    and fs: "fs = map (\<lambda>(i, m). syntheticFindingFromMatch uni (uuid8 i) m)
      (enumerate 0 (schedule_matches uni (map (rule_key uni) persisted) [] matches))"
    using correlate_InrE [OF assms(1)] f by (metis empty_iff empty_set)
  obtain m where m: "m \<in> set (schedule_matches uni (map (rule_key uni) persisted) [] matches)"
    and fm: "fi_RuleID f = SyntheticFindingRuleID uni m"
    using f synthetic_rules unfolding fs by blast
  have mm: "m \<in> set matches" and new: "rule_key uni (SyntheticFindingRuleID uni m) \<notin> rule_key uni ` set persisted"
    using subsetD [OF schedule_matches_props(1) m] schedule_matches_props(2) [OF m] by auto
  obtain x where x: "x \<in> set (candidate_rules uni [] matches)" "rule_key uni x = rule_key uni (SyntheticFindingRuleID uni m)"
    using candidate_rules_cover [OF mm, of uni "[]"] by auto
  obtain m' where m': "m' \<in> set matches" "x = SyntheticFindingRuleID uni m'"
    using candidate_rules_from [OF x(1)] by blast
  have "TrimSpace x \<noteq> []" using ids [of m'] mt m' by (auto simp: plain_rule_def)
  moreover have "norm (coalesce (sr_RuleID r)) = rule_key uni x"
    using eq fm ids [of m] mt mm x(2) by (auto simp: plain_rule_def)
  ultimately have "rule_key uni x \<in> rule_key uni ` set persisted"
    using fired_complete [OF fd x(1)] r by blast
  then show False using new x(2) by simp
qed

lemma correlate_distinct:
  assumes "correlate uni uuid8 recent fired c db p = Inr fs"
    and ids: "\<And>m. cm_Pattern m \<in> set (sc_patterns c) \<Longrightarrow> plain_rule uni norm (SyntheticFindingRuleID uni m)"
  shows "distinct (map (\<lambda>f. norm (fi_RuleID f)) fs)"
proof (cases "fs = []")
  case False
  then obtain matches persisted where mt: "\<forall>m \<in> set matches. cm_Pattern m \<in> set (sc_patterns c)"
    and fs: "fs = map (\<lambda>(i, m). syntheticFindingFromMatch uni (uuid8 i) m)
      (enumerate 0 (schedule_matches uni (map (rule_key uni) persisted) [] matches))"
    using correlate_InrE [OF assms(1)] by metis
  let ?todo = "schedule_matches uni (map (rule_key uni) persisted) [] matches"
  have "map (\<lambda>f. norm (fi_RuleID f)) fs = map (\<lambda>m. norm (SyntheticFindingRuleID uni m)) ?todo"
    unfolding fs by (rule nth_equalityI) (auto simp: nth_enumerate_eq syntheticFindingFromMatch_def Let_def)
  also have "\<dots> = map (\<lambda>m. rule_key uni (SyntheticFindingRuleID uni m)) ?todo"
    using ids mt schedule_matches_props(1) [of uni "map (rule_key uni) persisted" "[]" matches]
    by (intro map_cong) (auto simp: plain_rule_def)
  finally show ?thesis using schedule_matches_props(3) by metis
qed simp

lemma run_effect:
  assumes run: "RunForSession uni uuid8 scanID now recent fired summary persist c db
      sessionID agentInstanceID target meta = (db', e)"
  shows "rows_of db' = rows_of db \<or> (\<exists>fs rows.
    snd (newCorrelationAgentPartition sessionID agentInstanceID (sm_AgentID meta)) \<and>
    correlate uni uuid8 recent fired c db
      (fst (newCorrelationAgentPartition sessionID agentInstanceID (sm_AgentID meta))) = Inr fs \<and>
    rows_of db' = rows_of db @ rows \<and>
    list_all2 (written_by (meta\<lparr>sm_Timestamp := now\<rparr>)) (take (length rows) fs) rows)"
proof -
  obtain p ok where p: "newCorrelationAgentPartition sessionID agentInstanceID (sm_AgentID meta) = (p, ok)"
    by fastforce
  show ?thesis
  proof (cases "sc_patterns c = [] \<or> \<not> ok")
    case True
    then show ?thesis using run p by (simp add: RunForSession_def split: if_splits)
  next
    case False
    show ?thesis
    proof (cases "correlate uni uuid8 recent fired c db p")
      case (Inl x)
      then show ?thesis using run p False by (auto simp: RunForSession_def)
    next
      case (Inr fs)
      define q where "q = \<lparr>sp_ScanID = scanID, sp_Scanner = ''correlator'', sp_Target = target,
        sp_FindingCount = int (length fs), sp_MaxSeverity = ''CRITICAL'',
        sp_Verdict = ''block'', sp_SessionID = ap_sessionID p,
        sp_AgentInstanceID = ap_agentInstanceID p, sp_AgentID = ap_agentID p,
        sp_RunID = sm_RunID meta, sp_RequestID = sm_RequestID meta, sp_TraceID = sm_TraceID meta\<rparr>"
      obtain db1 b1 where s: "summary db q = (db1, b1)" by fastforce
      obtain db2 b2 where w: "persist db1 scanID fs (meta\<lparr>sm_Timestamp := now\<rparr>) = (db2, b2)" by fastforce
      have "db' = (if fs = [] then db else if \<not> b1 then db1 else db2)"
        using run p False Inr s w by (auto simp: RunForSession_def q_def [symmetric] split: bool.splits)
      then show ?thesis
        using summary_rows [of db q] persist_rows [of db1 scanID fs "meta\<lparr>sm_Timestamp := now\<rparr>"] s w Inr p False
        by (auto split: if_splits)
    qed
  qed
qed

lemma run_at_most_once:
  assumes once: "firings (in_partition s i a) norm (rows_of db) k \<le> 1"
    and part: "TrimSpace s = s" "TrimSpace i = i" "TrimSpace a = a"
    and ids: "\<And>m. cm_Pattern m \<in> set (sc_patterns c) \<Longrightarrow> plain_rule uni norm (SyntheticFindingRuleID uni m)"
    and run: "RunForSession uni uuid8 scanID now recent fired summary persist c db
      (sm_SessionID meta) (sm_AgentInstanceID meta) target meta = (db', e)"
  shows "firings (in_partition s i a) norm (rows_of db') k \<le> 1"
proof -
  let ?p = "fst (newCorrelationAgentPartition (sm_SessionID meta) (sm_AgentInstanceID meta) (sm_AgentID meta))"
  let ?meta = "meta\<lparr>sm_Timestamp := now\<rparr>"
  consider (same) "rows_of db' = rows_of db"
    | (wrote) fs rows where "correlate uni uuid8 recent fired c db ?p = Inr fs"
        "rows_of db' = rows_of db @ rows" "list_all2 (written_by ?meta) (take (length rows) fs) rows"
    using run_effect [OF run] by blast
  then show ?thesis
  proof cases
    case same
    then show ?thesis using once by simp
  next
    case wrote
    let ?P = "\<lambda>r. in_partition s i a r \<and> sr_Scanner r = ''correlator'' \<and> norm (coalesce (sr_RuleID r)) = k"
    show ?thesis
    proof (cases "filter ?P rows = []")
      case True
      then show ?thesis using once wrote(2) by (simp add: firings_def)
    next
      case False
      then obtain r where r: "r \<in> set rows" "?P r" by (auto simp: filter_empty_conv)
      then obtain f where f: "f \<in> set fs" "written_by ?meta f r"
        using list_all2_pre [OF wrote(3)] by (meson in_set_takeD)
      have p: "ap_sessionID ?p = s" "ap_agentInstanceID ?p = i" "ap_agentID ?p = a"
        using partition_of_row [of s i a r ?meta f] r f part
        by (auto simp: newCorrelationAgentPartition_def Let_def)
      have fk: "norm (fi_RuleID f) = k" using f r by (auto simp: written_by_def)
      have "filter ?P (rows_of db) = []"
        using correlate_fresh [OF wrote(1) ids f(1)] p fk by (auto simp: filter_empty_conv)
      moreover have "length (filter ?P rows) \<le> length (filter (\<lambda>f. norm (fi_RuleID f) = k) (take (length rows) fs))"
        using wrote(3) by (rule filter_list_all2) (auto simp: written_by_def)
      moreover have "\<dots> \<le> 1"
        using correlate_distinct [OF wrote(1) ids] by (intro distinct_map_filter_le) (simp add: take_map [symmetric])
      ultimately show ?thesis using wrote(2) by (simp add: firings_def)
    qed
  qed
qed

end

end
