(* ===== verification/Audit_FindingStore.thy ===== *)
theory Audit_FindingStore
  imports Guardrail_Session
begin

text \<open>
  The audit store keeps the laws of \<open>finding_store\<close>, so the correlator's guarantees hold on it: at
  most one synthetic finding per pattern and agent partition, and isolation of partitions.
\<close>

subsection \<open>Printable identities\<close>

text \<open>Identities of printable ASCII characters other than the blank: no trimming or folding differs.\<close>

definition printable :: "string \<Rightarrow> bool" where
  "printable s = list_all (\<lambda>c. 32 < byte_val c \<and> byte_val c < 127) s"

lemma space_encodings_not_printable:
  "e \<in> set space_encodings \<Longrightarrow> c \<in> set e \<Longrightarrow> \<not> (32 < byte_val c \<and> byte_val c < 127)"
proof -
  have "list_all (list_all (\<lambda>c. \<not> (32 < byte_val c \<and> byte_val c < 127))) space_encodings"
    by code_simp
  then show "e \<in> set space_encodings \<Longrightarrow> c \<in> set e \<Longrightarrow> \<not> (32 < byte_val c \<and> byte_val c < 127)"
    by (auto simp: list_all_iff)
qed

lemma TrimSpace_printable: "printable s \<Longrightarrow> TrimSpace s = s"
proof -
  assume s: "printable s"
  have no: "\<not> prefix e x" if "e \<in> set es" "e \<noteq> []" "set x \<subseteq> set s"
    "\<And>e c. e \<in> set es \<Longrightarrow> c \<in> set e \<Longrightarrow> \<not> (32 < byte_val c \<and> byte_val c < 127)" for e es x
  proof
    assume "prefix e x"
    then have "hd e \<in> set x" using that(2) by (cases e) (auto simp: prefix_def)
    then show False using that(4) [OF that(1), of "hd e"] that(2,3) s by (auto simp: printable_def list_all_iff)
  qed
  have "trim_prefixes space_encodings s = s"
    by (rule trim_prefixes_id, rule no [of _ space_encodings]) (use space_encodings_not_printable in auto)
  moreover have "trim_prefixes (map rev space_encodings) (rev s) = rev s"
    by (rule trim_prefixes_id, rule no [of _ "map rev space_encodings"])
       (use space_encodings_not_printable in auto)
  ultimately show ?thesis by (simp add: TrimSpace_def)
qed

lemma sql_trim_printable: "printable s \<Longrightarrow> sql_trim s = s"
proof -
  assume s: "printable s"
  have "byte_val CHR '' '' = 32" by (simp add: byte_val_def)
  then have no: "dropWhile (\<lambda>c. List.member '' '' c) x = x" if "set x \<subseteq> set s" for x
    using s that by (cases x) (auto simp: printable_def list_all_iff)
  show ?thesis using no [of s] no [of "rev s"] by (simp add: sql_trim_def trim_bytes_def Let_def)
qed

lemma printable_ascii: "printable s \<Longrightarrow> is_ascii s"
  by (auto simp: printable_def is_ascii_def list_all_iff)

lemma printable_rule: "printable s \<Longrightarrow> s \<noteq> [] \<Longrightarrow> plain_rule uni (\<lambda>x. sql_lower (sql_trim x)) s"
  by (simp add: plain_rule_def TrimSpace_printable sql_trim_printable rule_key_def ToLower_def
      printable_ascii sql_lower_def)

lemma printable_append: "printable (s @ t) = (printable s \<and> printable t)"
  by (simp add: printable_def)

lemma byte_upper_printable:
  "32 < byte_val c \<Longrightarrow> byte_val c < 127 \<Longrightarrow> 32 < byte_val (byte_upper c) \<and> byte_val (byte_upper c) < 127"
  by (auto simp: byte_upper_def byte_val_def)

lemma printable_map: "printable s \<Longrightarrow> (\<And>c. 32 < byte_val c \<and> byte_val c < 127 \<Longrightarrow>
    32 < byte_val (f c) \<and> byte_val (f c) < 127) \<Longrightarrow> printable (map f s)"
  by (simp add: printable_def list_all_iff)

lemma printable_CORR: "printable ''CORR-''"
  by code_simp

lemma synthetic_rule_printable:
  assumes "printable (cp_ID (cm_Pattern m))"
  shows "printable (SyntheticFindingRuleID uni m)"
proof -
  have "byte_val CHR ''-'' = 45" by code_simp
  then have r: "printable (replace_byte CHR ''_'' CHR ''-'' (cp_ID (cm_Pattern m)))"
    unfolding replace_byte_def using assms by (intro printable_map) (simp_all del: char_of_eq_iff)
  have "printable (ToUpper uni (replace_byte CHR ''_'' CHR ''-'' (cp_ID (cm_Pattern m))))"
    unfolding ToUpper_def using r byte_upper_printable
    by (simp only: printable_ascii [OF r] if_True) (intro printable_map, auto)
  then show ?thesis by (simp only: SyntheticFindingRuleID_def printable_append printable_CORR)
qed

lemma trim_bytes_empty: "trim_bytes cs x = [] \<Longrightarrow> \<forall>c \<in> set x. c \<in> set cs"
proof -
  assume "trim_bytes cs x = []"
  then have "\<forall>c \<in> set (dropWhile (\<lambda>c. c \<in> set cs) x). c \<in> set cs"
    by (simp only: trim_bytes_def Let_def rev_is_Nil_conv dropWhile_eq_Nil_conv set_rev List.member_iff)
  then have "dropWhile (\<lambda>c. c \<in> set cs) x = []"
    by (metis hd_dropWhile list.set_sel(1))
  then show ?thesis by (simp only: dropWhile_eq_Nil_conv)
qed

lemma sql_trim_blank: "sql_trim x = [] \<Longrightarrow> TrimSpace x = []"
proof -
  assume "sql_trim x = []"
  then have "\<forall>c \<in> set x. c \<in> set '' ''" unfolding sql_trim_def by (rule trim_bytes_empty)
  then have "trim_prefixes space_encodings x = []"
  proof (induction x)
    case Nil
    then show ?case using suffix_trim_prefixes [of space_encodings "[]"] by simp
  next
    case (Cons c x)
    then have "c = CHR '' ''" by (simp only: list.set insert_iff empty_iff simp_thms ball_simps)
    then have "find (\<lambda>e. e \<noteq> [] \<and> prefix e (c # x)) space_encodings = Some [CHR '' '']"
      by (simp add: space_encodings_def)
    then show ?case using Cons by (subst trim_prefixes.simps) simp
  qed
  then show ?thesis
    using suffix_trim_prefixes [of "map rev space_encodings" "[]"] by (simp add: TrimSpace_def)
qed

subsection \<open>The queries\<close>

definition audit_partition :: "string \<Rightarrow> string \<Rightarrow> string \<Rightarrow> ScanRow \<Rightarrow> bool" where
  "audit_partition s i a r =
     (case correlationAgentPartitionSQL s i a of None \<Rightarrow> False | Some identityWhere \<Rightarrow> identityWhere r)"

definition audit_norm :: "string \<Rightarrow> string" where
  "audit_norm x = sql_lower (sql_trim x)"

lemma recent_eq:
  "ListRecentFindingsInSession fault db s i a n =
     (if correlationAgentPartitionSQL s i a = None then Some []
      else if fault then None
      else let limit = (if n \<le> 0 then 20 else n);
               candidateLimit = (if limit \<le> intMax div correlationCandidateMultiplier
                 then limit * correlationCandidateMultiplier else limit)
           in Some (take (nat limit) (keep_oldest primitive_partition (take (nat candidateLimit)
                (newest_first (filter row_eligible (filter (audit_partition s i a) (scan_findings db))))))))"
  by (auto simp: ListRecentFindingsInSession_def audit_partition_def Let_def conj_commute
      split: option.splits)

lemma fired_batch_eq:
  "fired_batch w rows batch = fired_batch (\<lambda>r. True) (filter w rows) batch"
  by (simp add: fired_batch_def conj_commute conj_left_commute)

lemma fired_loop_eq:
  "fired_loop w rows wanted fuel keys = fired_loop (\<lambda>r. True) (filter w rows) wanted fuel keys"
  by (induction fuel arbitrary: keys) (simp_all add: fired_batch_eq [of w rows])

lemma fired_batch_mem:
  "k \<in> set batch \<Longrightarrow> r \<in> set rows \<Longrightarrow> w r \<Longrightarrow> audit_norm (sr_Scanner r) = ''correlator'' \<Longrightarrow>
   audit_norm (coalesce (sr_RuleID r)) = k \<Longrightarrow> k \<in> set (fired_batch w rows batch)"
  by (auto simp: fired_batch_def audit_norm_def)

lemma fired_loop_mem:
  assumes "length keys \<le> fuel" and "k \<in> set keys" and "r \<in> set rows" and "w r"
    and "audit_norm (sr_Scanner r) = ''correlator''" and "audit_norm (coalesce (sr_RuleID r)) = k"
    and "map_of wanted k = Some x"
  shows "x \<in> set (fired_loop w rows wanted fuel keys)"
  using assms
proof (induction fuel arbitrary: keys)
  case (Suc fuel)
  let ?b = "take correlationLedgerBatchSize keys" and ?d = "drop correlationLedgerBatchSize keys"
  have ne: "keys \<noteq> []" using Suc.prems by auto
  have len: "length ?d \<le> fuel" using Suc.prems(1) ne by (simp add: correlationLedgerBatchSize_def)
  have "k \<in> set ?b \<or> k \<in> set ?d"
    using Suc.prems(2) by (metis Un_iff append_take_drop_id set_append)
  then show ?case
  proof
    assume "k \<in> set ?b"
    then have "k \<in> set (fired_batch w rows ?b)" using fired_batch_mem Suc.prems by blast
    then have "x \<in> set (List.map_filter (map_of wanted) (fired_batch w rows ?b))"
      using Suc.prems(7) by (force simp: map_filter_def)
    then show ?thesis using ne by simp
  next
    assume "k \<in> set ?d"
    then have "x \<in> set (fired_loop w rows wanted fuel ?d)" using Suc.IH [OF len] Suc.prems by blast
    then show ?thesis using ne by simp
  qed
qed simp

lemma wanted_rules_sound:
  assumes "map_of (wanted_rules uni wanted ids) k = Some x"
    and "\<And>k x. map_of wanted k = Some x \<Longrightarrow> rule_key uni x = k"
  shows "rule_key uni x = k"
  using assms
proof (induction ids arbitrary: wanted)
  case (Cons z ids)
  let ?w = "wanted @ [(ToLower uni (TrimSpace z), TrimSpace z)]"
  have w: "map_of ?w k = Some x \<Longrightarrow> rule_key uni x = k" for k x
    using Cons.prems(2) by (auto simp: map_of_append rule_key_def map_add_Some_iff split: if_splits)
  show ?case
    using Cons.prems(1) Cons.IH [OF _ Cons.prems(2)] Cons.IH [of ?w] w by (auto simp: Let_def split: if_splits)
qed simp

lemma wanted_rules_grow: "map_of wanted k \<noteq> None \<Longrightarrow> map_of (wanted_rules uni wanted ids) k \<noteq> None"
proof (induction ids arbitrary: wanted)
  case (Cons z ids)
  have "map_of (wanted @ [(ToLower uni (TrimSpace z), TrimSpace z)]) k \<noteq> None"
    using Cons.prems by (auto simp: map_of_append map_add_def split: option.splits)
  then show ?case using Cons.IH Cons.prems by (auto simp: Let_def)
qed simp

lemma wanted_rules_cover:
  "y \<in> set ids \<Longrightarrow> TrimSpace y \<noteq> [] \<Longrightarrow> map_of (wanted_rules uni wanted ids) (rule_key uni y) \<noteq> None"
proof (induction ids arbitrary: wanted)
  case (Cons z ids)
  let ?w = "wanted @ [(ToLower uni (TrimSpace z), TrimSpace z)]"
  have new: "map_of ?w (rule_key uni z) \<noteq> None"
    by (auto simp: map_of_append map_add_def rule_key_def split: option.splits)
  show ?case
  proof (cases "y = z")
    case True
    then show ?thesis
      using wanted_rules_grow [OF new, of uni ids] wanted_rules_grow [of wanted "rule_key uni z" uni ids] Cons.prems(2)
      by (auto simp: Let_def rule_key_def)
  next
    case False
    then show ?thesis using Cons by (auto simp: Let_def)
  qed
qed simp

lemma fired_complete_audit:
  assumes "ListFiredCorrelationRuleIDsInSession uni fault db s i a cs = Some ids" and "x \<in> set cs"
    and "TrimSpace x \<noteq> []" and "r \<in> set (scan_findings db)" and "audit_partition s i a r"
    and "sr_Scanner r = ''correlator''" and "audit_norm (coalesce (sr_RuleID r)) = rule_key uni x"
  shows "rule_key uni x \<in> rule_key uni ` set ids"
proof -
  obtain w where w: "correlationAgentPartitionSQL s i a = Some w" "w r"
    using assms(5) by (auto simp: audit_partition_def split: option.splits)
  let ?wanted = "wanted_rules uni [] cs"
  have ids: "ids = fired_loop w (scan_findings db) ?wanted (length ?wanted) (map fst ?wanted)"
    using assms(1,2) w by (auto simp: ListFiredCorrelationRuleIDsInSession_def Let_def split: if_splits)
  obtain y where y: "map_of ?wanted (rule_key uni x) = Some y"
    using wanted_rules_cover [OF assms(2,3), of uni "[]"] by auto
  have "audit_norm (sr_Scanner r) = ''correlator''" unfolding assms(6) by code_simp
  moreover have "rule_key uni x \<in> set (map fst ?wanted)"
    using y by (metis domI dom_map_of_conv_image_fst image_set)
  ultimately have "y \<in> set ids"
    unfolding ids
    using fired_loop_mem [of "map fst ?wanted" "length ?wanted" "rule_key uni x" r "scan_findings db" w ?wanted y]
      assms(4,7) w(2) y by simp
  moreover have "rule_key uni y = rule_key uni x" using wanted_rules_sound [OF y] by simp
  ultimately show ?thesis by (metis imageI)
qed

lemma insert_rows_effect:
  "\<exists>rows. scan_findings (fst (insert_rows json fresh scan meta fail_at n fs db)) = scan_findings db @ rows \<and>
     length rows \<le> length fs \<and> list_all2 (written_by meta) (take (length rows) fs) rows"
proof (induction fs arbitrary: n db)
  case (Cons f fs)
  show ?case
  proof (cases "fail_at = Some n")
    case False
    let ?r = "finding_row json fresh scan meta n f"
    let ?db = "db\<lparr>scan_findings := scan_findings db @ [?r]\<rparr>"
    obtain rows where rows: "scan_findings (fst (insert_rows json fresh scan meta fail_at (Suc n) fs ?db)) =
        scan_findings ?db @ rows" "length rows \<le> length fs" "list_all2 (written_by meta) (take (length rows) fs) rows"
      using Cons.IH by blast
    have "written_by meta f ?r" by (simp add: written_by_def finding_row_def)
    then show ?thesis using rows False by (intro exI [of _ "?r # rows"]) simp
  qed simp
qed simp

lemma partition_of_row_audit:
  assumes "audit_partition s i a r" and "written_by meta f r"
  shows "TrimSpace (sm_SessionID meta) = TrimSpace s \<and> TrimSpace (sm_AgentInstanceID meta) = TrimSpace i \<and>
    TrimSpace (sm_AgentID meta) = TrimSpace a"
  using assms sql_trim_blank
  by (auto simp: audit_partition_def correlationAgentPartitionSQL_def written_by_def Let_def nullStr_def
      coalesce_def split: if_splits option.splits)

interpretation audit_store: finding_store uni scan_findings audit_partition audit_norm
  "ListRecentFindingsInSession fault_recent" "ListFiredCorrelationRuleIDsInSession uni fault_fired"
  "InsertScanSummary fault_summary" "InsertScanFindings json fresh fail_at"
  for uni fault_recent fault_fired fault_summary json fresh fail_at
proof unfold_locales
  show "filter (audit_partition s i a) (scan_findings db) = filter (audit_partition s i a) (scan_findings db') \<Longrightarrow>
      ListRecentFindingsInSession fault_recent db s i a n = ListRecentFindingsInSession fault_recent db' s i a n"
    for s i a db db' n
    by (simp add: recent_eq)
  show "filter (audit_partition s i a) (scan_findings db) = filter (audit_partition s i a) (scan_findings db') \<Longrightarrow>
      ListFiredCorrelationRuleIDsInSession uni fault_fired db s i a cs =
      ListFiredCorrelationRuleIDsInSession uni fault_fired db' s i a cs" for s i a db db' cs
  proof (cases "correlationAgentPartitionSQL s i a")
    case (Some w)
    assume eq: "filter (audit_partition s i a) (scan_findings db) = filter (audit_partition s i a) (scan_findings db')"
    have "audit_partition s i a = w" using Some by (simp add: audit_partition_def fun_eq_iff)
    then have "fired_loop w (scan_findings db) wd n ks = fired_loop w (scan_findings db') wd n ks" for wd n ks
      using eq fired_loop_eq by metis
    then show ?thesis using Some by (simp add: ListFiredCorrelationRuleIDsInSession_def Let_def)
  qed (simp add: ListFiredCorrelationRuleIDsInSession_def)
qed (use fired_complete_audit insert_rows_effect partition_of_row_audit in
     \<open>fastforce simp: InsertScanSummary_def InsertScanFindings_def\<close>)+

subsection \<open>Properties\<close>

lemma pattern_rules_plain:
  assumes "list_all (\<lambda>p. printable (cp_ID p)) (sc_patterns c)" and "cm_Pattern m \<in> set (sc_patterns c)"
  shows "plain_rule uni audit_norm (SyntheticFindingRuleID uni m)"
proof -
  have "printable (SyntheticFindingRuleID uni m)"
    using assms by (simp add: list_all_iff synthetic_rule_printable)
  moreover have "SyntheticFindingRuleID uni m \<noteq> []" by (simp add: SyntheticFindingRuleID_def)
  ultimately show ?thesis
    using printable_rule [of _ uni] by (simp add: plain_rule_def audit_norm_def)
qed

text \<open>
  A history of the table of findings: it starts without synthetic findings; then scanners other than the correlator write theirs,
  under any identity, and the correlator runs for any identity whose parts have no surrounding blanks, with any patterns whose
  identifiers are printable, and whatever database calls fail, including an insert that stops half-way.
\<close>

inductive finding_history :: "unicode_map \<Rightarrow> ScanDB \<Rightarrow> bool" for uni where
  start: "list_all (\<lambda>r. sr_Scanner r \<noteq> ''correlator'') (scan_findings db) \<Longrightarrow> finding_history uni db"
| scan: "finding_history uni db \<Longrightarrow> list_all (\<lambda>f. fi_Scanner f \<noteq> ''correlator'') fs \<Longrightarrow>
    InsertScanFindings json fresh fail_at db scanID fs meta = (db', ok) \<Longrightarrow> finding_history uni db'"
| summary: "finding_history uni db \<Longrightarrow> InsertScanSummary fault db q = (db', ok) \<Longrightarrow> finding_history uni db'"
| run: "finding_history uni db \<Longrightarrow> TrimSpace (sm_SessionID meta) = sm_SessionID meta \<Longrightarrow>
    TrimSpace (sm_AgentInstanceID meta) = sm_AgentInstanceID meta \<Longrightarrow> TrimSpace (sm_AgentID meta) = sm_AgentID meta \<Longrightarrow>
    list_all (\<lambda>p. printable (cp_ID p)) (sc_patterns c) \<Longrightarrow>
    RunForSession uni uuid8 scanID now (ListRecentFindingsInSession fault_recent)
      (ListFiredCorrelationRuleIDsInSession uni fault_fired) (InsertScanSummary fault_summary)
      (InsertScanFindings json fresh fail_at) c db (sm_SessionID meta) (sm_AgentInstanceID meta) target meta = (db', e) \<Longrightarrow>
    finding_history uni db'"

text \<open>The identity columns of a row, without surrounding blanks.\<close>

definition row_of :: "string \<Rightarrow> string \<Rightarrow> string \<Rightarrow> ScanRow \<Rightarrow> bool" where
  "row_of s i a r \<longleftrightarrow> TrimSpace (coalesce (sr_SessionID r)) = s \<and> TrimSpace (coalesce (sr_AgentInstanceID r)) = i \<and>
     TrimSpace (coalesce (sr_AgentID r)) = a"

text \<open>A row the ledger query for the row's own identity finds, and whose identity columns have no surrounding blanks.\<close>

definition in_ledger :: "ScanRow \<Rightarrow> bool" where
  "in_ledger r \<longleftrightarrow> row_of (coalesce (sr_SessionID r)) (coalesce (sr_AgentInstanceID r)) (coalesce (sr_AgentID r)) r \<and>
     audit_partition (coalesce (sr_SessionID r)) (coalesce (sr_AgentInstanceID r)) (coalesce (sr_AgentID r)) r"

lemma coalesce_Nil: "coalesce c = [] \<Longrightarrow> sql_trim (coalesce c) = []"
  by (simp add: sql_trim_def trim_bytes_def)

lemma written_in_ledger:
  assumes "written_by meta f r" and "TrimSpace (sm_SessionID meta) = sm_SessionID meta"
    and "TrimSpace (sm_AgentInstanceID meta) = sm_AgentInstanceID meta" and "TrimSpace (sm_AgentID meta) = sm_AgentID meta"
    and "snd (newCorrelationAgentPartition (sm_SessionID meta) (sm_AgentInstanceID meta) (sm_AgentID meta))"
  shows "in_ledger r"
proof -
  have cols: "coalesce (sr_SessionID r) = sm_SessionID meta" "coalesce (sr_AgentInstanceID r) = sm_AgentInstanceID meta"
    "coalesce (sr_AgentID r) = sm_AgentID meta" using assms(1) by (simp_all add: written_by_def)
  have ok: "sm_SessionID meta \<noteq> []" "sm_AgentInstanceID meta \<noteq> [] \<or> sm_AgentID meta \<noteq> []"
    using assms(2-5) by (auto simp: newCorrelationAgentPartition_def Let_def)
  have "row_of (sm_SessionID meta) (sm_AgentInstanceID meta) (sm_AgentID meta) r" using cols assms(2-4) by (simp add: row_of_def)
  moreover have "audit_partition (sm_SessionID meta) (sm_AgentInstanceID meta) (sm_AgentID meta) r"
    using assms(1-4) ok cols coalesce_Nil [of "sr_AgentInstanceID r"] coalesce_Nil [of "sr_AgentID r"]
    by (auto simp: audit_partition_def correlationAgentPartitionSQL_def Let_def written_by_def nullStr_def)
  ultimately show ?thesis unfolding in_ledger_def cols by simp
qed

definition ledger_inv :: "ScanDB \<Rightarrow> bool" where
  "ledger_inv db \<longleftrightarrow> (\<forall>r \<in> set (scan_findings db). sr_Scanner r = ''correlator'' \<longrightarrow> in_ledger r) \<and>
     (\<forall>s i a k. TrimSpace s = s \<longrightarrow> TrimSpace i = i \<longrightarrow> TrimSpace a = a \<longrightarrow>
       firings (audit_partition s i a) audit_norm (scan_findings db) k \<le> 1)"

lemma ledger_inv_scan:
  assumes "ledger_inv db" and "list_all (\<lambda>f. fi_Scanner f \<noteq> ''correlator'') fs"
    and "InsertScanFindings json fresh fail_at db scanID fs meta = (db', ok)"
  shows "ledger_inv db'"
proof -
  obtain rows where rows: "scan_findings db' = scan_findings db @ rows" "list_all2 (written_by meta) (take (length rows) fs) rows"
    using audit_store.persist_rows [where db = db and scan = scanID and fs = fs and meta = meta] assms(3) by (metis fst_conv)
  have other: "sr_Scanner r \<noteq> ''correlator''" if r: "r \<in> set rows" for r
  proof -
    obtain f where "f \<in> set fs" "written_by meta f r" using list_all2_pre [OF rows(2) r] by (meson in_set_takeD)
    then show ?thesis using assms(2) by (auto simp: written_by_def list_all_iff)
  qed
  then have "filter (\<lambda>r. P r \<and> sr_Scanner r = ''correlator'' \<and> Q r) rows = []" for P Q by (auto simp: filter_empty_conv)
  then have "firings P audit_norm (scan_findings db') k = firings P audit_norm (scan_findings db) k" for P k
    by (simp add: firings_def rows(1))
  then show ?thesis using assms(1) other by (auto simp: ledger_inv_def rows(1))
qed

lemma ledger_inv_run:
  assumes "ledger_inv db" and trimmed: "TrimSpace (sm_SessionID meta) = sm_SessionID meta"
      "TrimSpace (sm_AgentInstanceID meta) = sm_AgentInstanceID meta" "TrimSpace (sm_AgentID meta) = sm_AgentID meta"
    and pr: "list_all (\<lambda>p. printable (cp_ID p)) (sc_patterns c)"
    and run: "RunForSession uni uuid8 scanID now (ListRecentFindingsInSession fault_recent)
      (ListFiredCorrelationRuleIDsInSession uni fault_fired) (InsertScanSummary fault_summary)
      (InsertScanFindings json fresh fail_at) c db (sm_SessionID meta) (sm_AgentInstanceID meta) target meta = (db', e)"
  shows "ledger_inv db'"
proof -
  have "firings (audit_partition s i a) audit_norm (scan_findings db') k \<le> 1"
    if "TrimSpace s = s" "TrimSpace i = i" "TrimSpace a = a" for s i a k
    by (rule audit_store.run_at_most_once [OF _ that pattern_rules_plain [OF pr] run]) (use assms(1) that in \<open>auto simp: ledger_inv_def\<close>)
  moreover have "in_ledger r" if r: "r \<in> set (scan_findings db')" "sr_Scanner r = ''correlator''" for r
    using audit_store.run_effect [OF run]
  proof (elim disjE exE conjE)
    fix fs rows
    assume ok: "snd (newCorrelationAgentPartition (sm_SessionID meta) (sm_AgentInstanceID meta) (sm_AgentID meta))"
      and rows: "scan_findings db' = scan_findings db @ rows" "list_all2 (written_by (meta\<lparr>sm_Timestamp := now\<rparr>)) (take (length rows) fs) rows"
    show "in_ledger r"
    proof (cases "r \<in> set (scan_findings db)")
      case True
      then show ?thesis using assms(1) r(2) by (auto simp: ledger_inv_def)
    next
      case False
      then have "r \<in> set rows" using r(1) rows(1) by simp
      then obtain f where "written_by (meta\<lparr>sm_Timestamp := now\<rparr>) f r" using list_all2_pre [OF rows(2)] by blast
      then have "written_by meta f r" by (simp add: written_by_def)
      then show ?thesis using written_in_ledger trimmed ok by blast
    qed
  qed (use assms(1) r in \<open>auto simp: ledger_inv_def\<close>)
  ultimately show ?thesis by (auto simp: ledger_inv_def)
qed

lemma length_filter_imp: "(\<And>x. x \<in> set xs \<Longrightarrow> P x \<Longrightarrow> Q x) \<Longrightarrow> length (filter P xs) \<le> length (filter Q xs)"
  by (induction xs) (auto simp: le_SucI)

lemma ledger_inv_history: "finding_history uni db \<Longrightarrow> ledger_inv db"
proof (induction rule: finding_history.induct)
  case (start db)
  then have "filter (\<lambda>r. P r \<and> sr_Scanner r = ''correlator'' \<and> Q r) (scan_findings db) = []" for P Q
    by (auto simp: filter_empty_conv list_all_iff)
  then show ?case using start by (auto simp: ledger_inv_def firings_def list_all_iff)
next
  case (scan db fs json fresh fail_at scanID meta db' ok)
  show ?case by (rule ledger_inv_scan [OF scan.IH scan.hyps(2,3)])
next
  case (summary db fault q db' ok)
  then have "scan_findings db' = scan_findings db" by (auto simp: InsertScanSummary_def split: if_splits)
  then show ?case using summary.IH by (simp add: ledger_inv_def)
next
  case (run db meta c uuid8 scanID now fault_recent fault_fired fault_summary json fresh fail_at target db' e)
  show ?case by (rule ledger_inv_run [OF run.IH run.hyps(2-6)])
qed

text \<open>
  C18.  Once per session.  In every history of the table (any scans, any runs of the correlator for identities without surrounding
  blanks, with patterns whose identifiers are printable, whatever database calls fail) each synthetic finding is stored where the
  ledger query for its identity finds it, and the table holds at most one synthetic finding per session, agent instance,
  agent and rule, all rows of the table counted.
\<close>

theorem correlator_fires_at_most_once:
  assumes "finding_history uni db"
  shows "(\<forall>r \<in> set (scan_findings db). sr_Scanner r = ''correlator'' \<longrightarrow> in_ledger r) \<and>
    firings (row_of s i a) audit_norm (scan_findings db) k \<le> 1"
proof -
  note inv = ledger_inv_history [OF assms]
  show ?thesis
  proof
    show ledger: "\<forall>r \<in> set (scan_findings db). sr_Scanner r = ''correlator'' \<longrightarrow> in_ledger r" using inv by (simp add: ledger_inv_def)
    show "firings (row_of s i a) audit_norm (scan_findings db) k \<le> 1"
    proof (cases "TrimSpace s = s \<and> TrimSpace i = i \<and> TrimSpace a = a")
      case True
      have "audit_partition s i a r" if "r \<in> set (scan_findings db)" "sr_Scanner r = ''correlator''" "row_of s i a r" for r
        using ledger that by (auto simp: in_ledger_def row_of_def)
      then have "firings (row_of s i a) audit_norm (scan_findings db) k \<le> firings (audit_partition s i a) audit_norm (scan_findings db) k"
        unfolding firings_def by (intro length_filter_imp) auto
      also have "\<dots> \<le> 1" using inv True by (auto simp: ledger_inv_def)
      finally show ?thesis .
    next
      case False
      have "TrimSpace (TrimSpace x) = TrimSpace x" for x by simp
      then have "\<not> row_of s i a r" for r using False unfolding row_of_def by metis
      then show ?thesis by (simp add: firings_def)
    qed
  qed
qed

definition stored_row :: "string \<Rightarrow> string \<Rightarrow> string \<Rightarrow> string \<Rightarrow> string \<Rightarrow> ScanRow" where
  "stored_row i agent axis fp time = \<lparr>sr_ID = i, sr_ScanID = ''scan'', sr_Scanner = ''hook'', sr_RuleID = Some (''R-'' @ axis),
     sr_Category = None, sr_Severity = ''HIGH'', sr_Tags = [], sr_Timestamp = time, sr_SessionID = Some ''s'',
     sr_AgentID = Some agent, sr_AgentInstanceID = Some ''i'', sr_DataAxis = Some (''[\"'' @ axis @ ''\"]''),
     sr_ToolCapabilityClass = None, sr_ContentFingerprint = Some fp, sr_ExternalEndpoint = None, sr_TurnID = None\<rparr>"

definition sample_db :: ScanDB where
  "sample_db = \<lparr>scan_results = [], scan_findings =
     [stored_row ''1'' ''a'' ''sensitive_access'' ''f1'' ''t1'', stored_row ''2'' ''a'' ''egress_external'' ''f1'' ''t2'']\<rparr>"

definition sample_meta :: "string \<Rightarrow> ScanFindingMeta" where
  "sample_meta agent = \<lparr>sm_Timestamp = ''t3'', sm_RunID = [], sm_RequestID = [], sm_SessionID = ''s'', sm_TraceID = [],
     sm_AgentID = agent, sm_AgentInstanceID = ''i''\<rparr>"

definition sample_run :: "ScanDB \<Rightarrow> ScanDB \<times> corr_error option" where
  "sample_run db = RunForSession plain_map (\<lambda>n. ''u'') ''corr-1'' ''t4'' (ListRecentFindingsInSession False)
     (ListFiredCorrelationRuleIDsInSession plain_map False) (InsertScanSummary False)
     (InsertScanFindings (\<lambda>xs. []) (\<lambda>n. ''new'') None) (NewSessionCorrelator [sample_pattern]) db ''s'' ''i'' ''tool''
     (sample_meta ''a'')"

theorem correlator_fires_at_most_once_witness:
  "firings (row_of ''s'' ''i'' ''a'') audit_norm (scan_findings (fst (sample_run sample_db))) ''corr-leak-chain'' = 1 \<and>
   firings (row_of ''s'' ''i'' ''a'') audit_norm (scan_findings (fst (sample_run (fst (sample_run sample_db))))) ''corr-leak-chain'' \<le> 1"
proof
  show "firings (row_of ''s'' ''i'' ''a'') audit_norm (scan_findings (fst (sample_run sample_db))) ''corr-leak-chain'' = 1" by code_simp
  have pr: "list_all (\<lambda>p. printable (cp_ID p)) (sc_patterns (NewSessionCorrelator [sample_pattern]))"
    and m: "sm_SessionID (sample_meta ''a'') = ''s''" "sm_AgentInstanceID (sample_meta ''a'') = ''i''"
    and tr: "TrimSpace (sm_SessionID (sample_meta ''a'')) = sm_SessionID (sample_meta ''a'')"
      "TrimSpace (sm_AgentInstanceID (sample_meta ''a'')) = sm_AgentInstanceID (sample_meta ''a'')"
      "TrimSpace (sm_AgentID (sample_meta ''a'')) = sm_AgentID (sample_meta ''a'')"
    and none: "list_all (\<lambda>r. sr_Scanner r \<noteq> ''correlator'') (scan_findings sample_db)"
    by code_simp+
  have step: "finding_history plain_map (fst (sample_run db))" if "finding_history plain_map db" for db
    by (rule finding_history.run [OF that tr pr]) (simp add: sample_run_def m prod_eq_iff)
  have "finding_history plain_map (fst (sample_run (fst (sample_run sample_db))))"
    by (intro step finding_history.start none)
  from correlator_fires_at_most_once [OF this]
  show "firings (row_of ''s'' ''i'' ''a'') audit_norm (scan_findings (fst (sample_run (fst (sample_run sample_db))))) ''corr-leak-chain'' \<le> 1"
    by blast
qed

text \<open>
  A session identifier with a surrounding blank defeats the ledger.  The correlator looks for earlier firings under the trimmed
  identity but writes its rows under the identity as it was given, where the ledger query does not find them: two runs for the session
  \<open>' s'\<close> store the same synthetic finding twice.
\<close>

definition untrimmed_run :: "ScanDB \<Rightarrow> ScanDB \<times> corr_error option" where
  "untrimmed_run db = RunForSession plain_map (\<lambda>n. ''u'') ''corr-1'' ''t4'' (ListRecentFindingsInSession False)
     (ListFiredCorrelationRuleIDsInSession plain_map False) (InsertScanSummary False)
     (InsertScanFindings (\<lambda>xs. []) (\<lambda>n. ''new'') None) (NewSessionCorrelator [sample_pattern]) db '' s'' ''i'' ''tool''
     ((sample_meta ''a'')\<lparr>sm_SessionID := '' s''\<rparr>)"

theorem untrimmed_session_fires_twice:
  "firings (row_of ''s'' ''i'' ''a'') audit_norm (scan_findings (fst (untrimmed_run (fst (untrimmed_run sample_db))))) ''corr-leak-chain'' = 2"
  by code_simp

text \<open>
  Agents do not see each other.  What the correlator decides for a partition (which synthetic
  findings it writes, or which read fails) depends on the stored rows of that partition only: two
  databases that agree on those rows give the same result, whatever else they hold.
\<close>

theorem correlator_partition_isolation:
  assumes "filter (audit_partition (ap_sessionID p) (ap_agentInstanceID p) (ap_agentID p)) (scan_findings db) =
    filter (audit_partition (ap_sessionID p) (ap_agentInstanceID p) (ap_agentID p)) (scan_findings db')"
  shows "correlate uni uuid8 (ListRecentFindingsInSession fault_recent)
      (ListFiredCorrelationRuleIDsInSession uni fault_fired) c db p =
    correlate uni uuid8 (ListRecentFindingsInSession fault_recent)
      (ListFiredCorrelationRuleIDsInSession uni fault_fired) c db' p"
  using assms by (rule audit_store.correlate_local)

theorem correlator_partition_isolation_witness:
  "let p = \<lparr>ap_sessionID = ''s'', ap_agentInstanceID = ''i'', ap_agentID = ''a''\<rparr>;
       db' = sample_db\<lparr>scan_findings := stored_row ''9'' ''other'' ''egress_external'' ''f1'' ''t1'' # scan_findings sample_db\<rparr>;
       run = (\<lambda>db. correlate plain_map (\<lambda>n. ''u'') (ListRecentFindingsInSession False)
         (ListFiredCorrelationRuleIDsInSession plain_map False) (NewSessionCorrelator [sample_pattern]) db p)
   in run db' = run sample_db"
proof -
  let ?p = "\<lparr>ap_sessionID = ''s'', ap_agentInstanceID = ''i'', ap_agentID = ''a''\<rparr>"
  let ?db = "sample_db\<lparr>scan_findings := stored_row ''9'' ''other'' ''egress_external'' ''f1'' ''t1'' # scan_findings sample_db\<rparr>"
  have "filter (audit_partition (ap_sessionID ?p) (ap_agentInstanceID ?p) (ap_agentID ?p)) (scan_findings ?db) =
    filter (audit_partition (ap_sessionID ?p) (ap_agentInstanceID ?p) (ap_agentID ?p)) (scan_findings sample_db)"
    by code_simp
  from correlator_partition_isolation [OF this] show ?thesis unfolding Let_def .
qed

end
