(* ===== verification/Net_Guard.thy ===== *)
theory Net_Guard
  imports Go_Prelude
begin

text \<open>
  The outbound address guard of \<^verbatim>\<open>internal/netguard\<close>: \<^verbatim>\<open>netguard.go\<close> (the process-wide guard with the
  operator's list of private upstreams, \<^verbatim>\<open>allowlist.go\<close>) and \<^verbatim>\<open>netguard_v8.go\<close> (the guard of one
  exporter destination, with no global state).

  A \<open>net.IP\<close> is nil, four bytes, sixteen bytes or a slice of another length; the bytes are kept as one
  32-bit or 128-bit word in network order.  A \<open>netip.Addr\<close> is invalid, an IPv4 address or an IPv6
  address with its zone.  Turning text into addresses and URLs (\<open>net.ParseIP\<close>, \<open>netip.ParseAddr\<close>,
  \<open>net.SplitHostPort\<close>, \<open>url.Parse\<close>), the resolver and the dialer are arguments.  A dial is described by its
  target, so that the theorems say to which addresses a connection can be attempted.
\<close>

unbundle bit_operations_syntax

datatype IP = NilIP | IP4 "32 word" | IP16 "128 word" | IPOther

subsection \<open>Package net\<close>

text \<open>A sixteen-byte address that starts with ten zero bytes and \<open>ff ff\<close> is a mapped IPv4 address.\<close>

definition is_4in6 :: "128 word \<Rightarrow> bool" where
  "is_4in6 w \<longleftrightarrow> drop_bit 32 w = 0xFFFF"

definition low32 :: "128 word \<Rightarrow> 32 word" where
  "low32 w = ucast w"

definition mapped :: "32 word \<Rightarrow> 128 word" where
  "mapped a = (push_bit 32 0xFFFF) OR ucast a"

definition To4 :: "IP \<Rightarrow> (32 word) option" where
  "To4 ip = (case ip of IP4 a \<Rightarrow> Some a | IP16 w \<Rightarrow> if is_4in6 w then Some (low32 w) else None | _ \<Rightarrow> None)"

definition octet4 :: "32 word \<Rightarrow> nat \<Rightarrow> 32 word" where
  "octet4 a i = (drop_bit (24 - 8 * i) a) AND 0xFF"

definition octet16 :: "128 word \<Rightarrow> nat \<Rightarrow> 128 word" where
  "octet16 w i = (drop_bit (120 - 8 * i) w) AND 0xFF"

definition IsLoopback :: "IP \<Rightarrow> bool" where
  "IsLoopback ip = (case To4 ip of Some a \<Rightarrow> octet4 a 0 = 127 | None \<Rightarrow> ip = IP16 1)"

definition IsUnspecified :: "IP \<Rightarrow> bool" where
  "IsUnspecified ip \<longleftrightarrow> To4 ip = Some 0 \<or> ip = IP16 0"

definition IsPrivate :: "IP \<Rightarrow> bool" where
  "IsPrivate ip =
     (case To4 ip of
        Some a \<Rightarrow> octet4 a 0 = 10 \<or> octet4 a 0 = 172 \<and> octet4 a 1 AND 0xF0 = 16 \<or> octet4 a 0 = 192 \<and> octet4 a 1 = 168
      | None \<Rightarrow> (case ip of IP16 w \<Rightarrow> octet16 w 0 AND 0xFE = 0xFC | _ \<Rightarrow> False))"

definition IsMulticast :: "IP \<Rightarrow> bool" where
  "IsMulticast ip =
     (case To4 ip of
        Some a \<Rightarrow> octet4 a 0 AND 0xF0 = 0xE0
      | None \<Rightarrow> (case ip of IP16 w \<Rightarrow> octet16 w 0 = 0xFF | _ \<Rightarrow> False))"

definition IsInterfaceLocalMulticast :: "IP \<Rightarrow> bool" where
  "IsInterfaceLocalMulticast ip =
     (case ip of IP16 w \<Rightarrow> octet16 w 0 = 0xFF \<and> octet16 w 1 AND 0x0F = 1 | _ \<Rightarrow> False)"

definition IsLinkLocalMulticast :: "IP \<Rightarrow> bool" where
  "IsLinkLocalMulticast ip =
     (case To4 ip of
        Some a \<Rightarrow> octet4 a 0 = 224 \<and> octet4 a 1 = 0 \<and> octet4 a 2 = 0
      | None \<Rightarrow> (case ip of IP16 w \<Rightarrow> octet16 w 0 = 0xFF \<and> octet16 w 1 AND 0x0F = 2 | _ \<Rightarrow> False))"

definition IsLinkLocalUnicast :: "IP \<Rightarrow> bool" where
  "IsLinkLocalUnicast ip =
     (case To4 ip of
        Some a \<Rightarrow> octet4 a 0 = 169 \<and> octet4 a 1 = 254
      | None \<Rightarrow> (case ip of IP16 w \<Rightarrow> octet16 w 0 = 0xFE \<and> octet16 w 1 AND 0xC0 = 0x80 | _ \<Rightarrow> False))"

text \<open>\<open>IP.Equal\<close>, where an IPv4 address equals its mapped form.\<close>

definition Equal :: "IP \<Rightarrow> IP \<Rightarrow> bool" where
  "Equal ip x \<longleftrightarrow> ip = x \<or> (To4 ip \<noteq> None \<and> To4 ip = To4 x)"

text \<open>\<open>IPNet.Contains\<close> for a network given by a base address and a prefix length.\<close>

datatype IPNet = Net4 "32 word" nat | Net6 "128 word" nat

definition net_contains :: "IPNet \<Rightarrow> IP \<Rightarrow> bool" where
  "net_contains n ip =
     (case n of
        Net4 base len \<Rightarrow> (case To4 ip of Some a \<Rightarrow> drop_bit (32 - len) a = drop_bit (32 - len) base | None \<Rightarrow> False)
      | Net6 base len \<Rightarrow>
          (case To4 ip of
             Some a \<Rightarrow> False
           | None \<Rightarrow> (case ip of IP16 w \<Rightarrow> drop_bit (128 - len) w = drop_bit (128 - len) base | _ \<Rightarrow> False)))"

subsection \<open>Package netip\<close>

datatype Addr = NoAddr | Addr4 "32 word" | Addr6 "128 word" string

definition AddrFromSlice :: "IP \<Rightarrow> Addr option" where
  "AddrFromSlice ip = (case ip of IP4 a \<Rightarrow> Some (Addr4 a) | IP16 w \<Rightarrow> Some (Addr6 w []) | _ \<Rightarrow> None)"

definition Unmap :: "Addr \<Rightarrow> Addr" where
  "Unmap addr = (case addr of Addr6 w z \<Rightarrow> if is_4in6 w then Addr4 (low32 w) else addr | _ \<Rightarrow> addr)"

datatype Prefix = Prefix4 "32 word" nat | Prefix6 "128 word" nat

text \<open>\<open>Prefix.Contains\<close>: families must agree and an address with a zone is in no prefix.\<close>

definition prefix_contains :: "Prefix \<Rightarrow> Addr \<Rightarrow> bool" where
  "prefix_contains p addr =
     (case (p, addr) of
        (Prefix4 base len, Addr4 a) \<Rightarrow> drop_bit (32 - len) a = drop_bit (32 - len) base
      | (Prefix6 base len, Addr6 w z) \<Rightarrow> z = [] \<and> drop_bit (128 - len) w = drop_bit (128 - len) base
      | _ \<Rightarrow> False)"

text \<open>The predicates of \<open>netip.Addr\<close> agree with those of \<open>net.IP\<close> on the address without its zone.\<close>

definition addr_ip :: "Addr \<Rightarrow> IP" where
  "addr_ip addr = (case addr of NoAddr \<Rightarrow> NilIP | Addr4 a \<Rightarrow> IP4 a | Addr6 w z \<Rightarrow> IP16 w)"

definition addr_unspecified :: "Addr \<Rightarrow> bool" where
  "addr_unspecified addr \<longleftrightarrow> addr = Addr4 0 \<or> addr = Addr6 0 []"

subsection \<open>allowlist.go\<close>

text \<open>The set \<open>allowedPrivate\<close> is the state of the guard.\<close>

fun unmapped_addrs :: "IP list \<Rightarrow> Addr list" where
  "unmapped_addrs [] = []"
| "unmapped_addrs (ip # ips) =
     (case AddrFromSlice ip of Some addr \<Rightarrow> Unmap addr # unmapped_addrs ips | None \<Rightarrow> unmapped_addrs ips)"

definition SetAllowedPrivateIPs :: "IP list \<Rightarrow> Addr list" where
  "SetAllowedPrivateIPs ips = unmapped_addrs ips"

definition IsAllowedPrivateIP :: "Addr list \<Rightarrow> IP \<Rightarrow> bool" where
  "IsAllowedPrivateIP allowedPrivate ip =
     (case AddrFromSlice ip of None \<Rightarrow> False | Some addr \<Rightarrow> List.member allowedPrivate (Unmap addr))"

definition add_upstream :: "(string \<Rightarrow> IP) \<Rightarrow> Addr list \<times> IP list \<Rightarrow> string \<Rightarrow> Addr list \<times> IP list" where
  "add_upstream ParseIP = (\<lambda>(seen, result) s.
     let s = TrimSpace s; ip = ParseIP s
     in if s = [] \<or> ip = NilIP then (seen, result)
        else case AddrFromSlice ip of
          None \<Rightarrow> (seen, result)
        | Some addr \<Rightarrow>
            if List.member seen (Unmap addr) then (seen, result)
            else (Unmap addr # seen, result @ [ip]))"

definition ParseAllowedPrivateUpstreams :: "(string \<Rightarrow> IP) \<Rightarrow> string \<Rightarrow> string list \<Rightarrow> IP list" where
  "ParseAllowedPrivateUpstreams ParseIP env configIPs =
     (let acc = foldl (add_upstream ParseIP) ([], []) configIPs
      in snd (if env \<noteq> [] then foldl (add_upstream ParseIP) acc (split_on (CHR '','') env) else acc))"

subsection \<open>netguard.go\<close>

definition cloudMetadataIPs :: "IP list" where
  "cloudMetadataIPs =
     [IP16 (mapped 0xA9FEA9FE), IP16 (mapped 0xA9FEAA02), IP16 0xFD000EC2000000000000000000000254]"

definition extraReservedCIDRs :: "bool \<Rightarrow> IPNet list" where
  "extraReservedCIDRs cgnatAllowed =
     [Net4 0xA9FEA9FE 32, Net4 0xA9FEAA02 32, Net6 0xFD000000000000000000000000000000 8] @
     (if cgnatAllowed then [] else [Net4 0x64400000 10])"

definition IsCloudMetadataIP :: "IP \<Rightarrow> bool" where
  "IsCloudMetadataIP ip =
     (if ip = NilIP then False
      else let ip = (case To4 ip of Some a \<Rightarrow> IP4 a | None \<Rightarrow> ip) in list_ex (Equal ip) cloudMetadataIPs)"

definition IsHardDeniedIP :: "IP \<Rightarrow> bool" where
  "IsHardDeniedIP ip =
     (if ip = NilIP then True
      else let ip = (case To4 ip of Some a \<Rightarrow> IP4 a | None \<Rightarrow> ip)
           in IsLoopback ip \<or> IsUnspecified ip \<or> IsLinkLocalUnicast ip \<or> IsLinkLocalMulticast ip \<or> IsMulticast ip \<or>
              IsInterfaceLocalMulticast ip \<or> IsCloudMetadataIP ip)"

text \<open>\<open>cgnat\<close> says that \<open>DEFENSECLAW_ALLOW_CGNAT\<close> was set when the process started.\<close>

definition IsPrivateOrReserved :: "bool \<Rightarrow> Addr list \<Rightarrow> IP \<Rightarrow> bool" where
  "IsPrivateOrReserved cgnat allowedPrivate ip =
     (if ip = NilIP then True
      else if IsHardDeniedIP ip then True
      else if IsAllowedPrivateIP allowedPrivate ip then False
      else if IsPrivate ip then True
      else list_ex (\<lambda>n. net_contains n ip) (extraReservedCIDRs cgnat))"

datatype guard_error =
    ErrPrivateAddress | ErrRedirectBlocked | ErrInlineCredentials | ErrUnsupportedScheme
  | ErrSplitHostPort | ErrResolve | ErrParseURL | ErrMissingHost
  | ErrV8EndpointInvalid | ErrV8AddressProhibited | ErrV8ResolutionFailed | ErrV8ConnectionFailed
  | ErrV8RedirectBlocked | ErrContextCanceled | ErrContextDeadlineExceeded

text \<open>What is handed to the dialer: the original text, or a literal address and a port.\<close>

datatype dial_target = DialText string | DialIP IP string | DialAddr Addr string

fun first_public :: "bool \<Rightarrow> Addr list \<Rightarrow> IP option \<Rightarrow> IP list \<Rightarrow> guard_error + IP option" where
  "first_public cgnat allowedPrivate public [] = Inr public"
| "first_public cgnat allowedPrivate public (ip # ips) =
     (if IsPrivateOrReserved cgnat allowedPrivate ip then Inl ErrPrivateAddress
      else first_public cgnat allowedPrivate (case public of None \<Rightarrow> Some ip | Some p \<Rightarrow> Some p) ips)"

definition SafeDialContext ::
  "bool \<Rightarrow> Addr list \<Rightarrow> (string \<Rightarrow> (string \<times> string) option) \<Rightarrow> (string \<Rightarrow> IP) \<Rightarrow> (string \<Rightarrow> IP list option)
     \<Rightarrow> string \<Rightarrow> guard_error + dial_target" where
  "SafeDialContext cgnat allowedPrivate SplitHostPort ParseIP LookupIPAddr addr =
     (case SplitHostPort addr of
        None \<Rightarrow> Inl ErrSplitHostPort
      | Some (host, port) \<Rightarrow>
          if ParseIP host \<noteq> NilIP
          then if IsPrivateOrReserved cgnat allowedPrivate (ParseIP host) then Inl ErrPrivateAddress else Inr (DialText addr)
          else case LookupIPAddr host of
            None \<Rightarrow> Inl ErrResolve
          | Some ips \<Rightarrow>
              if ips = [] then Inl ErrPrivateAddress
              else case first_public cgnat allowedPrivate None ips of
                Inl e \<Rightarrow> Inl e
              | Inr (Some ip) \<Rightarrow> Inr (DialIP ip port)
              | Inr None \<Rightarrow> Inl ErrPrivateAddress)"

record URL =
  u_Scheme :: string
  u_HasUser :: bool
  u_Host :: string
  u_Hostname :: string
  u_Port :: string

definition RejectInlineCredentials :: "URL option \<Rightarrow> guard_error option" where
  "RejectInlineCredentials u = (case u of None \<Rightarrow> None | Some u \<Rightarrow> if u_HasUser u then Some ErrInlineCredentials else None)"

definition BlockRedirects :: "guard_error option" where
  "BlockRedirects = Some ErrRedirectBlocked"

definition ValidateOutboundURL ::
  "bool \<Rightarrow> Addr list \<Rightarrow> (string \<Rightarrow> URL option) \<Rightarrow> (string \<Rightarrow> IP) \<Rightarrow> (string \<Rightarrow> IP list option) \<Rightarrow> string \<Rightarrow> guard_error + URL" where
  "ValidateOutboundURL cgnat allowedPrivate Parse ParseIP LookupIPAddr raw =
     (case Parse raw of
        None \<Rightarrow> Inl ErrParseURL
      | Some u \<Rightarrow>
          if u_Scheme u \<noteq> ''http'' \<and> u_Scheme u \<noteq> ''https'' then Inl ErrUnsupportedScheme
          else case RejectInlineCredentials (Some u) of
            Some e \<Rightarrow> Inl e
          | None \<Rightarrow>
              if u_Hostname u = [] then Inl ErrMissingHost
              else if ParseIP (u_Hostname u) \<noteq> NilIP
              then if IsPrivateOrReserved cgnat allowedPrivate (ParseIP (u_Hostname u)) then Inl ErrPrivateAddress else Inr u
              else case LookupIPAddr (u_Hostname u) of
                None \<Rightarrow> Inl ErrResolve
              | Some ips \<Rightarrow>
                  if ips = [] then Inl ErrPrivateAddress
                  else if list_ex (IsPrivateOrReserved cgnat allowedPrivate) ips then Inl ErrPrivateAddress
                  else Inr u)"

subsection \<open>netguard_v8.go\<close>

record V8NetworkSafetyPolicy =
  AllowPrivateNetworks :: bool
  AllowCGNAT :: bool

definition v8CGNATPrefix :: Prefix where
  "v8CGNATPrefix = Prefix4 0x64400000 10"

definition v8MetadataPrefixes :: "Prefix list" where
  "v8MetadataPrefixes =
     [Prefix4 0xA9FEA9FE 32, Prefix4 0xA9FEAA00 24, Prefix4 0x646464C8 32,
      Prefix6 0xFD000EC2000000000000000000000254 128, Prefix6 0xFE8000000000000000000000A9FEA9FE 128]"

definition v8ReservedPrefixes :: "Prefix list" where
  "v8ReservedPrefixes =
     [Prefix4 0x00000000 8, Prefix4 0xC0000000 24, Prefix4 0xC0000200 24, Prefix4 0xC0586300 24,
      Prefix4 0xC6120000 15, Prefix4 0xC6336400 24, Prefix4 0xCB007100 24, Prefix4 0xF0000000 4,
      Prefix6 0 96, Prefix6 0x0064FF9B000000000000000000000000 96,
      Prefix6 0x01000000000000000000000000000000 64, Prefix6 0x0064FF9B000100000000000000000000 48,
      Prefix6 0x20010000000000000000000000000000 23, Prefix6 0x20010DB8000000000000000000000000 32,
      Prefix6 0x20020000000000000000000000000000 16, Prefix6 0x3FFF0000000000000000000000000000 20,
      Prefix6 0x5F000000000000000000000000000000 16]"

definition prefixContains :: "Prefix list \<Rightarrow> Addr \<Rightarrow> bool" where
  "prefixContains ps addr = list_ex (\<lambda>p. prefix_contains p addr) ps"

definition allowsAddr :: "V8NetworkSafetyPolicy \<Rightarrow> Addr \<Rightarrow> bool" where
  "allowsAddr p addr =
     (if addr = NoAddr \<or> (case addr of Addr6 w z \<Rightarrow> z \<noteq> [] | _ \<Rightarrow> False) then False
      else let addr = Unmap addr; ip = addr_ip addr
           in if prefixContains v8MetadataPrefixes addr then False
              else if addr_unspecified addr \<or> IsLinkLocalUnicast ip \<or> IsLinkLocalMulticast ip \<or>
                IsInterfaceLocalMulticast ip \<or> IsMulticast ip then False
              else if prefix_contains v8CGNATPrefix addr then AllowCGNAT p
              else if IsLoopback ip \<or> IsPrivate ip then AllowPrivateNetworks p
              else if prefixContains v8ReservedPrefixes addr then False
              else True)"

definition ValidateIP :: "V8NetworkSafetyPolicy \<Rightarrow> IP \<Rightarrow> guard_error option" where
  "ValidateIP p ip =
     (case AddrFromSlice ip of
        None \<Rightarrow> Some ErrV8AddressProhibited
      | Some addr \<Rightarrow> if \<not> allowsAddr p (Unmap addr) then Some ErrV8AddressProhibited else None)"

text \<open>\<open>strconv.Atoi\<close>: an optional sign and decimal digits whose value fits 64 bits.\<close>

definition parse_digits :: "string \<Rightarrow> nat option" where
  "parse_digits s =
     (if s \<noteq> [] \<and> list_all (\<lambda>c. 48 \<le> byte_val c \<and> byte_val c \<le> 57) s
      then Some (foldl (\<lambda>n c. 10 * n + (byte_val c - 48)) 0 s) else None)"

definition Atoi :: "string \<Rightarrow> int option" where
  "Atoi s =
     (case s of
        [] \<Rightarrow> None
      | c # cs \<Rightarrow>
          let neg = (c = CHR ''-''); digits = (if neg \<or> c = CHR ''+'' then cs else s)
          in case parse_digits digits of
               None \<Rightarrow> None
             | Some n \<Rightarrow> if neg then (if int n \<le> intMax + 1 then Some (- int n) else None)
                 else if int n \<le> intMax then Some (int n) else None)"

definition validV8Port :: "string \<Rightarrow> bool" where
  "validV8Port port = (case Atoi port of Some n \<Rightarrow> 0 < n \<and> n \<le> 65535 | None \<Rightarrow> False)"

definition validV8URLPort :: "URL option \<Rightarrow> bool" where
  "validV8URLPort u =
     (case u of None \<Rightarrow> False
      | Some u \<Rightarrow> if HasSuffix (u_Host u) '':'' then False else u_Port u = [] \<or> validV8Port (u_Port u))"

definition v8NetworkMatches :: "string \<Rightarrow> Addr \<Rightarrow> bool" where
  "v8NetworkMatches network addr =
     (if network = ''tcp4'' then (case addr of Addr4 a \<Rightarrow> True | _ \<Rightarrow> False)
      else if network = ''tcp6'' then (case addr of Addr6 w z \<Rightarrow> True | _ \<Rightarrow> False)
      else True)"

definition parseV8Literal :: "(string \<Rightarrow> Addr option) \<Rightarrow> string \<Rightarrow> Addr option" where
  "parseV8Literal ParseAddr host = map_option Unmap (ParseAddr host)"

definition v8_scheme_ok :: "unicode_map \<Rightarrow> URL \<Rightarrow> bool" where
  "v8_scheme_ok uni u \<longleftrightarrow> EqualFold uni (u_Scheme u) ''http'' \<or> EqualFold uni (u_Scheme u) ''https''"

definition ParseV8PushURL ::
  "unicode_map \<Rightarrow> (string \<Rightarrow> URL option) \<Rightarrow> (string \<Rightarrow> Addr option) \<Rightarrow> string \<Rightarrow> V8NetworkSafetyPolicy \<Rightarrow> guard_error + URL" where
  "ParseV8PushURL uni Parse ParseAddr raw policy =
     (case Parse raw of
        None \<Rightarrow> Inl ErrV8EndpointInvalid
      | Some u \<Rightarrow>
          if \<not> v8_scheme_ok uni u then Inl ErrUnsupportedScheme
          else case RejectInlineCredentials (Some u) of
            Some e \<Rightarrow> Inl e
          | None \<Rightarrow>
              if u_Hostname u = [] \<or> \<not> validV8URLPort (Some u) then Inl ErrV8EndpointInvalid
              else case parseV8Literal ParseAddr (u_Hostname u) of
                Some addr \<Rightarrow> if \<not> allowsAddr policy addr then Inl ErrV8AddressProhibited else Inr u
              | None \<Rightarrow> Inr u)"

text \<open>
  A context is nil or gives, at each of its reads in program order, the value of \<open>Err\<close>.  A resolver
  answers with an error or with addresses.
\<close>

type_synonym context_reads = "(nat \<Rightarrow> guard_error option) option"

definition boundedContextError :: "context_reads \<Rightarrow> nat \<Rightarrow> guard_error \<Rightarrow> guard_error option" where
  "boundedContextError ctx i err =
     (case ctx of
        Some reads \<Rightarrow>
          (case reads i of Some e \<Rightarrow> Some e
           | None \<Rightarrow> if err = ErrContextCanceled \<or> err = ErrContextDeadlineExceeded then Some err else None)
      | None \<Rightarrow> if err = ErrContextCanceled \<or> err = ErrContextDeadlineExceeded then Some err else None)"

fun select_addr :: "V8NetworkSafetyPolicy \<Rightarrow> string \<Rightarrow> Addr \<Rightarrow> IP list \<Rightarrow> guard_error + Addr" where
  "select_addr policy network selected [] = (if selected = NoAddr then Inl ErrV8ResolutionFailed else Inr selected)"
| "select_addr policy network selected (ip # ips) =
     (case AddrFromSlice ip of
        None \<Rightarrow> Inl ErrV8AddressProhibited
      | Some addr \<Rightarrow>
          if \<not> allowsAddr policy (Unmap addr) then Inl ErrV8AddressProhibited
          else select_addr policy network
                 (if selected = NoAddr \<and> v8NetworkMatches network (Unmap addr) then Unmap addr else selected) ips)"

definition resolveV8 ::
  "context_reads \<Rightarrow> string \<Rightarrow> V8NetworkSafetyPolicy \<Rightarrow> (string \<Rightarrow> guard_error + IP list) \<Rightarrow> string \<Rightarrow> guard_error + Addr" where
  "resolveV8 ctx host policy LookupIPAddr network =
     (case ctx of
        None \<Rightarrow> Inl ErrV8EndpointInvalid
      | Some reads \<Rightarrow>
          (case reads 0 of
             Some e \<Rightarrow> Inl e
           | None \<Rightarrow>
               (case LookupIPAddr host of
                  Inl err \<Rightarrow> (case boundedContextError ctx 1 err of Some e \<Rightarrow> Inl e | None \<Rightarrow> Inl ErrV8ResolutionFailed)
                | Inr ips \<Rightarrow>
                    (case reads 1 of
                       Some e \<Rightarrow> Inl e
                     | None \<Rightarrow> if ips = [] then Inl ErrV8ResolutionFailed else select_addr policy network NoAddr ips))))"

definition ResolveV8PushURL ::
  "unicode_map \<Rightarrow> (string \<Rightarrow> Addr option) \<Rightarrow> context_reads \<Rightarrow> URL option \<Rightarrow> V8NetworkSafetyPolicy
     \<Rightarrow> (string \<Rightarrow> guard_error + IP list) \<Rightarrow> guard_error option" where
  "ResolveV8PushURL uni ParseAddr ctx url policy LookupIPAddr =
     (case (ctx, url) of
        (Some reads, Some u) \<Rightarrow>
          if \<not> v8_scheme_ok uni u then Some ErrUnsupportedScheme
          else (case RejectInlineCredentials (Some u) of
            Some e \<Rightarrow> Some e
          | None \<Rightarrow>
              if u_Hostname u = [] \<or> \<not> validV8URLPort (Some u) then Some ErrV8EndpointInvalid
              else (case parseV8Literal ParseAddr (u_Hostname u) of
                Some addr \<Rightarrow> if \<not> allowsAddr policy addr then Some ErrV8AddressProhibited else None
              | None \<Rightarrow>
                  (case resolveV8 ctx (u_Hostname u) policy LookupIPAddr ''tcp'' of Inl e \<Rightarrow> Some e | Inr addr \<Rightarrow> None)))
      | _ \<Rightarrow> Some ErrV8EndpointInvalid)"

text \<open>
  \<open>dial\<close> is the dialer: an error, or whether the connection it returned is not nil.  The result
  is the target of the attempt, if there was one, and what the caller gets.
\<close>

definition V8SafeDialContext ::
  "V8NetworkSafetyPolicy \<Rightarrow> (string \<Rightarrow> (string \<times> string) option) \<Rightarrow> (string \<Rightarrow> Addr option)
     \<Rightarrow> (string \<Rightarrow> guard_error + IP list) \<Rightarrow> (dial_target \<Rightarrow> guard_error + bool) \<Rightarrow> context_reads \<Rightarrow> string \<Rightarrow> string
     \<Rightarrow> dial_target option \<times> (guard_error + unit)" where
  "V8SafeDialContext policy SplitHostPort ParseAddr LookupIPAddr dial ctx network address =
     (case ctx of
        None \<Rightarrow> (None, Inl ErrV8EndpointInvalid)
      | Some reads \<Rightarrow>
          if network \<noteq> ''tcp'' \<and> network \<noteq> ''tcp4'' \<and> network \<noteq> ''tcp6'' then (None, Inl ErrV8EndpointInvalid)
          else (case SplitHostPort address of
            None \<Rightarrow> (None, Inl ErrV8EndpointInvalid)
          | Some (host, port) \<Rightarrow>
              if host = [] \<or> \<not> validV8Port port then (None, Inl ErrV8EndpointInvalid)
              else (case
                  (case parseV8Literal ParseAddr host of
                     Some literal \<Rightarrow>
                       if \<not> allowsAddr policy literal \<or> \<not> v8NetworkMatches network literal
                       then Inl ErrV8AddressProhibited else Inr literal
                   | None \<Rightarrow> resolveV8 ctx host policy LookupIPAddr network) of
                Inl e \<Rightarrow> (None, Inl e)
              | Inr selected \<Rightarrow>
                  (case reads 2 of
                     Some e \<Rightarrow> (None, Inl e)
                   | None \<Rightarrow>
                       (Some (DialAddr selected port),
                        case dial (DialAddr selected port) of
                          Inl err \<Rightarrow> (case boundedContextError ctx 3 err of Some e \<Rightarrow> Inl e | None \<Rightarrow> Inl ErrV8ConnectionFailed)
                        | Inr False \<Rightarrow> Inl ErrV8ConnectionFailed
                        | Inr True \<Rightarrow> (case reads 3 of Some e \<Rightarrow> Inl e | None \<Rightarrow> Inr ()))))))"

definition BlockV8Redirects :: "guard_error option" where
  "BlockV8Redirects = Some ErrV8RedirectBlocked"

subsection \<open>Mapped addresses and octets\<close>

lemma embedded_high: "drop_bit 32 (ucast (a :: 32 word) :: 128 word) = 0"
  by (rule bit_word_eqI) (auto simp: bit_simps dest: bit_imp_le_length)

lemma embedded_low: "ucast (push_bit 32 hi OR ucast (a :: 32 word) :: 128 word) = a"
  by (rule bit_word_eqI) (auto simp: bit_simps)

lemma mapped_4in6 [simp]: "is_4in6 (mapped a)"
  unfolding is_4in6_def mapped_def by (simp only: drop_bit_or embedded_high) simp

lemma low32_mapped [simp]: "low32 (mapped a) = a"
  unfolding low32_def mapped_def by (rule embedded_low)

lemma unat32: "unat (a :: 32 word) < 4294967296"
  using unsigned_less [of a] by simp

lemma take32 [simp]: "take_bit 32 (unat (a :: 32 word)) = unat a"
  using unat32 [of a] by (simp add: take_bit_nat_eq_self)

lemma unat_octet4: "unat (octet4 a i) = unat a div 2 ^ (24 - 8 * i) mod 256"
proof -
  have "octet4 a i = take_bit 8 (drop_bit (24 - 8 * i) a)"
    by (simp add: octet4_def take_bit_eq_mask mask_numeral)
  then have "unat (octet4 a i) = take_bit 8 (drop_bit (24 - 8 * i) (unat a))"
    by (simp add: unsigned_take_bit_eq unsigned_drop_bit_eq)
  then show ?thesis by (simp add: take_bit_eq_mod drop_bit_eq_div)
qed

lemma high_nibble: "x AND 0xF0 = 16 * (x div 16 mod 16)" for x :: nat
proof -
  have "x AND push_bit 4 (mask 4) = push_bit 4 (take_bit 4 (drop_bit 4 x))"
    by (rule bit_eqI) (auto simp: bit_simps)
  then show ?thesis by (simp add: push_bit_eq_mult take_bit_eq_mod drop_bit_eq_div mask_eq_exp_minus_1)
qed

lemma octet4_nibble:
  "(octet4 a i AND 0xF0 = 0xE0) = (unat (octet4 a i) div 16 = 14)"
  "(octet4 a i AND 0xF0 = 16) = (unat (octet4 a i) div 16 = 1)"
proof -
  have lt: "unat (octet4 a i) < 256" by (simp add: unat_octet4)
  have "unat (octet4 a i AND 0xF0) = unat (octet4 a i) AND 0xF0" by (simp add: unsigned_and_eq)
  then show "(octet4 a i AND 0xF0 = 0xE0) = (unat (octet4 a i) div 16 = 14)"
    and "(octet4 a i AND 0xF0 = 16) = (unat (octet4 a i) div 16 = 1)"
    using lt by (auto simp: word_unat_eq_iff high_nibble)
qed

lemma octet4_eq: "n < 256 \<Longrightarrow> (octet4 a i = of_nat n) = (unat (octet4 a i) = n)"
  by (auto simp: word_unat_eq_iff unat_of_nat)

lemma prefix4_nat:
  "(drop_bit n (a :: 32 word) = drop_bit n b) = (unat a div 2 ^ n = unat b div 2 ^ n)"
proof -
  have "unat (drop_bit n c) = unat c div 2 ^ n" for c :: "32 word"
  proof -
    have "unat (drop_bit n c) = drop_bit n (unat c)" by (simp add: unsigned_drop_bit_eq)
    then show ?thesis by (simp only: drop_bit_eq_div)
  qed
  then show ?thesis by (simp add: word_unat_eq_iff)
qed

subsection \<open>The IPv4 ranges\<close>

definition range4 :: "nat \<Rightarrow> nat \<Rightarrow> 32 word \<Rightarrow> bool" where
  "range4 lo hi a \<longleftrightarrow> lo \<le> unat a \<and> unat a \<le> hi"

text \<open>0.0.0.0, 127.0.0.0/8, 169.254.0.0/16 and 224.0.0.0/4; RFC 1918; RFC 6598.\<close>

definition hard_denied4 :: "32 word \<Rightarrow> bool" where
  "hard_denied4 a \<longleftrightarrow> a = 0 \<or> range4 0x7F000000 0x7FFFFFFF a \<or> range4 0xA9FE0000 0xA9FEFFFF a \<or> range4 0xE0000000 0xEFFFFFFF a"

definition private4 :: "32 word \<Rightarrow> bool" where
  "private4 a \<longleftrightarrow> range4 0x0A000000 0x0AFFFFFF a \<or> range4 0xAC100000 0xAC1FFFFF a \<or> range4 0xC0A80000 0xC0A8FFFF a"

definition cgnat4 :: "32 word \<Rightarrow> bool" where
  "cgnat4 a \<longleftrightarrow> range4 0x64400000 0x647FFFFF a"

lemma loopback4: "IsLoopback (IP4 a) = range4 0x7F000000 0x7FFFFFFF a"
  using octet4_eq [of 127 a 0] unat32 [of a] by (auto simp: IsLoopback_def To4_def unat_octet4 range4_def)

lemma multicast4: "IsMulticast (IP4 a) = range4 0xE0000000 0xEFFFFFFF a"
  using unat32 [of a] by (auto simp: IsMulticast_def To4_def octet4_nibble unat_octet4 range4_def)

lemma octet_pair:
  fixes a :: "32 word"
  shows "unat a div 16777216 mod 256 = p \<and> unat a div 65536 mod 256 = q \<longleftrightarrow>
     range4 (65536 * (256 * p + q)) (65536 * (256 * p + q) + 65535) a \<and> q < 256"
proof -
  define x where "x = unat a div 65536"
  have x: "x < 65536" using unat32 [of a] by (simp add: x_def)
  have "unat a div 16777216 = x div 256" by (simp add: x_def div_mult2_eq)
  then have "unat a div 16777216 mod 256 = p \<and> unat a div 65536 mod 256 = q \<longleftrightarrow> x div 256 = p \<and> x mod 256 = q"
    using x by (simp add: x_def)
  also have "\<dots> \<longleftrightarrow> x = 256 * p + q \<and> q < 256" by auto
  also have "\<dots> \<longleftrightarrow> range4 (65536 * (256 * p + q)) (65536 * (256 * p + q) + 65535) a \<and> q < 256"
    unfolding range4_def x_def by auto
  finally show ?thesis .
qed

lemma link_local4: "IsLinkLocalUnicast (IP4 a) = range4 0xA9FE0000 0xA9FEFFFF a"
  using octet4_eq [of 169 a 0] octet4_eq [of 254 a 1] octet_pair [of a 169 254]
  by (simp add: IsLinkLocalUnicast_def To4_def unat_octet4)

lemma link_local_multicast4: "IsLinkLocalMulticast (IP4 a) \<Longrightarrow> range4 0xE0000000 0xEFFFFFFF a"
  using octet4_eq [of 224 a 0] unat32 [of a] unat_octet4 [of a 0]
  by (auto simp: IsLinkLocalMulticast_def To4_def unat_octet4 range4_def)

lemma private4_eq: "IsPrivate (IP4 a) = private4 a"
proof -
  have "octet4 a 0 = 10 \<longleftrightarrow> range4 0x0A000000 0x0AFFFFFF a"
    using octet4_eq [of 10 a 0] unat32 [of a] by (auto simp: unat_octet4 range4_def)
  moreover have "octet4 a 0 = 192 \<and> octet4 a 1 = 168 \<longleftrightarrow> range4 0xC0A80000 0xC0A8FFFF a"
    using octet4_eq [of 192 a 0] octet4_eq [of 168 a 1] octet_pair [of a 192 168] by (simp add: unat_octet4)
  moreover have "octet4 a 0 = 172 \<and> octet4 a 1 AND 0xF0 = 16 \<longleftrightarrow> range4 0xAC100000 0xAC1FFFFF a"
  proof -
    define x where "x = unat a div 65536"
    have "unat a div 16777216 mod 256 = x div 256" "unat a div 65536 mod 256 = x mod 256"
      using unat32 [of a] by (simp_all add: x_def div_mult2_eq)
    moreover have "x div 256 = 172 \<and> x mod 256 div 16 = 1 \<longleftrightarrow> 44048 \<le> x \<and> x < 44064"
    proof
      assume "x div 256 = 172 \<and> x mod 256 div 16 = 1"
      then have "x = 256 * 172 + x mod 256" "16 \<le> x mod 256" "x mod 256 < 32"
        using div_mult_mod_eq [of x 256] by auto
      then show "44048 \<le> x \<and> x < 44064" by linarith
    next
      assume x: "44048 \<le> x \<and> x < 44064"
      then have d: "x div 256 = 172" by (intro div_nat_eqI) simp_all
      have "x mod 256 = x - 256 * (x div 256)" by (rule minus_mult_div_eq_mod [symmetric])
      with d have "x mod 256 = x - 44032" by simp
      moreover have "16 \<le> x - 44032" "x - 44032 < 32" using x by linarith+
      ultimately have "x mod 256 div 16 = 1" by (intro div_nat_eqI) simp_all
      with d show "x div 256 = 172 \<and> x mod 256 div 16 = 1" by blast
    qed
    moreover have "44048 \<le> x \<and> x < 44064 \<longleftrightarrow> range4 0xAC100000 0xAC1FFFFF a" by (auto simp: range4_def x_def)
    ultimately have "unat a div 16777216 mod 256 = 172 \<and> unat a div 65536 mod 256 div 16 = 1 \<longleftrightarrow>
      range4 0xAC100000 0xAC1FFFFF a" by simp
    then show ?thesis using octet4_eq [of 172 a 0] by (simp add: octet4_nibble unat_octet4)
  qed
  ultimately show ?thesis by (simp add: IsPrivate_def To4_def private4_def)
qed

lemma metadata4: "IsCloudMetadataIP (IP4 a) = (a = 0xA9FEA9FE \<or> a = 0xA9FEAA02)"
proof -
  have "\<not> is_4in6 0xFD000EC2000000000000000000000254" by code_simp
  then show ?thesis by (auto simp: IsCloudMetadataIP_def cloudMetadataIPs_def Equal_def To4_def)
qed

lemma hard_denied4_eq: "IsHardDeniedIP (IP4 a) = hard_denied4 a"
proof -
  have u: "IsUnspecified (IP4 a) = (a = 0)" by (simp add: IsUnspecified_def To4_def)
  have m: "a = 0xA9FEA9FE \<or> a = 0xA9FEAA02 \<Longrightarrow> range4 0xA9FE0000 0xA9FEFFFF a" by (auto simp: range4_def)
  have t: "To4 (IP4 a) = Some a" by (simp add: To4_def)
  have i: "\<not> IsInterfaceLocalMulticast (IP4 a)" by (simp add: IsInterfaceLocalMulticast_def)
  show ?thesis
    using m link_local_multicast4 [of a]
    by (auto simp: IsHardDeniedIP_def hard_denied4_def t u i loopback4 multicast4 link_local4 metadata4)
qed

lemma cgnat4_eq: "net_contains (Net4 0x64400000 10) (IP4 a) = cgnat4 a"
  using prefix4_nat [where n = 22 and a = a and b = "0x64400000"] unat32 [of a]
  by (auto simp: net_contains_def To4_def cgnat4_def range4_def)

lemma single_net4: "net_contains (Net4 b 32) (IP4 a) = (a = b)"
  by (simp add: net_contains_def To4_def)

lemma metadata_hard: "hard_denied4 0xA9FEA9FE" "hard_denied4 0xA9FEAA02"
  by (simp_all add: hard_denied4_def range4_def)

lemma reserved4:
  "IsPrivateOrReserved cgnat allowed (IP4 a) \<longleftrightarrow>
     hard_denied4 a \<or> Addr4 a \<notin> set allowed \<and> (private4 a \<or> \<not> cgnat \<and> cgnat4 a)"
proof -
  have "\<not> net_contains (Net6 b n) (IP4 a)" for b n by (simp add: net_contains_def To4_def)
  moreover have "IsAllowedPrivateIP allowed (IP4 a) = (Addr4 a \<in> set allowed)"
    by (simp add: IsAllowedPrivateIP_def AddrFromSlice_def Unmap_def)
  ultimately show ?thesis
    using metadata_hard
    by (auto simp: IsPrivateOrReserved_def hard_denied4_eq private4_eq extraReservedCIDRs_def cgnat4_eq single_net4)
qed

lemma reserved_mapped:
  assumes "is_4in6 w"
  shows "IsPrivateOrReserved cgnat allowed (IP16 w) = IsPrivateOrReserved cgnat allowed (IP4 (low32 w))"
proof -
  have t: "To4 (IP16 w) = Some (low32 w)" "To4 (IP4 (low32 w)) = Some (low32 w)" using assms by (simp_all add: To4_def)
  have "IsHardDeniedIP (IP16 w) = IsHardDeniedIP (IP4 (low32 w))" by (simp add: IsHardDeniedIP_def t)
  moreover have "IsAllowedPrivateIP allowed (IP16 w) = IsAllowedPrivateIP allowed (IP4 (low32 w))"
    using assms by (simp add: IsAllowedPrivateIP_def AddrFromSlice_def Unmap_def)
  moreover have "IsPrivate (IP16 w) = IsPrivate (IP4 (low32 w))" by (simp add: IsPrivate_def t)
  moreover have "net_contains n (IP16 w) = net_contains n (IP4 (low32 w))" for n
    by (cases n) (simp_all add: net_contains_def t)
  ultimately show ?thesis by (simp add: IsPrivateOrReserved_def)
qed

subsection \<open>Dialling\<close>

lemma first_public_all:
  "first_public cgnat allowed public ips = Inr r \<Longrightarrow>
     list_all (\<lambda>ip. \<not> IsPrivateOrReserved cgnat allowed ip) ips \<and>
     r = (case public of Some p \<Rightarrow> Some p | None \<Rightarrow> (case ips of [] \<Rightarrow> None | ip # _ \<Rightarrow> Some ip))"
  by (induction ips arbitrary: public) (fastforce split: if_splits option.splits list.splits)+

lemma select_addr_sound:
  "select_addr policy network selected ips = Inr addr \<Longrightarrow>
     addr = selected \<or> (\<exists>ip \<in> set ips. \<exists>a. AddrFromSlice ip = Some a \<and> addr = Unmap a \<and> allowsAddr policy addr \<and> v8NetworkMatches network addr)"
proof (induction ips arbitrary: selected)
  case (Cons ip ips)
  then obtain a where a: "AddrFromSlice ip = Some a" "allowsAddr policy (Unmap a)"
    by (auto split: option.splits if_splits)
  let ?s = "if selected = NoAddr \<and> v8NetworkMatches network (Unmap a) then Unmap a else selected"
  have "select_addr policy network ?s ips = Inr addr" using Cons.prems a by simp
  from Cons.IH [OF this] show ?case using a by (auto split: if_splits)
qed (auto split: if_splits)

lemma Unmap_idem [simp]: "Unmap (Unmap addr) = Unmap addr"
  by (auto simp: Unmap_def split: Addr.splits)

lemma select_addr_valid: "select_addr policy network NoAddr ips = Inr addr \<Longrightarrow> addr \<noteq> NoAddr"
proof -
  have "select_addr policy network selected ips = Inr addr \<Longrightarrow> addr \<noteq> NoAddr" for selected
    by (induction ips arbitrary: selected) (auto split: if_splits option.splits)
  then show "select_addr policy network NoAddr ips = Inr addr \<Longrightarrow> addr \<noteq> NoAddr" by blast
qed

lemma resolveV8_sound:
  assumes "resolveV8 ctx host policy LookupIPAddr network = Inr addr"
  shows "allowsAddr policy addr \<and> Unmap addr = addr \<and> v8NetworkMatches network addr"
proof -
  obtain ips where "select_addr policy network NoAddr ips = Inr addr"
    using assms by (auto simp: resolveV8_def split: option.splits sum.splits if_splits)
  from select_addr_sound [OF this] select_addr_valid [OF this] show ?thesis by auto
qed

lemma select_addr_all:
  "select_addr policy network selected ips = Inr addr \<Longrightarrow>
     \<forall>ip \<in> set ips. \<exists>a. AddrFromSlice ip = Some a \<and> allowsAddr policy (Unmap a)"
  by (induction ips arbitrary: selected) (auto split: option.splits if_splits)

lemma resolveV8_answers:
  assumes "resolveV8 ctx host policy LookupIPAddr network = Inr addr"
  obtains ips where "LookupIPAddr host = Inr ips" "\<forall>ip \<in> set ips. \<exists>a. AddrFromSlice ip = Some a \<and> allowsAddr policy (Unmap a)"
    "\<exists>ip \<in> set ips. \<exists>a. AddrFromSlice ip = Some a \<and> addr = Unmap a"
proof -
  obtain ips where ips: "LookupIPAddr host = Inr ips" "select_addr policy network NoAddr ips = Inr addr"
    using assms by (auto simp: resolveV8_def split: option.splits sum.splits if_splits)
  have "\<exists>ip \<in> set ips. \<exists>a. AddrFromSlice ip = Some a \<and> addr = Unmap a"
    using select_addr_sound [OF ips(2)] select_addr_valid [OF ips(2)] by blast
  with ips select_addr_all [OF ips(2)] that show thesis by blast
qed

lemma dialled_address:
  assumes "V8SafeDialContext policy SplitHostPort ParseAddr LookupIPAddr dial ctx network address = (Some target, result)"
  obtains host port addr where "SplitHostPort address = Some (host, port)" "target = DialAddr addr port"
    "(case parseV8Literal ParseAddr host of
        Some literal \<Rightarrow> if \<not> allowsAddr policy literal \<or> \<not> v8NetworkMatches network literal then Inl ErrV8AddressProhibited else Inr literal
      | None \<Rightarrow> resolveV8 ctx host policy LookupIPAddr network) = Inr addr"
proof -
  obtain reads host port where c: "ctx = Some reads" "SplitHostPort address = Some (host, port)"
    using assms unfolding V8SafeDialContext_def by (cases ctx; cases "SplitHostPort address") (auto split: if_splits)
  define found where "found = (case parseV8Literal ParseAddr host of
      Some literal \<Rightarrow> if \<not> allowsAddr policy literal \<or> \<not> v8NetworkMatches network literal then Inl ErrV8AddressProhibited else Inr literal
    | None \<Rightarrow> resolveV8 (Some reads) host policy LookupIPAddr network)"
  have "\<exists>addr. found = Inr addr \<and> target = DialAddr addr port"
    using assms unfolding V8SafeDialContext_def c option.case prod.case found_def [symmetric]
    by (cases found) (auto split: if_splits option.splits)
  then show thesis using that c unfolding found_def by blast
qed

subsection \<open>The ranges of the exporter guard\<close>

text \<open>The addresses an exporter may reach, as a table: an address is its number, a range its first and last address.\<close>

definition in_ranges :: "(nat \<times> nat) list \<Rightarrow> nat \<Rightarrow> bool" where
  "in_ranges ranges n \<longleftrightarrow> list_ex (\<lambda>(lo, hi). lo \<le> n \<and> n \<le> hi) ranges"

text \<open>
  In order: 0.0.0.0/8, the metadata service 100.100.100.200, link-local addresses with the other metadata services, the
  protocol and documentation blocks 192.0.0.0/24, 192.0.2.0/24, 192.88.99.0/24, 198.18.0.0/15, 198.51.100.0/24 and
  203.0.113.0/24, multicast, and 240.0.0.0/4.
\<close>

definition exporter_prohibited4 :: "(nat \<times> nat) list" where
  "exporter_prohibited4 =
     [(0x00000000, 0x00FFFFFF), (0x646464C8, 0x646464C8), (0xA9FE0000, 0xA9FEFFFF), (0xC0000000, 0xC00000FF),
      (0xC0000200, 0xC00002FF), (0xC0586300, 0xC05863FF), (0xC6120000, 0xC613FFFF), (0xC6336400, 0xC63364FF),
      (0xCB007100, 0xCB0071FF), (0xE0000000, 0xEFFFFFFF), (0xF0000000, 0xFFFFFFFF)]"

text \<open>RFC 1918 and loopback.\<close>

definition exporter_private4 :: "(nat \<times> nat) list" where
  "exporter_private4 =
     [(0x0A000000, 0x0AFFFFFF), (0x7F000000, 0x7FFFFFFF), (0xAC100000, 0xAC1FFFFF), (0xC0A80000, 0xC0A8FFFF)]"

text \<open>
  In order: the unspecified address, \<open>::/96\<close> but for it and \<open>::1\<close>, IPv4-mapped addresses (which are compared as IPv4),
  \<open>64:ff9b::/96\<close>, \<open>64:ff9b:1::/48\<close>, \<open>100::/64\<close>, \<open>2001::/23\<close>, \<open>2001:db8::/32\<close>, \<open>2002::/16\<close>, \<open>3fff::/20\<close>, \<open>5f00::/16\<close>,
  the metadata service \<open>fd00:ec2::254\<close>, link-local and multicast addresses.
\<close>

definition exporter_prohibited6 :: "(nat \<times> nat) list" where
  "exporter_prohibited6 =
     [(0, 0), (2, 0xFFFFFFFF), (0xFFFF00000000, 0xFFFFFFFFFFFF),
      (0x0064FF9B000000000000000000000000, 0x0064FF9B0000000000000000FFFFFFFF),
      (0x0064FF9B000100000000000000000000, 0x0064FF9B0001FFFFFFFFFFFFFFFFFFFF),
      (0x01000000000000000000000000000000, 0x0100000000000000FFFFFFFFFFFFFFFF),
      (0x20010000000000000000000000000000, 0x200101FFFFFFFFFFFFFFFFFFFFFFFFFF),
      (0x20010DB8000000000000000000000000, 0x20010DB8FFFFFFFFFFFFFFFFFFFFFFFF),
      (0x20020000000000000000000000000000, 0x2002FFFFFFFFFFFFFFFFFFFFFFFFFFFF),
      (0x3FFF0000000000000000000000000000, 0x3FFF0FFFFFFFFFFFFFFFFFFFFFFFFFFF),
      (0x5F000000000000000000000000000000, 0x5F00FFFFFFFFFFFFFFFFFFFFFFFFFFFF),
      (0xFD000EC2000000000000000000000254, 0xFD000EC2000000000000000000000254),
      (0xFE800000000000000000000000000000, 0xFEBFFFFFFFFFFFFFFFFFFFFFFFFFFFFF),
      (0xFF000000000000000000000000000000, 0xFFFFFFFFFFFFFFFFFFFFFFFFFFFFFFFF)]"

text \<open>The loopback address and the unique local addresses \<open>fc00::/7\<close>.\<close>

definition exporter_private6 :: "(nat \<times> nat) list" where
  "exporter_private6 = [(1, 1), (0xFC000000000000000000000000000000, 0xFDFFFFFFFFFFFFFFFFFFFFFFFFFFFFFF)]"

fun exporter_reachable :: "V8NetworkSafetyPolicy \<Rightarrow> Addr \<Rightarrow> bool" where
  "exporter_reachable p NoAddr = False"
| "exporter_reachable p (Addr4 a) \<longleftrightarrow>
     \<not> in_ranges exporter_prohibited4 (unat a) \<and>
     (in_ranges exporter_private4 (unat a) \<longrightarrow> AllowPrivateNetworks p) \<and>
     (in_ranges [(0x64400000, 0x647FFFFF)] (unat a) \<longrightarrow> AllowCGNAT p)"
| "exporter_reachable p (Addr6 w z) \<longleftrightarrow>
     z = [] \<and> \<not> in_ranges exporter_prohibited6 (unat w) \<and>
     (in_ranges exporter_private6 (unat w) \<longrightarrow> AllowPrivateNetworks p)"

lemma div_range: "0 < d \<Longrightarrow> (x div d = q) = (q * d \<le> x \<and> x \<le> q * d + (d - 1))" for x d q :: nat
proof -
  assume d: "0 < d"
  then have "x \<le> q * d + (d - 1) \<longleftrightarrow> x < (q + 1) * d" by (auto simp: algebra_simps)
  moreover have "x div d = q \<longleftrightarrow> q \<le> x div d \<and> x div d < q + 1" by auto
  ultimately show ?thesis using d by (simp only: less_eq_div_iff_mult_less_eq div_less_iff_less_mult)
qed

lemma prefix4_range: "prefix_contains (Prefix4 b n) (Addr4 a) =
    (unat b div 2 ^ (32 - n) * 2 ^ (32 - n) \<le> unat a \<and> unat a \<le> unat b div 2 ^ (32 - n) * 2 ^ (32 - n) + (2 ^ (32 - n) - 1))"
  by (simp add: prefix_contains_def prefix4_nat div_range)

lemma unat_drop128: "unat (drop_bit n (c :: 128 word)) = unat c div 2 ^ n"
proof -
  have "unat (drop_bit n c) = drop_bit n (take_bit 128 (unat c))" by (simp add: unsigned_drop_bit_eq)
  moreover have "take_bit 128 (unat c) = unat c" using unsigned_less [of c] by (intro take_bit_nat_eq_self) simp
  ultimately show ?thesis by (simp only: drop_bit_eq_div)
qed

lemma prefix6_range: "prefix_contains (Prefix6 b n) (Addr6 w z) =
    (z = [] \<and> unat b div 2 ^ (128 - n) * 2 ^ (128 - n) \<le> unat w \<and> unat w \<le> unat b div 2 ^ (128 - n) * 2 ^ (128 - n) + (2 ^ (128 - n) - 1))"
  by (simp add: prefix_contains_def word_unat_eq_iff unat_drop128 div_range)

lemma prefix_family [simp]: "\<not> prefix_contains (Prefix6 b n) (Addr4 a)" "\<not> prefix_contains (Prefix4 b' n) (Addr6 w z)"
  by (simp_all add: prefix_contains_def)

lemma exporter4_prefixes:
  "prefixContains v8MetadataPrefixes (Addr4 a) = in_ranges [(0xA9FEA9FE, 0xA9FEA9FE), (0xA9FEAA00, 0xA9FEAAFF), (0x646464C8, 0x646464C8)] (unat a)"
  "prefixContains v8ReservedPrefixes (Addr4 a) =
     in_ranges [(0, 0x00FFFFFF), (0xC0000000, 0xC00000FF), (0xC0000200, 0xC00002FF), (0xC0586300, 0xC05863FF),
       (0xC6120000, 0xC613FFFF), (0xC6336400, 0xC63364FF), (0xCB007100, 0xCB0071FF), (0xF0000000, 0xFFFFFFFF)] (unat a)"
  "prefix_contains v8CGNATPrefix (Addr4 a) = in_ranges [(0x64400000, 0x647FFFFF)] (unat a)"
  by (simp_all add: prefixContains_def v8MetadataPrefixes_def v8ReservedPrefixes_def v8CGNATPrefix_def prefix4_range in_ranges_def)

lemma exporter6_prefixes:
  "prefixContains v8MetadataPrefixes (Addr6 w []) =
     in_ranges [(0xFD000EC2000000000000000000000254, 0xFD000EC2000000000000000000000254),
       (0xFE8000000000000000000000A9FEA9FE, 0xFE8000000000000000000000A9FEA9FE)] (unat w)"
  "prefixContains v8ReservedPrefixes (Addr6 w []) =
     in_ranges [(0, 0xFFFFFFFF),
      (0x0064FF9B000000000000000000000000, 0x0064FF9B0000000000000000FFFFFFFF),
      (0x01000000000000000000000000000000, 0x0100000000000000FFFFFFFFFFFFFFFF),
      (0x0064FF9B000100000000000000000000, 0x0064FF9B0001FFFFFFFFFFFFFFFFFFFF),
      (0x20010000000000000000000000000000, 0x200101FFFFFFFFFFFFFFFFFFFFFFFFFF),
      (0x20010DB8000000000000000000000000, 0x20010DB8FFFFFFFFFFFFFFFFFFFFFFFF),
      (0x20020000000000000000000000000000, 0x2002FFFFFFFFFFFFFFFFFFFFFFFFFFFF),
      (0x3FFF0000000000000000000000000000, 0x3FFF0FFFFFFFFFFFFFFFFFFFFFFFFFFF),
      (0x5F000000000000000000000000000000, 0x5F00FFFFFFFFFFFFFFFFFFFFFFFFFFFF)] (unat w)"
  "prefix_contains v8CGNATPrefix (Addr6 w z) = False"
  by (simp_all add: prefixContains_def v8MetadataPrefixes_def v8ReservedPrefixes_def v8CGNATPrefix_def prefix6_range in_ranges_def)

lemma octet16_unat: "unat (octet16 w i) = unat w div 2 ^ (120 - 8 * i) mod 256"
proof -
  have "octet16 w i = take_bit 8 (drop_bit (120 - 8 * i) w)"
    by (simp add: octet16_def take_bit_eq_mask mask_numeral)
  then have "unat (octet16 w i) = take_bit 8 (unat (drop_bit (120 - 8 * i) w))"
    by (simp only: unsigned_take_bit_eq)
  then show ?thesis by (simp add: unat_drop128 take_bit_eq_mod)
qed

lemma octets6:
  fixes w :: "128 word"
  defines "x \<equiv> unat w div 2 ^ 112"
  shows "unat (octet16 w 0) = x div 256" "unat (octet16 w 1) = x mod 256"
proof -
  have "unat w < 2 ^ 128" using unsigned_less [of w] by simp
  then have "unat w div 2 ^ 120 < 256" by (simp add: less_mult_imp_div_less)
  moreover have "unat w div 2 ^ 120 = x div 256" by (simp add: x_def div_mult2_eq [symmetric])
  ultimately show "unat (octet16 w 0) = x div 256" "unat (octet16 w 1) = x mod 256"
    unfolding octet16_unat by (simp_all add: x_def)
qed

lemma octet16_eq: "n < 256 \<Longrightarrow> (octet16 w i = of_nat n) = (unat (octet16 w i) = n)"
  by (auto simp: word_unat_eq_iff unat_of_nat)

lemma and_masks: "y AND 0xC0 = 64 * (y div 64 mod 4)" "y AND 0xFE = 2 * (y div 2 mod 128)" for y :: nat
proof -
  have "y AND push_bit 6 (mask 2) = push_bit 6 (take_bit 2 (drop_bit 6 y))"
    "y AND push_bit 1 (mask 7) = push_bit 1 (take_bit 7 (drop_bit 1 y))"
    by (rule bit_eqI; auto simp: bit_simps simp del: push_bit_of_Suc_0 One_nat_def push_bit_Suc)+
  then show "y AND 0xC0 = 64 * (y div 64 mod 4)" "y AND 0xFE = 2 * (y div 2 mod 128)"
    by (simp_all add: push_bit_eq_mult take_bit_eq_mod drop_bit_eq_div mask_eq_exp_minus_1)
qed

lemma octet16_masks:
  "(octet16 w i AND 0xC0 = 0x80) = (unat (octet16 w i) div 64 = 2)"
  "(octet16 w i AND 0xFE = 0xFC) = (unat (octet16 w i) div 2 = 126)"
proof -
  have lt: "unat (octet16 w i) < 256" by (simp add: octet16_unat)
  have "unat (octet16 w i AND 0xC0) = unat (octet16 w i) AND 0xC0" "unat (octet16 w i AND 0xFE) = unat (octet16 w i) AND 0xFE"
    by (simp_all add: unsigned_and_eq)
  then show "(octet16 w i AND 0xC0 = 0x80) = (unat (octet16 w i) div 64 = 2)"
    and "(octet16 w i AND 0xFE = 0xFC) = (unat (octet16 w i) div 2 = 126)"
    using lt by (auto simp: word_unat_eq_iff and_masks)
qed

lemma high_range: "(lo \<le> unat w div 2 ^ 112 \<and> unat w div 2 ^ 112 \<le> hi) =
    (lo * 2 ^ 112 \<le> unat w \<and> unat w \<le> hi * 2 ^ 112 + (2 ^ 112 - 1))" for w :: "128 word"
proof -
  have "unat w div 2 ^ 112 \<le> hi \<longleftrightarrow> unat w div 2 ^ 112 < hi + 1" by auto
  also have "\<dots> \<longleftrightarrow> unat w < (hi + 1) * 2 ^ 112" by (rule div_less_iff_less_mult) simp
  also have "\<dots> \<longleftrightarrow> unat w \<le> hi * 2 ^ 112 + (2 ^ 112 - 1)" by auto
  finally show ?thesis using less_eq_div_iff_mult_less_eq [of "2 ^ 112" lo "unat w"] by simp
qed

lemma octet_ranges6:
  fixes w :: "128 word"
  defines "x \<equiv> unat w div 2 ^ 112"
  shows "(octet16 w 0 = 0xFF) = (0xFF00 \<le> x \<and> x \<le> 0xFFFF)"
    and "(octet16 w 0 = 0xFE \<and> octet16 w 1 AND 0xC0 = 0x80) = (0xFE80 \<le> x \<and> x \<le> 0xFEBF)"
    and "(octet16 w 0 AND 0xFE = 0xFC) = (0xFC00 \<le> x \<and> x \<le> 0xFDFF)"
proof -
  note o = octets6 [of w, folded x_def]
  have "x div 256 = q \<longleftrightarrow> 256 * q \<le> x \<and> x \<le> 256 * q + 255" for q using div_range [of 256 x q] by (simp add: mult.commute)
  then show "(octet16 w 0 = 0xFF) = (0xFF00 \<le> x \<and> x \<le> 0xFFFF)" using octet16_eq [of 255 w 0] o by simp
  have div64: "y div 4 = 254 \<and> y mod 4 = 2 \<longleftrightarrow> y = 1018" for y :: nat
  proof
    assume "y div 4 = 254 \<and> y mod 4 = 2"
    then show "y = 1018" using div_mult_mod_eq [of y 4] by simp
  qed simp
  have "x div 256 = x div 64 div 4" "x mod 256 div 64 = x div 64 mod 4"
    using mod_mult2_eq [of x 64 4] by (simp_all add: div_mult2_eq [symmetric])
  then have "x div 256 = 254 \<and> x mod 256 div 64 = 2 \<longleftrightarrow> x div 64 = 1018" by (simp only: div64)
  then have "x div 256 = 254 \<and> x mod 256 div 64 = 2 \<longleftrightarrow> 0xFE80 \<le> x \<and> x \<le> 0xFEBF" using div_range [of 64 x 1018] by simp
  then show "(octet16 w 0 = 0xFE \<and> octet16 w 1 AND 0xC0 = 0x80) = (0xFE80 \<le> x \<and> x \<le> 0xFEBF)"
    using octet16_eq [of 254 w 0] o by (simp add: octet16_masks)
  have "x div 256 div 2 = 126 \<longleftrightarrow> 0xFC00 \<le> x \<and> x \<le> 0xFDFF"
    using div_range [of 512 x 126] by (simp add: div_mult2_eq [symmetric])
  then show "(octet16 w 0 AND 0xFE = 0xFC) = (0xFC00 \<le> x \<and> x \<le> 0xFDFF)"
    using o by (simp add: octet16_masks)
qed

lemma address_ranges6:
  assumes "\<not> is_4in6 w"
  shows "IsMulticast (IP16 w) = in_ranges [(0xFF000000000000000000000000000000, 0xFFFFFFFFFFFFFFFFFFFFFFFFFFFFFFFF)] (unat w)"
    and "IsLinkLocalUnicast (IP16 w) = in_ranges [(0xFE800000000000000000000000000000, 0xFEBFFFFFFFFFFFFFFFFFFFFFFFFFFFFF)] (unat w)"
    and "IsPrivate (IP16 w) = in_ranges [(0xFC000000000000000000000000000000, 0xFDFFFFFFFFFFFFFFFFFFFFFFFFFFFFFF)] (unat w)"
    and "IsLoopback (IP16 w) = in_ranges [(1, 1)] (unat w)"
    and "addr_unspecified (Addr6 w []) = in_ranges [(0, 0)] (unat w)"
proof -
  have t: "To4 (IP16 w) = None" using assms by (simp add: To4_def)
  show "IsMulticast (IP16 w) = in_ranges [(0xFF000000000000000000000000000000, 0xFFFFFFFFFFFFFFFFFFFFFFFFFFFFFFFF)] (unat w)"
    "IsLinkLocalUnicast (IP16 w) = in_ranges [(0xFE800000000000000000000000000000, 0xFEBFFFFFFFFFFFFFFFFFFFFFFFFFFFFF)] (unat w)"
    "IsPrivate (IP16 w) = in_ranges [(0xFC000000000000000000000000000000, 0xFDFFFFFFFFFFFFFFFFFFFFFFFFFFFFFF)] (unat w)"
    by (simp_all only: IsMulticast_def IsLinkLocalUnicast_def IsPrivate_def t option.case IP.case octet_ranges6 high_range)
      (simp_all add: in_ranges_def)
  show "IsLoopback (IP16 w) = in_ranges [(1, 1)] (unat w)" by (auto simp: IsLoopback_def t in_ranges_def word_unat_eq_iff)
  show "addr_unspecified (Addr6 w []) = in_ranges [(0, 0)] (unat w)" by (auto simp: addr_unspecified_def in_ranges_def word_unat_eq_iff)
qed

lemma four_in_six_range: "is_4in6 w = in_ranges [(0xFFFF00000000, 0xFFFFFFFFFFFF)] (unat w)"
  unfolding is_4in6_def using div_range [of "2 ^ 32" "unat w" "0xFFFF"]
  by (simp add: word_unat_eq_iff unat_drop128 in_ranges_def)

lemma multicast_scopes: "IsLinkLocalMulticast (IP16 w) \<Longrightarrow> \<not> is_4in6 w \<Longrightarrow> IsMulticast (IP16 w)"
  "IsInterfaceLocalMulticast (IP16 w) \<Longrightarrow> \<not> is_4in6 w \<Longrightarrow> IsMulticast (IP16 w)"
  by (simp_all add: IsLinkLocalMulticast_def IsInterfaceLocalMulticast_def IsMulticast_def To4_def)

lemma in_ranges_simps: "in_ranges [] n = False" "in_ranges ((lo, hi) # rs) n = (lo \<le> n \<and> n \<le> hi \<or> in_ranges rs n)"
  by (simp_all add: in_ranges_def)

lemma in_ranges_append: "in_ranges (rs @ rs') n = (in_ranges rs n \<or> in_ranges rs' n)"
  by (simp add: in_ranges_def)

lemma in_ranges_mono:
  assumes "list_all (\<lambda>(lo, hi). list_ex (\<lambda>(lo', hi'). lo' \<le> lo \<and> hi \<le> hi') rs') rs" and "in_ranges rs n"
  shows "in_ranges rs' n"
proof -
  obtain lo hi where r: "(lo, hi) \<in> set rs" "lo \<le> n" "n \<le> hi" using assms(2) by (auto simp: in_ranges_def list_ex_iff)
  with assms(1) obtain lo' hi' where "(lo', hi') \<in> set rs'" "lo' \<le> lo" "hi \<le> hi'"
    unfolding list_all_iff list_ex_iff by fastforce
  with r show ?thesis unfolding in_ranges_def list_ex_iff by (intro bexI [of _ "(lo', hi')"]) auto
qed

lemma in_ranges_disjoint:
  assumes "list_all (\<lambda>(lo, hi). list_all (\<lambda>(lo', hi'). hi < lo' \<or> hi' < lo) rs') rs" and "in_ranges rs n"
  shows "\<not> in_ranges rs' n"
  using assms by (fastforce simp: in_ranges_def list_all_iff list_ex_iff)

lemma in_ranges_same:
  assumes "list_all (\<lambda>(lo, hi). list_ex (\<lambda>(lo', hi'). lo' \<le> lo \<and> hi \<le> hi') rs') rs"
    and "list_all (\<lambda>(lo, hi). list_ex (\<lambda>(lo', hi'). lo' \<le> lo \<and> hi \<le> hi') rs) rs'"
  shows "in_ranges rs n = in_ranges rs' n"
  using in_ranges_mono [OF assms(1)] in_ranges_mono [OF assms(2)] by blast

lemma allowsAddr_sorted:
  assumes "Unmap addr = addr" "addr \<noteq> NoAddr" and "\<And>w z. addr = Addr6 w z \<Longrightarrow> z = []"
  shows "allowsAddr p addr = 
    (\<not> prefixContains v8MetadataPrefixes addr \<and> \<not> addr_unspecified addr \<and> \<not> IsLinkLocalUnicast (addr_ip addr) \<and> 
     \<not> IsMulticast (addr_ip addr) \<and> \<not> IsLinkLocalMulticast (addr_ip addr) \<and> \<not> IsInterfaceLocalMulticast (addr_ip addr) \<and>
     (if prefix_contains v8CGNATPrefix addr then AllowCGNAT p
      else if IsLoopback (addr_ip addr) \<or> IsPrivate (addr_ip addr) then AllowPrivateNetworks p
      else \<not> prefixContains v8ReservedPrefixes addr))"
  using assms by (auto simp: allowsAddr_def Let_def split: Addr.splits)

lemma order_of_checks:
  assumes "prohibited \<longleftrightarrow> m \<or> u \<or> l \<or> mc \<or> r" and "c \<Longrightarrow> \<not> pr \<and> \<not> r" and "pr \<Longrightarrow> \<not> r"
  shows "(\<not> m \<and> \<not> u \<and> \<not> l \<and> \<not> mc \<and> (if c then C else if pr then P else \<not> r)) = (\<not> prohibited \<and> (pr \<longrightarrow> P) \<and> (c \<longrightarrow> C))"
  using assms by auto

lemma allows_exporter4: "allowsAddr p (Addr4 a) = exporter_reachable p (Addr4 a)"
proof -
  define n where "n = unat a"
  define R where "R = in_ranges [(0, 0x00FFFFFF), (0xC0000000, 0xC00000FF), (0xC0000200, 0xC00002FF), (0xC0586300, 0xC05863FF),
       (0xC6120000, 0xC613FFFF), (0xC6336400, 0xC63364FF), (0xCB007100, 0xCB0071FF), (0xF0000000, 0xFFFFFFFF)] n"
  have n: "n < 4294967296" unfolding n_def by (rule unat32)
  have preds: "IsLinkLocalUnicast (IP4 a) = in_ranges [(0xA9FE0000, 0xA9FEFFFF)] n" "IsMulticast (IP4 a) = in_ranges [(0xE0000000, 0xEFFFFFFF)] n"
    "(IsLoopback (IP4 a) \<or> IsPrivate (IP4 a)) = in_ranges exporter_private4 n"
    by (auto simp: link_local4 multicast4 loopback4 private4_eq private4_def range4_def in_ranges_simps exporter_private4_def n_def)
  have "\<not> IsInterfaceLocalMulticast (IP4 a)" by (simp add: IsInterfaceLocalMulticast_def)
  moreover have "IsLinkLocalMulticast (IP4 a) \<longrightarrow> IsMulticast (IP4 a)" using link_local_multicast4 [of a] by (simp add: multicast4)
  moreover have "addr_unspecified (Addr4 a) = (n = 0)" by (simp add: addr_unspecified_def word_unat_eq_iff n_def)
  ultimately have "allowsAddr p (Addr4 a) =
    (\<not> prefixContains v8MetadataPrefixes (Addr4 a) \<and> n \<noteq> 0 \<and> \<not> IsLinkLocalUnicast (IP4 a) \<and> \<not> IsMulticast (IP4 a) \<and>
     (if prefix_contains v8CGNATPrefix (Addr4 a) then AllowCGNAT p
      else if IsLoopback (IP4 a) \<or> IsPrivate (IP4 a) then AllowPrivateNetworks p
      else \<not> prefixContains v8ReservedPrefixes (Addr4 a)))"
    by (subst allowsAddr_sorted) (auto simp: Unmap_def addr_ip_def)
  also have "\<dots> = exporter_reachable p (Addr4 a)"
    unfolding preds exporter4_prefixes n_def [symmetric] R_def [symmetric] exporter_reachable.simps
  proof (rule order_of_checks)
    have "in_ranges exporter_prohibited4 n = in_ranges ([(0xA9FEA9FE, 0xA9FEA9FE), (0xA9FEAA00, 0xA9FEAAFF), (0x646464C8, 0x646464C8)] @
        [(0, 0)] @ [(0xA9FE0000, 0xA9FEFFFF)] @ [(0xE0000000, 0xEFFFFFFF)] @ [(0, 0x00FFFFFF), (0xC0000000, 0xC00000FF), (0xC0000200, 0xC00002FF), (0xC0586300, 0xC05863FF),
       (0xC6120000, 0xC613FFFF), (0xC6336400, 0xC63364FF), (0xCB007100, 0xCB0071FF), (0xF0000000, 0xFFFFFFFF)]) n"
      by (rule in_ranges_same) (simp_all add: exporter_prohibited4_def)
    then show "in_ranges exporter_prohibited4 n \<longleftrightarrow>
        in_ranges [(0xA9FEA9FE, 0xA9FEA9FE), (0xA9FEAA00, 0xA9FEAAFF), (0x646464C8, 0x646464C8)] n \<or> n = 0 \<or>
        in_ranges [(0xA9FE0000, 0xA9FEFFFF)] n \<or> in_ranges [(0xE0000000, 0xEFFFFFFF)] n \<or> R"
      unfolding in_ranges_append R_def [symmetric] by (simp add: in_ranges_simps(2) [of 0 0] in_ranges_simps(1))
    show "\<not> in_ranges exporter_private4 n \<and> \<not> R" if "in_ranges [(0x64400000, 0x647FFFFF)] n"
      unfolding R_def by (intro conjI in_ranges_disjoint [OF _ that]) (simp_all add: exporter_private4_def)
    show "\<not> R" if "in_ranges exporter_private4 n"
      unfolding R_def by (rule in_ranges_disjoint [OF _ that]) (simp add: exporter_private4_def)
  qed
  finally show ?thesis .
qed

lemma allows_exporter6:
  assumes "\<not> is_4in6 w"
  shows "allowsAddr p (Addr6 w z) = exporter_reachable p (Addr6 w z)"
proof (cases "z = []")
  case False
  then show ?thesis by (simp add: allowsAddr_def)
next
  case True
  define n where "n = unat w"
  define R where "R = in_ranges [(0, 0xFFFFFFFF),
      (0x0064FF9B000000000000000000000000, 0x0064FF9B0000000000000000FFFFFFFF),
      (0x01000000000000000000000000000000, 0x0100000000000000FFFFFFFFFFFFFFFF),
      (0x0064FF9B000100000000000000000000, 0x0064FF9B0001FFFFFFFFFFFFFFFFFFFF),
      (0x20010000000000000000000000000000, 0x200101FFFFFFFFFFFFFFFFFFFFFFFFFF),
      (0x20010DB8000000000000000000000000, 0x20010DB8FFFFFFFFFFFFFFFFFFFFFFFF),
      (0x20020000000000000000000000000000, 0x2002FFFFFFFFFFFFFFFFFFFFFFFFFFFF),
      (0x3FFF0000000000000000000000000000, 0x3FFF0FFFFFFFFFFFFFFFFFFFFFFFFFFF),
      (0x5F000000000000000000000000000000, 0x5F00FFFFFFFFFFFFFFFFFFFFFFFFFFFF)] n"
  have R1: "(R \<and> n \<noteq> 1) = in_ranges ((0, 0) # (2, 0xFFFFFFFF) # [(0x0064FF9B000000000000000000000000, 0x0064FF9B0000000000000000FFFFFFFF),
      (0x01000000000000000000000000000000, 0x0100000000000000FFFFFFFFFFFFFFFF),
      (0x0064FF9B000100000000000000000000, 0x0064FF9B0001FFFFFFFFFFFFFFFFFFFF),
      (0x20010000000000000000000000000000, 0x200101FFFFFFFFFFFFFFFFFFFFFFFFFF),
      (0x20010DB8000000000000000000000000, 0x20010DB8FFFFFFFFFFFFFFFFFFFFFFFF),
      (0x20020000000000000000000000000000, 0x2002FFFFFFFFFFFFFFFFFFFFFFFFFFFF),
      (0x3FFF0000000000000000000000000000, 0x3FFF0FFFFFFFFFFFFFFFFFFFFFFFFFFF),
      (0x5F000000000000000000000000000000, 0x5F00FFFFFFFFFFFFFFFFFFFFFFFFFFFF)]) n"
  proof -
    have "\<not> in_ranges [(0x0064FF9B000000000000000000000000, 0x0064FF9B0000000000000000FFFFFFFF),
      (0x01000000000000000000000000000000, 0x0100000000000000FFFFFFFFFFFFFFFF),
      (0x0064FF9B000100000000000000000000, 0x0064FF9B0001FFFFFFFFFFFFFFFFFFFF),
      (0x20010000000000000000000000000000, 0x200101FFFFFFFFFFFFFFFFFFFFFFFFFF),
      (0x20010DB8000000000000000000000000, 0x20010DB8FFFFFFFFFFFFFFFFFFFFFFFF),
      (0x20020000000000000000000000000000, 0x2002FFFFFFFFFFFFFFFFFFFFFFFFFFFF),
      (0x3FFF0000000000000000000000000000, 0x3FFF0FFFFFFFFFFFFFFFFFFFFFFFFFFF),
      (0x5F000000000000000000000000000000, 0x5F00FFFFFFFFFFFFFFFFFFFFFFFFFFFF)] 1" by (simp add: in_ranges_def)
    moreover have "n \<le> 0xFFFFFFFF \<and> n \<noteq> 1 \<longleftrightarrow> n = 0 \<or> 2 \<le> n \<and> n \<le> 0xFFFFFFFF" by auto
    ultimately show ?thesis unfolding R_def in_ranges_simps(2) [of _ _ "_ # _"] by auto
  qed
  have n: "n < 2 ^ 128" using unsigned_less [of w] by (simp add: n_def)
  have four: "\<not> in_ranges [(0xFFFF00000000, 0xFFFFFFFFFFFF)] n" using assms four_in_six_range [of w] by (simp add: n_def)
  have preds: "IsLinkLocalUnicast (IP16 w) = in_ranges [(0xFE800000000000000000000000000000, 0xFEBFFFFFFFFFFFFFFFFFFFFFFFFFFFFF)] n"
    "IsMulticast (IP16 w) = in_ranges [(0xFF000000000000000000000000000000, 0xFFFFFFFFFFFFFFFFFFFFFFFFFFFFFFFF)] n"
    "(IsLoopback (IP16 w) \<or> IsPrivate (IP16 w)) = in_ranges exporter_private6 n"
    "addr_unspecified (Addr6 w []) = (n = 0)"
    unfolding address_ranges6 [OF assms] n_def [symmetric] exporter_private6_def in_ranges_simps by auto
  have one: "(if in_ranges exporter_private6 n then P else \<not> R) =
      (if False then AllowCGNAT p else if in_ranges exporter_private6 n then P else \<not> (R \<and> n \<noteq> 1))" for P
    unfolding exporter_private6_def in_ranges_simps by auto
  have "allowsAddr p (Addr6 w []) =
    (\<not> prefixContains v8MetadataPrefixes (Addr6 w []) \<and> \<not> addr_unspecified (Addr6 w []) \<and> \<not> IsLinkLocalUnicast (IP16 w) \<and> \<not> IsMulticast (IP16 w) \<and>
     (if IsLoopback (IP16 w) \<or> IsPrivate (IP16 w) then AllowPrivateNetworks p
      else \<not> prefixContains v8ReservedPrefixes (Addr6 w [])))"
    using assms multicast_scopes [of w] by (subst allowsAddr_sorted) (auto simp: Unmap_def addr_ip_def exporter6_prefixes)
  also have "\<dots> = (\<not> in_ranges exporter_prohibited6 n \<and> (in_ranges exporter_private6 n \<longrightarrow> AllowPrivateNetworks p) \<and> (False \<longrightarrow> AllowCGNAT p))"
    unfolding preds exporter6_prefixes n_def [symmetric] R_def [symmetric] one
  proof (rule order_of_checks)
    have "in_ranges exporter_prohibited6 n = in_ranges ([(0xFFFF00000000, 0xFFFFFFFFFFFF)] @
        [(0xFD000EC2000000000000000000000254, 0xFD000EC2000000000000000000000254),
          (0xFE8000000000000000000000A9FEA9FE, 0xFE8000000000000000000000A9FEA9FE)] @ [(0, 0)] @
        [(0xFE800000000000000000000000000000, 0xFEBFFFFFFFFFFFFFFFFFFFFFFFFFFFFF)] @
        [(0xFF000000000000000000000000000000, 0xFFFFFFFFFFFFFFFFFFFFFFFFFFFFFFFF)] @ ((0, 0) # (2, 0xFFFFFFFF) # [(0x0064FF9B000000000000000000000000, 0x0064FF9B0000000000000000FFFFFFFF),
      (0x01000000000000000000000000000000, 0x0100000000000000FFFFFFFFFFFFFFFF),
      (0x0064FF9B000100000000000000000000, 0x0064FF9B0001FFFFFFFFFFFFFFFFFFFF),
      (0x20010000000000000000000000000000, 0x200101FFFFFFFFFFFFFFFFFFFFFFFFFF),
      (0x20010DB8000000000000000000000000, 0x20010DB8FFFFFFFFFFFFFFFFFFFFFFFF),
      (0x20020000000000000000000000000000, 0x2002FFFFFFFFFFFFFFFFFFFFFFFFFFFF),
      (0x3FFF0000000000000000000000000000, 0x3FFF0FFFFFFFFFFFFFFFFFFFFFFFFFFF),
      (0x5F000000000000000000000000000000, 0x5F00FFFFFFFFFFFFFFFFFFFFFFFFFFFF)])) n"
      by (rule in_ranges_same) (simp_all add: exporter_prohibited6_def)
    then show "in_ranges exporter_prohibited6 n \<longleftrightarrow>
        in_ranges [(0xFD000EC2000000000000000000000254, 0xFD000EC2000000000000000000000254),
          (0xFE8000000000000000000000A9FEA9FE, 0xFE8000000000000000000000A9FEA9FE)] n \<or> n = 0 \<or>
        in_ranges [(0xFE800000000000000000000000000000, 0xFEBFFFFFFFFFFFFFFFFFFFFFFFFFFFFF)] n \<or>
        in_ranges [(0xFF000000000000000000000000000000, 0xFFFFFFFFFFFFFFFFFFFFFFFFFFFFFFFF)] n \<or> R \<and> n \<noteq> 1"
      unfolding in_ranges_append R1 using four by (simp add: in_ranges_simps(2) [of 0 0] in_ranges_simps(1))
    show "\<not> (R \<and> n \<noteq> 1)" if "in_ranges exporter_private6 n"
      unfolding R1 by (rule in_ranges_disjoint [OF _ that]) (simp add: exporter_private6_def)
  qed simp
  finally show ?thesis unfolding True by (simp add: n_def)
qed

lemma allows_exporter: "Unmap addr = addr \<Longrightarrow> allowsAddr p addr = exporter_reachable p addr"
  using allows_exporter4 [of p] allows_exporter6 [of _ p]
  by (cases addr) (auto simp: Unmap_def allowsAddr_def [of p NoAddr] split: if_splits)

subsection \<open>Properties\<close>

text \<open>
  C34.  The guard as address ranges.  An IPv4 destination, whether given as four bytes or as an
  IPv4-mapped IPv6 address, is refused exactly when it is 0.0.0.0, loopback, link-local (which
  contains the metadata services) or multicast, or when it is not on the operator's list and lies in
  an RFC 1918 range or, unless \<open>DEFENSECLAW_ALLOW_CGNAT\<close> is set, in 100.64.0.0/10.
\<close>

theorem private_or_reserved_ranges:
  "IsPrivateOrReserved cgnat allowed (IP4 a) =
     (hard_denied4 a \<or> Addr4 a \<notin> set allowed \<and> (private4 a \<or> \<not> cgnat \<and> cgnat4 a)) \<and>
   IsPrivateOrReserved cgnat allowed (IP16 (mapped a)) = IsPrivateOrReserved cgnat allowed (IP4 a)"
  using reserved_mapped [OF mapped_4in6, of cgnat allowed a] by (simp add: reserved4)

text \<open>
  C28.  The guarded dial.  When the guard hands a target to the dialer, the literal address, or the
  resolved address it substitutes for the host name, was checked at that moment: neither it nor
  any other address the resolver returned for the name is refused, so a mixed or rebound answer
  cannot reach a protected address and the operator's list never opens a hard-denied one.
\<close>

theorem SafeDialContext_only_public:
  assumes "SafeDialContext cgnat allowed SplitHostPort ParseIP LookupIPAddr addr = Inr target"
  shows "\<exists>host port. SplitHostPort addr = Some (host, port) \<and>
    (target = DialText addr \<and> ParseIP host \<noteq> NilIP \<and> \<not> IsPrivateOrReserved cgnat allowed (ParseIP host) \<and>
       \<not> IsHardDeniedIP (ParseIP host) \<or>
     (\<exists>ip ips. target = DialIP ip port \<and> LookupIPAddr host = Some ips \<and> ip \<in> set ips \<and>
        list_all (\<lambda>i. \<not> IsPrivateOrReserved cgnat allowed i \<and> \<not> IsHardDeniedIP i) ips))"
proof -
  have hard: "\<not> IsPrivateOrReserved cgnat allowed i \<Longrightarrow> \<not> IsHardDeniedIP i" for i
    by (auto simp: IsPrivateOrReserved_def split: if_splits)
  obtain host port where hp: "SplitHostPort addr = Some (host, port)"
    using assms by (auto simp: SafeDialContext_def split: option.splits)
  show ?thesis
  proof (cases "ParseIP host = NilIP")
    case False
    then show ?thesis using assms hp hard by (auto simp: SafeDialContext_def split: if_splits)
  next
    case True
    then obtain ips ip where i: "LookupIPAddr host = Some ips" "first_public cgnat allowed None ips = Inr (Some ip)"
      "target = DialIP ip port"
      using assms hp by (auto simp: SafeDialContext_def split: if_splits option.splits sum.splits)
    then have "list_all (\<lambda>i. \<not> IsPrivateOrReserved cgnat allowed i \<and> \<not> IsHardDeniedIP i) ips" "ip \<in> set ips"
      using first_public_all [OF i(2)] hard by (auto simp: list_all_iff split: list.splits)
    then show ?thesis using hp i(1,3) by blast
  qed
qed

theorem SafeDialContext_only_public_witness:
  "let split = (\<lambda>s. Some (''example.org'', ''443'')); lookup = (\<lambda>h. Some [IP4 0x5DB8D822])
   in SafeDialContext False [] split (\<lambda>h. NilIP) lookup ''example.org:443'' = Inr (DialIP (IP4 0x5DB8D822) ''443'') \<and>
      \<not> IsHardDeniedIP (IP4 0x5DB8D822)"
proof -
  let ?split = "\<lambda>s. Some (''example.org'', ''443'')"
  have d: "SafeDialContext False [] ?split (\<lambda>h. NilIP) (\<lambda>h. Some [IP4 0x5DB8D822]) ''example.org:443'' =
    Inr (DialIP (IP4 0x5DB8D822) ''443'')"
    by code_simp
  from SafeDialContext_only_public [OF d] d show ?thesis by (auto simp: Let_def)
qed

text \<open>
  C14.  The exporter guard.  Whatever the policy, the resolver and the context do, a connection is attempted only to an address
  of the requested family outside the table of prohibited ranges: metadata services, unspecified, link-local, multicast and
  reserved addresses of both families (NAT64, 6to4 and documentation prefixes among them) are refused under every policy,
  private and loopback addresses (\<open>::1\<close> and \<open>fc00::/7\<close> included) unless \<open>AllowPrivateNetworks\<close> is set, 100.64.0.0/10 unless
  \<open>AllowCGNAT\<close> is set, and addresses with a zone always.  The address is the literal of the target or one the resolver gave for
  it in this call, and then every address the resolver gave is reachable under the policy.
\<close>

theorem V8SafeDialContext_policy:
  assumes "V8SafeDialContext policy SplitHostPort ParseAddr LookupIPAddr dial ctx network address = (Some target, result)"
  shows "\<exists>host port addr. SplitHostPort address = Some (host, port) \<and> target = DialAddr addr port \<and>
    exporter_reachable policy addr \<and> v8NetworkMatches network addr \<and>
    (ParseAddr host \<noteq> None \<and> addr = Unmap (the (ParseAddr host)) \<or>
     ParseAddr host = None \<and> (\<exists>ips. LookupIPAddr host = Inr ips \<and>
       list_all (\<lambda>ip. case AddrFromSlice ip of Some a \<Rightarrow> exporter_reachable policy (Unmap a) | None \<Rightarrow> False) ips \<and>
       list_ex (\<lambda>ip. map_option Unmap (AddrFromSlice ip) = Some addr) ips))"
proof -
  obtain host port addr where t: "SplitHostPort address = Some (host, port)" "target = DialAddr addr port"
    and found: "(case parseV8Literal ParseAddr host of
        Some literal \<Rightarrow> if \<not> allowsAddr policy literal \<or> \<not> v8NetworkMatches network literal then Inl ErrV8AddressProhibited else Inr literal
      | None \<Rightarrow> resolveV8 ctx host policy LookupIPAddr network) = Inr addr"
    using dialled_address [OF assms] .
  show ?thesis
  proof (cases "ParseAddr host")
    case (Some a)
    with found have a: "addr = Unmap a" "allowsAddr policy addr" "v8NetworkMatches network addr"
      by (auto simp: parseV8Literal_def split: if_splits)
    then have "exporter_reachable policy addr" using allows_exporter [of addr policy] by simp
    with t a Some show ?thesis by (intro exI [of _ host] exI [of _ port] exI [of _ addr]) simp
  next
    case None
    with found have r: "resolveV8 ctx host policy LookupIPAddr network = Inr addr" by (simp add: parseV8Literal_def)
    obtain ips where ips: "LookupIPAddr host = Inr ips" "\<forall>ip \<in> set ips. \<exists>a. AddrFromSlice ip = Some a \<and> allowsAddr policy (Unmap a)"
      "\<exists>ip \<in> set ips. \<exists>a. AddrFromSlice ip = Some a \<and> addr = Unmap a" using resolveV8_answers [OF r] .
    have all: "list_all (\<lambda>ip. case AddrFromSlice ip of Some a \<Rightarrow> exporter_reachable policy (Unmap a) | None \<Rightarrow> False) ips"
      using ips(2) allows_exporter [of _ policy] by (fastforce simp: list_all_iff)
    have one: "list_ex (\<lambda>ip. map_option Unmap (AddrFromSlice ip) = Some addr) ips" using ips(3) by (auto simp: list_ex_iff)
    have "exporter_reachable policy addr" "v8NetworkMatches network addr"
      using resolveV8_sound [OF r] allows_exporter [of addr policy] by simp_all
    with t None ips(1) all one show ?thesis by (intro exI [of _ host] exI [of _ port] exI [of _ addr]) simp
  qed
qed

theorem V8SafeDialContext_policy_witness:
  "let policy = \<lparr>AllowPrivateNetworks = True, AllowCGNAT = False\<rparr>;
       r = V8SafeDialContext policy (\<lambda>s. Some (''collector'', ''4318'')) (\<lambda>s. None) (\<lambda>h. Inr [IP4 0x0A000001])
         (\<lambda>t. Inr True) (Some (\<lambda>i. None)) ''tcp'' ''collector:4318''
   in r = (Some (DialAddr (Addr4 0x0A000001) ''4318''), Inr ()) \<and> exporter_reachable policy (Addr4 0x0A000001)"
proof -
  have r: "V8SafeDialContext \<lparr>AllowPrivateNetworks = True, AllowCGNAT = False\<rparr> (\<lambda>s. Some (''collector'', ''4318''))
    (\<lambda>s. None) (\<lambda>h. Inr [IP4 0x0A000001]) (\<lambda>t. Inr True) (Some (\<lambda>i. None)) ''tcp'' ''collector:4318'' =
    (Some (DialAddr (Addr4 0x0A000001) ''4318''), Inr ())"
    by code_simp
  from V8SafeDialContext_policy [OF r] r show ?thesis unfolding Let_def by (elim exE conjE) simp
qed

definition nat64 :: "32 word \<Rightarrow> 128 word" where
  "nat64 a = (push_bit 32 0x0064FF9B0000000000000000) OR ucast a"

lemma nat64_high: "drop_bit 32 (nat64 a) = 0x0064FF9B0000000000000000"
  unfolding nat64_def by (simp only: drop_bit_or embedded_high) simp

lemma nat64_shift: "drop_bit (32 + n) (nat64 a) = drop_bit n 0x0064FF9B0000000000000000"
  using nat64_high [of a] by (metis drop_bit_drop_bit add.commute)

lemma nat64_octets: "octet16 (nat64 a) 0 = 0" "octet16 (nat64 a) 1 = 0x64"
  using nat64_shift [of 88 a] nat64_shift [of 80 a] by (simp_all add: octet16_def)

lemma nat64_small: "nat64 a \<noteq> 0" "nat64 a \<noteq> 1" "nat64 a \<noteq> 0xFD000EC2000000000000000000000254"
  using nat64_high [of a] by auto

text \<open>
  A gap of the process-wide guard.  The NAT64 form \<open>64:ff9b::a.b.c.d\<close> of an IPv4 address is
  refused by every exporter policy, whose comment explains that it tunnels a prohibited IPv4 target,
  but passes \<open>IsPrivateOrReserved\<close> for every \<open>a.b.c.d\<close>, so \<open>SafeDialContext\<close> dials it; this holds
  in particular for the metadata service 169.254.169.254.
\<close>

theorem nat64_passes_guard:
  "\<not> IsPrivateOrReserved cgnat allowed (IP16 (nat64 a)) \<and> \<not> allowsAddr policy (Addr6 (nat64 a) []) \<and>
   SafeDialContext cgnat allowed (\<lambda>s. Some (host, port)) (\<lambda>h. NilIP) (\<lambda>h. Some [IP16 (nat64 a)]) addr =
     Inr (DialIP (IP16 (nat64 a)) port)"
proof -
  have four: "\<not> is_4in6 (nat64 a)" by (simp add: is_4in6_def nat64_high)
  then have t: "To4 (IP16 (nat64 a)) = None" by (simp add: To4_def)
  have hard: "\<not> IsHardDeniedIP (IP16 (nat64 a))"
    using nat64_small [of a]
    by (simp add: IsHardDeniedIP_def t IsLoopback_def IsUnspecified_def IsLinkLocalUnicast_def IsLinkLocalMulticast_def
        IsMulticast_def IsInterfaceLocalMulticast_def IsCloudMetadataIP_def cloudMetadataIPs_def Equal_def nat64_octets)
      (use four mapped_4in6 in metis)
  have ula: "\<not> net_contains (Net6 0xFD000000000000000000000000000000 8) (IP16 (nat64 a))"
    using nat64_shift [of 88 a] by (simp add: net_contains_def t)
  have pub: "\<not> IsPrivateOrReserved cgnat allowed (IP16 (nat64 a))"
    using hard ula by (auto simp: IsPrivateOrReserved_def IsPrivate_def t nat64_octets extraReservedCIDRs_def net_contains_def)
  have "prefix_contains (Prefix6 0x0064FF9B000000000000000000000000 96) (Addr6 (nat64 a) [])"
    by (simp add: prefix_contains_def nat64_high)
  then have "prefixContains v8ReservedPrefixes (Addr6 (nat64 a) [])"
    by (simp add: prefixContains_def v8ReservedPrefixes_def)
  moreover have "\<not> IsLoopback (IP16 (nat64 a))" "\<not> IsPrivate (IP16 (nat64 a))"
    using hard by (auto simp: IsHardDeniedIP_def t IsPrivate_def nat64_octets)
  moreover have "\<not> prefix_contains v8CGNATPrefix (Addr6 (nat64 a) [])" by (simp add: prefix_contains_def v8CGNATPrefix_def)
  ultimately have "\<not> allowsAddr policy (Addr6 (nat64 a) [])"
    by (simp add: allowsAddr_def Let_def Unmap_def four addr_ip_def)
  then show ?thesis using pub by (simp add: SafeDialContext_def)
qed

end
