(* ===== verification/Net_Scrub.thy ===== *)
theory Net_Scrub
  imports Go_Prelude
begin

text \<open>
  Redaction of URL queries for logs: the key classifier of \<^verbatim>\<open>internal/sensitivequery\<close> and \<open>scrubRawQuery\<close>
  of \<^verbatim>\<open>internal/netguard/netguard.go\<close>.  A query is a byte string; \<open>utf8_runes\<close> decodes UTF-8 as Go's
  \<open>range\<close> over a valid string does and is \<open>None\<close> on invalid input (\<open>utf8.ValidString\<close>).  The loops over byte positions
  become recursion on the unread rest, with the pair counter as an argument.
\<close>

subsection \<open>UTF-8\<close>

definition in_byte :: "nat \<Rightarrow> nat \<Rightarrow> char \<Rightarrow> bool" where
  "in_byte lo hi c \<longleftrightarrow> lo \<le> byte_val c \<and> byte_val c \<le> hi"

fun utf8_runes :: "string \<Rightarrow> nat list option" where
  "utf8_runes [] = Some []"
| "utf8_runes (c # s) =
     (if in_byte 0x00 0x7F c then map_option ((#) (byte_val c)) (utf8_runes s)
      else if in_byte 0xC2 0xDF c
      then (case s of
              c1 # s1 \<Rightarrow> if in_byte 0x80 0xBF c1
                then map_option ((#) ((byte_val c - 0xC0) * 64 + (byte_val c1 - 0x80))) (utf8_runes s1) else None
            | _ \<Rightarrow> None)
      else if in_byte 0xE0 0xEF c
      then (case s of
              c1 # c2 # s2 \<Rightarrow>
                if in_byte (if byte_val c = 0xE0 then 0xA0 else 0x80) (if byte_val c = 0xED then 0x9F else 0xBF) c1 \<and>
                   in_byte 0x80 0xBF c2
                then map_option ((#) ((byte_val c - 0xE0) * 4096 + (byte_val c1 - 0x80) * 64 + (byte_val c2 - 0x80))) (utf8_runes s2)
                else None
            | _ \<Rightarrow> None)
      else if in_byte 0xF0 0xF4 c
      then (case s of
              c1 # c2 # c3 # s3 \<Rightarrow>
                if in_byte (if byte_val c = 0xF0 then 0x90 else 0x80) (if byte_val c = 0xF4 then 0x8F else 0xBF) c1 \<and>
                   in_byte 0x80 0xBF c2 \<and> in_byte 0x80 0xBF c3
                then map_option ((#) ((byte_val c - 0xF0) * 262144 + (byte_val c1 - 0x80) * 4096 +
                  (byte_val c2 - 0x80) * 64 + (byte_val c3 - 0x80))) (utf8_runes s3)
                else None
            | _ \<Rightarrow> None)
      else None)"

subsection \<open>Package sensitivequery\<close>

definition maxKeyBytes :: nat where "maxKeyBytes = 256"
definition maxDecodePasses :: nat where "maxDecodePasses = 3"

definition sensitive_keys :: "string list" where
  "sensitive_keys =
     [''access_token'', ''api-key'', ''api_key'', ''apikey'', ''auth'', ''authorization'', ''client_secret'',
      ''client_token'', ''code'', ''credential'', ''id_token'', ''key'', ''passwd'', ''password'', ''pwd'',
      ''refresh_token'', ''routing_key'', ''secret'', ''sig'', ''signature'', ''token'', ''webhook_token'',
      ''x-amz-credential'', ''x-amz-security-token'', ''x-amz-signature'', ''x-goog-signature'']"

definition fromHex :: "char \<Rightarrow> nat option" where
  "fromHex c =
     (if in_byte 48 57 c then Some (byte_val c - 48)
      else if in_byte 97 102 c then Some (byte_val c - 97 + 10)
      else if in_byte 65 70 c then Some (byte_val c - 65 + 10)
      else None)"

fun percent_bytes :: "string \<Rightarrow> string option" where
  "percent_bytes [] = Some []"
| "percent_bytes (c # s) =
     (if c \<noteq> CHR 0x25 then map_option ((#) c) (percent_bytes s)
      else case s of
        h # l # s' \<Rightarrow>
          (case (fromHex h, fromHex l) of
             (Some high, Some low) \<Rightarrow> map_option ((#) (char_of (16 * high + low))) (percent_bytes s')
           | _ \<Rightarrow> None)
      | _ \<Rightarrow> None)"

definition percentDecode :: "string \<Rightarrow> string option" where
  "percentDecode value =
     (case percent_bytes value of
        None \<Rightarrow> None
      | Some decoded \<Rightarrow> if utf8_runes decoded = None then None else Some decoded)"

definition validDecodedKey :: "string \<Rightarrow> bool" where
  "validDecodedKey value =
     (if value = [] \<or> maxKeyBytes < length value then False
      else case utf8_runes value of
        None \<Rightarrow> False
      | Some runes \<Rightarrow>
          list_all (\<lambda>r. \<not> (r < 0x20 \<or> 0x7F \<le> r \<and> r \<le> 0x9F) \<and> r \<noteq> 0x26 \<and> r \<noteq> 0x3B \<and> r \<noteq> 0x3D) runes)"

fun canonical_loop :: "unicode_map \<Rightarrow> nat \<Rightarrow> string \<Rightarrow> string option" where
  "canonical_loop uni left value =
     (if \<not> List.member value (CHR 0x25) then (if validDecodedKey value then Some (ToLower uni value) else None)
      else case left of
        0 \<Rightarrow> None
      | Suc left' \<Rightarrow>
          (case percentDecode value of
             None \<Rightarrow> None
           | Some decoded \<Rightarrow> if validDecodedKey decoded then canonical_loop uni left' decoded else None))"

declare canonical_loop.simps [simp del]

definition Canonical :: "unicode_map \<Rightarrow> string \<Rightarrow> string option" where
  "Canonical uni raw =
     (if raw = [] \<or> maxKeyBytes < length raw \<or> utf8_runes raw = None then None
      else canonical_loop uni maxDecodePasses raw)"

definition Classify :: "unicode_map \<Rightarrow> string \<Rightarrow> bool \<times> bool" where
  "Classify uni raw =
     (case Canonical uni raw of
        None \<Rightarrow> (False, False)
      | Some canonical \<Rightarrow> (List.member sensitive_keys canonical, True))"

subsection \<open>Scrubbing a query\<close>

definition maxLoggedQueryBytes :: nat where "maxLoggedQueryBytes = 65536"
definition maxLoggedQueryPairs :: nat where "maxLoggedQueryPairs = 256"

definition redactedQueryValue :: string where
  "redactedQueryValue = ''%3Credacted%3E''"

definition redacted_pair :: string where
  "redacted_pair = ''redacted='' @ redactedQueryValue"

definition is_sep :: "char \<Rightarrow> bool" where
  "is_sep c \<longleftrightarrow> c = CHR ''&'' \<or> c = CHR '';''"

definition extra_keys :: "unicode_map \<Rightarrow> string list \<Rightarrow> string list" where
  "extra_keys uni extra = List.map_filter (Canonical uni) extra"

definition key_sensitive :: "unicode_map \<Rightarrow> string list \<Rightarrow> string \<Rightarrow> bool" where
  "key_sensitive uni extra key \<longleftrightarrow>
     fst (Classify uni key) \<or> (case Canonical uni key of Some canonical \<Rightarrow> List.member (extra_keys uni extra) canonical | None \<Rightarrow> False)"

text \<open>One item between separators: the text before its first \<open>=\<close> is the key.\<close>

definition scrub_item :: "unicode_map \<Rightarrow> string list \<Rightarrow> string \<Rightarrow> string" where
  "scrub_item uni extra item =
     (if \<not> List.member item (CHR ''='')
      then (if item \<noteq> [] \<and> (fst (Classify uni item) \<or> \<not> snd (Classify uni item)) then redacted_pair else item)
      else let key = takeWhile (\<lambda>c. c \<noteq> CHR ''='') item; val = tl (dropWhile (\<lambda>c. c \<noteq> CHR ''='') item)
           in if \<not> snd (Classify uni key) then redacted_pair
              else key @ ''='' @ (if key_sensitive uni extra key then redactedQueryValue else val))"

function scrub_pairs :: "unicode_map \<Rightarrow> string list \<Rightarrow> nat \<Rightarrow> string \<Rightarrow> string option" where
  "scrub_pairs uni extra pairs raw =
     (if maxLoggedQueryPairs < Suc pairs then None
      else let item = takeWhile (\<lambda>c. \<not> is_sep c) raw
           in case dropWhile (\<lambda>c. \<not> is_sep c) raw of
                [] \<Rightarrow> Some (scrub_item uni extra item)
              | sep # rest \<Rightarrow> map_option (\<lambda>r. scrub_item uni extra item @ [sep] @ r) (scrub_pairs uni extra (Suc pairs) rest))"
  by pat_completeness auto
termination
proof (relation "measure (\<lambda>(uni, extra, pairs, raw). length raw)")
  fix uni :: unicode_map and extra :: "string list" and pairs :: nat and raw :: string and item sep rest
  assume "dropWhile (\<lambda>c. \<not> is_sep c) raw = sep # rest"
  then have "length (sep # rest) \<le> length raw" by (metis length_dropWhile_le)
  then show "((uni, extra, Suc pairs, rest), (uni, extra, pairs, raw)) \<in> measure (\<lambda>(uni, extra, pairs, raw). length raw)"
    by simp
qed simp

declare scrub_pairs.simps [simp del]

definition scrubRawQuery :: "unicode_map \<Rightarrow> string \<Rightarrow> string list \<Rightarrow> string" where
  "scrubRawQuery uni raw extra =
     (if maxLoggedQueryBytes < length raw then redacted_pair
      else case scrub_pairs uni extra 0 raw of Some s \<Rightarrow> s | None \<Rightarrow> redacted_pair)"

subsection \<open>Items\<close>

fun split_seps :: "string \<Rightarrow> string list" where
  "split_seps [] = [[]]"
| "split_seps (c # s) =
     (if is_sep c then [] # split_seps s
      else case split_seps s of [] \<Rightarrow> [[c]] | x # xs \<Rightarrow> (c # x) # xs)"

definition item_key :: "string \<Rightarrow> string" where
  "item_key item = takeWhile (\<lambda>c. c \<noteq> CHR ''='') item"

definition item_val :: "string \<Rightarrow> string" where
  "item_val item = tl (dropWhile (\<lambda>c. c \<noteq> CHR ''='') item)"

text \<open>An item that may be logged: empty, a harmless bare key, or a valid key with a harmless value.\<close>

definition clean_item :: "unicode_map \<Rightarrow> string list \<Rightarrow> string \<Rightarrow> bool" where
  "clean_item uni extra item \<longleftrightarrow>
     (if CHR ''='' \<notin> set item then item = [] \<or> \<not> fst (Classify uni item) \<and> snd (Classify uni item)
      else snd (Classify uni (item_key item)) \<and> (key_sensitive uni extra (item_key item) \<longrightarrow> item_val item = redactedQueryValue))"

lemma split_seps_nonempty [simp]: "split_seps s \<noteq> []"
  by (cases s) (auto split: list.splits)

lemma split_seps_single: "list_all (\<lambda>c. \<not> is_sep c) s \<Longrightarrow> split_seps s = [s]"
  by (induction s) auto

lemma split_seps_append:
  "list_all (\<lambda>c. \<not> is_sep c) s \<Longrightarrow> is_sep c \<Longrightarrow> split_seps (s @ [c] @ r) = s # split_seps r"
  by (induction s) auto

lemma item_parts:
  "CHR ''='' \<notin> set key \<Longrightarrow> item_key (key @ ''='' @ v) = key \<and> item_val (key @ ''='' @ v) = v"
proof -
  assume "CHR ''='' \<notin> set key"
  then have "\<forall>c \<in> set key. c \<noteq> CHR ''=''" by auto
  then show ?thesis by (simp add: item_key_def item_val_def takeWhile_append2 dropWhile_append2)
qed

lemma item_split: "CHR ''='' \<in> set item \<Longrightarrow> item = item_key item @ ''='' @ item_val item"
proof (induction item)
  case (Cons c item)
  then show ?case by (cases "c = CHR ''=''") (auto simp: item_key_def item_val_def)
qed simp

lemma key_no_eq: "CHR ''='' \<notin> set (item_key item)"
  unfolding item_key_def by (auto dest: set_takeWhileD)

lemma Canonical_redacted: "Canonical uni ''redacted'' = Some ''redacted''"
proof -
  have "\<not> List.member ''redacted'' (CHR 0x25)" "validDecodedKey ''redacted''" "is_ascii ''redacted''"
    "map byte_lower ''redacted'' = ''redacted''" "\<not> maxKeyBytes < length ''redacted''" "utf8_runes ''redacted'' \<noteq> None"
    by code_simp+
  then show ?thesis by (simp add: Canonical_def canonical_loop.simps ToLower_def)
qed

lemma Classify_redacted: "Classify uni ''redacted'' = (False, True)"
proof -
  have "\<not> List.member sensitive_keys ''redacted''" by code_simp
  then show ?thesis by (simp add: Classify_def Canonical_redacted)
qed

lemma redacted_pair_item: "CHR ''='' \<in> set redacted_pair \<and> item_key redacted_pair = ''redacted'' \<and> item_val redacted_pair = redactedQueryValue"
  by (auto simp: redacted_pair_def redactedQueryValue_def item_key_def item_val_def)

lemma redacted_pair_clean: "clean_item uni extra redacted_pair"
  using redacted_pair_item by (simp add: clean_item_def Classify_redacted)

lemma scrub_item_alt:
  "scrub_item uni extra item =
     (if CHR ''='' \<notin> set item
      then (if item \<noteq> [] \<and> (fst (Classify uni item) \<or> \<not> snd (Classify uni item)) then redacted_pair else item)
      else if \<not> snd (Classify uni (item_key item)) then redacted_pair
      else item_key item @ ''='' @ (if key_sensitive uni extra (item_key item) then redactedQueryValue else item_val item))"
  by (simp add: scrub_item_def item_key_def item_val_def Let_def)

lemma scrub_item_clean: "clean_item uni extra (scrub_item uni extra item)"
proof (cases "CHR ''='' \<in> set item \<and> snd (Classify uni (item_key item))")
  case True
  then have "scrub_item uni extra item = item_key item @ ''='' @
      (if key_sensitive uni extra (item_key item) then redactedQueryValue else item_val item)"
    by (simp add: scrub_item_alt)
  then show ?thesis using True item_parts [OF key_no_eq] by (auto simp: clean_item_def)
next
  case False
  then show ?thesis using redacted_pair_clean by (auto simp: scrub_item_alt clean_item_def)
qed

lemma scrub_item_of_clean: "clean_item uni extra item \<Longrightarrow> scrub_item uni extra item = item"
  using item_split [of item] by (auto simp: scrub_item_alt clean_item_def split: if_splits)

lemma scrub_item_no_sep:
  assumes "list_all (\<lambda>c. \<not> is_sep c) item"
  shows "list_all (\<lambda>c. \<not> is_sep c) (scrub_item uni extra item)"
proof -
  have r: "list_all (\<lambda>c. \<not> is_sep c) redacted_pair" "list_all (\<lambda>c. \<not> is_sep c) redactedQueryValue" "\<not> is_sep (CHR ''='')"
    by code_simp+
  have "list_all (\<lambda>c. \<not> is_sep c) (item_key item)"
    using assms by (auto simp: item_key_def list_all_iff dest: set_takeWhileD)
  moreover have "list_all (\<lambda>c. \<not> is_sep c) (item_val item)" if "CHR ''='' \<in> set item"
    using assms item_split [OF that] by (metis list_all_append)
  ultimately show ?thesis using assms r by (auto simp: scrub_item_alt)
qed

lemma split_at_sep:
  "dropWhile (\<lambda>c. \<not> is_sep c) raw = [] \<Longrightarrow> split_seps raw = [takeWhile (\<lambda>c. \<not> is_sep c) raw] \<and> raw = takeWhile (\<lambda>c. \<not> is_sep c) raw"
  "dropWhile (\<lambda>c. \<not> is_sep c) raw = sep # rest \<Longrightarrow> is_sep sep \<and>
     split_seps raw = takeWhile (\<lambda>c. \<not> is_sep c) raw # split_seps rest \<and> raw = takeWhile (\<lambda>c. \<not> is_sep c) raw @ [sep] @ rest"
proof -
  have none: "list_all (\<lambda>c. \<not> is_sep c) (takeWhile (\<lambda>c. \<not> is_sep c) raw)" by (auto simp: list_all_iff dest: set_takeWhileD)
  show "dropWhile (\<lambda>c. \<not> is_sep c) raw = [] \<Longrightarrow> split_seps raw = [takeWhile (\<lambda>c. \<not> is_sep c) raw] \<and> raw = takeWhile (\<lambda>c. \<not> is_sep c) raw"
    using none split_seps_single [OF none] takeWhile_dropWhile_id [of "\<lambda>c. \<not> is_sep c" raw] by (metis append_Nil2)
  assume d: "dropWhile (\<lambda>c. \<not> is_sep c) raw = sep # rest"
  then have s: "is_sep sep" by (metis (mono_tags) hd_dropWhile list.distinct(1) list.sel(1))
  have e: "raw = takeWhile (\<lambda>c. \<not> is_sep c) raw @ [sep] @ rest"
    using takeWhile_dropWhile_id [of "\<lambda>c. \<not> is_sep c" raw] d by simp
  show "is_sep sep \<and> split_seps raw = takeWhile (\<lambda>c. \<not> is_sep c) raw # split_seps rest \<and>
     raw = takeWhile (\<lambda>c. \<not> is_sep c) raw @ [sep] @ rest"
    using s e split_seps_append [OF none s, of rest] by simp
qed

lemma scrub_pairs_limit: "maxLoggedQueryPairs < Suc pairs \<Longrightarrow> scrub_pairs uni extra pairs raw = None"
  by (subst scrub_pairs.simps) simp

lemma scrub_pairs_last:
  "\<not> maxLoggedQueryPairs < Suc pairs \<Longrightarrow> dropWhile (\<lambda>c. \<not> is_sep c) raw = [] \<Longrightarrow>
     scrub_pairs uni extra pairs raw = Some (scrub_item uni extra (takeWhile (\<lambda>c. \<not> is_sep c) raw))"
  by (subst scrub_pairs.simps) (simp only: Let_def if_False list.case)

lemma scrub_pairs_step:
  "\<not> maxLoggedQueryPairs < Suc pairs \<Longrightarrow> dropWhile (\<lambda>c. \<not> is_sep c) raw = sep # rest \<Longrightarrow>
     scrub_pairs uni extra pairs raw =
       map_option (\<lambda>r. scrub_item uni extra (takeWhile (\<lambda>c. \<not> is_sep c) raw) @ [sep] @ r) (scrub_pairs uni extra (Suc pairs) rest)"
  by (subst scrub_pairs.simps) (simp only: Let_def if_False list.case)

lemma scrub_pairs_clean: "scrub_pairs uni extra pairs raw = Some out \<Longrightarrow> list_all (clean_item uni extra) (split_seps out)"
proof (induction uni extra pairs raw arbitrary: out rule: scrub_pairs.induct)
  case (1 uni extra pairs raw)
  let ?item = "takeWhile (\<lambda>c. \<not> is_sep c) raw"
  have ns: "list_all (\<lambda>c. \<not> is_sep c) (scrub_item uni extra ?item)"
    by (rule scrub_item_no_sep) (auto simp: list_all_iff dest: set_takeWhileD)
  have lim: "\<not> maxLoggedQueryPairs < Suc pairs" using "1.prems" scrub_pairs_limit by fastforce
  show ?case
  proof (cases "dropWhile (\<lambda>c. \<not> is_sep c) raw")
    case Nil
    then have "out = scrub_item uni extra ?item" using "1.prems" scrub_pairs_last [OF lim Nil] by simp
    then show ?thesis using split_seps_single [OF ns] scrub_item_clean by simp
  next
    case (Cons sep rest)
    then obtain r where r: "scrub_pairs uni extra (Suc pairs) rest = Some r" "out = scrub_item uni extra ?item @ [sep] @ r"
      using "1.prems" scrub_pairs_step [OF lim Cons] by auto
    have "list_all (clean_item uni extra) (split_seps r)" using "1.IH" [OF lim refl Cons r(1)] .
    then show ?thesis using split_seps_append [OF ns] split_at_sep(2) [OF Cons] r(2) scrub_item_clean by auto
  qed
qed

lemma scrub_pairs_keep:
  "list_all (clean_item uni extra) (split_seps raw) \<Longrightarrow> pairs + length (split_seps raw) \<le> maxLoggedQueryPairs \<Longrightarrow>
     scrub_pairs uni extra pairs raw = Some raw"
proof (induction uni extra pairs raw rule: scrub_pairs.induct)
  case (1 uni extra pairs raw)
  let ?item = "takeWhile (\<lambda>c. \<not> is_sep c) raw"
  have lim: "\<not> maxLoggedQueryPairs < Suc pairs"
    using "1.prems"(2) by (metis One_nat_def Suc_leI add_Suc_right le_trans length_greater_0_conv not_less plus_1_eq_Suc add.commute add_le_cancel_left split_seps_nonempty)
  show ?case
  proof (cases "dropWhile (\<lambda>c. \<not> is_sep c) raw")
    case Nil
    have "clean_item uni extra ?item" using "1.prems"(1) split_at_sep(1) [OF Nil] by simp
    then have "scrub_item uni extra ?item = ?item" by (rule scrub_item_of_clean)
    then show ?thesis using scrub_pairs_last [OF lim Nil, of uni extra] split_at_sep(1) [OF Nil] by simp
  next
    case (Cons sep rest)
    note sp = split_at_sep(2) [OF Cons]
    have "scrub_pairs uni extra (Suc pairs) rest = Some rest"
      using "1.prems" sp by (intro "1.IH" [OF lim refl Cons]) simp_all
    moreover have "scrub_item uni extra ?item = ?item" using "1.prems"(1) sp scrub_item_of_clean by simp
    ultimately have "scrub_pairs uni extra pairs raw = Some (?item @ [sep] @ rest)"
      by (simp only: scrub_pairs_step [OF lim Cons] option.map)
    then show ?thesis using sp by simp
  qed
qed

lemma scrub_item_seps: "list_all (\<lambda>c. \<not> is_sep c) item \<Longrightarrow> filter is_sep (scrub_item uni extra item) = []"
  using scrub_item_no_sep [of item uni extra] by (simp add: filter_empty_conv list_all_iff)

text \<open>Within the pair limit the loop scrubs the query item by item; beyond it there is no result.\<close>

lemma scrub_pairs_items:
  "(case scrub_pairs uni extra pairs raw of
      Some out \<Rightarrow> pairs + length (split_seps raw) \<le> maxLoggedQueryPairs \<and>
        split_seps out = map (scrub_item uni extra) (split_seps raw) \<and> filter is_sep out = filter is_sep raw
    | None \<Rightarrow> maxLoggedQueryPairs < pairs + length (split_seps raw))"
proof (induction uni extra pairs raw rule: scrub_pairs.induct)
  case (1 uni extra pairs raw)
  let ?item = "takeWhile (\<lambda>c. \<not> is_sep c) raw"
  have none: "list_all (\<lambda>c. \<not> is_sep c) ?item" by (auto simp: list_all_iff dest: set_takeWhileD)
  note ns = scrub_item_no_sep [OF none, of uni extra] and seps = scrub_item_seps [OF none, of uni extra]
  have one: "0 < length (split_seps raw)" by simp
  show ?case
  proof (cases "maxLoggedQueryPairs < Suc pairs")
    case True
    then show ?thesis using one by (simp only: scrub_pairs_limit option.case)
  next
    case lim: False
    show ?thesis
    proof (cases "dropWhile (\<lambda>c. \<not> is_sep c) raw")
      case Nil
      have "filter is_sep raw = []" using split_at_sep(1) [OF Nil] none by (metis filter_empty_conv list_all_iff)
      then show ?thesis
        using lim split_at_sep(1) [OF Nil] split_seps_single [OF ns] seps by (simp add: scrub_pairs_last [OF lim Nil])
    next
      case (Cons sep rest)
      note sp = split_at_sep(2) [OF Cons]
      have f: "filter is_sep raw = sep # filter is_sep rest"
        using sp none filter_append [of is_sep ?item "[sep] @ rest"] by (metis append_Cons append_Nil filter.simps(2) filter_empty_conv list_all_iff)
      note ih = "1.IH" [OF lim refl Cons]
      show ?thesis
      proof (cases "scrub_pairs uni extra (Suc pairs) rest")
        case None
        then show ?thesis using ih sp unfolding scrub_pairs_step [OF lim Cons] by simp
      next
        case (Some r)
        then have r: "Suc pairs + length (split_seps rest) \<le> maxLoggedQueryPairs"
          "split_seps r = map (scrub_item uni extra) (split_seps rest)" "filter is_sep r = filter is_sep rest" using ih by simp_all
        have "split_seps (scrub_item uni extra ?item @ [sep] @ r) = scrub_item uni extra ?item # split_seps r"
          using split_seps_append [OF ns] sp by blast
        moreover have "filter is_sep (scrub_item uni extra ?item @ [sep] @ r) = sep # filter is_sep r"
          using seps sp by simp
        ultimately show ?thesis using sp r f unfolding scrub_pairs_step [OF lim Cons] Some by simp
      qed
    qed
  qed
qed

text \<open>
  What becomes of one item: a clean one is kept, a pair with a valid key keeps its key and gets the placeholder, anything else
  is replaced by the placeholder pair.
\<close>

definition scrubbed_item :: "unicode_map \<Rightarrow> string list \<Rightarrow> string \<Rightarrow> string \<Rightarrow> bool" where
  "scrubbed_item uni extra item out \<longleftrightarrow>
     (if clean_item uni extra item then out = item
      else if CHR ''='' \<in> set item \<and> snd (Classify uni (item_key item)) then out = item_key item @ ''='' @ redactedQueryValue
      else out = redacted_pair)"

lemma scrub_item_scrubbed: "scrubbed_item uni extra item (scrub_item uni extra item)"
proof (cases "clean_item uni extra item")
  case True
  then show ?thesis by (simp add: scrubbed_item_def scrub_item_of_clean)
next
  case False
  then show ?thesis by (auto simp: scrubbed_item_def scrub_item_alt clean_item_def)
qed

text \<open>
  C29.  Redaction of logged queries.  Whatever the query, every item of the scrubbed text is empty, a bare key that is not
  sensitive, or a pair whose key decodes unambiguously and, if it is a credential key (built in or extra, in any
  percent-encoding), carries the placeholder.  A query within the limits keeps its items in number and order and its
  separators: a harmless item is kept as it is at its place whatever the others are, a credential loses only its value, and an
  item whose key cannot be read is replaced as a whole.  Any other query is replaced as a whole; a query within the limits
  whose items are all harmless is left unchanged, so scrubbing twice is harmless.
\<close>

theorem scrubRawQuery_redacts:
  "list_all (clean_item uni extra) (split_seps (scrubRawQuery uni raw extra)) \<and>
   (if length raw \<le> maxLoggedQueryBytes \<and> length (split_seps raw) \<le> maxLoggedQueryPairs
    then list_all2 (scrubbed_item uni extra) (split_seps raw) (split_seps (scrubRawQuery uni raw extra)) \<and>
      filter is_sep (scrubRawQuery uni raw extra) = filter is_sep raw
    else scrubRawQuery uni raw extra = redacted_pair) \<and>
   (length raw \<le> maxLoggedQueryBytes \<and> length (split_seps raw) \<le> maxLoggedQueryPairs \<and>
      list_all (clean_item uni extra) (split_seps raw) \<longrightarrow> scrubRawQuery uni raw extra = raw)"
proof (intro conjI)
  have "list_all (\<lambda>c. \<not> is_sep c) redacted_pair" by code_simp
  then have "split_seps redacted_pair = [redacted_pair]" by (rule split_seps_single)
  then have "list_all (clean_item uni extra) (split_seps redacted_pair)" by (simp add: redacted_pair_clean)
  then show "list_all (clean_item uni extra) (split_seps (scrubRawQuery uni raw extra))"
    using scrub_pairs_clean [of uni extra 0 raw] by (auto simp: scrubRawQuery_def split: option.splits)
  show "length raw \<le> maxLoggedQueryBytes \<and> length (split_seps raw) \<le> maxLoggedQueryPairs \<and>
      list_all (clean_item uni extra) (split_seps raw) \<longrightarrow> scrubRawQuery uni raw extra = raw"
    using scrub_pairs_keep [of uni extra raw 0] by (auto simp: scrubRawQuery_def)
  have "list_all2 (scrubbed_item uni extra) xs (map (scrub_item uni extra) xs)" for xs
    by (simp add: list_all2_conv_all_nth scrub_item_scrubbed)
  then show "if length raw \<le> maxLoggedQueryBytes \<and> length (split_seps raw) \<le> maxLoggedQueryPairs
    then list_all2 (scrubbed_item uni extra) (split_seps raw) (split_seps (scrubRawQuery uni raw extra)) \<and>
      filter is_sep (scrubRawQuery uni raw extra) = filter is_sep raw
    else scrubRawQuery uni raw extra = redacted_pair"
    using scrub_pairs_items [where uni = uni and extra = extra and pairs = 0 and raw = raw] by (cases "scrub_pairs uni extra 0 raw") (auto simp: scrubRawQuery_def)
qed

theorem scrubRawQuery_redacts_witness:
  "list_all2 (scrubbed_item plain_map []) [''a=1'', ''%74oken=abc'', ''b''] [''a=1'', ''%74oken=%3Credacted%3E'', ''b''] \<and>
   scrubRawQuery plain_map ''a=1&%74oken=abc;b'' [] = ''a=1&%74oken=%3Credacted%3E;b'' \<and>
   scrubRawQuery plain_map ''a=1&b=2'' [] = ''a=1&b=2''"
proof -
  have small: "length ''a=1&%74oken=abc;b'' \<le> maxLoggedQueryBytes" "length ''a=1&b=2'' \<le> maxLoggedQueryBytes"
    by (simp_all add: maxLoggedQueryBytes_def)
  have p: "scrub_pairs plain_map [] 0 ''a=1&%74oken=abc;b'' = Some ''a=1&%74oken=%3Credacted%3E;b''" by code_simp
  have s: "scrubRawQuery plain_map ''a=1&%74oken=abc;b'' [] = ''a=1&%74oken=%3Credacted%3E;b''"
    unfolding scrubRawQuery_def p using small by simp
  have items: "split_seps ''a=1&%74oken=abc;b'' = [''a=1'', ''%74oken=abc'', ''b'']"
    "split_seps ''a=1&%74oken=%3Credacted%3E;b'' = [''a=1'', ''%74oken=%3Credacted%3E'', ''b'']"
    "length (split_seps ''a=1&%74oken=abc;b'') \<le> maxLoggedQueryPairs" by code_simp+
  have c: "list_all (clean_item plain_map []) (split_seps ''a=1&b=2'')" "length (split_seps ''a=1&b=2'') \<le> maxLoggedQueryPairs"
    by code_simp+
  have "scrubRawQuery plain_map ''a=1&b=2'' [] = ''a=1&b=2''"
    using conjunct2 [OF conjunct2 [OF scrubRawQuery_redacts [of plain_map "[]" "''a=1&b=2''"]]] c small(2) by (simp only: simp_thms)
  moreover have "list_all2 (scrubbed_item plain_map []) [''a=1'', ''%74oken=abc'', ''b''] [''a=1'', ''%74oken=%3Credacted%3E'', ''b'']"
    using conjunct1 [OF conjunct2 [OF scrubRawQuery_redacts [of plain_map "[]" "''a=1&%74oken=abc;b''"]]] small(1) items(3)
    unfolding s items(1,2) by (simp only: simp_thms if_True)
  ultimately show ?thesis using s by (simp only: simp_thms)
qed

end
