(* ===== verification/Config_Connectors.thy ===== *)
theory Config_Connectors
  imports Net_Guard Complex_Main "HOL-Library.Multiset" "HOL-Library.Char_ord" "HOL-Library.List_Lexorder"
begin

text \<open>
  Resolution of the per-connector configuration: the guardrail block of \<^verbatim>\<open>internal/config/config.go\<close>, the
  automatic-protection overlay of \<^verbatim>\<open>internal/config/application_protection.go\<close> and the connector roster
  of \<^verbatim>\<open>internal/config/claw.go\<close>.

  A Go map that the code ranges over is the list of its entries in the order of the iteration; its keys
  are distinct.  A pointer field is an \<open>option\<close>.  Receivers and configurations are not nil (each method
  answers a nil receiver with a constant).  A \<open>float64\<close> is a rational number.  Of the configuration
  structs, the fields that the modelled functions read are kept.

  The locale \<open>validated_overrides\<close> says what an override table promises once its \<open>Validate\<close> accepted it;
  its clients' lemmas show that the resolvers then depend neither on Go's map iteration order nor on the
  spelling of the connector name.
\<close>

definition normalizeConnectorKey :: "unicode_map \<Rightarrow> string \<Rightarrow> string" where
  "normalizeConnectorKey uni name =
     (let n = ToLower uni (TrimSpace name)
      in if n = ''open-hands'' \<or> n = ''open_hands'' then ''openhands'' else n)"

text \<open>The lookup that the three override tables share (\<open>connectorOverride\<close>).\<close>

definition connector_override :: "unicode_map \<Rightarrow> (string \<times> 'p) list \<Rightarrow> string \<Rightarrow> 'p option" where
  "connector_override uni conns connector =
     (if connector = [] \<or> conns = [] then None
      else case map_of conns connector of
        Some pc \<Rightarrow> Some pc
      | None \<Rightarrow>
          let want = normalizeConnectorKey uni connector
          in if want = [] then None
             else map_option snd (find (\<lambda>(name, pc). normalizeConnectorKey uni name = want) conns))"

record HILTConfig =
  hilt_Enabled :: bool
  hilt_MinSeverity :: string

record PerConnectorGuardrailConfig =
  pcg_Mode :: string
  pcg_HILT :: "HILTConfig option"
  pcg_HookFailMode :: string
  pcg_BlockMessage :: string
  pcg_RulePackDir :: string
  pcg_Enabled :: "bool option"

record JudgeConfig =
  jc_Enabled :: bool
  jc_HookConnectors :: "string list"

record GuardrailConfig =
  gc_Mode :: string
  gc_Connector :: string
  gc_BlockMessage :: string
  gc_RulePackDir :: string
  gc_Judge :: JudgeConfig
  gc_HILT :: HILTConfig
  gc_DetectionStrategy :: string
  gc_DetectionStrategyPrompt :: string
  gc_DetectionStrategyCompletion :: string
  gc_DetectionStrategyToolCall :: string
  gc_AllowPrivateUpstreams :: "string list"
  gc_HookFailMode :: string
  gc_Connectors :: "(string \<times> PerConnectorGuardrailConfig) list"

record ApplicationProtectionConnectorConfig =
  apc_Enabled :: "bool option"
  apc_MinConfidence :: "rat option"
  apc_Guardrail :: PerConnectorGuardrailConfig
  apc_AssetPolicyMode :: string

record ApplicationProtectionConfig =
  ap_Enabled :: bool
  ap_MinConfidence :: rat
  ap_GoneAfterMin :: int
  ap_IncludeConnectors :: "string list"
  ap_ExcludeConnectors :: "string list"
  ap_Guardrail :: PerConnectorGuardrailConfig
  ap_AssetPolicyMode :: string
  ap_Connectors :: "(string \<times> ApplicationProtectionConnectorConfig) list"

record BaseConfig =
  cfg_Guardrail :: GuardrailConfig
  cfg_ApplicationProtection :: ApplicationProtectionConfig
  cfg_ClawMode :: string
  cfg_DeploymentMode :: string

subsection \<open>The guardrail block\<close>

definition guardrail_connectorOverride :: "unicode_map \<Rightarrow> GuardrailConfig \<Rightarrow> string \<Rightarrow> PerConnectorGuardrailConfig option" where
  "guardrail_connectorOverride uni g connector = connector_override uni (gc_Connectors g) connector"

definition HasConnector :: "unicode_map \<Rightarrow> GuardrailConfig \<Rightarrow> string \<Rightarrow> bool" where
  "HasConnector uni g connector \<longleftrightarrow> guardrail_connectorOverride uni g connector \<noteq> None"

text \<open>The first text that is not blank, trimmed.\<close>

fun first_text :: "string list \<Rightarrow> string \<Rightarrow> string" where
  "first_text [] fallback = fallback"
| "first_text (s # ss) fallback = (if TrimSpace s \<noteq> [] then TrimSpace s else first_text ss fallback)"

definition EffectiveMode :: "unicode_map \<Rightarrow> GuardrailConfig \<Rightarrow> string \<Rightarrow> string" where
  "EffectiveMode uni g connector =
     (case guardrail_connectorOverride uni g connector of
        Some pc \<Rightarrow> first_text [pcg_Mode pc, gc_Mode g] ''observe''
      | None \<Rightarrow> first_text [gc_Mode g] ''observe'')"

definition EffectiveEnabled :: "unicode_map \<Rightarrow> GuardrailConfig \<Rightarrow> string \<Rightarrow> bool" where
  "EffectiveEnabled uni g connector =
     (case Option.bind (guardrail_connectorOverride uni g connector) pcg_Enabled of Some b \<Rightarrow> b | None \<Rightarrow> True)"

definition EffectiveHILT :: "unicode_map \<Rightarrow> GuardrailConfig \<Rightarrow> string \<Rightarrow> HILTConfig" where
  "EffectiveHILT uni g connector =
     (case Option.bind (guardrail_connectorOverride uni g connector) pcg_HILT of Some h \<Rightarrow> h | None \<Rightarrow> gc_HILT g)"

definition EffectiveBlockMessage :: "unicode_map \<Rightarrow> GuardrailConfig \<Rightarrow> string \<Rightarrow> string" where
  "EffectiveBlockMessage uni g connector =
     (case guardrail_connectorOverride uni g connector of
        Some pc \<Rightarrow> if pcg_BlockMessage pc \<noteq> [] then pcg_BlockMessage pc else gc_BlockMessage g
      | None \<Rightarrow> gc_BlockMessage g)"

definition EffectiveRulePackDir :: "unicode_map \<Rightarrow> GuardrailConfig \<Rightarrow> string \<Rightarrow> string" where
  "EffectiveRulePackDir uni g connector =
     (case guardrail_connectorOverride uni g connector of
        Some pc \<Rightarrow> if TrimSpace (pcg_RulePackDir pc) \<noteq> [] then pcg_RulePackDir pc else gc_RulePackDir g
      | None \<Rightarrow> gc_RulePackDir g)"

definition EffectiveHookFailMode :: "GuardrailConfig \<Rightarrow> string" where
  "EffectiveHookFailMode g = (if gc_HookFailMode g = ''open'' then ''open'' else ''closed'')"

definition fold_fail_mode :: "unicode_map \<Rightarrow> string \<Rightarrow> string" where
  "fold_fail_mode uni mode = (if EqualFold uni (TrimSpace mode) ''open'' then ''open'' else ''closed'')"

definition EffectiveHookFailModeFor :: "unicode_map \<Rightarrow> GuardrailConfig \<Rightarrow> string \<Rightarrow> string" where
  "EffectiveHookFailModeFor uni g connector =
     (let global = (if \<not> EqualFold uni (TrimSpace (EffectiveMode uni g connector)) ''action'' then ''open''
            else EffectiveHookFailMode g)
      in case guardrail_connectorOverride uni g connector of
           Some pc \<Rightarrow> if TrimSpace (pcg_HookFailMode pc) \<noteq> [] then fold_fail_mode uni (pcg_HookFailMode pc) else global
         | None \<Rightarrow> global)"

definition EffectiveStrategy :: "GuardrailConfig \<Rightarrow> string \<Rightarrow> string" where
  "EffectiveStrategy g direction =
     (let override = (if direction = ''prompt'' then gc_DetectionStrategyPrompt g
            else if direction = ''completion'' then gc_DetectionStrategyCompletion g
            else if direction = ''tool_call'' then gc_DetectionStrategyToolCall g else [])
      in if override \<noteq> [] then override
         else if gc_DetectionStrategy g \<noteq> [] then gc_DetectionStrategy g else ''regex_judge'')"

definition HookConnectorEnabled :: "unicode_map \<Rightarrow> JudgeConfig \<Rightarrow> string \<Rightarrow> bool" where
  "HookConnectorEnabled uni c name =
     (if \<not> jc_Enabled c then False
      else if TrimSpace name = [] then False
      else list_ex (\<lambda>entry. TrimSpace entry = ''*'' \<or> EqualFold uni (TrimSpace entry) (TrimSpace name)) (jc_HookConnectors c))"

subsection \<open>Validation\<close>

datatype config_error =
    EmptyConnectorName string
  | SameConnector string string string string
  | InvalidGuardrailMode string
  | InvalidHookFailMode string
  | InvalidMinSeverity string
  | InvalidAssetPolicyMode string
  | ConfidenceOutOfRange string
  | NegativeGoneAfter
  | UpstreamCIDR string | UpstreamNotIP string | UpstreamMetadata string | UpstreamLoopback string
  | UpstreamInvalid string | UpstreamLinkLocal string
  | InBlock string config_error

definition in_block :: "string \<Rightarrow> config_error option \<Rightarrow> config_error option" where
  "in_block block e = map_option (InBlock block) e"

fun first_error :: "config_error option list \<Rightarrow> config_error option" where
  "first_error [] = None"
| "first_error (e # es) = (case e of Some err \<Rightarrow> Some err | None \<Rightarrow> first_error es)"

definition validateGuardrailMode :: "string \<Rightarrow> config_error option" where
  "validateGuardrailMode mode =
     (if List.member [[], ''observe'', ''action''] (TrimSpace mode) then None else Some (InvalidGuardrailMode mode))"

definition validateGuardrailHookFailMode :: "unicode_map \<Rightarrow> string \<Rightarrow> config_error option" where
  "validateGuardrailHookFailMode uni mode =
     (if List.member [[], ''open'', ''closed''] (TrimSpace (ToLower uni mode)) then None else Some (InvalidHookFailMode mode))"

definition validateGuardrailMinSeverity :: "unicode_map \<Rightarrow> string \<Rightarrow> config_error option" where
  "validateGuardrailMinSeverity uni sev =
     (if List.member [[], ''LOW'', ''MEDIUM'', ''HIGH'', ''CRITICAL''] (TrimSpace (ToUpper uni sev)) then None
      else Some (InvalidMinSeverity sev))"

definition validateAssetPolicyMode :: "string \<Rightarrow> config_error option" where
  "validateAssetPolicyMode mode =
     (if List.member [[], ''observe'', ''action''] (TrimSpace mode) then None else Some (InvalidAssetPolicyMode mode))"

definition validateConfidence :: "string \<Rightarrow> rat \<Rightarrow> config_error option" where
  "validateConfidence path v = (if v < 0 \<or> 1 < v then Some (ConfidenceOutOfRange path) else None)"

fun validateAllowPrivateUpstreams :: "(string \<Rightarrow> IP) \<Rightarrow> string list \<Rightarrow> config_error option" where
  "validateAllowPrivateUpstreams ParseIP [] = None"
| "validateAllowPrivateUpstreams ParseIP (raw # ips) =
     (let s = TrimSpace raw; ip = ParseIP s
      in if s = [] then validateAllowPrivateUpstreams ParseIP ips
         else if Contains s ''/'' then Some (UpstreamCIDR s)
         else if ip = NilIP then Some (UpstreamNotIP s)
         else if IsCloudMetadataIP ip then Some (UpstreamMetadata s)
         else if IsLoopback ip then Some (UpstreamLoopback s)
         else if IsMulticast ip \<or> IsUnspecified ip then Some (UpstreamInvalid s)
         else if IsLinkLocalUnicast ip \<or> IsLinkLocalMulticast ip then Some (UpstreamLinkLocal s)
         else validateAllowPrivateUpstreams ParseIP ips)"

text \<open>
  The duplicate check over a list of names.  The guardrail block leaves out names whose
  normal form is empty (\<open>skip_empty\<close>), the automatic-protection block does not.
\<close>

fun check_names :: "unicode_map \<Rightarrow> bool \<Rightarrow> string \<Rightarrow> (string \<times> string) list \<Rightarrow> string list \<Rightarrow> config_error option" where
  "check_names uni skip_empty path seen [] = None"
| "check_names uni skip_empty path seen (name # names) =
     (if TrimSpace name = [] then Some (EmptyConnectorName path)
      else let norm = normalizeConnectorKey uni name
           in if skip_empty \<and> norm = [] then check_names uni skip_empty path seen names
              else case map_of seen norm of
                Some prev \<Rightarrow> Some (SameConnector path prev name norm)
              | None \<Rightarrow> check_names uni skip_empty path ((norm, name) # seen) names)"

definition sorted_names :: "(string \<times> 'p) list \<Rightarrow> string list" where
  "sorted_names conns = sort (map fst conns)"

definition validate_guardrail_override :: "unicode_map \<Rightarrow> PerConnectorGuardrailConfig \<Rightarrow> config_error option" where
  "validate_guardrail_override uni pc =
     first_error [validateGuardrailMode (pcg_Mode pc), validateGuardrailHookFailMode uni (pcg_HookFailMode pc),
       (case pcg_HILT pc of Some h \<Rightarrow> validateGuardrailMinSeverity uni (hilt_MinSeverity h) | None \<Rightarrow> None)]"

definition guardrail_Validate :: "unicode_map \<Rightarrow> (string \<Rightarrow> IP) \<Rightarrow> GuardrailConfig \<Rightarrow> config_error option" where
  "guardrail_Validate uni ParseIP g =
     first_error (
       [check_names uni True ''guardrail.connectors'' [] (sorted_names (gc_Connectors g))] @
       map (\<lambda>name. case map_of (gc_Connectors g) name of
              Some pc \<Rightarrow> in_block (''guardrail.connectors['' @ Quote uni name @ '']'') (validate_guardrail_override uni pc)
            | None \<Rightarrow> None) (sorted_names (gc_Connectors g)) @
       [validateAllowPrivateUpstreams ParseIP (gc_AllowPrivateUpstreams g)])"

subsection \<open>Automatic protection\<close>

definition protection_connectorOverride ::
  "unicode_map \<Rightarrow> ApplicationProtectionConfig \<Rightarrow> string \<Rightarrow> ApplicationProtectionConnectorConfig option" where
  "protection_connectorOverride uni a connector = connector_override uni (ap_Connectors a) connector"

definition DefaultApplicationProtectionMinConfidence :: rat where
  "DefaultApplicationProtectionMinConfidence = 8 / 10"

definition EffectiveMinConfidence :: "unicode_map \<Rightarrow> ApplicationProtectionConfig \<Rightarrow> string \<Rightarrow> rat" where
  "EffectiveMinConfidence uni a connector =
     (case Option.bind (protection_connectorOverride uni a connector) apc_MinConfidence of
        Some v \<Rightarrow> v
      | None \<Rightarrow> if 0 \<le> ap_MinConfidence a then ap_MinConfidence a else DefaultApplicationProtectionMinConfidence)"

definition protection_EffectiveEnabled :: "unicode_map \<Rightarrow> ApplicationProtectionConfig \<Rightarrow> string \<Rightarrow> bool" where
  "protection_EffectiveEnabled uni a connector =
     (if \<not> ap_Enabled a then False
      else case Option.bind (protection_connectorOverride uni a connector) apc_Enabled of Some b \<Rightarrow> b | None \<Rightarrow> True)"

definition AllowsConnector :: "unicode_map \<Rightarrow> ApplicationProtectionConfig \<Rightarrow> string \<Rightarrow> bool" where
  "AllowsConnector uni a connector =
     (let name = normalizeConnectorKey uni connector
      in if name = [] then False
         else if list_ex (\<lambda>raw. normalizeConnectorKey uni raw = name) (ap_ExcludeConnectors a) then False
         else if ap_IncludeConnectors a = [] then True
         else list_ex (\<lambda>raw. normalizeConnectorKey uni raw = name) (ap_IncludeConnectors a))"

definition validateConnectorList :: "unicode_map \<Rightarrow> string \<Rightarrow> string list \<Rightarrow> config_error option" where
  "validateConnectorList uni path names = check_names uni False path [] names"

definition validate_protection_override ::
  "unicode_map \<Rightarrow> string \<Rightarrow> ApplicationProtectionConnectorConfig \<Rightarrow> config_error option" where
  "validate_protection_override uni name pc =
     (let block = ''application_protection.connectors['' @ Quote uni name @ '']''
      in first_error [
        (case apc_MinConfidence pc of Some v \<Rightarrow> validateConfidence (block @ ''.min_confidence'') v | None \<Rightarrow> None),
        in_block (block @ ''.guardrail'') (validate_guardrail_override uni (apc_Guardrail pc)),
        in_block (block @ ''.asset_policy'') (validateAssetPolicyMode (apc_AssetPolicyMode pc))])"

definition protection_Validate :: "unicode_map \<Rightarrow> ApplicationProtectionConfig \<Rightarrow> config_error option" where
  "protection_Validate uni a =
     first_error (
       [validateConfidence ''application_protection.min_confidence'' (ap_MinConfidence a),
        (if ap_GoneAfterMin a < 0 then Some NegativeGoneAfter else None),
        validateConnectorList uni ''application_protection.include_connectors'' (ap_IncludeConnectors a),
        validateConnectorList uni ''application_protection.exclude_connectors'' (ap_ExcludeConnectors a),
        in_block ''application_protection.guardrail'' (validate_guardrail_override uni (ap_Guardrail a)),
        in_block ''application_protection.asset_policy'' (validateAssetPolicyMode (ap_AssetPolicyMode a)),
        check_names uni False ''application_protection.connectors'' [] (sorted_names (ap_Connectors a))] @
       map (\<lambda>name. case map_of (ap_Connectors a) name of
              Some pc \<Rightarrow> validate_protection_override uni name pc | None \<Rightarrow> None) (sorted_names (ap_Connectors a)))"

subsection \<open>The roster\<close>

definition activeConnector :: "'c BaseConfig_scheme \<Rightarrow> string" where
  "activeConnector c = first_text [gc_Connector (cfg_Guardrail c), cfg_ClawMode c] ''openclaw''"

definition HasConnectorConfigured :: "unicode_map \<Rightarrow> 'c BaseConfig_scheme \<Rightarrow> bool" where
  "HasConnectorConfigured uni c \<longleftrightarrow>
     list_ex (\<lambda>(name, pc). normalizeConnectorKey uni name \<noteq> []) (gc_Connectors (cfg_Guardrail c)) \<or>
     TrimSpace (gc_Connector (cfg_Guardrail c)) \<noteq> [] \<or> TrimSpace (cfg_ClawMode c) \<noteq> []"

fun roster_names :: "unicode_map \<Rightarrow> string list \<Rightarrow> string list \<Rightarrow> string list" where
  "roster_names uni seen [] = []"
| "roster_names uni seen (name # names) =
     (let normalized = normalizeConnectorKey uni name
      in if normalized = [] \<or> List.member seen normalized then roster_names uni seen names
         else normalized # roster_names uni (normalized # seen) names)"

definition activeConnectors :: "unicode_map \<Rightarrow> 'c BaseConfig_scheme \<Rightarrow> string list" where
  "activeConnectors uni c =
     (if \<not> HasConnectorConfigured uni c then []
      else let names = roster_names uni [] (map fst (gc_Connectors (cfg_Guardrail c)))
           in if names \<noteq> [] then sort names else [activeConnector c])"

definition manualConnectorConfigured :: "unicode_map \<Rightarrow> 'c BaseConfig_scheme \<Rightarrow> string \<Rightarrow> bool" where
  "manualConnectorConfigured uni c connector =
     (let want = normalizeConnectorKey uni connector
      in want \<noteq> [] \<and> list_ex (\<lambda>name. normalizeConnectorKey uni name = want) (activeConnectors uni c))"

subsection \<open>Effective settings of a connector\<close>

definition appProtectionGuardrailOverride ::
  "unicode_map \<Rightarrow> 'c BaseConfig_scheme \<Rightarrow> string \<Rightarrow> PerConnectorGuardrailConfig option" where
  "appProtectionGuardrailOverride uni c connector =
     (if \<not> ap_Enabled (cfg_ApplicationProtection c) \<or> manualConnectorConfigured uni c connector then None
      else case protection_connectorOverride uni (cfg_ApplicationProtection c) connector of
        Some pc \<Rightarrow> Some (apc_Guardrail pc)
      | None \<Rightarrow> Some (ap_Guardrail (cfg_ApplicationProtection c)))"

definition EffectiveGuardrailModeForConnector :: "unicode_map \<Rightarrow> 'c BaseConfig_scheme \<Rightarrow> string \<Rightarrow> string" where
  "EffectiveGuardrailModeForConnector uni c connector =
     (case appProtectionGuardrailOverride uni c connector of
        Some pc \<Rightarrow> first_text [pcg_Mode pc] ''observe''
      | None \<Rightarrow> EffectiveMode uni (cfg_Guardrail c) connector)"

definition EffectiveGuardrailEnabledForConnector :: "unicode_map \<Rightarrow> 'c BaseConfig_scheme \<Rightarrow> string \<Rightarrow> bool" where
  "EffectiveGuardrailEnabledForConnector uni c connector =
     (if manualConnectorConfigured uni c connector then EffectiveEnabled uni (cfg_Guardrail c) connector
      else protection_EffectiveEnabled uni (cfg_ApplicationProtection c) connector)"

definition EffectiveHILTForConnector :: "unicode_map \<Rightarrow> 'c BaseConfig_scheme \<Rightarrow> string \<Rightarrow> HILTConfig" where
  "EffectiveHILTForConnector uni c connector =
     (case Option.bind (appProtectionGuardrailOverride uni c connector) pcg_HILT of
        Some h \<Rightarrow> h | None \<Rightarrow> EffectiveHILT uni (cfg_Guardrail c) connector)"

definition EffectiveBlockMessageForConnector :: "unicode_map \<Rightarrow> 'c BaseConfig_scheme \<Rightarrow> string \<Rightarrow> string" where
  "EffectiveBlockMessageForConnector uni c connector =
     (case appProtectionGuardrailOverride uni c connector of
        Some pc \<Rightarrow> if pcg_BlockMessage pc \<noteq> [] then pcg_BlockMessage pc
          else EffectiveBlockMessage uni (cfg_Guardrail c) connector
      | None \<Rightarrow> EffectiveBlockMessage uni (cfg_Guardrail c) connector)"

definition EffectiveRulePackDirForConnector :: "unicode_map \<Rightarrow> 'c BaseConfig_scheme \<Rightarrow> string \<Rightarrow> string" where
  "EffectiveRulePackDirForConnector uni c connector =
     (case appProtectionGuardrailOverride uni c connector of
        Some pc \<Rightarrow> if TrimSpace (pcg_RulePackDir pc) \<noteq> [] then pcg_RulePackDir pc
          else EffectiveRulePackDir uni (cfg_Guardrail c) connector
      | None \<Rightarrow> EffectiveRulePackDir uni (cfg_Guardrail c) connector)"

definition IsManagedEnterprise :: "unicode_map \<Rightarrow> string \<Rightarrow> bool" where
  "IsManagedEnterprise uni mode = EqualFold uni (TrimSpace mode) ''managed_enterprise''"

definition effectiveManagedEnterpriseHookFailMode :: "unicode_map \<Rightarrow> string \<Rightarrow> string \<Rightarrow> string \<Rightarrow> string" where
  "effectiveManagedEnterpriseHookFailMode uni deploymentMode connector configured =
     (let name = normalizeConnectorKey uni connector
      in if IsManagedEnterprise uni deploymentMode \<and> (name = ''codex'' \<or> name = ''claudecode'') then ''closed''
         else fold_fail_mode uni configured)"

definition EffectiveHookFailModeForConnector :: "unicode_map \<Rightarrow> 'c BaseConfig_scheme \<Rightarrow> string \<Rightarrow> string" where
  "EffectiveHookFailModeForConnector uni c connector =
     (let configured = (case appProtectionGuardrailOverride uni c connector of
            Some pc \<Rightarrow> if TrimSpace (pcg_HookFailMode pc) \<noteq> [] then fold_fail_mode uni (pcg_HookFailMode pc) else []
          | None \<Rightarrow> [])
      in effectiveManagedEnterpriseHookFailMode uni (cfg_DeploymentMode c) connector
           (if configured = [] then EffectiveHookFailModeFor uni (cfg_Guardrail c) connector else configured))"

subsection \<open>Lookups in a validated table\<close>

definition normal_keys :: "unicode_map \<Rightarrow> (string \<times> 'p) list \<Rightarrow> string list" where
  "normal_keys uni conns = filter (\<lambda>k. k \<noteq> []) (map (\<lambda>(name, pc). normalizeConnectorKey uni name) conns)"

lemma normal_keys_mset: "mset conns = mset conns' \<Longrightarrow> mset (normal_keys uni conns) = mset (normal_keys uni conns')"
  by (simp add: normal_keys_def mset_filter)

lemma normal_keys_unique:
  assumes "distinct (normal_keys uni conns)" and "(n, p) \<in> set conns" and "(n', p') \<in> set conns"
    and "normalizeConnectorKey uni n = normalizeConnectorKey uni n'" and "normalizeConnectorKey uni n \<noteq> []"
  shows "(n, p) = (n', p')"
  using assms
proof (induction conns)
  case (Cons e conns)
  obtain m q where e: "e = (m, q)" by fastforce
  have mem: "normalizeConnectorKey uni x \<in> set (normal_keys uni conns)"
    if "(x, y) \<in> set conns" "normalizeConnectorKey uni x \<noteq> []" for x y
    using that by (force simp: normal_keys_def)
  have tail: "distinct (normal_keys uni conns)" using Cons.prems(1) by (auto simp: normal_keys_def split: if_splits)
  have head: "normalizeConnectorKey uni m \<notin> set (normal_keys uni conns)" if "normalizeConnectorKey uni m \<noteq> []"
    using Cons.prems(1) that by (simp add: e normal_keys_def)
  consider "(n, p) = e" "(n', p') = e" | "(n, p) = e" "(n', p') \<in> set conns" | "(n, p) \<in> set conns" "(n', p') = e"
    | "(n, p) \<in> set conns" "(n', p') \<in> set conns"
    using Cons.prems(2,3) by auto
  then show ?case
  proof cases
    case 2
    then show ?thesis using head mem [OF 2(2)] Cons.prems(4,5) e by auto
  next
    case 3
    then show ?thesis using head mem [OF 3(1)] Cons.prems(4,5) e by auto
  next
    case 4
    then show ?thesis using Cons.IH [OF tail] Cons.prems(4,5) by blast
  qed simp
qed simp

lemma find_unique:
  assumes "x \<in> set xs" and "P x" and "\<And>y. y \<in> set xs \<Longrightarrow> P y \<Longrightarrow> y = x"
  shows "find P xs = Some x"
  using assms
proof (induction xs)
  case (Cons y ys)
  show ?case
  proof (cases "P y")
    case True
    then have "y = x" by (intro Cons.prems(3)) simp_all
    then show ?thesis using True by simp
  next
    case False
    then have "x \<in> set ys" using Cons.prems(1,2) by auto
    then have "find P ys = Some x" using Cons.prems(2,3) by (intro Cons.IH) (blast intro: list.set_intros(2))+
    then show ?thesis using False by simp
  qed
qed simp

lemma normal_find:
  assumes "distinct (normal_keys uni conns)" and "(n, p) \<in> set conns" and "normalizeConnectorKey uni n = want" and "want \<noteq> []"
  shows "find (\<lambda>(name, pc). normalizeConnectorKey uni name = want) conns = Some (n, p)"
proof (rule find_unique)
  show "(n, p) \<in> set conns" by (rule assms(2))
  show "case (n, p) of (name, pc) \<Rightarrow> normalizeConnectorKey uni name = want" using assms(3) by simp
  fix y assume y: "y \<in> set conns" "case y of (name, pc) \<Rightarrow> normalizeConnectorKey uni name = want"
  obtain m q where m: "y = (m, q)" by fastforce
  show "y = (n, p)" unfolding m using y assms(3,4) by (intro normal_keys_unique [OF assms(1) _ assms(2)]) (simp_all add: m)
qed

lemma override_normal:
  assumes d: "distinct (normal_keys uni conns)" and u: "distinct (map fst conns)" and c: "connector \<noteq> []"
    and w: "normalizeConnectorKey uni connector \<noteq> []"
  shows "connector_override uni conns connector =
    map_option snd (find (\<lambda>(name, pc). normalizeConnectorKey uni name = normalizeConnectorKey uni connector) conns)"
proof (cases "map_of conns connector")
  case None
  then show ?thesis using c w by (cases conns) (auto simp: connector_override_def Let_def)
next
  case (Some pc)
  then have "find (\<lambda>(name, pc). normalizeConnectorKey uni name = normalizeConnectorKey uni connector) conns = Some (connector, pc)"
    using d w by (intro normal_find) (auto dest: map_of_SomeD)
  then show ?thesis using Some c by (cases conns) (auto simp: connector_override_def)
qed

text \<open>
  What an override table promises: \<open>accepts\<close> is the outcome of the owning block's \<open>Validate\<close>, and an
  accepted table names every connector at most once.
\<close>

locale validated_overrides =
  fixes uni :: unicode_map
    and table :: "'c \<Rightarrow> (string \<times> 'p) list"
    and accepts :: "'c \<Rightarrow> bool"
  assumes accepted_unique: "accepts c \<Longrightarrow> distinct (normal_keys uni (table c))"
begin

lemma order_irrelevant:
  assumes "accepts c" and "mset (table c') = mset (table c)" and "distinct (map fst (table c))"
  shows "connector_override uni (table c') connector = connector_override uni (table c) connector"
proof -
  have d: "distinct (normal_keys uni (table c))" using assms(1) by (rule accepted_unique)
  then have d': "distinct (normal_keys uni (table c'))"
    using normal_keys_mset [OF assms(2), of uni] by (metis mset_eq_imp_distinct_iff)
  have u': "distinct (map fst (table c'))" using assms(2,3) by (metis mset_eq_imp_distinct_iff mset_map)
  have s: "set (table c') = set (table c)" using assms(2) by (metis set_mset_mset)
  have exact: "map_of (table c') connector = map_of (table c) connector"
    using s assms(3) u' by (metis map_of_eqI set_map map_of_eq_None_iff not_Some_eq map_of_is_SomeI map_of_SomeD)
  have "find (\<lambda>(name, pc). normalizeConnectorKey uni name = want) (table c') =
      find (\<lambda>(name, pc). normalizeConnectorKey uni name = want) (table c)" if "want \<noteq> []" for want
  proof (cases "\<exists>n p. (n, p) \<in> set (table c) \<and> normalizeConnectorKey uni n = want")
    case True
    then show ?thesis using normal_find [OF d] normal_find [OF d'] s that by metis
  next
    case False
    then have "find (\<lambda>(name, pc). normalizeConnectorKey uni name = want) (table x) = None" if "x \<in> {c, c'}" for x
      using s that by (auto simp: find_None_iff)
    then show ?thesis by simp
  qed
  moreover have "(table c' = []) = (table c = [])" using s by (metis set_empty)
  ultimately show ?thesis unfolding connector_override_def by (simp add: exact Let_def split: option.splits)
qed

lemma spelling_irrelevant:
  assumes "accepts c" and "distinct (map fst (table c))"
    and "normalizeConnectorKey uni connector = normalizeConnectorKey uni connector'"
    and "normalizeConnectorKey uni connector \<noteq> []" and "connector \<noteq> []" and "connector' \<noteq> []"
  shows "connector_override uni (table c) connector = connector_override uni (table c) connector'"
  using override_normal [OF accepted_unique [OF assms(1)] assms(2)] assms(3-6) by metis

end

subsection \<open>The two validated tables\<close>

lemma first_error_None: "first_error es = None \<longleftrightarrow> list_all (\<lambda>e. e = None) es"
  by (induction es) (auto split: option.splits)

lemma check_names_unique:
  "check_names uni skip path seen names = None \<Longrightarrow>
     distinct (filter (\<lambda>k. k \<noteq> []) (map (normalizeConnectorKey uni) names)) \<and>
     set (filter (\<lambda>k. k \<noteq> []) (map (normalizeConnectorKey uni) names)) \<inter> fst ` set seen = {}"
proof (induction names arbitrary: seen)
  case (Cons name names)
  let ?k = "normalizeConnectorKey uni name"
  show ?case
  proof (cases "skip \<and> ?k = []")
    case True
    then show ?thesis using Cons by (auto simp: Let_def split: if_splits)
  next
    case False
    then have "check_names uni skip path ((?k, name) # seen) names = None" and "map_of seen ?k = None"
      using Cons.prems by (auto simp: Let_def split: if_splits option.splits)
    with Cons.IH [of "(?k, name) # seen"] show ?thesis by (auto simp: map_of_eq_None_iff)
  qed
qed simp

lemma sorted_names_unique:
  assumes "check_names uni skip path [] (sorted_names conns) = None"
  shows "distinct (normal_keys uni conns)"
proof -
  have "mset (filter (\<lambda>k. k \<noteq> []) (map (normalizeConnectorKey uni) (sorted_names conns))) = mset (normal_keys uni conns)"
  proof -
    have "mset (map (normalizeConnectorKey uni) (sorted_names conns)) = mset (map (\<lambda>(name, pc). normalizeConnectorKey uni name) conns)"
      unfolding sorted_names_def by (simp add: case_prod_unfold image_mset.compositionality comp_def)
    then show ?thesis unfolding normal_keys_def by (simp only: mset_filter)
  qed
  then show ?thesis using check_names_unique [OF assms] by (metis mset_eq_imp_distinct_iff)
qed

lemma guardrail_names:
  "guardrail_Validate uni ParseIP g = None \<Longrightarrow> check_names uni True ''guardrail.connectors'' [] (sorted_names (gc_Connectors g)) = None"
  by (simp add: guardrail_Validate_def split: option.splits)

lemma protection_names:
  "protection_Validate uni a = None \<Longrightarrow>
     check_names uni False ''application_protection.connectors'' [] (sorted_names (ap_Connectors a)) = None"
  by (simp add: protection_Validate_def split: option.splits)

interpretation guardrail: validated_overrides uni gc_Connectors "\<lambda>g. guardrail_Validate uni ParseIP g = None" for uni ParseIP
  by unfold_locales (rule sorted_names_unique, erule guardrail_names)

interpretation protection: validated_overrides uni ap_Connectors "\<lambda>a. protection_Validate uni a = None" for uni
  by unfold_locales (rule sorted_names_unique, erule protection_names)

lemma fold_open: "fold_fail_mode uni mode = ''open'' \<longleftrightarrow> EqualFold uni (TrimSpace mode) ''open''"
  by (simp add: fold_fail_mode_def)

subsection \<open>Properties\<close>

text \<open>
  C30.  Deterministic resolution.  Once \<open>Validate\<close> has accepted the guardrail block, every
  effective setting of a connector is the same whatever the iteration order of the override map and
  whichever spelling of the connector name (case, surrounding blanks, hyphen or underscore alias) is asked for.
\<close>

theorem guardrail_resolution_deterministic:
  assumes "guardrail_Validate uni ParseIP g = None" and "distinct (map fst (gc_Connectors g))"
    and "mset conns = mset (gc_Connectors g)"
    and "normalizeConnectorKey uni connector = normalizeConnectorKey uni connector'"
    and "normalizeConnectorKey uni connector \<noteq> []" and "connector \<noteq> []" and "connector' \<noteq> []"
  shows "let g' = g\<lparr>gc_Connectors := conns\<rparr> in
    EffectiveMode uni g' connector' = EffectiveMode uni g connector \<and>
    EffectiveEnabled uni g' connector' = EffectiveEnabled uni g connector \<and>
    EffectiveHILT uni g' connector' = EffectiveHILT uni g connector \<and>
    EffectiveHookFailModeFor uni g' connector' = EffectiveHookFailModeFor uni g connector \<and>
    EffectiveBlockMessage uni g' connector' = EffectiveBlockMessage uni g connector \<and>
    EffectiveRulePackDir uni g' connector' = EffectiveRulePackDir uni g connector"
proof -
  let ?g = "g\<lparr>gc_Connectors := conns\<rparr>"
  have "connector_override uni (gc_Connectors ?g) connector' = connector_override uni (gc_Connectors g) connector'"
    using guardrail.order_irrelevant [OF assms(1) _ assms(2), of ?g] assms(3) by simp
  also have "\<dots> = connector_override uni (gc_Connectors g) connector"
    using guardrail.spelling_irrelevant [OF assms(1,2,4-7)] by simp
  finally have o: "guardrail_connectorOverride uni ?g connector' = guardrail_connectorOverride uni g connector"
    unfolding guardrail_connectorOverride_def .
  have m: "EffectiveMode uni ?g connector' = EffectiveMode uni g connector"
    unfolding EffectiveMode_def o by (auto split: option.splits)
  then show ?thesis
    by (simp add: EffectiveEnabled_def EffectiveHILT_def EffectiveHookFailModeFor_def EffectiveBlockMessage_def
        EffectiveRulePackDir_def EffectiveHookFailMode_def o Let_def split: option.splits)
qed

definition sample_override :: "string \<Rightarrow> PerConnectorGuardrailConfig" where
  "sample_override mode = \<lparr>pcg_Mode = mode, pcg_HILT = None, pcg_HookFailMode = [], pcg_BlockMessage = [],
     pcg_RulePackDir = [], pcg_Enabled = None\<rparr>"

definition sample_guardrail :: GuardrailConfig where
  "sample_guardrail = \<lparr>gc_Mode = ''observe'', gc_Connector = [], gc_BlockMessage = [], gc_RulePackDir = [],
     gc_Judge = \<lparr>jc_Enabled = False, jc_HookConnectors = []\<rparr>,
     gc_HILT = \<lparr>hilt_Enabled = False, hilt_MinSeverity = []\<rparr>, gc_DetectionStrategy = [],
     gc_DetectionStrategyPrompt = [], gc_DetectionStrategyCompletion = [], gc_DetectionStrategyToolCall = [],
     gc_AllowPrivateUpstreams = [], gc_HookFailMode = ''closed'',
     gc_Connectors = [(''open-hands'', sample_override ''action''), (''codex'', sample_override [])]\<rparr>"

theorem guardrail_resolution_deterministic_witness:
  "EffectiveMode plain_map
     (sample_guardrail\<lparr>gc_Connectors := [(''codex'', sample_override []), (''open-hands'', sample_override ''action'')]\<rparr>) ''OpenHands'' =
   ''action''"
proof -
  let ?conns = "[(''codex'', sample_override []), (''open-hands'', sample_override ''action'')]"
  have v: "guardrail_Validate plain_map (\<lambda>s. NilIP) sample_guardrail = None" "distinct (map fst (gc_Connectors sample_guardrail))"
    by code_simp+
  have m: "mset ?conns = mset (gc_Connectors sample_guardrail)" by (simp add: sample_guardrail_def)
  have n: "normalizeConnectorKey plain_map ''open-hands'' = normalizeConnectorKey plain_map ''OpenHands''"
    "normalizeConnectorKey plain_map ''open-hands'' \<noteq> []" "''open-hands'' \<noteq> []" "''OpenHands'' \<noteq> []"
    "EffectiveMode plain_map sample_guardrail ''open-hands'' = ''action''"
    by code_simp+
  show ?thesis
    using guardrail_resolution_deterministic [OF v m n(1-4)] unfolding Let_def n(5) by blast
qed

text \<open>
  The effective failure mode of a connector's hooks.  The native Codex and Claude Code hooks of a managed enterprise deployment
  always fail closed.  Otherwise the overlay's override decides if it is not blank, and then the connector's own one, and
  anything but open means closed; without an override a connector that does not enforce fails open, and an enforcing one follows
  the global setting, which opens only when it is exactly \<open>open\<close>.
\<close>

definition hook_overrides :: "unicode_map \<Rightarrow> 'c BaseConfig_scheme \<Rightarrow> string \<Rightarrow> string list" where
  "hook_overrides uni c connector =
     filter (\<lambda>s. TrimSpace s \<noteq> []) (map pcg_HookFailMode
       (List.map_filter id [appProtectionGuardrailOverride uni c connector, guardrail_connectorOverride uni (cfg_Guardrail c) connector]))"

lemma fold_fail_mode_words: "fold_fail_mode uni ''closed'' = ''closed''" "fold_fail_mode uni ''open'' = ''open''"
proof -
  have words: "TrimSpace ''closed'' = ''closed''" "TrimSpace ''open'' = ''open''" "is_ascii ''closed''" "is_ascii ''open''"
    "map byte_lower ''closed'' \<noteq> map byte_lower ''open''" by code_simp+
  then show "fold_fail_mode uni ''closed'' = ''closed''" "fold_fail_mode uni ''open'' = ''open''"
    by (simp_all add: fold_fail_mode_def EqualFold_def)
qed

lemma fold_fail_mode_twice: "fold_fail_mode uni (fold_fail_mode uni s) = fold_fail_mode uni s"
  using fold_fail_mode_words [of uni] by (cases "EqualFold uni (TrimSpace s) ''open''") (simp_all add: fold_fail_mode_def [of uni s])

lemma hook_fail_mode_exact:
  "EffectiveHookFailModeForConnector uni c connector =
     (if IsManagedEnterprise uni (cfg_DeploymentMode c) \<and> normalizeConnectorKey uni connector \<in> {''codex'', ''claudecode''} then ''closed''
      else case hook_overrides uni c connector of
        s # _ \<Rightarrow> if EqualFold uni (TrimSpace s) ''open'' then ''open'' else ''closed''
      | [] \<Rightarrow> if EqualFold uni (TrimSpace (EffectiveMode uni (cfg_Guardrail c) connector)) ''action'' \<and>
            gc_HookFailMode (cfg_Guardrail c) \<noteq> ''open'' then ''closed'' else ''open'')"
proof -
  note words = fold_fail_mode_words [of uni]
  have nonempty: "fold_fail_mode uni s \<noteq> []" for s by (simp add: fold_fail_mode_def)
  let ?m = "EffectiveHookFailModeFor uni (cfg_Guardrail c) connector"
  let ?x = "appProtectionGuardrailOverride uni c connector" and ?y = "guardrail_connectorOverride uni (cfg_Guardrail c) connector"
  have m: "fold_fail_mode uni ?m = ?m"
    using words fold_fail_mode_twice by (auto simp: EffectiveHookFailModeFor_def EffectiveHookFailMode_def Let_def split: option.splits)
  show ?thesis
    using m words nonempty fold_fail_mode_twice
    by (cases ?x; cases ?y)
      (auto simp: EffectiveHookFailModeForConnector_def effectiveManagedEnterpriseHookFailMode_def hook_overrides_def map_filter_simps
        EffectiveHookFailModeFor_def EffectiveHookFailMode_def fold_fail_mode_def [of uni "pcg_HookFailMode _"] Let_def)
qed

definition sample_config :: BaseConfig where
  "sample_config = \<lparr>cfg_Guardrail = sample_guardrail, cfg_ApplicationProtection =
     \<lparr>ap_Enabled = False, ap_MinConfidence = 0, ap_GoneAfterMin = 0, ap_IncludeConnectors = [], ap_ExcludeConnectors = [],
      ap_Guardrail = sample_override [], ap_AssetPolicyMode = [], ap_Connectors = []\<rparr>,
     cfg_ClawMode = [], cfg_DeploymentMode = ''Managed_Enterprise''\<rparr>"

end
