(* ===== verification/Go_Path.thy ===== *)
theory Go_Path
  imports Go_Prelude
begin

text \<open>
  The functions of package \<open>path/filepath\<close> that the sources use, on Unix: paths are byte strings with the separator \<open>/\<close>.  A
  cleaned absolute path is \<open>abs_path\<close> of its elements; the lemmas translate each function to the list of elements.
\<close>

text \<open>\<open>filepath.Clean\<close> and \<open>filepath.Abs\<close>: empty and \<open>.\<close> elements vanish, \<open>..\<close> removes the element before it.\<close>

fun clean_parts :: "bool \<Rightarrow> string list \<Rightarrow> string list \<Rightarrow> string list" where
  "clean_parts rooted st [] = rev st"
| "clean_parts rooted st (p # ps) =
     (if p = [] \<or> p = ''.'' then clean_parts rooted st ps
      else if p = ''..'' then
        (case st of
           [] \<Rightarrow> clean_parts rooted (if rooted then [] else [p]) ps
         | q # st' \<Rightarrow> if q = ''..'' then clean_parts rooted (p # st) ps else clean_parts rooted st' ps)
      else clean_parts rooted (p # st) ps)"

definition path_Clean :: "string \<Rightarrow> string" where
  "path_Clean path =
     (let rooted = HasPrefix path ''/''; out = join ''/'' (clean_parts rooted [] (split_on (CHR ''/'') path))
      in if rooted then CHR ''/'' # out else if out = [] then ''.'' else out)"

definition path_Abs :: "string option \<Rightarrow> string \<Rightarrow> string option" where
  "path_Abs Getwd path =
     (if HasPrefix path ''/'' then Some (path_Clean path)
      else case Getwd of None \<Rightarrow> None | Some wd \<Rightarrow> Some (path_Clean (wd @ (if path = [] then [] else CHR ''/'' # path))))"

definition IsAbs :: "string \<Rightarrow> bool" where
  "IsAbs path = HasPrefix path ''/''"

text \<open>\<open>filepath.Base\<close>: the last element after removing trailing slashes; \<open>.\<close> for an empty path, \<open>/\<close> for slashes only.\<close>

definition path_base :: "string \<Rightarrow> string" where
  "path_base path =
     (if path = [] then ''.''
      else let trimmed = rev (dropWhile (\<lambda>c. c = CHR ''/'') (rev path)); base = rev (takeWhile (\<lambda>c. c \<noteq> CHR ''/'') (rev trimmed))
           in if base = [] then ''/'' else base)"

text \<open>\<open>filepath.Dir\<close>: everything up to the last slash, cleaned.  \<open>filepath.Join\<close>: the non-empty elements, joined and cleaned.\<close>

definition path_Dir :: "string \<Rightarrow> string" where
  "path_Dir path = path_Clean (rev (dropWhile (\<lambda>c. c \<noteq> CHR ''/'') (rev path)))"

definition path_Join :: "string list \<Rightarrow> string" where
  "path_Join elems =
     (case filter (\<lambda>e. e \<noteq> []) elems of [] \<Rightarrow> [] | es \<Rightarrow> path_Clean (join ''/'' es))"

text \<open>
  \<open>filepath.Rel\<close>: the common elements are dropped, one \<open>..\<close> climbs from each remaining element of the base.  \<open>None\<close> if one path is absolute
  and the other is not, or if the base has to be left through a \<open>..\<close>.
\<close>

fun drop_common :: "string list \<Rightarrow> string list \<Rightarrow> string list \<times> string list" where
  "drop_common (b # bs) (t # ts) = (if b = t then drop_common bs ts else (b # bs, t # ts))"
| "drop_common bs ts = (bs, ts)"

definition path_elements :: "string \<Rightarrow> string list" where
  "path_elements path = filter (\<lambda>e. e \<noteq> []) (split_on (CHR ''/'') path)"

definition path_Rel :: "string \<Rightarrow> string \<Rightarrow> string option" where
  "path_Rel basepath targpath =
     (let base = path_Clean basepath; targ = path_Clean targpath in
      if targ = base then Some ''.''
      else let base' = (if base = ''.'' then [] else base) in
        if IsAbs base' \<noteq> IsAbs targ then None
        else case drop_common (path_elements base') (path_elements targ) of
          (bs, ts) \<Rightarrow> if bs \<noteq> [] \<and> hd bs = ''..'' then None else Some (join ''/'' (replicate (length bs) ''..'' @ ts)))"

subsection \<open>Cleaned absolute paths\<close>

definition path_name :: "string \<Rightarrow> bool" where
  "path_name e \<longleftrightarrow> e \<noteq> [] \<and> e \<noteq> ''.'' \<and> e \<noteq> ''..'' \<and> CHR ''/'' \<notin> set e"

definition abs_path :: "string list \<Rightarrow> string" where
  "abs_path es = CHR ''/'' # join ''/'' es"

lemma split_on_ne [simp]: "split_on sep s \<noteq> []"
  by (cases s) (auto split: list.splits)

lemma split_on_elem: "e \<in> set (split_on sep s) \<Longrightarrow> sep \<notin> set e"
proof (induction sep s arbitrary: e rule: split_on.induct)
  case (2 sep c s)
  obtain x xs where x: "split_on sep s = x # xs" by (cases "split_on sep s") auto
  show ?case using 2 x by (auto split: if_splits)
qed simp

lemma split_on_single: "sep \<notin> set s \<Longrightarrow> split_on sep s = [s]"
  by (induction s) auto

lemma split_on_append: "sep \<notin> set s \<Longrightarrow> split_on sep (s @ sep # t) = s # split_on sep t"
  by (induction s) auto

lemma split_on_join: "ss \<noteq> [] \<Longrightarrow> \<forall>s \<in> set ss. sep \<notin> set s \<Longrightarrow> split_on sep (join [sep] ss) = ss"
proof (induction "[sep]" ss rule: join.induct)
  case (3 s t ss)
  then show ?case using split_on_append [of sep s] by simp
qed (simp_all add: split_on_single)

lemma path_elements_abs [simp]:
  assumes "\<forall>e \<in> set es. path_name e"
  shows "path_elements (abs_path es) = es"
proof (cases "es = []")
  case False
  have "\<forall>e \<in> set es. CHR ''/'' \<notin> set e" using assms by (simp add: path_name_def)
  then have "split_on (CHR ''/'') (join ''/'' es) = es" using split_on_join False by blast
  moreover have "filter (\<lambda>e. e \<noteq> []) es = es" using assms by (simp add: path_name_def)
  ultimately show ?thesis by (simp add: path_elements_def abs_path_def)
qed (simp add: path_elements_def abs_path_def)

lemma clean_parts_names: "\<forall>e \<in> set ps. path_name e \<Longrightarrow> clean_parts rooted st ps = rev st @ ps"
  by (induction ps arbitrary: st) (auto simp: path_name_def)

lemma IsAbs_abs [simp]: "IsAbs (abs_path es)"
  by (simp add: IsAbs_def HasPrefix_def abs_path_def)

lemma path_Clean_abs [simp]:
  assumes "\<forall>e \<in> set es. path_name e"
  shows "path_Clean (abs_path es) = abs_path es"
proof (cases "es = []")
  case True
  then show ?thesis by (simp add: path_Clean_def abs_path_def HasPrefix_def)
next
  case False
  have "\<forall>e \<in> set es. CHR ''/'' \<notin> set e" using assms by (simp add: path_name_def)
  then have "split_on (CHR ''/'') (join ''/'' es) = es" using split_on_join False by blast
  then have "clean_parts True [] (split_on (CHR ''/'') (abs_path es)) = es"
    using clean_parts_names [OF assms, of True "[]"] by (simp add: abs_path_def)
  then show ?thesis using IsAbs_abs [of es] by (simp add: path_Clean_def Let_def IsAbs_def) (simp add: abs_path_def)
qed

text \<open>Every cleaned absolute path has this form.\<close>

lemma clean_parts_clean:
  assumes "\<forall>p \<in> set ps. CHR ''/'' \<notin> set p" "\<forall>e \<in> set st. path_name e"
  shows "\<forall>e \<in> set (clean_parts True st ps). path_name e"
  using assms
proof (induction ps arbitrary: st)
  case (Cons p ps)
  note IH = Cons.IH and prems = Cons.prems
  show ?case
  proof (cases "p = ''..''")
    case True
    show ?thesis
    proof (cases st)
      case Nil
      then show ?thesis using True IH [of "[]"] prems by simp
    next
      case (Cons q st')
      then have "q \<noteq> ''..''" using prems(2) by (simp add: path_name_def)
      then show ?thesis using True Cons IH [of st'] prems by simp
    qed
  next
    case False
    then have "p = [] \<or> p = ''.'' \<or> path_name p" using prems(1) by (simp add: path_name_def) argo
    then consider "p = [] \<or> p = ''.''" | "path_name p" by blast
    then show ?thesis
    proof cases
      case 1
      then show ?thesis using IH [of st] prems by simp
    next
      case 2
      then have eq: "clean_parts True st (p # ps) = clean_parts True (p # st) ps" by (simp add: path_name_def)
      have "\<forall>e \<in> set (p # st). path_name e" "\<forall>q \<in> set ps. CHR ''/'' \<notin> set q" using 2 prems by simp_all
      then show ?thesis unfolding eq by (rule IH [rotated])
    qed
  qed
qed simp

lemma path_Clean_rooted:
  assumes "IsAbs p"
  obtains es where "path_Clean p = abs_path es" "\<forall>e \<in> set es. path_name e"
proof
  let ?es = "clean_parts True [] (split_on (CHR ''/'') p)"
  show "path_Clean p = abs_path ?es" using assms by (simp add: path_Clean_def IsAbs_def abs_path_def)
  show "\<forall>e \<in> set ?es. path_name e"
  proof (rule clean_parts_clean)
    show "\<forall>e \<in> set (split_on (CHR ''/'') p). CHR ''/'' \<notin> set e" by (intro ballI) (rule split_on_elem)
  qed simp
qed

lemma path_Clean_idem [simp]: "IsAbs p \<Longrightarrow> path_Clean (path_Clean p) = path_Clean p"
  by (erule path_Clean_rooted) simp

lemma join_snoc: "es \<noteq> [] \<Longrightarrow> join sep (es @ [n]) = join sep es @ sep @ n"
  by (induction sep es rule: join.induct) auto

lemma abs_path_snoc: "abs_path (es @ [n]) = (if es = [] then ''/'' else abs_path es @ ''/'') @ n"
  by (simp add: abs_path_def join_snoc)

lemma rev_takeWhile: "CHR ''/'' \<notin> set n \<Longrightarrow> takeWhile (\<lambda>c. c \<noteq> CHR ''/'') (rev n @ CHR ''/'' # s) = rev n"
  by (induction n rule: rev_induct) auto

lemma path_base_abs [simp]:
  assumes "path_name n"
  shows "path_base (abs_path (es @ [n])) = n"
proof -
  have n: "n \<noteq> []" "CHR ''/'' \<notin> set n" using assms by (simp_all add: path_name_def)
  obtain s where s: "abs_path (es @ [n]) = s @ CHR ''/'' # n"
    using abs_path_snoc [of es n] by (cases "es = []") auto
  have "dropWhile (\<lambda>c. c = CHR ''/'') (rev n @ CHR ''/'' # rev s) = rev n @ CHR ''/'' # rev s"
    using n by (cases "rev n") auto
  then show ?thesis using n rev_takeWhile [OF n(2), of "rev s"] by (simp add: path_base_def s)
qed

lemma path_Clean_trailing:
  assumes "\<forall>e \<in> set es. path_name e" "es \<noteq> []"
  shows "path_Clean (abs_path es @ ''/'') = abs_path es"
proof -
  have "\<forall>e \<in> set (es @ [[]]). CHR ''/'' \<notin> set e" using assms by (simp add: path_name_def)
  then have "split_on (CHR ''/'') (join ''/'' (es @ [[]])) = es @ [[]]" using split_on_join by blast
  then have "split_on (CHR ''/'') (abs_path es @ ''/'') = [] # es @ [[]]"
    using assms(2) by (simp add: abs_path_def join_snoc)
  moreover have "clean_parts True st (es @ [[]]) = rev st @ es" for st
    using assms(1) by (induction es arbitrary: st) (auto simp: path_name_def)
  moreover have "HasPrefix (abs_path es @ ''/'') ''/''" by (simp add: HasPrefix_def abs_path_def)
  ultimately show ?thesis by (simp add: path_Clean_def Let_def) (simp add: abs_path_def)
qed

lemma dropWhile_not_slash: "CHR ''/'' \<notin> set n \<Longrightarrow> dropWhile (\<lambda>c. c \<noteq> CHR ''/'') (rev n @ CHR ''/'' # s) = CHR ''/'' # s"
  by (induction n rule: rev_induct) auto

lemma path_Dir_abs [simp]:
  assumes "\<forall>e \<in> set es. path_name e" "path_name n"
  shows "path_Dir (abs_path (es @ [n])) = abs_path es"
proof (cases "es = []")
  case True
  have "CHR ''/'' \<notin> set n" using assms by (simp add: path_name_def)
  then have "path_Dir (abs_path (es @ [n])) = path_Clean ''/''"
    using True dropWhile_not_slash [of n "[]"] by (simp add: path_Dir_def abs_path_def)
  then show ?thesis using path_Clean_abs [of "[]"] True by (simp add: abs_path_def)
next
  case False
  have "CHR ''/'' \<notin> set n" using assms by (simp add: path_name_def)
  then have "path_Dir (abs_path (es @ [n])) = path_Clean (abs_path es @ ''/'')"
    using False dropWhile_not_slash [of n "rev (abs_path es)"] by (simp add: path_Dir_def abs_path_snoc)
  then show ?thesis using path_Clean_trailing [OF assms(1) False] by simp
qed

lemma path_Join_abs [simp]:
  assumes "\<forall>e \<in> set es. path_name e" "path_name n"
  shows "path_Join [abs_path es, n] = abs_path (es @ [n])"
proof -
  have names: "\<forall>e \<in> set (es @ [n]). path_name e" using assms by simp
  have ne: "n \<noteq> []" using assms by (simp add: path_name_def)
  have join: "path_Join [abs_path es, n] = path_Clean (abs_path es @ CHR ''/'' # n)"
    using ne by (simp add: path_Join_def abs_path_def)
  show ?thesis
  proof (cases "es = []")
    case True
    have "CHR ''/'' \<notin> set n" "n \<noteq> ''.''" "n \<noteq> ''..''" using assms by (simp_all add: path_name_def)
    then have "path_Clean (abs_path [] @ CHR ''/'' # n) = abs_path [n]"
      using ne by (simp add: path_Clean_def abs_path_def HasPrefix_def split_on_single)
    then show ?thesis using True join by simp
  next
    case False
    then show ?thesis using path_Clean_abs [OF names] by (simp add: join abs_path_snoc)
  qed
qed

text \<open>Relative paths between cleaned absolute ones.\<close>

lemma drop_common_append: "drop_common bs (bs @ ts) = ([], ts)"
  by (induction bs) (cases ts, auto)

lemma drop_common_left: "fst (drop_common bs ts) = [] \<longleftrightarrow> prefix bs ts"
  by (induction bs ts rule: drop_common.induct) auto

lemma drop_common_sub: "set (fst (drop_common bs ts)) \<subseteq> set bs"
  by (induction bs ts rule: drop_common.induct) auto

lemma abs_path_inj:
  "\<forall>e \<in> set es. path_name e \<Longrightarrow> \<forall>e \<in> set fs. path_name e \<Longrightarrow> abs_path es = abs_path fs \<longleftrightarrow> es = fs"
proof (rule iffI)
  assume names: "\<forall>e \<in> set es. path_name e" "\<forall>e \<in> set fs. path_name e" and eq: "abs_path es = abs_path fs"
  have "path_elements (abs_path es) = path_elements (abs_path fs)" using eq by (rule arg_cong)
  then show "es = fs" unfolding path_elements_abs [OF names(1)] path_elements_abs [OF names(2)] .
qed simp

lemma path_Rel_abs:
  assumes "\<forall>e \<in> set bs. path_name e" "\<forall>e \<in> set ts. path_name e"
  shows "path_Rel (abs_path bs) (abs_path ts) =
    (if ts = bs then Some ''.''
     else case drop_common bs ts of (bs', ts') \<Rightarrow> Some (join ''/'' (replicate (length bs') ''..'' @ ts')))"
proof -
  obtain bs' ts' where d: "drop_common bs ts = (bs', ts')" by fastforce
  then have "\<forall>e \<in> set bs'. path_name e" using drop_common_sub [of bs ts] assms(1) by auto
  then have "bs' \<noteq> [] \<Longrightarrow> path_name (hd bs')" using hd_in_set by blast
  then have up: "(bs' \<noteq> [] \<and> hd bs' = ''..'') = False" using path_name_def by blast
  have dot: "(abs_path bs = ''.'') = False" by (simp add: abs_path_def)
  show ?thesis
    unfolding path_Rel_def Let_def path_Clean_abs [OF assms(1)] path_Clean_abs [OF assms(2)] dot if_False IsAbs_abs
      path_elements_abs [OF assms(1)] path_elements_abs [OF assms(2)] d prod.case up abs_path_inj [OF assms(2,1)] by simp
qed

end
