(* ===== verification/Config_AssetPolicy.thy ===== *)
theory Config_AssetPolicy
  imports Config_Connectors Go_Path
begin

text \<open>
  The asset policy of \<^verbatim>\<open>internal/config/asset_policy.go\<close>: the allow, deny and registry gate for MCP servers,
  skills and plugins, with the per-connector overlays and the mode resolution of
  \<^verbatim>\<open>application_protection.go\<close>.  \<open>Config\<close> extends the configuration of \<open>Config_Connectors\<close> by this block.
  \<open>filepath.Base\<close> is modelled for slash-separated paths.
\<close>

record PerConnectorAssetTypePolicy =
  pct_Default :: string
  pct_RegistryRequired :: "bool option"
  pct_RegistryEmptyAction :: string

record PerConnectorAssetPolicy =
  pca_Mode :: string
  pca_MCP :: "PerConnectorAssetTypePolicy option"
  pca_Skill :: "PerConnectorAssetTypePolicy option"
  pca_Plugin :: "PerConnectorAssetTypePolicy option"

record AssetRuntimeDetection =
  rd_Enabled :: bool
  rd_TerminalCommands :: bool
  rd_UnknownTerminalMCP :: string

record AssetPolicyRule =
  ru_Name :: string
  ru_Connector :: string
  ru_Reason :: string
  ru_URL :: string
  ru_Command :: string
  ru_ArgsPrefix :: "string list"
  ru_Transport :: string
  ru_SourcePathContains :: "string list"

record AssetTypePolicy =
  tp_Default :: string
  tp_RegistryRequired :: bool
  tp_RegistryEmptyAction :: string
  tp_Registry :: "AssetPolicyRule list"
  tp_Allowed :: "AssetPolicyRule list"
  tp_Denied :: "AssetPolicyRule list"
  tp_RuntimeDetection :: AssetRuntimeDetection

record AssetPolicyConfig =
  as_Enabled :: bool
  as_Mode :: string
  as_MCP :: AssetTypePolicy
  as_Skill :: AssetTypePolicy
  as_Plugin :: AssetTypePolicy
  as_Connectors :: "(string \<times> PerConnectorAssetPolicy) list"

record Config = BaseConfig +
  cfg_AssetPolicy :: AssetPolicyConfig

record AssetPolicyInput =
  in_TargetType :: string
  in_Name :: string
  in_Connector :: string
  in_SourcePath :: string
  in_URL :: string
  in_Command :: string
  in_Args :: "string list"
  in_Transport :: string
  in_RuntimeSurface :: string

record AssetPolicyDecision =
  ad_Enabled :: bool
  ad_Mode :: string
  ad_Action :: string
  ad_RawAction :: string
  ad_WouldBlock :: bool
  ad_Reason :: string
  ad_Source :: string
  ad_RegistryStatus :: string
  ad_RegistryConfigured :: bool
  ad_RegistrySource :: string
  ad_TargetType :: string
  ad_TargetName :: string
  ad_Connector :: string
  ad_RuntimeSurface :: string

definition defaultAssetTypePolicy :: "bool \<Rightarrow> AssetTypePolicy" where
  "defaultAssetTypePolicy runtime =
     \<lparr>tp_Default = ''allow'', tp_RegistryRequired = False, tp_RegistryEmptyAction = [], tp_Registry = [], tp_Allowed = [],
      tp_Denied = [], tp_RuntimeDetection =
        (if runtime then \<lparr>rd_Enabled = True, rd_TerminalCommands = True, rd_UnknownTerminalMCP = ''observe''\<rparr>
         else \<lparr>rd_Enabled = False, rd_TerminalCommands = False, rd_UnknownTerminalMCP = []\<rparr>)\<rparr>"

definition DefaultAssetPolicy :: AssetPolicyConfig where
  "DefaultAssetPolicy = \<lparr>as_Enabled = False, as_Mode = ''observe'', as_MCP = defaultAssetTypePolicy True,
     as_Skill = defaultAssetTypePolicy False, as_Plugin = defaultAssetTypePolicy False, as_Connectors = []\<rparr>"

subsection \<open>Normal forms\<close>

definition normalizeAssetToken :: "unicode_map \<Rightarrow> string \<Rightarrow> string" where
  "normalizeAssetToken uni value = ToLower uni (TrimSpace value)"

definition normalizeAssetMode :: "unicode_map \<Rightarrow> string \<Rightarrow> string" where
  "normalizeAssetMode uni mode = (if EqualFold uni (TrimSpace mode) ''action'' then ''action'' else ''observe'')"

definition normalizeAssetDefault :: "unicode_map \<Rightarrow> string \<Rightarrow> string" where
  "normalizeAssetDefault uni value =
     (if List.member [''deny'', ''block''] (ToLower uni (TrimSpace value)) then ''deny'' else ''allow'')"

definition normalizeRegistryEmptyAction :: "unicode_map \<Rightarrow> string \<Rightarrow> string" where
  "normalizeRegistryEmptyAction uni value =
     (if List.member [''allow'', ''warn''] (ToLower uni (TrimSpace value)) then ''allow'' else ''deny'')"

definition coalesceString :: "string \<Rightarrow> string \<Rightarrow> string" where
  "coalesceString v fallback = (if v \<noteq> [] then v else fallback)"

definition ParseRegistrySourceID :: "string \<Rightarrow> string" where
  "ParseRegistrySourceID reason =
     (let r = TrimSpace reason
      in if \<not> HasPrefix r ''registry:'' then [] else TrimSpace (drop (length ''registry:'') r))"

definition ruleReason :: "AssetPolicyRule \<Rightarrow> string \<Rightarrow> string" where
  "ruleReason rule fallback = (if TrimSpace (ru_Reason rule) \<noteq> [] then TrimSpace (ru_Reason rule) else fallback)"

subsection \<open>Rules\<close>

definition sourcePathMatches :: "unicode_map \<Rightarrow> string list \<Rightarrow> string \<Rightarrow> bool" where
  "sourcePathMatches uni needles sourcePath =
     (if sourcePath = [] then False
      else let normal = ToLower uni (replace_byte (CHR 0x5C) (CHR ''/'') sourcePath)
           in list_ex (\<lambda>n. Contains normal (ToLower uni (replace_byte (CHR 0x5C) (CHR ''/'') n))) needles)"

definition args_prefix_matches :: "string list \<Rightarrow> string list \<Rightarrow> bool" where
  "args_prefix_matches wants args \<longleftrightarrow>
     length wants \<le> length args \<and> list_all (\<lambda>(want, arg). TrimSpace want = TrimSpace arg) (zip wants args)"

text \<open>Every non-empty field of the rule is one constraint; a rule with none matches nothing.\<close>

definition assetRuleMatches :: "unicode_map \<Rightarrow> AssetPolicyRule \<Rightarrow> AssetPolicyInput \<Rightarrow> bool" where
  "assetRuleMatches uni rule i =
     (if ru_Name rule \<noteq> [] \<and> \<not> EqualFold uni (TrimSpace (ru_Name rule)) (TrimSpace (in_Name i)) then False
      else if ru_Connector rule \<noteq> [] \<and> \<not> EqualFold uni (TrimSpace (ru_Connector rule)) (TrimSpace (in_Connector i)) then False
      else if ru_URL rule \<noteq> [] \<and> TrimSpace (ru_URL rule) \<noteq> TrimSpace (in_URL i) then False
      else if ru_Command rule \<noteq> [] \<and> path_base (TrimSpace (ru_Command rule)) \<noteq> path_base (TrimSpace (in_Command i)) then False
      else if ru_ArgsPrefix rule \<noteq> [] \<and> \<not> args_prefix_matches (ru_ArgsPrefix rule) (in_Args i) then False
      else if ru_Transport rule \<noteq> [] \<and> \<not> EqualFold uni (TrimSpace (ru_Transport rule)) (TrimSpace (in_Transport i)) then False
      else if ru_SourcePathContains rule \<noteq> [] \<and> \<not> sourcePathMatches uni (ru_SourcePathContains rule) (in_SourcePath i) then False
      else ru_Name rule \<noteq> [] \<or> ru_Connector rule \<noteq> [] \<or> ru_URL rule \<noteq> [] \<or> ru_Command rule \<noteq> [] \<or>
        ru_ArgsPrefix rule \<noteq> [] \<or> ru_Transport rule \<noteq> [] \<or> ru_SourcePathContains rule \<noteq> [])"

definition findAssetRule :: "unicode_map \<Rightarrow> AssetPolicyRule list \<Rightarrow> AssetPolicyInput \<Rightarrow> AssetPolicyRule option" where
  "findAssetRule uni rules i = find (\<lambda>rule. assetRuleMatches uni rule i) rules"

definition registryStatus :: "unicode_map \<Rightarrow> AssetPolicyRule list \<Rightarrow> AssetPolicyInput \<Rightarrow> string" where
  "registryStatus uni rules i =
     (if rules = [] then ''unknown'' else if findAssetRule uni rules i \<noteq> None then ''registered'' else ''unregistered'')"

subsection \<open>The effective policy of a connector\<close>

definition assets_connectorOverride :: "unicode_map \<Rightarrow> AssetPolicyConfig \<Rightarrow> string \<Rightarrow> PerConnectorAssetPolicy option" where
  "assets_connectorOverride uni a connector = connector_override uni (as_Connectors a) connector"

definition connectorTypeOverride ::
  "unicode_map \<Rightarrow> AssetPolicyConfig \<Rightarrow> string \<Rightarrow> string \<Rightarrow> PerConnectorAssetTypePolicy option" where
  "connectorTypeOverride uni a connector targetType =
     (case assets_connectorOverride uni a connector of
        None \<Rightarrow> None
      | Some pc \<Rightarrow> if targetType = ''mcp'' then pca_MCP pc else if targetType = ''skill'' then pca_Skill pc
          else if targetType = ''plugin'' then pca_Plugin pc else None)"

definition assets_EffectiveMode :: "unicode_map \<Rightarrow> AssetPolicyConfig \<Rightarrow> string \<Rightarrow> string" where
  "assets_EffectiveMode uni a connector =
     (case assets_connectorOverride uni a connector of
        Some pc \<Rightarrow> first_text [pca_Mode pc, as_Mode a] ''observe''
      | None \<Rightarrow> first_text [as_Mode a] ''observe'')"

definition applyAssetTypeOverride :: "AssetTypePolicy \<Rightarrow> PerConnectorAssetTypePolicy option \<Rightarrow> AssetTypePolicy" where
  "applyAssetTypeOverride base override =
     (case override of
        None \<Rightarrow> base
      | Some o' \<Rightarrow>
          let base1 = (if TrimSpace (pct_Default o') \<noteq> [] then base\<lparr>tp_Default := TrimSpace (pct_Default o')\<rparr> else base);
              base2 = (case pct_RegistryRequired o' of Some b \<Rightarrow> base1\<lparr>tp_RegistryRequired := b\<rparr> | None \<Rightarrow> base1)
          in if TrimSpace (pct_RegistryEmptyAction o') \<noteq> []
             then base2\<lparr>tp_RegistryEmptyAction := TrimSpace (pct_RegistryEmptyAction o')\<rparr> else base2)"

definition withDefaults :: "AssetTypePolicy \<Rightarrow> bool \<Rightarrow> AssetTypePolicy" where
  "withDefaults p runtime =
     (let p1 = (if TrimSpace (tp_Default p) = [] then p\<lparr>tp_Default := ''allow''\<rparr> else p);
          rd = tp_RuntimeDetection p1;
          rd1 = (if rd_UnknownTerminalMCP rd = [] then rd\<lparr>rd_UnknownTerminalMCP := ''observe''\<rparr> else rd);
          rd2 = (if \<not> rd_Enabled rd1 \<and> \<not> rd_TerminalCommands rd1 \<and> rd_UnknownTerminalMCP rd1 = ''observe''
            then rd1\<lparr>rd_Enabled := True, rd_TerminalCommands := True\<rparr> else rd1)
      in if runtime then p1\<lparr>tp_RuntimeDetection := rd2\<rparr> else p1)"

definition assetPolicyFor :: "unicode_map \<Rightarrow> 'c Config_scheme \<Rightarrow> string \<Rightarrow> string \<Rightarrow> AssetTypePolicy option" where
  "assetPolicyFor uni c connector targetType =
     (let token = normalizeAssetToken uni targetType;
          p = (if token = ''mcp'' then Some (withDefaults (as_MCP (cfg_AssetPolicy c)) True)
               else if token = ''skill'' then Some (withDefaults (as_Skill (cfg_AssetPolicy c)) False)
               else if token = ''plugin'' then Some (withDefaults (as_Plugin (cfg_AssetPolicy c)) False)
               else None)
      in map_option (\<lambda>p. applyAssetTypeOverride p (connectorTypeOverride uni (cfg_AssetPolicy c) connector token)) p)"

definition EffectiveAssetTypePolicy :: "unicode_map \<Rightarrow> 'c Config_scheme \<Rightarrow> string \<Rightarrow> string \<Rightarrow> AssetTypePolicy option" where
  "EffectiveAssetTypePolicy uni c connector targetType = assetPolicyFor uni c connector targetType"

definition AssetRuntimeDetectionFor :: "unicode_map \<Rightarrow> 'c Config_scheme \<Rightarrow> string \<Rightarrow> AssetRuntimeDetection option" where
  "AssetRuntimeDetectionFor uni c targetType = map_option tp_RuntimeDetection (assetPolicyFor uni c [] targetType)"

definition EffectiveAssetPolicyModeForConnector :: "unicode_map \<Rightarrow> 'c Config_scheme \<Rightarrow> string \<Rightarrow> string" where
  "EffectiveAssetPolicyModeForConnector uni c connector =
     (let a = cfg_AssetPolicy c; p = cfg_ApplicationProtection c;
          static = (case assets_connectorOverride uni a connector of Some pc \<Rightarrow> TrimSpace (pca_Mode pc) | None \<Rightarrow> []);
          overlay = (case protection_connectorOverride uni p connector of Some pc \<Rightarrow> TrimSpace (apc_AssetPolicyMode pc) | None \<Rightarrow> [])
      in if static \<noteq> [] then static
         else if \<not> ap_Enabled p \<or> manualConnectorConfigured uni c connector then first_text [as_Mode a] ''observe''
         else if overlay \<noteq> [] then overlay
         else first_text [ap_AssetPolicyMode p] ''observe'')"

subsection \<open>The decision\<close>

definition assetPolicyViolation :: "AssetPolicyDecision \<Rightarrow> string \<Rightarrow> string \<Rightarrow> string \<Rightarrow> AssetPolicyDecision" where
  "assetPolicyViolation base mode reason source =
     (let base = base\<lparr>ad_RawAction := ''block'', ad_Reason := reason, ad_Source := source,
            ad_RegistryStatus := coalesceString (ad_RegistryStatus base) ''unregistered''\<rparr>
      in if mode = ''action'' then base\<lparr>ad_Action := ''block''\<rparr> else base\<lparr>ad_Action := ''allow'', ad_WouldBlock := True\<rparr>)"

definition asset_label :: "unicode_map \<Rightarrow> string \<Rightarrow> string \<Rightarrow> string" where
  "asset_label uni targetType name = targetType @ '' '' @ Quote uni name"

definition decide_asset ::
  "unicode_map \<Rightarrow> AssetTypePolicy \<Rightarrow> string \<Rightarrow> string \<Rightarrow> string \<Rightarrow> AssetPolicyInput \<Rightarrow> AssetPolicyDecision \<Rightarrow> AssetPolicyDecision" where
  "decide_asset uni p mode targetType name i out0 =
     (let out = out0\<lparr>ad_Enabled := True, ad_Mode := mode, ad_Source := ''asset-policy'',
            ad_RegistryConfigured := (tp_Registry p \<noteq> [])\<rparr>;
          label = asset_label uni targetType name;
          status = registryStatus uni (tp_Registry p) i
      in case findAssetRule uni (tp_Denied p) i of
           Some rule \<Rightarrow> assetPolicyViolation out mode (ruleReason rule (label @ '' is denied by asset policy'')) ''admin-deny''
         | None \<Rightarrow>
             (case findAssetRule uni (tp_Allowed p) i of
                Some rule \<Rightarrow> out\<lparr>ad_Source := ''admin-allow'', ad_RegistryStatus := status,
                  ad_Reason := ruleReason rule (label @ '' is explicitly allowed'')\<rparr>
              | None \<Rightarrow>
                  let out = out\<lparr>ad_RegistryStatus := status\<rparr>
                  in if status = ''registered''
                     then out\<lparr>ad_Source := ''registry'', ad_Reason := label @ '' is registered'',
                       ad_RegistrySource := (case findAssetRule uni (tp_Registry p) i of
                         Some rule \<Rightarrow> ParseRegistrySourceID (ru_Reason rule) | None \<Rightarrow> ad_RegistrySource out)\<rparr>
                     else if tp_RegistryRequired p \<and> tp_Registry p \<noteq> []
                     then assetPolicyViolation out mode (label @ '' is not in the approved registry'') ''registry-required''
                     else if tp_RegistryRequired p \<and> normalizeRegistryEmptyAction uni (tp_RegistryEmptyAction p) = ''deny''
                     then assetPolicyViolation out mode
                       (label @ '' is blocked because asset policy requires a registry but none is configured'')
                       ''registry-required-empty''
                     else if normalizeAssetDefault uni (tp_Default p) = ''deny''
                     then assetPolicyViolation out mode (label @ '' is denied by default asset policy'') ''default-deny''
                     else out\<lparr>ad_Source := ''default-allow'', ad_Reason := label @ '' allowed by default asset policy''\<rparr>))"

definition EvaluateAssetPolicy :: "unicode_map \<Rightarrow> 'c Config_scheme \<Rightarrow> AssetPolicyInput \<Rightarrow> AssetPolicyDecision" where
  "EvaluateAssetPolicy uni c i =
     (let targetType = normalizeAssetToken uni (in_TargetType i);
          name = (if TrimSpace (in_Name i) = [] then ''unknown'' else TrimSpace (in_Name i));
          out = \<lparr>ad_Enabled = False, ad_Mode = ''observe'', ad_Action = ''allow'', ad_RawAction = ''allow'', ad_WouldBlock = False,
            ad_Reason = [], ad_Source = ''asset-policy-disabled'', ad_RegistryStatus = ''unknown'',
            ad_RegistryConfigured = False, ad_RegistrySource = [], ad_TargetType = targetType, ad_TargetName = name,
            ad_Connector = TrimSpace (in_Connector i), ad_RuntimeSurface = TrimSpace (in_RuntimeSurface i)\<rparr>
      in if \<not> as_Enabled (cfg_AssetPolicy c) then out
         else case assetPolicyFor uni c (in_Connector i) targetType of
           None \<Rightarrow> out\<lparr>ad_Enabled := True, ad_Source := ''asset-policy-unsupported''\<rparr>
         | Some p \<Rightarrow>
             decide_asset uni p (normalizeAssetMode uni (EffectiveAssetPolicyModeForConnector uni c (in_Connector i)))
               targetType name i out)"

subsection \<open>Properties\<close>

text \<open>The three ways in which a list of rules speaks about an asset, and the verdict they amount to.\<close>

definition listed :: "unicode_map \<Rightarrow> AssetPolicyRule list \<Rightarrow> AssetPolicyInput \<Rightarrow> bool" where
  "listed uni rules i \<longleftrightarrow> list_ex (\<lambda>rule. assetRuleMatches uni rule i) rules"

definition asset_violation :: "unicode_map \<Rightarrow> AssetTypePolicy \<Rightarrow> AssetPolicyInput \<Rightarrow> bool" where
  "asset_violation uni p i \<longleftrightarrow>
     listed uni (tp_Denied p) i \<or>
     (\<not> listed uni (tp_Allowed p) i \<and> \<not> listed uni (tp_Registry p) i \<and>
      (tp_RegistryRequired p \<and> (tp_Registry p \<noteq> [] \<or> normalizeRegistryEmptyAction uni (tp_RegistryEmptyAction p) = ''deny'') \<or>
       normalizeAssetDefault uni (tp_Default p) = ''deny''))"

lemma findAssetRule_listed: "(findAssetRule uni rules i \<noteq> None) = listed uni rules i"
  by (auto simp: findAssetRule_def listed_def find_None_iff list_ex_iff)

lemma registered_listed: "(registryStatus uni rules i = ''registered'') = listed uni rules i"
  using findAssetRule_listed [of uni rules i] by (auto simp: registryStatus_def listed_def)

lemma violation_fields:
  "ad_RawAction (assetPolicyViolation base mode reason source) = ''block''"
  "ad_Action (assetPolicyViolation base mode reason source) = (if mode = ''action'' then ''block'' else ''allow'')"
  "ad_WouldBlock (assetPolicyViolation base mode reason source) = (mode \<noteq> ''action'' \<or> ad_WouldBlock base)"
  "ad_Mode (assetPolicyViolation base mode reason source) = ad_Mode base"
  by (simp_all add: assetPolicyViolation_def Let_def)

lemma decide_asset_fields:
  "ad_RawAction (decide_asset uni p mode t n i out) = (if asset_violation uni p i then ''block'' else ad_RawAction out)"
  "ad_Action (decide_asset uni p mode t n i out) =
     (if asset_violation uni p i then (if mode = ''action'' then ''block'' else ''allow'') else ad_Action out)"
  "ad_WouldBlock (decide_asset uni p mode t n i out) = (asset_violation uni p i \<and> mode \<noteq> ''action'' \<or> ad_WouldBlock out)"
  "ad_Mode (decide_asset uni p mode t n i out) = mode"
proof -
  have a: "asset_violation uni p i \<longleftrightarrow> findAssetRule uni (tp_Denied p) i \<noteq> None \<or>
     (findAssetRule uni (tp_Allowed p) i = None \<and> registryStatus uni (tp_Registry p) i \<noteq> ''registered'' \<and>
      (tp_RegistryRequired p \<and> (tp_Registry p \<noteq> [] \<or> normalizeRegistryEmptyAction uni (tp_RegistryEmptyAction p) = ''deny'') \<or>
       normalizeAssetDefault uni (tp_Default p) = ''deny''))"
    unfolding asset_violation_def registered_listed using findAssetRule_listed by metis
  show "ad_RawAction (decide_asset uni p mode t n i out) = (if asset_violation uni p i then ''block'' else ad_RawAction out)"
    unfolding a decide_asset_def Let_def by (auto simp: violation_fields split: option.split)
  show "ad_Action (decide_asset uni p mode t n i out) =
     (if asset_violation uni p i then (if mode = ''action'' then ''block'' else ''allow'') else ad_Action out)"
    unfolding a decide_asset_def Let_def by (auto simp: violation_fields split: option.split)
  show "ad_WouldBlock (decide_asset uni p mode t n i out) = (asset_violation uni p i \<and> mode \<noteq> ''action'' \<or> ad_WouldBlock out)"
    unfolding a decide_asset_def Let_def by (auto simp: violation_fields split: option.split)
  show "ad_Mode (decide_asset uni p mode t n i out) = mode"
    unfolding decide_asset_def Let_def by (simp add: violation_fields split: option.split)
qed

text \<open>
  C35.  The asset gate.  For a supported asset type with effective policy \<open>p\<close>, the decision is a violation exactly
  when a deny rule matches, or no allow rule and no registry entry matches and the registry is required (and
  configured, or empty with the fail-closed default) or the default is deny.  In action mode a violation
  blocks; in observe mode the same violation is reported as \<open>WouldBlock\<close> and allowed.
\<close>

theorem asset_policy_decision:
  assumes "as_Enabled (cfg_AssetPolicy c)"
    and "assetPolicyFor uni c (in_Connector i) (normalizeAssetToken uni (in_TargetType i)) = Some p"
    and "mode = normalizeAssetMode uni (EffectiveAssetPolicyModeForConnector uni c (in_Connector i))"
  shows "ad_RawAction (EvaluateAssetPolicy uni c i) = (if asset_violation uni p i then ''block'' else ''allow'') \<and>
    ad_Action (EvaluateAssetPolicy uni c i) = (if asset_violation uni p i \<and> mode = ''action'' then ''block'' else ''allow'') \<and>
    ad_WouldBlock (EvaluateAssetPolicy uni c i) = (asset_violation uni p i \<and> mode \<noteq> ''action'') \<and>
    ad_Mode (EvaluateAssetPolicy uni c i) = mode"
proof -
  obtain t n out where e: "EvaluateAssetPolicy uni c i = decide_asset uni p mode t n i out"
    and out: "ad_RawAction out = ''allow''" "ad_Action out = ''allow''" "\<not> ad_WouldBlock out"
    using assms by (simp add: EvaluateAssetPolicy_def Let_def)
  show ?thesis unfolding e decide_asset_fields using out by simp
qed

definition no_rule :: AssetPolicyRule where
  "no_rule = \<lparr>ru_Name = [], ru_Connector = [], ru_Reason = [], ru_URL = [], ru_Command = [], ru_ArgsPrefix = [], ru_Transport = [],
     ru_SourcePathContains = []\<rparr>"

definition sample_assets :: "(string \<times> PerConnectorAssetPolicy) list \<Rightarrow> Config" where
  "sample_assets conns = \<lparr>cfg_Guardrail = sample_guardrail, cfg_ApplicationProtection = cfg_ApplicationProtection sample_config,
     cfg_ClawMode = [], cfg_DeploymentMode = [],
     cfg_AssetPolicy = DefaultAssetPolicy\<lparr>as_Enabled := True, as_Skill := (defaultAssetTypePolicy False)
       \<lparr>tp_Denied := [no_rule\<lparr>ru_Name := ''Evil''\<rparr>]\<rparr>, as_Connectors := conns\<rparr>\<rparr>"

definition sample_asset :: "string \<Rightarrow> AssetPolicyInput" where
  "sample_asset connector = \<lparr>in_TargetType = ''Skill'', in_Name = ''evil'', in_Connector = connector, in_SourcePath = [], in_URL = [],
     in_Command = [], in_Args = [], in_Transport = [], in_RuntimeSurface = ''watcher''\<rparr>"

definition mode_only :: "string \<Rightarrow> PerConnectorAssetPolicy" where
  "mode_only mode = \<lparr>pca_Mode = mode, pca_MCP = None, pca_Skill = None, pca_Plugin = None\<rparr>"

theorem asset_policy_decision_witness:
  "ad_Action (EvaluateAssetPolicy plain_map (sample_assets [(''codex'', mode_only ''action'')]) (sample_asset ''codex'')) = ''block''"
proof -
  let ?c = "sample_assets [(''codex'', mode_only ''action'')]"
  have en: "as_Enabled (cfg_AssetPolicy ?c)" by code_simp
  have p: "assetPolicyFor plain_map ?c (in_Connector (sample_asset ''codex'')) (normalizeAssetToken plain_map (in_TargetType (sample_asset ''codex''))) =
    Some (as_Skill (cfg_AssetPolicy ?c))" by code_simp
  have v: "asset_violation plain_map (as_Skill (cfg_AssetPolicy ?c)) (sample_asset ''codex'')" by code_simp
  have m: "''action'' = normalizeAssetMode plain_map (EffectiveAssetPolicyModeForConnector plain_map ?c (in_Connector (sample_asset ''codex'')))"
    by code_simp
  from asset_policy_decision [OF en p m] show ?thesis using v by simp
qed

text \<open>
  An unchecked table.  Nothing validates \<open>asset_policy.connectors\<close>: with the two spellings
  \<open>open-hands\<close> and \<open>open_hands\<close> of one connector in the map, the same denied asset is blocked or allowed depending on the
  order in which Go happens to iterate over the map, the ambiguity that the guardrail block rejects.
\<close>

theorem asset_override_order_dependent:
  "let entries = [(''open-hands'', mode_only ''action''), (''open_hands'', mode_only ''observe'')];
       decide = (\<lambda>conns. ad_Action (EvaluateAssetPolicy plain_map (sample_assets conns) (sample_asset ''openhands'')))
   in mset (rev entries) = mset entries \<and> distinct (map fst entries) \<and> decide entries = ''block'' \<and> decide (rev entries) = ''allow''"
proof -
  have "distinct (map fst [(''open-hands'', mode_only ''action''), (''open_hands'', mode_only ''observe'')])"
    "ad_Action (EvaluateAssetPolicy plain_map (sample_assets [(''open-hands'', mode_only ''action''), (''open_hands'', mode_only ''observe'')])
       (sample_asset ''openhands'')) = ''block''"
    "ad_Action (EvaluateAssetPolicy plain_map (sample_assets (rev [(''open-hands'', mode_only ''action''), (''open_hands'', mode_only ''observe'')]))
       (sample_asset ''openhands'')) = ''allow''"
    by code_simp+
  then show ?thesis unfolding Let_def by (simp only: mset_rev simp_thms)
qed

end
