(* ===== verification/Audit_Actions.thy ===== *)
theory Audit_Actions
  imports Go_Prelude Audit_ScanPersist
begin

text \<open>
  The enforcement table of \<^verbatim>\<open>internal/audit/store.go\<close> (section Actions): one row per target type, target name and
  connector, with the three action dimensions in a JSON column.

  The JSON object of a row is a record with one \<open>option\<close> per key, \<open>None\<close> when the key is absent: the three keys
  are the only ones the statements write, and an absent key differs from one with an empty value.  The state
  carries, besides the rows, what the outside contributes to the coming statements: which of them fail
  (\<open>db_faults\<close>), the readings of the clock (\<open>db_times\<close>) and the generated identifiers (\<open>db_ids\<close>); each use takes the
  next element.
\<close>

record ActionState =
  st_File :: string
  st_Runtime :: string
  st_Install :: string

definition IsEmpty :: "ActionState \<Rightarrow> bool" where
  "IsEmpty a \<longleftrightarrow> st_File a = [] \<and> st_Runtime a = [] \<and> st_Install a = []"

definition Summary :: "ActionState \<Rightarrow> string" where
  "Summary a =
     (let parts = (if st_Install a = ''block'' then [''blocked''] else []) @ (if st_Install a = ''allow'' then [''allowed''] else []) @
          (if st_File a = ''quarantine'' then [''quarantined''] else []) @ (if st_Runtime a = ''disable'' then [''disabled''] else [])
      in if parts = [] then ''-'' else join '', '' parts)"

record ActionsJSON =
  aj_File :: "string option"
  aj_Runtime :: "string option"
  aj_Install :: "string option"

record ActionRow =
  ar_ID :: string
  ar_TargetType :: string
  ar_TargetName :: string
  ar_SourcePath :: "string option"
  ar_Actions :: ActionsJSON
  ar_Reason :: string
  ar_UpdatedAt :: gotime
  ar_Connector :: string

record ActionEntry =
  ae_ID :: string
  ae_TargetType :: string
  ae_TargetName :: string
  ae_SourcePath :: string
  ae_Actions :: ActionState
  ae_Reason :: string
  ae_UpdatedAt :: gotime
  ae_Connector :: string

record ActionDB =
  db_actions :: "ActionRow list"
  db_faults :: "bool list"
  db_times :: "gotime list"
  db_ids :: "string list"

datatype action_error =
    InvalidField string
  | InvalidValue string string
  | StoreFailed
  | PartialCleanup "action_error list"
  | UnknownField string

subsection \<open>Statements\<close>

definition take_next :: "'a \<Rightarrow> 'a list \<Rightarrow> 'a \<times> 'a list" where
  "take_next d xs = (case xs of [] \<Rightarrow> (d, []) | x # xs' \<Rightarrow> (x, xs'))"

text \<open>A statement that fails leaves the rows as they are.\<close>

definition exec :: "ActionDB \<Rightarrow> (ActionRow list \<Rightarrow> ActionRow list) \<Rightarrow> ActionDB \<times> action_error option" where
  "exec db f =
     (case take_next False (db_faults db) of (fault, faults) \<Rightarrow>
        let db = db\<lparr>db_faults := faults\<rparr>
        in if fault then (db, Some StoreFailed) else (db\<lparr>db_actions := f (db_actions db)\<rparr>, None))"

definition query :: "ActionDB \<Rightarrow> (ActionRow list \<Rightarrow> 'a) \<Rightarrow> ActionDB \<times> (action_error + 'a)" where
  "query db f =
     (case take_next False (db_faults db) of (fault, faults) \<Rightarrow>
        (db\<lparr>db_faults := faults\<rparr>, if fault then Inl StoreFailed else Inr (f (db_actions db))))"

definition time_Now :: "ActionDB \<Rightarrow> gotime \<times> ActionDB" where
  "time_Now db = (case take_next 0 (db_times db) of (t, ts) \<Rightarrow> (t, db\<lparr>db_times := ts\<rparr>))"

definition uuid_New :: "ActionDB \<Rightarrow> string \<times> ActionDB" where
  "uuid_New db = (case take_next [] (db_ids db) of (i, is) \<Rightarrow> (i, db\<lparr>db_ids := is\<rparr>))"

definition row_key :: "ActionRow \<Rightarrow> string \<times> string \<times> string" where
  "row_key r = (ar_TargetType r, ar_TargetName r, ar_Connector r)"

text \<open>\<open>INSERT ... ON CONFLICT (target_type, target_name, connector) DO UPDATE\<close>.\<close>

definition upsert :: "ActionRow \<Rightarrow> (ActionRow \<Rightarrow> ActionRow) \<Rightarrow> ActionRow list \<Rightarrow> ActionRow list" where
  "upsert new upd rows =
     (if list_ex (\<lambda>r. row_key r = row_key new) rows
      then map (\<lambda>r. if row_key r = row_key new then upd r else r) rows
      else rows @ [new])"

definition validateActionFieldAndValue :: "string \<Rightarrow> string \<Rightarrow> action_error option" where
  "validateActionFieldAndValue field value =
     (if field = ''install''
      then (if List.member [[], ''block'', ''allow'', ''none''] value then None else Some (InvalidValue field value))
      else if field = ''file''
      then (if List.member [[], ''quarantine'', ''none''] value then None else Some (InvalidValue field value))
      else if field = ''runtime''
      then (if List.member [[], ''disable'', ''enable''] value then None else Some (InvalidValue field value))
      else Some (InvalidField field))"

text \<open>\<open>json_set\<close>, \<open>json_remove\<close>, \<open>json_extract\<close> at a field, \<open>json.Marshal\<close> (with \<open>omitempty\<close>) and \<open>json.Unmarshal\<close>.\<close>

definition json_put :: "string \<Rightarrow> string option \<Rightarrow> ActionsJSON \<Rightarrow> ActionsJSON" where
  "json_put field v j =
     (if field = ''install'' then j\<lparr>aj_Install := v\<rparr>
      else if field = ''file'' then j\<lparr>aj_File := v\<rparr>
      else if field = ''runtime'' then j\<lparr>aj_Runtime := v\<rparr> else j)"

definition json_get :: "string \<Rightarrow> ActionsJSON \<Rightarrow> string option" where
  "json_get field j =
     (if field = ''install'' then aj_Install j else if field = ''file'' then aj_File j
      else if field = ''runtime'' then aj_Runtime j else None)"

definition empty_json :: ActionsJSON where
  "empty_json = \<lparr>aj_File = None, aj_Runtime = None, aj_Install = None\<rparr>"

definition marshal_state :: "ActionState \<Rightarrow> ActionsJSON" where
  "marshal_state s = \<lparr>aj_File = nullStr (st_File s), aj_Runtime = nullStr (st_Runtime s), aj_Install = nullStr (st_Install s)\<rparr>"

definition unmarshal_state :: "ActionsJSON \<Rightarrow> ActionState" where
  "unmarshal_state j = \<lparr>st_File = coalesce (aj_File j), st_Runtime = coalesce (aj_Runtime j), st_Install = coalesce (aj_Install j)\<rparr>"

subsection \<open>Writing\<close>

definition SetActionForConnector ::
  "ActionDB \<Rightarrow> string \<Rightarrow> string \<Rightarrow> string \<Rightarrow> string \<Rightarrow> ActionState \<Rightarrow> string \<Rightarrow> ActionDB \<times> action_error option" where
  "SetActionForConnector db targetType targetName connector sourcePath state reason =
     (case uuid_New db of (i, db1) \<Rightarrow>
      case time_Now db1 of (now, db2) \<Rightarrow>
        exec db2 (upsert
          \<lparr>ar_ID = i, ar_TargetType = targetType, ar_TargetName = targetName, ar_SourcePath = nullStr sourcePath,
           ar_Actions = marshal_state state, ar_Reason = reason, ar_UpdatedAt = now, ar_Connector = connector\<rparr>
          (\<lambda>r. r\<lparr>ar_Actions := marshal_state state, ar_Reason := reason, ar_UpdatedAt := now,
             ar_SourcePath := (case nullStr sourcePath of Some p \<Rightarrow> Some p | None \<Rightarrow> ar_SourcePath r)\<rparr>)))"

definition SetAction ::
  "ActionDB \<Rightarrow> string \<Rightarrow> string \<Rightarrow> string \<Rightarrow> ActionState \<Rightarrow> string \<Rightarrow> ActionDB \<times> action_error option" where
  "SetAction db targetType targetName sourcePath state reason = SetActionForConnector db targetType targetName [] sourcePath state reason"

definition SetActionFieldForConnector ::
  "ActionDB \<Rightarrow> string \<Rightarrow> string \<Rightarrow> string \<Rightarrow> string \<Rightarrow> string \<Rightarrow> string \<Rightarrow> ActionDB \<times> action_error option" where
  "SetActionFieldForConnector db targetType targetName connector field value reason =
     (case validateActionFieldAndValue field value of
        Some e \<Rightarrow> (db, Some e)
      | None \<Rightarrow>
          (case uuid_New db of (i, db1) \<Rightarrow>
           case time_Now db1 of (now, db2) \<Rightarrow>
             exec db2 (upsert
               \<lparr>ar_ID = i, ar_TargetType = targetType, ar_TargetName = targetName, ar_SourcePath = None,
                ar_Actions = json_put field (Some value) empty_json, ar_Reason = reason, ar_UpdatedAt = now, ar_Connector = connector\<rparr>
               (\<lambda>r. r\<lparr>ar_Actions := json_put field (Some value) (ar_Actions r), ar_Reason := reason, ar_UpdatedAt := now\<rparr>))))"

definition SetActionField ::
  "ActionDB \<Rightarrow> string \<Rightarrow> string \<Rightarrow> string \<Rightarrow> string \<Rightarrow> string \<Rightarrow> ActionDB \<times> action_error option" where
  "SetActionField db targetType targetName field value reason =
     SetActionFieldForConnector db targetType targetName [] field value reason"

definition SetSourcePathForConnector ::
  "ActionDB \<Rightarrow> string \<Rightarrow> string \<Rightarrow> string \<Rightarrow> string \<Rightarrow> ActionDB \<times> action_error option" where
  "SetSourcePathForConnector db targetType targetName connector path =
     exec db (map (\<lambda>r. if row_key r = (targetType, targetName, connector) then r\<lparr>ar_SourcePath := Some path\<rparr> else r))"

definition store_SetSourcePath :: "ActionDB \<Rightarrow> string \<Rightarrow> string \<Rightarrow> string \<Rightarrow> ActionDB \<times> action_error option" where
  "store_SetSourcePath db targetType targetName path = SetSourcePathForConnector db targetType targetName [] path"

definition ClearActionFieldForConnector ::
  "ActionDB \<Rightarrow> string \<Rightarrow> string \<Rightarrow> string \<Rightarrow> string \<Rightarrow> ActionDB \<times> action_error option" where
  "ClearActionFieldForConnector db targetType targetName connector field =
     (case validateActionFieldAndValue field [] of
        Some e \<Rightarrow> (db, Some e)
      | None \<Rightarrow>
          (case time_Now db of (now, db1) \<Rightarrow>
           case exec db1 (map (\<lambda>r. if row_key r = (targetType, targetName, connector)
                  then r\<lparr>ar_Actions := json_put field None (ar_Actions r), ar_UpdatedAt := now\<rparr> else r)) of
             (db2, Some e) \<Rightarrow> (db2, Some e)
           | (db2, None) \<Rightarrow>
               (fst (exec db2 (filter (\<lambda>r. \<not> (row_key r = (targetType, targetName, connector) \<and> ar_Actions r = empty_json)))), None)))"

definition ClearActionField :: "ActionDB \<Rightarrow> string \<Rightarrow> string \<Rightarrow> string \<Rightarrow> ActionDB \<times> action_error option" where
  "ClearActionField db targetType targetName field = ClearActionFieldForConnector db targetType targetName [] field"

definition store_RemoveActionForConnector :: "ActionDB \<Rightarrow> string \<Rightarrow> string \<Rightarrow> string \<Rightarrow> ActionDB \<times> action_error option" where
  "store_RemoveActionForConnector db targetType targetName connector =
     exec db (filter (\<lambda>r. row_key r \<noteq> (targetType, targetName, connector)))"

definition store_RemoveAction :: "ActionDB \<Rightarrow> string \<Rightarrow> string \<Rightarrow> ActionDB \<times> action_error option" where
  "store_RemoveAction db targetType targetName = store_RemoveActionForConnector db targetType targetName []"

subsection \<open>Reading\<close>

definition row_entry :: "ActionRow \<Rightarrow> ActionEntry" where
  "row_entry r =
     \<lparr>ae_ID = ar_ID r, ae_TargetType = ar_TargetType r, ae_TargetName = ar_TargetName r,
      ae_SourcePath = coalesce (ar_SourcePath r), ae_Actions = unmarshal_state (ar_Actions r), ae_Reason = ar_Reason r,
      ae_UpdatedAt = ar_UpdatedAt r, ae_Connector = ar_Connector r\<rparr>"

definition GetActionForConnector ::
  "ActionDB \<Rightarrow> string \<Rightarrow> string \<Rightarrow> string \<Rightarrow> ActionDB \<times> (action_error + ActionEntry option)" where
  "GetActionForConnector db targetType targetName connector =
     query db (\<lambda>rows. map_option row_entry (find (\<lambda>r. row_key r = (targetType, targetName, connector)) rows))"

definition store_GetAction :: "ActionDB \<Rightarrow> string \<Rightarrow> string \<Rightarrow> ActionDB \<times> (action_error + ActionEntry option)" where
  "store_GetAction db targetType targetName = GetActionForConnector db targetType targetName []"

definition HasActionForConnector ::
  "ActionDB \<Rightarrow> string \<Rightarrow> string \<Rightarrow> string \<Rightarrow> string \<Rightarrow> string \<Rightarrow> ActionDB \<times> (action_error + bool)" where
  "HasActionForConnector db targetType targetName connector field value =
     (case validateActionFieldAndValue field value of
        Some e \<Rightarrow> (db, Inl e)
      | None \<Rightarrow> query db (\<lambda>rows. 0 < length (filter (\<lambda>r. row_key r = (targetType, targetName, connector) \<and>
          json_get field (ar_Actions r) = Some value) rows)))"

definition HasAction :: "ActionDB \<Rightarrow> string \<Rightarrow> string \<Rightarrow> string \<Rightarrow> string \<Rightarrow> ActionDB \<times> (action_error + bool)" where
  "HasAction db targetType targetName field value = HasActionForConnector db targetType targetName [] field value"

text \<open>\<open>ORDER BY updated_at DESC\<close>; rows with equal times keep the order of the table.\<close>

definition queryActions :: "(ActionRow \<Rightarrow> bool) \<Rightarrow> ActionDB \<Rightarrow> ActionDB \<times> (action_error + ActionEntry list)" where
  "queryActions P db = query db (\<lambda>rows. map row_entry (sort_key (\<lambda>r. - ar_UpdatedAt r) (filter P rows)))"

definition ListByAction :: "ActionDB \<Rightarrow> string \<Rightarrow> string \<Rightarrow> ActionDB \<times> (action_error + ActionEntry list)" where
  "ListByAction db field value =
     (case validateActionFieldAndValue field value of
        Some e \<Rightarrow> (db, Inl e)
      | None \<Rightarrow> queryActions (\<lambda>r. json_get field (ar_Actions r) = Some value) db)"

definition ListByActionAndType :: "ActionDB \<Rightarrow> string \<Rightarrow> string \<Rightarrow> string \<Rightarrow> ActionDB \<times> (action_error + ActionEntry list)" where
  "ListByActionAndType db field value targetType =
     (case validateActionFieldAndValue field value of
        Some e \<Rightarrow> (db, Inl e)
      | None \<Rightarrow> queryActions (\<lambda>r. json_get field (ar_Actions r) = Some value \<and> ar_TargetType r = targetType) db)"

definition ListActionsByType :: "ActionDB \<Rightarrow> string \<Rightarrow> ActionDB \<times> (action_error + ActionEntry list)" where
  "ListActionsByType db targetType = queryActions (\<lambda>r. ar_TargetType r = targetType) db"

definition ListActionsByTypeForConnector :: "ActionDB \<Rightarrow> string \<Rightarrow> string \<Rightarrow> ActionDB \<times> (action_error + ActionEntry list)" where
  "ListActionsByTypeForConnector db targetType connector =
     queryActions (\<lambda>r. ar_TargetType r = targetType \<and> ar_Connector r = connector) db"

definition ListAllActions :: "ActionDB \<Rightarrow> ActionDB \<times> (action_error + ActionEntry list)" where
  "ListAllActions db = queryActions (\<lambda>r. True) db"

subsection \<open>Cells\<close>

text \<open>The row of a key, and the JSON value of one of its fields.\<close>

definition row_at :: "ActionRow list \<Rightarrow> string \<times> string \<times> string \<Rightarrow> ActionRow option" where
  "row_at rows k = find (\<lambda>r. row_key r = k) rows"

definition cell :: "ActionDB \<Rightarrow> string \<times> string \<times> string \<Rightarrow> string \<Rightarrow> string option" where
  "cell db k field = Option.bind (row_at (db_actions db) k) (\<lambda>r. json_get field (ar_Actions r))"

definition action_inv :: "ActionDB \<Rightarrow> bool" where
  "action_inv db \<longleftrightarrow> distinct (map row_key (db_actions db))"

abbreviation action_fields :: "string set" where
  "action_fields \<equiv> {''install'', ''file'', ''runtime''}"

lemma field_ok: "validateActionFieldAndValue field value = None \<Longrightarrow> field \<in> action_fields"
  by (auto simp: validateActionFieldAndValue_def split: if_splits)

lemma clear_ok: "validateActionFieldAndValue field [] = None \<longleftrightarrow> field \<in> action_fields"
  by (auto simp: validateActionFieldAndValue_def)

lemma json_get_put:
  "field \<in> action_fields \<Longrightarrow> json_get f (json_put field v j) = (if f = field then v else json_get f j)"
  by (auto simp: json_get_def json_put_def)

lemma json_get_empty [simp]: "json_get f empty_json = None"
  by (simp add: json_get_def empty_json_def)

lemma empty_json_iff: "j = empty_json \<longleftrightarrow> (\<forall>f. json_get f j = None)"
proof
  assume "\<forall>f. json_get f j = None"
  then have "json_get ''install'' j = None" "json_get ''file'' j = None" "json_get ''runtime'' j = None" by blast+
  then show "j = empty_json" by (cases j) (simp add: json_get_def empty_json_def)
qed simp

lemma row_at_key: "row_at rows k = Some r \<Longrightarrow> row_key r = k \<and> r \<in> set rows"
  by (auto simp: row_at_def find_Some_iff)

lemma row_at_map:
  assumes "\<And>r. row_key (f r) = row_key r"
  shows "row_at (map f rows) k = map_option f (row_at rows k)"
  using assms by (induction rows) (auto simp: row_at_def)

lemma row_at_filter:
  assumes "distinct (map row_key rows)"
  shows "row_at (filter P rows) k = (case row_at rows k of Some r \<Rightarrow> if P r then Some r else None | None \<Rightarrow> None)"
  using assms
proof (induction rows)
  case (Cons r rows)
  show ?case
  proof (cases "row_key r = k")
    case True
    then have "row_at (filter P rows) k = None"
      using Cons.prems by (auto simp: row_at_def find_None_iff) (metis imageI)
    with True show ?thesis by (simp add: row_at_def)
  next
    case False
    with Cons show ?thesis by (simp add: row_at_def)
  qed
qed (simp add: row_at_def)

lemma keys_map: "(\<And>r. row_key (f r) = row_key r) \<Longrightarrow> map row_key (map f rows) = map row_key rows"
  by simp

lemma upsert_at:
  assumes "\<And>r. row_key (upd r) = row_key r"
  shows "row_at (upsert new upd rows) k =
    (if k = row_key new then Some (case row_at rows k of Some r \<Rightarrow> upd r | None \<Rightarrow> new) else row_at rows k)"
proof (cases "list_ex (\<lambda>r. row_key r = row_key new) rows")
  case True
  let ?f = "\<lambda>r. if row_key r = row_key new then upd r else r"
  have "row_at (map ?f rows) k = map_option ?f (row_at rows k)" by (rule row_at_map) (simp add: assms)
  moreover have "k = row_key new \<Longrightarrow> row_at rows k \<noteq> None" using True by (auto simp: row_at_def find_None_iff list_ex_iff)
  ultimately show ?thesis using True row_at_key [of rows k] by (cases "row_at rows k") (auto simp: upsert_def)
next
  case False
  then have "row_at rows (row_key new) = None" by (auto simp: row_at_def find_None_iff list_ex_iff)
  moreover have "row_at (rows @ [new]) k = (case row_at rows k of Some r \<Rightarrow> Some r | None \<Rightarrow> if row_key new = k then Some new else None)"
    by (induction rows) (auto simp: row_at_def)
  ultimately show ?thesis using False by (auto simp: upsert_def split: option.splits)
qed

lemma upsert_distinct:
  assumes "\<And>r. row_key (upd r) = row_key r" and "distinct (map row_key rows)"
  shows "distinct (map row_key (upsert new upd rows))"
proof -
  have "map row_key (map (\<lambda>r. if row_key r = row_key new then upd r else r) rows) = map row_key rows"
    by (rule keys_map) (simp add: assms(1))
  then have "list_ex (\<lambda>r. row_key r = row_key new) rows \<Longrightarrow> map row_key (upsert new upd rows) = map row_key rows"
    by (simp only: upsert_def if_True)
  moreover have "\<not> list_ex (\<lambda>r. row_key r = row_key new) rows \<Longrightarrow> map row_key (upsert new upd rows) = map row_key rows @ [row_key new]
    \<and> row_key new \<notin> row_key ` set rows"
    by (auto simp: upsert_def list_ex_iff)
  ultimately show ?thesis using assms(2) by (cases "list_ex (\<lambda>r. row_key r = row_key new) rows") auto
qed

subsection \<open>Effects of the statements\<close>

lemma exec_effect:
  "exec db f = (db', e) \<Longrightarrow> db_actions db' = (if e = None then f (db_actions db) else db_actions db)"
  by (auto simp: exec_def Let_def split: prod.splits if_splits)

lemma draw_rows [simp]:
  "db_actions (snd (uuid_New db)) = db_actions db" "db_actions (snd (time_Now db)) = db_actions db"
  by (simp_all add: uuid_New_def time_Now_def split: prod.splits)

lemma query_effect: "query db f = (db', r) \<Longrightarrow> db_actions db' = db_actions db \<and> (r = Inl StoreFailed \<or> r = Inr (f (db_actions db)))"
  by (auto simp: query_def split: prod.splits if_splits)

lemma set_field_rows:
  assumes "SetActionFieldForConnector db t n c field v reason = (db', e)"
  shows "e = None \<and> validateActionFieldAndValue field v = None \<and>
      (\<exists>new upd. db_actions db' = upsert new upd (db_actions db) \<and> row_key new = (t, n, c) \<and>
        (\<forall>r. row_key (upd r) = row_key r \<and> ar_Actions (upd r) = json_put field (Some v) (ar_Actions r)) \<and>
        ar_Actions new = json_put field (Some v) empty_json) \<or>
    e \<noteq> None \<and> db_actions db' = db_actions db"
proof (cases "validateActionFieldAndValue field v")
  case (Some x)
  then show ?thesis using assms by (auto simp: SetActionFieldForConnector_def)
next
  case None
  obtain i db1 now db2 where d: "uuid_New db = (i, db1)" "time_Now db1 = (now, db2)" by fastforce
  let ?new = "\<lparr>ar_ID = i, ar_TargetType = t, ar_TargetName = n, ar_SourcePath = None,
    ar_Actions = json_put field (Some v) empty_json, ar_Reason = reason, ar_UpdatedAt = now, ar_Connector = c\<rparr>"
  let ?upd = "\<lambda>r. r\<lparr>ar_Actions := json_put field (Some v) (ar_Actions r), ar_Reason := reason, ar_UpdatedAt := now\<rparr>"
  have ex: "exec db2 (upsert ?new ?upd) = (db', e)" using assms None d by (simp add: SetActionFieldForConnector_def)
  have rows: "db_actions db2 = db_actions db" using draw_rows(1) [of db] draw_rows(2) [of db1] d by simp
  show ?thesis
  proof (cases e)
    case None
    then have "db_actions db' = upsert ?new ?upd (db_actions db)" using exec_effect [OF ex] rows by simp
    then show ?thesis using None \<open>validateActionFieldAndValue field v = None\<close>
      by (intro disjI1 conjI exI [of _ ?new] exI [of _ ?upd]) (simp_all add: row_key_def)
  next
    case (Some x)
    then show ?thesis using exec_effect [OF ex] rows by simp
  qed
qed

lemma set_field_effect:
  assumes "SetActionFieldForConnector db t n c field v reason = (db', e)" and "action_inv db"
  shows "action_inv db' \<and> (e = None \<longrightarrow> (\<forall>k f. cell db' k f = (if k = (t, n, c) \<and> f = field then Some v else cell db k f))) \<and>
    (e \<noteq> None \<longrightarrow> cell db' = cell db)"
  using set_field_rows [OF assms(1)]
proof (elim disjE conjE exE)
  fix new upd
  assume e: "e = None" "validateActionFieldAndValue field v = None" and rows: "db_actions db' = upsert new upd (db_actions db)"
    and k: "row_key new = (t, n, c)" and upd: "\<forall>r. row_key (upd r) = row_key r \<and> ar_Actions (upd r) = json_put field (Some v) (ar_Actions r)"
    and new: "ar_Actions new = json_put field (Some v) empty_json"
  have "action_inv db'" using upsert_distinct [of upd] upd assms(2) by (simp add: action_inv_def rows)
  moreover have "cell db' k f = (if k = (t, n, c) \<and> f = field then Some v else cell db k f)" for k f
    using upd new k json_get_put [OF field_ok [OF e(2)], of f]
    by (cases "row_at (db_actions db) k") (auto simp: cell_def rows upsert_at)
  ultimately show ?thesis using e by simp
next
  assume "e \<noteq> None" "db_actions db' = db_actions db"
  then show ?thesis using assms(2) by (auto simp: action_inv_def cell_def fun_eq_iff)
qed

lemma clear_field_effect:
  assumes "ClearActionFieldForConnector db t n c field = (db', e)" and "action_inv db"
  shows "action_inv db' \<and> (e = None \<longrightarrow> (\<forall>k f. cell db' k f = (if k = (t, n, c) \<and> f = field then None else cell db k f))) \<and>
    (e \<noteq> None \<longrightarrow> cell db' = cell db)"
proof (cases "validateActionFieldAndValue field []")
  case (Some x)
  then show ?thesis using assms by (auto simp: ClearActionFieldForConnector_def)
next
  case None
  then have fld: "field \<in> action_fields" by (rule field_ok)
  obtain now db1 where d: "time_Now db = (now, db1)" by fastforce
  let ?upd = "\<lambda>r. if row_key r = (t, n, c) then r\<lparr>ar_Actions := json_put field None (ar_Actions r), ar_UpdatedAt := now\<rparr> else r"
  let ?del = "\<lambda>r. \<not> (row_key r = (t, n, c) \<and> ar_Actions r = empty_json)"
  obtain db2 e2 where x: "exec db1 (map ?upd) = (db2, e2)" by fastforce
  have r1: "db_actions db1 = db_actions db" using draw_rows(2) [of db] d by simp
  have keep: "row_key (?upd r) = row_key r" for r by (simp add: row_key_def)
  show ?thesis
  proof (cases e2)
    case (Some y)
    then have "db' = db2" "e = Some y" using assms(1) None d x by (simp_all add: ClearActionFieldForConnector_def)
    then show ?thesis using exec_effect [OF x] r1 Some assms(2) by (auto simp: action_inv_def cell_def fun_eq_iff)
  next
    case None': None
    then have res: "db' = fst (exec db2 (filter ?del))" "e = None"
      using assms(1) None d x by (simp_all add: ClearActionFieldForConnector_def)
    have r2: "db_actions db2 = map ?upd (db_actions db)" using exec_effect [OF x] r1 None' by simp
    have inv2: "distinct (map row_key (db_actions db2))"
      using assms(2) unfolding r2 action_inv_def keys_map [of ?upd "db_actions db", OF keep] .
    obtain e3 where x3: "exec db2 (filter ?del) = (db', e3)" using res(1) by (cases "exec db2 (filter ?del)") simp
    then have r3: "db_actions db' = db_actions db2 \<or> db_actions db' = filter ?del (db_actions db2)"
      using exec_effect by fastforce
    then have inv: "action_inv db'" using inv2 by (auto simp: action_inv_def distinct_map_filter)
    have c2: "cell db2 k f = (if k = (t, n, c) \<and> f = field then None else cell db k f)" for k f
    proof (cases "row_at (db_actions db) k")
      case (Some r)
      then have "row_key r = k" using row_at_key by blast
      then show ?thesis using Some by (auto simp: cell_def r2 row_at_map [of ?upd, OF keep] json_get_put [OF fld])
    qed (simp add: cell_def r2 row_at_map [of ?upd, OF keep])
    have "cell db' k f = cell db2 k f" for k f
      using r3
    proof
      assume "db_actions db' = filter ?del (db_actions db2)"
      then show ?thesis
        using row_at_filter [OF inv2, of ?del k] by (cases "row_at (db_actions db2) k") (auto simp: cell_def)
    qed (simp add: cell_def)
    then show ?thesis using inv c2 res(2) by simp
  qed
qed

lemma set_field_cells:
  assumes "SetActionFieldForConnector db t n c field v reason = (db', e)" and "action_inv db"
  shows "action_inv db'" "cell db' k f = (if e = None \<and> k = (t, n, c) \<and> f = field then Some v else cell db k f)"
proof -
  note eff = set_field_effect [OF assms]
  show "action_inv db'" using eff by blast
  show "cell db' k f = (if e = None \<and> k = (t, n, c) \<and> f = field then Some v else cell db k f)"
  proof (cases "e = None")
    case True
    then have "\<forall>k f. cell db' k f = (if k = (t, n, c) \<and> f = field then Some v else cell db k f)" using eff by blast
    from spec [OF spec [OF this, of k], of f] show ?thesis by (simp only: True simp_thms)
  next
    case False
    then have "cell db' = cell db" using eff by blast
    then show ?thesis by (simp only: False simp_thms if_False)
  qed
qed

lemma clear_field_cells:
  assumes "ClearActionFieldForConnector db t n c field = (db', e)" and "action_inv db"
  shows "action_inv db'" "cell db' k f = (if e = None \<and> k = (t, n, c) \<and> f = field then None else cell db k f)"
proof -
  note eff = clear_field_effect [OF assms]
  show "action_inv db'" using eff by blast
  show "cell db' k f = (if e = None \<and> k = (t, n, c) \<and> f = field then None else cell db k f)"
  proof (cases "e = None")
    case True
    then have "\<forall>k f. cell db' k f = (if k = (t, n, c) \<and> f = field then None else cell db k f)" using eff by blast
    from spec [OF spec [OF this, of k], of f] show ?thesis by (simp only: True simp_thms)
  next
    case False
    then have "cell db' = cell db" using eff by blast
    then show ?thesis by (simp only: False simp_thms if_False)
  qed
qed

lemma has_action_result:
  assumes "HasActionForConnector db t n c field v = (db', r)" and "action_inv db" and "validateActionFieldAndValue field v = None"
  shows "db_actions db' = db_actions db \<and> (r = Inl StoreFailed \<or> r = Inr (cell db (t, n, c) field = Some v))"
proof -
  let ?P = "\<lambda>rows. 0 < length (filter (\<lambda>r. row_key r = (t, n, c) \<and> json_get field (ar_Actions r) = Some v) rows)"
  have q: "query db ?P = (db', r)" using assms(1,3) by (simp add: HasActionForConnector_def)
  have "?P (db_actions db) = (cell db (t, n, c) field = Some v)"
  proof -
    have "(\<exists>r \<in> set (db_actions db). row_key r = (t, n, c) \<and> json_get field (ar_Actions r) = Some v) =
      (cell db (t, n, c) field = Some v)"
    proof
      assume "\<exists>r \<in> set (db_actions db). row_key r = (t, n, c) \<and> json_get field (ar_Actions r) = Some v"
      then obtain r where r: "r \<in> set (db_actions db)" "row_key r = (t, n, c)" "json_get field (ar_Actions r) = Some v" by blast
      have "row_at (db_actions db) (t, n, c) \<noteq> None" using r by (auto simp: row_at_def find_None_iff)
      then obtain r' where r': "row_at (db_actions db) (t, n, c) = Some r'" by blast
      then have "r' = r" using row_at_key [OF r'] r assms(2) by (auto simp: action_inv_def distinct_map inj_on_def)
      then show "cell db (t, n, c) field = Some v" using r r' by (simp add: cell_def)
    next
      assume "cell db (t, n, c) field = Some v"
      then obtain r where "row_at (db_actions db) (t, n, c) = Some r" "json_get field (ar_Actions r) = Some v"
        by (auto simp: cell_def bind_eq_Some_conv)
      then show "\<exists>r \<in> set (db_actions db). row_key r = (t, n, c) \<and> json_get field (ar_Actions r) = Some v"
        using row_at_key by blast
    qed
    then show ?thesis by (auto simp: filter_empty_conv)
  qed
  then show ?thesis using query_effect [OF q] by simp
qed

end
