(* ===== verification/Enforce_Policy.thy ===== *)
theory Enforce_Policy
  imports Audit_Actions
begin

text \<open>
  The policy engine of \<^verbatim>\<open>internal/enforce/policy.go\<close>: block, allow, quarantine and disable decisions over the
  enforcement table, globally, per connector (the \<open>connector\<close> column) and per connector for tools (the name
  \<open>@connector/tool\<close>).  An engine without a store is \<open>None\<close>.

  The specification of a scoped decision is \<open>most_specific\<close>: the connector's own entry if it has one, the global entry
  otherwise.  The locale \<open>scoped_setting\<close> states what the engine needs of a scoped store; the column and the
  name encoding are its two interpretations.
\<close>

type_synonym PolicyEngine = "ActionDB option"

definition on_store :: "PolicyEngine \<Rightarrow> 'r \<Rightarrow> (ActionDB \<Rightarrow> ActionDB \<times> 'r) \<Rightarrow> PolicyEngine \<times> 'r" where
  "on_store e d f = (case e of None \<Rightarrow> (None, d) | Some db \<Rightarrow> (case f db of (db', r) \<Rightarrow> (Some db', r)))"

subsection \<open>Global entries\<close>

definition NewPolicyEngine :: "ActionDB option \<Rightarrow> PolicyEngine" where
  "NewPolicyEngine store = store"

definition IsBlocked :: "PolicyEngine \<Rightarrow> string \<Rightarrow> string \<Rightarrow> PolicyEngine \<times> (action_error + bool)" where
  "IsBlocked e targetType name = on_store e (Inr False) (\<lambda>db. HasAction db targetType name ''install'' ''block'')"

definition IsAllowed :: "PolicyEngine \<Rightarrow> string \<Rightarrow> string \<Rightarrow> PolicyEngine \<times> (action_error + bool)" where
  "IsAllowed e targetType name = on_store e (Inr False) (\<lambda>db. HasAction db targetType name ''install'' ''allow'')"

definition IsQuarantined :: "PolicyEngine \<Rightarrow> string \<Rightarrow> string \<Rightarrow> PolicyEngine \<times> (action_error + bool)" where
  "IsQuarantined e targetType name = on_store e (Inr False) (\<lambda>db. HasAction db targetType name ''file'' ''quarantine'')"

definition Block :: "PolicyEngine \<Rightarrow> string \<Rightarrow> string \<Rightarrow> string \<Rightarrow> PolicyEngine \<times> action_error option" where
  "Block e targetType name reason = on_store e None (\<lambda>db. SetActionField db targetType name ''install'' ''block'' reason)"

text \<open>
  \<open>Allow\<close>, \<open>AllowForConnector\<close> and \<open>AllowToolForConnector\<close> run the same statements on the row they address: the
  allow is written, then the file and runtime fields are cleared, and a failure of either is reported.
\<close>

definition allow_row ::
  "ActionDB \<Rightarrow> string \<Rightarrow> string \<Rightarrow> string \<Rightarrow> string \<Rightarrow> ActionDB \<times> action_error option" where
  "allow_row db targetType name connector reason =
     (case SetActionFieldForConnector db targetType name connector ''install'' ''allow'' reason of
        (db1, Some err) \<Rightarrow> (db1, Some err)
      | (db1, None) \<Rightarrow>
          (case ClearActionFieldForConnector db1 targetType name connector ''file'' of (db2, e1) \<Rightarrow>
           case ClearActionFieldForConnector db2 targetType name connector ''runtime'' of (db3, e2) \<Rightarrow>
             let errs = (case e1 of Some x \<Rightarrow> [x] | None \<Rightarrow> []) @ (case e2 of Some x \<Rightarrow> [x] | None \<Rightarrow> [])
             in (db3, if errs \<noteq> [] then Some (PartialCleanup errs) else None)))"

definition Allow :: "PolicyEngine \<Rightarrow> string \<Rightarrow> string \<Rightarrow> string \<Rightarrow> PolicyEngine \<times> action_error option" where
  "Allow e targetType name reason = on_store e None (\<lambda>db. allow_row db targetType name [] reason)"

definition Unblock :: "PolicyEngine \<Rightarrow> string \<Rightarrow> string \<Rightarrow> PolicyEngine \<times> action_error option" where
  "Unblock e targetType name = on_store e None (\<lambda>db. ClearActionField db targetType name ''install'')"

definition Quarantine :: "PolicyEngine \<Rightarrow> string \<Rightarrow> string \<Rightarrow> string \<Rightarrow> PolicyEngine \<times> action_error option" where
  "Quarantine e targetType name reason = on_store e None (\<lambda>db. SetActionField db targetType name ''file'' ''quarantine'' reason)"

definition ClearQuarantine :: "PolicyEngine \<Rightarrow> string \<Rightarrow> string \<Rightarrow> PolicyEngine \<times> action_error option" where
  "ClearQuarantine e targetType name = on_store e None (\<lambda>db. ClearActionField db targetType name ''file'')"

definition Disable :: "PolicyEngine \<Rightarrow> string \<Rightarrow> string \<Rightarrow> string \<Rightarrow> PolicyEngine \<times> action_error option" where
  "Disable e targetType name reason = on_store e None (\<lambda>db. SetActionField db targetType name ''runtime'' ''disable'' reason)"

definition Enable :: "PolicyEngine \<Rightarrow> string \<Rightarrow> string \<Rightarrow> PolicyEngine \<times> action_error option" where
  "Enable e targetType name = on_store e None (\<lambda>db. ClearActionField db targetType name ''runtime'')"

text \<open>The error of \<open>SetSourcePath\<close> is discarded.\<close>

definition engine_SetSourcePath :: "PolicyEngine \<Rightarrow> string \<Rightarrow> string \<Rightarrow> string \<Rightarrow> PolicyEngine" where
  "engine_SetSourcePath e targetType name path = fst (on_store e None (\<lambda>db. store_SetSourcePath db targetType name path))"

definition engine_SetAction ::
  "PolicyEngine \<Rightarrow> string \<Rightarrow> string \<Rightarrow> string \<Rightarrow> ActionState \<Rightarrow> string \<Rightarrow> PolicyEngine \<times> action_error option" where
  "engine_SetAction e targetType name sourcePath state reason =
     on_store e None (\<lambda>db. SetAction db targetType name sourcePath state reason)"

definition engine_GetAction :: "PolicyEngine \<Rightarrow> string \<Rightarrow> string \<Rightarrow> PolicyEngine \<times> (action_error + ActionEntry option)" where
  "engine_GetAction e targetType name = on_store e (Inr None) (\<lambda>db. store_GetAction db targetType name)"

definition ListBlocked :: "PolicyEngine \<Rightarrow> PolicyEngine \<times> (action_error + ActionEntry list)" where
  "ListBlocked e = on_store e (Inr []) (\<lambda>db. ListByAction db ''install'' ''block'')"

definition ListAllowed :: "PolicyEngine \<Rightarrow> PolicyEngine \<times> (action_error + ActionEntry list)" where
  "ListAllowed e = on_store e (Inr []) (\<lambda>db. ListByAction db ''install'' ''allow'')"

definition ListAll :: "PolicyEngine \<Rightarrow> PolicyEngine \<times> (action_error + ActionEntry list)" where
  "ListAll e = on_store e (Inr []) ListAllActions"

definition ListByType :: "PolicyEngine \<Rightarrow> string \<Rightarrow> PolicyEngine \<times> (action_error + ActionEntry list)" where
  "ListByType e targetType = on_store e (Inr []) (\<lambda>db. ListActionsByType db targetType)"

definition engine_RemoveAction :: "PolicyEngine \<Rightarrow> string \<Rightarrow> string \<Rightarrow> PolicyEngine \<times> action_error option" where
  "engine_RemoveAction e targetType name = on_store e None (\<lambda>db. store_RemoveAction db targetType name)"

subsection \<open>Connector entries\<close>

definition actionFieldValue :: "ActionState \<Rightarrow> string \<Rightarrow> action_error + (string \<times> bool)" where
  "actionFieldValue actions field =
     (if field = ''install'' then Inr (st_Install actions, st_Install actions \<noteq> [])
      else if field = ''file'' then Inr (st_File actions, st_File actions \<noteq> [])
      else if field = ''runtime'' then Inr (st_Runtime actions, st_Runtime actions \<noteq> [])
      else Inl (UnknownField field))"

definition actionFieldForConnector ::
  "ActionDB \<Rightarrow> string \<Rightarrow> string \<Rightarrow> string \<Rightarrow> string \<Rightarrow> ActionDB \<times> (action_error + (string \<times> bool))" where
  "actionFieldForConnector db targetType name connector field =
     (case GetActionForConnector db targetType name connector of
        (db1, Inl err) \<Rightarrow> (db1, Inl err)
      | (db1, Inr None) \<Rightarrow> (db1, Inr ([], False))
      | (db1, Inr (Some entry)) \<Rightarrow> (db1, actionFieldValue (ae_Actions entry) field))"

definition actionField :: "ActionDB \<Rightarrow> string \<Rightarrow> string \<Rightarrow> string \<Rightarrow> ActionDB \<times> (action_error + (string \<times> bool))" where
  "actionField db targetType name field =
     (case store_GetAction db targetType name of
        (db1, Inl err) \<Rightarrow> (db1, Inl err)
      | (db1, Inr None) \<Rightarrow> (db1, Inr ([], False))
      | (db1, Inr (Some entry)) \<Rightarrow> (db1, actionFieldValue (ae_Actions entry) field))"

text \<open>The common ending of the scoped queries: the scoped value decides if present, the global row otherwise.\<close>

definition scoped_or_global ::
  "ActionDB \<times> (action_error + (string \<times> bool)) \<Rightarrow> string \<Rightarrow> (ActionDB \<Rightarrow> ActionDB \<times> (action_error + bool))
    \<Rightarrow> ActionDB \<times> (action_error + bool)" where
  "scoped_or_global scoped v global =
     (case scoped of
        (db1, Inl err) \<Rightarrow> (db1, Inl err)
      | (db1, Inr (action, ok)) \<Rightarrow> if ok then (db1, Inr (action = v)) else global db1)"

definition IsBlockedForConnector ::
  "PolicyEngine \<Rightarrow> string \<Rightarrow> string \<Rightarrow> string \<Rightarrow> PolicyEngine \<times> (action_error + bool)" where
  "IsBlockedForConnector e targetType name connector = on_store e (Inr False) (\<lambda>db.
     let global = (\<lambda>db. HasAction db targetType name ''install'' ''block'')
     in if connector \<noteq> [] then scoped_or_global (actionFieldForConnector db targetType name connector ''install'') ''block'' global
        else global db)"

definition IsAllowedForConnector ::
  "PolicyEngine \<Rightarrow> string \<Rightarrow> string \<Rightarrow> string \<Rightarrow> PolicyEngine \<times> (action_error + bool)" where
  "IsAllowedForConnector e targetType name connector = on_store e (Inr False) (\<lambda>db.
     let global = (\<lambda>db. HasAction db targetType name ''install'' ''allow'')
     in if connector \<noteq> [] then scoped_or_global (actionFieldForConnector db targetType name connector ''install'') ''allow'' global
        else global db)"

definition IsQuarantinedForConnector ::
  "PolicyEngine \<Rightarrow> string \<Rightarrow> string \<Rightarrow> string \<Rightarrow> PolicyEngine \<times> (action_error + bool)" where
  "IsQuarantinedForConnector e targetType name connector = on_store e (Inr False) (\<lambda>db.
     let global = (\<lambda>db. HasAction db targetType name ''file'' ''quarantine'')
     in if connector \<noteq> [] then scoped_or_global (actionFieldForConnector db targetType name connector ''file'') ''quarantine'' global
        else global db)"

definition IsDisabledForConnector ::
  "PolicyEngine \<Rightarrow> string \<Rightarrow> string \<Rightarrow> string \<Rightarrow> PolicyEngine \<times> (action_error + bool)" where
  "IsDisabledForConnector e targetType name connector = on_store e (Inr False) (\<lambda>db.
     let global = (\<lambda>db. HasAction db targetType name ''runtime'' ''disable'')
     in if connector \<noteq> [] then scoped_or_global (actionFieldForConnector db targetType name connector ''runtime'') ''disable'' global
        else global db)"

definition BlockForConnector :: "PolicyEngine \<Rightarrow> string \<Rightarrow> string \<Rightarrow> string \<Rightarrow> string \<Rightarrow> PolicyEngine \<times> action_error option" where
  "BlockForConnector e targetType name connector reason =
     on_store e None (\<lambda>db. SetActionFieldForConnector db targetType name connector ''install'' ''block'' reason)"

definition AllowForConnector :: "PolicyEngine \<Rightarrow> string \<Rightarrow> string \<Rightarrow> string \<Rightarrow> string \<Rightarrow> PolicyEngine \<times> action_error option" where
  "AllowForConnector e targetType name connector reason = on_store e None (\<lambda>db. allow_row db targetType name connector reason)"

definition UnblockForConnector :: "PolicyEngine \<Rightarrow> string \<Rightarrow> string \<Rightarrow> string \<Rightarrow> PolicyEngine \<times> action_error option" where
  "UnblockForConnector e targetType name connector =
     on_store e None (\<lambda>db. ClearActionFieldForConnector db targetType name connector ''install'')"

definition engine_RemoveActionForConnector :: "PolicyEngine \<Rightarrow> string \<Rightarrow> string \<Rightarrow> string \<Rightarrow> PolicyEngine \<times> action_error option" where
  "engine_RemoveActionForConnector e targetType name connector =
     on_store e None (\<lambda>db. store_RemoveActionForConnector db targetType name connector)"

subsection \<open>Tools\<close>

definition toolConnectorTarget :: "string \<Rightarrow> string \<Rightarrow> string" where
  "toolConnectorTarget toolName connector = (if connector = [] then toolName else ''@'' @ connector @ ''/'' @ toolName)"

definition IsToolBlockedForConnector :: "PolicyEngine \<Rightarrow> string \<Rightarrow> string \<Rightarrow> PolicyEngine \<times> (action_error + bool)" where
  "IsToolBlockedForConnector e toolName connector = on_store e (Inr False) (\<lambda>db.
     let global = (\<lambda>db. HasAction db ''tool'' toolName ''install'' ''block'')
     in if connector \<noteq> [] then scoped_or_global (actionField db ''tool'' (toolConnectorTarget toolName connector) ''install'') ''block'' global
        else global db)"

definition IsToolAllowedForConnector :: "PolicyEngine \<Rightarrow> string \<Rightarrow> string \<Rightarrow> PolicyEngine \<times> (action_error + bool)" where
  "IsToolAllowedForConnector e toolName connector = on_store e (Inr False) (\<lambda>db.
     let global = (\<lambda>db. HasAction db ''tool'' toolName ''install'' ''allow'')
     in if connector \<noteq> [] then scoped_or_global (actionField db ''tool'' (toolConnectorTarget toolName connector) ''install'') ''allow'' global
        else global db)"

definition BlockToolForConnector :: "PolicyEngine \<Rightarrow> string \<Rightarrow> string \<Rightarrow> string \<Rightarrow> PolicyEngine \<times> action_error option" where
  "BlockToolForConnector e toolName connector reason =
     on_store e None (\<lambda>db. SetActionField db ''tool'' (toolConnectorTarget toolName connector) ''install'' ''block'' reason)"

definition AllowToolForConnector :: "PolicyEngine \<Rightarrow> string \<Rightarrow> string \<Rightarrow> string \<Rightarrow> PolicyEngine \<times> action_error option" where
  "AllowToolForConnector e toolName connector reason =
     on_store e None (\<lambda>db. allow_row db ''tool'' (toolConnectorTarget toolName connector) [] reason)"

text \<open>\<open>PolicyStableID\<close>, with the SHA-256 of the path as a parameter.\<close>

definition hex_digit :: "nat \<Rightarrow> char" where
  "hex_digit d = ''0123456789abcdef'' ! d"

definition hex_EncodeToString :: "nat list \<Rightarrow> string" where
  "hex_EncodeToString bs = concat (map (\<lambda>b. [hex_digit (b div 16 mod 16), hex_digit (b mod 16)]) bs)"

definition PolicyStableID :: "(string \<Rightarrow> nat list) \<Rightarrow> string \<Rightarrow> string" where
  "PolicyStableID sha256 policyDir = (if policyDir = [] then ''none'' else hex_EncodeToString (take 8 (sha256 policyDir)))"

subsection \<open>Scoped settings\<close>

text \<open>The decision for a scope: its own non-empty value, else the global one.\<close>

definition most_specific :: "(string \<Rightarrow> string option) \<Rightarrow> string \<Rightarrow> string option" where
  "most_specific m c = (if c \<noteq> [] \<and> coalesce (m c) \<noteq> [] then m c else m [])"

text \<open>
  What the engine relies on of a store of scoped values: a successful write sets exactly the addressed scope, a
  successful clear removes exactly it, and a failed statement changes nothing.
\<close>

locale scoped_setting =
  fixes inv :: "'db \<Rightarrow> bool"
    and look :: "'db \<Rightarrow> string \<Rightarrow> string option"
    and put :: "'db \<Rightarrow> string \<Rightarrow> string \<Rightarrow> string \<Rightarrow> 'db \<times> 'e option"
    and del :: "'db \<Rightarrow> string \<Rightarrow> 'db \<times> 'e option"
  assumes put_law: "put db c v reason = (db', e) \<Longrightarrow> inv db \<Longrightarrow>
      inv db' \<and> look db' = (if e = None then (look db)(c := Some v) else look db)"
    and del_law: "del db c = (db', e) \<Longrightarrow> inv db \<Longrightarrow>
      inv db' \<and> look db' = (if e = None then (look db)(c := None) else look db)"
begin

lemma put_decides:
  assumes "put db c v reason = (db', None)" and "inv db" and "v \<noteq> []"
  shows "most_specific (look db') c = Some v"
  using put_law [OF assms(1,2)] assms(3) by (simp add: most_specific_def coalesce_def)

lemma put_scope_local:
  assumes "put db c v reason = (db', e)" and "inv db" and "c \<noteq> []" and "c' \<noteq> c"
  shows "most_specific (look db') c' = most_specific (look db) c'"
  using put_law [OF assms(1,2)] assms(3,4) by (auto simp: most_specific_def)

lemma put_global_reach:
  assumes "put db [] v reason = (db', None)" and "inv db" and "v \<noteq> []"
  shows "most_specific (look db') c = (if c \<noteq> [] \<and> coalesce (look db c) \<noteq> [] then look db c else Some v)"
  using put_law [OF assms(1,2)] assms(3) by (auto simp: most_specific_def coalesce_def)

lemma del_falls_back:
  assumes "del db c = (db', None)" and "inv db"
  shows "most_specific (look db') c = (if c = [] then None else look db [])"
  using del_law [OF assms] by (auto simp: most_specific_def coalesce_def)

lemma put_del_restores:
  assumes "put db c v reason = (db1, None)" and "del db1 c = (db2, None)" and "inv db"
  shows "inv db2 \<and> look db2 = (look db)(c := None)"
proof -
  have 1: "inv db1" "look db1 = (look db)(c := Some v)" using put_law [OF assms(1,3)] by simp_all
  show ?thesis using del_law [OF assms(2) 1(1)] 1(2) by simp
qed

end

lemma column_put:
  assumes "SetActionFieldForConnector db t n c field v reason = (db', e)" and "action_inv db"
  shows "action_inv db' \<and> (\<lambda>c. cell db' (t, n, c) field) =
    (if e = None then (\<lambda>c. cell db (t, n, c) field)(c := Some v) else (\<lambda>c. cell db (t, n, c) field))"
  using set_field_effect [OF assms] by (cases e) (auto simp: fun_eq_iff)

lemma column_del:
  assumes "ClearActionFieldForConnector db t n c field = (db', e)" and "action_inv db"
  shows "action_inv db' \<and> (\<lambda>c. cell db' (t, n, c) field) =
    (if e = None then (\<lambda>c. cell db (t, n, c) field)(c := None) else (\<lambda>c. cell db (t, n, c) field))"
  using clear_field_effect [OF assms] by (cases e) (auto simp: fun_eq_iff)

interpretation column: scoped_setting action_inv "\<lambda>db c. cell db (t, n, c) field"
  "\<lambda>db c v reason. SetActionFieldForConnector db t n c field v reason"
  "\<lambda>db c. ClearActionFieldForConnector db t n c field" for t n field
  by unfold_locales (rule column_put column_del, assumption, assumption)+

text \<open>The name encoding separates the connectors of a tool.\<close>

lemma toolConnectorTarget_inj: "toolConnectorTarget tool c = toolConnectorTarget tool c' \<longleftrightarrow> c = c'"
proof
  assume eq: "toolConnectorTarget tool c = toolConnectorTarget tool c'"
  then have "length (toolConnectorTarget tool c) = length (toolConnectorTarget tool c')" by simp
  then have "(c = []) = (c' = [])" by (auto simp: toolConnectorTarget_def split: if_splits)
  with eq show "c = c'" by (auto simp: toolConnectorTarget_def split: if_splits)
qed simp

abbreviation tool_key :: "string \<Rightarrow> string \<Rightarrow> string \<times> string \<times> string" where
  "tool_key tool c \<equiv> (''tool'', toolConnectorTarget tool c, [])"

lemma tool_put:
  assumes "SetActionField db ''tool'' (toolConnectorTarget tool c) field v reason = (db', e)" and "action_inv db"
  shows "action_inv db' \<and> (\<lambda>c. cell db' (tool_key tool c) field) =
    (if e = None then (\<lambda>c. cell db (tool_key tool c) field)(c := Some v) else (\<lambda>c. cell db (tool_key tool c) field))"
  using set_field_effect [OF assms(1) [unfolded SetActionField_def] assms(2)]
  by (cases e) (auto simp: fun_eq_iff toolConnectorTarget_inj)

lemma tool_del:
  assumes "ClearActionField db ''tool'' (toolConnectorTarget tool c) field = (db', e)" and "action_inv db"
  shows "action_inv db' \<and> (\<lambda>c. cell db' (tool_key tool c) field) =
    (if e = None then (\<lambda>c. cell db (tool_key tool c) field)(c := None) else (\<lambda>c. cell db (tool_key tool c) field))"
  using clear_field_effect [OF assms(1) [unfolded ClearActionField_def] assms(2)]
  by (cases e) (auto simp: fun_eq_iff toolConnectorTarget_inj)

interpretation tools: scoped_setting action_inv "\<lambda>db c. cell db (tool_key tool c) field"
  "\<lambda>db c v reason. SetActionField db ''tool'' (toolConnectorTarget tool c) field v reason"
  "\<lambda>db c. ClearActionField db ''tool'' (toolConnectorTarget tool c) field" for tool field
  by unfold_locales (rule tool_put tool_del, assumption, assumption)+

subsection \<open>Queries\<close>

lemma unmarshal_field:
  assumes "field \<in> action_fields"
  shows "actionFieldValue (unmarshal_state j) field = Inr (coalesce (json_get field j), coalesce (json_get field j) \<noteq> [])"
  using assms by (auto simp: actionFieldValue_def unmarshal_state_def json_get_def)

lemma field_of_row:
  assumes "actionFieldForConnector db t n c field = (db', r)" and "field \<in> action_fields"
  shows "db_actions db' = db_actions db \<and>
    (r = Inl StoreFailed \<or> r = Inr (coalesce (cell db (t, n, c) field), coalesce (cell db (t, n, c) field) \<noteq> []))"
proof -
  obtain q where q: "GetActionForConnector db t n c = (db', q)"
    and r: "r = (case q of Inl err \<Rightarrow> Inl err | Inr None \<Rightarrow> Inr ([], False) | Inr (Some entry) \<Rightarrow> actionFieldValue (ae_Actions entry) field)"
    using assms(1) by (auto simp: actionFieldForConnector_def split: prod.splits sum.splits option.splits)
  have "db_actions db' = db_actions db \<and> (q = Inl StoreFailed \<or> q = Inr (map_option row_entry (row_at (db_actions db) (t, n, c))))"
    using query_effect [OF q [unfolded GetActionForConnector_def]] by (simp add: row_at_def)
  then show ?thesis
    using r unmarshal_field [OF assms(2)]
    by (cases "row_at (db_actions db) (t, n, c)") (auto simp: cell_def row_entry_def coalesce_def)
qed

lemma action_field_global: "actionField db t n field = actionFieldForConnector db t n [] field"
  by (simp add: actionField_def actionFieldForConnector_def store_GetAction_def)

lemma cell_rows: "db_actions db' = db_actions db \<Longrightarrow> cell db' = cell db \<and> action_inv db' = action_inv db"
  by (simp add: cell_def action_inv_def fun_eq_iff)

text \<open>
  A scoped query answers \<open>most_specific\<close>, whatever the scope is stored as: \<open>key c\<close> is the key of scope \<open>c\<close>.
\<close>

lemma scoped_query:
  assumes "(if c \<noteq> [] then scoped_or_global (actionFieldForConnector db (fst (key c)) (fst (snd (key c))) (snd (snd (key c))) field) v
      (\<lambda>db. HasAction db t n field v) else HasAction db t n field v) = (db', r)"
    and "key [] = (t, n, [])" and "action_inv db" and "validateActionFieldAndValue field v = None"
  shows "db_actions db' = db_actions db \<and>
    (r = Inl StoreFailed \<or> r = Inr (most_specific (\<lambda>c. cell db (key c) field) c = Some v))"
proof -
  have global: "db_actions db2 = db_actions db1 \<and> (x = Inl StoreFailed \<or> x = Inr (cell db1 (t, n, []) field = Some v))"
    if "HasAction db1 t n field v = (db2, x)" "action_inv db1" for db1 db2 x
    using has_action_result [of db1 t n "[]"] that assms(4) by (simp add: HasAction_def)
  show ?thesis
  proof (cases "c = []")
    case True
    then show ?thesis using global assms(1-3) by (simp add: most_specific_def)
  next
    case False
    let ?x = "coalesce (cell db (key c) field)"
    obtain db1 s where s: "actionFieldForConnector db (fst (key c)) (fst (snd (key c))) (snd (snd (key c))) field = (db1, s)" by fastforce
    have row: "db_actions db1 = db_actions db \<and> (s = Inl StoreFailed \<or> s = Inr (?x, ?x \<noteq> []))"
      using field_of_row [OF s field_ok [OF assms(4)]] by simp
    have same: "cell db1 = cell db" "action_inv db1" using cell_rows [of db1 db] row assms(3) by simp_all
    have ans: "scoped_or_global (db1, s) v (\<lambda>db. HasAction db t n field v) = (db', r)" using assms(1) False s by simp
    consider "s = Inl StoreFailed" | "s = Inr (?x, ?x \<noteq> [])" "?x \<noteq> []" | "s = Inr (?x, ?x \<noteq> [])" "?x = []" using row by blast
    then show ?thesis
    proof cases
      case 1
      then show ?thesis using ans row by (auto simp: scoped_or_global_def)
    next
      case 2
      have "most_specific (\<lambda>c. cell db (key c) field) c = cell db (key c) field" using 2 False by (simp add: most_specific_def)
      moreover have "(?x = v) = (cell db (key c) field = Some v)" using 2 by (cases "cell db (key c) field") (auto simp: coalesce_def)
      ultimately show ?thesis using ans row 2 by (auto simp: scoped_or_global_def)
    next
      case 3
      then have h: "HasAction db1 t n field v = (db', r)" using ans by (simp add: scoped_or_global_def)
      have "most_specific (\<lambda>c. cell db (key c) field) c = cell db (t, n, []) field" using 3 assms(2) by (simp add: most_specific_def)
      then show ?thesis using global [OF h same(2)] row same(1) by simp
    qed
  qed
qed

lemma on_store_Some: "on_store (Some db) d f = (e', r) \<longleftrightarrow> (\<exists>db'. f db = (db', r) \<and> e' = Some db')"
  by (auto simp: on_store_def split: prod.splits)

lemma action_values_valid:
  "validateActionFieldAndValue ''install'' ''block'' = None" "validateActionFieldAndValue ''install'' ''allow'' = None"
  "validateActionFieldAndValue ''file'' ''quarantine'' = None" "validateActionFieldAndValue ''runtime'' ''disable'' = None"
  by code_simp+

lemma column_query:
  assumes "(let global = (\<lambda>db. HasAction db t n field v)
      in if c \<noteq> [] then scoped_or_global (actionFieldForConnector db t n c field) v global else global db) = (db', r)"
    and "action_inv db" and "validateActionFieldAndValue field v = None"
  shows "db_actions db' = db_actions db \<and> (r = Inl StoreFailed \<or> r = Inr (most_specific (\<lambda>c. cell db (t, n, c) field) c = Some v))"
  by (rule scoped_query [where key = "\<lambda>c. (t, n, c)", OF _ refl assms(2,3)]) (use assms(1) in \<open>simp add: Let_def split: if_splits\<close>)

lemma tool_query:
  assumes "(let global = (\<lambda>db. HasAction db ''tool'' tool field v)
      in if c \<noteq> [] then scoped_or_global (actionField db ''tool'' (toolConnectorTarget tool c) field) v global else global db) = (db', r)"
    and "action_inv db" and "validateActionFieldAndValue field v = None"
  shows "db_actions db' = db_actions db \<and> (r = Inl StoreFailed \<or> r = Inr (most_specific (\<lambda>c. cell db (tool_key tool c) field) c = Some v))"
proof (rule scoped_query [where key = "tool_key tool" and t = "''tool''" and n = tool, OF _ _ assms(2,3)])
  show "tool_key tool [] = (''tool'', tool, [])" by (simp add: toolConnectorTarget_def)
qed (use assms(1) in \<open>simp add: Let_def action_field_global split: if_splits\<close>)

text \<open>The four connector queries and the two tool queries as one function of the dimension they ask for.\<close>

datatype decision = Blocked | Allowed | Quarantined | Disabled

fun ask_connector :: "decision \<Rightarrow> PolicyEngine \<Rightarrow> string \<Rightarrow> string \<Rightarrow> string \<Rightarrow> PolicyEngine \<times> (action_error + bool)" where
  "ask_connector Blocked = IsBlockedForConnector"
| "ask_connector Allowed = IsAllowedForConnector"
| "ask_connector Quarantined = IsQuarantinedForConnector"
| "ask_connector Disabled = IsDisabledForConnector"

fun decision_cell :: "decision \<Rightarrow> string \<times> string" where
  "decision_cell Blocked = (''install'', ''block'')"
| "decision_cell Allowed = (''install'', ''allow'')"
| "decision_cell Quarantined = (''file'', ''quarantine'')"
| "decision_cell Disabled = (''runtime'', ''disable'')"

text \<open>
  C16. Every connector query of the policy engine answers the most specific entry: the connector's own value in the
  dimension asked for decides when it has one, the global entry otherwise.  The only other outcome is an error of the
  store, a query changes no row, and without a store the answer is no.
\<close>

theorem connector_query_most_specific:
  assumes "ask_connector d e t n c = (e', r)" and "\<forall>db. e = Some db \<longrightarrow> action_inv db" and "decision_cell d = (field, v)"
  shows "case e of
      None \<Rightarrow> e' = None \<and> r = Inr False
    | Some db \<Rightarrow> (\<exists>db'. e' = Some db' \<and> db_actions db' = db_actions db) \<and>
        (r = Inl StoreFailed \<or> r = Inr (most_specific (\<lambda>c. cell db (t, n, c) field) c = Some v))"
proof (cases e)
  case None
  then show ?thesis
    using assms(1) by (cases d) (simp_all add: IsBlockedForConnector_def IsAllowedForConnector_def
        IsQuarantinedForConnector_def IsDisabledForConnector_def on_store_def)
next
  case (Some db)
  have valid: "validateActionFieldAndValue field v = None"
    using assms(3) action_values_valid by (cases d) auto
  obtain db' where "(let global = (\<lambda>db. HasAction db t n field v)
      in if c \<noteq> [] then scoped_or_global (actionFieldForConnector db t n c field) v global else global db) = (db', r)"
    and e': "e' = Some db'"
    using assms(1,3) Some by (cases d) (auto simp only: ask_connector.simps decision_cell.simps prod.inject
        IsBlockedForConnector_def IsAllowedForConnector_def IsQuarantinedForConnector_def IsDisabledForConnector_def on_store_Some)
  from column_query [OF this(1) _ valid] show ?thesis using assms(2) Some e' by simp
qed

definition policy_db :: "ActionRow list \<Rightarrow> ActionDB" where
  "policy_db rows = \<lparr>db_actions = rows, db_faults = [], db_times = [5, 6, 7, 8], db_ids = [''a'', ''b'', ''c'', ''d'']\<rparr>"

definition policy_row :: "string \<Rightarrow> string \<Rightarrow> ActionRow" where
  "policy_row c v = \<lparr>ar_ID = ''r'', ar_TargetType = ''mcp'', ar_TargetName = ''files'', ar_SourcePath = None,
     ar_Actions = empty_json\<lparr>aj_Install := Some v\<rparr>, ar_Reason = [], ar_UpdatedAt = 1, ar_Connector = c\<rparr>"

theorem connector_query_most_specific_witness:
  "snd (IsBlockedForConnector (Some (policy_db [policy_row [] ''block'', policy_row ''codex'' ''allow''])) ''mcp'' ''files'' ''codex'') = Inr False \<and>
   most_specific (\<lambda>c. cell (policy_db [policy_row [] ''block'', policy_row ''codex'' ''allow'']) (''mcp'', ''files'', c) ''install'') ''codex'' \<noteq> Some ''block''"
proof -
  let ?db = "policy_db [policy_row [] ''block'', policy_row ''codex'' ''allow'']"
  have r: "snd (IsBlockedForConnector (Some ?db) ''mcp'' ''files'' ''codex'') = Inr False" by code_simp
  have inv: "action_inv ?db" unfolding action_inv_def by code_simp
  have q: "ask_connector Blocked (Some ?db) ''mcp'' ''files'' ''codex'' =
      (fst (IsBlockedForConnector (Some ?db) ''mcp'' ''files'' ''codex''), Inr False)"
    using r by (simp add: prod_eq_iff)
  have "Inr False = (Inr (most_specific (\<lambda>c. cell ?db (''mcp'', ''files'', c) ''install'') ''codex'' = Some ''block'') :: action_error + bool)"
    using connector_query_most_specific [OF q, of "''install''" "''block''"] inv by simp
  with r show ?thesis by simp
qed

subsection \<open>Blocking and allowing\<close>

lemma upsert_others:
  assumes "row_key new = k" and "\<And>r. row_key (upd r) = row_key r"
  shows "filter (\<lambda>r. row_key r \<noteq> k) (upsert new upd rows) = filter (\<lambda>r. row_key r \<noteq> k) rows"
proof -
  have "filter (\<lambda>r. row_key r \<noteq> k) (map (\<lambda>r. if row_key r = k then upd r else r) rows) = filter (\<lambda>r. row_key r \<noteq> k) rows"
    by (induction rows) (simp_all add: assms(2))
  then show ?thesis using assms(1) by (simp add: upsert_def)
qed

lemma set_field_others:
  assumes "SetActionFieldForConnector db t n c field v reason = (db', e)"
  shows "filter (\<lambda>r. row_key r \<noteq> (t, n, c)) (db_actions db') = filter (\<lambda>r. row_key r \<noteq> (t, n, c)) (db_actions db)"
  using set_field_rows [OF assms] upsert_others by (elim disjE exE conjE) simp_all

lemma clear_field_others:
  assumes "ClearActionFieldForConnector db t n c field = (db', e)"
  shows "filter (\<lambda>r. row_key r \<noteq> (t, n, c)) (db_actions db') = filter (\<lambda>r. row_key r \<noteq> (t, n, c)) (db_actions db)"
proof (cases "validateActionFieldAndValue field []")
  case (Some x)
  then show ?thesis using assms by (simp add: ClearActionFieldForConnector_def)
next
  case None
  let ?others = "\<lambda>db. filter (\<lambda>r. row_key r \<noteq> (t, n, c)) (db_actions db)"
  obtain now db1 where d: "time_Now db = (now, db1)" by fastforce
  let ?upd = "\<lambda>r. if row_key r = (t, n, c) then r\<lparr>ar_Actions := json_put field None (ar_Actions r), ar_UpdatedAt := now\<rparr> else r"
  let ?del = "\<lambda>r. \<not> (row_key r = (t, n, c) \<and> ar_Actions r = empty_json)"
  obtain db2 e2 where x: "exec db1 (map ?upd) = (db2, e2)" by fastforce
  obtain db3 e3 where y: "exec db2 (filter ?del) = (db3, e3)" by fastforce
  have "filter (\<lambda>r. row_key r \<noteq> (t, n, c)) (map ?upd rows) = filter (\<lambda>r. row_key r \<noteq> (t, n, c)) rows" for rows
    by (induction rows) (simp_all add: row_key_def)
  then have "?others db2 = ?others db" using exec_effect [OF x] draw_rows(2) [of db] d by simp
  moreover have "filter (\<lambda>r. row_key r \<noteq> (t, n, c)) (filter ?del rows) = filter (\<lambda>r. row_key r \<noteq> (t, n, c)) rows" for rows
    by (induction rows) auto
  then have "?others db3 = ?others db2" using exec_effect [OF y] by simp
  moreover have "db' = db2 \<or> db' = db3"
    using assms None d x y by (cases e2) (simp_all add: ClearActionFieldForConnector_def)
  ultimately show ?thesis by auto
qed

text \<open>
  C33. Blocking a target for a connector that has no install decision of its own and unblocking it again restores the decisions:
  in between the connector's decision is block and no other connector's decision has changed; afterwards the install, file
  and runtime fields of every entry read as they did before, and every row but the one of this target and connector is
  the same in all its columns.  (Of that one row the reason and the time of the change are the new ones.)
\<close>

theorem block_unblock_roundtrip:
  assumes "BlockForConnector (Some db) t n c reason = (e1, None)" and "UnblockForConnector e1 t n c = (e2, None)"
    and "action_inv db" and "cell db (t, n, c) ''install'' = None"
  shows "\<exists>db1 db2. e1 = Some db1 \<and> e2 = Some db2 \<and>
    most_specific (\<lambda>c. cell db1 (t, n, c) ''install'') c = Some ''block'' \<and>
    (c \<noteq> [] \<longrightarrow> (\<forall>c'. c' \<noteq> c \<longrightarrow>
      most_specific (\<lambda>c. cell db1 (t, n, c) ''install'') c' = most_specific (\<lambda>c. cell db (t, n, c) ''install'') c')) \<and>
    cell db2 = cell db \<and>
    filter (\<lambda>r. row_key r \<noteq> (t, n, c)) (db_actions db2) = filter (\<lambda>r. row_key r \<noteq> (t, n, c)) (db_actions db) \<and> action_inv db2"
proof -
  obtain db1 where 1: "SetActionFieldForConnector db t n c ''install'' ''block'' reason = (db1, None)" "e1 = Some db1"
    using assms(1) by (auto simp: BlockForConnector_def on_store_Some)
  obtain db2 where 2: "ClearActionFieldForConnector db1 t n c ''install'' = (db2, None)" "e2 = Some db2"
    using assms(2) 1(2) by (auto simp: UnblockForConnector_def on_store_Some)
  have set: "action_inv db1" "\<And>k f. cell db1 k f = (if k = (t, n, c) \<and> f = ''install'' then Some ''block'' else cell db k f)"
    using set_field_cells [OF 1(1) assms(3)] by simp_all
  have "cell db2 k f = cell db k f" for k f
    using clear_field_cells(2) [OF 2(1) set(1)] set(2) assms(4) by simp
  moreover have "action_inv db2" by (rule clear_field_cells(1) [OF 2(1) set(1)])
  moreover have "most_specific (\<lambda>c. cell db1 (t, n, c) ''install'') c = Some ''block''"
    using column.put_decides [OF 1(1) assms(3)] by simp
  moreover note set_field_others [OF 1(1)] clear_field_others [OF 2(1)]
  ultimately show ?thesis
    using column.put_scope_local [OF 1(1) assms(3)] 1(2) 2(2) by (intro exI [of _ db1] exI [of _ db2]) (simp add: fun_eq_iff)
qed

theorem block_unblock_roundtrip_witness:
  "let db = policy_db [policy_row [] ''allow''];
       e1 = fst (BlockForConnector (Some db) ''mcp'' ''files'' ''codex'' ''manual'');
       e2 = fst (UnblockForConnector e1 ''mcp'' ''files'' ''codex'')
   in \<exists>db2. e2 = Some db2 \<and> cell db2 = cell db"
proof -
  let ?db = "policy_db [policy_row [] ''allow'']"
  let ?b = "BlockForConnector (Some ?db) ''mcp'' ''files'' ''codex'' ''manual''"
  let ?u = "UnblockForConnector (fst ?b) ''mcp'' ''files'' ''codex''"
  have "snd ?b = None" "snd ?u = None" by code_simp+
  then have b: "?b = (fst ?b, None)" and u: "?u = (fst ?u, None)" by (simp_all add: prod_eq_iff)
  have "action_inv ?db" "cell ?db (''mcp'', ''files'', ''codex'') ''install'' = None" unfolding action_inv_def by code_simp+
  from block_unblock_roundtrip [OF b u this] show ?thesis unfolding Let_def by blast
qed

lemma exec_error: "exec db f = (db', Some e) \<Longrightarrow> e = StoreFailed"
  by (auto simp: exec_def Let_def split: prod.splits if_splits)

lemma set_field_error:
  "SetActionFieldForConnector db t n c field v reason = (db', Some e) \<Longrightarrow> validateActionFieldAndValue field v = None \<Longrightarrow> e = StoreFailed"
  by (auto simp: SetActionFieldForConnector_def split: prod.splits dest: exec_error)

text \<open>
  Allowing a target for a connector ends in one of three ways, and never touches another row.  Success: the
  install field is allow and the file and runtime fields are gone, so no earlier quarantine or disable survives the
  allow.  A failed first statement: nothing changed.  A partial cleanup: the allow is in force, and a field that could
  not be cleared keeps its value, with one error reported for each failed clear.
\<close>

theorem allow_outcomes:
  assumes "AllowForConnector (Some db) t n c reason = (e', res)" and "action_inv db"
  shows "\<exists>db'. e' = Some db' \<and> action_inv db' \<and> (\<forall>k f. k \<noteq> (t, n, c) \<longrightarrow> cell db' k f = cell db k f) \<and>
    (case res of
       None \<Rightarrow> cell db' (t, n, c) ''install'' = Some ''allow'' \<and> cell db' (t, n, c) ''file'' = None \<and> cell db' (t, n, c) ''runtime'' = None
     | Some (PartialCleanup errs) \<Rightarrow> errs \<noteq> [] \<and> cell db' (t, n, c) ''install'' = Some ''allow'' \<and>
         (\<forall>f \<in> {''file'', ''runtime''}. cell db' (t, n, c) f = None \<or> cell db' (t, n, c) f = cell db (t, n, c) f) \<and>
         card {f \<in> {''file'', ''runtime''}. cell db' (t, n, c) f \<noteq> None} \<le> length errs
     | Some err \<Rightarrow> err = StoreFailed \<and> cell db' = cell db)"
proof -
  obtain db' where a: "allow_row db t n c reason = (db', res)" and e': "e' = Some db'"
    using assms(1) by (auto simp: AllowForConnector_def on_store_Some)
  obtain db1 r1 where 1: "SetActionFieldForConnector db t n c ''install'' ''allow'' reason = (db1, r1)" by fastforce
  show ?thesis
  proof (cases r1)
    case (Some err)
    then have "db' = db1" "res = Some err" using a 1 by (simp_all add: allow_row_def)
    moreover have "err = StoreFailed" using set_field_error [OF _ action_values_valid(2)] 1 Some by simp
    ultimately show ?thesis using set_field_effect [OF 1 assms(2)] Some e' by (intro exI [of _ db']) simp
  next
    case None
    obtain db2 r2 where 2: "ClearActionFieldForConnector db1 t n c ''file'' = (db2, r2)" by fastforce
    obtain db3 r3 where 3: "ClearActionFieldForConnector db2 t n c ''runtime'' = (db3, r3)" by fastforce
    let ?errs = "(case r2 of Some x \<Rightarrow> [x] | None \<Rightarrow> []) @ (case r3 of Some x \<Rightarrow> [x] | None \<Rightarrow> [])"
    have res: "db' = db3" "res = (if ?errs \<noteq> [] then Some (PartialCleanup ?errs) else None)"
      using a 1 2 3 None by (simp_all add: allow_row_def Let_def)
    have s1: "action_inv db1" "\<And>k f. cell db1 k f = (if k = (t, n, c) \<and> f = ''install'' then Some ''allow'' else cell db k f)"
      using set_field_cells [OF 1 assms(2)] None by simp_all
    have s2: "action_inv db2" "\<And>k f. cell db2 k f = (if k = (t, n, c) \<and> f = ''file'' \<and> r2 = None then None else cell db1 k f)"
      using clear_field_cells [OF 2 s1(1)] by (simp_all add: conj_ac)
    have s3: "action_inv db3" "\<And>k f. cell db3 k f = (if k = (t, n, c) \<and> f = ''runtime'' \<and> r3 = None then None else cell db2 k f)"
      using clear_field_cells [OF 3 s2(1)] by (simp_all add: conj_ac)
    have cells: "cell db3 (t, n, c) ''install'' = Some ''allow''"
      "cell db3 (t, n, c) ''file'' = (if r2 = None then None else cell db (t, n, c) ''file'')"
      "cell db3 (t, n, c) ''runtime'' = (if r3 = None then None else cell db (t, n, c) ''runtime'')"
      "\<And>k f. k \<noteq> (t, n, c) \<Longrightarrow> cell db3 k f = cell db k f"
      using s1(2) s2(2) s3(2) by simp_all
    have "{f \<in> {''file'', ''runtime''}. cell db3 (t, n, c) f \<noteq> None} \<subseteq>
        (if r2 = None then {} else {''file''}) \<union> (if r3 = None then {} else {''runtime''})"
      using cells by auto
    then have "card {f \<in> {''file'', ''runtime''}. cell db3 (t, n, c) f \<noteq> None} \<le>
        card ((if r2 = None then {} else {''file''}) \<union> (if r3 = None then {} else {''runtime''}))"
      by (intro card_mono) auto
    also have "\<dots> \<le> length ?errs" by (cases r2; cases r3) auto
    finally show ?thesis using res cells s3(1) e' by (cases r2; cases r3) auto
  qed
qed

theorem allow_outcomes_witness:
  "let db = policy_db [policy_row [] ''block'']\<lparr>db_faults := [False, True]\<rparr>;
       e = fst (AllowForConnector (Some db) ''mcp'' ''files'' [] ''manual'')
   in snd (AllowForConnector (Some db) ''mcp'' ''files'' [] ''manual'') = Some (PartialCleanup [StoreFailed]) \<and>
     (\<exists>db'. e = Some db' \<and> cell db' (''mcp'', ''files'', []) ''install'' = Some ''allow'')"
proof -
  let ?db = "policy_db [policy_row [] ''block'']\<lparr>db_faults := [False, True]\<rparr>"
  let ?a = "AllowForConnector (Some ?db) ''mcp'' ''files'' [] ''manual''"
  have r: "snd ?a = Some (PartialCleanup [StoreFailed])" by code_simp
  then have a: "?a = (fst ?a, Some (PartialCleanup [StoreFailed]))" by (simp add: prod_eq_iff)
  have "action_inv ?db" unfolding action_inv_def by code_simp
  from allow_outcomes [OF a this] r show ?thesis unfolding Let_def by auto
qed

text \<open>
  Blocking a tool for a connector decides that connector and no other one; blocking it globally decides every
  connector that has no install entry of its own.  The key \<open>@connector/tool\<close> keeps the connectors of a tool apart.
\<close>

theorem tool_block_scope:
  assumes "BlockToolForConnector (Some db) tool c reason = (e1, None)" and "action_inv db"
    and "IsToolBlockedForConnector e1 tool c' = (e2, Inr b)"
  shows "b = (c' = c \<or> c = [] \<and> coalesce (cell db (tool_key tool c') ''install'') = [] \<or>
    most_specific (\<lambda>c. cell db (tool_key tool c) ''install'') c' = Some ''block'')"
proof -
  obtain db1 where 1: "SetActionField db ''tool'' (toolConnectorTarget tool c) ''install'' ''block'' reason = (db1, None)" "e1 = Some db1"
    using assms(1) by (auto simp: BlockToolForConnector_def on_store_Some)
  have "action_inv db1" using tool_put [OF 1(1) assms(2)] by simp
  moreover obtain db2 where "(let global = (\<lambda>db. HasAction db ''tool'' tool ''install'' ''block'')
      in if c' \<noteq> [] then scoped_or_global (actionField db1 ''tool'' (toolConnectorTarget tool c') ''install'') ''block'' global
        else global db1) = (db2, Inr b)"
    using assms(3) 1(2) by (auto simp only: IsToolBlockedForConnector_def on_store_Some)
  ultimately have b: "b = (most_specific (\<lambda>c. cell db1 (tool_key tool c) ''install'') c' = Some ''block'')"
    using tool_query [OF _ _ action_values_valid(1)] by blast
  have look: "(\<lambda>c. cell db1 (tool_key tool c) ''install'') = (\<lambda>c. cell db (tool_key tool c) ''install'')(c := Some ''block'')"
    using tool_put [OF 1(1) assms(2)] by simp
  show ?thesis unfolding b look by (auto simp: most_specific_def coalesce_def)
qed

theorem tool_block_scope_witness:
  "snd (IsToolBlockedForConnector (fst (BlockToolForConnector (Some (policy_db [])) ''shell'' ''codex'' ''r'')) ''shell'' ''cursor'') = Inr False \<and>
   most_specific (\<lambda>c. cell (policy_db []) (tool_key ''shell'' c) ''install'') ''cursor'' \<noteq> Some ''block''"
proof -
  let ?b = "BlockToolForConnector (Some (policy_db [])) ''shell'' ''codex'' ''r''"
  let ?q = "IsToolBlockedForConnector (fst ?b) ''shell'' ''cursor''"
  have b: "snd ?b = None" and q: "snd ?q = Inr False" by code_simp+
  have "action_inv (policy_db [])" unfolding action_inv_def by code_simp
  with b q show ?thesis
    using tool_block_scope [of "policy_db []" "''shell''" "''codex''" "''r''" "fst ?b" "''cursor''" "fst ?q" False]
    by (auto simp: prod_eq_iff)
qed

end
