(* ===== verification/Policy_Fallback.thy ===== *)
theory Policy_Fallback
  imports Go_Prelude
begin

text \<open>
  The built-in admission policy of \<^verbatim>\<open>internal/policy/fallback.go\<close>, used when no Rego engine is
  configured or its evaluation fails.  A Go map that is only looked up is a partial function; a map
  that the code ranges over is the list of its entries in the order of the iteration, so that the
  theorems hold for every order.  Reading the file and decoding its JSON are arguments of the model.

  \<open>admission_table\<close> gives the verdict of every input by mutually exclusive conditions, and
  \<open>effective_action_merge\<close> the action a loaded profile takes for a severity.
\<close>

record fallbackAction =
  fa_Runtime :: string
  fa_File :: string
  fa_Install :: string

record firstPartyEntry =
  fp_Reason :: string
  fp_SourcePathContains :: "string list"

record FallbackProfile =
  pf_AllowListBypassScan :: bool
  pf_ScanOnInstall :: bool
  pf_Actions :: "string \<rightharpoonup> fallbackAction"
  pf_ScannerOverrides :: "string \<rightharpoonup> (string \<rightharpoonup> fallbackAction)"
  pf_FirstPartyAllow :: "string \<rightharpoonup> firstPartyEntry"

record ListEntry =
  le_TargetType :: string
  le_TargetName :: string
  le_Reason :: string

record FindingInput =
  fn_Severity :: string
  fn_Scanner :: string
  fn_Title :: string

record ScanResultInput =
  sri_MaxSeverity :: string
  sri_TotalFindings :: int
  sri_ScannerName :: string
  sri_Findings :: "FindingInput list"
  sri_ExitCode :: int
  sri_ScanError :: string

record AdmissionInput =
  ai_TargetType :: string
  ai_TargetName :: string
  ai_Path :: string
  ai_BlockList :: "ListEntry list"
  ai_AllowList :: "ListEntry list"
  ai_ScanResult :: "ScanResultInput option"

record AdmissionOutput =
  ao_Verdict :: string
  ao_Reason :: string
  ao_FileAction :: string
  ao_InstallAction :: string
  ao_RuntimeAction :: string

definition firstPartyKey :: "string \<Rightarrow> string \<Rightarrow> string" where
  "firstPartyKey targetType targetName = targetType @ [CHR 0x00] @ targetName"

text \<open>The dash of the reason texts is U+2014 in UTF-8.\<close>

definition em_dash :: string where
  "em_dash = [CHR 0xE2, CHR 0x80, CHR 0x94]"

definition block_all :: fallbackAction where
  "block_all = \<lparr>fa_Runtime = ''block'', fa_File = ''quarantine'', fa_Install = ''block''\<rparr>"

definition allow_all :: fallbackAction where
  "allow_all = \<lparr>fa_Runtime = ''allow'', fa_File = ''none'', fa_Install = ''none''\<rparr>"

definition defaultFallbackProfile :: FallbackProfile where
  "defaultFallbackProfile =
     \<lparr>pf_AllowListBypassScan = True, pf_ScanOnInstall = True,
      pf_Actions = [''CRITICAL'' \<mapsto> block_all, ''HIGH'' \<mapsto> block_all, ''MEDIUM'' \<mapsto> allow_all,
        ''LOW'' \<mapsto> allow_all, ''INFO'' \<mapsto> allow_all],
      pf_ScannerOverrides =
        [''mcp'' \<mapsto> [''MEDIUM'' \<mapsto> block_all,
           ''LOW'' \<mapsto> \<lparr>fa_Runtime = ''block'', fa_File = ''none'', fa_Install = ''none''\<rparr>],
         ''plugin'' \<mapsto> [''HIGH'' \<mapsto> block_all, ''MEDIUM'' \<mapsto> allow_all]],
      pf_FirstPartyAllow =
        [firstPartyKey ''plugin'' ''defenseclaw'' \<mapsto>
           \<lparr>fp_Reason = ''first-party DefenseClaw plugin'',
            fp_SourcePathContains = [''.defenseclaw'', ''extensions/defenseclaw'', ''.config/amp/plugins/defenseclaw.ts'']\<rparr>,
         firstPartyKey ''skill'' ''codeguard'' \<mapsto>
           \<lparr>fp_Reason = ''first-party DefenseClaw skill'',
            fp_SourcePathContains = [''.defenseclaw'', ''workspace/skills/codeguard'', ''skills/codeguard'']\<rparr>]\<rparr>"

subsection \<open>Loading a profile\<close>

record firstPartyPayload =
  fpp_TargetType :: string
  fpp_TargetName :: string
  fpp_Reason :: string
  fpp_SourcePathContains :: "string list"

record fallbackPayload =
  pl_AllowListBypassScan :: "bool option"
  pl_ScanOnInstall :: "bool option"
  pl_Actions :: "(string \<times> fallbackAction) list"
  pl_ScannerOverrides :: "(string \<times> (string \<times> fallbackAction) list) list"
  pl_FirstPartyAllow :: "firstPartyPayload list"

definition readDataJSON ::
  "(string list \<Rightarrow> string) \<Rightarrow> (string \<Rightarrow> string option) \<Rightarrow> string \<Rightarrow> string option" where
  "readDataJSON Join ReadFile dir =
     (case ReadFile (Join [dir, ''rego'', ''data.json'']) of
        Some raw \<Rightarrow> Some raw
      | None \<Rightarrow> ReadFile (Join [dir, ''data.json'']))"

definition merge_actions ::
  "unicode_map \<Rightarrow> (string \<rightharpoonup> fallbackAction) \<Rightarrow> (string \<times> fallbackAction) list \<Rightarrow> (string \<rightharpoonup> fallbackAction)" where
  "merge_actions uni m es = foldl (\<lambda>m (sev, action). m(ToUpper uni sev \<mapsto> action)) m es"

definition merge_overrides ::
  "unicode_map \<Rightarrow> (string \<rightharpoonup> (string \<rightharpoonup> fallbackAction)) \<Rightarrow> (string \<times> (string \<times> fallbackAction) list) list
     \<Rightarrow> (string \<rightharpoonup> (string \<rightharpoonup> fallbackAction))" where
  "merge_overrides uni m es =
     foldl (\<lambda>m (targetType, overrides). m(targetType \<mapsto> merge_actions uni Map.empty overrides)) m es"

definition merge_first_party ::
  "(string \<rightharpoonup> firstPartyEntry) \<Rightarrow> firstPartyPayload list \<Rightarrow> (string \<rightharpoonup> firstPartyEntry)" where
  "merge_first_party m es =
     foldl (\<lambda>m e. if fpp_TargetType e = [] \<or> fpp_TargetName e = [] then m
        else m(firstPartyKey (fpp_TargetType e) (fpp_TargetName e) \<mapsto>
          \<lparr>fp_Reason = fpp_Reason e, fp_SourcePathContains = fpp_SourcePathContains e\<rparr>)) m es"

definition merge_payload :: "unicode_map \<Rightarrow> FallbackProfile \<Rightarrow> fallbackPayload \<Rightarrow> FallbackProfile" where
  "merge_payload uni p pl =
     \<lparr>pf_AllowListBypassScan = (case pl_AllowListBypassScan pl of Some b \<Rightarrow> b | None \<Rightarrow> pf_AllowListBypassScan p),
      pf_ScanOnInstall = (case pl_ScanOnInstall pl of Some b \<Rightarrow> b | None \<Rightarrow> pf_ScanOnInstall p),
      pf_Actions = merge_actions uni (pf_Actions p) (pl_Actions pl),
      pf_ScannerOverrides = merge_overrides uni (pf_ScannerOverrides p) (pl_ScannerOverrides pl),
      pf_FirstPartyAllow = merge_first_party (pf_FirstPartyAllow p) (pl_FirstPartyAllow pl)\<rparr>"

definition LoadFallbackProfile ::
  "unicode_map \<Rightarrow> (string list \<Rightarrow> string) \<Rightarrow> (string \<Rightarrow> string option) \<Rightarrow> (string \<Rightarrow> fallbackPayload option)
     \<Rightarrow> string \<Rightarrow> FallbackProfile" where
  "LoadFallbackProfile uni Join ReadFile Unmarshal regoDir =
     (if regoDir = [] then defaultFallbackProfile
      else case readDataJSON Join ReadFile regoDir of
        None \<Rightarrow> defaultFallbackProfile
      | Some raw \<Rightarrow>
          (case Unmarshal raw of
             None \<Rightarrow> defaultFallbackProfile
           | Some payload \<Rightarrow> merge_payload uni defaultFallbackProfile payload))"

subsection \<open>Evaluation\<close>

definition no_action :: fallbackAction where
  "no_action = \<lparr>fa_Runtime = [], fa_File = [], fa_Install = []\<rparr>"

definition effectiveFallbackAction ::
  "unicode_map \<Rightarrow> FallbackProfile option \<Rightarrow> string \<Rightarrow> string \<Rightarrow> fallbackAction" where
  "effectiveFallbackAction uni profile targetType severity =
     (case profile of
        None \<Rightarrow> no_action
      | Some p \<Rightarrow>
          let global = (case pf_Actions p (ToUpper uni severity) of Some a \<Rightarrow> a | None \<Rightarrow> no_action)
          in case pf_ScannerOverrides p targetType of
               Some overrides \<Rightarrow> (case overrides (ToUpper uni severity) of Some a \<Rightarrow> a | None \<Rightarrow> global)
             | None \<Rightarrow> global)"

definition coalesceAction :: "string \<Rightarrow> string \<Rightarrow> string" where
  "coalesceAction value fallback = (if value = [] then fallback else value)"

definition matchesProvenance :: "unicode_map \<Rightarrow> string list \<Rightarrow> string \<Rightarrow> bool" where
  "matchesProvenance uni constraints path =
     (if constraints = [] then True
      else if path = [] then False
      else let normalised = ToLower uni (replace_byte (CHR 0x5C) (CHR ''/'') path)
           in list_ex (\<lambda>c. Contains normalised (ToLower uni c)) constraints)"

fun fallbackListEntryReason :: "ListEntry list \<Rightarrow> string \<Rightarrow> string \<Rightarrow> bool \<times> string" where
  "fallbackListEntryReason [] targetType targetName = (False, [])"
| "fallbackListEntryReason (entry # entries) targetType targetName =
     (if le_TargetType entry = targetType \<and> le_TargetName entry = targetName
      then (True, if le_Reason entry \<noteq> [] then le_Reason entry
                  else targetType @ '' '' @ [CHR 0x27] @ targetName @ [CHR 0x27] @ '' is on the allow/block list'')
      else fallbackListEntryReason entries targetType targetName)"

definition decimal_int :: "int \<Rightarrow> string" where
  "decimal_int i = (if i < 0 then ''-'' @ decimal (nat (- i)) else decimal (nat i))"

definition verdict_only :: "string \<Rightarrow> string \<Rightarrow> AdmissionOutput" where
  "verdict_only verdict reason =
     \<lparr>ao_Verdict = verdict, ao_Reason = reason, ao_FileAction = [], ao_InstallAction = [], ao_RuntimeAction = []\<rparr>"

text \<open>The first-party bypass, and the post-scan part of the evaluation.\<close>

definition first_party_reason :: "unicode_map \<Rightarrow> FallbackProfile \<Rightarrow> AdmissionInput \<Rightarrow> string option" where
  "first_party_reason uni p input =
     (if pf_AllowListBypassScan p
      then case pf_FirstPartyAllow p (firstPartyKey (ai_TargetType input) (ai_TargetName input)) of
             Some entry \<Rightarrow>
               if matchesProvenance uni (fp_SourcePathContains entry) (ai_Path input)
               then Some (if fp_Reason entry = []
                 then ai_TargetType input @ '' '' @ [CHR 0x27] @ ai_TargetName input @ [CHR 0x27] @
                   '' is on the allow list '' @ em_dash @ '' scan skipped''
                 else fp_Reason entry)
               else None
           | None \<Rightarrow> None
      else None)"

definition scan_failed :: "ScanResultInput \<Rightarrow> bool" where
  "scan_failed s \<longleftrightarrow> sri_ExitCode s \<noteq> 0 \<or> TrimSpace (sri_ScanError s) \<noteq> []"

definition scan_failure_reason :: "ScanResultInput \<Rightarrow> string" where
  "scan_failure_reason s =
     (let reason = (if sri_ScanError s \<noteq> [] then ''scanner failed: '' @ sri_ScanError s else ''scanner failed'')
      in if sri_ExitCode s \<noteq> 0 then reason @ '' (exit_code='' @ decimal_int (sri_ExitCode s) @ '')'' else reason)"

definition evaluate_scan :: "unicode_map \<Rightarrow> FallbackProfile \<Rightarrow> string \<Rightarrow> ScanResultInput \<Rightarrow> AdmissionOutput" where
  "evaluate_scan uni p targetType s =
     (let severity = (if ToUpper uni (sri_MaxSeverity s) = [] then ''INFO'' else ToUpper uni (sri_MaxSeverity s));
          action = effectiveFallbackAction uni (Some p) targetType severity;
          out = \<lparr>ao_Verdict = [], ao_Reason = [], ao_FileAction = coalesceAction (fa_File action) ''none'',
                 ao_InstallAction = coalesceAction (fa_Install action) ''none'',
                 ao_RuntimeAction = coalesceAction (fa_Runtime action) ''allow''\<rparr>
      in if sri_TotalFindings s \<le> 0 then out\<lparr>ao_Verdict := ''clean'', ao_Reason := ''scan clean''\<rparr>
         else if fa_Runtime action = ''block'' \<or> fa_Install action = ''block''
         then out\<lparr>ao_Verdict := ''rejected'', ao_Reason := ''max severity '' @ severity @ '' triggers block per policy''\<rparr>
         else out\<lparr>ao_Verdict := ''warning'',
           ao_Reason := ''findings present (max '' @ severity @ '') '' @ em_dash @ '' allowed with warning''\<rparr>)"

definition EvaluateAdmissionFallback ::
  "unicode_map \<Rightarrow> AdmissionInput \<Rightarrow> FallbackProfile option \<Rightarrow> AdmissionOutput" where
  "EvaluateAdmissionFallback uni input profile =
     (let p = (case profile of None \<Rightarrow> defaultFallbackProfile | Some p \<Rightarrow> p);
          blocked = fallbackListEntryReason (ai_BlockList input) (ai_TargetType input) (ai_TargetName input);
          allowed = fallbackListEntryReason (ai_AllowList input) (ai_TargetType input) (ai_TargetName input)
      in if fst blocked then verdict_only ''blocked'' (snd blocked)
         else if fst allowed then verdict_only ''allowed'' (snd allowed)
         else case first_party_reason uni p input of
           Some reason \<Rightarrow> verdict_only ''allowed'' reason
         | None \<Rightarrow>
             (case ai_ScanResult input of
                None \<Rightarrow>
                  if \<not> pf_ScanOnInstall p
                  then verdict_only ''allowed'' (''scan_on_install disabled '' @ em_dash @ '' allowed without scan'')
                  else verdict_only ''scan'' ''scan required''
              | Some s \<Rightarrow>
                  if scan_failed s
                  then \<lparr>ao_Verdict = ''rejected'', ao_Reason = scan_failure_reason s, ao_FileAction = ''quarantine'',
                        ao_InstallAction = ''block'', ao_RuntimeAction = ''block''\<rparr>
                  else evaluate_scan uni p (ai_TargetType input) s))"

subsection \<open>The lists and the merge\<close>

definition on_list :: "ListEntry list \<Rightarrow> AdmissionInput \<Rightarrow> bool" where
  "on_list entries input \<longleftrightarrow> list_ex (\<lambda>e. le_TargetType e = ai_TargetType input \<and> le_TargetName e = ai_TargetName input) entries"

lemma fst_fallbackListEntryReason [simp]:
  "fst (fallbackListEntryReason es (ai_TargetType input) (ai_TargetName input)) = on_list es input"
  by (induction es) (auto simp: on_list_def)

text \<open>The entry a table ends up with for a key: the last one whose upper-cased key is that key.\<close>

definition last_entry :: "unicode_map \<Rightarrow> (string \<times> 'a) list \<Rightarrow> string \<Rightarrow> 'a option" where
  "last_entry uni es key = map_option snd (find (\<lambda>(sev, a). ToUpper uni sev = key) (rev es))"

lemma merge_actions_lookup:
  "merge_actions uni m es key = (case last_entry uni es key of Some a \<Rightarrow> Some a | None \<Rightarrow> m key)"
proof (induction es rule: rev_induct)
  case Nil
  then show ?case by (simp add: merge_actions_def last_entry_def)
next
  case (snoc e es)
  then show ?case by (cases e) (auto simp: merge_actions_def last_entry_def)
qed

definition last_override :: "(string \<times> 'a) list \<Rightarrow> string \<Rightarrow> 'a option" where
  "last_override es key = map_option snd (find (\<lambda>(t, a). t = key) (rev es))"

lemma merge_overrides_lookup:
  "merge_overrides uni m es key =
     (case last_override es key of Some t \<Rightarrow> Some (last_entry uni t) | None \<Rightarrow> m key)"
proof (induction es rule: rev_induct)
  case Nil
  then show ?case by (simp add: merge_overrides_def last_override_def)
next
  case (snoc e es)
  have "merge_actions uni Map.empty t = last_entry uni t" for t
    by (rule ext) (simp add: merge_actions_lookup split: option.splits)
  with snoc show ?case by (cases e) (auto simp: merge_overrides_def last_override_def)
qed

subsection \<open>Properties\<close>

definition scan_severity :: "unicode_map \<Rightarrow> ScanResultInput \<Rightarrow> string" where
  "scan_severity uni s = (if ToUpper uni (sri_MaxSeverity s) = [] then ''INFO'' else ToUpper uni (sri_MaxSeverity s))"

definition policy_blocks :: "unicode_map \<Rightarrow> FallbackProfile \<Rightarrow> string \<Rightarrow> ScanResultInput \<Rightarrow> bool" where
  "policy_blocks uni p targetType s \<longleftrightarrow>
     (let a = effectiveFallbackAction uni (Some p) targetType (scan_severity uni s)
      in fa_Runtime a = ''block'' \<or> fa_Install a = ''block'')"

lemma evaluate_scan_verdict:
  "ao_Verdict (evaluate_scan uni p t s) =
     (if sri_TotalFindings s \<le> 0 then ''clean'' else if policy_blocks uni p t s then ''rejected'' else ''warning'')"
  by (simp add: evaluate_scan_def policy_blocks_def scan_severity_def Let_def)

text \<open>
  The admission table.  For every input and profile the verdict is decided by the block list
  first, then by the allow list and the first-party list with its provenance check, then by the
  scan: no scan asks for one (or allows, when scanning on install is off), a failed scan is
  rejected whatever findings it lists, a scan without findings is clean, and findings are
  rejected or admitted with a warning according to the action for the severity.
\<close>

lemma admission_table:
  "ao_Verdict (EvaluateAdmissionFallback uni input (Some p)) =
   (if on_list (ai_BlockList input) input then ''blocked''
    else if on_list (ai_AllowList input) input then ''allowed''
    else if first_party_reason uni p input \<noteq> None then ''allowed''
    else case ai_ScanResult input of
      None \<Rightarrow> if pf_ScanOnInstall p then ''scan'' else ''allowed''
    | Some s \<Rightarrow> if scan_failed s then ''rejected'' else if sri_TotalFindings s \<le> 0 then ''clean''
        else if policy_blocks uni p (ai_TargetType input) s then ''rejected'' else ''warning'')"
  by (simp add: EvaluateAdmissionFallback_def Let_def verdict_only_def evaluate_scan_verdict split: option.splits)

text \<open>
  Loading a profile.  In a profile merged from a policy file, the action for a target type and
  a severity comes from the file's table for that type when the file has one (the last entry whose
  upper-cased severity fits), which then replaces the built-in table of the type as a whole; without
  such a table the built-in one still applies; severities found in neither fall back to the
  file's global actions and then to the built-in ones.
\<close>

theorem effective_action_merge:
  assumes "regoDir \<noteq> []" and "readDataJSON Join ReadFile regoDir = Some raw" and "Unmarshal raw = Some pl"
  shows "effectiveFallbackAction uni (Some (LoadFallbackProfile uni Join ReadFile Unmarshal regoDir)) targetType severity =
    (let key = ToUpper uni severity;
         global = (case last_entry uni (pl_Actions pl) key of Some a \<Rightarrow> a
           | None \<Rightarrow> (case pf_Actions defaultFallbackProfile key of Some a \<Rightarrow> a | None \<Rightarrow> no_action));
         table = (case last_override (pl_ScannerOverrides pl) targetType of Some t \<Rightarrow> last_entry uni t key
           | None \<Rightarrow> Option.bind (pf_ScannerOverrides defaultFallbackProfile targetType) (\<lambda>t. t key))
     in case table of Some a \<Rightarrow> a | None \<Rightarrow> global)"
  using assms
  by (auto simp: LoadFallbackProfile_def effectiveFallbackAction_def merge_payload_def merge_actions_lookup
      merge_overrides_lookup Let_def split: option.splits)

definition mcp_critical_only :: fallbackPayload where
  "mcp_critical_only = \<lparr>pl_AllowListBypassScan = None, pl_ScanOnInstall = None, pl_Actions = [],
     pl_ScannerOverrides = [(''mcp'', [(''critical'', block_all)])], pl_FirstPartyAllow = []\<rparr>"

theorem effective_action_merge_witness:
  "effectiveFallbackAction plain_map (Some (LoadFallbackProfile plain_map concat (\<lambda>f. Some ''{}'') (\<lambda>raw. Some mcp_critical_only) ''d''))
     ''mcp'' ''MEDIUM'' = allow_all \<and>
   effectiveFallbackAction plain_map (Some defaultFallbackProfile) ''mcp'' ''MEDIUM'' = block_all"
proof -
  have "readDataJSON concat (\<lambda>f. Some ''{}'') ''d'' = Some ''{}''" by (simp add: readDataJSON_def)
  note e = effective_action_merge [OF _ this, of "\<lambda>raw. Some mcp_critical_only" mcp_critical_only plain_map "''mcp''" "''MEDIUM''"]
  have k: "last_override (pl_ScannerOverrides mcp_critical_only) ''mcp'' = Some [(''critical'', block_all)]"
    "last_entry plain_map [(''critical'', block_all)] (ToUpper plain_map ''MEDIUM'') = None"
    "last_entry plain_map (pl_Actions mcp_critical_only) (ToUpper plain_map ''MEDIUM'') = None"
    "pf_Actions defaultFallbackProfile (ToUpper plain_map ''MEDIUM'') = Some allow_all"
    by code_simp+
  moreover have "effectiveFallbackAction plain_map (Some defaultFallbackProfile) ''mcp'' ''MEDIUM'' = block_all" by code_simp
  ultimately show ?thesis by (subst e) (simp_all add: Let_def)
qed

end
