(* ===== verification/Watcher_Admission.thy ===== *)
theory Watcher_Admission
  imports Enforce_Policy Policy_Fallback Config_AssetPolicy
begin

text \<open>
  The admission gate of \<^verbatim>\<open>internal/watcher/watcher.go\<close>: every new skill, plugin or MCP server found on disk is checked
  against the pinned allow, the asset policy, the block and allow lists, and is then scanned.

  The state is the watcher's: its configuration, the enforcement table, the requests it has made to take an asset out
  of use (\<open>w_enforced\<close>) and the audit events it has logged (\<open>w_log\<close>, without the free text of their details).  The
  scanners, the Rego engine and the file system are arguments.  A scan takes minutes and other processes write the
  enforcement table meanwhile, so a scanner returns, with its result, the table as it is found afterwards.
  Moving an asset to quarantine is the part of \<open>Watcher_Quarantine\<close>; the sandbox's endpoint list is not modelled beyond the
  request.  Paths are those of the Unix builds.
\<close>

record InstallEvent =
  ev_Type :: string
  ev_Name :: string
  ev_Path :: string
  ev_Connector :: string
  ev_Timestamp :: gotime

datatype Verdict = VerdictBlocked | VerdictAllowed | VerdictClean | VerdictRejected | VerdictWarning | VerdictScanError

record AdmissionResult =
  res_Event :: InstallEvent
  res_Verdict :: Verdict
  res_Reason :: string
  res_MaxSeverity :: string
  res_FindingCount :: nat
  res_InstallAction :: string
  res_FileAction :: string
  res_RuntimeAction :: string

record ScanFinding =
  sf_Severity :: string
  sf_Scanner :: string
  sf_Title :: string

record ScanResult =
  sr_Findings :: "ScanFinding list"
  sr_ExitCode :: int
  sr_ScanError :: string

record Scanner =
  sc_Name :: string
  sc_Scan :: "string \<Rightarrow> ActionDB option \<Rightarrow> ActionDB option \<times> (string + ScanResult)"

record WatcherConfig = Config +
  cfg_PolicyDir :: string
  cfg_SkillTakeAction :: bool
  cfg_PluginTakeAction :: bool
  cfg_MCPTakeAction :: bool
  cfg_AutoBlock :: bool

datatype enforcement = BlockEndpoint string | QuarantineAsset InstallEvent | QuarantineUnavailable string

datatype audit_event =
    LogAction string string
  | LogEnforced string "(string \<times> string) list"
  | LogScan string string
  | AdmissionMetric string string
  | ScanErrorMetric string string

record InstallWatcher =
  w_cfg :: WatcherConfig
  w_pluginDirs :: "string list"
  w_store :: "ActionDB option"
  w_enforced :: "enforcement list"
  w_log :: "audit_event list"

record admission_env =
  env_uni :: unicode_map
  env_Join :: "string list \<Rightarrow> string"
  env_ReadFile :: "string \<Rightarrow> string option"
  env_Unmarshal :: "string \<Rightarrow> fallbackPayload option"
  env_Getwd :: "string option"
  env_opa :: "(AdmissionInput \<Rightarrow> string + AdmissionOutput) option"
  env_factory :: "(InstallEvent \<Rightarrow> Scanner option) option"
  env_SkillScanner :: Scanner
  env_MCPScanner :: Scanner
  env_PluginScanner :: Scanner

subsection \<open>Paths\<close>

definition sameWatcherPath :: "string option \<Rightarrow> string \<Rightarrow> string \<Rightarrow> bool" where
  "sameWatcherPath Getwd left right =
     (case (path_Abs Getwd (TrimSpace left), path_Abs Getwd (TrimSpace right)) of
        (Some leftAbs, Some rightAbs) \<Rightarrow> path_Clean leftAbs = path_Clean rightAbs
      | _ \<Rightarrow> False)"

subsection \<open>Events\<close>

definition watcherConnectorName :: "unicode_map \<Rightarrow> WatcherConfig \<Rightarrow> string" where
  "watcherConnectorName uni cfg =
     (if TrimSpace (gc_Connector (cfg_Guardrail cfg)) \<noteq> [] then ToLower uni (TrimSpace (gc_Connector (cfg_Guardrail cfg)))
      else ToLower uni (TrimSpace (cfg_ClawMode cfg)))"

text \<open>The error of \<open>filepath.Abs\<close> is dropped, leaving the empty string.\<close>

definition classifyEvent :: "admission_env \<Rightarrow> gotime \<Rightarrow> InstallWatcher \<Rightarrow> string \<Rightarrow> InstallEvent" where
  "classifyEvent env now w path =
     (let abs = (\<lambda>p. case path_Abs (env_Getwd env) p of Some a \<Rightarrow> a | None \<Rightarrow> [])
      in \<lparr>ev_Type = (if list_ex (\<lambda>dir. HasPrefix (abs path) (abs dir)) (w_pluginDirs w) then ''plugin'' else ''skill''),
          ev_Name = path_base path, ev_Path = path, ev_Connector = watcherConnectorName (env_uni env) (w_cfg w),
          ev_Timestamp = now\<rparr>)"

definition eventConnector :: "unicode_map \<Rightarrow> WatcherConfig \<Rightarrow> InstallEvent \<Rightarrow> string" where
  "eventConnector uni cfg evt =
     (if TrimSpace (ev_Connector evt) \<noteq> [] then TrimSpace (ev_Connector evt) else watcherConnectorName uni cfg)"

definition takeActionFor :: "WatcherConfig \<Rightarrow> InstallEvent \<Rightarrow> bool" where
  "takeActionFor cfg evt =
     (if ev_Type evt = ''skill'' then cfg_SkillTakeAction cfg
      else if ev_Type evt = ''plugin'' then cfg_PluginTakeAction cfg
      else if ev_Type evt = ''mcp'' then cfg_MCPTakeAction cfg
      else cfg_AutoBlock cfg)"

definition scannerFor :: "admission_env \<Rightarrow> InstallEvent \<Rightarrow> Scanner option" where
  "scannerFor env evt =
     (if ev_Type evt = ''skill'' then Some (env_SkillScanner env)
      else if ev_Type evt = ''mcp'' then Some (env_MCPScanner env)
      else if ev_Type evt = ''plugin'' then Some (env_PluginScanner env)
      else None)"

definition newScanner :: "admission_env \<Rightarrow> InstallEvent \<Rightarrow> Scanner option" where
  "newScanner env evt = (case env_factory env of Some f \<Rightarrow> f evt | None \<Rightarrow> scannerFor env evt)"

definition severityRank :: "string \<Rightarrow> int" where
  "severityRank s =
     (if s = ''CRITICAL'' then 5 else if s = ''HIGH'' then 4 else if s = ''MEDIUM'' then 3 else if s = ''LOW'' then 2
      else if s = ''INFO'' then 1 else 0)"

definition MaxSeverity :: "ScanResult \<Rightarrow> string" where
  "MaxSeverity r =
     (case sr_Findings r of
        [] \<Rightarrow> ''INFO''
      | f # fs \<Rightarrow> fold (\<lambda>g max. if severityRank (sf_Severity g) > severityRank max then sf_Severity g else max) fs (sf_Severity f))"

definition toFindingInputs :: "ScanFinding list \<Rightarrow> FindingInput list" where
  "toFindingInputs findings = map (\<lambda>f. \<lparr>fn_Severity = sf_Severity f, fn_Scanner = sf_Scanner f, fn_Title = sf_Title f\<rparr>) findings"

definition toVerdict :: "string \<Rightarrow> Verdict" where
  "toVerdict s =
     (if s = ''blocked'' then VerdictBlocked else if s = ''allowed'' then VerdictAllowed else if s = ''clean'' then VerdictClean
      else if s = ''rejected'' then VerdictRejected else if s = ''warning'' then VerdictWarning else VerdictScanError)"

fun watcher_coalesce :: "string list \<Rightarrow> string" where
  "watcher_coalesce [] = []"
| "watcher_coalesce (v # vals) = (if v \<noteq> [] then v else watcher_coalesce vals)"

subsection \<open>Effects\<close>

definition logged :: "audit_event list \<Rightarrow> InstallWatcher \<Rightarrow> InstallWatcher" where
  "logged evs w = w\<lparr>w_log := w_log w @ evs\<rparr>"

text \<open>The table is also the argument of the policy engine, which each query or statement returns.\<close>

definition buildListEntries :: "PolicyEngine \<Rightarrow> string \<Rightarrow> PolicyEngine \<times> ListEntry list" where
  "buildListEntries pe action =
     (if action = ''block'' \<or> action = ''allow'' then
        (case (if action = ''block'' then ListBlocked pe else ListAllowed pe) of
           (pe, Inl err) \<Rightarrow> (pe, [])
         | (pe, Inr entries) \<Rightarrow>
             (pe, map (\<lambda>e. \<lparr>le_TargetType = ae_TargetType e, le_TargetName = ae_TargetName e, le_Reason = ae_Reason e\<rparr>) entries))
      else (pe, []))"

text \<open>The scopes of \<open>preserveRestoredBlockedAsset\<close> in turn; an error or a missing row goes on to the next.\<close>

fun restored_scope :: "string option \<Rightarrow> InstallEvent \<Rightarrow> string list \<Rightarrow> ActionDB \<Rightarrow> ActionDB \<times> bool" where
  "restored_scope Getwd evt [] db = (db, False)"
| "restored_scope Getwd evt (scope # scopes) db =
     (case GetActionForConnector db (ev_Type evt) (ev_Name evt) scope of
        (db, Inr (Some entry)) \<Rightarrow>
          if st_File (ae_Actions entry) = [] \<and> ae_SourcePath entry \<noteq> [] \<and> sameWatcherPath Getwd (ae_SourcePath entry) (ev_Path evt)
          then (db, True) else restored_scope Getwd evt scopes db
      | (db, _) \<Rightarrow> restored_scope Getwd evt scopes db)"

definition preserveRestoredBlockedAsset :: "admission_env \<Rightarrow> InstallWatcher \<Rightarrow> InstallEvent \<Rightarrow> InstallWatcher \<times> bool" where
  "preserveRestoredBlockedAsset env w evt =
     (let connector = eventConnector (env_uni env) (w_cfg w) evt
      in case IsBlockedForConnector (w_store w) (ev_Type evt) (ev_Name evt) connector of
        (Some db, Inr True) \<Rightarrow>
          (case restored_scope (env_Getwd env) evt (connector # (if connector \<noteq> [] then [[]] else [])) db of
             (db, b) \<Rightarrow> (w\<lparr>w_store := Some db\<rparr>, b))
      | (pe, _) \<Rightarrow> (w\<lparr>w_store := pe\<rparr>, False))"

definition quarantineAsset :: "admission_env \<Rightarrow> InstallWatcher \<Rightarrow> InstallEvent \<Rightarrow> InstallWatcher" where
  "quarantineAsset env w evt =
     (if w_store w = None then w\<lparr>w_enforced := w_enforced w @ [QuarantineUnavailable (ev_Path evt)]\<rparr>
      else case preserveRestoredBlockedAsset env w evt of
        (w, True) \<Rightarrow> logged [LogAction ''watcher-block'' (ev_Path evt)] w
      | (w, False) \<Rightarrow> w\<lparr>w_enforced := w_enforced w @ [QuarantineAsset evt]\<rparr>)"

definition enforceBlock :: "admission_env \<Rightarrow> InstallWatcher \<Rightarrow> InstallEvent \<Rightarrow> InstallWatcher" where
  "enforceBlock env w evt =
     (if ev_Type evt = ''mcp'' then w\<lparr>w_enforced := w_enforced w @ [BlockEndpoint (ev_Name evt)]\<rparr>
      else if ev_Type evt = ''skill'' \<or> ev_Type evt = ''plugin'' then quarantineAsset env w evt
      else w)"

subsection \<open>The gates\<close>

definition plain_result :: "InstallEvent \<Rightarrow> Verdict \<Rightarrow> string \<Rightarrow> AdmissionResult" where
  "plain_result evt verdict reason =
     \<lparr>res_Event = evt, res_Verdict = verdict, res_Reason = reason, res_MaxSeverity = [], res_FindingCount = 0,
      res_InstallAction = [], res_FileAction = [], res_RuntimeAction = []\<rparr>"

text \<open>A gate answers with a result or passes the event on.\<close>

definition gate_then ::
  "InstallWatcher \<times> AdmissionResult option \<Rightarrow> (InstallWatcher \<Rightarrow> InstallWatcher \<times> AdmissionResult) \<Rightarrow> InstallWatcher \<times> AdmissionResult" where
  "gate_then gate next = (case gate of (w, Some res) \<Rightarrow> (w, res) | (w, None) \<Rightarrow> next w)"

definition refuse ::
  "admission_env \<Rightarrow> InstallWatcher \<Rightarrow> InstallEvent \<Rightarrow> string \<Rightarrow> string \<Rightarrow> Verdict \<Rightarrow> string \<Rightarrow> InstallWatcher \<times> AdmissionResult option" where
  "refuse env w evt action metric verdict reason =
     (logged [AdmissionMetric metric (ev_Type evt)] (enforceBlock env (logged [LogAction action (ev_Path evt)] w) evt),
      Some (plain_result evt verdict reason))"

definition admit :: "InstallWatcher \<Rightarrow> InstallEvent \<Rightarrow> string \<Rightarrow> InstallWatcher \<times> AdmissionResult option" where
  "admit w evt reason =
     (logged [LogAction ''install-allowed'' (ev_Path evt), AdmissionMetric ''allowed'' (ev_Type evt)] w,
      Some (plain_result evt VerdictAllowed reason))"

definition pinned_allow_gate :: "admission_env \<Rightarrow> InstallWatcher \<Rightarrow> InstallEvent \<Rightarrow> InstallWatcher \<times> AdmissionResult option" where
  "pinned_allow_gate env w evt =
     (case engine_GetAction (w_store w) (ev_Type evt) (ev_Name evt) of
        (pe, Inr (Some existing)) \<Rightarrow>
          (let w = w\<lparr>w_store := pe\<rparr>
           in if st_Install (ae_Actions existing) = ''allow'' \<and> ae_SourcePath existing \<noteq> [] \<and> ae_SourcePath existing \<noteq> ev_Path evt
              then refuse env w evt ''install-allow-path-mismatch'' ''blocked'' VerdictBlocked
                ''allow entry pinned to different source_path; failing closed (F-2867)''
              else (w, None))
      | (pe, _) \<Rightarrow> (w\<lparr>w_store := pe\<rparr>, None))"

definition asset_policy_gate :: "admission_env \<Rightarrow> InstallWatcher \<Rightarrow> InstallEvent \<Rightarrow> InstallWatcher \<times> AdmissionResult option" where
  "asset_policy_gate env w evt =
     (let d = EvaluateAssetPolicy (env_uni env) (w_cfg w)
            \<lparr>in_TargetType = ev_Type evt, in_Name = ev_Name evt, in_Connector = eventConnector (env_uni env) (w_cfg w) evt,
             in_SourcePath = ev_Path evt, in_URL = [], in_Command = [], in_Args = [], in_Transport = [],
             in_RuntimeSurface = ''watcher''\<rparr>
      in if ad_Enabled d \<and> ad_RawAction d = ''block'' \<and> ad_Action d = ''block''
         then refuse env w evt ''install-rejected'' ''blocked'' VerdictBlocked (ad_Reason d)
         else (w, None))"

definition fallback_gate ::
  "admission_env \<Rightarrow> FallbackProfile \<Rightarrow> AdmissionInput \<Rightarrow> InstallEvent \<Rightarrow> InstallWatcher \<Rightarrow> InstallWatcher \<times> AdmissionResult option" where
  "fallback_gate env profile input evt w =
     (let out = EvaluateAdmissionFallback (env_uni env) input (Some profile)
      in if ao_Verdict out = ''blocked'' then refuse env w evt ''install-rejected'' ''blocked'' VerdictBlocked (ao_Reason out)
         else if ao_Verdict out = ''allowed'' then admit w evt (ao_Reason out)
         else (w, None))"

text \<open>
  Phase 1.  Any answer of the engine other than blocked, rejected and allowed, an error as much as the verdict scan, goes on
  to the built-in evaluation.
\<close>

definition prescan_gate ::
  "admission_env \<Rightarrow> FallbackProfile \<Rightarrow> AdmissionInput \<Rightarrow> InstallEvent \<Rightarrow> InstallWatcher \<Rightarrow> InstallWatcher \<times> AdmissionResult option" where
  "prescan_gate env profile input evt w =
     (case env_opa env of
        None \<Rightarrow> fallback_gate env profile input evt w
      | Some Evaluate \<Rightarrow>
          (case Evaluate input of
             Inl err \<Rightarrow> fallback_gate env profile input evt w
           | Inr out \<Rightarrow>
               if ao_Verdict out = ''blocked'' then refuse env w evt ''install-rejected'' ''blocked'' VerdictBlocked (ao_Reason out)
               else if ao_Verdict out = ''rejected'' then refuse env w evt ''install-rejected'' ''rejected'' VerdictRejected (ao_Reason out)
               else if ao_Verdict out = ''allowed'' then admit w evt (ao_Reason out)
               else fallback_gate env profile input evt w))"

definition auto_block :: "admission_env \<Rightarrow> InstallWatcher \<Rightarrow> AdmissionOutput \<Rightarrow> InstallEvent \<Rightarrow> ScanResult \<Rightarrow> string \<Rightarrow> InstallWatcher" where
  "auto_block env w out evt result scannerName =
     (let t = ev_Type evt; n = ev_Name evt;
          blockReason = ''auto-block: watch detected '' @ MaxSeverity result @ '' findings (scanner='' @ scannerName @ '')'';
          installAction = watcher_coalesce [ao_InstallAction out, ''block''];
          runtimeAction = watcher_coalesce [ao_RuntimeAction out, ''allow''];
          fileAction = watcher_coalesce [ao_FileAction out, ''none''];
          pe = (if installAction = ''block'' then fst (Block (w_store w) t n blockReason) else w_store w);
          pe = engine_SetSourcePath pe t n (ev_Path evt);
          pe = (if fileAction = ''quarantine'' then fst (Quarantine pe t n blockReason) else pe);
          pe = (if runtimeAction = ''block'' then fst (Disable pe t n blockReason) else pe);
          w = logged [LogEnforced n [(''source_path'', ev_Path evt), (''install'', installAction), (''runtime'', runtimeAction),
                (''file'', fileAction)]] (w\<lparr>w_store := pe\<rparr>)
      in if fileAction = ''quarantine'' \<or> runtimeAction = ''block'' then enforceBlock env w evt else w)"

definition applyPostScanEnforcement ::
  "admission_env \<Rightarrow> InstallWatcher \<Rightarrow> AdmissionOutput \<Rightarrow> InstallEvent \<Rightarrow> ScanResult \<Rightarrow> string \<Rightarrow> InstallWatcher" where
  "applyPostScanEnforcement env w out evt result scannerName =
     (case IsAllowed (w_store w) (ev_Type evt) (ev_Name evt) of
        (pe, Inr True) \<Rightarrow> logged [LogAction ''install-allowed-skip-enforce'' (ev_Path evt)] (w\<lparr>w_store := pe\<rparr>)
      | (pe, _) \<Rightarrow>
          (let w = w\<lparr>w_store := pe\<rparr>
           in if ao_Verdict out = ''clean'' then logged [LogAction ''install-clean'' (ev_Path evt)] w
              else if ao_Verdict out = ''rejected'' then
                (let w = logged [LogAction ''install-rejected'' (ev_Path evt)] w
                 in if takeActionFor (w_cfg w) evt then auto_block env w out evt result scannerName else w)
              else if ao_Verdict out = ''warning'' then logged [LogAction ''install-warning'' (ev_Path evt)] w
              else w))"

definition scan_result :: "InstallEvent \<Rightarrow> ScanResult \<Rightarrow> Verdict \<Rightarrow> string \<Rightarrow> string \<Rightarrow> AdmissionResult" where
  "scan_result evt result verdict reason installAction =
     (plain_result evt verdict reason)\<lparr>res_MaxSeverity := MaxSeverity result, res_FindingCount := length (sr_Findings result),
        res_InstallAction := installAction\<rparr>"

text \<open>A manual entry made while the scan was running wins over the scan.\<close>

definition recheck_gate :: "admission_env \<Rightarrow> InstallEvent \<Rightarrow> ScanResult \<Rightarrow> InstallWatcher \<Rightarrow> InstallWatcher \<times> AdmissionResult option" where
  "recheck_gate env evt result w =
     (let t = ev_Type evt; n = ev_Name evt
      in case IsBlocked (w_store w) t n of
        (pe, Inr True) \<Rightarrow>
          (logged [AdmissionMetric ''blocked'' t] (enforceBlock env
             (logged [LogAction ''install-rejected'' (ev_Path evt), LogScan n ''blocked''] (w\<lparr>w_store := pe\<rparr>)) evt),
           Some (scan_result evt result VerdictBlocked
             (t @ '' '' @ Quote (env_uni env) n @ '' is on the block list '' @ em_dash @ '' rejected'') ''block''))
      | (pe, _) \<Rightarrow>
          (case IsAllowed pe t n of
             (pe, Inr True) \<Rightarrow>
               (logged [LogAction ''install-allowed'' (ev_Path evt), LogScan n ''allowed'', AdmissionMetric ''allowed'' t] (w\<lparr>w_store := pe\<rparr>),
                Some (scan_result evt result VerdictAllowed
                  (''scan found findings but '' @ t @ '' '' @ Quote (env_uni env) n @ '' is allow-listed '' @ em_dash @ '' skipping enforcement'')
                  ''allow''))
           | (pe, _) \<Rightarrow> (w\<lparr>w_store := pe\<rparr>, None)))"

text \<open>Phase 3, with the engine's answer if it gives one and the built-in evaluation otherwise.\<close>

definition postscan ::
  "admission_env \<Rightarrow> FallbackProfile \<Rightarrow> AdmissionInput \<Rightarrow> InstallEvent \<Rightarrow> string \<Rightarrow> ScanResult \<Rightarrow> InstallWatcher \<Rightarrow> InstallWatcher \<times> AdmissionResult" where
  "postscan env profile input evt scannerName result w =
     (let input = input\<lparr>ai_ScanResult := Some \<lparr>sri_MaxSeverity = MaxSeverity result, sri_TotalFindings = int (length (sr_Findings result)),
            sri_ScannerName = scannerName, sri_Findings = toFindingInputs (sr_Findings result), sri_ExitCode = 0, sri_ScanError = []\<rparr>\<rparr>;
          out = (case env_opa env of
              Some Evaluate \<Rightarrow> (case Evaluate input of Inr out \<Rightarrow> out
                | Inl err \<Rightarrow> EvaluateAdmissionFallback (env_uni env) input (Some profile))
            | None \<Rightarrow> EvaluateAdmissionFallback (env_uni env) input (Some profile));
          w = applyPostScanEnforcement env w out evt result scannerName
      in (logged [LogScan (ev_Name evt) (ao_Verdict out), AdmissionMetric (ao_Verdict out) (ev_Type evt)] w,
          (scan_result evt result (toVerdict (ao_Verdict out)) (ao_Reason out) (ao_InstallAction out))
            \<lparr>res_FileAction := ao_FileAction out, res_RuntimeAction := ao_RuntimeAction out\<rparr>))"

definition classifyWatcherScanError :: "string \<Rightarrow> string" where
  "classifyWatcherScanError msg =
     (if Contains msg ''not found'' \<or> Contains msg ''executable file not found'' then ''not_found''
      else if Contains msg ''context deadline exceeded'' \<or> Contains msg ''timeout'' then ''timeout''
      else if Contains msg ''parse'' \<or> Contains msg ''unmarshal'' \<or> Contains msg ''json'' then ''parse''
      else ''crash'')"

definition scan_phase ::
  "admission_env \<Rightarrow> FallbackProfile \<Rightarrow> AdmissionInput \<Rightarrow> InstallEvent \<Rightarrow> InstallWatcher \<Rightarrow> InstallWatcher \<times> AdmissionResult" where
  "scan_phase env profile input evt w =
     (case newScanner env evt of
        None \<Rightarrow> (logged [AdmissionMetric ''scan-error'' (ev_Type evt)] w, plain_result evt VerdictScanError ''no scanner available'')
      | Some s \<Rightarrow>
          (case sc_Scan s (ev_Path evt) (w_store w) of
             (store, Inl err) \<Rightarrow>
               (let w = logged [LogAction ''install-scan-error'' (ev_Path evt),
                      ScanErrorMetric (sc_Name s) (classifyWatcherScanError err)] (w\<lparr>w_store := store\<rparr>);
                    w = logged [LogAction ''install-blocked'' (ev_Path evt), AdmissionMetric ''scan-error'' (ev_Type evt)] (enforceBlock env w evt)
                in (w, (plain_result evt VerdictBlocked (''scanner failure (fail-closed): '' @ err))\<lparr>res_InstallAction := ''block''\<rparr>))
           | (store, Inr result) \<Rightarrow>
               gate_then (recheck_gate env evt result (w\<lparr>w_store := store\<rparr>)) (postscan env profile input evt (sc_Name s) result)))"

definition decide_event ::
  "admission_env \<Rightarrow> FallbackProfile \<Rightarrow> AdmissionInput \<Rightarrow> InstallEvent \<Rightarrow> InstallWatcher \<Rightarrow> InstallWatcher \<times> AdmissionResult" where
  "decide_event env profile input evt w =
     gate_then (asset_policy_gate env w evt) (\<lambda>w. gate_then (prescan_gate env profile input evt w) (scan_phase env profile input evt))"

definition admission_profile :: "admission_env \<Rightarrow> WatcherConfig \<Rightarrow> FallbackProfile" where
  "admission_profile env cfg =
     LoadFallbackProfile (env_uni env) (env_Join env) (env_ReadFile env) (env_Unmarshal env) (cfg_PolicyDir cfg)"

definition admission_input :: "InstallEvent \<Rightarrow> ListEntry list \<Rightarrow> ListEntry list \<Rightarrow> AdmissionInput" where
  "admission_input evt blockList allowList =
     \<lparr>ai_TargetType = ev_Type evt, ai_TargetName = ev_Name evt, ai_Path = ev_Path evt,
      ai_BlockList = blockList, ai_AllowList = allowList, ai_ScanResult = None\<rparr>"

definition runAdmission :: "admission_env \<Rightarrow> InstallWatcher \<Rightarrow> InstallEvent \<Rightarrow> InstallWatcher \<times> AdmissionResult" where
  "runAdmission env w evt =
     gate_then (pinned_allow_gate env (logged [LogAction ''install-detected'' (ev_Path evt)] w) evt) (\<lambda>w.
       (case buildListEntries (w_store w) ''block'' of (pe, blockList) \<Rightarrow>
        case buildListEntries pe ''allow'' of (pe, allowList) \<Rightarrow>
          decide_event env (admission_profile env (w_cfg w)) (admission_input evt blockList allowList) evt (w\<lparr>w_store := pe\<rparr>)))"

subsection \<open>The lists of the table\<close>

definition no_faults :: "PolicyEngine \<Rightarrow> bool" where
  "no_faults pe \<longleftrightarrow> (case pe of None \<Rightarrow> True | Some db \<Rightarrow> db_faults db = [])"

lemma query_no_fault: "db_faults db = [] \<Longrightarrow> query db f = (db, Inr (f (db_actions db)))"
  by (simp add: query_def take_next_def)

lemma set_row_entries: "set (map row_entry (sort_key k (filter P rows))) = row_entry ` {r \<in> set rows. P r}"
  by auto

text \<open>Without a store error both lists hold exactly the rows of the table, of whatever connector, with that install action.\<close>

lemma list_entries:
  assumes "db_faults db = []" and "action \<in> {''block'', ''allow''}"
  shows "\<exists>entries. buildListEntries (Some db) action = (Some db, entries) \<and>
    (\<forall>t n. (\<exists>e \<in> set entries. le_TargetType e = t \<and> le_TargetName e = n) =
      (\<exists>r \<in> set (db_actions db). ar_TargetType r = t \<and> ar_TargetName r = n \<and> json_get ''install'' (ar_Actions r) = Some action))"
proof -
  let ?rows = "map row_entry (sort_key (\<lambda>r. - ar_UpdatedAt r) (filter (\<lambda>r. json_get ''install'' (ar_Actions r) = Some action) (db_actions db)))"
  have "(if action = ''block'' then ListBlocked (Some db) else ListAllowed (Some db)) = (Some db, Inr ?rows)"
    using assms action_values_valid(1,2)
    by (auto simp: ListBlocked_def ListAllowed_def on_store_def ListByAction_def queryActions_def query_no_fault)
  then have "buildListEntries (Some db) action = (Some db, map (\<lambda>e. \<lparr>le_TargetType = ae_TargetType e, le_TargetName = ae_TargetName e,
      le_Reason = ae_Reason e\<rparr>) ?rows)"
    using assms(2) by (auto simp: buildListEntries_def)
  then show ?thesis by (intro exI conjI, assumption) (force simp: row_entry_def)
qed

lemma on_list_entries: "on_list entries i = (\<exists>e \<in> set entries. le_TargetType e = ai_TargetType i \<and> le_TargetName e = ai_TargetName i)"
  by (auto simp: on_list_def list_ex_iff)

definition listed_as :: "string \<Rightarrow> ActionDB \<Rightarrow> InstallEvent \<Rightarrow> bool" where
  "listed_as action db evt \<longleftrightarrow> list_ex (\<lambda>r. ar_TargetType r = ev_Type evt \<and> ar_TargetName r = ev_Name evt \<and>
     json_get ''install'' (ar_Actions r) = Some action) (db_actions db)"

subsection \<open>Gates\<close>

lemma logged_fields [simp]: "w_store (logged evs w) = w_store w" "w_cfg (logged evs w) = w_cfg w" "w_enforced (logged evs w) = w_enforced w"
  by (simp_all add: logged_def)

lemma refuse_verdict: "refuse env w evt action metric verdict reason = (w', r) \<Longrightarrow> r = Some (plain_result evt verdict reason)"
  by (simp add: refuse_def)

lemma gate_then_cases:
  "gate_then gate next = (w', res) \<Longrightarrow> (\<exists>w. gate = (w, None) \<and> next w = (w', res)) \<or> gate = (w', Some res)"
  by (auto simp: gate_then_def split: prod.splits option.splits)

lemma pinned_gate:
  assumes "pinned_allow_gate env w evt = (w', r)" and "no_faults (w_store w)"
  shows "r = None \<and> w' = w \<or> (\<exists>res. r = Some res \<and> res_Verdict res = VerdictBlocked)"
proof -
  have "engine_GetAction (w_store w) (ev_Type evt) (ev_Name evt) =
      (w_store w, snd (engine_GetAction (w_store w) (ev_Type evt) (ev_Name evt)))"
    using assms(2) by (auto simp: engine_GetAction_def on_store_def store_GetAction_def GetActionForConnector_def no_faults_def
        query_no_fault split: option.splits)
  moreover obtain x where "snd (engine_GetAction (w_store w) (ev_Type evt) (ev_Name evt)) = x" by blast
  ultimately have "engine_GetAction (w_store w) (ev_Type evt) (ev_Name evt) = (w_store w, x)" by simp
  then show ?thesis
    using assms(1) by (auto simp: pinned_allow_gate_def Let_def refuse_def plain_result_def split: sum.splits option.splits if_splits)
qed

lemma pinned_gate_verdict:
  "pinned_allow_gate env w evt = (w', Some res) \<Longrightarrow> res_Verdict res = VerdictBlocked"
  by (auto simp: pinned_allow_gate_def Let_def refuse_def plain_result_def split: prod.splits sum.splits option.splits if_splits)

lemma asset_gate:
  assumes "asset_policy_gate env w evt = (w', r)"
  shows "r = None \<and> w' = w \<or> (\<exists>res. r = Some res \<and> res_Verdict res = VerdictBlocked)"
  using assms by (auto simp: asset_policy_gate_def Let_def refuse_def plain_result_def split: if_splits)

lemma fallback_gate_cases:
  assumes "fallback_gate env profile input evt w = (w', r)"
  shows "(case r of None \<Rightarrow> w' = w | Some res \<Rightarrow>
      res_Verdict res = toVerdict (ao_Verdict (EvaluateAdmissionFallback (env_uni env) input (Some profile))) \<and>
      res_Verdict res \<in> {VerdictBlocked, VerdictAllowed})"
  using assms by (auto simp: fallback_gate_def Let_def refuse_def admit_def plain_result_def toVerdict_def split: if_splits)

lemma prescan_gate_cases:
  assumes "prescan_gate env profile input evt w = (w', r)"
  shows "(case r of None \<Rightarrow> w' = w | Some res \<Rightarrow> res_Verdict res \<in> {VerdictBlocked, VerdictRejected, VerdictAllowed})"
  using assms fallback_gate_cases [of env profile input evt w w' r]
  by (auto simp: prescan_gate_def refuse_def admit_def plain_result_def split: option.splits sum.splits if_splits)

lemma recheck_verdict:
  "recheck_gate env evt result w = (w', Some res) \<Longrightarrow> res_Verdict res \<in> {VerdictBlocked, VerdictAllowed}"
  by (auto simp: recheck_gate_def Let_def scan_result_def plain_result_def split: prod.splits sum.splits bool.splits)

lemmas gate_verdicts = pinned_gate_verdict asset_gate prescan_gate_cases recheck_verdict

abbreviation detected :: "InstallWatcher \<Rightarrow> InstallEvent \<Rightarrow> InstallWatcher" where
  "detected w evt \<equiv> logged [LogAction ''install-detected'' (ev_Path evt)] w"

lemma admission_input_fields [simp]:
  "ai_TargetType (admission_input evt bl al) = ev_Type evt" "ai_TargetName (admission_input evt bl al) = ev_Name evt"
  "ai_Path (admission_input evt bl al) = ev_Path evt" "ai_BlockList (admission_input evt bl al) = bl"
  "ai_AllowList (admission_input evt bl al) = al" "ai_ScanResult (admission_input evt bl al) = None"
  by (simp_all add: admission_input_def)

text \<open>How a run ends: refused before the lists are consulted, decided before the scan, or by the scan.\<close>

lemma decide_event_cases:
  assumes "decide_event env profile input evt w = (w', res)"
  obtains (refused) "res_Verdict res = VerdictBlocked"
  | (prescan) "prescan_gate env profile input evt w = (w', Some res)"
  | (scanned) "prescan_gate env profile input evt w = (w, None)" "scan_phase env profile input evt w = (w', res)"
  using gate_then_cases [OF assms [unfolded decide_event_def]]
proof (elim disjE exE conjE)
  fix w1
  assume a: "asset_policy_gate env w evt = (w1, None)"
    and "gate_then (prescan_gate env profile input evt w1) (scan_phase env profile input evt) = (w', res)"
  moreover have "w1 = w" using asset_gate [OF a] by simp
  ultimately have "gate_then (prescan_gate env profile input evt w) (scan_phase env profile input evt) = (w', res)" by simp
  from gate_then_cases [OF this] show thesis
  proof (elim disjE exE conjE)
    fix w2
    assume p: "prescan_gate env profile input evt w = (w2, None)" and s: "scan_phase env profile input evt w2 = (w', res)"
    have "w2 = w" using prescan_gate_cases [OF p] by simp
    then show thesis using scanned p s by simp
  qed (rule prescan)
next
  assume "asset_policy_gate env w evt = (w', Some res)"
  then show thesis using refused asset_gate by blast
qed

lemma runAdmission_cases:
  assumes "runAdmission env w evt = (w', res)"
  obtains (refused) "res_Verdict res = VerdictBlocked"
  | (decided) profile bl al w1 where "decide_event env profile (admission_input evt bl al) evt w1 = (w', res)"
  using gate_then_cases [OF assms [unfolded runAdmission_def]]
proof (elim disjE exE conjE)
  fix w1
  assume "(case buildListEntries (w_store w1) ''block'' of (pe, blockList) \<Rightarrow> case buildListEntries pe ''allow'' of (pe, allowList) \<Rightarrow>
    decide_event env (admission_profile env (w_cfg w1)) (admission_input evt blockList allowList) evt (w1\<lparr>w_store := pe\<rparr>)) = (w', res)"
  then show thesis using decided by (auto split: prod.splits)
next
  assume "pinned_allow_gate env (detected w evt) evt = (w', Some res)"
  then show thesis using refused pinned_gate_verdict by blast
qed

lemma runAdmission_no_faults:
  assumes "w_store w = Some db" and "db_faults db = []"
  obtains bl al where
    "\<And>bl' al'. on_list bl (admission_input evt bl' al') = listed_as ''block'' db evt"
    "\<And>bl' al'. on_list al (admission_input evt bl' al') = listed_as ''allow'' db evt"
    "\<And>env. runAdmission env w evt = gate_then (pinned_allow_gate env (detected w evt) evt)
       (\<lambda>_. decide_event env (admission_profile env (w_cfg w)) (admission_input evt bl al) evt (detected w evt))"
proof -
  from list_entries [OF assms(2), of "''block''"] obtain bl where bl: "buildListEntries (Some db) ''block'' = (Some db, bl)"
    "\<And>t n. (\<exists>e \<in> set bl. le_TargetType e = t \<and> le_TargetName e = n) =
      (\<exists>r \<in> set (db_actions db). ar_TargetType r = t \<and> ar_TargetName r = n \<and> json_get ''install'' (ar_Actions r) = Some ''block'')" by auto
  from list_entries [OF assms(2), of "''allow''"] obtain al where al: "buildListEntries (Some db) ''allow'' = (Some db, al)"
    "\<And>t n. (\<exists>e \<in> set al. le_TargetType e = t \<and> le_TargetName e = n) =
      (\<exists>r \<in> set (db_actions db). ar_TargetType r = t \<and> ar_TargetName r = n \<and> json_get ''install'' (ar_Actions r) = Some ''allow'')" by auto
  have pin: "pinned_allow_gate env (detected w evt) evt = (w1, None) \<Longrightarrow> w1 = detected w evt" for w1 env
    using pinned_gate [of env "detected w evt" evt w1 None] assms by (simp add: no_faults_def)
  have cont: "gate_then (pinned_allow_gate env (detected w evt) evt) f = gate_then (pinned_allow_gate env (detected w evt) evt) (\<lambda>_. f (detected w evt))" for f env
    using pin [of env] by (cases "pinned_allow_gate env (detected w evt) evt") (auto simp: gate_then_def split: option.splits)
  have keep: "(detected w evt)\<lparr>w_store := Some db\<rparr> = detected w evt" using assms(1) by (simp add: logged_def)
  show thesis
  proof (rule that)
    show "on_list bl (admission_input evt bl' al') = listed_as ''block'' db evt"
      "on_list al (admission_input evt bl' al') = listed_as ''allow'' db evt" for bl' al'
      using bl(2) al(2) by (simp_all add: on_list_entries listed_as_def list_ex_iff)
    show "runAdmission env w evt = gate_then (pinned_allow_gate env (detected w evt) evt)
       (\<lambda>_. decide_event env (admission_profile env (w_cfg w)) (admission_input evt bl al) evt (detected w evt))" for env
      unfolding runAdmission_def by (subst cont) (simp add: assms(1) bl(1) al(1) keep)
  qed
qed

subsection \<open>What admission guarantees\<close>

text \<open>The Rego policy's part of the contract: an input on its block list is never answered with allowed.\<close>

definition opa_honours_blocks :: "admission_env \<Rightarrow> bool" where
  "opa_honours_blocks env \<longleftrightarrow> (\<forall>Evaluate. env_opa env = Some Evaluate \<longrightarrow>
     (\<forall>input out. on_list (ai_BlockList input) input \<and> Evaluate input = Inr out \<longrightarrow> ao_Verdict out \<noteq> ''allowed''))"

lemma prescan_blocks:
  assumes "on_list (ai_BlockList input) input" and "opa_honours_blocks env"
  shows "\<exists>res. snd (prescan_gate env profile input evt w) = Some res \<and> res_Verdict res \<in> {VerdictBlocked, VerdictRejected}"
proof -
  have fb: "ao_Verdict (EvaluateAdmissionFallback (env_uni env) input (Some profile)) = ''blocked''"
    using assms(1) by (simp add: EvaluateAdmissionFallback_def Let_def verdict_only_def)
  then have fbg: "fallback_gate env profile input evt w =
      refuse env w evt ''install-rejected'' ''blocked'' VerdictBlocked (ao_Reason (EvaluateAdmissionFallback (env_uni env) input (Some profile)))"
    by (simp add: fallback_gate_def Let_def)
  show ?thesis
  proof (cases "env_opa env")
    case None
    then show ?thesis by (simp add: prescan_gate_def fbg refuse_def plain_result_def)
  next
    case (Some Evaluate)
    then have "Evaluate input = Inr out \<Longrightarrow> ao_Verdict out \<noteq> ''allowed''" for out
      using assms by (auto simp: opa_honours_blocks_def)
    then show ?thesis using Some by (cases "Evaluate input") (auto simp: prescan_gate_def fbg refuse_def plain_result_def)
  qed
qed

text \<open>
  The scanners enter a run only through \<open>newScanner\<close>, which asks the factory first: a run that is the same for every
  factory has not called a scanner.
\<close>

definition decided_before_scan :: "admission_env \<Rightarrow> InstallWatcher \<Rightarrow> InstallEvent \<Rightarrow> bool" where
  "decided_before_scan env w evt \<longleftrightarrow> (\<forall>f. runAdmission (env\<lparr>env_factory := f\<rparr>) w evt = runAdmission env w evt)"

lemma env_factory_fields: "env_uni (env\<lparr>env_factory := f\<rparr>) = env_uni env" "env_Getwd (env\<lparr>env_factory := f\<rparr>) = env_Getwd env"
  by simp_all

lemma preserve_factory: "preserveRestoredBlockedAsset (env\<lparr>env_factory := f\<rparr>) = preserveRestoredBlockedAsset env"
  unfolding preserveRestoredBlockedAsset_def env_factory_fields by (rule refl)

lemma quarantineAsset_factory: "quarantineAsset (env\<lparr>env_factory := f\<rparr>) = quarantineAsset env"
  by (intro ext) (simp add: quarantineAsset_def preserve_factory)

lemma enforceBlock_factory: "enforceBlock (env\<lparr>env_factory := f\<rparr>) = enforceBlock env"
  by (intro ext) (simp add: enforceBlock_def quarantineAsset_factory)

lemma refuse_factory: "refuse (env\<lparr>env_factory := f\<rparr>) = refuse env"
  by (intro ext) (simp add: refuse_def enforceBlock_factory)

lemma fallback_gate_factory: "fallback_gate (env\<lparr>env_factory := f\<rparr>) = fallback_gate env"
  by (intro ext) (simp add: fallback_gate_def refuse_factory cong: if_cong)

lemma gates_factory [simp]:
  "pinned_allow_gate (env\<lparr>env_factory := f\<rparr>) w evt = pinned_allow_gate env w evt"
  "asset_policy_gate (env\<lparr>env_factory := f\<rparr>) w evt = asset_policy_gate env w evt"
  "prescan_gate (env\<lparr>env_factory := f\<rparr>) profile input evt w = prescan_gate env profile input evt w"
  "admission_profile (env\<lparr>env_factory := f\<rparr>) cfg = admission_profile env cfg"
  unfolding pinned_allow_gate_def asset_policy_gate_def prescan_gate_def refuse_factory fallback_gate_factory admission_profile_def
  by simp_all

lemma decide_event_early:
  assumes "decide_event env profile input evt w = (w', res)"
  obtains (early) "\<And>f. decide_event (env\<lparr>env_factory := f\<rparr>) profile input evt w = (w', res)"
      "res_Verdict res \<in> {VerdictBlocked, VerdictRejected, VerdictAllowed}"
  | (scanned) "snd (prescan_gate env profile input evt w) = None" "scan_phase env profile input evt w = (w', res)"
proof (cases "asset_policy_gate env w evt")
  case asset: (Pair w1 r)
  show thesis
  proof (cases r)
    case (Some res1)
    then have "decide_event (env\<lparr>env_factory := f\<rparr>) profile input evt w = (w', res)" for f
      using assms asset by (simp add: decide_event_def gate_then_def)
    moreover have "res1 = res" using assms asset Some by (simp add: decide_event_def gate_then_def)
    ultimately show thesis using early asset_gate [OF asset] Some by simp
  next
    case None
    then have w1: "w1 = w" using asset_gate [OF asset] by simp
    obtain w2 r2 where pre: "prescan_gate env profile input evt w = (w2, r2)" by fastforce
    show thesis
    proof (cases r2)
      case (Some res2)
      then have "decide_event (env\<lparr>env_factory := f\<rparr>) profile input evt w = (w', res)" for f
        using assms asset None pre w1 by (simp add: decide_event_def gate_then_def)
      moreover have "res2 = res" using assms asset None pre w1 Some by (simp add: decide_event_def gate_then_def)
      ultimately show thesis using early prescan_gate_cases [OF pre] Some by simp
    next
      case none2: None
      then have "w2 = w" using prescan_gate_cases [OF pre] by simp
      then show thesis using assms asset None pre none2 w1 scanned by (simp add: decide_event_def gate_then_def)
    qed
  qed
qed

text \<open>A run is decided before any scan, or it ends as its scan does.\<close>

lemma runAdmission_early:
  assumes "runAdmission env w evt = (w', res)"
  obtains (early) "decided_before_scan env w evt" "res_Verdict res \<in> {VerdictBlocked, VerdictRejected, VerdictAllowed}"
  | (scanned) profile bl al w1 where "snd (prescan_gate env profile (admission_input evt bl al) evt w1) = None"
      "scan_phase env profile (admission_input evt bl al) evt w1 = (w', res)"
proof (cases "pinned_allow_gate env (detected w evt) evt")
  case pin: (Pair w1 r)
  show thesis
  proof (cases r)
    case (Some res1)
    then have "decided_before_scan env w evt" "res1 = res"
      using assms pin by (simp_all add: decided_before_scan_def runAdmission_def gate_then_def)
    then show thesis using early pinned_gate_verdict [of env "detected w evt" evt w1] pin Some by simp
  next
    case None
    obtain pe bl where bl: "buildListEntries (w_store w1) ''block'' = (pe, bl)" by fastforce
    obtain pe' al where al: "buildListEntries pe ''allow'' = (pe', al)" by fastforce
    have run: "runAdmission (env\<lparr>env_factory := f\<rparr>) w evt =
        decide_event (env\<lparr>env_factory := f\<rparr>) (admission_profile env (w_cfg w1)) (admission_input evt bl al) evt (w1\<lparr>w_store := pe'\<rparr>)" for f
      using pin None bl al by (simp add: runAdmission_def gate_then_def)
    have "decide_event env (admission_profile env (w_cfg w1)) (admission_input evt bl al) evt (w1\<lparr>w_store := pe'\<rparr>) = (w', res)"
      using assms pin None bl al by (simp add: runAdmission_def gate_then_def)
    then show thesis
    proof (cases rule: decide_event_early)
      case early_d: early
      have "decided_before_scan env w evt" unfolding decided_before_scan_def run early_d(1) assms by simp
      then show thesis using early early_d(2) by simp
    qed (rule scanned)
  qed
qed

text \<open>
  The lists handed to the policy are read without the connector column: a block entry for any connector refuses the asset
  before it is scanned.
\<close>

lemma listed_block_refuses:
  assumes "w_store w = Some db" and "db_faults db = []" and "listed_as ''block'' db evt" and "opa_honours_blocks env"
  shows "res_Verdict (snd (runAdmission env w evt)) \<in> {VerdictBlocked, VerdictRejected} \<and> decided_before_scan env w evt"
proof -
  obtain bl al where bl: "\<And>bl' al'. on_list bl (admission_input evt bl' al') = listed_as ''block'' db evt"
      "\<And>bl' al'. on_list al (admission_input evt bl' al') = listed_as ''allow'' db evt"
    and run: "\<And>env. runAdmission env w evt = gate_then (pinned_allow_gate env (detected w evt) evt)
       (\<lambda>_. decide_event env (admission_profile env (w_cfg w)) (admission_input evt bl al) evt (detected w evt))"
    by (rule runAdmission_no_faults [OF assms(1,2), where evt = evt]) (rule that)
  let ?in = "admission_input evt bl al" and ?p = "admission_profile env (w_cfg w)"
  have on: "on_list (ai_BlockList ?in) ?in" using bl assms(3) by simp
  note blocks = prescan_blocks [OF on assms(4), of ?p evt "detected w evt"]
  obtain w1 res where d: "decide_event env ?p ?in evt (detected w evt) = (w1, res)" by fastforce
  have verdict: "res_Verdict res \<in> {VerdictBlocked, VerdictRejected}"
    using d by (cases rule: decide_event_cases) (use blocks in auto)
  have same: "decide_event (env\<lparr>env_factory := f\<rparr>) ?p ?in evt (detected w evt) = (w1, res)" for f
    using d by (cases rule: decide_event_early) (use blocks in simp_all)
  have "runAdmission (env\<lparr>env_factory := f\<rparr>) w evt = runAdmission env w evt" for f
    unfolding run by (simp add: same d)
  then show ?thesis
    using d verdict pinned_gate_verdict [of env "detected w evt" evt]
    by (cases "pinned_allow_gate env (detected w evt) evt")
      (auto simp: decided_before_scan_def run gate_then_def split: option.splits)
qed

text \<open>A block by the policy engine's own rule, the connector's entry before the global one, is an entry of the list.\<close>

lemma engine_block_listed:
  assumes "action_inv db" and "snd (IsBlockedForConnector (Some db) (ev_Type evt) (ev_Name evt) c) = Inr True"
  shows "listed_as ''block'' db evt"
proof -
  obtain db' r where q: "(let global = (\<lambda>db. HasAction db (ev_Type evt) (ev_Name evt) ''install'' ''block'')
      in if c \<noteq> [] then scoped_or_global (actionFieldForConnector db (ev_Type evt) (ev_Name evt) c ''install'') ''block'' global
         else global db) = (db', r)" by fastforce
  have "snd (IsBlockedForConnector (Some db) (ev_Type evt) (ev_Name evt) c) = r"
    unfolding IsBlockedForConnector_def on_store_def option.case q by simp
  then have "most_specific (\<lambda>c. cell db (ev_Type evt, ev_Name evt, c) ''install'') c = Some ''block''"
    using column_query [OF q assms(1) action_values_valid(1)] assms(2) by auto
  then obtain c' where "cell db (ev_Type evt, ev_Name evt, c') ''install'' = Some ''block''"
    by (auto simp: most_specific_def split: if_splits)
  then obtain r where "find (\<lambda>r. row_key r = (ev_Type evt, ev_Name evt, c')) (db_actions db) = Some r"
    "json_get ''install'' (ar_Actions r) = Some ''block''"
    by (auto simp: cell_def row_at_def bind_eq_Some_conv)
  then show ?thesis
    by (auto simp: listed_as_def list_ex_iff find_Some_iff row_key_def intro!: bexI [of _ r])
qed

text \<open>
  C2. An asset that is blocked for its connector, by the connector's own entry or else by the global one (the rule of
  \<open>IsBlockedForConnector\<close>), is refused before any scan: the verdict is blocked, or rejected when the Rego engine says so, and
  the run is the same whatever scanner is installed.  The engine is only assumed not to allow what its own block list names,
  and the store not to fail.
\<close>

theorem blocked_asset_refused:
  assumes "w_store w = Some db" and "db_faults db = []" and "action_inv db" and "opa_honours_blocks env"
    and "snd (IsBlockedForConnector (Some db) (ev_Type evt) (ev_Name evt) (eventConnector (env_uni env) (w_cfg w) evt)) = Inr True"
  shows "res_Verdict (snd (runAdmission env w evt)) \<in> {VerdictBlocked, VerdictRejected} \<and> decided_before_scan env w evt"
  by (rule listed_block_refuses [OF assms(1,2) engine_block_listed [OF assms(3,5)] assms(4)])

lemma postscan_result:
  assumes "postscan env profile input evt name result w = (w', res)"
  shows "res_FindingCount res = length (sr_Findings result)"
    and "env_opa env = None \<Longrightarrow> res_Verdict res \<in> {VerdictClean, VerdictWarning} \<Longrightarrow>
      (res_Verdict res = VerdictClean) = (sr_Findings result = [])"
proof -
  show "res_FindingCount res = length (sr_Findings result)"
    using assms by (auto simp: postscan_def Let_def scan_result_def)
  let ?in = "input\<lparr>ai_ScanResult := Some \<lparr>sri_MaxSeverity = MaxSeverity result, sri_TotalFindings = int (length (sr_Findings result)),
    sri_ScannerName = name, sri_Findings = toFindingInputs (sr_Findings result), sri_ExitCode = 0, sri_ScanError = []\<rparr>\<rparr>"
  assume "env_opa env = None" "res_Verdict res \<in> {VerdictClean, VerdictWarning}"
  moreover from this have "res_Verdict res = toVerdict (ao_Verdict (EvaluateAdmissionFallback (env_uni env) ?in (Some profile)))"
    using assms by (auto simp: postscan_def Let_def scan_result_def plain_result_def)
  moreover have "sri_TotalFindings (the (ai_ScanResult ?in)) = int (length (sr_Findings result))" "ai_ScanResult ?in \<noteq> None" by simp_all
  ultimately show "(res_Verdict res = VerdictClean) = (sr_Findings result = [])"
    by (auto simp: EvaluateAdmissionFallback_def Let_def verdict_only_def evaluate_scan_verdict toVerdict_def scan_failed_def
        split: option.splits if_splits)
qed

definition sample_scanner :: "string + ScanResult \<Rightarrow> Scanner" where
  "sample_scanner r = \<lparr>sc_Name = ''skill-scanner'', sc_Scan = (\<lambda>path store. (store, r))\<rparr>"

definition sample_env :: "(AdmissionInput \<Rightarrow> string + AdmissionOutput) option \<Rightarrow> Scanner \<Rightarrow> admission_env" where
  "sample_env opa s = \<lparr>env_uni = plain_map, env_Join = concat, env_ReadFile = (\<lambda>_. None), env_Unmarshal = (\<lambda>_. None),
     env_Getwd = Some ''/'', env_opa = opa, env_factory = None, env_SkillScanner = s, env_MCPScanner = s, env_PluginScanner = s\<rparr>"

definition sample_watcher :: "ActionRow list \<Rightarrow> InstallWatcher" where
  "sample_watcher rows =
     \<lparr>w_cfg = \<lparr>cfg_Guardrail = sample_guardrail, cfg_ApplicationProtection = cfg_ApplicationProtection sample_config,
        cfg_ClawMode = ''codex'', cfg_DeploymentMode = [], cfg_AssetPolicy = DefaultAssetPolicy, cfg_PolicyDir = [],
        cfg_SkillTakeAction = True, cfg_PluginTakeAction = True, cfg_MCPTakeAction = True, cfg_AutoBlock = True\<rparr>,
      w_pluginDirs = [''/p''], w_store = Some (policy_db rows), w_enforced = [], w_log = []\<rparr>"

definition install_event :: "string \<Rightarrow> string \<Rightarrow> string \<Rightarrow> InstallEvent" where
  "install_event t n path = \<lparr>ev_Type = t, ev_Name = n, ev_Path = path, ev_Connector = [], ev_Timestamp = 0\<rparr>"

theorem blocked_asset_refused_witness:
  "eventConnector plain_map (w_cfg (sample_watcher [])) (install_event ''mcp'' ''files'' ''/m/files'') = ''codex'' \<and>
   (let env = sample_env None (sample_scanner (Inr \<lparr>sr_Findings = [], sr_ExitCode = 0, sr_ScanError = []\<rparr>));
        w = sample_watcher [policy_row [] ''allow'', policy_row ''codex'' ''block'']; evt = install_event ''mcp'' ''files'' ''/m/files''
    in res_Verdict (snd (runAdmission env w evt)) \<in> {VerdictBlocked, VerdictRejected} \<and> decided_before_scan env w evt)"
  unfolding Let_def
proof
  show c: "eventConnector plain_map (w_cfg (sample_watcher [])) (install_event ''mcp'' ''files'' ''/m/files'') = ''codex''" by code_simp
  let ?rows = "[policy_row [] ''allow'', policy_row ''codex'' ''block'']" and ?evt = "install_event ''mcp'' ''files'' ''/m/files''"
  let ?env = "sample_env None (sample_scanner (Inr \<lparr>sr_Findings = [], sr_ExitCode = 0, sr_ScanError = []\<rparr>))"
  have c': "eventConnector (env_uni ?env) (w_cfg (sample_watcher ?rows)) ?evt = ''codex''"
    using c by (simp add: sample_env_def sample_watcher_def)
  show "res_Verdict (snd (runAdmission ?env (sample_watcher ?rows) ?evt)) \<in> {VerdictBlocked, VerdictRejected} \<and>
      decided_before_scan ?env (sample_watcher ?rows) ?evt"
  proof (rule blocked_asset_refused)
    show "w_store (sample_watcher ?rows) = Some (policy_db ?rows)" by (simp add: sample_watcher_def)
    show "db_faults (policy_db ?rows) = []" by (simp add: policy_db_def)
    show "action_inv (policy_db ?rows)" unfolding action_inv_def by code_simp
    show "opa_honours_blocks ?env" by (simp add: opa_honours_blocks_def sample_env_def)
    show "snd (IsBlockedForConnector (Some (policy_db ?rows)) (ev_Type ?evt) (ev_Name ?evt)
        (eventConnector (env_uni ?env) (w_cfg (sample_watcher ?rows)) ?evt)) = Inr True"
      unfolding c' by code_simp
  qed
qed

lemma scan_phase_cases:
  assumes "scan_phase env profile input evt w = (w', res)"
  obtains (none) "newScanner env evt = None" "res_Verdict res = VerdictScanError"
  | (failed) s store err where "newScanner env evt = Some s" "sc_Scan s (ev_Path evt) (w_store w) = (store, Inl err)"
      "res_Verdict res = VerdictBlocked" "res_InstallAction res = ''block''"
  | (manual) s store result where "newScanner env evt = Some s" "sc_Scan s (ev_Path evt) (w_store w) = (store, Inr result)"
      "recheck_gate env evt result (w\<lparr>w_store := store\<rparr>) = (w', Some res)"
  | (judged) s store result w1 where "newScanner env evt = Some s" "sc_Scan s (ev_Path evt) (w_store w) = (store, Inr result)"
      "recheck_gate env evt result (w\<lparr>w_store := store\<rparr>) = (w1, None)" "postscan env profile input evt (sc_Name s) result w1 = (w', res)"
proof (cases "newScanner env evt")
  case None
  then show thesis using assms none by (simp add: scan_phase_def plain_result_def) (metis AdmissionResult.select_convs(2))
next
  case (Some s)
  obtain store r where r: "sc_Scan s (ev_Path evt) (w_store w) = (store, r)" by fastforce
  show thesis
  proof (cases r)
    case (Inl err)
    then have "res = (plain_result evt VerdictBlocked (''scanner failure (fail-closed): '' @ err))\<lparr>res_InstallAction := ''block''\<rparr>"
      using assms Some r by (simp add: scan_phase_def Let_def)
    then show thesis using failed [OF Some] r Inl by (simp add: plain_result_def)
  next
    case (Inr result)
    then have "gate_then (recheck_gate env evt result (w\<lparr>w_store := store\<rparr>)) (postscan env profile input evt (sc_Name s) result) = (w', res)"
      using assms Some r by (simp add: scan_phase_def)
    from gate_then_cases [OF this] show thesis using manual judged Some r Inr by blast
  qed
qed

text \<open>
  C19. An asset is reported clean or with a warning only after a scan that returned a result; the count in the verdict is that of
  this scan and, with the built-in policy, clean means that the scan found nothing.
\<close>

theorem clean_verdict_needs_scan:
  assumes "runAdmission env w evt = (w', res)" and "res_Verdict res \<in> {VerdictClean, VerdictWarning}"
  shows "\<exists>s store store' result. newScanner env evt = Some s \<and> sc_Scan s (ev_Path evt) store = (store', Inr result) \<and>
    res_FindingCount res = length (sr_Findings result) \<and>
    (env_opa env = None \<longrightarrow> (res_Verdict res = VerdictClean) = (sr_Findings result = []))"
  using assms(1)
proof (cases rule: runAdmission_cases)
  case (decided profile bl al w1)
  then show ?thesis
  proof (cases rule: decide_event_cases)
    case prescan
    then show ?thesis using prescan_gate_cases [OF prescan] assms(2) by auto
  next
    case scanned
    from scanned(2) show ?thesis
    proof (cases rule: scan_phase_cases)
      case (manual s store result)
      then show ?thesis using recheck_verdict [OF manual(3)] assms(2) by auto
    next
      case (judged s store result w2)
      show ?thesis
        by (intro exI [of _ s] exI [of _ "w_store w1"] exI [of _ store] exI [of _ result] conjI judged(1,2) impI
            postscan_result(1) [OF judged(4)] postscan_result(2) [OF judged(4) _ assms(2)])
    qed (use assms(2) in auto)
  qed (use assms(2) in auto)
qed (use assms(2) in auto)

theorem clean_verdict_needs_scan_witness:
  "let env = sample_env None (sample_scanner (Inr \<lparr>sr_Findings = [], sr_ExitCode = 0, sr_ScanError = []\<rparr>));
       res = snd (runAdmission env (sample_watcher []) (install_event ''skill'' ''notes'' ''/s/notes''))
   in res_Verdict res = VerdictClean \<and> (\<exists>s. newScanner env (install_event ''skill'' ''notes'' ''/s/notes'') = Some s)"
proof -
  let ?env = "sample_env None (sample_scanner (Inr \<lparr>sr_Findings = [], sr_ExitCode = 0, sr_ScanError = []\<rparr>))"
  let ?run = "runAdmission ?env (sample_watcher []) (install_event ''skill'' ''notes'' ''/s/notes'')"
  have v: "res_Verdict (snd ?run) = VerdictClean" by code_simp
  have run: "?run = (fst ?run, snd ?run)" by simp
  from clean_verdict_needs_scan [OF run] v show ?thesis unfolding Let_def by auto
qed

lemma scan_phase_failed:
  assumes "scan_phase env profile input evt w = (w', res)" and "newScanner env evt = Some s"
    and "sc_Scan s (ev_Path evt) (w_store w) = (store, Inl err)"
  shows "res_Verdict res = VerdictBlocked" and "res_InstallAction res = ''block''"
    and "LogAction ''install-blocked'' (ev_Path evt) \<in> set (w_log w')"
  using assms by (auto simp: scan_phase_def Let_def plain_result_def logged_def)

text \<open>
  C32. A scanner that fails never lets an asset through.  If every scan of the asset ends in an error, then either the run was
  decided by the lists and the policy before any scan, and would have ended the same with every other scanner, or the asset is
  blocked: the verdict is blocked, the install action is block and the log has the entry install-blocked.
\<close>

theorem scan_failure_fails_closed:
  assumes "runAdmission env w evt = (w', res)" and "newScanner env evt = Some s"
    and "\<forall>store. \<exists>store' err. sc_Scan s (ev_Path evt) store = (store', Inl err)"
  shows "decided_before_scan env w evt \<and> res_Verdict res \<in> {VerdictBlocked, VerdictRejected, VerdictAllowed} \<or>
    res_Verdict res = VerdictBlocked \<and> res_InstallAction res = ''block'' \<and>
    LogAction ''install-blocked'' (ev_Path evt) \<in> set (w_log w')"
  using assms(1)
proof (cases rule: runAdmission_early)
  case (scanned profile bl al w1)
  obtain store err where "sc_Scan s (ev_Path evt) (w_store w1) = (store, Inl err)" using assms(3) by blast
  from scan_phase_failed [OF scanned(2) assms(2) this] show ?thesis by simp
qed simp

theorem scan_failure_fails_closed_witness:
  "res_Verdict (snd (runAdmission (sample_env None (sample_scanner (Inl ''timeout''))) (sample_watcher []) (install_event ''skill'' ''notes'' ''/s/notes'')))
     = VerdictBlocked"
proof -
  let ?env = "sample_env None (sample_scanner (Inl ''timeout''))" and ?evt = "install_event ''skill'' ''notes'' ''/s/notes''"
  let ?clean = "?env\<lparr>env_factory := Some (\<lambda>_. Some (sample_scanner (Inr \<lparr>sr_Findings = [], sr_ExitCode = 0, sr_ScanError = []\<rparr>)))\<rparr>"
  let ?run = "runAdmission ?env (sample_watcher []) ?evt"
  have s: "newScanner ?env ?evt = Some (sample_scanner (Inl ''timeout''))"
    by (simp add: newScanner_def scannerFor_def sample_env_def install_event_def)
  have err: "\<forall>store. \<exists>store' err. sc_Scan (sample_scanner (Inl ''timeout'')) (ev_Path ?evt) store = (store', Inl err)"
    by (simp add: sample_scanner_def)
  have "res_Verdict (snd (runAdmission ?clean (sample_watcher []) ?evt)) \<noteq> res_Verdict (snd ?run)" by code_simp
  then have "runAdmission ?clean (sample_watcher []) ?evt \<noteq> ?run" by (rule contrapos_nn) (simp only:)
  then have "\<not> decided_before_scan ?env (sample_watcher []) ?evt" unfolding decided_before_scan_def by blast
  then show ?thesis using scan_failure_fails_closed [OF prod.collapse [symmetric] s err, of "sample_watcher []"] by simp
qed

text \<open>
  A manual decision made while the scan was running wins over its result.  When the table a scan leaves behind has a global
  block entry for the asset, the run ends blocked and the asset is taken out of use, however clean the scan was; with a
  global allow entry instead, it ends allowed and nothing is enforced.
\<close>

theorem manual_entry_wins_over_scan:
  assumes "newScanner env evt = Some s" and "sc_Scan s (ev_Path evt) (w_store w) = (Some db, Inr result)"
    and "db_faults db = []" and "action_inv db" and "scan_phase env profile input evt w = (w', res)"
  shows "(cell db (ev_Type evt, ev_Name evt, []) ''install'' = Some ''block'' \<longrightarrow>
      res_Verdict res = VerdictBlocked \<and> res_InstallAction res = ''block'') \<and>
    (cell db (ev_Type evt, ev_Name evt, []) ''install'' = Some ''allow'' \<longrightarrow>
      res_Verdict res = VerdictAllowed \<and> w_enforced w' = w_enforced w \<and> w_store w' = Some db)"
proof -
  have ask: "HasAction db (ev_Type evt) (ev_Name evt) ''install'' v = (db, Inr (cell db (ev_Type evt, ev_Name evt, []) ''install'' = Some v))"
    if v: "validateActionFieldAndValue ''install'' v = None" for v
  proof -
    obtain r where q: "HasAction db (ev_Type evt) (ev_Name evt) ''install'' v = (db, Inr r)"
      using v assms(3) by (simp add: HasAction_def HasActionForConnector_def query_no_fault)
    with has_action_result [OF q [unfolded HasAction_def] assms(4) v] show ?thesis by simp
  qed
  have run: "gate_then (recheck_gate env evt result (w\<lparr>w_store := Some db\<rparr>)) (postscan env profile input evt (sc_Name s) result) = (w', res)"
    using assms(1,2,5) by (simp add: scan_phase_def)
  show ?thesis
    using run ask [OF action_values_valid(1)] ask [OF action_values_valid(2)]
    by (auto simp: recheck_gate_def Let_def IsBlocked_def IsAllowed_def on_store_def gate_then_def scan_result_def plain_result_def)
qed

definition racing_scanner :: Scanner where
  "racing_scanner = \<lparr>sc_Name = ''mcp-scanner'', sc_Scan = (\<lambda>path store.
     (Some (policy_db [policy_row [] ''block'']), Inr \<lparr>sr_Findings = [], sr_ExitCode = 0, sr_ScanError = []\<rparr>))\<rparr>"

theorem manual_entry_wins_over_scan_witness:
  "res_Verdict (snd (scan_phase (sample_env None racing_scanner) defaultFallbackProfile (admission_input (install_event ''mcp'' ''files'' ''/m'') [] [])
     (install_event ''mcp'' ''files'' ''/m'') (sample_watcher []))) = VerdictBlocked"
proof -
  let ?evt = "install_event ''mcp'' ''files'' ''/m''"
  let ?db = "policy_db [policy_row [] ''block'']"
  let ?run = "scan_phase (sample_env None racing_scanner) defaultFallbackProfile (admission_input ?evt [] []) ?evt (sample_watcher [])"
  have s: "newScanner (sample_env None racing_scanner) ?evt = Some racing_scanner"
    by (simp add: newScanner_def scannerFor_def sample_env_def install_event_def)
  have sc: "sc_Scan racing_scanner (ev_Path ?evt) (w_store (sample_watcher [])) =
      (Some ?db, Inr \<lparr>sr_Findings = [], sr_ExitCode = 0, sr_ScanError = []\<rparr>)" by (simp add: racing_scanner_def)
  have f: "db_faults ?db = []" by (simp add: policy_db_def)
  have i: "action_inv ?db" unfolding action_inv_def by code_simp
  have c: "cell ?db (ev_Type ?evt, ev_Name ?evt, []) ''install'' = Some ''block''" by code_simp
  show ?thesis using manual_entry_wins_over_scan [OF s sc f i prod.collapse [symmetric]] c by simp
qed

subsection \<open>Where admission departs from its description\<close>

lemma fallback_allows:
  assumes "\<not> on_list (ai_BlockList input) input" and "on_list (ai_AllowList input) input"
  shows "ao_Verdict (EvaluateAdmissionFallback uni input profile) = ''allowed''"
  using assms by (simp add: EvaluateAdmissionFallback_def Let_def verdict_only_def split: option.splits)

lemma prescan_fallback:
  assumes "\<forall>Evaluate. env_opa env = Some Evaluate \<longrightarrow> (\<forall>out. Evaluate input = Inr out \<longrightarrow> ao_Verdict out = ''scan'')"
  shows "prescan_gate env profile input evt w = fallback_gate env profile input evt w"
  using assms by (auto simp: prescan_gate_def split: option.splits sum.splits)

text \<open>
  The verdict scan of the Rego engine does not lead to a scan.  An engine that demands a scan for every asset is
  overruled by the built-in policy, which runs whenever the engine has not blocked, rejected or allowed: a skill named
  codeguard in a directory whose name merely starts like the trusted one is allowed without a scan, whatever the scanner
  would have found, although the component matching of the Rego policy does not recognise that directory.
\<close>

theorem rego_scan_verdict_overruled:
  "res_Verdict (snd (runAdmission (sample_env (Some (\<lambda>input. Inr (verdict_only ''scan'' ''scan required''))) s)
     (sample_watcher []) (install_event ''skill'' ''codeguard'' ''/tmp/.defenseclaw-evil/codeguard''))) = VerdictAllowed"
proof -
  let ?env = "sample_env (Some (\<lambda>input. Inr (verdict_only ''scan'' ''scan required''))) s"
  let ?evt = "install_event ''skill'' ''codeguard'' ''/tmp/.defenseclaw-evil/codeguard''"
  let ?w = "detected (sample_watcher []) ?evt"
  let ?in = "admission_input ?evt [] []"
  have env: "env_uni ?env = plain_map" "admission_profile ?env (w_cfg ?w) = defaultFallbackProfile"
    by (simp_all add: sample_env_def admission_profile_def LoadFallbackProfile_def sample_watcher_def)
  have pin: "pinned_allow_gate ?env ?w ?evt = (?w, None)"
    by (simp add: pinned_allow_gate_def engine_GetAction_def on_store_def store_GetAction_def GetActionForConnector_def query_no_fault
        sample_watcher_def policy_db_def logged_def)
  have lists: "buildListEntries (w_store ?w) ''block'' = (w_store ?w, [])" "buildListEntries (w_store ?w) ''allow'' = (w_store ?w, [])"
    by code_simp+
  have keep: "?w\<lparr>w_store := w_store ?w\<rparr> = ?w" by simp
  have asset: "asset_policy_gate ?env ?w ?evt = (?w, None)"
    by (simp add: asset_policy_gate_def EvaluateAssetPolicy_def Let_def sample_watcher_def DefaultAssetPolicy_def logged_def)
  have fb: "ao_Verdict (EvaluateAdmissionFallback plain_map ?in (Some defaultFallbackProfile)) = ''allowed''" by code_simp
  have pre: "prescan_gate ?env defaultFallbackProfile ?in ?evt ?w = fallback_gate ?env defaultFallbackProfile ?in ?evt ?w"
    by (rule prescan_fallback) (simp add: sample_env_def verdict_only_def)
  have "runAdmission ?env (sample_watcher []) ?evt = decide_event ?env defaultFallbackProfile ?in ?evt ?w"
    unfolding runAdmission_def gate_then_def pin by (simp only: prod.case option.case lists env keep)
  also have "\<dots> = gate_then (fallback_gate ?env defaultFallbackProfile ?in ?evt ?w) (scan_phase ?env defaultFallbackProfile ?in ?evt)"
    unfolding decide_event_def asset gate_then_def [of "(?w, None)"] by (simp only: prod.case option.case pre)
  finally have run: "runAdmission ?env (sample_watcher []) ?evt =
    gate_then (fallback_gate ?env defaultFallbackProfile ?in ?evt ?w) (scan_phase ?env defaultFallbackProfile ?in ?evt)" .
  show ?thesis unfolding run fallback_gate_def Let_def env(1) fb by (simp add: gate_then_def admit_def plain_result_def)
qed

text \<open>
  An allow for one connector admits the asset for every connector.  The lists handed to the policy are read without the
  connector column, so an asset that is allowed only for another connector, and is not allowed for its own one by the
  policy engine's most-specific rule, is admitted without a scan.
\<close>

theorem scoped_allow_admits_any_connector:
  assumes "w_store w = Some db" and "db_faults db = []" and "action_inv db" and "env_opa env = None"
    and "\<not> as_Enabled (cfg_AssetPolicy (w_cfg w))" and "listed_as ''allow'' db evt" and "\<not> listed_as ''block'' db evt"
    and "row_at (db_actions db) (ev_Type evt, ev_Name evt, []) = None"
    and "cell db (ev_Type evt, ev_Name evt, eventConnector (env_uni env) (w_cfg w) evt) ''install'' \<noteq> Some ''allow''"
  shows "res_Verdict (snd (runAdmission env w evt)) = VerdictAllowed \<and>
    snd (IsAllowedForConnector (Some db) (ev_Type evt) (ev_Name evt) (eventConnector (env_uni env) (w_cfg w) evt)) \<noteq> Inr True"
proof -
  let ?c = "eventConnector (env_uni env) (w_cfg w) evt"
  obtain bl al where lists: "\<And>bl' al'. on_list bl (admission_input evt bl' al') = listed_as ''block'' db evt"
      "\<And>bl' al'. on_list al (admission_input evt bl' al') = listed_as ''allow'' db evt"
    and run: "\<And>env. runAdmission env w evt = gate_then (pinned_allow_gate env (detected w evt) evt)
       (\<lambda>_. decide_event env (admission_profile env (w_cfg w)) (admission_input evt bl al) evt (detected w evt))"
    by (rule runAdmission_no_faults [OF assms(1,2), where evt = evt]) (rule that)
  have pin: "snd (pinned_allow_gate env (detected w evt) evt) = None"
    using assms(1,2,8) by (simp add: pinned_allow_gate_def engine_GetAction_def on_store_def store_GetAction_def
        GetActionForConnector_def query_no_fault row_at_def)
  have asset: "asset_policy_gate env (detected w evt) evt = (detected w evt, None)"
    using assms(5) by (simp add: asset_policy_gate_def EvaluateAssetPolicy_def Let_def)
  have "ao_Verdict (EvaluateAdmissionFallback (env_uni env) (admission_input evt bl al) (Some (admission_profile env (w_cfg w)))) = ''allowed''"
    by (rule fallback_allows) (simp_all add: lists assms(6,7))
  then have "res_Verdict (snd (decide_event env (admission_profile env (w_cfg w)) (admission_input evt bl al) evt (detected w evt))) = VerdictAllowed"
    by (simp add: decide_event_def asset gate_then_def prescan_gate_def assms(4) fallback_gate_def Let_def admit_def plain_result_def)
  then have verdict: "res_Verdict (snd (runAdmission env w evt)) = VerdictAllowed"
    using pin by (cases "pinned_allow_gate env (detected w evt) evt") (simp add: run gate_then_def)
  have global: "cell db (ev_Type evt, ev_Name evt, []) ''install'' = None" using assms(8) by (simp add: cell_def)
  then have "most_specific (\<lambda>c. cell db (ev_Type evt, ev_Name evt, c) ''install'') ?c \<noteq> Some ''allow''"
    using assms(9) by (simp add: most_specific_def)
  moreover obtain db' r where q: "(let global = (\<lambda>db. HasAction db (ev_Type evt) (ev_Name evt) ''install'' ''allow'')
      in if ?c \<noteq> [] then scoped_or_global (actionFieldForConnector db (ev_Type evt) (ev_Name evt) ?c ''install'') ''allow'' global
         else global db) = (db', r)" by fastforce
  ultimately have "r \<noteq> Inr True" using column_query [OF q assms(3) action_values_valid(2)] by auto
  moreover have "snd (IsAllowedForConnector (Some db) (ev_Type evt) (ev_Name evt) ?c) = r"
    unfolding IsAllowedForConnector_def on_store_def option.case q by simp
  ultimately show ?thesis using verdict by simp
qed

theorem scoped_allow_admits_any_connector_witness:
  "eventConnector plain_map (w_cfg (sample_watcher [])) (install_event ''mcp'' ''files'' ''/m'') = ''codex'' \<and>
   res_Verdict (snd (runAdmission (sample_env None (sample_scanner (Inl []))) (sample_watcher [policy_row ''cursor'' ''allow'']) (install_event ''mcp'' ''files'' ''/m'')))
     = VerdictAllowed"
proof
  show c: "eventConnector plain_map (w_cfg (sample_watcher [])) (install_event ''mcp'' ''files'' ''/m'') = ''codex''" by code_simp
  let ?w = "sample_watcher [policy_row ''cursor'' ''allow'']"
  let ?db = "policy_db [policy_row ''cursor'' ''allow'']"
  let ?evt = "install_event ''mcp'' ''files'' ''/m''"
  have "eventConnector (env_uni (sample_env None (sample_scanner (Inl [])))) (w_cfg ?w) ?evt = ''codex''"
    using c by (simp add: sample_env_def sample_watcher_def)
  moreover have "w_store ?w = Some ?db" "db_faults ?db = []" "env_opa (sample_env None (sample_scanner (Inl []))) = None" "\<not> as_Enabled (cfg_AssetPolicy (w_cfg ?w))"
    by (simp_all add: sample_watcher_def policy_db_def sample_env_def DefaultAssetPolicy_def)
  moreover have "action_inv ?db" unfolding action_inv_def by code_simp
  moreover have "listed_as ''allow'' ?db ?evt" "\<not> listed_as ''block'' ?db ?evt" by code_simp+
  moreover have "row_at (db_actions ?db) (ev_Type ?evt, ev_Name ?evt, []) = None" by code_simp
  moreover have "cell ?db (ev_Type ?evt, ev_Name ?evt, ''codex'') ''install'' \<noteq> Some ''allow''" by code_simp
  ultimately show "res_Verdict (snd (runAdmission (sample_env None (sample_scanner (Inl []))) ?w ?evt)) = VerdictAllowed"
    using scoped_allow_admits_any_connector [of ?w ?db "sample_env None (sample_scanner (Inl []))" ?evt] by simp
qed

text \<open>
  A block for one connector refuses the asset for every connector, though not by the policy engine's rule: an asset that is
  blocked only for another connector, and for its own one is explicitly allowed, is refused without a scan.
\<close>

theorem scoped_block_refuses_any_connector:
  assumes "w_store w = Some db" and "db_faults db = []" and "action_inv db" and "opa_honours_blocks env" and "listed_as ''block'' db evt"
    and "most_specific (\<lambda>c. cell db (ev_Type evt, ev_Name evt, c) ''install'') (eventConnector (env_uni env) (w_cfg w) evt) \<noteq> Some ''block''"
  shows "res_Verdict (snd (runAdmission env w evt)) \<in> {VerdictBlocked, VerdictRejected} \<and>
    snd (IsBlockedForConnector (Some db) (ev_Type evt) (ev_Name evt) (eventConnector (env_uni env) (w_cfg w) evt)) \<noteq> Inr True"
proof -
  let ?c = "eventConnector (env_uni env) (w_cfg w) evt"
  obtain db' r where q: "(let global = (\<lambda>db. HasAction db (ev_Type evt) (ev_Name evt) ''install'' ''block'')
      in if ?c \<noteq> [] then scoped_or_global (actionFieldForConnector db (ev_Type evt) (ev_Name evt) ?c ''install'') ''block'' global
         else global db) = (db', r)" by fastforce
  have "r \<noteq> Inr True" using column_query [OF q assms(3) action_values_valid(1)] assms(6) by auto
  moreover have "snd (IsBlockedForConnector (Some db) (ev_Type evt) (ev_Name evt) ?c) = r"
    unfolding IsBlockedForConnector_def on_store_def option.case q by simp
  ultimately show ?thesis using listed_block_refuses [OF assms(1,2,5,4)] by simp
qed

theorem scoped_block_refuses_any_connector_witness:
  "snd (IsBlockedForConnector (Some (policy_db [policy_row ''cursor'' ''block'', policy_row ''codex'' ''allow''])) ''mcp'' ''files'' ''codex'') = Inr False \<and>
   res_Verdict (snd (runAdmission (sample_env None (sample_scanner (Inl []))) (sample_watcher [policy_row ''cursor'' ''block'', policy_row ''codex'' ''allow''])
     (install_event ''mcp'' ''files'' ''/m''))) \<in> {VerdictBlocked, VerdictRejected}"
proof
  show "snd (IsBlockedForConnector (Some (policy_db [policy_row ''cursor'' ''block'', policy_row ''codex'' ''allow''])) ''mcp'' ''files'' ''codex'') = Inr False"
    by code_simp
  let ?rows = "[policy_row ''cursor'' ''block'', policy_row ''codex'' ''allow'']" and ?evt = "install_event ''mcp'' ''files'' ''/m''"
  let ?env = "sample_env None (sample_scanner (Inl []))"
  have c: "eventConnector (env_uni ?env) (w_cfg (sample_watcher ?rows)) ?evt = ''codex''" by code_simp
  have "w_store (sample_watcher ?rows) = Some (policy_db ?rows)" "db_faults (policy_db ?rows) = []" "opa_honours_blocks ?env"
    by (simp_all add: sample_watcher_def policy_db_def opa_honours_blocks_def sample_env_def)
  moreover have "action_inv (policy_db ?rows)" unfolding action_inv_def by code_simp
  moreover have "listed_as ''block'' (policy_db ?rows) ?evt" by code_simp
  moreover have "most_specific (\<lambda>c. cell (policy_db ?rows) (ev_Type ?evt, ev_Name ?evt, c) ''install'')
      (eventConnector (env_uni ?env) (w_cfg (sample_watcher ?rows)) ?evt) \<noteq> Some ''block''" unfolding c by code_simp
  ultimately show "res_Verdict (snd (runAdmission ?env (sample_watcher ?rows) ?evt)) \<in> {VerdictBlocked, VerdictRejected}"
    using scoped_block_refuses_any_connector [of "sample_watcher ?rows" "policy_db ?rows" ?env ?evt] by blast
qed

end
