(* ===== verification/Observability_Router.thy ===== *)
theory Observability_Router
  imports Delivery_Types
begin

text \<open>
  The collection gate and destination router of \<^verbatim>\<open>internal/observability/router/router.go\<close>, over the effective plan of
  \<^verbatim>\<open>internal/config/observability_v8_plan.go\<close> and the catalogue of \<^verbatim>\<open>internal/observability/taxonomy.go\<close>.

  A Go set is the list of its distinct members; a Go map that is only looked up is a partial function with its number of
  entries beside it where the code asks for it.  The registry of event identities, the classification of producers and the
  inbound catalogue are generated tables: arguments here.  A record is what the router reads of it.  Of the plan's
  structs, the fields that the router reads are kept; \<open>url.Parse\<close> is an argument.  A nil slice and an empty one are the same list.
\<close>

subsection \<open>Catalogue\<close>

definition Buckets :: "string list" where
  "Buckets = [''compliance.activity'', ''security.finding'', ''guardrail.evaluation'', ''enforcement.action'', ''model.io'',
     ''tool.activity'', ''asset.scan'', ''asset.lifecycle'', ''network.egress'', ''agent.lifecycle'', ''ai.discovery'',
     ''telemetry.ingest'', ''platform.health'', ''diagnostic'']"

definition IsBucket :: "string \<Rightarrow> bool" where
  "IsBucket bucket = List.member Buckets bucket"

definition Signals :: "string list" where
  "Signals = [''logs'', ''traces'', ''metrics'']"

definition Severities :: "string list" where
  "Severities = [''INFO'', ''LOW'', ''MEDIUM'', ''HIGH'', ''CRITICAL'']"

fun rank_from :: "nat \<Rightarrow> string list \<Rightarrow> string \<Rightarrow> nat option" where
  "rank_from index [] severity = None"
| "rank_from index (candidate # rest) severity =
     (if candidate = severity then Some (index + 1) else rank_from (index + 1) rest severity)"

definition SeverityRank :: "string \<Rightarrow> nat option" where
  "SeverityRank severity = rank_from 0 Severities severity"

definition name_start :: "char \<Rightarrow> bool" where
  "name_start c \<longleftrightarrow> 97 \<le> byte_val c \<and> byte_val c \<le> 122"

definition name_rest :: "char \<Rightarrow> bool" where
  "name_rest c \<longleftrightarrow> name_start c \<or> 48 \<le> byte_val c \<and> byte_val c \<le> 57 \<or> c = CHR ''_''"

text \<open>\<open>EventName.Validate\<close>: the pattern \<open>^[a-z][a-z0-9_]*(?:\.[a-z][a-z0-9_]*)*$\<close>.\<close>

definition EventName_Validate :: "string \<Rightarrow> bool" where
  "EventName_Validate name =
     list_all (\<lambda>s. case s of [] \<Rightarrow> False | c # cs \<Rightarrow> name_start c \<and> list_all name_rest cs) (split_on (CHR ''.'') name)"

record EventIdentity =
  id_Bucket :: string
  id_Signal :: string
  id_Name :: string

definition IsRegisteredEventIdentity :: "EventIdentity list \<Rightarrow> EventIdentity \<Rightarrow> bool" where
  "IsRegisteredEventIdentity registry identity =
     (if \<not> IsBucket (id_Bucket identity) \<or> \<not> IsSignal (id_Signal identity) \<or> \<not> EventName_Validate (id_Name identity) then False
      else List.member registry identity)"

subsection \<open>Metadata\<close>

datatype Admission = AdmissionDrop | AdmissionOrdinary | AdmissionFloor

record Metadata =
  m_identity :: EventIdentity
  m_severity :: string
  m_hasSeverity :: bool
  m_source :: string
  m_connector :: string
  m_action :: string
  m_mandatory :: bool

datatype router_error =
    NotRegistered | SeverityNotCanonical | SeverityMarkedAbsent | InvalidToken string | MandatoryOnlyLogs
  | OrdinaryLogUnsupported | UnknownProducer | InvalidClassification | NotALogIdentity | InvalidInboundContext
  | NilEvaluator | BuilderRequired | BuilderFailed | MetadataMismatch | FloorRecordRequired | FloorRecordRejected | NotAdmitted
  | NilPlan | CatalogVersion int | UnknownBucket | DuplicateBucket | OmittedBucket | UnnamedDestination | DuplicateDestination
  | NotFirstMatch | RouteOrder | WildcardIncomplete | InvalidManaged | InvalidLocal | MultipleLocal | InvalidLocalRoute | OmittedLocal

text \<open>The source ranges over a map of the two optional tokens; when both are bad it names either, the model the connector.\<close>

definition metadata_validate :: "EventIdentity list \<Rightarrow> Metadata \<Rightarrow> router_error option" where
  "metadata_validate registry m =
     (if \<not> IsRegisteredEventIdentity registry (m_identity m) then Some NotRegistered
      else if m_hasSeverity m \<and> SeverityRank (m_severity m) = None then Some SeverityNotCanonical
      else if \<not> m_hasSeverity m \<and> m_severity m \<noteq> [] then Some SeverityMarkedAbsent
      else if \<not> IsStableToken (m_source m) then Some (InvalidToken ''routing source'')
      else if m_connector m \<noteq> [] \<and> \<not> IsStableToken (m_connector m) then Some (InvalidToken ''routing connector'')
      else if m_action m \<noteq> [] \<and> \<not> IsStableToken (m_action m) then Some (InvalidToken ''routing action'')
      else if m_mandatory m \<and> id_Signal (m_identity m) \<noteq> ''logs'' then Some MandatoryOnlyLogs
      else None)"

definition validated :: "EventIdentity list \<Rightarrow> Metadata \<Rightarrow> router_error + Metadata" where
  "validated registry m = (case metadata_validate registry m of Some e \<Rightarrow> Inl e | None \<Rightarrow> Inr m)"

definition NewMetadata ::
  "EventIdentity list \<Rightarrow> EventIdentity \<Rightarrow> string option \<Rightarrow> string \<Rightarrow> string \<Rightarrow> string \<Rightarrow> router_error + Metadata" where
  "NewMetadata registry identity severity source connector action =
     (if id_Signal identity = ''logs'' then Inl OrdinaryLogUnsupported
      else validated registry \<lparr>m_identity = identity, m_severity = (case severity of Some s \<Rightarrow> s | None \<Rightarrow> []),
        m_hasSeverity = (severity \<noteq> None), m_source = source, m_connector = connector, m_action = action, m_mandatory = False\<rparr>)"

record ResolvedClassification =
  rc_Identity :: EventIdentity
  rc_Severity :: "string option"
  rc_Mandatory :: bool

definition NewClassifiedLogMetadata ::
  "EventIdentity list \<Rightarrow> ResolvedClassification option option \<Rightarrow> string \<Rightarrow> string \<Rightarrow> string \<Rightarrow> router_error + Metadata" where
  "NewClassifiedLogMetadata registry classification source connector action =
     (case classification of
        None \<Rightarrow> Inl UnknownProducer
      | Some None \<Rightarrow> Inl InvalidClassification
      | Some (Some resolved) \<Rightarrow>
          if id_Signal (rc_Identity resolved) \<noteq> ''logs'' then Inl NotALogIdentity
          else validated registry \<lparr>m_identity = rc_Identity resolved,
            m_severity = (case rc_Severity resolved of Some s \<Rightarrow> s | None \<Rightarrow> []), m_hasSeverity = (rc_Severity resolved \<noteq> None),
            m_source = source, m_connector = connector, m_action = action, m_mandatory = rc_Mandatory resolved\<rparr>)"

subsection \<open>The plan\<close>

record EffectiveCollect =
  col_Logs :: bool
  col_Traces :: bool
  col_Metrics :: bool

definition collect_Enabled :: "EffectiveCollect \<Rightarrow> string \<Rightarrow> bool" where
  "collect_Enabled c signal =
     (if signal = ''logs'' then col_Logs c else if signal = ''traces'' then col_Traces c
      else if signal = ''metrics'' then col_Metrics c else False)"

record EffectiveSelector =
  es_Buckets :: "string list"
  es_BucketWildcard :: bool
  es_Sources :: "string list"
  es_Connectors :: "string list"
  es_Actions :: "string list"
  es_EventNames :: "string list"
  es_MinSeverity :: string

record EffectiveRoute =
  er_Index :: int
  er_Name :: string
  er_Generated :: bool
  er_Signals :: "string list"
  er_Selector :: EffectiveSelector
  er_Action :: string
  er_RedactionProfileByBucket :: "(string \<times> string) list"
  er_IncludesMandatoryFloor :: bool

record BatchSource =
  bs_MaxQueueSize :: int
  bs_MaxQueueBytes :: int
  bs_MaxExportBatchSize :: int
  bs_MaxExportBatchBytes :: int
  bs_ScheduledDelayMS :: int

record TransportPlan =
  tp_Endpoint :: string
  tp_Protocol :: string
  tp_Method :: string
  tp_Headers :: "string list"
  tp_TokenEnv :: string
  tp_BearerEnv :: string
  tp_LoggerName :: string
  tp_Batch :: "BatchSource option"

record EffectiveDestination =
  ed_Name :: string
  ed_Kind :: string
  ed_Enabled :: bool
  ed_Generated :: bool
  ed_Capabilities :: "string list"
  ed_SelectedSignals :: "string list"
  ed_PolicyForm :: string
  ed_FirstMatchPerSignal :: bool
  ed_ReloadPolicy :: string
  ed_ReloadTransport :: string
  ed_Routes :: "EffectiveRoute list"
  ed_Transport :: TransportPlan

record EffectivePlan =
  pl_BucketCatalogVersion :: int
  pl_Buckets :: "(string \<times> EffectiveCollect) list"
  pl_Destinations :: "EffectiveDestination list"
  pl_Digest :: string

subsection \<open>The index\<close>

record compiledSelector =
  cs_buckets :: "string list"
  cs_bucketWildcard :: bool
  cs_sources :: "string list"
  cs_connectors :: "string list"
  cs_actions :: "string list"
  cs_eventNames :: "string list"
  cs_minSeverity :: string

record compiledRoute =
  cr_index :: int
  cr_name :: string
  cr_generated :: bool
  cr_signals :: "string list"
  cr_selector :: compiledSelector
  cr_action :: string
  cr_profiles :: "(string \<times> string) list"
  cr_includesMandatoryFloor :: bool

record compiledDestination =
  cd_name :: string
  cd_kind :: string
  cd_enabled :: bool
  cd_generated :: bool
  cd_firstMatch :: bool
  cd_capabilities :: "string list"
  cd_selected :: "string list"
  cd_routes :: "compiledRoute list"

record Evaluator =
  e_collection :: "string \<times> string \<Rightarrow> bool"
  e_destinations :: "compiledDestination list"
  e_localDestination :: int
  e_managedFallback :: int
  e_planDigest :: string

definition setOf :: "string list \<Rightarrow> string list" where
  "setOf values = remdups values"

definition compileSelector :: "EffectiveSelector \<Rightarrow> compiledSelector" where
  "compileSelector s =
     \<lparr>cs_buckets = setOf (es_Buckets s), cs_bucketWildcard = es_BucketWildcard s, cs_sources = setOf (es_Sources s),
      cs_connectors = setOf (es_Connectors s), cs_actions = setOf (es_Actions s), cs_eventNames = setOf (es_EventNames s),
      cs_minSeverity = es_MinSeverity s\<rparr>"

definition compile_route :: "EffectiveRoute \<Rightarrow> compiledRoute" where
  "compile_route r =
     \<lparr>cr_index = er_Index r, cr_name = er_Name r, cr_generated = er_Generated r, cr_signals = setOf (er_Signals r),
      cr_selector = compileSelector (er_Selector r), cr_action = er_Action r, cr_profiles = er_RedactionProfileByBucket r,
      cr_includesMandatoryFloor = er_IncludesMandatoryFloor r\<rparr>"

definition compileDestinationIndex :: "EffectiveDestination \<Rightarrow> compiledDestination" where
  "compileDestinationIndex d =
     \<lparr>cd_name = ed_Name d, cd_kind = ed_Kind d, cd_enabled = ed_Enabled d, cd_generated = ed_Generated d,
      cd_firstMatch = ed_FirstMatchPerSignal d, cd_capabilities = setOf (ed_Capabilities d), cd_selected = setOf (ed_SelectedSignals d),
      cd_routes = map compile_route (ed_Routes d)\<rparr>"

definition coversCatalog :: "string list \<Rightarrow> bool" where
  "coversCatalog buckets = (if length buckets \<noteq> length Buckets then False else list_all (List.member buckets) Buckets)"

fun check_routes :: "int \<Rightarrow> compiledRoute list \<Rightarrow> router_error option" where
  "check_routes position [] = None"
| "check_routes position (route # routes) =
     (if cr_index route \<noteq> position then Some RouteOrder
      else if cs_bucketWildcard (cr_selector route) \<and> \<not> coversCatalog (cs_buckets (cr_selector route)) then Some WildcardIncomplete
      else check_routes (position + 1) routes)"

definition validateDestinationIndex :: "compiledDestination \<Rightarrow> router_error option" where
  "validateDestinationIndex d =
     (if cd_routes d \<noteq> [] \<and> \<not> cd_firstMatch d then Some NotFirstMatch else check_routes 0 (cd_routes d))"

text \<open>A Go map read: an absent key gives the empty string.\<close>

definition profile_of :: "(string \<times> string) list \<Rightarrow> string \<Rightarrow> string" where
  "profile_of profiles bucket = (case map_of profiles bucket of Some p \<Rightarrow> p | None \<Rightarrow> [])"

definition validLocalDestination :: "compiledDestination \<Rightarrow> bool" where
  "validLocalDestination d =
     (if \<not> cd_generated d \<or> \<not> cd_firstMatch d then False
      else if \<not> List.member (cd_capabilities d) ''logs'' \<or> length (cd_capabilities d) \<noteq> 1 then False
      else if \<not> List.member (cd_selected d) ''logs'' \<or> length (cd_selected d) \<noteq> 1 then False
      else case cd_routes d of
        [route] \<Rightarrow>
          if \<not> cr_generated route \<or> \<not> List.member (cr_signals route) ''logs'' \<or> length (cr_signals route) \<noteq> 1 \<or>
            cr_action route \<noteq> ''send'' \<or> \<not> cr_includesMandatoryFloor route then False
          else if \<not> cs_bucketWildcard (cr_selector route) \<and> length (cs_buckets (cr_selector route)) \<noteq> length Buckets then False
          else list_all (\<lambda>bucket. (cs_bucketWildcard (cr_selector route) \<or> List.member (cs_buckets (cr_selector route)) bucket) \<and>
            profile_of (cr_profiles route) bucket \<noteq> []) Buckets
      | _ \<Rightarrow> False)"

subsection \<open>The managed destination\<close>

text \<open>What the code asks of a parsed URL.\<close>

record ParsedURL =
  pu_Scheme :: string
  pu_Opaque :: string
  pu_Host :: string
  pu_Hostname :: string
  pu_HasUser :: bool
  pu_Path :: string
  pu_EscapedPath :: string
  pu_RawPath :: string
  pu_RawQuery :: string
  pu_ForceQuery :: bool
  pu_Fragment :: string
  pu_RawFragment :: string

definition ManagedAIDDestinationName :: string where
  "ManagedAIDDestinationName = ''managed-enterprise-ai-defense''"

definition ManagedAIDIngestPath :: string where
  "ManagedAIDIngestPath = ''/api/v1/defenseclaw/events/ingest''"

definition validManagedFallbackEndpoint :: "(string \<Rightarrow> ParsedURL option) \<Rightarrow> string \<Rightarrow> bool" where
  "validManagedFallbackEndpoint Parse raw =
     (case Parse raw of
        None \<Rightarrow> False
      | Some u \<Rightarrow> pu_Scheme u = ''https'' \<and> pu_Opaque u = [] \<and> pu_Host u \<noteq> [] \<and> pu_Hostname u \<noteq> [] \<and> \<not> pu_HasUser u \<and>
          pu_Path u = ManagedAIDIngestPath \<and> pu_EscapedPath u = ManagedAIDIngestPath \<and> pu_RawPath u = [] \<and> pu_RawQuery u = [] \<and>
          \<not> pu_ForceQuery u \<and> pu_Fragment u = [] \<and> pu_RawFragment u = [])"

definition validGeneratedManagedDropRoute ::
  "EffectiveRoute \<Rightarrow> int \<Rightarrow> string \<Rightarrow> string list \<Rightarrow> string list \<Rightarrow> bool" where
  "validGeneratedManagedDropRoute route index name actions eventNames \<longleftrightarrow>
     er_Index route = index \<and> er_Name route = name \<and> er_Generated route \<and> er_Signals route = [''logs''] \<and>
     er_Action route = ''drop'' \<and> \<not> er_IncludesMandatoryFloor route \<and>
     \<not> es_BucketWildcard (er_Selector route) \<and> es_Buckets (er_Selector route) = [''ai.discovery''] \<and>
     es_Sources (er_Selector route) = [] \<and> es_Connectors (er_Selector route) = [] \<and>
     es_Actions (er_Selector route) = actions \<and> es_EventNames (er_Selector route) = eventNames \<and>
     es_MinSeverity (er_Selector route) = [] \<and> er_RedactionProfileByBucket route = []"

definition managed_transport_ok :: "(string \<Rightarrow> ParsedURL option) \<Rightarrow> TransportPlan \<Rightarrow> bool" where
  "managed_transport_ok Parse t \<longleftrightarrow>
     tp_Protocol t = ''http/json'' \<and> tp_Method t = ''POST'' \<and> tp_LoggerName t = ''defenseclaw'' \<and>
     tp_Headers t = [] \<and> tp_TokenEnv t = [] \<and> tp_BearerEnv t = [] \<and> validManagedFallbackEndpoint Parse (tp_Endpoint t) \<and>
     (case tp_Batch t of None \<Rightarrow> False
      | Some b \<Rightarrow> bs_MaxQueueSize b > 0 \<and> bs_MaxQueueBytes b > 0 \<and> bs_MaxExportBatchSize b > 0 \<and> bs_MaxExportBatchBytes b > 0 \<and>
          bs_ScheduledDelayMS b > 0)"

definition managed_send_ok :: "EffectiveRoute \<Rightarrow> bool" where
  "managed_send_ok send \<longleftrightarrow>
     er_Index send = 1 \<and> er_Name send = ''all-collected-logs'' \<and> er_Generated send \<and> er_Signals send = [''logs''] \<and>
     er_Action send = ''send'' \<and> \<not> er_IncludesMandatoryFloor send \<and>
     es_BucketWildcard (er_Selector send) \<and> length (es_Buckets (er_Selector send)) = length Buckets \<and>
     es_Sources (er_Selector send) = [] \<and> es_Connectors (er_Selector send) = [] \<and> es_Actions (er_Selector send) = [] \<and>
     es_EventNames (er_Selector send) = [] \<and> es_MinSeverity (er_Selector send) = [] \<and>
     coversCatalog (cs_buckets (cr_selector (compile_route send))) \<and>
     length (er_RedactionProfileByBucket send) = length Buckets \<and>
     list_all (\<lambda>bucket. profile_of (er_RedactionProfileByBucket send) bucket = ''sensitive'') Buckets"

definition validManagedFallbackDestination :: "(string \<Rightarrow> ParsedURL option) \<Rightarrow> EffectiveDestination \<Rightarrow> bool" where
  "validManagedFallbackDestination Parse d =
     (if ed_Name d \<noteq> ManagedAIDDestinationName \<or> ed_Kind d \<noteq> ''otlp'' \<or> \<not> ed_Enabled d \<or> \<not> ed_Generated d \<or>
        ed_PolicyForm d \<noteq> ''implicit_local'' \<or> \<not> ed_FirstMatchPerSignal d \<or>
        ed_Capabilities d \<noteq> [''logs''] \<or> ed_SelectedSignals d \<noteq> [''logs''] \<or>
        ed_ReloadPolicy d \<noteq> ''restart_required'' \<or> ed_ReloadTransport d \<noteq> ''live_reloadable'' \<or>
        \<not> managed_transport_ok Parse (ed_Transport d) then False
      else case ed_Routes d of
        [diagnosticDrop, send] \<Rightarrow>
          validGeneratedManagedDropRoute diagnosticDrop 0 ''drop-local-inventory-diagnostics'' [''local_inventory_diagnostic''] [] \<and>
          managed_send_ok send
      | _ \<Rightarrow> False)"

subsection \<open>Building the evaluator\<close>

fun check_buckets :: "string list \<Rightarrow> (string \<times> EffectiveCollect) list \<Rightarrow> router_error option" where
  "check_buckets seen [] = None"
| "check_buckets seen ((bucket, collect) # rest) =
     (if \<not> IsBucket bucket then Some UnknownBucket
      else if List.member seen bucket then Some DuplicateBucket
      else check_buckets (bucket # seen) rest)"

definition collection_of :: "(string \<times> EffectiveCollect) list \<Rightarrow> string \<times> string \<Rightarrow> bool" where
  "collection_of buckets = (\<lambda>(bucket, signal).
     (case map_of buckets bucket of Some collect \<Rightarrow> List.member Signals signal \<and> collect_Enabled collect signal | None \<Rightarrow> False))"

text \<open>The loop over the destinations; the two positions are \<open>-1\<close> until they are found.\<close>

fun index_destinations ::
  "(string \<Rightarrow> ParsedURL option) \<Rightarrow> string list \<Rightarrow> compiledDestination list \<Rightarrow> int \<Rightarrow> int \<Rightarrow> EffectiveDestination list
     \<Rightarrow> router_error + (compiledDestination list \<times> int \<times> int)" where
  "index_destinations Parse seen done local managed [] = Inr (done, local, managed)"
| "index_destinations Parse seen done local managed (src # rest) =
     (let d = compileDestinationIndex src; position = int (length done); isManaged = (ed_Name src = ManagedAIDDestinationName);
          isLocal = (ed_Kind src = ''sqlite'')
      in if ed_Name src = [] then Inl UnnamedDestination
         else if List.member seen (ed_Name src) then Inl DuplicateDestination
         else case validateDestinationIndex d of
           Some e \<Rightarrow> Inl e
         | None \<Rightarrow>
             if isManaged \<and> (managed \<ge> 0 \<or> \<not> validManagedFallbackDestination Parse src) then Inl InvalidManaged
             else if isLocal \<and> (ed_Name src \<noteq> ''local-sqlite'' \<or> \<not> ed_Generated src \<or> \<not> ed_Enabled src) then Inl InvalidLocal
             else if isLocal \<and> local \<ge> 0 then Inl MultipleLocal
             else if isLocal \<and> \<not> validLocalDestination d then Inl InvalidLocalRoute
             else index_destinations Parse (ed_Name src # seen) (done @ [d]) (if isLocal then position else local)
               (if isManaged then position else managed) rest)"

definition NewEvaluator :: "(string \<Rightarrow> ParsedURL option) \<Rightarrow> EffectivePlan option \<Rightarrow> router_error + Evaluator" where
  "NewEvaluator Parse plan =
     (case plan of
        None \<Rightarrow> Inl NilPlan
      | Some plan \<Rightarrow>
          if pl_BucketCatalogVersion plan \<noteq> 1 then Inl (CatalogVersion (pl_BucketCatalogVersion plan))
          else case check_buckets [] (pl_Buckets plan) of
            Some e \<Rightarrow> Inl e
          | None \<Rightarrow>
              if \<not> list_all (List.member (map fst (pl_Buckets plan))) Buckets then Inl OmittedBucket
              else case index_destinations Parse [] [] (-1) (-1) (pl_Destinations plan) of
                Inl e \<Rightarrow> Inl e
              | Inr (dests, local, managed) \<Rightarrow>
                  if local < 0 then Inl OmittedLocal
                  else Inr \<lparr>e_collection = collection_of (pl_Buckets plan), e_destinations = dests, e_localDestination = local,
                    e_managedFallback = managed, e_planDigest = pl_Digest plan\<rparr>)"

subsection \<open>Evaluation\<close>

record Record =
  rec_Identity :: EventIdentity
  rec_Severity :: string
  rec_HasSeverity :: bool
  rec_Source :: string
  rec_Connector :: string
  rec_Action :: string
  rec_Mandatory :: bool
  rec_FloorOnly :: bool

record Delivery =
  dl_DestinationName :: string
  dl_DestinationKind :: string
  dl_RouteName :: string
  dl_RouteIndex :: int
  dl_RedactionProfile :: string
  dl_MandatoryFloor :: bool

record Result =
  rs_admission :: Admission
  rs_record :: "Record option"
  rs_deliveries :: "Delivery list"

type_synonym RecordBuilder = "Admission \<Rightarrow> router_error + Record"

definition metadataFromRecord :: "Record \<Rightarrow> Metadata" where
  "metadataFromRecord r =
     \<lparr>m_identity = rec_Identity r, m_severity = rec_Severity r, m_hasSeverity = rec_HasSeverity r, m_source = rec_Source r,
      m_connector = rec_Connector r, m_action = rec_Action r, m_mandatory = rec_Mandatory r\<rparr>"

definition verifyBuiltRecord :: "Metadata \<Rightarrow> Admission \<Rightarrow> Record \<Rightarrow> router_error option" where
  "verifyBuiltRecord m admission r =
     (if metadataFromRecord r \<noteq> m then Some MetadataMismatch
      else case admission of
        AdmissionFloor \<Rightarrow> if \<not> rec_Mandatory r \<or> \<not> rec_FloorOnly r then Some FloorRecordRequired else None
      | AdmissionOrdinary \<Rightarrow> if rec_FloorOnly r then Some FloorRecordRejected else None
      | AdmissionDrop \<Rightarrow> Some NotAdmitted)"

definition matchesValue :: "string list \<Rightarrow> string \<Rightarrow> bool" where
  "matchesValue allowed actual =
     (if allowed = [] then True else if actual = [] then False
      else if List.member allowed ''*'' then True else List.member allowed actual)"

definition selector_matches :: "compiledSelector \<Rightarrow> Metadata \<Rightarrow> bool" where
  "selector_matches s m =
     (if \<not> cs_bucketWildcard s \<and> \<not> matchesValue (cs_buckets s) (id_Bucket (m_identity m)) then False
      else if \<not> matchesValue (cs_sources s) (m_source m) then False
      else if \<not> matchesValue (cs_connectors s) (m_connector m) then False
      else if \<not> matchesValue (cs_actions s) (m_action m) then False
      else if \<not> matchesValue (cs_eventNames s) (id_Name (m_identity m)) then False
      else if cs_minSeverity s = [] then True
      else if \<not> m_hasSeverity m then False
      else case (SeverityRank (cs_minSeverity s), SeverityRank (m_severity m)) of
        (Some minimum, Some actual) \<Rightarrow> minimum \<le> actual
      | _ \<Rightarrow> False)"

fun first_route :: "compiledDestination \<Rightarrow> Metadata \<Rightarrow> bool \<Rightarrow> compiledRoute list \<Rightarrow> Delivery list" where
  "first_route d m floorOnly [] = []"
| "first_route d m floorOnly (route # routes) =
     (if floorOnly \<and> \<not> cr_includesMandatoryFloor route then first_route d m floorOnly routes
      else if \<not> List.member (cr_signals route) (id_Signal (m_identity m)) then first_route d m floorOnly routes
      else if \<not> selector_matches (cr_selector route) m then first_route d m floorOnly routes
      else if cr_action route \<noteq> ''send'' then []
      else [\<lparr>dl_DestinationName = cd_name d, dl_DestinationKind = cd_kind d, dl_RouteName = cr_name route, dl_RouteIndex = cr_index route,
             dl_RedactionProfile = (if id_Signal (m_identity m) \<noteq> ''metrics'' then profile_of (cr_profiles route) (id_Bucket (m_identity m)) else []),
             dl_MandatoryFloor = floorOnly\<rparr>])"

definition routeDestination :: "compiledDestination \<Rightarrow> Metadata \<Rightarrow> bool \<Rightarrow> Delivery list" where
  "routeDestination d m floorOnly =
     (if \<not> cd_enabled d then []
      else if \<not> List.member (cd_capabilities d) (id_Signal (m_identity m)) then []
      else if \<not> List.member (cd_selected d) (id_Signal (m_identity m)) then []
      else first_route d m floorOnly (cd_routes d))"

definition route :: "Evaluator \<Rightarrow> Metadata \<Rightarrow> Admission \<Rightarrow> Delivery list" where
  "route e m admission =
     (if admission = AdmissionFloor then routeDestination (e_destinations e ! nat (e_localDestination e)) m True
      else concat (map (\<lambda>d. routeDestination d m False) (e_destinations e)))"

definition Collected :: "Evaluator option \<Rightarrow> string \<Rightarrow> string \<Rightarrow> bool" where
  "Collected e bucket signal = (case e of None \<Rightarrow> False | Some e \<Rightarrow> e_collection e (bucket, signal))"

definition router_Admit :: "EventIdentity list \<Rightarrow> Evaluator option \<Rightarrow> Metadata \<Rightarrow> router_error + Admission" where
  "router_Admit registry e m =
     (case e of
        None \<Rightarrow> Inl NilEvaluator
      | Some _ \<Rightarrow>
          (case metadata_validate registry m of
             Some err \<Rightarrow> Inl err
           | None \<Rightarrow>
               if Collected e (id_Bucket (m_identity m)) (id_Signal (m_identity m)) then Inr AdmissionOrdinary
               else if id_Signal (m_identity m) = ''logs'' \<and> m_mandatory m then Inr AdmissionFloor
               else Inr AdmissionDrop))"

definition router_Evaluate :: "EventIdentity list \<Rightarrow> Evaluator option \<Rightarrow> Metadata \<Rightarrow> RecordBuilder option \<Rightarrow> router_error + Result" where
  "router_Evaluate registry e m builder =
     (case router_Admit registry e m of
        Inl err \<Rightarrow> Inl err
      | Inr admission \<Rightarrow>
          if admission = AdmissionDrop then Inr \<lparr>rs_admission = admission, rs_record = None, rs_deliveries = []\<rparr>
          else case builder of
            None \<Rightarrow> Inl BuilderRequired
          | Some build \<Rightarrow>
              (case build admission of
                 Inl err \<Rightarrow> Inl err
               | Inr r \<Rightarrow>
                   (case verifyBuiltRecord m admission r of
                      Some err \<Rightarrow> Inl err
                    | None \<Rightarrow> Inr \<lparr>rs_admission = admission, rs_record = Some r, rs_deliveries = route (the e) m admission\<rparr>)))"

text \<open>\<open>None\<close> is the empty result, without record and delivery.\<close>

definition EvaluateManagedLogFallback ::
  "EventIdentity list \<Rightarrow> Evaluator option \<Rightarrow> Metadata \<Rightarrow> RecordBuilder option \<Rightarrow> router_error + (Record \<times> Delivery) option" where
  "EvaluateManagedLogFallback registry e m builder =
     (case router_Admit registry e m of
        Inl err \<Rightarrow> Inl err
      | Inr admission \<Rightarrow>
          (let ev = the e; position = e_managedFallback ev
           in if admission \<noteq> AdmissionDrop \<or> id_Signal (m_identity m) \<noteq> ''logs'' \<or> m_source m = ''otel_receiver'' \<or>
             position < 0 \<or> position \<ge> int (length (e_destinations ev)) then Inr None
           else case routeDestination (e_destinations ev ! nat position) m False of
             [delivery] \<Rightarrow>
               if dl_DestinationName delivery \<noteq> ManagedAIDDestinationName \<or> dl_DestinationKind delivery \<noteq> ''otlp'' \<or>
                 dl_MandatoryFloor delivery \<or> dl_RedactionProfile delivery \<noteq> ''sensitive'' then Inr None
               else case builder of
                 None \<Rightarrow> Inl BuilderRequired
               | Some build \<Rightarrow>
                   (case build AdmissionOrdinary of
                      Inl err \<Rightarrow> Inl err
                    | Inr r \<Rightarrow> (case verifyBuiltRecord m AdmissionOrdinary r of Some err \<Rightarrow> Inl err | None \<Rightarrow> Inr (Some (r, delivery))))
           | _ \<Rightarrow> Inr None))"

subsection \<open>What a built evaluator guarantees\<close>

definition local_ok :: "compiledDestination \<Rightarrow> bool" where
  "local_ok d \<longleftrightarrow> cd_name d = ''local-sqlite'' \<and> cd_enabled d \<and> validLocalDestination d"

definition index_inv :: "(string \<Rightarrow> ParsedURL option) \<Rightarrow> string list \<Rightarrow> compiledDestination list \<Rightarrow> int \<Rightarrow> int \<Rightarrow> bool" where
  "index_inv Parse seen dests local managed \<longleftrightarrow>
     set seen = cd_name ` set dests \<and> distinct (map cd_name dests) \<and>
     local < int (length dests) \<and> managed < int (length dests) \<and>
     (0 \<le> local \<longrightarrow> local_ok (dests ! nat local)) \<and>
     (0 \<le> managed \<longrightarrow> (\<exists>src. dests ! nat managed = compileDestinationIndex src \<and> validManagedFallbackDestination Parse src))"

lemma index_inv_step:
  assumes "index_inv Parse seen dests local managed" and "cd_name d \<notin> set seen"
    and "l = local \<or> l = int (length dests) \<and> local_ok d"
    and "mg = managed \<or> mg = int (length dests) \<and> (\<exists>src. d = compileDestinationIndex src \<and> validManagedFallbackDestination Parse src)"
  shows "index_inv Parse (cd_name d # seen) (dests @ [d]) l mg"
  using assms by (auto simp: index_inv_def nth_append nat_less_iff)

lemma index_destinations_inv:
  assumes "index_destinations Parse seen dests local managed srcs = Inr (dests', l, mg)" and "index_inv Parse seen dests local managed"
  shows "\<exists>seen'. index_inv Parse seen' dests' l mg"
  using assms
proof (induction Parse seen dests local managed srcs arbitrary: dests' l mg rule: index_destinations.induct)
  case (2 Parse seen dests local managed src rest)
  let ?d = "compileDestinationIndex src"
  let ?l = "if ed_Kind src = ''sqlite'' then int (length dests) else local"
  let ?m = "if ed_Name src = ManagedAIDDestinationName then int (length dests) else managed"
  have ok: "ed_Name src \<noteq> []" "\<not> List.member seen (ed_Name src)" "validateDestinationIndex ?d = None"
    "\<not> (ed_Name src = ManagedAIDDestinationName \<and> (managed \<ge> 0 \<or> \<not> validManagedFallbackDestination Parse src))"
    "\<not> (ed_Kind src = ''sqlite'' \<and> (ed_Name src \<noteq> ''local-sqlite'' \<or> \<not> ed_Generated src \<or> \<not> ed_Enabled src))"
    "\<not> (ed_Kind src = ''sqlite'' \<and> local \<ge> 0)" "\<not> (ed_Kind src = ''sqlite'' \<and> \<not> validLocalDestination ?d)"
    and rec: "index_destinations Parse (ed_Name src # seen) (dests @ [?d]) ?l ?m rest = Inr (dests', l, mg)"
    using "2.prems"(1) by (auto simp: Let_def split: if_splits option.splits)
  have name: "cd_name ?d = ed_Name src" "cd_enabled ?d = ed_Enabled src" by (simp_all add: compileDestinationIndex_def)
  have l: "?l = local \<or> ?l = int (length dests) \<and> local_ok ?d" using ok(5,7) name by (simp add: local_ok_def)
  have m: "?m = managed \<or> ?m = int (length dests) \<and> (\<exists>s. ?d = compileDestinationIndex s \<and> validManagedFallbackDestination Parse s)"
    using ok(4) by auto
  have "index_inv Parse (ed_Name src # seen) (dests @ [?d]) ?l ?m"
    using index_inv_step [OF "2.prems"(2) _ l m] ok(2) name(1) by simp
  with "2.IH" [OF refl refl refl refl ok(1,2,3,4,5,6,7)] rec show ?case by blast
qed auto

lemma new_evaluator_inv:
  assumes "NewEvaluator Parse plan = Inr e"
  shows "\<exists>seen. index_inv Parse seen (e_destinations e) (e_localDestination e) (e_managedFallback e) \<and> 0 \<le> e_localDestination e"
proof -
  obtain p where p: "plan = Some p" using assms by (auto simp: NewEvaluator_def split: option.splits)
  obtain dests l mg where i: "index_destinations Parse [] [] (-1) (-1) (pl_Destinations p) = Inr (dests, l, mg)" "0 \<le> l"
    and e: "e_destinations e = dests" "e_localDestination e = l" "e_managedFallback e = mg"
    using assms unfolding p by (fastforce simp: NewEvaluator_def split: option.splits if_splits sum.splits prod.splits)
  have "index_inv Parse [] [] (-1) (-1)" by (simp add: index_inv_def)
  from index_destinations_inv [OF i(1) this] show ?thesis using i(2) e by auto
qed

text \<open>A route is eligible when it covers the signal and its selector matches; for the floor it must also carry the floor.\<close>

definition route_eligible :: "Metadata \<Rightarrow> bool \<Rightarrow> compiledRoute \<Rightarrow> bool" where
  "route_eligible m floorOnly r \<longleftrightarrow> (floorOnly \<longrightarrow> cr_includesMandatoryFloor r) \<and>
     List.member (cr_signals r) (id_Signal (m_identity m)) \<and> selector_matches (cr_selector r) m"

definition delivery_for :: "compiledDestination \<Rightarrow> Metadata \<Rightarrow> bool \<Rightarrow> compiledRoute \<Rightarrow> Delivery" where
  "delivery_for d m floorOnly r =
     \<lparr>dl_DestinationName = cd_name d, dl_DestinationKind = cd_kind d, dl_RouteName = cr_name r, dl_RouteIndex = cr_index r,
      dl_RedactionProfile = (if id_Signal (m_identity m) \<noteq> ''metrics'' then profile_of (cr_profiles r) (id_Bucket (m_identity m)) else []),
      dl_MandatoryFloor = floorOnly\<rparr>"

definition takes_signal :: "compiledDestination \<Rightarrow> Metadata \<Rightarrow> bool" where
  "takes_signal d m \<longleftrightarrow> cd_enabled d \<and> List.member (cd_capabilities d) (id_Signal (m_identity m)) \<and>
     List.member (cd_selected d) (id_Signal (m_identity m))"

lemma first_route_find:
  "first_route d m floorOnly routes =
     (case find (route_eligible m floorOnly) routes of Some r \<Rightarrow> if cr_action r = ''send'' then [delivery_for d m floorOnly r] else [] | None \<Rightarrow> [])"
  by (induction routes) (auto simp: route_eligible_def delivery_for_def)

lemma routeDestination_find:
  "routeDestination d m floorOnly =
     (if takes_signal d m then
        (case find (route_eligible m floorOnly) (cd_routes d) of Some r \<Rightarrow> if cr_action r = ''send'' then [delivery_for d m floorOnly r] else [] | None \<Rightarrow> [])
      else [])"
  by (simp add: routeDestination_def takes_signal_def first_route_find)

lemma routeDestination_None: "find (route_eligible m floorOnly) (cd_routes d) = None \<Longrightarrow> routeDestination d m floorOnly = []"
  by (simp add: routeDestination_find)

lemma routeDestination_Some:
  "find (route_eligible m floorOnly) (cd_routes d) = Some r \<Longrightarrow> routeDestination d m floorOnly =
     (if takes_signal d m \<and> cr_action r = ''send'' then [delivery_for d m floorOnly r] else [])"
  by (simp add: routeDestination_find)

lemma delivery_for_fields [simp]:
  "dl_DestinationName (delivery_for d m floorOnly r) = cd_name d" "dl_MandatoryFloor (delivery_for d m floorOnly r) = floorOnly"
  "dl_DestinationKind (delivery_for d m floorOnly r) = cd_kind d"
  by (simp_all add: delivery_for_def)

lemma routeDestination_name:
  assumes "dl \<in> set (routeDestination d m floorOnly)"
  shows "dl_DestinationName dl = cd_name d \<and> dl_MandatoryFloor dl = floorOnly"
proof (cases "find (route_eligible m floorOnly) (cd_routes d)")
  case (Some r)
  then have "dl = delivery_for d m floorOnly r" 
    using assms unfolding routeDestination_Some [OF Some] by (simp split: if_splits)
  then show ?thesis by simp
next
  case None
  then show ?thesis using assms unfolding routeDestination_None [OF None] by simp
qed

lemma routeDestination_single: "length (routeDestination d m floorOnly) \<le> 1"
  by (cases "find (route_eligible m floorOnly) (cd_routes d)") (simp_all add: routeDestination_find)

lemma distinct_deliveries:
  "distinct (map cd_name dests) \<Longrightarrow> distinct (map dl_DestinationName (concat (map (\<lambda>d. routeDestination d m floorOnly) dests)))"
proof (induction dests)
  case (Cons d dests)
  let ?A = "routeDestination d m floorOnly"
  let ?B = "concat (map (\<lambda>d. routeDestination d m floorOnly) dests)"
  have A: "distinct (map dl_DestinationName ?A)" using routeDestination_single [of d m floorOnly] by (cases ?A) auto
  have "x \<noteq> y" if "x \<in> set (map dl_DestinationName ?A)" "y \<in> set (map dl_DestinationName ?B)" for x y
  proof -
    have "x = cd_name d" using that(1) routeDestination_name by fastforce
    moreover have "y \<in> cd_name ` set dests" using that(2) routeDestination_name by fastforce
    ultimately show ?thesis using Cons.prems by auto
  qed
  then have "set (map dl_DestinationName ?A) \<inter> set (map dl_DestinationName ?B) = {}" by blast
  moreover have "distinct (map dl_DestinationName ?B)" using Cons by simp
  ultimately have "distinct (map dl_DestinationName ?A @ map dl_DestinationName ?B)" using A unfolding distinct_append by blast
  then show ?case unfolding list.map concat.simps map_append .
qed simp

lemma routeDestination_mem:
  "dl \<in> set (routeDestination d m floorOnly) \<longleftrightarrow> takes_signal d m \<and>
     (\<exists>i < length (cd_routes d). route_eligible m floorOnly (cd_routes d ! i) \<and> (\<forall>j < i. \<not> route_eligible m floorOnly (cd_routes d ! j)) \<and>
       cr_action (cd_routes d ! i) = ''send'' \<and> dl = delivery_for d m floorOnly (cd_routes d ! i))"
proof (cases "find (route_eligible m floorOnly) (cd_routes d)")
  case None
  then have "\<not> route_eligible m floorOnly (cd_routes d ! i)" if "i < length (cd_routes d)" for i
    using that by (simp add: find_None_iff)
  then show ?thesis unfolding routeDestination_None [OF None] by auto
next
  case (Some r)
  then obtain i where i: "i < length (cd_routes d)" "route_eligible m floorOnly (cd_routes d ! i)" "r = cd_routes d ! i"
    "\<forall>j < i. \<not> route_eligible m floorOnly (cd_routes d ! j)"
    by (auto simp: find_Some_iff)
  have unique: "k = i" if "k < length (cd_routes d)" "route_eligible m floorOnly (cd_routes d ! k)" "\<forall>j < k. \<not> route_eligible m floorOnly (cd_routes d ! j)" for k
    using i that by (metis linorder_neqE_nat)
  have "dl \<in> set (routeDestination d m floorOnly) \<longleftrightarrow> takes_signal d m \<and> cr_action r = ''send'' \<and> dl = delivery_for d m floorOnly r"

    unfolding routeDestination_Some [OF Some] by (cases "takes_signal d m"; cases "cr_action r = ''send''") simp_all
  then show ?thesis using i unique by blast
qed

lemma names_subseq:
  "length (routeDestination d m floorOnly) \<le> 1 \<Longrightarrow> subseq xs ys \<Longrightarrow>
     subseq (map dl_DestinationName (routeDestination d m floorOnly) @ xs) (cd_name d # ys)"
  using routeDestination_name [of _ d m floorOnly] by (cases "routeDestination d m floorOnly") auto

lemma deliveries_subseq:
  "subseq (map dl_DestinationName (concat (map (\<lambda>d. routeDestination d m floorOnly) ds))) (map cd_name ds)"
  by (induction ds) (use names_subseq routeDestination_single in auto)

lemma evaluate_Inr:
  assumes "router_Evaluate registry (Some e) m builder = Inr res"
  obtains (drop) "router_Admit registry (Some e) m = Inr AdmissionDrop" "res = \<lparr>rs_admission = AdmissionDrop, rs_record = None, rs_deliveries = []\<rparr>"
  | (built) build r where "builder = Some build" "router_Admit registry (Some e) m = Inr (rs_admission res)" "rs_admission res \<noteq> AdmissionDrop"
      "build (rs_admission res) = Inr r" "verifyBuiltRecord m (rs_admission res) r = None" "rs_record res = Some r"
      "rs_deliveries res = route e m (rs_admission res)"
  using assms by (auto simp: router_Evaluate_def split: sum.splits if_splits option.splits)

text \<open>
  C25. Routing of an admitted record.  A destination receives it exactly if the destination is enabled, supports and selects the
  signal, and the first of its routes that covers the signal and matches is a send route; the redaction profile is that
  route's one for the record's bucket.  No destination receives it twice, whatever the plan, and the deliveries are in the order
  of the destinations.
\<close>

theorem routing_first_match:
  assumes "NewEvaluator Parse plan = Inr e" and "router_Evaluate registry (Some e) m builder = Inr res"
    and "rs_admission res = AdmissionOrdinary"
  shows "(dl \<in> set (rs_deliveries res) \<longleftrightarrow>
      (\<exists>d \<in> set (e_destinations e). takes_signal d m \<and>
        (\<exists>i < length (cd_routes d). route_eligible m False (cd_routes d ! i) \<and> (\<forall>j < i. \<not> route_eligible m False (cd_routes d ! j)) \<and>
          cr_action (cd_routes d ! i) = ''send'' \<and> dl = delivery_for d m False (cd_routes d ! i)))) \<and>
    distinct (map dl_DestinationName (rs_deliveries res)) \<and>
    subseq (map dl_DestinationName (rs_deliveries res)) (map cd_name (e_destinations e))"
proof -
  have r: "rs_deliveries res = concat (map (\<lambda>d. routeDestination d m False) (e_destinations e))"
    using assms(2,3) by (cases rule: evaluate_Inr) (auto simp: route_def)
  have one: "dl \<in> set (routeDestination d m False) \<longleftrightarrow> takes_signal d m \<and>
        (\<exists>i < length (cd_routes d). route_eligible m False (cd_routes d ! i) \<and> (\<forall>j < i. \<not> route_eligible m False (cd_routes d ! j)) \<and>
          cr_action (cd_routes d ! i) = ''send'' \<and> dl = delivery_for d m False (cd_routes d ! i))" for d
    by (rule routeDestination_mem)
  have "distinct (map cd_name (e_destinations e))" using new_evaluator_inv [OF assms(1)] by (auto simp: index_inv_def)
  from distinct_deliveries [OF this, of m False] deliveries_subseq [of m False "e_destinations e"] show ?thesis
    unfolding r set_concat set_map using one by blast
qed

subsection \<open>The mandatory floor\<close>










subsection \<open>The managed fallback\<close>

lemma managed_routes:
  assumes "validManagedFallbackDestination Parse src"
  obtains drop send where "ed_Routes src = [drop, send]"
    "validGeneratedManagedDropRoute drop 0 ''drop-local-inventory-diagnostics'' [''local_inventory_diagnostic''] []" "managed_send_ok send"
    "ed_Name src = ManagedAIDDestinationName"
  using assms by (auto simp: validManagedFallbackDestination_def split: if_splits list.splits)

text \<open>
  The managed fallback builds a record that ordinary collection dropped only for the release-owned destination: a log that is
  not mandatory and was not imported, with the sensitive redaction profile, matching its metadata and not floor-only; the
  local inventory diagnostics are never among them.
\<close>

theorem managed_fallback_confined:
  assumes "NewEvaluator Parse plan = Inr e" and "EvaluateManagedLogFallback registry (Some e) m builder = Inr (Some (r, dl))"
  shows "router_Admit registry (Some e) m = Inr AdmissionDrop \<and> id_Signal (m_identity m) = ''logs'' \<and> \<not> m_mandatory m \<and>
    m_source m \<noteq> ''otel_receiver'' \<and> metadataFromRecord r = m \<and> \<not> rec_FloorOnly r \<and>
    dl_DestinationName dl = ManagedAIDDestinationName \<and> dl_DestinationKind dl = ''otlp'' \<and> dl_RedactionProfile dl = ''sensitive'' \<and>
    \<not> (id_Bucket (m_identity m) = ''ai.discovery'' \<and> m_action m = ''local_inventory_diagnostic'')"
proof -
  let ?p = "e_managedFallback e"
  let ?d = "e_destinations e ! nat ?p"
  obtain a where a: "router_Admit registry (Some e) m = Inr a" "a = AdmissionDrop" "id_Signal (m_identity m) = ''logs''" "m_source m \<noteq> ''otel_receiver''" "0 \<le> ?p"
    and dl: "routeDestination ?d m False = [dl]" "dl_DestinationName dl = ManagedAIDDestinationName" "dl_DestinationKind dl = ''otlp''"
      "dl_RedactionProfile dl = ''sensitive''"
    and v: "verifyBuiltRecord m AdmissionOrdinary r = None"
    using assms(2) by (auto simp: EvaluateManagedLogFallback_def Let_def split: sum.splits if_splits list.splits option.splits)
  have "\<not> m_mandatory m" using a by (auto simp: router_Admit_def split: option.splits if_splits)
  moreover have "metadataFromRecord r = m \<and> \<not> rec_FloorOnly r" using v by (simp add: verifyBuiltRecord_def split: if_splits)
  moreover have False if diag: "id_Bucket (m_identity m) = ''ai.discovery''" "m_action m = ''local_inventory_diagnostic''"
  proof -
    obtain src where src: "?d = compileDestinationIndex src" "validManagedFallbackDestination Parse src"
      using new_evaluator_inv [OF assms(1)] a(5) by (auto simp: index_inv_def)
    then obtain dr send where rts: "ed_Routes src = [dr, send]"
        "validGeneratedManagedDropRoute dr 0 ''drop-local-inventory-diagnostics'' [''local_inventory_diagnostic''] []"
      using managed_routes by metis
    have "route_eligible m False (compile_route dr)"
      using rts(2) diag a(3) by (simp add: validGeneratedManagedDropRoute_def route_eligible_def compile_route_def compileSelector_def setOf_def
          selector_matches_def matchesValue_def)
    then have "find (route_eligible m False) (cd_routes ?d) = Some (compile_route dr)"
      using rts(1) src(1) by (simp add: compileDestinationIndex_def)
    from routeDestination_Some [OF this] show False
      using dl(1) rts(2) by (simp add: compile_route_def validGeneratedManagedDropRoute_def split: if_splits)
  qed
  ultimately show ?thesis using a dl by blast
qed

subsection \<open>A concrete plan\<close>

definition sample_selector :: EffectiveSelector where
  "sample_selector = \<lparr>es_Buckets = Buckets, es_BucketWildcard = True, es_Sources = [], es_Connectors = [], es_Actions = [], es_EventNames = [],
     es_MinSeverity = []\<rparr>"

definition sample_route :: EffectiveRoute where
  "sample_route = \<lparr>er_Index = 0, er_Name = ''all'', er_Generated = True, er_Signals = [''logs''], er_Selector = sample_selector, er_Action = ''send'',
     er_RedactionProfileByBucket = map (\<lambda>b. (b, ''sensitive'')) Buckets, er_IncludesMandatoryFloor = True\<rparr>"

definition sample_transport :: TransportPlan where
  "sample_transport = \<lparr>tp_Endpoint = ''https://h/api/v1/defenseclaw/events/ingest'', tp_Protocol = ''http/json'', tp_Method = ''POST'', tp_Headers = [],
     tp_TokenEnv = [], tp_BearerEnv = [], tp_LoggerName = ''defenseclaw'', tp_Batch = Some \<lparr>bs_MaxQueueSize = 1, bs_MaxQueueBytes = 1,
     bs_MaxExportBatchSize = 1, bs_MaxExportBatchBytes = 1, bs_ScheduledDelayMS = 1\<rparr>\<rparr>"

definition sample_destination :: "string \<Rightarrow> string \<Rightarrow> EffectiveRoute list \<Rightarrow> EffectiveDestination" where
  "sample_destination name kind routes = \<lparr>ed_Name = name, ed_Kind = kind, ed_Enabled = True, ed_Generated = True, ed_Capabilities = [''logs''],
     ed_SelectedSignals = [''logs''], ed_PolicyForm = ''implicit_local'', ed_FirstMatchPerSignal = True, ed_ReloadPolicy = ''restart_required'',
     ed_ReloadTransport = ''live_reloadable'', ed_Routes = routes, ed_Transport = sample_transport\<rparr>"

definition sample_managed :: EffectiveDestination where
  "sample_managed = sample_destination ManagedAIDDestinationName ''otlp''
     [sample_route\<lparr>er_Name := ''drop-local-inventory-diagnostics'', er_Action := ''drop'', er_IncludesMandatoryFloor := False,
        er_Selector := sample_selector\<lparr>es_Buckets := [''ai.discovery''], es_BucketWildcard := False, es_Actions := [''local_inventory_diagnostic'']\<rparr>,
        er_RedactionProfileByBucket := []\<rparr>,
      sample_route\<lparr>er_Index := 1, er_Name := ''all-collected-logs'', er_IncludesMandatoryFloor := False\<rparr>]"

text \<open>The local store, a SIEM that takes findings of medium severity and above but none of low severity, and the managed destination.\<close>

definition sample_plan :: "bool \<Rightarrow> EffectivePlan" where
  "sample_plan collect = \<lparr>pl_BucketCatalogVersion = 1,
     pl_Buckets = map (\<lambda>b. (b, \<lparr>col_Logs = collect, col_Traces = False, col_Metrics = False\<rparr>)) Buckets,
     pl_Destinations = [sample_destination ''local-sqlite'' ''sqlite'' [sample_route],
       sample_destination ''siem'' ''splunk_hec''
         [sample_route\<lparr>er_Action := ''drop'', er_Selector := sample_selector\<lparr>es_Sources := [''guardrail'']\<rparr>\<rparr>,
          sample_route\<lparr>er_Index := 1, er_Selector := sample_selector\<lparr>es_MinSeverity := ''MEDIUM''\<rparr>\<rparr>],
       sample_managed], pl_Digest = ''d''\<rparr>"

definition sample_parse :: "string \<Rightarrow> ParsedURL option" where
  "sample_parse raw = Some \<lparr>pu_Scheme = ''https'', pu_Opaque = [], pu_Host = ''h'', pu_Hostname = ''h'', pu_HasUser = False,
     pu_Path = ManagedAIDIngestPath, pu_EscapedPath = ManagedAIDIngestPath, pu_RawPath = [], pu_RawQuery = [], pu_ForceQuery = False,
     pu_Fragment = [], pu_RawFragment = []\<rparr>"

definition finding_identity :: EventIdentity where
  "finding_identity = \<lparr>id_Bucket = ''security.finding'', id_Signal = ''logs'', id_Name = ''finding.observed''\<rparr>"

definition sample_metadata :: "string \<Rightarrow> bool \<Rightarrow> Metadata" where
  "sample_metadata severity mandatory = \<lparr>m_identity = finding_identity, m_severity = severity, m_hasSeverity = True, m_source = ''scanner'',
     m_connector = [], m_action = [], m_mandatory = mandatory\<rparr>"

definition sample_builder :: "Metadata \<Rightarrow> RecordBuilder" where
  "sample_builder m a = Inr \<lparr>rec_Identity = m_identity m, rec_Severity = m_severity m, rec_HasSeverity = m_hasSeverity m, rec_Source = m_source m,
     rec_Connector = m_connector m, rec_Action = m_action m, rec_Mandatory = m_mandatory m,
     rec_FloorOnly = (case a of AdmissionFloor \<Rightarrow> True | _ \<Rightarrow> False)\<rparr>"

definition sample_routed :: "bool \<Rightarrow> Metadata \<Rightarrow> Result option" where
  "sample_routed collect m =
     (case NewEvaluator sample_parse (Some (sample_plan collect)) of
        Inl _ \<Rightarrow> None
      | Inr e \<Rightarrow> (case router_Evaluate [finding_identity] (Some e) m (Some (sample_builder m)) of Inl _ \<Rightarrow> None | Inr res \<Rightarrow> Some res))"

lemma sample_routed_SomeE:
  assumes "sample_routed collect m = Some res"
  obtains e where "NewEvaluator sample_parse (Some (sample_plan collect)) = Inr e"
    "router_Evaluate [finding_identity] (Some e) m (Some (sample_builder m)) = Inr res"
  using assms by (auto simp: sample_routed_def split: sum.splits)

theorem routing_first_match_witness:
  "\<exists>res. sample_routed True (sample_metadata ''LOW'' False) = Some res \<and> distinct (map dl_DestinationName (rs_deliveries res)) \<and>
     map dl_DestinationName (rs_deliveries res) = [''local-sqlite'', ManagedAIDDestinationName]"
proof -
  let ?m = "sample_metadata ''LOW'' False"
  have "map_option rs_admission (sample_routed True ?m) = Some AdmissionOrdinary"
    "map_option (\<lambda>r. map dl_DestinationName (rs_deliveries r)) (sample_routed True ?m) = Some [''local-sqlite'', ManagedAIDDestinationName]"
    by code_simp+
  then obtain res where res: "sample_routed True ?m = Some res" "rs_admission res = AdmissionOrdinary"
    "map dl_DestinationName (rs_deliveries res) = [''local-sqlite'', ManagedAIDDestinationName]" by auto
  obtain e where e: "NewEvaluator sample_parse (Some (sample_plan True)) = Inr e"
    "router_Evaluate [finding_identity] (Some e) ?m (Some (sample_builder ?m)) = Inr res" using sample_routed_SomeE [OF res(1)] by blast
  note d = conjunct1 [OF conjunct2 [OF routing_first_match [OF e res(2)]]]
  show ?thesis by (intro exI [of _ res] conjI res d)
qed


definition sample_fallback :: "Metadata \<Rightarrow> (Record \<times> Delivery) option" where
  "sample_fallback m =
     (case NewEvaluator sample_parse (Some (sample_plan False)) of
        Inl _ \<Rightarrow> None
      | Inr e \<Rightarrow> (case EvaluateManagedLogFallback [finding_identity] (Some e) m (Some (sample_builder m)) of Inl _ \<Rightarrow> None | Inr x \<Rightarrow> x))"

theorem managed_fallback_confined_witness:
  "\<exists>r dl. sample_fallback (sample_metadata ''HIGH'' False) = Some (r, dl) \<and> dl_DestinationName dl = ManagedAIDDestinationName \<and> \<not> rec_FloorOnly r"
proof -
  let ?m = "sample_metadata ''HIGH'' False"
  have "sample_fallback ?m \<noteq> None" by code_simp
  then obtain r dl where x: "sample_fallback ?m = Some (r, dl)" by auto
  then obtain e where e: "NewEvaluator sample_parse (Some (sample_plan False)) = Inr e"
    "EvaluateManagedLogFallback [finding_identity] (Some e) ?m (Some (sample_builder ?m)) = Inr (Some (r, dl))"
    by (auto simp: sample_fallback_def split: sum.splits)
  from managed_fallback_confined [OF e] x show ?thesis by blast
qed

end
