(* ===== verification/RuntimeGraph_Reports.thy ===== *)
theory RuntimeGraph_Reports
  imports Go_Prelude "HOL-Library.Multiset"
begin

text \<open>
  The report spool of the runtime graph manager (\<^verbatim>\<open>observability/runtimegraph/manager.go\<close>):
  reload transactions number their report batches while they hold the lifecycle lock, hand
  them over outside of it, and one worker delivers them in the order of the numbers, retrying an
  envelope until the reporter accepts it.

  \<open>rstep\<close> interleaves the critical sections of producers and worker.  The two ghost
  lists \<open>sp_batches\<close> and \<open>sp_sent\<close> record the batches in the order in which they were
  numbered and the envelopes that the reporter accepted.  A channel that is closed and replaced to
  wake waiters is a counter, and a goroutine that waits on it remembers the value it saw.
\<close>

subsection \<open>Reports and batches\<close>

datatype ReportCode =
    ReportReloadApplied
  | ReportValidationRejected
  | ReportRestartRequired
  | ReportInitializationFail
  | ReportCleanupFailed
  | ReportDrainFailed

record Report =
  rp_Code :: ReportCode
  rp_Outcome :: string
  rp_FieldPath :: string
  rp_ComponentName :: string
  rp_Generation :: "64 word"
  rp_OccurredAt :: gotime
  rp_DeliverySequence :: "64 word"
  rp_DeliveryIndex :: "32 word"

datatype reportKind = reportHealthKind | reportComplianceKind

text \<open>A graph is named by its position in the list of all graphs ever built.\<close>

record reportEnvelope =
  re_kind :: reportKind
  re_graph :: "nat option"
  re_report :: Report

record reportBatch =
  rb_sequence :: "64 word"
  rb_envelopes :: "reportEnvelope list"

definition empty_batch :: reportBatch where
  "empty_batch = \<lparr>rb_sequence = 0, rb_envelopes = []\<rparr>"

text \<open>\<open>generation\<close> is the generation of the graph, 0 for nil; \<open>now\<close> the reading of the clock.\<close>

definition newReport :: "64 word \<Rightarrow> gotime \<Rightarrow> ReportCode \<Rightarrow> string \<Rightarrow> string \<Rightarrow> string \<Rightarrow> Report" where
  "newReport generation now code outcome fieldPath component =
     \<lparr>rp_Code = code, rp_Outcome = outcome, rp_FieldPath = fieldPath, rp_ComponentName = component,
      rp_Generation = generation, rp_OccurredAt = now, rp_DeliverySequence = 0, rp_DeliveryIndex = 0\<rparr>"

definition add_envelope :: "reportKind \<Rightarrow> reportBatch \<Rightarrow> nat option \<Rightarrow> Report \<Rightarrow> reportBatch" where
  "add_envelope kind batch graph report =
     batch\<lparr>rb_envelopes := rb_envelopes batch @ [\<lparr>re_kind = kind, re_graph = graph, re_report = report\<rparr>]\<rparr>"

definition addHealth ::
  "reportBatch \<Rightarrow> nat option \<Rightarrow> 64 word \<Rightarrow> gotime \<Rightarrow> ReportCode \<Rightarrow> string \<Rightarrow> string \<Rightarrow> string \<Rightarrow> reportBatch" where
  "addHealth batch graph generation now code outcome fieldPath component =
     add_envelope reportHealthKind batch graph (newReport generation now code outcome fieldPath component)"

definition addCompliance ::
  "reportBatch \<Rightarrow> nat option \<Rightarrow> 64 word \<Rightarrow> gotime \<Rightarrow> ReportCode \<Rightarrow> string \<Rightarrow> string \<Rightarrow> string \<Rightarrow> reportBatch" where
  "addCompliance batch graph generation now code outcome fieldPath component =
     add_envelope reportComplianceKind batch graph (newReport generation now code outcome fieldPath component)"

subsection \<open>The spool\<close>

text \<open>
  The report fields of \<open>Manager\<close>.  \<open>sp_progress\<close> and \<open>sp_wake\<close> count the replacements of the
  channels \<open>reportProgress\<close> and \<open>reportSpoolWake\<close>.
\<close>

record Spool =
  sp_seq :: "64 word"
  sp_accepted :: "64 word"
  sp_completed :: "64 word"
  sp_failed :: bool
  sp_progress :: nat
  sp_spool :: "64 word \<Rightarrow> reportBatch option"
  sp_wake :: nat
  sp_closed :: bool
  sp_delivering :: "64 word"
  sp_started :: bool
  sp_stopped :: bool
  sp_batches :: "reportBatch list"
  sp_sent :: "reportEnvelope list"

definition new_spool :: Spool where
  "new_spool = \<lparr>sp_seq = 0, sp_accepted = 0, sp_completed = 0, sp_failed = False, sp_progress = 0,
     sp_spool = Map.empty, sp_wake = 0, sp_closed = False, sp_delivering = 0, sp_started = False,
     sp_stopped = False, sp_batches = [], sp_sent = []\<rparr>"

text \<open>The numbers that \<open>sequenceReports\<close> writes into the envelopes of a batch.\<close>

definition number_envelopes :: "64 word \<Rightarrow> reportEnvelope list \<Rightarrow> reportEnvelope list" where
  "number_envelopes sequence es =
     map (\<lambda>(i, e). e\<lparr>re_report := (re_report e)\<lparr>rp_DeliverySequence := sequence, rp_DeliveryIndex := of_nat i\<rparr>\<rparr>)
       (enumerate 0 es)"

definition sequenceReports :: "Spool \<Rightarrow> reportBatch \<Rightarrow> Spool \<times> reportBatch" where
  "sequenceReports sp batch =
     (if rb_envelopes batch = [] \<or> rb_sequence batch \<noteq> 0 then (sp, batch)
      else let sequence = sp_seq sp + 1;
               numbered = \<lparr>rb_sequence = sequence, rb_envelopes = number_envelopes sequence (rb_envelopes batch)\<rparr>
           in (sp\<lparr>sp_seq := sequence, sp_batches := sp_batches sp @ [numbered]\<rparr>, numbered))"

definition notifyReportSpoolLocked :: "Spool \<Rightarrow> Spool" where
  "notifyReportSpoolLocked sp = sp\<lparr>sp_wake := sp_wake sp + 1\<rparr>"

definition notifyReportProgress :: "Spool \<Rightarrow> Spool" where
  "notifyReportProgress sp = sp\<lparr>sp_progress := sp_progress sp + 1\<rparr>"

text \<open>
  The critical section of \<open>dispatchReports\<close>; the result tells whether the batch was added.  The call of
  \<open>maybeCloseReporter\<close> that follows it belongs to the manager.
\<close>

datatype dispatch_result = DispatchNothing | DispatchAccepted | DispatchRefused

definition dispatchReports :: "Spool \<Rightarrow> reportBatch \<Rightarrow> Spool \<times> dispatch_result" where
  "dispatchReports sp batch =
     (if rb_envelopes batch = [] then (sp, DispatchNothing)
      else if rb_sequence batch = 0 then (sp, DispatchRefused)
      else if sp_closed sp \<or> rb_sequence batch \<le> sp_completed sp \<or> rb_sequence batch = sp_delivering sp
      then (sp, DispatchRefused)
      else if sp_spool sp (rb_sequence batch) \<noteq> None then (sp, DispatchRefused)
      else (notifyReportSpoolLocked (sp\<lparr>sp_spool := (sp_spool sp)(rb_sequence batch \<mapsto> batch),
              sp_accepted := sp_accepted sp + 1\<rparr>), DispatchAccepted))"

definition requestReporterClose :: "Spool \<Rightarrow> Spool" where
  "requestReporterClose sp =
     (if \<not> sp_started sp then sp
      else if \<not> sp_closed sp then notifyReportSpoolLocked (sp\<lparr>sp_closed := True\<rparr>)
      else sp)"

definition markReportsCompleted :: "Spool \<Rightarrow> 64 word \<Rightarrow> Spool" where
  "markReportsCompleted sp sequence = notifyReportProgress (sp\<lparr>sp_completed := sequence\<rparr>)"

subsection \<open>The worker\<close>

text \<open>
  \<open>deliverReports\<close> and \<open>deliverReportBatch\<close> as a program counter: at the head of the loop,
  delivering envelope \<open>i\<close> of a batch, waiting for the retry delay, about to record the batch as
  completed, or waiting for a wake-up that is newer than the value it holds.
\<close>

datatype reporter_pc =
    R_NotStarted
  | R_Top "64 word"
  | R_Deliver "64 word" reportBatch nat
  | R_Retry "64 word" reportBatch nat
  | R_Wait "64 word" nat
  | R_Stopped

definition startReporter :: "Spool \<times> reporter_pc \<Rightarrow> Spool \<times> reporter_pc" where
  "startReporter s = (case s of (sp, pc) \<Rightarrow> if sp_started sp then (sp, pc) else (sp\<lparr>sp_started := True\<rparr>, R_Top 1))"

text \<open>The critical section at the head of the loop of \<open>deliverReports\<close>.\<close>

definition deliverReports_top :: "Spool \<Rightarrow> 64 word \<Rightarrow> Spool \<times> reporter_pc" where
  "deliverReports_top sp expected =
     (case sp_spool sp expected of
        Some batch \<Rightarrow> (sp\<lparr>sp_spool := (sp_spool sp)(expected := None), sp_delivering := expected\<rparr>, R_Deliver expected batch 0)
      | None \<Rightarrow> if sp_closed sp then (sp\<lparr>sp_stopped := True\<rparr>, R_Stopped) else (sp, R_Wait expected (sp_wake sp)))"

text \<open>
  One iteration of \<open>deliverReportBatch\<close>.  \<open>ok\<close> is the outcome of \<open>deliverReport\<close>: the reporter's method returned nil,
  and neither panicked nor returned an error.
\<close>

definition deliverReportBatch_step :: "Spool \<Rightarrow> 64 word \<Rightarrow> reportBatch \<Rightarrow> nat \<Rightarrow> bool \<Rightarrow> Spool \<times> reporter_pc" where
  "deliverReportBatch_step sp expected batch i ok =
     (if length (rb_envelopes batch) \<le> i then (markReportsCompleted sp expected, R_Top (expected + 1))
      else if ok then (sp\<lparr>sp_failed := False, sp_sent := sp_sent sp @ [rb_envelopes batch ! i]\<rparr>, R_Deliver expected batch (i + 1))
      else (notifyReportProgress (sp\<lparr>sp_failed := True\<rparr>), R_Retry expected batch i))"

text \<open>
  Producers hold batches that are numbered and not handed over yet.  A configuration is the spool, the worker
  and those batches.
\<close>

type_synonym reports = "Spool \<times> reporter_pc \<times> reportBatch list"

inductive rstep :: "reports \<Rightarrow> reports \<Rightarrow> bool" where
  r_start: "startReporter (sp, pc) = (sp', pc') \<Longrightarrow> rstep (sp, pc, held) (sp', pc', held)"
| r_sequence: "rb_sequence batch = 0 \<Longrightarrow> sequenceReports sp batch = (sp', batch') \<Longrightarrow>
    rstep (sp, pc, before @ after) (sp', pc, before @ batch' # after)"
| r_dispatch: "held = before @ batch # after \<Longrightarrow> dispatchReports sp batch = (sp', result) \<Longrightarrow>
    rstep (sp, pc, held) (sp', pc, before @ after)"
| r_close: "rstep (sp, pc, held) (requestReporterClose sp, pc, held)"
| r_top: "deliverReports_top sp expected = (sp', pc') \<Longrightarrow> rstep (sp, R_Top expected, held) (sp', pc', held)"
| r_deliver: "deliverReportBatch_step sp expected batch i ok = (sp', pc') \<Longrightarrow>
    rstep (sp, R_Deliver expected batch i, held) (sp', pc', held)"
| r_retry: "rstep (sp, R_Retry expected batch i, held) (sp, R_Deliver expected batch i, held)"
| r_wake: "sp_wake sp \<noteq> seen \<Longrightarrow> rstep (sp, R_Wait expected seen, held) (sp, R_Top expected, held)"

inductive rreach :: "reports \<Rightarrow> bool" where
  rreach_init: "rreach (new_spool, R_NotStarted, [])"
| rreach_step: "rreach c \<Longrightarrow> rstep c c' \<Longrightarrow> rreach c'"

text \<open>
  \<open>FlushReports\<close> reads the target once; it returns nil at a moment when \<open>reportCompleted\<close> has reached the target.
  \<open>WaitReporter\<close> returns nil when the worker was never started or has stopped.
\<close>

definition FlushReports_target :: "Spool \<Rightarrow> 64 word" where
  "FlushReports_target sp = sp_seq sp"

datatype flush_state = FlushReturnsNil | FlushReturnsError | FlushWaits

definition FlushReports_check :: "Spool \<Rightarrow> 64 word \<Rightarrow> flush_state" where
  "FlushReports_check sp target =
     (if target \<le> sp_completed sp then FlushReturnsNil
      else if sp_failed sp then FlushReturnsError
      else FlushWaits)"

definition WaitReporter_returns :: "Spool \<Rightarrow> bool" where
  "WaitReporter_returns sp \<longleftrightarrow> \<not> sp_started sp \<or> sp_stopped sp"

subsection \<open>The invariant of the spool\<close>

text \<open>
  \<open>c\<close> is the number of completed batches.  Every batch that is numbered is completed, in delivery, in the spool or still held by the
  producer that numbered it; only a closed spool refuses one.  A worker that waits with the current wake-up value
  has nothing to do.
\<close>

definition numbered :: "reportBatch list \<Rightarrow> reportBatch list" where
  "numbered held = filter (\<lambda>b. rb_envelopes b \<noteq> []) held"

fun busy :: "reporter_pc \<Rightarrow> nat" where
  "busy (R_Deliver expected batch i) = 1"
| "busy (R_Retry expected batch i) = 1"
| "busy pc = 0"

definition sent_before :: "reportBatch list \<Rightarrow> nat \<Rightarrow> reportEnvelope list" where
  "sent_before batches c = concat (map rb_envelopes (take c batches))"

fun worker_ok :: "nat \<Rightarrow> Spool \<Rightarrow> reporter_pc \<Rightarrow> bool" where
  "worker_ok c sp R_NotStarted \<longleftrightarrow> \<not> sp_started sp \<and> \<not> sp_stopped sp \<and> \<not> sp_closed sp \<and> c = 0 \<and> sp_sent sp = []"
| "worker_ok c sp (R_Top e) \<longleftrightarrow> sp_started sp \<and> \<not> sp_stopped sp \<and> e = of_nat (Suc c) \<and> sp_sent sp = sent_before (sp_batches sp) c"
| "worker_ok c sp (R_Wait e w) \<longleftrightarrow> sp_started sp \<and> \<not> sp_stopped sp \<and> e = of_nat (Suc c) \<and> sp_sent sp = sent_before (sp_batches sp) c \<and>
     w \<le> sp_wake sp \<and> (w = sp_wake sp \<longrightarrow> sp_spool sp e = None \<and> \<not> sp_closed sp)"
| "worker_ok c sp (R_Deliver e b i) \<longleftrightarrow> sp_started sp \<and> \<not> sp_stopped sp \<and> e = of_nat (Suc c) \<and> c < length (sp_batches sp) \<and>
     b = sp_batches sp ! c \<and> i \<le> length (rb_envelopes b) \<and> sp_sent sp = sent_before (sp_batches sp) c @ take i (rb_envelopes b)"
| "worker_ok c sp (R_Retry e b i) \<longleftrightarrow> sp_started sp \<and> \<not> sp_stopped sp \<and> e = of_nat (Suc c) \<and> c < length (sp_batches sp) \<and>
     b = sp_batches sp ! c \<and> i \<le> length (rb_envelopes b) \<and> sp_sent sp = sent_before (sp_batches sp) c @ take i (rb_envelopes b)"
| "worker_ok c sp R_Stopped \<longleftrightarrow> sp_started sp \<and> sp_stopped sp \<and> sp_closed sp \<and> sp_spool sp (of_nat (Suc c)) = None \<and>
     sp_sent sp = sent_before (sp_batches sp) c"

definition batches_ok :: "nat \<Rightarrow> Spool \<Rightarrow> bool" where
  "batches_ok c sp \<longleftrightarrow> sp_seq sp = of_nat (length (sp_batches sp)) \<and> c \<le> length (sp_batches sp) \<and> sp_completed sp = of_nat c \<and>
     (\<forall>i < length (sp_batches sp). rb_sequence (sp_batches sp ! i) = of_nat (Suc i) \<and> rb_envelopes (sp_batches sp ! i) \<noteq> [])"

definition spool_ok :: "nat \<Rightarrow> Spool \<Rightarrow> bool" where
  "spool_ok m sp \<longleftrightarrow> (\<forall>k b. sp_spool sp k = Some b \<longrightarrow>
     (\<exists>i. m \<le> i \<and> i < length (sp_batches sp) \<and> k = of_nat (Suc i) \<and> b = sp_batches sp ! i))"

definition held_ok :: "nat \<Rightarrow> Spool \<Rightarrow> reportBatch list \<Rightarrow> bool" where
  "held_ok m sp held \<longleftrightarrow> distinct (map rb_sequence (numbered held)) \<and>
     (\<forall>b \<in> set (numbered held). \<exists>i. m \<le> i \<and> i < length (sp_batches sp) \<and> b = sp_batches sp ! i \<and> sp_spool sp (of_nat (Suc i)) = None)"

definition lossless :: "nat \<Rightarrow> Spool \<Rightarrow> reportBatch list \<Rightarrow> bool" where
  "lossless m sp held \<longleftrightarrow> sp_accepted sp + of_nat (length (numbered held)) = of_nat (length (sp_batches sp)) \<and>
     (\<forall>i. m \<le> i \<longrightarrow> i < length (sp_batches sp) \<longrightarrow>
        sp_spool sp (of_nat (Suc i)) \<noteq> None \<or> sp_batches sp ! i \<in> set (numbered held))"

definition rinv :: "nat \<Rightarrow> reports \<Rightarrow> bool" where
  "rinv c s = (case s of (sp, pc, held) \<Rightarrow>
     batches_ok c sp \<and> worker_ok c sp pc \<and> sp_delivering sp = of_nat (c + busy pc) \<and> spool_ok (c + busy pc) sp \<and>
     held_ok (c + busy pc) sp held \<and> (\<not> sp_closed sp \<longrightarrow> lossless (c + busy pc) sp held))"

text \<open>The number of values of a \<open>uint64\<close>; sequence numbers are unique as long as fewer batches are numbered.\<close>

definition uint64_range :: nat where
  "uint64_range = 2 ^ 64"

lemma of_nat_word_inj:
  "m < uint64_range \<Longrightarrow> n < uint64_range \<Longrightarrow> (of_nat m :: 64 word) = of_nat n \<longleftrightarrow> m = n"
  by (simp add: uint64_range_def word_of_nat_eq_iff take_bit_nat_eq_self)

lemma of_nat_word_le:
  "m < uint64_range \<Longrightarrow> n < uint64_range \<Longrightarrow> (of_nat m :: 64 word) \<le> of_nat n \<longleftrightarrow> m \<le> n"
  by (simp add: uint64_range_def word_of_nat_less_eq_iff take_bit_nat_eq_self)

lemma of_nat_word_nonzero: "0 < m \<Longrightarrow> m < uint64_range \<Longrightarrow> (of_nat m :: 64 word) \<noteq> 0"
  using of_nat_word_inj [of m 0] by (simp add: uint64_range_def)

lemma sent_before_Suc:
  "c < length batches \<Longrightarrow> sent_before batches (Suc c) = sent_before batches c @ rb_envelopes (batches ! c)"
  by (simp add: sent_before_def take_Suc_conv_app_nth)

lemma sent_before_append: "c \<le> length batches \<Longrightarrow> sent_before (batches @ [b]) c = sent_before batches c"
  by (simp add: sent_before_def)

lemma numbered_simps [simp]:
  "numbered [] = []"
  "numbered (held @ held') = numbered held @ numbered held'"
  "numbered (b # held) = (if rb_envelopes b \<noteq> [] then b # numbered held else numbered held)"
  by (simp_all add: numbered_def)

lemma sequenceReports_cases:
  assumes "sequenceReports sp batch = (sp', batch')" and "rb_sequence batch = 0"
  obtains (empty) "sp' = sp" "batch' = batch" "rb_envelopes batch' = []"
  | (fresh) "sp' = sp\<lparr>sp_seq := sp_seq sp + 1, sp_batches := sp_batches sp @ [batch']\<rparr>" "rb_envelopes batch' \<noteq> []"
      "rb_sequence batch' = sp_seq sp + 1" "rb_envelopes batch' = number_envelopes (sp_seq sp + 1) (rb_envelopes batch)"
  using assms by (auto simp: sequenceReports_def Let_def number_envelopes_def enumerate_eq_zip split: if_splits)

lemma rinv_sequence:
  assumes inv: "rinv c (sp, pc, held)" and seq: "sequenceReports sp batch = (sp', batch')" "rb_sequence batch = 0"
    and bound: "length (sp_batches sp') < uint64_range"
  shows "rinv c (sp', pc, held @ [batch'])"
  using seq
proof (cases rule: sequenceReports_cases)
  case empty
  then show ?thesis using inv by (simp add: rinv_def held_ok_def lossless_def)
next
  case fresh
  let ?N = "length (sp_batches sp)" and ?m = "c + busy pc"
  have N: "Suc ?N < uint64_range" using bound fresh(1) by simp
  have b: "batches_ok c sp" and w: "worker_ok c sp pc" and d: "sp_delivering sp = of_nat ?m" and s: "spool_ok ?m sp"
    and h: "held_ok ?m sp held" and l: "\<not> sp_closed sp \<Longrightarrow> lossless ?m sp held"
    using inv by (simp_all add: rinv_def)
  have c: "c \<le> ?N" and num: "rb_sequence batch' = of_nat (Suc ?N)" using b fresh(3) by (simp_all add: batches_ok_def)
  have m: "?m \<le> ?N" using w c by (cases pc) auto
  have free: "sp_spool sp (of_nat (Suc ?N)) = None"
  proof (rule ccontr)
    assume "sp_spool sp (of_nat (Suc ?N)) \<noteq> None"
    then obtain i where "i < ?N" "(of_nat (Suc ?N) :: 64 word) = of_nat (Suc i)" using s unfolding spool_ok_def by blast
    then show False using of_nat_word_inj [of "Suc ?N" "Suc i"] N by simp
  qed
  have "batches_ok c sp'" using b fresh(1,2) num by (auto simp: batches_ok_def nth_append less_Suc_eq)
  moreover have "worker_ok c sp' pc" using w c by (cases pc) (auto simp: fresh(1) sent_before_append nth_append)
  moreover have "spool_ok ?m sp'" using s by (fastforce simp: spool_ok_def fresh(1) nth_append)
  moreover have "held_ok ?m sp' (held @ [batch'])"
  proof -
    have old: "\<exists>i. ?m \<le> i \<and> i < ?N \<and> x = sp_batches sp ! i \<and> sp_spool sp (of_nat (Suc i)) = None" if "x \<in> set (numbered held)" for x
      using h that by (auto simp: held_ok_def)
    have "rb_sequence x \<noteq> rb_sequence batch'" if x: "x \<in> set (numbered held)" for x
    proof -
      obtain i where "i < ?N" "x = sp_batches sp ! i" using old [OF x] by blast
      then have "rb_sequence x = of_nat (Suc i)" and "i < ?N" using b by (simp_all add: batches_ok_def)
      then show ?thesis using of_nat_word_inj [of "Suc ?N" "Suc i"] N num by auto
    qed
    then have "rb_sequence batch' \<notin> rb_sequence ` set (numbered held)" by fastforce
    then have "distinct (map rb_sequence (numbered (held @ [batch'])))" using h fresh(2) by (simp add: held_ok_def)
    moreover have "\<exists>i. ?m \<le> i \<and> i < length (sp_batches sp') \<and> x = sp_batches sp' ! i \<and> sp_spool sp' (of_nat (Suc i)) = None"
      if "x \<in> set (numbered (held @ [batch']))" for x
    proof (cases "x \<in> set (numbered held)")
      case True
      from old [OF this] obtain i where "?m \<le> i" "i < ?N" "x = sp_batches sp ! i" "sp_spool sp (of_nat (Suc i)) = None" by blast
      then show ?thesis by (intro exI [of _ i]) (simp add: fresh(1) nth_append)
    next
      case False
      then have "x = batch'" using that by (auto split: if_splits)
      then show ?thesis using m free by (intro exI [of _ ?N]) (simp add: fresh(1))
    qed
    ultimately show ?thesis by (auto simp: held_ok_def)
  qed
  moreover have "lossless ?m sp' (held @ [batch'])" if "\<not> sp_closed sp'"
  proof -
    have "lossless ?m sp held" using l that by (simp add: fresh(1))
    then show ?thesis using fresh(2) by (auto simp: lossless_def fresh(1) nth_append less_Suc_eq add_ac)
  qed
  ultimately show ?thesis using d by (simp add: rinv_def fresh(1))
qed

lemma held_okD:
  "held_ok m sp held \<Longrightarrow> b \<in> set (numbered held) \<Longrightarrow>
     \<exists>i. m \<le> i \<and> i < length (sp_batches sp) \<and> b = sp_batches sp ! i \<and> sp_spool sp (of_nat (Suc i)) = None"
  by (simp add: held_ok_def)

text \<open>A batch is refused only by a closed spool.\<close>

lemma dispatchReports_cases:
  assumes inv: "rinv c (sp, pc, held)" and held: "held = before @ batch # after"
    and dispatch: "dispatchReports sp batch = (sp', result)" and bound: "length (sp_batches sp) < uint64_range"
  obtains (nothing) "sp' = sp" "rb_envelopes batch = []" "result = DispatchNothing"
  | (refused) "sp' = sp" "rb_envelopes batch \<noteq> []" "sp_closed sp" "result = DispatchRefused"
  | (accepted) i where "c + busy pc \<le> i" "i < length (sp_batches sp)" "batch = sp_batches sp ! i" "\<not> sp_closed sp"
      "rb_envelopes batch \<noteq> []" "result = DispatchAccepted" "sp_spool sp (of_nat (Suc i)) = None"
      "sp' = notifyReportSpoolLocked (sp\<lparr>sp_spool := (sp_spool sp)(of_nat (Suc i) \<mapsto> batch), sp_accepted := sp_accepted sp + 1\<rparr>)"
proof (cases "rb_envelopes batch = []")
  case True
  moreover from True have "sp' = sp" "result = DispatchNothing" using dispatch by (simp_all add: dispatchReports_def)
  ultimately show ?thesis by (intro that(1))
next
  case False
  let ?m = "c + busy pc"
  have "batch \<in> set (numbered held)" using held False by simp
  then obtain i where i: "?m \<le> i" "i < length (sp_batches sp)" "batch = sp_batches sp ! i" "sp_spool sp (of_nat (Suc i)) = None"
    using inv held_okD unfolding rinv_def by blast
  have seq: "rb_sequence batch = of_nat (Suc i)" and comp: "sp_completed sp = of_nat c" and del: "sp_delivering sp = of_nat ?m"
    using inv i by (simp_all add: rinv_def batches_ok_def)
  have "rb_sequence batch \<noteq> 0" using of_nat_word_nonzero [of "Suc i"] i(2) bound unfolding seq by linarith
  moreover have "\<not> rb_sequence batch \<le> sp_completed sp"
    using of_nat_word_le [of "Suc i" c] i(1,2) bound unfolding seq comp by linarith
  moreover have "rb_sequence batch \<noteq> sp_delivering sp"
    using of_nat_word_inj [of "Suc i" ?m] i(1,2) bound unfolding seq del by linarith
  ultimately show ?thesis
    using dispatch False i seq that(2) that(3) [of i] by (auto simp: dispatchReports_def split: if_splits)
qed

lemma worker_ok_wake:
  assumes "worker_ok c sp pc" and "sp_wake sp < sp_wake sp'" and "sp_closed sp \<Longrightarrow> sp' = sp"
    and "sp_started sp' = sp_started sp" "sp_stopped sp' = sp_stopped sp" "sp_sent sp' = sp_sent sp" "sp_batches sp' = sp_batches sp"
    and "pc = R_NotStarted \<Longrightarrow> \<not> sp_closed sp'"
  shows "worker_ok c sp' pc"
  using assms by (cases pc) auto

lemma rinv_dispatch:
  assumes inv: "rinv c (sp, pc, before @ batch # after)" and dispatch: "dispatchReports sp batch = (sp', result)"
    and bound: "length (sp_batches sp) < uint64_range"
  shows "rinv c (sp', pc, before @ after)"
  using inv refl dispatch bound
proof (cases rule: dispatchReports_cases)
  case nothing
  then show ?thesis using inv by (simp add: rinv_def held_ok_def lossless_def)
next
  case refused
  then show ?thesis using inv by (auto simp: rinv_def held_ok_def)
next
  case (accepted i)
  let ?m = "c + busy pc" and ?N = "length (sp_batches sp)"
  have b: "batches_ok c sp" and w: "worker_ok c sp pc" and d: "sp_delivering sp = of_nat ?m" and s: "spool_ok ?m sp"
    and h: "held_ok ?m sp (before @ batch # after)" and l: "lossless ?m sp (before @ batch # after)"
    using inv accepted(4) by (simp_all add: rinv_def)
  note sp' = accepted(8) [unfolded notifyReportSpoolLocked_def]
  have "batches_ok c sp'" using b by (simp add: batches_ok_def sp')
  moreover have "worker_ok c sp' pc" by (rule worker_ok_wake [OF w]) (use accepted(4) in \<open>simp_all add: sp'\<close>)
  moreover have "spool_ok ?m sp'" using s accepted(1-3) by (auto simp: spool_ok_def sp')
  moreover have "held_ok ?m sp' (before @ after)"
  proof -
    have dis: "distinct (map rb_sequence (numbered (before @ batch # after)))" using h by (simp add: held_ok_def)
    have "\<exists>j. ?m \<le> j \<and> j < ?N \<and> x = sp_batches sp ! j \<and> sp_spool sp' (of_nat (Suc j)) = None"
      if x: "x \<in> set (numbered (before @ after))" for x
    proof -
      have "x \<in> set (numbered (before @ batch # after))" using x by auto
      then obtain j where j: "?m \<le> j" "j < ?N" "x = sp_batches sp ! j" "sp_spool sp (of_nat (Suc j)) = None"
        using held_okD [OF h] by blast
      have "rb_sequence x \<noteq> rb_sequence batch" using dis x accepted(5) by (auto simp: image_iff)
      then have "(of_nat (Suc j) :: 64 word) \<noteq> of_nat (Suc i)" using b j(2,3) accepted(2,3) by (simp add: batches_ok_def)
      then show ?thesis using j by (intro exI [of _ j]) (simp only: sp', simp)
    qed
    then show ?thesis using dis accepted(5) by (auto simp: held_ok_def sp')
  qed
  moreover have "lossless ?m sp' (before @ after)"
    unfolding lossless_def
  proof (intro conjI allI impI)
    show "sp_accepted sp' + of_nat (length (numbered (before @ after))) = of_nat (length (sp_batches sp'))"
      using l accepted(5) by (simp add: lossless_def sp' add_ac)
    fix j assume j: "?m \<le> j" "j < length (sp_batches sp')"
    then consider "sp_spool sp (of_nat (Suc j)) \<noteq> None" | "sp_batches sp ! j = batch"
      | "sp_batches sp ! j \<in> set (numbered (before @ after))"
      using l by (auto simp: lossless_def sp' split: if_splits)
    then show "sp_spool sp' (of_nat (Suc j)) \<noteq> None \<or> sp_batches sp' ! j \<in> set (numbered (before @ after))"
    proof cases
      case 2
      have "rb_sequence (sp_batches sp ! j) = of_nat (Suc j)" "rb_sequence (sp_batches sp ! i) = of_nat (Suc i)"
        using b j accepted(2) by (simp_all add: batches_ok_def sp')
      then have "(of_nat (Suc j) :: 64 word) = of_nat (Suc i)" using 2 accepted(3) by simp
      then show ?thesis by (simp add: sp')
    qed (auto simp: sp')
  qed
  ultimately show ?thesis using d by (simp add: rinv_def sp')
qed

text \<open>The order in which producers are listed does not matter.\<close>

lemma rinv_perm:
  assumes "rinv c (sp, pc, held)" and "mset held' = mset held"
  shows "rinv c (sp, pc, held')"
proof -
  have m: "mset (numbered held') = mset (numbered held)" by (simp add: numbered_def assms(2))
  then have "set (numbered held') = set (numbered held)" "length (numbered held') = length (numbered held)"
    by (metis set_mset_mset, metis size_mset)
  moreover have "distinct (map rb_sequence (numbered held')) = distinct (map rb_sequence (numbered held))"
    using m by (intro mset_eq_imp_distinct_iff) simp
  ultimately show ?thesis using assms(1) by (simp add: rinv_def held_ok_def lossless_def)
qed

lemma rinv_close:
  assumes inv: "rinv c (sp, pc, held)"
  shows "rinv c (requestReporterClose sp, pc, held)"
proof (cases "sp_started sp \<and> \<not> sp_closed sp")
  case True
  then have sp': "requestReporterClose sp = sp\<lparr>sp_closed := True, sp_wake := sp_wake sp + 1\<rparr>"
    by (simp add: requestReporterClose_def notifyReportSpoolLocked_def)
  have "worker_ok c (requestReporterClose sp) pc"
    by (rule worker_ok_wake [of c sp]) (use inv True in \<open>auto simp: sp' rinv_def\<close>)
  then show ?thesis using inv by (simp add: rinv_def sp' batches_ok_def spool_ok_def held_ok_def)
next
  case False
  then have "requestReporterClose sp = sp" by (auto simp: requestReporterClose_def)
  with inv show ?thesis by simp
qed

lemma rinv_top:
  assumes inv: "rinv c (sp, R_Top expected, held)" and top: "deliverReports_top sp expected = (sp', pc')"
    and bound: "length (sp_batches sp) < uint64_range"
  shows "rinv c (sp', pc', held)"
proof (cases "sp_spool sp expected")
  case None
  then show ?thesis using inv top by (auto simp: rinv_def deliverReports_top_def batches_ok_def spool_ok_def held_ok_def split: if_splits)
next
  case (Some batch)
  let ?N = "length (sp_batches sp)"
  have b: "batches_ok c sp" and e: "expected = of_nat (Suc c)" and s: "spool_ok c sp" and h: "held_ok c sp held"
    and l: "\<not> sp_closed sp \<Longrightarrow> lossless c sp held"
    using inv by (simp_all add: rinv_def)
  from s Some obtain i where i: "c \<le> i" "i < ?N" "expected = of_nat (Suc i)" "batch = sp_batches sp ! i"
    unfolding spool_ok_def by blast
  then have "(of_nat (Suc i) :: 64 word) = of_nat (Suc c)" using e by simp
  then have ic: "i = c" using of_nat_word_inj [of "Suc i" "Suc c"] i(1,2) bound by simp
  have sp': "sp' = sp\<lparr>sp_spool := (sp_spool sp)(expected := None), sp_delivering := expected\<rparr>" and pc': "pc' = R_Deliver expected batch 0"
    using top Some by (auto simp: deliverReports_top_def)
  have other: "(of_nat (Suc j) :: 64 word) \<noteq> expected" if "Suc c \<le> j" "j < ?N" for j
    using of_nat_word_inj [of "Suc j" "Suc c"] that bound unfolding e by linarith
  have later: "sp_spool sp (of_nat (Suc c)) \<noteq> None" using Some e by simp
  have "worker_ok c sp' pc'" using inv i ic by (simp add: rinv_def sp' pc')
  moreover have "spool_ok (Suc c) sp'"
    unfolding spool_ok_def
  proof (intro allI impI)
    fix k x assume k: "sp_spool sp' k = Some x"
    then have ne: "k \<noteq> expected" and "sp_spool sp k = Some x" by (auto simp: sp' split: if_splits)
    then obtain j where "c \<le> j" "j < ?N" "k = of_nat (Suc j)" "x = sp_batches sp ! j" using s unfolding spool_ok_def by blast
    then show "\<exists>i \<ge> Suc c. i < length (sp_batches sp') \<and> k = of_nat (Suc i) \<and> x = sp_batches sp' ! i"
      using ne e by (intro exI [of _ j]) (cases "j = c", auto simp: sp')
  qed
  moreover have "held_ok (Suc c) sp' held"
  proof -
    have "\<exists>j. Suc c \<le> j \<and> j < ?N \<and> x = sp_batches sp ! j \<and> sp_spool sp' (of_nat (Suc j)) = None" if x: "x \<in> set (numbered held)" for x
    proof -
      obtain j where j: "c \<le> j" "j < ?N" "x = sp_batches sp ! j" "sp_spool sp (of_nat (Suc j)) = None" using held_okD [OF h x] by blast
      then have "j \<noteq> c" using later by metis
      then show ?thesis using j by (intro exI [of _ j]) (simp add: sp')
    qed
    then show ?thesis using h by (simp add: held_ok_def sp')
  qed
  moreover have "lossless (Suc c) sp' held" if "\<not> sp_closed sp'"
  proof -
    have "lossless c sp held" using l that by (simp add: sp')
    then have "sp_spool sp (of_nat (Suc j)) \<noteq> None \<or> sp_batches sp ! j \<in> set (numbered held)" if "Suc c \<le> j" "j < ?N" for j
      using that unfolding lossless_def by (metis Suc_leD)
    then show ?thesis using \<open>lossless c sp held\<close> other unfolding lossless_def by (simp add: sp')
  qed
  ultimately show ?thesis using b e by (simp add: rinv_def sp' pc' batches_ok_def)
qed

lemma rinv_deliver:
  assumes inv: "rinv c (sp, R_Deliver expected batch i, held)"
    and step: "deliverReportBatch_step sp expected batch i ok = (sp', pc')"
  shows "\<exists>c'. rinv c' (sp', pc', held)"
proof (cases "length (rb_envelopes batch) \<le> i")
  case True
  have "rinv (Suc c) (sp', pc', held)"
    using inv step True
    by (auto simp: rinv_def deliverReportBatch_step_def markReportsCompleted_def notifyReportProgress_def batches_ok_def
        spool_ok_def held_ok_def lossless_def sent_before_Suc)
  then show ?thesis ..
next
  case False
  have "rinv c (sp', pc', held)"
    using inv step False
    by (auto simp: rinv_def deliverReportBatch_step_def notifyReportProgress_def batches_ok_def
        spool_ok_def held_ok_def lossless_def take_Suc_conv_app_nth split: if_splits)
  then show ?thesis ..
qed

lemma rstep_batches: "rstep s s' \<Longrightarrow> length (sp_batches (fst s)) \<le> length (sp_batches (fst s'))"
  by (induction rule: rstep.induct)
    (auto simp: startReporter_def sequenceReports_def dispatchReports_def notifyReportSpoolLocked_def requestReporterClose_def
      deliverReports_top_def deliverReportBatch_step_def markReportsCompleted_def notifyReportProgress_def Let_def
      split: if_splits option.splits)

lemma rinv_rstep:
  assumes "rstep s s'" and "rinv c s" and "length (sp_batches (fst s')) < uint64_range"
  shows "\<exists>c'. rinv c' s'"
proof -
  have bound: "length (sp_batches (fst s)) < uint64_range" using rstep_batches [OF assms(1)] assms(3) by simp
  from assms bound show ?thesis
  proof (cases rule: rstep.cases)
    case (r_start sp pc sp' pc' held)
    then have "rinv c s'" using assms(2)
      by (cases pc) (auto simp: startReporter_def rinv_def batches_ok_def spool_ok_def held_ok_def lossless_def sent_before_def)
    then show ?thesis ..
  next
    case (r_retry sp expected batch i held)
    then show ?thesis using assms(2) by (auto simp: rinv_def intro!: exI [of _ c])
  next
    case (r_wake sp seen expected held)
    then show ?thesis using assms(2) by (auto simp: rinv_def intro!: exI [of _ c])
  next
    case (r_sequence batch sp sp' batch' pc before after)
    then have "rinv c (sp', pc, (before @ after) @ [batch'])" using assms by (intro rinv_sequence [where sp = sp]) auto
    then have "rinv c s'" unfolding r_sequence(2) by (rule rinv_perm) simp
    then show ?thesis ..
  next
    case (r_dispatch held before batch after sp sp' result pc)
    then have "rinv c s'" using assms bound by (auto intro: rinv_dispatch)
    then show ?thesis ..
  next
    case (r_close sp pc held)
    then have "rinv c s'" using assms rinv_close by simp
    then show ?thesis ..
  next
    case (r_top sp expected sp' pc' held)
    then have "rinv c s'" using assms bound by (auto intro: rinv_top)
    then show ?thesis ..
  next
    case (r_deliver sp expected batch i ok sp' pc' held)
    then show ?thesis using assms by (auto intro: rinv_deliver)
  qed
qed

lemma rinv_init: "rinv 0 (new_spool, R_NotStarted, [])"
  by (simp add: rinv_def new_spool_def batches_ok_def spool_ok_def held_ok_def lossless_def)

lemma rinv_reach: "rreach s \<Longrightarrow> length (sp_batches (fst s)) < uint64_range \<Longrightarrow> \<exists>c. rinv c s"
proof (induction rule: rreach.induct)
  case rreach_init
  show ?case using rinv_init ..
next
  case (rreach_step s s')
  then have "length (sp_batches (fst s)) < uint64_range" using rstep_batches [of s s'] by simp
  then show ?case using rreach_step rinv_rstep by blast
qed

subsection \<open>What the spool guarantees\<close>

inductive rsteps :: "reports \<Rightarrow> reports \<Rightarrow> bool" where
  rsteps_refl: "rsteps s s"
| rsteps_step: "rsteps s s' \<Longrightarrow> rstep s' s'' \<Longrightarrow> rsteps s s''"

lemma rreach_rsteps: "rsteps s s' \<Longrightarrow> rreach s \<Longrightarrow> rreach s'"
  by (induction rule: rsteps.induct) (auto intro: rreach_step)

lemma rstep_batches_prefix: "rstep s s' \<Longrightarrow> prefix (sp_batches (fst s)) (sp_batches (fst s'))"
  by (induction rule: rstep.induct)
    (auto simp: startReporter_def sequenceReports_def dispatchReports_def notifyReportSpoolLocked_def requestReporterClose_def
      deliverReports_top_def deliverReportBatch_step_def markReportsCompleted_def notifyReportProgress_def Let_def
      split: if_splits option.splits)

lemma rsteps_batches_prefix: "rsteps s s' \<Longrightarrow> prefix (sp_batches (fst s)) (sp_batches (fst s'))"
  by (induction rule: rsteps.induct) (auto dest: rstep_batches_prefix intro: prefix_order.order_trans)

lemma sent_before_prefix: "prefix (sent_before batches c) (concat (map rb_envelopes batches))"
proof -
  have "concat (map rb_envelopes batches) = sent_before batches c @ concat (map rb_envelopes (drop c batches))"
    by (metis append_take_drop_id concat_append map_append sent_before_def)
  then show ?thesis by simp
qed

lemma sent_before_mono: "c \<le> d \<Longrightarrow> prefix (sent_before batches c) (sent_before batches d)"
  by (metis min.absorb_iff1 sent_before_def sent_before_prefix take_take)

lemma worker_sent:
  assumes "worker_ok c sp pc" "c \<le> length (sp_batches sp)"
  shows "prefix (sent_before (sp_batches sp) c) (sp_sent sp)"
    and "prefix (sp_sent sp) (sent_before (sp_batches sp) (c + busy pc))"
proof -
  show "prefix (sent_before (sp_batches sp) c) (sp_sent sp)"
    using assms by (cases pc) (auto simp: sent_before_def)
  show "prefix (sp_sent sp) (sent_before (sp_batches sp) (c + busy pc))"
    using assms by (cases pc) (auto simp: sent_before_Suc take_is_prefix)
qed

lemma unat_completed:
  "rinv c (sp, pc, held) \<Longrightarrow> length (sp_batches sp) < uint64_range \<Longrightarrow> unat (sp_completed sp) = c"
  by (simp add: rinv_def batches_ok_def uint64_range_def unsigned_of_nat take_bit_nat_eq_self)

text \<open>
  The reporter accepts every envelope once and in the order of the batch numbers: what it accepted is an initial part
  of all numbered batches, and it contains every batch that is recorded as completed.  While the spool is open, no numbered
  batch is lost: it is completed, in delivery, in the spool, or still with its producer.
\<close>

lemma reports_delivered_in_order:
  assumes "rreach (sp, pc, held)" and "length (sp_batches sp) < uint64_range"
  shows "prefix (sp_sent sp) (concat (map rb_envelopes (sp_batches sp))) \<and>
    prefix (concat (map rb_envelopes (take (unat (sp_completed sp)) (sp_batches sp)))) (sp_sent sp) \<and>
    (\<not> sp_closed sp \<longrightarrow> (\<forall>i < length (sp_batches sp). i < unat (sp_completed sp) + busy pc \<or>
       sp_spool sp (rb_sequence (sp_batches sp ! i)) = Some (sp_batches sp ! i) \<or> sp_batches sp ! i \<in> set held))"
proof (intro conjI)
  obtain c where inv: "rinv c (sp, pc, held)" using rinv_reach [OF assms(1)] assms(2) by auto
  have c: "unat (sp_completed sp) = c" using unat_completed [OF inv assms(2)] .
  have b: "batches_ok c sp" and w: "worker_ok c sp pc" and s: "spool_ok (c + busy pc) sp"
    and l: "\<not> sp_closed sp \<Longrightarrow> lossless (c + busy pc) sp held" using inv by (simp_all add: rinv_def)
  have "c \<le> length (sp_batches sp)" using b by (simp add: batches_ok_def)
  note sent = worker_sent [OF w this]
  show "prefix (sp_sent sp) (concat (map rb_envelopes (sp_batches sp)))"
    using sent(2) sent_before_prefix by (rule prefix_order.order_trans)
  show "prefix (concat (map rb_envelopes (take (unat (sp_completed sp)) (sp_batches sp)))) (sp_sent sp)"
    using sent(1) by (simp add: c sent_before_def)
  show "\<not> sp_closed sp \<longrightarrow> (\<forall>i < length (sp_batches sp). i < unat (sp_completed sp) + busy pc \<or>
       sp_spool sp (rb_sequence (sp_batches sp ! i)) = Some (sp_batches sp ! i) \<or> sp_batches sp ! i \<in> set held)"
  proof (intro impI allI)
    fix i assume open_spool: "\<not> sp_closed sp" and i: "i < length (sp_batches sp)"
    have n: "rb_sequence (sp_batches sp ! i) = of_nat (Suc i)" using b i by (simp add: batches_ok_def)
    show "i < unat (sp_completed sp) + busy pc \<or>
       sp_spool sp (rb_sequence (sp_batches sp ! i)) = Some (sp_batches sp ! i) \<or> sp_batches sp ! i \<in> set held"
    proof (cases "c + busy pc \<le> i")
      case True
      then consider "sp_spool sp (of_nat (Suc i)) \<noteq> None" | "sp_batches sp ! i \<in> set (numbered held)"
        using l [OF open_spool] i unfolding lossless_def by blast
      then show ?thesis
      proof cases
        case 1
        then obtain x where x: "sp_spool sp (of_nat (Suc i)) = Some x" by blast
        then obtain j where j: "j < length (sp_batches sp)" "(of_nat (Suc i) :: 64 word) = of_nat (Suc j)" "x = sp_batches sp ! j"
          using s unfolding spool_ok_def by blast
        then have "j = i" using of_nat_word_inj [of "Suc i" "Suc j"] i assms(2) by linarith
        then show ?thesis using x j(3) n by simp
      qed (simp add: numbered_def)
    qed (simp add: c)
  qed
qed

text \<open>
  \<open>FlushReports\<close> keeps its promise: when it returns nil, every report that was numbered before the call has been accepted by the
  reporter, whatever happened in between.
\<close>

theorem flush_means_delivered:
  assumes "rreach s" and "rsteps s (sp, pc, held)" and "length (sp_batches sp) < uint64_range"
    and "FlushReports_check sp (FlushReports_target (fst s)) = FlushReturnsNil"
  shows "prefix (concat (map rb_envelopes (sp_batches (fst s)))) (sp_sent sp)"
proof -
  have "rreach (sp, pc, held)" using assms(1,2) by (rule rreach_rsteps [rotated])
  then obtain c where inv: "rinv c (sp, pc, held)" using rinv_reach assms(3) by fastforce
  have pre: "prefix (sp_batches (fst s)) (sp_batches sp)" using rsteps_batches_prefix [OF assms(2)] by simp
  then have len: "length (sp_batches (fst s)) \<le> length (sp_batches sp)" by (rule prefix_length_le)
  then obtain c0 where "rinv c0 s" using rinv_reach assms(1,3) by fastforce
  then have "sp_seq (fst s) = of_nat (length (sp_batches (fst s)))" by (cases s) (simp add: rinv_def batches_ok_def)
  then have "(of_nat (length (sp_batches (fst s))) :: 64 word) \<le> of_nat c"
    using assms(4) inv by (simp add: FlushReports_check_def FlushReports_target_def rinv_def batches_ok_def split: if_splits)
  moreover have c: "c \<le> length (sp_batches sp)" using inv by (simp add: rinv_def batches_ok_def)
  ultimately have "length (sp_batches (fst s)) \<le> c"
    using of_nat_word_le [of "length (sp_batches (fst s))" c] len assms(3) by linarith
  then have "prefix (sent_before (sp_batches sp) (length (sp_batches (fst s)))) (sent_before (sp_batches sp) c)"
    by (rule sent_before_mono)
  moreover have "prefix (sent_before (sp_batches sp) c) (sp_sent sp)" using inv c worker_sent(1) by (auto simp: rinv_def)
  moreover have "sent_before (sp_batches sp) (length (sp_batches (fst s))) = concat (map rb_envelopes (sp_batches (fst s)))"
    using pre by (auto simp: sent_before_def prefix_def)
  ultimately show ?thesis by (metis prefix_order.order_trans)
qed

end
