(* ===== verification/RuntimeGraph_Build.thy ===== *)
theory RuntimeGraph_Build
  imports RuntimeGraph_Reports Delivery_Types
begin

text \<open>
  How the runtime graph manager (\<^verbatim>\<open>observability/runtimegraph/manager.go\<close>) checks a configuration, builds the components of a
  candidate generation and tears components down.  Component entries are shared between a graph, the batches that wait
  for a cleanup retry and the transaction that builds them, so they live in a heap (\<open>hp_entries\<close>, an entry is
  named by its position) together with the ownership table (\<open>hp_owned\<close>).

  Factories and components are code of other packages: what \<open>Prepare\<close> returns and whether a call of a component or of a cleanup
  function succeeds are arguments (\<open>prepare\<close>, \<open>ok\<close>).
\<close>

subsection \<open>Configurations\<close>

datatype GraphErrorCode =
    GraphInvalidDependency
  | GraphInvalidConfig
  | GraphRestartRequired
  | GraphInitialization
  | GraphReporting
  | GraphClosed
  | GraphShutdown

datatype ctx_err = CtxCanceled | CtxDeadlineExceeded

record GraphError =
  ge_code :: GraphErrorCode
  ge_fieldPath :: string
  ge_componentName :: string
  ge_contextCause :: "ctx_err option"

definition graph_error :: "GraphErrorCode \<Rightarrow> GraphError" where
  "graph_error code = \<lparr>ge_code = code, ge_fieldPath = [], ge_componentName = [], ge_contextCause = None\<rparr>"

text \<open>What the manager reads of a compiled plan: digest, local store and destinations.\<close>

record PlanLocal =
  lo_Path :: string
  lo_JudgeBodiesPath :: string
  lo_RetentionDays :: int

record PlanDestination =
  de_Name :: string
  de_Kind :: string
  de_Enabled :: bool
  de_Listen :: string

record GraphPlan =
  gp_Digest :: string
  gp_Local :: PlanLocal
  gp_Destinations :: "PlanDestination list"

record GraphConfig =
  gc_Plan :: "GraphPlan option"
  gc_PlanDigest :: string
  gc_LocalPath :: string
  gc_JudgeBodiesPath :: string
  gc_RetentionDays :: int
  gc_RetainJudgeBodies :: bool

definition ConfigFromPlan :: "GraphPlan option \<Rightarrow> bool \<Rightarrow> GraphConfig" where
  "ConfigFromPlan plan retain = (case plan of
     None \<Rightarrow> \<lparr>gc_Plan = None, gc_PlanDigest = [], gc_LocalPath = [], gc_JudgeBodiesPath = [], gc_RetentionDays = 0,
       gc_RetainJudgeBodies = retain\<rparr>
   | Some p \<Rightarrow> \<lparr>gc_Plan = Some p, gc_PlanDigest = gp_Digest p, gc_LocalPath = lo_Path (gp_Local p),
       gc_JudgeBodiesPath = lo_JudgeBodiesPath (gp_Local p), gc_RetentionDays = lo_RetentionDays (gp_Local p),
       gc_RetainJudgeBodies = retain\<rparr>)"

definition graph_hex_char :: "char \<Rightarrow> bool" where
  "graph_hex_char c = (let n = byte_val c in 48 \<le> n \<and> n \<le> 57 \<or> 97 \<le> n \<and> n \<le> 102 \<or> 65 \<le> n \<and> n \<le> 70)"

text \<open>64 bytes, a stable token, and accepted by \<open>hex.DecodeString\<close>.\<close>

definition validDigest :: "string \<Rightarrow> bool" where
  "validDigest v \<longleftrightarrow> length v = 64 \<and> IsStableToken v \<and> list_all graph_hex_char v"

definition validateConfig :: "GraphConfig \<Rightarrow> GraphError option" where
  "validateConfig c = (case gc_Plan c of
     None \<Rightarrow> Some (graph_error GraphInvalidConfig)
   | Some plan \<Rightarrow>
       if \<not> validDigest (gc_PlanDigest c) \<or> gc_PlanDigest c \<noteq> gp_Digest plan \<or> gc_RetentionDays c < 0 \<or>
         gc_LocalPath c = [] \<or> gc_JudgeBodiesPath c = [] \<or> gc_LocalPath c = gc_JudgeBodiesPath c
       then Some (graph_error GraphInvalidConfig)
       else if gc_LocalPath c \<noteq> lo_Path (gp_Local plan) \<or> gc_JudgeBodiesPath c \<noteq> lo_JudgeBodiesPath (gp_Local plan) \<or>
         gc_RetentionDays c \<noteq> lo_RetentionDays (gp_Local plan)
       then Some (graph_error GraphInvalidConfig)
       else None)"

text \<open>The two nested loops over the Prometheus listeners of the candidate and of the old plan.\<close>

definition plan_destinations :: "GraphConfig \<Rightarrow> PlanDestination list" where
  "plan_destinations c = (case gc_Plan c of None \<Rightarrow> [] | Some p \<Rightarrow> gp_Destinations p)"

definition listens_on :: "string \<Rightarrow> PlanDestination \<Rightarrow> bool" where
  "listens_on listen d \<longleftrightarrow> de_Kind d = ''prometheus'' \<and> de_Enabled d \<and> de_Listen d = listen"

fun listener_conflict :: "PlanDestination list \<Rightarrow> PlanDestination list \<Rightarrow> string" where
  "listener_conflict old [] = []"
| "listener_conflict old (d # ds) =
     (if de_Kind d \<noteq> ''prometheus'' \<or> \<not> de_Enabled d \<or> de_Listen d = [] then listener_conflict old ds
      else if list_ex (listens_on (de_Listen d)) old then ''observability.destinations.'' @ de_Name d @ ''.listen''
      else listener_conflict old ds)"

definition restartRequiredField :: "GraphConfig \<Rightarrow> GraphConfig \<Rightarrow> string" where
  "restartRequiredField old c =
     (if gc_LocalPath old \<noteq> gc_LocalPath c then ''observability.local.path''
      else if gc_JudgeBodiesPath old \<noteq> gc_JudgeBodiesPath c then ''observability.local.judge_bodies_path''
      else if gc_RetainJudgeBodies old \<noteq> gc_RetainJudgeBodies c then ''guardrail.retain_judge_bodies''
      else listener_conflict (plan_destinations old) (plan_destinations c))"

subsection \<open>Components and factories\<close>

record componentIdentity =
  ci_typeName :: string
  ci_pointer :: nat

text \<open>
  A value of interface type \<open>Component\<close>: nil, a nil pointer inside a non-nil interface, a value that is not a pointer, or a
  proper pointer with its identity.
\<close>

datatype Component =
    NilInterface
  | NilPointer
  | PlainValue
  | Pointer componentIdentity

definition validComponent :: "Component \<Rightarrow> bool" where
  "validComponent c = (case c of Pointer _ \<Rightarrow> True | _ \<Rightarrow> False)"

record acquiredChild =
  ch_name :: string
  ch_cleanup :: nat

record componentEntry =
  ce_name :: string
  ce_component :: Component
  ce_children :: "acquiredChild list"
  ce_started :: bool
  ce_stopped :: bool
  ce_drained :: bool
  ce_available :: bool
  ce_closed :: bool
  ce_identity :: componentIdentity
  ce_claimed :: bool

record Acquisitions =
  aq_sealed :: bool
  aq_children :: "acquiredChild list"

definition Register :: "Acquisitions option \<Rightarrow> string \<Rightarrow> nat option \<Rightarrow> Acquisitions option \<times> GraphError option" where
  "Register acquisitions name cleanup =
     (case (acquisitions, cleanup) of
        (Some a, Some f) \<Rightarrow>
          if \<not> IsStableToken name then (acquisitions, Some (graph_error GraphInvalidDependency))
          else if aq_sealed a then (acquisitions, Some (graph_error GraphInitialization))
          else (Some (a\<lparr>aq_children := aq_children a @ [\<lparr>ch_name = name, ch_cleanup = f\<rparr>]\<rparr>), None)
      | _ \<Rightarrow> (acquisitions, Some (graph_error GraphInvalidDependency)))"

definition seal :: "Acquisitions \<Rightarrow> Acquisitions \<times> acquiredChild list" where
  "seal a = (a\<lparr>aq_sealed := True\<rparr>, aq_children a)"

record BuildInput =
  bi_Config :: GraphConfig
  bi_Generation :: "64 word"
  bi_PreviousDigest :: string
  bi_Rebuild :: bool

datatype prep_error = PrepCanceled | PrepDeadlineExceeded | PrepOther

text \<open>
  A factory, the calls of \<open>Register\<close> that its \<open>Prepare\<close> makes, and what \<open>Prepare\<close> returns.
\<close>

record Factory =
  fa_Name :: string
  fa_NeedsRebuild :: "(GraphConfig \<Rightarrow> GraphConfig \<Rightarrow> bool) option"

record Prepared =
  pr_component :: Component
  pr_registered :: "(string \<times> nat option) list"
  pr_error :: "prep_error option"

record Heap =
  hp_entries :: "componentEntry list"
  hp_owned :: "componentIdentity list"

definition claimComponent :: "Heap \<Rightarrow> componentIdentity \<Rightarrow> Heap \<times> bool" where
  "claimComponent hp identity =
     (if List.member (hp_owned hp) identity then (hp, False) else (hp\<lparr>hp_owned := identity # hp_owned hp\<rparr>, True))"

definition releaseComponent :: "Heap \<Rightarrow> componentIdentity \<Rightarrow> Heap" where
  "releaseComponent hp identity = hp\<lparr>hp_owned := filter (\<lambda>i. i \<noteq> identity) (hp_owned hp)\<rparr>"

abbreviation entry :: "Heap \<Rightarrow> nat \<Rightarrow> componentEntry" where
  "entry hp a \<equiv> hp_entries hp ! a"

definition set_entry :: "Heap \<Rightarrow> nat \<Rightarrow> componentEntry \<Rightarrow> Heap" where
  "set_entry hp a e = hp\<lparr>hp_entries := (hp_entries hp)[a := e]\<rparr>"

subsection \<open>Teardown\<close>

datatype component_call = CallStopIntake | CallDrain | CallClose | CallCleanup nat

record cleanupResult =
  cu_failed :: bool
  cu_componentName :: string

definition no_failure :: cleanupResult where
  "no_failure = \<lparr>cu_failed = False, cu_componentName = []\<rparr>"

definition record_error :: "cleanupResult \<Rightarrow> string \<Rightarrow> bool \<Rightarrow> cleanupResult" where
  "record_error r name good = (if \<not> good \<and> \<not> cu_failed r then \<lparr>cu_failed = True, cu_componentName = name\<rparr> else r)"

text \<open>
  The state of a teardown: heap, result so far, and the calls made.  \<open>ok a call\<close> tells whether the call on entry \<open>a\<close> returns nil; one
  teardown makes a call at most once.
\<close>

type_synonym teardown = "Heap \<times> cleanupResult \<times> (nat \<times> component_call) list"
type_synonym answers = "nat \<Rightarrow> component_call \<Rightarrow> bool"

definition stop_entry :: "answers \<Rightarrow> nat \<Rightarrow> teardown \<Rightarrow> teardown" where
  "stop_entry ok a t = (case t of (hp, r, calls) \<Rightarrow>
     (let e = entry hp a in
      if ce_component e \<noteq> NilInterface \<and> ce_started e \<and> \<not> ce_stopped e \<and> \<not> ce_closed e
      then (set_entry hp a (if ok a CallStopIntake then e\<lparr>ce_stopped := True\<rparr> else e),
            record_error r (ce_name e) (ok a CallStopIntake), calls @ [(a, CallStopIntake)])
      else (hp, r, calls)))"

definition drain_entry :: "answers \<Rightarrow> nat \<Rightarrow> teardown \<Rightarrow> teardown" where
  "drain_entry ok a t = (case t of (hp, r, calls) \<Rightarrow>
     (let e = entry hp a in
      if ce_component e \<noteq> NilInterface \<and> \<not> ce_closed e \<and> ce_started e \<and> \<not> ce_drained e
      then (set_entry hp a (if ok a CallDrain then e\<lparr>ce_drained := True\<rparr> else e),
            record_error r (ce_name e) (ok a CallDrain), calls @ [(a, CallDrain)])
      else (hp, r, calls)))"

definition close_entry :: "answers \<Rightarrow> nat \<Rightarrow> teardown \<Rightarrow> teardown" where
  "close_entry ok a t = (case t of (hp, r, calls) \<Rightarrow>
     (let e = entry hp a in
      if ce_component e \<noteq> NilInterface \<and> \<not> ce_closed e
      then (set_entry hp a (if ok a CallClose then e\<lparr>ce_closed := True\<rparr> else e),
            record_error r (ce_name e) (ok a CallClose), calls @ [(a, CallClose)])
      else (hp, r, calls)))"

text \<open>
  The children in reverse order; those whose cleanup fails are kept, in their original order (the source appends them in reverse
  and reverses the list in place).
\<close>

definition failed_children :: "answers \<Rightarrow> nat \<Rightarrow> acquiredChild list \<Rightarrow> acquiredChild list" where
  "failed_children ok a children =
     rev (map snd (filter (\<lambda>(i, c). \<not> ok a (CallCleanup i)) (rev (enumerate 0 children))))"

definition clean_children :: "answers \<Rightarrow> nat \<Rightarrow> teardown \<Rightarrow> teardown" where
  "clean_children ok a t = (case t of (hp, r, calls) \<Rightarrow>
     (let e = entry hp a; indexes = rev [0..<length (ce_children e)];
          failed = failed_children ok a (ce_children e)
      in (set_entry hp a (e\<lparr>ce_children := failed\<rparr>), record_error r (ce_name e) (failed = []),
          calls @ map (\<lambda>i. (a, CallCleanup i)) indexes)))"

definition release_entry :: "nat \<Rightarrow> teardown \<Rightarrow> teardown" where
  "release_entry a t = (case t of (hp, r, calls) \<Rightarrow>
     (let e = entry hp a in
      if ce_claimed e \<and> ce_closed e \<and> ce_children e = []
      then (set_entry (releaseComponent hp (ce_identity e)) a (e\<lparr>ce_claimed := False\<rparr>), r, calls)
      else (hp, r, calls)))"

definition finish_entry :: "answers \<Rightarrow> nat \<Rightarrow> teardown \<Rightarrow> teardown" where
  "finish_entry ok a t = release_entry a (clean_children ok a (close_entry ok a (drain_entry ok a t)))"

definition teardownEntries :: "answers \<Rightarrow> Heap \<Rightarrow> nat list \<Rightarrow> teardown" where
  "teardownEntries ok hp entries =
     fold (finish_entry ok) (rev entries) (fold (stop_entry ok) (rev entries) (hp, no_failure, []))"

definition hasCleanupOwnership :: "Heap \<Rightarrow> nat list \<Rightarrow> bool" where
  "hasCleanupOwnership hp entries =
     list_ex (\<lambda>a. let e = entry hp a in
       (ce_component e \<noteq> NilInterface \<and> \<not> ce_closed e) \<or> ce_children e \<noteq> [] \<or> ce_claimed e) entries"

definition scheduleCleanupRetry :: "Heap \<Rightarrow> nat list list \<Rightarrow> nat list \<Rightarrow> nat list list" where
  "scheduleCleanupRetry hp pending entries = (if hasCleanupOwnership hp entries then pending @ [entries] else pending)"

subsection \<open>Building a candidate\<close>

text \<open>The children that the calls of \<open>Register\<close> leave behind, after \<open>seal\<close>.\<close>

definition registered :: "(string \<times> nat option) list \<Rightarrow> acquiredChild list" where
  "registered calls =
     (case fold (\<lambda>(name, cleanup) a. fst (Register a name cleanup)) calls (Some \<lparr>aq_sealed = False, aq_children = []\<rparr>) of
        None \<Rightarrow> [] | Some a \<Rightarrow> snd (seal a))"

definition build_input :: "Factory \<Rightarrow> GraphConfig \<Rightarrow> 64 word \<Rightarrow> GraphConfig option \<Rightarrow> BuildInput" where
  "build_input factory candidate generation previous =
     \<lparr>bi_Config = candidate, bi_Generation = generation,
      bi_PreviousDigest = (case previous of None \<Rightarrow> [] | Some p \<Rightarrow> gc_PlanDigest p),
      bi_Rebuild = (case (previous, fa_NeedsRebuild factory) of (Some p, Some needs) \<Rightarrow> needs p candidate | _ \<Rightarrow> True)\<rparr>"

definition zero_identity :: componentIdentity where
  "zero_identity = \<lparr>ci_typeName = [], ci_pointer = 0\<rparr>"

definition new_entry :: "string \<Rightarrow> Component \<Rightarrow> acquiredChild list \<Rightarrow> componentIdentity \<Rightarrow> bool \<Rightarrow> componentEntry" where
  "new_entry name component children identity claimed =
     \<lparr>ce_name = name, ce_component = component, ce_children = children, ce_started = False, ce_stopped = False,
      ce_drained = False, ce_available = False, ce_closed = False, ce_identity = identity, ce_claimed = claimed\<rparr>"

definition push_entry :: "Heap \<times> nat list \<Rightarrow> componentEntry \<Rightarrow> Heap \<times> nat list" where
  "push_entry s e = (case s of (hp, entries) \<Rightarrow>
     (hp\<lparr>hp_entries := hp_entries hp @ [e]\<rparr>, entries @ [length (hp_entries hp)]))"

definition context_cause :: "prep_error option \<Rightarrow> ctx_err option" where
  "context_cause err = (case err of
     Some PrepCanceled \<Rightarrow> Some CtxCanceled | Some PrepDeadlineExceeded \<Rightarrow> Some CtxDeadlineExceeded | _ \<Rightarrow> None)"

text \<open>
  One iteration of the loop over the factories: \<open>Prepare\<close>, \<open>seal\<close>, \<open>claimComponent\<close> and the new entry.  The result is \<open>None\<close> if the loop goes on, and
  otherwise the context error that the bounded error carries.
\<close>

definition build_factory ::
  "(Factory \<Rightarrow> BuildInput \<Rightarrow> Prepared) \<Rightarrow> GraphConfig \<Rightarrow> 64 word \<Rightarrow> GraphConfig option \<Rightarrow> Factory \<Rightarrow> Heap \<times> nat list
     \<Rightarrow> (Heap \<times> nat list) \<times> ctx_err option option" where
  "build_factory prepare candidate generation previous factory s =
     (case s of (hp, entries) \<Rightarrow>
      (let p = prepare factory (build_input factory candidate generation previous);
           children = registered (pr_registered p)
       in case pr_component p of
            Pointer identity \<Rightarrow>
              (case claimComponent hp identity of (hp1, claimed) \<Rightarrow>
                 if claimed then
                   (push_entry (hp1, entries) (new_entry (fa_Name factory) (pr_component p) children identity True),
                    if pr_error p = None then None else Some (context_cause (pr_error p)))
                 else
                   (if children = [] then (hp1, entries)
                    else push_entry (hp1, entries) (new_entry (fa_Name factory) NilInterface children identity False),
                    Some (context_cause (pr_error p))))
          | component \<Rightarrow>
              (if children = [] then (hp, entries)
               else push_entry (hp, entries) (new_entry (fa_Name factory) component children zero_identity False),
               Some (context_cause (pr_error p)))))"

text \<open>The tail of a failed build: cleanup, the two reports on the previous graph, and the retry.\<close>

record BuildState =
  bs_heap :: Heap
  bs_pending :: "nat list list"
  bs_reports :: reportBatch

definition abandon_build ::
  "answers \<Rightarrow> (nat \<times> 64 word) option \<Rightarrow> gotime \<Rightarrow> nat list \<Rightarrow> BuildState \<Rightarrow> BuildState" where
  "abandon_build ok previous now entries s =
     (case teardownEntries ok (bs_heap s) entries of (hp, cleanup, calls) \<Rightarrow>
      if cu_failed cleanup then
        \<lparr>bs_heap = hp, bs_pending = scheduleCleanupRetry hp (bs_pending s) entries,
         bs_reports = (case previous of
           None \<Rightarrow> bs_reports s
         | Some (graph, generation) \<Rightarrow>
             addCompliance (addHealth (bs_reports s) (Some graph) generation now ReportCleanupFailed ''failed'' [] (cu_componentName cleanup))
               (Some graph) generation now ReportCleanupFailed ''rejected'' [] (cu_componentName cleanup))\<rparr>
      else s\<lparr>bs_heap := hp\<rparr>)"

record graphActivation =
  ga_retired :: bool
  ga_ready :: bool
  ga_users :: int
  ga_quiescent :: bool
  ga_signalled :: bool

record Graph =
  gr_config :: GraphConfig
  gr_generation :: "64 word"
  gr_components :: "nat list"
  gr_byName :: "(string \<times> nat) list"
  gr_activation :: graphActivation

definition new_graph :: "Heap \<Rightarrow> GraphConfig \<Rightarrow> 64 word \<Rightarrow> nat list \<Rightarrow> Graph" where
  "new_graph hp candidate generation entries =
     \<lparr>gr_config = candidate, gr_generation = generation, gr_components = entries,
      gr_byName = map (\<lambda>a. (ce_name (entry hp a), a)) (rev (filter (\<lambda>a. ce_component (entry hp a) \<noteq> NilInterface) entries)),
      gr_activation = \<lparr>ga_retired = False, ga_ready = False, ga_users = 0, ga_quiescent = False, ga_signalled = False\<rparr>\<rparr>"

definition initialization_error :: "string \<Rightarrow> ctx_err option \<Rightarrow> GraphError" where
  "initialization_error component cause =
     \<lparr>ge_code = GraphInitialization, ge_fieldPath = [], ge_componentName = component, ge_contextCause = cause\<rparr>"

text \<open>\<open>build\<close> from a factory on; \<open>ctx\<close> is what \<open>ctx.Err\<close> answers after the loop.\<close>

fun build_from ::
  "(Factory \<Rightarrow> BuildInput \<Rightarrow> Prepared) \<Rightarrow> answers \<Rightarrow> ctx_err option \<Rightarrow> gotime \<Rightarrow> GraphConfig \<Rightarrow> 64 word \<Rightarrow> (nat \<times> Graph) option
     \<Rightarrow> Factory list \<Rightarrow> nat list \<Rightarrow> BuildState \<Rightarrow> BuildState \<times> (GraphError + Graph)" where
  "build_from prepare ok ctx now candidate generation previous [] entries s =
     (case ctx of
        Some err \<Rightarrow> (abandon_build ok (map_option (map_prod id gr_generation) previous) now entries s,
                     Inl (initialization_error [] (Some err)))
      | None \<Rightarrow> (s, Inr (new_graph (bs_heap s) candidate generation entries)))"
| "build_from prepare ok ctx now candidate generation previous (factory # factories) entries s =
     (case build_factory prepare candidate generation (map_option (gr_config \<circ> snd) previous) factory (bs_heap s, entries) of
        ((hp, entries'), None) \<Rightarrow>
          build_from prepare ok ctx now candidate generation previous factories entries' (s\<lparr>bs_heap := hp\<rparr>)
      | ((hp, entries'), Some cause) \<Rightarrow>
          (abandon_build ok (map_option (map_prod id gr_generation) previous) now entries' (s\<lparr>bs_heap := hp\<rparr>),
           Inl (initialization_error (fa_Name factory) cause)))"

definition activate_entry :: "nat \<Rightarrow> Heap \<Rightarrow> Heap" where
  "activate_entry a hp = set_entry hp a ((entry hp a)\<lparr>ce_started := True, ce_available := True\<rparr>)"

definition activate_entries :: "nat list \<Rightarrow> Heap \<Rightarrow> Heap" where
  "activate_entries entries hp = fold activate_entry entries hp"

subsection \<open>The options and factories of a manager\<close>

record GraphOptions =
  og_DrainTimeout :: duration
  og_CleanupRetryDelay :: duration
  og_hasClock :: bool
  og_hasDeadlines :: bool
  og_hasRetryScheduler :: bool
  og_hasReporter :: bool

fun check_factories :: "string list \<Rightarrow> Factory option list \<Rightarrow> bool" where
  "check_factories seen [] = True"
| "check_factories seen (None # fs) = False"
| "check_factories seen (Some f # fs) =
     (if \<not> IsStableToken (fa_Name f) then False
      else if List.member seen (fa_Name f) then False
      else check_factories (fa_Name f # seen) fs)"

text \<open>\<open>newManager\<close>: the options with their defaults and the factories, or the error.\<close>

definition newManager :: "Factory option list \<Rightarrow> GraphOptions \<Rightarrow> GraphError + (GraphOptions \<times> Factory list)" where
  "newManager factories options =
     (let o1 = (if og_CleanupRetryDelay options \<le> 0 then options\<lparr>og_CleanupRetryDelay := Second\<rparr> else options);
          o2 = o1\<lparr>og_hasRetryScheduler := True\<rparr>
      in if og_DrainTimeout o2 \<le> 0 \<or> \<not> og_hasClock o2 \<or> \<not> og_hasDeadlines o2 \<or> \<not> og_hasReporter o2
         then Inl (graph_error GraphInvalidDependency)
         else if \<not> check_factories [] factories then Inl (graph_error GraphInvalidDependency)
         else Inr (o2, map the factories))"

subsection \<open>The effect of a teardown on one entry\<close>

definition needs_stop :: "componentEntry \<Rightarrow> bool" where
  "needs_stop e \<longleftrightarrow> ce_component e \<noteq> NilInterface \<and> ce_started e \<and> \<not> ce_stopped e \<and> \<not> ce_closed e"

definition needs_drain :: "componentEntry \<Rightarrow> bool" where
  "needs_drain e \<longleftrightarrow> ce_component e \<noteq> NilInterface \<and> \<not> ce_closed e \<and> ce_started e \<and> \<not> ce_drained e"

definition needs_close :: "componentEntry \<Rightarrow> bool" where
  "needs_close e \<longleftrightarrow> ce_component e \<noteq> NilInterface \<and> \<not> ce_closed e"

definition stopped_entry :: "answers \<Rightarrow> nat \<Rightarrow> componentEntry \<Rightarrow> componentEntry" where
  "stopped_entry ok a e = (if needs_stop e \<and> ok a CallStopIntake then e\<lparr>ce_stopped := True\<rparr> else e)"

definition finished_entry :: "answers \<Rightarrow> nat \<Rightarrow> componentEntry \<Rightarrow> componentEntry" where
  "finished_entry ok a e =
     (let e1 = (if needs_drain e \<and> ok a CallDrain then e\<lparr>ce_drained := True\<rparr> else e);
          e2 = (if needs_close e1 \<and> ok a CallClose then e1\<lparr>ce_closed := True\<rparr> else e1);
          e3 = e2\<lparr>ce_children := failed_children ok a (ce_children e2)\<rparr>
      in if ce_claimed e3 \<and> ce_closed e3 \<and> ce_children e3 = [] then e3\<lparr>ce_claimed := False\<rparr> else e3)"

definition torn_entry :: "answers \<Rightarrow> nat \<Rightarrow> componentEntry \<Rightarrow> componentEntry" where
  "torn_entry ok a e = finished_entry ok a (stopped_entry ok a e)"

definition finish_fails :: "answers \<Rightarrow> nat \<Rightarrow> componentEntry \<Rightarrow> bool" where
  "finish_fails ok a e \<longleftrightarrow> needs_drain e \<and> \<not> ok a CallDrain \<or> needs_close e \<and> \<not> ok a CallClose \<or>
     failed_children ok a (ce_children e) \<noteq> []"

definition tear_fails :: "answers \<Rightarrow> nat \<Rightarrow> componentEntry \<Rightarrow> bool" where
  "tear_fails ok a e \<longleftrightarrow> needs_stop e \<and> \<not> ok a CallStopIntake \<or> finish_fails ok a e"

lemma set_entry_simps [simp]:
  "hp_owned (set_entry hp a e) = hp_owned hp"
  "length (hp_entries (set_entry hp a e)) = length (hp_entries hp)"
  "a < length (hp_entries hp) \<Longrightarrow> entry (set_entry hp a e) b = (if b = a then e else entry hp b)"
  "hp_entries (releaseComponent hp i) = hp_entries hp"
  by (auto simp: set_entry_def releaseComponent_def)

lemma record_error_failed [simp]: "cu_failed (record_error r name good) \<longleftrightarrow> cu_failed r \<or> \<not> good"
  by (simp add: record_error_def)

lemma stop_entry_effect:
  assumes "stop_entry ok a (hp, r, calls) = (hp', r', calls')" and "a < length (hp_entries hp)"
  shows "hp_owned hp' = hp_owned hp" "length (hp_entries hp') = length (hp_entries hp)"
    "entry hp' b = (if b = a then stopped_entry ok a (entry hp a) else entry hp b)"
    "cu_failed r' \<longleftrightarrow> cu_failed r \<or> needs_stop (entry hp a) \<and> \<not> ok a CallStopIntake"
    "calls' = calls @ (if needs_stop (entry hp a) then [(a, CallStopIntake)] else [])"
  using assms by (auto simp: stop_entry_def stopped_entry_def needs_stop_def Let_def split: if_splits)

lemma drain_entry_effect:
  assumes "drain_entry ok a (hp, r, calls) = (hp', r', calls')" and "a < length (hp_entries hp)"
  shows "hp_owned hp' = hp_owned hp" "length (hp_entries hp') = length (hp_entries hp)"
    "entry hp' b = (if b = a then (if needs_drain (entry hp a) \<and> ok a CallDrain then (entry hp a)\<lparr>ce_drained := True\<rparr> else entry hp a)
       else entry hp b)"
    "cu_failed r' \<longleftrightarrow> cu_failed r \<or> needs_drain (entry hp a) \<and> \<not> ok a CallDrain"
  using assms by (auto simp: drain_entry_def needs_drain_def Let_def split: if_splits)

lemma close_entry_effect:
  assumes "close_entry ok a (hp, r, calls) = (hp', r', calls')" and "a < length (hp_entries hp)"
  shows "hp_owned hp' = hp_owned hp" "length (hp_entries hp') = length (hp_entries hp)"
    "entry hp' b = (if b = a then (if needs_close (entry hp a) \<and> ok a CallClose then (entry hp a)\<lparr>ce_closed := True\<rparr> else entry hp a)
       else entry hp b)"
    "cu_failed r' \<longleftrightarrow> cu_failed r \<or> needs_close (entry hp a) \<and> \<not> ok a CallClose"
  using assms by (auto simp: close_entry_def needs_close_def Let_def split: if_splits)

lemma clean_children_effect:
  assumes "clean_children ok a (hp, r, calls) = (hp', r', calls')" and "a < length (hp_entries hp)"
  shows "hp_owned hp' = hp_owned hp" "length (hp_entries hp') = length (hp_entries hp)"
    "entry hp' b = (if b = a then (entry hp a)\<lparr>ce_children := failed_children ok a (ce_children (entry hp a))\<rparr> else entry hp b)"
    "cu_failed r' \<longleftrightarrow> cu_failed r \<or> failed_children ok a (ce_children (entry hp a)) \<noteq> []"
  using assms by (auto simp: clean_children_def Let_def)

lemma release_entry_effect:
  assumes "release_entry a (hp, r, calls) = (hp', r', calls')" and "a < length (hp_entries hp)"
  shows "length (hp_entries hp') = length (hp_entries hp)" "r' = r"
    "entry hp' b = (if b = a then (if ce_claimed (entry hp a) \<and> ce_closed (entry hp a) \<and> ce_children (entry hp a) = []
       then (entry hp a)\<lparr>ce_claimed := False\<rparr> else entry hp a) else entry hp b)"
    "hp_owned hp' = (if ce_claimed (entry hp a) \<and> ce_closed (entry hp a) \<and> ce_children (entry hp a) = []
       then filter (\<lambda>i. i \<noteq> ce_identity (entry hp a)) (hp_owned hp) else hp_owned hp)"
  using assms by (auto simp: release_entry_def releaseComponent_def set_entry_def Let_def split: if_splits)

lemma finish_entry_effect:
  assumes "finish_entry ok a (hp, r, calls) = (hp', r', calls')" and a: "a < length (hp_entries hp)"
  shows "length (hp_entries hp') = length (hp_entries hp)"
    "entry hp' b = (if b = a then finished_entry ok a (entry hp a) else entry hp b)"
    "cu_failed r' \<longleftrightarrow> cu_failed r \<or> finish_fails ok a (entry hp a)"
    "hp_owned hp' = (if ce_claimed (entry hp a) \<and> \<not> ce_claimed (finished_entry ok a (entry hp a))
       then filter (\<lambda>i. i \<noteq> ce_identity (entry hp a)) (hp_owned hp) else hp_owned hp)"
proof -
  obtain hp1 r1 c1 where 1: "drain_entry ok a (hp, r, calls) = (hp1, r1, c1)" by (metis prod_cases3)
  obtain hp2 r2 c2 where 2: "close_entry ok a (hp1, r1, c1) = (hp2, r2, c2)" by (metis prod_cases3)
  obtain hp3 r3 c3 where 3: "clean_children ok a (hp2, r2, c2) = (hp3, r3, c3)" by (metis prod_cases3)
  have 4: "release_entry a (hp3, r3, c3) = (hp', r', calls')" using assms(1) 1 2 3 by (simp add: finish_entry_def)
  note e1 = drain_entry_effect [OF 1 a]
  have a1: "a < length (hp_entries hp1)" using a e1(2) by simp
  note e2 = close_entry_effect [OF 2 a1]
  have a2: "a < length (hp_entries hp2)" using a1 e2(2) by simp
  note e3 = clean_children_effect [OF 3 a2]
  have a3: "a < length (hp_entries hp3)" using a2 e3(2) by simp
  note e4 = release_entry_effect [OF 4 a3]
  show "length (hp_entries hp') = length (hp_entries hp)" using e1(2) e2(2) e3(2) e4(1) by simp
  have n1: "entry hp1 a = (if needs_drain (entry hp a) \<and> ok a CallDrain then (entry hp a)\<lparr>ce_drained := True\<rparr> else entry hp a)"
    using e1(3) [of a] by (simp only: if_True refl)
  have n2: "entry hp2 a = (if needs_close (entry hp1 a) \<and> ok a CallClose then (entry hp1 a)\<lparr>ce_closed := True\<rparr> else entry hp1 a)"
    using e2(3) [of a] by (simp only: if_True refl)
  have n3: "entry hp3 a = (entry hp2 a)\<lparr>ce_children := failed_children ok a (ce_children (entry hp2 a))\<rparr>"
    using e3(3) [of a] by (simp only: if_True refl)
  have fin: "finished_entry ok a (entry hp a) = (if ce_claimed (entry hp3 a) \<and> ce_closed (entry hp3 a) \<and> ce_children (entry hp3 a) = []
      then (entry hp3 a)\<lparr>ce_claimed := False\<rparr> else entry hp3 a)"
    unfolding finished_entry_def Let_def n3 n2 n1 ..
  have other: "b \<noteq> a \<Longrightarrow> entry hp' b = entry hp b"
    using e1(3) [of b] e2(3) [of b] e3(3) [of b] e4(3) [of b] by (simp only: if_False)
  have here: "entry hp' a = finished_entry ok a (entry hp a)" using e4(3) [of a] by (simp only: fin if_True refl)
  show "entry hp' b = (if b = a then finished_entry ok a (entry hp a) else entry hp b)"
    using other here by (cases "b = a") (simp_all only: if_True if_False refl not_False_eq_True)
  have ch: "ce_children (entry hp2 a) = ce_children (entry hp a)" and cl: "ce_claimed (entry hp3 a) = ce_claimed (entry hp a)"
    and ci: "ce_identity (entry hp3 a) = ce_identity (entry hp a)" and nc: "needs_close (entry hp1 a) = needs_close (entry hp a)"
    by (simp_all add: n1 n2 n3 needs_close_def)
  show "cu_failed r' \<longleftrightarrow> cu_failed r \<or> finish_fails ok a (entry hp a)"
    unfolding finish_fails_def e4(2) e3(4) e2(4) e1(4) ch nc by blast
  have "ce_claimed (finished_entry ok a (entry hp a)) \<longleftrightarrow>
      ce_claimed (entry hp a) \<and> \<not> (ce_closed (entry hp3 a) \<and> ce_children (entry hp3 a) = [])"
    unfolding fin using cl by auto
  then show "hp_owned hp' = (if ce_claimed (entry hp a) \<and> \<not> ce_claimed (finished_entry ok a (entry hp a))
       then filter (\<lambda>i. i \<noteq> ce_identity (entry hp a)) (hp_owned hp) else hp_owned hp)"
    using e4(4) e3(1) e2(1) e1(1) cl ci by simp
qed

lemma fold_stop_effect:
  assumes "fold (stop_entry ok) as (hp, r, calls) = (hp', r', calls')" "distinct as" "\<forall>a \<in> set as. a < length (hp_entries hp)"
  shows "hp_owned hp' = hp_owned hp \<and> length (hp_entries hp') = length (hp_entries hp) \<and>
    (\<forall>b. entry hp' b = (if b \<in> set as then stopped_entry ok b (entry hp b) else entry hp b)) \<and>
    (cu_failed r' \<longleftrightarrow> cu_failed r \<or> (\<exists>a \<in> set as. needs_stop (entry hp a) \<and> \<not> ok a CallStopIntake)) \<and>
    calls' = calls @ map (\<lambda>a. (a, CallStopIntake)) (filter (\<lambda>a. needs_stop (entry hp a)) as)"
  using assms
proof (induction as arbitrary: hp r calls)
  case (Cons a as)
  obtain hp1 r1 calls1 where s: "stop_entry ok a (hp, r, calls) = (hp1, r1, calls1)" by (metis prod_cases3)
  have a: "a < length (hp_entries hp)" using Cons.prems(3) by simp
  note eff = stop_entry_effect [OF s a]
  have same: "entry hp1 b = entry hp b" if "b \<in> set as" for b using that Cons.prems(2) eff(3) by auto
  then have f: "filter (\<lambda>a. needs_stop (entry hp1 a)) as = filter (\<lambda>a. needs_stop (entry hp a)) as" by (intro filter_cong) auto
  show ?case
    using Cons.IH [of hp1 r1 calls1] Cons.prems s eff same f by auto
qed simp

lemma fold_finish_effect:
  assumes "fold (finish_entry ok) as (hp, r, calls) = (hp', r', calls')" "distinct as" "\<forall>a \<in> set as. a < length (hp_entries hp)"
  shows "length (hp_entries hp') = length (hp_entries hp) \<and>
    (\<forall>b. entry hp' b = (if b \<in> set as then finished_entry ok b (entry hp b) else entry hp b)) \<and>
    (cu_failed r' \<longleftrightarrow> cu_failed r \<or> (\<exists>a \<in> set as. finish_fails ok a (entry hp a))) \<and>
    hp_owned hp' = filter (\<lambda>i. \<forall>a \<in> set as. ce_claimed (entry hp a) \<longrightarrow>
      \<not> ce_claimed (finished_entry ok a (entry hp a)) \<longrightarrow> i \<noteq> ce_identity (entry hp a)) (hp_owned hp)"
  using assms
proof (induction as arbitrary: hp r calls)
  case (Cons a as)
  obtain hp1 r1 calls1 where s: "finish_entry ok a (hp, r, calls) = (hp1, r1, calls1)" by (metis prod_cases3)
  have a: "a < length (hp_entries hp)" using Cons.prems(3) by simp
  note eff = finish_entry_effect [OF s a]
  have same: "entry hp1 b = entry hp b" if "b \<in> set as" for b using that Cons.prems(2) eff(2) by auto
  have "fold (finish_entry ok) as (hp1, r1, calls1) = (hp', r', calls')" "distinct as" "\<forall>a \<in> set as. a < length (hp_entries hp1)"
    using Cons.prems s eff(1) by auto
  note IH = Cons.IH [OF this]
  have "hp_owned hp' = filter (\<lambda>i. \<forall>b \<in> set as. ce_claimed (entry hp b) \<longrightarrow>
      \<not> ce_claimed (finished_entry ok b (entry hp b)) \<longrightarrow> i \<noteq> ce_identity (entry hp b)) (hp_owned hp1)"
    using IH same by (simp cong: filter_cong)
  moreover have "(\<forall>b. entry hp' b = (if b \<in> set (a # as) then finished_entry ok b (entry hp b) else entry hp b))"
    using IH eff(2) same Cons.prems(2) by auto
  moreover have "cu_failed r' \<longleftrightarrow> cu_failed r \<or> (\<exists>a \<in> set (a # as). finish_fails ok a (entry hp a))"
    using IH eff(3) same by auto
  ultimately show ?case using IH eff(1,4) by (auto intro: filter_cong simp: filter_filter)
qed simp

lemma stopped_entry_simps [simp]:
  "ce_claimed (stopped_entry ok a e) = ce_claimed e" "ce_identity (stopped_entry ok a e) = ce_identity e"
  "ce_component (stopped_entry ok a e) = ce_component e" "ce_closed (stopped_entry ok a e) = ce_closed e"
  "ce_children (stopped_entry ok a e) = ce_children e" "ce_name (stopped_entry ok a e) = ce_name e"
  "ce_started (stopped_entry ok a e) = ce_started e" "ce_drained (stopped_entry ok a e) = ce_drained e"
  "ce_available (stopped_entry ok a e) = ce_available e"
  "finish_fails ok a (stopped_entry ok a e) = finish_fails ok a e"
  by (simp_all add: stopped_entry_def finish_fails_def needs_drain_def needs_close_def)

text \<open>The whole teardown: what happens to the entries, to the ownership table, and when it reports a failure.\<close>

lemma teardownEntries_effect:
  assumes "teardownEntries ok hp entries = (hp', r, calls)" "distinct entries" "\<forall>a \<in> set entries. a < length (hp_entries hp)"
  shows "length (hp_entries hp') = length (hp_entries hp)"
    "entry hp' b = (if b \<in> set entries then torn_entry ok b (entry hp b) else entry hp b)"
    "cu_failed r \<longleftrightarrow> (\<exists>a \<in> set entries. tear_fails ok a (entry hp a))"
    "hp_owned hp' = filter (\<lambda>i. \<forall>a \<in> set entries. ce_claimed (entry hp a) \<longrightarrow> \<not> ce_claimed (torn_entry ok a (entry hp a)) \<longrightarrow>
       i \<noteq> ce_identity (entry hp a)) (hp_owned hp)"
proof -
  obtain hp1 r1 calls1 where stop: "fold (stop_entry ok) (rev entries) (hp, no_failure, []) = (hp1, r1, calls1)"
    by (metis prod_cases3)
  have d: "distinct (rev entries)" "\<forall>a \<in> set (rev entries). a < length (hp_entries hp)" using assms(2,3) by simp_all
  note S = fold_stop_effect [OF stop d]
  have fin: "fold (finish_entry ok) (rev entries) (hp1, r1, calls1) = (hp', r, calls)"
    using assms(1) stop by (simp add: teardownEntries_def)
  have "\<forall>a \<in> set (rev entries). a < length (hp_entries hp1)" using S d by simp
  note F = fold_finish_effect [OF fin d(1) this]
  show "length (hp_entries hp') = length (hp_entries hp)" using S F by simp
  show "entry hp' b = (if b \<in> set entries then torn_entry ok b (entry hp b) else entry hp b)"
    using S F by (simp add: torn_entry_def)
  show "cu_failed r \<longleftrightarrow> (\<exists>a \<in> set entries. tear_fails ok a (entry hp a))"
    using S F by (auto simp: tear_fails_def no_failure_def)
  show "hp_owned hp' = filter (\<lambda>i. \<forall>a \<in> set entries. ce_claimed (entry hp a) \<longrightarrow> \<not> ce_claimed (torn_entry ok a (entry hp a)) \<longrightarrow>
       i \<noteq> ce_identity (entry hp a)) (hp_owned hp)"
    using S F by (simp add: torn_entry_def cong: filter_cong)
qed

lemma finished_entry_simps [simp]:
  "ce_identity (finished_entry ok a e) = ce_identity e" "ce_component (finished_entry ok a e) = ce_component e"
  "ce_name (finished_entry ok a e) = ce_name e" "ce_started (finished_entry ok a e) = ce_started e"
  "ce_available (finished_entry ok a e) = ce_available e"
  "ce_children (finished_entry ok a e) = failed_children ok a (ce_children e)"
  "ce_closed (finished_entry ok a e) \<longleftrightarrow> ce_closed e \<or> needs_close e \<and> ok a CallClose"
  "ce_drained (finished_entry ok a e) \<longleftrightarrow> ce_drained e \<or> needs_drain e \<and> ok a CallDrain"
  "ce_stopped (finished_entry ok a e) = ce_stopped e"
  "ce_claimed (finished_entry ok a e) \<longleftrightarrow> ce_claimed e \<and>
     \<not> ((ce_closed e \<or> needs_close e \<and> ok a CallClose) \<and> failed_children ok a (ce_children e) = [])"
  by (auto simp: finished_entry_def needs_close_def Let_def)

lemma failed_children_Nil [simp]: "failed_children ok a [] = []"
  by (simp add: failed_children_def)

lemma failed_children_subset: "set (failed_children ok a cs) \<subseteq> set cs"
  by (auto simp: failed_children_def in_set_enumerate_eq)

text \<open>What a claimed entry looks like: the component is the pointer that was claimed.\<close>

definition entry_ok :: "componentEntry \<Rightarrow> bool" where
  "entry_ok e \<longleftrightarrow> (ce_claimed e \<longrightarrow> ce_component e = Pointer (ce_identity e))"

definition owns :: "componentEntry \<Rightarrow> bool" where
  "owns e \<longleftrightarrow> (ce_component e \<noteq> NilInterface \<and> \<not> ce_closed e) \<or> ce_children e \<noteq> [] \<or> ce_claimed e"

lemma hasCleanupOwnership_iff: "hasCleanupOwnership hp entries \<longleftrightarrow> (\<exists>a \<in> set entries. owns (entry hp a))"
  by (simp add: hasCleanupOwnership_def owns_def list_ex_iff Let_def)

lemma entry_ok_torn [simp]: "entry_ok e \<Longrightarrow> entry_ok (torn_entry ok a e)"
  by (auto simp: entry_ok_def torn_entry_def)

lemma torn_entry_released:
  assumes "\<not> tear_fails ok a e" and "entry_ok e"
  shows "\<not> owns (torn_entry ok a e)"
proof -
  have "failed_children ok a (ce_children e) = []" "needs_close e \<longrightarrow> ok a CallClose"
    using assms(1) by (auto simp: tear_fails_def finish_fails_def)
  moreover have "ce_claimed e \<longrightarrow> ce_component e \<noteq> NilInterface" using assms(2) by (auto simp: entry_ok_def)
  ultimately show ?thesis by (auto simp: owns_def torn_entry_def needs_close_def)
qed

lemma stopped_entry_stopped [simp]:
  "ce_stopped (stopped_entry ok a e) \<longleftrightarrow> ce_stopped e \<or> needs_stop e \<and> ok a CallStopIntake"
  by (auto simp: stopped_entry_def)

text \<open>
  A heap is well formed when an identity is in the table exactly if an entry claims it, and no two entries claim the same.
\<close>

definition heap_ok :: "Heap \<Rightarrow> bool" where
  "heap_ok hp \<longleftrightarrow> (\<forall>a < length (hp_entries hp). entry_ok (entry hp a)) \<and>
     (\<forall>i. i \<in> set (hp_owned hp) \<longleftrightarrow> (\<exists>a < length (hp_entries hp). ce_claimed (entry hp a) \<and> ce_identity (entry hp a) = i)) \<and>
     (\<forall>a < length (hp_entries hp). \<forall>b < length (hp_entries hp). ce_claimed (entry hp a) \<longrightarrow> ce_claimed (entry hp b) \<longrightarrow>
        ce_identity (entry hp a) = ce_identity (entry hp b) \<longrightarrow> a = b)"

lemma heap_ok_entry: "heap_ok hp \<Longrightarrow> a < length (hp_entries hp) \<Longrightarrow> entry_ok (entry hp a)"
  by (simp add: heap_ok_def)

lemma heap_ok_unique:
  "heap_ok hp \<Longrightarrow> a < length (hp_entries hp) \<Longrightarrow> b < length (hp_entries hp) \<Longrightarrow> ce_claimed (entry hp a) \<Longrightarrow>
   ce_claimed (entry hp b) \<Longrightarrow> ce_identity (entry hp a) = ce_identity (entry hp b) \<Longrightarrow> a = b"
  by (simp add: heap_ok_def)

lemma torn_identity [simp]:
  "ce_identity (torn_entry ok a e) = ce_identity e" "ce_component (torn_entry ok a e) = ce_component e"
  "ce_name (torn_entry ok a e) = ce_name e" "ce_started (torn_entry ok a e) = ce_started e"
  "ce_available (torn_entry ok a e) = ce_available e"
  by (simp_all add: torn_entry_def)

lemma torn_claimed: "ce_claimed (torn_entry ok a e) \<Longrightarrow> ce_claimed e"
  by (simp add: torn_entry_def)

lemma heap_ok_teardown:
  assumes "heap_ok hp" "teardownEntries ok hp entries = (hp', r, calls)" "distinct entries"
    "\<forall>a \<in> set entries. a < length (hp_entries hp)"
  shows "heap_ok hp'"
proof -
  note T = teardownEntries_effect [OF assms(2-4)]
  let ?n = "length (hp_entries hp)"
  have claimed: "ce_claimed (entry hp' a) \<Longrightarrow> ce_claimed (entry hp a)" for a
    using T(2) [of a] torn_claimed by (auto split: if_splits)
  have ident: "ce_identity (entry hp' a) = ce_identity (entry hp a)" for a using T(2) by simp
  have "i \<in> set (hp_owned hp') \<longleftrightarrow> (\<exists>a < ?n. ce_claimed (entry hp' a) \<and> ce_identity (entry hp' a) = i)" for i
  proof
    assume i: "i \<in> set (hp_owned hp')"
    then obtain a where a: "a < ?n" "ce_claimed (entry hp a)" "ce_identity (entry hp a) = i"
      using assms(1) T(4) by (auto simp: heap_ok_def)
    have "ce_claimed (entry hp' a)" using i a T(2,4) by auto
    then show "\<exists>a < ?n. ce_claimed (entry hp' a) \<and> ce_identity (entry hp' a) = i" using a ident by auto
  next
    assume "\<exists>a < ?n. ce_claimed (entry hp' a) \<and> ce_identity (entry hp' a) = i"
    then obtain a where a: "a < ?n" "ce_claimed (entry hp' a)" "ce_identity (entry hp a) = i" using ident by auto
    have "i \<noteq> ce_identity (entry hp b)" if b: "b \<in> set entries" "ce_claimed (entry hp b)" "\<not> ce_claimed (torn_entry ok b (entry hp b))" for b
    proof
      assume "i = ce_identity (entry hp b)"
      then have "a = b" using heap_ok_unique [OF assms(1), of a b] a claimed b assms(4) by auto
      then show False using a(2) b T(2) by simp
    qed
    moreover have "i \<in> set (hp_owned hp)" using assms(1) a claimed by (auto simp: heap_ok_def)
    ultimately show "i \<in> set (hp_owned hp')" using T(4) by auto
  qed
  moreover have "entry_ok (entry hp' a)" if "a < ?n" for a using heap_ok_entry [OF assms(1) that] T(2) by simp
  moreover have "a = b" if "a < ?n" "b < ?n" "ce_claimed (entry hp' a)" "ce_claimed (entry hp' b)"
    "ce_identity (entry hp' a) = ce_identity (entry hp' b)" for a b
    using heap_ok_unique [OF assms(1), of a b] that claimed ident by simp
  ultimately show ?thesis by (auto simp: heap_ok_def T(1))
qed

lemma teardown_releases:
  assumes "heap_ok hp" "distinct entries" "\<forall>a \<in> set entries. a < length (hp_entries hp)"
    and "teardownEntries ok hp entries = (hp', r, calls)" and "\<not> cu_failed r"
  shows "\<not> hasCleanupOwnership hp' entries \<and>
    set (hp_owned hp') = set (hp_owned hp) - {ce_identity (entry hp a) |a. a \<in> set entries \<and> ce_claimed (entry hp a)} \<and>
    (\<forall>b. b \<notin> set entries \<longrightarrow> entry hp' b = entry hp b)"
proof -
  note T = teardownEntries_effect [OF assms(4,2,3)]
  have free: "\<not> owns (entry hp' a)" if "a \<in> set entries" for a
  proof -
    have "\<not> tear_fails ok a (entry hp a)" using T(3) assms(5) that by blast
    moreover have "entry_ok (entry hp a)" using assms(1,3) that heap_ok_entry by blast
    ultimately show ?thesis using torn_entry_released that T(2) by simp
  qed
  have unclaimed: "\<not> ce_claimed (torn_entry ok a (entry hp a))" if "a \<in> set entries" for a
    using free [OF that] that T(2) [of a] by (simp add: owns_def)
  show ?thesis
  proof (intro conjI allI impI)
    show "\<not> hasCleanupOwnership hp' entries" using free by (auto simp: hasCleanupOwnership_iff)
    show "set (hp_owned hp') = set (hp_owned hp) - {ce_identity (entry hp a) |a. a \<in> set entries \<and> ce_claimed (entry hp a)}"
      using unclaimed by (auto simp: T(4))
    fix b assume "b \<notin> set entries"
    then show "entry hp' b = entry hp b" using T(2) by simp
  qed
qed

text \<open>
  A teardown that reports no failure leaves nothing behind: every component that was there is closed, every acquired child is
  released, no entry keeps a claim, and the ownership table loses exactly the identities of those entries, so no other
  generation is affected.
\<close>

theorem teardown_releases_everything:
  assumes "heap_ok hp" "distinct entries" "\<forall>a \<in> set entries. a < length (hp_entries hp)"
    and "teardownEntries ok hp entries = (hp', r, calls)" and "\<not> cu_failed r"
  shows "\<not> hasCleanupOwnership hp' entries \<and>
    set (hp_owned hp') = set (hp_owned hp) - {ce_identity (entry hp a) |a. a \<in> set entries \<and> ce_claimed (entry hp a)} \<and>
    (\<forall>b. b \<notin> set entries \<longrightarrow> entry hp' b = entry hp b)"
  using assms by (rule teardown_releases)

subsection \<open>Building all or nothing\<close>

lemma push_entry_heap_ok:
  assumes "heap_ok hp" "\<not> claimed"
  shows "heap_ok (fst (push_entry (hp, entries) (new_entry name component children identity claimed)))"
  using assms by (auto simp: heap_ok_def push_entry_def new_entry_def entry_ok_def nth_append less_Suc_eq)

lemma claim_push_heap_ok:
  assumes hp: "heap_ok hp" and claim: "claimComponent hp identity = (hp1, True)"
  shows "heap_ok (fst (push_entry (hp1, entries) (new_entry name (Pointer identity) children identity True)))"
proof -
  have fresh: "identity \<notin> set (hp_owned hp)" and hp1: "hp1 = hp\<lparr>hp_owned := identity # hp_owned hp\<rparr>"
    using claim by (auto simp: claimComponent_def split: if_splits)
  then have "\<not> (ce_claimed (entry hp a) \<and> ce_identity (entry hp a) = identity)" if "a < length (hp_entries hp)" for a
    using hp that by (auto simp: heap_ok_def)
  then show ?thesis
    using hp fresh by (auto simp: heap_ok_def hp1 push_entry_def new_entry_def entry_ok_def nth_append less_Suc_eq)
qed

text \<open>What one iteration of the loop does to the heap and to the list of entries.\<close>

lemma build_factory_cases:
  assumes "build_factory prepare candidate generation previous factory (hp, entries) = ((hp', entries'), stop)"
  obtains (kept) "hp' = hp" "entries' = entries" "stop \<noteq> None"
  | (claimed) identity hp1 children where "claimComponent hp identity = (hp1, True)"
      "(hp', entries') = push_entry (hp1, entries) (new_entry (fa_Name factory) (Pointer identity) children identity True)"
  | (unclaimed) component children identity where "stop \<noteq> None"
      "(hp', entries') = push_entry (hp, entries) (new_entry (fa_Name factory) component children identity False)"
proof -
  define p where "p = prepare factory (build_input factory candidate generation previous)"
  define children where "children = registered (pr_registered p)"
  note run = assms [unfolded build_factory_def prod.case, folded p_def, unfolded Let_def, folded children_def]
  have none: ?thesis
    if "((hp', entries'), stop) = (if children = [] then (hp, entries)
          else push_entry (hp, entries) (new_entry (fa_Name factory) component children identity False), Some cause)"
    for component identity cause
  proof (cases "children = []")
    case True
    then show ?thesis using that that(1) by (intro kept) simp_all
  next
    case False
    then show ?thesis using that by (intro unclaimed) simp_all
  qed
  show ?thesis
  proof (cases "pr_component p")
    case (Pointer identity)
    show ?thesis
    proof (cases "claimComponent hp identity")
      case (Pair hp1 got)
      show ?thesis
      proof (cases got)
        case True
        then show ?thesis using run Pointer Pair by (intro claimed [of identity hp1 children]) auto
      next
        case False
        then have "hp1 = hp" using Pair by (simp add: claimComponent_def split: if_splits)
        then show ?thesis using run Pointer Pair False by (intro none [of NilInterface identity "context_cause (pr_error p)"]) simp
      qed
    qed
  next
    case NilInterface
    then show ?thesis using run by (intro none [of NilInterface zero_identity "context_cause (pr_error p)"]) simp
  next
    case NilPointer
    then show ?thesis using run by (intro none [of NilPointer zero_identity "context_cause (pr_error p)"]) simp
  next
    case PlainValue
    then show ?thesis using run by (intro none [of PlainValue zero_identity "context_cause (pr_error p)"]) simp
  qed
qed

lemma build_factory_heap_ok:
  assumes "heap_ok hp" "build_factory prepare candidate generation previous factory (hp, entries) = ((hp', entries'), stop)"
  shows "heap_ok hp'"
  using assms(2)
proof (cases rule: build_factory_cases)
  case (claimed identity hp1 children)
  then show ?thesis using claim_push_heap_ok [OF assms(1) claimed(1)] by (metis fst_conv)
next
  case (unclaimed component children identity)
  then show ?thesis using push_entry_heap_ok [OF assms(1)] by (metis fst_conv)
qed (use assms in simp)

text \<open>The list of entries grows by fresh addresses at the end of the heap; older entries are not touched.\<close>

definition extends :: "Heap \<times> nat list \<Rightarrow> Heap \<times> nat list \<Rightarrow> bool" where
  "extends s s' \<longleftrightarrow> (\<exists>new. hp_entries (fst s') = hp_entries (fst s) @ new \<and>
     snd s' = snd s @ [length (hp_entries (fst s)) ..< length (hp_entries (fst s'))])"

lemma extends_refl: "extends s s"
  by (simp add: extends_def)

lemma extends_trans: "extends s s' \<Longrightarrow> extends s' s'' \<Longrightarrow> extends s s''"
proof -
  assume "extends s s'" "extends s' s''"
  then obtain new new' where n: "hp_entries (fst s') = hp_entries (fst s) @ new" "hp_entries (fst s'') = hp_entries (fst s') @ new'"
    and e: "snd s' = snd s @ [length (hp_entries (fst s)) ..< length (hp_entries (fst s'))]"
      "snd s'' = snd s' @ [length (hp_entries (fst s')) ..< length (hp_entries (fst s''))]"
    by (auto simp: extends_def)
  have "snd s'' = snd s @ [length (hp_entries (fst s)) ..< length (hp_entries (fst s''))]"
    using e n upt_add_eq_append [of "length (hp_entries (fst s))" "length (hp_entries (fst s'))" "length new'"] by (simp add: add.assoc)
  then show ?thesis using n by (auto simp: extends_def)
qed

lemma extends_push: "hp_entries hp1 = hp_entries hp \<Longrightarrow> extends (hp, entries) (push_entry (hp1, entries) e)"
  by (auto simp: extends_def push_entry_def)

lemma build_factory_extends:
  assumes "build_factory prepare candidate generation previous factory (hp, entries) = ((hp', entries'), stop)"
  shows "extends (hp, entries) (hp', entries')"
  using assms
proof (cases rule: build_factory_cases)
  case (claimed identity hp1 children)
  then have "hp_entries hp1 = hp_entries hp" by (auto simp: claimComponent_def split: if_splits)
  then show ?thesis using claimed(2) extends_push by metis
next
  case (unclaimed component children identity)
  then show ?thesis using extends_push by metis
qed (simp add: extends_refl)

text \<open>An iteration that lets the loop go on has added one claimed entry of the factory.\<close>

definition built_entry :: "Heap \<Rightarrow> Factory \<Rightarrow> nat \<Rightarrow> bool" where
  "built_entry hp factory a \<longleftrightarrow> a < length (hp_entries hp) \<and> ce_name (entry hp a) = fa_Name factory \<and> ce_claimed (entry hp a) \<and>
     ce_component (entry hp a) = Pointer (ce_identity (entry hp a)) \<and> \<not> ce_closed (entry hp a) \<and> \<not> ce_started (entry hp a) \<and>
     \<not> ce_stopped (entry hp a)"

lemma build_factory_built:
  assumes "build_factory prepare candidate generation previous factory (hp, entries) = ((hp', entries'), None)"
  shows "entries' = entries @ [length (hp_entries hp)] \<and> built_entry hp' factory (length (hp_entries hp))"
  using assms
proof (cases rule: build_factory_cases)
  case (claimed identity hp1 children)
  then have "hp_entries hp1 = hp_entries hp" by (auto simp: claimComponent_def split: if_splits)
  then show ?thesis using claimed(2) by (simp add: push_entry_def new_entry_def built_entry_def)
qed simp_all

lemma built_entry_extends:
  "built_entry (fst s) factory a \<Longrightarrow> extends s s' \<Longrightarrow> built_entry (fst s') factory a"
  by (auto simp: built_entry_def extends_def nth_append)

text \<open>What a failed build leaves: the older entries as they were, and every new entry that still owns something in a retry batch.\<close>

definition abandoned :: "BuildState \<Rightarrow> BuildState \<Rightarrow> bool" where
  "abandoned s s' \<longleftrightarrow> heap_ok (bs_heap s') \<and> length (hp_entries (bs_heap s)) \<le> length (hp_entries (bs_heap s')) \<and>
     (\<forall>a < length (hp_entries (bs_heap s)). entry (bs_heap s') a = entry (bs_heap s) a) \<and>
     (\<exists>batches. bs_pending s' = bs_pending s @ batches \<and>
       (\<forall>batch \<in> set batches. \<forall>a \<in> set batch. length (hp_entries (bs_heap s)) \<le> a \<and> a < length (hp_entries (bs_heap s'))) \<and>
       (\<forall>a. length (hp_entries (bs_heap s)) \<le> a \<longrightarrow> a < length (hp_entries (bs_heap s')) \<longrightarrow> owns (entry (bs_heap s') a) \<longrightarrow>
          (\<exists>batch \<in> set batches. a \<in> set batch)))"

lemma abandon_build_abandoned:
  assumes "heap_ok hp" and "extends (bs_heap s, []) (hp, entries)"
  shows "abandoned s (abandon_build ok previous now entries (s\<lparr>bs_heap := hp\<rparr>))"
proof -
  let ?n = "length (hp_entries (bs_heap s))"
  obtain hp' r calls where t: "teardownEntries ok hp entries = (hp', r, calls)" by (metis prod_cases3)
  have entries: "entries = [?n ..< length (hp_entries hp)]" and pre: "\<exists>new. hp_entries hp = hp_entries (bs_heap s) @ new"
    using assms(2) by (auto simp: extends_def)
  then have d: "distinct entries" "\<forall>a \<in> set entries. a < length (hp_entries hp)" by simp_all
  note T = teardownEntries_effect [OF t d]
  have ok': "heap_ok hp'" using heap_ok_teardown [OF assms(1) t d] .
  have old: "entry hp' a = entry (bs_heap s) a" if "a < ?n" for a
    using that pre T(2) [of a] entries by (auto simp: nth_append)
  have len: "?n \<le> length (hp_entries hp')" using pre T(1) by auto
  show ?thesis
  proof (cases "cu_failed r")
    case True
    have "bs_heap (abandon_build ok previous now entries (s\<lparr>bs_heap := hp\<rparr>)) = hp'"
      "bs_pending (abandon_build ok previous now entries (s\<lparr>bs_heap := hp\<rparr>)) =
         bs_pending s @ (if hasCleanupOwnership hp' entries then [entries] else [])"
      using t True by (simp_all add: abandon_build_def scheduleCleanupRetry_def)
    then show ?thesis
      unfolding abandoned_def using ok' old len entries T(1) by (auto simp: hasCleanupOwnership_iff)
  next
    case False
    have "bs_heap (abandon_build ok previous now entries (s\<lparr>bs_heap := hp\<rparr>)) = hp'"
      "bs_pending (abandon_build ok previous now entries (s\<lparr>bs_heap := hp\<rparr>)) = bs_pending s @ []"
      using t False by (simp_all add: abandon_build_def)
    moreover have "\<not> hasCleanupOwnership hp' entries"
      using teardown_releases [OF assms(1) d t False] by simp
    ultimately show ?thesis
      unfolding abandoned_def using ok' old len entries T(1) by (auto simp: hasCleanupOwnership_iff)
  qed
qed

definition built :: "BuildState \<Rightarrow> Factory list \<Rightarrow> BuildState \<Rightarrow> Graph \<Rightarrow> bool" where
  "built s factories s' g \<longleftrightarrow> heap_ok (bs_heap s') \<and> bs_pending s' = bs_pending s \<and> bs_reports s' = bs_reports s \<and>
     (\<exists>new. hp_entries (bs_heap s') = hp_entries (bs_heap s) @ new) \<and>
     gr_components g = [length (hp_entries (bs_heap s)) ..< length (hp_entries (bs_heap s'))] \<and>
     list_all2 (built_entry (bs_heap s')) factories (gr_components g) \<and> \<not> ga_ready (gr_activation g) \<and>
     \<not> ga_retired (gr_activation g) \<and> ga_users (gr_activation g) = 0"

lemma build_from_result:
  assumes "heap_ok hp" "extends (bs_heap s, []) (hp, entries)" "list_all2 (built_entry hp) earlier entries"
    and "build_from prepare ok ctx now candidate generation previous factories entries (s\<lparr>bs_heap := hp\<rparr>) = (s', result)"
  shows "case result of Inl err \<Rightarrow> abandoned s s' \<and> ge_code err = GraphInitialization | Inr g \<Rightarrow> built s (earlier @ factories) s' g"
  using assms
proof (induction factories arbitrary: hp entries earlier)
  case Nil
  show ?case
  proof (cases ctx)
    case None
    then have "s' = s\<lparr>bs_heap := hp\<rparr>" "result = Inr (new_graph hp candidate generation entries)" using Nil.prems(4) by simp_all
    then show ?thesis using Nil.prems by (auto simp: built_def new_graph_def extends_def)
  next
    case (Some err)
    then have s': "s' = abandon_build ok (map_option (map_prod id gr_generation) previous) now entries (s\<lparr>bs_heap := hp\<rparr>)"
      and "result = Inl (initialization_error [] (Some err))" using Nil.prems(4) by simp_all
    then show ?thesis using abandon_build_abandoned [OF Nil.prems(1,2)] by (simp add: initialization_error_def)
  qed
next
  case (Cons factory factories)
  obtain hp1 entries1 stop where step: "build_factory prepare candidate generation (map_option (gr_config \<circ> snd) previous) factory
      (hp, entries) = ((hp1, entries1), stop)"
    by (metis surj_pair)
  have ok1: "heap_ok hp1" using build_factory_heap_ok [OF Cons.prems(1) step] .
  have ext: "extends (hp, entries) (hp1, entries1)" using build_factory_extends [OF step] .
  then have ext1: "extends (bs_heap s, []) (hp1, entries1)" using Cons.prems(2) extends_trans by blast
  show ?case
  proof (cases stop)
    case None
    then have run: "build_from prepare ok ctx now candidate generation previous factories entries1 (s\<lparr>bs_heap := hp1\<rparr>) = (s', result)"
      using Cons.prems(4) step by simp
    have "entries1 = entries @ [length (hp_entries hp)]" "built_entry hp1 factory (length (hp_entries hp))"
      using build_factory_built [of prepare candidate generation _ factory hp entries hp1 entries1] step None by auto
    moreover have "list_all2 (built_entry hp1) earlier entries"
      using Cons.prems(3) built_entry_extends [of "(hp, entries)" _ _ "(hp1, entries1)"] ext by (auto elim: list_all2_mono)
    ultimately have "list_all2 (built_entry hp1) (earlier @ [factory]) entries1" by (simp add: list_all2_appendI)
    from Cons.IH [OF ok1 ext1 this run] show ?thesis by (cases result) simp_all
  next
    case (Some cause)
    then have "s' = abandon_build ok (map_option (map_prod id gr_generation) previous) now entries1 (s\<lparr>bs_heap := hp1\<rparr>)"
      and "result = Inl (initialization_error (fa_Name factory) cause)" using Cons.prems(4) step by simp_all
    then show ?thesis using abandon_build_abandoned [OF ok1 ext1] by (simp add: initialization_error_def)
  qed
qed

lemma build_result:
  assumes "heap_ok (bs_heap s)"
    and "build_from prepare ok ctx now candidate generation previous factories [] s = (s', result)"
  shows "case result of Inl err \<Rightarrow> abandoned s s' \<and> ge_code err = GraphInitialization | Inr g \<Rightarrow> built s factories s' g"
proof -
  have "build_from prepare ok ctx now candidate generation previous factories [] (s\<lparr>bs_heap := bs_heap s\<rparr>) = (s', result)"
    using assms(2) by simp
  from build_from_result [OF assms(1) extends_refl _ this, of "[]"] show ?thesis by (cases result) simp_all
qed

text \<open>
  C21.  A candidate is built completely or not at all.  On success the graph has exactly one entry per factory, in
  their order, each with a valid component that this entry alone owns, and nothing is scheduled for cleanup.  On failure the
  error is an initialization error, no older entry is touched, and whatever the cleanup could not release is in a
  retry batch: no component, child or claim is leaked.
\<close>

theorem build_all_or_nothing:
  assumes "heap_ok (bs_heap s)"
    and "build_from prepare ok ctx now candidate generation previous factories [] s = (s', result)"
  shows "case result of Inl err \<Rightarrow> abandoned s s' \<and> ge_code err = GraphInitialization | Inr g \<Rightarrow> built s factories s' g"
  using assms by (rule build_result)

subsection \<open>Witnesses\<close>

text \<open>A queue that is running and owns one child, and two factories of which the second fails.\<close>

definition queue_identity :: componentIdentity where
  "queue_identity = \<lparr>ci_typeName = ''queue'', ci_pointer = 1\<rparr>"

definition running_queue_heap :: Heap where
  "running_queue_heap =
     \<lparr>hp_entries = [(new_entry ''local'' (Pointer queue_identity) [\<lparr>ch_name = ''file'', ch_cleanup = 0\<rparr>] queue_identity True)
        \<lparr>ce_started := True, ce_available := True\<rparr>],
      hp_owned = [queue_identity]\<rparr>"

definition failing_prepare :: "Factory \<Rightarrow> BuildInput \<Rightarrow> Prepared" where
  "failing_prepare f input =
     (if fa_Name f = ''local'' then \<lparr>pr_component = Pointer queue_identity, pr_registered = [(''file'', Some 0)], pr_error = None\<rparr>
      else \<lparr>pr_component = NilInterface, pr_registered = [], pr_error = Some PrepOther\<rparr>)"

definition two_factories :: "Factory list" where
  "two_factories = [\<lparr>fa_Name = ''local'', fa_NeedsRebuild = None\<rparr>, \<lparr>fa_Name = ''remote'', fa_NeedsRebuild = None\<rparr>]"

definition fresh_build :: BuildState where
  "fresh_build = \<lparr>bs_heap = \<lparr>hp_entries = [], hp_owned = []\<rparr>, bs_pending = [], bs_reports = empty_batch\<rparr>"

theorem teardown_releases_everything_witness:
  "\<not> hasCleanupOwnership (fst (teardownEntries (\<lambda>_ _. True) running_queue_heap [0])) [0] \<and>
   hp_owned (fst (teardownEntries (\<lambda>_ _. True) running_queue_heap [0])) = []"
proof -
  obtain hp' r calls where t: "teardownEntries (\<lambda>_ _. True) running_queue_heap [0] = (hp', r, calls)" by (metis prod_cases3)
  have "heap_ok running_queue_heap"
    by (auto simp: heap_ok_def entry_ok_def running_queue_heap_def new_entry_def queue_identity_def)
  moreover have "\<not> cu_failed (fst (snd (teardownEntries (\<lambda>_ _. True) running_queue_heap [0])))" by code_simp
  moreover have "ce_identity (entry running_queue_heap 0) = queue_identity" "ce_claimed (entry running_queue_heap 0)"
    "hp_owned running_queue_heap = [queue_identity]" "length (hp_entries running_queue_heap) = 1"
    by (simp_all add: running_queue_heap_def new_entry_def)
  ultimately show ?thesis
    using teardown_releases_everything [of running_queue_heap "[0]" "\<lambda>_ _. True" hp' r calls] t by (auto simp: t)
qed

theorem build_all_or_nothing_witness:
  "case build_from failing_prepare (\<lambda>_ call. call \<noteq> CallClose) None 0 (ConfigFromPlan None False) 1 None two_factories [] fresh_build of
     (s', Inl err) \<Rightarrow> abandoned fresh_build s' \<and> bs_pending s' = [[0]] | (s', Inr g) \<Rightarrow> False"
proof -
  let ?run = "build_from failing_prepare (\<lambda>_ call. call \<noteq> CallClose) None 0 (ConfigFromPlan None False) 1 None two_factories [] fresh_build"
  have err: "case ?run of (s', Inl err) \<Rightarrow> bs_pending s' = [[0]] | (s', Inr g) \<Rightarrow> False" by code_simp
  obtain s' result where run: "?run = (s', result)" by fastforce
  have "heap_ok (bs_heap fresh_build)" by (simp add: heap_ok_def fresh_build_def)
  from build_all_or_nothing [OF this run] show ?thesis using err by (cases result) (simp_all add: run)
qed

end
