(* ===== verification/RuntimeGraph_Manager.thy ===== *)
theory RuntimeGraph_Manager
  imports RuntimeGraph_Build
begin

text \<open>
  The runtime graph manager under concurrency (\<^verbatim>\<open>observability/runtimegraph/manager.go\<close>): producers that acquire, fork and
  release leases, one reload or close transaction at a time (they hold \<open>reloadMu\<close>), goroutines that wait for a retired graph
  to become quiescent or retry a cleanup, the handover of reports, and the checks that decide whether the reporter may stop.
  Each of these is a program counter between two accesses to shared state; \<open>mstep\<close> interleaves them.

  A graph is named by its position in \<open>mg_graphs\<close>, so a pointer comparison is a comparison of positions.  The clock, contexts, factories and
  the answers of components come from the environment of the step.
\<close>

subsection \<open>Leases on one graph\<close>

datatype acquire_result = AcquireRetired | AcquireHeld | AcquireWaits

text \<open>One pass of the loop of \<open>Graph.acquire\<close>; on \<open>AcquireWaits\<close> the caller blocks on \<open>readyCh\<close>.\<close>

definition graph_acquire :: "graphActivation \<Rightarrow> graphActivation \<times> acquire_result" where
  "graph_acquire a =
     (if ga_retired a then (a, AcquireRetired)
      else if ga_ready a then (a\<lparr>ga_users := ga_users a + 1\<rparr>, AcquireHeld)
      else (a, AcquireWaits))"

definition graph_release :: "graphActivation \<Rightarrow> graphActivation" where
  "graph_release a =
     (if ga_users a \<le> 0 then a
      else let b = a\<lparr>ga_users := ga_users a - 1\<rparr>
           in if ga_retired b \<and> ga_users b = 0 \<and> ga_quiescent b then b\<lparr>ga_quiescent := False, ga_signalled := True\<rparr> else b)"

definition beginRetirement :: "graphActivation \<Rightarrow> graphActivation" where
  "beginRetirement a =
     (let b = a\<lparr>ga_retired := True\<rparr>
      in if ga_users b = 0 then b\<lparr>ga_signalled := True\<rparr> else b\<lparr>ga_quiescent := True\<rparr>)"

definition finishActivation :: "graphActivation \<Rightarrow> graphActivation" where
  "finishActivation a = (if ga_ready a then a else a\<lparr>ga_ready := True\<rparr>)"

text \<open>The critical section of \<open>Lease.Fork\<close> on a lease that is not released.\<close>

definition graph_fork :: "graphActivation \<Rightarrow> graphActivation \<times> bool" where
  "graph_fork a = (if ga_users a \<le> 0 then (a, False) else (a\<lparr>ga_users := ga_users a + 1\<rparr>, True))"

text \<open>
  The contract of such a reference count with a rundown: nobody enters after retirement, sharing needs a user, and the
  last user to leave gives the signal.
\<close>

locale rundown =
  fixes users :: "'g \<Rightarrow> int" and retired signalled :: "'g \<Rightarrow> bool" and waited :: "'g \<Rightarrow> bool"
    and enter share :: "'g \<Rightarrow> 'g \<times> bool" and leave retire :: "'g \<Rightarrow> 'g"
  assumes enter_retired: "retired g \<Longrightarrow> enter g = (g, False)"
    and enter_flags: "enter g = (g', entered) \<Longrightarrow> retired g' = retired g \<and> signalled g' = signalled g \<and> waited g' = waited g"
    and enter_users: "enter g = (g', entered) \<Longrightarrow> users g' = users g + (if entered then 1 else 0)"
    and share_none: "users g = 0 \<Longrightarrow> share g = (g, False)"
    and share_flags: "share g = (g', shared) \<Longrightarrow> retired g' = retired g \<and> signalled g' = signalled g \<and> waited g' = waited g"
    and share_users: "share g = (g', shared) \<Longrightarrow> users g' = users g + (if shared then 1 else 0)"
    and leave_none: "users g = 0 \<Longrightarrow> leave g = g"
    and leave_users: "0 < users g \<Longrightarrow> users (leave g) = users g - 1"
    and leave_retired: "retired (leave g) = retired g"
    and leave_signal: "0 < users g \<Longrightarrow> signalled (leave g) \<longleftrightarrow> signalled g \<or> retired g \<and> users g = 1 \<and> waited g"
    and leave_waited: "0 < users g \<Longrightarrow> waited (leave g) \<longleftrightarrow> waited g \<and> \<not> (retired g \<and> users g = 1)"
    and retire_users: "users (retire g) = users g"
    and retire_retired: "retired (retire g)"
    and retire_signal: "signalled (retire g) \<longleftrightarrow> signalled g \<or> users g = 0"
    and retire_waited: "waited (retire g) \<longleftrightarrow> waited g \<or> users g \<noteq> 0"
begin

definition drained :: "'g \<Rightarrow> bool" where
  "drained g \<longleftrightarrow> retired g \<and> users g = 0"

text \<open>The signal means that the last user has left, and it is never missed.\<close>

definition signal_ok :: "'g \<Rightarrow> bool" where
  "signal_ok g \<longleftrightarrow> 0 \<le> users g \<and> (signalled g \<longrightarrow> drained g) \<and> (drained g \<longrightarrow> signalled g) \<and>
     (retired g \<and> 0 < users g \<longrightarrow> waited g)"

lemma drained_stable:
  assumes "drained g"
  shows "enter g = (g, False)" "share g = (g, False)" "leave g = g" "drained (retire g)"
  using assms by (simp_all add: drained_def enter_retired share_none leave_none retire_retired retire_users)

lemma signal_ok_enter: "signal_ok g \<Longrightarrow> enter g = (g', entered) \<Longrightarrow> signal_ok g'"
proof -
  assume ok: "signal_ok g" and e: "enter g = (g', entered)"
  note f = enter_flags [OF e] and u = enter_users [OF e]
  show "signal_ok g'"
  proof (cases "retired g")
    case True
    then show ?thesis using ok e enter_retired by simp
  next
    case False
    then show ?thesis using ok f u by (auto simp: signal_ok_def drained_def)
  qed
qed

lemma signal_ok_share: "signal_ok g \<Longrightarrow> share g = (g', shared) \<Longrightarrow> signal_ok g'"
proof -
  assume ok: "signal_ok g" and s: "share g = (g', shared)"
  note f = share_flags [OF s] and u = share_users [OF s]
  show "signal_ok g'"
  proof (cases "users g = 0")
    case True
    then show ?thesis using ok s share_none by simp
  next
    case False
    then show ?thesis using ok f u by (auto simp: signal_ok_def drained_def)
  qed
qed

lemma signal_ok_leave: "signal_ok g \<Longrightarrow> signal_ok (leave g)"
proof (cases "users g = 0")
  case False
  assume ok: "signal_ok g"
  then have "0 < users g" using False by (simp add: signal_ok_def)
  note l = leave_users [OF this] leave_signal [OF this] leave_waited [OF this]
  show ?thesis using ok \<open>0 < users g\<close> l leave_retired [of g] by (auto simp: signal_ok_def drained_def)
qed (simp add: leave_none)

lemma signal_ok_retire: "signal_ok g \<Longrightarrow> signal_ok (retire g)"
  by (cases "users g = 0") (simp_all add: signal_ok_def drained_def retire_users retire_retired retire_signal retire_waited)

end

definition enter_activation :: "graphActivation \<Rightarrow> graphActivation \<times> bool" where
  "enter_activation a = map_prod id (\<lambda>r. r = AcquireHeld) (graph_acquire a)"

interpretation rd: rundown ga_users ga_retired ga_signalled ga_quiescent enter_activation graph_fork graph_release beginRetirement
  by unfold_locales
    (auto simp: enter_activation_def graph_acquire_def graph_fork_def graph_release_def beginRetirement_def Let_def split: if_splits)

subsection \<open>The manager and its goroutines\<close>

datatype lease_state = LeaseLive | LeaseReleasing | LeaseReleased

record Lease =
  le_graph :: nat
  le_state :: lease_state

text \<open>
  \<open>Manager.Acquire\<close>: at the head of the loop, after the first load of \<open>closed\<close>, with a graph loaded, with the count incremented, after the
  second load of \<open>active\<close>, after the count was given back, after a failed \<open>acquire\<close>, and the three ways to end.
\<close>

datatype acquire_pc =
    A_Top
  | A_Open
  | A_Loaded nat
  | A_Held nat
  | A_Checked nat bool
  | A_Undone
  | A_Missed nat
  | A_Missed_open nat
  | A_Leased nat
  | A_Failed GraphErrorCode

datatype ReloadStatus = ReloadRejected | ReloadApplied | ReloadAppliedDegraded

record ReloadResult =
  rr_active :: "nat option"
  rr_status :: ReloadStatus

datatype tx_result =
    ReloadDone ReloadResult "GraphError option"
  | CloseDone "GraphError option"

text \<open>Why a graph is retired: a reload published the graph given here, or the manager is being closed.\<close>

datatype retire_cause = ByReload nat | ByClose

text \<open>
  The transaction that holds \<open>reloadMu\<close>.  \<open>T_Build\<close> carries the factories that are left, the entries so far and the reports.
\<close>

datatype tx_pc =
    T_Idle
  | T_Reload GraphConfig
  | T_Build GraphConfig nat "Factory list" "nat list" reportBatch
  | T_Abandon string "ctx_err option" nat "nat list" reportBatch
  | T_Publish GraphConfig nat "nat list" reportBatch
  | T_Activate nat nat reportBatch
  | T_Ready nat nat reportBatch
  | T_Close
  | T_Detach
  | T_Retire retire_cause nat reportBatch
  | T_Wait retire_cause nat reportBatch
  | T_Finish tx_result reportBatch

text \<open>\<open>cleanupAfterQuiescence\<close>, \<open>maybeCloseReporter\<close>.\<close>

datatype async_pc =
    Y_Wait nat nat
  | Y_Report nat nat string
  | Y_Dispatch nat reportBatch
  | Y_Schedule nat
  | Y_End
  | Y_Done

datatype check_pc = C_Closed | C_Pending | C_Compare | C_Request | C_Done

record Manager =
  mg_factories :: "Factory list"
  mg_graphs :: "Graph list"
  mg_active :: "nat option"
  mg_closed :: bool
  mg_heap :: Heap
  mg_pending :: "nat list list"
  mg_async :: int
  mg_spool :: Spool
  mg_reporter :: reporter_pc
  mg_tx :: tx_pc
  mg_acquirers :: "acquire_pc list"
  mg_leases :: "Lease list"
  mg_handover :: "(reportBatch \<times> bool) list"
  mg_waiters :: "async_pc list"
  mg_checks :: "check_pc list"

abbreviation graph :: "Manager \<Rightarrow> nat \<Rightarrow> Graph" where
  "graph s g \<equiv> mg_graphs s ! g"

abbreviation activation :: "Manager \<Rightarrow> nat \<Rightarrow> graphActivation" where
  "activation s g \<equiv> gr_activation (graph s g)"

definition set_activation :: "Manager \<Rightarrow> nat \<Rightarrow> graphActivation \<Rightarrow> Manager" where
  "set_activation s g a = s\<lparr>mg_graphs := (mg_graphs s)[g := (graph s g)\<lparr>gr_activation := a\<rparr>]\<rparr>"

text \<open>What a step gets from outside: factories, the answers of components, \<open>ctx.Err\<close>, the clock, and whether a deadline passed.\<close>

record Env =
  ev_prepare :: "Factory \<Rightarrow> BuildInput \<Rightarrow> Prepared"
  ev_ok :: answers
  ev_ctx :: "ctx_err option"
  ev_now :: gotime
  ev_timeout :: bool

subsection \<open>Acquire\<close>

fun acquire_step :: "Manager \<Rightarrow> acquire_pc \<Rightarrow> (Manager \<times> acquire_pc) option" where
  "acquire_step s A_Top = Some (s, if mg_closed s then A_Failed GraphClosed else A_Open)"
| "acquire_step s A_Open = Some (s, case mg_active s of None \<Rightarrow> A_Failed GraphClosed | Some g \<Rightarrow> A_Loaded g)"
| "acquire_step s (A_Loaded g) =
     (case graph_acquire (activation s g) of
        (a, AcquireHeld) \<Rightarrow> Some (set_activation s g a, A_Held g)
      | (a, AcquireRetired) \<Rightarrow> Some (s, A_Missed g)
      | (a, AcquireWaits) \<Rightarrow> None)"
| "acquire_step s (A_Held g) = Some (s, A_Checked g (mg_active s = Some g))"
| "acquire_step s (A_Checked g same) =
     (if same \<and> \<not> mg_closed s then Some (s\<lparr>mg_leases := mg_leases s @ [\<lparr>le_graph = g, le_state = LeaseLive\<rparr>]\<rparr>, A_Leased g)
      else Some (set_activation s g (graph_release (activation s g)), A_Undone))"
| "acquire_step s A_Undone = Some (s, if mg_closed s then A_Failed GraphClosed else A_Top)"
| "acquire_step s (A_Missed g) = Some (s, if mg_closed s then A_Failed GraphClosed else A_Missed_open g)"
| "acquire_step s (A_Missed_open g) = Some (s, if mg_active s = Some g then A_Failed GraphInitialization else A_Top)"
| "acquire_step s (A_Leased g) = None"
| "acquire_step s (A_Failed e) = None"

text \<open>\<open>Lease.Component\<close>: the components of the generation, while the lease is live.\<close>

definition Lease_Component :: "Manager \<Rightarrow> Lease \<Rightarrow> string \<Rightarrow> Component option" where
  "Lease_Component s l name =
     (if le_state l \<noteq> LeaseLive then None
      else case map_of (gr_byName (graph s (le_graph l))) name of
        None \<Rightarrow> None
      | Some a \<Rightarrow> let e = entry (mg_heap s) a in
          if \<not> ce_available e \<or> ce_closed e then None else Some (ce_component e))"

subsection \<open>Reload and Close\<close>

definition generation_of :: "Manager \<Rightarrow> nat option \<Rightarrow> 64 word" where
  "generation_of s g = (case g of None \<Rightarrow> 0 | Some g \<Rightarrow> gr_generation (graph s g))"

definition addRejected :: "Manager \<Rightarrow> gotime \<Rightarrow> reportBatch \<Rightarrow> nat \<Rightarrow> GraphError \<Rightarrow> string \<Rightarrow> reportBatch" where
  "addRejected s now batch g err component =
     (let code = (if ge_code err = GraphRestartRequired then ReportRestartRequired
                  else if ge_code err = GraphInitialization then ReportInitializationFail
                  else ReportValidationRejected);
          generation = generation_of s (Some g)
      in addCompliance (addHealth batch (Some g) generation now code ''rejected'' (ge_fieldPath err) component)
           (Some g) generation now code ''rejected'' (ge_fieldPath err) component)"

definition rejected :: "nat option \<Rightarrow> GraphError \<Rightarrow> tx_result" where
  "rejected active err = ReloadDone \<lparr>rr_active = active, rr_status = ReloadRejected\<rparr> (Some err)"

definition reload_checks :: "Env \<Rightarrow> Manager \<Rightarrow> GraphConfig \<Rightarrow> tx_pc" where
  "reload_checks ev s candidate =
     (if mg_closed s then T_Finish (rejected (mg_active s) (graph_error GraphClosed)) empty_batch
      else case mg_active s of
        None \<Rightarrow> T_Finish (rejected None (graph_error GraphInvalidDependency)) empty_batch
      | Some old \<Rightarrow>
          (case validateConfig candidate of
             Some err \<Rightarrow> T_Finish (rejected (Some old) err) (addRejected s (ev_now ev) empty_batch old err [])
           | None \<Rightarrow>
               let field = restartRequiredField (gr_config (graph s old)) candidate in
               if field \<noteq> [] then
                 let err = (graph_error GraphRestartRequired)\<lparr>ge_fieldPath := field\<rparr>
                 in T_Finish (rejected (Some old) err) (addRejected s (ev_now ev) empty_batch old err [])
               else case ev_ctx ev of
                 Some cause \<Rightarrow>
                   let err = initialization_error [] (Some cause)
                   in T_Finish (rejected (Some old) err) (addRejected s (ev_now ev) empty_batch old err [])
               | None \<Rightarrow> T_Build candidate old (mg_factories s) [] empty_batch))"

text \<open>The two reports of a failed teardown.\<close>

definition drain_reports :: "Manager \<Rightarrow> gotime \<Rightarrow> reportBatch \<Rightarrow> nat option \<Rightarrow> string \<Rightarrow> reportBatch" where
  "drain_reports s now batch g component =
     (let generation = generation_of s g
      in addCompliance (addHealth batch g generation now ReportDrainFailed ''failed'' [] component)
           g generation now ReportDrainFailed ''failed'' [] component)"

text \<open>The end of \<open>Reload\<close> and of \<open>Close\<close>, given the result of \<open>retire\<close>.\<close>

definition retired_pc :: "Env \<Rightarrow> Manager \<Rightarrow> retire_cause \<Rightarrow> nat \<Rightarrow> reportBatch \<Rightarrow> cleanupResult \<Rightarrow> tx_pc" where
  "retired_pc ev s cause old reports cleanup =
     (case cause of
        ByReload new \<Rightarrow>
          let reports1 = (if cu_failed cleanup then drain_reports s (ev_now ev) reports (Some new) (cu_componentName cleanup) else reports);
              reports2 = addCompliance reports1 (Some new) (generation_of s (Some new)) (ev_now ev) ReportReloadApplied ''applied'' [] []
          in T_Finish (ReloadDone \<lparr>rr_active = Some new,
               rr_status = (if cu_failed cleanup then ReloadAppliedDegraded else ReloadApplied)\<rparr> None) reports2
      | ByClose \<Rightarrow>
          if cu_failed cleanup then
            T_Finish (CloseDone (Some ((graph_error GraphShutdown)\<lparr>ge_componentName := cu_componentName cleanup\<rparr>)))
              (drain_reports s (ev_now ev) reports (Some old) (cu_componentName cleanup))
          else T_Finish (CloseDone None) reports)"

definition inflight_users :: cleanupResult where
  "inflight_users = \<lparr>cu_failed = True, cu_componentName = ''inflight-users''\<rparr>"

text \<open>One section of the transaction; \<open>None\<close> where it waits.\<close>

fun tx_step :: "Env \<Rightarrow> Manager \<Rightarrow> tx_pc \<Rightarrow> Manager option" where
  "tx_step ev s T_Idle = None"
| "tx_step ev s (T_Reload candidate) = Some (s\<lparr>mg_tx := reload_checks ev s candidate\<rparr>)"
| "tx_step ev s (T_Build candidate old [] entries reports) =
     Some (s\<lparr>mg_tx := (case ev_ctx ev of
       Some cause \<Rightarrow> T_Abandon [] (Some cause) old entries reports
     | None \<Rightarrow> T_Publish candidate old entries reports)\<rparr>)"
| "tx_step ev s (T_Build candidate old (factory # factories) entries reports) =
     (case build_factory (ev_prepare ev) candidate (gr_generation (graph s old) + 1) (Some (gr_config (graph s old))) factory
             (mg_heap s, entries) of
        ((hp, entries'), stop) \<Rightarrow> Some (s\<lparr>mg_heap := hp, mg_tx := (case stop of
            None \<Rightarrow> T_Build candidate old factories entries' reports
          | Some cause \<Rightarrow> T_Abandon (fa_Name factory) cause old entries' reports)\<rparr>))"
| "tx_step ev s (T_Abandon name cause old entries reports) =
     (let b = abandon_build (ev_ok ev) (Some (old, gr_generation (graph s old))) (ev_now ev) entries
                \<lparr>bs_heap = mg_heap s, bs_pending = mg_pending s, bs_reports = reports\<rparr>;
          err = initialization_error name cause
      in Some (s\<lparr>mg_heap := bs_heap b, mg_pending := bs_pending b,
           mg_tx := T_Finish (rejected (Some old) err) (addRejected s (ev_now ev) (bs_reports b) old err name)\<rparr>))"
| "tx_step ev s (T_Publish candidate old entries reports) =
     (let new = length (mg_graphs s);
          g = new_graph (mg_heap s) candidate (gr_generation (graph s old) + 1) entries;
          reports1 = (if mg_active s \<noteq> Some old
            then addHealth reports (Some new) (gr_generation g) (ev_now ev) ReportDrainFailed ''failed'' [] [] else reports)
      in Some (s\<lparr>mg_graphs := mg_graphs s @ [g], mg_active := Some new, mg_tx := T_Activate new old reports1\<rparr>))"
| "tx_step ev s (T_Activate new old reports) =
     Some (s\<lparr>mg_heap := activate_entries (gr_components (graph s new)) (mg_heap s), mg_tx := T_Ready new old reports\<rparr>)"
| "tx_step ev s (T_Ready new old reports) =
     Some ((set_activation s new (finishActivation (activation s new)))\<lparr>mg_tx := T_Retire (ByReload new) old reports\<rparr>)"
| "tx_step ev s T_Close =
     Some (if mg_closed s then s\<lparr>mg_tx := T_Finish (CloseDone None) empty_batch\<rparr>
           else s\<lparr>mg_closed := True, mg_tx := T_Detach\<rparr>)"
| "tx_step ev s T_Detach =
     Some (s\<lparr>mg_active := None, mg_tx := (case mg_active s of
       None \<Rightarrow> T_Finish (CloseDone None) empty_batch
     | Some g \<Rightarrow> T_Retire ByClose g empty_batch)\<rparr>)"
| "tx_step ev s (T_Retire cause old reports) =
     Some ((set_activation s old (beginRetirement (activation s old)))\<lparr>mg_tx := T_Wait cause old reports\<rparr>)"
| "tx_step ev s (T_Wait cause old reports) =
     (if ev_timeout ev then
        Some (s\<lparr>mg_async := mg_async s + 1,
          mg_waiters := mg_waiters s @ [Y_Wait old (case cause of ByReload new \<Rightarrow> new | ByClose \<Rightarrow> old)],
          mg_tx := retired_pc ev s cause old reports inflight_users\<rparr>)
      else if ga_signalled (activation s old) then
        (case teardownEntries (ev_ok ev) (mg_heap s) (gr_components (graph s old)) of (hp, cleanup, calls) \<Rightarrow>
           Some (s\<lparr>mg_heap := hp,
             mg_pending := (if cu_failed cleanup then scheduleCleanupRetry hp (mg_pending s) (gr_components (graph s old)) else mg_pending s),
             mg_tx := retired_pc ev s cause old reports cleanup\<rparr>))
      else None)"
| "tx_step ev s (T_Finish result reports) =
     (case sequenceReports (mg_spool s) reports of (sp, batch) \<Rightarrow>
        Some (s\<lparr>mg_spool := sp, mg_tx := T_Idle,
          mg_handover := mg_handover s @ [(batch, case result of CloseDone _ \<Rightarrow> True | _ \<Rightarrow> False)]\<rparr>))"

subsection \<open>The other goroutines\<close>

text \<open>\<open>cleanupAfterQuiescence\<close>.\<close>

fun async_step :: "Env \<Rightarrow> Manager \<Rightarrow> async_pc \<Rightarrow> (Manager \<times> async_pc) option" where
  "async_step ev s (Y_Wait g rg) =
     (if ga_signalled (activation s g) then
        (case teardownEntries (ev_ok ev) (mg_heap s) (gr_components (graph s g)) of (hp, cleanup, calls) \<Rightarrow>
           Some (s\<lparr>mg_heap := hp\<rparr>, if cu_failed cleanup then Y_Report g rg (cu_componentName cleanup) else Y_End))
      else None)"
| "async_step ev s (Y_Report g rg component) =
     (let active = (case mg_active s of None \<Rightarrow> rg | Some a \<Rightarrow> a)
      in case sequenceReports (mg_spool s) (drain_reports s (ev_now ev) empty_batch (Some active) component) of
           (sp, batch) \<Rightarrow> Some (s\<lparr>mg_spool := sp\<rparr>, Y_Dispatch g batch))"
| "async_step ev s (Y_Dispatch g batch) =
     (case dispatchReports (mg_spool s) batch of (sp, result) \<Rightarrow>
        Some (s\<lparr>mg_spool := sp, mg_checks := mg_checks s @ (if result = DispatchAccepted then [C_Closed] else [])\<rparr>, Y_Schedule g))"
| "async_step ev s (Y_Schedule g) =
     Some (s\<lparr>mg_pending := scheduleCleanupRetry (mg_heap s) (mg_pending s) (gr_components (graph s g))\<rparr>, Y_End)"
| "async_step ev s Y_End = Some (s\<lparr>mg_async := mg_async s - 1, mg_checks := mg_checks s @ [C_Closed]\<rparr>, Y_Done)"
| "async_step ev s Y_Done = None"

text \<open>\<open>maybeCloseReporter\<close>: \<open>closed\<close> and \<open>asyncCleanup\<close>, then the pending batches, then the two counters, then the request.\<close>

fun check_step :: "Manager \<Rightarrow> check_pc \<Rightarrow> (Manager \<times> check_pc) option" where
  "check_step s C_Closed = Some (s, if \<not> mg_closed s \<or> mg_async s \<noteq> 0 then C_Done else C_Pending)"
| "check_step s C_Pending = Some (s, if mg_pending s = [] then C_Compare else C_Done)"
| "check_step s C_Compare = Some (s, if sp_accepted (mg_spool s) = sp_seq (mg_spool s) then C_Request else C_Done)"
| "check_step s C_Request = Some (s\<lparr>mg_spool := requestReporterClose (mg_spool s)\<rparr>, C_Done)"
| "check_step s C_Done = None"

text \<open>An iteration of \<open>retryCleanup\<close> on the batch at position \<open>i\<close>.\<close>

definition retryCleanup_step :: "Env \<Rightarrow> Manager \<Rightarrow> nat \<Rightarrow> Manager" where
  "retryCleanup_step ev s i =
     (case teardownEntries (ev_ok ev) (mg_heap s) (mg_pending s ! i) of (hp, cleanup, calls) \<Rightarrow>
      if cu_failed cleanup then s\<lparr>mg_heap := hp\<rparr>
      else s\<lparr>mg_heap := hp, mg_pending := take i (mg_pending s) @ drop (Suc i) (mg_pending s),
             mg_checks := mg_checks s @ [C_Closed]\<rparr>)"

text \<open>The handover of a batch at the end of a transaction; \<open>Close\<close> checks once more.\<close>

definition handover_step :: "Manager \<Rightarrow> nat \<Rightarrow> Manager" where
  "handover_step s i =
     (case mg_handover s ! i of (batch, closing) \<Rightarrow>
      case dispatchReports (mg_spool s) batch of (sp, result) \<Rightarrow>
        s\<lparr>mg_spool := sp, mg_handover := take i (mg_handover s) @ drop (Suc i) (mg_handover s),
          mg_checks := mg_checks s @ (if result = DispatchAccepted then [C_Closed] else []) @ (if closing then [C_Closed] else [])\<rparr>)"

fun reporter_step :: "bool \<Rightarrow> Spool \<Rightarrow> reporter_pc \<Rightarrow> (Spool \<times> reporter_pc) option" where
  "reporter_step good sp R_NotStarted = None"
| "reporter_step good sp (R_Top expected) = Some (deliverReports_top sp expected)"
| "reporter_step good sp (R_Deliver expected batch i) = Some (deliverReportBatch_step sp expected batch i good)"
| "reporter_step good sp (R_Retry expected batch i) = Some (sp, R_Deliver expected batch i)"
| "reporter_step good sp (R_Wait expected seen) = (if sp_wake sp \<noteq> seen then Some (sp, R_Top expected) else None)"
| "reporter_step good sp R_Stopped = None"

inductive mstep :: "Manager \<Rightarrow> Manager \<Rightarrow> bool" where
  m_acquire_begin: "mstep s (s\<lparr>mg_acquirers := mg_acquirers s @ [A_Top]\<rparr>)"
| m_acquire: "i < length (mg_acquirers s) \<Longrightarrow> acquire_step s (mg_acquirers s ! i) = Some (s', pc) \<Longrightarrow>
    mstep s (s'\<lparr>mg_acquirers := (mg_acquirers s)[i := pc]\<rparr>)"
| m_acquire_cancelled: "i < length (mg_acquirers s) \<Longrightarrow> mg_acquirers s ! i = A_Loaded g \<Longrightarrow>
    graph_acquire (activation s g) = (a, AcquireWaits) \<Longrightarrow>
    mstep s (s\<lparr>mg_acquirers := (mg_acquirers s)[i := A_Failed GraphInitialization]\<rparr>)"
| m_release_begin: "i < length (mg_leases s) \<Longrightarrow> mg_leases s ! i = l \<Longrightarrow> le_state l = LeaseLive \<Longrightarrow>
    mstep s (s\<lparr>mg_leases := (mg_leases s)[i := l\<lparr>le_state := LeaseReleasing\<rparr>]\<rparr>)"
| m_release: "i < length (mg_leases s) \<Longrightarrow> mg_leases s ! i = l \<Longrightarrow> le_state l = LeaseReleasing \<Longrightarrow>
    mstep s ((set_activation s (le_graph l) (graph_release (activation s (le_graph l))))
      \<lparr>mg_leases := (mg_leases s)[i := l\<lparr>le_state := LeaseReleased\<rparr>]\<rparr>)"
| m_fork: "i < length (mg_leases s) \<Longrightarrow> mg_leases s ! i = l \<Longrightarrow> le_state l = LeaseLive \<Longrightarrow>
    graph_fork (activation s (le_graph l)) = (a, True) \<Longrightarrow>
    mstep s ((set_activation s (le_graph l) a)\<lparr>mg_leases := mg_leases s @ [\<lparr>le_graph = le_graph l, le_state = LeaseLive\<rparr>]\<rparr>)"
| m_reload: "mg_tx s = T_Idle \<Longrightarrow> mstep s (s\<lparr>mg_tx := T_Reload candidate\<rparr>)"
| m_close: "mg_tx s = T_Idle \<Longrightarrow> mstep s (s\<lparr>mg_tx := T_Close\<rparr>)"
| m_tx: "tx_step ev s (mg_tx s) = Some s' \<Longrightarrow> mstep s s'"
| m_async: "i < length (mg_waiters s) \<Longrightarrow> async_step ev s (mg_waiters s ! i) = Some (s', pc) \<Longrightarrow>
    mstep s (s'\<lparr>mg_waiters := (mg_waiters s)[i := pc]\<rparr>)"
| m_retry: "i < length (mg_pending s) \<Longrightarrow> mstep s (retryCleanup_step ev s i)"
| m_handover: "i < length (mg_handover s) \<Longrightarrow> mstep s (handover_step s i)"
| m_check: "i < length (mg_checks s) \<Longrightarrow> check_step s (mg_checks s ! i) = Some (s', pc) \<Longrightarrow>
    mstep s (s'\<lparr>mg_checks := (mg_checks s)[i := pc]\<rparr>)"
| m_reporter: "reporter_step good (mg_spool s) (mg_reporter s) = Some (sp, pc) \<Longrightarrow>
    mstep s (s\<lparr>mg_spool := sp, mg_reporter := pc\<rparr>)"

subsection \<open>The lifecycle invariant\<close>

definition cnt :: "('a \<Rightarrow> bool) \<Rightarrow> 'a list \<Rightarrow> int" where
  "cnt P xs = int (length (filter P xs))"

lemma cnt_simps [simp]: "cnt P [] = 0" "cnt P (xs @ ys) = cnt P xs + cnt P ys" "cnt P (x # xs) = of_bool (P x) + cnt P xs"
  by (simp_all add: cnt_def)

lemma cnt_update: "i < length xs \<Longrightarrow> cnt P (xs[i := x]) = cnt P xs - of_bool (P (xs ! i)) + of_bool (P x)"
proof -
  assume i: "i < length xs"
  have "cnt P xs = cnt P (take i xs) + of_bool (P (xs ! i)) + cnt P (drop (Suc i) xs)"
    using i by (subst id_take_nth_drop [OF i]) simp
  moreover have "cnt P (xs[i := x]) = cnt P (take i xs) + of_bool (P x) + cnt P (drop (Suc i) xs)"
    using i by (simp add: upd_conv_take_nth_drop)
  ultimately show ?thesis by simp
qed

lemma cnt_pos: "x \<in> set xs \<Longrightarrow> P x \<Longrightarrow> 0 < cnt P xs"
  by (auto simp: cnt_def filter_empty_conv)

lemma cnt_nonneg [simp]: "0 \<le> cnt P xs"
  by (simp add: cnt_def)

fun acquirer_graph :: "acquire_pc \<Rightarrow> nat option" where
  "acquirer_graph (A_Loaded g) = Some g"
| "acquirer_graph (A_Held g) = Some g"
| "acquirer_graph (A_Checked g same) = Some g"
| "acquirer_graph (A_Missed g) = Some g"
| "acquirer_graph (A_Missed_open g) = Some g"
| "acquirer_graph pc = None"

fun holds :: "nat \<Rightarrow> acquire_pc \<Rightarrow> bool" where
  "holds g (A_Held h) = (g = h)"
| "holds g (A_Checked h same) = (g = h)"
| "holds g pc = False"

definition lease_on :: "nat \<Rightarrow> Lease \<Rightarrow> bool" where
  "lease_on g l \<longleftrightarrow> le_graph l = g \<and> le_state l \<noteq> LeaseReleased"

text \<open>The goroutines that a graph has to wait for.\<close>

definition holders :: "Manager \<Rightarrow> nat \<Rightarrow> int" where
  "holders s g = cnt (holds g) (mg_acquirers s) + cnt (lease_on g) (mg_leases s)"

abbreviation drained :: "Manager \<Rightarrow> nat \<Rightarrow> bool" where
  "drained s g \<equiv> rd.drained (activation s g)"

definition users_ok :: "Manager \<Rightarrow> bool" where
  "users_ok s \<longleftrightarrow> (\<forall>g < length (mg_graphs s). rd.signal_ok (activation s g) \<and> ga_users (activation s g) = holders s g \<and>
     (ga_ready (activation s g) \<or> holders s g = 0))"

fun waiter_ok :: "Manager \<Rightarrow> async_pc \<Rightarrow> bool" where
  "waiter_ok s (Y_Wait g rg) \<longleftrightarrow> g < length (mg_graphs s) \<and> ga_retired (activation s g)"
| "waiter_ok s (Y_Report g rg component) \<longleftrightarrow> g < length (mg_graphs s) \<and> drained s g"
| "waiter_ok s (Y_Dispatch g batch) \<longleftrightarrow> g < length (mg_graphs s) \<and> drained s g"
| "waiter_ok s (Y_Schedule g) \<longleftrightarrow> g < length (mg_graphs s) \<and> drained s g"
| "waiter_ok s pc \<longleftrightarrow> True"

definition refs_ok :: "Manager \<Rightarrow> bool" where
  "refs_ok s \<longleftrightarrow> (\<forall>g. mg_active s = Some g \<longrightarrow> g < length (mg_graphs s) \<and> \<not> ga_retired (activation s g)) \<and>
     (\<forall>pc \<in> set (mg_acquirers s). \<forall>g. acquirer_graph pc = Some g \<longrightarrow> g < length (mg_graphs s)) \<and>
     (\<forall>l \<in> set (mg_leases s). le_graph l < length (mg_graphs s)) \<and>
     (\<forall>w \<in> set (mg_waiters s). waiter_ok s w)"

abbreviation components :: "Manager \<Rightarrow> nat \<Rightarrow> nat list" where
  "components s g \<equiv> gr_components (graph s g)"

definition in_heap :: "Manager \<Rightarrow> nat list \<Rightarrow> bool" where
  "in_heap s entries \<longleftrightarrow> distinct entries \<and> (\<forall>a \<in> set entries. a < length (hp_entries (mg_heap s)))"

definition components_ok :: "Manager \<Rightarrow> bool" where
  "components_ok s \<longleftrightarrow> (\<forall>g < length (mg_graphs s). in_heap s (components s g)) \<and>
     (\<forall>g < length (mg_graphs s). \<forall>h < length (mg_graphs s). g \<noteq> h \<longrightarrow> set (components s g) \<inter> set (components s h) = {}) \<and>
     (\<forall>g < length (mg_graphs s). \<forall>name a. map_of (gr_byName (graph s g)) name = Some a \<longrightarrow> a \<in> set (components s g))"

definition pending_ok :: "Manager \<Rightarrow> bool" where
  "pending_ok s \<longleftrightarrow> (\<forall>batch \<in> set (mg_pending s). in_heap s batch \<and>
     (\<forall>a \<in> set batch. \<forall>g < length (mg_graphs s). a \<in> set (components s g) \<longrightarrow> drained s g))"

text \<open>An entry as it is before activation, and as a lease may use it.\<close>

definition prepared :: "componentEntry \<Rightarrow> bool" where
  "prepared e \<longleftrightarrow> validComponent (ce_component e) \<and> \<not> ce_stopped e \<and> \<not> ce_closed e"

definition usable :: "componentEntry \<Rightarrow> bool" where
  "usable e \<longleftrightarrow> prepared e \<and> ce_started e \<and> ce_available e"

definition entries_ok :: "Manager \<Rightarrow> bool" where
  "entries_ok s \<longleftrightarrow> (\<forall>g < length (mg_graphs s). ga_ready (activation s g) \<longrightarrow> \<not> drained s g \<longrightarrow>
     (\<forall>a \<in> set (components s g). usable (entry (mg_heap s) a)))"

definition private_entries :: "Manager \<Rightarrow> nat list \<Rightarrow> bool" where
  "private_entries s entries \<longleftrightarrow> in_heap s entries \<and>
     (\<forall>g < length (mg_graphs s). set entries \<inter> set (components s g) = {}) \<and>
     (\<forall>batch \<in> set (mg_pending s). set entries \<inter> set batch = {})"

definition serving :: "Manager \<Rightarrow> nat \<Rightarrow> bool" where
  "serving s g \<longleftrightarrow> g < length (mg_graphs s) \<and> ga_ready (activation s g) \<and> \<not> ga_retired (activation s g)"

definition starting :: "Manager \<Rightarrow> nat \<Rightarrow> bool" where
  "starting s g \<longleftrightarrow> g < length (mg_graphs s) \<and> \<not> ga_ready (activation s g) \<and> \<not> ga_retired (activation s g) \<and>
     mg_active s = Some g \<and> (\<forall>batch \<in> set (mg_pending s). set (components s g) \<inter> set batch = {})"

fun tx_ok :: "Manager \<Rightarrow> tx_pc \<Rightarrow> bool" where
  "tx_ok s (T_Build candidate old factories entries reports) \<longleftrightarrow> mg_active s = Some old \<and> serving s old \<and>
     private_entries s entries \<and> (\<forall>a \<in> set entries. prepared (entry (mg_heap s) a))"
| "tx_ok s (T_Abandon name cause old entries reports) \<longleftrightarrow> mg_active s = Some old \<and> serving s old \<and> private_entries s entries"
| "tx_ok s (T_Publish candidate old entries reports) \<longleftrightarrow> mg_active s = Some old \<and> serving s old \<and>
     private_entries s entries \<and> (\<forall>a \<in> set entries. prepared (entry (mg_heap s) a))"
| "tx_ok s (T_Activate new old reports) \<longleftrightarrow> starting s new \<and> serving s old \<and>
     (\<forall>a \<in> set (components s new). prepared (entry (mg_heap s) a))"
| "tx_ok s (T_Ready new old reports) \<longleftrightarrow> starting s new \<and> serving s old \<and>
     (\<forall>a \<in> set (components s new). usable (entry (mg_heap s) a))"
| "tx_ok s (T_Retire cause old reports) \<longleftrightarrow> serving s old \<and> mg_active s \<noteq> Some old \<and>
     (case cause of ByReload new \<Rightarrow> mg_active s = Some new | ByClose \<Rightarrow> mg_active s = None)"
| "tx_ok s (T_Wait cause old reports) \<longleftrightarrow> old < length (mg_graphs s) \<and> ga_retired (activation s old) \<and>
     (case cause of ByReload new \<Rightarrow> mg_active s = Some new | ByClose \<Rightarrow> mg_active s = None)"
| "tx_ok s (T_Finish result reports) \<longleftrightarrow> (case result of ReloadDone r err \<Rightarrow> rr_active r = mg_active s | CloseDone err \<Rightarrow> True)"
| "tx_ok s pc \<longleftrightarrow> True"

fun tx_starts :: "tx_pc \<Rightarrow> nat option" where
  "tx_starts (T_Activate new old reports) = Some new"
| "tx_starts (T_Ready new old reports) = Some new"
| "tx_starts pc = None"

definition ready_ok :: "Manager \<Rightarrow> bool" where
  "ready_ok s \<longleftrightarrow> (\<forall>g < length (mg_graphs s). ga_ready (activation s g) \<or> tx_starts (mg_tx s) = Some g)"

definition minv :: "Manager \<Rightarrow> bool" where
  "minv s \<longleftrightarrow> users_ok s \<and> refs_ok s \<and> components_ok s \<and> pending_ok s \<and> entries_ok s \<and> tx_ok s (mg_tx s) \<and> ready_ok s \<and>
     heap_ok (mg_heap s)"

lemmas minv_defs = minv_def users_ok_def refs_ok_def components_ok_def pending_ok_def entries_ok_def ready_ok_def in_heap_def

lemma set_activation_simps [simp]:
  "mg_active (set_activation s g a) = mg_active s" "mg_closed (set_activation s g a) = mg_closed s"
  "mg_heap (set_activation s g a) = mg_heap s" "mg_pending (set_activation s g a) = mg_pending s"
  "mg_tx (set_activation s g a) = mg_tx s" "mg_acquirers (set_activation s g a) = mg_acquirers s"
  "mg_leases (set_activation s g a) = mg_leases s" "mg_waiters (set_activation s g a) = mg_waiters s"
  "mg_spool (set_activation s g a) = mg_spool s" "mg_reporter (set_activation s g a) = mg_reporter s"
  "mg_handover (set_activation s g a) = mg_handover s" "mg_checks (set_activation s g a) = mg_checks s"
  "mg_async (set_activation s g a) = mg_async s" "mg_factories (set_activation s g a) = mg_factories s"
  "length (mg_graphs (set_activation s g a)) = length (mg_graphs s)"
  by (simp_all add: set_activation_def)

lemma graph_set_activation [simp]:
  "g < length (mg_graphs s) \<Longrightarrow> graph (set_activation s g a) h = (if h = g then (graph s g)\<lparr>gr_activation := a\<rparr> else graph s h)"
  by (simp add: set_activation_def)

text \<open>
  A change of one activation that keeps \<open>retired\<close> and \<open>ready\<close>, does not undo quiescence, and agrees with the new acquirers and leases.
\<close>

lemma tx_ok_cong:
  assumes "mg_graphs s' = mg_graphs s" "mg_active s' = mg_active s" "mg_heap s' = mg_heap s" "mg_pending s' = mg_pending s"
  shows "tx_ok s' pc = tx_ok s pc"
  using assms
  by (cases pc) (simp_all add: serving_def starting_def private_entries_def in_heap_def split: retire_cause.splits tx_result.splits)

lemma waiter_ok_cong: "mg_graphs s' = mg_graphs s \<Longrightarrow> waiter_ok s' w = waiter_ok s w"
  by (cases w) simp_all

lemma minv_activation:
  assumes inv: "minv s" and g: "g < length (mg_graphs s)"
    and a: "rd.signal_ok a" "ga_retired a = ga_retired (activation s g)" "ga_ready a = ga_ready (activation s g)"
      "drained s g \<Longrightarrow> rd.drained a"
    and s': "s' = (set_activation s g a)\<lparr>mg_acquirers := acquirers, mg_leases := leases\<rparr>"
    and users: "ga_users a = holders s' g" "ga_ready a \<or> ga_users a = 0" "\<And>h. h \<noteq> g \<Longrightarrow> holders s' h = holders s h"
    and refs: "\<forall>pc \<in> set acquirers. \<forall>g. acquirer_graph pc = Some g \<longrightarrow> g < length (mg_graphs s)"
      "\<forall>l \<in> set leases. le_graph l < length (mg_graphs s)"
  shows "minv s'"
proof -
  have act: "activation s' h = (if h = g then a else activation s h)" for h using g by (simp add: s')
  have comp: "components s' h = components s h" for h using g by (simp add: s')
  have names: "gr_byName (graph s' h) = gr_byName (graph s h)" for h using g by (simp add: s')
  have same: "length (mg_graphs s') = length (mg_graphs s)" "mg_active s' = mg_active s" "mg_heap s' = mg_heap s"
    "mg_pending s' = mg_pending s" "mg_tx s' = mg_tx s" "mg_waiters s' = mg_waiters s" "mg_acquirers s' = acquirers" "mg_leases s' = leases"
    by (simp_all add: s')
  have dr: "drained s h \<Longrightarrow> drained s' h" for h using a(4) by (auto simp: act)
  have "users_ok s'" using inv a(1) users by (auto simp: minv_def users_ok_def act same)
  moreover have "waiter_ok s w \<Longrightarrow> waiter_ok s' w" for w using dr a(2) by (cases w) (auto simp: act same)
  then have "refs_ok s'" using inv refs a(2) by (auto simp: minv_def refs_ok_def act same)
  moreover have "components_ok s'" using inv by (auto simp: minv_def components_ok_def in_heap_def comp names same)
  moreover have "pending_ok s'" using inv dr by (simp add: minv_def pending_ok_def in_heap_def comp same)
  moreover have "entries_ok s'"
    unfolding entries_ok_def
  proof (intro allI impI ballI)
    fix h x
    assume "h < length (mg_graphs s')" "ga_ready (activation s' h)" "\<not> drained s' h" "x \<in> set (components s' h)"
    then have "h < length (mg_graphs s)" "ga_ready (activation s h)" "\<not> drained s h" "x \<in> set (components s h)"
      using dr [of h] a(3) by (auto simp: act comp same split: if_splits)
    then show "usable (entry (mg_heap s') x)" using inv by (simp add: minv_def entries_ok_def same)
  qed
  moreover have "ready_ok s'" using inv a(3) by (auto simp: minv_def ready_ok_def act same)
  moreover have "tx_ok s' pc = tx_ok s pc" for pc
    using a(2,3) by (cases pc) (auto simp: act comp same serving_def starting_def private_entries_def in_heap_def split: retire_cause.splits tx_result.splits)
  ultimately show ?thesis using inv by (simp add: minv_def same)
qed

lemma signal_ok_users: "minv s \<Longrightarrow> g < length (mg_graphs s) \<Longrightarrow> rd.signal_ok (activation s g) \<and> ga_users (activation s g) = holders s g"
  by (simp add: minv_def users_ok_def)

lemma enter_held: "graph_acquire a = (a', AcquireHeld) \<Longrightarrow> enter_activation a = (a', True)"
  by (simp add: enter_activation_def)

lemma graph_release_flags [simp]:
  "ga_ready (graph_release a) = ga_ready a" "ga_retired (graph_release a) = ga_retired a"
  by (simp_all add: graph_release_def Let_def)

text \<open>Steps that only move an acquirer between points where it holds nothing.\<close>

lemma minv_acquirer:
  assumes "minv s" "i < length (mg_acquirers s)" "\<And>g. holds g pc = holds g (mg_acquirers s ! i)"
    "\<And>g. acquirer_graph pc = Some g \<Longrightarrow> g < length (mg_graphs s)"
  shows "minv (s\<lparr>mg_acquirers := (mg_acquirers s)[i := pc]\<rparr>)"
proof -
  let ?s = "s\<lparr>mg_acquirers := (mg_acquirers s)[i := pc]\<rparr>"
  have h: "holders ?s g = holders s g" for g using assms(2,3) by (simp add: holders_def cnt_update)
  have "waiter_ok ?s w = waiter_ok s w" for w by (rule waiter_ok_cong) simp
  moreover have "tx_ok ?s t = tx_ok s t" for t by (rule tx_ok_cong) simp_all
  moreover have "\<forall>p \<in> set ((mg_acquirers s)[i := pc]). \<forall>g. acquirer_graph p = Some g \<longrightarrow> g < length (mg_graphs s)"
    using assms(1,4) by (auto simp: minv_def refs_ok_def dest: set_update_subset_insert [THEN subsetD])
  ultimately have "refs_ok ?s" "tx_ok ?s (mg_tx ?s)" using assms(1) by (simp_all add: minv_def refs_ok_def)
  moreover have "users_ok ?s = users_ok s" by (simp add: users_ok_def h)
  ultimately show ?thesis
    using assms(1) by (simp add: minv_def components_ok_def pending_ok_def entries_ok_def ready_ok_def in_heap_def)
qed

lemma minv_acquire:
  assumes inv: "minv s" and i: "i < length (mg_acquirers s)" and step: "acquire_step s (mg_acquirers s ! i) = Some (s', pc)"
  shows "minv (s'\<lparr>mg_acquirers := (mg_acquirers s)[i := pc]\<rparr>)"
proof -
  let ?p = "mg_acquirers s ! i"
  have mem: "?p \<in> set (mg_acquirers s)" using i by simp
  then have ref: "acquirer_graph ?p = Some g \<Longrightarrow> g < length (mg_graphs s)" for g
    using inv by (auto simp: minv_def refs_ok_def)
  have acq: "\<forall>q \<in> set ((mg_acquirers s)[i := pc']). \<forall>g. acquirer_graph q = Some g \<longrightarrow> g < length (mg_graphs s)"
    if "\<And>g. acquirer_graph pc' = Some g \<Longrightarrow> g < length (mg_graphs s)" for pc'
    using that inv by (auto simp: minv_def refs_ok_def dest: set_update_subset_insert [THEN subsetD])
  have leases: "\<forall>l \<in> set (mg_leases s). le_graph l < length (mg_graphs s)" using inv by (simp add: minv_def refs_ok_def)
  have active: "mg_active s = Some g \<Longrightarrow> g < length (mg_graphs s)" for g using inv by (simp add: minv_def refs_ok_def)
  show ?thesis
  proof (cases ?p)
    case (A_Loaded g)
    then have g: "g < length (mg_graphs s)" using ref by simp
    obtain a r where r: "graph_acquire (activation s g) = (a, r)" by fastforce
    show ?thesis
    proof (cases r)
      case AcquireHeld
      then have e: "enter_activation (activation s g) = (a, True)" using r enter_held by simp
      have a: "a = (activation s g)\<lparr>ga_users := ga_users (activation s g) + 1\<rparr>" "ga_ready (activation s g)" "\<not> ga_retired (activation s g)"
        using r AcquireHeld by (auto simp: graph_acquire_def split: if_splits)
      have s': "s' = set_activation s g a" "pc = A_Held g" using step A_Loaded r AcquireHeld by auto
      show ?thesis unfolding s'
      proof (rule minv_activation [OF inv g, where a = a])
        show "rd.signal_ok a" using rd.signal_ok_enter [OF _ e] signal_ok_users [OF inv g] by simp
        show "rd.drained a" if "drained s g" using that a(3) by (simp add: rd.drained_def)
        show "set_activation s g a\<lparr>mg_acquirers := (mg_acquirers s)[i := A_Held g]\<rparr> =
            set_activation s g a\<lparr>mg_acquirers := (mg_acquirers s)[i := A_Held g], mg_leases := mg_leases s\<rparr>" by simp
        show "ga_users a = holders (set_activation s g a\<lparr>mg_acquirers := (mg_acquirers s)[i := A_Held g]\<rparr>) g"
          using signal_ok_users [OF inv g] i A_Loaded by (simp add: a(1) holders_def cnt_update)
        show "holders (set_activation s g a\<lparr>mg_acquirers := (mg_acquirers s)[i := A_Held g]\<rparr>) h = holders s h" if "h \<noteq> g" for h
          using i A_Loaded that by (simp add: holders_def cnt_update)
      qed (use a acq [of "A_Held g"] g leases in simp_all)
    next
      case AcquireRetired
      then show ?thesis using step A_Loaded r g i minv_acquirer [OF inv i, of "A_Missed g"] by auto
    next
      case AcquireWaits
      then show ?thesis using step A_Loaded r by simp
    qed
  next
    case (A_Checked g same)
    then have g: "g < length (mg_graphs s)" using ref by simp
    show ?thesis
    proof (cases "same \<and> \<not> mg_closed s")
      case True
      let ?l = "mg_leases s @ [\<lparr>le_graph = g, le_state = LeaseLive\<rparr>]"
      have s': "s' = s\<lparr>mg_leases := ?l\<rparr>" "pc = A_Leased g" using step A_Checked True by auto
      have eq: "s'\<lparr>mg_acquirers := (mg_acquirers s)[i := pc]\<rparr> =
          (set_activation s g (activation s g))\<lparr>mg_acquirers := (mg_acquirers s)[i := A_Leased g], mg_leases := ?l\<rparr>"
        by (simp add: s' set_activation_def)
      have h: "holders (s'\<lparr>mg_acquirers := (mg_acquirers s)[i := pc]\<rparr>) k = holders s k" for k
        using i A_Checked by (simp add: s' holders_def cnt_update lease_on_def)
      show ?thesis
        by (rule minv_activation [OF inv g _ _ _ _ eq])
          (use signal_ok_users [OF inv g] inv g acq [of "A_Leased g"] leases h in \<open>auto simp: minv_def users_ok_def\<close>)
    next
      case False
      let ?a = "graph_release (activation s g)"
      have s': "s' = set_activation s g ?a" "pc = A_Undone" using step A_Checked False by (auto split: if_splits)
      have pos: "0 < ga_users (activation s g)"
        using signal_ok_users [OF inv g] cnt_pos [OF mem, of "holds g"] cnt_nonneg [of "lease_on g" "mg_leases s"] A_Checked
        by (simp add: holders_def del: cnt_nonneg)
      have eq: "s'\<lparr>mg_acquirers := (mg_acquirers s)[i := pc]\<rparr> =
          (set_activation s g ?a)\<lparr>mg_acquirers := (mg_acquirers s)[i := A_Undone], mg_leases := mg_leases s\<rparr>"
        by (simp add: s')
      have h: "holders (s'\<lparr>mg_acquirers := (mg_acquirers s)[i := pc]\<rparr>) k = holders s k - of_bool (k = g)" for k
        using i A_Checked by (simp add: s' holders_def cnt_update)
      have ready: "ga_ready (activation s g)" using inv g pos by (auto simp: minv_def users_ok_def)
      show ?thesis
        by (rule minv_activation [OF inv g _ _ _ _ eq])
          (use signal_ok_users [OF inv g] ready rd.signal_ok_leave rd.leave_users [OF pos] acq [of A_Undone] leases h
             rd.drained_stable(3) [of "activation s g"] in simp_all)
    qed
  qed (use step inv i ref active in \<open>auto intro!: minv_acquirer split: option.splits if_splits\<close>)
qed

lemma minv_cong:
  assumes "minv s" and "mg_graphs s' = mg_graphs s" "mg_active s' = mg_active s" "mg_heap s' = mg_heap s" "mg_pending s' = mg_pending s"
    "mg_tx s' = mg_tx s" "mg_acquirers s' = mg_acquirers s" "mg_leases s' = mg_leases s" "mg_waiters s' = mg_waiters s"
  shows "minv s'"
proof -
  have "holders s' g = holders s g" for g using assms by (simp add: holders_def)
  moreover have "waiter_ok s' w = waiter_ok s w" for w using assms(2) by (rule waiter_ok_cong)
  moreover have "tx_ok s' pc = tx_ok s pc" for pc using assms(2-5) by (rule tx_ok_cong)
  ultimately show ?thesis using assms by (simp add: minv_defs)
qed

lemma lease_mem: "minv s \<Longrightarrow> i < length (mg_leases s) \<Longrightarrow> le_graph (mg_leases s ! i) < length (mg_graphs s)"
  by (simp add: minv_def refs_ok_def)

lemma lease_holds:
  assumes "minv s" "i < length (mg_leases s)" "le_state (mg_leases s ! i) \<noteq> LeaseReleased"
  shows "0 < ga_users (activation s (le_graph (mg_leases s ! i)))"
proof -
  let ?g = "le_graph (mg_leases s ! i)"
  have "0 < cnt (lease_on ?g) (mg_leases s)"
    using assms(2,3) by (intro cnt_pos [of "mg_leases s ! i"]) (simp_all add: lease_on_def)
  moreover have "ga_users (activation s ?g) = holders s ?g" using signal_ok_users [OF assms(1) lease_mem [OF assms(1,2)]] by simp
  ultimately show ?thesis using cnt_nonneg [of "holds ?g" "mg_acquirers s"] by (simp add: holders_def del: cnt_nonneg)
qed

lemma lease_refs:
  assumes "minv s" "i < length (mg_leases s)" "le_graph l = le_graph (mg_leases s ! i)"
  shows "\<forall>l' \<in> set ((mg_leases s)[i := l]). le_graph l' < length (mg_graphs s)"
  using assms lease_mem [OF assms(1,2)]
  by (auto simp: minv_def refs_ok_def dest!: set_update_subset_insert [THEN subsetD])

lemma acquirer_refs: "minv s \<Longrightarrow> \<forall>pc \<in> set (mg_acquirers s). \<forall>g. acquirer_graph pc = Some g \<longrightarrow> g < length (mg_graphs s)"
  by (simp add: minv_def refs_ok_def)

lemma minv_release_begin:
  assumes inv: "minv s" and i: "i < length (mg_leases s)" and l: "le_state (mg_leases s ! i) = LeaseLive"
  shows "minv (s\<lparr>mg_leases := (mg_leases s)[i := (mg_leases s ! i)\<lparr>le_state := LeaseReleasing\<rparr>]\<rparr>)" (is "minv ?s")
proof -
  let ?g = "le_graph (mg_leases s ! i)"
  have g: "?g < length (mg_graphs s)" using lease_mem [OF inv i] .
  have h: "holders ?s k = holders s k" for k using i l by (simp add: holders_def cnt_update lease_on_def)
  have eq: "?s = (set_activation s ?g (activation s ?g))\<lparr>mg_acquirers := mg_acquirers s,
      mg_leases := (mg_leases s)[i := (mg_leases s ! i)\<lparr>le_state := LeaseReleasing\<rparr>]\<rparr>" by (simp add: set_activation_def)
  have ready: "ga_ready (activation s ?g)" using inv g lease_holds [OF inv i] l by (auto simp: minv_def users_ok_def)
  show ?thesis
    by (rule minv_activation [OF inv g _ _ _ _ eq])
      (use signal_ok_users [OF inv g] ready h acquirer_refs [OF inv] lease_refs [OF inv i, of "(mg_leases s ! i)\<lparr>le_state := LeaseReleasing\<rparr>"] in simp_all)
qed

lemma minv_release:
  assumes inv: "minv s" and i: "i < length (mg_leases s)" and l: "le_state (mg_leases s ! i) = LeaseReleasing"
    and g_def: "g = le_graph (mg_leases s ! i)"
  shows "minv ((set_activation s g (graph_release (activation s g)))
      \<lparr>mg_leases := (mg_leases s)[i := (mg_leases s ! i)\<lparr>le_state := LeaseReleased\<rparr>]\<rparr>)" (is "minv ?s")
proof -
  have g: "g < length (mg_graphs s)" using lease_mem [OF inv i] by (simp add: g_def)
  have pos: "0 < ga_users (activation s g)" using lease_holds [OF inv i] l by (simp add: g_def)
  have h: "holders ?s k = holders s k - of_bool (k = g)" for k using i l by (simp add: holders_def cnt_update lease_on_def g_def)
  have eq: "?s = (set_activation s g (graph_release (activation s g)))\<lparr>mg_acquirers := mg_acquirers s,
      mg_leases := (mg_leases s)[i := (mg_leases s ! i)\<lparr>le_state := LeaseReleased\<rparr>]\<rparr>" by simp
  have ready: "ga_ready (activation s g)" using inv g pos by (auto simp: minv_def users_ok_def)
  show ?thesis
    by (rule minv_activation [OF inv g _ _ _ _ eq])
      (use signal_ok_users [OF inv g] ready rd.signal_ok_leave rd.leave_users [OF pos] h acquirer_refs [OF inv] lease_refs [OF inv i, of "(mg_leases s ! i)\<lparr>le_state := LeaseReleased\<rparr>"]
         rd.drained_stable(3) [of "activation s g"] in simp_all)
qed

lemma minv_fork:
  assumes inv: "minv s" and i: "i < length (mg_leases s)" and g_def: "g = le_graph (mg_leases s ! i)"
    and fork: "graph_fork (activation s g) = (a, True)"
  shows "minv ((set_activation s g a)\<lparr>mg_leases := mg_leases s @ [\<lparr>le_graph = g, le_state = LeaseLive\<rparr>]\<rparr>)" (is "minv ?s")
proof -
  have g: "g < length (mg_graphs s)" using lease_mem [OF inv i] by (simp add: g_def)
  have a: "a = (activation s g)\<lparr>ga_users := ga_users (activation s g) + 1\<rparr>" "0 < ga_users (activation s g)"
    using fork by (auto simp: graph_fork_def split: if_splits)
  have h: "holders ?s k = holders s k + of_bool (k = g)" for k by (simp add: holders_def lease_on_def)
  have eq: "?s = (set_activation s g a)\<lparr>mg_acquirers := mg_acquirers s,
      mg_leases := mg_leases s @ [\<lparr>le_graph = g, le_state = LeaseLive\<rparr>]\<rparr>" by simp
  have ready: "ga_ready (activation s g)" using inv g a(2) by (auto simp: minv_def users_ok_def)
  have ok: "rd.signal_ok a" using rd.signal_ok_share [OF _ fork] signal_ok_users [OF inv g] by simp
  have refs: "\<forall>l \<in> set (mg_leases s @ [\<lparr>le_graph = g, le_state = LeaseLive\<rparr>]). le_graph l < length (mg_graphs s)"
    using inv g by (auto simp: minv_def refs_ok_def)
  show ?thesis
    by (rule minv_activation [OF inv g ok _ _ _ eq])
      (use signal_ok_users [OF inv g] ready h a acquirer_refs [OF inv] refs in \<open>simp_all add: rd.drained_def\<close>)
qed

subsection \<open>Teardown keeps the invariant\<close>

fun tx_entries :: "tx_pc \<Rightarrow> nat list" where
  "tx_entries (T_Build candidate old factories entries reports) = entries"
| "tx_entries (T_Abandon name cause old entries reports) = entries"
| "tx_entries (T_Publish candidate old entries reports) = entries"
| "tx_entries pc = []"

lemma tx_private: "minv s \<Longrightarrow> private_entries s (tx_entries (mg_tx s))"
  by (cases "mg_tx s") (auto simp: minv_def private_entries_def in_heap_def)

text \<open>Only entries of quiescent graphs, or of no graph, may be torn down.\<close>

definition may_tear :: "Manager \<Rightarrow> nat list \<Rightarrow> bool" where
  "may_tear s batch \<longleftrightarrow> in_heap s batch \<and> (\<forall>a \<in> set batch. \<forall>g < length (mg_graphs s). a \<in> set (components s g) \<longrightarrow> drained s g)"

lemma minv_teardown:
  assumes inv: "minv s" and may: "may_tear s batch" and apart: "set batch \<inter> set (tx_entries (mg_tx s)) = {}"
    and tear: "teardownEntries ok (mg_heap s) batch = (hp, r, calls)"
  shows "minv (s\<lparr>mg_heap := hp\<rparr>)" (is "minv ?s")
proof -
  have b: "distinct batch" "\<forall>a \<in> set batch. a < length (hp_entries (mg_heap s))" using may by (simp_all add: may_tear_def in_heap_def)
  note T = teardownEntries_effect [OF tear b]
  have other: "a \<notin> set batch \<Longrightarrow> entry hp a = entry (mg_heap s) a" for a using T(2) by simp
  have comp: "entry hp a = entry (mg_heap s) a" if "g < length (mg_graphs s)" "a \<in> set (components s g)" "\<not> drained s g" for a g
    using other may that by (auto simp: may_tear_def)
  have priv: "entry hp a = entry (mg_heap s) a" if "a \<in> set (tx_entries (mg_tx s))" for a using other apart that by auto
  have heap: "heap_ok hp" using inv heap_ok_teardown [OF _ tear b] by (simp add: minv_def)
  have waiter: "waiter_ok ?s w = waiter_ok s w" for w by (rule waiter_ok_cong) simp
  have fresh: "\<not> drained s g" if "\<not> ga_retired (activation s g)" for g using that by (simp add: rd.drained_def)
  have tx: "tx_ok ?s (mg_tx s)"
    using inv priv comp fresh T(1)
    by (cases "mg_tx s")
      (auto simp: minv_def serving_def starting_def private_entries_def in_heap_def split: retire_cause.splits tx_result.splits)
  have "entries_ok ?s" using inv comp by (auto simp: minv_def entries_ok_def)
  then show ?thesis
    using inv heap tx T(1) waiter
    by (simp add: minv_def users_ok_def refs_ok_def components_ok_def pending_ok_def ready_ok_def in_heap_def holders_def)
qed

lemma minv_pending:
  assumes inv: "minv s"
    and new: "\<And>b. b \<in> set pending \<Longrightarrow> b \<in> set (mg_pending s) \<or> may_tear s b \<and> set b \<inter> set (tx_entries (mg_tx s)) = {}"
  shows "minv (s\<lparr>mg_pending := pending\<rparr>)" (is "minv ?s")
proof -
  have may: "may_tear s b \<and> set b \<inter> set (tx_entries (mg_tx s)) = {}" if "b \<in> set pending" for b
    using new [OF that] inv tx_private [OF inv] by (auto simp: minv_def pending_ok_def may_tear_def private_entries_def)
  then have "pending_ok ?s" by (auto simp: pending_ok_def may_tear_def in_heap_def)
  moreover have "tx_ok ?s (mg_tx s)"
  proof -
    have "set (components s g) \<inter> set b = {}" if "b \<in> set pending" "g < length (mg_graphs s)" "\<not> ga_retired (activation s g)" for b g
      using may [OF that(1)] that(2,3) by (auto simp: may_tear_def rd.drained_def)
    moreover have "set (tx_entries (mg_tx s)) \<inter> set b = {}" if "b \<in> set pending" for b using may [OF that] by auto
    ultimately show ?thesis using inv
      by (cases "mg_tx s")
        (auto simp: minv_def serving_def starting_def private_entries_def in_heap_def split: retire_cause.splits tx_result.splits)
  qed
  moreover have "waiter_ok ?s w = waiter_ok s w" for w by (rule waiter_ok_cong) simp
  ultimately show ?thesis
    using inv by (simp add: minv_def users_ok_def refs_ok_def components_ok_def entries_ok_def ready_ok_def in_heap_def holders_def)
qed

lemma minv_waiters: "minv s \<Longrightarrow> \<forall>w \<in> set ws. waiter_ok s w \<Longrightarrow> minv (s\<lparr>mg_waiters := ws\<rparr>)"
proof -
  assume inv: "minv s" and ws: "\<forall>w \<in> set ws. waiter_ok s w"
  let ?s = "s\<lparr>mg_waiters := ws\<rparr>"
  have "waiter_ok ?s w = waiter_ok s w" for w by (rule waiter_ok_cong) simp
  moreover have "tx_ok ?s pc = tx_ok s pc" for pc by (rule tx_ok_cong) simp_all
  ultimately show ?thesis using inv ws
    by (simp add: minv_def users_ok_def refs_ok_def components_ok_def entries_ok_def ready_ok_def pending_ok_def in_heap_def holders_def)
qed

lemma minv_tx:
  assumes "minv s" "tx_ok s pc" "\<And>g. g < length (mg_graphs s) \<Longrightarrow> ga_ready (activation s g) \<or> tx_starts pc = Some g"
  shows "minv (s\<lparr>mg_tx := pc\<rparr>)"
proof -
  let ?s = "s\<lparr>mg_tx := pc\<rparr>"
  have "waiter_ok ?s w = waiter_ok s w" for w by (rule waiter_ok_cong) simp
  moreover have "tx_ok ?s pc = tx_ok s pc" by (rule tx_ok_cong) simp_all
  ultimately show ?thesis using assms
    by (simp add: minv_def users_ok_def refs_ok_def components_ok_def entries_ok_def ready_ok_def pending_ok_def in_heap_def holders_def)
qed

lemma minv_ready: "minv s \<Longrightarrow> tx_starts (mg_tx s) = None \<Longrightarrow> g < length (mg_graphs s) \<Longrightarrow> ga_ready (activation s g)"
  by (auto simp: minv_def ready_ok_def)

lemma minv_serving: "minv s \<Longrightarrow> tx_starts (mg_tx s) = None \<Longrightarrow> mg_active s = Some g \<Longrightarrow> serving s g"
  using minv_ready [of s g] by (simp add: serving_def minv_def refs_ok_def)

lemma graph_may_tear: "minv s \<Longrightarrow> g < length (mg_graphs s) \<Longrightarrow> drained s g \<Longrightarrow> may_tear s (components s g)"
  by (auto simp: minv_def components_ok_def may_tear_def)

lemma graph_apart: "minv s \<Longrightarrow> g < length (mg_graphs s) \<Longrightarrow> set (components s g) \<inter> set (tx_entries (mg_tx s)) = {}"
  using tx_private [of s] by (auto simp: private_entries_def)

lemma signalled_drained: "minv s \<Longrightarrow> g < length (mg_graphs s) \<Longrightarrow> ga_signalled (activation s g) \<Longrightarrow> drained s g"
  by (simp add: minv_def users_ok_def rd.signal_ok_def)

lemma scheduled: "b \<in> set (scheduleCleanupRetry hp pending entries) \<Longrightarrow> b \<in> set pending \<or> b = entries"
  by (auto simp: scheduleCleanupRetry_def split: if_splits)

lemma may_tear_cong:
  assumes "mg_graphs s' = mg_graphs s" "length (hp_entries (mg_heap s')) = length (hp_entries (mg_heap s))"
  shows "may_tear s' b = may_tear s b"
  using assms by (simp add: may_tear_def in_heap_def)

lemma minv_async:
  assumes inv: "minv s" and i: "i < length (mg_waiters s)" and step: "async_step ev s (mg_waiters s ! i) = Some (s', pc)"
  shows "minv (s'\<lparr>mg_waiters := (mg_waiters s)[i := pc]\<rparr>)"
proof -
  have ok: "waiter_ok s (mg_waiters s ! i)" using inv i by (simp add: minv_def refs_ok_def)
  have upd: "\<forall>w \<in> set ((mg_waiters s)[i := pc']). waiter_ok s w" if "waiter_ok s pc'" for pc'
    using that inv by (auto simp: minv_def refs_ok_def dest!: set_update_subset_insert [THEN subsetD])
  show ?thesis
  proof (cases "mg_waiters s ! i")
    case (Y_Wait g rg)
    obtain hp r calls where t: "teardownEntries (ev_ok ev) (mg_heap s) (components s g) = (hp, r, calls)" by (metis prod_cases3)
    have sig: "ga_signalled (activation s g)" and s': "s' = s\<lparr>mg_heap := hp\<rparr>"
      and pc: "pc = (if cu_failed r then Y_Report g rg (cu_componentName r) else Y_End)"
      using step Y_Wait t by (auto split: if_splits)
    have g: "g < length (mg_graphs s)" using ok Y_Wait by simp
    have d: "drained s g" using signalled_drained [OF inv g sig] .
    have "minv (s\<lparr>mg_heap := hp\<rparr>)" using minv_teardown [OF inv graph_may_tear [OF inv g d] graph_apart [OF inv g] t] .
    moreover have "waiter_ok s pc" using pc d g by simp
    then have "\<forall>w \<in> set ((mg_waiters s)[i := pc]). waiter_ok (s\<lparr>mg_heap := hp\<rparr>) w"
      using upd waiter_ok_cong [of "s\<lparr>mg_heap := hp\<rparr>" s] by simp
    ultimately show ?thesis unfolding s' by (rule minv_waiters)
  next
    case (Y_Report g rg component)
    then obtain sp batch where s': "s' = s\<lparr>mg_spool := sp\<rparr>" "pc = Y_Dispatch g batch" using step by (auto simp: Let_def split: prod.splits)
    have "minv (s\<lparr>mg_waiters := (mg_waiters s)[i := pc]\<rparr>)" using upd [of pc] ok Y_Report s' inv by (intro minv_waiters) auto
    then show ?thesis by (rule minv_cong) (simp_all add: s')
  next
    case (Y_Dispatch g batch)
    then obtain sp ch where s': "s' = s\<lparr>mg_spool := sp, mg_checks := ch\<rparr>" "pc = Y_Schedule g" using step by (auto split: prod.splits)
    have "minv (s\<lparr>mg_waiters := (mg_waiters s)[i := pc]\<rparr>)" using upd [of pc] ok Y_Dispatch s' inv by (intro minv_waiters) auto
    then show ?thesis by (rule minv_cong) (simp_all add: s')
  next
    case (Y_Schedule g)
    let ?p = "scheduleCleanupRetry (mg_heap s) (mg_pending s) (components s g)"
    have s': "s' = s\<lparr>mg_pending := ?p\<rparr>" "pc = Y_End" using step Y_Schedule by auto
    have g: "g < length (mg_graphs s)" "drained s g" using ok Y_Schedule by simp_all
    have "minv (s\<lparr>mg_pending := ?p\<rparr>)"
      using graph_may_tear [OF inv g] graph_apart [OF inv g(1)] by (intro minv_pending [OF inv]) (auto dest: scheduled)
    then show ?thesis unfolding s'
      by (rule minv_waiters) (use upd [of Y_End] waiter_ok_cong [of "s\<lparr>mg_pending := ?p\<rparr>" s] in simp)
  next
    case Y_End
    then have s': "s' = s\<lparr>mg_async := mg_async s - 1, mg_checks := mg_checks s @ [C_Closed]\<rparr>" "pc = Y_Done" using step by auto
    have "minv (s\<lparr>mg_waiters := (mg_waiters s)[i := pc]\<rparr>)" using upd [of Y_Done] s' inv by (intro minv_waiters) auto
    then show ?thesis by (rule minv_cong) (simp_all add: s')
  qed (use step in auto)
qed

lemma minv_retry:
  assumes inv: "minv s" and i: "i < length (mg_pending s)"
  shows "minv (retryCleanup_step ev s i)"
proof -
  let ?b = "mg_pending s ! i"
  obtain hp r calls where t: "teardownEntries (ev_ok ev) (mg_heap s) ?b = (hp, r, calls)" by (metis prod_cases3)
  have mem: "?b \<in> set (mg_pending s)" using i by simp
  then have may: "may_tear s ?b" using inv by (auto simp: minv_def pending_ok_def may_tear_def)
  have apart: "set ?b \<inter> set (tx_entries (mg_tx s)) = {}" using tx_private [OF inv] mem by (auto simp: private_entries_def)
  have heap: "minv (s\<lparr>mg_heap := hp\<rparr>)" using minv_teardown [OF inv may apart t] .
  show ?thesis
  proof (cases "cu_failed r")
    case True
    then show ?thesis using heap t by (simp add: retryCleanup_step_def)
  next
    case False
    let ?s = "s\<lparr>mg_heap := hp, mg_pending := take i (mg_pending s) @ drop (Suc i) (mg_pending s)\<rparr>"
    have "minv (s\<lparr>mg_heap := hp\<rparr>\<lparr>mg_pending := take i (mg_pending s) @ drop (Suc i) (mg_pending s)\<rparr>)"
      by (rule minv_pending [OF heap]) (auto dest: in_set_takeD in_set_dropD)
    then have "minv ?s" by simp
    then show ?thesis by (rule minv_cong) (simp_all add: retryCleanup_step_def t False)
  qed
qed

subsection \<open>The transaction keeps the invariant\<close>

lemma minv_idle: "minv s \<Longrightarrow> tx_starts (mg_tx s) = None \<Longrightarrow> minv (s\<lparr>mg_tx := T_Idle\<rparr>)"
  by (rule minv_tx) (auto simp: minv_def ready_ok_def)

lemma minv_heap_grow:
  assumes inv: "minv s" and idle: "mg_tx s = T_Idle" and hp: "hp_entries hp = hp_entries (mg_heap s) @ new" "heap_ok hp"
  shows "minv (s\<lparr>mg_heap := hp\<rparr>)" (is "minv ?s")
proof -
  have "in_heap s es \<Longrightarrow> in_heap ?s es" for es by (auto simp: in_heap_def hp(1))
  then have "components_ok ?s" "pending_ok ?s" using inv by (auto simp: minv_def components_ok_def pending_ok_def)
  moreover have "entries_ok ?s"
    unfolding entries_ok_def
  proof (intro allI impI ballI)
    fix g a
    assume g: "g < length (mg_graphs ?s)" "ga_ready (activation ?s g)" "\<not> drained ?s g" and a: "a \<in> set (components ?s g)"
    then have "a < length (hp_entries (mg_heap s))" using inv by (auto simp: minv_def components_ok_def in_heap_def)
    then show "usable (entry (mg_heap ?s) a)" using inv g a by (simp add: minv_def entries_ok_def hp(1) nth_append)
  qed
  moreover have "waiter_ok ?s w = waiter_ok s w" for w by (rule waiter_ok_cong) simp
  ultimately show ?thesis using inv idle hp(2) by (simp add: minv_def users_ok_def refs_ok_def ready_ok_def holders_def)
qed

lemma private_grow:
  assumes inv: "minv s" and priv: "private_entries s entries" and ext: "extends (mg_heap s, entries) (hp, entries')"
    and s': "mg_graphs s' = mg_graphs s" "mg_pending s' = mg_pending s" "mg_heap s' = hp"
  shows "private_entries s' entries'"
proof -
  let ?n = "length (hp_entries (mg_heap s))"
  obtain new where new: "hp_entries hp = hp_entries (mg_heap s) @ new" "entries' = entries @ [?n ..< length (hp_entries hp)]"
    using ext by (auto simp: extends_def)
  have "a < ?n" if "g < length (mg_graphs s)" "a \<in> set (components s g)" for a g
    using inv that by (auto simp: minv_def components_ok_def in_heap_def)
  moreover have "a < ?n" if "b \<in> set (mg_pending s)" "a \<in> set b" for a b using inv that by (auto simp: minv_def pending_ok_def in_heap_def)
  ultimately show ?thesis using priv new by (fastforce simp: private_entries_def in_heap_def s')
qed

lemma minv_build:
  assumes inv: "minv s" and tx: "mg_tx s = T_Build candidate old (factory # factories) entries reports"
    and step: "tx_step ev s (mg_tx s) = Some s'"
  shows "minv s'"
proof -
  obtain hp entries' stop where f: "build_factory (ev_prepare ev) candidate (gr_generation (graph s old) + 1) (Some (gr_config (graph s old)))
      factory (mg_heap s, entries) = ((hp, entries'), stop)" by (metis surj_pair)
  let ?pc = "case stop of None \<Rightarrow> T_Build candidate old factories entries' reports
      | Some cause \<Rightarrow> T_Abandon (fa_Name factory) cause old entries' reports"
  have s': "s' = s\<lparr>mg_tx := T_Idle, mg_heap := hp, mg_tx := ?pc\<rparr>" using step by (simp add: tx f)
  let ?n = "length (hp_entries (mg_heap s))" and ?s = "s\<lparr>mg_tx := T_Idle, mg_heap := hp\<rparr>"
  have t: "mg_active s = Some old" "serving s old" "private_entries s entries" "\<forall>a \<in> set entries. prepared (entry (mg_heap s) a)"
    using inv by (simp_all add: minv_def tx)
  have ext: "extends (mg_heap s, entries) (hp, entries')" using build_factory_extends [OF f] .
  then obtain new where new: "hp_entries hp = hp_entries (mg_heap s) @ new" by (auto simp: extends_def)
  have ok: "heap_ok hp" using inv build_factory_heap_ok [OF _ f] by (simp add: minv_def)
  have inv0: "minv (s\<lparr>mg_tx := T_Idle\<rparr>)" using minv_idle [OF inv] by (simp add: tx)
  have inv1: "minv ?s" using minv_heap_grow [OF inv0, of hp new] new ok by simp
  have priv: "private_entries ?s entries'" by (rule private_grow [OF inv t(3) ext]) simp_all
  have "serving ?s old" using t(2) by (simp add: serving_def)
  moreover have "prepared (entry hp a)" if "stop = None" "a \<in> set entries'" for a
  proof -
    have b: "entries' = entries @ [?n]" "built_entry hp factory ?n"
      using build_factory_built [of "ev_prepare ev" candidate _ _ factory "mg_heap s" entries hp entries'] f that(1) by auto
    show ?thesis
    proof (cases "a \<in> set entries")
      case True
      then have "a < ?n" using t(3) by (auto simp: private_entries_def in_heap_def)
      then show ?thesis using t(4) True by (simp add: new nth_append)
    next
      case False
      then have "a = ?n" using b(1) that(2) by simp
      then show ?thesis using b(2) by (simp add: built_entry_def prepared_def validComponent_def)
    qed
  qed
  ultimately have "tx_ok ?s ?pc" using t(1) priv by (cases stop) simp_all
  with inv1 have "minv (?s\<lparr>mg_tx := ?pc\<rparr>)"
    by (rule minv_tx) (use inv tx in \<open>auto simp: minv_def ready_ok_def\<close>)
  then show ?thesis by (simp add: s')
qed

lemma abandon_build_state:
  assumes "teardownEntries ok (bs_heap b) entries = (hp, r, calls)"
  shows "bs_heap (abandon_build ok previous now entries b) = hp"
    "bs_pending (abandon_build ok previous now entries b) =
       (if cu_failed r then scheduleCleanupRetry hp (bs_pending b) entries else bs_pending b)"
  using assms by (simp_all add: abandon_build_def)

lemma private_may_tear: "private_entries s entries \<Longrightarrow> may_tear s entries"
  by (auto simp: private_entries_def may_tear_def)

lemma minv_teardown_schedule:
  assumes inv: "minv s" and may: "may_tear s batch" and apart: "set batch \<inter> set (tx_entries (mg_tx s)) = {}"
    and tear: "teardownEntries ok (mg_heap s) batch = (hp, r, calls)"
  shows "minv (s\<lparr>mg_heap := hp, mg_pending := (if cu_failed r then scheduleCleanupRetry hp (mg_pending s) batch else mg_pending s)\<rparr>)"
proof -
  let ?s = "s\<lparr>mg_heap := hp\<rparr>"
  have heap: "minv ?s" using minv_teardown [OF inv may apart tear] .
  have len: "length (hp_entries hp) = length (hp_entries (mg_heap s))"
    using teardownEntries_effect(1) [OF tear] may by (simp add: may_tear_def in_heap_def)
  have "may_tear ?s batch" using may may_tear_cong [of ?s s batch] len by simp
  then have "minv (?s\<lparr>mg_pending := (if cu_failed r then scheduleCleanupRetry hp (mg_pending s) batch else mg_pending s)\<rparr>)"
    using apart by (intro minv_pending [OF heap]) (auto dest: scheduled split: if_splits)
  then show ?thesis by simp
qed

lemma minv_abandon:
  assumes inv: "minv s" and tx: "mg_tx s = T_Abandon name cause old entries reports" and step: "tx_step ev s (mg_tx s) = Some s'"
  shows "minv s'"
proof -
  obtain hp r calls where t: "teardownEntries (ev_ok ev) (mg_heap s) entries = (hp, r, calls)" by (metis prod_cases3)
  let ?b = "abandon_build (ev_ok ev) (Some (old, gr_generation (graph s old))) (ev_now ev) entries
      \<lparr>bs_heap = mg_heap s, bs_pending = mg_pending s, bs_reports = reports\<rparr>"
  have b: "bs_heap ?b = hp" "bs_pending ?b = (if cu_failed r then scheduleCleanupRetry hp (mg_pending s) entries else mg_pending s)"
    using abandon_build_state [of "ev_ok ev" "\<lparr>bs_heap = mg_heap s, bs_pending = mg_pending s, bs_reports = reports\<rparr>"] t by simp_all
  obtain batch where s': "s' = s\<lparr>mg_heap := hp, mg_pending := bs_pending ?b,
      mg_tx := T_Finish (rejected (Some old) (initialization_error name cause)) batch\<rparr>"
    using step tx b(1) by (auto simp: Let_def)
  have x: "mg_active s = Some old" "private_entries s entries" using inv by (simp_all add: minv_def tx)
  let ?pc = "T_Finish (rejected (Some old) (initialization_error name cause)) batch" and ?s = "s\<lparr>mg_tx := T_Idle\<rparr>"
  have "minv (s\<lparr>mg_tx := ?pc\<rparr>)"
    using inv x by (intro minv_tx) (auto simp: rejected_def minv_def ready_ok_def tx)
  then have "minv (s\<lparr>mg_tx := ?pc\<rparr>\<lparr>mg_heap := hp,
      mg_pending := (if cu_failed r then scheduleCleanupRetry hp (mg_pending (s\<lparr>mg_tx := ?pc\<rparr>)) entries else mg_pending (s\<lparr>mg_tx := ?pc\<rparr>))\<rparr>)"
    by (rule minv_teardown_schedule)
      (use t private_may_tear [OF x(2)] may_tear_cong [of "s\<lparr>mg_tx := ?pc\<rparr>" s entries] in simp_all)
  then show ?thesis by (rule minv_cong) (simp_all add: s' b(2))
qed

lemma cnt_zero: "(\<And>x. x \<in> set xs \<Longrightarrow> \<not> P x) \<Longrightarrow> cnt P xs = 0"
  by (simp add: cnt_def)

lemma holds_graph: "holds g pc \<Longrightarrow> acquirer_graph pc = Some g"
  by (cases pc) auto

lemma holders_fresh: "minv s \<Longrightarrow> length (mg_graphs s) \<le> g \<Longrightarrow> holders s g = 0"
proof -
  assume inv: "minv s" and g: "length (mg_graphs s) \<le> g"
  have "cnt (holds g) (mg_acquirers s) = 0"
  proof (rule cnt_zero)
    fix pc assume "pc \<in> set (mg_acquirers s)"
    then show "\<not> holds g pc" using acquirer_refs [OF inv] holds_graph [of g pc] g by fastforce
  qed
  moreover have "cnt (lease_on g) (mg_leases s) = 0"
    by (rule cnt_zero) (use inv g in \<open>auto simp: minv_def refs_ok_def lease_on_def\<close>)
  ultimately show ?thesis by (simp add: holders_def)
qed

lemma new_graph_simps [simp]:
  "gr_components (new_graph hp c n entries) = entries"
  "ga_users (gr_activation (new_graph hp c n entries)) = 0" "\<not> ga_ready (gr_activation (new_graph hp c n entries))"
  "\<not> ga_retired (gr_activation (new_graph hp c n entries))" "rd.signal_ok (gr_activation (new_graph hp c n entries))"
  "\<not> rd.drained (gr_activation (new_graph hp c n entries))"
  by (simp_all add: new_graph_def rd.signal_ok_def rd.drained_def)

lemma new_graph_byName: "map_of (gr_byName (new_graph hp c n entries)) name = Some a \<Longrightarrow> a \<in> set entries"
  by (auto simp: new_graph_def dest!: map_of_SomeD)

lemma minv_publish:
  assumes inv: "minv s" and tx: "mg_tx s = T_Publish candidate old entries reports" and step: "tx_step ev s (mg_tx s) = Some s'"
  shows "minv s'"
proof -
  let ?N = "length (mg_graphs s)" and ?g = "new_graph (mg_heap s) candidate (gr_generation (graph s old) + 1) entries"
  obtain batch where s': "s' = s\<lparr>mg_graphs := mg_graphs s @ [?g], mg_active := Some ?N, mg_tx := T_Activate ?N old batch\<rparr>"
    using step tx by (auto simp: Let_def)
  have t: "mg_active s = Some old" "serving s old" "private_entries s entries" "\<forall>a \<in> set entries. prepared (entry (mg_heap s) a)"
    using inv by (simp_all add: minv_def tx)
  have gr: "graph s' g = (if g < ?N then graph s g else ?g)" if "g < Suc ?N" for g using that by (simp add: s' nth_append)
  have N: "length (mg_graphs s') = Suc ?N" by (simp add: s')
  have h: "holders s' g = holders s g" for g by (simp add: s' holders_def)
  have ready: "ga_ready (activation s g)" if "g < ?N" for g using minv_ready [OF inv _ that] tx by simp
  have "users_ok s'"
    unfolding users_ok_def N
  proof (intro allI impI)
    fix g assume g: "g < Suc ?N"
    show "rd.signal_ok (activation s' g) \<and> ga_users (activation s' g) = holders s' g \<and> (ga_ready (activation s' g) \<or> holders s' g = 0)"
    proof (cases "g < ?N")
      case True
      then show ?thesis using inv gr [OF g] h by (simp add: minv_def users_ok_def)
    next
      case False
      then show ?thesis using gr [OF g] h holders_fresh [OF inv, of g] by simp
    qed
  qed
  moreover have w: "waiter_ok s w \<Longrightarrow> waiter_ok s' w" for w by (cases w) (auto simp: gr N)
  then have "refs_ok s'"
    using inv gr [of ?N] by (auto simp: minv_def refs_ok_def s' intro: less_SucI)
  moreover have heap: "in_heap s' es = in_heap s es" for es by (simp add: s' in_heap_def)
  have "components_ok s'"
    unfolding components_ok_def N heap
  proof (intro conjI allI impI)
    fix g assume g: "g < Suc ?N"
    show "in_heap s (components s' g)" using inv t(3) gr [OF g] g by (auto simp: minv_def components_ok_def private_entries_def)
    show "a \<in> set (components s' g)" if "map_of (gr_byName (graph s' g)) name = Some a" for name a
      using inv gr [OF g] that new_graph_byName by (cases "g < ?N") (auto simp: minv_def components_ok_def)
    fix k assume k: "k < Suc ?N" "g \<noteq> k"
    show "set (components s' g) \<inter> set (components s' k) = {}"
      using inv t(3) gr [OF g] gr [OF k(1)] g k by (auto simp: minv_def components_ok_def private_entries_def less_Suc_eq)
  qed
  moreover have "pending_ok s'"
    unfolding pending_ok_def N heap
  proof (intro ballI conjI allI impI)
    fix b assume b: "b \<in> set (mg_pending s')"
    then show "in_heap s b" using inv by (simp add: minv_def pending_ok_def s')
    fix a g assume a: "a \<in> set b" and g: "g < Suc ?N" "a \<in> set (components s' g)"
    have "b \<in> set (mg_pending s)" using b by (simp add: s')
    then have "g < ?N" using a g t(3) gr [OF g(1)] by (auto simp: private_entries_def split: if_splits)
    then show "drained s' g" using inv a g gr [OF g(1)] \<open>b \<in> set (mg_pending s)\<close> by (simp add: minv_def pending_ok_def)
  qed
  moreover have "entries_ok s'"
    unfolding entries_ok_def N
  proof (intro allI impI ballI)
    fix g a assume g: "g < Suc ?N" "ga_ready (activation s' g)" "\<not> drained s' g" "a \<in> set (components s' g)"
    then have "g < ?N" using gr [OF g(1)] by (auto split: if_splits)
    then show "usable (entry (mg_heap s') a)" using inv g gr [OF g(1)] by (simp add: minv_def entries_ok_def s')
  qed
  moreover have "tx_ok s' (mg_tx s')"
  proof -
    have "starting s' ?N" using gr [of ?N] t(3) by (simp add: starting_def N s' private_entries_def)
    moreover have "serving s' old" using t(2) gr [of old] by (simp add: serving_def N)
    moreover have "\<forall>a \<in> set (components s' ?N). prepared (entry (mg_heap s') a)" using t(4) gr [of ?N] by (simp add: s')
    ultimately show ?thesis by (simp add: s')
  qed
  moreover have "ready_ok s'" unfolding ready_ok_def N using ready gr by (auto simp: s' less_Suc_eq)
  moreover have "heap_ok (mg_heap s')" using inv by (simp add: minv_def s')
  ultimately show ?thesis by (simp add: minv_def)
qed

lemma activate_entries_effect:
  assumes "\<forall>a \<in> set entries. a < length (hp_entries hp)"
  shows "length (hp_entries (activate_entries entries hp)) = length (hp_entries hp) \<and>
    hp_owned (activate_entries entries hp) = hp_owned hp \<and>
    (\<forall>b. entry (activate_entries entries hp) b =
      (if b \<in> set entries then (entry hp b)\<lparr>ce_started := True, ce_available := True\<rparr> else entry hp b))"
  using assms
proof (induction entries arbitrary: hp)
  case (Cons a entries)
  let ?h = "activate_entry a hp"
  have h: "length (hp_entries ?h) = length (hp_entries hp)" "hp_owned ?h = hp_owned hp"
    "entry ?h b = (if b = a then (entry hp a)\<lparr>ce_started := True, ce_available := True\<rparr> else entry hp b)" for b
    using Cons.prems by (simp_all add: activate_entry_def)
  have "\<forall>a \<in> set entries. a < length (hp_entries ?h)" using Cons.prems h(1) by simp
  from Cons.IH [OF this] h show ?case by (simp add: activate_entries_def)
qed (simp add: activate_entries_def)

lemma minv_activate:
  assumes inv: "minv s" and tx: "mg_tx s = T_Activate new old reports" and step: "tx_step ev s (mg_tx s) = Some s'"
  shows "minv s'"
proof -
  let ?c = "components s new"
  let ?hp = "activate_entries ?c (mg_heap s)"
  have s': "s' = s\<lparr>mg_heap := ?hp, mg_tx := T_Ready new old reports\<rparr>" using step by (simp add: tx)
  have t: "starting s new" "serving s old" "\<forall>a \<in> set ?c. prepared (entry (mg_heap s) a)" using inv by (simp_all add: minv_def tx)
  have new: "new < length (mg_graphs s)" "\<not> ga_ready (activation s new)" using t(1) by (simp_all add: starting_def)
  have "\<forall>a \<in> set ?c. a < length (hp_entries (mg_heap s))" using inv new by (auto simp: minv_def components_ok_def in_heap_def)
  from activate_entries_effect [OF this] have A: "length (hp_entries ?hp) = length (hp_entries (mg_heap s))"
    "hp_owned ?hp = hp_owned (mg_heap s)"
    "\<And>b. entry ?hp b = (if b \<in> set ?c then (entry (mg_heap s) b)\<lparr>ce_started := True, ce_available := True\<rparr> else entry (mg_heap s) b)"
    by simp_all
  have heap: "heap_ok ?hp" using inv by (simp add: minv_def heap_ok_def A entry_ok_def)
  have comp: "set ?c \<inter> set (components s g) = {}" if "g < length (mg_graphs s)" "g \<noteq> new" for g
    using inv new that by (auto simp: minv_def components_ok_def)
  have "entries_ok s'"
    unfolding entries_ok_def
  proof (intro allI impI ballI)
    fix g a assume g: "g < length (mg_graphs s')" "ga_ready (activation s' g)" "\<not> drained s' g" "a \<in> set (components s' g)"
    then have "g \<noteq> new" using new(2) by (auto simp: s')
    then have "a \<notin> set ?c" using comp [of g] g by (auto simp: s')
    then show "usable (entry (mg_heap s') a)" using inv g by (simp add: minv_def entries_ok_def s' A(3))
  qed
  moreover have "waiter_ok s' w = waiter_ok s w" for w by (rule waiter_ok_cong) (simp add: s')
  moreover have "tx_ok s' (mg_tx s')"
    using t by (simp add: s' starting_def serving_def A usable_def prepared_def)
  ultimately show ?thesis
    using inv heap by (simp add: minv_def s' users_ok_def refs_ok_def components_ok_def pending_ok_def ready_ok_def in_heap_def holders_def A tx)
qed

text \<open>A change of one activation and of the transaction, as the two steps below make it.\<close>

lemma minv_flags:
  assumes inv: "minv s" and g: "g < length (mg_graphs s)" and s': "s' = (set_activation s g a)\<lparr>mg_tx := pc\<rparr>"
    and a: "rd.signal_ok a" "ga_users a = ga_users (activation s g)" "drained s g \<Longrightarrow> rd.drained a"
      "ga_retired (activation s g) \<Longrightarrow> ga_retired a" "ga_ready (activation s g) \<Longrightarrow> ga_ready a"
    and active: "mg_active s = Some g \<Longrightarrow> \<not> ga_retired a"
    and usable: "ga_ready a \<Longrightarrow> \<not> rd.drained a \<Longrightarrow> \<forall>x \<in> set (components s g). usable (entry (mg_heap s) x)"
    and tx: "tx_ok s' pc" and ready: "\<And>h. h < length (mg_graphs s) \<Longrightarrow> ga_ready (activation s' h) \<or> tx_starts pc = Some h"
  shows "minv s'"
proof -
  have act: "activation s' h = (if h = g then a else activation s h)" for h using g by (simp add: s')
  have comp: "components s' h = components s h" for h using g by (simp add: s')
  have names: "gr_byName (graph s' h) = gr_byName (graph s h)" for h using g by (simp add: s')
  have same: "length (mg_graphs s') = length (mg_graphs s)" "mg_active s' = mg_active s" "mg_heap s' = mg_heap s"
    "mg_pending s' = mg_pending s" "mg_tx s' = pc" "mg_waiters s' = mg_waiters s" "mg_acquirers s' = mg_acquirers s"
    "mg_leases s' = mg_leases s"
    by (simp_all add: s')
  have dr: "drained s h \<Longrightarrow> drained s' h" for h using a(3) by (auto simp: act)
  have h: "holders s' k = holders s k" for k by (simp add: holders_def same)
  have "users_ok s'" using inv a(1,2,5) by (auto simp: minv_def users_ok_def act same h)
  moreover have "waiter_ok s w \<Longrightarrow> waiter_ok s' w" for w using dr a(4) by (cases w) (auto simp: act same)
  then have "refs_ok s'" using inv active by (auto simp: minv_def refs_ok_def act same)
  moreover have "components_ok s'" using inv by (auto simp: minv_def components_ok_def in_heap_def comp names same)
  moreover have "pending_ok s'" using inv dr by (simp add: minv_def pending_ok_def in_heap_def comp same)
  moreover have "entries_ok s'"
    unfolding entries_ok_def
  proof (intro allI impI ballI)
    fix k x
    assume k: "k < length (mg_graphs s')" "ga_ready (activation s' k)" "\<not> drained s' k" "x \<in> set (components s' k)"
    show "usable (entry (mg_heap s') x)"
    proof (cases "k = g")
      case True
      then show ?thesis using k usable by (simp add: act comp same)
    next
      case False
      then show ?thesis using k inv by (simp add: act comp same minv_def entries_ok_def)
    qed
  qed
  moreover have "ready_ok s'" using ready by (simp add: ready_ok_def same)
  ultimately show ?thesis using inv tx by (simp add: minv_def same)
qed

lemma minv_finish_activation:
  assumes inv: "minv s" and tx: "mg_tx s = T_Ready new old reports" and step: "tx_step ev s (mg_tx s) = Some s'"
  shows "minv s'"
proof -
  let ?a = "finishActivation (activation s new)"
  have s': "s' = (set_activation s new ?a)\<lparr>mg_tx := T_Retire (ByReload new) old reports\<rparr>" using step by (simp add: tx)
  have t: "starting s new" "serving s old" "\<forall>a \<in> set (components s new). usable (entry (mg_heap s) a)" using inv by (simp_all add: minv_def tx)
  have new: "new < length (mg_graphs s)" "\<not> ga_ready (activation s new)" "\<not> ga_retired (activation s new)" "mg_active s = Some new"
    using t(1) by (simp_all add: starting_def)
  have a: "?a = (activation s new)\<lparr>ga_ready := True\<rparr>" using new(2) by (simp add: finishActivation_def)
  have ne: "old \<noteq> new" using t(2) new(2) by (auto simp: serving_def)
  have old: "ga_ready (activation s h)" if "h < length (mg_graphs s)" "h \<noteq> new" for h
    using inv that by (auto simp: minv_def ready_ok_def tx)
  show ?thesis
    by (rule minv_flags [OF inv new(1) s'])
      (use signal_ok_users [OF inv new(1)] new t ne old in \<open>auto simp: a rd.signal_ok_def rd.drained_def serving_def s'\<close>)
qed

lemma beginRetirement_flags [simp]:
  "ga_ready (beginRetirement a) = ga_ready a" "ga_users (beginRetirement a) = ga_users a" "ga_retired (beginRetirement a)"
  by (simp_all add: beginRetirement_def Let_def)

lemma minv_begin_retirement:
  assumes inv: "minv s" and tx: "mg_tx s = T_Retire cause old reports" and step: "tx_step ev s (mg_tx s) = Some s'"
  shows "minv s'"
proof -
  let ?a = "beginRetirement (activation s old)"
  have s': "s' = (set_activation s old ?a)\<lparr>mg_tx := T_Wait cause old reports\<rparr>" using step by (simp add: tx)
  have t: "serving s old" "mg_active s \<noteq> Some old"
    "case cause of ByReload new \<Rightarrow> mg_active s = Some new | ByClose \<Rightarrow> mg_active s = None" using inv by (simp_all add: minv_def tx)
  have old: "old < length (mg_graphs s)" "ga_ready (activation s old)" "\<not> ga_retired (activation s old)" using t(1) by (simp_all add: serving_def)
  have use_old: "\<forall>x \<in> set (components s old). usable (entry (mg_heap s) x)"
    using inv old by (auto simp: minv_def entries_ok_def rd.drained_def)
  have ready: "ga_ready (activation s h)" if "h < length (mg_graphs s)" for h using minv_ready [OF inv _ that] tx by simp
  show ?thesis
  proof (rule minv_flags [OF inv old(1) s'])
    show "tx_ok s' (T_Wait cause old reports)" using t(3) old(1) by (auto simp: s' split: retire_cause.splits)
  qed (use signal_ok_users [OF inv old(1)] rd.signal_ok_retire rd.drained_stable(4) [of "activation s old"] old t(2) use_old ready
       in \<open>auto simp: s'\<close>)
qed

lemma retired_pc_ok:
  assumes "case cause of ByReload new \<Rightarrow> mg_active s' = Some new | ByClose \<Rightarrow> mg_active s' = None"
  shows "tx_ok s' (retired_pc ev s cause old reports cleanup) \<and> tx_starts (retired_pc ev s cause old reports cleanup) = None \<and>
    tx_entries (retired_pc ev s cause old reports cleanup) = []"
  using assms by (auto simp: retired_pc_def Let_def split: retire_cause.splits)

lemma minv_wait:
  assumes inv: "minv s" and tx: "mg_tx s = T_Wait cause old reports" and step: "tx_step ev s (mg_tx s) = Some s'"
  shows "minv s'"
proof -
  have t: "old < length (mg_graphs s)" "ga_retired (activation s old)"
    "case cause of ByReload new \<Rightarrow> mg_active s = Some new | ByClose \<Rightarrow> mg_active s = None" using inv by (simp_all add: minv_def tx)
  have ready: "ga_ready (activation s h)" if "h < length (mg_graphs s)" for h using minv_ready [OF inv _ that] tx by simp
  note pc = retired_pc_ok [OF t(3), where ev = ev and s = s and old = old and reports = reports]
  have retx: "minv (s\<lparr>mg_tx := retired_pc ev s cause old reports cleanup\<rparr>)" for cleanup
    using inv pc [of cleanup] ready by (intro minv_tx) auto
  show ?thesis
  proof (cases "ev_timeout ev")
    case True
    define rg where "rg = (case cause of ByReload new \<Rightarrow> new | ByClose \<Rightarrow> old)"
    let ?s = "s\<lparr>mg_tx := retired_pc ev s cause old reports inflight_users\<rparr>"
    have s': "s' = s\<lparr>mg_async := mg_async s + 1, mg_waiters := mg_waiters s @ [Y_Wait old rg],
        mg_tx := retired_pc ev s cause old reports inflight_users\<rparr>"
      using step True by (auto simp: tx rg_def)
    have "minv (?s\<lparr>mg_waiters := mg_waiters s @ [Y_Wait old rg]\<rparr>)"
      by (rule minv_waiters [OF retx]) (use inv t waiter_ok_cong [of ?s s] in \<open>auto simp: minv_def refs_ok_def\<close>)
    then show ?thesis by (rule minv_cong) (simp_all add: s')
  next
    case False
    obtain hp r calls where td: "teardownEntries (ev_ok ev) (mg_heap s) (components s old) = (hp, r, calls)" by (metis prod_cases3)
    let ?s = "s\<lparr>mg_tx := retired_pc ev s cause old reports r\<rparr>"
    have sig: "ga_signalled (activation s old)" and s': "s' = s\<lparr>mg_heap := hp,
        mg_pending := (if cu_failed r then scheduleCleanupRetry hp (mg_pending s) (components s old) else mg_pending s),
        mg_tx := retired_pc ev s cause old reports r\<rparr>"
      using step False td by (auto simp: tx split: if_splits)
    have may: "may_tear ?s (components s old)"
      using graph_may_tear [OF inv t(1) signalled_drained [OF inv t(1) sig]] may_tear_cong [of ?s s "components s old"] by simp
    have "minv (?s\<lparr>mg_heap := hp,
        mg_pending := (if cu_failed r then scheduleCleanupRetry hp (mg_pending ?s) (components s old) else mg_pending ?s)\<rparr>)"
      by (rule minv_teardown_schedule [OF retx may]) (use pc td in simp_all)
    then show ?thesis by (rule minv_cong) (simp_all add: s')
  qed
qed

lemma minv_detach:
  assumes inv: "minv s" and tx: "mg_tx s = T_Detach" and step: "tx_step ev s (mg_tx s) = Some s'"
  shows "minv s'"
proof -
  let ?pc = "case mg_active s of None \<Rightarrow> T_Finish (CloseDone None) empty_batch | Some g \<Rightarrow> T_Retire ByClose g empty_batch"
  have s': "s' = s\<lparr>mg_active := None, mg_tx := ?pc\<rparr>" using step by (simp add: tx)
  have ready: "ga_ready (activation s h)" if "h < length (mg_graphs s)" for h using minv_ready [OF inv _ that] tx by simp
  have "tx_ok s' ?pc"
    using minv_serving [OF inv] tx by (auto simp: s' serving_def split: option.splits)
  moreover have "waiter_ok s' w = waiter_ok s w" for w by (rule waiter_ok_cong) (simp add: s')
  ultimately show ?thesis
    using inv ready
    by (simp add: minv_def s' users_ok_def refs_ok_def components_ok_def pending_ok_def entries_ok_def ready_ok_def in_heap_def holders_def)
qed

lemma reload_checks_ok:
  assumes inv: "minv s" and tx: "mg_tx s = T_Reload candidate"
  shows "tx_ok s (reload_checks ev s candidate) \<and> tx_starts (reload_checks ev s candidate) = None"
proof -
  have "private_entries s []" by (simp add: private_entries_def in_heap_def)
  moreover have "serving s old" if "mg_active s = Some old" for old using minv_serving [OF inv _ that] tx by simp
  ultimately show ?thesis
    by (simp add: reload_checks_def rejected_def Let_def split: option.splits)
qed

lemma minv_tx_step:
  assumes inv: "minv s" and step: "tx_step ev s (mg_tx s) = Some s'"
  shows "minv s'"
proof (cases "mg_tx s")
  case (T_Reload candidate)
  then have s': "s' = s\<lparr>mg_tx := reload_checks ev s candidate\<rparr>" using step by simp
  show ?thesis unfolding s'
    using inv reload_checks_ok [OF inv T_Reload] minv_ready [OF inv] T_Reload by (intro minv_tx) auto
next
  case (T_Build candidate old factories entries reports)
  show ?thesis
  proof (cases factories)
    case Nil
    let ?pc = "case ev_ctx ev of Some cause \<Rightarrow> T_Abandon [] (Some cause) old entries reports
      | None \<Rightarrow> T_Publish candidate old entries reports"
    have s': "s' = s\<lparr>mg_tx := ?pc\<rparr>" using step T_Build Nil by simp
    have "tx_ok s (mg_tx s)" using inv by (simp add: minv_def)
    then show ?thesis unfolding s'
      using inv minv_ready [OF inv] T_Build by (intro minv_tx) (auto split: option.splits)
  next
    case (Cons factory rest)
    then show ?thesis using minv_build [OF inv _ step] T_Build by simp
  qed
next
  case T_Close
  have r: "ga_ready (activation s h)" if "h < length (mg_graphs s)" for h using minv_ready [OF inv _ that] T_Close by simp
  have "minv (s\<lparr>mg_tx := T_Detach\<rparr>)" "minv (s\<lparr>mg_tx := T_Finish (CloseDone None) empty_batch\<rparr>)"
    using inv r by (auto intro!: minv_tx)
  then show ?thesis using step T_Close by (auto split: if_splits elim: minv_cong)
next
  case (T_Finish result reports)
  then have "minv (s\<lparr>mg_tx := T_Idle\<rparr>)" using minv_idle [OF inv] by simp
  then show ?thesis by (rule minv_cong) (use step T_Finish in \<open>auto split: prod.splits\<close>)
next
  case (T_Abandon name cause old entries reports)
  show ?thesis by (rule minv_abandon [OF inv T_Abandon step])
next
  case (T_Publish candidate old entries reports)
  show ?thesis by (rule minv_publish [OF inv T_Publish step])
next
  case (T_Activate new old reports)
  show ?thesis by (rule minv_activate [OF inv T_Activate step])
next
  case (T_Ready new old reports)
  show ?thesis by (rule minv_finish_activation [OF inv T_Ready step])
next
  case T_Detach
  show ?thesis by (rule minv_detach [OF inv T_Detach step])
next
  case (T_Retire cause old reports)
  show ?thesis by (rule minv_begin_retirement [OF inv T_Retire step])
next
  case (T_Wait cause old reports)
  show ?thesis by (rule minv_wait [OF inv T_Wait step])
next
  case T_Idle
  then show ?thesis using step by simp
qed

lemma minv_mstep: "mstep s s' \<Longrightarrow> minv s \<Longrightarrow> minv s'"
proof (induction rule: mstep.induct)
  case (m_acquire_begin s)
  have h: "holders (s\<lparr>mg_acquirers := mg_acquirers s @ [A_Top]\<rparr>) g = holders s g" for g by (simp add: holders_def)
  let ?s = "s\<lparr>mg_acquirers := mg_acquirers s @ [A_Top]\<rparr>"
  have "waiter_ok ?s w = waiter_ok s w" for w by (rule waiter_ok_cong) simp
  moreover have "tx_ok ?s pc = tx_ok s pc" for pc by (rule tx_ok_cong) simp_all
  ultimately show ?case using m_acquire_begin
    by (auto simp: minv_def users_ok_def refs_ok_def components_ok_def pending_ok_def entries_ok_def ready_ok_def in_heap_def h)
next
  case (m_acquire i s s' pc)
  then show ?case by (intro minv_acquire)
next
  case (m_acquire_cancelled i s g a)
  then show ?case by (intro minv_acquirer) auto
next
  case (m_release_begin i s l)
  then show ?case using minv_release_begin [of s i] by simp
next
  case (m_release i s l)
  then show ?case using minv_release [of s i] by simp
next
  case (m_fork i s l a)
  then show ?case using minv_fork [of s i] by simp
next
  case (m_reload s candidate)
  then show ?case by (intro minv_tx) (auto simp: minv_ready)
next
  case (m_close s)
  then show ?case by (intro minv_tx) (auto simp: minv_ready)
next
  case (m_tx ev s s')
  then show ?case using minv_tx_step by blast
next
  case (m_async i s ev s' pc)
  then show ?case by (intro minv_async)
next
  case (m_retry i s ev)
  then show ?case by (intro minv_retry)
next
  case (m_handover i s)
  show ?case by (rule minv_cong [OF m_handover(2)]) (auto simp: handover_step_def split: prod.splits)
next
  case (m_check i s s' pc)
  show ?case by (rule minv_cong [OF m_check(3)]) (use m_check(2) in \<open>cases "mg_checks s ! i"; auto split: if_splits\<close>)+
next
  case (m_reporter good s sp pc)
  show ?case by (rule minv_cong [OF m_reporter(2)]) simp_all
qed

end
