(* ===== verification/RuntimeGraph_Safety.thy ===== *)
theory RuntimeGraph_Safety
  imports RuntimeGraph_Manager
begin

text \<open>
  The runtime graph manager from its construction on: \<open>New\<close>, the reachable states of \<open>mstep\<close>, and what holds in them.  Leases
  pin complete generations, report batches obey the guarantees of the spool, and a schedule shows that
  closing the manager can silence the report of its own failure.
\<close>

subsection \<open>Construction\<close>

definition blank_manager :: "Factory list \<Rightarrow> Heap \<Rightarrow> nat list list \<Rightarrow> Manager" where
  "blank_manager factories hp pending =
     \<lparr>mg_factories = factories, mg_graphs = [], mg_active = None, mg_closed = False, mg_heap = hp, mg_pending = pending, mg_async = 0,
      mg_spool = new_spool, mg_reporter = R_NotStarted, mg_tx = T_Idle, mg_acquirers = [], mg_leases = [], mg_handover = [],
      mg_waiters = [], mg_checks = []\<rparr>"

definition empty_heap :: Heap where
  "empty_heap = \<lparr>hp_entries = [], hp_owned = []\<rparr>"

text \<open>
  The part of \<open>New\<close> after a successful build: publish, activate, start the reporter, report the first generation.  No other goroutine can see the manager
  yet, so the first batch is always accepted (\<open>first_report_accepted\<close> below); the branch for a refusal ends in the retirement of the
  graph.
\<close>

definition launch :: "gotime \<Rightarrow> Factory list \<Rightarrow> Heap \<Rightarrow> Graph \<Rightarrow> Manager \<times> GraphError option" where
  "launch now factories hp g =
     (let g1 = g\<lparr>gr_activation := finishActivation (gr_activation g)\<rparr>;
          m = (blank_manager factories (activate_entries (gr_components g) hp) [])\<lparr>mg_graphs := [g1], mg_active := Some 0\<rparr>
      in case startReporter (mg_spool m, mg_reporter m) of (sp, pc) \<Rightarrow>
         case sequenceReports sp (addCompliance empty_batch (Some 0) (gr_generation g) now ReportReloadApplied ''applied'' [] []) of
           (sp1, batch) \<Rightarrow>
             (case dispatchReports sp1 batch of
                (sp2, DispatchAccepted) \<Rightarrow> (m\<lparr>mg_spool := sp2, mg_reporter := pc\<rparr>, None)
              | (sp2, _) \<Rightarrow> (m\<lparr>mg_spool := sp2, mg_reporter := pc, mg_closed := True, mg_active := None, mg_tx := T_Retire ByClose 0 empty_batch\<rparr>,
                             Some (graph_error GraphReporting))))"

definition New ::
  "(Factory \<Rightarrow> BuildInput \<Rightarrow> Prepared) \<Rightarrow> answers \<Rightarrow> ctx_err option \<Rightarrow> gotime \<Rightarrow> GraphConfig \<Rightarrow> Factory option list \<Rightarrow> GraphOptions
     \<Rightarrow> Manager option \<times> GraphError option" where
  "New prepare ok ctx now initial factories options =
     (case newManager factories options of
        Inl err \<Rightarrow> (None, Some err)
      | Inr (opts, fs) \<Rightarrow>
          (case validateConfig initial of
             Some err \<Rightarrow> (None, Some err)
           | None \<Rightarrow>
               (case build_from prepare ok ctx now initial 1 None fs [] \<lparr>bs_heap = empty_heap, bs_pending = [], bs_reports = empty_batch\<rparr> of
                  (b, Inl err) \<Rightarrow>
                    if bs_pending b \<noteq> [] then (Some ((blank_manager fs (bs_heap b) (bs_pending b))\<lparr>mg_closed := True\<rparr>), Some err)
                    else (None, Some err)
                | (b, Inr g) \<Rightarrow> map_prod Some id (launch now fs (bs_heap b) g))))"

inductive mreach :: "Manager \<Rightarrow> bool" where
  mreach_new: "New prepare ok ctx now initial factories options = (Some s, err) \<Longrightarrow> mreach s"
| mreach_step: "mreach s \<Longrightarrow> mstep s s' \<Longrightarrow> mreach s'"

lemma first_report_accepted:
  "\<exists>sp. launch now factories hp g =
     ((blank_manager factories (activate_entries (gr_components g) hp) [])
        \<lparr>mg_graphs := [g\<lparr>gr_activation := finishActivation (gr_activation g)\<rparr>], mg_active := Some 0, mg_spool := sp, mg_reporter := R_Top 1\<rparr>, None) \<and>
     rsteps (new_spool, R_NotStarted, []) (sp, R_Top 1, [])"
proof -
  let ?b = "addCompliance empty_batch (Some 0) (gr_generation g) now ReportReloadApplied ''applied'' [] []"
  let ?sp = "new_spool\<lparr>sp_started := True\<rparr>"
  obtain sp1 batch where seq: "sequenceReports ?sp ?b = (sp1, batch)" by fastforce
  obtain sp2 r where dis: "dispatchReports sp1 batch = (sp2, r)" by fastforce
  have b: "rb_sequence ?b = 0" "rb_envelopes ?b \<noteq> []" by (simp_all add: addCompliance_def add_envelope_def empty_batch_def)
  have sp1: "sp_closed sp1 = False" "sp_completed sp1 = 0" "sp_delivering sp1 = 0" "sp_spool sp1 = Map.empty" "rb_sequence batch = 1"
    "rb_envelopes batch \<noteq> []"
    using seq b by (auto simp: sequenceReports_def new_spool_def Let_def number_envelopes_def enumerate_eq_zip)
  have r: "r = DispatchAccepted" using dis sp1 by (auto simp: dispatchReports_def)
  have start: "startReporter (new_spool, R_NotStarted) = (?sp, R_Top 1)" by (simp add: startReporter_def new_spool_def)
  have "rsteps (new_spool, R_NotStarted, []) (?sp, R_Top 1, [])"
    by (rule rsteps_step [OF rsteps_refl]) (rule r_start [OF start])
  then have "rsteps (new_spool, R_NotStarted, []) (sp1, R_Top 1, [batch])"
    by (rule rsteps_step) (use r_sequence [OF b(1) seq, of "R_Top 1" "[]" "[]"] in simp)
  then have "rsteps (new_spool, R_NotStarted, []) (sp2, R_Top 1, [])"
    by (rule rsteps_step) (use r_dispatch [OF _ dis, of "[batch]" "[]" "[]"] in simp)
  moreover have "launch now factories hp g =
     ((blank_manager factories (activate_entries (gr_components g) hp) [])
        \<lparr>mg_graphs := [g\<lparr>gr_activation := finishActivation (gr_activation g)\<rparr>], mg_active := Some 0, mg_spool := sp2, mg_reporter := R_Top 1\<rparr>, None)"
    using start seq dis r by (simp add: launch_def Let_def blank_manager_def)
  ultimately show ?thesis by blast
qed

lemma heap_ok_empty: "heap_ok empty_heap"
  by (simp add: heap_ok_def empty_heap_def)

lemma minv_launch:
  assumes b: "built \<lparr>bs_heap = empty_heap, bs_pending = [], bs_reports = empty_batch\<rparr> factories b g"
    and g: "g = new_graph (bs_heap b) initial 1 (gr_components g)" and launch: "launch now fs (bs_heap b) g = (m, err)"
  shows "minv m"
proof -
  let ?hp = "activate_entries (gr_components g) (bs_heap b)" and ?g = "g\<lparr>gr_activation := finishActivation (gr_activation g)\<rparr>"
  obtain sp where m: "m = (blank_manager fs ?hp [])\<lparr>mg_graphs := [?g], mg_active := Some 0, mg_spool := sp, mg_reporter := R_Top 1\<rparr>"
    using first_report_accepted [of now fs "bs_heap b" g] launch by auto
  have comps: "gr_components g = [0 ..< length (hp_entries (bs_heap b))]" "list_all2 (built_entry (bs_heap b)) factories (gr_components g)"
    "heap_ok (bs_heap b)" using b unfolding built_def empty_heap_def by (fastforce, blast, blast)
  from activate_entries_effect [of "gr_components g" "bs_heap b"] comps(1)
  have A: "length (hp_entries ?hp) = length (hp_entries (bs_heap b))" "hp_owned ?hp = hp_owned (bs_heap b)"
    "\<And>x. entry ?hp x = (if x \<in> set (gr_components g) then (entry (bs_heap b) x)\<lparr>ce_started := True, ce_available := True\<rparr>
       else entry (bs_heap b) x)" by simp_all
  have heap: "heap_ok ?hp" using comps(3) by (simp add: heap_ok_def A entry_ok_def)
  have act: "gr_activation ?g = (gr_activation g)\<lparr>ga_ready := True\<rparr>" "rd.signal_ok (gr_activation ?g)" "ga_users (gr_activation ?g) = 0"
    "\<not> ga_retired (gr_activation ?g)"
    by (subst g, simp add: finishActivation_def new_graph_def rd.signal_ok_def rd.drained_def)+
  have usable: "usable (entry ?hp x)" if x: "x \<in> set (gr_components g)" for x
  proof -
    obtain f where "built_entry (bs_heap b) f x" using comps(2) x by (auto simp: list_all2_conv_all_nth in_set_conv_nth)
    then show ?thesis using x by (simp add: A usable_def prepared_def built_entry_def validComponent_def)
  qed
  have names: "map_of (gr_byName g) name = Some a \<Longrightarrow> a \<in> set (gr_components g)" for name a
    by (metis g new_graph_byName)
  show ?thesis
    unfolding minv_def users_ok_def refs_ok_def components_ok_def pending_ok_def entries_ok_def ready_ok_def in_heap_def
    using heap act usable names comps(1) A(1) [unfolded comps(1)]
    by (simp add: m blank_manager_def holders_def A)
qed

lemma minv_closed_blank:
  assumes "heap_ok hp" and "\<forall>batch \<in> set pending. distinct batch \<and> (\<forall>a \<in> set batch. a < length (hp_entries hp))"
  shows "minv ((blank_manager fs hp pending)\<lparr>mg_closed := True\<rparr>)"
  using assms by (simp add: minv_def users_ok_def refs_ok_def components_ok_def pending_ok_def entries_ok_def ready_ok_def in_heap_def
      blank_manager_def)

lemma build_from_graph:
  "build_from prepare ok ctx now candidate generation previous factories entries s = (s', Inr g) \<Longrightarrow>
   g = new_graph (bs_heap s') candidate generation (gr_components g)"
proof (induction factories arbitrary: entries s)
  case Nil
  then have "s' = s" "g = new_graph (bs_heap s) candidate generation entries" by (auto split: option.splits)
  then show ?case by simp
next
  case (Cons factory factories)
  then show ?case by (auto split: prod.splits option.splits)
qed

text \<open>The retry batches of a failed build consist of distinct entries.\<close>

lemma abandon_build_distinct:
  assumes "\<forall>batch \<in> set (bs_pending s). distinct batch" "distinct entries"
  shows "\<forall>batch \<in> set (bs_pending (abandon_build ok previous now entries s)). distinct batch"
proof -
  obtain hp r calls where t: "teardownEntries ok (bs_heap s) entries = (hp, r, calls)" by (metis prod_cases3)
  show ?thesis using assms by (auto simp: abandon_build_state [OF t] dest: scheduled)
qed

lemma build_from_distinct:
  assumes "build_from prepare ok ctx now candidate generation previous factories entries s = (s', result)"
    "\<forall>batch \<in> set (bs_pending s). distinct batch" "distinct entries" "\<forall>a \<in> set entries. a < length (hp_entries (bs_heap s))"
  shows "\<forall>batch \<in> set (bs_pending s'). distinct batch"
  using assms
proof (induction factories arbitrary: entries s)
  case Nil
  then show ?case
    using abandon_build_distinct [of s entries ok "map_option (map_prod id gr_generation) previous" now]
    by (cases ctx) auto
next
  case (Cons factory factories)
  obtain hp entries' stop where f: "build_factory prepare candidate generation (map_option (gr_config \<circ> snd) previous) factory
      (bs_heap s, entries) = ((hp, entries'), stop)" by (metis surj_pair)
  obtain new where "hp_entries hp = hp_entries (bs_heap s) @ new"
    and e: "entries' = entries @ [length (hp_entries (bs_heap s)) ..< length (hp_entries hp)]"
    using build_factory_extends [OF f] by (auto simp: extends_def)
  then have e': "distinct entries'" "\<forall>a \<in> set entries'. a < length (hp_entries hp)" using Cons.prems(3,4) by force+
  show ?case
  proof (cases stop)
    case None
    then show ?thesis using Cons.IH [of entries' "s\<lparr>bs_heap := hp\<rparr>"] Cons.prems f e' by simp
  next
    case (Some cause)
    then show ?thesis
      using Cons.prems f e'(1) abandon_build_distinct [of "s\<lparr>bs_heap := hp\<rparr>" entries'] by auto
  qed
qed

lemma minv_New: "New prepare ok ctx now initial factories options = (Some s, err) \<Longrightarrow> minv s"
proof -
  assume new: "New prepare ok ctx now initial factories options = (Some s, err)"
  let ?b0 = "\<lparr>bs_heap = empty_heap, bs_pending = [], bs_reports = empty_batch\<rparr>"
  obtain opts fs where fs: "newManager factories options = Inr (opts, fs)" and v: "validateConfig initial = None"
    using new by (auto simp: New_def split: sum.splits option.splits)
  obtain b r where build: "build_from prepare ok ctx now initial 1 None fs [] ?b0 = (b, r)" by fastforce
  have result: "case r of Inl err \<Rightarrow> abandoned ?b0 b \<and> ge_code err = GraphInitialization | Inr g \<Rightarrow> built ?b0 fs b g"
    using build_result [OF _ build] heap_ok_empty by simp
  show ?thesis
  proof (cases r)
    case (Inl e)
    then have s: "s = (blank_manager fs (bs_heap b) (bs_pending b))\<lparr>mg_closed := True\<rparr>"
      using new fs v build by (simp add: New_def split: if_splits)
    have "\<forall>batch \<in> set (bs_pending b). distinct batch" using build_from_distinct [OF build] by simp
    then show ?thesis
      unfolding s using result Inl by (intro minv_closed_blank) (auto simp: abandoned_def)
  next
    case (Inr g)
    then have "launch now fs (bs_heap b) g = (s, err)" using new fs v build by (auto simp: New_def map_prod_def split: prod.splits)
    moreover have "g = new_graph (bs_heap b) initial 1 (gr_components g)" using build_from_graph build Inr by blast
    moreover have "built ?b0 fs b g" using result Inr by simp
    ultimately show ?thesis using minv_launch by blast
  qed
qed

lemma minv_reach: "mreach s \<Longrightarrow> minv s"
  by (induction rule: mreach.induct) (auto intro: minv_New minv_mstep)

subsection \<open>Reports of the manager\<close>

text \<open>The batches that are numbered and not handed over yet: at the end of a transaction, or in a cleanup goroutine.\<close>

fun waiter_batch :: "async_pc \<Rightarrow> reportBatch list" where
  "waiter_batch (Y_Dispatch g batch) = [batch]"
| "waiter_batch pc = []"

definition in_flight :: "Manager \<Rightarrow> reportBatch list" where
  "in_flight s = map fst (mg_handover s) @ concat (map waiter_batch (mg_waiters s))"

definition reports_of :: "Manager \<Rightarrow> reports" where
  "reports_of s = (mg_spool s, mg_reporter s, in_flight s)"

text \<open>The reports that a transaction collects are not numbered before its end.\<close>

fun tx_reports :: "tx_pc \<Rightarrow> reportBatch" where
  "tx_reports (T_Build candidate old factories entries reports) = reports"
| "tx_reports (T_Abandon name cause old entries reports) = reports"
| "tx_reports (T_Publish candidate old entries reports) = reports"
| "tx_reports (T_Activate new old reports) = reports"
| "tx_reports (T_Ready new old reports) = reports"
| "tx_reports (T_Retire cause old reports) = reports"
| "tx_reports (T_Wait cause old reports) = reports"
| "tx_reports (T_Finish result reports) = reports"
| "tx_reports pc = empty_batch"

lemma unnumbered [simp]:
  "rb_sequence (addHealth b g n now code outcome field component) = rb_sequence b"
  "rb_sequence (addCompliance b g n now code outcome field component) = rb_sequence b"
  "rb_sequence empty_batch = 0"
  "rb_sequence (addRejected s now b h err component) = rb_sequence b"
  "rb_sequence (drain_reports s now b g component) = rb_sequence b"
  by (simp_all add: addHealth_def addCompliance_def add_envelope_def empty_batch_def addRejected_def drain_reports_def Let_def)

lemma abandon_unnumbered: "rb_sequence (bs_reports (abandon_build ok previous now entries b)) = rb_sequence (bs_reports b)"
  by (auto simp: abandon_build_def split: prod.splits option.splits)

lemma tx_reports_unnumbered:
  assumes "tx_step ev s (mg_tx s) = Some s'" "rb_sequence (tx_reports (mg_tx s)) = 0"
  shows "rb_sequence (tx_reports (mg_tx s')) = 0"
proof (cases "mg_tx s")
  case (T_Reload candidate)
  then show ?thesis using assms by (auto simp: reload_checks_def Let_def split: option.splits)
next
  case (T_Build candidate old factories entries reports)
  then show ?thesis using assms by (cases factories) (auto split: option.splits prod.splits)
next
  case (T_Abandon name cause old entries reports)
  then show ?thesis using assms by (auto simp: Let_def abandon_unnumbered)
next
  case (T_Wait cause old reports)
  then show ?thesis using assms by (auto simp: retired_pc_def Let_def split: if_splits prod.splits retire_cause.splits)
next
  case (T_Publish candidate old entries reports)
  then show ?thesis using assms by (auto simp: Let_def)
qed (use assms in \<open>auto split: if_splits prod.splits option.splits\<close>)

lemma rsteps_one: "rstep s s' \<Longrightarrow> rsteps s s'"
  using rsteps_step [OF rsteps_refl] .

lemma concat_update:
  "i < length xs \<Longrightarrow> concat (map f (xs[i := x])) = concat (map f (take i xs)) @ f x @ concat (map f (drop (Suc i) xs))"
  by (simp add: upd_conv_take_nth_drop)

lemma concat_split:
  "i < length xs \<Longrightarrow> concat (map f xs) = concat (map f (take i xs)) @ f (xs ! i) @ concat (map f (drop (Suc i) xs))"
  by (metis concat_update list_update_id)

lemma tx_step_reports:
  assumes "tx_step ev s (mg_tx s) = Some s'" "rb_sequence (tx_reports (mg_tx s)) = 0"
  shows "rsteps (reports_of s) (reports_of s')"
proof (cases "\<exists>result reports. mg_tx s = T_Finish result reports")
  case True
  then obtain result reports where tx: "mg_tx s = T_Finish result reports" by blast
  obtain sp batch where seq: "sequenceReports (mg_spool s) reports = (sp, batch)" by fastforce
  have "rb_sequence reports = 0" using assms(2) tx by simp
  from r_sequence [OF this seq, of "mg_reporter s" "map fst (mg_handover s)" "concat (map waiter_batch (mg_waiters s))"]
  show ?thesis using assms(1) tx seq by (intro rsteps_one) (auto simp: reports_of_def in_flight_def)
next
  case False
  then have "reports_of s' = reports_of s"
    using assms(1)
    by (cases "mg_tx s"; cases "tx_entries (mg_tx s)")
      (auto simp: reports_of_def in_flight_def Let_def set_activation_def elim!: tx_step.elims split: if_splits prod.splits option.splits)
  then show ?thesis by (simp add: rsteps_refl)
qed

lemma async_step_reports:
  assumes i: "i < length (mg_waiters s)" and step: "async_step ev s (mg_waiters s ! i) = Some (s', pc)"
  shows "rsteps (reports_of s) (reports_of (s'\<lparr>mg_waiters := (mg_waiters s)[i := pc]\<rparr>))"
proof -
  let ?p = "map fst (mg_handover s) @ concat (map waiter_batch (take i (mg_waiters s)))" and ?q = "concat (map waiter_batch (drop (Suc i) (mg_waiters s)))"
  have flight: "in_flight s = ?p @ waiter_batch (mg_waiters s ! i) @ ?q" using concat_split [OF i] by (simp add: in_flight_def)
  have same: ?thesis if "waiter_batch pc = []" "waiter_batch (mg_waiters s ! i) = []" "mg_spool s' = mg_spool s"
    "mg_reporter s' = mg_reporter s" "mg_handover s' = mg_handover s"
  proof -
    have "reports_of (s'\<lparr>mg_waiters := (mg_waiters s)[i := pc]\<rparr>) = reports_of s"
      using flight that by (simp add: reports_of_def) (simp add: in_flight_def concat_update [OF i])
    then show ?thesis by (simp add: rsteps_refl)
  qed
  show ?thesis
  proof (cases "mg_waiters s ! i")
    case (Y_Report g rg component)
    define b where "b = drain_reports s (ev_now ev) empty_batch (Some (case mg_active s of None \<Rightarrow> rg | Some a \<Rightarrow> a)) component"
    obtain sp batch where seq: "sequenceReports (mg_spool s) b = (sp, batch)" by fastforce
    have b: "rb_sequence b = 0" by (simp add: b_def)
    have s': "s' = s\<lparr>mg_spool := sp\<rparr>" "pc = Y_Dispatch g batch" using step Y_Report seq by (auto simp: b_def Let_def)
    from r_sequence [OF b seq, of "mg_reporter s" ?p ?q] show ?thesis
      by (intro rsteps_one) (simp add: reports_of_def flight Y_Report s', simp add: in_flight_def concat_update [OF i])
  next
    case (Y_Dispatch g batch)
    obtain sp r where dis: "dispatchReports (mg_spool s) batch = (sp, r)" by fastforce
    obtain ch where s': "s' = s\<lparr>mg_spool := sp, mg_checks := ch\<rparr>" "pc = Y_Schedule g" using step Y_Dispatch dis by auto
    from r_dispatch [OF _ dis, of "?p @ batch # ?q" ?p ?q "mg_reporter s"] show ?thesis
      by (intro rsteps_one) (simp add: reports_of_def flight Y_Dispatch s', simp add: in_flight_def concat_update [OF i])
  next
    case (Y_Wait g rg)
    then show ?thesis using step by (intro same) (auto split: if_splits prod.splits)
  next
    case (Y_Schedule g)
    then show ?thesis using step by (intro same) auto
  next
    case Y_End
    then show ?thesis using step by (intro same) auto
  next
    case Y_Done
    then show ?thesis using step by simp
  qed
qed

lemma check_step_reports:
  assumes "check_step s pc = Some (s', pc')"
  shows "rsteps (reports_of s) (reports_of (s'\<lparr>mg_checks := cs\<rparr>))"
proof (cases "pc = C_Request")
  case True
  then show ?thesis using assms r_close [of "mg_spool s" "mg_reporter s" "in_flight s"]
    by (intro rsteps_one) (auto simp: reports_of_def in_flight_def)
next
  case False
  then have "reports_of (s'\<lparr>mg_checks := cs\<rparr>) = reports_of s" using assms by (cases pc) (auto simp: reports_of_def in_flight_def)
  then show ?thesis by (simp add: rsteps_refl)
qed

lemma handover_reports:
  assumes "i < length (mg_handover s)"
  shows "rsteps (reports_of s) (reports_of (handover_step s i))"
proof -
  obtain batch closing where b: "mg_handover s ! i = (batch, closing)" by fastforce
  obtain sp r where dis: "dispatchReports (mg_spool s) batch = (sp, r)" by fastforce
  let ?p = "map fst (take i (mg_handover s))" and ?q = "map fst (drop (Suc i) (mg_handover s)) @ concat (map waiter_batch (mg_waiters s))"
  have flight: "in_flight s = ?p @ batch # ?q"
    using id_take_nth_drop [OF assms] b by (simp add: in_flight_def) (metis fst_conv list.simps(9) map_append append_Cons append_assoc)
  from r_dispatch [OF _ dis, of "?p @ batch # ?q" ?p ?q "mg_reporter s"] show ?thesis
    by (intro rsteps_one) (simp add: reports_of_def flight, simp add: handover_step_def b dis in_flight_def)
qed

lemma reporter_reports:
  assumes "reporter_step good (mg_spool s) (mg_reporter s) = Some (sp, pc)"
  shows "rsteps (reports_of s) (reports_of (s\<lparr>mg_spool := sp, mg_reporter := pc\<rparr>))"
  using assms
  by (cases "mg_reporter s") (auto simp: reports_of_def in_flight_def intro!: rsteps_one intro: r_top r_deliver r_retry r_wake split: if_splits)

lemma mstep_reports:
  assumes "mstep s s'" "rb_sequence (tx_reports (mg_tx s)) = 0"
  shows "rsteps (reports_of s) (reports_of s') \<and> rb_sequence (tx_reports (mg_tx s')) = 0"
  using assms
proof (induction rule: mstep.induct)
  case (m_acquire i s s' pc)
  then have "reports_of (s'\<lparr>mg_acquirers := (mg_acquirers s)[i := pc]\<rparr>) = reports_of s" "mg_tx s' = mg_tx s"
    by (cases "mg_acquirers s ! i"; auto simp: reports_of_def in_flight_def set_activation_def split: prod.splits acquire_result.splits if_splits)+
  then show ?case using m_acquire by (simp add: rsteps_refl)
next
  case (m_tx ev s s')
  then show ?case using tx_step_reports tx_reports_unnumbered by blast
next
  case (m_async i s ev s' pc)
  have "mg_tx s' = mg_tx s" using m_async(2) by (cases "mg_waiters s ! i") (auto simp: Let_def split: if_splits prod.splits)
  then show ?case using async_step_reports m_async by simp
next
  case (m_retry i s ev)
  have "reports_of (retryCleanup_step ev s i) = reports_of s" "mg_tx (retryCleanup_step ev s i) = mg_tx s"
    by (auto simp: retryCleanup_step_def reports_of_def in_flight_def split: prod.splits)
  then show ?case using m_retry by (simp add: rsteps_refl)
next
  case (m_handover i s)
  have "mg_tx (handover_step s i) = mg_tx s" by (auto simp: handover_step_def split: prod.splits)
  then show ?case using handover_reports m_handover by simp
next
  case (m_check i s s' pc)
  have "mg_tx s' = mg_tx s" using m_check(2) by (cases "mg_checks s ! i") auto
  then show ?case using check_step_reports m_check by simp
next
  case (m_reporter good s sp pc)
  then show ?case using reporter_reports by simp
qed (simp_all add: reports_of_def in_flight_def rsteps_refl)

lemma New_reports:
  assumes "New prepare ok ctx now initial factories options = (Some s, err)"
  shows "rreach (reports_of s) \<and> rb_sequence (tx_reports (mg_tx s)) = 0"
proof -
  have launch: "rreach (reports_of m) \<and> rb_sequence (tx_reports (mg_tx m)) = 0" if run: "launch now fs hp g = (m, e)" for fs hp g m e
  proof -
    obtain sp where "m = (blank_manager fs (activate_entries (gr_components g) hp) [])\<lparr>mg_graphs := [g\<lparr>gr_activation :=
        finishActivation (gr_activation g)\<rparr>], mg_active := Some 0, mg_spool := sp, mg_reporter := R_Top 1\<rparr>"
      and "rsteps (new_spool, R_NotStarted, []) (sp, R_Top 1, [])"
      using first_report_accepted [of now fs hp g] run by auto
    then show ?thesis using rreach_rsteps rreach_init by (auto simp: reports_of_def in_flight_def blank_manager_def)
  qed
  have closed: "rreach (reports_of ((blank_manager fs hp p)\<lparr>mg_closed := True\<rparr>)) \<and>
      rb_sequence (tx_reports (mg_tx ((blank_manager fs hp p)\<lparr>mg_closed := True\<rparr>))) = 0" for fs hp p
    using rreach_init by (simp add: reports_of_def in_flight_def blank_manager_def)
  show ?thesis
    using assms launch closed by (auto simp: New_def map_prod_def split: sum.splits option.splits prod.splits if_splits)
qed

lemma reach_reports: "mreach s \<Longrightarrow> rreach (reports_of s) \<and> rb_sequence (tx_reports (mg_tx s)) = 0"
proof (induction rule: mreach.induct)
  case (mreach_new prepare ok ctx now initial factories options s err)
  then show ?case by (rule New_reports)
next
  case (mreach_step s s')
  then show ?case using mstep_reports rreach_rsteps by blast
qed

subsection \<open>What producers may rely on\<close>

text \<open>
  C3.  A lease pins a complete generation.  In every reachable state, whatever reloads, closings, timeouts and cleanup retries have
  happened, each component that the generation of a live lease names is valid, activated, still taking work and not
  closed, and the lease finds it: no component is stopped or closed under a live lease.
\<close>

theorem lease_pins_generation:
  assumes "mreach s" and "i < length (mg_leases s)" and "le_state (mg_leases s ! i) = LeaseLive"
    and "map_of (gr_byName (graph s (le_graph (mg_leases s ! i)))) name = Some a"
  shows "Lease_Component s (mg_leases s ! i) name = Some (ce_component (entry (mg_heap s) a)) \<and>
    validComponent (ce_component (entry (mg_heap s) a)) \<and> ce_started (entry (mg_heap s) a) \<and>
    \<not> ce_stopped (entry (mg_heap s) a) \<and> \<not> ce_closed (entry (mg_heap s) a)"
proof -
  let ?g = "le_graph (mg_leases s ! i)"
  have inv: "minv s" using minv_reach [OF assms(1)] .
  have g: "?g < length (mg_graphs s)" using lease_mem [OF inv assms(2)] .
  have users: "0 < ga_users (activation s ?g)" using lease_holds [OF inv assms(2)] assms(3) by simp
  then have "\<not> drained s ?g" by (simp add: rd.drained_def)
  moreover have "ga_ready (activation s ?g)" using inv g users by (auto simp: minv_def users_ok_def)
  moreover have "a \<in> set (components s ?g)" using inv g assms(4) by (auto simp: minv_def components_ok_def)
  ultimately have "usable (entry (mg_heap s) a)" using inv g by (auto simp: minv_def entries_ok_def)
  then show ?thesis using assms(3,4) by (simp add: Lease_Component_def usable_def prepared_def Let_def)
qed

text \<open>
  The manager's reports reach the reporter in the order in which the transactions finished, each once, with no gap: the accepted
  envelopes are an initial part of all numbered ones and contain every completed batch, and as long as the spool is open every
  numbered batch is completed, in delivery, spooled or still in flight.
\<close>

theorem manager_reports_in_order:
  assumes "mreach s" and "length (sp_batches (mg_spool s)) < uint64_range"
  shows "prefix (sp_sent (mg_spool s)) (concat (map rb_envelopes (sp_batches (mg_spool s)))) \<and>
    prefix (concat (map rb_envelopes (take (unat (sp_completed (mg_spool s))) (sp_batches (mg_spool s))))) (sp_sent (mg_spool s)) \<and>
    (\<not> sp_closed (mg_spool s) \<longrightarrow> (\<forall>k < length (sp_batches (mg_spool s)).
       k < unat (sp_completed (mg_spool s)) + busy (mg_reporter s) \<or>
       sp_spool (mg_spool s) (rb_sequence (sp_batches (mg_spool s) ! k)) = Some (sp_batches (mg_spool s) ! k) \<or>
       sp_batches (mg_spool s) ! k \<in> set (in_flight s)))"
  using reports_delivered_in_order [of "mg_spool s" "mg_reporter s" "in_flight s"] reach_reports [OF assms(1)] assms(2)
  by (simp add: reports_of_def)

lemma msteps_reports:
  assumes "mstep\<^sup>*\<^sup>* s s'" "mreach s"
  shows "rsteps (reports_of s) (reports_of s')"
  using assms
proof (induction rule: rtranclp_induct)
  case base
  show ?case by (rule rsteps_refl)
next
  case (step y z)
  have "mreach y" using step(1,4) by (induction rule: rtranclp_induct) (auto intro: mreach_step)
  then have "rsteps (reports_of y) (reports_of z)" using mstep_reports [OF step(2)] reach_reports by blast
  then show ?case using step(3)[OF step(4)] by (induction rule: rsteps.induct) (auto intro: rsteps_step)
qed

text \<open>
  C22.  \<open>FlushReports\<close> keeps its promise: if a call that read its target in state \<open>s\<close> returns nil in a later state, whatever the manager did in
  between, then every report that was numbered before the call has been accepted by the reporter, in order.
\<close>

theorem flush_reports_delivered:
  assumes "mreach s" and "mstep\<^sup>*\<^sup>* s s'" and "length (sp_batches (mg_spool s')) < uint64_range"
    and "FlushReports_check (mg_spool s') (FlushReports_target (mg_spool s)) = FlushReturnsNil"
  shows "prefix (concat (map rb_envelopes (sp_batches (mg_spool s)))) (sp_sent (mg_spool s'))"
  using flush_means_delivered [of "reports_of s" "mg_spool s'" "mg_reporter s'" "in_flight s'"]
    msteps_reports [OF assms(2,1)] reach_reports [OF assms(1)] assms(3,4)
  by (simp add: reports_of_def)

text \<open>
  C23.  A component instance belongs to one generation at most: in every reachable state two entries that claim the same instance
  are the same entry, and the ownership table lists exactly the claimed instances, so that a factory that returns an instance
  which an active, retiring or rejected generation still owns is refused.
\<close>

theorem components_owned_once:
  assumes "mreach s"
  shows "(\<forall>a < length (hp_entries (mg_heap s)). \<forall>b < length (hp_entries (mg_heap s)).
      ce_claimed (entry (mg_heap s) a) \<longrightarrow> ce_claimed (entry (mg_heap s) b) \<longrightarrow>
      ce_component (entry (mg_heap s) a) = ce_component (entry (mg_heap s) b) \<longrightarrow> a = b) \<and>
    set (hp_owned (mg_heap s)) =
      {ce_identity (entry (mg_heap s) a) |a. a < length (hp_entries (mg_heap s)) \<and> ce_claimed (entry (mg_heap s) a)} \<and>
    (\<forall>g < length (mg_graphs s). \<forall>h < length (mg_graphs s). g \<noteq> h \<longrightarrow> set (components s g) \<inter> set (components s h) = {})"
proof -
  have inv: "minv s" using minv_reach [OF assms] .
  then have ok: "heap_ok (mg_heap s)" and comps: "components_ok s" by (simp_all add: minv_def)
  have same: "a = b" if ab: "a < length (hp_entries (mg_heap s))" "b < length (hp_entries (mg_heap s))"
    "ce_claimed (entry (mg_heap s) a)" "ce_claimed (entry (mg_heap s) b)"
    "ce_component (entry (mg_heap s) a) = ce_component (entry (mg_heap s) b)" for a b
  proof -
    have "ce_identity (entry (mg_heap s) a) = ce_identity (entry (mg_heap s) b)"
      using heap_ok_entry [OF ok ab(1)] heap_ok_entry [OF ok ab(2)] ab(3-5) by (simp add: entry_ok_def)
    then show ?thesis using heap_ok_unique [OF ok ab(1-4)] by simp
  qed
  have "set (hp_owned (mg_heap s)) =
      {ce_identity (entry (mg_heap s) a) |a. a < length (hp_entries (mg_heap s)) \<and> ce_claimed (entry (mg_heap s) a)}"
    using ok by (auto simp: heap_ok_def)
  then show ?thesis using same comps by (auto simp: components_ok_def)
qed

subsection \<open>A schedule that loses a report\<close>

text \<open>The steps of \<open>mstep\<close> as a function of a choice, to run schedules.\<close>

datatype choice =
    DoAcquireBegin
  | DoAcquire nat
  | DoReload GraphConfig
  | DoClose
  | DoTx Env
  | DoRetry Env nat
  | DoHandover nat
  | DoCheck nat
  | DoReporter bool

fun perform_choice :: "choice \<Rightarrow> Manager \<Rightarrow> Manager option" where
  "perform_choice DoAcquireBegin s = Some (s\<lparr>mg_acquirers := mg_acquirers s @ [A_Top]\<rparr>)"
| "perform_choice (DoAcquire i) s =
     (if i < length (mg_acquirers s) then
        (case acquire_step s (mg_acquirers s ! i) of
           None \<Rightarrow> None | Some (s', pc) \<Rightarrow> Some (s'\<lparr>mg_acquirers := (mg_acquirers s)[i := pc]\<rparr>))
      else None)"
| "perform_choice (DoReload candidate) s = (case mg_tx s of T_Idle \<Rightarrow> Some (s\<lparr>mg_tx := T_Reload candidate\<rparr>) | _ \<Rightarrow> None)"
| "perform_choice DoClose s = (case mg_tx s of T_Idle \<Rightarrow> Some (s\<lparr>mg_tx := T_Close\<rparr>) | _ \<Rightarrow> None)"
| "perform_choice (DoTx ev) s = tx_step ev s (mg_tx s)"
| "perform_choice (DoRetry ev i) s = (if i < length (mg_pending s) then Some (retryCleanup_step ev s i) else None)"
| "perform_choice (DoHandover i) s = (if i < length (mg_handover s) then Some (handover_step s i) else None)"
| "perform_choice (DoCheck i) s =
     (if i < length (mg_checks s) then
        (case check_step s (mg_checks s ! i) of
           None \<Rightarrow> None | Some (s', pc) \<Rightarrow> Some (s'\<lparr>mg_checks := (mg_checks s)[i := pc]\<rparr>))
      else None)"
| "perform_choice (DoReporter good) s =
     (case reporter_step good (mg_spool s) (mg_reporter s) of
        None \<Rightarrow> None | Some (sp, pc) \<Rightarrow> Some (s\<lparr>mg_spool := sp, mg_reporter := pc\<rparr>))"

fun run_choices :: "choice list \<Rightarrow> Manager \<Rightarrow> Manager option" where
  "run_choices [] s = Some s"
| "run_choices (c # cs) s = (case perform_choice c s of None \<Rightarrow> None | Some s' \<Rightarrow> run_choices cs s')"

lemma perform_choice_mstep: "perform_choice c s = Some s' \<Longrightarrow> mstep s s'"
  by (cases c) (auto intro: mstep.intros split: if_splits option.splits tx_pc.splits)

lemma run_choices_reach: "run_choices cs s = Some s' \<Longrightarrow> mreach s \<Longrightarrow> mreach s'"
  by (induction cs arbitrary: s) (auto split: option.splits dest: perform_choice_mstep intro: mreach_step)

definition sample_digest :: string where
  "sample_digest = replicate 64 (CHR ''a'')"

definition sample_graph_config :: GraphConfig where
  "sample_graph_config = ConfigFromPlan
     (Some \<lparr>gp_Digest = sample_digest, gp_Local = \<lparr>lo_Path = ''audit.db'', lo_JudgeBodiesPath = ''judge.db'', lo_RetentionDays = 7\<rparr>,
            gp_Destinations = []\<rparr>) False"

definition sample_factory :: Factory where
  "sample_factory = \<lparr>fa_Name = ''local'', fa_NeedsRebuild = None\<rparr>"

definition sample_options :: GraphOptions where
  "sample_options = \<lparr>og_DrainTimeout = 30 * Second, og_CleanupRetryDelay = Second, og_hasClock = True, og_hasDeadlines = True,
     og_hasRetryScheduler = True, og_hasReporter = True\<rparr>"

text \<open>Every \<open>Prepare\<close> returns a fresh component and registers nothing; \<open>fails\<close> tells whether closing components fails.\<close>

definition sample_prepare :: "Factory \<Rightarrow> BuildInput \<Rightarrow> Prepared" where
  "sample_prepare f input = \<lparr>pr_component = Pointer \<lparr>ci_typeName = ''queue'', ci_pointer = unat (bi_Generation input)\<rparr>,
     pr_registered = [], pr_error = None\<rparr>"

definition sample_ok :: "bool \<Rightarrow> answers" where
  "sample_ok fails a call = (case call of CallClose \<Rightarrow> \<not> fails | _ \<Rightarrow> True)"

definition sample_world :: "bool \<Rightarrow> Env" where
  "sample_world fails = \<lparr>ev_prepare = sample_prepare, ev_ok = sample_ok fails, ev_ctx = None, ev_now = 0, ev_timeout = False\<rparr>"

definition sample_manager :: "Manager option" where
  "sample_manager = fst (New sample_prepare (sample_ok False) None 0 sample_graph_config [Some sample_factory] sample_options)"

definition sample_schedule :: "choice list \<Rightarrow> Manager option" where
  "sample_schedule cs = (case sample_manager of None \<Rightarrow> None | Some s \<Rightarrow> run_choices cs s)"

lemma sample_schedule_reach: "sample_schedule cs = Some s \<Longrightarrow> mreach s"
proof -
  assume s: "sample_schedule cs = Some s"
  then obtain s0 where s0: "sample_manager = Some s0" "run_choices cs s0 = Some s" by (auto simp: sample_schedule_def split: option.splits)
  have "New sample_prepare (sample_ok False) None 0 sample_graph_config [Some sample_factory] sample_options =
      (Some s0, snd (New sample_prepare (sample_ok False) None 0 sample_graph_config [Some sample_factory] sample_options))"
    using s0(1) by (simp add: sample_manager_def prod_eq_iff)
  then have "mreach s0" by (rule mreach_new)
  then show ?thesis using run_choices_reach s0(2) by blast
qed

text \<open>
  A reload whose old component fails to close leaves a retry batch; \<open>Close\<close> starts; the retry succeeds and asks whether the reporter may stop,
  which it may; then the teardown of \<open>Close\<close> fails.
\<close>

definition lost_report_choices :: "choice list" where
  "lost_report_choices =
     [DoReload sample_graph_config] @ replicate 6 (DoTx (sample_world False)) @ [DoTx (sample_world False), DoTx (sample_world True),
      DoTx (sample_world False), DoHandover 0, DoClose] @ replicate 3 (DoTx (sample_world False)) @
     [DoRetry (sample_world False) 0, DoCheck 1, DoCheck 1, DoCheck 1, DoCheck 1,
      DoTx (sample_world True), DoTx (sample_world False), DoHandover 0] @ replicate 9 (DoReporter True)"

lemma stopped_reporter_silent:
  assumes "rsteps r r'" "fst (snd r) = R_Stopped" "rinv c r"
  shows "fst (snd r') = R_Stopped \<and> sp_sent (fst r') = sp_sent (fst r)"
proof -
  have "fst (snd r') = R_Stopped \<and> sp_sent (fst r') = sp_sent (fst r) \<and> sp_started (fst r')"
    using assms
  proof (induction rule: rsteps.induct)
    case (rsteps_refl s)
    then show ?case by (cases s) (simp add: rinv_def)
  next
    case (rsteps_step s s' s'')
    then have "fst (snd s') = R_Stopped" "sp_started (fst s')" "sp_sent (fst s') = sp_sent (fst s)" by simp_all
    from rsteps_step(2) this show ?case
      by (cases rule: rstep.cases)
        (auto simp: startReporter_def sequenceReports_def dispatchReports_def notifyReportSpoolLocked_def requestReporterClose_def Let_def
          split: if_splits)
  qed
  then show ?thesis by simp
qed

text \<open>The state that this schedule ends in.\<close>

definition report_lost :: "Manager \<Rightarrow> bool" where
  "report_lost s \<longleftrightarrow> (case mg_tx s of T_Idle \<Rightarrow> True | _ \<Rightarrow> False) \<and> (case mg_reporter s of R_Stopped \<Rightarrow> True | _ \<Rightarrow> False) \<and>
     in_flight s = [] \<and> length (sp_batches (mg_spool s)) = 3 \<and>
     map (rp_Code \<circ> re_report) (rb_envelopes (sp_batches (mg_spool s) ! 2)) = [ReportDrainFailed, ReportDrainFailed] \<and>
     (case sp_spool (mg_spool s) 3 of None \<Rightarrow> True | _ \<Rightarrow> False) \<and>
     sp_sent (mg_spool s) = concat (map rb_envelopes (take 2 (sp_batches (mg_spool s)))) \<and>
     FlushReports_check (mg_spool s) (FlushReports_target (mg_spool s)) = FlushWaits"

lemma lost_report_tx:
  "case sample_schedule lost_report_choices of None \<Rightarrow> False | Some s \<Rightarrow> (case mg_tx s of T_Idle \<Rightarrow> True | _ \<Rightarrow> False)"
  by code_simp

lemma lost_report_reporter:
  "case sample_schedule lost_report_choices of None \<Rightarrow> False | Some s \<Rightarrow> (case mg_reporter s of R_Stopped \<Rightarrow> True | _ \<Rightarrow> False)"
  by code_simp

lemma lost_report_flight:
  "case sample_schedule lost_report_choices of None \<Rightarrow> False | Some s \<Rightarrow> in_flight s = []"
  by code_simp

lemma lost_report_batches:
  "case sample_schedule lost_report_choices of None \<Rightarrow> False | Some s \<Rightarrow> length (sp_batches (mg_spool s)) = 3"
  by code_simp

lemma lost_report_codes:
  "case sample_schedule lost_report_choices of None \<Rightarrow> False | Some s \<Rightarrow> map (rp_Code \<circ> re_report) (rb_envelopes (sp_batches (mg_spool s) ! 2)) = [ReportDrainFailed, ReportDrainFailed]"
  by code_simp

lemma lost_report_spool:
  "case sample_schedule lost_report_choices of None \<Rightarrow> False | Some s \<Rightarrow> (case sp_spool (mg_spool s) 3 of None \<Rightarrow> True | _ \<Rightarrow> False)"
  by code_simp

lemma lost_report_sent:
  "case sample_schedule lost_report_choices of None \<Rightarrow> False | Some s \<Rightarrow> sp_sent (mg_spool s) = concat (map rb_envelopes (take 2 (sp_batches (mg_spool s))))"
  by code_simp

lemma lost_report_flush:
  "case sample_schedule lost_report_choices of None \<Rightarrow> False | Some s \<Rightarrow> FlushReports_check (mg_spool s) (FlushReports_target (mg_spool s)) = FlushWaits"
  by code_simp

lemma lost_report_run: "case sample_schedule lost_report_choices of None \<Rightarrow> False | Some s \<Rightarrow> report_lost s"
  using lost_report_tx lost_report_reporter lost_report_flight lost_report_batches lost_report_codes lost_report_spool lost_report_sent lost_report_flush
  by (cases "sample_schedule lost_report_choices") (simp_all add: report_lost_def)

text \<open>
  The report spool is called lossless, yet a closing manager can lose the report of its own failure.  In this reachable state the teardown
  of \<open>Close\<close> has failed and its two reports are numbered as the third batch, but a cleanup retry that finished in the meantime had found the
  manager closed, no batch pending and every numbered batch accepted, and has closed the spool.  The batch was refused, no goroutine holds it,
  and no later step delivers it; \<open>FlushReports\<close> waits for it in vain.
\<close>

theorem close_report_lost:
  "\<exists>s. mreach s \<and> mg_tx s = T_Idle \<and> in_flight s = [] \<and> length (sp_batches (mg_spool s)) = 3 \<and>
     map (rp_Code \<circ> re_report) (rb_envelopes (sp_batches (mg_spool s) ! 2)) = [ReportDrainFailed, ReportDrainFailed] \<and>
     sp_spool (mg_spool s) 3 = None \<and> sp_sent (mg_spool s) = concat (map rb_envelopes (take 2 (sp_batches (mg_spool s)))) \<and>
     FlushReports_check (mg_spool s) (FlushReports_target (mg_spool s)) = FlushWaits \<and>
     (\<nexists>s'. mstep\<^sup>*\<^sup>* s s' \<and> sp_sent (mg_spool s') \<noteq> sp_sent (mg_spool s))"
proof -
  obtain s where s: "sample_schedule lost_report_choices = Some s" "report_lost s" using lost_report_run by (auto split: option.splits)
  have reach: "mreach s" using sample_schedule_reach s(1) .
  have stopped: "mg_reporter s = R_Stopped" and len: "length (sp_batches (mg_spool s)) = 3"
    using s(2) by (auto simp: report_lost_def split: reporter_pc.splits)
  have "length (sp_batches (fst (reports_of s))) < uint64_range" using len by (simp add: reports_of_def uint64_range_def)
  then obtain c where inv: "rinv c (reports_of s)" using rinv_reach reach_reports [OF reach] by blast
  have silent: "sp_sent (mg_spool s') = sp_sent (mg_spool s)" if run: "mstep\<^sup>*\<^sup>* s s'" for s'
    using stopped_reporter_silent [OF msteps_reports [OF run reach] _ inv] stopped by (simp add: reports_of_def)
  have idle: "mg_tx s = T_Idle" "sp_spool (mg_spool s) 3 = None"
    using s(2) by (auto simp: report_lost_def split: tx_pc.splits option.splits)
  have quiet: "\<nexists>s'. mstep\<^sup>*\<^sup>* s s' \<and> sp_sent (mg_spool s') \<noteq> sp_sent (mg_spool s)" using silent by metis
  show ?thesis
    using s(2) [unfolded report_lost_def]
    by (elim conjE, intro exI [of _ s]) (intro conjI reach idle quiet; assumption)
qed

subsection \<open>Witnesses\<close>

text \<open>One goroutine acquires a lease of the first generation; the reload that follows must wait for it.\<close>

definition leased_choices :: "choice list" where
  "leased_choices = DoAcquireBegin # replicate 5 (DoAcquire 0)"

lemma leased_live:
  "case sample_schedule leased_choices of None \<Rightarrow> False | Some s \<Rightarrow> 0 < length (mg_leases s)"
  "case sample_schedule leased_choices of None \<Rightarrow> False | Some s \<Rightarrow> le_state (mg_leases s ! 0) = LeaseLive"
  "case sample_schedule leased_choices of None \<Rightarrow> False | Some s \<Rightarrow>
     map_of (gr_byName (graph s (le_graph (mg_leases s ! 0)))) ''local'' = Some 0"
  by (code_simp, code_simp, code_simp)

theorem lease_pins_generation_witness:
  "\<exists>s. mreach s \<and> le_state (mg_leases s ! 0) = LeaseLive \<and>
     Lease_Component s (mg_leases s ! 0) ''local'' = Some (ce_component (entry (mg_heap s) 0))"
proof -
  obtain s where s: "sample_schedule leased_choices = Some s" using leased_live(1) by (cases "sample_schedule leased_choices") simp_all
  then have reach: "mreach s" by (rule sample_schedule_reach)
  note live = leased_live [unfolded s option.case]
  show ?thesis using lease_pins_generation [OF reach live] reach live(2) by blast
qed

text \<open>The reports of the schedule above: three batches, two of them delivered.\<close>

theorem manager_reports_in_order_witness:
  "\<exists>s. mreach s \<and> length (sp_batches (mg_spool s)) = 3 \<and>
     prefix (sp_sent (mg_spool s)) (concat (map rb_envelopes (sp_batches (mg_spool s))))"
proof -
  obtain s where s: "sample_schedule lost_report_choices = Some s"
    using lost_report_batches by (cases "sample_schedule lost_report_choices") simp_all
  then have reach: "mreach s" by (rule sample_schedule_reach)
  note batches = lost_report_batches [unfolded s option.case]
  have "length (sp_batches (mg_spool s)) < uint64_range" by (simp add: batches uint64_range_def)
  then show ?thesis using manager_reports_in_order [OF reach] reach batches by blast
qed

text \<open>The worker takes the report of the first generation and delivers it; a flush that began before returns nil.\<close>

lemma run_choices_steps: "run_choices cs s = Some s' \<Longrightarrow> mstep\<^sup>*\<^sup>* s s'"
  by (induction cs arbitrary: s)
    (auto split: option.splits dest: perform_choice_mstep intro: converse_rtranclp_into_rtranclp)

lemma flushed_facts:
  "case sample_schedule [] of None \<Rightarrow> False | Some s \<Rightarrow>
     (case run_choices (replicate 3 (DoReporter True)) s of None \<Rightarrow> False | Some s' \<Rightarrow>
        FlushReports_check (mg_spool s') (FlushReports_target (mg_spool s)) = FlushReturnsNil)"
  "case sample_schedule [] of None \<Rightarrow> False | Some s \<Rightarrow>
     (case run_choices (replicate 3 (DoReporter True)) s of None \<Rightarrow> False | Some s' \<Rightarrow>
        length (sp_batches (mg_spool s')) = 1 \<and> length (concat (map rb_envelopes (sp_batches (mg_spool s)))) = 1)"
  by (code_simp, code_simp)

theorem flush_reports_delivered_witness:
  "\<exists>s s'. mreach s \<and> mstep\<^sup>*\<^sup>* s s' \<and> length (concat (map rb_envelopes (sp_batches (mg_spool s)))) = 1 \<and>
     prefix (concat (map rb_envelopes (sp_batches (mg_spool s)))) (sp_sent (mg_spool s'))"
proof -
  obtain s where s: "sample_schedule [] = Some s" using flushed_facts(1) by (cases "sample_schedule []") simp_all
  obtain s' where s': "run_choices (replicate 3 (DoReporter True)) s = Some s'"
    using flushed_facts(1) s by (cases "run_choices (replicate 3 (DoReporter True)) s") simp_all
  note facts = flushed_facts [unfolded s option.case s']
  have reach: "mreach s" using s by (rule sample_schedule_reach)
  have steps: "mstep\<^sup>*\<^sup>* s s'" using s' by (rule run_choices_steps)
  have "length (sp_batches (mg_spool s')) < uint64_range" using facts(2) by (simp add: uint64_range_def)
  from flush_reports_delivered [OF reach steps this facts(1)] show ?thesis using reach steps facts(2) by blast
qed

text \<open>After a completed reload the heap holds the components of two generations.\<close>

lemma reloaded_entries:
  "case sample_schedule lost_report_choices of None \<Rightarrow> False | Some s \<Rightarrow> length (mg_graphs s) = 2"
  "case sample_schedule lost_report_choices of None \<Rightarrow> False | Some s \<Rightarrow> components s 0 = [0] \<and> components s 1 = [1]"
  by (code_simp, code_simp)

theorem components_owned_once_witness:
  "\<exists>s. mreach s \<and> components s 0 = [0] \<and> components s 1 = [1] \<and> set (components s 0) \<inter> set (components s 1) = {}"
proof -
  obtain s where s: "sample_schedule lost_report_choices = Some s"
    using lost_report_batches by (cases "sample_schedule lost_report_choices") simp_all
  then have reach: "mreach s" by (rule sample_schedule_reach)
  note two = reloaded_entries [unfolded s option.case]
  have "0 < length (mg_graphs s)" "1 < length (mg_graphs s)" using two(1) by simp_all
  then show ?thesis using components_owned_once [OF reach] reach two(2) by (metis zero_neq_one)
qed

end
