(* ===== verification/RuntimeGraph_Cleanup.thy ===== *)
theory RuntimeGraph_Cleanup
  imports RuntimeGraph_Safety
begin

text \<open>
  Nothing that a generation acquired is forgotten.  In every reachable state of the runtime graph manager an entry that still
  owns something belongs to the active graph, to the running transaction, to a cleanup goroutine or to a retry batch;
  \<open>WaitCleanup\<close> (\<open>manager.go\<close>) is read against this.
\<close>

subsection \<open>Who accounts for an entry\<close>

text \<open>The condition under which \<open>WaitCleanup\<close> returns nil.\<close>

definition WaitCleanup_returns :: "Manager \<Rightarrow> bool" where
  "WaitCleanup_returns s \<longleftrightarrow> mg_pending s = [] \<and> mg_async s = 0"

fun waiter_graph :: "async_pc \<Rightarrow> nat option" where
  "waiter_graph (Y_Wait g rg) = Some g"
| "waiter_graph (Y_Report g rg component) = Some g"
| "waiter_graph (Y_Dispatch g batch) = Some g"
| "waiter_graph (Y_Schedule g) = Some g"
| "waiter_graph pc = None"

fun tx_retires :: "tx_pc \<Rightarrow> nat option" where
  "tx_retires (T_Activate new old reports) = Some old"
| "tx_retires (T_Ready new old reports) = Some old"
| "tx_retires (T_Retire cause old reports) = Some old"
| "tx_retires (T_Wait cause old reports) = Some old"
| "tx_retires pc = None"

definition keepers :: "Manager \<Rightarrow> nat set" where
  "keepers s = set_option (mg_active s) \<union> (\<Union>w \<in> set (mg_waiters s). set_option (waiter_graph w)) \<union> set_option (tx_retires (mg_tx s))"

definition accounted :: "Manager \<Rightarrow> nat \<Rightarrow> bool" where
  "accounted s a \<longleftrightarrow> (\<exists>g \<in> keepers s. a \<in> set (components s g)) \<or> (\<exists>b \<in> set (mg_pending s). a \<in> set b) \<or>
     a \<in> set (tx_entries (mg_tx s))"

definition owners_ok :: "Manager \<Rightarrow> bool" where
  "owners_ok s \<longleftrightarrow> (\<forall>a < length (hp_entries (mg_heap s)). owns (entry (mg_heap s) a) \<longrightarrow> accounted s a)"

definition closing_ok :: "Manager \<Rightarrow> bool" where
  "closing_ok s \<longleftrightarrow> mg_async s = cnt (\<lambda>w. w \<noteq> Y_Done) (mg_waiters s) \<and>
     (mg_closed s \<longrightarrow> mg_tx s \<noteq> T_Detach \<longrightarrow> mg_active s = None)"

definition ledger_ok :: "Manager \<Rightarrow> bool" where
  "ledger_ok s \<longleftrightarrow> owners_ok s \<and> closing_ok s"

lemma components_set_activation [simp]: "components (set_activation s g a) h = components s h"
  by (cases "g < length (mg_graphs s)"; cases "h = g") (simp_all add: set_activation_def list_update_beyond)

lemma owns_torn: "owns (torn_entry ok a e) \<Longrightarrow> owns e"
  by (auto simp: owns_def torn_entry_def finished_entry_def stopped_entry_def failed_children_def Let_def split: if_splits)

lemma owns_teardown:
  assumes "teardownEntries ok hp entries = (hp', r, calls)" "distinct entries" "\<forall>a \<in> set entries. a < length (hp_entries hp)"
    and "owns (entry hp' a)"
  shows "owns (entry hp a)"
  using teardownEntries_effect(2) [OF assms(1-3), of a] assms(4) owns_torn by (auto split: if_splits)

lemma released_teardown:
  assumes "heap_ok hp" "distinct entries" "\<forall>a \<in> set entries. a < length (hp_entries hp)"
    "teardownEntries ok hp entries = (hp', r, calls)" "\<not> cu_failed r" "owns (entry hp' a)"
  shows "a \<notin> set entries"
  using teardown_releases [OF assms(1-5)] assms(6) by (auto simp: hasCleanupOwnership_iff)

lemma schedule_keeps:
  "owns (entry hp a) \<Longrightarrow> a \<in> set entries \<Longrightarrow> \<exists>b \<in> set (scheduleCleanupRetry hp pending entries). a \<in> set b"
  "b \<in> set pending \<Longrightarrow> b \<in> set (scheduleCleanupRetry hp pending entries)"
  by (auto simp: scheduleCleanupRetry_def hasCleanupOwnership_iff)

text \<open>
  A step that tears down a batch keeps the ledger if it drops no other entries, and hands the batch on if the teardown failed.
\<close>

lemma owners_teardown:
  assumes inv: "minv s" and ok: "owners_ok s" and batch: "in_heap s batch"
    and t: "teardownEntries ok (mg_heap s) batch = (hp, r, calls)" and s': "mg_heap s' = hp"
    and lost: "\<And>a. accounted s a \<Longrightarrow> accounted s' a \<or> a \<in> set batch"
    and kept: "\<And>a. a \<in> set batch \<Longrightarrow> owns (entry hp a) \<Longrightarrow> cu_failed r \<Longrightarrow> accounted s' a"
  shows "owners_ok s'"
proof -
  have b: "distinct batch" "\<forall>a \<in> set batch. a < length (hp_entries (mg_heap s))" "heap_ok (mg_heap s)"
    using batch inv by (simp_all add: in_heap_def minv_def)
  have "accounted s' a" if a: "a < length (hp_entries hp)" "owns (entry hp a)" for a
  proof (cases "a \<in> set batch")
    case True
    then show ?thesis using kept [OF _ a(2)] released_teardown [OF b(3,1,2) t _ a(2)] by blast
  next
    case False
    have "accounted s a"
      using ok a(1) owns_teardown [OF t b(1,2) a(2)] teardownEntries_effect(1) [OF t b(1,2)] by (simp add: owners_ok_def)
    then show ?thesis using lost False by blast
  qed
  then show ?thesis by (simp add: owners_ok_def s')
qed

text \<open>The steps of leases and acquirers change neither keepers nor entries.\<close>

lemma ledger_cong:
  assumes "ledger_ok s" "mg_active s' = mg_active s" "mg_waiters s' = mg_waiters s" "mg_tx s' = mg_tx s" "mg_pending s' = mg_pending s"
    "mg_heap s' = mg_heap s" "mg_async s' = mg_async s" "mg_closed s' = mg_closed s" "\<And>g. components s' g = components s g"
  shows "ledger_ok s'"
  using assms by (simp add: ledger_ok_def owners_ok_def closing_ok_def accounted_def keepers_def)

lemma acquire_same:
  assumes "acquire_step s pc = Some (s', pc')"
  shows "mg_active s' = mg_active s \<and> mg_waiters s' = mg_waiters s \<and> mg_tx s' = mg_tx s \<and> mg_pending s' = mg_pending s \<and>
    mg_heap s' = mg_heap s \<and> mg_async s' = mg_async s \<and> mg_closed s' = mg_closed s \<and> (\<forall>g. components s' g = components s g)"
  using assms by (cases pc) (auto split: prod.splits acquire_result.splits if_splits)

subsection \<open>The transaction\<close>

lemma ledger_tx:
  assumes "ledger_ok s" "tx_retires pc = tx_retires (mg_tx s)" "tx_entries pc = tx_entries (mg_tx s)" "mg_tx s \<noteq> T_Detach"
  shows "ledger_ok (s\<lparr>mg_tx := pc\<rparr>)"
  using assms by (simp add: ledger_ok_def owners_ok_def closing_ok_def accounted_def keepers_def)

lemma no_holding [simp]:
  "tx_retires (reload_checks ev s candidate) = None" "tx_entries (reload_checks ev s candidate) = []"
  "tx_retires (retired_pc ev s cause old reports cleanup) = None" "tx_entries (retired_pc ev s cause old reports cleanup) = []"
  "retired_pc ev s cause old reports cleanup \<noteq> T_Detach"
  by (auto simp: reload_checks_def retired_pc_def Let_def split: option.splits retire_cause.splits)

lemma in_heap_entries: "minv s \<Longrightarrow> in_heap s (tx_entries (mg_tx s))"
  using tx_private [of s] by (simp add: private_entries_def)

lemma in_heap_components: "minv s \<Longrightarrow> g < length (mg_graphs s) \<Longrightarrow> in_heap s (components s g)"
  by (simp add: minv_def components_ok_def)

lemma ledger_build:
  assumes ok: "ledger_ok s" and tx: "mg_tx s = T_Build candidate old (factory # factories) entries reports"
    and step: "tx_step ev s (mg_tx s) = Some s'"
  shows "ledger_ok s'"
proof -
  obtain hp entries' stop where f: "build_factory (ev_prepare ev) candidate (gr_generation (graph s old) + 1) (Some (gr_config (graph s old)))
      factory (mg_heap s, entries) = ((hp, entries'), stop)" by (metis surj_pair)
  obtain new where new: "hp_entries hp = hp_entries (mg_heap s) @ new"
    "entries' = entries @ [length (hp_entries (mg_heap s)) ..< length (hp_entries hp)]"
    using build_factory_extends [OF f] by (auto simp: extends_def)
  have s': "mg_graphs s' = mg_graphs s" "mg_active s' = mg_active s" "mg_waiters s' = mg_waiters s" "mg_async s' = mg_async s"
    "mg_closed s' = mg_closed s" "mg_pending s' = mg_pending s" "mg_heap s' = hp"
    and pc: "tx_entries (mg_tx s') = entries'" "tx_retires (mg_tx s') = None" "mg_tx s' \<noteq> T_Detach"
    using step by (auto simp: tx f split: option.splits)
  have same: "keepers s' = keepers s" using pc(2) by (simp add: s' keepers_def tx)
  have "accounted s' a" if "a < length (hp_entries hp)" "owns (entry hp a)" for a
  proof (cases "a < length (hp_entries (mg_heap s))")
    case True
    then have "accounted s a" using ok that by (simp add: ledger_ok_def owners_ok_def new(1) nth_append)
    then show ?thesis by (auto simp: accounted_def same s' pc new(2) tx)
  next
    case False
    then show ?thesis using that(1) by (simp add: accounted_def s' pc new(2))
  qed
  moreover have "closing_ok s'" using ok pc(3) by (simp add: ledger_ok_def closing_ok_def s' tx)
  ultimately show ?thesis by (simp add: ledger_ok_def owners_ok_def s')
qed

lemma ledger_abandon:
  assumes inv: "minv s" and ok: "ledger_ok s" and tx: "mg_tx s = T_Abandon name cause old entries reports"
    and step: "tx_step ev s (mg_tx s) = Some s'"
  shows "ledger_ok s'"
proof -
  obtain hp r calls where t: "teardownEntries (ev_ok ev) (mg_heap s) entries = (hp, r, calls)" by (metis prod_cases3)
  define pending where "pending = (if cu_failed r then scheduleCleanupRetry hp (mg_pending s) entries else mg_pending s)"
  have s': "mg_graphs s' = mg_graphs s" "mg_active s' = mg_active s" "mg_waiters s' = mg_waiters s" "mg_async s' = mg_async s"
    "mg_closed s' = mg_closed s" "mg_pending s' = pending" "mg_heap s' = hp"
    and pc: "tx_entries (mg_tx s') = []" "tx_retires (mg_tx s') = None" "mg_tx s' \<noteq> T_Detach"
    using step by (auto simp: tx Let_def abandon_build_def t pending_def)
  have "owners_ok s'"
  proof (rule owners_teardown [OF inv _ _ t])
    show "owners_ok s" "in_heap s entries" using ok in_heap_entries [OF inv] by (simp_all add: ledger_ok_def tx)
    show "accounted s' a \<or> a \<in> set entries" if "accounted s a" for a
      using that schedule_keeps(2) by (auto simp: accounted_def keepers_def s' tx pc pending_def)
    show "accounted s' a" if "a \<in> set entries" "owns (entry hp a)" "cu_failed r" for a
      using schedule_keeps(1) [of hp a entries "mg_pending s"] that by (auto simp: accounted_def s' pending_def)
  qed (simp add: s')
  moreover have "closing_ok s'" using ok pc(3) by (simp add: ledger_ok_def closing_ok_def s' tx)
  ultimately show ?thesis by (simp add: ledger_ok_def)
qed

lemma ledger_publish:
  assumes inv: "minv s" and ok: "ledger_ok s" and tx: "mg_tx s = T_Publish candidate old entries reports"
    and step: "tx_step ev s (mg_tx s) = Some s'"
  shows "ledger_ok s'"
proof -
  let ?n = "length (mg_graphs s)"
  have s': "mg_waiters s' = mg_waiters s" "mg_async s' = mg_async s" "mg_closed s' = mg_closed s" "mg_pending s' = mg_pending s"
      "mg_heap s' = mg_heap s" "mg_active s' = Some ?n"
    and tx': "tx_retires (mg_tx s') = Some old" "mg_tx s' \<noteq> T_Detach"
    and comp: "components s' ?n = entries" "\<And>g. g < ?n \<Longrightarrow> components s' g = components s g"
    using step by (auto simp: tx Let_def nth_append new_graph_def)
  have active: "mg_active s = Some old" using inv by (simp add: minv_def tx)
  have "g < ?n" if "w \<in> set (mg_waiters s)" "waiter_graph w = Some g" for w g
    using inv that by (cases w) (auto simp: minv_def refs_ok_def)
  moreover have "old < ?n" using inv by (simp add: minv_def tx serving_def)
  ultimately have keep: "keepers s' = insert ?n (keepers s)" "\<forall>g \<in> keepers s. g < ?n"
    by (auto simp: keepers_def s' tx' active tx)
  have "accounted s' a" if "accounted s a" for a
    using that keep(2) comp by (auto simp: accounted_def keep(1) s' tx)
  moreover have "\<not> mg_closed s" using ok by (simp add: ledger_ok_def closing_ok_def tx active)
  ultimately show ?thesis using ok by (simp add: ledger_ok_def owners_ok_def closing_ok_def s')
qed

lemma ledger_wait:
  assumes inv: "minv s" and ok: "ledger_ok s" and tx: "mg_tx s = T_Wait cause old reports"
    and step: "tx_step ev s (mg_tx s) = Some s'"
  shows "ledger_ok s'"
proof (cases "ev_timeout ev")
  case True
  let ?w = "Y_Wait old (case cause of ByReload new \<Rightarrow> new | ByClose \<Rightarrow> old)"
  have s': "mg_waiters s' = mg_waiters s @ [?w]" "mg_async s' = mg_async s + 1" "mg_closed s' = mg_closed s" "mg_pending s' = mg_pending s"
      "mg_heap s' = mg_heap s" "mg_active s' = mg_active s" "mg_graphs s' = mg_graphs s"
    and pc: "tx_entries (mg_tx s') = []" "tx_retires (mg_tx s') = None" "mg_tx s' \<noteq> T_Detach"
    using step True by (auto simp: tx)
  have "keepers s' = keepers s" by (auto simp: keepers_def s' pc tx)
  then show ?thesis using ok pc(1,3) by (simp add: ledger_ok_def owners_ok_def closing_ok_def accounted_def s' tx)
next
  case False
  obtain hp r calls where t: "teardownEntries (ev_ok ev) (mg_heap s) (components s old) = (hp, r, calls)" by (metis prod_cases3)
  define pending where "pending = (if cu_failed r then scheduleCleanupRetry hp (mg_pending s) (components s old) else mg_pending s)"
  have s': "mg_graphs s' = mg_graphs s" "mg_active s' = mg_active s" "mg_waiters s' = mg_waiters s" "mg_async s' = mg_async s"
      "mg_closed s' = mg_closed s" "mg_pending s' = pending" "mg_heap s' = hp"
    and pc: "tx_entries (mg_tx s') = []" "tx_retires (mg_tx s') = None" "mg_tx s' \<noteq> T_Detach"
    using step False by (auto simp: tx t pending_def split: if_splits)
  have "old < length (mg_graphs s)" using inv by (simp add: minv_def tx)
  then have heap: "in_heap s (components s old)" by (rule in_heap_components [OF inv])
  have "owners_ok s'"
  proof (rule owners_teardown [OF inv _ heap t])
    show "owners_ok s" using ok by (simp add: ledger_ok_def)
    show "accounted s' a \<or> a \<in> set (components s old)" if "accounted s a" for a
      using that schedule_keeps(2) by (auto simp: accounted_def keepers_def s' tx pc pending_def)
    show "accounted s' a" if "a \<in> set (components s old)" "owns (entry hp a)" "cu_failed r" for a
      using schedule_keeps(1) [of hp a "components s old" "mg_pending s"] that by (auto simp: accounted_def s' pending_def)
  qed (simp add: s')
  moreover have "closing_ok s'" using ok pc(3) by (simp add: ledger_ok_def closing_ok_def s' tx)
  ultimately show ?thesis by (simp add: ledger_ok_def)
qed

lemma owns_activate: "owns (entry (activate_entries entries hp) a) = owns (entry hp a)"
proof (induction entries arbitrary: hp)
  case (Cons x entries)
  have "owns (entry (activate_entry x hp) a) = owns (entry hp a)"
    by (cases "x < length (hp_entries hp)"; cases "x = a") (simp_all add: activate_entry_def set_entry_def owns_def list_update_beyond)
  then show ?case using Cons.IH [of "activate_entry x hp"] by (simp add: activate_entries_def)
qed (simp add: activate_entries_def)

lemma length_activate: "length (hp_entries (activate_entries entries hp)) = length (hp_entries hp)"
  by (induction entries arbitrary: hp) (simp_all add: activate_entries_def activate_entry_def)

lemma ledger_tx_step:
  assumes inv: "minv s" and ok: "ledger_ok s" and step: "tx_step ev s (mg_tx s) = Some s'"
  shows "ledger_ok s'"
proof (cases "mg_tx s")
  case (T_Build candidate old factories entries reports)
  show ?thesis
  proof (cases factories)
    case Nil
    then show ?thesis using step T_Build ledger_tx [OF ok] by (auto split: option.splits)
  next
    case (Cons factory rest)
    then show ?thesis using ledger_build [OF ok _ step] T_Build by simp
  qed
next
  case (T_Abandon name cause old entries reports)
  then show ?thesis using ledger_abandon [OF inv ok _ step] by simp
next
  case (T_Publish candidate old entries reports)
  then show ?thesis using ledger_publish [OF inv ok _ step] by simp
next
  case (T_Wait cause old reports)
  then show ?thesis using ledger_wait [OF inv ok _ step] by simp
next
  case (T_Activate new old reports)
  then have s': "s' = s\<lparr>mg_heap := activate_entries (components s new) (mg_heap s), mg_tx := T_Ready new old reports\<rparr>" using step by simp
  have "accounted s' a = accounted s a" for a by (simp add: s' accounted_def keepers_def T_Activate)
  then show ?thesis using ok by (simp add: s' ledger_ok_def owners_ok_def closing_ok_def owns_activate length_activate T_Activate)
next
  case (T_Ready new old reports)
  let ?pc = "T_Retire (ByReload new) old reports"
  have "ledger_ok (s\<lparr>mg_tx := ?pc\<rparr>)" using ok by (rule ledger_tx) (simp_all add: T_Ready)
  then show ?thesis by (rule ledger_cong) (use step T_Ready in auto)
next
  case (T_Retire cause old reports)
  let ?pc = "T_Wait cause old reports"
  have "ledger_ok (s\<lparr>mg_tx := ?pc\<rparr>)" using ok by (rule ledger_tx) (simp_all add: T_Retire)
  then show ?thesis by (rule ledger_cong) (use step T_Retire in auto)
next
  case T_Close
  then have s': "tx_retires (mg_tx s') = None" "tx_entries (mg_tx s') = []"
    "mg_tx s' = (if mg_closed s then T_Finish (CloseDone None) empty_batch else T_Detach)"
    using step by (auto split: if_splits)
  have same: "mg_active s' = mg_active s" "mg_waiters s' = mg_waiters s" "mg_pending s' = mg_pending s" "mg_heap s' = mg_heap s"
    "mg_graphs s' = mg_graphs s" "mg_async s' = mg_async s"
    using step T_Close by (auto split: if_splits)
  have "accounted s' a = accounted s a" for a using s'(1,2) by (simp add: accounted_def keepers_def same T_Close)
  then have "owners_ok s'" using ok by (simp add: ledger_ok_def owners_ok_def same)
  moreover have "closing_ok s'" using ok s'(3) by (simp add: ledger_ok_def closing_ok_def same T_Close)
  ultimately show ?thesis by (simp add: ledger_ok_def)
next
  case T_Detach
  then have s': "mg_active s' = None" "tx_retires (mg_tx s') = mg_active s" "tx_entries (mg_tx s') = []"
    "mg_waiters s' = mg_waiters s" "mg_pending s' = mg_pending s" "mg_heap s' = mg_heap s" "mg_graphs s' = mg_graphs s" "mg_async s' = mg_async s"
    using step by (auto split: option.splits)
  have "keepers s' = keepers s" using s'(2) by (auto simp: keepers_def s' T_Detach)
  then have "accounted s' a = accounted s a" for a by (simp add: accounted_def s' T_Detach)
  then show ?thesis using ok by (simp add: ledger_ok_def owners_ok_def closing_ok_def s')
next
  case (T_Reload candidate)
  then show ?thesis using step ledger_tx [OF ok] by auto
next
  case (T_Finish result reports)
  have "ledger_ok (s\<lparr>mg_tx := T_Idle\<rparr>)" using ok by (rule ledger_tx) (simp_all add: T_Finish)
  then show ?thesis by (rule ledger_cong) (use step T_Finish in \<open>auto split: prod.splits\<close>)
qed (use step in simp)

subsection \<open>The other goroutines\<close>

lemma waiters_update: "i < length ws \<Longrightarrow> set (ws[i := w]) = insert w (set (take i ws) \<union> set (drop (Suc i) ws))"
  by (simp add: upd_conv_take_nth_drop)

lemma waiters_split: "i < length ws \<Longrightarrow> set ws = insert (ws ! i) (set (take i ws) \<union> set (drop (Suc i) ws))"
  by (metis list_update_id waiters_update)

lemma ledger_waiter:
  assumes ok: "ledger_ok s" and i: "i < length (mg_waiters s)" and pc: "waiter_graph pc = waiter_graph (mg_waiters s ! i)"
    "mg_waiters s ! i \<noteq> Y_Done" "pc \<noteq> Y_Done"
  shows "ledger_ok (s\<lparr>mg_waiters := (mg_waiters s)[i := pc]\<rparr>)"
proof -
  have "keepers (s\<lparr>mg_waiters := (mg_waiters s)[i := pc]\<rparr>) = keepers s"
    using waiters_split [OF i] by (simp add: keepers_def waiters_update [OF i] pc(1))
  then show ?thesis using ok pc(2,3) i by (simp add: ledger_ok_def owners_ok_def closing_ok_def accounted_def cnt_update)
qed

lemma ledger_waiter_tears:
  assumes inv: "minv s" and ok: "ledger_ok s" and i: "i < length (mg_waiters s)" and w: "mg_waiters s ! i = Y_Wait g rg"
    and step: "async_step ev s (mg_waiters s ! i) = Some (s1, pc)"
  shows "ledger_ok (s1\<lparr>mg_waiters := (mg_waiters s)[i := pc]\<rparr>)" (is "ledger_ok ?s'")
proof -
  obtain hp r calls where t: "teardownEntries (ev_ok ev) (mg_heap s) (components s g) = (hp, r, calls)" by (metis prod_cases3)
  have s1: "s1 = s\<lparr>mg_heap := hp\<rparr>" and pc: "pc = (if cu_failed r then Y_Report g rg (cu_componentName r) else Y_End)"
    using step w t by (auto split: if_splits)
  have "g < length (mg_graphs s)" using inv i w nth_mem [OF i] by (fastforce simp: minv_def refs_ok_def)
  then have heap: "in_heap s (components s g)" by (rule in_heap_components [OF inv])
  have keep: "keepers s \<subseteq> insert g (keepers ?s')"
    using waiters_split [OF i] by (auto simp: keepers_def s1 waiters_update [OF i] w)
  have "owners_ok ?s'"
  proof (rule owners_teardown [OF inv _ heap t])
    show "owners_ok s" using ok by (simp add: ledger_ok_def)
    show "accounted ?s' a \<or> a \<in> set (components s g)" if "accounted s a" for a
      using that keep by (auto simp: accounted_def s1)
    show "accounted ?s' a" if "a \<in> set (components s g)" "cu_failed r" for a
      using that by (auto simp: accounted_def keepers_def s1 pc waiters_update [OF i])
  qed (simp add: s1)
  moreover have "closing_ok ?s'" using ok i w by (simp add: ledger_ok_def closing_ok_def s1 cnt_update pc)
  ultimately show ?thesis by (simp add: ledger_ok_def)
qed

lemma ledger_async:
  assumes inv: "minv s" and ok: "ledger_ok s" and i: "i < length (mg_waiters s)"
    and step: "async_step ev s (mg_waiters s ! i) = Some (s1, pc)"
  shows "ledger_ok (s1\<lparr>mg_waiters := (mg_waiters s)[i := pc]\<rparr>)"
proof (cases "mg_waiters s ! i")
  case (Y_Wait g rg)
  then show ?thesis using ledger_waiter_tears [OF inv ok i _ step] by simp
next
  case (Y_Report g rg component)
  then obtain sp batch where s1: "s1 = s\<lparr>mg_spool := sp\<rparr>" "pc = Y_Dispatch g batch" using step by (auto simp: Let_def split: prod.splits)
  have "ledger_ok (s\<lparr>mg_waiters := (mg_waiters s)[i := pc]\<rparr>)" using ok i by (rule ledger_waiter) (simp_all add: Y_Report s1)
  then show ?thesis by (rule ledger_cong) (simp_all add: s1)
next
  case (Y_Dispatch g batch)
  then obtain sp ch where s1: "s1 = s\<lparr>mg_spool := sp, mg_checks := ch\<rparr>" "pc = Y_Schedule g" using step by (auto split: prod.splits)
  have "ledger_ok (s\<lparr>mg_waiters := (mg_waiters s)[i := pc]\<rparr>)" using ok i by (rule ledger_waiter) (simp_all add: Y_Dispatch s1)
  then show ?thesis by (rule ledger_cong) (simp_all add: s1)
next
  case (Y_Schedule g)
  let ?p = "scheduleCleanupRetry (mg_heap s) (mg_pending s) (components s g)"
  let ?s' = "s1\<lparr>mg_waiters := (mg_waiters s)[i := pc]\<rparr>"
  have s1: "s1 = s\<lparr>mg_pending := ?p\<rparr>" "pc = Y_End" using step Y_Schedule by auto
  have keep: "keepers s \<subseteq> insert g (keepers ?s')"
    using waiters_split [OF i] by (auto simp: keepers_def s1 waiters_update [OF i] Y_Schedule)
  have "accounted ?s' a" if "accounted s a" "owns (entry (mg_heap s) a)" for a
    using that keep schedule_keeps(1) [of "mg_heap s" a "components s g" "mg_pending s"] schedule_keeps(2)
    by (auto simp: accounted_def s1)
  then have "owners_ok ?s'" using ok by (simp add: ledger_ok_def owners_ok_def s1)
  moreover have "closing_ok ?s'" using ok i Y_Schedule by (simp add: ledger_ok_def closing_ok_def s1 cnt_update)
  ultimately show ?thesis by (simp add: ledger_ok_def)
next
  case Y_End
  have s1: "s1 = s\<lparr>mg_async := mg_async s - 1, mg_checks := mg_checks s @ [C_Closed]\<rparr>" "pc = Y_Done" using step Y_End by auto
  have "keepers (s1\<lparr>mg_waiters := (mg_waiters s)[i := pc]\<rparr>) = keepers s"
    using waiters_split [OF i] by (simp add: keepers_def s1 waiters_update [OF i] Y_End)
  then show ?thesis using ok i Y_End by (simp add: ledger_ok_def owners_ok_def closing_ok_def accounted_def s1 cnt_update)
qed (use step in simp)

lemma ledger_retry:
  assumes inv: "minv s" and ok: "ledger_ok s" and i: "i < length (mg_pending s)"
  shows "ledger_ok (retryCleanup_step ev s i)"
proof -
  let ?b = "mg_pending s ! i" and ?rest = "take i (mg_pending s) @ drop (Suc i) (mg_pending s)"
  obtain hp r calls where t: "teardownEntries (ev_ok ev) (mg_heap s) ?b = (hp, r, calls)" by (metis prod_cases3)
  define s' where "s' = retryCleanup_step ev s i"
  have s': "mg_heap s' = hp" "mg_pending s' = (if cu_failed r then mg_pending s else ?rest)" "keepers s' = keepers s"
    "mg_graphs s' = mg_graphs s" "mg_tx s' = mg_tx s" "closing_ok s' = closing_ok s"
    by (simp_all add: s'_def retryCleanup_step_def t keepers_def closing_ok_def)
  have heap: "in_heap s ?b" using inv i by (simp add: minv_def pending_ok_def)
  have "owners_ok s'"
  proof (rule owners_teardown [OF inv _ heap t])
    show "owners_ok s" using ok by (simp add: ledger_ok_def)
    show "accounted s' a \<or> a \<in> set ?b" if "accounted s a" for a
      using that waiters_split [OF i] by (auto simp: accounted_def s')
    show "accounted s' a" if "a \<in> set ?b" "cu_failed r" for a using that nth_mem [OF i] by (auto simp: accounted_def s')
  qed (simp add: s')
  then show ?thesis using ok s'(6) by (simp add: ledger_ok_def s'_def)
qed

subsection \<open>Every reachable state\<close>

lemma check_same:
  assumes "check_step s pc = Some (s', pc')"
  shows "mg_active s' = mg_active s \<and> mg_waiters s' = mg_waiters s \<and> mg_tx s' = mg_tx s \<and> mg_pending s' = mg_pending s \<and>
    mg_heap s' = mg_heap s \<and> mg_async s' = mg_async s \<and> mg_closed s' = mg_closed s \<and> mg_graphs s' = mg_graphs s"
  using assms by (cases pc) auto

lemma ledger_mstep:
  assumes "mstep s s'" "minv s" "ledger_ok s"
  shows "ledger_ok s'"
  using assms
proof (induction rule: mstep.induct)
  case (m_acquire i s s' pc)
  show ?case by (rule ledger_cong [OF m_acquire(4)]) (use acquire_same [OF m_acquire(2)] in simp_all)
next
  case (m_reload s candidate)
  then show ?case by (intro ledger_tx) simp_all
next
  case (m_close s)
  then show ?case by (intro ledger_tx) simp_all
next
  case (m_tx ev s s')
  show ?case using m_tx(2,3,1) by (rule ledger_tx_step)
next
  case (m_async i s ev s' pc)
  show ?case using m_async(3,4,1,2) by (rule ledger_async)
next
  case (m_retry i s ev)
  show ?case using m_retry(2,3,1) by (rule ledger_retry)
next
  case (m_handover i s)
  obtain batch closing where b: "mg_handover s ! i = (batch, closing)" by fastforce
  obtain sp r where d: "dispatchReports (mg_spool s) batch = (sp, r)" by fastforce
  show ?case by (rule ledger_cong [OF m_handover(3)]) (simp_all add: handover_step_def b d)
next
  case (m_check i s s' pc)
  show ?case by (rule ledger_cong [OF m_check(4)]) (use check_same [OF m_check(2)] in simp_all)
qed (erule ledger_cong; simp)+

lemma ledger_New:
  assumes new: "New prepare ok ctx now initial factories options = (Some s, err)"
  shows "ledger_ok s"
proof -
  let ?b0 = "\<lparr>bs_heap = empty_heap, bs_pending = [], bs_reports = empty_batch\<rparr>"
  obtain opts fs where fs: "newManager factories options = Inr (opts, fs)" and v: "validateConfig initial = None"
    using new by (auto simp: New_def split: sum.splits option.splits)
  obtain b r where build: "build_from prepare ok ctx now initial 1 None fs [] ?b0 = (b, r)" by fastforce
  have result: "case r of Inl err \<Rightarrow> abandoned ?b0 b \<and> ge_code err = GraphInitialization | Inr g \<Rightarrow> built ?b0 fs b g"
    using build_result [OF _ build] heap_ok_empty by simp
  show ?thesis
  proof (cases r)
    case (Inl e)
    then have s: "s = (blank_manager fs (bs_heap b) (bs_pending b))\<lparr>mg_closed := True\<rparr>"
      using new fs v build by (simp add: New_def split: if_splits)
    have "\<exists>batch \<in> set (bs_pending b). a \<in> set batch" if "a < length (hp_entries (bs_heap b))" "owns (entry (bs_heap b) a)" for a
      using result Inl that by (auto simp: abandoned_def empty_heap_def)
    then show ?thesis by (simp add: s ledger_ok_def owners_ok_def closing_ok_def accounted_def blank_manager_def)
  next
    case (Inr g)
    then have "launch now fs (bs_heap b) g = (s, err)" using new fs v build by (auto simp: New_def map_prod_def split: prod.splits)
    then obtain sp where s: "s = (blank_manager fs (activate_entries (gr_components g) (bs_heap b)) [])
        \<lparr>mg_graphs := [g\<lparr>gr_activation := finishActivation (gr_activation g)\<rparr>], mg_active := Some 0, mg_spool := sp, mg_reporter := R_Top 1\<rparr>"
      using first_report_accepted [of now fs "bs_heap b" g] by auto
    have "gr_components g = [0 ..< length (hp_entries (bs_heap b))]" using result Inr by (simp add: built_def empty_heap_def)
    then show ?thesis
      by (simp add: s ledger_ok_def owners_ok_def closing_ok_def accounted_def keepers_def blank_manager_def length_activate)
  qed
qed

lemma ledger_reach: "mreach s \<Longrightarrow> ledger_ok s"
proof (induction rule: mreach.induct)
  case (mreach_step s s')
  then show ?case using ledger_mstep minv_reach by blast
qed (rule ledger_New)

text \<open>
  C13.  \<open>WaitCleanup\<close> on a closed manager means what it says.  If \<open>Close\<close> is done and \<open>WaitCleanup\<close> returns nil, then every component that
  any generation ever obtained from a factory is closed, every child that a factory registered is released, and the ownership table is empty:
  no interleaving of reloads, leases, timeouts and failed cleanups leaks a resource.
\<close>

theorem wait_cleanup_complete:
  assumes "mreach s" and "mg_closed s" and "mg_tx s = T_Idle" and "WaitCleanup_returns s"
  shows "(\<forall>a < length (hp_entries (mg_heap s)).
      (ce_component (entry (mg_heap s) a) \<noteq> NilInterface \<longrightarrow> ce_closed (entry (mg_heap s) a)) \<and>
      ce_children (entry (mg_heap s) a) = [] \<and> \<not> ce_claimed (entry (mg_heap s) a)) \<and>
    hp_owned (mg_heap s) = []"
proof -
  have l: "ledger_ok s" and inv: "minv s" using ledger_reach minv_reach assms(1) by blast+
  have "\<not> (w \<in> set (mg_waiters s) \<and> w \<noteq> Y_Done)" for w
    using l cnt_pos [of w "mg_waiters s" "\<lambda>w. w \<noteq> Y_Done"] assms(4) by (auto simp: ledger_ok_def closing_ok_def WaitCleanup_returns_def)
  then have "waiter_graph w = None" if "w \<in> set (mg_waiters s)" for w using that by (cases w) auto
  moreover have "mg_active s = None" using l assms(2,3) by (simp add: ledger_ok_def closing_ok_def)
  ultimately have "\<not> accounted s a" for a using assms(3,4) by (simp add: accounted_def keepers_def WaitCleanup_returns_def)
  then have free: "\<not> owns (entry (mg_heap s) a)" if "a < length (hp_entries (mg_heap s))" for a
    using l that by (auto simp: ledger_ok_def owners_ok_def)
  have "i \<notin> set (hp_owned (mg_heap s))" for i using inv free by (fastforce simp: minv_def heap_ok_def owns_def)
  then have "hp_owned (mg_heap s) = []" by (cases "hp_owned (mg_heap s)") auto
  then show ?thesis using free by (auto simp: owns_def)
qed

text \<open>The schedule that loses a report ends, after one more retry, with nothing left to clean up.\<close>

definition cleaned_choices :: "choice list" where
  "cleaned_choices = lost_report_choices @ [DoRetry (sample_world False) 0]"

lemma cleaned_closed: "case sample_schedule cleaned_choices of None \<Rightarrow> False | Some s \<Rightarrow> mg_closed s"
  by code_simp

lemma cleaned_idle: "case sample_schedule cleaned_choices of None \<Rightarrow> False | Some s \<Rightarrow> (case mg_tx s of T_Idle \<Rightarrow> True | _ \<Rightarrow> False)"
  by code_simp

lemma cleaned_waited: "case sample_schedule cleaned_choices of None \<Rightarrow> False | Some s \<Rightarrow> WaitCleanup_returns s"
  by code_simp

lemma cleaned_entries: "case sample_schedule cleaned_choices of None \<Rightarrow> False | Some s \<Rightarrow> length (hp_entries (mg_heap s)) = 2"
  by code_simp

lemmas cleaned_facts = cleaned_closed cleaned_idle cleaned_waited cleaned_entries

theorem wait_cleanup_complete_witness:
  "\<exists>s. mreach s \<and> length (hp_entries (mg_heap s)) = 2 \<and> \<not> ce_claimed (entry (mg_heap s) 0) \<and> \<not> ce_claimed (entry (mg_heap s) 1)"
proof -
  obtain s where s: "sample_schedule cleaned_choices = Some s"
    using cleaned_facts(1) by (cases "sample_schedule cleaned_choices") simp_all
  then have reach: "mreach s" by (rule sample_schedule_reach)
  note facts = cleaned_facts [unfolded s option.case]
  have idle: "mg_tx s = T_Idle" using facts(2) by (simp split: tx_pc.splits)
  show ?thesis using wait_cleanup_complete [OF reach facts(1) idle facts(3)] reach facts(4) by (intro exI [of _ s]) simp
qed

end
