(* ===== verification/Audit_Quarantine.thy ===== *)
theory Audit_Quarantine
  imports Audit_Actions Go_Path "HOL-Library.List_Lexorder" "HOL-Library.Char_ord"
begin

text \<open>
  The journal of physical quarantines (\<^verbatim>\<open>audit/quarantine_provenance.go\<close>): the tables \<open>quarantine_records\<close> and
  \<open>quarantine_record_connectors\<close> beside the enforcement table of \<open>Audit_Actions\<close>, whose faults, clock and identifiers they share.
  A NULL in \<open>reason\<close> or \<open>restore_path\<close> is read back as the empty string and is one here.  Whether a text is a JSON object is the argument
  \<open>json_object\<close>.  The column \<open>associated_at\<close> is never read and left out.
\<close>

definition QuarantineStatePending :: string where "QuarantineStatePending = ''pending''"
definition QuarantineStateActive :: string where "QuarantineStateActive = ''active''"
definition QuarantineStateRestoring :: string where "QuarantineStateRestoring = ''restoring''"

record QuarantineRow =
  qr_ID :: string
  qr_TargetType :: string
  qr_TargetName :: string
  qr_OriginalPath :: string
  qr_QuarantinePath :: string
  qr_ContentHash :: string
  qr_Reason :: string
  qr_State :: string
  qr_OwnershipJSON :: string
  qr_RestorePath :: string
  qr_CreatedAt :: gotime
  qr_UpdatedAt :: gotime

record QuarantineRecord = QuarantineRow +
  qr_Connectors :: "string list"

record CreateQuarantineRecordInput =
  ci_TargetType :: string
  ci_TargetName :: string
  ci_OriginalPath :: string
  ci_QuarantinePath :: string
  ci_ContentHash :: string
  ci_Reason :: string
  ci_State :: string
  ci_OwnershipJSON :: string
  ci_Connectors :: "string list"

record QuarantineDB =
  qd_base :: ActionDB
  qd_records :: "QuarantineRow list"
  qd_connectors :: "(string \<times> string) list"

datatype provenance_error =
    PStore
  | PTargetType
  | PTargetName
  | PPath
  | PHash
  | PState
  | POwnership
  | PReason
  | PConnector
  | PForeignPath
  | PIdentity
  | PMissing
  | PJournal

subsection \<open>Statements and transactions\<close>

type_synonym 'a dbm = "QuarantineDB \<Rightarrow> QuarantineDB \<times> (provenance_error + 'a)"

definition dreturn :: "'a \<Rightarrow> 'a dbm" where
  "dreturn x db = (db, Inr x)"

definition dfail :: "provenance_error \<Rightarrow> 'a dbm" where
  "dfail e db = (db, Inl e)"

definition dthen :: "'a dbm \<Rightarrow> ('a \<Rightarrow> 'b dbm) \<Rightarrow> 'b dbm" where
  "dthen m f db = (case m db of (db1, Inl e) \<Rightarrow> (db1, Inl e) | (db1, Inr x) \<Rightarrow> f x db1)"

text \<open>One statement: it fails as the next fault says, and then it has no effect.\<close>

definition statement :: "(QuarantineDB \<Rightarrow> QuarantineDB \<times> (provenance_error + 'a)) \<Rightarrow> 'a dbm" where
  "statement f db =
     (case take_next False (db_faults (qd_base db)) of (fault, faults) \<Rightarrow>
        let db = db\<lparr>qd_base := (qd_base db)\<lparr>db_faults := faults\<rparr>\<rparr>
        in if fault then (db, Inl PStore) else f db)"

definition q_now :: "gotime dbm" where
  "q_now db = (case time_Now (qd_base db) of (t, base) \<Rightarrow> (db\<lparr>qd_base := base\<rparr>, Inr t))"

definition q_uuid :: "string dbm" where
  "q_uuid db = (case uuid_New (qd_base db) of (i, base) \<Rightarrow> (db\<lparr>qd_base := base\<rparr>, Inr i))"

text \<open>The deferred \<open>tx.Rollback()\<close> puts the rows back, not the clock and the faults.\<close>

definition rollback :: "QuarantineDB \<Rightarrow> QuarantineDB \<Rightarrow> QuarantineDB" where
  "rollback db0 db =
     db\<lparr>qd_base := (qd_base db)\<lparr>db_actions := db_actions (qd_base db0)\<rparr>, qd_records := qd_records db0, qd_connectors := qd_connectors db0\<rparr>"

text \<open>The body says whether it goes on to \<open>tx.Commit()\<close> or returns before it.\<close>

definition transaction :: "(bool \<times> 'a) dbm \<Rightarrow> 'a dbm" where
  "transaction body db0 =
     (case dthen (statement (dreturn ())) (\<lambda>_. dthen body (\<lambda>(commit, x).
             dthen (if commit then statement (dreturn ()) else dreturn ()) (\<lambda>_. dreturn (commit, x)))) db0 of
        (db, Inl e) \<Rightarrow> (rollback db0 db, Inl e)
      | (db, Inr (commit, x)) \<Rightarrow> (if commit then db else rollback db0 db, Inr x))"

definition to_commit :: "'a dbm \<Rightarrow> (bool \<times> 'a) dbm" where
  "to_commit m = dthen m (\<lambda>x. dreturn (True, x))"

subsection \<open>Checks\<close>

definition validQuarantineState :: "string \<Rightarrow> bool" where
  "validQuarantineState state \<longleftrightarrow> state = QuarantineStatePending \<or> state = QuarantineStateActive \<or> state = QuarantineStateRestoring"

definition samePath :: "string \<Rightarrow> string \<Rightarrow> bool" where
  "samePath left right \<longleftrightarrow> path_Clean left = path_Clean right"

definition sameQuarantineIdentity :: "('a) QuarantineRow_scheme \<Rightarrow> CreateQuarantineRecordInput \<Rightarrow> bool" where
  "sameQuarantineIdentity record0 input \<longleftrightarrow>
     qr_TargetType record0 = ci_TargetType input \<and> qr_TargetName record0 = ci_TargetName input \<and>
     samePath (qr_OriginalPath record0) (ci_OriginalPath input) \<and> qr_ContentHash record0 = ci_ContentHash input"

definition normalizeAbsolutePath :: "string \<Rightarrow> provenance_error + string" where
  "normalizeAbsolutePath path0 =
     (let path = TrimSpace path0 in
      if path = [] \<or> \<not> IsAbs path then Inl PPath
      else if 4096 < length (path_Clean path) then Inl PPath else Inr (path_Clean path))"

fun connectors_loop :: "string list \<Rightarrow> string list \<Rightarrow> provenance_error + string list" where
  "connectors_loop [] normalized = Inr normalized"
| "connectors_loop (c # cs) normalized =
     (let connector = TrimSpace c in
      if 64 < length connector then Inl PConnector
      else if connector \<in> set normalized then connectors_loop cs normalized
      else connectors_loop cs (normalized @ [connector]))"

definition normalizeQuarantineConnectors :: "string list \<Rightarrow> provenance_error + string list" where
  "normalizeQuarantineConnectors connectors =
     map_sum id sort (connectors_loop (if connectors = [] then [[]] else connectors) [])"

definition sha256_hex :: "string \<Rightarrow> bool" where
  "sha256_hex s \<longleftrightarrow> length s = 64 \<and>
     list_all (\<lambda>c. let n = byte_val c in 48 \<le> n \<and> n \<le> 57 \<or> 97 \<le> n \<and> n \<le> 102 \<or> 65 \<le> n \<and> n \<le> 70) s"

definition normalizeCreateQuarantineRecord ::
  "unicode_map \<Rightarrow> (string \<Rightarrow> bool) \<Rightarrow> CreateQuarantineRecordInput \<Rightarrow> provenance_error + CreateQuarantineRecordInput" where
  "normalizeCreateQuarantineRecord uni json_object input0 =
     (let input = input0\<lparr>ci_TargetType := TrimSpace (ci_TargetType input0), ci_TargetName := TrimSpace (ci_TargetName input0),
            ci_ContentHash := ToLower uni (TrimSpace (ci_ContentHash input0)), ci_Reason := TrimSpace (ci_Reason input0),
            ci_State := (if TrimSpace (ci_State input0) = [] then QuarantineStatePending else TrimSpace (ci_State input0)),
            ci_OwnershipJSON := (if TrimSpace (ci_OwnershipJSON input0) = [] then ''{}'' else TrimSpace (ci_OwnershipJSON input0))\<rparr> in
      if ci_TargetType input \<noteq> ''skill'' \<and> ci_TargetType input \<noteq> ''plugin'' then Inl PTargetType
      else if ci_TargetName input = [] \<or> 255 < length (ci_TargetName input) then Inl PTargetName
      else case normalizeAbsolutePath (ci_OriginalPath input) of
        Inl e \<Rightarrow> Inl e
      | Inr original \<Rightarrow>
          (case normalizeAbsolutePath (ci_QuarantinePath input) of
             Inl e \<Rightarrow> Inl e
           | Inr quarantine \<Rightarrow>
               if \<not> sha256_hex (ci_ContentHash input) then Inl PHash
               else if \<not> validQuarantineState (ci_State input) \<or> ci_State input = QuarantineStateRestoring then Inl PState
               else if 4096 < length (ci_OwnershipJSON input) \<or> \<not> json_object (ci_OwnershipJSON input) then Inl POwnership
               else if 4096 < length (ci_Reason input) then Inl PReason
               else case normalizeQuarantineConnectors (ci_Connectors input) of
                 Inl e \<Rightarrow> Inl e
               | Inr cs \<Rightarrow> Inr (input\<lparr>ci_OriginalPath := original, ci_QuarantinePath := quarantine, ci_Connectors := cs\<rparr>)))"

subsection \<open>Operations\<close>

definition getQuarantineRecordByPathTx :: "string \<Rightarrow> QuarantineRow option dbm" where
  "getQuarantineRecordByPathTx path = statement (\<lambda>db. (db, Inr (find (\<lambda>r. qr_QuarantinePath r = path) (qd_records db))))"

definition getQuarantineRecordByIDTx :: "string \<Rightarrow> QuarantineRow option dbm" where
  "getQuarantineRecordByIDTx recordID = statement (\<lambda>db. (db, Inr (find (\<lambda>r. qr_ID r = recordID) (qd_records db))))"

definition quarantineConnectors :: "string \<Rightarrow> string list dbm" where
  "quarantineConnectors recordID = statement (\<lambda>db. (db, Inr (sort (map snd (filter (\<lambda>p. fst p = recordID) (qd_connectors db))))))"

definition with_connectors :: "QuarantineRow \<Rightarrow> string list \<Rightarrow> QuarantineRecord" where
  "with_connectors row cs = QuarantineRow.extend row (QuarantineRecord.fields cs)"

text \<open>\<open>INSERT\<close>, which the primary key and the unique path may refuse, and \<open>UPDATE ... WHERE id = ?\<close> with the number of rows.\<close>

definition insert_record :: "QuarantineRow \<Rightarrow> unit dbm" where
  "insert_record row = statement (\<lambda>db.
     if list_ex (\<lambda>r. qr_ID r = qr_ID row \<or> qr_QuarantinePath r = qr_QuarantinePath row) (qd_records db) then (db, Inl PStore)
     else (db\<lparr>qd_records := qd_records db @ [row]\<rparr>, Inr ()))"

definition update_record :: "string \<Rightarrow> (QuarantineRow \<Rightarrow> QuarantineRow) \<Rightarrow> nat dbm" where
  "update_record recordID f = statement (\<lambda>db.
     (db\<lparr>qd_records := map (\<lambda>r. if qr_ID r = recordID then f r else r) (qd_records db)\<rparr>,
      Inr (length (filter (\<lambda>r. qr_ID r = recordID) (qd_records db)))))"

text \<open>\<open>INSERT OR IGNORE\<close> for each connector.\<close>

fun associate :: "string \<Rightarrow> string list \<Rightarrow> unit dbm" where
  "associate recordID [] = dreturn ()"
| "associate recordID (c # cs) =
     dthen (statement (\<lambda>db.
       (if (recordID, c) \<in> set (qd_connectors db) then db else db\<lparr>qd_connectors := qd_connectors db @ [(recordID, c)]\<rparr>, Inr ()))) (\<lambda>_.
     associate recordID cs)"

text \<open>The row of \<open>CreateQuarantineRecord\<close>: a new one, or the one that the path has, refreshed.\<close>

definition bind_record :: "CreateQuarantineRecordInput \<Rightarrow> gotime \<Rightarrow> QuarantineRow option \<Rightarrow> QuarantineRow dbm" where
  "bind_record n now found =
     (case found of
        None \<Rightarrow>
          dthen q_uuid (\<lambda>i.
          let row = \<lparr>qr_ID = i, qr_TargetType = ci_TargetType n, qr_TargetName = ci_TargetName n, qr_OriginalPath = ci_OriginalPath n,
                qr_QuarantinePath = ci_QuarantinePath n, qr_ContentHash = ci_ContentHash n, qr_Reason = ci_Reason n, qr_State = ci_State n,
                qr_OwnershipJSON = ci_OwnershipJSON n, qr_RestorePath = [], qr_CreatedAt = now, qr_UpdatedAt = now\<rparr>
          in dthen (insert_record row) (\<lambda>_. dreturn row))
      | Some row \<Rightarrow>
          if \<not> sameQuarantineIdentity row n then dfail PForeignPath
          else
            let refresh = (\<lambda>r. r\<lparr>qr_Reason := (if ci_Reason n \<noteq> [] then ci_Reason n else qr_Reason r),
                  qr_OwnershipJSON := (if ci_OwnershipJSON n \<noteq> ''{}'' then ci_OwnershipJSON n else qr_OwnershipJSON r), qr_UpdatedAt := now\<rparr>)
            in dthen (update_record (qr_ID row) refresh) (\<lambda>_. dreturn (refresh row)))"

definition CreateQuarantineRecord :: "unicode_map \<Rightarrow> (string \<Rightarrow> bool) \<Rightarrow> CreateQuarantineRecordInput \<Rightarrow> QuarantineRecord dbm" where
  "CreateQuarantineRecord uni json_object input =
     (case normalizeCreateQuarantineRecord uni json_object input of
        Inl e \<Rightarrow> dfail e
      | Inr n \<Rightarrow> transaction (
          dthen (getQuarantineRecordByPathTx (ci_QuarantinePath n)) (\<lambda>found.
          dthen q_now (\<lambda>now.
          dthen (bind_record n now found) (\<lambda>row.
          dthen (associate (qr_ID row) (ci_Connectors n)) (\<lambda>_.
          dthen (quarantineConnectors (qr_ID row)) (\<lambda>cs.
          dreturn (True, with_connectors row cs))))))))"

definition UpdateQuarantineRecordState :: "string \<Rightarrow> string \<Rightarrow> string \<Rightarrow> unit dbm" where
  "UpdateQuarantineRecordState recordID0 state0 restorePath0 =
     (let recordID = TrimSpace recordID0; state = TrimSpace state0 in
      if recordID = [] then dfail PIdentity
      else if \<not> validQuarantineState state then dfail PState
      else case (if state = QuarantineStateRestoring then normalizeAbsolutePath restorePath0 else Inr []) of
        Inl e \<Rightarrow> dfail e
      | Inr restorePath \<Rightarrow>
          dthen q_now (\<lambda>now.
          dthen (update_record recordID (\<lambda>r. r\<lparr>qr_State := state, qr_RestorePath := restorePath, qr_UpdatedAt := now\<rparr>)) (\<lambda>changed.
          if changed \<noteq> 1 then dfail PMissing else dreturn ())))"

definition GetQuarantineRecord :: "string \<Rightarrow> QuarantineRecord option dbm" where
  "GetQuarantineRecord recordID0 =
     (let recordID = TrimSpace recordID0 in
      if recordID = [] then dfail PIdentity
      else dthen (getQuarantineRecordByIDTx recordID) (\<lambda>found.
        case found of
          None \<Rightarrow> dreturn None
        | Some row \<Rightarrow> dthen (quarantineConnectors (qr_ID row)) (\<lambda>cs. dreturn (Some (with_connectors row cs)))))"

fun attach_connectors :: "QuarantineRow list \<Rightarrow> QuarantineRecord list dbm" where
  "attach_connectors [] = dreturn []"
| "attach_connectors (row # rows) =
     dthen (quarantineConnectors (qr_ID row)) (\<lambda>cs. dthen (attach_connectors rows) (\<lambda>rs. dreturn (with_connectors row cs # rs)))"

definition ListQuarantineRecordsForConnector :: "string \<Rightarrow> string \<Rightarrow> string \<Rightarrow> QuarantineRecord list dbm" where
  "ListQuarantineRecordsForConnector targetType targetName connector =
     (if TrimSpace targetType = [] \<or> TrimSpace targetName = [] then dfail PIdentity
      else dthen (statement (\<lambda>db. (db, Inr (sort_key qr_CreatedAt (sort_key qr_ID (filter (\<lambda>r.
        qr_TargetType r = TrimSpace targetType \<and> qr_TargetName r = TrimSpace targetName \<and> (qr_ID r, TrimSpace connector) \<in> set (qd_connectors db))
        (qd_records db))))))) attach_connectors)"

definition DeleteQuarantineRecord :: "string \<Rightarrow> unit dbm" where
  "DeleteQuarantineRecord recordID = transaction (to_commit (
     dthen (statement (\<lambda>db.
       (if list_ex (\<lambda>r. qr_ID r = recordID \<and> qr_State r = QuarantineStatePending) (qd_records db)
        then db\<lparr>qd_connectors := filter (\<lambda>p. fst p \<noteq> recordID) (qd_connectors db)\<rparr> else db, Inr ()))) (\<lambda>_.
     statement (\<lambda>db. (db\<lparr>qd_records := filter (\<lambda>r. \<not> (qr_ID r = recordID \<and> qr_State r = QuarantineStatePending)) (qd_records db)\<rparr>, Inr ())))))"

text \<open>The statement of \<open>CompleteQuarantineRestore\<close> for each connector: the file action is cleared, the others stay.\<close>

fun reconcile_actions :: "QuarantineRow \<Rightarrow> string \<Rightarrow> gotime \<Rightarrow> string list \<Rightarrow> unit dbm" where
  "reconcile_actions row destination now [] = dreturn ()"
| "reconcile_actions row destination now (c # cs) =
     dthen q_uuid (\<lambda>i.
     dthen (statement (\<lambda>db.
       (db\<lparr>qd_base := (qd_base db)\<lparr>db_actions :=
          upsert \<lparr>ar_ID = i, ar_TargetType = qr_TargetType row, ar_TargetName = qr_TargetName row, ar_SourcePath = Some destination,
              ar_Actions = empty_json, ar_Reason = [], ar_UpdatedAt = now, ar_Connector = c\<rparr>
            (\<lambda>r. r\<lparr>ar_SourcePath := Some destination, ar_Actions := json_put ''file'' None (ar_Actions r), ar_UpdatedAt := now\<rparr>)
            (db_actions (qd_base db))\<rparr>\<rparr>, Inr ()))) (\<lambda>_.
     reconcile_actions row destination now cs))"

definition CompleteQuarantineRestore :: "string \<Rightarrow> string \<Rightarrow> unit dbm" where
  "CompleteQuarantineRestore recordID destination0 =
     (case normalizeAbsolutePath destination0 of
        Inl e \<Rightarrow> dfail e
      | Inr destination \<Rightarrow> transaction (
          dthen (getQuarantineRecordByIDTx recordID) (\<lambda>found.
          case found of
            None \<Rightarrow> dreturn (False, ())
          | Some row \<Rightarrow>
              if qr_State row \<noteq> QuarantineStateRestoring \<or> \<not> samePath (qr_RestorePath row) destination then dfail PJournal
              else to_commit (
                dthen (quarantineConnectors (qr_ID row)) (\<lambda>cs.
                dthen q_now (\<lambda>now.
                dthen (reconcile_actions row destination now cs) (\<lambda>_.
                dthen (statement (\<lambda>db. (db\<lparr>qd_connectors := filter (\<lambda>p. fst p \<noteq> qr_ID row) (qd_connectors db)\<rparr>, Inr ()))) (\<lambda>_.
                statement (\<lambda>db. (db\<lparr>qd_records := filter (\<lambda>r. qr_ID r \<noteq> qr_ID row) (qd_records db)\<rparr>, Inr ()))))))))))"

subsection \<open>Effects of statements and transactions\<close>

definition same_rows :: "QuarantineDB \<Rightarrow> QuarantineDB \<Rightarrow> bool" where
  "same_rows db db' \<longleftrightarrow>
     qd_records db' = qd_records db \<and> qd_connectors db' = qd_connectors db \<and> db_actions (qd_base db') = db_actions (qd_base db)"

lemma same_rows_refl [simp]: "same_rows db db"
  by (simp add: same_rows_def)

lemma same_rows_trans: "same_rows db db1 \<Longrightarrow> same_rows db1 db2 \<Longrightarrow> same_rows db db2"
  by (simp add: same_rows_def)

lemma dthen_cases:
  assumes "dthen m f db = (db', r)"
  obtains e where "m db = (db', Inl e)" "r = Inl e" | db1 x where "m db = (db1, Inr x)" "f x db1 = (db', r)"
  using assms by (auto simp: dthen_def split: prod.splits sum.splits)

lemma dthen_Inr: "dthen m f db = (db', Inr y) \<longleftrightarrow> (\<exists>db1 x. m db = (db1, Inr x) \<and> f x db1 = (db', Inr y))"
  by (auto simp: dthen_def split: prod.splits sum.splits)

lemma dreturn_Inr: "dreturn x db = (db', Inr y) \<longleftrightarrow> db' = db \<and> y = x"
  by (auto simp: dreturn_def)

lemma dfail_Inr [simp]: "dfail e db \<noteq> (db', Inr x)"
  by (simp add: dfail_def)

lemma to_commit_Inr: "to_commit m db = (db', Inr (c, x)) \<longleftrightarrow> c \<and> m db = (db', Inr x)"
  by (auto simp: to_commit_def dthen_Inr dreturn_Inr)

lemma statement_cases:
  assumes "statement f db = (db', r)"
  obtains "same_rows db db'" "r = Inl PStore" | db1 where "same_rows db db1" "f db1 = (db', r)"
proof -
  obtain fault faults where t: "take_next False (db_faults (qd_base db)) = (fault, faults)" by fastforce
  let ?db = "db\<lparr>qd_base := (qd_base db)\<lparr>db_faults := faults\<rparr>\<rparr>"
  have same: "same_rows db ?db" by (simp add: same_rows_def)
  show ?thesis
  proof (cases fault)
    case True
    then show ?thesis using that(1) same assms t by (simp add: statement_def)
  next
    case False
    then have "f ?db = (db', r)" using assms t by (simp add: statement_def)
    then show ?thesis using that(2) same by blast
  qed
qed

lemma statement_Inr:
  assumes "statement f db = (db', Inr x)"
  obtains db1 where "same_rows db db1" "f db1 = (db', Inr x)"
  using assms by (cases rule: statement_cases) auto

lemma q_now_same: "q_now db = (db', r) \<Longrightarrow> same_rows db db'"
  by (auto simp: q_now_def time_Now_def same_rows_def split: prod.splits)

lemma q_uuid_same: "q_uuid db = (db', r) \<Longrightarrow> same_rows db db'"
  by (auto simp: q_uuid_def uuid_New_def same_rows_def split: prod.splits)

lemma read_same: "statement (\<lambda>db. (db, g db)) db = (db', r) \<Longrightarrow> same_rows db db'"
  by (erule statement_cases) auto

lemma reads_same:
  "getQuarantineRecordByPathTx p db = (db', r) \<Longrightarrow> same_rows db db'" "getQuarantineRecordByIDTx i db = (db', r') \<Longrightarrow> same_rows db db'"
  "quarantineConnectors i db = (db', r'') \<Longrightarrow> same_rows db db'"
  unfolding getQuarantineRecordByPathTx_def getQuarantineRecordByIDTx_def quarantineConnectors_def by (erule read_same)+

lemma rollback_same: "same_rows db0 (rollback db0 db)"
  by (simp add: same_rows_def rollback_def)

lemma empty_statement: "statement (dreturn x) db = (db', r) \<Longrightarrow> same_rows db db'"
  by (erule statement_cases) (auto simp: dreturn_def)

lemma transaction_commits:
  assumes "transaction body db0 = (db', Inr x)"
  obtains db1 db2 c where "same_rows db0 db1" "body db1 = (db2, Inr (c, x))" "same_rows (if c then db2 else db0) db'"
proof -
  obtain db3 c where run: "dthen (statement (dreturn ())) (\<lambda>_. dthen body (\<lambda>(commit, x).
      dthen (if commit then statement (dreturn ()) else dreturn ()) (\<lambda>_. dreturn (commit, x)))) db0 = (db3, Inr (c, x))"
    and db': "db' = (if c then db3 else rollback db0 db3)"
    using assms by (auto simp: transaction_def split: prod.splits sum.splits if_splits)
  obtain db1 where b: "statement (dreturn ()) db0 = (db1, Inr ())" and rest: "dthen body (\<lambda>(commit, x).
      dthen (if commit then statement (dreturn ()) else dreturn ()) (\<lambda>_. dreturn (commit, x))) db1 = (db3, Inr (c, x))"
    using run by (auto simp: dthen_Inr)
  obtain db2 y where body: "body db1 = (db2, Inr y)" and fin: "(case y of (commit, x) \<Rightarrow>
      dthen (if commit then statement (dreturn ()) else dreturn ()) (\<lambda>_. dreturn (commit, x))) db2 = (db3, Inr (c, x))"
    using rest by (auto simp: dthen_Inr)
  have y: "y = (c, x)" using fin by (cases y) (auto simp: dthen_Inr dreturn_Inr)
  have "c \<Longrightarrow> same_rows db2 db3" using fin empty_statement by (auto simp: y dthen_Inr dreturn_Inr)
  then show ?thesis using that empty_statement [OF b] body y db' rollback_same by simp
qed

lemma transaction_same: "transaction body db0 = (db', Inl e) \<Longrightarrow> same_rows db0 db'"
  using rollback_same by (auto simp: transaction_def split: prod.splits sum.splits)

subsection \<open>The invariant of the journal\<close>

definition row_ok :: "QuarantineRow \<Rightarrow> bool" where
  "row_ok r \<longleftrightarrow> validQuarantineState (qr_State r) \<and> (qr_State r = QuarantineStateRestoring \<longleftrightarrow> qr_RestorePath r \<noteq> [])"

definition rows_ok :: "QuarantineRow list \<Rightarrow> (string \<times> string) list \<Rightarrow> bool" where
  "rows_ok rs ps \<longleftrightarrow> distinct (map qr_ID rs) \<and> distinct (map qr_QuarantinePath rs) \<and> distinct ps \<and>
     (\<forall>p \<in> set ps. fst p \<in> qr_ID ` set rs) \<and> (\<forall>r \<in> set rs. row_ok r)"

definition journal_inv :: "QuarantineDB \<Rightarrow> bool" where
  "journal_inv db \<longleftrightarrow> rows_ok (qd_records db) (qd_connectors db) \<and> action_inv (qd_base db)"

lemma journal_inv_same: "same_rows db db' \<Longrightarrow> journal_inv db \<Longrightarrow> journal_inv db'"
  by (simp add: same_rows_def journal_inv_def action_inv_def)

lemma normalizeAbsolutePath_ne: "normalizeAbsolutePath p = Inr q \<Longrightarrow> q \<noteq> [] \<and> q = path_Clean (TrimSpace p) \<and> IsAbs (TrimSpace p)"
proof -
  assume "normalizeAbsolutePath p = Inr q"
  then have q: "IsAbs (TrimSpace p)" "q = path_Clean (TrimSpace p)" by (auto simp: normalizeAbsolutePath_def Let_def split: if_splits)
  obtain es where "path_Clean (TrimSpace p) = abs_path es" by (rule path_Clean_rooted [OF q(1)])
  then show ?thesis using q by (simp add: abs_path_def)
qed

lemma update_rows:
  assumes "rows_ok rs ps" "\<And>r. r \<in> set rs \<Longrightarrow> qr_ID (f r) = qr_ID r \<and> qr_QuarantinePath (f r) = qr_QuarantinePath r \<and> row_ok (f r)"
  shows "rows_ok (map (\<lambda>r. if qr_ID r = i then f r else r) rs) ps"
proof -
  let ?g = "\<lambda>r. if qr_ID r = i then f r else r"
  have ids: "map qr_ID (map ?g rs) = map qr_ID rs" and paths: "map qr_QuarantinePath (map ?g rs) = map qr_QuarantinePath rs"
    using assms(2) by auto
  have set: "qr_ID ` set (map ?g rs) = qr_ID ` set rs" using ids by (metis list.set_map)
  have "\<forall>r \<in> set (map ?g rs). row_ok r" using assms by (auto simp: rows_ok_def)
  then show ?thesis using assms(1) unfolding rows_ok_def ids paths set by blast
qed

lemma insert_rows:
  assumes "rows_ok rs ps" "row_ok r" "\<not> list_ex (\<lambda>q. qr_ID q = qr_ID r \<or> qr_QuarantinePath q = qr_QuarantinePath r) rs"
  shows "rows_ok (rs @ [r]) ps"
  using assms by (auto simp: rows_ok_def list_ex_iff)

lemma delete_rows:
  assumes "rows_ok rs ps" "\<And>r. r \<in> set rs \<Longrightarrow> \<not> P r \<Longrightarrow> qr_ID r = i"
  shows "rows_ok (filter P rs) (filter (\<lambda>p. fst p \<noteq> i) ps)"
proof -
  have "fst p \<in> qr_ID ` set (filter P rs)" if p: "p \<in> set ps" "fst p \<noteq> i" for p
  proof -
    obtain r where r: "r \<in> set rs" "fst p = qr_ID r" using assms(1) p(1) by (auto simp: rows_ok_def)
    then have "P r" using assms(2) p(2) by blast
    then show ?thesis using r by simp
  qed
  then show ?thesis using assms(1) by (auto simp: rows_ok_def distinct_map_filter)
qed

lemma connect_rows: "rows_ok rs ps \<Longrightarrow> i \<in> qr_ID ` set rs \<Longrightarrow> (i, c) \<notin> set ps \<Longrightarrow> rows_ok rs (ps @ [(i, c)])"
  by (simp add: rows_ok_def)

lemma update_record_inv:
  assumes "update_record i f db = (db', r)" "journal_inv db"
    and "\<And>r. r \<in> set (qd_records db) \<Longrightarrow> qr_ID (f r) = qr_ID r \<and> qr_QuarantinePath (f r) = qr_QuarantinePath r \<and> row_ok (f r)"
  shows "journal_inv db'"
  using assms(1) unfolding update_record_def
proof (cases rule: statement_cases)
  case 1
  then show ?thesis using assms(2) journal_inv_same by blast
next
  case (2 db1)
  have inv: "journal_inv db1" and rs: "qd_records db1 = qd_records db" using journal_inv_same [OF 2(1) assms(2)] 2(1) by (simp_all add: same_rows_def)
  have "rows_ok (map (\<lambda>r. if qr_ID r = i then f r else r) (qd_records db1)) (qd_connectors db1)"
    by (rule update_rows) (use inv assms(3) rs in \<open>simp_all add: journal_inv_def\<close>)
  then show ?thesis using 2(2) inv by (auto simp: journal_inv_def)
qed

lemma row_okI: "validQuarantineState st \<Longrightarrow> (st = QuarantineStateRestoring \<longleftrightarrow> p \<noteq> []) \<Longrightarrow> row_ok (r\<lparr>qr_State := st, qr_RestorePath := p, qr_UpdatedAt := t\<rparr>)"
  by (simp add: row_ok_def)

lemma Update_cases:
  assumes "UpdateQuarantineRecordState i st p db = (db', r)"
  obtains "same_rows db db'" "r \<noteq> Inr ()"
  | q now db1 r1 where "same_rows db db1" "\<And>r. row_ok (r\<lparr>qr_State := TrimSpace st, qr_RestorePath := q, qr_UpdatedAt := now\<rparr>)"
      "update_record (TrimSpace i) (\<lambda>r. r\<lparr>qr_State := TrimSpace st, qr_RestorePath := q, qr_UpdatedAt := now\<rparr>) db1 = (db', r1)"
proof (cases "if TrimSpace i = [] then Inl PIdentity else if \<not> validQuarantineState (TrimSpace st) then Inl PState
    else if TrimSpace st = QuarantineStateRestoring then normalizeAbsolutePath p else Inr []")
  case (Inl e)
  then have "UpdateQuarantineRecordState i st p db = (db, Inl e)" by (auto simp: UpdateQuarantineRecordState_def Let_def dfail_def split: if_splits)
  then show ?thesis using that(1) assms by auto
next
  case (Inr q)
  then have ok: "TrimSpace i \<noteq> []" "validQuarantineState (TrimSpace st)"
    and q: "(if TrimSpace st = QuarantineStateRestoring then normalizeAbsolutePath p else Inr []) = Inr q" by (auto split: if_splits)
  have iff: "TrimSpace st = QuarantineStateRestoring \<longleftrightarrow> q \<noteq> []" using q normalizeAbsolutePath_ne [of p q] by (auto split: if_splits)
  have "dthen q_now (\<lambda>now. dthen (update_record (TrimSpace i) (\<lambda>r. r\<lparr>qr_State := TrimSpace st, qr_RestorePath := q, qr_UpdatedAt := now\<rparr>)) (\<lambda>changed.
      if changed \<noteq> 1 then dfail PMissing else dreturn ())) db = (db', r)"
    using assms ok q by (simp add: UpdateQuarantineRecordState_def Let_def)
  then show ?thesis
  proof (cases rule: dthen_cases)
    case (1 e)
    then show ?thesis using that(1) q_now_same by blast
  next
    case (2 db1 now)
    from 2(2) obtain r1 where "update_record (TrimSpace i) (\<lambda>r. r\<lparr>qr_State := TrimSpace st, qr_RestorePath := q, qr_UpdatedAt := now\<rparr>) db1 = (db', r1)"
      by (cases rule: dthen_cases) (auto simp: dfail_def dreturn_def split: if_splits)
    then show ?thesis using that(2) q_now_same [OF 2(1)] row_okI [OF ok(2) iff] by blast
  qed
qed

lemma Update_inv:
  assumes "UpdateQuarantineRecordState i st p db = (db', r)" "journal_inv db"
  shows "journal_inv db'"
  using assms(1)
proof (cases rule: Update_cases)
  case 1
  then show ?thesis using journal_inv_same assms(2) by blast
next
  case (2 q now db1 r1)
  show ?thesis by (rule update_record_inv [OF 2(3) journal_inv_same [OF 2(1) assms(2)]]) (use 2(2) in simp)
qed

text \<open>What identifies a quarantine is never changed, only set and removed with the row.\<close>

definition journal_identity :: "QuarantineRow \<Rightarrow> string \<times> string \<times> string \<times> string \<times> string \<times> string" where
  "journal_identity r = (qr_ID r, qr_TargetType r, qr_TargetName r, qr_OriginalPath r, qr_QuarantinePath r, qr_ContentHash r)"

lemma update_record_identity:
  assumes "update_record i f db = (db', r)" "\<And>r. journal_identity (f r) = journal_identity r"
  shows "map journal_identity (qd_records db') = map journal_identity (qd_records db)"
  using assms(1) unfolding update_record_def
  by (cases rule: statement_cases) (use assms(2) in \<open>auto simp: same_rows_def\<close>)

lemma Update_identity:
  assumes "UpdateQuarantineRecordState i st p db = (db', r)"
  shows "map journal_identity (qd_records db') = map journal_identity (qd_records db)"
  using assms
proof (cases rule: Update_cases)
  case (2 q now db1 r1)
  have "map journal_identity (qd_records db') = map journal_identity (qd_records db1)"
    by (rule update_record_identity [OF 2(3)]) (simp add: journal_identity_def)
  then show ?thesis using 2(1) by (simp add: same_rows_def)
qed (simp add: same_rows_def)

subsection \<open>Creation\<close>

lemma normalize_create:
  assumes "normalizeCreateQuarantineRecord uni json_object input = Inr n"
  shows "validQuarantineState (ci_State n) \<and> ci_State n \<noteq> QuarantineStateRestoring \<and> ci_TargetType n = TrimSpace (ci_TargetType input) \<and>
    ci_TargetName n = TrimSpace (ci_TargetName input) \<and> ci_ContentHash n = ToLower uni (TrimSpace (ci_ContentHash input)) \<and>
    ci_OriginalPath n = path_Clean (TrimSpace (ci_OriginalPath input)) \<and> ci_QuarantinePath n = path_Clean (TrimSpace (ci_QuarantinePath input)) \<and>
    IsAbs (TrimSpace (ci_OriginalPath input))"
  using assms normalizeAbsolutePath_ne
  by (auto simp: normalizeCreateQuarantineRecord_def Let_def split: if_splits sum.splits)

definition bound_to :: "CreateQuarantineRecordInput \<Rightarrow> QuarantineRow \<Rightarrow> bool" where
  "bound_to n r \<longleftrightarrow> qr_TargetType r = ci_TargetType n \<and> qr_TargetName r = ci_TargetName n \<and> samePath (qr_OriginalPath r) (ci_OriginalPath n) \<and>
     qr_QuarantinePath r = ci_QuarantinePath n \<and> qr_ContentHash r = ci_ContentHash n"

lemma insert_record_Inr:
  assumes "insert_record row db = (db', Inr u)"
  shows "qd_records db' = qd_records db @ [row] \<and> qd_connectors db' = qd_connectors db \<and> db_actions (qd_base db') = db_actions (qd_base db) \<and>
    \<not> list_ex (\<lambda>r. qr_ID r = qr_ID row \<or> qr_QuarantinePath r = qr_QuarantinePath row) (qd_records db)"
  using assms unfolding insert_record_def by (elim statement_Inr) (auto simp: same_rows_def split: if_splits)

lemma bind_record_new:
  assumes "bind_record n now None db = (db', Inr row)" "journal_inv db" "validQuarantineState (ci_State n)" "ci_State n \<noteq> QuarantineStateRestoring"
  shows "journal_inv db' \<and> row \<in> set (qd_records db') \<and> bound_to n row"
proof -
  obtain db1 i where i: "q_uuid db = (db1, Inr i)" and ins: "insert_record row db1 = (db', Inr ())"
    and row: "row = \<lparr>qr_ID = i, qr_TargetType = ci_TargetType n, qr_TargetName = ci_TargetName n, qr_OriginalPath = ci_OriginalPath n,
                qr_QuarantinePath = ci_QuarantinePath n, qr_ContentHash = ci_ContentHash n, qr_Reason = ci_Reason n, qr_State = ci_State n,
                qr_OwnershipJSON = ci_OwnershipJSON n, qr_RestorePath = [], qr_CreatedAt = now, qr_UpdatedAt = now\<rparr>"
    using assms(1) by (auto simp: bind_record_def Let_def dthen_Inr dreturn_Inr)
  have inv: "journal_inv db1" using journal_inv_same [OF q_uuid_same [OF i] assms(2)] .
  have "row_ok row" using assms(3,4) by (simp add: row row_ok_def)
  then have "rows_ok (qd_records db1 @ [row]) (qd_connectors db1)" using insert_rows inv insert_record_Inr [OF ins] by (simp add: journal_inv_def)
  then show ?thesis using insert_record_Inr [OF ins] inv by (simp add: journal_inv_def action_inv_def bound_to_def row samePath_def)
qed

lemma update_record_Inr:
  assumes "update_record i f db = (db', Inr k)"
  shows "qd_records db' = map (\<lambda>r. if qr_ID r = i then f r else r) (qd_records db)"
  using assms unfolding update_record_def by (elim statement_Inr) (auto simp: same_rows_def)

lemma bind_record_found:
  assumes "bind_record n now (Some old) db = (db', Inr row)" "journal_inv db" "old \<in> set (qd_records db)" "qr_QuarantinePath old = ci_QuarantinePath n"
  shows "journal_inv db' \<and> row \<in> set (qd_records db') \<and> bound_to n row"
proof -
  define refresh :: "QuarantineRow \<Rightarrow> QuarantineRow" where "refresh = (\<lambda>r. r\<lparr>qr_Reason := (if ci_Reason n \<noteq> [] then ci_Reason n else qr_Reason r),
    qr_OwnershipJSON := (if ci_OwnershipJSON n \<noteq> ''{}'' then ci_OwnershipJSON n else qr_OwnershipJSON r), qr_UpdatedAt := now\<rparr>)"
  have same: "sameQuarantineIdentity old n" and row: "row = refresh old"
    using assms(1) by (auto simp: bind_record_def Let_def dthen_Inr dreturn_Inr refresh_def split: if_splits)
  obtain k where u: "update_record (qr_ID old) refresh db = (db', Inr k)"
    using assms(1) same by (auto simp: bind_record_def Let_def dthen_Inr dreturn_Inr refresh_def)
  have "journal_inv db'" by (rule update_record_inv [OF u assms(2)]) (use assms(2) in \<open>simp add: refresh_def journal_inv_def rows_ok_def row_ok_def\<close>)
  moreover have "row \<in> set (qd_records db')" unfolding update_record_Inr [OF u] row using assms(3) by (auto simp: image_iff)
  moreover have "bound_to n row" using same assms(4) by (simp add: row refresh_def bound_to_def sameQuarantineIdentity_def)
  ultimately show ?thesis by blast
qed

lemma associate_Inr:
  assumes "associate i cs db = (db', Inr u)" "journal_inv db" "i \<in> qr_ID ` set (qd_records db)"
  shows "journal_inv db' \<and> qd_records db' = qd_records db"
  using assms
proof (induction cs arbitrary: db)
  case Nil
  then show ?case by (simp add: dreturn_Inr)
next
  case (Cons c cs)
  obtain db1 where s: "statement (\<lambda>db. (if (i, c) \<in> set (qd_connectors db) then db else db\<lparr>qd_connectors := qd_connectors db @ [(i, c)]\<rparr>, Inr ())) db = (db1, Inr ())"
    and rest: "associate i cs db1 = (db', Inr u)" using Cons.prems(1) by (auto simp: dthen_Inr)
  from s obtain db0 where db0: "same_rows db db0" "db1 = (if (i, c) \<in> set (qd_connectors db0) then db0 else db0\<lparr>qd_connectors := qd_connectors db0 @ [(i, c)]\<rparr>)"
    by (elim statement_Inr) auto
  have inv0: "journal_inv db0" using journal_inv_same [OF db0(1) Cons.prems(2)] .
  have rec0: "qd_records db0 = qd_records db" using db0(1) by (simp add: same_rows_def)
  have "journal_inv db1"
    using inv0 connect_rows [of "qd_records db0" "qd_connectors db0" i c] Cons.prems(3) db0(2) rec0 by (auto simp: journal_inv_def)
  moreover have "qd_records db1 = qd_records db" using db0(2) rec0 by simp
  ultimately show ?case using Cons.IH [OF rest] Cons.prems(3) by simp
qed

lemma with_connectors_ID: "qr_ID (with_connectors row cs) = qr_ID row"
  by (simp add: with_connectors_def QuarantineRow.defs QuarantineRecord.defs)

lemma create_body:
  assumes "dthen (getQuarantineRecordByPathTx (ci_QuarantinePath n)) (\<lambda>found. dthen q_now (\<lambda>now. dthen (bind_record n now found) (\<lambda>row.
      dthen (associate (qr_ID row) (ci_Connectors n)) (\<lambda>_. dthen (quarantineConnectors (qr_ID row)) (\<lambda>cs. dreturn (True, with_connectors row cs)))))) db =
      (db', Inr (True, rec))"
    and inv: "journal_inv db" and st: "validQuarantineState (ci_State n)" "ci_State n \<noteq> QuarantineStateRestoring"
  shows "journal_inv db' \<and> (\<exists>row \<in> set (qd_records db'). qr_ID row = qr_ID rec \<and> bound_to n row)"
proof -
  from assms(1) obtain db1 db2 db3 db4 found now row u cs where
    f: "getQuarantineRecordByPathTx (ci_QuarantinePath n) db = (db1, Inr found)" and t: "q_now db1 = (db2, Inr now)"
    and b: "bind_record n now found db2 = (db3, Inr row)" and a: "associate (qr_ID row) (ci_Connectors n) db3 = (db4, Inr u)"
    and c: "quarantineConnectors (qr_ID row) db4 = (db', Inr cs)" and rec: "rec = with_connectors row cs"
    by (auto simp: dthen_Inr dreturn_Inr)
  have same: "same_rows db db2" using same_rows_trans [OF reads_same(1) [OF f] q_now_same [OF t]] .
  have inv2: "journal_inv db2" using journal_inv_same [OF same inv] .
  have found: "found = find (\<lambda>r. qr_QuarantinePath r = ci_QuarantinePath n) (qd_records db2)"
    using f same unfolding getQuarantineRecordByPathTx_def by (elim statement_Inr) (auto simp: same_rows_def)
  have three: "journal_inv db3 \<and> row \<in> set (qd_records db3) \<and> bound_to n row"
  proof (cases found)
    case None
    then show ?thesis using bind_record_new b inv2 st by blast
  next
    case (Some old)
    then have "old \<in> set (qd_records db2)" "qr_QuarantinePath old = ci_QuarantinePath n" using found by (auto simp: find_Some_iff)
    then show ?thesis using bind_record_found b inv2 Some by blast
  qed
  then have "qr_ID row \<in> qr_ID ` set (qd_records db3)" by blast
  then have four: "journal_inv db4 \<and> qd_records db4 = qd_records db3" using associate_Inr [OF a] three by blast
  have "same_rows db4 db'" using reads_same(3) [OF c] .
  then have "journal_inv db'" "qd_records db' = qd_records db3" using four journal_inv_same [of db4 db'] by (simp_all add: same_rows_def)
  then show ?thesis using three rec with_connectors_ID [of row cs] by auto
qed

lemma Create_effect:
  assumes "CreateQuarantineRecord uni json_object input db = (db', r)" "journal_inv db"
  shows "journal_inv db' \<and> (\<forall>e. r = Inl e \<longrightarrow> same_rows db db') \<and>
    (\<forall>rec. r = Inr rec \<longrightarrow> (\<exists>n. normalizeCreateQuarantineRecord uni json_object input = Inr n \<and>
       (\<exists>row \<in> set (qd_records db'). qr_ID row = qr_ID rec \<and> bound_to n row)))"
proof (cases "normalizeCreateQuarantineRecord uni json_object input")
  case (Inl e)
  then show ?thesis using assms by (simp add: CreateQuarantineRecord_def dfail_def) auto
next
  case (Inr n)
  let ?body = "dthen (getQuarantineRecordByPathTx (ci_QuarantinePath n)) (\<lambda>found. dthen q_now (\<lambda>now. dthen (bind_record n now found) (\<lambda>row.
      dthen (associate (qr_ID row) (ci_Connectors n)) (\<lambda>_. dthen (quarantineConnectors (qr_ID row)) (\<lambda>cs. dreturn (True, with_connectors row cs))))))"
  have st: "validQuarantineState (ci_State n)" "ci_State n \<noteq> QuarantineStateRestoring" using normalize_create [OF Inr] by blast+
  have run: "transaction ?body db = (db', r)" using assms(1) Inr by (simp add: CreateQuarantineRecord_def)
  show ?thesis
  proof (cases r)
    case e: (Inl e)
    then show ?thesis using transaction_same run journal_inv_same assms(2) by blast
  next
    case rec: (Inr rec)
    obtain db0 db2 c where t: "same_rows db db0" "?body db0 = (db2, Inr (c, rec))" "same_rows (if c then db2 else db) db'"
      by (rule transaction_commits [OF run [unfolded rec]])
    have "c" using t(2) by (auto simp: dthen_Inr dreturn_Inr)
    then have s: "same_rows db db0" "?body db0 = (db2, Inr (True, rec))" "same_rows db2 db'" using t by simp_all
    have "journal_inv db2 \<and> (\<exists>row \<in> set (qd_records db2). qr_ID row = qr_ID rec \<and> bound_to n row)"
      by (rule create_body [OF s(2) journal_inv_same [OF s(1) assms(2)] st])
    then show ?thesis using journal_inv_same [OF s(3)] s(3) rec Inr by (auto simp: same_rows_def)
  qed
qed

subsection \<open>Deletion and completion\<close>

lemma Delete_effect:
  assumes "DeleteQuarantineRecord i db = (db', r)" "journal_inv db"
  shows "journal_inv db' \<and> (\<forall>q \<in> set (qd_records db). qr_ID q \<noteq> i \<longrightarrow> q \<in> set (qd_records db'))"
proof (cases r)
  case (Inl e)
  then have "same_rows db db'" using assms(1) transaction_same unfolding DeleteQuarantineRecord_def by blast
  then show ?thesis using journal_inv_same assms(2) by (auto simp: same_rows_def)
next
  case (Inr u)
  let ?P = "\<lambda>q. qr_ID q = i \<and> qr_State q = QuarantineStatePending"
  obtain db0 db2 c where t: "same_rows db db0" "same_rows (if c then db2 else db) db'"
    and body: "to_commit (dthen (statement (\<lambda>db. (if list_ex ?P (qd_records db)
        then db\<lparr>qd_connectors := filter (\<lambda>p. fst p \<noteq> i) (qd_connectors db)\<rparr> else db, Inr ()))) (\<lambda>_.
      statement (\<lambda>db. (db\<lparr>qd_records := filter (\<lambda>r. \<not> ?P r) (qd_records db)\<rparr>, Inr ())))) db0 = (db2, Inr (c, u))"
    by (rule transaction_commits [OF assms(1) [unfolded DeleteQuarantineRecord_def Inr]])
  obtain db1 where s1: "statement (\<lambda>db. (if list_ex ?P (qd_records db)
        then db\<lparr>qd_connectors := filter (\<lambda>p. fst p \<noteq> i) (qd_connectors db)\<rparr> else db, Inr ())) db0 = (db1, Inr ())"
    and s2: "statement (\<lambda>db. (db\<lparr>qd_records := filter (\<lambda>r. \<not> ?P r) (qd_records db)\<rparr>, Inr ())) db1 = (db2, Inr ())" and c
    using body by (auto simp: to_commit_def dthen_Inr dreturn_Inr)
  have one: "qd_records db1 = qd_records db" "db_actions (qd_base db1) = db_actions (qd_base db)"
    "qd_connectors db1 = (if list_ex ?P (qd_records db) then filter (\<lambda>p. fst p \<noteq> i) (qd_connectors db) else qd_connectors db)"
    using s1 t(1) by (elim statement_Inr; auto simp: same_rows_def)+
  have two: "qd_records db2 = filter (\<lambda>r. \<not> ?P r) (qd_records db1)" "qd_connectors db2 = qd_connectors db1" "db_actions (qd_base db2) = db_actions (qd_base db1)"
    using s2 by (elim statement_Inr; auto simp: same_rows_def)+
  have ok: "rows_ok (qd_records db) (qd_connectors db)" using assms(2) by (simp add: journal_inv_def)
  have "rows_ok (qd_records db2) (qd_connectors db2)"
  proof (cases "list_ex ?P (qd_records db)")
    case True
    then show ?thesis using delete_rows [OF ok, of "\<lambda>r. \<not> ?P r" i] by (simp add: one two)
  next
    case False
    then have "filter (\<lambda>r. \<not> ?P r) (qd_records db) = qd_records db" by (auto simp: filter_id_conv list_ex_iff)
    then show ?thesis using ok by (simp add: one two False)
  qed
  then have "journal_inv db2" using assms(2) by (simp add: journal_inv_def action_inv_def one two)
  then have "journal_inv db'" using t(2) \<open>c\<close> journal_inv_same by simp
  then show ?thesis using t(2) \<open>c\<close> by (auto simp: same_rows_def one two)
qed

text \<open>What the completion of a restore does to the enforcement table.\<close>

definition file_cleared :: "QuarantineRow \<Rightarrow> string list \<Rightarrow> ActionDB \<Rightarrow> ActionDB \<Rightarrow> bool" where
  "file_cleared row cs base base' \<longleftrightarrow> (\<forall>k field. cell base' k field =
     (if field = ''file'' \<and> (\<exists>c \<in> set cs. k = (qr_TargetType row, qr_TargetName row, c)) then None else cell base k field))"

lemma reconcile_Inr:
  assumes "reconcile_actions row destination now cs db = (db', Inr u)" "journal_inv db"
  shows "journal_inv db' \<and> qd_records db' = qd_records db \<and> qd_connectors db' = qd_connectors db \<and> file_cleared row cs (qd_base db) (qd_base db')"
  using assms
proof (induction cs arbitrary: db)
  case Nil
  then show ?case by (simp add: dreturn_Inr file_cleared_def)
next
  case (Cons c cs)
  let ?new = "\<lambda>i. \<lparr>ar_ID = i, ar_TargetType = qr_TargetType row, ar_TargetName = qr_TargetName row, ar_SourcePath = Some destination,
      ar_Actions = empty_json, ar_Reason = [], ar_UpdatedAt = now, ar_Connector = c\<rparr>"
  let ?upd = "\<lambda>r. r\<lparr>ar_SourcePath := Some destination, ar_Actions := json_put ''file'' None (ar_Actions r), ar_UpdatedAt := now\<rparr>"
  obtain db1 db2 i where i: "q_uuid db = (db1, Inr i)"
    and s: "statement (\<lambda>db. (db\<lparr>qd_base := (qd_base db)\<lparr>db_actions := upsert (?new i) ?upd (db_actions (qd_base db))\<rparr>\<rparr>, Inr ())) db1 = (db2, Inr ())"
    and rest: "reconcile_actions row destination now cs db2 = (db', Inr u)" using Cons.prems(1) by (auto simp: dthen_Inr)
  have two: "qd_records db2 = qd_records db" "qd_connectors db2 = qd_connectors db"
    "db_actions (qd_base db2) = upsert (?new i) ?upd (db_actions (qd_base db))"
    using s q_uuid_same [OF i] by (elim statement_Inr; auto simp: same_rows_def)+
  have key: "row_key (?upd r) = row_key r" for r by (simp add: row_key_def)
  have inv: "journal_inv db2" using Cons.prems(2) upsert_distinct [of ?upd "db_actions (qd_base db)" "?new i"] key
    by (simp add: journal_inv_def two action_inv_def)
  have new: "row_key (?new i) = (qr_TargetType row, qr_TargetName row, c)" by (simp add: row_key_def)
  have cells: "cell (qd_base db2) k field = (if field = ''file'' \<and> k = (qr_TargetType row, qr_TargetName row, c) then None else cell (qd_base db) k field)" for k field
    using upsert_at [of ?upd "?new i" "db_actions (qd_base db)" k] key new
    by (cases "row_at (db_actions (qd_base db)) k") (auto simp: cell_def two json_get_put)
  show ?case using Cons.IH [OF rest inv] by (auto simp: two file_cleared_def cells)
qed

lemma drop_connectors: "statement (\<lambda>db. (db\<lparr>qd_connectors := f (qd_connectors db)\<rparr>, Inr ())) db = (db', Inr u) \<Longrightarrow>
    qd_connectors db' = f (qd_connectors db) \<and> qd_records db' = qd_records db \<and> db_actions (qd_base db') = db_actions (qd_base db)"
  by (elim statement_Inr) (auto simp: same_rows_def)

lemma drop_records: "statement (\<lambda>db. (db\<lparr>qd_records := f (qd_records db)\<rparr>, Inr ())) db = (db', Inr u) \<Longrightarrow>
    qd_records db' = f (qd_records db) \<and> qd_connectors db' = qd_connectors db \<and> db_actions (qd_base db') = db_actions (qd_base db)"
  by (elim statement_Inr) (auto simp: same_rows_def)

lemma complete_body:
  assumes "dthen (quarantineConnectors (qr_ID row)) (\<lambda>cs. dthen q_now (\<lambda>now. dthen (reconcile_actions row destination now cs) (\<lambda>_.
      dthen (statement (\<lambda>db. (db\<lparr>qd_connectors := filter (\<lambda>p. fst p \<noteq> qr_ID row) (qd_connectors db)\<rparr>, Inr ()))) (\<lambda>_.
      statement (\<lambda>db. (db\<lparr>qd_records := filter (\<lambda>r. qr_ID r \<noteq> qr_ID row) (qd_records db)\<rparr>, Inr ())))))) db = (db', Inr u)"
    and inv: "journal_inv db"
  shows "journal_inv db' \<and> qd_records db' = filter (\<lambda>r. qr_ID r \<noteq> qr_ID row) (qd_records db) \<and>
    file_cleared row (map snd (filter (\<lambda>p. fst p = qr_ID row) (qd_connectors db))) (qd_base db) (qd_base db')"
proof -
  from assms(1) obtain db1 db2 db3 db4 cs now v v' where
    c: "quarantineConnectors (qr_ID row) db = (db1, Inr cs)" and t: "q_now db1 = (db2, Inr now)"
    and r: "reconcile_actions row destination now cs db2 = (db3, Inr v)"
    and s1: "statement (\<lambda>db. (db\<lparr>qd_connectors := filter (\<lambda>p. fst p \<noteq> qr_ID row) (qd_connectors db)\<rparr>, Inr ())) db3 = (db4, Inr v')"
    and s2: "statement (\<lambda>db. (db\<lparr>qd_records := filter (\<lambda>r. qr_ID r \<noteq> qr_ID row) (qd_records db)\<rparr>, Inr ())) db4 = (db', Inr u)"
    by (auto simp: dthen_Inr)
  have "cs = sort (map snd (filter (\<lambda>p. fst p = qr_ID row) (qd_connectors db)))"
    using c unfolding quarantineConnectors_def by (elim statement_Inr) (auto simp: same_rows_def)
  then have cs: "set cs = set (map snd (filter (\<lambda>p. fst p = qr_ID row) (qd_connectors db)))" by simp
  have same: "same_rows db db2" using same_rows_trans [OF reads_same(3) [OF c] q_now_same [OF t]] .
  have base: "cell (qd_base db2) = cell (qd_base db)" using same by (intro ext) (simp add: same_rows_def cell_def)
  have three: "journal_inv db3" "qd_records db3 = qd_records db" "qd_connectors db3 = qd_connectors db" "file_cleared row cs (qd_base db2) (qd_base db3)"
    using reconcile_Inr [OF r journal_inv_same [OF same inv]] same by (simp_all add: same_rows_def)
  have fin: "qd_records db' = filter (\<lambda>r. qr_ID r \<noteq> qr_ID row) (qd_records db)" "qd_connectors db' = filter (\<lambda>p. fst p \<noteq> qr_ID row) (qd_connectors db)"
    "db_actions (qd_base db') = db_actions (qd_base db3)"
    using drop_connectors [OF s1] drop_records [OF s2] three by simp_all
  have "rows_ok (qd_records db') (qd_connectors db')" unfolding fin by (rule delete_rows) (use inv in \<open>auto simp: journal_inv_def\<close>)
  moreover have "action_inv (qd_base db')" using three(1) fin(3) by (simp add: journal_inv_def action_inv_def)
  moreover have "cell (qd_base db') = cell (qd_base db3)" using fin(3) by (intro ext) (simp add: cell_def)
  ultimately show ?thesis using three(4) fin(1) cs base by (simp add: journal_inv_def file_cleared_def)
qed

lemma Complete_effect:
  assumes "CompleteQuarantineRestore i destination db = (db', r)" "journal_inv db"
  shows "same_rows db db' \<and> (r = Inr () \<longrightarrow> i \<notin> qr_ID ` set (qd_records db)) \<or>
    (\<exists>row \<in> set (qd_records db). qr_ID row = i \<and> r = Inr () \<and> qr_State row = QuarantineStateRestoring \<and>
       journal_inv db' \<and> qd_records db' = filter (\<lambda>r. qr_ID r \<noteq> i) (qd_records db) \<and>
       file_cleared row (map snd (filter (\<lambda>p. fst p = i) (qd_connectors db))) (qd_base db) (qd_base db'))"
proof (cases r)
  case (Inl e)
  then have "same_rows db db'" using assms(1) transaction_same by (auto simp: CompleteQuarantineRestore_def dfail_def split: sum.splits)
  then show ?thesis using Inl by simp
next
  case (Inr u)
  then obtain d where d: "normalizeAbsolutePath destination = Inr d" using assms(1) by (auto simp: CompleteQuarantineRestore_def dfail_def split: sum.splits)
  obtain db0 db2 c where t: "same_rows db db0" "same_rows (if c then db2 else db) db'" and body: "dthen (getQuarantineRecordByIDTx i) (\<lambda>found.
          case found of
            None \<Rightarrow> dreturn (False, ())
          | Some row \<Rightarrow>
              if qr_State row \<noteq> QuarantineStateRestoring \<or> \<not> samePath (qr_RestorePath row) d then dfail PJournal
              else to_commit (
                dthen (quarantineConnectors (qr_ID row)) (\<lambda>cs.
                dthen q_now (\<lambda>now.
                dthen (reconcile_actions row d now cs) (\<lambda>_.
                dthen (statement (\<lambda>db. (db\<lparr>qd_connectors := filter (\<lambda>p. fst p \<noteq> qr_ID row) (qd_connectors db)\<rparr>, Inr ()))) (\<lambda>_.
                statement (\<lambda>db. (db\<lparr>qd_records := filter (\<lambda>r. qr_ID r \<noteq> qr_ID row) (qd_records db)\<rparr>, Inr ())))))))) db0 = (db2, Inr (c, u))"
    by (rule transaction_commits [OF assms(1) [unfolded CompleteQuarantineRestore_def d Inr sum.case]])
  obtain db1 found where f: "getQuarantineRecordByIDTx i db0 = (db1, Inr found)"
    using body by (auto simp: dthen_Inr)
  have s1: "same_rows db db1" using same_rows_trans [OF t(1) reads_same(2) [OF f]] .
  have found: "found = find (\<lambda>r. qr_ID r = i) (qd_records db)"
    using f t(1) unfolding getQuarantineRecordByIDTx_def by (elim statement_Inr) (auto simp: same_rows_def)
  show ?thesis
  proof (cases found)
    case None
    then have "\<not> c" using body f by (auto simp: dthen_Inr dreturn_Inr)
    moreover have "i \<notin> qr_ID ` set (qd_records db)" using None found by (auto simp: find_None_iff)
    ultimately show ?thesis using t(2) by simp
  next
    case (Some row)
    then have row: "row \<in> set (qd_records db)" "qr_ID row = i" using found by (auto simp: find_Some_iff)
    have st: "qr_State row = QuarantineStateRestoring" and c and
      rest: "dthen (quarantineConnectors (qr_ID row)) (\<lambda>cs. dthen q_now (\<lambda>now. dthen (reconcile_actions row d now cs) (\<lambda>_.
        dthen (statement (\<lambda>db. (db\<lparr>qd_connectors := filter (\<lambda>p. fst p \<noteq> qr_ID row) (qd_connectors db)\<rparr>, Inr ()))) (\<lambda>_.
        statement (\<lambda>db. (db\<lparr>qd_records := filter (\<lambda>r. qr_ID r \<noteq> qr_ID row) (qd_records db)\<rparr>, Inr ())))))) db1 = (db2, Inr u)"
      using body f Some by (auto simp: dthen_Inr [of "getQuarantineRecordByIDTx i"] to_commit_Inr split: if_splits)
    note e = complete_body [OF rest journal_inv_same [OF s1 assms(2)]]
    have same: "same_rows db2 db'" using t(2) \<open>c\<close> by simp
    have cells: "cell (qd_base db') = cell (qd_base db2)" "cell (qd_base db1) = cell (qd_base db)"
      using same s1 by (auto simp: same_rows_def cell_def fun_eq_iff)
    show ?thesis using e row st Inr s1 same journal_inv_same [OF same] cells by (auto simp: same_rows_def file_cleared_def)
  qed
qed

subsection \<open>The reachable journals\<close>

definition empty_journal :: "ActionDB \<Rightarrow> QuarantineDB" where
  "empty_journal base = \<lparr>qd_base = base, qd_records = [], qd_connectors = []\<rparr>"

text \<open>Any sequence of the operations, successful or not.  The faults, times and identifiers of a state are those of its \<open>qd_base\<close>.\<close>

inductive journal_reach :: "unicode_map \<Rightarrow> (string \<Rightarrow> bool) \<Rightarrow> QuarantineDB \<Rightarrow> bool" for uni json_object where
  start: "action_inv base \<Longrightarrow> journal_reach uni json_object (empty_journal base)"
| create: "journal_reach uni json_object db \<Longrightarrow> journal_reach uni json_object (fst (CreateQuarantineRecord uni json_object input db))"
| update: "journal_reach uni json_object db \<Longrightarrow> journal_reach uni json_object (fst (UpdateQuarantineRecordState i state path db))"
| delete: "journal_reach uni json_object db \<Longrightarrow> journal_reach uni json_object (fst (DeleteQuarantineRecord i db))"
| complete: "journal_reach uni json_object db \<Longrightarrow> journal_reach uni json_object (fst (CompleteQuarantineRestore i path db))"

lemma journal_reach_inv:
  assumes "journal_reach uni json_object db"
  shows "journal_inv db"
  using assms
proof induction
  case (start base)
  then show ?case by (simp add: journal_inv_def empty_journal_def rows_ok_def)
next
  case (create db input)
  then show ?case using Create_effect [of uni json_object input db] by (simp add: prod_eq_iff)
next
  case (update db i state path)
  then show ?case using Update_inv [of i state path db] by (simp add: prod_eq_iff)
next
  case (delete db i)
  then show ?case using Delete_effect [of i db] by (simp add: prod_eq_iff)
next
  case (complete db i path)
  then show ?case using Complete_effect [of i path db] journal_inv_same [of db "fst (CompleteQuarantineRestore i path db)"] by (fastforce simp: prod_eq_iff)
qed

text \<open>
  C11. After any sequence of operations, whatever statements failed, the journal has one row per quarantine path and per identifier, its
  connectors belong to rows that exist, each state is a known one, and a restore path is bound exactly in the state \<open>restoring\<close>.
\<close>

theorem journal_invariant:
  assumes "journal_reach uni json_object db"
  shows "distinct (map qr_ID (qd_records db)) \<and> distinct (map qr_QuarantinePath (qd_records db)) \<and>
    (\<forall>(i, c) \<in> set (qd_connectors db). \<exists>r \<in> set (qd_records db). qr_ID r = i) \<and>
    (\<forall>r \<in> set (qd_records db). validQuarantineState (qr_State r) \<and> (qr_State r = QuarantineStateRestoring \<longleftrightarrow> qr_RestorePath r \<noteq> []))"
  using journal_reach_inv [OF assms] by (fastforce simp: journal_inv_def rows_ok_def row_ok_def)

definition sample_input :: CreateQuarantineRecordInput where
  "sample_input = \<lparr>ci_TargetType = ''skill'', ci_TargetName = ''a'', ci_OriginalPath = ''/s/a'', ci_QuarantinePath = ''/q/skills/a'',
     ci_ContentHash = replicate 64 (CHR ''0''), ci_Reason = ''r'', ci_State = ''pending'', ci_OwnershipJSON = ''{}'', ci_Connectors = [''codex'', []]\<rparr>"

definition sample_actions :: ActionDB where
  "sample_actions = \<lparr>db_actions = [\<lparr>ar_ID = ''i'', ar_TargetType = ''skill'', ar_TargetName = ''a'', ar_SourcePath = None,
       ar_Actions = \<lparr>aj_File = Some ''quarantine'', aj_Runtime = None, aj_Install = Some ''block''\<rparr>, ar_Reason = [], ar_UpdatedAt = 0, ar_Connector = ''codex''\<rparr>],
     db_faults = [], db_times = [1, 2, 3, 4], db_ids = [''q1'', ''n1'', ''n2'']\<rparr>"

definition sample_journal :: QuarantineDB where
  "sample_journal = fst (CreateQuarantineRecord plain_map (\<lambda>_. True) sample_input (empty_journal sample_actions))"

theorem journal_invariant_witness: "distinct (map qr_QuarantinePath (qd_records sample_journal)) \<and> qd_records sample_journal \<noteq> []"
proof -
  have "action_inv sample_actions" by (simp add: action_inv_def sample_actions_def)
  then have "journal_reach plain_map (\<lambda>_. True) sample_journal" unfolding sample_journal_def by (intro journal_reach.create journal_reach.start)
  from journal_invariant [OF this] have "distinct (map qr_QuarantinePath (qd_records sample_journal))" by blast
  moreover have "length (qd_records sample_journal) = 1" by code_simp
  ultimately show ?thesis by auto
qed

text \<open>
  C12. The completion of a restore removes the record and clears the file action of the asset for the connectors of the record, and nothing else in
  the enforcement table: install and runtime actions of the asset and all actions of other assets stay as they are.
\<close>

theorem complete_restore_clears_file_only:
  assumes "CompleteQuarantineRestore i destination db = (db', Inr ())" "journal_inv db" "row \<in> set (qd_records db)" "qr_ID row = i"
  shows "i \<notin> qr_ID ` set (qd_records db') \<and> cell (qd_base db') k field =
    (if field = ''file'' \<and> (\<exists>c. (i, c) \<in> set (qd_connectors db) \<and> k = (qr_TargetType row, qr_TargetName row, c)) then None else cell (qd_base db) k field)"
proof -
  from Complete_effect [OF assms(1,2)] assms(3,4) obtain r where r: "r \<in> set (qd_records db)" "qr_ID r = i"
    and recs: "qd_records db' = filter (\<lambda>r. qr_ID r \<noteq> i) (qd_records db)"
    and cells: "file_cleared r (map snd (filter (\<lambda>p. fst p = i) (qd_connectors db))) (qd_base db) (qd_base db')" by auto
  have "distinct (map qr_ID (qd_records db))" using assms(2) by (simp add: journal_inv_def rows_ok_def)
  then have "r = row" using r assms(3,4) by (metis inj_onD distinct_map)
  moreover have "(\<exists>c \<in> set (map snd (filter (\<lambda>p. fst p = i) (qd_connectors db))). k = (t, n, c)) \<longleftrightarrow> (\<exists>c. (i, c) \<in> set (qd_connectors db) \<and> k = (t, n, c))" for t n
    by force
  ultimately show ?thesis using cells recs by (cases k) (auto simp: file_cleared_def)
qed

definition sample_restoring :: QuarantineDB where
  "sample_restoring = fst (UpdateQuarantineRecordState ''q1'' ''restoring'' ''/s/a'' sample_journal)"

theorem complete_restore_clears_file_only_witness:
  "\<exists>db'. CompleteQuarantineRestore ''q1'' ''/s/a'' sample_restoring = (db', Inr ()) \<and>
     cell (qd_base db') (''skill'', ''a'', ''codex'') ''file'' = None \<and> cell (qd_base db') (''skill'', ''a'', ''codex'') ''install'' = Some ''block''"
proof -
  have run: "snd (CompleteQuarantineRestore ''q1'' ''/s/a'' sample_restoring) = Inr ()" by code_simp
  have before: "cell (qd_base sample_restoring) (''skill'', ''a'', ''codex'') ''install'' = Some ''block''" by code_simp
  have con: "(''q1'', ''codex'') \<in> set (qd_connectors sample_restoring)" by code_simp
  have ids: "map qr_ID (qd_records sample_restoring) = [''q1'']" "map qr_TargetType (qd_records sample_restoring) = [''skill'']" "map qr_TargetName (qd_records sample_restoring) = [''a'']"
    by (code_simp)+
  have "action_inv sample_actions" by (simp add: action_inv_def sample_actions_def)
  then have "journal_reach plain_map (\<lambda>_. True) sample_restoring"
    unfolding sample_restoring_def sample_journal_def by (intro journal_reach.update journal_reach.create journal_reach.start)
  then have inv: "journal_inv sample_restoring" by (rule journal_reach_inv)
  obtain db' where d: "CompleteQuarantineRestore ''q1'' ''/s/a'' sample_restoring = (db', Inr ())" using run by (metis prod.collapse)
  obtain row where row: "qd_records sample_restoring = [row]" "qr_ID row = ''q1''" "qr_TargetType row = ''skill''" "qr_TargetName row = ''a''" using ids by auto
  note cl = complete_restore_clears_file_only [OF d inv, of row]
  show ?thesis using cl [of "(''skill'', ''a'', ''codex'')" "''file''"] cl [of "(''skill'', ''a'', ''codex'')" "''install''"] row con before d by auto
qed

end
