(* ===== verification/Go_FileSystem.thy ===== *)
theory Go_FileSystem
  imports Go_Path "HOL-Library.List_Lexorder" "HOL-Library.Char_ord"
begin

text \<open>
  The part of package \<open>os\<close> that the quarantine uses, on a Unix file system: a tree of regular files, directories, symbolic links
  and other nodes, with permission bits.  Owners, times and the bits above the permissions are not in the model.

  Every call may fail.  The list of faults of a state says, call by call, whether the next one fails (\<open>Some k\<close>; a failed write has
  written \<open>k\<close> bytes) or does what it should (\<open>None\<close>, also when the list is used up).  A crash is the case in which all later calls fail.
\<close>

unbundle bit_operations_syntax

subsection \<open>Trees\<close>

type_synonym perm = "9 word"

datatype node =
    Reg perm string
  | Dir perm "(string \<times> node) list"
  | Lnk string
  | Special

text \<open>The entries of a directory are kept in the order of their names, bytewise, as \<open>os.ReadDir\<close> returns them.\<close>

definition del_entry :: "string \<Rightarrow> (string \<times> node) list \<Rightarrow> (string \<times> node) list" where
  "del_entry n es = filter (\<lambda>e. fst e \<noteq> n) es"

definition put_entry :: "string \<Rightarrow> node \<Rightarrow> (string \<times> node) list \<Rightarrow> (string \<times> node) list" where
  "put_entry n x es = insort_key fst (n, x) (del_entry n es)"

definition set_entry_to :: "string \<Rightarrow> node option \<Rightarrow> (string \<times> node) list \<Rightarrow> (string \<times> node) list" where
  "set_entry_to n x es = (case x of None \<Rightarrow> del_entry n es | Some c \<Rightarrow> put_entry n c es)"

fun get :: "node \<Rightarrow> string list \<Rightarrow> node option" where
  "get x [] = Some x"
| "get (Dir m es) (n # ns) = (case map_of es n of None \<Rightarrow> None | Some c \<Rightarrow> get c ns)"
| "get x (n # ns) = None"

text \<open>Replaces, creates (\<open>Some\<close>) or removes (\<open>None\<close>) what is at a path other than the root; the parent must be there.\<close>

fun set_at :: "node \<Rightarrow> string list \<Rightarrow> node option \<Rightarrow> node" where
  "set_at x [] y = x"
| "set_at (Dir m es) [n] y = Dir m (set_entry_to n y es)"
| "set_at (Dir m es) (n # ns) y =
     (case map_of es n of None \<Rightarrow> Dir m es | Some c \<Rightarrow> Dir m (put_entry n (set_at c ns y) es))"
| "set_at x (n # ns) y = x"

subsection \<open>Path resolution\<close>

text \<open>\<open>EBLOCKED\<close> is no error of the system: it stands for a call that never returns.\<close>

datatype sys_err = ENOENT | ENOTDIR | ELOOP | EEXIST | ENOTEMPTY | EISDIR | EIO | EBLOCKED

text \<open>
  Symbolic links are followed in every element but the last, and in the last one too if \<open>follow\<close>; at most 40 of them.  \<open>at\<close> is the
  physical path so far, \<open>rest\<close> what remains.  The result is a physical path whose parent is a directory.
\<close>

definition parent_of :: "string list \<Rightarrow> string list" where
  "parent_of p = butlast p"

function walk :: "bool \<Rightarrow> nat \<Rightarrow> node \<Rightarrow> string list \<Rightarrow> string list \<Rightarrow> sys_err + string list" where
  "walk follow k fs at [] = Inr at"
| "walk follow k fs at (n # ns) =
     (if n = [] \<or> n = ''.'' then walk follow k fs at ns
      else if n = ''..'' then walk follow k fs (parent_of at) ns
      else case get fs (at @ [n]) of
        Some (Lnk target) \<Rightarrow>
          if ns = [] \<and> \<not> follow then Inr (at @ [n])
          else if k = 0 then Inl ELOOP
          else walk follow (k - 1) fs (if IsAbs target then [] else at) (split_on (CHR ''/'') target @ ns)
      | Some (Dir m es) \<Rightarrow> walk follow k fs (at @ [n]) ns
      | None \<Rightarrow> if ns = [] then Inr (at @ [n]) else Inl ENOENT
      | _ \<Rightarrow> if ns = [] then Inr (at @ [n]) else Inl ENOTDIR)"
  by pat_completeness auto
termination
  by (relation "measures [\<lambda>(follow, k, fs, at, ns). k, \<lambda>(follow, k, fs, at, ns). length ns]") auto

definition max_links :: nat where
  "max_links = 40"

definition resolve :: "bool \<Rightarrow> node \<Rightarrow> string \<Rightarrow> sys_err + string list" where
  "resolve follow fs path = walk follow max_links fs [] (split_on (CHR ''/'') path)"

subsection \<open>System calls\<close>

type_synonym world = "node \<times> nat option list"
type_synonym 'a io = "world \<Rightarrow> world \<times> (sys_err + 'a)"

text \<open>A call, with what it has done when it fails.\<close>

definition call :: "(nat \<Rightarrow> node \<Rightarrow> node) \<Rightarrow> (node \<Rightarrow> node \<times> (sys_err + 'a)) \<Rightarrow> 'a io" where
  "call partial f w =
     (case w of
        (fs, Some k # faults) \<Rightarrow> ((partial k fs, faults), Inl EIO)
      | (fs, faults) \<Rightarrow> (case f fs of (fs', r) \<Rightarrow> ((fs', drop 1 faults), r)))"

abbreviation atomic_call :: "(node \<Rightarrow> node \<times> (sys_err + 'a)) \<Rightarrow> 'a io" where
  "atomic_call \<equiv> call (\<lambda>k fs. fs)"

definition look :: "bool \<Rightarrow> string \<Rightarrow> node \<Rightarrow> node \<times> (sys_err + node)" where
  "look follow path fs = (fs, case resolve follow fs path of
     Inl e \<Rightarrow> Inl e | Inr p \<Rightarrow> (case get fs p of None \<Rightarrow> Inl ENOENT | Some x \<Rightarrow> Inr x))"

definition Lstat :: "string \<Rightarrow> node io" where
  "Lstat path = atomic_call (look False path)"

definition Stat :: "string \<Rightarrow> node io" where
  "Stat path = atomic_call (look True path)"

text \<open>\<open>os.Open\<close> and reading to the end.\<close>

text \<open>A special node is taken for a named pipe nobody writes to: opening it does not return.\<close>

definition ReadFile :: "string \<Rightarrow> string io" where
  "ReadFile path = atomic_call (\<lambda>fs. (fs, case snd (look True path fs) of
     Inl e \<Rightarrow> Inl e | Inr (Reg m bytes) \<Rightarrow> Inr bytes | Inr Special \<Rightarrow> Inl EBLOCKED | Inr _ \<Rightarrow> Inl EISDIR))"

definition ReadDir :: "string \<Rightarrow> string list io" where
  "ReadDir path = atomic_call (\<lambda>fs. (fs, case snd (look True path fs) of
     Inl e \<Rightarrow> Inl e | Inr (Dir m es) \<Rightarrow> Inr (sort (map fst es)) | Inr _ \<Rightarrow> Inl ENOTDIR))"

text \<open>Creation of a node at a place that must be free.\<close>

definition create :: "string \<Rightarrow> node \<Rightarrow> node \<Rightarrow> node \<times> (sys_err + unit)" where
  "create path x fs = (case resolve False fs path of
     Inl e \<Rightarrow> (fs, Inl e)
   | Inr p \<Rightarrow> if get fs p \<noteq> None then (fs, Inl EEXIST) else (set_at fs p (Some x), Inr ()))"

definition Mkdir :: "perm \<Rightarrow> string \<Rightarrow> perm \<Rightarrow> unit io" where
  "Mkdir umask path m = atomic_call (create path (Dir (m AND NOT umask) []))"

definition CreateExcl :: "perm \<Rightarrow> string \<Rightarrow> perm \<Rightarrow> unit io" where
  "CreateExcl umask path m = atomic_call (create path (Reg (m AND NOT umask) []))"

definition update_file :: "string \<Rightarrow> (node \<Rightarrow> node) \<Rightarrow> node \<Rightarrow> node \<times> (sys_err + unit)" where
  "update_file path f fs = (case resolve True fs path of
     Inl e \<Rightarrow> (fs, Inl e)
   | Inr p \<Rightarrow> (case get fs p of None \<Rightarrow> (fs, Inl ENOENT) | Some x \<Rightarrow> (set_at fs p (Some (f x)), Inr ())))"

fun write_bytes :: "string \<Rightarrow> node \<Rightarrow> node" where
  "write_bytes bytes (Reg m old) = Reg m bytes"
| "write_bytes bytes x = x"

definition Write :: "string \<Rightarrow> string \<Rightarrow> unit io" where
  "Write path bytes = call (\<lambda>k fs. fst (update_file path (write_bytes (take k bytes)) fs)) (update_file path (write_bytes bytes))"

fun with_perm :: "perm \<Rightarrow> node \<Rightarrow> node" where
  "with_perm m (Reg _ bytes) = Reg m bytes"
| "with_perm m (Dir _ es) = Dir m es"
| "with_perm m x = x"

definition Chmod :: "string \<Rightarrow> perm \<Rightarrow> unit io" where
  "Chmod path m = atomic_call (update_file path (with_perm m))"

definition Sync :: "unit io" where
  "Sync = atomic_call (\<lambda>fs. (fs, Inr ()))"

definition Rename :: "string \<Rightarrow> string \<Rightarrow> unit io" where
  "Rename old new = atomic_call (\<lambda>fs.
     case (resolve False fs old, resolve False fs new) of
       (Inl e, _) \<Rightarrow> (fs, Inl e)
     | (_, Inl e) \<Rightarrow> (fs, Inl e)
     | (Inr p, Inr q) \<Rightarrow>
         (case get fs p of
            None \<Rightarrow> (fs, Inl ENOENT)
          | Some x \<Rightarrow>
              if p = q then (fs, Inr ())
              else (case (get fs q, x) of
                 (None, _) \<Rightarrow> (set_at (set_at fs p None) q (Some x), Inr ())
               | (Some (Dir m []), Dir m' es) \<Rightarrow> (set_at (set_at fs p None) q (Some x), Inr ())
               | (Some (Dir m es), Dir m' es') \<Rightarrow> (fs, Inl ENOTEMPTY)
               | (Some (Dir m es), _) \<Rightarrow> (fs, Inl EISDIR)
               | (Some _, Dir m es) \<Rightarrow> (fs, Inl ENOTDIR)
               | (Some _, _) \<Rightarrow> (set_at (set_at fs p None) q (Some x), Inr ()))))"

text \<open>\<open>os.Remove\<close>, and \<open>os.RemoveAll\<close>, which goes on after an error and leaves what it could not remove.\<close>

definition Remove :: "string \<Rightarrow> unit io" where
  "Remove path = atomic_call (\<lambda>fs. case resolve False fs path of
     Inl e \<Rightarrow> (fs, Inl e)
   | Inr p \<Rightarrow> (case get fs p of
       None \<Rightarrow> (fs, Inl ENOENT)
     | Some (Dir m (e # es)) \<Rightarrow> (fs, Inl ENOTEMPTY)
     | Some x \<Rightarrow> (set_at fs p None, Inr ())))"

definition unlink :: "node \<Rightarrow> nat option list \<Rightarrow> node option \<times> nat option list" where
  "unlink x faults = (case faults of Some k # rest \<Rightarrow> (Some x, rest) | _ \<Rightarrow> (None, drop 1 faults))"

function (sequential) remove_node :: "node \<Rightarrow> nat option list \<Rightarrow> node option \<times> nat option list"
  and remove_entries :: "(string \<times> node) list \<Rightarrow> nat option list \<Rightarrow> (string \<times> node) list \<times> nat option list" where
  "remove_node (Dir m es) faults =
     (case remove_entries es faults of
        ([], rest) \<Rightarrow> unlink (Dir m []) rest
      | (es', rest) \<Rightarrow> (Some (Dir m es'), rest))"
| "remove_node x faults = unlink x faults"
| "remove_entries [] faults = ([], faults)"
| "remove_entries ((n, x) # es) faults =
     (case remove_node x faults of (x', rest) \<Rightarrow>
      case remove_entries es rest of (es', rest') \<Rightarrow>
        ((case x' of None \<Rightarrow> es' | Some y \<Rightarrow> (n, y) # es'), rest'))"
  by pat_completeness auto
termination
  by (relation "measure (\<lambda>x. case x of Inl (n, f) \<Rightarrow> size n | Inr (es, f) \<Rightarrow> size_list (\<lambda>e. size (snd e) + 1) es)")
    (auto simp: size_prod_def case_prod_unfold)

definition RemoveAll :: "string \<Rightarrow> unit io" where
  "RemoveAll path w =
     (case w of (fs, faults) \<Rightarrow>
        (case resolve False fs path of
           Inl ENOENT \<Rightarrow> (w, Inr ())
         | Inl e \<Rightarrow> (w, Inl e)
         | Inr p \<Rightarrow> (case get fs p of
             None \<Rightarrow> (w, Inr ())
           | Some x \<Rightarrow>
               (case remove_node x faults of
                  (None, rest) \<Rightarrow> ((set_at fs p None, rest), Inr ())
                | (Some y, rest) \<Rightarrow> ((set_at fs p (Some y), rest), Inl EIO)))))"

text \<open>\<open>os.MkdirAll\<close>, on the elements of a cleaned absolute path in reverse order: the parent first, if the path is not there.\<close>

fun mkdir_chain :: "perm \<Rightarrow> perm \<Rightarrow> string list \<Rightarrow> unit io" where
  "mkdir_chain umask m [] w = (case Stat (abs_path []) w of (w1, Inl e) \<Rightarrow> (w1, Inl e) | (w1, Inr x) \<Rightarrow> (w1, Inr ()))"
| "mkdir_chain umask m (n # up) w =
     (let path = abs_path (rev (n # up)) in
      case Stat path w of
        (w1, Inr (Dir _ _)) \<Rightarrow> (w1, Inr ())
      | (w1, Inr _) \<Rightarrow> (w1, Inl ENOTDIR)
      | (w1, Inl _) \<Rightarrow>
          (case (if up = [] then (w1, Inr ()) else mkdir_chain umask m up w1) of
             (w2, Inl e) \<Rightarrow> (w2, Inl e)
           | (w2, Inr _) \<Rightarrow>
               (case Mkdir umask path m w2 of
                  (w3, Inr _) \<Rightarrow> (w3, Inr ())
                | (w3, Inl e) \<Rightarrow>
                    (case Lstat path w3 of (w4, Inr (Dir _ _)) \<Rightarrow> (w4, Inr ()) | (w4, _) \<Rightarrow> (w4, Inl e)))))"

definition MkdirAll :: "perm \<Rightarrow> string \<Rightarrow> perm \<Rightarrow> unit io" where
  "MkdirAll umask path m = mkdir_chain umask m (rev (path_elements path))"

subsection \<open>Well-formed trees\<close>

fun wf_node :: "node \<Rightarrow> bool" where
  "wf_node (Dir m es) \<longleftrightarrow> sorted (map fst es) \<and> distinct (map fst es) \<and> list_all (\<lambda>e. path_name (fst e) \<and> wf_node (snd e)) es"
| "wf_node x \<longleftrightarrow> True"

lemma map_of_del [simp]: "map_of (del_entry n es) k = (if k = n then None else map_of es k)"
  by (induction es) (auto simp: del_entry_def)

lemma map_of_insort: "n \<notin> fst ` set es \<Longrightarrow> map_of (insort_key fst (n, x) es) k = (if k = n then Some x else map_of es k)"
  by (induction es) auto

lemma map_of_put [simp]: "map_of (put_entry n x es) k = (if k = n then Some x else map_of es k)"
proof -
  have "n \<notin> fst ` set (del_entry n es)" by (auto simp: del_entry_def)
  from map_of_insort [OF this] show ?thesis by (simp add: put_entry_def)
qed

lemma map_of_set_entry [simp]: "map_of (set_entry_to n y es) k = (if k = n then y else map_of es k)"
  by (cases y) (simp_all add: set_entry_to_def)

lemma put_put [simp]: "put_entry n x (put_entry n y es) = put_entry n x es"
  by (simp add: put_entry_def del_entry_def filter_insort_triv)

lemma del_put [simp]: "del_entry n (put_entry n y es) = del_entry n es"
  by (simp add: put_entry_def del_entry_def filter_insort_triv)

lemma put_del [simp]: "put_entry n x (del_entry n es) = put_entry n x es" "del_entry n (del_entry n es) = del_entry n es"
  by (simp_all add: put_entry_def del_entry_def)

lemma set_set_entry [simp]: "set_entry_to n x (set_entry_to n y es) = set_entry_to n x es"
  by (cases x; cases y) (simp_all add: set_entry_to_def)

lemma del_absent: "map_of es n = None \<Longrightarrow> del_entry n es = es"
  by (auto simp: del_entry_def map_of_eq_None_iff filter_id_conv)

lemma del_remove1: "distinct (map fst es) \<Longrightarrow> map_of es n = Some x \<Longrightarrow> del_entry n es = remove1 (n, x) es"
  by (induction es) (auto simp: del_entry_def filter_id_conv image_iff split: if_splits)

lemma filter_key: "distinct (map fst es) \<Longrightarrow> map_of es n = Some x \<Longrightarrow> filter (\<lambda>e. n = fst e) es = [(n, x)]"
  by (induction es) (auto simp: filter_empty_conv image_iff split: if_splits)

lemma put_same:
  assumes "sorted (map fst es)" "distinct (map fst es)" "map_of es n = Some x"
  shows "put_entry n x es = es"
proof -
  have "filter (\<lambda>e. fst (n, x) = fst e) es = [(n, x)]" using filter_key [OF assms(2,3)] by simp
  then have "insort_key fst (n, x) (remove1 (n, x) es) = es"
    using map_of_SomeD [OF assms(3)] assms(1) by (intro insort_key_remove1) simp_all
  then show ?thesis by (simp add: put_entry_def del_remove1 [OF assms(2,3)])
qed

lemma set_entry_same: "sorted (map fst es) \<Longrightarrow> distinct (map fst es) \<Longrightarrow> set_entry_to n (map_of es n) es = es"
  by (cases "map_of es n") (simp_all add: set_entry_to_def del_absent put_same)

lemma set_del: "set (del_entry n es) = {e \<in> set es. fst e \<noteq> n}"
  by (auto simp: del_entry_def)

lemma set_put: "set (put_entry n x es) = insert (n, x) {e \<in> set es. fst e \<noteq> n}"
  by (auto simp: put_entry_def set_insort_key set_del)

lemma wf_entries:
  assumes "wf_node (Dir m es)" "path_name n" "\<And>x. y = Some x \<Longrightarrow> wf_node x"
  shows "wf_node (Dir m' (set_entry_to n y es))"
proof -
  have s: "sorted (map fst (del_entry n es))" "distinct (map fst (del_entry n es))"
    using assms(1) by (auto simp: del_entry_def sorted_filter distinct_map_filter)
  have ok: "\<forall>e \<in> set (del_entry n es). path_name (fst e) \<and> wf_node (snd e)" using assms(1) by (auto simp: set_del list_all_iff)
  show ?thesis
  proof (cases y)
    case None
    then show ?thesis using s ok by (simp add: set_entry_to_def list_all_iff)
  next
    case (Some x)
    have "sorted (map fst (put_entry n x es))" using s(1) by (simp add: put_entry_def sorted_insort_key)
    moreover have "distinct (map fst (put_entry n x es))"
      using s(2) by (simp add: put_entry_def distinct_map distinct_insort) (auto simp: set_insort_key set_del inj_on_def)
    moreover have "wf_node x" using assms(3) Some by simp
    ultimately show ?thesis using Some assms(2) ok by (auto simp: set_entry_to_def list_all_iff set_put set_del)
  qed
qed

lemma wf_child: "wf_node (Dir m es) \<Longrightarrow> map_of es n = Some x \<Longrightarrow> wf_node x \<and> path_name n"
  by (auto simp: list_all_iff dest: map_of_SomeD)

subsection \<open>Reading and writing places of a tree\<close>

lemma set_at_Cons2: "set_at (Dir m es) (n # n' # ns) y =
    (case map_of es n of None \<Rightarrow> Dir m es | Some c \<Rightarrow> Dir m (put_entry n (set_at c (n' # ns) y) es))"
  by simp

lemma get_append: "get fs (p @ q) = (case get fs p of None \<Rightarrow> None | Some x \<Rightarrow> get x q)"
  by (induction fs p rule: get.induct) (auto split: option.splits)

definition is_dir :: "node option \<Rightarrow> bool" where
  "is_dir x \<longleftrightarrow> (\<exists>m es. x = Some (Dir m es))"

lemma get_parent: "get fs (p @ n # q) = Some x \<Longrightarrow> is_dir (get fs p)"
  by (simp add: get_append is_dir_def split: option.splits) (metis get.simps(3,4,5) node.exhaust option.distinct(1))

lemma get_set_same: "is_dir (get fs p) \<Longrightarrow> get (set_at fs (p @ [n]) y) (p @ [n]) = y"
proof (induction p arbitrary: fs)
  case Nil
  then show ?case by (cases y) (auto simp: is_dir_def)
next
  case (Cons a p)
  then obtain m es c where fs: "fs = Dir m es" "map_of es a = Some c" "is_dir (get c p)"
    by (cases fs) (auto simp: is_dir_def split: option.splits)
  then show ?case using Cons.IH [of c] by (cases p) auto
qed

lemma get_set_below: "is_dir (get fs p) \<Longrightarrow> get (set_at fs (p @ [n]) y) (p @ n # q) = (case y of None \<Rightarrow> None | Some x \<Rightarrow> get x q)"
  using get_append [of "set_at fs (p @ [n]) y" "p @ [n]" q] get_set_same [of fs p n y] by simp

lemma get_set_other: "\<not> prefix p q \<Longrightarrow> \<not> prefix q p \<Longrightarrow> get (set_at fs p y) q = get fs q"
proof (induction fs p y arbitrary: q rule: set_at.induct)
  case (2 m es n y)
  then show ?case by (cases q) auto
next
  case (3 m es n v va y)
  then show ?case by (cases q) (auto split: option.splits)
qed auto

lemma set_at_set_at: "set_at (set_at fs p y) p z = set_at fs p z"
proof (induction fs p y rule: set_at.induct)
  case (3 m es n v va y)
  then show ?case by (cases "map_of es n") auto
qed auto

lemma set_at_same:
  assumes "wf_node fs" "is_dir (get fs p)"
  shows "set_at fs (p @ [n]) (get fs (p @ [n])) = fs"
  using assms
proof (induction p arbitrary: fs)
  case Nil
  then obtain m es where fs: "fs = Dir m es" by (auto simp: is_dir_def)
  then show ?case using Nil(1) set_entry_same [of es n] by (auto split: option.splits)
next
  case (Cons a p)
  then obtain m es c where fs: "fs = Dir m es" "map_of es a = Some c" "is_dir (get c p)"
    by (cases fs) (auto simp: is_dir_def split: option.splits)
  then have "wf_node c" using Cons.prems(1) wf_child by blast
  then show ?case using Cons.IH [of c] fs Cons.prems(1) put_same [of es a c] by (cases p) auto
qed

lemma wf_set_at:
  assumes "wf_node fs" "\<forall>n \<in> set p. path_name n" "\<And>x. y = Some x \<Longrightarrow> wf_node x"
  shows "wf_node (set_at fs p y)"
  using assms
proof (induction fs p y rule: set_at.induct)
  case (2 m es n y)
  then show ?case using wf_entries [of m es n y m] by simp
next
  case (3 m es n v va y)
  show ?case
  proof (cases "map_of es n")
    case None
    then show ?thesis using 3(2) by simp
  next
    case (Some c)
    have c: "wf_node c" using wf_child [OF 3(2) Some] by simp
    have names: "\<forall>k \<in> set (v # va). path_name k" "path_name n" using 3(3) by simp_all
    have "wf_node (set_at c (v # va) y)" using 3(1) [OF Some c names(1)] 3(4) by simp
    then have "wf_node (Dir m (set_entry_to n (Some (set_at c (v # va) y)) es))" by (intro wf_entries [OF 3(2) names(2)]) simp
    then show ?thesis using Some by (simp add: set_entry_to_def)
  qed
qed auto

lemma wf_get: "wf_node fs \<Longrightarrow> get fs p = Some x \<Longrightarrow> wf_node x"
proof (induction fs p rule: get.induct)
  case (2 m es n ns)
  then obtain c where c: "map_of es n = Some c" "get c ns = Some x" by (auto split: option.splits)
  then show ?case using 2(1) [OF c(1)] wf_child [OF 2(2) c(1)] by simp
qed simp_all

text \<open>Writing into a directory is writing the directory.\<close>

lemma set_at_child:
  assumes "get fs (p @ [k]) = Some (Dir m es)"
  shows "set_at fs (p @ [k, n]) y = set_at fs (p @ [k]) (Some (Dir m (set_entry_to n y es)))"
  using assms
proof (induction p arbitrary: fs)
  case Nil
  then show ?case by (cases fs) (auto simp: set_entry_to_def split: option.splits)
next
  case (Cons a p)
  then obtain m' es' c where fs: "fs = Dir m' es'" "map_of es' a = Some c" "get c (p @ [k]) = Some (Dir m es)"
    by (cases fs) (auto split: option.splits)
  then show ?case using Cons.IH [of c] by (cases p) auto
qed

subsection \<open>Resolution where no link is on the way\<close>

lemma is_dir_prefix: "get fs (p @ q) = Some x \<Longrightarrow> q \<noteq> [] \<Longrightarrow> is_dir (get fs p)"
  by (cases q) (auto intro: get_parent)

lemma walk_dirs:
  assumes "\<forall>n \<in> set ns. path_name n" "is_dir (get fs (at @ ns))"
  shows "walk follow k fs at (ns @ rest) = walk follow k fs (at @ ns) rest"
  using assms
proof (induction ns arbitrary: at)
  case (Cons n ns)
  have n: "n \<noteq> []" "n \<noteq> ''.''" "n \<noteq> ''..''" using Cons.prems(1) by (simp_all add: path_name_def)
  obtain x where x: "get fs ((at @ [n]) @ ns) = Some x" using Cons.prems(2) by (auto simp: is_dir_def)
  have "is_dir (get fs (at @ [n]))"
  proof (cases ns)
    case Nil
    then show ?thesis using Cons.prems(2) by simp
  next
    case (Cons a b)
    then show ?thesis using is_dir_prefix [OF x] by simp
  qed
  then obtain m es where "get fs (at @ [n]) = Some (Dir m es)" by (auto simp: is_dir_def)
  then have "walk follow k fs at ((n # ns) @ rest) = walk follow k fs (at @ [n]) (ns @ rest)" using n by simp
  then show ?case using Cons.IH [of "at @ [n]"] Cons.prems by simp
qed simp

lemma split_abs_path:
  assumes "\<forall>n \<in> set es. path_name n" "es \<noteq> []"
  shows "split_on (CHR ''/'') (abs_path es) = [] # es"
proof -
  have "\<forall>e \<in> set es. CHR ''/'' \<notin> set e" using assms(1) by (simp add: path_name_def)
  then have "split_on (CHR ''/'') (join ''/'' es) = es" using split_on_join assms(2) by blast
  then show ?thesis by (simp add: abs_path_def)
qed

definition no_link :: "node option \<Rightarrow> bool" where
  "no_link x \<longleftrightarrow> (\<forall>t. x \<noteq> Some (Lnk t))"

lemma resolve_child:
  assumes names: "\<forall>n \<in> set p. path_name n" "path_name n" and dir: "is_dir (get fs p)" and last: "\<not> follow \<or> no_link (get fs (p @ [n]))"
  shows "resolve follow fs (abs_path (p @ [n])) = Inr (p @ [n])"
proof -
  have s: "split_on (CHR ''/'') (abs_path (p @ [n])) = [] # p @ [n]" using split_abs_path [of "p @ [n]"] names by simp
  have "resolve follow fs (abs_path (p @ [n])) = walk follow max_links fs [] (p @ [n])"
    unfolding resolve_def s by simp
  also have "\<dots> = walk follow max_links fs p [n]" using walk_dirs [of p fs "[]" follow max_links "[n]"] names dir by simp
  also have "\<dots> = Inr (p @ [n])" using names(2) last by (auto simp: path_name_def no_link_def split: option.splits node.splits)
  finally show ?thesis .
qed

lemma resolve_root: "resolve follow fs (abs_path []) = Inr []"
  by (simp add: resolve_def abs_path_def)

lemma resolve_get:
  assumes "\<forall>n \<in> set p. path_name n" "get fs p = Some x" "\<not> follow \<or> no_link (Some x)"
  shows "resolve follow fs (abs_path p) = Inr p"
proof (cases p rule: rev_cases)
  case Nil
  then show ?thesis using resolve_root by simp
next
  case (snoc q n)
  then have "is_dir (get fs q)" using is_dir_prefix [of fs q "[n]"] assms(2) by simp
  then show ?thesis using resolve_child [of q n fs follow] assms snoc by auto
qed

text \<open>Where no element of a path is a link, a path that resolves at all resolves to itself.\<close>

definition link_free :: "node \<Rightarrow> string list \<Rightarrow> bool" where
  "link_free fs p \<longleftrightarrow> (\<forall>q. prefix q p \<longrightarrow> no_link (get fs q))"

lemma walk_link_free:
  assumes "\<forall>n \<in> set ns. path_name n" "\<And>q. prefix q ns \<Longrightarrow> q \<noteq> [] \<Longrightarrow> no_link (get fs (at @ q))"
  shows "walk follow k fs at ns = Inr (at @ ns) \<and> (ns = [] \<or> butlast ns = [] \<or> is_dir (get fs (at @ butlast ns))) \<or>
    walk follow k fs at ns \<in> {Inl ENOENT, Inl ENOTDIR} \<and> get fs (at @ ns) = None"
  using assms
proof (induction ns arbitrary: at)
  case (Cons n ns)
  have n: "n \<noteq> []" "n \<noteq> ''.''" "n \<noteq> ''..''" using Cons.prems(1) by (simp_all add: path_name_def)
  have nl: "no_link (get fs (at @ [n]))" using Cons.prems(2) [of "[n]"] by simp
  have split: "get fs (at @ n # ns) = (case get fs (at @ [n]) of None \<Rightarrow> None | Some x \<Rightarrow> get x ns)"
    using get_append [of fs "at @ [n]" ns] by simp
  show ?case
  proof (cases "get fs (at @ [n])")
    case None
    then show ?thesis using n split by (cases ns) simp_all
  next
    case (Some x)
    show ?thesis
    proof (cases x)
      case (Dir m es)
      have w: "walk follow k fs at (n # ns) = walk follow k fs (at @ [n]) ns" using n Some Dir by simp
      have "no_link (get fs ((at @ [n]) @ q))" if "prefix q ns" for q using Cons.prems(2) [of "n # q"] that by simp
      then have IH: "walk follow k fs (at @ [n]) ns = Inr ((at @ [n]) @ ns) \<and>
          (ns = [] \<or> butlast ns = [] \<or> is_dir (get fs ((at @ [n]) @ butlast ns))) \<or>
          walk follow k fs (at @ [n]) ns \<in> {Inl ENOENT, Inl ENOTDIR} \<and> get fs ((at @ [n]) @ ns) = None"
        using Cons.IH [of "at @ [n]"] Cons.prems(1) by simp
      then show ?thesis unfolding w using Some Dir by (auto simp: is_dir_def)
    next
      case (Lnk t)
      then show ?thesis using nl Some by (simp add: no_link_def)
    qed (use n Some split in \<open>cases ns; simp\<close>)+
  qed
qed simp

lemma resolve_link_free:
  assumes "\<forall>n \<in> set p. path_name n" "link_free fs p"
  shows "resolve follow fs (abs_path p) = Inr p \<or>
    resolve follow fs (abs_path p) \<in> {Inl ENOENT, Inl ENOTDIR} \<and> get fs p = None"
proof (cases "p = []")
  case True
  then show ?thesis using resolve_root by simp
next
  case False
  have "resolve follow fs (abs_path p) = walk follow max_links fs [] p"
    unfolding resolve_def split_abs_path [OF assms(1) False] by simp
  then show ?thesis using walk_link_free [OF assms(1), of fs "[]" follow max_links] assms(2) by (auto simp: link_free_def)
qed

lemma look_get:
  assumes "\<forall>n \<in> set p. path_name n" "get fs p = Some x" "\<not> follow \<or> no_link (Some x)"
  shows "look follow (abs_path p) fs = (fs, Inr x)"
  using resolve_get [OF assms] assms(2) by (simp add: look_def)

lemma look_absent:
  assumes "\<forall>n \<in> set p. path_name n" "link_free fs p" "get fs p = None"
  shows "look follow (abs_path p) fs \<in> {(fs, Inl ENOENT), (fs, Inl ENOTDIR)}"
  using resolve_link_free [OF assms(1,2), of follow] assms(3) by (auto simp: look_def)

lemma link_free_prefix: "link_free fs p \<Longrightarrow> prefix q p \<Longrightarrow> link_free fs q"
  by (auto simp: link_free_def intro: prefix_order.order_trans)

text \<open>What a call can return, with and without a fault.\<close>

lemma call_cases:
  assumes "call partial f (fs, faults) = (w', r)"
  obtains k rest where "faults = Some k # rest" "w' = (partial k fs, rest)" "r = Inl EIO"
  | "w' = (fst (f fs), drop 1 faults)" "r = snd (f fs)"
  using assms by (auto simp: call_def split: list.splits option.splits prod.splits)

lemma call_no_fault: "call partial f (fs, []) = ((fst (f fs), []), snd (f fs))"
  by (simp add: call_def split: prod.splits)

end
