(* ===== verification/Enforce_Quarantine.thy ===== *)
theory Enforce_Quarantine
  imports Go_FileSystem
begin

text \<open>
  The quarantine of assets (\<^verbatim>\<open>enforce/quarantine_asset.go\<close>, \<open>IsBundledSkillPath\<close> of \<^verbatim>\<open>enforce/bundled_skill.go\<close>) on the file system model:
  planning, the content hash of a tree, the copy, and the two transactions that move an asset to quarantine and back.
  SHA-256 is the argument \<open>sha\<close>, from the hashed bytes to the 32 bytes of the digest.  \<open>os.SameFile\<close> compares the file that was
  inspected with the one that was opened; nothing else runs in between here, so the comparison holds and is left out, as is
  the reading of the file in pieces of one megabyte.
\<close>

subsection \<open>Errors and sequencing\<close>

datatype quarantine_error =
    QSys sys_err
  | QUnsupportedType
  | QInvalidName
  | QInvalidConnector
  | QNotAbsolute
  | QOutsideRoots
  | QBundledSkill
  | QLinked
  | QNotRegular
  | QIdentityMismatch
  | QInvalidRoot
  | QInsideStorage
  | QEscaped
  | QInvalidHash
  | QHashMismatch
  | QInvalidRecord
  | QMissing
  | QFuel

type_synonym 'a qio = "world \<Rightarrow> world \<times> (quarantine_error + 'a)"

definition qreturn :: "'a \<Rightarrow> 'a qio" where
  "qreturn x w = (w, Inr x)"

definition qfail :: "quarantine_error \<Rightarrow> 'a qio" where
  "qfail e w = (w, Inl e)"

definition sys :: "'a io \<Rightarrow> 'a qio" where
  "sys m w = (case m w of (w1, Inl e) \<Rightarrow> (w1, Inl (QSys e)) | (w1, Inr x) \<Rightarrow> (w1, Inr x))"

definition andThen :: "'a qio \<Rightarrow> ('a \<Rightarrow> 'b qio) \<Rightarrow> 'b qio" where
  "andThen m f w = (case m w of (w1, Inl e) \<Rightarrow> (w1, Inl e) | (w1, Inr x) \<Rightarrow> f x w1)"

definition qcheck :: "bool \<Rightarrow> quarantine_error \<Rightarrow> unit qio" where
  "qcheck ok e = (if ok then qreturn () else qfail e)"

lemma andThen_cong [fundef_cong]: "m = m' \<Longrightarrow> (\<And>x. f x = f' x) \<Longrightarrow> andThen m f = andThen m' f'"
proof -
  assume "m = m'" and "\<And>x. f x = f' x"
  then have "m = m'" "f = f'" by (auto intro: ext)
  then show ?thesis by simp
qed

text \<open>A call on an open file (\<open>Stat\<close>, \<open>Sync\<close>, \<open>Close\<close>).\<close>

definition file_call :: "unit qio" where
  "file_call = sys (atomic_call (\<lambda>fs. (fs, Inr ())))"

subsection \<open>Containment\<close>

definition quarantineTypeDir :: "string \<Rightarrow> string option" where
  "quarantineTypeDir targetType =
     (if TrimSpace targetType = ''skill'' then Some ''skills''
      else if TrimSpace targetType = ''plugin'' then Some ''plugins'' else None)"

definition safePathSegment :: "string \<Rightarrow> bool" where
  "safePathSegment v \<longleftrightarrow> v \<noteq> [] \<and> v = TrimSpace v \<and> v \<noteq> ''.'' \<and> v \<noteq> ''..'' \<and> \<not> IsAbs v \<and>
     list_all (\<lambda>c. c \<noteq> CHR ''/'' \<and> c \<noteq> CHR 0x5C \<and> c \<noteq> CHR 0x00) v"

definition pathWithin :: "string \<Rightarrow> string \<Rightarrow> bool \<Rightarrow> bool" where
  "pathWithin path root allowEqual =
     (case path_Rel (path_Clean root) (path_Clean path) of
        None \<Rightarrow> False
      | Some relative \<Rightarrow>
          if IsAbs relative then False
          else if relative = ''.'' then allowEqual
          else relative \<noteq> ''..'' \<and> \<not> HasPrefix relative ''../'')"

fun roots_loop :: "string \<Rightarrow> bool \<Rightarrow> string list \<Rightarrow> quarantine_error + string \<times> string" where
  "roots_loop path allowEqual [] = Inl QOutsideRoots"
| "roots_loop path allowEqual (root # roots) =
     (if TrimSpace root = [] then roots_loop path allowEqual roots
      else if \<not> IsAbs (TrimSpace root) then Inl QNotAbsolute
      else if pathWithin path (path_Clean (TrimSpace root)) allowEqual then Inr (path, path_Clean (TrimSpace root))
      else roots_loop path allowEqual roots)"

definition pathWithinRoots :: "string \<Rightarrow> string list \<Rightarrow> bool \<Rightarrow> quarantine_error + string \<times> string" where
  "pathWithinRoots path roots allowEqual =
     (if TrimSpace path = [] \<or> \<not> IsAbs (TrimSpace path) then Inl QNotAbsolute
      else roots_loop (path_Clean (TrimSpace path)) allowEqual roots)"

definition BundledSkillContainer :: string where
  "BundledSkillContainer = ''.system''"

definition IsBundledSkillPath :: "string \<Rightarrow> bool" where
  "IsBundledSkillPath path =
     (if TrimSpace path = [] then False
      else List.member (split_on (CHR ''/'') (path_Clean (TrimSpace path))) BundledSkillContainer)"

definition IsBundledSkillContainerName :: "string \<Rightarrow> bool" where
  "IsBundledSkillContainerName basename \<longleftrightarrow> TrimSpace basename = BundledSkillContainer"

text \<open>The loop from a path up to the root: no existing element is a link.  The argument lists the elements in reverse order.\<close>

fun ancestors_loop :: "string list \<Rightarrow> unit qio" where
  "ancestors_loop up w =
     (case Lstat (abs_path (rev up)) w of
        (w1, Inr (Lnk _)) \<Rightarrow> (w1, Inl QLinked)
      | (w1, Inl e) \<Rightarrow>
          if e \<noteq> ENOENT then (w1, Inl (QSys e)) else (case up of [] \<Rightarrow> (w1, Inr ()) | n # up' \<Rightarrow> ancestors_loop up' w1)
      | (w1, Inr _) \<Rightarrow> (case up of [] \<Rightarrow> (w1, Inr ()) | n # up' \<Rightarrow> ancestors_loop up' w1))"

declare ancestors_loop.simps [simp del]

definition validateExistingAncestors :: "string \<Rightarrow> unit qio" where
  "validateExistingAncestors path = ancestors_loop (rev (path_elements (path_Clean path)))"

fun contained_loop :: "string list \<Rightarrow> string \<Rightarrow> unit qio" where
  "contained_loop up root w =
     (case Lstat (abs_path (rev up)) w of
        (w1, Inl e) \<Rightarrow> (w1, Inl (QSys e))
      | (w1, Inr (Lnk _)) \<Rightarrow> (w1, Inl QLinked)
      | (w1, Inr _) \<Rightarrow>
          if abs_path (rev up) = root then (w1, Inr ())
          else (case up of
                  [] \<Rightarrow> (w1, Inl QEscaped)
                | n # up' \<Rightarrow> if \<not> pathWithin (abs_path (rev up')) root True then (w1, Inl QEscaped) else contained_loop up' root w1))"

declare contained_loop.simps [simp del]

definition validateContainedAncestors :: "string \<Rightarrow> string \<Rightarrow> unit qio" where
  "validateContainedAncestors path root = contained_loop (rev (path_elements (path_Clean path))) (path_Clean root)"

subsection \<open>The content hash\<close>

definition safeAssetInfo :: "string \<Rightarrow> node qio" where
  "safeAssetInfo path = andThen (sys (Lstat path)) (\<lambda>info.
     case info of Lnk _ \<Rightarrow> qfail QLinked | Special \<Rightarrow> qfail QNotRegular | _ \<Rightarrow> qreturn info)"

text \<open>The permission bits as \<open>%04o\<close> prints them.\<close>

definition octal_perm :: "perm \<Rightarrow> string" where
  "octal_perm m = (let n = unat m in [digit 0, digit (n div 64 mod 8), digit (n div 8 mod 8), digit (n mod 8)])"

definition nul :: string where
  "nul = [CHR 0x00]"

fun node_perm :: "node \<Rightarrow> perm" where
  "node_perm (Reg m _) = m"
| "node_perm (Dir m _) = m"
| "node_perm _ = 0"

definition hashFileInto :: "string \<Rightarrow> string \<Rightarrow> string qio" where
  "hashFileInto digest path = andThen (safeAssetInfo path) (\<lambda>identity.
     andThen (sys (ReadFile path)) (\<lambda>bytes.
     andThen file_call (\<lambda>_. qreturn (digest @ bytes))))"

text \<open>\<open>filepath.Rel\<close> with the check that follows it.\<close>

definition relative_to :: "string \<Rightarrow> string \<Rightarrow> string qio" where
  "relative_to root path =
     (case path_Rel root path of
        None \<Rightarrow> qfail QEscaped
      | Some relative \<Rightarrow> if HasPrefix relative ''..'' then qfail QEscaped else qreturn relative)"

definition node_header :: "string \<Rightarrow> string \<Rightarrow> perm \<Rightarrow> string" where
  "node_header kind relative m = kind @ nul @ relative @ nul @ octal_perm m @ nul"

text \<open>The first loop of \<open>hashAssetDirectory\<close>: files are hashed, directories are collected.\<close>

fun hash_files :: "string \<Rightarrow> string \<Rightarrow> string list \<Rightarrow> string list \<Rightarrow> string \<Rightarrow> (string \<times> string list) qio" where
  "hash_files root current [] directories digest = qreturn (digest, directories)"
| "hash_files root current (name # names) directories digest =
     andThen (safeAssetInfo (path_Join [current, name])) (\<lambda>info.
       case info of
         Dir _ _ \<Rightarrow> hash_files root current names (directories @ [name]) digest
       | _ \<Rightarrow>
           andThen (relative_to root (path_Join [current, name])) (\<lambda>relative.
           andThen (hashFileInto (digest @ node_header ''F'' relative (node_perm info)) (path_Join [current, name])) (\<lambda>digest'.
             hash_files root current names directories digest')))"

fun hashAssetDirectory :: "nat \<Rightarrow> string \<Rightarrow> string \<Rightarrow> string \<Rightarrow> string qio"
  and hash_directories :: "nat \<Rightarrow> string \<Rightarrow> string \<Rightarrow> string list \<Rightarrow> string \<Rightarrow> string qio" where
  "hashAssetDirectory 0 root current digest = qfail QFuel"
| "hashAssetDirectory (Suc fuel) root current digest =
     andThen (safeAssetInfo current) (\<lambda>info.
       case info of
         Dir m _ \<Rightarrow>
           andThen (relative_to root current) (\<lambda>relative.
           andThen (sys (ReadDir current)) (\<lambda>names.
           andThen (hash_files root current names [] (digest @ node_header ''D'' relative m)) (\<lambda>result.
             hash_directories fuel root current (snd result) (fst result))))
       | _ \<Rightarrow> qfail QNotRegular)"
| "hash_directories fuel root current [] digest = qreturn digest"
| "hash_directories fuel root current (name # names) digest =
     andThen (hashAssetDirectory fuel root (path_Join [current, name]) digest) (\<lambda>digest'.
       hash_directories fuel root current names digest')"

definition AssetContentHash :: "(string \<Rightarrow> string) \<Rightarrow> nat \<Rightarrow> string \<Rightarrow> string qio" where
  "AssetContentHash sha fuel path =
     (if TrimSpace path = [] then qfail QInvalidRoot
      else case path_Abs None (TrimSpace path) of
        None \<Rightarrow> qfail QInvalidRoot
      | Some p \<Rightarrow>
          andThen (safeAssetInfo p) (\<lambda>info.
          andThen (case info of
                     Reg m _ \<Rightarrow> hashFileInto (node_header ''F'' ''.'' m) p
                   | _ \<Rightarrow> hashAssetDirectory fuel p p []) (\<lambda>digest.
          qreturn (hex_encode (sha digest)))))"

definition AssetContentHashMatches :: "unicode_map \<Rightarrow> (string \<Rightarrow> string) \<Rightarrow> nat \<Rightarrow> string \<Rightarrow> string \<Rightarrow> bool qio" where
  "AssetContentHashMatches uni sha fuel path expected =
     andThen (AssetContentHash sha fuel path) (\<lambda>hashValue. qreturn (hashValue = ToLower uni (TrimSpace expected)))"

definition requireAssetHash :: "unicode_map \<Rightarrow> (string \<Rightarrow> string) \<Rightarrow> nat \<Rightarrow> string \<Rightarrow> string \<Rightarrow> unit qio" where
  "requireAssetHash uni sha fuel path expected =
     andThen (AssetContentHash sha fuel path) (\<lambda>actual.
     qcheck (actual = ToLower uni (TrimSpace expected)) QHashMismatch)"

subsection \<open>Planning\<close>

record AssetQuarantinePlan =
  qp_TargetType :: string
  qp_TargetName :: string
  qp_Connector :: string
  qp_SourcePath :: string
  qp_SourceRoot :: string
  qp_QuarantineRoot :: string
  qp_QuarantinePath :: string
  qp_ContentHash :: string
  qp_OwnershipJSON :: string

record AssetRestorePlan =
  rp_RecordID :: string
  rp_TargetType :: string
  rp_TargetName :: string
  rp_QuarantineRoot :: string
  rp_QuarantinePath :: string
  rp_RestorePath :: string
  rp_AllowedRoots :: "string list"
  rp_ContentHash :: string

definition ownership_marker :: "perm \<Rightarrow> string" where
  "ownership_marker m = ''{\"mode\":'' @ decimal (unat m) @ ''}''"

definition assetOwnershipJSON :: "string \<Rightarrow> string qio" where
  "assetOwnershipJSON path = andThen (safeAssetInfo path) (\<lambda>info. qreturn (ownership_marker (node_perm info)))"

definition of_result :: "quarantine_error + 'a \<Rightarrow> 'a qio" where
  "of_result r = (case r of Inl e \<Rightarrow> qfail e | Inr x \<Rightarrow> qreturn x)"

definition NewAssetQuarantinePlan ::
  "(string \<Rightarrow> string) \<Rightarrow> nat \<Rightarrow> string option \<Rightarrow> string \<Rightarrow> string list \<Rightarrow> string \<Rightarrow> string \<Rightarrow> string \<Rightarrow> string \<Rightarrow> AssetQuarantinePlan qio" where
  "NewAssetQuarantinePlan sha fuel Getwd quarantineRoot sourceRoots targetType targetName connector0 sourcePath =
     (case quarantineTypeDir targetType of
        None \<Rightarrow> qfail QUnsupportedType
      | Some typeDir \<Rightarrow>
          andThen (qcheck (safePathSegment targetName) QInvalidName) (\<lambda>_.
          let connector = TrimSpace connector0 in
          andThen (qcheck (connector = [] \<or> safePathSegment connector) QInvalidConnector) (\<lambda>_.
          andThen (of_result (pathWithinRoots sourcePath sourceRoots False)) (\<lambda>(source, sourceRoot).
          andThen (qcheck (\<not> (TrimSpace targetType = ''skill'' \<and> IsBundledSkillPath source)) QBundledSkill) (\<lambda>_.
          andThen (validateExistingAncestors (path_Dir source)) (\<lambda>_.
          andThen (qcheck (path_base source = targetName) QIdentityMismatch) (\<lambda>_.
          andThen (qcheck (TrimSpace quarantineRoot \<noteq> []) QInvalidRoot) (\<lambda>_.
          case path_Abs Getwd (TrimSpace quarantineRoot) of
            None \<Rightarrow> qfail QInvalidRoot
          | Some absRoot \<Rightarrow>
              let root = path_Clean absRoot in
              andThen (qcheck (\<not> pathWithin source root True) QInsideStorage) (\<lambda>_.
              let destination = path_Join ([root, typeDir] @ (if connector \<noteq> [] then [connector] else []) @ [targetName]) in
              andThen (qcheck (pathWithin destination root False) QEscaped) (\<lambda>_.
              andThen (AssetContentHash sha fuel source) (\<lambda>contentHash.
              andThen (assetOwnershipJSON source) (\<lambda>ownership.
              qreturn \<lparr>qp_TargetType = targetType, qp_TargetName = targetName, qp_Connector = connector,
                qp_SourcePath = source, qp_SourceRoot = sourceRoot, qp_QuarantineRoot = root, qp_QuarantinePath = destination,
                qp_ContentHash = contentHash, qp_OwnershipJSON = ownership\<rparr>))))))))))))"

text \<open>\<open>hex.DecodeString\<close> succeeds with 32 bytes.\<close>

definition decodable_hex :: "char \<Rightarrow> bool" where
  "decodable_hex c = (let n = byte_val c in 48 \<le> n \<and> n \<le> 57 \<or> 97 \<le> n \<and> n \<le> 102 \<or> 65 \<le> n \<and> n \<le> 70)"

definition validateSHA256Hex :: "unicode_map \<Rightarrow> string \<Rightarrow> bool" where
  "validateSHA256Hex uni v = (let s = ToLower uni (TrimSpace v) in list_all decodable_hex s \<and> length s = 64)"

definition validateQuarantinePlan :: "unicode_map \<Rightarrow> AssetQuarantinePlan \<Rightarrow> quarantine_error option" where
  "validateQuarantinePlan uni plan =
     (if quarantineTypeDir (qp_TargetType plan) = None then Some QUnsupportedType
      else if \<not> safePathSegment (qp_TargetName plan) \<or> \<not> safePathSegment (qp_Connector plan) \<and> qp_Connector plan \<noteq> [] then Some QInvalidName
      else if \<not> IsAbs (qp_SourcePath plan) \<or> \<not> IsAbs (qp_SourceRoot plan) \<or> \<not> IsAbs (qp_QuarantinePath plan) \<or>
        \<not> IsAbs (qp_QuarantineRoot plan) then Some QNotAbsolute
      else if \<not> pathWithin (qp_SourcePath plan) (qp_SourceRoot plan) False \<or>
        \<not> pathWithin (qp_QuarantinePath plan) (qp_QuarantineRoot plan) False then Some QEscaped
      else if path_base (qp_SourcePath plan) \<noteq> qp_TargetName plan \<or> path_base (qp_QuarantinePath plan) \<noteq> qp_TargetName plan
      then Some QIdentityMismatch
      else if \<not> validateSHA256Hex uni (qp_ContentHash plan) then Some QInvalidHash
      else None)"

text \<open>The normalized plan and the root that contains the restore path.\<close>

definition normalizeRestorePlan :: "unicode_map \<Rightarrow> AssetRestorePlan \<Rightarrow> (AssetRestorePlan \<times> string) qio" where
  "normalizeRestorePlan uni plan =
     (let root = TrimSpace (rp_QuarantineRoot plan); path = TrimSpace (rp_QuarantinePath plan);
          hash = ToLower uni (TrimSpace (rp_ContentHash plan)) in
      andThen (qcheck (quarantineTypeDir (rp_TargetType plan) \<noteq> None) QUnsupportedType) (\<lambda>_.
      andThen (qcheck (safePathSegment (rp_TargetName plan) \<and> safePathSegment (rp_RecordID plan)) QInvalidName) (\<lambda>_.
      andThen (qcheck (root \<noteq> [] \<and> IsAbs root) QNotAbsolute) (\<lambda>_.
      andThen (qcheck (path \<noteq> [] \<and> IsAbs path) QNotAbsolute) (\<lambda>_.
      let root' = path_Clean root; path' = path_Clean path in
      andThen (qcheck (pathWithin path' root' False \<and> path_base path' = rp_TargetName plan) QEscaped) (\<lambda>_.
      andThen (validateExistingAncestors (path_Dir path')) (\<lambda>_.
      andThen (of_result (pathWithinRoots (rp_RestorePath plan) (rp_AllowedRoots plan) False)) (\<lambda>(restore, restoreRoot).
      andThen (qcheck (path_base restore = rp_TargetName plan) QIdentityMismatch) (\<lambda>_.
      andThen (validateExistingAncestors (path_Dir restore)) (\<lambda>_.
      andThen (qcheck (validateSHA256Hex uni hash) QInvalidHash) (\<lambda>_.
      qreturn (plan\<lparr>rp_QuarantineRoot := root', rp_QuarantinePath := path', rp_RestorePath := restore, rp_ContentHash := hash\<rparr>,
        restoreRoot))))))))))))"

subsection \<open>Copying and removing\<close>

definition close_after :: "'a qio \<Rightarrow> 'a qio" where
  "close_after m w =
     (case m w of
        (w1, Inl e) \<Rightarrow> (fst (file_call w1), Inl e)
      | (w1, Inr x) \<Rightarrow> (case file_call w1 of (w2, Inl e) \<Rightarrow> (w2, Inl e) | (w2, Inr _) \<Rightarrow> (w2, Inr x)))"

definition copy_file :: "perm \<Rightarrow> perm \<Rightarrow> string \<Rightarrow> string \<Rightarrow> unit qio" where
  "copy_file umask m source destination =
     andThen (sys (ReadFile source)) (\<lambda>bytes.
     andThen file_call (\<lambda>_.
     andThen (sys (CreateExcl umask destination m)) (\<lambda>_.
     close_after (
       andThen (sys (Write destination bytes)) (\<lambda>_.
       andThen (sys (Chmod destination m)) (\<lambda>_. file_call))))))"

fun copyAssetPath :: "nat \<Rightarrow> perm \<Rightarrow> string \<Rightarrow> string \<Rightarrow> unit qio"
  and copy_entries :: "nat \<Rightarrow> perm \<Rightarrow> string \<Rightarrow> string \<Rightarrow> string list \<Rightarrow> unit qio" where
  "copyAssetPath 0 umask source destination = qfail QFuel"
| "copyAssetPath (Suc fuel) umask source destination =
     andThen (safeAssetInfo source) (\<lambda>info.
       case info of
         Dir m _ \<Rightarrow>
           andThen (sys (Mkdir umask destination m)) (\<lambda>_.
           andThen (sys (ReadDir source)) (\<lambda>names.
           andThen (copy_entries fuel umask source destination names) (\<lambda>_.
           sys (Chmod destination m))))
       | _ \<Rightarrow> copy_file umask (node_perm info) source destination)"
| "copy_entries fuel umask source destination [] = qreturn ()"
| "copy_entries fuel umask source destination (name # names) =
     andThen (copyAssetPath fuel umask (path_Join [source, name]) (path_Join [destination, name])) (\<lambda>_.
       copy_entries fuel umask source destination names)"

definition ensureContainedDirectory :: "perm \<Rightarrow> string \<Rightarrow> string \<Rightarrow> unit qio" where
  "ensureContainedDirectory umask path root =
     andThen (qcheck (pathWithin path root True) QEscaped) (\<lambda>_.
     andThen (validateExistingAncestors root) (\<lambda>_.
     andThen (sys (MkdirAll umask path 0x1C0)) (\<lambda>_.
     validateContainedAncestors path root)))"

definition assetPathExists :: "string \<Rightarrow> bool qio" where
  "assetPathExists path w =
     (case Lstat path w of
        (w1, Inr _) \<Rightarrow> (w1, Inr True)
      | (w1, Inl ENOENT) \<Rightarrow> (w1, Inr False)
      | (w1, Inl e) \<Rightarrow> (w1, Inl (QSys e)))"

definition removeAssetPath :: "string \<Rightarrow> string \<Rightarrow> unit qio" where
  "removeAssetPath path root =
     andThen (qcheck (pathWithin path root False) QEscaped) (\<lambda>_.
     andThen (validateContainedAncestors (path_Dir path) root) (\<lambda>_.
     andThen (sys (Lstat path)) (\<lambda>info.
       case info of Dir _ _ \<Rightarrow> sys (RemoveAll path) | _ \<Rightarrow> sys (Remove path))))"

definition removeAssetPathIfExists :: "string \<Rightarrow> string \<Rightarrow> unit qio" where
  "removeAssetPathIfExists path root =
     andThen (assetPathExists path) (\<lambda>exists. if \<not> exists then qreturn () else removeAssetPath path root)"

subsection \<open>The two transactions\<close>

text \<open>
  The deferred function: if the stage was not published, it is removed and the error of the removal dropped.
\<close>

definition stage_guard :: "string \<Rightarrow> string \<Rightarrow> 'a qio \<Rightarrow> 'a qio" where
  "stage_guard stage root m w =
     (case m w of
        (w1, Inr x) \<Rightarrow> (w1, Inr x)
      | (w1, Inl e) \<Rightarrow> (fst (removeAssetPathIfExists stage root w1), Inl e))"

text \<open>From the stale stage to the publication: the part that both transactions share.\<close>

definition publish_copy ::
  "unicode_map \<Rightarrow> (string \<Rightarrow> string) \<Rightarrow> nat \<Rightarrow> perm \<Rightarrow> string \<Rightarrow> string \<Rightarrow> string \<Rightarrow> string \<Rightarrow> string \<Rightarrow> unit qio" where
  "publish_copy uni sha fuel umask source stage destination root contentHash =
     andThen (assetPathExists stage) (\<lambda>exists.
     andThen (if exists then removeAssetPath stage root else qreturn ()) (\<lambda>_.
     stage_guard stage root (
       andThen (copyAssetPath fuel umask source stage) (\<lambda>_.
       andThen (requireAssetHash uni sha fuel stage contentHash) (\<lambda>_.
       sys (Rename stage destination))))))"

text \<open>After the publication: both copies are verified again, then the original is removed.\<close>

definition verify_and_remove ::
  "unicode_map \<Rightarrow> (string \<Rightarrow> string) \<Rightarrow> nat \<Rightarrow> string \<Rightarrow> string \<Rightarrow> string \<Rightarrow> string \<Rightarrow> unit qio" where
  "verify_and_remove uni sha fuel destination source sourceRoot contentHash =
     andThen (requireAssetHash uni sha fuel destination contentHash) (\<lambda>_.
     andThen (requireAssetHash uni sha fuel source contentHash) (\<lambda>_.
     removeAssetPath source sourceRoot))"

definition ExecuteAssetQuarantine ::
  "unicode_map \<Rightarrow> (string \<Rightarrow> string) \<Rightarrow> nat \<Rightarrow> perm \<Rightarrow> AssetQuarantinePlan \<Rightarrow> string \<Rightarrow> unit qio" where
  "ExecuteAssetQuarantine uni sha fuel umask plan recordID =
     (let source = qp_SourcePath plan; destination = qp_QuarantinePath plan; root = qp_QuarantineRoot plan; hash = qp_ContentHash plan in
      case validateQuarantinePlan uni plan of
        Some e \<Rightarrow> qfail e
      | None \<Rightarrow>
          andThen (qcheck (safePathSegment recordID) QInvalidRecord) (\<lambda>_.
          andThen (assetPathExists destination) (\<lambda>destinationExists.
          if destinationExists then
            andThen (requireAssetHash uni sha fuel destination hash) (\<lambda>_.
            andThen (assetPathExists source) (\<lambda>sourceExists.
            if \<not> sourceExists then qreturn ()
            else andThen (requireAssetHash uni sha fuel source hash) (\<lambda>_.
              removeAssetPath source (qp_SourceRoot plan))))
          else
            andThen (requireAssetHash uni sha fuel source hash) (\<lambda>_.
            andThen (ensureContainedDirectory umask (path_Dir destination) root) (\<lambda>_.
            let stage = destination @ ''.pending-'' @ recordID in
            andThen (qcheck (pathWithin stage root False) QEscaped) (\<lambda>_.
            andThen (publish_copy uni sha fuel umask source stage destination root hash) (\<lambda>_.
            verify_and_remove uni sha fuel destination source (qp_SourceRoot plan) hash)))))))"

definition ExecuteAssetRestore :: "unicode_map \<Rightarrow> (string \<Rightarrow> string) \<Rightarrow> nat \<Rightarrow> perm \<Rightarrow> AssetRestorePlan \<Rightarrow> unit qio" where
  "ExecuteAssetRestore uni sha fuel umask plan0 =
     andThen (normalizeRestorePlan uni plan0) (\<lambda>(plan, restoreRoot).
     let quarantine = rp_QuarantinePath plan; restore = rp_RestorePath plan; root = rp_QuarantineRoot plan; hash = rp_ContentHash plan in
     andThen (assetPathExists quarantine) (\<lambda>quarantineExists.
     andThen (assetPathExists restore) (\<lambda>restoreExists.
     if restoreExists then
       andThen (requireAssetHash uni sha fuel restore hash) (\<lambda>_.
       if quarantineExists then
         andThen (requireAssetHash uni sha fuel quarantine hash) (\<lambda>_. removeAssetPath quarantine root)
       else qreturn ())
     else if \<not> quarantineExists then qfail QMissing
     else
       andThen (requireAssetHash uni sha fuel quarantine hash) (\<lambda>_.
       andThen (ensureContainedDirectory umask (path_Dir restore) restoreRoot) (\<lambda>_.
       let stage = path_Join [path_Dir restore, ''.defenseclaw-restore-'' @ rp_RecordID plan] in
       andThen (qcheck (pathWithin stage restoreRoot False) QEscaped) (\<lambda>_.
       andThen (publish_copy uni sha fuel umask quarantine stage restore restoreRoot hash) (\<lambda>_.
       verify_and_remove uni sha fuel restore quarantine root hash)))))))"

end
