(* ===== verification/Enforce_QuarantineTree.thy ===== *)
theory Enforce_QuarantineTree
  imports Enforce_Quarantine
begin

text \<open>
  What the primitives of the quarantine do to the tree: the content hash equals a digest that depends on the tree alone, the copy is exact,
  and every change is confined to the destination of the call, whatever call fails.
\<close>

abbreviation names :: "string list \<Rightarrow> bool" where
  "names p \<equiv> \<forall>n \<in> set p. path_name n"

subsection \<open>Sequencing\<close>

lemma andThen_Inr: "andThen m f w = (w', Inr y) \<longleftrightarrow> (\<exists>w1 x. m w = (w1, Inr x) \<and> f x w1 = (w', Inr y))"
  by (auto simp: andThen_def split: prod.splits sum.splits)

lemma sys_Inr: "sys m w = (w', Inr x) \<longleftrightarrow> m w = (w', Inr x)"
  by (auto simp: sys_def split: prod.splits sum.splits)

lemma qcheck_Inr: "qcheck ok e w = (w', Inr x) \<longleftrightarrow> ok \<and> w' = w"
  by (auto simp: qcheck_def qreturn_def qfail_def)

lemma qreturn_Inr: "qreturn x w = (w', Inr y) \<longleftrightarrow> w' = w \<and> y = x"
  by (auto simp: qreturn_def)

lemma qfail_Inr [simp]: "qfail e w \<noteq> (w', Inr x)"
  by (simp add: qfail_def)

text \<open>Programs that only read.\<close>

definition reads :: "'a qio \<Rightarrow> bool" where
  "reads m \<longleftrightarrow> (\<forall>w. fst (fst (m w)) = fst w)"

named_theorems reads_intros

lemma reads_D: "reads m \<Longrightarrow> m (fs, faults) = ((fs', faults'), r) \<Longrightarrow> fs' = fs"
  by (metis fst_conv reads_def)

lemma reads_basic [reads_intros]: "reads (qreturn x)" "reads (qfail e)" "reads (qcheck ok e)"
  by (simp_all add: reads_def qreturn_def qfail_def qcheck_def)

lemma reads_andThen [reads_intros]: "reads m \<Longrightarrow> (\<And>x. reads (f x)) \<Longrightarrow> reads (andThen m f)"
proof -
  assume m: "reads m" and f: "\<And>x. reads (f x)"
  have "fst (fst (andThen m f w)) = fst w" for w
  proof -
    obtain w1 r where w1: "m w = (w1, r)" by fastforce
    then have same: "fst w1 = fst w" using m by (metis fst_conv reads_def)
    have "fst (fst (f x w1)) = fst w1" for x using f [of x] unfolding reads_def by blast
    then show ?thesis using w1 same by (cases r) (simp_all add: andThen_def)
  qed
  then show ?thesis by (simp add: reads_def)
qed

lemma reads_call: "(\<And>fs. fst (f fs) = fs) \<Longrightarrow> reads (sys (atomic_call f))"
  by (auto simp: reads_def sys_def call_def split: prod.splits sum.splits list.splits option.splits) (metis fst_conv)+

lemma reads_look [reads_intros]: "reads (sys (Lstat p))" "reads (sys (ReadFile p))" "reads (sys (ReadDir p))" "reads file_call"
  unfolding Lstat_def ReadFile_def ReadDir_def file_call_def by (rule reads_call; simp add: look_def)+

lemma Lstat_same: "Lstat p w = (w', r) \<Longrightarrow> fst w' = fst w"
  by (cases w) (auto simp: Lstat_def look_def elim!: call_cases)

lemma reads_of_result [reads_intros]: "reads (of_result r)"
  by (cases r) (simp_all add: of_result_def reads_intros)

lemma reads_safeAssetInfo [reads_intros]: "reads (safeAssetInfo p)"
  unfolding safeAssetInfo_def by (auto intro!: reads_intros split: node.splits)

lemma reads_hashFileInto [reads_intros]: "reads (hashFileInto d p)"
  unfolding hashFileInto_def by (intro reads_intros)

lemma reads_relative_to [reads_intros]: "reads (relative_to root p)"
  unfolding relative_to_def by (auto intro!: reads_intros split: option.splits)

lemma reads_hash_files [reads_intros]: "reads (hash_files root current ns ds d)"
  by (induction root current ns ds d rule: hash_files.induct) (auto intro!: reads_intros split: node.splits)

lemma reads_hash_directory [reads_intros]:
  "reads (hashAssetDirectory fuel root current d)" "reads (hash_directories fuel root current ns d)"
  by (induction fuel root current d and fuel root current ns d rule: hashAssetDirectory_hash_directories.induct)
    (auto intro!: reads_intros split: node.splits)

lemma reads_AssetContentHash [reads_intros]: "reads (AssetContentHash sha fuel p)"
  unfolding AssetContentHash_def by (auto intro!: reads_intros split: option.splits node.splits)

lemma reads_requireAssetHash [reads_intros]: "reads (requireAssetHash uni sha fuel p h)"
  unfolding requireAssetHash_def by (intro reads_intros)

lemma reads_assetPathExists [reads_intros]: "reads (assetPathExists p)"
  by (auto simp: reads_def assetPathExists_def split: prod.splits sum.splits sys_err.splits dest: Lstat_same)

lemma reads_ancestors [reads_intros]: "reads (ancestors_loop up)"
proof -
  have "fst (fst (ancestors_loop up w)) = fst w" for w
  proof (induction up arbitrary: w)
    case Nil
    then show ?case by (subst ancestors_loop.simps) (auto split: prod.splits sum.splits node.splits dest: Lstat_same)
  next
    case (Cons n up)
    obtain w1 r where l: "Lstat (abs_path (rev (n # up))) w = (w1, r)" by fastforce
    then have same: "fst w1 = fst w" by (rule Lstat_same)
    show ?case using same Cons.IH [of w1] by (subst ancestors_loop.simps, unfold l) (auto split: sum.splits node.splits)
  qed
  then show ?thesis by (simp add: reads_def)
qed

lemma reads_contained [reads_intros]: "reads (contained_loop up root)"
proof -
  have "fst (fst (contained_loop up root w)) = fst w" for w
  proof (induction up arbitrary: w)
    case Nil
    then show ?case by (subst contained_loop.simps) (auto split: prod.splits sum.splits node.splits dest: Lstat_same)
  next
    case (Cons n up)
    obtain w1 r where l: "Lstat (abs_path (rev (n # up))) w = (w1, r)" by fastforce
    then have same: "fst w1 = fst w" by (rule Lstat_same)
    show ?case using same Cons.IH [of w1] by (subst contained_loop.simps, unfold l) (auto split: sum.splits node.splits)
  qed
  then show ?thesis by (simp add: reads_def)
qed

lemma reads_validate [reads_intros]: "reads (validateExistingAncestors p)" "reads (validateContainedAncestors p root)"
  by (simp_all add: validateExistingAncestors_def validateContainedAncestors_def reads_intros)

subsection \<open>Containment\<close>

lemma join_slash_inj:
  assumes "es \<noteq> []" "\<forall>e \<in> set es. CHR ''/'' \<notin> set e"
  shows "split_on (CHR ''/'') (join ''/'' es) = es"
  using assms by (rule split_on_join)

lemma relative_climbs:
  assumes "\<forall>e \<in> set es. CHR ''/'' \<notin> set e"
  shows "join ''/'' (''..'' # es) = ''..'' \<or> HasPrefix (join ''/'' (''..'' # es)) ''../''"
  by (cases es) (simp_all add: HasPrefix_def)

lemma relative_stays:
  assumes "names ts" "ts \<noteq> []"
  shows "\<not> IsAbs (join ''/'' ts) \<and> join ''/'' ts \<noteq> ''.'' \<and> join ''/'' ts \<noteq> ''..'' \<and> \<not> HasPrefix (join ''/'' ts) ''../''"
proof -
  have split: "split_on (CHR ''/'') (join ''/'' ts) = ts"
    using assms by (intro join_slash_inj) (simp_all add: path_name_def)
  have hd: "path_name (hd ts)" using assms hd_in_set by blast
  have abs: "\<not> IsAbs (join ''/'' ts)"
  proof
    assume "IsAbs (join ''/'' ts)"
    then obtain u where "join ''/'' ts = CHR ''/'' # u" by (auto simp: IsAbs_def HasPrefix_def prefix_def)
    then have "ts = [] # split_on (CHR ''/'') u" using split by simp
    then show False using hd by (simp add: path_name_def)
  qed
  have dot: "join ''/'' ts \<noteq> ''.''"
  proof
    assume "join ''/'' ts = ''.''"
    then have "ts = [''.'']" using split by simp
    then show False using hd by (simp add: path_name_def)
  qed
  have dots: "join ''/'' ts \<noteq> ''..''"
  proof
    assume "join ''/'' ts = ''..''"
    then have "ts = [''..'']" using split by simp
    then show False using hd by (simp add: path_name_def)
  qed
  have "\<not> HasPrefix (join ''/'' ts) ''../''"
  proof
    assume "HasPrefix (join ''/'' ts) ''../''"
    then obtain u where "join ''/'' ts = ''..'' @ CHR ''/'' # u" by (auto simp: HasPrefix_def prefix_def)
    then have "ts = ''..'' # split_on (CHR ''/'') u" using split split_on_append [of "CHR ''/''" "''..''" u] by simp
    then show False using hd by (simp add: path_name_def)
  qed
  then show ?thesis using abs dot dots by blast
qed

lemma drop_common_names: "names ts \<Longrightarrow> names (snd (drop_common bs ts))"
  by (induction bs ts rule: drop_common.induct) auto

lemma drop_common_snd: "prefix bs ts \<Longrightarrow> snd (drop_common bs ts) = [] \<longleftrightarrow> ts = bs"
  by (induction bs ts rule: drop_common.induct) auto

lemma pathWithin_abs:
  assumes "names p" "names r"
  shows "pathWithin (abs_path p) (abs_path r) allowEqual \<longleftrightarrow> (if p = r then allowEqual else prefix r p)"
proof (cases "p = r")
  case True
  then have "path_Rel (abs_path r) (abs_path p) = Some ''.''" using path_Rel_abs [OF assms(2,1)] by simp
  moreover have "\<not> IsAbs ''.''" by (simp add: IsAbs_def HasPrefix_def)
  ultimately show ?thesis using True assms by (simp add: pathWithin_def)
next
  case False
  obtain bs ts where d: "drop_common r p = (bs, ts)" by fastforce
  have rel: "path_Rel (abs_path r) (abs_path p) = Some (join ''/'' (replicate (length bs) ''..'' @ ts))"
    using path_Rel_abs [OF assms(2,1)] False d by simp
  have ts: "names ts" using drop_common_names [OF assms(1), of r] d by simp
  show ?thesis
  proof (cases "bs = []")
    case True
    then have "prefix r p" using drop_common_left [of r p] d by simp
    moreover have "ts \<noteq> []" using drop_common_snd [OF \<open>prefix r p\<close>] d False by simp
    ultimately show ?thesis using relative_stays [OF ts] rel True False assms by (simp add: pathWithin_def)
  next
    case cons: False
    then have not: "\<not> prefix r p" using drop_common_left [of r p] d by simp
    define es where "es = replicate (length bs - 1) ''..'' @ ts"
    have "\<forall>e \<in> set ts. CHR ''/'' \<notin> set e" using ts by (simp add: path_name_def)
    then have es: "replicate (length bs) ''..'' @ ts = ''..'' # es" "\<forall>e \<in> set es. CHR ''/'' \<notin> set e"
      using cons by (cases bs; simp add: es_def ball_Un)+
    have "join ''/'' (''..'' # es) \<noteq> ''.''" by (cases es) simp_all
    then show ?thesis using relative_climbs [OF es(2)] rel not False assms by (auto simp: pathWithin_def es(1))
  qed
qed

lemma pathWithin_strict:
  assumes "names p" "names r"
  shows "pathWithin (abs_path p) (abs_path r) False \<longleftrightarrow> strict_prefix r p"
  using pathWithin_abs [OF assms, of False] by (auto simp: strict_prefix_def)

subsection \<open>The hashed bytes of a tree\<close>

definition rel_text :: "string list \<Rightarrow> string" where
  "rel_text q = (if q = [] then ''.'' else join ''/'' q)"

definition escapes :: "string list \<Rightarrow> bool" where
  "escapes q \<longleftrightarrow> HasPrefix (rel_text q) ''..''"

fun files_stream :: "string list \<Rightarrow> (string \<times> node) list \<Rightarrow> string option" where
  "files_stream q [] = Some []"
| "files_stream q ((n, Dir m es) # rest) = files_stream q rest"
| "files_stream q ((n, Reg m bytes) # rest) =
     (if escapes (q @ [n]) then None
      else map_option (\<lambda>s. node_header ''F'' (rel_text (q @ [n])) m @ bytes @ s) (files_stream q rest))"
| "files_stream q ((n, x) # rest) = None"

function (sequential) dir_stream :: "string list \<Rightarrow> node \<Rightarrow> string option"
  and dirs_stream :: "string list \<Rightarrow> (string \<times> node) list \<Rightarrow> string option" where
  "dir_stream q (Dir m es) =
     (if escapes q then None
      else case (files_stream q es, dirs_stream q es) of
        (Some s, Some t) \<Rightarrow> Some (node_header ''D'' (rel_text q) m @ s @ t) | _ \<Rightarrow> None)"
| "dir_stream q x = None"
| "dirs_stream q [] = Some []"
| "dirs_stream q ((n, Dir m es) # rest) =
     (case (dir_stream (q @ [n]) (Dir m es), dirs_stream q rest) of (Some s, Some t) \<Rightarrow> Some (s @ t) | _ \<Rightarrow> None)"
| "dirs_stream q ((n, x) # rest) = dirs_stream q rest"
  by pat_completeness auto
termination
  by (relation "measure (\<lambda>x. case x of Inl (q, n) \<Rightarrow> size n | Inr (q, es) \<Rightarrow> size_list (\<lambda>e. size (snd e) + 1) es)")
    (auto simp: size_prod_def case_prod_unfold)

definition tree_stream :: "node \<Rightarrow> string option" where
  "tree_stream x = (case x of Reg m bytes \<Rightarrow> Some (node_header ''F'' ''.'' m @ bytes) | _ \<Rightarrow> dir_stream [] x)"

definition tree_digest :: "(string \<Rightarrow> string) \<Rightarrow> node \<Rightarrow> string option" where
  "tree_digest sha x = map_option (\<lambda>s. hex_encode (sha s)) (tree_stream x)"

text \<open>A program whose success does not depend on the faults that did not happen.\<close>

definition steady :: "'a qio \<Rightarrow> bool" where
  "steady m \<longleftrightarrow> (\<forall>fs faults fs' faults' x. m (fs, faults) = ((fs', faults'), Inr x) \<longrightarrow> m (fs, []) = ((fs', []), Inr x))"

named_theorems steady_intros

lemma steadyD: "steady m \<Longrightarrow> m (fs, faults) = ((fs', faults'), Inr x) \<Longrightarrow> m (fs, []) = ((fs', []), Inr x)"
  unfolding steady_def by blast

lemma steady_basic [steady_intros]: "steady (qreturn x)" "steady (qfail e)" "steady (qcheck ok e)"
  by (auto simp: steady_def qreturn_def qfail_def qcheck_def)

lemma steady_andThen [steady_intros]:
  assumes "steady m" "\<And>x. steady (f x)"
  shows "steady (andThen m f)"
  unfolding steady_def
proof (intro allI impI)
  fix fs faults fs' faults' y
  assume "andThen m f (fs, faults) = ((fs', faults'), Inr y)"
  then obtain w1 x where m: "m (fs, faults) = (w1, Inr x)" and f: "f x w1 = ((fs', faults'), Inr y)" by (auto simp: andThen_Inr)
  obtain fs1 faults1 where w1: "w1 = (fs1, faults1)" by fastforce
  have "m (fs, []) = ((fs1, []), Inr x)" using steadyD [OF assms(1)] m w1 by blast
  moreover have "f x (fs1, []) = ((fs', []), Inr y)" using steadyD [OF assms(2)] f w1 by blast
  ultimately show "andThen m f (fs, []) = ((fs', []), Inr y)" by (simp add: andThen_Inr)
qed

lemma steady_call [steady_intros]: "steady (sys (call partial f))"
  unfolding steady_def sys_Inr
proof (intro allI impI)
  fix fs faults fs' faults' x
  assume "call partial f (fs, faults) = ((fs', faults'), Inr x)"
  then have "fs' = fst (f fs)" "Inr x = snd (f fs)" by (auto elim!: call_cases)
  then show "call partial f (fs, []) = ((fs', []), Inr x)" by (simp add: call_no_fault)
qed

lemma steady_ops [steady_intros]: "steady (sys (Lstat p))" "steady (sys (ReadFile p))" "steady (sys (ReadDir p))" "steady file_call"
  unfolding Lstat_def ReadFile_def ReadDir_def file_call_def by (rule steady_call)+

lemma steady_safeAssetInfo [steady_intros]: "steady (safeAssetInfo p)"
  unfolding safeAssetInfo_def by (auto intro!: steady_intros split: node.splits)

lemma steady_file [steady_intros]: "steady (hashFileInto d p)" "steady (relative_to root p)"
  unfolding hashFileInto_def relative_to_def by (auto intro!: steady_intros split: option.splits)

lemma steady_hash_files [steady_intros]: "steady (hash_files root current ns ds d)"
  by (induction root current ns ds d rule: hash_files.induct) (auto intro!: steady_intros split: node.splits)

lemma steady_hash_directory [steady_intros]:
  "steady (hashAssetDirectory fuel root current d)" "steady (hash_directories fuel root current ns d)"
  by (induction fuel root current d and fuel root current ns d rule: hashAssetDirectory_hash_directories.induct)
    (auto intro!: steady_intros split: node.splits)

lemma steady_AssetContentHash [steady_intros]: "steady (AssetContentHash sha fuel p)" "steady (requireAssetHash uni sha fuel p h)"
  unfolding requireAssetHash_def AssetContentHash_def by (auto intro!: steady_intros split: option.splits node.splits)

subsection \<open>Reading without faults\<close>

lemma andThen_quiet: "m (fs, []) = ((fs', []), Inr x) \<Longrightarrow> andThen m f (fs, []) = f x (fs', [])"
  by (simp add: andThen_def)

lemma andThen_stops: "m (fs, []) = (w', Inl e) \<Longrightarrow> andThen m f (fs, []) = (w', Inl e)"
  by (simp add: andThen_def)

lemma Lstat_quiet: "names p \<Longrightarrow> get fs p = Some x \<Longrightarrow> Lstat (abs_path p) (fs, []) = ((fs, []), Inr x)"
  by (simp add: Lstat_def call_no_fault look_get)

fun plain_node :: "node \<Rightarrow> bool" where
  "plain_node (Reg m bytes) = True"
| "plain_node (Dir m es) = True"
| "plain_node x = False"

lemma safeAssetInfo_quiet:
  assumes "names p" "get fs p = Some x"
  shows "safeAssetInfo (abs_path p) (fs, []) = ((fs, []), if plain_node x then Inr x else case x of Lnk _ \<Rightarrow> Inl QLinked | _ \<Rightarrow> Inl QNotRegular)"
  unfolding safeAssetInfo_def using Lstat_quiet [OF assms]
  by (cases x) (simp_all add: andThen_def sys_def qreturn_def qfail_def)

lemma ReadFile_quiet:
  assumes "names p" "get fs p = Some (Reg m bytes)"
  shows "ReadFile (abs_path p) (fs, []) = ((fs, []), Inr bytes)"
  using look_get [OF assms, of True] by (simp add: ReadFile_def call_no_fault no_link_def)

lemma wf_sorted_names: "wf_node (Dir m es) \<Longrightarrow> sort (map fst es) = map fst es"
  by (simp add: sorted_sort_id)

lemma ReadDir_quiet:
  assumes "names p" "get fs p = Some (Dir m es)" "wf_node (Dir m es)"
  shows "ReadDir (abs_path p) (fs, []) = ((fs, []), Inr (map fst es))"
  using look_get [OF assms(1,2), of True] wf_sorted_names [OF assms(3)] by (simp add: ReadDir_def call_no_fault no_link_def)

lemma file_call_quiet: "file_call (fs, []) = ((fs, []), Inr ())"
  by (simp add: file_call_def sys_def call_no_fault)

lemma hashFileInto_quiet:
  assumes "names p" "get fs p = Some (Reg m bytes)"
  shows "hashFileInto d (abs_path p) (fs, []) = ((fs, []), Inr (d @ bytes))"
proof -
  have "safeAssetInfo (abs_path p) (fs, []) = ((fs, []), Inr (Reg m bytes))" using safeAssetInfo_quiet [OF assms] by simp
  then show ?thesis
    unfolding hashFileInto_def using ReadFile_quiet [OF assms]
    by (simp add: andThen_def sys_def file_call_quiet qreturn_def)
qed

lemma relative_to_abs:
  assumes "names (r @ q)"
  shows "relative_to (abs_path r) (abs_path (r @ q)) = (if escapes q then qfail QEscaped else qreturn (rel_text q))"
proof -
  have "path_Rel (abs_path r) (abs_path (r @ q)) = Some (rel_text q)"
    using path_Rel_abs [of r "r @ q"] assms drop_common_append [of r q] by (auto simp: rel_text_def)
  then show ?thesis by (simp add: relative_to_def escapes_def)
qed

fun dir_node :: "node \<Rightarrow> bool" where
  "dir_node (Dir m es) = True"
| "dir_node x = False"

lemma hash_files_quiet:
  assumes "names (r @ q)" "\<forall>(n, x) \<in> set es. path_name n \<and> get fs (r @ q @ [n]) = Some x"
  shows "case files_stream q es of
      Some s \<Rightarrow> hash_files (abs_path r) (abs_path (r @ q)) (map fst es) ds acc (fs, []) =
        ((fs, []), Inr (acc @ s, ds @ map fst (filter (\<lambda>e. dir_node (snd e)) es)))
    | None \<Rightarrow> \<exists>e. hash_files (abs_path r) (abs_path (r @ q)) (map fst es) ds acc (fs, []) = ((fs, []), Inl e)"
  using assms(2)
proof (induction es arbitrary: ds acc)
  case Nil
  then show ?case by (simp add: qreturn_def)
next
  case (Cons e es)
  obtain n x where e: "e = (n, x)" by fastforce
  have n: "path_name n" "get fs ((r @ q) @ [n]) = Some x" using Cons.prems by (auto simp: e)
  have p: "path_Join [abs_path (r @ q), n] = abs_path ((r @ q) @ [n])" using path_Join_abs assms(1) n(1) by blast
  have nm: "names ((r @ q) @ [n])" "names (r @ (q @ [n]))" using assms(1) n(1) by auto
  have info: "safeAssetInfo (abs_path ((r @ q) @ [n])) (fs, []) =
      ((fs, []), if plain_node x then Inr x else case x of Lnk _ \<Rightarrow> Inl QLinked | _ \<Rightarrow> Inl QNotRegular)"
    using safeAssetInfo_quiet [OF nm(1) n(2)] .
  note IH = Cons.IH [OF Cons.prems [unfolded set_ConsD list.set ball_simps, THEN conjunct2]]
  show ?case
  proof (cases x)
    case (Dir m cs)
    have "hash_files (abs_path r) (abs_path (r @ q)) (map fst (e # es)) ds acc (fs, []) =
        hash_files (abs_path r) (abs_path (r @ q)) (map fst es) (ds @ [n]) acc (fs, [])"
      using info by (simp add: e p andThen_def Dir)
    then show ?thesis using IH [of "ds @ [n]" acc] by (simp add: e Dir split: option.splits)
  next
    case (Reg m bytes)
    let ?h = "node_header ''F'' (rel_text (q @ [n])) m"
    have rel: "relative_to (abs_path r) (abs_path ((r @ q) @ [n])) = (if escapes (q @ [n]) then qfail QEscaped else qreturn (rel_text (q @ [n])))"
      using relative_to_abs [OF nm(2)] by simp
    have h: "hashFileInto d (abs_path ((r @ q) @ [n])) (fs, []) = ((fs, []), Inr (d @ bytes))" for d
      using hashFileInto_quiet [OF nm(1)] n(2) Reg by simp
    show ?thesis
    proof (cases "escapes (q @ [n])")
      case True
      then show ?thesis using info rel by (simp add: e p andThen_def Reg qfail_def)
    next
      case False
      have "hash_files (abs_path r) (abs_path (r @ q)) (map fst (e # es)) ds acc (fs, []) =
          hash_files (abs_path r) (abs_path (r @ q)) (map fst es) ds ((acc @ ?h) @ bytes) (fs, [])"
        using info rel h [of "acc @ ?h"] False by (simp add: e p andThen_def Reg qreturn_def)
      then show ?thesis using IH [of ds "(acc @ ?h) @ bytes"] False by (simp add: e Reg split: option.splits)
    qed
  qed (use info in \<open>simp_all add: e p andThen_def\<close>)
qed

text \<open>The nesting of directories, which bounds the recursion.\<close>

function (sequential) height :: "node \<Rightarrow> nat" and heights :: "(string \<times> node) list \<Rightarrow> nat" where
  "height (Dir m es) = Suc (heights es)"
| "height x = 1"
| "heights [] = 0"
| "heights ((n, x) # es) = max (height x) (heights es)"
  by pat_completeness auto
termination
  by (relation "measure (\<lambda>x. case x of Inl n \<Rightarrow> size n | Inr es \<Rightarrow> size_list (\<lambda>e. size (snd e) + 1) es)")
    (auto simp: size_prod_def case_prod_unfold)

lemma heights_le: "(n, x) \<in> set es \<Longrightarrow> height x \<le> heights es"
  by (induction es) (auto simp: le_max_iff_disj)

definition hash_ok :: "nat \<Rightarrow> node \<Rightarrow> string list \<Rightarrow> string list \<Rightarrow> node \<Rightarrow> bool" where
  "hash_ok k fs r q x \<longleftrightarrow> (\<forall>acc. \<exists>res. hashAssetDirectory k (abs_path r) (abs_path (r @ q)) acc (fs, []) = ((fs, []), res) \<and>
     (\<forall>d. res = Inr d \<longrightarrow> (\<exists>s. dir_stream q x = Some s \<and> d = acc @ s)) \<and>
     (\<forall>s. dir_stream q x = Some s \<longrightarrow> height x \<le> k \<longrightarrow> res = Inr (acc @ s)))"

lemma hash_directories_quiet:
  assumes "names (r @ q)" "\<forall>(n, x) \<in> set es. path_name n \<and> (dir_node x \<longrightarrow> hash_ok k fs r (q @ [n]) x)"
  shows "\<exists>res. hash_directories k (abs_path r) (abs_path (r @ q)) (map fst (filter (\<lambda>e. dir_node (snd e)) es)) acc (fs, []) = ((fs, []), res) \<and>
    (\<forall>d. res = Inr d \<longrightarrow> (\<exists>s. dirs_stream q es = Some s \<and> d = acc @ s)) \<and>
    (\<forall>s. dirs_stream q es = Some s \<longrightarrow> heights es \<le> k \<longrightarrow> res = Inr (acc @ s))"
  using assms(2)
proof (induction es arbitrary: acc)
  case Nil
  then show ?case by (simp add: qreturn_def)
next
  case (Cons e es)
  obtain n x where e: "e = (n, x)" by fastforce
  have prems: "\<forall>(n, x) \<in> set es. path_name n \<and> (dir_node x \<longrightarrow> hash_ok k fs r (q @ [n]) x)" using Cons.prems by simp
  show ?case
  proof (cases x)
    case (Dir m cs)
    have n: "path_name n" "hash_ok k fs r (q @ [n]) x" using Cons.prems by (auto simp: e Dir)
    have p: "path_Join [abs_path (r @ q), n] = abs_path (r @ (q @ [n]))" using path_Join_abs [OF assms(1) n(1)] by simp
    obtain res where res: "hashAssetDirectory k (abs_path r) (abs_path (r @ (q @ [n]))) acc (fs, []) = ((fs, []), res)"
      "\<forall>d. res = Inr d \<longrightarrow> (\<exists>s. dir_stream (q @ [n]) x = Some s \<and> d = acc @ s)"
      "\<forall>s. dir_stream (q @ [n]) x = Some s \<longrightarrow> height x \<le> k \<longrightarrow> res = Inr (acc @ s)"
      using n(2) [unfolded hash_ok_def, THEN spec, of acc] by (elim exE conjE)
    show ?thesis
    proof (cases res)
      case (Inl err)
      have "\<not> (\<exists>s. dir_stream (q @ [n]) x = Some s \<and> height x \<le> k)" using res(3) Inl by fastforce
      then show ?thesis using res(1) Inl by (auto simp: e p andThen_def Dir split: option.splits)
    next
      case (Inr d)
      obtain s where s: "dir_stream (q @ [n]) x = Some s" "d = acc @ s" using res(2) Inr by blast
      obtain res' where "hash_directories k (abs_path r) (abs_path (r @ q)) (map fst (filter (\<lambda>e. dir_node (snd e)) es)) d (fs, []) =
          ((fs, []), res')"
        "\<forall>d'. res' = Inr d' \<longrightarrow> (\<exists>t. dirs_stream q es = Some t \<and> d' = d @ t)"
        "\<forall>t. dirs_stream q es = Some t \<longrightarrow> heights es \<le> k \<longrightarrow> res' = Inr (d @ t)"
        using Cons.IH [OF prems, of d] by blast
      then show ?thesis using res(1) Inr s by (auto simp: e p andThen_def Dir split: option.splits)
    qed
  qed (use Cons.IH [OF prems, of acc] in \<open>auto simp: e\<close>)
qed

lemma hash_ok_get:
  assumes "wf_node fs" "names (r @ q)" "get fs (r @ q) = Some x"
  shows "hash_ok k fs r q x"
  using assms(2,3)
proof (induction k arbitrary: q x)
  case 0
  have "dir_stream q x = Some s \<Longrightarrow> \<not> height x \<le> 0" for s by (cases x) simp_all
  then show ?case by (auto simp: hash_ok_def qfail_def)
next
  case (Suc k)
  have wf: "wf_node x" using wf_get [OF assms(1) Suc.prems(2)] .
  have info: "safeAssetInfo (abs_path (r @ q)) (fs, []) =
      ((fs, []), if plain_node x then Inr x else case x of Lnk _ \<Rightarrow> Inl QLinked | _ \<Rightarrow> Inl QNotRegular)"
    using safeAssetInfo_quiet [OF Suc.prems] .
  show ?case
  proof (cases x)
    case (Dir m es)
    have child: "\<forall>(n, c) \<in> set es. path_name n \<and> get fs (r @ q @ [n]) = Some c"
    proof clarify
      fix n c assume nc: "(n, c) \<in> set es"
      have "distinct (map fst es)" using wf Dir by simp
      then have "map_of es n = Some c" using nc by simp
      then show "path_name n \<and> get fs (r @ q @ [n]) = Some c"
        using wf_child [of m es n c] wf Dir get_append [of fs "r @ q" "[n]"] Suc.prems(2) by simp
    qed
    have ok: "\<forall>(n, c) \<in> set es. path_name n \<and> (dir_node c \<longrightarrow> hash_ok k fs r (q @ [n]) c)"
      using child Suc.IH Suc.prems(1) by fastforce
    have rd: "sys (ReadDir (abs_path (r @ q))) (fs, []) = ((fs, []), Inr (map fst es))"
      using ReadDir_quiet [OF Suc.prems(1)] Suc.prems(2) wf Dir by (simp add: sys_def)
    show ?thesis unfolding hash_ok_def
    proof
      fix acc
      let ?acc = "acc @ node_header ''D'' (rel_text q) m"
      note files = hash_files_quiet [OF Suc.prems(1) child, of "[]" ?acc]
      obtain res where res: "hash_directories k (abs_path r) (abs_path (r @ q)) (map fst (filter (\<lambda>e. dir_node (snd e)) es)) (?acc @ the (files_stream q es)) (fs, []) = ((fs, []), res)"
        "\<forall>d. res = Inr d \<longrightarrow> (\<exists>s. dirs_stream q es = Some s \<and> d = (?acc @ the (files_stream q es)) @ s)"
        "\<forall>s. dirs_stream q es = Some s \<longrightarrow> heights es \<le> k \<longrightarrow> res = Inr ((?acc @ the (files_stream q es)) @ s)"
        using hash_directories_quiet [OF Suc.prems(1) ok, of "?acc @ the (files_stream q es)"] by (elim exE conjE)
      show "\<exists>res. hashAssetDirectory (Suc k) (abs_path r) (abs_path (r @ q)) acc (fs, []) = ((fs, []), res) \<and>
          (\<forall>d. res = Inr d \<longrightarrow> (\<exists>s. dir_stream q x = Some s \<and> d = acc @ s)) \<and>
          (\<forall>s. dir_stream q x = Some s \<longrightarrow> height x \<le> Suc k \<longrightarrow> res = Inr (acc @ s))"
      proof (cases "escapes q \<or> files_stream q es = None")
        case True
        then show ?thesis using info rd files relative_to_abs [OF Suc.prems(1)]
          by (auto simp: Dir andThen_def qfail_def qreturn_def split: option.splits)
      next
        case False
        then obtain s where s: "files_stream q es = Some s" "\<not> escapes q" by auto
        have "hashAssetDirectory (Suc k) (abs_path r) (abs_path (r @ q)) acc (fs, []) = ((fs, []), res)"
          using info rd files relative_to_abs [OF Suc.prems(1)] s res(1) by (simp add: Dir andThen_def qreturn_def)
        then show ?thesis using res(2,3) s by (auto simp: Dir split: option.splits)
      qed
    qed
  qed (use info in \<open>auto simp: hash_ok_def andThen_def qfail_def\<close>)
qed

text \<open>Trimming does not touch an absolute path whose last element is trimmed.\<close>

lemma encodings_no_slash: "e \<in> set space_encodings \<Longrightarrow> CHR ''/'' \<notin> set e \<and> e \<noteq> []"
  by (auto simp: space_encodings_def)

lemma TrimSpace_id:
  assumes "\<And>e. e \<in> set space_encodings \<Longrightarrow> \<not> prefix e s \<and> \<not> suffix e s"
  shows "TrimSpace s = s"
proof -
  have "trim_prefixes space_encodings s = s" using assms by (intro trim_prefixes_id) blast
  moreover have "trim_prefixes (map rev space_encodings) (rev s) = rev s"
    using assms by (intro trim_prefixes_id) (auto simp: suffix_to_prefix)
  ultimately show ?thesis by (simp add: TrimSpace_def)
qed

lemma TrimSpace_no_suffix:
  assumes "TrimSpace s = s" "e \<in> set space_encodings"
  shows "\<not> suffix e s"
proof -
  let ?r = "trim_prefixes (map rev space_encodings) (rev (trim_prefixes space_encodings s))"
  have "\<not> prefix (rev e) ?r" using assms(2) encodings_no_slash [OF assms(2)] by (intro trim_prefixes_fixed) auto
  then show ?thesis using assms(1) by (metis TrimSpace_def rev_rev_ident suffix_to_prefix)
qed

lemma TrimSpace_abs:
  assumes "TrimSpace n = n" "n \<noteq> []"
  shows "TrimSpace (abs_path (p @ [n])) = abs_path (p @ [n])"
proof (rule TrimSpace_id)
  fix e assume e: "e \<in> set space_encodings"
  obtain u where u: "abs_path (p @ [n]) = u @ CHR ''/'' # n" using abs_path_snoc [of p n] by (cases "p = []") auto
  have ne: "CHR ''/'' \<notin> set e" "e \<noteq> []" using encodings_no_slash [OF e] by auto
  have "\<not> prefix e (abs_path (p @ [n]))" using ne by (cases e) (auto simp: abs_path_def)
  moreover have "\<not> suffix e (abs_path (p @ [n]))"
  proof
    assume s: "suffix e (abs_path (p @ [n]))"
    show False
    proof (cases "length e \<le> length n")
      case True
      then have "suffix e n" using s suffix_length_suffix [of e "abs_path (p @ [n])" n] by (simp add: u suffixI suffix_def)
      then show False using TrimSpace_no_suffix [OF assms(1) e] by simp
    next
      case False
      then have "suffix (CHR ''/'' # n) e"
        using s suffix_length_suffix [of "CHR ''/'' # n" "abs_path (p @ [n])" e] by (simp add: u suffixI suffix_def)
      then show False using ne(1) by (auto simp: suffix_def)
    qed
  qed
  ultimately show "\<not> prefix e (abs_path (p @ [n])) \<and> \<not> suffix e (abs_path (p @ [n]))" by blast
qed

definition asset_path :: "string list \<Rightarrow> string \<Rightarrow> bool" where
  "asset_path p n \<longleftrightarrow> names (p @ [n]) \<and> TrimSpace n = n"

lemma AssetContentHash_unfold:
  assumes "asset_path p n"
  shows "AssetContentHash sha fuel (abs_path (p @ [n])) =
    andThen (safeAssetInfo (abs_path (p @ [n]))) (\<lambda>info.
    andThen (case info of
               Reg m _ \<Rightarrow> hashFileInto (node_header ''F'' ''.'' m) (abs_path (p @ [n]))
             | _ \<Rightarrow> hashAssetDirectory fuel (abs_path (p @ [n])) (abs_path (p @ [n])) []) (\<lambda>digest.
    qreturn (hex_encode (sha digest))))"
proof -
  have n: "names (p @ [n])" "TrimSpace n = n" "n \<noteq> []" using assms by (simp_all add: asset_path_def path_name_def)
  have "abs_path (p @ [n]) \<noteq> []" by (simp add: abs_path_def)
  moreover have "path_Abs None (abs_path (p @ [n])) = Some (abs_path (p @ [n]))"
    using path_Clean_abs [OF n(1)] IsAbs_abs [of "p @ [n]"] by (simp add: path_Abs_def IsAbs_def)
  ultimately show ?thesis unfolding AssetContentHash_def TrimSpace_abs [OF n(2,3)] by simp
qed

lemma AssetContentHash_quiet:
  assumes "asset_path p n" "wf_node fs" "get fs (p @ [n]) = Some x"
  shows "\<exists>res. AssetContentHash sha fuel (abs_path (p @ [n])) (fs, []) = ((fs, []), res) \<and>
    (\<forall>h. res = Inr h \<longrightarrow> tree_digest sha x = Some h) \<and> (\<forall>h. tree_digest sha x = Some h \<longrightarrow> height x \<le> fuel \<longrightarrow> res = Inr h)"
proof -
  have n: "names (p @ [n])" using assms(1) by (simp add: asset_path_def)
  have info: "safeAssetInfo (abs_path (p @ [n])) (fs, []) =
      ((fs, []), if plain_node x then Inr x else case x of Lnk _ \<Rightarrow> Inl QLinked | _ \<Rightarrow> Inl QNotRegular)"
    using safeAssetInfo_quiet [OF n assms(3)] .
  show ?thesis
  proof (cases x)
    case (Reg m bytes)
    then show ?thesis unfolding AssetContentHash_unfold [OF assms(1)]
      using info hashFileInto_quiet [OF n] assms(3) by (simp add: andThen_def qreturn_def tree_digest_def tree_stream_def)
  next
    case (Dir m es)
    have "hash_ok fuel fs (p @ [n]) [] x" using hash_ok_get [OF assms(2), of "p @ [n]" "[]"] n assms(3) by simp
    from this [unfolded hash_ok_def append_Nil2, THEN spec, of "[]", unfolded append_Nil]
    obtain res where "hashAssetDirectory fuel (abs_path (p @ [n])) (abs_path (p @ [n])) [] (fs, []) = ((fs, []), res)"
      "\<forall>d. res = Inr d \<longrightarrow> (\<exists>s. dir_stream [] x = Some s \<and> d = s)" "\<forall>s. dir_stream [] x = Some s \<longrightarrow> height x \<le> fuel \<longrightarrow> res = Inr s"
      by (elim exE conjE)
    then show ?thesis unfolding AssetContentHash_unfold [OF assms(1)]
      using info Dir by (cases res) (auto simp: andThen_def qreturn_def tree_digest_def tree_stream_def)
  qed (use info in \<open>simp_all add: AssetContentHash_unfold [OF assms(1)] andThen_def tree_digest_def tree_stream_def\<close>)
qed

lemma AssetContentHash_Inr:
  assumes "asset_path p n" "wf_node fs" "get fs (p @ [n]) = Some x" "AssetContentHash sha fuel (abs_path (p @ [n])) (fs, faults) = (w', Inr h)"
  shows "tree_digest sha x = Some h"
proof -
  obtain fs' faults' where w': "w' = (fs', faults')" by fastforce
  have "AssetContentHash sha fuel (abs_path (p @ [n])) (fs, []) = ((fs', []), Inr h)"
    using assms(4) unfolding w' by (rule steadyD [OF steady_AssetContentHash(1)])
  moreover obtain res where "AssetContentHash sha fuel (abs_path (p @ [n])) (fs, []) = ((fs, []), res)"
    "\<forall>h. res = Inr h \<longrightarrow> tree_digest sha x = Some h" using AssetContentHash_quiet [OF assms(1-3), of sha fuel] by (elim exE conjE)
  ultimately show ?thesis by simp
qed

lemma requireAssetHash_Inr:
  assumes "asset_path p n" "wf_node fs" "get fs (p @ [n]) = Some x"
    and "requireAssetHash uni sha fuel (abs_path (p @ [n])) h (fs, faults) = (w', Inr u)"
  shows "tree_digest sha x = Some (ToLower uni (TrimSpace h))"
proof -
  obtain fs' faults' where w': "w' = (fs', faults')" by fastforce
  have "requireAssetHash uni sha fuel (abs_path (p @ [n])) h (fs, []) = ((fs', []), Inr u)"
    using assms(4) unfolding w' by (rule steadyD [OF steady_AssetContentHash(2)])
  then obtain w1 a where a: "AssetContentHash sha fuel (abs_path (p @ [n])) (fs, []) = (w1, Inr a)" "a = ToLower uni (TrimSpace h)"
    by (auto simp: requireAssetHash_def andThen_Inr qcheck_Inr)
  obtain res where "AssetContentHash sha fuel (abs_path (p @ [n])) (fs, []) = ((fs, []), res)"
    and res: "\<forall>h. res = Inr h \<longrightarrow> tree_digest sha x = Some h"
    using AssetContentHash_quiet [OF assms(1-3), of sha fuel] by (elim exE conjE)
  then have "res = Inr a" using a(1) by simp
  then show ?thesis using res a(2) by simp
qed

lemma requireAssetHash_quiet:
  assumes "asset_path p n" "wf_node fs" "get fs (p @ [n]) = Some x" "height x \<le> fuel"
    and "tree_digest sha x = Some (ToLower uni (TrimSpace h))"
  shows "requireAssetHash uni sha fuel (abs_path (p @ [n])) h (fs, []) = ((fs, []), Inr ())"
proof -
  obtain res where "AssetContentHash sha fuel (abs_path (p @ [n])) (fs, []) = ((fs, []), res)"
    and "\<forall>h. tree_digest sha x = Some h \<longrightarrow> height x \<le> fuel \<longrightarrow> res = Inr h"
    using AssetContentHash_quiet [OF assms(1-3), of sha fuel] by (elim exE conjE)
  then show ?thesis using assms(4,5) by (simp add: requireAssetHash_def andThen_def qcheck_def qreturn_def)
qed

end
