(* ===== verification/Enforce_QuarantineCopy.thy ===== *)
theory Enforce_QuarantineCopy
  imports Enforce_QuarantineTree
begin

text \<open>
  The copy of an asset: whatever call fails, only the destination changes, and a copy that succeeds is exact, permissions included.
  A small logic of what a program ensures in the presence of faults carries the proofs here and in the transactions.
\<close>

subsection \<open>Changes confined to one place\<close>

definition confined :: "string list \<Rightarrow> node \<Rightarrow> node \<Rightarrow> bool" where
  "confined d fs fs' \<longleftrightarrow> (\<exists>y. fs' = set_at fs d y \<and> (\<forall>x. y = Some x \<longrightarrow> wf_node x))"

lemma confined_refl: "wf_node fs \<Longrightarrow> is_dir (get fs p) \<Longrightarrow> confined (p @ [n]) fs fs"
  unfolding confined_def by (rule exI [of _ "get fs (p @ [n])"]) (simp add: set_at_same wf_get)

lemma confined_trans: "confined d fs fs' \<Longrightarrow> confined d fs' fs'' \<Longrightarrow> confined d fs fs''"
  by (auto simp: confined_def set_at_set_at)

lemma confined_wf: "confined d fs fs' \<Longrightarrow> wf_node fs \<Longrightarrow> names d \<Longrightarrow> wf_node fs'"
  by (auto simp: confined_def intro: wf_set_at)

lemma confined_other: "confined d fs fs' \<Longrightarrow> d \<parallel> q \<Longrightarrow> get fs' q = get fs q"
  by (auto simp: confined_def intro: get_set_other)

lemma parallel_extend: "p \<parallel> q \<Longrightarrow> p \<parallel> q @ r" "p \<parallel> q \<Longrightarrow> p @ r \<parallel> q"
  using parallel_append [of p q "[]" r] parallel_append [of p q r "[]"] by simp_all

lemma is_dir_set_at: "is_dir (get fs p) \<Longrightarrow> is_dir (get (set_at fs (p @ [n]) y) p)"
proof (induction p arbitrary: fs)
  case Nil
  then show ?case by (auto simp: is_dir_def)
next
  case (Cons a p)
  then obtain m es c where "fs = Dir m es" "map_of es a = Some c" "is_dir (get c p)"
    by (cases fs) (auto simp: is_dir_def split: option.splits)
  then show ?case using Cons.IH [of c] by (cases p) auto
qed

lemma confined_parent: "confined (p @ [n]) fs fs' \<Longrightarrow> is_dir (get fs p) \<Longrightarrow> is_dir (get fs' p)"
  by (auto simp: confined_def intro: is_dir_set_at)

subsection \<open>Single calls\<close>

lemma create_effect:
  assumes "call (\<lambda>k fs. fs) (create (abs_path (p @ [n])) x) (fs, faults) = ((fs', faults'), r)"
    and "names (p @ [n])" "is_dir (get fs p)" "get fs (p @ [n]) = None"
  shows "r = Inr () \<and> fs' = set_at fs (p @ [n]) (Some x) \<or> (\<exists>e. r = Inl e) \<and> fs' = fs"
  using assms(1)
proof (cases rule: call_cases)
  case 2
  have "resolve False fs (abs_path (p @ [n])) = Inr (p @ [n])" using resolve_child [of p n fs False] assms(2,3) by simp
  then show ?thesis using 2 assms(4) by (simp add: create_def)
qed auto

lemma update_effect:
  assumes "call partial (update_file (abs_path (p @ [n])) f) (fs, faults) = ((fs', faults'), r)"
    and "names (p @ [n])" "get fs (p @ [n]) = Some x" "no_link (Some x)"
  shows "r = Inr () \<and> fs' = set_at fs (p @ [n]) (Some (f x)) \<or> (\<exists>e k. r = Inl e \<and> fs' = partial k fs)"
  using assms(1)
proof (cases rule: call_cases)
  case 2
  have "resolve True fs (abs_path (p @ [n])) = Inr (p @ [n])" using resolve_get [OF assms(2,3)] assms(4) by simp
  then show ?thesis using 2 assms(3) by (simp add: update_file_def)
qed auto

lemma Write_effect:
  assumes "Write (abs_path (p @ [n])) bytes (fs, faults) = ((fs', faults'), r)"
    and "names (p @ [n])" "get fs (p @ [n]) = Some (Reg m old)"
  shows "\<exists>b. fs' = set_at fs (p @ [n]) (Some (Reg m b)) \<and> (r = Inr () \<longrightarrow> b = bytes)"
proof -
  have nl: "no_link (Some (Reg m old))" by (simp add: no_link_def)
  have "resolve True fs (abs_path (p @ [n])) = Inr (p @ [n])" using resolve_get [OF assms(2,3)] nl by simp
  then have part: "fst (update_file (abs_path (p @ [n])) (write_bytes b) fs) = set_at fs (p @ [n]) (Some (Reg m b))" for b
    using assms(3) by (simp add: update_file_def)
  show ?thesis using update_effect [OF assms(1) [unfolded Write_def] assms(2,3) nl] part by (auto simp: part)
qed

lemma Chmod_effect:
  assumes "Chmod (abs_path (p @ [n])) m (fs, faults) = ((fs', faults'), r)"
    and "names (p @ [n])" "get fs (p @ [n]) = Some x" "no_link (Some x)"
  shows "r = Inr () \<and> fs' = set_at fs (p @ [n]) (Some (with_perm m x)) \<or> (\<exists>e. r = Inl e) \<and> fs' = fs"
  using update_effect [OF assms(1) [unfolded Chmod_def] assms(2-4)] by blast

lemma sys_cases:
  assumes "sys m w = (w', r)"
  obtains e where "m w = (w', Inl e)" "r = Inl (QSys e)" | x where "m w = (w', Inr x)" "r = Inr x"
  using assms by (auto simp: sys_def split: prod.splits sum.splits)

lemma andThen_cases:
  assumes "andThen m f w = (w', r)"
  obtains e where "m w = (w', Inl e)" "r = Inl e" | w1 x where "m w = (w1, Inr x)" "f x w1 = (w', r)"
  using assms by (auto simp: andThen_def split: prod.splits sum.splits)

lemma file_call_same: "file_call (fs, faults) = ((fs', faults'), r) \<Longrightarrow> fs' = fs"
  using reads_D [OF reads_look(4)] .

text \<open>What a program leaves behind, whatever fails: \<open>Q\<close> of its result and of the tree.\<close>

definition ensures :: "'a qio \<Rightarrow> node \<Rightarrow> (quarantine_error + 'a \<Rightarrow> node \<Rightarrow> bool) \<Rightarrow> bool" where
  "ensures m fs Q \<longleftrightarrow> (\<forall>faults fs' faults' r. m (fs, faults) = ((fs', faults'), r) \<longrightarrow> Q r fs')"

lemma ensuresI: "(\<And>faults fs' faults' r. m (fs, faults) = ((fs', faults'), r) \<Longrightarrow> Q r fs') \<Longrightarrow> ensures m fs Q"
  unfolding ensures_def by blast

lemma ensuresD: "ensures m fs Q \<Longrightarrow> m (fs, faults) = ((fs', faults'), r) \<Longrightarrow> Q r fs'"
  unfolding ensures_def by blast

lemma ensures_weaken: "ensures m fs Q \<Longrightarrow> (\<And>r fs'. Q r fs' \<Longrightarrow> Q' r fs') \<Longrightarrow> ensures m fs Q'"
  unfolding ensures_def by blast

lemma ensures_andThen:
  assumes "ensures m fs P" "\<And>e fs1. P (Inl e) fs1 \<Longrightarrow> Q (Inl e) fs1" "\<And>x fs1. P (Inr x) fs1 \<Longrightarrow> ensures (f x) fs1 Q"
  shows "ensures (andThen m f) fs Q"
proof (rule ensuresI)
  fix faults fs' faults' r
  assume "andThen m f (fs, faults) = ((fs', faults'), r)"
  then show "Q r fs'"
  proof (cases rule: andThen_cases)
    case (1 e)
    then show ?thesis using ensuresD [OF assms(1)] assms(2) by blast
  next
    case (2 w1 x)
    obtain fs1 f1 where w1: "w1 = (fs1, f1)" by fastforce
    then have "P (Inr x) fs1" using ensuresD [OF assms(1)] 2(1) by blast
    then show ?thesis using ensuresD [OF assms(3)] 2(2) w1 by blast
  qed
qed

lemma ensures_sys:
  assumes "\<And>faults fs' faults' r. m (fs, faults) = ((fs', faults'), r) \<Longrightarrow> Q (map_sum QSys id r) fs'"
  shows "ensures (sys m) fs Q"
proof (rule ensuresI)
  fix faults fs' faults' r
  assume "sys m (fs, faults) = ((fs', faults'), r)"
  then obtain r0 where "m (fs, faults) = ((fs', faults'), r0)" "r = map_sum QSys id r0" by (elim sys_cases) simp_all
  then show "Q r fs'" using assms by simp
qed

lemma ensures_reads:
  assumes "reads m" "steady m"
  shows "ensures m fs (\<lambda>r fs'. fs' = fs \<and> (\<forall>x. r = Inr x \<longrightarrow> m (fs, []) = ((fs, []), Inr x)))"
proof (rule ensuresI)
  fix faults fs' faults' r
  assume m: "m (fs, faults) = ((fs', faults'), r)"
  then have "fs' = fs" by (rule reads_D [OF assms(1)])
  then show "fs' = fs \<and> (\<forall>x. r = Inr x \<longrightarrow> m (fs, []) = ((fs, []), Inr x))" using m steadyD [OF assms(2), of fs faults fs' faults'] by simp
qed

lemma ensures_reads_only: "reads m \<Longrightarrow> ensures m fs (\<lambda>r fs'. fs' = fs)"
  by (rule ensuresI, erule reads_D)

lemma ensures_qcheck: "ensures (qcheck ok e) fs (\<lambda>r fs'. fs' = fs \<and> (\<forall>x. r = Inr x \<longrightarrow> ok))"
  by (auto simp: ensures_def qcheck_def qreturn_def qfail_def)

lemma ensures_return: "Q (Inr x) fs \<Longrightarrow> ensures (qreturn x) fs Q" "Q (Inl e) fs \<Longrightarrow> ensures (qfail e) fs Q"
  by (auto simp: ensures_def qreturn_def qfail_def)

subsection \<open>The copy\<close>

lemma write_and_close:
  assumes "close_after (andThen (sys (Write (abs_path (p @ [n])) bytes)) (\<lambda>_. andThen (sys (Chmod (abs_path (p @ [n])) m)) (\<lambda>_. file_call)))
      (fs, faults) = ((fs', faults'), r)"
    and d: "names (p @ [n])" "is_dir (get fs p)" "get fs (p @ [n]) = Some (Reg m0 b0)"
  shows "\<exists>m' b'. fs' = set_at fs (p @ [n]) (Some (Reg m' b')) \<and> (r = Inr () \<longrightarrow> m' = m \<and> b' = bytes)"
proof -
  let ?d = "p @ [n]"
  let ?body = "andThen (sys (Write (abs_path ?d) bytes)) (\<lambda>_. andThen (sys (Chmod (abs_path ?d) m)) (\<lambda>_. file_call))"
  obtain fs1 f1 r1 where body: "?body (fs, faults) = ((fs1, f1), r1)" by (metis surj_pair)
  obtain fs2 f2 r2 where c: "file_call (fs1, f1) = ((fs2, f2), r2)" by (metis surj_pair)
  then have "fs2 = fs1" by (rule file_call_same)
  then have "fs' = fs1 \<and> (r = Inr () \<longrightarrow> r1 = Inr ())"
    using assms(1) body c by (auto simp: close_after_def split: sum.splits)
  moreover have "\<exists>m' b'. fs1 = set_at fs ?d (Some (Reg m' b')) \<and> (r1 = Inr () \<longrightarrow> m' = m \<and> b' = bytes)"
    using body
  proof (cases rule: andThen_cases)
    case (1 e)
    then show ?thesis using Write_effect [OF _ d(1,3)] by (fastforce elim: sys_cases)
  next
    case (2 w1 u)
    obtain fs2 f2 where w1: "w1 = (fs2, f2)" by fastforce
    have w: "Write (abs_path ?d) bytes (fs, faults) = ((fs2, f2), Inr u)" using 2(1) by (auto simp: sys_Inr w1)
    then obtain b where fs2: "fs2 = set_at fs ?d (Some (Reg m0 b))" "b = bytes" using Write_effect [OF w d(1,3)] by auto
    have g2: "get fs2 ?d = Some (Reg m0 bytes)" using get_set_same [OF d(2)] fs2 by simp
    have nl: "no_link (Some (Reg m0 bytes))" by (simp add: no_link_def)
    from 2(2) show ?thesis
    proof (cases rule: andThen_cases)
      case (1 e)
      then have "\<exists>e. Chmod (abs_path ?d) m (fs2, f2) = ((fs1, f1), Inl e)" by (auto simp: w1 elim: sys_cases)
      then have "fs1 = fs2" using Chmod_effect [OF _ d(1) g2 nl] by fastforce
      then show ?thesis using fs2 1 by auto
    next
      case (2 w3 u')
      obtain fs3 f3 where w3: "w3 = (fs3, f3)" by fastforce
      have "Chmod (abs_path ?d) m (fs2, f2) = ((fs3, f3), Inr u')" using 2(1) by (auto simp: sys_Inr w1 w3)
      then have "fs3 = set_at fs2 ?d (Some (Reg m bytes))" using Chmod_effect [OF _ d(1) g2 nl] by fastforce
      moreover have "fs1 = fs3" using 2(2) file_call_same by (auto simp: w3)
      ultimately show ?thesis using fs2 by (auto simp: set_at_set_at)
    qed
  qed
  ultimately show ?thesis by auto
qed

text \<open>What a copy of \<open>x\<close> to \<open>d\<close> leaves: nothing but \<open>d\<close> changes, and after success \<open>d\<close> is \<open>x\<close>.\<close>

definition copied :: "node \<Rightarrow> string list \<Rightarrow> node \<Rightarrow> node \<Rightarrow> (quarantine_error + unit) \<Rightarrow> bool" where
  "copied x d fs fs' r \<longleftrightarrow> (\<exists>y. fs' = set_at fs d y \<and> (\<forall>z. y = Some z \<longrightarrow> wf_node z) \<and> (r = Inr () \<longrightarrow> y = Some x))"

lemma copied_confined: "copied x d fs fs' r \<Longrightarrow> confined d fs fs'"
  by (auto simp: copied_def confined_def)

lemma copied_refl: "wf_node fs \<Longrightarrow> is_dir (get fs p) \<Longrightarrow> copied x (p @ [n]) fs fs (Inl e)"
  using confined_refl [of fs p n] by (simp add: copied_def confined_def)

lemma copy_file_effect:
  assumes c: "copy_file umask m (abs_path s) (abs_path (p @ [n])) (fs, faults) = ((fs', faults'), r)"
    and src: "names s" "get fs s = Some (Reg m bytes)"
    and dst: "wf_node fs" "names (p @ [n])" "is_dir (get fs p)" "get fs (p @ [n]) = None"
  shows "copied (Reg m bytes) (p @ [n]) fs fs' r"
  using c unfolding copy_file_def
proof (cases rule: andThen_cases)
  case (1 e)
  then show ?thesis using reads_D [OF reads_look(2)] copied_refl [OF dst(1,3)] by blast
next
  case (2 w1 b)
  obtain fs1 f1 where w1: "w1 = (fs1, f1)" by fastforce
  have fs1: "fs1 = fs" using reads_D [OF reads_look(2)] 2(1) w1 by blast
  have "sys (ReadFile (abs_path s)) (fs, []) = ((fs1, []), Inr b)"
    using 2(1) unfolding w1 by (rule steadyD [OF steady_ops(2)])
  then have b: "b = bytes" using ReadFile_quiet [OF src] by (simp add: sys_def)
  from 2(2) show ?thesis unfolding w1 fs1
  proof (cases rule: andThen_cases)
    case (1 e)
    then show ?thesis using file_call_same copied_refl [OF dst(1,3)] by blast
  next
    case (2 w2 u)
    obtain fs2 f2 where w2: "w2 = (fs2, f2)" by fastforce
    have fs2: "fs2 = fs" using file_call_same 2(1) w2 by blast
    note eff = create_effect [OF _ dst(2-4), of "Reg (m AND NOT umask) []"]
    from 2(2) show ?thesis unfolding w2 fs2
    proof (cases rule: andThen_cases)
      case (1 e)
      then obtain e' where "CreateExcl umask (abs_path (p @ [n])) m (fs, f2) = ((fs', faults'), Inl e')" by (auto elim: sys_cases)
      then have "fs' = fs" using eff [of f2 fs' faults' "Inl e'"] by (simp add: CreateExcl_def)
      then show ?thesis using 1 copied_refl [OF dst(1,3)] by blast
    next
      case (2 w3 u')
      obtain fs3 f3 where w3: "w3 = (fs3, f3)" by fastforce
      have "CreateExcl umask (abs_path (p @ [n])) m (fs, f2) = ((fs3, f3), Inr u')" using 2(1) by (simp add: sys_Inr w3)
      then have fs3: "fs3 = set_at fs (p @ [n]) (Some (Reg (m AND NOT umask) []))"
        using eff [of f2 fs3 f3 "Inr u'"] by (simp add: CreateExcl_def)
      have g3: "get fs3 (p @ [n]) = Some (Reg (m AND NOT umask) [])" "is_dir (get fs3 p)"
        using get_set_same [OF dst(3)] is_dir_set_at [OF dst(3)] by (simp_all add: fs3)
      obtain m' b' where "fs' = set_at fs3 (p @ [n]) (Some (Reg m' b'))" "r = Inr () \<longrightarrow> m' = m \<and> b' = bytes"
        using write_and_close [OF 2(2) [unfolded w3] dst(2) g3(2,1)] b by auto
      then show ?thesis by (auto simp: copied_def fs3 set_at_set_at)
    qed
  qed
qed

lemma put_last:
  assumes "sorted (map fst (es @ [(n, x)]))" "distinct (map fst (es @ [(n, x)]))"
  shows "put_entry n x es = es @ [(n, x)]"
proof -
  have "map_of es n = None" using assms(2) by (auto simp: map_of_eq_None_iff)
  then have "put_entry n x es = insort_key fst (n, x) es" by (simp add: put_entry_def del_absent)
  moreover have "\<forall>e \<in> set es. fst e < n"
  proof
    fix e assume "e \<in> set es"
    then have "fst e \<le> n" "fst e \<noteq> n" using assms by (auto simp: sorted_append image_iff)
    then show "fst e < n" by simp
  qed
  then have "insort_key fst (n, x) es = es @ [(n, x)]" by (induction es) auto
  ultimately show ?thesis by simp
qed

lemma wf_prefix: "wf_node (Dir m (es @ es')) \<Longrightarrow> wf_node (Dir m' es)"
  by (simp add: sorted_append)

definition copies :: "nat \<Rightarrow> perm \<Rightarrow> bool" where
  "copies k umask \<longleftrightarrow> (\<forall>s p n x fs. wf_node fs \<longrightarrow> names s \<longrightarrow> names (p @ [n]) \<longrightarrow> get fs s = Some x \<longrightarrow> is_dir (get fs p) \<longrightarrow>
     get fs (p @ [n]) = None \<longrightarrow> s \<parallel> p @ [n] \<longrightarrow> ensures (copyAssetPath k umask (abs_path s) (abs_path (p @ [n]))) fs (\<lambda>r fs'. copied x (p @ [n]) fs fs' r))"

lemma copiesD:
  assumes "copies k umask" "wf_node fs" "names s" "names (p @ [n])" "get fs s = Some x" "is_dir (get fs p)" "get fs (p @ [n]) = None" "s \<parallel> p @ [n]"
  shows "ensures (copyAssetPath k umask (abs_path s) (abs_path (p @ [n]))) fs (\<lambda>r fs'. copied x (p @ [n]) fs fs' r)"
  using assms by (simp add: copies_def)

text \<open>The loop over the entries: \<open>done\<close> are in place, \<open>rest\<close> remain.\<close>

lemma copy_entries_effect:
  assumes IH: "copies k umask"
    and fs: "wf_node fs" "is_dir (get fs p)" and nm: "names s" "names (p @ [n])" and par: "s \<parallel> p @ [n]"
    and src: "get fs s = Some (Dir m (done @ rest))"
    and run: "copy_entries k umask (abs_path s) (abs_path (p @ [n])) (map fst rest) (set_at fs (p @ [n]) (Some (Dir m1 done)), faults) =
      ((fs', faults'), r)"
  shows "\<exists>es. fs' = set_at fs (p @ [n]) (Some (Dir m1 es)) \<and> wf_node (Dir m1 es) \<and> (r = Inr () \<longrightarrow> es = done @ rest)"
  using src run
proof (induction rest arbitrary: "done" faults)
  case Nil
  have "wf_node (Dir m done)" using wf_get [OF fs(1) Nil(1)] by simp
  then show ?case using Nil by (auto simp: qreturn_def)
next
  case (Cons e rest)
  obtain c x where e: "e = (c, x)" by fastforce
  let ?d = "p @ [n]" and ?fs0 = "set_at fs (p @ [n]) (Some (Dir m1 done))"
  have wf: "wf_node (Dir m (done @ e # rest))" using wf_get [OF fs(1) Cons.prems(1)] .
  have wfd: "wf_node (Dir m1 done)" using wf_prefix wf by blast
  have srt: "sorted (map fst (done @ [(c, x)]))" "distinct (map fst (done @ [(c, x)]))"
    using wf by (auto simp: e sorted_append)
  have "distinct (map fst (done @ e # rest))" using wf by simp
  then have c: "path_name c" "map_of (done @ e # rest) c = Some x" "map_of done c = None"
    using wf srt(2) map_of_is_SomeI [of "done @ e # rest" c x] by (simp_all add: e map_of_eq_None_iff)
  have wf0: "wf_node ?fs0" by (rule wf_set_at [OF fs(1) nm(2)]) (use wfd in auto)
  have g0: "get ?fs0 ?d = Some (Dir m1 done)" using get_set_same [OF fs(2)] by simp
  have src0: "get ?fs0 (s @ [c]) = Some x"
  proof -
    have "?d \<parallel> s @ [c]" using par parallel_extend(1) [of ?d s] by (meson parallel_commute)
    then have "get ?fs0 (s @ [c]) = get fs (s @ [c])" by (auto intro: get_set_other)
    then show ?thesis using get_append [of fs s "[c]"] Cons.prems(1) c(2) by simp
  qed
  have join: "path_Join [abs_path s, c] = abs_path (s @ [c])" "path_Join [abs_path ?d, c] = abs_path (?d @ [c])"
    using path_Join_abs nm c(1) by blast+
  have free: "get ?fs0 (?d @ [c]) = None" using get_append [of ?fs0 ?d "[c]"] g0 c(3) by simp
  have cpar: "s @ [c] \<parallel> ?d @ [c]" using parallel_append [OF par] .
  have dir0: "is_dir (get ?fs0 ?d)" by (simp add: g0 is_dir_def)
  have nms: "names (s @ [c])" "names (?d @ [c])" using nm c(1) by auto
  have child: "set_at ?fs0 (?d @ [c]) y = set_at fs ?d (Some (Dir m1 (set_entry_to c y done)))" for y
    using set_at_child [of ?fs0 p n m1 "done" c y] g0 by (simp add: set_at_set_at)
  obtain w1 r1 where cp: "copyAssetPath k umask (abs_path (s @ [c])) (abs_path (?d @ [c])) (?fs0, faults) = (w1, r1)" by fastforce
  obtain fs1 f1 where w1: "w1 = (fs1, f1)" by fastforce
  obtain y where y: "fs1 = set_at ?fs0 (?d @ [c]) y" "\<forall>z. y = Some z \<longrightarrow> wf_node z" "r1 = Inr () \<longrightarrow> y = Some x"
    using ensuresD [OF copiesD [OF IH wf0 nms src0 dir0 free cpar] cp [unfolded w1]] by (auto simp: copied_def)
  show ?case
  proof (cases r1)
    case (Inl err)
    then have "fs' = fs1" "r = Inl err" using Cons.prems(2) cp w1 by (simp_all add: e join andThen_def)
    moreover have "wf_node (Dir m1 (set_entry_to c y done))" using wf_entries [OF wfd c(1)] y(2) by blast
    ultimately show ?thesis using y(1) child by auto
  next
    case (Inr u)
    then have "fs1 = set_at fs ?d (Some (Dir m1 (done @ [e])))"
      using y child put_last [OF srt] by (simp add: set_entry_to_def e)
    then have "copy_entries k umask (abs_path s) (abs_path ?d) (map fst rest) (set_at fs ?d (Some (Dir m1 (done @ [e]))), f1) = ((fs', faults'), r)"
      using Cons.prems(2) cp w1 Inr by (simp add: e join andThen_def)
    then show ?thesis using Cons.IH [of "done @ [e]" f1] Cons.prems(1) by simp
  qed
qed

lemma copy_directory_effect:
  assumes entries: "ensures (copy_entries k umask (abs_path s) (abs_path (p @ [n])) (map fst es)) (set_at fs (p @ [n]) (Some (Dir (m AND NOT umask) [])))
      (\<lambda>r fs'. \<exists>es'. fs' = set_at fs (p @ [n]) (Some (Dir (m AND NOT umask) es')) \<and> wf_node (Dir (m AND NOT umask) es') \<and> (r = Inr () \<longrightarrow> es' = es))"
    and fs: "wf_node fs" "names s" "names (p @ [n])" "get fs s = Some (Dir m es)" "is_dir (get fs p)" "get fs (p @ [n]) = None" "s \<parallel> p @ [n]"
  shows "ensures (andThen (sys (Mkdir umask (abs_path (p @ [n])) m)) (\<lambda>_. andThen (sys (ReadDir (abs_path s))) (\<lambda>names.
      andThen (copy_entries k umask (abs_path s) (abs_path (p @ [n])) names) (\<lambda>_. sys (Chmod (abs_path (p @ [n])) m)))))
    fs (\<lambda>r fs'. copied (Dir m es) (p @ [n]) fs fs' r)"
proof -
  let ?d = "p @ [n]" and ?m = "m AND NOT umask"
  let ?fs1 = "set_at fs ?d (Some (Dir ?m []))"
  have wf: "wf_node (Dir m es)" using wf_get [OF fs(1,4)] .
  have src: "get ?fs1 s = Some (Dir m es)" using get_set_other [of ?d s fs] fs(4,7) by (simp add: parallel_def)
  have mk: "ensures (sys (Mkdir umask (abs_path ?d) m)) fs (\<lambda>r fs1. (if r = Inr () then fs1 = ?fs1 else fs1 = fs))"
    by (rule ensures_sys, unfold Mkdir_def, drule create_effect [OF _ fs(3,5,6)]) auto
  have rd: "ensures (sys (ReadDir (abs_path s))) ?fs1 (\<lambda>r fs1. fs1 = ?fs1 \<and> (\<forall>x. r = Inr x \<longrightarrow> x = map fst es))"
    by (rule ensures_weaken [OF ensures_reads [OF reads_look(3) steady_ops(3)]])
      (use ReadDir_quiet [OF fs(2) src wf] in \<open>auto simp: sys_def\<close>)
  have ch: "ensures (sys (Chmod (abs_path ?d) m)) (set_at fs ?d (Some (Dir ?m es))) (\<lambda>r fs'. copied (Dir m es) ?d fs fs' r)"
  proof (rule ensures_sys)
    fix faults fs' faults' r
    assume c: "Chmod (abs_path ?d) m (set_at fs ?d (Some (Dir ?m es)), faults) = ((fs', faults'), r)"
    have g: "get (set_at fs ?d (Some (Dir ?m es))) ?d = Some (Dir ?m es)" using get_set_same [OF fs(5)] by simp
    have "no_link (Some (Dir ?m es))" by (simp add: no_link_def)
    from Chmod_effect [OF c fs(3) g this] show "copied (Dir m es) ?d fs fs' (map_sum QSys id r)"
      using wf by (auto simp: copied_def set_at_set_at)
  qed
  have rest: "ensures (andThen (copy_entries k umask (abs_path s) (abs_path ?d) (map fst es)) (\<lambda>_. sys (Chmod (abs_path ?d) m))) ?fs1
      (\<lambda>r fs'. copied (Dir m es) ?d fs fs' r)"
    by (rule ensures_andThen [OF entries]) (use ch in \<open>auto simp: copied_def\<close>)
  have "ensures (andThen (sys (ReadDir (abs_path s))) (\<lambda>names. andThen (copy_entries k umask (abs_path s) (abs_path ?d) names) (\<lambda>_. sys (Chmod (abs_path ?d) m)))) ?fs1
      (\<lambda>r fs'. copied (Dir m es) ?d fs fs' r)"
    by (rule ensures_andThen [OF rd]) (use rest in \<open>auto simp: copied_def\<close>)
  then show ?thesis by (intro ensures_andThen [OF mk]) (use copied_refl [OF fs(1,5)] in auto)
qed

lemma copy_step:
  assumes IH: "copies k umask"
    and fs: "wf_node fs" "names s" "names (p @ [n])" "get fs s = Some x" "is_dir (get fs p)" "get fs (p @ [n]) = None" "s \<parallel> p @ [n]"
  shows "ensures (copyAssetPath (Suc k) umask (abs_path s) (abs_path (p @ [n]))) fs (\<lambda>r fs'. copied x (p @ [n]) fs fs' r)"
  unfolding copyAssetPath.simps
proof (rule ensures_andThen [OF ensures_reads [OF reads_safeAssetInfo steady_safeAssetInfo]])
  let ?d = "p @ [n]"
  fix i fs1
  assume a: "fs1 = fs \<and> (\<forall>y. Inr i = Inr y \<longrightarrow> safeAssetInfo (abs_path s) (fs, []) = ((fs, []), Inr y))"
  then have i: "i = x" "plain_node x" using safeAssetInfo_quiet [OF fs(2,4)] by (auto split: if_splits node.splits)
  show "ensures (case i of
         Dir m _ \<Rightarrow>
           andThen (sys (Mkdir umask (abs_path ?d) m)) (\<lambda>_.
           andThen (sys (ReadDir (abs_path s))) (\<lambda>names.
           andThen (copy_entries k umask (abs_path s) (abs_path ?d) names) (\<lambda>_.
           sys (Chmod (abs_path ?d) m))))
       | _ \<Rightarrow> copy_file umask (node_perm i) (abs_path s) (abs_path ?d)) fs1 (\<lambda>r fs'. copied x ?d fs fs' r)"
  proof (cases x)
    case (Reg m bytes)
    have "get fs s = Some (Reg m bytes)" using fs(4) Reg by simp
    then have "ensures (copy_file umask m (abs_path s) (abs_path ?d)) fs (\<lambda>r fs'. copied (Reg m bytes) ?d fs fs' r)"
      by (intro ensuresI, elim copy_file_effect [OF _ fs(2) _ fs(1,3,5,6)])
    then show ?thesis using a i Reg by simp
  next
    case (Dir m es)
    let ?m = "m AND NOT umask"
    have src: "get fs s = Some (Dir m ([] @ es))" using fs(4) Dir by simp
    have "ensures (copy_entries k umask (abs_path s) (abs_path ?d) (map fst es)) (set_at fs ?d (Some (Dir ?m [])))
        (\<lambda>r fs'. \<exists>es'. fs' = set_at fs ?d (Some (Dir ?m es')) \<and> wf_node (Dir ?m es') \<and> (r = Inr () \<longrightarrow> es' = es))"
      by (rule ensuresI, drule copy_entries_effect [OF IH fs(1,5,2,3,7) src]) simp
    from copy_directory_effect [OF this fs(1,2,3) _ fs(5-7)] show ?thesis using src a i Dir by simp
  qed (use i in simp_all)
qed (use copied_refl [OF fs(1,5)] in auto)

lemma copies_all: "copies k umask"
proof (induction k)
  case 0
  show ?case by (auto simp: copies_def intro!: ensures_return copied_refl)
next
  case (Suc k)
  show ?case unfolding copies_def using copy_step [OF Suc] by blast
qed

lemmas copyAssetPath_effect = copiesD [OF copies_all]

end
