(* ===== verification/Enforce_QuarantineMove.thy ===== *)
theory Enforce_QuarantineMove
  imports Enforce_QuarantineCopy
begin

text \<open>
  The two transactions of the quarantine.  Every change before the removal of the original is confined to the destination's directory, and the
  original is removed only after a verified copy is in place, so that whatever call fails, or if the process dies between two calls, one of the
  two places holds the complete asset.
\<close>

subsection \<open>Removal\<close>

definition removed :: "string list \<Rightarrow> node \<Rightarrow> node \<Rightarrow> (quarantine_error + unit) \<Rightarrow> bool" where
  "removed d fs fs' r \<longleftrightarrow> (\<exists>y. fs' = set_at fs d y \<and> (\<forall>z. y = Some z \<longrightarrow> wf_node z) \<and> (r = Inr () \<longrightarrow> y = None))"

lemma removed_confined: "removed d fs fs' r \<Longrightarrow> confined d fs fs'"
  by (auto simp: removed_def confined_def)

lemma removed_refl: "wf_node fs \<Longrightarrow> is_dir (get fs p) \<Longrightarrow> removed (p @ [n]) fs fs (Inl e)"
  using confined_refl [of fs p n] by (simp add: removed_def confined_def)

lemma removed_gone: "removed (p @ [n]) fs fs' (Inr ()) \<Longrightarrow> is_dir (get fs p) \<Longrightarrow> get fs' (p @ [n]) = None"
  by (auto simp: removed_def get_set_same)

lemma unlink_cases: "unlink x faults = (y, rest) \<Longrightarrow> y = Some x \<or> y = None"
  by (auto simp: unlink_def split: list.splits option.splits)

lemma remove_entries_Cons:
  "fst (remove_entries ((n, x) # es) faults) =
     (case fst (remove_node x faults) of None \<Rightarrow> [] | Some y \<Rightarrow> [(n, y)]) @ fst (remove_entries es (snd (remove_node x faults)))"
  by (simp add: case_prod_unfold split: option.splits)

lemma remove_entries_names: "set (map fst (fst (remove_entries es faults))) \<subseteq> set (map fst es)"
proof (induction es arbitrary: faults)
  case (Cons e es)
  obtain n x where e: "e = (n, x)" by fastforce
  show ?case using Cons.IH [of "snd (remove_node x faults)"] unfolding e remove_entries_Cons by (auto split: option.splits)
qed simp

lemma remove_wf:
  "wf_node x \<Longrightarrow> fst (remove_node x faults) = Some y \<Longrightarrow> wf_node y"
  "wf_node (Dir m es) \<Longrightarrow> wf_node (Dir m (fst (remove_entries es faults)))"
proof (induction x faults and es faults arbitrary: y and m rule: remove_node_remove_entries.induct)
  case (1 m es faults)
  obtain es' rest where e: "remove_entries es faults = (es', rest)" by fastforce
  have wf: "wf_node (Dir m es')" using 1(1) [of m] 1(2) e by simp
  show ?case
  proof (cases es')
    case Nil
    then show ?thesis using 1(3) e unlink_cases [of "Dir m []" rest] by (cases "unlink (Dir m []) rest") auto
  next
    case (Cons c cs)
    then have "y = Dir m es'" using 1(3) e by simp
    then show ?thesis using wf by simp
  qed
next
  case (4 n x es faults)
  let ?rest = "remove_entries es (snd (remove_node x faults))"
  have wf: "wf_node (Dir m es)" "wf_node x" "path_name n" using 4(3) by simp_all
  have tail: "wf_node (Dir m (fst ?rest))" using 4(2) [of "fst (remove_node x faults)" "snd (remove_node x faults)" m] wf(1) by simp
  have sub: "set (map fst (fst ?rest)) \<subseteq> set (map fst es)" by (rule remove_entries_names)
  show ?case
  proof (cases "fst (remove_node x faults)")
    case None
    then show ?thesis using tail unfolding remove_entries_Cons by simp
  next
    case (Some y)
    have "wf_node y" using 4(1) [OF wf(2) Some] .
    moreover have "\<forall>k \<in> set (map fst es). n \<le> k \<and> n \<noteq> k" using 4(3) by auto
    then have "\<forall>k \<in> set (map fst (fst ?rest)). n \<le> k \<and> n \<noteq> k" using sub by blast
    ultimately show ?thesis using tail wf(3) unfolding remove_entries_Cons by (auto simp: Some)
  qed
qed (auto simp: unlink_def split: list.splits option.splits)

lemma Remove_effect:
  assumes "Remove (abs_path (p @ [n])) (fs, faults) = ((fs', faults'), r)" "names (p @ [n])" "wf_node fs" "is_dir (get fs p)"
  shows "removed (p @ [n]) fs fs' (map_sum QSys id r)"
  using assms(1) unfolding Remove_def
proof (cases rule: call_cases)
  case 1
  then show ?thesis using removed_refl [OF assms(3,4)] by auto
next
  case 2
  have r: "resolve False fs (abs_path (p @ [n])) = Inr (p @ [n])" using resolve_child [of p n fs False] assms(2,4) by simp
  show ?thesis
  proof (cases "get fs (p @ [n])")
    case None
    then show ?thesis using 2 r removed_refl [OF assms(3,4)] by simp
  next
    case (Some x)
    have ok: "removed (p @ [n]) fs (set_at fs (p @ [n]) None) (Inr ())" by (auto simp: removed_def)
    show ?thesis
    proof (cases x)
      case (Dir m es)
      then show ?thesis using 2 r Some removed_refl [OF assms(3,4)] ok by (cases es) simp_all
    qed (use 2 r Some ok in simp_all)
  qed
qed

lemma RemoveAll_effect:
  assumes "RemoveAll (abs_path (p @ [n])) (fs, faults) = ((fs', faults'), r)" "names (p @ [n])" "wf_node fs" "is_dir (get fs p)"
  shows "removed (p @ [n]) fs fs' (map_sum QSys id r)"
proof -
  let ?d = "p @ [n]"
  have res: "resolve False fs (abs_path ?d) = Inr ?d" using resolve_child [of p n fs False] assms(2,4) by simp
  show ?thesis
  proof (cases "get fs ?d")
    case None
    then have "fs' = fs" using assms(1) res by (simp add: RemoveAll_def)
    then show ?thesis using set_at_same [OF assms(3,4), of n] None by (auto simp: removed_def intro!: exI [of _ None])
  next
    case (Some x)
    obtain y rest where y: "remove_node x faults = (y, rest)" by fastforce
    have wf: "wf_node z" if "y = Some z" for z using remove_wf(1) [OF wf_get [OF assms(3) Some], of faults z] y that by simp
    show ?thesis
    proof (cases y)
      case None
      then have "fs' = set_at fs ?d None" using assms(1) res Some y by (simp add: RemoveAll_def)
      then show ?thesis by (auto simp: removed_def)
    next
      case c: (Some z)
      then have "fs' = set_at fs ?d (Some z)" "r = Inl EIO" using assms(1) res Some y by (simp_all add: RemoveAll_def)
      then show ?thesis using wf [OF c] by (auto simp: removed_def)
    qed
  qed
qed

lemma removeAssetPath_effect:
  assumes "names (p @ [n])" "wf_node fs" "is_dir (get fs p)"
  shows "ensures (removeAssetPath (abs_path (p @ [n])) root) fs (\<lambda>r fs'. removed (p @ [n]) fs fs' r)"
proof -
  note refl = removed_refl [OF assms(2,3)]
  have all: "ensures (sys (RemoveAll (abs_path (p @ [n])))) fs (\<lambda>r fs'. removed (p @ [n]) fs fs' r)"
    "ensures (sys (Remove (abs_path (p @ [n])))) fs (\<lambda>r fs'. removed (p @ [n]) fs fs' r)"
    by (rule ensures_sys, erule RemoveAll_effect [OF _ assms]) (rule ensures_sys, erule Remove_effect [OF _ assms])
  have "ensures (andThen (sys (Lstat (abs_path (p @ [n])))) (\<lambda>info. case info of
      Dir _ _ \<Rightarrow> sys (RemoveAll (abs_path (p @ [n]))) | _ \<Rightarrow> sys (Remove (abs_path (p @ [n])))))
    fs (\<lambda>r fs'. removed (p @ [n]) fs fs' r)"
    by (rule ensures_andThen [OF ensures_reads_only [OF reads_look(1)]]) (use refl all in \<open>simp_all split: node.splits\<close>)
  then have "ensures (andThen (validateContainedAncestors (path_Dir (abs_path (p @ [n]))) root) (\<lambda>_. andThen (sys (Lstat (abs_path (p @ [n])))) (\<lambda>info. case info of
      Dir _ _ \<Rightarrow> sys (RemoveAll (abs_path (p @ [n]))) | _ \<Rightarrow> sys (Remove (abs_path (p @ [n]))))))
    fs (\<lambda>r fs'. removed (p @ [n]) fs fs' r)"
    by (intro ensures_andThen [OF ensures_reads_only [OF reads_validate(2)]]) (use refl in simp_all)
  then show ?thesis unfolding removeAssetPath_def by (intro ensures_andThen [OF ensures_qcheck]) (use refl in simp_all)
qed

lemma assetPathExists_False:
  assumes "assetPathExists (abs_path (p @ [n])) (fs, faults) = (w', Inr b)" "names (p @ [n])" "is_dir (get fs p)"
  shows "b \<longleftrightarrow> get fs (p @ [n]) \<noteq> None"
proof -
  have r: "resolve False fs (abs_path (p @ [n])) = Inr (p @ [n])" using resolve_child [of p n fs False] assms(2,3) by simp
  obtain w1 res where l: "Lstat (abs_path (p @ [n])) (fs, faults) = (w1, res)" by fastforce
  then have "res = Inl EIO \<or> res = snd (look False (abs_path (p @ [n])) fs)" unfolding Lstat_def by (cases rule: call_cases) auto
  moreover have "snd (look False (abs_path (p @ [n])) fs) = (case get fs (p @ [n]) of None \<Rightarrow> Inl ENOENT | Some x \<Rightarrow> Inr x)"
    using r by (simp add: look_def)
  ultimately show ?thesis using assms(1) l by (auto simp: assetPathExists_def split: option.splits)
qed

lemma assetPathExists_link_free:
  assumes "assetPathExists (abs_path p) (fs, faults) = (w', Inr b)" "names p" "link_free fs p"
  shows "b \<longleftrightarrow> get fs p \<noteq> None"
proof -
  obtain w1 res where l: "Lstat (abs_path p) (fs, faults) = (w1, res)" by fastforce
  then have res: "res = Inl EIO \<or> res = snd (look False (abs_path p) fs)" unfolding Lstat_def by (cases rule: call_cases) auto
  show ?thesis
  proof (cases "get fs p")
    case None
    then show ?thesis using look_absent [OF assms(2,3) None, of False] res assms(1) l by (auto simp: assetPathExists_def)
  next
    case (Some x)
    then show ?thesis using look_get [OF assms(2) Some, of False] res assms(1) l by (auto simp: assetPathExists_def)
  qed
qed

subsection \<open>The destination's directory\<close>

lemma set_at_stuck: "wf_node fs \<Longrightarrow> \<not> is_dir (get fs p) \<Longrightarrow> set_at fs (p @ [n]) y = fs"
proof (induction p arbitrary: fs)
  case Nil
  then show ?case by (cases fs) (auto simp: is_dir_def)
next
  case (Cons a p)
  show ?case
  proof (cases fs)
    case (Dir m es)
    show ?thesis
    proof (cases "map_of es a")
      case None
      then show ?thesis using Dir by (cases p) simp_all
    next
      case (Some c)
      have "wf_node c" using wf_child [OF _ Some] Cons.prems(1) Dir by blast
      then have "set_at c (p @ [n]) y = c" by (rule Cons.IH) (use Cons.prems(2) Dir Some in simp)
      moreover have "put_entry a c es = es" by (rule put_same [OF _ _ Some]) (use Cons.prems(1) Dir in simp_all)
      ultimately show ?thesis using Dir Some by (cases p) simp_all
    qed
  qed (cases p; simp)+
qed

text \<open>Directories may have been added on the way to \<open>p\<close>, and nothing else.\<close>

definition made :: "string list \<Rightarrow> node \<Rightarrow> node \<Rightarrow> bool" where
  "made p fs fs' \<longleftrightarrow> wf_node fs' \<and> link_free fs' p \<and> (\<forall>q. \<not> prefix q p \<longrightarrow> get fs' q = get fs q)"

lemma made_refl: "wf_node fs \<Longrightarrow> link_free fs p \<Longrightarrow> made p fs fs"
  by (simp add: made_def)

lemma made_trans: "made p fs fs' \<Longrightarrow> made p fs' fs'' \<Longrightarrow> made p fs fs''"
  by (simp add: made_def)

lemma made_extend: "made p fs fs' \<Longrightarrow> link_free fs (p @ [n]) \<Longrightarrow> made (p @ [n]) fs fs'"
  unfolding made_def link_free_def by (auto simp: prefix_snoc)

lemma made_create:
  assumes "wf_node fs" "names (p @ [n])" "link_free fs (p @ [n])" "get fs (p @ [n]) = None"
  shows "made (p @ [n]) fs (set_at fs (p @ [n]) (Some (Dir m [])))"
proof (cases "is_dir (get fs p)")
  case False
  then show ?thesis using set_at_stuck [OF assms(1) False] made_refl assms by simp
next
  case True
  let ?d = "p @ [n]" and ?fs = "set_at fs (p @ [n]) (Some (Dir m []))"
  have wf: "wf_node ?fs" by (rule wf_set_at [OF assms(1,2)]) auto
  have "get ?fs q = get fs q" if q: "\<not> prefix q ?d" for q
  proof (cases "prefix ?d q")
    case False
    then show ?thesis using q get_set_other by simp
  next
    case pre: True
    then obtain k ks where e: "q = ?d @ k # ks" using q by (metis append_Nil2 neq_Nil_conv prefixE prefix_order.refl)
    then show ?thesis using get_append [of ?fs ?d "k # ks"] get_append [of fs ?d "k # ks"] get_set_same [OF True] assms(4) by simp
  qed
  moreover have "no_link (get ?fs q)" if q: "prefix q ?d" for q
  proof (cases "q = ?d")
    case True
    then show ?thesis using get_set_same [OF \<open>is_dir (get fs p)\<close>] by (simp add: no_link_def)
  next
    case False
    then obtain ks where e: "p = q @ ks" using q by (auto simp: prefix_snoc elim: prefixE)
    have dir: "is_dir (get ?fs p)" using is_dir_set_at [OF True] .
    show ?thesis
    proof (cases ks)
      case Nil
      then show ?thesis using dir e by (auto simp: is_dir_def no_link_def)
    next
      case (Cons k kt)
      obtain x where "get ?fs (q @ k # kt) = Some x" using dir e Cons by (auto simp: is_dir_def)
      then show ?thesis using get_parent by (fastforce simp: is_dir_def no_link_def)
    qed
  qed
  ultimately show ?thesis using wf by (simp add: made_def link_free_def)
qed

lemma look_result:
  assumes "atomic_call (look follow (abs_path p)) (fs, faults) = ((fs', faults'), r)" "names p" "link_free fs p"
  shows "fs' = fs \<and> (\<forall>x. r = Inr x \<longrightarrow> get fs p = Some x)"
  using assms(1)
proof (cases rule: call_cases)
  case 2
  then have "fs' = fs" by (simp add: look_def)
  moreover have "get fs p = Some x" if x: "r = Inr x" for x
  proof -
    have r: "snd (look follow (abs_path p) fs) = Inr x" using 2(2) x by simp
    show ?thesis using resolve_link_free [OF assms(2,3), of follow]
    proof
      assume "resolve follow fs (abs_path p) = Inr p"
      then show ?thesis using r by (simp add: look_def split: option.splits)
    next
      assume a: "resolve follow fs (abs_path p) \<in> {Inl ENOENT, Inl ENOTDIR} \<and> get fs p = None"
      then obtain e where "resolve follow fs (abs_path p) = Inl e" by blast
      then show ?thesis using r by (simp add: look_def)
    qed
  qed
  ultimately show ?thesis by simp
qed simp

lemma Mkdir_made:
  assumes "Mkdir umask (abs_path (p @ [n])) m (fs, faults) = ((fs', faults'), r)" "wf_node fs" "names (p @ [n])" "link_free fs (p @ [n])" "is_dir (get fs p)"
  shows "made (p @ [n]) fs fs' \<and> (r = Inr () \<longrightarrow> is_dir (get fs' (p @ [n])))"
proof -
  have r: "resolve False fs (abs_path (p @ [n])) = Inr (p @ [n])" using resolve_child [of p n fs False] assms(3,5) by simp
  from assms(1) [unfolded Mkdir_def] show ?thesis
  proof (cases rule: call_cases)
    case 1
    then show ?thesis using made_refl [OF assms(2,4)] by simp
  next
    case 2
    show ?thesis
    proof (cases "get fs (p @ [n])")
      case None
      then show ?thesis using 2 r made_create [OF assms(2-4) None] get_set_same [OF assms(5)] by (simp add: create_def is_dir_def)
    next
      case (Some x)
      then show ?thesis using 2 r made_refl [OF assms(2,4)] by (simp add: create_def)
    qed
  qed
qed

lemma mkdir_chain_effect:
  assumes "mkdir_chain umask m (rev p) (fs, faults) = ((fs', faults'), r)" "wf_node fs" "names p" "link_free fs p" "is_dir (get fs [])"
  shows "made p fs fs' \<and> (r = Inr () \<longrightarrow> is_dir (get fs' p))"
  using assms
proof (induction p arbitrary: fs faults fs' faults' r rule: rev_induct)
  case Nil
  obtain fs1 f1 r1 where st: "Stat (abs_path []) (fs, faults) = ((fs1, f1), r1)" by (metis surj_pair)
  then have "fs1 = fs" using look_result [of True "[]" fs faults fs1 f1 r1] Nil.prems by (simp add: Stat_def)
  then show ?case using Nil.prems st made_refl [OF Nil.prems(2,4)] by (auto split: sum.splits)
next
  case (snoc n p)
  let ?d = "p @ [n]"
  have np: "names p" "link_free fs p" using snoc.prems(3,4) link_free_prefix [of fs ?d p] by simp_all
  obtain fs1 f1 r1 where st: "Stat (abs_path ?d) (fs, faults) = ((fs1, f1), r1)" by (metis surj_pair)
  have fs1: "fs1 = fs" and r1: "\<And>x. r1 = Inr x \<Longrightarrow> get fs ?d = Some x"
    using look_result [OF st [unfolded Stat_def] snoc.prems(3,4)] by simp_all
  note refl = made_refl [OF snoc.prems(2,4)]
  show ?case
  proof (cases r1)
    case (Inr x)
    then show ?thesis using snoc.prems(1) st fs1 refl r1 by (cases x) (auto simp: is_dir_def)
  next
    case (Inl e)
    obtain fs2 f2 r2 where up: "(if rev p = [] then ((fs1, f1), Inr ()) else mkdir_chain umask m (rev p) (fs1, f1)) = ((fs2, f2), r2)" by (metis surj_pair)
    have made: "made p fs fs2" "r2 = Inr () \<Longrightarrow> is_dir (get fs2 p)"
    proof -
      have "made p fs fs2 \<and> (r2 = Inr () \<longrightarrow> is_dir (get fs2 p))"
      proof (cases "rev p = []")
        case True
        then show ?thesis using up fs1 made_refl [OF snoc.prems(2) np(2)] snoc.prems(5) by simp
      next
        case False
        then show ?thesis using up snoc.IH [OF _ snoc.prems(2) np snoc.prems(5)] fs1 by simp
      qed
      then show "made p fs fs2" "r2 = Inr () \<Longrightarrow> is_dir (get fs2 p)" by simp_all
    qed
    have ext: "made ?d fs fs2" using made_extend [OF made(1) snoc.prems(4)] .
    show ?thesis
    proof (cases r2)
      case e2: (Inl e2)
      then have "fs' = fs2" "r = Inl e2" using snoc.prems(1) st Inl up by (auto split: if_splits)
      then show ?thesis using ext by simp
    next
      case i2: (Inr u)
      obtain fs3 f3 r3 where mk: "Mkdir umask (abs_path ?d) m (fs2, f2) = ((fs3, f3), r3)" by (metis surj_pair)
      have w2: "wf_node fs2" "link_free fs2 ?d" using ext by (simp_all add: made_def)
      have m3: "made ?d fs2 fs3" "r3 = Inr () \<Longrightarrow> is_dir (get fs3 ?d)" using Mkdir_made [OF mk w2(1) snoc.prems(3) w2(2) made(2)] i2 by simp_all
      obtain fs4 f4 r4 where ls: "Lstat (abs_path ?d) (fs3, f3) = ((fs4, f4), r4)" by (metis surj_pair)
      have fs4: "fs4 = fs3" "\<And>x. r4 = Inr x \<Longrightarrow> get fs3 ?d = Some x"
        using look_result [OF ls [unfolded Lstat_def] snoc.prems(3)] m3(1) by (simp_all add: made_def)
      have all: "made ?d fs fs3" using made_trans [OF ext m3(1)] .
      have run: "(case r3 of Inr _ \<Rightarrow> ((fs3, f3), Inr ()) | Inl e \<Rightarrow> (case r4 of Inr (Dir _ _) \<Rightarrow> ((fs4, f4), Inr ()) | _ \<Rightarrow> ((fs4, f4), Inl e))) = ((fs', faults'), r)"
        using snoc.prems(1) st Inl up i2 mk ls by (simp split: if_splits)
      show ?thesis
      proof (cases r3)
        case (Inr v)
        then show ?thesis using run all m3(2) by simp
      next
        case e3: (Inl e3)
        then show ?thesis using run all fs4 by (auto simp: is_dir_def split: sum.splits node.splits)
      qed
    qed
  qed
qed

lemma ensureContainedDirectory_effect:
  assumes "wf_node fs" "names p" "link_free fs p" "is_dir (get fs [])"
  shows "ensures (ensureContainedDirectory umask (abs_path p) root) fs (\<lambda>r fs'. made p fs fs' \<and> (r = Inr () \<longrightarrow> is_dir (get fs' p)))"
proof -
  note refl = made_refl [OF assms(1,3)]
  let ?Q = "\<lambda>r fs'. made p fs fs' \<and> (r = Inr () \<longrightarrow> is_dir (get fs' p))"
  have mk: "ensures (sys (MkdirAll umask (abs_path p) 0x1C0)) fs ?Q"
  proof (rule ensures_sys)
    fix faults fs' faults' r
    assume "MkdirAll umask (abs_path p) 0x1C0 (fs, faults) = ((fs', faults'), r)"
    then have "mkdir_chain umask 0x1C0 (rev p) (fs, faults) = ((fs', faults'), r)" using assms(2) by (simp add: MkdirAll_def)
    from mkdir_chain_effect [OF this assms] show "made p fs fs' \<and> (map_sum QSys id r = Inr () \<longrightarrow> is_dir (get fs' p))" by (cases r) auto
  qed
  have "ensures (andThen (sys (MkdirAll umask (abs_path p) 0x1C0)) (\<lambda>_. validateContainedAncestors (abs_path p) root)) fs ?Q"
  proof (rule ensures_andThen [OF mk])
    fix u fs1 assume "?Q (Inr u) fs1"
    then show "ensures (validateContainedAncestors (abs_path p) root) fs1 ?Q"
      by (intro ensures_weaken [OF ensures_reads_only [OF reads_validate(2)]]) simp
  qed simp
  then have "ensures (andThen (validateExistingAncestors root) (\<lambda>_. andThen (sys (MkdirAll umask (abs_path p) 0x1C0)) (\<lambda>_. validateContainedAncestors (abs_path p) root))) fs ?Q"
    by (intro ensures_andThen [OF ensures_reads_only [OF reads_validate(1)]]) (use refl in simp_all)
  then show ?thesis unfolding ensureContainedDirectory_def by (intro ensures_andThen [OF ensures_qcheck]) (use refl in simp_all)
qed

subsection \<open>Publication of the copy\<close>

text \<open>Only entries of the directory \<open>p\<close> have changed.\<close>

definition near :: "string list \<Rightarrow> node \<Rightarrow> node \<Rightarrow> bool" where
  "near p fs fs' \<longleftrightarrow> wf_node fs' \<and> is_dir (get fs' p) \<and> (\<forall>q. q \<parallel> p \<longrightarrow> get fs' q = get fs q)"

lemma near_refl: "wf_node fs \<Longrightarrow> is_dir (get fs p) \<Longrightarrow> near p fs fs"
  by (simp add: near_def)

lemma near_trans: "near p fs fs' \<Longrightarrow> near p fs' fs'' \<Longrightarrow> near p fs fs''"
  by (simp add: near_def)

lemma near_set_at:
  assumes "wf_node fs" "is_dir (get fs p)" "names (p @ [n])" "\<And>x. y = Some x \<Longrightarrow> wf_node x"
  shows "near p fs (set_at fs (p @ [n]) y)"
proof -
  have "get (set_at fs (p @ [n]) y) q = get fs q" if "q \<parallel> p" for q
    using get_set_other [of "p @ [n]" q fs y] parallel_extend(1) [OF that, of "[n]"] by (simp add: parallel_def)
  then show ?thesis using wf_set_at [OF assms(1,3,4)] is_dir_set_at [OF assms(2)] by (simp add: near_def)
qed

lemma near_confined: "confined (p @ [n]) fs fs' \<Longrightarrow> wf_node fs \<Longrightarrow> is_dir (get fs p) \<Longrightarrow> names (p @ [n]) \<Longrightarrow> near p fs fs'"
  using near_set_at [of fs p n] by (auto simp: confined_def)

lemma sibling_set_at: "n \<noteq> k \<Longrightarrow> get (set_at fs (p @ [n]) y) (p @ [k]) = get fs (p @ [k])"
  by (rule get_set_other) simp_all

lemma Rename_effect:
  assumes "Rename (abs_path (p @ [n])) (abs_path (p @ [k])) (fs, faults) = ((fs', faults'), r)"
    and "names (p @ [n])" "names (p @ [k])" "wf_node fs" "is_dir (get fs p)" "n \<noteq> k" "get fs (p @ [n]) = Some x" "get fs (p @ [k]) = None"
  shows "near p fs fs' \<and> (r = Inr () \<longrightarrow> get fs' (p @ [k]) = Some x) \<and> (r \<noteq> Inr () \<longrightarrow> fs' = fs)"
  using assms(1) unfolding Rename_def
proof (cases rule: call_cases)
  case 1
  then show ?thesis using near_refl [OF assms(4,5)] by simp
next
  case 2
  let ?fs1 = "set_at fs (p @ [n]) None"
  have r: "resolve False fs (abs_path (p @ [n])) = Inr (p @ [n])" "resolve False fs (abs_path (p @ [k])) = Inr (p @ [k])"
    using resolve_child [of p _ fs False] assms(2,3,5) by simp_all
  have e: "fs' = set_at ?fs1 (p @ [k]) (Some x)" "r = Inr ()" using 2 r assms(6-8) by simp_all
  have n1: "near p fs ?fs1" by (rule near_set_at [OF assms(4,5,2)]) simp
  have "near p ?fs1 fs'" unfolding e(1)
    by (rule near_set_at [OF _ _ assms(3)]) (use n1 wf_get [OF assms(4,7)] in \<open>auto simp: near_def\<close>)
  moreover have "get fs' (p @ [k]) = Some x" unfolding e(1) by (rule get_set_same) (use n1 in \<open>simp add: near_def\<close>)
  ultimately show ?thesis using near_trans [OF n1] e(2) by simp
qed

lemma removeIfExists_near:
  assumes "names (p @ [n])" "wf_node fs" "is_dir (get fs p)"
  shows "ensures (removeAssetPathIfExists (abs_path (p @ [n])) root) fs (\<lambda>r fs'. near p fs fs')"
proof -
  have "ensures (removeAssetPath (abs_path (p @ [n])) root) fs (\<lambda>r fs'. near p fs fs')"
    by (rule ensures_weaken [OF removeAssetPath_effect [OF assms]]) (use near_confined removed_confined assms in blast)
  then show ?thesis unfolding removeAssetPathIfExists_def
    by (intro ensures_andThen [OF ensures_reads_only [OF reads_assetPathExists]]) (use near_refl [OF assms(2,3)] ensures_return in auto)
qed

lemma ensures_stage_guard:
  assumes "ensures m fs Q" "\<And>e fs1. Q (Inl e) fs1 \<Longrightarrow> ensures (removeAssetPathIfExists stage root) fs1 (\<lambda>r fs'. Q (Inl e) fs')"
  shows "ensures (stage_guard stage root m) fs Q"
proof (rule ensuresI)
  fix faults fs' faults' r
  assume g: "stage_guard stage root m (fs, faults) = ((fs', faults'), r)"
  obtain fs1 f1 r1 where m: "m (fs, faults) = ((fs1, f1), r1)" by (metis surj_pair)
  then have Q: "Q r1 fs1" using ensuresD [OF assms(1)] by blast
  show "Q r fs'"
  proof (cases r1)
    case (Inr x)
    then show ?thesis using g m Q by (simp add: stage_guard_def)
  next
    case (Inl e)
    obtain fs2 f2 r2 where c: "removeAssetPathIfExists stage root (fs1, f1) = ((fs2, f2), r2)" by (metis surj_pair)
    have "Q (Inl e) fs2" using ensuresD [OF assms(2) c] Q Inl by simp
    then show ?thesis using g m Inl c by (simp add: stage_guard_def)
  qed
qed

lemma guarded_copy_effect:
  assumes w: "wf_node fs" "is_dir (get fs p)" and nm: "names s" "names (p @ [g])" "names (p @ [n])" "g \<noteq> n"
    and src: "get fs s = Some T" "s \<parallel> p" and free: "get fs (p @ [n]) = None" "get fs (p @ [g]) = None"
  shows "ensures (stage_guard (abs_path (p @ [g])) root (andThen (copyAssetPath fuel umask (abs_path s) (abs_path (p @ [g]))) (\<lambda>_.
       andThen (requireAssetHash uni sha fuel (abs_path (p @ [g])) h) (\<lambda>_. sys (Rename (abs_path (p @ [g])) (abs_path (p @ [n]))))))) fs
    (\<lambda>r fs'. near p fs fs' \<and> (r = Inr () \<longrightarrow> get fs' (p @ [n]) = Some T))"
proof (rule ensures_stage_guard)
  let ?g = "p @ [g]" and ?d = "p @ [n]"
  let ?Q = "\<lambda>fs r fs'. near p fs fs' \<and> (r = Inr () \<longrightarrow> get fs' ?d = Some T)"
  fix e fs2 assume "?Q fs (Inl e) fs2"
  then have q: "near p fs fs2" by simp
  show "ensures (removeAssetPathIfExists (abs_path ?g) root) fs2 (\<lambda>r. ?Q fs (Inl e))"
    by (rule ensures_weaken [OF removeIfExists_near [OF nm(2)]]) (use q near_trans [OF q] in \<open>auto simp: near_def\<close>)
next
  let ?g = "p @ [g]" and ?d = "p @ [n]"
  let ?Q = "\<lambda>fs r fs'. near p fs fs' \<and> (r = Inr () \<longrightarrow> get fs' ?d = Some T)"
  have spar: "s \<parallel> ?g" using parallel_extend(1) [OF src(2)] .
  show "ensures (andThen (copyAssetPath fuel umask (abs_path s) (abs_path ?g)) (\<lambda>_.
     andThen (requireAssetHash uni sha fuel (abs_path ?g) h) (\<lambda>_. sys (Rename (abs_path ?g) (abs_path ?d))))) fs (?Q fs)"
  proof (rule ensures_andThen [OF copyAssetPath_effect [OF w(1) nm(1,2) src(1) w(2) free(2) spar]])
    fix e fs2 assume "copied T ?g fs fs2 (Inl e)"
    then show "?Q fs (Inl e) fs2" using near_confined [OF copied_confined w(1,2) nm(2)] by simp
  next
    fix u fs2 assume c: "copied T ?g fs fs2 (Inr u)"
    have n2: "near p fs fs2" using near_confined [OF copied_confined [OF c] w(1,2) nm(2)] .
    have fs2: "fs2 = set_at fs ?g (Some T)" using c by (auto simp: copied_def)
    have g2: "get fs2 ?g = Some T" "get fs2 ?d = None" using get_set_same [OF w(2)] sibling_set_at [OF nm(4)] free(1) by (simp_all add: fs2)
    have n2': "wf_node fs2" "is_dir (get fs2 p)" using n2 by (simp_all add: near_def)
    have "ensures (sys (Rename (abs_path ?g) (abs_path ?d))) fs2 (?Q fs)"
      by (rule ensures_sys, drule Rename_effect [OF _ nm(2,3) n2' nm(4) g2]) (use near_trans [OF n2] in \<open>auto simp: map_sum_def split: sum.splits\<close>)
    then show "ensures (andThen (requireAssetHash uni sha fuel (abs_path ?g) h) (\<lambda>_. sys (Rename (abs_path ?g) (abs_path ?d)))) fs2 (?Q fs)"
      by (intro ensures_andThen [OF ensures_reads_only [OF reads_requireAssetHash]]) (use n2 in simp_all)
  qed
qed

lemma publish_copy_effect:
  assumes fs: "wf_node fs" "is_dir (get fs p)" and nm: "names s" "names (p @ [g])" "names (p @ [n])" "g \<noteq> n"
    and src: "get fs s = Some T" "s \<parallel> p" and free: "get fs (p @ [n]) = None"
  shows "ensures (publish_copy uni sha fuel umask (abs_path s) (abs_path (p @ [g])) (abs_path (p @ [n])) root h) fs
    (\<lambda>r fs'. near p fs fs' \<and> (r = Inr () \<longrightarrow> get fs' (p @ [n]) = Some T))"
proof -
  let ?g = "p @ [g]" and ?d = "p @ [n]"
  let ?Q = "\<lambda>fs r fs'. near p fs fs' \<and> (r = Inr () \<longrightarrow> get fs' ?d = Some T)"
  show ?thesis unfolding publish_copy_def
  proof (rule ensures_andThen)
    show "ensures (assetPathExists (abs_path ?g)) fs (\<lambda>r fs'. fs' = fs \<and> (\<forall>b. r = Inr b \<longrightarrow> (b \<longleftrightarrow> get fs ?g \<noteq> None)))"
      by (rule ensuresI) (use reads_D [OF reads_assetPathExists] assetPathExists_False [OF _ nm(2) fs(2)] in blast)
  next
    fix b fs1 assume b: "fs1 = fs \<and> (\<forall>b'. Inr b = Inr b' \<longrightarrow> (b' \<longleftrightarrow> get fs ?g \<noteq> None))"
    have "ensures (if b then removeAssetPath (abs_path ?g) root else qreturn ()) fs (\<lambda>r fs'. removed ?g fs fs' r)"
      using removeAssetPath_effect [OF nm(2) fs] b set_at_same [OF fs, of g]
      by (auto intro!: ensures_return simp: removed_def intro: exI [of _ None])
    then show "ensures (andThen (if b then removeAssetPath (abs_path ?g) root else qreturn ()) (\<lambda>_. stage_guard (abs_path ?g) root
       (andThen (copyAssetPath fuel umask (abs_path s) (abs_path ?g)) (\<lambda>_.
        andThen (requireAssetHash uni sha fuel (abs_path ?g) h) (\<lambda>_. sys (Rename (abs_path ?g) (abs_path ?d))))))) fs1 (?Q fs)"
      unfolding conjunct1 [OF b]
    proof (rule ensures_andThen)
      fix e fs2 assume "removed ?g fs fs2 (Inl e)"
      then show "?Q fs (Inl e) fs2" using near_confined [OF removed_confined fs nm(2)] by simp
    next
      fix u fs2 assume r: "removed ?g fs fs2 (Inr u)"
      have n2: "near p fs fs2" using near_confined [OF removed_confined [OF r] fs nm(2)] .
      have fs2: "fs2 = set_at fs ?g None" using r by (auto simp: removed_def)
      have g: "get fs2 ?g = None" "get fs2 ?d = None" using get_set_same [OF fs(2)] sibling_set_at [OF nm(4)] free by (simp_all add: fs2)
      have "get fs2 s = Some T" "wf_node fs2" "is_dir (get fs2 p)" using n2 src by (simp_all add: near_def)
      note st = guarded_copy_effect [OF this(2,3) nm this(1) src(2) g(2,1)]
      show "ensures (stage_guard (abs_path ?g) root (andThen (copyAssetPath fuel umask (abs_path s) (abs_path ?g)) (\<lambda>_.
        andThen (requireAssetHash uni sha fuel (abs_path ?g) h) (\<lambda>_. sys (Rename (abs_path ?g) (abs_path ?d)))))) fs2 (?Q fs)"
        by (rule ensures_weaken [OF st]) (use near_trans [OF n2] in simp)
    qed
  qed (use near_refl [OF fs] in simp)
qed

end
