(* ===== verification/Enforce_QuarantineSafety.thy ===== *)
theory Enforce_QuarantineSafety
  imports Enforce_QuarantineMove
begin

text \<open>
  The safety of the two transactions, with any system call failing at any point: the asset is never lost, a success moves it, nothing
  outside the two places changes, and a restore undoes a quarantine.
\<close>

subsection \<open>What a transaction keeps\<close>

text \<open>
  \<open>T\<close> is the tree at the source \<open>s\<close> before the transaction, \<open>x\<close> the one that is expected at the destination: \<open>T\<close> itself, or
  what an earlier attempt left there.
\<close>

definition kept :: "(string \<Rightarrow> string) \<Rightarrow> string list \<Rightarrow> string \<Rightarrow> string list \<Rightarrow> string \<Rightarrow> node \<Rightarrow> node \<Rightarrow> node \<Rightarrow> node \<Rightarrow> (quarantine_error + unit) \<Rightarrow> bool" where
  "kept sha sp sn dp dn T x fs fs' r \<longleftrightarrow>
     wf_node fs' \<and>
     (\<forall>q. q \<parallel> sp @ [sn] \<longrightarrow> q \<parallel> dp \<longrightarrow> get fs' q = get fs q) \<and>
     (get fs' (sp @ [sn]) = Some T \<or> get fs' (dp @ [dn]) = Some x \<and> tree_digest sha x = tree_digest sha T) \<and>
     (r = Inr () \<longrightarrow> get fs' (sp @ [sn]) = None \<and> get fs' (dp @ [dn]) = Some x \<and> tree_digest sha x = tree_digest sha T \<and> is_dir (get fs' sp))"

text \<open>The states before the removal: the source is in place.\<close>

definition intact :: "string list \<Rightarrow> string list \<Rightarrow> node \<Rightarrow> node \<Rightarrow> node \<Rightarrow> bool" where
  "intact s dp T fs fs' \<longleftrightarrow> wf_node fs' \<and> (\<forall>q. q \<parallel> s \<longrightarrow> q \<parallel> dp \<longrightarrow> get fs' q = get fs q) \<and> get fs' s = Some T"

lemma intact_kept: "intact (sp @ [sn]) dp T fs fs' \<Longrightarrow> kept sha sp sn dp dn T x fs fs' (Inl e)"
  by (simp add: intact_def kept_def)

lemma intact_refl: "wf_node fs \<Longrightarrow> get fs s = Some T \<Longrightarrow> intact s dp T fs fs"
  by (simp add: intact_def)

lemma not_prefix_parallel: "q \<parallel> p \<Longrightarrow> \<not> prefix q p"
  by (simp add: parallel_def)

lemma intact_made: "made dp fs fs' \<Longrightarrow> get fs s = Some T \<Longrightarrow> s \<parallel> dp \<Longrightarrow> intact s dp T fs fs'"
  by (simp add: intact_def made_def not_prefix_parallel)

lemma intact_near: "intact s dp T fs fs1 \<Longrightarrow> near dp fs1 fs' \<Longrightarrow> s \<parallel> dp \<Longrightarrow> intact s dp T fs fs'"
  by (simp add: intact_def near_def)

lemma remove_source:
  assumes "intact (sp @ [sn]) dp T fs fs1" "names (sp @ [sn])" "sp @ [sn] \<parallel> dp @ [dn]" "get fs1 (dp @ [dn]) = Some x" "tree_digest sha x = tree_digest sha T"
  shows "ensures (removeAssetPath (abs_path (sp @ [sn])) root) fs1 (\<lambda>r fs'. kept sha sp sn dp dn T x fs fs' r)"
proof -
  let ?s = "sp @ [sn]" and ?d = "dp @ [dn]"
  have wf: "wf_node fs1" and src: "get fs1 ?s = Some T" and frame: "\<And>q. q \<parallel> ?s \<Longrightarrow> q \<parallel> dp \<Longrightarrow> get fs1 q = get fs q"
    using assms(1) by (simp_all add: intact_def)
  have dir: "is_dir (get fs1 sp)" using get_parent [of fs1 sp sn "[]"] src by simp
  show ?thesis
  proof (rule ensures_weaken [OF removeAssetPath_effect [OF assms(2) wf dir]])
    fix r fs' assume r: "removed ?s fs1 fs' r"
    note c = removed_confined [OF r]
    have "get fs' q = get fs q" if "q \<parallel> ?s" "q \<parallel> dp" for q
      using confined_other [OF c] frame [OF that] that(1) by (simp add: parallel_commute)
    moreover have "get fs' ?d = Some x" using confined_other [OF c assms(3)] assms(4) by simp
    moreover have "r = Inr () \<longrightarrow> get fs' ?s = None" using removed_gone [OF _ dir] r by blast
    ultimately show "kept sha sp sn dp dn T x fs fs' r"
      using confined_wf [OF c wf assms(2)] confined_parent [OF c dir] assms(5) by (simp add: kept_def)
  qed
qed

lemma verified_remove:
  assumes "intact (sp @ [sn]) dp T fs fs1" "asset_path sp sn" "sp @ [sn] \<parallel> dp @ [dn]" "get fs1 (dp @ [dn]) = Some x"
    and "tree_digest sha x = Some (ToLower uni (TrimSpace h))"
  shows "ensures (andThen (requireAssetHash uni sha fuel (abs_path (sp @ [sn])) h) (\<lambda>_. removeAssetPath (abs_path (sp @ [sn])) root)) fs1
    (\<lambda>r fs'. kept sha sp sn dp dn T x fs fs' r)"
proof (rule ensures_andThen)
  have wf: "wf_node fs1" "get fs1 (sp @ [sn]) = Some T" using assms(1) by (simp_all add: intact_def)
  show "ensures (requireAssetHash uni sha fuel (abs_path (sp @ [sn])) h) fs1
      (\<lambda>r fs'. fs' = fs1 \<and> (r = Inr () \<longrightarrow> tree_digest sha T = Some (ToLower uni (TrimSpace h))))"
    by (rule ensuresI) (use reads_D [OF reads_requireAssetHash] requireAssetHash_Inr [OF assms(2) wf] in blast)
next
  fix u fs2 assume "fs2 = fs1 \<and> (Inr u = Inr () \<longrightarrow> tree_digest sha T = Some (ToLower uni (TrimSpace h)))"
  then have h: "fs2 = fs1" "tree_digest sha x = tree_digest sha T" using assms(5) by simp_all
  have "names (sp @ [sn])" using assms(2) by (simp add: asset_path_def)
  from remove_source [OF assms(1) this assms(3,4) h(2)]
  show "ensures (removeAssetPath (abs_path (sp @ [sn])) root) fs2 (\<lambda>r fs'. kept sha sp sn dp dn T x fs fs' r)" by (simp add: h(1))
qed (use intact_kept [OF assms(1)] in simp)

text \<open>The branch in which the destination is not there yet.\<close>

definition fresh_move :: "unicode_map \<Rightarrow> (string \<Rightarrow> string) \<Rightarrow> nat \<Rightarrow> perm \<Rightarrow> string \<Rightarrow> string \<Rightarrow> string \<Rightarrow> string \<Rightarrow> string \<Rightarrow> string \<Rightarrow> unit qio" where
  "fresh_move uni sha fuel umask source stage destination root sourceRoot hash =
     andThen (requireAssetHash uni sha fuel source hash) (\<lambda>_.
     andThen (ensureContainedDirectory umask (path_Dir destination) root) (\<lambda>_.
     andThen (qcheck (pathWithin stage root False) QEscaped) (\<lambda>_.
     andThen (publish_copy uni sha fuel umask source stage destination root hash) (\<lambda>_.
     verify_and_remove uni sha fuel destination source sourceRoot hash))))"

lemma fresh_move_kept:
  assumes fs: "wf_node fs" "get fs (sp @ [sn]) = Some T" "get fs (dp @ [dn]) = None" "link_free fs dp"
    and nm: "asset_path sp sn" "asset_path dp dn" "path_name g" "g \<noteq> dn" and par: "sp @ [sn] \<parallel> dp"
  shows "ensures (fresh_move uni sha fuel umask (abs_path (sp @ [sn])) (abs_path (dp @ [g])) (abs_path (dp @ [dn])) root sourceRoot h) fs
    (\<lambda>r fs'. kept sha sp sn dp dn T T fs fs' r)"
proof -
  let ?s = "sp @ [sn]" and ?d = "dp @ [dn]" and ?K = "\<lambda>r fs'. kept sha sp sn dp dn T T fs fs' r"
  have ns: "names ?s" "names ?d" "names dp" "names (dp @ [g])" using nm by (simp_all add: asset_path_def)
  have sd: "?s \<parallel> ?d" using parallel_extend(1) [OF par] .
  have root: "is_dir (get fs [])" using is_dir_prefix [of fs "[]" ?s T] fs(2) by simp
  have last: "ensures (verify_and_remove uni sha fuel (abs_path ?d) (abs_path ?s) sourceRoot h) fs1 ?K"
    if i: "intact ?s dp T fs fs1" and d: "get fs1 ?d = Some T" for fs1 unfolding verify_and_remove_def
  proof (rule ensures_andThen)
    have "wf_node fs1" using i by (simp add: intact_def)
    then show "ensures (requireAssetHash uni sha fuel (abs_path ?d) h) fs1
        (\<lambda>r fs'. fs' = fs1 \<and> (r = Inr () \<longrightarrow> tree_digest sha T = Some (ToLower uni (TrimSpace h))))"
      by (intro ensuresI) (use reads_D [OF reads_requireAssetHash] requireAssetHash_Inr [OF nm(2) _ d] in blast)
  qed (use verified_remove [OF i nm(1) sd d] intact_kept [OF i] in simp_all)
  have publish: "ensures (andThen (publish_copy uni sha fuel umask (abs_path ?s) (abs_path (dp @ [g])) (abs_path ?d) root h) (\<lambda>_.
      verify_and_remove uni sha fuel (abs_path ?d) (abs_path ?s) sourceRoot h)) fs1 ?K"
    if i: "intact ?s dp T fs fs1" and dir: "is_dir (get fs1 dp)" and free: "get fs1 ?d = None" for fs1
  proof (rule ensures_andThen)
    have "wf_node fs1" "get fs1 ?s = Some T" using i by (simp_all add: intact_def)
    then show "ensures (publish_copy uni sha fuel umask (abs_path ?s) (abs_path (dp @ [g])) (abs_path ?d) root h) fs1
        (\<lambda>r fs'. near dp fs1 fs' \<and> (r = Inr () \<longrightarrow> get fs' ?d = Some T))"
      by (intro publish_copy_effect [OF _ dir ns(1,4,2) nm(4) _ par free])
  qed (use last intact_kept intact_near [OF i _ par] in simp_all)
  have "ensures (andThen (ensureContainedDirectory umask (path_Dir (abs_path ?d)) root) (\<lambda>_.
      andThen (qcheck (pathWithin (abs_path (dp @ [g])) root False) QEscaped) (\<lambda>_.
      andThen (publish_copy uni sha fuel umask (abs_path ?s) (abs_path (dp @ [g])) (abs_path ?d) root h) (\<lambda>_.
      verify_and_remove uni sha fuel (abs_path ?d) (abs_path ?s) sourceRoot h)))) fs ?K"
  proof (rule ensures_andThen)
    show "ensures (ensureContainedDirectory umask (path_Dir (abs_path ?d)) root) fs (\<lambda>r fs'. made dp fs fs' \<and> (r = Inr () \<longrightarrow> is_dir (get fs' dp)))"
      using ensureContainedDirectory_effect [OF fs(1) ns(3) fs(4) root] ns(2) by simp
  next
    fix u fs1 assume m: "made dp fs fs1 \<and> (Inr u = Inr () \<longrightarrow> is_dir (get fs1 dp))"
    have i: "intact ?s dp T fs fs1" using intact_made [OF conjunct1 [OF m] fs(2) par] .
    have free: "get fs1 ?d = None" using m fs(3) by (simp add: made_def)
    show "ensures (andThen (qcheck (pathWithin (abs_path (dp @ [g])) root False) QEscaped) (\<lambda>_.
      andThen (publish_copy uni sha fuel umask (abs_path ?s) (abs_path (dp @ [g])) (abs_path ?d) root h) (\<lambda>_.
      verify_and_remove uni sha fuel (abs_path ?d) (abs_path ?s) sourceRoot h))) fs1 ?K"
      by (rule ensures_andThen [OF ensures_qcheck]) (use intact_kept [OF i] publish [OF i _ free] m in simp_all)
  qed (use intact_kept intact_made [OF _ fs(2) par] in simp)
  then show ?thesis unfolding fresh_move_def
    by (intro ensures_andThen [OF ensures_reads_only [OF reads_requireAssetHash]]) (use intact_kept [OF intact_refl [OF fs(1,2)]] in simp_all)
qed

text \<open>A verified destination, then whatever verifies and removes the source.\<close>

lemma after_destination:
  assumes fs: "wf_node fs" "get fs (sp @ [sn]) = Some T" "get fs (dp @ [dn]) = Some x" and nm: "asset_path dp dn"
    and rest: "tree_digest sha x = Some (ToLower uni (TrimSpace h)) \<Longrightarrow> ensures m fs (\<lambda>r fs'. kept sha sp sn dp dn T x fs fs' r)"
  shows "ensures (andThen (requireAssetHash uni sha fuel (abs_path (dp @ [dn])) h) (\<lambda>_. m)) fs (\<lambda>r fs'. kept sha sp sn dp dn T x fs fs' r)"
proof (rule ensures_andThen)
  show "ensures (requireAssetHash uni sha fuel (abs_path (dp @ [dn])) h) fs
      (\<lambda>r fs'. fs' = fs \<and> (r = Inr () \<longrightarrow> tree_digest sha x = Some (ToLower uni (TrimSpace h))))"
    by (rule ensuresI) (use reads_D [OF reads_requireAssetHash] requireAssetHash_Inr [OF nm fs(1,3)] in blast)
qed (use rest intact_kept [OF intact_refl [OF fs(1,2)]] in simp_all)

lemma ensures_exists:
  assumes "names p" "link_free fs p"
  shows "ensures (assetPathExists (abs_path p)) fs (\<lambda>r fs'. fs' = fs \<and> (\<forall>b. r = Inr b \<longrightarrow> b = (get fs p \<noteq> None)))"
  by (rule ensuresI) (use reads_D [OF reads_assetPathExists] assetPathExists_link_free [OF _ assms] in blast)

lemma link_free_there:
  assumes "get fs p = Some x" "no_link (Some x)"
  shows "link_free fs p"
  unfolding link_free_def
proof (intro allI impI)
  fix q assume "prefix q p"
  then obtain ks where p: "p = q @ ks" by (auto elim: prefixE)
  show "no_link (get fs q)"
  proof (cases ks)
    case Nil
    then show ?thesis using assms p by simp
  next
    case (Cons k kt)
    then have "is_dir (get fs q)" using get_parent assms(1) p by blast
    then show ?thesis by (auto simp: is_dir_def no_link_def)
  qed
qed

lemma safePathSegment_trimmed: "safePathSegment n \<Longrightarrow> TrimSpace n = n"
  by (simp add: safePathSegment_def)

lemma safePathSegment_name: "safePathSegment n \<Longrightarrow> path_name n"
  by (auto simp: safePathSegment_def path_name_def list_all_iff)

lemma path_name_suffix: "path_name n \<Longrightarrow> safePathSegment rec \<Longrightarrow> path_name (n @ ''.pending-'' @ rec)"
  by (auto simp: safePathSegment_def path_name_def list_all_iff Cons_eq_append_conv append_eq_Cons_conv)

lemma path_name_restore: "safePathSegment rec \<Longrightarrow> path_name (''.defenseclaw-restore-'' @ rec)"
  by (auto simp: safePathSegment_def path_name_def list_all_iff)

lemma valid_plan:
  assumes "validateQuarantinePlan uni plan = None" "qp_SourcePath plan = abs_path (sp @ [sn])" "qp_QuarantinePath plan = abs_path (dp @ [dn])"
    and "qp_QuarantineRoot plan = abs_path rp" "names (sp @ [sn])" "names (dp @ [dn])" "names rp"
  shows "asset_path sp sn" "asset_path dp dn" "prefix rp dp" "sn = dn"
proof -
  have "safePathSegment (qp_TargetName plan)" "sn = qp_TargetName plan" "dn = qp_TargetName plan"
    using assms by (auto simp: validateQuarantinePlan_def split: if_splits)
  then show "asset_path sp sn" "asset_path dp dn" "sn = dn" using assms(5,6) safePathSegment_trimmed by (simp_all add: asset_path_def)
  have "pathWithin (abs_path (dp @ [dn])) (abs_path rp) False" using assms(1,3,4) by (auto simp: validateQuarantinePlan_def split: if_splits)
  then have "strict_prefix rp (dp @ [dn])" using pathWithin_strict assms(6,7) by blast
  then show "prefix rp dp" by (auto simp: strict_prefix_def prefix_snoc)
qed

lemma quarantine_kept:
  assumes fs: "wf_node fs" "get fs (sp @ [sn]) = Some T" "link_free fs (dp @ [dn])"
    and plan: "qp_SourcePath plan = abs_path (sp @ [sn])" "qp_QuarantinePath plan = abs_path (dp @ [dn])" "qp_QuarantineRoot plan = abs_path rp"
    and nm: "names (sp @ [sn])" "names (dp @ [dn])" "names rp" and par: "sp @ [sn] \<parallel> rp"
  shows "ensures (ExecuteAssetQuarantine uni sha fuel umask plan recordID) fs
    (\<lambda>r fs'. kept sha sp sn dp dn T (case get fs (dp @ [dn]) of None \<Rightarrow> T | Some y \<Rightarrow> y) fs fs' r)"
proof (cases "validateQuarantinePlan uni plan = None \<and> safePathSegment recordID")
  case False
  note stay = intact_kept [OF intact_refl [OF fs(1,2)]]
  have "ensures (ExecuteAssetQuarantine uni sha fuel umask plan recordID) fs (\<lambda>r fs'. \<exists>e. r = Inl e \<and> fs' = fs)"
    using False by (auto simp: ExecuteAssetQuarantine_def ensures_def qfail_def qcheck_def andThen_def Let_def split: option.splits)
  then show ?thesis by (rule ensures_weaken) (use stay in blast)
next
  case True
  let ?s = "sp @ [sn]" and ?d = "dp @ [dn]" and ?h = "qp_ContentHash plan"
  let ?K = "\<lambda>r fs'. kept sha sp sn dp dn T (case get fs (dp @ [dn]) of None \<Rightarrow> T | Some y \<Rightarrow> y) fs fs' r"
  note v = valid_plan [OF conjunct1 [OF True] plan nm]
  note stay = intact_kept [OF intact_refl [OF fs(1,2)]]
  have sdp: "?s \<parallel> dp" using v(3) par parallel_extend(1) by (auto elim: prefixE)
  have sd: "?s \<parallel> ?d" using parallel_extend(1) [OF sdp] .
  have dir: "is_dir (get fs sp)" using get_parent [of fs sp sn "[]"] fs(2) by simp
  let ?g = "dn @ ''.pending-'' @ recordID"
  have stage: "abs_path ?d @ ''.pending-'' @ recordID = abs_path (dp @ [?g])" by (simp add: abs_path_snoc)
  have g: "path_name ?g" "?g \<noteq> dn" using path_name_suffix True nm(2) by simp_all
  have fresh: "ensures (fresh_move uni sha fuel umask (abs_path ?s) (abs_path (dp @ [?g])) (abs_path ?d) (abs_path rp) (qp_SourceRoot plan) ?h) fs ?K"
    if "get fs ?d = None"
    using fresh_move_kept [OF fs(1,2) that link_free_prefix [OF fs(3)] v(1,2) g sdp] that by simp
  have existing: "ensures (andThen (requireAssetHash uni sha fuel (abs_path ?d) ?h) (\<lambda>_. andThen (assetPathExists (abs_path ?s)) (\<lambda>sourceExists.
      if \<not> sourceExists then qreturn ()
      else andThen (requireAssetHash uni sha fuel (abs_path ?s) ?h) (\<lambda>_. removeAssetPath (abs_path ?s) (qp_SourceRoot plan))))) fs ?K"
    if x: "get fs ?d = Some x" for x
  proof -
    have "ensures (assetPathExists (abs_path ?s)) fs (\<lambda>r fs'. fs' = fs \<and> (\<forall>b. r = Inr b \<longrightarrow> b))"
      by (rule ensuresI) (use reads_D [OF reads_assetPathExists] assetPathExists_False [OF _ nm(1) dir] fs(2) in blast)
    then have "ensures (andThen (assetPathExists (abs_path ?s)) (\<lambda>sourceExists.
      if \<not> sourceExists then qreturn ()
      else andThen (requireAssetHash uni sha fuel (abs_path ?s) ?h) (\<lambda>_. removeAssetPath (abs_path ?s) (qp_SourceRoot plan)))) fs (\<lambda>r fs'. kept sha sp sn dp dn T x fs fs' r)"
      if "tree_digest sha x = Some (ToLower uni (TrimSpace ?h))"
      by (rule ensures_andThen) (use stay verified_remove [OF intact_refl [OF fs(1,2)] v(1) sd x that] in simp_all)
    then show ?thesis using after_destination [OF fs(1,2) x v(2)] x by simp
  qed
  have "ensures (andThen (assetPathExists (abs_path ?d)) (\<lambda>destinationExists.
      if destinationExists then
        andThen (requireAssetHash uni sha fuel (abs_path ?d) ?h) (\<lambda>_. andThen (assetPathExists (abs_path ?s)) (\<lambda>sourceExists.
        if \<not> sourceExists then qreturn ()
        else andThen (requireAssetHash uni sha fuel (abs_path ?s) ?h) (\<lambda>_. removeAssetPath (abs_path ?s) (qp_SourceRoot plan))))
      else fresh_move uni sha fuel umask (abs_path ?s) (abs_path (dp @ [?g])) (abs_path ?d) (abs_path rp) (qp_SourceRoot plan) ?h)) fs ?K"
    by (rule ensures_andThen [OF ensures_exists [OF nm(2) fs(3)]]) (use stay existing fresh in auto)
  moreover have "andThen (qcheck (safePathSegment recordID) QInvalidRecord) f = f ()" for f :: "unit \<Rightarrow> unit qio"
    using True by (auto simp: andThen_def qcheck_def qreturn_def)
  ultimately show ?thesis using conjunct1 [OF True] unfolding ExecuteAssetQuarantine_def fresh_move_def Let_def plan stage by simp
qed

subsection \<open>Restoring\<close>

lemma roots_loop_path: "roots_loop path allowEqual roots = Inr (p, root) \<Longrightarrow> p = path"
  by (induction path allowEqual roots rule: roots_loop.induct) (auto split: if_splits)

lemma pathWithinRoots_path: "pathWithinRoots path roots allowEqual = Inr (p, root) \<Longrightarrow> p = path_Clean (TrimSpace path)"
  by (auto simp: pathWithinRoots_def dest: roots_loop_path split: if_splits)

lemma of_result_Inr: "of_result r w = (w', Inr x) \<longleftrightarrow> w' = w \<and> r = Inr x"
  by (cases r) (auto simp: of_result_def qreturn_def qfail_def)

lemma reads_normalize [reads_intros]: "reads (normalizeRestorePlan uni plan)"
  unfolding normalizeRestorePlan_def Let_def by (auto intro!: reads_intros)

lemma normalize_Inr:
  assumes "normalizeRestorePlan uni plan w = (w', Inr (plan', root))"
  shows "safePathSegment (rp_RecordID plan) \<and> rp_RecordID plan' = rp_RecordID plan \<and>
    rp_QuarantinePath plan' = path_Clean (TrimSpace (rp_QuarantinePath plan)) \<and> rp_RestorePath plan' = path_Clean (TrimSpace (rp_RestorePath plan))"
  using assms pathWithinRoots_path
  by (auto simp: normalizeRestorePlan_def Let_def andThen_Inr qcheck_Inr of_result_Inr qreturn_Inr split: prod.splits)

lemma asset_path_normal: "asset_path p n \<Longrightarrow> path_Clean (TrimSpace (abs_path (p @ [n]))) = abs_path (p @ [n])"
  by (simp add: asset_path_def TrimSpace_abs path_name_def)

text \<open>The part after the normalization.\<close>

lemma restore_body_kept:
  assumes fs: "wf_node fs" "get fs (qp @ [qn]) = Some T" "link_free fs (sp @ [sn])" "no_link (Some T)"
    and nm: "asset_path qp qn" "asset_path sp sn" and par: "qp @ [qn] \<parallel> sp" and g: "path_name g" "g \<noteq> sn"
  shows "ensures (andThen (assetPathExists (abs_path (qp @ [qn]))) (\<lambda>quarantineExists.
     andThen (assetPathExists (abs_path (sp @ [sn]))) (\<lambda>restoreExists.
     if restoreExists then
       andThen (requireAssetHash uni sha fuel (abs_path (sp @ [sn])) h) (\<lambda>_.
       if quarantineExists then
         andThen (requireAssetHash uni sha fuel (abs_path (qp @ [qn])) h) (\<lambda>_. removeAssetPath (abs_path (qp @ [qn])) root)
       else qreturn ())
     else if \<not> quarantineExists then qfail QMissing
     else fresh_move uni sha fuel umask (abs_path (qp @ [qn])) (abs_path (sp @ [g])) (abs_path (sp @ [sn])) restoreRoot root h))) fs
   (\<lambda>r fs'. kept sha qp qn sp sn T (case get fs (sp @ [sn]) of None \<Rightarrow> T | Some y \<Rightarrow> y) fs fs' r)" (is "ensures _ _ ?K")
proof -
  let ?q = "qp @ [qn]" and ?s = "sp @ [sn]"
  note stay = intact_kept [OF intact_refl [OF fs(1,2)]]
  have ns: "names ?q" "names ?s" using nm by (simp_all add: asset_path_def)
  have qs: "?q \<parallel> ?s" using parallel_extend(1) [OF par] .
  have fresh: "ensures (fresh_move uni sha fuel umask (abs_path ?q) (abs_path (sp @ [g])) (abs_path ?s) restoreRoot root h) fs ?K" if "get fs ?s = None"
    using fresh_move_kept [OF fs(1,2) that link_free_prefix [OF fs(3)] nm g par] that by simp
  have existing: "ensures (andThen (requireAssetHash uni sha fuel (abs_path ?s) h) (\<lambda>_.
         andThen (requireAssetHash uni sha fuel (abs_path ?q) h) (\<lambda>_. removeAssetPath (abs_path ?q) root))) fs ?K" if x: "get fs ?s = Some x" for x
    using after_destination [OF fs(1,2) x nm(2)] verified_remove [OF intact_refl [OF fs(1,2)] nm(1) qs x] x by simp
  have "ensures (andThen (assetPathExists (abs_path ?s)) (\<lambda>restoreExists.
     if restoreExists then
       andThen (requireAssetHash uni sha fuel (abs_path ?s) h) (\<lambda>_.
         andThen (requireAssetHash uni sha fuel (abs_path ?q) h) (\<lambda>_. removeAssetPath (abs_path ?q) root))
     else fresh_move uni sha fuel umask (abs_path ?q) (abs_path (sp @ [g])) (abs_path ?s) restoreRoot root h)) fs ?K"
    by (rule ensures_andThen [OF ensures_exists [OF ns(2) fs(3)]]) (use stay existing fresh in auto)
  then show ?thesis
    by (intro ensures_andThen [OF ensures_exists [OF ns(1) link_free_there [OF fs(2,4)]]]) (use stay fs(2) in simp_all)
qed

lemma restore_kept:
  assumes fs: "wf_node fs" "get fs (qp @ [qn]) = Some T" "link_free fs (sp @ [sn])" "no_link (Some T)"
    and plan: "rp_QuarantinePath plan0 = abs_path (qp @ [qn])" "rp_RestorePath plan0 = abs_path (sp @ [sn])"
    and nm: "asset_path qp qn" "asset_path sp sn" and par: "qp @ [qn] \<parallel> sp" and sg: "sn \<noteq> ''.defenseclaw-restore-'' @ rp_RecordID plan0"
  shows "ensures (ExecuteAssetRestore uni sha fuel umask plan0) fs
    (\<lambda>r fs'. kept sha qp qn sp sn T (case get fs (sp @ [sn]) of None \<Rightarrow> T | Some y \<Rightarrow> y) fs fs' r)"
  unfolding ExecuteAssetRestore_def
proof (rule ensures_andThen)
  let ?q = "qp @ [qn]" and ?s = "sp @ [sn]" and ?K = "\<lambda>r fs'. kept sha qp qn sp sn T (case get fs (sp @ [sn]) of None \<Rightarrow> T | Some y \<Rightarrow> y) fs fs' r"
  note stay = intact_kept [OF intact_refl [OF fs(1,2)]]
  let ?N = "\<lambda>r fs'. fs' = fs \<and> (\<forall>(plan :: AssetRestorePlan) root. r = Inr (plan, root) \<longrightarrow> path_name (''.defenseclaw-restore-'' @ rp_RecordID plan) \<and>
      rp_RecordID plan = rp_RecordID plan0 \<and> rp_QuarantinePath plan = abs_path ?q \<and> rp_RestorePath plan = abs_path ?s)"
  show "ensures (normalizeRestorePlan uni plan0) fs ?N"
  proof (rule ensuresI)
    fix faults fs' faults' r
    assume n: "normalizeRestorePlan uni plan0 (fs, faults) = ((fs', faults'), r)"
    then have "fs' = fs" by (rule reads_D [OF reads_normalize])
    moreover have "path_name (''.defenseclaw-restore-'' @ rp_RecordID plan) \<and> rp_RecordID plan = rp_RecordID plan0 \<and>
        rp_QuarantinePath plan = abs_path ?q \<and> rp_RestorePath plan = abs_path ?s" if "r = Inr (plan, root)" for plan root
      using normalize_Inr [OF n [unfolded that]] path_name_restore asset_path_normal [OF nm(1)] asset_path_normal [OF nm(2)]
      unfolding plan by simp
    ultimately show "?N r fs'" by blast
  qed
  show "?K (Inl e) fs1" if "?N (Inl e) fs1" for e fs1 using that stay by simp
  fix x :: "AssetRestorePlan \<times> string" and fs1 assume a: "?N (Inr x) fs1"
  obtain plan root where x: "x = (plan, root)" by fastforce
  have p: "path_name (''.defenseclaw-restore-'' @ rp_RecordID plan)" "rp_RecordID plan = rp_RecordID plan0"
    "rp_QuarantinePath plan = abs_path ?q" "rp_RestorePath plan = abs_path ?s" "fs1 = fs"
    using conjunct1 [OF a] conjunct2 [OF a, THEN spec, of plan, THEN spec, of root, THEN mp] x by iprover+
  let ?g = "''.defenseclaw-restore-'' @ rp_RecordID plan"
  have g: "?g \<noteq> sn" using sg unfolding p(2) by (rule not_sym)
  have join: "path_Join [path_Dir (abs_path ?s), ?g] = abs_path (sp @ [?g])"
  proof -
    have ns: "names sp" "path_name sn" using nm(2) by (simp_all add: asset_path_def)
    show ?thesis unfolding path_Dir_abs [OF ns] by (rule path_Join_abs [OF ns(1) p(1)])
  qed
  show "ensures (case x of (plan, restoreRoot) \<Rightarrow>
     let quarantine = rp_QuarantinePath plan; restore = rp_RestorePath plan; root = rp_QuarantineRoot plan; hash = rp_ContentHash plan in
     andThen (assetPathExists quarantine) (\<lambda>quarantineExists.
     andThen (assetPathExists restore) (\<lambda>restoreExists.
     if restoreExists then
       andThen (requireAssetHash uni sha fuel restore hash) (\<lambda>_.
       if quarantineExists then
         andThen (requireAssetHash uni sha fuel quarantine hash) (\<lambda>_. removeAssetPath quarantine root)
       else qreturn ())
     else if \<not> quarantineExists then qfail QMissing
     else
       andThen (requireAssetHash uni sha fuel quarantine hash) (\<lambda>_.
       andThen (ensureContainedDirectory umask (path_Dir restore) restoreRoot) (\<lambda>_.
       let stage = path_Join [path_Dir restore, ''.defenseclaw-restore-'' @ rp_RecordID plan] in
       andThen (qcheck (pathWithin stage restoreRoot False) QEscaped) (\<lambda>_.
       andThen (publish_copy uni sha fuel umask quarantine stage restore restoreRoot hash) (\<lambda>_.
       verify_and_remove uni sha fuel restore quarantine root hash))))))) fs1 ?K"
    using restore_body_kept [OF fs nm par p(1) g] unfolding x prod.case Let_def p(3-5) join fresh_move_def .
qed

end
