(* ===== verification/Enforce_QuarantineTheorems.thy ===== *)
theory Enforce_QuarantineTheorems
  imports Enforce_QuarantineSafety
begin

text \<open>
  The properties of the quarantine, with a small file system on which they are applied: a skill \<open>/s/a\<close> with one file, and the quarantine
  root \<open>/q\<close>.
\<close>

definition demo_sha :: "string \<Rightarrow> string" where
  "demo_sha s = take 32 (s @ replicate 32 (CHR ''A''))"

definition demo_tree :: node where
  "demo_tree = Dir 0x1ED [(''f'', Reg 0x1A4 ''x'')]"

definition demo_fs :: node where
  "demo_fs = Dir 0x1ED [(''q'', Dir 0x1C0 []), (''s'', Dir 0x1ED [(''a'', demo_tree)])]"

definition demo_hash :: string where
  "demo_hash = hex_encode (demo_sha (the (tree_stream demo_tree)))"

definition demo_plan :: AssetQuarantinePlan where
  "demo_plan = \<lparr>qp_TargetType = ''skill'', qp_TargetName = ''a'', qp_Connector = [], qp_SourcePath = ''/s/a'', qp_SourceRoot = ''/s'',
     qp_QuarantineRoot = ''/q'', qp_QuarantinePath = ''/q/skills/a'', qp_ContentHash = demo_hash, qp_OwnershipJSON = ownership_marker 0x1ED\<rparr>"

definition demo_quarantined :: node where
  "demo_quarantined = Dir 0x1ED [(''q'', Dir 0x1C0 [(''skills'', Dir 0x1C0 [(''a'', demo_tree)])]), (''s'', Dir 0x1ED [])]"

definition demo_restore :: AssetRestorePlan where
  "demo_restore = \<lparr>rp_RecordID = ''r'', rp_TargetType = ''skill'', rp_TargetName = ''a'', rp_QuarantineRoot = ''/q'', rp_QuarantinePath = ''/q/skills/a'',
     rp_RestorePath = ''/s/a'', rp_AllowedRoots = [''/s''], rp_ContentHash = demo_hash\<rparr>"

definition demo_restored :: node where
  "demo_restored = Dir 0x1ED [(''q'', Dir 0x1C0 [(''skills'', Dir 0x1C0 [])]), (''s'', Dir 0x1ED [(''a'', demo_tree)])]"

lemma demo_run: "ExecuteAssetQuarantine plain_map demo_sha 3 0x12 demo_plan ''r'' (demo_fs, []) = ((demo_quarantined, []), Inr ())"
  by code_simp

lemma demo_back: "ExecuteAssetRestore plain_map demo_sha 3 0x12 demo_restore (demo_quarantined, []) = ((demo_restored, []), Inr ())"
  by code_simp

lemma demo_names: "names [''s'', ''a'']" "names [''q'', ''skills'', ''a'']" "names [''q'']" "asset_path [''q'', ''skills''] ''a''" "asset_path [''s''] ''a''"
  by (code_simp)+

lemma demo_places:
  "wf_node demo_fs" "get demo_fs [''s'', ''a''] = Some demo_tree" "get demo_fs [''q'', ''skills'', ''a''] = None"
  by (code_simp)+

lemma link_free_prefixes: "link_free fs p \<longleftrightarrow> (\<forall>q \<in> set (prefixes p). no_link (get fs q))"
  by (auto simp: link_free_def)

lemma demo_link_free: "link_free demo_fs [''q'', ''skills'', ''a'']"
  unfolding link_free_prefixes by (simp add: demo_fs_def no_link_def)

lemma demo_paths:
  "qp_SourcePath demo_plan = abs_path ([''s''] @ [''a''])" "qp_QuarantinePath demo_plan = abs_path ([''q'', ''skills''] @ [''a''])"
  "qp_QuarantineRoot demo_plan = abs_path [''q'']" "rp_QuarantinePath demo_restore = abs_path ([''q'', ''skills''] @ [''a''])"
  "rp_RestorePath demo_restore = abs_path ([''s''] @ [''a''])"
  by (simp_all add: demo_plan_def demo_restore_def abs_path_def)

subsection \<open>No loss\<close>

text \<open>
  C5. Suppose that neither the destination nor a directory on the way to it is a symbolic link, and that the source and the quarantine root
  are not within each other.  Then, whatever system calls of a quarantine fail, and if the process dies at any point (all later calls
  fail), the complete asset is at its source or a tree with the same identity is at the destination: the copy itself, byte for byte and
  with its permissions, or what was published there before.  If the call reports success, the source is gone and the destination is
  complete.  With a link on the way the only copy can be lost: see \<open>linked_destination_loses_asset\<close>.
\<close>

theorem quarantine_no_loss:
  assumes run: "ExecuteAssetQuarantine uni sha fuel umask plan recordID (fs, faults) = ((fs', faults'), r)"
    and plan: "qp_SourcePath plan = abs_path (sp @ [sn])" "qp_QuarantinePath plan = abs_path (dp @ [dn])" "qp_QuarantineRoot plan = abs_path rp"
    and names: "names (sp @ [sn])" "names (dp @ [dn])" "names rp"
    and before: "wf_node fs" "get fs (sp @ [sn]) = Some T" "link_free fs (dp @ [dn])" and apart: "sp @ [sn] \<parallel> rp"
    and x: "x = (case get fs (dp @ [dn]) of None \<Rightarrow> T | Some y \<Rightarrow> y)"
  shows "(get fs' (sp @ [sn]) = Some T \<or> get fs' (dp @ [dn]) = Some x \<and> tree_digest sha x = tree_digest sha T) \<and>
    (r = Inr () \<longrightarrow> get fs' (sp @ [sn]) = None \<and> get fs' (dp @ [dn]) = Some x \<and> tree_digest sha x = tree_digest sha T)"
  using ensuresD [OF quarantine_kept [OF before plan names apart] run] unfolding x kept_def by blast

theorem quarantine_no_loss_witness:
  "get demo_quarantined [''s'', ''a''] = None \<and> get demo_quarantined [''q'', ''skills'', ''a''] = Some demo_tree"
  using quarantine_no_loss [OF demo_run demo_paths(1-3), of demo_tree demo_tree] demo_names demo_places demo_link_free by (simp add: parallel_def)

text \<open>
  A quarantine changes nothing outside the asset and the directory of its destination, whether it succeeds or not.
\<close>

theorem quarantine_confined:
  assumes run: "ExecuteAssetQuarantine uni sha fuel umask plan recordID (fs, faults) = ((fs', faults'), r)"
    and plan: "qp_SourcePath plan = abs_path (sp @ [sn])" "qp_QuarantinePath plan = abs_path (dp @ [dn])" "qp_QuarantineRoot plan = abs_path rp"
    and names: "names (sp @ [sn])" "names (dp @ [dn])" "names rp"
    and before: "wf_node fs" "get fs (sp @ [sn]) = Some T" "link_free fs (dp @ [dn])" and apart: "sp @ [sn] \<parallel> rp"
    and q: "q \<parallel> sp @ [sn]" "q \<parallel> dp"
  shows "get fs' q = get fs q"
  using ensuresD [OF quarantine_kept [OF before plan names apart] run] q unfolding kept_def by blast

theorem quarantine_confined_witness: "get demo_quarantined [''s'', ''b''] = get demo_fs [''s'', ''b'']"
  using quarantine_confined [OF demo_run demo_paths(1-3), of demo_tree "[''s'', ''b'']"] demo_names demo_places demo_link_free by (simp add: parallel_def)

text \<open>
  The same of a restore, with the roles exchanged: the quarantined copy is removed only after the asset is complete at the restore path.
\<close>

theorem restore_no_loss:
  assumes run: "ExecuteAssetRestore uni sha fuel umask plan (fs, faults) = ((fs', faults'), r)"
    and plan: "rp_QuarantinePath plan = abs_path (qp @ [qn])" "rp_RestorePath plan = abs_path (sp @ [sn])"
    and names: "asset_path qp qn" "asset_path sp sn" "sn \<noteq> ''.defenseclaw-restore-'' @ rp_RecordID plan"
    and before: "wf_node fs" "get fs (qp @ [qn]) = Some T" "no_link (Some T)" "link_free fs (sp @ [sn])" and apart: "qp @ [qn] \<parallel> sp"
    and x: "x = (case get fs (sp @ [sn]) of None \<Rightarrow> T | Some y \<Rightarrow> y)"
  shows "(get fs' (qp @ [qn]) = Some T \<or> get fs' (sp @ [sn]) = Some x \<and> tree_digest sha x = tree_digest sha T) \<and>
    (r = Inr () \<longrightarrow> get fs' (qp @ [qn]) = None \<and> get fs' (sp @ [sn]) = Some x \<and> tree_digest sha x = tree_digest sha T)"
  using ensuresD [OF restore_kept [OF before(1,2,4,3) plan names(1,2) apart names(3)] run] unfolding x kept_def by blast

lemma demo_quarantined_places:
  "wf_node demo_quarantined" "get demo_quarantined [''q'', ''skills'', ''a''] = Some demo_tree" "get demo_quarantined [''s'', ''a''] = None"
  by (code_simp)+

lemma demo_tree_no_link: "no_link (Some demo_tree)"
  by (simp add: demo_tree_def no_link_def)

lemma demo_quarantined_link_free: "link_free demo_quarantined [''s'', ''a'']"
  unfolding link_free_prefixes by (simp add: demo_quarantined_def no_link_def)

lemma demo_stage: "''a'' \<noteq> ''.defenseclaw-restore-'' @ rp_RecordID demo_restore"
  by simp

theorem restore_no_loss_witness:
  "get demo_restored [''q'', ''skills'', ''a''] = None \<and> get demo_restored [''s'', ''a''] = Some demo_tree"
  using restore_no_loss [OF demo_back demo_paths(4,5) demo_names(4,5) demo_stage, of demo_tree demo_tree]
    demo_quarantined_places demo_tree_no_link demo_quarantined_link_free by (simp add: parallel_def)

text \<open>
  C6. A restore undoes a quarantine whose destination was free (nothing published there before, and no link on the way to it) and whose
  asset has no symbolic link in it: after both have succeeded, possibly after calls that failed and were repeated by the system, the tree at
  the source is the one that was there, bytes and permissions included, and the quarantined copy is gone.
\<close>

theorem quarantine_restore_round_trip:
  assumes run: "ExecuteAssetQuarantine uni sha fuel umask plan recordID (fs, faults) = ((fs1, faults1), Inr ())"
    and undo: "ExecuteAssetRestore uni sha fuel' umask' rplan (fs1, faults') = ((fs2, faults2), Inr ())"
    and plan: "qp_SourcePath plan = abs_path (sp @ [n])" "qp_QuarantinePath plan = abs_path (dp @ [n])" "qp_QuarantineRoot plan = abs_path rp"
      "rp_QuarantinePath rplan = abs_path (dp @ [n])" "rp_RestorePath rplan = abs_path (sp @ [n])"
    and names: "asset_path sp n" "asset_path dp n" "names rp" "n \<noteq> ''.defenseclaw-restore-'' @ rp_RecordID rplan"
    and before: "wf_node fs" "get fs (sp @ [n]) = Some T" "get fs (dp @ [n]) = None" "link_free fs (dp @ [n])" "no_link (Some T)"
    and apart: "sp @ [n] \<parallel> rp" "dp @ [n] \<parallel> sp"
  shows "get fs2 (sp @ [n]) = Some T \<and> get fs2 (dp @ [n]) = None"
proof -
  have ns: "names (sp @ [n])" "names (dp @ [n])" using names(1,2) by (simp_all add: asset_path_def)
  have k: "kept sha sp n dp n T T fs fs1 (Inr ())"
    using ensuresD [OF quarantine_kept [OF before(1,2,4) plan(1-3) ns names(3) apart(1)] run] before(3) by simp
  then have w: "wf_node fs1" "get fs1 (dp @ [n]) = Some T" "get fs1 (sp @ [n]) = None" "is_dir (get fs1 sp)" by (simp_all add: kept_def)
  obtain m es where "get fs1 sp = Some (Dir m es)" using w(4) by (auto simp: is_dir_def)
  then have "link_free fs1 sp" by (rule link_free_there) (simp add: no_link_def)
  then have "link_free fs1 (sp @ [n])" using w(3) by (auto simp: link_free_def prefix_snoc no_link_def)
  from ensuresD [OF restore_kept [OF w(1,2) this before(5) plan(4,5) names(2,1) apart(2) names(4)] undo] w(3)
  show ?thesis by (simp add: kept_def)
qed

theorem quarantine_restore_round_trip_witness: "get demo_restored [''s'', ''a''] = Some demo_tree \<and> get demo_restored [''q'', ''skills'', ''a''] = None"
  using quarantine_restore_round_trip [OF demo_run demo_back demo_paths demo_names(5,4,3) demo_stage, of demo_tree]
    demo_places demo_link_free demo_tree_no_link by (simp add: parallel_def)

text \<open>
  A copy that does not verify blocks the transaction for good: when the removal of a quarantined copy was interrupted half way, a repeated
  restore fails and leaves the remains in the quarantine, although the asset is complete at the restore path.
\<close>

theorem restore_stuck_after_partial_removal:
  assumes run: "ExecuteAssetRestore uni sha fuel umask plan (fs, faults) = ((fs', faults'), r)"
    and plan: "rp_QuarantinePath plan = abs_path (qp @ [qn])" "rp_RestorePath plan = abs_path (sp @ [sn])"
    and names: "asset_path qp qn" "asset_path sp sn" "sn \<noteq> ''.defenseclaw-restore-'' @ rp_RecordID plan"
    and before: "wf_node fs" "get fs (sp @ [sn]) = Some T" "get fs (qp @ [qn]) = Some y" "link_free fs (sp @ [sn])" "no_link (Some y)" and apart: "qp @ [qn] \<parallel> sp"
    and partial: "tree_digest sha y \<noteq> tree_digest sha T"
  shows "r \<noteq> Inr () \<and> get fs' (qp @ [qn]) = Some y"
  using ensuresD [OF restore_kept [OF before(1,3,4,5) plan names(1,2) apart names(3)] run] before(2) partial unfolding kept_def by auto

definition demo_partial :: node where
  "demo_partial = Dir 0x1ED [(''q'', Dir 0x1C0 [(''skills'', Dir 0x1C0 [(''a'', Dir 0x1ED [])])]), (''s'', Dir 0x1ED [(''a'', demo_tree)])]"

lemma demo_partial_places:
  "wf_node demo_partial" "get demo_partial [''q'', ''skills'', ''a''] = Some (Dir 0x1ED [])" "get demo_partial [''s'', ''a''] = Some demo_tree"
  "tree_digest demo_sha (Dir 0x1ED []) \<noteq> tree_digest demo_sha demo_tree"
  by (code_simp)+

lemma demo_partial_link_free: "link_free demo_partial [''s'', ''a'']"
  unfolding link_free_prefixes by (simp add: demo_partial_def demo_tree_def no_link_def)

theorem restore_stuck_after_partial_removal_witness:
  "snd (ExecuteAssetRestore plain_map demo_sha 3 0x12 demo_restore (demo_partial, [])) \<noteq> Inr ()"
proof -
  obtain fs' f' r where run: "ExecuteAssetRestore plain_map demo_sha 3 0x12 demo_restore (demo_partial, []) = ((fs', f'), r)" by (metis surj_pair)
  show ?thesis
    using restore_stuck_after_partial_removal [OF run demo_paths(4,5) demo_names(4,5) demo_stage, of demo_tree "Dir 0x1ED []"]
      demo_partial_places demo_partial_link_free by (simp add: run parallel_def no_link_def)
qed

subsection \<open>Containment\<close>

text \<open>
  C37. The containment test on texts, which compares the relative path with \<open>..\<close> and with the prefix \<open>../\<close>, is the comparison of the cleaned
  paths element by element: no path that climbs, and none that merely shares a textual prefix with the root, is let through.
\<close>

theorem pathWithin_elements:
  assumes "IsAbs path" "IsAbs root"
  shows "pathWithin path root allowEqual \<longleftrightarrow>
    (if path_elements (path_Clean path) = path_elements (path_Clean root) then allowEqual
     else prefix (path_elements (path_Clean root)) (path_elements (path_Clean path)))"
proof -
  obtain p where p: "path_Clean path = abs_path p" "names p" by (rule path_Clean_rooted [OF assms(1)])
  obtain r where r: "path_Clean root = abs_path r" "names r" by (rule path_Clean_rooted [OF assms(2)])
  have "pathWithin path root allowEqual = pathWithin (abs_path p) (abs_path r) allowEqual"
    using p r by (simp add: pathWithin_def)
  then show ?thesis using pathWithin_abs [OF p(2) r(2)] p r by simp
qed

theorem pathWithin_elements_witness:
  "\<not> pathWithin ''/q/skills/../../s'' ''/q'' False \<and> \<not> pathWithin ''/quarantine'' ''/q'' False \<and> pathWithin ''/q/skills/a'' ''/q'' False"
proof -
  have abs: "IsAbs ''/q/skills/../../s''" "IsAbs ''/quarantine''" "IsAbs ''/q/skills/a''" "IsAbs ''/q''" by (code_simp)+
  have els: "path_elements (path_Clean ''/q/skills/../../s'') = [''s'']" "path_elements (path_Clean ''/quarantine'') = [''quarantine'']"
    "path_elements (path_Clean ''/q/skills/a'') = [''q'', ''skills'', ''a'']" "path_elements (path_Clean ''/q'') = [''q'']" by (code_simp)+
  show ?thesis using pathWithin_elements [OF abs(1) abs(4), of False] pathWithin_elements [OF abs(2) abs(4), of False]
      pathWithin_elements [OF abs(3) abs(4), of False] by (simp add: els)
qed

subsection \<open>The content hash\<close>

text \<open>
  C36. With as much fuel as the tree is deep the hash returns, and it returns the digest of the tree, which depends on the names, the
  permissions and the bytes alone and not on where the tree is; it fails exactly on the trees that have no digest.
\<close>

theorem AssetContentHash_returns:
  assumes "asset_path p n" "wf_node fs" "get fs (p @ [n]) = Some x" "height x \<le> fuel"
  shows "AssetContentHash sha fuel (abs_path (p @ [n])) (fs, []) = ((fs, []), Inr h) \<longleftrightarrow> tree_digest sha x = Some h"
proof -
  obtain res where res: "AssetContentHash sha fuel (abs_path (p @ [n])) (fs, []) = ((fs, []), res)"
    "\<forall>h. res = Inr h \<longrightarrow> tree_digest sha x = Some h" "\<forall>h. tree_digest sha x = Some h \<longrightarrow> height x \<le> fuel \<longrightarrow> res = Inr h"
    using AssetContentHash_quiet [OF assms(1-3), of sha fuel] by (elim exE conjE)
  show ?thesis using res(1) res(2) [THEN spec, of h] res(3) [THEN spec, of h] assms(4) by auto
qed

theorem AssetContentHash_returns_witness:
  "AssetContentHash demo_sha 2 ''/s/a'' (demo_fs, []) = ((demo_fs, []), Inr demo_hash)"
proof -
  have "height demo_tree \<le> 2" "tree_digest demo_sha demo_tree = Some demo_hash" by (code_simp)+
  then show ?thesis
    using AssetContentHash_returns [OF demo_names(5) demo_places(1), of demo_tree 2 demo_sha demo_hash] demo_places(2) by (simp add: abs_path_def)
qed

definition hold :: "node \<Rightarrow> node" where
  "hold x = Dir 0x1ED [(''s'', Dir 0x1ED [(''a'', x)])]"

definition two_files :: node where
  "two_files = Dir 0x1ED [(''a'', Reg 0x1A4 ''x''), (''b'', Reg 0x1A4 ''y'')]"

definition one_file :: node where
  "one_file = Dir 0x1ED [(''a'', Reg 0x1A4 (''x'' @ node_header ''F'' ''b'' 0x1A4 @ ''y''))]"

lemma same_stream: "tree_stream two_files = tree_stream one_file" "tree_stream one_file \<noteq> None"
  by (code_simp)+

lemma hold_places: "wf_node (hold two_files)" "wf_node (hold one_file)" "height two_files \<le> 2" "height one_file \<le> 2"
  by (code_simp)+

text \<open>
  The bytes of a file are hashed without their length: for every hash function, a directory with the files \<open>a\<close> and \<open>b\<close> has the same
  content hash as one whose only file \<open>a\<close> holds the bytes of the first, the header of the second and its bytes.
\<close>

theorem content_hash_collision:
  "\<exists>h. AssetContentHash sha 2 ''/s/a'' (hold two_files, []) = ((hold two_files, []), Inr h) \<and>
     AssetContentHash sha 2 ''/s/a'' (hold one_file, []) = ((hold one_file, []), Inr h) \<and> two_files \<noteq> one_file"
proof -
  obtain h where h: "tree_digest sha one_file = Some h" using same_stream(2) by (auto simp: tree_digest_def)
  have t: "tree_digest sha two_files = Some h" using h same_stream(1) by (simp add: tree_digest_def)
  have abs: "abs_path ([''s''] @ [''a'']) = ''/s/a''" by (simp add: abs_path_def)
  have get: "get (hold x) ([''s''] @ [''a'']) = Some x" for x by (simp add: hold_def)
  have digest: "AssetContentHash sha 2 ''/s/a'' (hold x, []) = ((hold x, []), Inr h)"
    if x: "wf_node (hold x)" "height x \<le> 2" "tree_digest sha x = Some h" for x
  proof -
    obtain res where "AssetContentHash sha 2 (abs_path ([''s''] @ [''a''])) (hold x, []) = ((hold x, []), res)"
      "\<forall>h. res = Inr h \<longrightarrow> tree_digest sha x = Some h" "\<forall>h. tree_digest sha x = Some h \<longrightarrow> height x \<le> 2 \<longrightarrow> res = Inr h"
      using AssetContentHash_quiet [OF demo_names(5) x(1) get, of sha 2] by (elim exE conjE)
    then show ?thesis using x(2,3) unfolding abs by simp
  qed
  have "two_files \<noteq> one_file" by (simp add: two_files_def one_file_def)
  then show ?thesis using digest hold_places h t by blast
qed

subsection \<open>Names that begin with two dots\<close>

lemma escapes_name: "HasPrefix c ''..'' \<Longrightarrow> escapes [c]"
  by (simp add: escapes_def rel_text_def)

lemma files_stream_escape: "(c, Reg m bytes) \<in> set es \<Longrightarrow> escapes (q @ [c]) \<Longrightarrow> files_stream q es = None"
  by (induction q es rule: files_stream.induct) auto

lemma files_stream_odd: "(c, y) \<in> set es \<Longrightarrow> \<not> plain_node y \<Longrightarrow> files_stream q es = None"
  by (induction q es rule: files_stream.induct) auto

lemma dirs_stream_escape: "(c, Dir m ds) \<in> set es \<Longrightarrow> escapes (q @ [c]) \<Longrightarrow> dirs_stream q es = None"
proof (induction es)
  case (Cons e es)
  then show ?case by (cases e; cases "snd e") (auto split: option.splits)
qed simp

lemma digest_escape:
  assumes "(c, y) \<in> set es" "HasPrefix c ''..''"
  shows "tree_digest sha (Dir m es) = None"
proof -
  have "escapes ([] @ [c])" using escapes_name [OF assms(2)] by simp
  then have "files_stream [] es = None \<or> dirs_stream [] es = None"
    using assms(1) files_stream_escape files_stream_odd dirs_stream_escape by (cases y) fastforce+
  then show ?thesis by (auto simp: tree_digest_def tree_stream_def split: option.splits)
qed

text \<open>
  The escape test of the hash is a test of the first two characters: an asset with an entry whose name begins with two dots, a legal name,
  cannot be hashed, and so no plan for it is ever made.
\<close>

theorem dotdot_name_prevents_quarantine:
  assumes "asset_path sp n" "wf_node fs" "get fs (sp @ [n]) = Some (Dir m es)" "(c, y) \<in> set es" "HasPrefix c ''..''"
  shows "snd (NewAssetQuarantinePlan sha fuel Getwd root roots targetType name connector (abs_path (sp @ [n])) (fs, faults)) \<noteq> Inr plan"
proof
  assume "snd (NewAssetQuarantinePlan sha fuel Getwd root roots targetType name connector (abs_path (sp @ [n])) (fs, faults)) = Inr plan"
  then obtain w where "NewAssetQuarantinePlan sha fuel Getwd root roots targetType name connector (abs_path (sp @ [n])) (fs, faults) = (w, Inr plan)"
    by (metis prod.collapse)
  then obtain w1 w2 d h where v: "validateExistingAncestors d (fs, faults) = (w1, Inr ())"
    and hash: "AssetContentHash sha fuel (path_Clean (TrimSpace (abs_path (sp @ [n])))) w1 = (w2, Inr h)"
    by (auto simp: NewAssetQuarantinePlan_def Let_def andThen_Inr qcheck_Inr of_result_Inr dest!: pathWithinRoots_path split: option.splits prod.splits)
  obtain fs1 faults1 where w1: "w1 = (fs1, faults1)" by fastforce
  have "fs1 = fs" using v unfolding w1 by (rule reads_D [OF reads_validate(1)])
  then have "AssetContentHash sha fuel (abs_path (sp @ [n])) (fs, faults1) = (w2, Inr h)" using hash w1 asset_path_normal [OF assms(1)] by simp
  then have "tree_digest sha (Dir m es) = Some h" by (rule AssetContentHash_Inr [OF assms(1-3)])
  then show False using digest_escape [OF assms(4,5)] by simp
qed

definition dotted_tree :: node where
  "dotted_tree = Dir 0x1ED [(''..x'', Reg 0x1A4 ''y'')]"

theorem dotdot_name_prevents_quarantine_witness:
  "snd (NewAssetQuarantinePlan demo_sha 3 None ''/q'' [''/s''] ''skill'' ''a'' [] (abs_path [''s'', ''a'']) (hold dotted_tree, [])) \<noteq> Inr demo_plan"
proof -
  have "wf_node (hold dotted_tree)" "HasPrefix ''..x'' ''..''" by (code_simp)+
  then show ?thesis
    using dotdot_name_prevents_quarantine [OF demo_names(5), of "hold dotted_tree" "0x1ED" "[(''..x'', Reg 0x1A4 ''y'')]" "''..x''" "Reg 0x1A4 ''y''"]
    by (simp add: hold_def dotted_tree_def)
qed

text \<open>
  The links on the way to the destination matter: the branch for an existing destination does not look at them, and where the directory of
  the destination is a link to the directory of the source, the asset is verified against itself and its only copy is removed, with success.
\<close>

definition linked_fs :: "(string \<times> node) list \<Rightarrow> node" where
  "linked_fs skills = Dir 0x1ED [(''q'', Dir 0x1C0 [(''skills'', Lnk ''/s'')]), (''s'', Dir 0x1ED skills)]"

theorem linked_destination_loses_asset:
  "ExecuteAssetQuarantine plain_map demo_sha 3 0x12 demo_plan ''r'' (linked_fs [(''a'', demo_tree)], []) = ((linked_fs [], []), Inr ())"
  by code_simp

end
