(* ===== verification/Watcher_Quarantine.thy ===== *)
theory Watcher_Quarantine
  imports Watcher_Admission Audit_Quarantine Enforce_QuarantineTheorems
begin

text \<open>
  The watcher's quarantine and restore (\<^verbatim>\<open>watcher/watcher.go\<close>), which bring the file transactions and the journal together: what
  \<open>quarantineAsset\<close> does after the check for restored files, which is in \<open>Watcher_Admission\<close>, and \<open>RestoreQuarantined\<close>.  A nil store and a nil
  context are refused before anything happens and are left out.  Both the file system and the database may fail at every call.
\<close>

record quarantine_env =
  qe_uni :: unicode_map
  qe_sha :: "string \<Rightarrow> string"
  qe_fuel :: nat
  qe_umask :: perm
  qe_Getwd :: "string option"
  qe_json_object :: "string \<Rightarrow> bool"
  qe_QuarantineDir :: string
  qe_skillDirs :: "string list"
  qe_pluginDirs :: "string list"

datatype quarantine_event =
    QuarantineFailed string
  | FilesRetained string
  | ProvenancePending string
  | QuarantineApplied string string
  | RestoreFailed
  | Restored string

record quarantine_system =
  qs_world :: world
  qs_db :: QuarantineDB
  qs_log :: "quarantine_event list"

definition sourceRootsFor :: "quarantine_env \<Rightarrow> string \<Rightarrow> string list" where
  "sourceRootsFor env targetType =
     (if targetType = ''skill'' then qe_skillDirs env else if targetType = ''plugin'' then qe_pluginDirs env else [])"

definition happened :: "quarantine_event list \<Rightarrow> world \<Rightarrow> QuarantineDB \<Rightarrow> quarantine_system \<Rightarrow> quarantine_system" where
  "happened evs w db st = st\<lparr>qs_world := w, qs_db := db, qs_log := qs_log st @ evs\<rparr>"

definition quarantine_input :: "InstallEvent \<Rightarrow> string \<Rightarrow> AssetQuarantinePlan \<Rightarrow> CreateQuarantineRecordInput" where
  "quarantine_input evt connector plan =
     \<lparr>ci_TargetType = ev_Type evt, ci_TargetName = ev_Name evt, ci_OriginalPath = qp_SourcePath plan, ci_QuarantinePath = qp_QuarantinePath plan,
      ci_ContentHash = qp_ContentHash plan, ci_Reason = ''watcher enforcement'', ci_State = QuarantineStatePending,
      ci_OwnershipJSON = qp_OwnershipJSON plan, ci_Connectors = [connector, []]\<rparr>"

text \<open>The move itself, with what follows it in the journal.\<close>

definition move_to_quarantine :: "quarantine_env \<Rightarrow> string \<Rightarrow> AssetQuarantinePlan \<Rightarrow> string \<Rightarrow> world \<Rightarrow> QuarantineDB \<Rightarrow> quarantine_system \<Rightarrow> quarantine_system" where
  "move_to_quarantine env path plan recordID w db st =
     (case ExecuteAssetQuarantine (qe_uni env) (qe_sha env) (qe_fuel env) (qe_umask env) plan recordID w of
        (w1, Inl e) \<Rightarrow>
          (case Lstat (qp_QuarantinePath plan) w1 of
             (w2, Inl ENOENT) \<Rightarrow> happened [QuarantineFailed path] w2 (fst (DeleteQuarantineRecord recordID db)) st
           | (w2, _) \<Rightarrow> happened [QuarantineFailed path] w2 db st)
      | (w1, Inr _) \<Rightarrow>
          (case UpdateQuarantineRecordState recordID QuarantineStateActive [] db of
             (db1, Inl e) \<Rightarrow> happened [ProvenancePending path, QuarantineApplied path (qp_QuarantinePath plan)] w1 db1 st
           | (db1, Inr _) \<Rightarrow> happened [QuarantineApplied path (qp_QuarantinePath plan)] w1 db1 st))"

definition quarantine_files :: "quarantine_env \<Rightarrow> string \<Rightarrow> InstallEvent \<Rightarrow> quarantine_system \<Rightarrow> quarantine_system" where
  "quarantine_files env connector evt st =
     (case NewAssetQuarantinePlan (qe_sha env) (qe_fuel env) (qe_Getwd env) (qe_QuarantineDir env) (sourceRootsFor env (ev_Type evt)) (ev_Type evt)
             (ev_Name evt) connector (ev_Path evt) (qs_world st) of
        (w, Inl e) \<Rightarrow> happened [QuarantineFailed (ev_Path evt)] w (qs_db st) st
      | (w, Inr plan) \<Rightarrow>
          (case CreateQuarantineRecord (qe_uni env) (qe_json_object env) (quarantine_input evt connector plan) (qs_db st) of
             (db, Inl e) \<Rightarrow> happened [QuarantineFailed (ev_Path evt)] w db st
           | (db, Inr record0) \<Rightarrow>
               if qr_State record0 = QuarantineStateRestoring \<and> sameWatcherPath (qe_Getwd env) (qr_RestorePath record0) (qp_SourcePath plan)
               then (case AssetContentHashMatches (qe_uni env) (qe_sha env) (qe_fuel env) (qp_SourcePath plan) (qr_ContentHash record0) w of
                       (w1, Inr True) \<Rightarrow> happened [FilesRetained (ev_Path evt)] w1 db st
                     | (w1, _) \<Rightarrow> move_to_quarantine env (ev_Path evt) plan (qr_ID record0) w1 db st)
               else move_to_quarantine env (ev_Path evt) plan (qr_ID record0) w db st))"

subsection \<open>Restoring\<close>

datatype restore_error =
    RestoreUnsupported
  | RestoreStore provenance_error
  | RestoreNotQuarantined
  | RestoreAmbiguous
  | RestorePathMismatch
  | RestoreJournal provenance_error
  | RestoreAsset quarantine_error
  | RestoreFinalize provenance_error

text \<open>The destination: the one a restore in progress is bound to, the requested one, or the original path.\<close>

definition restore_destination :: "string option \<Rightarrow> QuarantineRecord \<Rightarrow> string \<Rightarrow> string option" where
  "restore_destination Getwd record0 restorePath =
     (let requested = TrimSpace restorePath; bound = TrimSpace (qr_RestorePath record0) in
      if qr_State record0 = QuarantineStateRestoring \<and> bound \<noteq> [] then
        (if requested = [] then Some bound else if \<not> sameWatcherPath Getwd requested bound then None else Some requested)
      else if requested = [] then Some (qr_OriginalPath record0) else Some requested)"

definition restore_plan :: "quarantine_env \<Rightarrow> QuarantineRecord \<Rightarrow> string \<Rightarrow> AssetRestorePlan" where
  "restore_plan env record0 restorePath =
     \<lparr>rp_RecordID = qr_ID record0, rp_TargetType = qr_TargetType record0, rp_TargetName = qr_TargetName record0,
      rp_QuarantineRoot = qe_QuarantineDir env, rp_QuarantinePath = qr_QuarantinePath record0, rp_RestorePath = restorePath,
      rp_AllowedRoots = sourceRootsFor env (qr_TargetType record0), rp_ContentHash = qr_ContentHash record0\<rparr>"

definition restore_record :: "quarantine_env \<Rightarrow> QuarantineRecord \<Rightarrow> string \<Rightarrow> quarantine_system \<Rightarrow> quarantine_system \<times> (restore_error + unit)" where
  "restore_record env record0 restorePath st =
     (case UpdateQuarantineRecordState (qr_ID record0) QuarantineStateRestoring restorePath (qs_db st) of
        (db, Inl e) \<Rightarrow> (happened [] (qs_world st) db st, Inl (RestoreJournal e))
      | (db, Inr _) \<Rightarrow>
          (case ExecuteAssetRestore (qe_uni env) (qe_sha env) (qe_fuel env) (qe_umask env) (restore_plan env record0 restorePath) (qs_world st) of
             (w, Inl e) \<Rightarrow>
               (case AssetContentHashMatches (qe_uni env) (qe_sha env) (qe_fuel env) (qr_QuarantinePath record0) (qr_ContentHash record0) w of
                  (w1, Inr True) \<Rightarrow>
                    (happened [RestoreFailed] w1 (fst (UpdateQuarantineRecordState (qr_ID record0) QuarantineStateActive [] db)) st, Inl (RestoreAsset e))
                | (w1, _) \<Rightarrow> (happened [RestoreFailed] w1 db st, Inl (RestoreAsset e)))
           | (w, Inr _) \<Rightarrow>
               (case CompleteQuarantineRestore (qr_ID record0) restorePath db of
                  (db1, Inl e) \<Rightarrow> (happened [] w db1 st, Inl (RestoreFinalize e))
                | (db1, Inr _) \<Rightarrow> (happened [Restored restorePath] w db1 st, Inr ()))))"

definition RestoreQuarantined :: "quarantine_env \<Rightarrow> string \<Rightarrow> string \<Rightarrow> string \<Rightarrow> string \<Rightarrow> quarantine_system \<Rightarrow> quarantine_system \<times> (restore_error + unit)" where
  "RestoreQuarantined env targetType0 targetName0 connector0 restorePath st =
     (let targetType = TrimSpace targetType0; targetName = TrimSpace targetName0; connector = TrimSpace connector0 in
      if targetType \<noteq> ''skill'' \<and> targetType \<noteq> ''plugin'' then (st, Inl RestoreUnsupported)
      else case ListQuarantineRecordsForConnector targetType targetName connector (qs_db st) of
        (db, Inl e) \<Rightarrow> (happened [] (qs_world st) db st, Inl (RestoreStore e))
      | (db, Inr records) \<Rightarrow>
          (case records of
             [] \<Rightarrow> (happened [] (qs_world st) db st, Inl RestoreNotQuarantined)
           | [record0] \<Rightarrow>
               (case restore_destination (qe_Getwd env) record0 restorePath of
                  None \<Rightarrow> (happened [] (qs_world st) db st, Inl RestorePathMismatch)
                | Some path \<Rightarrow> restore_record env record0 path (happened [] (qs_world st) db st))
           | _ \<Rightarrow> (happened [] (qs_world st) db st, Inl RestoreAmbiguous)))"

subsection \<open>The plan\<close>

lemma reads_NewPlan: "reads (NewAssetQuarantinePlan sha fuel Getwd qroot roots targetType name connector path)"
proof -
  have owner: "reads (assetOwnershipJSON p)" for p unfolding assetOwnershipJSON_def by (intro reads_intros)
  show ?thesis unfolding NewAssetQuarantinePlan_def Let_def
    by (auto intro!: reads_intros owner split: option.splits prod.splits)
qed

lemma join_abs_path: "r \<noteq> [] \<Longrightarrow> join ''/'' (abs_path r # es) = abs_path (r @ es)"
proof (induction es rule: rev_induct)
  case Nil
  then show ?case by simp
next
  case (snoc e es)
  have "join ''/'' (abs_path r # es @ [e]) = join ''/'' (abs_path r # es) @ ''/'' @ e" using join_snoc [of "abs_path r # es" "''/''" e] by simp
  also have "\<dots> = abs_path (r @ es) @ ''/'' @ e" using snoc by simp
  also have "\<dots> = abs_path ((r @ es) @ [e])" using snoc.prems abs_path_snoc [of "r @ es" e] by simp
  finally show ?case by simp
qed

lemma path_Join_names:
  assumes "names (r @ es)" "r \<noteq> []"
  shows "path_Join (abs_path r # es) = abs_path (r @ es)"
proof -
  have ne: "filter (\<lambda>e. e \<noteq> []) es = es" using assms(1) by (auto simp: filter_id_conv path_name_def)
  have "abs_path r \<noteq> []" by (simp add: abs_path_def)
  then show ?thesis using ne join_abs_path [OF assms(2)] path_Clean_abs [OF assms(1)] by (simp add: path_Join_def)
qed

definition quarantine_dir :: "string list \<Rightarrow> string \<Rightarrow> string \<Rightarrow> string list" where
  "quarantine_dir rp targetType connector =
     rp @ [the (quarantineTypeDir targetType)] @ (if TrimSpace connector = [] then [] else [TrimSpace connector])"

lemma type_dir_name: "quarantineTypeDir t = Some d \<Longrightarrow> path_name d"
  by (auto simp: quarantineTypeDir_def path_name_def split: if_splits)

lemma new_plan:
  assumes run: "NewAssetQuarantinePlan sha fuel Getwd (abs_path (rp @ [rn])) roots targetType name connector (abs_path (sp @ [n])) (fs, faults) = ((fs1, faults1), Inr plan)"
    and nm: "asset_path rp rn" "asset_path sp n" and fs: "wf_node fs" "get fs (sp @ [n]) = Some T"
  shows "fs1 = fs \<and> name = n \<and> qp_SourcePath plan = abs_path (sp @ [n]) \<and> qp_QuarantineRoot plan = abs_path (rp @ [rn]) \<and>
    qp_QuarantinePath plan = abs_path (quarantine_dir (rp @ [rn]) targetType connector @ [n]) \<and>
    names (quarantine_dir (rp @ [rn]) targetType connector @ [n]) \<and> tree_digest sha T = Some (qp_ContentHash plan)"
proof -
  have src: "path_Clean (TrimSpace (abs_path (sp @ [n]))) = abs_path (sp @ [n])" by (rule asset_path_normal [OF nm(2)])
  have ns: "names (rp @ [rn])" "names (sp @ [n])" using nm by (simp_all add: asset_path_def)
  have root: "path_Abs Getwd (TrimSpace (abs_path (rp @ [rn]))) = Some (abs_path (rp @ [rn]))"
    using nm(1) ns(1) TrimSpace_abs [of rn rp] IsAbs_abs [of "rp @ [rn]"] path_Clean_abs [OF ns(1)]
    by (simp add: path_Abs_def asset_path_def path_name_def IsAbs_def)
  obtain d where d: "quarantineTypeDir targetType = Some d" using run by (auto simp: NewAssetQuarantinePlan_def qfail_def split: option.splits)
  from run obtain w1 h w2 w3 where name: "safePathSegment name" "path_base (abs_path (sp @ [n])) = name"
    and conn: "TrimSpace connector = [] \<or> safePathSegment (TrimSpace connector)"
    and v: "validateExistingAncestors (path_Dir (abs_path (sp @ [n]))) (fs, faults) = (w1, Inr ())"
    and h: "AssetContentHash sha fuel (abs_path (sp @ [n])) w1 = (w2, Inr h)"
    and plan: "qp_SourcePath plan = abs_path (sp @ [n])" "qp_QuarantineRoot plan = path_Clean (abs_path (rp @ [rn]))" "qp_ContentHash plan = h"
      "qp_QuarantinePath plan = path_Join ([path_Clean (abs_path (rp @ [rn])), d] @ (if TrimSpace connector \<noteq> [] then [TrimSpace connector] else []) @ [name])"
    unfolding NewAssetQuarantinePlan_def Let_def root d option.case
    by (auto simp: andThen_Inr qcheck_Inr of_result_Inr qreturn_Inr src dest!: pathWithinRoots_path)
  obtain fs2 f2 where w1: "w1 = (fs2, f2)" by fastforce
  have "fs2 = fs" using v unfolding w1 by (rule reads_D [OF reads_validate(1)])
  then have dig: "tree_digest sha T = Some h" using h AssetContentHash_Inr [OF nm(2) fs] w1 by simp
  have fs1: "fs1 = fs" using run by (rule reads_D [OF reads_NewPlan])
  have n: "name = n" using name(2) ns(2) by simp
  let ?rest = "d # (if TrimSpace connector = [] then [] else [TrimSpace connector]) @ [n]"
  have names: "names ((rp @ [rn]) @ ?rest)" using ns type_dir_name [OF d] conn safePathSegment_name by auto
  have "quarantine_dir (rp @ [rn]) targetType connector @ [n] = (rp @ [rn]) @ ?rest" by (simp add: quarantine_dir_def d)
  moreover have "qp_QuarantinePath plan = abs_path ((rp @ [rn]) @ ?rest)"
    using plan(4) path_Join_names [OF names] path_Clean_abs [OF ns(1)] n by (auto split: if_splits)
  ultimately show ?thesis using plan(1-3) path_Clean_abs [OF ns(1)] names fs1 dig n by simp
qed

text \<open>The hash in a plan is in the normal form in which the journal keeps it.\<close>

lemma digit_val: "n < 16 \<Longrightarrow> byte_val (digit n) = (if n < 10 then 48 + n else 87 + n)"
  by (auto simp: digit_def byte_val_def)

lemma hex_chars: "c \<in> set (hex_encode s) \<Longrightarrow> 48 \<le> byte_val c \<and> byte_val c \<le> 57 \<or> 97 \<le> byte_val c \<and> byte_val c \<le> 102"
proof -
  assume "c \<in> set (hex_encode s)"
  then obtain x where "c = digit (byte_val x div 16) \<or> c = digit (byte_val x mod 16)" by (auto simp: hex_encode_def hex_byte_def)
  moreover have "byte_val x div 16 < 16" "byte_val x mod 16 < 16" using byte_val_less [of x] by auto
  ultimately show ?thesis using digit_val [of "byte_val x div 16"] digit_val [of "byte_val x mod 16"] by (auto split: if_splits)
qed

lemma space_bytes: "e \<in> set space_encodings \<Longrightarrow> c \<in> set e \<Longrightarrow> byte_val c < 48 \<or> 102 < byte_val c"
  by (auto simp: space_encodings_def byte_val_def)

lemma hex_normal: "ToLower uni (TrimSpace (hex_encode s)) = hex_encode s"
proof -
  have "TrimSpace (hex_encode s) = hex_encode s"
  proof (rule TrimSpace_id)
    fix e assume e: "e \<in> set space_encodings"
    obtain c where c: "c \<in> set e" using encodings_no_slash [OF e] by (cases e) auto
    then have "c \<notin> set (hex_encode s)" using space_bytes [OF e c] hex_chars [of c s] by auto
    then show "\<not> prefix e (hex_encode s) \<and> \<not> suffix e (hex_encode s)" using c by (auto simp: prefix_def suffix_def)
  qed
  moreover have "is_ascii (hex_encode s)" unfolding is_ascii_def list_all_iff using hex_chars [of _ s] by fastforce
  moreover have "map byte_lower (hex_encode s) = hex_encode s"
    by (rule map_idI) (use hex_chars [of _ s] in \<open>fastforce simp: byte_lower_def\<close>)
  ultimately show ?thesis by (simp add: ToLower_def)
qed

lemma digest_normal: "tree_digest sha T = Some h \<Longrightarrow> ToLower uni (TrimSpace h) = h"
  by (auto simp: tree_digest_def hex_normal)

subsection \<open>What the journal records\<close>

text \<open>A row that names the quarantined copy at \<open>d\<close> of the asset at \<open>s\<close>, with its identity.\<close>

definition journalled :: "(string \<Rightarrow> string) \<Rightarrow> string list \<Rightarrow> string list \<Rightarrow> node \<Rightarrow> QuarantineDB \<Rightarrow> bool" where
  "journalled sha s d x db \<longleftrightarrow> (\<exists>row \<in> set (qd_records db). qr_QuarantinePath row = abs_path d \<and> samePath (qr_OriginalPath row) (abs_path s) \<and>
     tree_digest sha x = Some (qr_ContentHash row))"

lemma journalled_identity:
  assumes "map journal_identity (qd_records db') = map journal_identity (qd_records db)"
  shows "journalled sha s d x db' \<longleftrightarrow> journalled sha s d x db"
proof -
  have "journal_identity ` set (qd_records db') = journal_identity ` set (qd_records db)" using assms by (metis list.set_map)
  moreover have "journalled sha s d x db \<longleftrightarrow> (\<exists>(i, t, n, p, q, h) \<in> journal_identity ` set (qd_records db).
      q = abs_path d \<and> samePath p (abs_path s) \<and> tree_digest sha x = Some h)" for db
    by (auto simp: journalled_def journal_identity_def)
  ultimately show ?thesis by (simp only:)
qed

lemma Lstat_absent:
  assumes "Lstat (abs_path p) (fs, faults) = (w', Inl ENOENT)" "names p"
  shows "get fs p = None"
proof (rule ccontr)
  assume "get fs p \<noteq> None"
  then obtain x where "get fs p = Some x" by blast
  then have "look False (abs_path p) fs = (fs, Inr x)" using look_get assms(2) by blast
  then show False using assms(1) unfolding Lstat_def by (auto elim!: call_cases)
qed

lemma Lstat_fs: "Lstat p (fs, faults) = (w', r) \<Longrightarrow> fst w' = fs"
  using Lstat_same by fastforce

lemma kept_journalled:
  assumes "journal_inv db" "names (dp @ [dn])"
    and kept: "kept sha sp sn dp dn T x fs fs1 r" and row: "\<And>x. tree_digest sha x = tree_digest sha T \<Longrightarrow> journalled sha (sp @ [sn]) (dp @ [dn]) x db"
    and run: "ExecuteAssetQuarantine (qe_uni env) (qe_sha env) (qe_fuel env) (qe_umask env) plan i w = ((fs1, f1), r)"
    and d: "qp_QuarantinePath plan = abs_path (dp @ [dn])"
  shows "let st' = move_to_quarantine env path plan i w db st in
    get (fst (qs_world st')) (sp @ [sn]) = Some T \<or>
    (\<exists>x. get (fst (qs_world st')) (dp @ [dn]) = Some x \<and> tree_digest sha x = tree_digest sha T \<and> journalled sha (sp @ [sn]) (dp @ [dn]) x (qs_db st'))"
proof (cases r)
  case (Inr u)
  obtain db1 r1 where u: "UpdateQuarantineRecordState i QuarantineStateActive [] db = (db1, r1)" by fastforce
  have j: "journalled sha (sp @ [sn]) (dp @ [dn]) x db1 \<longleftrightarrow> journalled sha (sp @ [sn]) (dp @ [dn]) x db" for x
    by (rule journalled_identity [OF Update_identity [OF u]])
  have "qs_world (move_to_quarantine env path plan i w db st) = (fs1, f1)" "qs_db (move_to_quarantine env path plan i w db st) = db1"
    using run Inr u by (auto simp: move_to_quarantine_def happened_def split: sum.splits)
  then show ?thesis using kept row j by (auto simp: kept_def)
next
  case (Inl e)
  obtain w2 l where l: "Lstat (abs_path (dp @ [dn])) (fs1, f1) = (w2, l)" by fastforce
  have fs: "fst w2 = fs1" using Lstat_fs l by blast
  have w2: "qs_world (move_to_quarantine env path plan i w db st) = w2"
    using run Inl l d by (auto simp: move_to_quarantine_def happened_def split: sum.splits sys_err.splits)
  show ?thesis
  proof (cases "l = Inl ENOENT")
    case True
    then have "get fs1 (dp @ [dn]) = None" using Lstat_absent l assms(2) by blast
    then show ?thesis using kept fs w2 by (auto simp: kept_def)
  next
    case False
    then have "qs_db (move_to_quarantine env path plan i w db st) = db"
      using run Inl l d by (auto simp: move_to_quarantine_def happened_def split: sum.splits sys_err.splits)
    then show ?thesis using kept row fs w2 by (auto simp: kept_def)
  qed
qed

lemma created_journalled:
  assumes row: "row \<in> set (qd_records db)" "bound_to n row" and n: "normalizeCreateQuarantineRecord uni json_object (quarantine_input evt connector plan) = Inr n"
    and plan: "qp_SourcePath plan = abs_path (sp @ [sn])" "qp_QuarantinePath plan = abs_path (dp @ [dn])" "tree_digest sha T = Some (qp_ContentHash plan)"
    and nm: "asset_path sp sn" "asset_path dp dn" and x: "tree_digest sha x = tree_digest sha T"
  shows "journalled sha (sp @ [sn]) (dp @ [dn]) x db"
proof -
  note c = normalize_create [OF n]
  have "qr_QuarantinePath row = abs_path (dp @ [dn])" using c row(2) plan(2) asset_path_normal [OF nm(2)] by (simp add: bound_to_def quarantine_input_def)
  moreover have "samePath (qr_OriginalPath row) (abs_path (sp @ [sn]))" using c row(2) plan(1) asset_path_normal [OF nm(1)] by (simp add: bound_to_def quarantine_input_def)
  moreover have "qr_ContentHash row = qp_ContentHash plan" using c row(2) digest_normal [OF plan(3)] by (simp add: bound_to_def quarantine_input_def)
  ultimately show ?thesis using row(1) x plan(3) unfolding journalled_def by auto
qed

lemma reads_matches: "reads (AssetContentHashMatches uni sha fuel p h)"
  unfolding AssetContentHashMatches_def by (intro reads_intros)

text \<open>
  C4. The watcher journals before it moves.  Suppose that neither the destination in the quarantine nor a directory on the way to it is a
  symbolic link, and that the source and the quarantine root are not within each other (what the code checks of the root only by its text).
  Then, whatever call of the file system or statement of the database fails, and if the process dies at any point, the complete asset is
  at its source, or a tree with its identity is in the quarantine and the journal has the record that names its original path, its
  place in the quarantine and its content hash: the asset is no orphan.  Without the first condition the claim is false: see
  \<open>linked_destination_loses_asset\<close>.
\<close>

theorem quarantine_never_orphans:
  assumes env: "qe_QuarantineDir env = abs_path (rp @ [rn])" "asset_path rp rn" and evt: "ev_Path evt = abs_path (sp @ [n])" "asset_path sp n"
    and st: "qs_world st = (fs, faults)" "journal_inv (qs_db st)" "wf_node fs" "get fs (sp @ [n]) = Some T"
    and d: "dp = quarantine_dir (rp @ [rn]) (ev_Type evt) connector" "link_free fs (dp @ [n])" and apart: "sp @ [n] \<parallel> rp @ [rn]"
    and run: "st' = quarantine_files env connector evt st"
  shows "get (fst (qs_world st')) (sp @ [n]) = Some T \<or>
    (\<exists>x. get (fst (qs_world st')) (dp @ [n]) = Some x \<and> tree_digest (qe_sha env) x = tree_digest (qe_sha env) T \<and>
       journalled (qe_sha env) (sp @ [n]) (dp @ [n]) x (qs_db st'))"
proof -
  let ?goal = "\<lambda>st'. get (fst (qs_world st')) (sp @ [n]) = Some T \<or>
    (\<exists>x. get (fst (qs_world st')) (dp @ [n]) = Some x \<and> tree_digest (qe_sha env) x = tree_digest (qe_sha env) T \<and>
       journalled (qe_sha env) (sp @ [n]) (dp @ [n]) x (qs_db st'))"
  obtain fs1 f1 p where new: "NewAssetQuarantinePlan (qe_sha env) (qe_fuel env) (qe_Getwd env) (qe_QuarantineDir env) (sourceRootsFor env (ev_Type evt)) (ev_Type evt)
      (ev_Name evt) connector (ev_Path evt) (fs, faults) = ((fs1, f1), p)" by (metis surj_pair)
  have fs1: "fs1 = fs" using reads_D [OF reads_NewPlan new] .
  have "?goal (quarantine_files env connector evt st)"
  proof (cases p)
    case (Inl e)
    then show ?thesis using new st fs1 by (simp add: quarantine_files_def happened_def)
  next
    case (Inr plan)
    have pl: "qp_SourcePath plan = abs_path (sp @ [n])" "qp_QuarantineRoot plan = abs_path (rp @ [rn])" "qp_QuarantinePath plan = abs_path (dp @ [n])"
      "names (dp @ [n])" "tree_digest (qe_sha env) T = Some (qp_ContentHash plan)"
      using new_plan [OF new [unfolded Inr env(1) evt(1)] env(2) evt(2) st(3,4)] d(1) by simp_all
    have nm: "names (sp @ [n])" "names (rp @ [rn])" "asset_path dp n" using evt(2) env(2) pl(4) by (simp_all add: asset_path_def)
    obtain db c where create: "CreateQuarantineRecord (qe_uni env) (qe_json_object env) (quarantine_input evt connector plan) (qs_db st) = (db, c)" by fastforce
    show ?thesis
    proof (cases c)
      case e: (Inl e)
      then show ?thesis using new st fs1 Inr create by (simp add: quarantine_files_def happened_def)
    next
      case rec: (Inr rec)
      obtain nn row where nn: "normalizeCreateQuarantineRecord (qe_uni env) (qe_json_object env) (quarantine_input evt connector plan) = Inr nn"
        and row: "row \<in> set (qd_records db)" "bound_to nn row" and inv: "journal_inv db" using Create_effect [OF create st(2)] rec by auto
      note j = created_journalled [OF row nn pl(1,3,5) evt(2) nm(3)]
      have move: "?goal (move_to_quarantine env (ev_Path evt) plan (qr_ID rec) (fs, f2) db st)" for f2
      proof -
        obtain fs2 f3 r where ex: "ExecuteAssetQuarantine (qe_uni env) (qe_sha env) (qe_fuel env) (qe_umask env) plan (qr_ID rec) (fs, f2) = ((fs2, f3), r)"
          by (metis surj_pair)
        note k = ensuresD [OF quarantine_kept [OF st(3,4) d(2) pl(1,3,2) nm(1) pl(4) nm(2) apart] ex]
        from kept_journalled [OF inv pl(4) k j ex pl(3), of "ev_Path evt" st] show ?thesis by (simp add: Let_def)
      qed
      obtain fs3 f4 m where ma: "AssetContentHashMatches (qe_uni env) (qe_sha env) (qe_fuel env) (qp_SourcePath plan) (qr_ContentHash rec) (fs, f1) = ((fs3, f4), m)"
        by (metis surj_pair)
      have fs3: "fs3 = fs" using reads_D [OF reads_matches ma] .
      show ?thesis using new st fs1 Inr create rec move ma fs3
        by (auto simp: quarantine_files_def happened_def split: sum.splits bool.splits)
    qed
  qed
  then show ?thesis using run by simp
qed

subsection \<open>The restore and its record\<close>

lemma attach_Inr:
  assumes "attach_connectors rows db = (db', Inr recs)"
  shows "same_rows db db' \<and> list_all2 (\<lambda>row rec. \<exists>cs. rec = with_connectors row cs) rows recs"
  using assms
proof (induction rows arbitrary: db recs)
  case Nil
  then show ?case by (simp add: dreturn_Inr)
next
  case (Cons row rows)
  then obtain db1 cs rs where c: "quarantineConnectors (qr_ID row) db = (db1, Inr cs)" and a: "attach_connectors rows db1 = (db', Inr rs)"
    and recs: "recs = with_connectors row cs # rs" by (auto simp: dthen_Inr dreturn_Inr)
  show ?case using Cons.IH [OF a] same_rows_trans [OF reads_same(3) [OF c]] recs by auto
qed

lemma list_single:
  assumes "ListQuarantineRecordsForConnector t n c db = (db', Inr [rec])"
  shows "same_rows db db' \<and> (\<exists>row \<in> set (qd_records db). \<exists>cs. rec = with_connectors row cs)"
proof -
  let ?sel = "\<lambda>db. filter (\<lambda>r. qr_TargetType r = TrimSpace t \<and> qr_TargetName r = TrimSpace n \<and> (qr_ID r, TrimSpace c) \<in> set (qd_connectors db)) (qd_records db)"
  from assms obtain db1 rows where q: "statement (\<lambda>db. (db, Inr (sort_key qr_CreatedAt (sort_key qr_ID (?sel db))))) db = (db1, Inr rows)"
    and a: "attach_connectors rows db1 = (db', Inr [rec])"
    by (auto simp: ListQuarantineRecordsForConnector_def dthen_Inr split: if_splits)
  have same: "same_rows db db1" using read_same [OF q] .
  have rows: "set rows \<subseteq> set (qd_records db)" using q by (elim statement_Inr) (auto simp: same_rows_def)
  obtain row cs where "rows = [row]" "rec = with_connectors row cs" using attach_Inr [OF a] by (auto simp: list_all2_Cons2)
  then show ?thesis using rows same_rows_trans [OF same] attach_Inr [OF a] by auto
qed

lemma with_connectors_path: "qr_QuarantinePath (with_connectors row cs) = qr_QuarantinePath row"
  by (simp add: with_connectors_def QuarantineRow.defs QuarantineRecord.defs)

definition has_record :: "string \<Rightarrow> string \<Rightarrow> QuarantineDB \<Rightarrow> bool" where
  "has_record i p db \<longleftrightarrow> (\<exists>row \<in> set (qd_records db). qr_ID row = i \<and> qr_QuarantinePath row = p)"

lemma has_record_identity:
  assumes "map journal_identity (qd_records db') = map journal_identity (qd_records db)"
  shows "has_record i p db' \<longleftrightarrow> has_record i p db"
proof -
  have "journal_identity ` set (qd_records db') = journal_identity ` set (qd_records db)" using assms by (metis list.set_map)
  moreover have "has_record i p db \<longleftrightarrow> (\<exists>(j, t, n, o', q, h) \<in> journal_identity ` set (qd_records db). j = i \<and> q = p)" for db
    by (auto simp: has_record_def journal_identity_def)
  ultimately show ?thesis by (simp only:)
qed

lemma restore_record_kept:
  assumes st: "qs_world st = (fs, faults)" "journal_inv (qs_db st)" "has_record (qr_ID rec) (abs_path (qp @ [qn])) (qs_db st)"
    and fs: "wf_node fs" "get fs (qp @ [qn]) = Some T" "link_free fs (sp @ [sn])" "no_link (Some T)"
    and rec: "qr_QuarantinePath rec = abs_path (qp @ [qn])" and nm: "asset_path qp qn" "asset_path sp sn" and par: "qp @ [qn] \<parallel> sp"
    and sg: "sn \<noteq> ''.defenseclaw-restore-'' @ qr_ID rec" and x: "x = (case get fs (sp @ [sn]) of None \<Rightarrow> T | Some y \<Rightarrow> y)"
    and run: "restore_record env rec (abs_path (sp @ [sn])) st = (st', r)"
  shows "(get (fst (qs_world st')) (qp @ [qn]) = Some T \<and> has_record (qr_ID rec) (abs_path (qp @ [qn])) (qs_db st') \<or>
      get (fst (qs_world st')) (sp @ [sn]) = Some x \<and> tree_digest (qe_sha env) x = tree_digest (qe_sha env) T) \<and>
    (r = Inr () \<longrightarrow> get (fst (qs_world st')) (qp @ [qn]) = None \<and> get (fst (qs_world st')) (sp @ [sn]) = Some x \<and>
      tree_digest (qe_sha env) x = tree_digest (qe_sha env) T \<and> \<not> has_record (qr_ID rec) (abs_path (qp @ [qn])) (qs_db st'))"
proof -
  let ?q = "qp @ [qn]" and ?s = "sp @ [sn]"
  obtain db u where up: "UpdateQuarantineRecordState (qr_ID rec) QuarantineStateRestoring (abs_path ?s) (qs_db st) = (db, u)" by fastforce
  have has: "has_record (qr_ID rec) (abs_path ?q) db" using has_record_identity [OF Update_identity [OF up]] st(3) by simp
  have inv: "journal_inv db" using Update_inv [OF up st(2)] .
  show ?thesis
  proof (cases u)
    case (Inl e)
    then show ?thesis using run up st(1) fs(2) has by (auto simp: restore_record_def happened_def)
  next
    case (Inr u')
    let ?plan = "restore_plan env rec (abs_path ?s)"
    obtain fs1 f1 e where ex: "ExecuteAssetRestore (qe_uni env) (qe_sha env) (qe_fuel env) (qe_umask env) ?plan (fs, faults) = ((fs1, f1), e)" by (metis surj_pair)
    have pl: "rp_QuarantinePath ?plan = abs_path ?q" "rp_RestorePath ?plan = abs_path ?s" "rp_RecordID ?plan = qr_ID rec"
      using rec by (simp_all add: restore_plan_def)
    have k: "kept (qe_sha env) qp qn sp sn T x fs fs1 e"
      using ensuresD [OF restore_kept [OF fs pl(1,2) nm par] ex] sg unfolding x pl(3) by blast
    show ?thesis
    proof (cases e)
      case err: (Inl er)
      obtain fs2 f2 m where ma: "AssetContentHashMatches (qe_uni env) (qe_sha env) (qe_fuel env) (qr_QuarantinePath rec) (qr_ContentHash rec) (fs1, f1) = ((fs2, f2), m)"
        by (metis surj_pair)
      have fs2: "fs2 = fs1" using reads_D [OF reads_matches ma] .
      have act: "has_record (qr_ID rec) (abs_path ?q) (fst (UpdateQuarantineRecordState (qr_ID rec) QuarantineStateActive [] db))"
        using has_record_identity [OF Update_identity, OF surjective_pairing] has by blast
      have "fst (qs_world st') = fs1" "has_record (qr_ID rec) (abs_path ?q) (qs_db st')" "r = Inl (RestoreAsset er)"
        using run up Inr st(1) ex err ma fs2 has act by (auto simp: restore_record_def happened_def split: sum.splits bool.splits)
      then show ?thesis using k by (auto simp: kept_def)
    next
      case ok: (Inr v)
      obtain db1 c where co: "CompleteQuarantineRestore (qr_ID rec) (abs_path ?s) db = (db1, c)" by fastforce
      have r: "fst (qs_world st') = fs1" "qs_db st' = db1" "r = Inr () \<longrightarrow> c = Inr ()"
        using run up Inr st(1) ex ok co by (auto simp: restore_record_def happened_def split: sum.splits)
      have "c = Inr () \<longrightarrow> \<not> has_record (qr_ID rec) (abs_path ?q) db1"
        using Complete_effect [OF co inv] has by (auto simp: has_record_def same_rows_def image_iff)
      then show ?thesis using k r ok by (auto simp: kept_def)
    qed
  qed
qed

text \<open>
  C7. The record is kept as long as the asset is in the quarantine only: whatever fails during a restore, the quarantined copy is complete and still
  has its record, or a tree with its identity is at the restore path.  A restore that succeeds leaves the asset at the restore path, nothing in
  the quarantine and no record.
\<close>

theorem restore_keeps_provenance:
  assumes run: "RestoreQuarantined env targetType targetName connector restorePath st = (st', r)"
    and found: "ListQuarantineRecordsForConnector (TrimSpace targetType) (TrimSpace targetName) (TrimSpace connector) (qs_db st) = (db, Inr [rec])"
    and place: "qr_QuarantinePath rec = abs_path (qp @ [qn])" "restore_destination (qe_Getwd env) rec restorePath = Some (abs_path (sp @ [sn]))"
    and type: "TrimSpace targetType \<in> {''skill'', ''plugin''}"
    and st: "qs_world st = (fs, faults)" "journal_inv (qs_db st)"
    and fs: "wf_node fs" "get fs (qp @ [qn]) = Some T" "link_free fs (sp @ [sn])" "no_link (Some T)"
    and nm: "asset_path qp qn" "asset_path sp sn" "sn \<noteq> ''.defenseclaw-restore-'' @ qr_ID rec" and apart: "qp @ [qn] \<parallel> sp"
    and x: "x = (case get fs (sp @ [sn]) of None \<Rightarrow> T | Some y \<Rightarrow> y)"
  shows "(get (fst (qs_world st')) (qp @ [qn]) = Some T \<and> has_record (qr_ID rec) (abs_path (qp @ [qn])) (qs_db st') \<or>
      get (fst (qs_world st')) (sp @ [sn]) = Some x \<and> tree_digest (qe_sha env) x = tree_digest (qe_sha env) T) \<and>
    (r = Inr () \<longrightarrow> get (fst (qs_world st')) (qp @ [qn]) = None \<and> get (fst (qs_world st')) (sp @ [sn]) = Some x \<and>
      tree_digest (qe_sha env) x = tree_digest (qe_sha env) T \<and> \<not> has_record (qr_ID rec) (abs_path (qp @ [qn])) (qs_db st'))"
proof -
  let ?st = "happened [] (qs_world st) db st"
  obtain row cs where same: "same_rows (qs_db st) db" and row: "row \<in> set (qd_records (qs_db st))" "rec = with_connectors row cs"
    using list_single [OF found] by blast
  have has: "has_record (qr_ID rec) (abs_path (qp @ [qn])) (qs_db ?st)"
    using row place(1) same with_connectors_ID with_connectors_path by (auto simp: has_record_def happened_def same_rows_def)
  have st1: "qs_world ?st = (fs, faults)" "journal_inv (qs_db ?st)" using st journal_inv_same [OF same] by (simp_all add: happened_def)
  have "restore_record env rec (abs_path (sp @ [sn])) ?st = (st', r)"
    using run found place(2) type by (auto simp: RestoreQuarantined_def Let_def)
  then show ?thesis by (rule restore_record_kept [OF st1 has fs place(1) nm(1,2) apart nm(3) x])
qed

subsection \<open>A run of each\<close>

definition demo_env :: quarantine_env where
  "demo_env = \<lparr>qe_uni = plain_map, qe_sha = demo_sha, qe_fuel = 3, qe_umask = 0x12, qe_Getwd = None, qe_json_object = (\<lambda>_. True),
     qe_QuarantineDir = ''/q'', qe_skillDirs = [''/s''], qe_pluginDirs = []\<rparr>"

definition demo_event :: InstallEvent where
  "demo_event = \<lparr>ev_Type = ''skill'', ev_Name = ''a'', ev_Path = ''/s/a'', ev_Connector = [], ev_Timestamp = 0\<rparr>"

definition demo_base :: ActionDB where
  "demo_base = \<lparr>db_actions = [], db_faults = [], db_times = [1, 2, 3, 4], db_ids = [''r'', ''n1'', ''n2'']\<rparr>"

definition demo_system :: quarantine_system where
  "demo_system = \<lparr>qs_world = (demo_fs, []), qs_db = empty_journal demo_base, qs_log = []\<rparr>"

lemma demo_planned:
  "NewAssetQuarantinePlan demo_sha 3 None ''/q'' [''/s''] ''skill'' ''a'' [] ''/s/a'' (demo_fs, []) = ((demo_fs, []), Inr demo_plan)"
  by code_simp

lemma demo_created: "case snd (CreateQuarantineRecord plain_map (\<lambda>_. True) (quarantine_input demo_event [] demo_plan) (empty_journal demo_base)) of
    Inr rec \<Rightarrow> qr_ID rec = ''r'' \<and> qr_State rec = ''pending'' | _ \<Rightarrow> False"
  by code_simp

lemma demo_moved: "fst (qs_world (quarantine_files demo_env [] demo_event demo_system)) = demo_quarantined"
proof -
  obtain db rec where c: "CreateQuarantineRecord plain_map (\<lambda>_. True) (quarantine_input demo_event [] demo_plan) (empty_journal demo_base) = (db, Inr rec)"
    and rec: "qr_ID rec = ''r''" "qr_State rec \<noteq> QuarantineStateRestoring"
    using demo_created by (cases "CreateQuarantineRecord plain_map (\<lambda>_. True) (quarantine_input demo_event [] demo_plan) (empty_journal demo_base)")
      (auto simp: QuarantineStateRestoring_def split: sum.splits)
  have "quarantine_files demo_env [] demo_event demo_system = move_to_quarantine demo_env ''/s/a'' demo_plan ''r'' (demo_fs, []) db demo_system"
    using demo_planned c rec by (simp add: quarantine_files_def demo_env_def demo_event_def demo_system_def sourceRootsFor_def)
  also have "fst (qs_world \<dots>) = demo_quarantined"
    using demo_run by (simp add: move_to_quarantine_def demo_env_def happened_def split: prod.splits sum.splits)
  finally show ?thesis .
qed

lemma demo_root: "asset_path [] ''q''" "quarantine_dir ([] @ [''q'']) (ev_Type demo_event) [] = [''q'', ''skills'']"
  by (code_simp)+

theorem quarantine_never_orphans_witness:
  "\<exists>x. get (fst (qs_world (quarantine_files demo_env [] demo_event demo_system))) [''q'', ''skills'', ''a''] = Some x \<and>
     journalled demo_sha [''s'', ''a''] [''q'', ''skills'', ''a''] x (qs_db (quarantine_files demo_env [] demo_event demo_system))"
proof -
  have "journal_inv (empty_journal demo_base)" by (simp add: journal_inv_def empty_journal_def rows_ok_def action_inv_def demo_base_def)
  then show ?thesis
    using quarantine_never_orphans [of demo_env "[]" "''q''" demo_event "[''s'']" "''a''" demo_system demo_fs "[]" demo_tree "[''q'', ''skills'']" "[]", OF _ demo_root(1) _ demo_names(5)]
      demo_places demo_link_free demo_root(2) demo_moved demo_quarantined_places(3) by (auto simp: demo_env_def demo_event_def demo_system_def abs_path_def parallel_def)
qed

definition demo_input :: CreateQuarantineRecordInput where
  "demo_input = \<lparr>ci_TargetType = ''skill'', ci_TargetName = ''a'', ci_OriginalPath = ''/s/a'', ci_QuarantinePath = ''/q/skills/a'',
     ci_ContentHash = demo_hash, ci_Reason = [], ci_State = ''active'', ci_OwnershipJSON = [], ci_Connectors = [[]]\<rparr>"

definition demo_held :: quarantine_system where
  "demo_held = \<lparr>qs_world = (demo_quarantined, []), qs_db = fst (CreateQuarantineRecord plain_map (\<lambda>_. True) demo_input (empty_journal demo_base)), qs_log = []\<rparr>"

lemma demo_listed: "case ListQuarantineRecordsForConnector ''skill'' ''a'' [] (qs_db demo_held) of
    (db, Inr [rec]) \<Rightarrow> qr_ID rec = ''r'' \<and> qr_QuarantinePath rec = ''/q/skills/a'' \<and> restore_destination None rec [] = Some ''/s/a'' \<and>
      restore_plan demo_env rec ''/s/a'' = demo_restore \<and>
      (case UpdateQuarantineRecordState ''r'' ''restoring'' ''/s/a'' db of
         (db1, Inr u) \<Rightarrow> snd (CompleteQuarantineRestore ''r'' ''/s/a'' db1) = Inr () | _ \<Rightarrow> False)
  | _ \<Rightarrow> False"
  by code_simp

lemma demo_rec:
  obtains db rec db1 where "ListQuarantineRecordsForConnector ''skill'' ''a'' [] (qs_db demo_held) = (db, Inr [rec])"
    "qr_ID rec = ''r''" "qr_QuarantinePath rec = ''/q/skills/a''" "restore_destination None rec [] = Some ''/s/a''"
    "restore_plan demo_env rec ''/s/a'' = demo_restore" "UpdateQuarantineRecordState ''r'' ''restoring'' ''/s/a'' db = (db1, Inr ())"
    "snd (CompleteQuarantineRestore ''r'' ''/s/a'' db1) = Inr ()"
  using demo_listed by (auto split: prod.splits sum.splits list.splits)

lemma demo_success: "snd (RestoreQuarantined demo_env ''skill'' ''a'' [] [] demo_held) = Inr ()"
proof -
  obtain db rec db1 where r: "ListQuarantineRecordsForConnector ''skill'' ''a'' [] (qs_db demo_held) = (db, Inr [rec])"
    "qr_ID rec = ''r''" "restore_destination None rec [] = Some ''/s/a''"
    "restore_plan demo_env rec ''/s/a'' = demo_restore" "UpdateQuarantineRecordState ''r'' ''restoring'' ''/s/a'' db = (db1, Inr ())"
    "snd (CompleteQuarantineRestore ''r'' ''/s/a'' db1) = Inr ()" by (rule demo_rec)
  have w: "qs_world demo_held = (demo_quarantined, [])" by (simp add: demo_held_def)
  have "snd (restore_record demo_env rec ''/s/a'' (happened [] (qs_world demo_held) db demo_held)) = Inr ()"
    using r demo_back w by (auto simp: restore_record_def happened_def QuarantineStateRestoring_def demo_env_def split: prod.splits sum.splits)
  moreover have "TrimSpace ''skill'' = ''skill''" "TrimSpace ''a'' = ''a''" by (code_simp)+
  ultimately show ?thesis using r by (simp add: RestoreQuarantined_def demo_env_def)
qed

theorem restore_keeps_provenance_witness:
  "get (fst (qs_world (fst (RestoreQuarantined demo_env ''skill'' ''a'' [] [] demo_held)))) [''s'', ''a''] = Some demo_tree \<and>
   \<not> has_record ''r'' ''/q/skills/a'' (qs_db (fst (RestoreQuarantined demo_env ''skill'' ''a'' [] [] demo_held)))"
proof -
  obtain st' where run: "RestoreQuarantined demo_env ''skill'' ''a'' [] [] demo_held = (st', Inr ())" using demo_success by (metis prod.collapse)
  obtain db rec where l: "ListQuarantineRecordsForConnector ''skill'' ''a'' [] (qs_db demo_held) = (db, Inr [rec])"
    and rec: "qr_ID rec = ''r''" "qr_QuarantinePath rec = ''/q/skills/a''" "restore_destination None rec [] = Some ''/s/a''" by (rule demo_rec)
  have "action_inv demo_base" by (simp add: action_inv_def demo_base_def)
  then have "journal_reach plain_map (\<lambda>_. True) (qs_db demo_held)" unfolding demo_held_def by (simp add: journal_reach.create journal_reach.start)
  then have inv: "journal_inv (qs_db demo_held)" by (rule journal_reach_inv)
  have trim: "TrimSpace ''skill'' = ''skill''" "TrimSpace ''a'' = ''a''" "TrimSpace [] = []" by (code_simp)+
  have sg: "''a'' \<noteq> ''.defenseclaw-restore-'' @ qr_ID rec" by simp
  have abs: "''/q/skills/a'' = abs_path ([''q'', ''skills''] @ [''a''])" "''/s/a'' = abs_path ([''s''] @ [''a''])" by (simp_all add: abs_path_def)
  have w: "qs_world demo_held = (demo_quarantined, [])" by (simp add: demo_held_def)
  have apart: "[''q'', ''skills''] @ [''a''] \<parallel> [''s'']" by (simp add: parallel_def)
  have l': "ListQuarantineRecordsForConnector (TrimSpace ''skill'') (TrimSpace ''a'') (TrimSpace []) (qs_db demo_held) = (db, Inr [rec])" using l by (simp only: trim)
  have p: "qr_QuarantinePath rec = abs_path ([''q'', ''skills''] @ [''a''])" "restore_destination (qe_Getwd demo_env) rec [] = Some (abs_path ([''s''] @ [''a'']))"
    using rec(2,3) abs by (simp_all add: demo_env_def)
  have t: "TrimSpace ''skill'' \<in> {''skill'', ''plugin''}" using trim(1) by simp
  have g: "get demo_quarantined ([''q'', ''skills''] @ [''a'']) = Some demo_tree" "link_free demo_quarantined ([''s''] @ [''a''])"
    "demo_tree = (case get demo_quarantined ([''s''] @ [''a'']) of None \<Rightarrow> demo_tree | Some y \<Rightarrow> y)"
    using demo_quarantined_places demo_quarantined_link_free by simp_all
  from restore_keeps_provenance [OF run l' p t w inv demo_quarantined_places(1) g(1,2) demo_tree_no_link demo_names(4,5) sg apart g(3)]
  have "get (fst (qs_world st')) [''s'', ''a''] = Some demo_tree \<and> \<not> has_record (qr_ID rec) (abs_path ([''q'', ''skills''] @ [''a''])) (qs_db st')" by simp
  then show ?thesis using run rec(1) abs by simp
qed

end
