(* ===== verification/Watcher_Snapshot.thy ===== *)
theory Watcher_Snapshot
  imports Enforce_QuarantineTree Net_Guard "HOL-Library.AList" "HOL-Library.Multiset"
begin

text \<open>
  The snapshot of an installed target (\<^verbatim>\<open>watcher/snapshot.go\<close>) on the file system model: \<open>filepath.Walk\<close> with a visitor that hashes
  every file it reaches and collects dependency manifests, configuration files and network endpoints.

  The regular expression that finds URLs, \<open>url.Parse\<close> and \<open>net.ParseIP\<close> are arguments, as is SHA-256.  A Go map is the list of its
  entries; the set of endpoints a list without duplicates.  The number of errors only limits what is printed and is left
  out, as is the time of the snapshot.  Paths are absolute.  Opening a named pipe blocks, and then the
  walk has the result \<open>WalkBlocked\<close>, which stands for a call that never returns.
\<close>

subsection \<open>Walking a tree\<close>

datatype walk_error = SkipDir | SkipAll | WalkFailed sys_err | WalkFuel | WalkBlocked

type_synonym 's walk_fn = "string \<Rightarrow> node option \<Rightarrow> sys_err option \<Rightarrow> 's \<Rightarrow> world \<Rightarrow> world \<times> 's \<times> walk_error option"

text \<open>\<open>filepath.Walk\<close>: the visitor gets the path, what \<open>os.Lstat\<close> found there, and the error of \<open>os.Lstat\<close> or of reading the directory.\<close>

fun walk_tree :: "nat \<Rightarrow> 's walk_fn \<Rightarrow> string \<Rightarrow> node \<Rightarrow> 's \<Rightarrow> world \<Rightarrow> world \<times> 's \<times> walk_error option"
  and walk_names :: "nat \<Rightarrow> 's walk_fn \<Rightarrow> string \<Rightarrow> string list \<Rightarrow> 's \<Rightarrow> world \<Rightarrow> world \<times> 's \<times> walk_error option" where
  "walk_tree 0 fn path info s w = (w, s, Some WalkFuel)"
| "walk_tree (Suc fuel) fn path info s w =
     (if \<not> dir_node info then fn path (Some info) None s w
      else case ReadDir path w of
        (w1, Inl e) \<Rightarrow> fn path (Some info) (Some e) s w1
      | (w1, Inr ns) \<Rightarrow>
          (case fn path (Some info) None s w1 of
             (w2, s2, Some err) \<Rightarrow> (w2, s2, Some err)
           | (w2, s2, None) \<Rightarrow> walk_names fuel fn path ns s2 w2))"
| "walk_names fuel fn path [] s w = (w, s, None)"
| "walk_names fuel fn path (n # ns) s w =
     (case Lstat (path_Join [path, n]) w of
        (w1, Inl e) \<Rightarrow>
          (case fn (path_Join [path, n]) None (Some e) s w1 of
             (w2, s2, Some err) \<Rightarrow> if err \<noteq> SkipDir then (w2, s2, Some err) else walk_names fuel fn path ns s2 w2
           | (w2, s2, None) \<Rightarrow> walk_names fuel fn path ns s2 w2)
      | (w1, Inr info) \<Rightarrow>
          (case walk_tree fuel fn (path_Join [path, n]) info s w1 of
             (w2, s2, Some err) \<Rightarrow> if \<not> dir_node info \<or> err \<noteq> SkipDir then (w2, s2, Some err) else walk_names fuel fn path ns s2 w2
           | (w2, s2, None) \<Rightarrow> walk_names fuel fn path ns s2 w2))"

definition Walk :: "nat \<Rightarrow> 's walk_fn \<Rightarrow> string \<Rightarrow> 's \<Rightarrow> world \<Rightarrow> world \<times> 's \<times> walk_error option" where
  "Walk fuel fn root_path s w =
     (case (case Lstat root_path w of
              (w1, Inl e) \<Rightarrow> fn root_path None (Some e) s w1
            | (w1, Inr info) \<Rightarrow> walk_tree fuel fn root_path info s w1) of
        (w2, s2, err) \<Rightarrow> (w2, s2, if err = Some SkipDir \<or> err = Some SkipAll then None else err))"

text \<open>\<open>filepath.EvalSymlinks\<close> of an absolute path follows at most 255 links.\<close>

definition EvalSymlinks :: "string \<Rightarrow> string io" where
  "EvalSymlinks path = atomic_call (\<lambda>fs. (fs,
     case walk True 255 fs [] (split_on (CHR ''/'') path) of
       Inl e \<Rightarrow> Inl e
     | Inr p \<Rightarrow> if get fs p = None then Inl ENOENT else Inr (abs_path p)))"

definition path_Ext :: "string \<Rightarrow> string" where
  "path_Ext path =
     (let element = takeWhile (\<lambda>c. c \<noteq> CHR ''/'') (rev path); ext = takeWhile (\<lambda>c. c \<noteq> CHR ''.'') element
      in if length ext < length element then CHR ''.'' # rev ext else [])"

definition TrimRight :: "string \<Rightarrow> string \<Rightarrow> string" where
  "TrimRight s cutset = rev (dropWhile (\<lambda>c. List.member cutset c) (rev s))"

subsection \<open>Files\<close>

definition dependencyFiles :: "string list" where
  "dependencyFiles = [''requirements.txt'', ''package.json'', ''package-lock.json'', ''pyproject.toml'', ''go.mod'', ''go.sum'',
     ''Gemfile'', ''Gemfile.lock'', ''Cargo.toml'', ''Cargo.lock'']"

definition configFiles :: "string list" where
  "configFiles = [''skill.yaml'', ''skill.yml'', ''mcp.json'', ''mcp.yaml'', ''config.yaml'', ''config.yml'', ''config.json'',
     ''manifest.json'', ''.env'', ''.env.local'']"

definition codeExtensions :: "string list" where
  "codeExtensions = [''.py'', ''.js'', ''.ts'', ''.go'', ''.rb'', ''.java'', ''.rs'', ''.php'', ''.sh'', ''.bash'']"

definition skippedDirs :: "string list" where
  "skippedDirs = [''.git'', ''node_modules'', ''__pycache__'', ''.venv'', ''venv'']"

definition ignoredHostnames :: "string list" where
  "ignoredHostnames = [''localhost'', ''example.com'', ''www.example.com'', ''127.0.0.1'', ''::1'', ''0.0.0.0'']"

record snapshot_env =
  se_uni :: unicode_map
  se_sha :: "string \<Rightarrow> string"
  se_fuel :: nat
  se_urlPattern :: "string \<Rightarrow> string list"
  se_Parse :: "string \<Rightarrow> URL option"
  se_ParseIP :: "string \<Rightarrow> IP"

definition isIgnoredEndpoint :: "snapshot_env \<Rightarrow> string \<Rightarrow> bool" where
  "isIgnoredEndpoint env raw =
     (case se_Parse env raw of
        None \<Rightarrow> False
      | Some parsed \<Rightarrow>
          if u_Host parsed = [] then False
          else if u_HasUser parsed then False
          else let host = ToLower (se_uni env) (u_Hostname parsed) in
            if List.member ignoredHostnames host then True
            else se_ParseIP env host \<noteq> NilIP \<and> IsLoopback (se_ParseIP env host))"

definition maxScanSize :: nat where
  "maxScanSize = 512 * 1024"

definition trailing_punctuation :: string where
  "trailing_punctuation = ''.,;:'' @ [CHR 0x22, CHR 0x27, CHR '')'']"

text \<open>The loop of \<open>extractEndpoints\<close> over the matches.\<close>

fun endpoints_loop :: "snapshot_env \<Rightarrow> string list \<Rightarrow> string list \<Rightarrow> string list" where
  "endpoints_loop env [] found = found"
| "endpoints_loop env (m # ms) found =
     (let normalized = TrimRight m trailing_punctuation in
      if isIgnoredEndpoint env normalized \<or> List.member found normalized then endpoints_loop env ms found
      else endpoints_loop env ms (found @ [normalized]))"

definition endpoints_in :: "snapshot_env \<Rightarrow> string \<Rightarrow> string list" where
  "endpoints_in env data = endpoints_loop env (se_urlPattern env (take maxScanSize data)) []"

definition extractEndpoints :: "snapshot_env \<Rightarrow> string \<Rightarrow> world \<Rightarrow> world \<times> string list" where
  "extractEndpoints env path w =
     (case ReadFile path w of (w1, Inl e) \<Rightarrow> (w1, []) | (w1, Inr data) \<Rightarrow> (w1, endpoints_in env data))"

definition hashFile :: "snapshot_env \<Rightarrow> string \<Rightarrow> string io" where
  "hashFile env path w =
     (case ReadFile path w of (w1, Inl e) \<Rightarrow> (w1, Inl e) | (w1, Inr data) \<Rightarrow> (w1, Inr (hex_encode (se_sha env data))))"

subsection \<open>The snapshot\<close>

record TargetSnapshot =
  ts_ContentHash :: string
  ts_DependencyHashes :: "(string \<times> string) list"
  ts_ConfigHashes :: "(string \<times> string) list"
  ts_NetworkEndpoints :: "string list"

record snapshot_walk =
  sw_deps :: "(string \<times> string) list"
  sw_configs :: "(string \<times> string) list"
  sw_endpoints :: "string list"
  sw_hashes :: "string list"

definition note_hash :: "string \<Rightarrow> string \<Rightarrow> string \<Rightarrow> snapshot_walk \<Rightarrow> snapshot_walk" where
  "note_hash rel base h s =
     s\<lparr>sw_hashes := sw_hashes s @ [rel @ '':'' @ h],
       sw_deps := (if List.member dependencyFiles base then AList.update rel h (sw_deps s) else sw_deps s),
       sw_configs := (if List.member configFiles base then AList.update rel h (sw_configs s) else sw_configs s)\<rparr>"

definition note_endpoints :: "string list \<Rightarrow> snapshot_walk \<Rightarrow> snapshot_walk" where
  "note_endpoints eps s = s\<lparr>sw_endpoints := fold List.insert eps (sw_endpoints s)\<rparr>"

definition is_code :: "snapshot_env \<Rightarrow> string \<Rightarrow> bool" where
  "is_code env path = List.member codeExtensions (ToLower (se_uni env) (path_Ext path))"

text \<open>The error of \<open>filepath.Rel\<close> is dropped, leaving the empty string.\<close>

definition visit_file :: "snapshot_env \<Rightarrow> string \<Rightarrow> string \<Rightarrow> snapshot_walk \<Rightarrow> world \<Rightarrow> world \<times> snapshot_walk \<times> walk_error option" where
  "visit_file env root_path path s w =
     (let rel = (case path_Rel root_path path of Some r \<Rightarrow> r | None \<Rightarrow> []) in
      case hashFile env path w of
        (w1, Inl EBLOCKED) \<Rightarrow> (w1, s, Some WalkBlocked)
      | (w1, Inl e) \<Rightarrow> (w1, s, None)
      | (w1, Inr h) \<Rightarrow>
          let s1 = note_hash rel (path_base path) h s in
          if is_code env path then (case extractEndpoints env path w1 of (w2, eps) \<Rightarrow> (w2, note_endpoints eps s1, None))
          else (w1, s1, None))"

definition visit_dir :: "string \<Rightarrow> string \<Rightarrow> string \<Rightarrow> snapshot_walk \<Rightarrow> world \<Rightarrow> world \<times> snapshot_walk \<times> walk_error option" where
  "visit_dir root_path realRoot path s w =
     (if List.member skippedDirs (path_base path) then (w, s, Some SkipDir)
      else if path \<noteq> root_path then
        (case EvalSymlinks path w of
           (w1, Inr realDir) \<Rightarrow> (w1, s, if \<not> HasPrefix realDir (realRoot @ ''/'') \<and> realDir \<noteq> realRoot then Some SkipDir else None)
         | (w1, Inl e) \<Rightarrow> (w1, s, None))
      else (w, s, None))"

definition snapshot_visit :: "snapshot_env \<Rightarrow> string \<Rightarrow> string \<Rightarrow> snapshot_walk walk_fn" where
  "snapshot_visit env root_path realRoot path info err s w =
     (case (err, info) of
        (None, Some (Lnk _)) \<Rightarrow> (w, s, None)
      | (None, Some (Dir _ _)) \<Rightarrow> visit_dir root_path realRoot path s w
      | (None, Some _) \<Rightarrow> visit_file env root_path path s w
      | _ \<Rightarrow> (w, s, None))"

definition content_stream :: "string list \<Rightarrow> string" where
  "content_stream entries = concat (map (\<lambda>e. e @ [CHR 0x0A]) (sort entries))"

definition finish_snapshot :: "snapshot_env \<Rightarrow> snapshot_walk \<Rightarrow> TargetSnapshot" where
  "finish_snapshot env s =
     \<lparr>ts_ContentHash = hex_encode (se_sha env (content_stream (sw_hashes s))), ts_DependencyHashes = sw_deps s,
      ts_ConfigHashes = sw_configs s, ts_NetworkEndpoints = sort (sw_endpoints s)\<rparr>"

definition empty_walk :: snapshot_walk where
  "empty_walk = \<lparr>sw_deps = [], sw_configs = [], sw_endpoints = [], sw_hashes = []\<rparr>"

definition SnapshotTarget :: "snapshot_env \<Rightarrow> string \<Rightarrow> world \<Rightarrow> world \<times> (walk_error + TargetSnapshot)" where
  "SnapshotTarget env root_path w =
     (case EvalSymlinks root_path w of (w0, real) \<Rightarrow>
      let realRoot = (case real of Inr p \<Rightarrow> p | Inl _ \<Rightarrow> root_path) in
      case Walk (se_fuel env) (snapshot_visit env root_path realRoot) root_path empty_walk w0 of
        (w1, s, Some err) \<Rightarrow> (w1, Inl err)
      | (w1, s, None) \<Rightarrow> (w1, Inr (finish_snapshot env s)))"

subsection \<open>What is visible of a tree\<close>

text \<open>The files that a walk without faults reaches, with their place below the root, in the order of the walk.\<close>

function (sequential) visible_entries :: "string list \<Rightarrow> (string \<times> node) list \<Rightarrow> (string list \<times> string) list" where
  "visible_entries q [] = []"
| "visible_entries q ((n, Dir m es) # rest) =
     (if List.member skippedDirs n then [] else visible_entries (q @ [n]) es) @ visible_entries q rest"
| "visible_entries q ((n, Reg m bytes) # rest) = (q @ [n], bytes) # visible_entries q rest"
| "visible_entries q ((n, x) # rest) = visible_entries q rest"
  by pat_completeness auto
termination
  by (relation "measure (\<lambda>(q, es). size_list (\<lambda>e. size (snd e) + 1) es)") (auto simp: size_prod_def case_prod_unfold)

definition visible_files :: "string \<Rightarrow> (string \<times> node) list \<Rightarrow> (string list \<times> string) list" where
  "visible_files n es = (if List.member skippedDirs n then [] else visible_entries [] es)"

text \<open>Whether the walk comes to a special node.\<close>

function (sequential) visible_pipe :: "(string \<times> node) list \<Rightarrow> bool" where
  "visible_pipe [] = False"
| "visible_pipe ((n, Dir m es) # rest) = (\<not> List.member skippedDirs n \<and> visible_pipe es \<or> visible_pipe rest)"
| "visible_pipe ((n, Special) # rest) = True"
| "visible_pipe ((n, x) # rest) = visible_pipe rest"
  by pat_completeness auto
termination
  by (relation "measure (\<lambda>es. size_list (\<lambda>e. size (snd e) + 1) es)") (auto simp: size_prod_def case_prod_unfold)

definition pipe_visible :: "string \<Rightarrow> (string \<times> node) list \<Rightarrow> bool" where
  "pipe_visible n es \<longleftrightarrow> \<not> List.member skippedDirs n \<and> visible_pipe es"

definition note_file :: "snapshot_env \<Rightarrow> string list \<times> string \<Rightarrow> snapshot_walk \<Rightarrow> snapshot_walk" where
  "note_file env f s =
     (case f of (q, bytes) \<Rightarrow>
        let s1 = note_hash (rel_text q) (last q) (hex_encode (se_sha env bytes)) s
        in if is_code env (last q) then note_endpoints (endpoints_in env bytes) s1 else s1)"

definition snapshot_of :: "snapshot_env \<Rightarrow> (string list \<times> string) list \<Rightarrow> TargetSnapshot" where
  "snapshot_of env files = finish_snapshot env (fold (note_file env) files empty_walk)"

subsection \<open>The walk sees exactly the visible files\<close>

lemma EvalSymlinks_quiet:
  assumes "names p" "get fs p = Some x" "no_link (Some x)"
  shows "EvalSymlinks (abs_path p) (fs, []) = ((fs, []), Inr (abs_path p))"
proof -
  have lf: "link_free fs p" unfolding link_free_def
  proof (intro allI impI)
    fix q assume "prefix q p"
    then obtain r where r: "p = q @ r" by (auto simp: prefix_def)
    show "no_link (get fs q)"
    proof (cases "r = []")
      case True
      then show ?thesis using assms r by simp
    next
      case False
      then have "is_dir (get fs q)" using is_dir_prefix [of fs q r x] assms(2) r by simp
      then show ?thesis by (auto simp: is_dir_def no_link_def split: option.splits node.splits)
    qed
  qed
  have "walk True 255 fs [] (split_on (CHR ''/'') (abs_path p)) = Inr p"
  proof (cases "p = []")
    case True
    then show ?thesis by (simp add: abs_path_def)
  next
    case False
    have "walk True 255 fs [] p = Inr p" using walk_link_free [OF assms(1), of fs "[]" True 255] lf assms(2) by (auto simp: link_free_def)
    then show ?thesis unfolding split_abs_path [OF assms(1) False] by simp
  qed
  then show ?thesis using assms(2) by (simp add: EvalSymlinks_def call_no_fault)
qed

lemma path_Ext_abs: "path_name n \<Longrightarrow> path_Ext (abs_path (p @ [n])) = path_Ext n"
proof -
  assume "path_name n"
  then have n: "CHR ''/'' \<notin> set n" by (simp add: path_name_def)
  obtain s where s: "abs_path (p @ [n]) = s @ CHR ''/'' # n" using abs_path_snoc [of p n] by (cases "p = []") auto
  have a: "takeWhile (\<lambda>c. c \<noteq> CHR ''/'') (rev (abs_path (p @ [n]))) = rev n" unfolding s using rev_takeWhile [OF n, of "rev s"] by simp
  have b: "takeWhile (\<lambda>c. c \<noteq> CHR ''/'') (rev n) = rev n"
    unfolding takeWhile_eq_all_conv set_rev using n by blast
  show ?thesis unfolding path_Ext_def a b ..
qed

lemma rel_abs: "names (r @ q) \<Longrightarrow> path_Rel (abs_path r) (abs_path (r @ q)) = Some (rel_text q)"
  using path_Rel_abs [of r "r @ q"] drop_common_append [of r q] by (auto simp: rel_text_def)

lemma visit_file_quiet:
  assumes "names (r @ q @ [n])" "get fs (r @ q @ [n]) = Some (Reg m bytes)"
  shows "visit_file env (abs_path r) (abs_path (r @ q @ [n])) s (fs, []) = ((fs, []), note_file env (q @ [n], bytes) s, None)"
proof -
  have n: "path_name n" using assms(1) by simp
  have base: "path_base (abs_path (r @ q @ [n])) = n" using path_base_abs [of n "r @ q"] assms(1) by simp
  have code: "is_code env (abs_path (r @ q @ [n])) = is_code env n" using path_Ext_abs [OF n, of "r @ q"] by (simp add: is_code_def)
  show ?thesis unfolding visit_file_def note_file_def rel_abs [OF assms(1)] base code
    using ReadFile_quiet [OF assms] by (simp add: hashFile_def extractEndpoints_def Let_def)
qed

lemma ReadFile_special:
  assumes "names p" "get fs p = Some Special"
  shows "ReadFile (abs_path p) (fs, []) = ((fs, []), Inl EBLOCKED)"
  using look_get [OF assms, of True] by (simp add: ReadFile_def call_no_fault no_link_def)

lemma below_prefix: "names (r @ q) \<Longrightarrow> r \<noteq> [] \<Longrightarrow> q \<noteq> [] \<Longrightarrow> HasPrefix (abs_path (r @ q)) (abs_path r @ ''/'')"
proof (induction q rule: rev_induct)
  case (snoc n q)
  have eq: "abs_path (r @ q @ [n]) = abs_path (r @ q) @ ''/'' @ n" using abs_path_snoc [of "r @ q" n] snoc.prems(2) by simp
  show ?case
  proof (cases "q = []")
    case True
    then show ?thesis using eq by (simp add: HasPrefix_def)
  next
    case False
    then have "HasPrefix (abs_path (r @ q)) (abs_path r @ ''/'')" using snoc by simp
    then show ?thesis unfolding eq HasPrefix_def by (auto simp: prefix_def)
  qed
qed simp

lemma visit_dir_quiet:
  assumes "names (r @ q @ [n])" "get fs (r @ q @ [n]) = Some (Dir m es)" "r \<noteq> []"
  shows "visit_dir (abs_path r) (abs_path r) (abs_path (r @ q @ [n])) s (fs, []) =
    ((fs, []), s, if List.member skippedDirs n then Some SkipDir else None)"
proof -
  have base: "path_base (abs_path (r @ q @ [n])) = n" using path_base_abs [of n "r @ q"] assms(1) by simp
  have ne: "abs_path (r @ q @ [n]) \<noteq> abs_path r" using abs_path_inj [of "r @ q @ [n]" r] assms(1) by simp
  have ev: "EvalSymlinks (abs_path (r @ q @ [n])) (fs, []) = ((fs, []), Inr (abs_path (r @ q @ [n])))"
    using EvalSymlinks_quiet [OF assms(1,2)] by (simp add: no_link_def)
  show ?thesis unfolding visit_dir_def base using ne ev below_prefix [OF assms(1) assms(3)] by simp
qed

definition walks :: "snapshot_env \<Rightarrow> nat \<Rightarrow> node \<Rightarrow> string list \<Rightarrow> string list \<Rightarrow> node \<Rightarrow> bool" where
  "walks env k fs r q x \<longleftrightarrow> (\<forall>n s. q \<noteq> [] \<longrightarrow> n = last q \<longrightarrow> height x \<le> k \<longrightarrow>
     (if visible_pipe [(n, x)]
      then \<exists>s'. walk_tree k (snapshot_visit env (abs_path r) (abs_path r)) (abs_path (r @ q)) x s (fs, []) = ((fs, []), s', Some WalkBlocked)
      else \<exists>err. walk_tree k (snapshot_visit env (abs_path r) (abs_path r)) (abs_path (r @ q)) x s (fs, []) =
        ((fs, []), fold (note_file env) (visible_entries (butlast q) [(n, x)]) s, err) \<and> (err = None \<or> err = Some SkipDir \<and> dir_node x)))"

lemma walk_names_quiet:
  assumes "names (r @ q)" "\<forall>(n, x) \<in> set es. path_name n \<and> get fs (r @ q @ [n]) = Some x \<and> walks env k fs r (q @ [n]) x" "heights es \<le> k"
  shows "if visible_pipe es
    then \<exists>s'. walk_names k (snapshot_visit env (abs_path r) (abs_path r)) (abs_path (r @ q)) (map fst es) s (fs, []) = ((fs, []), s', Some WalkBlocked)
    else walk_names k (snapshot_visit env (abs_path r) (abs_path r)) (abs_path (r @ q)) (map fst es) s (fs, []) =
      ((fs, []), fold (note_file env) (visible_entries q es) s, None)"
  using assms(2,3)
proof (induction es arbitrary: s)
  case (Cons e es)
  let ?walk = "walk_names k (snapshot_visit env (abs_path r) (abs_path r)) (abs_path (r @ q))"
  obtain n x where e: "e = (n, x)" by fastforce
  have n: "path_name n" "get fs (r @ q @ [n]) = Some x" "walks env k fs r (q @ [n]) x" using Cons.prems(1) by (auto simp: e)
  have h: "height x \<le> k" "heights es \<le> k" using Cons.prems(2) by (simp_all add: e)
  have nm: "names (r @ q @ [n])" using assms(1) n(1) by simp
  have p: "path_Join [abs_path (r @ q), n] = abs_path (r @ q @ [n])" using path_Join_abs [OF assms(1) n(1)] by simp
  have l: "Lstat (abs_path (r @ q @ [n])) (fs, []) = ((fs, []), Inr x)" using Lstat_quiet [OF nm n(2)] .
  have split: "visible_entries q ((n, x) # es) = visible_entries q [(n, x)] @ visible_entries q es" by (cases x) simp_all
  have pipe: "visible_pipe ((n, x) # es) = (visible_pipe [(n, x)] \<or> visible_pipe es)" by (cases x) simp_all
  let ?tree = "walk_tree k (snapshot_visit env (abs_path r) (abs_path r)) (abs_path (r @ q @ [n])) x s (fs, [])"
  have one: "if visible_pipe [(n, x)] then \<exists>s'. ?tree = ((fs, []), s', Some WalkBlocked)
      else \<exists>err. ?tree = ((fs, []), fold (note_file env) (visible_entries q [(n, x)]) s, err) \<and> (err = None \<or> err = Some SkipDir \<and> dir_node x)"
    using n(3) [unfolded walks_def, THEN spec [of _ n], THEN spec [of _ s]] h(1) by (simp cong: if_cong)
  have ih: "if visible_pipe es then \<exists>s''. ?walk (map fst es) s' (fs, []) = ((fs, []), s'', Some WalkBlocked)
      else ?walk (map fst es) s' (fs, []) = ((fs, []), fold (note_file env) (visible_entries q es) s', None)" for s'
    using Cons.IH [of s'] Cons.prems(1) h(2) by simp
  show ?case
  proof (cases "visible_pipe [(n, x)]")
    case True
    then obtain s' where "?tree = ((fs, []), s', Some WalkBlocked)" using one by auto
    then show ?thesis unfolding e pipe using True by (simp add: p l)
  next
    case False
    then obtain err where err: "?tree = ((fs, []), fold (note_file env) (visible_entries q [(n, x)]) s, err)"
      "err = None \<or> err = Some SkipDir \<and> dir_node x" using one by auto
    have step: "?walk (map fst ((n, x) # es)) s (fs, []) = ?walk (map fst es) (fold (note_file env) (visible_entries q [(n, x)]) s) (fs, [])"
      using err by (auto simp: p l simp del: visible_entries.simps)
    show ?thesis unfolding e pipe step split using False ih [of "fold (note_file env) (visible_entries q [(n, x)]) s"]
      by (simp add: fold_append del: visible_entries.simps)
  qed
qed simp

lemma wf_children:
  assumes "wf_node fs" "names p" "get fs p = Some (Dir m es)"
  shows "\<forall>(n, c) \<in> set es. path_name n \<and> get fs (p @ [n]) = Some c"
proof clarify
  fix n c assume nc: "(n, c) \<in> set es"
  have wf: "wf_node (Dir m es)" using wf_get [OF assms(1,3)] .
  then have "map_of es n = Some c" using nc by simp
  then show "path_name n \<and> get fs (p @ [n]) = Some c" using wf_child [OF wf, of n c] get_append [of fs p "[n]"] assms(3) by simp
qed

lemma walks_get:
  assumes "wf_node fs" "names (r @ q)" "get fs (r @ q) = Some x" "r \<noteq> []"
  shows "walks env k fs r q x"
  using assms(2,3)
proof (induction k arbitrary: q x)
  case 0
  have "0 < height x" by (cases x) simp_all
  then show ?case by (simp add: walks_def)
next
  case (Suc k)
  show ?case unfolding walks_def
  proof (intro allI impI)
    fix n s assume q: "q \<noteq> []" "n = last q" and h: "height x \<le> Suc k"
    obtain q' where q': "q = q' @ [n]" using q by (metis append_butlast_last_id)
    have nm: "names (r @ q' @ [n])" and g: "get fs (r @ q' @ [n]) = Some x" using Suc.prems q' by simp_all
    let ?fn = "snapshot_visit env (abs_path r) (abs_path r)"
    let ?run = "walk_tree (Suc k) ?fn (abs_path (r @ q)) x s (fs, [])"
    let ?goal = "\<lambda>err. ?run = ((fs, []), fold (note_file env) (visible_entries (butlast q) [(n, x)]) s, err) \<and> (err = None \<or> err = Some SkipDir \<and> dir_node x)"
    show "if visible_pipe [(n, x)] then \<exists>s'. ?run = ((fs, []), s', Some WalkBlocked) else \<exists>err. ?goal err"
    proof (cases x)
      case (Reg m bytes)
      have "?goal None" using visit_file_quiet [OF nm g [unfolded Reg]] by (simp add: Reg q' snapshot_visit_def)
      then show ?thesis by (auto simp: Reg)
    next
      case (Dir m es)
      have wf: "wf_node (Dir m es)" using wf_get [OF assms(1) g] Dir by simp
      have rd: "ReadDir (abs_path (r @ q' @ [n])) (fs, []) = ((fs, []), Inr (map fst es))" using ReadDir_quiet [OF nm g [unfolded Dir] wf] .
      have vis: "?fn (abs_path (r @ q' @ [n])) (Some x) None s (fs, []) = ((fs, []), s, if List.member skippedDirs n then Some SkipDir else None)"
        using visit_dir_quiet [OF nm g [unfolded Dir] assms(4)] by (simp add: snapshot_visit_def Dir)
      have ch: "\<forall>(c, y) \<in> set es. path_name c \<and> get fs (r @ q @ [c]) = Some y \<and> walks env k fs r (q @ [c]) y"
        using wf_children [OF assms(1) Suc.prems(1) Suc.prems(2) [unfolded Dir]] Suc.IH Suc.prems(1) by fastforce
      have hs: "heights es \<le> k" using h by (simp add: Dir)
      note below = walk_names_quiet [OF Suc.prems(1) ch hs, of s]
      show ?thesis
      proof (cases "List.member skippedDirs n")
        case True
        then have "?goal (Some SkipDir)" using rd vis by (simp add: Dir q')
        then show ?thesis using True by (auto simp: Dir)
      next
        case False
        then have "?run = walk_names k ?fn (abs_path (r @ q)) (map fst es) s (fs, [])" using rd vis by (simp add: Dir q')
        then show ?thesis using below False by (auto simp: Dir q')
      qed
    next
      case (Lnk t)
      have "?goal None" by (simp add: Lnk q' snapshot_visit_def)
      then show ?thesis by (auto simp: Lnk)
    next
      case Special
      have "visit_file env (abs_path r) (abs_path (r @ q' @ [n])) s (fs, []) = ((fs, []), s, Some WalkBlocked)"
        using ReadFile_special [OF nm g [unfolded Special]] by (simp add: visit_file_def hashFile_def Let_def)
      then show ?thesis by (simp add: Special q' snapshot_visit_def)
    qed
  qed
qed

lemma walk_of_tree:
  assumes "wf_node fs" "names (p @ [n])" "get fs (p @ [n]) = Some (Dir m es)" "height (Dir m es) \<le> se_fuel env"
  shows "SnapshotTarget env (abs_path (p @ [n])) (fs, []) =
    ((fs, []), if pipe_visible n es then Inl WalkBlocked else Inr (snapshot_of env (visible_files n es)))"
proof -
  let ?r = "p @ [n]" and ?fn = "snapshot_visit env (abs_path (p @ [n])) (abs_path (p @ [n]))"
  obtain k where k: "se_fuel env = Suc k" "heights es \<le> k" using assms(4) by (cases "se_fuel env") auto
  have wf: "wf_node (Dir m es)" using wf_get [OF assms(1,3)] .
  have ev: "EvalSymlinks (abs_path ?r) (fs, []) = ((fs, []), Inr (abs_path ?r))" using EvalSymlinks_quiet [OF assms(2,3)] by (simp add: no_link_def)
  have rd: "ReadDir (abs_path ?r) (fs, []) = ((fs, []), Inr (map fst es))" using ReadDir_quiet [OF assms(2,3) wf] .
  have base: "path_base (abs_path ?r) = n" using assms(2) by simp
  have vis: "?fn (abs_path ?r) (Some (Dir m es)) None s (fs, []) = ((fs, []), s, if List.member skippedDirs n then Some SkipDir else None)" for s
    unfolding snapshot_visit_def by (simp add: visit_dir_def base)
  have ch: "\<forall>(c, y) \<in> set es. path_name c \<and> get fs (?r @ [] @ [c]) = Some y \<and> walks env k fs ?r ([] @ [c]) y"
    using wf_children [OF assms(1-3)] walks_get [OF assms(1)] assms(2) by fastforce
  have below: "if visible_pipe es then \<exists>s'. walk_names k ?fn (abs_path ?r) (map fst es) s (fs, []) = ((fs, []), s', Some WalkBlocked)
      else walk_names k ?fn (abs_path ?r) (map fst es) s (fs, []) = ((fs, []), fold (note_file env) (visible_entries [] es) s, None)" for s
  proof -
    have "names (?r @ [])" using assms(2) by simp
    from walk_names_quiet [OF this ch k(2), of s] show ?thesis by (simp only: append_Nil2)
  qed
  let ?walk = "Walk (se_fuel env) ?fn (abs_path ?r) empty_walk (fs, [])"
  have "if pipe_visible n es then \<exists>s'. ?walk = ((fs, []), s', Some WalkBlocked)
      else ?walk = ((fs, []), fold (note_file env) (visible_files n es) empty_walk, None)"
    using Lstat_quiet [OF assms(2,3)] rd vis below [of empty_walk]
    by (cases "List.member skippedDirs n") (auto simp: Walk_def k(1) visible_files_def pipe_visible_def)
  then show ?thesis using ev by (auto simp: SnapshotTarget_def snapshot_of_def split: if_splits)
qed

lemma snapshot_of_tree:
  assumes "wf_node fs" "names (p @ [n])" "get fs (p @ [n]) = Some (Dir m es)" "height (Dir m es) \<le> se_fuel env" "\<not> pipe_visible n es"
  shows "SnapshotTarget env (abs_path (p @ [n])) (fs, []) = ((fs, []), Inr (snapshot_of env (visible_files n es)))"
  using walk_of_tree [OF assms(1-4)] assms(5) by simp

subsection \<open>The content hash\<close>

definition entry_text :: "snapshot_env \<Rightarrow> string list \<times> string \<Rightarrow> string" where
  "entry_text env f = rel_text (fst f) @ '':'' @ hex_encode (se_sha env (snd f))"

lemma fold_hashes: "sw_hashes (fold (note_file env) files s) = sw_hashes s @ map (entry_text env) files"
  by (induction files arbitrary: s) (auto simp: note_file_def note_hash_def note_endpoints_def entry_text_def Let_def split: prod.splits)

lemma content_hash_of: "ts_ContentHash (snapshot_of env files) = hex_encode (se_sha env (content_stream (map (entry_text env) files)))"
  by (simp add: snapshot_of_def finish_snapshot_def fold_hashes empty_walk_def)

lemma split_lines: "\<forall>e \<in> set es. sep \<notin> set e \<Longrightarrow> split_on sep (concat (map (\<lambda>e. e @ [sep]) es)) = es @ [[]]"
  by (induction es) (auto simp: split_on_append)

lemma content_stream_inj:
  assumes "content_stream xs = content_stream ys" "\<forall>e \<in> set xs \<union> set ys. CHR 0x0A \<notin> set e"
  shows "mset xs = mset ys"
proof -
  have "\<forall>e \<in> set (sort xs). CHR 0x0A \<notin> set e" "\<forall>e \<in> set (sort ys). CHR 0x0A \<notin> set e" using assms(2) unfolding set_sort by blast+
  from this [THEN split_lines] have "split_on (CHR 0x0A) (content_stream xs) = sort xs @ [[]]" "split_on (CHR 0x0A) (content_stream ys) = sort ys @ [[]]"
    unfolding content_stream_def .
  then have "sort xs @ [[]] = sort ys @ [[]]" unfolding assms(1) by (rule HOL.trans [OF sym])
  then have "sort xs = sort ys" by (rule append_same_eq [THEN iffD1])
  then have "mset (sort xs) = mset (sort ys)" by simp
  then show ?thesis by simp
qed

lemma content_stream_perm: "mset xs = mset ys \<Longrightarrow> content_stream xs = content_stream ys"
  using properties_for_sort [of "sort ys" xs] by (simp add: content_stream_def)

lemma hex_digits: "c \<in> set (hex_encode s) \<Longrightarrow> \<exists>k < 16. c = digit k"
proof -
  assume "c \<in> set (hex_encode s)"
  then obtain d where "c = digit (byte_val d div 16) \<or> c = digit (byte_val d mod 16)" by (auto simp: hex_encode_def hex_byte_def)
  moreover have "byte_val d div 16 < 16" "byte_val d mod 16 < 16" using byte_val_less [of d] by auto
  ultimately show ?thesis by blast
qed

lemma digit_code: "k < 16 \<Longrightarrow> (of_char (digit k) :: nat) = (if k < 10 then 48 + k else 87 + k)"
  by (simp add: digit_def)

lemma hex_plain: "CHR 0x0A \<notin> set (hex_encode s)" "CHR ''/'' \<notin> set (hex_encode s)" "is_ascii (hex_encode s)"
proof -
  have "c \<noteq> CHR 0x0A \<and> c \<noteq> CHR ''/'' \<and> byte_val c < 128" if c: "c \<in> set (hex_encode s)" for c
  proof -
    obtain k where k: "k < 16" "c = digit k" using hex_digits [OF c] by blast
    then have v: "(of_char c :: nat) = (if k < 10 then 48 + k else 87 + k)" using digit_code by simp
    have "c = CHR 0x0A \<Longrightarrow> (of_char c :: nat) = 10" "c = CHR ''/'' \<Longrightarrow> (of_char c :: nat) = 47" by simp_all
    then show ?thesis using v k(1) by (auto simp: byte_val_def split: if_splits)
  qed
  then show "CHR 0x0A \<notin> set (hex_encode s)" "CHR ''/'' \<notin> set (hex_encode s)" "is_ascii (hex_encode s)" by (auto simp: is_ascii_def list_all_iff)
qed

lemma length_hex: "length (hex_encode s) = 2 * length s"
  by (induction s) (simp_all add: hex_encode_def hex_byte_def)

lemma rel_text_inj: "names p \<Longrightarrow> names q \<Longrightarrow> p \<noteq> [] \<Longrightarrow> q \<noteq> [] \<Longrightarrow> rel_text p = rel_text q \<Longrightarrow> p = q"
proof -
  assume n: "names p" "names q" "p \<noteq> []" "q \<noteq> []" and eq: "rel_text p = rel_text q"
  have slash: "\<forall>e \<in> set p. CHR ''/'' \<notin> set e" "\<forall>e \<in> set q. CHR ''/'' \<notin> set e" using n(1,2) unfolding path_name_def by blast+
  have "join ''/'' p = join ''/'' q" using eq n(3,4) by (simp only: rel_text_def if_False)
  then have "split_on (CHR ''/'') (join ''/'' p) = split_on (CHR ''/'') (join ''/'' q)" by (rule arg_cong)
  then show "p = q" unfolding join_slash_inj [OF n(3) slash(1)] join_slash_inj [OF n(4) slash(2)] .
qed

lemma visible_below: "(q', b) \<in> set (visible_entries q es) \<Longrightarrow> \<exists>n x t. (n, x) \<in> set es \<and> q' = q @ n # t"
proof (induction q es rule: visible_entries.induct)
  case (2 q n m es rest)
  show ?case
  proof (cases "(q', b) \<in> set (visible_entries q rest)")
    case True
    then show ?thesis using 2(2) by auto
  next
    case False
    then have "\<not> List.member skippedDirs n" "(q', b) \<in> set (visible_entries (q @ [n]) es)" using 2(3) by (auto split: if_splits)
    then obtain k t where "q' = (q @ [n]) @ k # t" using 2(1) by blast
    then show ?thesis by auto
  qed
next
  case (3 q n m bytes rest)
  then show ?case by auto
qed auto

lemma visible_names: "(q', b) \<in> set (visible_entries q es) \<Longrightarrow> wf_node (Dir m es) \<Longrightarrow> names q \<Longrightarrow> names q'"
proof (induction q es arbitrary: m rule: visible_entries.induct)
  case (2 q n m' es rest)
  then show ?case by (auto split: if_splits)
qed auto

lemma visible_distinct: "wf_node (Dir m es) \<Longrightarrow> distinct (map fst (visible_entries q es))"
proof (induction q es arbitrary: m rule: visible_entries.induct)
  case (2 q n m' es rest)
  have "wf_node (Dir m' es)" "wf_node (Dir m rest)" "n \<notin> fst ` set rest" using 2(3) by auto
  moreover have "(q', b) \<in> set (visible_entries q rest) \<Longrightarrow> \<not> (q', b') \<in> set (visible_entries (q @ [n]) es)" for q' b b'
    using visible_below [of q' b q rest] visible_below [of q' b' "q @ [n]" es] \<open>n \<notin> fst ` set rest\<close> by force
  ultimately show ?case using 2(1) [of m'] 2(2) [of m] by (auto split: if_splits)
next
  case (3 q n m' bytes rest)
  have "wf_node (Dir m rest)" "n \<notin> fst ` set rest" using 3(2) by auto
  moreover have "(q @ [n], b) \<notin> set (visible_entries q rest)" for b using visible_below [of "q @ [n]" b q rest] \<open>n \<notin> fst ` set rest\<close> by force
  ultimately show ?case using 3(1) [of m] by auto
qed auto

lemma entry_text_inj:
  assumes "entry_text env (p, a) = entry_text env (q, b)" "\<forall>x. length (se_sha env x) = 32" "names p" "names q" "p \<noteq> []" "q \<noteq> []"
  shows "p = q \<and> se_sha env a = se_sha env b"
proof -
  have "length (hex_encode (se_sha env a)) = length (hex_encode (se_sha env b))" using assms(2) by (simp add: length_hex)
  then have "rel_text p @ '':'' = rel_text q @ '':''" "hex_encode (se_sha env a) = hex_encode (se_sha env b)"
    using assms(1) append_eq_append_conv [of "hex_encode (se_sha env a)" "hex_encode (se_sha env b)" "rel_text p @ '':''" "rel_text q @ '':''"]
    unfolding entry_text_def by auto
  then show ?thesis using rel_text_inj [OF assms(3-6)] hex_encode_inj by blast
qed

definition lines_ok :: "(string list \<times> string) list \<Rightarrow> bool" where
  "lines_ok files \<longleftrightarrow> list_all (\<lambda>f. CHR 0x0A \<notin> set (rel_text (fst f))) files"

lemma entry_no_newline: "CHR 0x0A \<notin> set (rel_text (fst f)) \<Longrightarrow> CHR 0x0A \<notin> set (entry_text env f)"
  using hex_plain(1) by (auto simp: entry_text_def)

definition proper :: "(string list \<times> string) list \<Rightarrow> bool" where
  "proper files \<longleftrightarrow> distinct (map fst files) \<and> (\<forall>f \<in> set files. names (fst f) \<and> fst f \<noteq> [])"

lemma proper_visible: "wf_node (Dir m es) \<Longrightarrow> proper (visible_files n es)"
proof -
  assume wf: "wf_node (Dir m es)"
  have "names q \<and> q \<noteq> []" if "(q, b) \<in> set (visible_entries [] es)" for q b
    using visible_names [OF that wf] visible_below [OF that] by auto
  then show ?thesis using visible_distinct [OF wf, of "[]"] by (auto simp: proper_def visible_files_def)
qed

lemma same_entries_sub:
  assumes "entry_text env ` set F = entry_text env ` set G" "proper F" "proper G" "\<forall>x. length (se_sha env x) = 32" "inj_on (se_sha env) (snd ` (set F \<union> set G))"
  shows "set F \<subseteq> set G"
proof clarify
  fix p a assume f: "(p, a) \<in> set F"
  then obtain q b where g: "(q, b) \<in> set G" "entry_text env (p, a) = entry_text env (q, b)" using assms(1) by (metis imageE imageI surj_pair)
  have n: "names p" "p \<noteq> []" using assms(2) f unfolding proper_def by (metis fst_conv)+
  have n': "names q" "q \<noteq> []" using assms(3) g(1) unfolding proper_def by (metis fst_conv)+
  have eq: "p = q \<and> se_sha env a = se_sha env b" by (rule entry_text_inj [OF g(2) assms(4) n(1) n'(1) n(2) n'(2)])
  have "a \<in> snd ` (set F \<union> set G)" "b \<in> snd ` (set F \<union> set G)" using f g(1) by force+
  then have "a = b" using inj_onD [OF assms(5) eq [THEN conjunct2]] by simp
  then show "(p, a) \<in> set G" using g(1) eq by simp
qed

lemma content_hash_iff:
  assumes "proper F" "proper G" "lines_ok F" "lines_ok G" "\<forall>x. length (se_sha env x) = 32"
    "inj_on (se_sha env) (snd ` (set F \<union> set G) \<union> content_stream ` {map (entry_text env) F, map (entry_text env) G})"
  shows "ts_ContentHash (snapshot_of env F) = ts_ContentHash (snapshot_of env G) \<longleftrightarrow> set F = set G"
proof
  assume "ts_ContentHash (snapshot_of env F) = ts_ContentHash (snapshot_of env G)"
  then have "se_sha env (content_stream (map (entry_text env) F)) = se_sha env (content_stream (map (entry_text env) G))"
    unfolding content_hash_of by (rule hex_encode_inj)
  then have "content_stream (map (entry_text env) F) = content_stream (map (entry_text env) G)" by (rule inj_onD [OF assms(6)]) simp_all
  moreover have "\<forall>e \<in> set (map (entry_text env) F) \<union> set (map (entry_text env) G). CHR 0x0A \<notin> set e"
  proof
    fix e assume "e \<in> set (map (entry_text env) F) \<union> set (map (entry_text env) G)"
    then obtain f where f: "e = entry_text env f" "f \<in> set F \<union> set G" by auto
    have "CHR 0x0A \<notin> set (rel_text (fst f))" using assms(3,4) f(2) unfolding lines_ok_def list_all_iff by blast
    then show "CHR 0x0A \<notin> set e" unfolding f(1) by (rule entry_no_newline)
  qed
  ultimately have "mset (map (entry_text env) F) = mset (map (entry_text env) G)" by (rule content_stream_inj)
  then have "set (map (entry_text env) F) = set (map (entry_text env) G)" by (rule mset_eq_setD)
  then have eq: "entry_text env ` set F = entry_text env ` set G" by simp
  have inj: "inj_on (se_sha env) (snd ` (set F \<union> set G))" using assms(6) by (rule inj_on_subset) blast
  then have inj': "inj_on (se_sha env) (snd ` (set G \<union> set F))" by (simp add: Un_commute)
  show "set F = set G" by (rule equalityI [OF same_entries_sub [OF eq assms(1,2,5) inj] same_entries_sub [OF eq [symmetric] assms(2,1,5) inj']])
next
  assume eq: "set F = set G"
  have "distinct F" "distinct G" using assms(1,2) by (auto simp: proper_def distinct_map)
  then have "mset F = mset G" using eq by (simp add: set_eq_iff_mset_eq_distinct)
  then have "mset (map (entry_text env) F) = mset (map (entry_text env) G)" by simp
  then have "content_stream (map (entry_text env) F) = content_stream (map (entry_text env) G)" by (rule content_stream_perm)
  then show "ts_ContentHash (snapshot_of env F) = ts_ContentHash (snapshot_of env G)" unfolding content_hash_of by (simp only:)
qed

subsection \<open>Properties\<close>

text \<open>
  C9. On a directory in a healthy file system the snapshot changes nothing.  If a special node, taken for a named pipe, is among what is reached
  from the root through directories none of which, the root included, has one of the five names that are skipped, the call never returns;
  otherwise it returns, and is exactly the digest of the regular files that are reached.
\<close>

theorem snapshot_reads_visible_files:
  assumes "wf_node fs" "names (p @ [n])" "get fs (p @ [n]) = Some (Dir m es)" "height (Dir m es) \<le> se_fuel env"
  shows "SnapshotTarget env (abs_path (p @ [n])) (fs, []) =
    ((fs, []), if pipe_visible n es then Inl WalkBlocked else Inr (snapshot_of env (visible_files n es)))"
  using assms by (rule walk_of_tree)

definition sample_env :: snapshot_env where
  "sample_env = \<lparr>se_uni = plain_map, se_sha = (\<lambda>s. take 32 (s @ replicate 32 (CHR ''-''))), se_fuel = 5,
     se_urlPattern = (\<lambda>s. if HasPrefix s ''http://a'' then [s] else []), se_Parse = (\<lambda>s. None), se_ParseIP = (\<lambda>s. NilIP)\<rparr>"

definition sample_tree :: node where
  "sample_tree = Dir 0x1ED [(''a'', Dir 0x1ED [(''lib'', Dir 0x1ED [(''x.py'', Reg 0x1A4 ''http://a.b.''), (''y'', Lnk ''/'')]),
     (''package.json'', Reg 0x1A4 ''{}''), (''venv'', Dir 0x1ED [(''z'', Reg 0x1A4 ''hidden'')])])]"

definition sample_entries :: "(string \<times> node) list" where
  "sample_entries = (case sample_tree of Dir _ [(_, Dir _ es)] \<Rightarrow> es | _ \<Rightarrow> [])"

lemma sample_visible: "visible_files ''a'' sample_entries = [([''lib'', ''x.py''], ''http://a.b.''), ([''package.json''], ''{}'')]"
  by code_simp

theorem snapshot_reads_visible_files_witness:
  "wf_node sample_tree \<and> snd (SnapshotTarget sample_env (abs_path [''a'']) (sample_tree, [])) =
     Inr (snapshot_of sample_env [([''lib'', ''x.py''], ''http://a.b.''), ([''package.json''], ''{}'')])"
proof -
  have wf: "wf_node sample_tree" by code_simp
  have get: "get sample_tree ([] @ [''a'']) = Some (Dir 0x1ED sample_entries)" by code_simp
  have h: "height (Dir 0x1ED sample_entries) \<le> se_fuel sample_env" by code_simp
  have nm: "names ([] @ [''a''])" by code_simp
  have "\<not> pipe_visible ''a'' sample_entries" by code_simp
  then show ?thesis using snapshot_reads_visible_files [OF wf nm get h] wf unfolding sample_visible by simp
qed

text \<open>
  C8. If SHA-256 has no collision among what is hashed and no name contains a line break, two states of a directory have the same content
  hash exactly if the same files with the same bytes are visible in them.
\<close>

theorem content_hash_exact:
  assumes "wf_node fs" "wf_node fs'" "names (p @ [n])" "get fs (p @ [n]) = Some (Dir m es)" "get fs' (p @ [n]) = Some (Dir m' es')"
    and "height (Dir m es) \<le> se_fuel env" "height (Dir m' es') \<le> se_fuel env"
    and "lines_ok (visible_files n es)" "lines_ok (visible_files n es')" "\<forall>x. length (se_sha env x) = 32"
    and "inj_on (se_sha env) (snd ` (set (visible_files n es) \<union> set (visible_files n es')) \<union>
      content_stream ` {map (entry_text env) (visible_files n es), map (entry_text env) (visible_files n es')})"
    and "SnapshotTarget env (abs_path (p @ [n])) (fs, []) = (w, Inr s)" "SnapshotTarget env (abs_path (p @ [n])) (fs', []) = (w', Inr s')"
  shows "ts_ContentHash s = ts_ContentHash s' \<longleftrightarrow> set (visible_files n es) = set (visible_files n es')"
proof -
  have s: "s = snapshot_of env (visible_files n es)" using walk_of_tree [OF assms(1,3,4,6)] assms(12) by (simp split: if_splits)
  have s': "s' = snapshot_of env (visible_files n es')" using walk_of_tree [OF assms(2,3,5,7)] assms(13) by (simp split: if_splits)
  have "proper (visible_files n es)" "proper (visible_files n es')"
    using proper_visible wf_get [OF assms(1,4)] wf_get [OF assms(2,5)] by blast+
  then show ?thesis unfolding s s' using assms(8-11) by (rule content_hash_iff)
qed

definition one_file :: "string \<Rightarrow> (string \<times> node) list" where
  "one_file bytes = [(''f'', Reg 0x1A4 bytes)]"

definition one_tree :: "string \<Rightarrow> node" where
  "one_tree bytes = Dir 0x1ED [(''a'', Dir 0x1ED (one_file bytes))]"

lemma one_tree_ok: "wf_node (one_tree b)" "get (one_tree b) ([] @ [''a'']) = Some (Dir 0x1ED (one_file b))"
    "height (Dir 0x1ED (one_file b)) \<le> se_fuel sample_env" "visible_files ''a'' (one_file b) = [([''f''], b)]"
    "\<not> pipe_visible ''a'' (one_file b)"
  by (simp_all add: one_tree_def one_file_def path_name_def sample_env_def visible_files_def pipe_visible_def skippedDirs_def)

lemma sample_sha_length: "\<forall>x. length (se_sha sample_env x) = 32"
  by (auto simp: sample_env_def min_def)

lemma sample_inj: "inj_on (se_sha sample_env) (snd ` (set (visible_files ''a'' (one_file ''x'')) \<union> set (visible_files ''a'' (one_file ''y''))) \<union>
  content_stream ` {map (entry_text sample_env) (visible_files ''a'' (one_file ''x'')), map (entry_text sample_env) (visible_files ''a'' (one_file ''y''))})"
proof -
  let ?xs = "[''x'', ''y'', content_stream (map (entry_text sample_env) [([''f''], ''x'')]), content_stream (map (entry_text sample_env) [([''f''], ''y'')])]"
  have "distinct (map (se_sha sample_env) ?xs)" by code_simp
  then have "inj_on (se_sha sample_env) (set ?xs)" by (rule distinct_map [THEN iffD1, THEN conjunct2])
  then show ?thesis unfolding one_tree_ok(4) by (simp only: list.set image_insert image_empty snd_conv Un_insert_left Un_empty_left insert_commute)
qed

theorem content_hash_exact_witness:
  "\<exists>s s'. snd (SnapshotTarget sample_env (abs_path [''a'']) (one_tree ''x'', [])) = Inr s \<and>
     snd (SnapshotTarget sample_env (abs_path [''a'']) (one_tree ''y'', [])) = Inr s' \<and> ts_ContentHash s \<noteq> ts_ContentHash s'"
proof -
  have nm: "names ([] @ [''a''])" by code_simp
  note run = snapshot_of_tree [OF one_tree_ok(1) nm one_tree_ok(2,3,5)]
  have ok: "lines_ok (visible_files ''a'' (one_file ''x''))" "lines_ok (visible_files ''a'' (one_file ''y''))" by code_simp+
  have "ts_ContentHash (snapshot_of sample_env (visible_files ''a'' (one_file ''x''))) \<noteq> ts_ContentHash (snapshot_of sample_env (visible_files ''a'' (one_file ''y'')))"
    using content_hash_exact [OF one_tree_ok(1) one_tree_ok(1) nm one_tree_ok(2) one_tree_ok(2) one_tree_ok(3) one_tree_ok(3) ok sample_sha_length sample_inj run run]
    unfolding one_tree_ok(4) by simp
  then show ?thesis using run [of "''x''"] run [of "''y''"] by simp
qed

text \<open>
  A name with a line break can stand for two entries of the hashed list: the names of files are neither escaped nor counted.
\<close>

definition forged_name :: "snapshot_env \<Rightarrow> string \<Rightarrow> string" where
  "forged_name env bad = ''SKILL.md:'' @ hex_encode (se_sha env bad) @ [CHR 0x0A] @ ''z''"

definition before_forgery :: "snapshot_env \<Rightarrow> string \<Rightarrow> string \<Rightarrow> (string \<times> node) list" where
  "before_forgery env good bad = [(forged_name env bad, Reg 0x1A4 good)]"

definition after_forgery :: "string \<Rightarrow> string \<Rightarrow> (string \<times> node) list" where
  "after_forgery good bad = [(''SKILL.md'', Reg 0x1A4 bad), (''z'', Reg 0x1A4 good)]"

lemma forged_name_ok: "path_name (forged_name env bad)"
  using hex_plain(2) [of "se_sha env bad"] by (simp add: path_name_def forged_name_def)

lemma forged_trees: "wf_node (Dir m (before_forgery env good bad))" "wf_node (Dir m (after_forgery good bad))"
    "visible_files ''s'' (before_forgery env good bad) = [([forged_name env bad], good)]"
    "visible_files ''s'' (after_forgery good bad) = [([''SKILL.md''], bad), ([''z''], good)]"
    "\<not> pipe_visible ''s'' (before_forgery env good bad)" "\<not> pipe_visible ''s'' (after_forgery good bad)"
proof -
  show "\<not> pipe_visible ''s'' (before_forgery env good bad)" "\<not> pipe_visible ''s'' (after_forgery good bad)"
    by (simp_all add: pipe_visible_def before_forgery_def after_forgery_def)
  have "path_name ''SKILL.md''" "path_name ''z''" "''SKILL.md'' \<le> ''z''" by code_simp+
  then show "wf_node (Dir m (before_forgery env good bad))" "wf_node (Dir m (after_forgery good bad))"
    using forged_name_ok [of env bad] by (simp_all add: before_forgery_def after_forgery_def)
  have "\<not> List.member skippedDirs ''s''" by code_simp
  then show "visible_files ''s'' (before_forgery env good bad) = [([forged_name env bad], good)]"
    "visible_files ''s'' (after_forgery good bad) = [([''SKILL.md''], bad), ([''z''], good)]"
    by (simp_all add: visible_files_def before_forgery_def after_forgery_def)
qed

lemma forged_stream:
  "content_stream (map (entry_text env) [([forged_name env bad], good)]) = content_stream (map (entry_text env) [([''SKILL.md''], bad), ([''z''], good)])"
proof -
  have lt: "CHR ''S'' < CHR ''z''" by code_simp
  have le: "entry_text env ([''SKILL.md''], bad) \<le> entry_text env ([''z''], good)" by (simp add: entry_text_def rel_text_def lt)
  show ?thesis by (simp add: content_stream_def le) (simp add: entry_text_def rel_text_def forged_name_def)
qed

lemma forged_ext:
  "path_Ext (forged_name env bad) = ''.md:'' @ hex_encode (se_sha env bad) @ [CHR 0x0A] @ ''z''"
proof -
  have no: "CHR ''.'' \<notin> set (hex_encode (se_sha env bad))"
  proof
    assume "CHR ''.'' \<in> set (hex_encode (se_sha env bad))"
    from hex_digits [OF this] obtain k where k: "k < 16" "CHR ''.'' = digit k" by blast
    have "(of_char (CHR ''.'') :: nat) = 46" by simp
    then show False using digit_code [OF k(1)] k(2) by (simp split: if_splits)
  qed
  let ?t = "''md:'' @ hex_encode (se_sha env bad) @ [CHR 0x0A] @ ''z''"
  have n: "forged_name env bad = ''SKILL.'' @ ?t" by (simp add: forged_name_def)
  have slash: "takeWhile (\<lambda>c. c \<noteq> CHR ''/'') (rev (forged_name env bad)) = rev (forged_name env bad)"
    using forged_name_ok [of env bad] unfolding takeWhile_eq_all_conv set_rev path_name_def by blast
  have r: "rev (forged_name env bad) = rev ?t @ rev ''SKILL.''" by (simp add: n)
  have "takeWhile (\<lambda>c. c \<noteq> CHR ''.'') (rev ?t @ rev ''SKILL.'') = rev ?t @ takeWhile (\<lambda>c. c \<noteq> CHR ''.'') (rev ''SKILL.'')"
    by (rule takeWhile_append2) (use no in auto)
  moreover have "takeWhile (\<lambda>c. c \<noteq> CHR ''.'') (rev ''SKILL.'') = []" by code_simp
  ultimately have dot: "takeWhile (\<lambda>c. c \<noteq> CHR ''.'') (rev (forged_name env bad)) = rev ?t" unfolding r by (simp only: append_Nil2)
  show ?thesis unfolding path_Ext_def Let_def slash dot by (simp add: n)
qed

lemma ToLower_length: "is_ascii t \<Longrightarrow> length (ToLower uni t) = length t"
  by (simp add: ToLower_def)

lemma code_extension_short: "List.member codeExtensions e \<Longrightarrow> length e \<le> 5"
  by (auto simp: codeExtensions_def)

lemma forged_quiet: "\<not> is_code env (forged_name env bad)" "\<not> is_code env ''SKILL.md''" "\<not> is_code env ''z''"
    "\<not> List.member dependencyFiles (forged_name env bad)" "\<not> List.member configFiles (forged_name env bad)"
proof -
  have "is_ascii (path_Ext (forged_name env bad))" unfolding forged_ext using hex_plain(3) [of "se_sha env bad"] by (simp add: is_ascii_def byte_val_def)
  then have "length (ToLower (se_uni env) (path_Ext (forged_name env bad))) = length (path_Ext (forged_name env bad))" by (rule ToLower_length)
  also have "\<dots> > 5" unfolding forged_ext by simp
  finally show "\<not> is_code env (forged_name env bad)" using code_extension_short by (fastforce simp: is_code_def)
  have e: "path_Ext ''SKILL.md'' = ''.md''" "path_Ext ''z'' = []" by code_simp+
  have "ToLower u ''.md'' = ''.md''" "ToLower u [] = []" for u by (simp_all add: ToLower_def is_ascii_def byte_val_def byte_lower_def)
  then show "\<not> is_code env ''SKILL.md''" "\<not> is_code env ''z''" by (simp_all add: is_code_def e codeExtensions_def)
  have "CHR 0x0A \<in> set (forged_name env bad)" by (simp add: forged_name_def)
  moreover have "list_all (\<lambda>f. CHR 0x0A \<notin> set f) (dependencyFiles @ configFiles)" by code_simp
  ultimately show "\<not> List.member dependencyFiles (forged_name env bad)" "\<not> List.member configFiles (forged_name env bad)"
    by (auto simp: list_all_iff)
qed

lemma forged_snapshot:
  "snapshot_of env (visible_files ''s'' (before_forgery env good bad)) = snapshot_of env (visible_files ''s'' (after_forgery good bad))"
proof -
  have d: "\<not> List.member dependencyFiles ''SKILL.md''" "\<not> List.member configFiles ''SKILL.md''" "\<not> List.member dependencyFiles ''z''" "\<not> List.member configFiles ''z''"
    by code_simp+
  show ?thesis unfolding forged_trees(3,4)
    using forged_stream [of env bad good] forged_quiet d
    by (simp add: snapshot_of_def finish_snapshot_def note_file_def note_hash_def note_endpoints_def empty_walk_def entry_text_def)
qed

definition forgery_tree :: "(string \<times> node) list \<Rightarrow> node" where
  "forgery_tree es = Dir 0x1ED [(''s'', Dir 0x1ED es)]"

text \<open>
  C10. Whatever the hash function, a file with a prepared name can be replaced by two files, one of them \<open>SKILL.md\<close> with any contents prepared
  in advance, without any change of the snapshot: no content hash, manifest, configuration file or endpoint differs.
\<close>

theorem forged_name_hides_change:
  assumes "2 \<le> se_fuel env"
  shows "(\<exists>s. snd (SnapshotTarget env (abs_path [''s'']) (forgery_tree (before_forgery env good bad), [])) = Inr s \<and>
      snd (SnapshotTarget env (abs_path [''s'']) (forgery_tree (after_forgery good bad), [])) = Inr s) \<and>
    get (forgery_tree (before_forgery env good bad)) [''s'', ''SKILL.md''] = None \<and>
    get (forgery_tree (after_forgery good bad)) [''s'', ''SKILL.md''] = Some (Reg 0x1A4 bad)"
proof -
  have nm: "names ([] @ [''s''])" by code_simp
  have wf: "wf_node (forgery_tree es)" if "wf_node (Dir 0x1ED es)" for es using that by (simp add: forgery_tree_def path_name_def)
  have g: "get (forgery_tree es) ([] @ [''s'']) = Some (Dir 0x1ED es)" for es by (simp add: forgery_tree_def)
  have h: "height (Dir 0x1ED (before_forgery env good bad)) \<le> se_fuel env" "height (Dir 0x1ED (after_forgery good bad)) \<le> se_fuel env"
    using assms by (simp_all add: before_forgery_def after_forgery_def)
  have ne: "''SKILL.md'' \<noteq> forged_name env bad" by (simp add: forged_name_def)
  have "get (forgery_tree (before_forgery env good bad)) [''s'', ''SKILL.md''] = None"
    "get (forgery_tree (after_forgery good bad)) [''s'', ''SKILL.md''] = Some (Reg 0x1A4 bad)"
    using ne by (simp_all add: forgery_tree_def before_forgery_def after_forgery_def)
  then show ?thesis
    using snapshot_of_tree [OF wf [OF forged_trees(1)] nm g h(1) forged_trees(5)] snapshot_of_tree [OF wf [OF forged_trees(2)] nm g h(2) forged_trees(6)] by (simp add: forged_snapshot)
qed

theorem forged_name_hides_change_witness:
  "\<exists>s. snd (SnapshotTarget sample_env (abs_path [''s'']) (forgery_tree (before_forgery sample_env ''ok'' ''run this''), [])) = Inr s \<and>
     snd (SnapshotTarget sample_env (abs_path [''s'']) (forgery_tree (after_forgery ''ok'' ''run this''), [])) = Inr s"
proof -
  have "2 \<le> se_fuel sample_env" by (simp add: sample_env_def)
  from forged_name_hides_change [OF this, of "''ok''" "''run this''"] show ?thesis by blast
qed

text \<open>A target whose own name is one of the skipped ones has the same snapshot whatever it contains.\<close>

lemma skipped_target_is_blind:
  assumes "List.member skippedDirs n" "wf_node fs" "names (p @ [n])" "get fs (p @ [n]) = Some (Dir m es)" "height (Dir m es) \<le> se_fuel env"
  shows "SnapshotTarget env (abs_path (p @ [n])) (fs, []) = ((fs, []), Inr (snapshot_of env []))"
  using snapshot_of_tree [OF assms(2-5)] assms(1) by (simp add: visible_files_def pipe_visible_def)

end
