(* ===== verification/Watcher_Rescan.thy ===== *)
theory Watcher_Rescan
  imports Watcher_Admission Watcher_Snapshot
begin

text \<open>
  The periodic rescan (\<^verbatim>\<open>watcher/rescan.go\<close>) with its table \<open>target_snapshots\<close> (\<^verbatim>\<open>audit/store.go\<close>): every installed target is
  snapshotted, compared with its baseline and scanned again when its contents or the scanner have changed.

  Arguments stand for the encoding of maps and lists as JSON (what a variable holds after \<open>json.Unmarshal\<close>, also when that fails), the
  scanners, the resolved model settings, \<open>scanner --version\<close>, and the logger, which stores a scan and returns it with
  its identifier and redacted.  A Go map is the list of its entries in the order in which it is visited.  The servers that
  \<open>ReadMCPServers\<close> reads are part of the state.  Of a row, the identifier and the time, which nothing reads, are left out, and of
  the output what goes to the terminal.
\<close>

subsection \<open>The table of baselines\<close>

record SnapshotRow =
  sn_TargetType :: string
  sn_TargetPath :: string
  sn_ContentHash :: string
  sn_DependencyHashes :: string
  sn_ConfigHashes :: string
  sn_NetworkEndpoints :: string
  sn_ScanID :: string
  sn_ScannerFingerprint :: string

text \<open>The table of scans holds identifiers and JSON texts.  The next element of \<open>rd_faults\<close> says whether the next statement fails.\<close>

record RescanDB =
  rd_snapshots :: "SnapshotRow list"
  rd_scans :: "(string \<times> string) list"
  rd_faults :: "bool list"

datatype get_error = NoRows | QueryFailed

definition snap_key :: "SnapshotRow \<Rightarrow> string \<times> string" where
  "snap_key r = (sn_TargetType r, sn_TargetPath r)"

definition next_fails :: "RescanDB \<Rightarrow> bool" where
  "next_fails db = (case rd_faults db of f # _ \<Rightarrow> f | [] \<Rightarrow> False)"

definition next_statement :: "RescanDB \<Rightarrow> RescanDB" where
  "next_statement db = db\<lparr>rd_faults := tl (rd_faults db)\<rparr>"

definition upsert_snapshot :: "SnapshotRow \<Rightarrow> SnapshotRow list \<Rightarrow> SnapshotRow list" where
  "upsert_snapshot row rows =
     (if list_ex (\<lambda>r. snap_key r = snap_key row) rows then map (\<lambda>r. if snap_key r = snap_key row then row else r) rows else rows @ [row])"

definition SetTargetSnapshot :: "SnapshotRow \<Rightarrow> RescanDB \<Rightarrow> RescanDB \<times> bool" where
  "SetTargetSnapshot row db =
     (if next_fails db then (next_statement db, False)
      else ((next_statement db)\<lparr>rd_snapshots := upsert_snapshot row (rd_snapshots db)\<rparr>, True))"

definition GetTargetSnapshot :: "string \<Rightarrow> string \<Rightarrow> RescanDB \<Rightarrow> RescanDB \<times> (get_error + SnapshotRow)" where
  "GetTargetSnapshot targetType targetPath db =
     (next_statement db,
      if next_fails db then Inl QueryFailed
      else case find (\<lambda>r. snap_key r = (targetType, targetPath)) (rd_snapshots db) of None \<Rightarrow> Inl NoRows | Some r \<Rightarrow> Inr r)"

definition GetScanRawJSON :: "string \<Rightarrow> RescanDB \<Rightarrow> RescanDB \<times> string option" where
  "GetScanRawJSON scanID db = (next_statement db, if next_fails db then None else map_of (rd_scans db) scanID)"

subsection \<open>Drift\<close>

datatype DriftType =
    DriftNewFinding | DriftRemovedFinding | DriftSeverityChange | DriftContentChange
  | DriftDependencyChange | DriftConfigMutation | DriftNewEndpoint | DriftRemovedEndpoint

record DriftDelta =
  dd_Type :: DriftType
  dd_Severity :: string
  dd_Description :: string
  dd_Previous :: string
  dd_Current :: string
  dd_RuleID :: string

definition delta :: "DriftType \<Rightarrow> string \<Rightarrow> string \<Rightarrow> string \<Rightarrow> string \<Rightarrow> DriftDelta" where
  "delta t sev desc prev cur = \<lparr>dd_Type = t, dd_Severity = sev, dd_Description = desc, dd_Previous = prev, dd_Current = cur, dd_RuleID = []\<rparr>"

text \<open>The two loops over a map of hashes; they are the same for dependencies and for configuration files but for the texts.\<close>

definition hash_drift :: "DriftType \<Rightarrow> string \<Rightarrow> string \<Rightarrow> (string \<times> string) list \<Rightarrow> (string \<times> string) list \<Rightarrow> DriftDelta list" where
  "hash_drift t sev what prev cur =
     concat (map (\<lambda>(file, hash).
       case map_of prev file of
         None \<Rightarrow> [delta t sev (''new '' @ what @ '': '' @ file) [] hash]
       | Some old \<Rightarrow> if old \<noteq> hash then [delta t sev (what @ '' modified: '' @ file) old hash] else []) cur) @
     concat (map (\<lambda>(file, hash). if map_of cur file = None then [delta t sev (what @ '' removed: '' @ file) hash []] else []) prev)"

definition endpoint_drift :: "string list \<Rightarrow> string list \<Rightarrow> DriftDelta list" where
  "endpoint_drift prev cur =
     map (\<lambda>ep. delta DriftNewEndpoint ''HIGH'' (''new network endpoint detected: '' @ ep) [] ep) (filter (\<lambda>ep. \<not> List.member prev ep) cur) @
     map (\<lambda>ep. delta DriftRemovedEndpoint ''INFO'' (''network endpoint removed: '' @ ep) ep []) (filter (\<lambda>ep. \<not> List.member cur ep) prev)"

record json_codec =
  js_map :: "(string \<times> string) list \<Rightarrow> string"
  js_unmap :: "string \<Rightarrow> (string \<times> string) list"
  js_list :: "string list \<Rightarrow> string"
  js_unlist :: "string \<Rightarrow> string list"

definition compareSnapshots :: "json_codec \<Rightarrow> SnapshotRow \<Rightarrow> TargetSnapshot \<Rightarrow> DriftDelta list" where
  "compareSnapshots js baseline current =
     (let deltas =
        hash_drift DriftDependencyChange ''MEDIUM'' ''dependency manifest'' (js_unmap js (sn_DependencyHashes baseline)) (ts_DependencyHashes current) @
        hash_drift DriftConfigMutation ''HIGH'' ''config file'' (js_unmap js (sn_ConfigHashes baseline)) (ts_ConfigHashes current) @
        endpoint_drift (js_unlist js (sn_NetworkEndpoints baseline)) (ts_NetworkEndpoints current)
      in if sn_ContentHash baseline \<noteq> [] \<and> ts_ContentHash current \<noteq> [] \<and> sn_ContentHash baseline \<noteq> ts_ContentHash current \<and> deltas = []
         then [delta DriftContentChange ''MEDIUM'' ''directory contents changed outside tracked dependency/config/endpoint surfaces''
                 (sn_ContentHash baseline) (ts_ContentHash current)]
         else deltas)"

definition shouldRescan :: "SnapshotRow \<Rightarrow> TargetSnapshot \<Rightarrow> string \<Rightarrow> bool \<Rightarrow> bool" where
  "shouldRescan baseline snap fingerprint gated =
     (if \<not> gated then True
      else if sn_ScanID baseline = [] then True
      else if sn_ContentHash baseline = [] \<or> sn_ContentHash baseline \<noteq> ts_ContentHash snap then True
      else if sn_ScannerFingerprint baseline \<noteq> fingerprint then True
      else False)"

subsection \<open>Findings\<close>

record RescanFinding = ScanFinding +
  sf_Location :: string
  sf_RuleID :: string

record RescanResult =
  rr_ScanID :: string
  rr_Findings :: "RescanFinding list"

definition result_MaxSeverity :: "RescanResult \<Rightarrow> string" where
  "result_MaxSeverity r = MaxSeverity \<lparr>sr_Findings = map ScanFinding.truncate (rr_Findings r), sr_ExitCode = 0, sr_ScanError = []\<rparr>"

definition audit_SeverityRank :: "unicode_map \<Rightarrow> string \<Rightarrow> nat" where
  "audit_SeverityRank uni s =
     (let u = ToUpper uni s in
      if u = ''CRITICAL'' then 5 else if u = ''HIGH'' then 4 else if u = ''MEDIUM'' then 3 else if u = ''LOW'' then 2 else if u = ''INFO'' then 1 else 0)"

definition findingDriftKey :: "RescanFinding \<Rightarrow> string" where
  "findingDriftKey f = join nul [sf_Scanner f, sf_Title f, sf_Location f]"

definition findingLabel :: "RescanFinding \<Rightarrow> string" where
  "findingLabel f = (if sf_Location f = [] then sf_Title f else sf_Title f @ '' ('' @ sf_Location f @ '')'')"

definition findings_by_key :: "RescanFinding list \<Rightarrow> (string \<times> RescanFinding) list" where
  "findings_by_key fs = fold (\<lambda>f m. AList.update (findingDriftKey f) f m) fs []"

definition finding_change :: "unicode_map \<Rightarrow> RescanFinding option \<Rightarrow> RescanFinding \<Rightarrow> DriftDelta list" where
  "finding_change uni prevFinding f =
     (case prevFinding of
        None \<Rightarrow> [\<lparr>dd_Type = DriftNewFinding, dd_Severity = sf_Severity f,
          dd_Description = ''new finding: '' @ findingLabel f @ '' ('' @ sf_Severity f @ '')'', dd_Previous = [], dd_Current = findingLabel f, dd_RuleID = sf_RuleID f\<rparr>]
      | Some p \<Rightarrow>
          if sf_Severity p \<noteq> sf_Severity f
          then [\<lparr>dd_Type = DriftSeverityChange,
            dd_Severity = (if audit_SeverityRank uni (sf_Severity f) > audit_SeverityRank uni (sf_Severity p) then sf_Severity f else sf_Severity p),
            dd_Description = ''finding severity changed: '' @ findingLabel f @ '' ('' @ sf_Severity p @ '' -> '' @ sf_Severity f @ '')'',
            dd_Previous = sf_Severity p, dd_Current = sf_Severity f, dd_RuleID = sf_RuleID f\<rparr>]
          else [])"

definition diffFindings :: "unicode_map \<Rightarrow> RescanFinding list \<Rightarrow> RescanFinding list \<Rightarrow> DriftDelta list" where
  "diffFindings uni prev cur =
     (let prevByKey = findings_by_key prev; currByKey = findings_by_key cur in
      concat (map (\<lambda>(key, f). finding_change uni (map_of prevByKey key) f) currByKey) @
      concat (map (\<lambda>(key, f). if map_of currByKey key = None
        then [\<lparr>dd_Type = DriftRemovedFinding, dd_Severity = ''INFO'', dd_Description = ''finding resolved: '' @ findingLabel f @ '' (was '' @ sf_Severity f @ '')'',
          dd_Previous = findingLabel f, dd_Current = [], dd_RuleID = sf_RuleID f\<rparr>] else []) prevByKey))"

fun rule_ids_loop :: "nat \<Rightarrow> DriftDelta list \<Rightarrow> string list \<Rightarrow> string list" where
  "rule_ids_loop max_ids [] out = out"
| "rule_ids_loop max_ids (d # ds) out =
     (if dd_RuleID d = [] \<or> List.member out (dd_RuleID d) then rule_ids_loop max_ids ds out
      else if length out + 1 \<ge> max_ids then out @ [dd_RuleID d]
      else rule_ids_loop max_ids ds (out @ [dd_RuleID d]))"

definition driftRuleIDs :: "DriftDelta list \<Rightarrow> nat \<Rightarrow> string list" where
  "driftRuleIDs deltas max_ids = (if max_ids = 0 then [] else rule_ids_loop max_ids deltas [])"

definition alert_severity :: "unicode_map \<Rightarrow> DriftDelta list \<Rightarrow> string" where
  "alert_severity uni deltas =
     fold (\<lambda>d m. if audit_SeverityRank uni (dd_Severity d) > audit_SeverityRank uni m then dd_Severity d else m) deltas ''INFO''"

subsection \<open>The scanner fingerprint\<close>

record SkillScannerConfig =
  sk_Binary :: string
  sk_UseLLM :: bool
  sk_UseBehavioral :: bool
  sk_EnableMeta :: bool
  sk_UseTrigger :: bool
  sk_UseVirusTotal :: bool
  sk_UseAIDefense :: bool
  sk_LLMConsensus :: int
  sk_Policy :: string
  sk_Lenient :: bool

record MCPScannerConfig =
  mc_Binary :: string
  mc_Analyzers :: string
  mc_ScanPrompts :: bool
  mc_ScanResources :: bool
  mc_ScanInstructions :: bool

record LLMSettings =
  ll_Model :: string
  ll_Provider :: string
  ll_BaseURL :: string

record Provenance =
  pv_BinaryVersion :: string
  pv_ContentHash :: string
  pv_Generation :: nat
  pv_SchemaVersion :: int

record scanner_settings =
  sc_Skill :: SkillScannerConfig
  sc_MCP :: MCPScannerConfig
  sc_Plugin :: string
  sc_LLM :: "string \<Rightarrow> LLMSettings"
  sc_Version :: "string \<Rightarrow> string option"
  sc_Provenance :: Provenance

definition scannerBinaryVersion :: "scanner_settings \<Rightarrow> string \<Rightarrow> string" where
  "scannerBinaryVersion cfg binary =
     (if TrimSpace binary = [] then []
      else case sc_Version cfg (TrimSpace binary) of None \<Rightarrow> [] | Some out \<Rightarrow> TrimSpace out)"

definition show_bool :: "bool \<Rightarrow> string" where
  "show_bool b = (if b then ''true'' else ''false'')"

definition show_int :: "int \<Rightarrow> string" where
  "show_int i = (if i < 0 then ''-'' @ decimal (nat (- i)) else decimal (nat i))"

definition llm_parts :: "LLMSettings \<Rightarrow> string list" where
  "llm_parts llm = [''llm_model='' @ ll_Model llm, ''llm_provider='' @ ll_Provider llm, ''llm_base_url='' @ ll_BaseURL llm]"

definition fingerprint_parts :: "scanner_settings \<Rightarrow> string \<Rightarrow> string list" where
  "fingerprint_parts cfg kind =
     [''kind='' @ kind] @
     (if kind = ''skill'' then
        (let c = sc_Skill cfg in
         [''binary='' @ sk_Binary c, ''binver='' @ scannerBinaryVersion cfg (sk_Binary c), ''use_llm='' @ show_bool (sk_UseLLM c),
          ''use_behavioral='' @ show_bool (sk_UseBehavioral c), ''enable_meta='' @ show_bool (sk_EnableMeta c), ''use_trigger='' @ show_bool (sk_UseTrigger c),
          ''use_virustotal='' @ show_bool (sk_UseVirusTotal c), ''use_aidefense='' @ show_bool (sk_UseAIDefense c),
          ''llm_consensus='' @ show_int (sk_LLMConsensus c), ''policy='' @ sk_Policy c, ''lenient='' @ show_bool (sk_Lenient c)] @
         llm_parts (sc_LLM cfg ''scanners.skill''))
      else if kind = ''mcp'' then
        (let c = sc_MCP cfg in
         [''binary='' @ mc_Binary c, ''binver='' @ scannerBinaryVersion cfg (mc_Binary c), ''analyzers='' @ mc_Analyzers c,
          ''scan_prompts='' @ show_bool (mc_ScanPrompts c), ''scan_resources='' @ show_bool (mc_ScanResources c),
          ''scan_instructions='' @ show_bool (mc_ScanInstructions c)] @ llm_parts (sc_LLM cfg ''scanners.mcp''))
      else if kind = ''plugin'' then
        [''binary='' @ sc_Plugin cfg, ''binver='' @ scannerBinaryVersion cfg (sc_Plugin cfg)] @ llm_parts (sc_LLM cfg ''scanners.plugin'')
      else []) @
     (let prov = sc_Provenance cfg in
      [''prov_binary='' @ pv_BinaryVersion prov, ''prov_content='' @ pv_ContentHash prov, ''prov_generation='' @ decimal (pv_Generation prov),
       ''prov_schema='' @ show_int (pv_SchemaVersion prov)])"

definition scannerFingerprint :: "(string \<Rightarrow> string) \<Rightarrow> scanner_settings \<Rightarrow> string \<Rightarrow> string" where
  "scannerFingerprint sha cfg kind = hex_encode (sha (join nul (fingerprint_parts cfg kind)))"

subsection \<open>The watcher's state\<close>

text \<open>\<open>me_JSON\<close> is the entry as \<open>json.Marshal\<close> writes it.\<close>

record MCPServerEntry =
  me_Name :: string
  me_URL :: string
  me_JSON :: "string option"

datatype rescan_event =
    DriftAlert string string "DriftDelta list" "string list"
  | WebhookDrift string string
  | ScanStarted string string
  | RescanMetric string string
  | RescanSummary nat nat nat

record rescan_env =
  re_snap :: snapshot_env
  re_js :: json_codec
  re_unscan :: "string \<Rightarrow> RescanResult option"
  re_scanner :: "InstallEvent \<Rightarrow> (string \<Rightarrow> string + RescanResult option) option"
  re_LogScan :: "RescanResult \<Rightarrow> (string \<times> string) list \<Rightarrow> (string \<times> string) list \<times> RescanResult \<times> bool"
  re_settings :: scanner_settings
  re_gated :: bool
  re_webhooks :: bool
  re_skillDirs :: "string list"
  re_pluginDirs :: "string list"
  re_now :: gotime

text \<open>\<open>rs_ctx\<close> holds the answers of the context, whether it has been cancelled.\<close>

record rescan_state =
  rs_world :: world
  rs_db :: RescanDB
  rs_mcp :: "MCPServerEntry list option"
  rs_ctx :: "bool list"
  rs_log :: "rescan_event list"

definition rescan_log :: "rescan_event list \<Rightarrow> rescan_state \<Rightarrow> rescan_state" where
  "rescan_log evs st = st\<lparr>rs_log := rs_log st @ evs\<rparr>"

definition emitDriftAlerts :: "rescan_env \<Rightarrow> InstallEvent \<Rightarrow> DriftDelta list \<Rightarrow> rescan_state \<Rightarrow> rescan_state" where
  "emitDriftAlerts env evt deltas st =
     (let maxSev = alert_severity (se_uni (re_snap env)) deltas in
      rescan_log ([DriftAlert (ev_Path evt) maxSev deltas (driftRuleIDs deltas 8), RescanMetric ''drift'' (ev_Type evt)] @
        (if re_webhooks env then [WebhookDrift (ev_Path evt) maxSev] else [])) st)"

subsection \<open>Snapshots of targets\<close>

text \<open>\<open>TargetBlocked\<close> stands for a snapshot that never returns.\<close>

datatype snapshot_error = TargetMissing | TargetUnreadable | TargetBlocked

definition lookupMCPServer :: "string \<Rightarrow> rescan_state \<Rightarrow> snapshot_error + MCPServerEntry" where
  "lookupMCPServer name st =
     (case rs_mcp st of
        None \<Rightarrow> Inl TargetUnreadable
      | Some servers \<Rightarrow> (case find (\<lambda>s. me_Name s = name) servers of None \<Rightarrow> Inl TargetMissing | Some s \<Rightarrow> Inr s))"

definition snapshotMCPServer :: "rescan_env \<Rightarrow> string \<Rightarrow> rescan_state \<Rightarrow> snapshot_error + TargetSnapshot" where
  "snapshotMCPServer env name st =
     (case lookupMCPServer name st of
        Inl e \<Rightarrow> Inl e
      | Inr entry \<Rightarrow>
          (case me_JSON entry of
             None \<Rightarrow> Inl TargetUnreadable
           | Some raw \<Rightarrow>
               let hash = hex_encode (se_sha (re_snap env) raw) in
               Inr \<lparr>ts_ContentHash = hash, ts_DependencyHashes = [], ts_ConfigHashes = [(''mcp.servers.'' @ name, hash)],
                 ts_NetworkEndpoints = (if me_URL entry \<noteq> [] then [me_URL entry] else [])\<rparr>))"

definition snapshotForEvent :: "rescan_env \<Rightarrow> InstallEvent \<Rightarrow> rescan_state \<Rightarrow> rescan_state \<times> (snapshot_error + TargetSnapshot)" where
  "snapshotForEvent env evt st =
     (if ev_Type evt = ''mcp'' then (st, snapshotMCPServer env (ev_Name evt) st)
      else case Stat (ev_Path evt) (rs_world st) of
        (w, Inl e) \<Rightarrow> (st\<lparr>rs_world := w\<rparr>, Inl (if e = ENOENT then TargetMissing else TargetUnreadable))
      | (w, Inr _) \<Rightarrow>
          (case SnapshotTarget (re_snap env) (ev_Path evt) w of
             (w1, Inl e) \<Rightarrow> (st\<lparr>rs_world := w1\<rparr>, Inl (if e = WalkBlocked then TargetBlocked else TargetUnreadable))
           | (w1, Inr snap) \<Rightarrow> (st\<lparr>rs_world := w1\<rparr>, Inr snap)))"

definition scanTargetFor :: "InstallEvent \<Rightarrow> rescan_state \<Rightarrow> string" where
  "scanTargetFor evt st =
     (if ev_Type evt \<noteq> ''mcp'' then ev_Path evt
      else case lookupMCPServer (ev_Name evt) st of
        Inl _ \<Rightarrow> ev_Name evt
      | Inr entry \<Rightarrow> if me_URL entry \<noteq> [] then me_URL entry else me_Name entry)"

definition scanAndEmit :: "rescan_env \<Rightarrow> InstallEvent \<Rightarrow> rescan_state \<Rightarrow> rescan_state \<times> RescanResult option \<times> string" where
  "scanAndEmit env evt st =
     (case re_scanner env evt of
        None \<Rightarrow> (st, None, [])
      | Some scan \<Rightarrow>
          (case scan (scanTargetFor evt st) of
             Inl e \<Rightarrow> (rescan_log [ScanStarted (ev_Type evt) (ev_Path evt)] st, None, [])
           | Inr None \<Rightarrow> (rescan_log [ScanStarted (ev_Type evt) (ev_Path evt)] st, None, [])
           | Inr (Some result) \<Rightarrow>
               (case re_LogScan env result (rd_scans (rs_db st)) of
                  (scans, result', ok) \<Rightarrow>
                    (rescan_log [ScanStarted (ev_Type evt) (ev_Path evt)] (st\<lparr>rs_db := (rs_db st)\<lparr>rd_scans := scans\<rparr>\<rparr>),
                     Some result', if ok then rr_ScanID result' else []))))"

definition persistSnapshot :: "rescan_env \<Rightarrow> InstallEvent \<Rightarrow> TargetSnapshot \<Rightarrow> string \<Rightarrow> string \<Rightarrow> rescan_state \<Rightarrow> rescan_state" where
  "persistSnapshot env evt snap scanID fingerprint st =
     st\<lparr>rs_db := fst (SetTargetSnapshot
       \<lparr>sn_TargetType = ev_Type evt, sn_TargetPath = ev_Path evt, sn_ContentHash = ts_ContentHash snap,
        sn_DependencyHashes = js_map (re_js env) (ts_DependencyHashes snap), sn_ConfigHashes = js_map (re_js env) (ts_ConfigHashes snap),
        sn_NetworkEndpoints = js_list (re_js env) (ts_NetworkEndpoints snap), sn_ScanID = scanID, sn_ScannerFingerprint = fingerprint\<rparr> (rs_db st))\<rparr>"

definition loadScanResult :: "rescan_env \<Rightarrow> string \<Rightarrow> rescan_state \<Rightarrow> rescan_state \<times> RescanResult option" where
  "loadScanResult env scanID st =
     (case GetScanRawJSON scanID (rs_db st) of (db, raw) \<Rightarrow> (st\<lparr>rs_db := db\<rparr>, case raw of None \<Rightarrow> None | Some t \<Rightarrow> re_unscan env t))"

definition findingDrift :: "rescan_env \<Rightarrow> SnapshotRow \<Rightarrow> RescanResult option \<Rightarrow> rescan_state \<Rightarrow> rescan_state \<times> DriftDelta list" where
  "findingDrift env baseline current st =
     (if sn_ScanID baseline = [] then (st, [])
      else case current of
        None \<Rightarrow> (st, [])
      | Some cur \<Rightarrow>
          (case loadScanResult env (sn_ScanID baseline) st of
             (st1, None) \<Rightarrow> (st1, [])
           | (st1, Some prevScan) \<Rightarrow>
               let uni = se_uni (re_snap env); prevMax = result_MaxSeverity prevScan; curMax = result_MaxSeverity cur in
               (st1, diffFindings uni (rr_Findings prevScan) (rr_Findings cur) @
                  (if audit_SeverityRank uni curMax > audit_SeverityRank uni prevMax
                   then [delta DriftSeverityChange curMax (''max severity escalated from '' @ prevMax @ '' to '' @ curMax) prevMax curMax] else []))))"

subsection \<open>A rescan\<close>

text \<open>\<open>RescanBlocked\<close> is no outcome of the code: the call of \<open>rescanTarget\<close> never returns.\<close>

datatype rescanOutcome = RescanSkipped | RescanScanned | RescanBlocked

definition cachedFingerprint :: "rescan_env \<Rightarrow> InstallEvent \<Rightarrow> (string \<times> string) list \<Rightarrow> (string \<times> string) list \<times> string" where
  "cachedFingerprint env evt cache =
     (case map_of cache (ev_Type evt) of
        Some fp \<Rightarrow> (cache, fp)
      | None \<Rightarrow> let fp = scannerFingerprint (se_sha (re_snap env)) (re_settings env) (ev_Type evt) in (AList.update (ev_Type evt) fp cache, fp))"

definition alert_if_any :: "rescan_env \<Rightarrow> InstallEvent \<Rightarrow> DriftDelta list \<Rightarrow> rescan_state \<Rightarrow> rescan_state" where
  "alert_if_any env evt deltas st = (if deltas \<noteq> [] then emitDriftAlerts env evt deltas st else st)"

definition first_scan :: "rescan_env \<Rightarrow> InstallEvent \<Rightarrow> TargetSnapshot \<Rightarrow> string \<Rightarrow> rescan_state \<Rightarrow> rescan_state \<times> rescanOutcome" where
  "first_scan env evt snap fingerprint st =
     (case scanAndEmit env evt st of (st1, result, scanID) \<Rightarrow>
        (persistSnapshot env evt snap scanID fingerprint st1, if result = None then RescanSkipped else RescanScanned))"

definition drift_scan :: "rescan_env \<Rightarrow> InstallEvent \<Rightarrow> SnapshotRow \<Rightarrow> TargetSnapshot \<Rightarrow> string \<Rightarrow> rescan_state \<Rightarrow> rescan_state \<times> rescanOutcome" where
  "drift_scan env evt baseline snap fingerprint st =
     (case scanAndEmit env evt st of (st1, result, scanID) \<Rightarrow>
      case findingDrift env baseline result st1 of (st2, found) \<Rightarrow>
        let st3 = alert_if_any env evt (compareSnapshots (re_js env) baseline snap @ found) st2 in
        if scanID = [] \<and> sn_ScanID baseline \<noteq> [] then (st3, RescanScanned)
        else (persistSnapshot env evt snap scanID fingerprint st3, RescanScanned))"

definition rescanTarget ::
  "rescan_env \<Rightarrow> InstallEvent \<Rightarrow> (string \<times> string) list \<Rightarrow> rescan_state \<Rightarrow> rescan_state \<times> (string \<times> string) list \<times> rescanOutcome" where
  "rescanTarget env evt fpCache st =
     (case snapshotForEvent env evt st of
        (st1, Inl e) \<Rightarrow> (st1, fpCache, if e = TargetBlocked then RescanBlocked else RescanSkipped)
      | (st1, Inr currentSnap) \<Rightarrow>
          (case cachedFingerprint env evt fpCache of (cache, fingerprint) \<Rightarrow>
           case GetTargetSnapshot (ev_Type evt) (ev_Path evt) (rs_db st1) of
             (db, Inl NoRows) \<Rightarrow> (case first_scan env evt currentSnap fingerprint (st1\<lparr>rs_db := db\<rparr>) of (st2, outcome) \<Rightarrow> (st2, cache, outcome))
           | (db, Inl QueryFailed) \<Rightarrow> (st1\<lparr>rs_db := db\<rparr>, cache, RescanSkipped)
           | (db, Inr baseline) \<Rightarrow>
               let deltas = compareSnapshots (re_js env) baseline currentSnap; st2 = st1\<lparr>rs_db := db\<rparr> in
               if \<not> shouldRescan baseline currentSnap fingerprint (re_gated env)
               then (if deltas \<noteq> []
                     then persistSnapshot env evt currentSnap (sn_ScanID baseline) (sn_ScannerFingerprint baseline) (emitDriftAlerts env evt deltas st2)
                     else st2, cache, RescanSkipped)
               else (case drift_scan env evt baseline currentSnap fingerprint st2 of (st3, outcome) \<Rightarrow> (st3, cache, outcome))))"

subsection \<open>A cycle\<close>

definition ReadDirEntries :: "string \<Rightarrow> (string \<times> node) list io" where
  "ReadDirEntries path = atomic_call (\<lambda>fs. (fs, case snd (look True path fs) of
     Inl e \<Rightarrow> Inl e | Inr (Dir m es) \<Rightarrow> Inr (sort_key fst es) | Inr _ \<Rightarrow> Inl ENOTDIR))"

fun enumerate_dirs :: "gotime \<Rightarrow> string \<Rightarrow> string list \<Rightarrow> world \<Rightarrow> world \<times> InstallEvent list" where
  "enumerate_dirs now kind [] w = (w, [])"
| "enumerate_dirs now kind (dir # dirs) w =
     (case ReadDirEntries dir w of
        (w1, Inl e) \<Rightarrow> enumerate_dirs now kind dirs w1
      | (w1, Inr es) \<Rightarrow>
          (case enumerate_dirs now kind dirs w1 of (w2, rest) \<Rightarrow>
             (w2, map (\<lambda>e. \<lparr>ev_Type = kind, ev_Name = fst e, ev_Path = path_Join [dir, fst e], ev_Connector = [], ev_Timestamp = now\<rparr>)
                    (filter (\<lambda>e. dir_node (snd e) \<and> \<not> HasPrefix (fst e) ''.'') es) @ rest)))"

definition enumerateTargets :: "rescan_env \<Rightarrow> rescan_state \<Rightarrow> rescan_state \<times> InstallEvent list" where
  "enumerateTargets env st =
     (case enumerate_dirs (re_now env) ''skill'' (re_skillDirs env) (rs_world st) of (w1, skills) \<Rightarrow>
      case enumerate_dirs (re_now env) ''plugin'' (re_pluginDirs env) w1 of (w2, plugins) \<Rightarrow>
        (st\<lparr>rs_world := w2\<rparr>, skills @ plugins @
           (case rs_mcp st of
              None \<Rightarrow> []
            | Some servers \<Rightarrow>
                map (\<lambda>s. \<lparr>ev_Type = ''mcp'', ev_Name = me_Name s, ev_Path = me_Name s, ev_Connector = [], ev_Timestamp = re_now env\<rparr>)
                  (filter (\<lambda>s. TrimSpace (me_Name s) \<noteq> []) servers))))"

text \<open>The loop over the targets ends with the numbers of targets scanned and skipped, or because the context was cancelled, or never.\<close>

datatype loop_end = LoopDone nat nat | LoopCancelled | LoopBlocked

fun rescan_loop :: "rescan_env \<Rightarrow> InstallEvent list \<Rightarrow> (string \<times> string) list \<Rightarrow> nat \<Rightarrow> nat \<Rightarrow> rescan_state \<Rightarrow> rescan_state \<times> loop_end" where
  "rescan_loop env [] fpCache scanned skipped st = (st, LoopDone scanned skipped)"
| "rescan_loop env (evt # evts) fpCache scanned skipped st =
     (case rs_ctx st of
        True # ctx \<Rightarrow> (st\<lparr>rs_ctx := ctx\<rparr>, LoopCancelled)
      | ctx \<Rightarrow>
          (case rescanTarget env evt fpCache (st\<lparr>rs_ctx := tl ctx\<rparr>) of
             (st1, cache, RescanScanned) \<Rightarrow> rescan_loop env evts cache (scanned + 1) skipped (rescan_log [RescanMetric ''rescan_scan'' (ev_Type evt)] st1)
           | (st1, cache, RescanSkipped) \<Rightarrow> rescan_loop env evts cache scanned (skipped + 1) (rescan_log [RescanMetric ''rescan_skip'' (ev_Type evt)] st1)
           | (st1, cache, RescanBlocked) \<Rightarrow> (st1, LoopBlocked)))"

text \<open>With the state, whether the call returns.\<close>

definition runRescanCycle :: "rescan_env \<Rightarrow> rescan_state \<Rightarrow> rescan_state \<times> bool" where
  "runRescanCycle env st =
     (case enumerateTargets env st of (st1, targets) \<Rightarrow>
        if targets = [] then (st1, True)
        else case rescan_loop env targets [] 0 0 st1 of
          (st2, LoopCancelled) \<Rightarrow> (st2, True)
        | (st2, LoopBlocked) \<Rightarrow> (st2, False)
        | (st2, LoopDone scanned skipped) \<Rightarrow> (rescan_log [RescanSummary (length targets) scanned skipped] st2, True))"

subsection \<open>Comparing snapshots\<close>

lemma hash_drift_empty:
  assumes "distinct (map fst cur)"
  shows "hash_drift t sev what prev cur = [] \<longleftrightarrow> map_of prev = map_of cur"
proof
  assume e: "hash_drift t sev what prev cur = []"
  have new: "map_of prev f = Some h" if "(f, h) \<in> set cur" for f h
    using e that by (fastforce simp: hash_drift_def split: option.splits if_splits)
  have old: "map_of cur f \<noteq> None" if "(f, h) \<in> set prev" for f h
    using e that by (fastforce simp: hash_drift_def split: if_splits)
  show "map_of prev = map_of cur"
  proof
    fix f
    show "map_of prev f = map_of cur f"
    proof (cases "map_of cur f")
      case None
      then show ?thesis using old [OF map_of_SomeD, of f] by (cases "map_of prev f") auto
    next
      case (Some h)
      then show ?thesis using new map_of_SomeD [OF Some] by simp
    qed
  qed
next
  assume m: "map_of prev = map_of cur"
  have "(f, h) \<in> set cur \<Longrightarrow> map_of cur f = Some h" for f h using assms by simp
  moreover have "(f, h) \<in> set prev \<Longrightarrow> map_of cur f \<noteq> None" for f h unfolding m [symmetric] by (simp add: map_of_eq_None_iff) force
  ultimately show "hash_drift t sev what prev cur = []" unfolding hash_drift_def m by (auto split: option.splits)
qed

lemma endpoint_drift_empty: "endpoint_drift prev cur = [] \<longleftrightarrow> set prev = set cur"
  by (auto simp: endpoint_drift_def filter_empty_conv)

definition snapshot_keys :: "TargetSnapshot \<Rightarrow> bool" where
  "snapshot_keys snap \<longleftrightarrow> distinct (map fst (ts_DependencyHashes snap)) \<and> distinct (map fst (ts_ConfigHashes snap))"

text \<open>No drift is reported exactly if nothing that the snapshot records has changed.\<close>

lemma compareSnapshots_empty:
  assumes "snapshot_keys snap"
  shows "compareSnapshots js row snap = [] \<longleftrightarrow>
    map_of (js_unmap js (sn_DependencyHashes row)) = map_of (ts_DependencyHashes snap) \<and>
    map_of (js_unmap js (sn_ConfigHashes row)) = map_of (ts_ConfigHashes snap) \<and>
    set (js_unlist js (sn_NetworkEndpoints row)) = set (ts_NetworkEndpoints snap) \<and>
    (sn_ContentHash row = ts_ContentHash snap \<or> sn_ContentHash row = [] \<or> ts_ContentHash snap = [])"
  using assms unfolding compareSnapshots_def Let_def snapshot_keys_def
  by (auto simp: hash_drift_empty endpoint_drift_empty)


lemma keys_note_file: "distinct (map fst (sw_deps s)) \<Longrightarrow> distinct (map fst (sw_configs s)) \<Longrightarrow>
    distinct (map fst (sw_deps (note_file env f s))) \<and> distinct (map fst (sw_configs (note_file env f s)))"
  by (cases f) (simp add: note_file_def note_hash_def note_endpoints_def Let_def distinct_update)

lemma keys_fold: "distinct (map fst (sw_deps s)) \<and> distinct (map fst (sw_configs s)) \<Longrightarrow>
    distinct (map fst (sw_deps (fold (note_file env) fs s))) \<and> distinct (map fst (sw_configs (fold (note_file env) fs s)))"
  by (induction fs arbitrary: s) (simp_all add: keys_note_file)

lemma snapshot_keys_of: "snapshot_keys (snapshot_of env files)"
  using keys_fold [of empty_walk env files] by (simp add: snapshot_keys_def snapshot_of_def finish_snapshot_def empty_walk_def)

subsection \<open>What each step keeps\<close>

abbreviation rows :: "rescan_state \<Rightarrow> SnapshotRow list" where
  "rows st \<equiv> rd_snapshots (rs_db st)"

lemma next_statement_keeps [simp]: "rd_snapshots (next_statement db) = rd_snapshots db" "rd_scans (next_statement db) = rd_scans db"
  by (simp_all add: next_statement_def)






lemma alert_rows [simp]: "rs_db (alert_if_any env evt ds st) = rs_db st" "rs_db (emitDriftAlerts env evt ds st) = rs_db st"
  by (simp_all add: alert_if_any_def emitDriftAlerts_def rescan_log_def Let_def)

definition snapshot_row :: "rescan_env \<Rightarrow> InstallEvent \<Rightarrow> TargetSnapshot \<Rightarrow> string \<Rightarrow> string \<Rightarrow> SnapshotRow" where
  "snapshot_row env evt snap scanID fingerprint =
     \<lparr>sn_TargetType = ev_Type evt, sn_TargetPath = ev_Path evt, sn_ContentHash = ts_ContentHash snap,
      sn_DependencyHashes = js_map (re_js env) (ts_DependencyHashes snap), sn_ConfigHashes = js_map (re_js env) (ts_ConfigHashes snap),
      sn_NetworkEndpoints = js_list (re_js env) (ts_NetworkEndpoints snap), sn_ScanID = scanID, sn_ScannerFingerprint = fingerprint\<rparr>"


lemma find_replace: "find (\<lambda>r. snap_key r = k) (map (\<lambda>r. if snap_key r = snap_key row then row else r) rs) =
    (if k = snap_key row then (if list_ex (\<lambda>r. snap_key r = k) rs then Some row else None) else find (\<lambda>r. snap_key r = k) rs)"
  by (induction rs) auto

lemma find_snoc: "find P (xs @ [x]) = (case find P xs of None \<Rightarrow> if P x then Some x else None | Some y \<Rightarrow> Some y)"
  by (induction xs) auto

lemma find_upsert: "find (\<lambda>r. snap_key r = k) (upsert_snapshot row rs) = (if k = snap_key row then Some row else find (\<lambda>r. snap_key r = k) rs)"
proof (cases "list_ex (\<lambda>r. snap_key r = snap_key row) rs")
  case True
  then show ?thesis by (simp add: upsert_snapshot_def find_replace)
next
  case False
  then have "find (\<lambda>r. snap_key r = snap_key row) rs = None" by (auto simp: find_None_iff list_ex_iff)
  then show ?thesis using False by (auto simp: upsert_snapshot_def find_snoc split: option.splits)
qed


subsection \<open>Runs\<close>

text \<open>
  A run is a sequence of rescans of single targets, in any order and with any configuration.  In between other processes change
  everything but the table of baselines.  The history holds the configuration and the state of every rescan.
\<close>

inductive rescan_run :: "(rescan_env \<times> rescan_state) list \<Rightarrow> rescan_state \<Rightarrow> bool" where
  start: "rows st = [] \<Longrightarrow> rescan_run [] st"
| target: "rescan_run past st \<Longrightarrow> rescanTarget env evt cache st = (st', cache', outcome) \<Longrightarrow> rescan_run (past @ [(env, st)]) st'"
| other: "rescan_run past st \<Longrightarrow> rows st' = rows st \<Longrightarrow> rescan_run past st'"









text \<open>A whole cycle is such a run.\<close>

lemma run_loop: "rescan_run past st \<Longrightarrow> \<exists>past'. rescan_run past' (fst (rescan_loop env evts cache a b st))"
proof (induction evts arbitrary: past st cache a b)
  case Nil
  then show ?case by auto
next
  case (Cons evt evts)
  have ctx: "rescan_run past (st\<lparr>rs_ctx := c\<rparr>)" for c using rescan_run.other [OF Cons.prems] by simp
  show ?case
  proof (cases "\<exists>c. rs_ctx st = True # c")
    case True
    then show ?thesis using ctx by fastforce
  next
    case False
    obtain st1 c' out where r: "rescanTarget env evt cache (st\<lparr>rs_ctx := tl (rs_ctx st)\<rparr>) = (st1, c', out)" by (metis prod_cases3)
    have run: "rescan_run (past @ [(env, st\<lparr>rs_ctx := tl (rs_ctx st)\<rparr>)]) (rescan_log evs st1)" for evs
      by (rule rescan_run.other [OF rescan_run.target [OF ctx r]]) (simp add: rescan_log_def)
    have "rescan_loop env (evt # evts) cache a b st = (case out of
        RescanScanned \<Rightarrow> rescan_loop env evts c' (a + 1) b (rescan_log [RescanMetric ''rescan_scan'' (ev_Type evt)] st1)
      | RescanSkipped \<Rightarrow> rescan_loop env evts c' a (b + 1) (rescan_log [RescanMetric ''rescan_skip'' (ev_Type evt)] st1)
      | RescanBlocked \<Rightarrow> (st1, LoopBlocked))"
      using False r by (cases out; cases "rs_ctx st"; cases "hd (rs_ctx st)") auto
    then show ?thesis using Cons.IH [OF run] rescan_run.target [OF ctx r] by (cases out) auto
  qed
qed

lemma run_cycle: "rescan_run past st \<Longrightarrow> \<exists>past'. rescan_run past' (fst (runRescanCycle env st))"
proof -
  assume st: "rescan_run past st"
  obtain st1 ts where e: "enumerateTargets env st = (st1, ts)" by fastforce
  have "rows st1 = rows st" using e by (auto simp: enumerateTargets_def split: prod.splits)
  then have st1: "rescan_run past st1" using st rescan_run.other by blast
  obtain st2 r where l: "rescan_loop env ts [] 0 0 st1 = (st2, r)" by fastforce
  obtain past' where p: "rescan_run past' st2" using run_loop [OF st1, of env ts "[]" 0 0] l by auto
  then have "rescan_run past' (rescan_log evs st2)" for evs by (rule rescan_run.other) (simp add: rescan_log_def)
  then show ?thesis using st1 p by (auto simp: runRescanCycle_def e l split: loop_end.splits)
qed

subsection \<open>Healthy rescans\<close>

definition baseline_of :: "rescan_state \<Rightarrow> InstallEvent \<Rightarrow> SnapshotRow option" where
  "baseline_of st evt = find (\<lambda>r. snap_key r = (ev_Type evt, ev_Path evt)) (rows st)"

definition db_healthy :: "rescan_state \<Rightarrow> bool" where
  "db_healthy st \<longleftrightarrow> rd_faults (rs_db st) = []"

lemma healthy_statement: "db_healthy st \<Longrightarrow> next_statement (rs_db st) = rs_db st \<and> \<not> next_fails (rs_db st)"
  by (simp add: db_healthy_def next_statement_def next_fails_def)


lemma healthy_get: "db_healthy st \<Longrightarrow> GetTargetSnapshot (ev_Type evt) (ev_Path evt) (rs_db st) =
    (rs_db st, case baseline_of st evt of None \<Rightarrow> Inl NoRows | Some r \<Rightarrow> Inr r)"
  by (simp add: GetTargetSnapshot_def healthy_statement baseline_of_def)

lemma healthy_scan: "scanAndEmit env evt st = (st1, r, i) \<Longrightarrow> db_healthy st \<Longrightarrow> db_healthy st1 \<and> rs_world st1 = rs_world st"
  by (auto simp: scanAndEmit_def rescan_log_def db_healthy_def split: option.splits sum.splits prod.splits)

lemma healthy_drift: "findingDrift env row r st = (st1, ds) \<Longrightarrow> db_healthy st \<Longrightarrow> db_healthy st1 \<and> rs_world st1 = rs_world st"
  by (auto simp: findingDrift_def loadScanResult_def GetScanRawJSON_def db_healthy_def next_statement_def Let_def split: option.splits prod.splits if_splits)

lemma healthy_alert: "rs_world (alert_if_any env evt ds st) = rs_world st" "db_healthy (alert_if_any env evt ds st) = db_healthy st"
  by (simp_all add: alert_if_any_def emitDriftAlerts_def rescan_log_def Let_def db_healthy_def)

lemma healthy_persist:
  assumes "db_healthy st"
  shows "db_healthy (persistSnapshot env evt snap i fp st) \<and> rs_world (persistSnapshot env evt snap i fp st) = rs_world st \<and>
    baseline_of (persistSnapshot env evt snap i fp st) evt = Some (snapshot_row env evt snap i fp)"
  using healthy_statement [OF assms] assms find_upsert [of "(ev_Type evt, ev_Path evt)" "snapshot_row env evt snap i fp" "rows st"]
  unfolding persistSnapshot_def SetTargetSnapshot_def snapshot_row_def [symmetric] baseline_of_def db_healthy_def
  by (simp add: snapshot_row_def snap_key_def)

lemma healthy_target: "db_healthy st \<Longrightarrow> snapshotForEvent env evt st = (st, Inr snap) \<Longrightarrow> cachedFingerprint env evt cache = (c, fp) \<Longrightarrow>
  rescanTarget env evt cache st =
    (case baseline_of st evt of
       None \<Rightarrow> (case first_scan env evt snap fp st of (st2, outcome) \<Rightarrow> (st2, c, outcome))
     | Some base \<Rightarrow>
         let deltas = compareSnapshots (re_js env) base snap in
         if \<not> shouldRescan base snap fp (re_gated env)
         then (if deltas \<noteq> [] then persistSnapshot env evt snap (sn_ScanID base) (sn_ScannerFingerprint base) (emitDriftAlerts env evt deltas st) else st, c, RescanSkipped)
         else (case drift_scan env evt base snap fp st of (st3, outcome) \<Rightarrow> (st3, c, outcome)))"
  by (simp add: rescanTarget_def healthy_get split: option.splits)

lemma snapshot_of_directory:
  assumes "ev_Type evt \<noteq> ''mcp''" "ev_Path evt = abs_path (p @ [n])" "rs_world st = (fs, [])" "wf_node fs" "names (p @ [n])"
    "get fs (p @ [n]) = Some (Dir m es)" "height (Dir m es) \<le> se_fuel (re_snap env)"
  shows "snapshotForEvent env evt st = (st, if pipe_visible n es then Inl TargetBlocked else Inr (snapshot_of (re_snap env) (visible_files n es)))"
proof -
  have "Stat (abs_path (p @ [n])) (fs, []) = ((fs, []), Inr (Dir m es))"
    using look_get [OF assms(5,6), of True] by (simp add: Stat_def call_no_fault no_link_def)
  then show ?thesis using walk_of_tree [OF assms(4-7)] assms(1-3) by (simp add: snapshotForEvent_def)
qed

text \<open>What JSON loses of a snapshot: nothing, if these hold of its encoding.\<close>

definition codec_keeps :: "json_codec \<Rightarrow> TargetSnapshot \<Rightarrow> bool" where
  "codec_keeps js snap \<longleftrightarrow> js_unmap js (js_map js (ts_DependencyHashes snap)) = ts_DependencyHashes snap \<and>
     js_unmap js (js_map js (ts_ConfigHashes snap)) = ts_ConfigHashes snap \<and> js_unlist js (js_list js (ts_NetworkEndpoints snap)) = ts_NetworkEndpoints snap"

lemma settled_skips:
  assumes "db_healthy st" "snapshotForEvent env evt st = (st, Inr snap)" "cachedFingerprint env evt cache = (c, fp)"
    "baseline_of st evt = Some (snapshot_row env evt snap i fp)" "i \<noteq> []" "re_gated env" "codec_keeps (re_js env) snap" "snapshot_keys snap" "ts_ContentHash snap \<noteq> []"
  shows "rescanTarget env evt cache st = (st, c, RescanSkipped)"
proof -
  have "\<not> shouldRescan (snapshot_row env evt snap i fp) snap fp (re_gated env)" using assms(5,6,9) by (simp add: shouldRescan_def snapshot_row_def)
  moreover have "compareSnapshots (re_js env) (snapshot_row env evt snap i fp) snap = []"
    using assms(7) unfolding compareSnapshots_empty [OF assms(8)] by (simp add: codec_keeps_def snapshot_row_def)
  ultimately show ?thesis by (simp add: healthy_target [OF assms(1-3)] assms(4))
qed

lemma scanned_baseline:
  assumes "db_healthy st" "snapshotForEvent env evt st = (st, Inr snap)" "cachedFingerprint env evt cache = (c, fp)"
    "scanAndEmit env evt st = (st1, result, i)" "i \<noteq> []" "rescanTarget env evt cache st = (st', c', RescanScanned)"
  shows "db_healthy st' \<and> rs_world st' = rs_world st \<and> baseline_of st' evt = Some (snapshot_row env evt snap i fp) \<and> c' = c"
proof (cases "baseline_of st evt")
  case None
  have "st' = persistSnapshot env evt snap i fp st1 \<and> c' = c"
    using assms(6) None by (auto simp: healthy_target [OF assms(1-3)] first_scan_def assms(4) split: if_splits)
  then show ?thesis using healthy_persist healthy_scan [OF assms(4,1)] by simp
next
  case (Some base)
  obtain st2 ds where fd: "findingDrift env base result st1 = (st2, ds)" by fastforce
  let ?st3 = "alert_if_any env evt (compareSnapshots (re_js env) base snap @ ds) st2"
  have "shouldRescan base snap fp (re_gated env)" using assms(6) Some by (auto simp: healthy_target [OF assms(1-3)] Let_def split: if_splits)
  then have "st' = persistSnapshot env evt snap i fp ?st3 \<and> c' = c"
    using assms(5,6) Some by (simp add: healthy_target [OF assms(1-3)] drift_scan_def assms(4) fd Let_def)
  moreover have "db_healthy ?st3" "rs_world ?st3 = rs_world st" using healthy_drift [OF fd] healthy_scan [OF assms(4,1)] healthy_alert by simp_all
  ultimately show ?thesis using healthy_persist by simp
qed

subsection \<open>Properties\<close>


definition sample_codec :: json_codec where
  "sample_codec = \<lparr>js_map = (\<lambda>m. case m of [] \<Rightarrow> [] | e # _ \<Rightarrow> fst e @ '':'' @ snd e),
     js_unmap = (\<lambda>t. if t = [] then [] else let k = takeWhile (\<lambda>c. c \<noteq> CHR '':'') t in [(k, drop (length k + 1) t)]),
     js_list = join ''|'', js_unlist = (\<lambda>t. if t = [] then [] else split_on (CHR ''|'') t)\<rparr>"

definition sample_settings :: scanner_settings where
  "sample_settings = \<lparr>sc_Skill = \<lparr>sk_Binary = ''skill-scanner'', sk_UseLLM = False, sk_UseBehavioral = False, sk_EnableMeta = False, sk_UseTrigger = False,
       sk_UseVirusTotal = False, sk_UseAIDefense = False, sk_LLMConsensus = 0, sk_Policy = [], sk_Lenient = False\<rparr>,
     sc_MCP = \<lparr>mc_Binary = [], mc_Analyzers = [], mc_ScanPrompts = False, mc_ScanResources = False, mc_ScanInstructions = False\<rparr>, sc_Plugin = [],
     sc_LLM = (\<lambda>_. \<lparr>ll_Model = [], ll_Provider = [], ll_BaseURL = []\<rparr>), sc_Version = (\<lambda>_. Some ''1.0''),
     sc_Provenance = \<lparr>pv_BinaryVersion = ''1'', pv_ContentHash = [], pv_Generation = 1, pv_SchemaVersion = 8\<rparr>\<rparr>"

definition sample_rescan :: rescan_env where
  "sample_rescan = \<lparr>re_snap = sample_env, re_js = sample_codec, re_unscan = (\<lambda>_. Some \<lparr>rr_ScanID = ''s1'', rr_Findings = []\<rparr>),
     re_scanner = (\<lambda>_. Some (\<lambda>_. Inr (Some \<lparr>rr_ScanID = ''s1'', rr_Findings = []\<rparr>))),
     re_LogScan = (\<lambda>r scans. ((rr_ScanID r, ''{}'') # scans, r, True)), re_settings = sample_settings, re_gated = True, re_webhooks = False,
     re_skillDirs = [''/''], re_pluginDirs = [], re_now = 0\<rparr>"

definition sample_event :: InstallEvent where
  "sample_event = \<lparr>ev_Type = ''skill'', ev_Name = ''a'', ev_Path = abs_path [''a''], ev_Connector = [], ev_Timestamp = 0\<rparr>"

definition sample_state :: rescan_state where
  "sample_state = \<lparr>rs_world = (one_tree ''x'', []), rs_db = \<lparr>rd_snapshots = [], rd_scans = [], rd_faults = []\<rparr>, rs_mcp = Some [], rs_ctx = [], rs_log = []\<rparr>"

definition sample_scanned :: rescan_state where
  "sample_scanned = fst (rescanTarget sample_rescan sample_event [] sample_state)"

lemma sample_names: "names ([] @ [''a''])"
  by code_simp

definition sample_snapshot :: TargetSnapshot where
  "sample_snapshot = snapshot_of sample_env [([''f''], ''x'')]"

lemma sample_parts: "ts_DependencyHashes sample_snapshot = []" "ts_ConfigHashes sample_snapshot = []" "ts_NetworkEndpoints sample_snapshot = []"
    "ts_ContentHash sample_snapshot \<noteq> []"
  by code_simp+

lemma sample_snap: "rs_world st = (one_tree ''x'', []) \<Longrightarrow> snapshotForEvent sample_rescan sample_event st = (st, Inr sample_snapshot)"
  using snapshot_of_directory [of sample_event "[]" "''a''" st "one_tree ''x''" "0x1ED" "one_file ''x''" sample_rescan, OF _ _ _ one_tree_ok(1) sample_names one_tree_ok(2)]
    one_tree_ok(3,4,5) by (simp add: sample_event_def sample_rescan_def sample_snapshot_def)

lemma sample_healthy: "db_healthy sample_state" "rs_world sample_state = (one_tree ''x'', [])" "baseline_of sample_state evt = None"
  by (simp_all add: db_healthy_def sample_state_def baseline_of_def)

lemma sample_scan: "\<exists>st1 r. scanAndEmit sample_rescan evt st = (st1, Some r, ''s1'')"
  by (simp add: scanAndEmit_def sample_rescan_def)

lemma sample_outcome: "\<exists>c. rescanTarget sample_rescan sample_event [] sample_state = (sample_scanned, c, RescanScanned)"
proof -
  obtain c fp where fp: "cachedFingerprint sample_rescan sample_event [] = (c, fp)" by fastforce
  obtain st1 r where sc: "scanAndEmit sample_rescan sample_event sample_state = (st1, Some r, ''s1'')" using sample_scan by blast
  show ?thesis unfolding sample_scanned_def
    by (simp add: healthy_target [OF sample_healthy(1) sample_snap [OF sample_healthy(2)] fp] sample_healthy(3) first_scan_def sc)
qed







text \<open>
  Rescanning settles: after a rescan of a directory with no special node in it whose scan was stored, the next rescan of the unchanged directory with the same scanner is skipped, logs
  nothing and leaves the state as it is, provided that JSON keeps what the snapshot records.
\<close>

theorem rescan_settles:
  assumes "ev_Type evt \<noteq> ''mcp''" "ev_Path evt = abs_path (p @ [n])" "rs_world st = (fs, [])" "wf_node fs" "names (p @ [n])"
    and "get fs (p @ [n]) = Some (Dir m es)" "height (Dir m es) \<le> se_fuel (re_snap env)" "\<not> pipe_visible n es" "\<forall>x. se_sha (re_snap env) x \<noteq> []"
    and "db_healthy st" "re_gated env" "codec_keeps (re_js env) (snapshot_of (re_snap env) (visible_files n es))"
    and "scanAndEmit env evt st = (st1, result, i)" "i \<noteq> []" "rescanTarget env evt [] st = (st', cache, RescanScanned)"
  shows "rescanTarget env evt [] st' = (st', cache, RescanSkipped)"
proof -
  let ?snap = "snapshot_of (re_snap env) (visible_files n es)"
  obtain c fp where fp: "cachedFingerprint env evt [] = (c, fp)" by fastforce
  have snap: "snapshotForEvent env evt s = (s, Inr ?snap)" if "rs_world s = (fs, [])" for s
    using snapshot_of_directory [OF assms(1,2) that assms(4-7)] assms(8) by simp
  have after: "db_healthy st'" "rs_world st' = (fs, [])" "baseline_of st' evt = Some (snapshot_row env evt ?snap i fp)" "cache = c"
    using scanned_baseline [OF assms(10) snap [OF assms(3)] fp assms(13-15)] assms(3) by simp_all
  have "ts_ContentHash ?snap \<noteq> []" 
  proof -
    have "length (ts_ContentHash ?snap) = 2 * length (se_sha (re_snap env) (content_stream (map (entry_text (re_snap env)) (visible_files n es))))"
      unfolding content_hash_of by (rule length_hex)
    then show ?thesis using assms(9) by auto
  qed
  then show ?thesis using settled_skips [OF after(1) snap [OF after(2)] fp after(3) assms(14,11,12) snapshot_keys_of] after(4) by simp
qed

theorem rescan_settles_witness:
  "\<exists>cache. rescanTarget sample_rescan sample_event [] sample_state = (sample_scanned, cache, RescanScanned) \<and>
     rescanTarget sample_rescan sample_event [] sample_scanned = (sample_scanned, cache, RescanSkipped)"
proof -
  obtain c where out: "rescanTarget sample_rescan sample_event [] sample_state = (sample_scanned, c, RescanScanned)" using sample_outcome by blast
  obtain st1 r where sc: "scanAndEmit sample_rescan sample_event sample_state = (st1, Some r, ''s1'')" using sample_scan by blast
  have "se_sha (re_snap sample_rescan) x \<noteq> []" for x using sample_sha_length [THEN spec, of x] by (auto simp: sample_rescan_def)
  then have sha: "\<forall>x. se_sha (re_snap sample_rescan) x \<noteq> []" by blast
  have keep: "codec_keeps (re_js sample_rescan) (snapshot_of (re_snap sample_rescan) (visible_files ''a'' (one_file ''x'')))"
    using sample_parts by (simp add: codec_keeps_def one_tree_ok(4) sample_rescan_def sample_snapshot_def sample_codec_def)
  have h: "height (Dir 0x1ED (one_file ''x'')) \<le> se_fuel (re_snap sample_rescan)" using one_tree_ok(3) [of "''x''"] by (simp add: sample_rescan_def)
  have ev: "ev_Type sample_event \<noteq> ''mcp''" "ev_Path sample_event = abs_path ([] @ [''a''])" by (simp_all add: sample_event_def)
  have gated: "re_gated sample_rescan" by (simp add: sample_rescan_def)
  have "''s1'' \<noteq> []" by simp
  from rescan_settles [OF ev sample_healthy(2) one_tree_ok(1) sample_names one_tree_ok(2) h one_tree_ok(5) sha sample_healthy(1) gated keep sc this out] out
  show ?thesis by blast
qed

text \<open>
  A named pipe stops the rescans for good: a directory in which one is visible blocks the call that comes to it, whatever targets follow it
  and whatever their state, and the cycle never returns.
\<close>

theorem named_pipe_stops_rescans:
  assumes "ev_Type evt \<noteq> ''mcp''" "ev_Path evt = abs_path (p @ [n])" "rs_world st = (fs, [])" "wf_node fs" "names (p @ [n])"
    and "get fs (p @ [n]) = Some (Dir m es)" "height (Dir m es) \<le> se_fuel (re_snap env)" "pipe_visible n es" "rs_ctx st = []"
  shows "rescan_loop env (evt # evts) cache scanned skipped st = (st, LoopBlocked) \<and>
    (enumerateTargets env st0 = (st, evt # evts) \<longrightarrow> runRescanCycle env st0 = (st, False))"
proof -
  have "snapshotForEvent env evt st = (st, Inl TargetBlocked)" using snapshot_of_directory [OF assms(1-7)] assms(8) by simp
  then have target: "rescanTarget env evt c st = (st, c, RescanBlocked)" for c by (simp add: rescanTarget_def)
  have keep: "st\<lparr>rs_ctx := tl []\<rparr> = st" using assms(9) by simp
  have loop: "rescan_loop env (evt # evts) c a b st = (st, LoopBlocked)" for c a b
    unfolding rescan_loop.simps assms(9) list.case keep target by simp
  then show ?thesis by (simp add: runRescanCycle_def del: rescan_loop.simps)
qed

definition piped_state :: rescan_state where
  "piped_state = sample_state\<lparr>rs_world := (Dir 0x1ED [(''a'', Dir 0x1ED [(''p'', Special)])], [])\<rparr>"

theorem named_pipe_stops_rescans_witness: "runRescanCycle sample_rescan piped_state = (piped_state, False)"
proof -
  let ?fs = "Dir 0x1ED [(''a'', Dir 0x1ED [(''p'', Special)])]"
  have "wf_node ?fs" "height (Dir 0x1ED [(''p'', Special)]) \<le> se_fuel (re_snap sample_rescan)" "pipe_visible ''a'' [(''p'', Special)]"
    by (simp_all add: path_name_def pipe_visible_def skippedDirs_def sample_rescan_def sample_env_def)
  moreover have "get ?fs ([] @ [''a'']) = Some (Dir 0x1ED [(''p'', Special)])" "rs_world piped_state = (?fs, [])" "rs_ctx piped_state = []"
    by (simp_all add: piped_state_def sample_state_def)
  moreover have "ev_Type sample_event \<noteq> ''mcp''" "ev_Path sample_event = abs_path ([] @ [''a''])" by (simp_all add: sample_event_def)
  moreover have "enumerateTargets sample_rescan piped_state = (piped_state, [sample_event])"
    by code_simp
  ultimately show ?thesis using named_pipe_stops_rescans [of sample_event "[]" "''a''" piped_state ?fs _ _ sample_rescan "[]"] sample_names by blast
qed

end
