(* ===== verification/Spec2Isabelle.thy ===== *)
theory Spec2Isabelle
  imports
    Delivery_Circuit Delivery_Batch Delivery_Safety
    Guardrail_ToolChain Guardrail_VerdictCache Audit_FindingStore
    Net_Guard Net_Scrub
    Config_Connectors Config_AssetPolicy
    Audit_Actions Enforce_Policy Policy_Fallback Watcher_Admission
    Observability_Router RuntimeGraph_Cleanup Watcher_Quarantine Watcher_Snapshot Watcher_Rescan
begin

text \<open>
  A verification library of DefenseClaw, the security gateway for AI agents whose Go sources are under
  \<^verbatim>\<open>src/internal\<close>.

  \<^bold>\<open>The program.\<close>  A sidecar watches what an agent installs and does.  The \<^emph>\<open>watcher\<close> runs every new skill, plugin or
  MCP server through an admission gate that consults the \<^emph>\<open>asset policy\<close> of the configuration, the \<^emph>\<open>policy engine\<close> over
  the enforcement table of the audit store, the Rego engine or the \<^emph>\<open>built-in policy\<close>, and a scanner.  Findings are
  stored, and the \<^emph>\<open>correlator\<close> and the \<^emph>\<open>tool chain matcher\<close> look for multi-step attacks in them; the judge's
  answers are kept in the \<^emph>\<open>verdict cache\<close>.  Everything that leaves the process goes through the \<^emph>\<open>network guard\<close>, and telemetry
  is assigned to destinations by the \<^emph>\<open>router\<close> and sent by one \<^emph>\<open>dispatcher\<close> per destination, protected by a \<^emph>\<open>circuit breaker\<close>.  The
  \<^emph>\<open>runtime graph manager\<close> replaces a complete generation of such components by another while producers use them.

  \<^bold>\<open>The theories\<close>, in the order of their imports.

  \<^item> \<open>Go_Prelude\<close>: byte strings, times, the functions of package \<^verbatim>\<open>strings\<close> that the sources use, decimal and hexadecimal
    printing, and lemmas shared by the components.  \<open>Go_Path\<close>: package \<^verbatim>\<open>filepath\<close> on slash-separated paths, with absolute paths as lists of
    elements.

  \<^item> \<open>Delivery_Circuit\<close> (\<^verbatim>\<open>observability/delivery/circuit.go\<close>): the stand-alone breaker, one definition per method on the record
    \<open>Circuit\<close>.  The locale \<open>breaker\<close> is the contract it shares with the breaker inside the dispatcher.  Shown: the
    reachable states satisfy the invariant, one probe at a time, the breaker trips at the threshold and never
    stays shut for good; and a late \<open>AbortProbe\<close> that its comment rules out.

  \<^item> \<open>Delivery_Types\<close>, \<open>Delivery_Dispatcher\<close> (\<^verbatim>\<open>types.go\<close>, \<^verbatim>\<open>payload.go\<close>, \<^verbatim>\<open>dispatcher.go\<close>, \<^verbatim>\<open>health.go\<close>): the queue's record and
    one definition per critical section.  \<open>Delivery_Ledger\<close>: the abstract ledger and the refinement of each
    section to one of its operations.  \<open>Delivery_Worker\<close>: producers, worker and lifecycle calls interleaved by the step relation
    \<open>dstep\<close>.  \<open>Delivery_Batch\<close>: admission, batch selection, delivery, backoff, size estimate.  \<open>Delivery_Safety\<close>: accounting
    in every reachable state, bounds, lossless draining, and two schedules that leave a breaker half-open for ever
    or an accepted record unaccounted.

  \<^item> \<open>Guardrail_Correlator\<close>, \<open>Audit_ScanPersist\<close>, \<open>Guardrail_Session\<close>, \<open>Audit_FindingStore\<close> (\<^verbatim>\<open>guardrail/correlator.go\<close>,
    \<^verbatim>\<open>guardrail/session_correlator.go\<close>, \<^verbatim>\<open>audit/scan_persist.go\<close>): the matchers against the declarative meaning of a pattern; the
    session correlator over the locale \<open>finding_store\<close>, which the store's model interprets.  Shown: in every history of the table
    (\<open>finding_history\<close>) a rule is persisted at most once per session and agent, and partitions do not influence each other; and a session
    identifier with a surrounding blank, under which it is persisted again at every run.

  \<^item> \<open>Guardrail_ToolChain\<close> (\<^verbatim>\<open>guardrail/tool_chain.go\<close>): exactly the chains with an eligible predecessor in the windows are reported.
    \<open>Guardrail_VerdictCache\<close> (\<^verbatim>\<open>guardrail/verdict_cache.go\<close>): a hit is the last verdict stored, unexpired and of the current
    generation; and a verdict of an old policy stored late.

  \<^item> \<open>Net_Guard\<close> (\<^verbatim>\<open>netguard/*.go\<close>): addresses as 32- and 128-bit words; the process-wide guard equals explicit numeric ranges, and
    both dialers reach only permitted addresses, the exporters' one by explicit tables of both families.  \<open>Net_Scrub\<close> (\<^verbatim>\<open>sensitivequery/key.go\<close>, \<open>scrubRawQuery\<close>): no value of a sensitive key
    survives in a logged query, and every other item is kept at its place.

  \<^item> \<open>Config_Connectors\<close> (\<^verbatim>\<open>config/config.go\<close>, \<^verbatim>\<open>config/application_protection.go\<close>, \<^verbatim>\<open>config/claw.go\<close>): resolution and validation of
    per-connector settings.  The locale \<open>validated_overrides\<close> is what \<open>Validate\<close> promises the resolvers.  Shown: after validation the
    result does not depend on Go's map order, and what decides whether hooks fail open or closed.
    \<open>Config_AssetPolicy\<close> (\<^verbatim>\<open>config/asset_policy.go\<close>): the decision of the asset policy, and the override table that nothing validates.

  \<^item> \<open>Audit_Actions\<close> (\<^verbatim>\<open>audit/store.go\<close>, Actions): the enforcement table, statement by statement.  \<open>Enforce_Policy\<close>
    (\<^verbatim>\<open>enforce/policy.go\<close>): the policy engine; the locale \<open>scoped_setting\<close> is interpreted on the connector column and on the tool
    name encoding.  Shown: every query answers the most specific entry, block and unblock restore the decisions, and the three
    outcomes of an allow.

  \<^item> \<open>Policy_Fallback\<close> (\<^verbatim>\<open>policy/fallback.go\<close>, \<^verbatim>\<open>policy/types.go\<close>): the built-in policy, its verdicts as a table.  \<open>Watcher_Admission\<close>
    (\<^verbatim>\<open>watcher/watcher.go\<close>, \<open>runAdmission\<close>): the gates in the order of the code, over the policy engine, the asset policy and the
    built-in policy.  Shown: an asset blocked for its connector is refused whatever scanner is installed, clean needs a scan, a failing scanner
    fails closed, a manual entry wins over a running scan; and two ways in which an asset is admitted, one in which it is refused, against
    the documentation.

  \<^item> \<open>Go_FileSystem\<close>: a Unix file system as a tree of files, directories and links with permission bits, path resolution, and the calls
    of package \<^verbatim>\<open>os\<close> that the quarantine makes, each of which may fail.  \<open>Enforce_Quarantine\<close> (\<^verbatim>\<open>enforce/quarantine_asset.go\<close>,
    \<^verbatim>\<open>enforce/bundled_skill.go\<close>): planning, content hash, copy, and the two transactions.  \<open>Enforce_QuarantineTree\<close>: containment and the
    digest of a tree; \<open>Enforce_QuarantineCopy\<close>, \<open>Enforce_QuarantineMove\<close>: what each step ensures whatever call fails;
    \<open>Enforce_QuarantineSafety\<close>, \<open>Enforce_QuarantineTheorems\<close>: the asset is never lost, a restore undoes a quarantine, nothing else changes, the
    hash returns and is the digest of the tree; and a hash collision, a name that prevents a quarantine, a recovery that fails for
    ever and a link through which the only copy is removed.

  \<^item> \<open>Audit_Quarantine\<close> (\<^verbatim>\<open>audit/quarantine_provenance.go\<close>): the journal of quarantined assets, two tables of the audit store whose
    transactions roll back when a statement fails.  Shown: paths stay unique, states valid and every connector row belongs to a record
    under every operation; completing a restore clears the file action of the asset and no other.  \<open>Watcher_Quarantine\<close>
    (\<^verbatim>\<open>watcher/watcher.go\<close>: \<open>quarantineAsset\<close> after the check for restored files, and \<open>RestoreQuarantined\<close>): the composition of the file
    transactions with the journal.  Shown: whatever call fails, a copy that is in quarantine has its record, and a restore
    keeps the copy with its record until the asset is back.

  \<^item> \<open>Watcher_Snapshot\<close> (\<^verbatim>\<open>watcher/snapshot.go\<close>): the walk through a directory and the digest of what it finds.  Shown: what exactly is
    read, that equal content hashes mean equal visible files, and the directories that are never looked at; a name that forges an
    entry; and the named pipe on which the call never returns.  \<open>Watcher_Rescan\<close> (\<^verbatim>\<open>watcher/rescan.go\<close>, the table
    \<open>target_snapshots\<close> of \<^verbatim>\<open>audit/store.go\<close>): a rescan compares each target with its baseline and scans it again when the contents
    or the scanner's fingerprint have changed.  Shown: a changed target is reported at every rescan until a scan of the new contents is
    stored, a baseline that claims a scan has one, rescans settle; and one named pipe stops them for all targets.
    In the log of the model \<open>ScanStarted\<close> records that the scanner was called.

  \<^item> \<open>Observability_Router\<close> (\<^verbatim>\<open>observability/router/router.go\<close>, the vocabulary of \<^verbatim>\<open>observability/taxonomy.go\<close>): the evaluator that is built
    from a compiled plan and decides what is collected and where it goes.  Shown: the first matching route of each destination decides,
    a mandatory log that is not collected reaches the local store and nothing else, and the managed fallback carries only
    dropped logs to the release-owned destination.  \<open>validLocalDestination\<close> does not check that the local selector restricts
    the bucket only, so that the floor is delivered is proved under that condition.

  \<^item> \<open>RuntimeGraph_Reports\<close>, \<open>RuntimeGraph_Build\<close>, \<open>RuntimeGraph_Manager\<close>, \<open>RuntimeGraph_Safety\<close>, \<open>RuntimeGraph_Cleanup\<close>
    (\<^verbatim>\<open>observability/runtimegraph/manager.go\<close>): the report spool and its worker (\<open>rstep\<close>); configurations, factories, the all-or-nothing
    build and the teardown of entries; leases, reload, close, cleanup goroutines and retries as one step relation (\<open>mstep\<close>).  The locale
    \<open>rundown\<close> is the contract of a reference count that signals when its last user leaves, interpreted on the activation of a graph.
    Shown: a component is never torn down under a lease, an instance belongs to one generation, reports arrive in order and a
    successful flush has delivered them, nothing is leaked once \<open>WaitCleanup\<close> returns; and a schedule in which the report of a failed
    \<open>Close\<close> is lost.

  \<^bold>\<open>State and effects.\<close>  A struct is a record with the source's fields (those that the modelled functions read, where the theory
  says so), a method a function from the state to the state and its results; a nil receiver or an absent store is \<open>None\<close>.  An
  error is a value.  A Go map that is ranged over is the list of its entries in an arbitrary order.  The clock,
  generated identifiers and failures of the database are inputs, consumed in order.  Concurrency is an interleaving of critical
  sections (\<open>dstep\<close>, \<open>mstep\<close>; the teardown of an entry and the retry of a batch are one step each, though the code gives back the
  identity of a component and removes the batch in critical sections of their own, so that invariants hold between such steps), or, for the admission gate, a scanner that returns the table as others have left it.

  \<^bold>\<open>Bounds and fuel.\<close>  The delivery loop recurses on the number of attempts left, at most \<open>MaxAttempts\<close>; one call of the adapter
  is one step of \<open>dstep\<close>.  \<open>fired_loop\<close> takes as fuel the number of keys it was given, and every iteration consumes one.
  \<open>canonical_loop\<close> counts the decode passes of the source, at most \<open>maxDecodePasses\<close>; \<open>scrub_pairs\<close>
  consumes its input.  The hash and the copy of a tree recurse on fuel; the nesting depth of the tree is enough (\<open>height\<close>), and running
  out is an error of its own.  A call that never returns (the opening of a named pipe, for which every special file is taken) is a
  value of its own: \<open>EBLOCKED\<close>, \<open>WalkBlocked\<close>, \<open>LoopBlocked\<close>.  Resolution of a path follows at most 40 links, as Linux does.  Counters that wrap are \<open>64 word\<close> (the theorems on reports hold while fewer than \<open>2 ^ 64\<close> batches are numbered), addresses \<open>32 word\<close> and \<open>128 word\<close>.

  \<^bold>\<open>Not modelled\<close>: the gateway's HTTP proxy and sidecar (streams and provider protocols), the connectors and hooks (edits of other
  programs' files), the action-fact classifiers (they walk the trees of a third-party shell parser), the redaction
  engine and exporters (regular expressions and wire formats), generated telemetry code, the event log and the other tables of the audit
  store, the earlier skill and plugin enforcers (only tests call them), scanners and inventory, the Rego policies (an argument of
  \<open>runAdmission\<close> with their block-list contract as a hypothesis), firewall and sandbox (text for other programs), command line and installers, and
  the Python and TypeScript parts.  Of the file system, owners, times, the bits above the permissions and changes by other processes during
  a transaction are left out.
\<close>

end
